(* ===== verification/Prelude.thy ===== *)
theory Prelude
  imports Main "HOL-Library.Word" "HOL-Library.Monad_Syntax"
begin

text \<open>
  Shared vocabulary of the development.

  A run of the C program that fails an C assertion, reads or writes outside
  an allocation, or does not return, is the value \<^term>\<open>None\<close>; a normal return is
  \<^term>\<open>Some r\<close>.  An allocation is the list of its bytes, so that its length is the
  number of bytes that were allocated, and a pointer into it is an offset.
\<close>

named_theorems mem_simps \<open>reads and writes of byte buffers\<close>
named_theorems monad_simps \<open>inversion of the option monad\<close>

section \<open>Bytes, assertions and buffers\<close>

type_synonym byte = "8 word"
type_synonym uint8 = "8 word"
type_synonym uint16 = "16 word"
type_synonym uint32 = "32 word"
type_synonym uint64 = "64 word"

text \<open>What fresh memory holds: \<^term>\<open>malloc\<close> and \<^term>\<open>realloc\<close> leave it unspecified, so the
  operations that call them take the fill as an argument.\<close>
type_synonym fill = "nat \<Rightarrow> byte"

definition c_assert :: "bool \<Rightarrow> unit option" where
  "c_assert b = (if b then Some () else None)"

lemma c_assert_simps [simp]:
  "c_assert True = Some ()" "c_assert False = None"
  by (simp_all add: c_assert_def)

lemma c_assert_eq_Some [monad_simps]: "c_assert b = Some u \<longleftrightarrow> b"
  by (simp add: c_assert_def)

lemma bind_Some_conv [monad_simps]:
  "Option.bind m f = Some y \<longleftrightarrow> (\<exists>x. m = Some x \<and> f x = Some y)"
  by (cases m) simp_all

lemma c_assert_bind: "b \<Longrightarrow> Option.bind (c_assert b) f = f ()"
  by simp

lemma c_assert_bind_fail: "\<not> b \<Longrightarrow> Option.bind (c_assert b) f = None"
  by simp

text \<open>Conversion of a pointer difference to the type int.\<close>
definition c_int :: "int \<Rightarrow> int" where
  "c_int x = sint (word_of_int x :: 32 word)"

lemma c_int_id: "- (2 ^ 31) \<le> x \<Longrightarrow> x < 2 ^ 31 \<Longrightarrow> c_int x = x"
  unfolding c_int_def by (simp only: int_word_sint) simp

lemma c_int_nat: "n < 2 ^ 31 \<Longrightarrow> c_int (int n) = int n"
  by (rule c_int_id) simp_all

text \<open>Conversion of a signed value to the unsigned 64-bit type of sizes.\<close>
definition c_size :: "int \<Rightarrow> int" where
  "c_size x = x mod 2 ^ 64"

lemma c_size_id: "0 \<le> x \<Longrightarrow> x < 2 ^ 64 \<Longrightarrow> c_size x = x"
  by (simp add: c_size_def)

definition mem_load :: "byte list \<Rightarrow> nat \<Rightarrow> nat \<Rightarrow> byte list option" where
  "mem_load buf off n = (if off + n \<le> length buf then Some (take n (drop off buf)) else None)"

definition mem_store :: "byte list \<Rightarrow> nat \<Rightarrow> byte list \<Rightarrow> byte list option" where
  "mem_store buf off bs =
     (if off + length bs \<le> length buf
      then Some (take off buf @ bs @ drop (off + length bs) buf) else None)"

definition mem_calloc :: "nat \<Rightarrow> nat \<Rightarrow> byte list" where
  "mem_calloc n sz = replicate (n * sz) 0"

definition mem_realloc :: "fill \<Rightarrow> byte list \<Rightarrow> nat \<Rightarrow> byte list" where
  "mem_realloc fresh buf n = take n buf @ map fresh [length buf..<n]"

definition mem_memset0 :: "byte list \<Rightarrow> nat \<Rightarrow> nat \<Rightarrow> byte list option" where
  "mem_memset0 buf off n = mem_store buf off (replicate n 0)"

lemma length_mem_calloc [simp]: "length (mem_calloc n sz) = n * sz"
  by (simp add: mem_calloc_def)

lemma length_mem_realloc [simp]: "length (mem_realloc fresh buf n) = n"
  by (simp add: mem_realloc_def)

lemma mem_load_ok: "off + n \<le> length buf \<Longrightarrow> mem_load buf off n = Some (take n (drop off buf))"
  by (simp add: mem_load_def)

lemma mem_store_ok: "off + length bs \<le> length buf \<Longrightarrow>
    mem_store buf off bs = Some (take off buf @ bs @ drop (off + length bs) buf)"
  by (simp add: mem_store_def)

lemma mem_store_length: "mem_store buf off bs = Some buf' \<Longrightarrow> length buf' = length buf"
  by (auto simp: mem_store_def split: if_splits)

section \<open>A buffer as a sequence of fixed-size elements\<close>

definition elem :: "nat \<Rightarrow> byte list \<Rightarrow> nat \<Rightarrow> byte list" where
  "elem k buf i = take k (drop (i * k) buf)"

lemma mult_Suc_le: "i < n \<Longrightarrow> i * k + k \<le> n * (k::nat)"
  by (metis Suc_leI add.commute mult_Suc mult_le_mono1)

lemma length_elem: "i < n \<Longrightarrow> n * k \<le> length buf \<Longrightarrow> length (elem k buf i) = k"
  using mult_Suc_le[of i n k] by (simp add: elem_def)

lemma elem_append_left:
  assumes "i < n" "length xs = n * k" shows "elem k (xs @ ys) i = elem k xs i"
  using mult_Suc_le[OF assms(1), of k] assms(2) by (simp add: elem_def)

lemma elem_append_right:
  assumes "n \<le> i" "length xs = n * k" shows "elem k (xs @ ys) i = elem k ys (i - n)"
proof -
  have "n * k \<le> i * k" using assms(1) by simp
  then show ?thesis using assms by (simp add: elem_def diff_mult_distrib)
qed

lemma elem_take: "i < n \<Longrightarrow> elem k (take (n * k) buf) i = elem k buf i"
proof -
  assume "i < n"
  then have "i * k + k \<le> n * k" by (rule mult_Suc_le)
  then have "min k (n * k - i * k) = k" by simp
  then show ?thesis by (simp add: elem_def drop_take)
qed

lemma elem_drop: "elem k (drop (n * k) buf) i = elem k buf (i + n)"
  by (simp add: elem_def add_mult_distrib)

text \<open>The one fact about writes: a store of \<open>n\<close> whole elements at element \<open>p\<close>.\<close>
lemma elem_store:
  assumes st: "mem_store buf (p * k) bs = Some buf'" and bs: "length bs = n * k"
  shows "elem k buf' i = (if p \<le> i \<and> i < p + n then elem k bs (i - p) else elem k buf i)"
proof -
  have le: "p * k + n * k \<le> length buf"
    and b': "buf' = take (p * k) buf @ bs @ drop ((p + n) * k) buf"
    using st bs by (auto simp: mem_store_def add_mult_distrib split: if_splits)
  have lt: "length (take (p * k) buf) = p * k" using le by simp
  consider "i < p" | "p \<le> i" "i < p + n" | "p + n \<le> i" by linarith
  then show ?thesis
  proof cases
    case 1
    then show ?thesis by (simp add: b' elem_append_left[OF 1 lt] elem_take)
  next
    case 2
    then have "i - p < n" by linarith
    then show ?thesis using 2 by (simp add: b' elem_append_right[OF _ lt] elem_append_left[OF _ bs])
  next
    case 3
    then have "n \<le> i - p" "p \<le> i" by linarith+
    then show ?thesis using 3
      by (simp add: b' elem_append_right[OF _ lt] elem_append_right[OF _ bs] elem_drop)
  qed
qed

lemma elem_store_one:
  "mem_store buf (p * k) bs = Some buf' \<Longrightarrow> length bs = k \<Longrightarrow>
     elem k buf' i = (if i = p then bs else elem k buf i)"
  using elem_store[of buf p k bs buf' 1 i] by (auto simp: elem_def)

lemma elem_load:
  "mem_load buf (p * k) (n * k) = Some bs \<Longrightarrow> i < n \<Longrightarrow> elem k bs i = elem k buf (p + i)"
  by (auto simp: mem_load_def elem_take elem_drop add.commute split: if_splits)

lemma mem_load_elem: "(p + 1) * k \<le> length buf \<Longrightarrow> mem_load buf (p * k) k = Some (elem k buf p)"
  by (simp add: mem_load_def elem_def add.commute)

lemma mem_load_length: "mem_load buf off n = Some bs \<Longrightarrow> length bs = n"
  by (auto simp: mem_load_def split: if_splits)

lemma elem_realloc:
  assumes "i < n" "n * k \<le> m" "n * k \<le> length buf"
  shows "elem k (mem_realloc fresh buf m) i = elem k buf i"
proof -
  have le: "i * k + k \<le> n * k" using assms(1) by (rule mult_Suc_le)
  have "take k (drop (i * k) (take m buf)) = take k (drop (i * k) buf)"
    using le assms(2) by (simp add: drop_take)
  then show ?thesis using le assms by (simp add: mem_realloc_def elem_def)
qed

text \<open>The elements numbered \<open>[a..<b]\<close> of a buffer.\<close>
definition elems :: "nat \<Rightarrow> byte list \<Rightarrow> nat \<Rightarrow> nat \<Rightarrow> byte list list" where
  "elems k buf a b = map (elem k buf) [a..<b]"

lemma length_elems [simp]: "length (elems k buf a b) = b - a"
  by (simp add: elems_def)

lemma elems_empty [simp]: "b \<le> a \<Longrightarrow> elems k buf a b = []"
  by (simp add: elems_def)

lemma elems_Cons: "a < b \<Longrightarrow> elems k buf a b = elem k buf a # elems k buf (Suc a) b"
  by (simp add: elems_def upt_conv_Cons)

lemma elems_Suc: "a \<le> b \<Longrightarrow> elems k buf a (Suc b) = elems k buf a b @ [elem k buf b]"
  by (simp add: elems_def)

lemma elems_cong:
  "(\<And>i. a \<le> i \<Longrightarrow> i < b \<Longrightarrow> elem k buf i = elem k buf' i) \<Longrightarrow> elems k buf a b = elems k buf' a b"
  by (simp add: elems_def)

lemma elems_split: "a \<le> m \<Longrightarrow> m \<le> b \<Longrightarrow> elems k buf a b = elems k buf a m @ elems k buf m b"
  by (metis elems_def le_Suc_ex map_append upt_add_eq_append)

lemma elems_take: "a + n \<le> b \<Longrightarrow> take n (elems k buf a b) = elems k buf a (a + n)"
  by (simp add: elems_def take_map)

lemma elems_drop: "drop n (elems k buf a b) = elems k buf (a + n) b"
  by (simp add: elems_def drop_map)

lemma elems_nth: "i < b - a \<Longrightarrow> elems k buf a b ! i = elem k buf (a + i)"
  by (simp add: elems_def)

end
