(* ===== verification/Seq_Arr.thy ===== *)
theory Seq_Arr
  imports Prelude
begin

text \<open>
  The growable array of src/util/alg_ds/ds/seq_container/seq_arr.c.

  \<open>sa_data\<close> is the allocation behind \<open>data\<close>, byte by byte and with its real length;
  iterators are offsets from \<open>data\<close>.  The fractional occupancy of \<open>maybe_shrink\<close> is the
  comparison of \<open>4 * size\<close> with \<open>cap\<close>: capacities are powers of two, and the conversion
  of \<open>size\<close> to a C float is exact up to \<open>2 ^ 24\<close>.  Sizes are mathematical naturals, the
  pointer differences that the code stores in an \<open>int\<close> are truncated to 32 bits.
\<close>

section \<open>State and operations\<close>

record seq_arr =
  sa_data :: "byte list"
  sa_size :: nat
  sa_elt_size :: nat
  sa_cap :: nat

definition MIN_SIZE :: nat where
  "MIN_SIZE = 8"

definition maybe_expand :: "fill \<Rightarrow> seq_arr \<Rightarrow> seq_arr" where
  "maybe_expand fresh arr =
     (if sa_size arr + 1 = sa_cap arr
      then arr\<lparr>sa_data := mem_realloc fresh (sa_data arr) (2 * sa_cap arr * sa_elt_size arr),
               sa_cap := sa_cap arr * 2\<rparr>
      else arr)"

definition maybe_shrink :: "seq_arr \<Rightarrow> seq_arr option" where
  "maybe_shrink arr =
     (if MIN_SIZE < sa_size arr \<and> 4 * sa_size arr < sa_cap arr
      then do {
        c_assert (MIN_SIZE < sa_cap arr);
        let cap = sa_cap arr div 2;
        let tmp = mem_calloc cap cap;
        c_assert (sa_size arr \<le> cap);
        old \<leftarrow> mem_load (sa_data arr) 0 (sa_size arr * sa_elt_size arr);
        tmp \<leftarrow> mem_store tmp 0 old;
        Some (arr\<lparr>sa_data := tmp, sa_cap := cap\<rparr>)
      }
      else Some arr)"

definition seq_arr_init :: "nat \<Rightarrow> seq_arr" where
  "seq_arr_init elt_size =
     \<lparr>sa_data = mem_calloc MIN_SIZE elt_size, sa_size = 0, sa_elt_size = elt_size,
      sa_cap = MIN_SIZE\<rparr>"

definition seq_arr_size :: "seq_arr \<Rightarrow> nat" where
  "seq_arr_size arr = sa_size arr"

definition seq_arr_front :: "seq_arr \<Rightarrow> nat" where
  "seq_arr_front arr = 0"

definition seq_arr_next :: "seq_arr \<Rightarrow> nat \<Rightarrow> nat" where
  "seq_arr_next arr it = it + sa_elt_size arr"

definition seq_arr_end :: "seq_arr \<Rightarrow> nat" where
  "seq_arr_end arr = sa_size arr * sa_elt_size arr"

definition seq_arr_at :: "seq_arr \<Rightarrow> nat \<Rightarrow> nat option" where
  "seq_arr_at arr pos = do { c_assert (pos < sa_size arr); Some (pos * sa_elt_size arr) }"

text \<open>The quotient is computed in \<open>size_t\<close>: a negative difference is a huge unsigned number,
  whose quotient by an element size above 1 does not fail the assertion.\<close>
definition seq_arr_dist :: "seq_arr \<Rightarrow> nat \<Rightarrow> nat \<Rightarrow> int option" where
  "seq_arr_dist arr first_it last_it = do {
     c_assert (0 < sa_elt_size arr);
     let pos = sint (word_of_int (c_size (int last_it - int first_it) div int (sa_elt_size arr)) :: 64 word);
     c_assert (-1 < pos);
     Some pos
   }"

definition seq_arr_equal :: "seq_arr \<Rightarrow> nat \<Rightarrow> nat \<Rightarrow> bool" where
  "seq_arr_equal arr it_1 it_2 = (it_1 = it_2)"

definition seq_arr_value :: "seq_arr \<Rightarrow> nat \<Rightarrow> nat option" where
  "seq_arr_value arr it = do { c_assert False; Some 0 }"

text \<open>The elements handed to \<open>free_func\<close>, in order.\<close>
partial_function (option) seq_arr_free_loop :: "seq_arr \<Rightarrow> nat \<Rightarrow> byte list list option" where
  "seq_arr_free_loop arr start_it =
     (if start_it = seq_arr_end arr then Some []
      else do {
        e \<leftarrow> mem_load (sa_data arr) start_it (sa_elt_size arr);
        es \<leftarrow> seq_arr_free_loop arr (seq_arr_next arr start_it);
        Some (e # es)
      })"

definition seq_arr_free :: "seq_arr \<Rightarrow> bool \<Rightarrow> byte list list option" where
  "seq_arr_free arr has_free_func =
     (if has_free_func then seq_arr_free_loop arr (seq_arr_front arr) else Some [])"

definition seq_arr_push_back :: "fill \<Rightarrow> seq_arr \<Rightarrow> byte list \<Rightarrow> nat \<Rightarrow> seq_arr option" where
  "seq_arr_push_back fresh arr dat len = do {
     c_assert (len = sa_elt_size arr);
     let arr = maybe_expand fresh arr;
     let offset = sa_size arr * sa_elt_size arr;
     src \<leftarrow> mem_load dat 0 (sa_elt_size arr);
     buf \<leftarrow> mem_store (sa_data arr) offset src;
     Some (arr\<lparr>sa_data := buf, sa_size := sa_size arr + 1\<rparr>)
   }"

definition seq_arr_erase :: "seq_arr \<Rightarrow> nat \<Rightarrow> nat \<Rightarrow> seq_arr option" where
  "seq_arr_erase arr start_it end_it = do {
     c_assert (start_it \<le> end_it);
     if start_it = end_it then Some arr
     else do {
       let num_bytes_move = c_int (int (seq_arr_end arr) - int end_it);
       c_assert (-1 < num_bytes_move);
       moved \<leftarrow> mem_load (sa_data arr) end_it (nat num_bytes_move);
       buf \<leftarrow> mem_store (sa_data arr) start_it moved;
       let num_bytes_erase = c_int (int end_it - int start_it);
       c_assert (0 < sa_elt_size arr);
       let num_elm_erase = c_int (c_size num_bytes_erase div int (sa_elt_size arr));
       c_assert (0 < num_elm_erase);
       let arr = arr\<lparr>sa_data := buf, sa_size := sa_size arr - nat num_elm_erase\<rparr>;
       buf \<leftarrow> mem_memset0 (sa_data arr) (seq_arr_end arr) (nat (c_size num_bytes_erase));
       maybe_shrink (arr\<lparr>sa_data := buf\<rparr>)
     }
   }"

section \<open>Invariant and abstraction\<close>

text \<open>The capacity is a power of two of at least 8 and the allocation holds all of it.\<close>
definition seq_arr_ok :: "seq_arr \<Rightarrow> bool" where
  "seq_arr_ok arr \<longleftrightarrow>
     0 < sa_elt_size arr \<and> MIN_SIZE \<le> sa_cap arr \<and> (\<exists>n. sa_cap arr = 2 ^ n) \<and>
     sa_size arr < sa_cap arr \<and> sa_cap arr * sa_elt_size arr \<le> length (sa_data arr)"

definition seq_arr_elems :: "seq_arr \<Rightarrow> byte list list" where
  "seq_arr_elems arr = elems (sa_elt_size arr) (sa_data arr) 0 (sa_size arr)"

lemma two_power_ge_64: "\<exists>n. (c::nat) = 2 ^ n \<Longrightarrow> 36 < c \<Longrightarrow> \<exists>n. c = 2 ^ n * 64"
proof -
  assume "\<exists>n. c = 2 ^ n" "36 < c"
  then obtain n where n: "c = 2 ^ n" and "(2::nat) ^ 5 < 2 ^ n" by auto
  then have "6 \<le> n" using power_less_imp_less_exp[of "2::nat" 5 n] by simp
  then have "c = 2 ^ (n - 6) * 2 ^ 6" using n by (metis le_add_diff_inverse2 power_add)
  then show ?thesis by auto
qed

lemma seq_arr_init_ok: "0 < k \<Longrightarrow> seq_arr_ok (seq_arr_init k)"
  by (auto simp: seq_arr_ok_def seq_arr_init_def MIN_SIZE_def intro: exI[of _ 3])

lemma seq_arr_init_elems: "seq_arr_elems (seq_arr_init k) = []"
  by (simp add: seq_arr_elems_def seq_arr_init_def)

lemma maybe_expand_ok:
  assumes "seq_arr_ok arr"
  shows "seq_arr_ok (maybe_expand fresh arr)" "sa_size (maybe_expand fresh arr) + 1 < sa_cap (maybe_expand fresh arr)"
    "seq_arr_elems (maybe_expand fresh arr) = seq_arr_elems arr"
proof -
  obtain n where n: "sa_cap arr = 2 ^ n" using assms by (auto simp: seq_arr_ok_def)
  have "sa_cap arr * 2 = 2 ^ Suc n" using n by simp
  then show "seq_arr_ok (maybe_expand fresh arr)"
    using assms by (auto simp: seq_arr_ok_def maybe_expand_def simp del: power_Suc)
  show "sa_size (maybe_expand fresh arr) + 1 < sa_cap (maybe_expand fresh arr)"
    using assms by (auto simp: seq_arr_ok_def maybe_expand_def MIN_SIZE_def)
  have "sa_size arr * sa_elt_size arr \<le> sa_cap arr * sa_elt_size arr"
    "sa_cap arr * sa_elt_size arr \<le> length (sa_data arr)"
    using assms by (simp_all add: seq_arr_ok_def)
  then have "sa_size arr * sa_elt_size arr \<le> length (sa_data arr)"
    "sa_size arr * sa_elt_size arr \<le> 2 * sa_cap arr * sa_elt_size arr"
    by linarith+
  then show "seq_arr_elems (maybe_expand fresh arr) = seq_arr_elems arr"
    by (auto simp: seq_arr_elems_def maybe_expand_def intro!: elems_cong elem_realloc)
qed

lemma maybe_expand_elt [simp]:
  "sa_elt_size (maybe_expand fresh arr) = sa_elt_size arr"
  "sa_size (maybe_expand fresh arr) = sa_size arr"
  by (simp_all add: maybe_expand_def)

lemma seq_arr_room:
  "seq_arr_ok arr \<Longrightarrow> i \<le> sa_cap arr \<Longrightarrow> i * sa_elt_size arr \<le> length (sa_data arr)"
  by (meson le_trans mult_le_mono1 seq_arr_ok_def)

lemma seq_arr_push_back_refines:
  assumes ok: "seq_arr_ok arr" and d: "length d = sa_elt_size arr"
  obtains arr' where "seq_arr_push_back fresh arr d (sa_elt_size arr) = Some arr'"
    "seq_arr_ok arr'" "seq_arr_elems arr' = seq_arr_elems arr @ [d]"
    "sa_elt_size arr' = sa_elt_size arr" "sa_size arr' = sa_size arr + 1"
proof -
  define b where "b = maybe_expand fresh arr"
  have b: "seq_arr_ok b" "sa_size b + 1 < sa_cap b" "seq_arr_elems b = seq_arr_elems arr"
    "sa_elt_size b = sa_elt_size arr" "sa_size b = sa_size arr"
    using maybe_expand_ok[OF ok] by (simp_all add: b_def)
  have room: "sa_size b * sa_elt_size b + length d \<le> length (sa_data b)"
    using seq_arr_room[OF b(1), of "sa_size b + 1"] b d by simp
  then obtain buf where buf: "mem_store (sa_data b) (sa_size b * sa_elt_size b) d = Some buf"
    using mem_store_ok by blast
  let ?r = "b\<lparr>sa_data := buf, sa_size := sa_size b + 1\<rparr>"
  have "seq_arr_push_back fresh arr d (sa_elt_size arr) = Some ?r"
    using buf d b by (simp add: seq_arr_push_back_def mem_load_def Let_def flip: b_def)
  moreover have "seq_arr_ok ?r"
    using b mem_store_length[OF buf] by (simp add: seq_arr_ok_def)
  moreover have "elems (sa_elt_size b) buf 0 (sa_size b) = seq_arr_elems b"
    unfolding seq_arr_elems_def using elem_store_one[OF buf] b d by (intro elems_cong) simp
  then have "seq_arr_elems ?r = seq_arr_elems b @ [d]"
    using elem_store_one[OF buf, of "sa_size b"] b d by (simp add: seq_arr_elems_def elems_Suc)
  ultimately show thesis using b that by simp
qed

lemma maybe_shrink_ok:
  assumes ok: "seq_arr_ok arr" and k: "sa_elt_size arr \<le> 32"
  obtains arr' where "maybe_shrink arr = Some arr'" "seq_arr_ok arr'"
    "seq_arr_elems arr' = seq_arr_elems arr" "sa_elt_size arr' = sa_elt_size arr"
    "sa_size arr' = sa_size arr"
proof (cases "MIN_SIZE < sa_size arr \<and> 4 * sa_size arr < sa_cap arr")
  case False
  then have "maybe_shrink arr = Some arr" by (simp only: maybe_shrink_def if_False)
  then show ?thesis by (rule that) (simp_all add: ok)
next
  case True
  define cap where "cap = sa_cap arr div 2"
  have "\<exists>n. sa_cap arr = 2 ^ n" "36 < sa_cap arr"
    using ok True by (auto simp: seq_arr_ok_def MIN_SIZE_def)
  then obtain n where n: "sa_cap arr = 2 ^ n * 64" using two_power_ge_64 by blast
  then have c: "cap = 2 ^ (n + 5)" "32 \<le> cap" by (simp_all add: cap_def power_add)
  have sz: "sa_size arr < cap" using True unfolding cap_def by linarith
  have fits: "cap * sa_elt_size arr \<le> cap * cap" using k c by simp
  have "sa_size arr * sa_elt_size arr \<le> cap * sa_elt_size arr" using sz by simp
  then have le: "sa_size arr * sa_elt_size arr \<le> cap * cap" using fits by linarith
  have ld: "sa_size arr * sa_elt_size arr \<le> length (sa_data arr)"
    using seq_arr_room[OF ok, of "sa_size arr"] ok by (simp add: seq_arr_ok_def)
  let ?old = "take (sa_size arr * sa_elt_size arr) (sa_data arr)"
  obtain buf where buf: "mem_store (mem_calloc cap cap) 0 ?old = Some buf"
    using le ld by (simp add: mem_store_def)
  have el: "elem (sa_elt_size arr) buf i = elem (sa_elt_size arr) (sa_data arr) i"
    if "i < sa_size arr" for i
    using elem_store[of "mem_calloc cap cap" 0 "sa_elt_size arr" ?old buf "sa_size arr" i] buf ld that
    by (simp add: elem_take)
  have "maybe_shrink arr = Some (arr\<lparr>sa_data := buf, sa_cap := cap\<rparr>)"
    using True buf sz ld by (simp add: maybe_shrink_def Let_def mem_load_def flip: cap_def)
  moreover have "seq_arr_ok (arr\<lparr>sa_data := buf, sa_cap := cap\<rparr>)"
    using ok sz c fits mem_store_length[OF buf] by (auto simp: seq_arr_ok_def MIN_SIZE_def)
  ultimately show ?thesis using el that by (auto simp: seq_arr_elems_def intro!: elems_cong)
qed

text \<open>What is left of the elements after the range \<open>[i, j)\<close> has been erased.\<close>

lemma seq_arr_erase_core:
  assumes ok: "seq_arr_ok arr" and k: "k = sa_elt_size arr"
    and ij: "i < j" "j \<le> sa_size arr" and small: "sa_size arr * k < 2 ^ 31"
  obtains buf where
    "seq_arr_erase arr (i * k) (j * k) =
       maybe_shrink (arr\<lparr>sa_size := sa_size arr - (j - i), sa_data := buf\<rparr>)"
    "length buf = length (sa_data arr)"
    "elems k buf 0 (sa_size arr - (j - i)) =
       take i (seq_arr_elems arr) @ drop j (seq_arr_elems arr)"
proof -
  define n where "n = sa_size arr"
  define m where "m = n - (j - i)"
  note defs = n_def[symmetric] k[symmetric]
  have k0: "0 < k" and room: "n * k \<le> length (sa_data arr)"
    using ok seq_arr_room[OF ok, of n] by (auto simp: seq_arr_ok_def k n_def)
  have mv: "int (n * k) - int (j * k) = int ((n - j) * k)" 
    and er: "int (j * k) - int (i * k) = int ((j - i) * k)"
    using ij by (simp_all add: n_def diff_mult_distrib of_nat_diff)
  have "n - j \<le> n" "j - i \<le> n" using ij unfolding n_def by linarith+
  then have "(n - j) * k \<le> n * k" "(j - i) * k \<le> n * k" by (blast intro: mult_le_mono1)+
  then have bnd: "(n - j) * k < 2 ^ 31" "(j - i) * k < 2 ^ 31" 
    using small unfolding n_def by linarith+
  have "j - i \<le> (j - i) * k" using k0 by simp
  then have "j - i < 2 ^ 31" using bnd(2) by linarith
  then have cnt: "c_size (int ((j - i) * k)) = int ((j - i) * k)"
    "int ((j - i) * k) div int k = int (j - i)" "j - i < 2 ^ 31"
    using bnd(2) k0 by (simp_all add: c_size_def del: of_nat_mult) simp
  have "j + (n - j) = n" "i + (n - j) = m" "m + (j - i) = n"
    using ij unfolding m_def n_def by linarith+
  then have jn: "j * k + (n - j) * k = n * k" and im: "i * k + (n - j) * k = m * k"
    and mn: "m * k + (j - i) * k = n * k"
    by (metis add_mult_distrib)+
  define mv_bs where "mv_bs = take ((n - j) * k) (drop (j * k) (sa_data arr))"
  have ld: "mem_load (sa_data arr) (j * k) ((n - j) * k) = Some mv_bs"
    unfolding mv_bs_def by (rule mem_load_ok) (simp add: jn room)
  have lmv: "length mv_bs = (n - j) * k" using ld by (rule mem_load_length)
  obtain b1 where b1: "mem_store (sa_data arr) (i * k) mv_bs = Some b1"
    using mem_store_ok[of "i * k" mv_bs "sa_data arr"] im mn room lmv by force
  obtain b2 where b2: "mem_memset0 b1 (m * k) ((j - i) * k) = Some b2"
    using mem_store_ok[of "m * k" "replicate ((j - i) * k) 0" b1] mem_store_length[OF b1] mn room
    by (force simp: mem_memset0_def)
  have el: "elem k b2 x = (if i \<le> x then elem k (sa_data arr) (x + (j - i)) else elem k (sa_data arr) x)"
    if "x < m" for x
  proof -
    have "elem k b2 x = elem k b1 x"
      using elem_store[OF b2[unfolded mem_memset0_def], of "j - i" x] that by simp
    also have "\<dots> = (if i \<le> x then elem k mv_bs (x - i) else elem k (sa_data arr) x)"
      using elem_store[OF b1 lmv, of x] that ij by (auto simp: m_def n_def)
    also have "i \<le> x \<Longrightarrow> elem k mv_bs (x - i) = elem k (sa_data arr) (x + (j - i))"
      using elem_load[OF ld, of "x - i"] that ij by (auto simp: m_def n_def algebra_simps)
    ultimately show ?thesis by auto
  qed
  have "seq_arr_erase arr (i * k) (j * k) =
       maybe_shrink (arr\<lparr>sa_size := m, sa_data := b2\<rparr>)"
    using ij k0 ld b1 b2 bnd cnt
    by (simp add: seq_arr_erase_def seq_arr_end_def Let_def defs mv er c_int_nat nat_int
        m_def[symmetric] del: of_nat_mult of_nat_diff)
  moreover have "elems k b2 0 m = take i (seq_arr_elems arr) @ drop j (seq_arr_elems arr)"
  proof (rule nth_equalityI)
    have E: "seq_arr_elems arr = elems k (sa_data arr) 0 n" "length (seq_arr_elems arr) = n"
      by (simp_all add: seq_arr_elems_def defs)
    have lt: "length (take i (seq_arr_elems arr)) = i" using ij E(2) by (simp add: n_def)
    show "length (elems k b2 0 m) = length (take i (seq_arr_elems arr) @ drop j (seq_arr_elems arr))"
      using ij E(2) lt by (simp add: m_def n_def)
    fix x assume "x < length (elems k b2 0 m)"
    then have x: "x < m" by simp
    show "elems k b2 0 m ! x = (take i (seq_arr_elems arr) @ drop j (seq_arr_elems arr)) ! x"
    proof (cases "x < i")
      case True
      then show ?thesis using x ij el[OF x] lt by (simp add: nth_append E(1) elems_nth n_def)
    next
      case False
      then have "j + (x - i) = x + (j - i)" "j + (x - i) < n" using x ij by (simp_all add: m_def n_def)
      then show ?thesis using False x el[OF x] lt E(2)
        by (simp add: nth_append E(1) elems_nth)
    qed
  qed
  ultimately show thesis
    using that b2 mem_store_length[OF b1] mem_store_length[of b1]
    by (auto simp: m_def n_def mem_memset0_def)
qed

lemma seq_arr_free_loop_elems:
  assumes ok: "seq_arr_ok arr" and i: "i \<le> sa_size arr"
  shows "seq_arr_free_loop arr (i * sa_elt_size arr) =
    Some (elems (sa_elt_size arr) (sa_data arr) i (sa_size arr))"
  using i
proof (induction rule: inc_induct)
  case base
  then show ?case by (simp add: seq_arr_free_loop.simps seq_arr_end_def)
next
  case (step i)
  let ?k = "sa_elt_size arr"
  have "(i + 1) * ?k \<le> length (sa_data arr)"
    using seq_arr_room[OF ok, of "i + 1"] ok step.hyps by (simp add: seq_arr_ok_def)
  then have ld: "mem_load (sa_data arr) (i * ?k) ?k = Some (elem ?k (sa_data arr) i)"
    by (rule mem_load_elem)
  have "i * ?k \<noteq> seq_arr_end arr"
    using ok step.hyps by (simp add: seq_arr_end_def seq_arr_ok_def)
  then show ?case
    using ld step.IH step.hyps
    by (simp add: seq_arr_free_loop.simps[of arr "i * ?k"] seq_arr_next_def elems_Cons add.commute)
qed

section \<open>Properties\<close>

text \<open>Pushing one element onto a well-formed array always succeeds, whether or not the
  allocation has to grow, keeps the array well-formed and appends exactly that element.\<close>

theorem seq_arr_push_back_appends:
  assumes "seq_arr_ok arr" "length d = sa_elt_size arr"
  shows "\<exists>arr'. seq_arr_push_back fresh arr d (sa_elt_size arr) = Some arr' \<and> seq_arr_ok arr' \<and>
    seq_arr_elems arr' = seq_arr_elems arr @ [d] \<and> sa_elt_size arr' = sa_elt_size arr"
  using seq_arr_push_back_refines[OF assms] by metis

lemma seq_arr_push_back_appends_witness:
  "\<exists>arr'. seq_arr_push_back (\<lambda>_. 7) (seq_arr_init 2) [1, 2] 2 = Some arr' \<and> seq_arr_ok arr' \<and>
    seq_arr_elems arr' = [[1, 2]]"
  using seq_arr_push_back_appends[OF seq_arr_init_ok[of 2], of "[1, 2]" "\<lambda>_. 7"]
  by (auto simp: seq_arr_init_def seq_arr_elems_def)

text \<open>Erasing the range of elements \<open>[i, j)\<close> removes exactly these, keeps the others in
  order and keeps the array well-formed, for element sizes of at most 32 bytes and arrays below
  2 GiB; C3 shows why the bound on the element size is needed.\<close>

theorem seq_arr_erase_removes:
  assumes ok: "seq_arr_ok arr" and k: "sa_elt_size arr \<le> 32"
    and ij: "i \<le> j" "j \<le> sa_size arr" and small: "sa_size arr * sa_elt_size arr < 2 ^ 31"
  shows "\<exists>arr'. seq_arr_erase arr (i * sa_elt_size arr) (j * sa_elt_size arr) = Some arr' \<and>
    seq_arr_ok arr' \<and> seq_arr_elems arr' = take i (seq_arr_elems arr) @ drop j (seq_arr_elems arr)"
proof (cases "i = j")
  case True
  then show ?thesis using ok by (simp add: seq_arr_erase_def)
next
  case False
  then have "i < j" using ij by simp
  from seq_arr_erase_core[OF ok refl this ij(2) small] obtain buf where buf:
    "seq_arr_erase arr (i * sa_elt_size arr) (j * sa_elt_size arr) =
       maybe_shrink (arr\<lparr>sa_size := sa_size arr - (j - i), sa_data := buf\<rparr>)" (is "_ = maybe_shrink ?b")
    "length buf = length (sa_data arr)"
    "elems (sa_elt_size arr) buf 0 (sa_size arr - (j - i)) =
       take i (seq_arr_elems arr) @ drop j (seq_arr_elems arr)" .
  have "seq_arr_ok ?b" using ok buf(2) by (auto simp: seq_arr_ok_def)
  moreover have "sa_elt_size ?b \<le> 32" using k by simp
  ultimately obtain arr' where "maybe_shrink ?b = Some arr'" "seq_arr_ok arr'"
    "seq_arr_elems arr' = seq_arr_elems ?b"
    by (rule maybe_shrink_ok)
  then show ?thesis using buf by (simp add: seq_arr_elems_def)
qed

definition seq_arr_ex :: seq_arr where
  "seq_arr_ex = \<lparr>sa_data = [1, 2, 3, 4, 5, 6, 7, 8], sa_size = 3, sa_elt_size = 1, sa_cap = 8\<rparr>"

lemma seq_arr_erase_removes_witness:
  "\<exists>arr'. seq_arr_erase seq_arr_ex 1 2 = Some arr' \<and> seq_arr_ok arr' \<and>
    seq_arr_elems arr' = [[1], [3]]"
proof -
  have "seq_arr_ok seq_arr_ex"
    by (auto simp: seq_arr_ok_def seq_arr_ex_def MIN_SIZE_def intro: exI[of _ 3])
  from seq_arr_erase_removes[OF this, of 1 2] show ?thesis
    by (simp add: seq_arr_ex_def seq_arr_elems_def elems_def elem_def upt_rec)
qed

text \<open>C31: \<open>maybe_shrink\<close> allocates \<open>cap * cap\<close> bytes where \<open>cap * elt_size\<close> are needed: an
  erase that shrinks an array whose remaining elements take more than the square of the halved
  capacity writes beyond the new allocation.\<close>

theorem seq_arr_shrink_overflow:
  assumes ok: "seq_arr_ok arr" and ij: "i < j" "j \<le> sa_size arr"
    and small: "sa_size arr * sa_elt_size arr < 2 ^ 31"
    and n: "n = sa_size arr - (j - i)" "MIN_SIZE < n" "4 * n < sa_cap arr"
    and big: "(sa_cap arr div 2) * (sa_cap arr div 2) < n * sa_elt_size arr"
  shows "seq_arr_erase arr (i * sa_elt_size arr) (j * sa_elt_size arr) = None"
proof -
  from seq_arr_erase_core[OF ok refl ij small] obtain buf where buf:
    "seq_arr_erase arr (i * sa_elt_size arr) (j * sa_elt_size arr) =
       maybe_shrink (arr\<lparr>sa_size := sa_size arr - (j - i), sa_data := buf\<rparr>)" .
  then show ?thesis using n big
    by (auto simp: maybe_shrink_def Let_def mem_load_def mem_store_def MIN_SIZE_def c_assert_def)
qed

definition seq_arr_ex_big :: seq_arr where
  "seq_arr_ex_big = \<lparr>sa_data = mem_calloc 64 120, sa_size = 10, sa_elt_size = 120, sa_cap = 64\<rparr>"

lemma seq_arr_ex_big_sel:
  "sa_data seq_arr_ex_big = mem_calloc 64 120" "sa_size seq_arr_ex_big = 10"
  "sa_elt_size seq_arr_ex_big = 120" "sa_cap seq_arr_ex_big = 64"
  by (simp_all add: seq_arr_ex_big_def)

lemma seq_arr_ex_big_ok: "seq_arr_ok seq_arr_ex_big"
proof -
  have "sa_cap seq_arr_ex_big = 2 ^ 6" by (simp add: seq_arr_ex_big_sel)
  then show ?thesis by (auto simp: seq_arr_ok_def MIN_SIZE_def seq_arr_ex_big_sel simp del: power_numeral)
qed

lemma seq_arr_shrink_overflow_witness: "seq_arr_erase seq_arr_ex_big (0 * 120) (1 * 120) = None"
proof -
  note sel = seq_arr_ex_big_sel
  have "9 = sa_size seq_arr_ex_big - (1 - 0)" "MIN_SIZE < 9" "4 * 9 < sa_cap seq_arr_ex_big"
    "sa_cap seq_arr_ex_big div 2 * (sa_cap seq_arr_ex_big div 2) < 9 * sa_elt_size seq_arr_ex_big"
    "1 \<le> sa_size seq_arr_ex_big" "sa_size seq_arr_ex_big * sa_elt_size seq_arr_ex_big < 2 ^ 31"
    by (simp_all add: sel MIN_SIZE_def)
  from seq_arr_shrink_overflow[OF seq_arr_ex_big_ok _ this(5,6,1-4)] sel show ?thesis by simp
qed

end
