(* ===== verification/Seq_Ring.thy ===== *)
theory Seq_Ring
  imports Prelude
begin

unbundle bit_operations_syntax

text \<open>
  The growable ring buffer of src/util/alg_ds/ds/seq_container/seq_ring.c.

  \<open>sr_head\<close> and \<open>sr_tail\<close> run freely through the 32-bit range and are masked on access, as
  in the code; iterators are byte offsets into \<open>sr_array\<close>.  The contents are the elements
  met when walking from the tail to the head.
\<close>

section \<open>State and operations\<close>

record seq_ring =
  sr_array :: "byte list"
  sr_elt_size :: nat
  sr_head :: "32 word"
  sr_tail :: "32 word"
  sr_cap :: "32 word"

definition DEFAULT_ELM :: "32 word" where
  "DEFAULT_ELM = 32"

definition ring_mask :: "32 word \<Rightarrow> 32 word \<Rightarrow> 32 word" where
  "ring_mask cap val = val AND (cap - 1)"

definition seq_ring_size :: "seq_ring \<Rightarrow> nat" where
  "seq_ring_size r = unat (sr_head r - sr_tail r)"

definition ring_full :: "seq_ring \<Rightarrow> bool" where
  "ring_full r \<longleftrightarrow> seq_ring_size r = unat (sr_cap r - 1)"

definition enlarge_buffer :: "seq_ring \<Rightarrow> seq_ring option" where
  "enlarge_buffer r = do {
     c_assert (ring_full r);
     let k = sr_elt_size r;
     let tmp = mem_calloc (unat (sr_cap r * 2)) k;
     let head_pos = ring_mask (sr_cap r) (sr_head r);
     let tail_pos = ring_mask (sr_cap r) (sr_tail r);
     tmp \<leftarrow>
       (if head_pos > tail_pos
        then do {
          bs \<leftarrow> mem_load (sr_array r) (unat tail_pos * k) (unat (head_pos - tail_pos) * k);
          mem_store tmp 0 bs
        }
        else do {
          bs \<leftarrow> mem_load (sr_array r) (unat tail_pos * k) (unat (sr_cap r - tail_pos) * k);
          tmp \<leftarrow> mem_store tmp 0 bs;
          cs \<leftarrow> mem_load (sr_array r) 0 (unat head_pos * k);
          mem_store tmp (unat (sr_cap r - tail_pos) * k) cs
        });
     let cap = sr_cap r * 2;
     Some (r\<lparr>sr_cap := cap, sr_array := tmp, sr_tail := 0, sr_head := cap div 2 - 1\<rparr>)
   }"

definition seq_ring_init :: "nat \<Rightarrow> seq_ring" where
  "seq_ring_init elt_size =
     \<lparr>sr_array = mem_calloc (unat DEFAULT_ELM) elt_size, sr_elt_size = elt_size, sr_head = 0,
      sr_tail = 0, sr_cap = DEFAULT_ELM\<rparr>"

definition seq_ring_push_back :: "seq_ring \<Rightarrow> byte list \<Rightarrow> nat \<Rightarrow> seq_ring option" where
  "seq_ring_push_back r dat len = do {
     c_assert (len = sr_elt_size r);
     r \<leftarrow> (if ring_full r then enlarge_buffer r else Some r);
     let pos = ring_mask (sr_cap r) (sr_head r);
     src \<leftarrow> mem_load dat 0 (sr_elt_size r);
     buf \<leftarrow> mem_store (sr_array r) (sr_elt_size r * unat pos) src;
     Some (r\<lparr>sr_array := buf, sr_head := sr_head r + 1\<rparr>)
   }"

definition seq_ring_erase :: "seq_ring \<Rightarrow> nat \<Rightarrow> nat \<Rightarrow> seq_ring option" where
  "seq_ring_erase r it_start it_end = do {
     let k = sr_elt_size r;
     c_assert (it_start = unat (ring_mask (sr_cap r) (sr_tail r)) * k);
     if it_start = it_end then Some r
     else do {
       c_assert (0 < k);
       let start_pos = word_of_nat (it_start div k);
       let end_pos = word_of_nat (it_end div k);
       c_assert (end_pos \<le> sr_cap r);
       c_assert (end_pos \<noteq> start_pos);
       r \<leftarrow>
         (if end_pos > start_pos
          then do {
            buf \<leftarrow> mem_memset0 (sr_array r) it_start (unat (end_pos - start_pos) * k);
            Some (r\<lparr>sr_array := buf, sr_tail := sr_tail r + (end_pos - start_pos)\<rparr>)
          }
          else do {
            c_assert (end_pos < start_pos);
            buf \<leftarrow> mem_memset0 (sr_array r) it_start (unat (sr_cap r - start_pos) * k);
            buf \<leftarrow> mem_memset0 buf 0 (unat end_pos * k);
            Some (r\<lparr>sr_array := buf, sr_tail := sr_tail r + (sr_cap r - start_pos + end_pos)\<rparr>)
          });
       c_assert (ring_mask (sr_cap r) (sr_tail r) = end_pos);
       Some r
     }
   }"

definition seq_ring_swap :: "seq_ring \<Rightarrow> nat \<Rightarrow> nat \<Rightarrow> seq_ring option" where
  "seq_ring_swap cb it_1 it_2 = do { c_assert False; Some cb }"

definition seq_ring_front :: "seq_ring \<Rightarrow> nat" where
  "seq_ring_front r = unat (ring_mask (sr_cap r) (sr_tail r)) * sr_elt_size r"

definition seq_ring_next :: "seq_ring \<Rightarrow> nat \<Rightarrow> nat" where
  "seq_ring_next r it =
     (let pos = word_of_nat (it div sr_elt_size r) :: 32 word in
      if pos + 1 = sr_cap r then 0 else it + sr_elt_size r)"

definition seq_ring_end :: "seq_ring \<Rightarrow> nat" where
  "seq_ring_end r = unat (ring_mask (sr_cap r) (sr_head r)) * sr_elt_size r"

definition seq_ring_at :: "seq_ring \<Rightarrow> 32 word \<Rightarrow> nat" where
  "seq_ring_at r pos = unat (ring_mask (sr_cap r) (sr_tail r + pos)) * sr_elt_size r"

definition seq_ring_dist :: "seq_ring \<Rightarrow> nat \<Rightarrow> nat \<Rightarrow> int" where
  "seq_ring_dist r first_it last_it =
     (let last_pos = word_of_nat (last_it div sr_elt_size r) :: 32 word;
          first_pos = word_of_nat (first_it div sr_elt_size r) :: 32 word in
      if last_pos > first_pos then sint (last_pos - first_pos)
      else sint ((sr_cap r - first_pos) + last_pos))"

definition seq_ring_equal :: "nat \<Rightarrow> nat \<Rightarrow> bool" where
  "seq_ring_equal it_1 it_2 = (it_1 = it_2)"

text \<open>The elements handed to the free function, in order.\<close>
partial_function (option) seq_ring_free_loop :: "seq_ring \<Rightarrow> nat \<Rightarrow> byte list list option" where
  "seq_ring_free_loop cb start_it =
     (if start_it = seq_ring_end cb then Some []
      else do {
        e \<leftarrow> mem_load (sr_array cb) start_it (sr_elt_size cb);
        es \<leftarrow> seq_ring_free_loop cb (seq_ring_next cb start_it);
        Some (e # es)
      })"

definition seq_ring_free :: "seq_ring \<Rightarrow> bool \<Rightarrow> byte list list option" where
  "seq_ring_free cb has_fp =
     (if has_fp then seq_ring_free_loop cb (seq_ring_front cb) else Some [])"

section \<open>Invariant and abstraction\<close>

definition seq_ring_ok :: "seq_ring \<Rightarrow> bool" where
  "seq_ring_ok r \<longleftrightarrow>
     0 < sr_elt_size r \<and> (\<exists>m. 5 \<le> m \<and> m \<le> 31 \<and> sr_cap r = 2 ^ m) \<and>
     seq_ring_size r < unat (sr_cap r) \<and> length (sr_array r) = unat (sr_cap r) * sr_elt_size r"

definition ring_pos :: "seq_ring \<Rightarrow> nat \<Rightarrow> nat" where
  "ring_pos r i = unat (ring_mask (sr_cap r) (sr_tail r + word_of_nat i))"

definition seq_ring_elems :: "seq_ring \<Rightarrow> byte list list" where
  "seq_ring_elems r = map (\<lambda>i. elem (sr_elt_size r) (sr_array r) (ring_pos r i)) [0..<seq_ring_size r]"

lemma unat_two_power: "m \<le> 31 \<Longrightarrow> unat ((2::32 word) ^ m) = 2 ^ m"
proof -
  assume "m \<le> 31"
  then have "(2::nat) ^ m < 2 ^ 32" by (intro power_strict_increasing) simp_all
  then show ?thesis using unat_of_nat[where 'a = 32, of "2 ^ m"] by simp
qed

lemma unat_ring_mask:
  assumes "m \<le> 31" shows "unat (ring_mask (2 ^ m) w) = unat w mod 2 ^ m"
proof -
  have "ring_mask (2 ^ m) w = take_bit m w"
    by (simp add: ring_mask_def take_bit_eq_mask mask_eq_exp_minus_1)
  then show ?thesis by (simp only: unsigned_take_bit_eq take_bit_eq_mod[of m "unat w"])
qed

lemma mod_two_power_mod: "m \<le> 32 \<Longrightarrow> (x mod 2 ^ 32) mod 2 ^ m = x mod (2::nat) ^ m"
  by (rule mod_mod_cancel) (rule le_imp_power_dvd)

lemma unat_ring_mask_add:
  "m \<le> 31 \<Longrightarrow> unat (ring_mask (2 ^ m) (w + word_of_nat i)) = (unat w + i) mod 2 ^ m"
  using mod_two_power_mod[of m "unat w + unat (word_of_nat i :: 32 word)"]
    mod_two_power_mod[of m i]
  by (simp add: unat_ring_mask unat_word_ariths unat_of_nat) (metis mod_add_right_eq)

text \<open>A well-formed ring through its sizes as naturals.\<close>

lemma seq_ring_okE:
  assumes "seq_ring_ok r"
  obtains m where "5 \<le> m" "m \<le> 31" "sr_cap r = 2 ^ m" "unat (sr_cap r) = 2 ^ m" "0 < sr_elt_size r"
    "seq_ring_size r < 2 ^ m" "length (sr_array r) = 2 ^ m * sr_elt_size r"
    "\<And>i. ring_pos r i = (unat (sr_tail r) + i) mod 2 ^ m"
    "\<And>i. ring_pos r i < 2 ^ m"
proof -
  from assms obtain m where m: "5 \<le> m" "m \<le> 31" "sr_cap r = 2 ^ m" by (auto simp: seq_ring_ok_def)
  moreover have "unat (sr_cap r) = 2 ^ m" using unat_two_power m by simp
  moreover have "ring_pos r i = (unat (sr_tail r) + i) mod 2 ^ m" for i
    using m by (simp add: ring_pos_def unat_ring_mask_add)
  moreover have "(unat (sr_tail r) + i) mod 2 ^ m < 2 ^ m" for i by simp
  ultimately show thesis using that assms by (simp add: seq_ring_ok_def)
qed

lemma ring_head: "sr_head r = sr_tail r + word_of_nat (seq_ring_size r)"
  by (simp add: seq_ring_size_def)

lemma mod_add_dvd: "i \<le> j \<Longrightarrow> (t + i) mod c = (t + j) mod (c::nat) \<Longrightarrow> c dvd j - i"
  using mod_eq_dvd_iff_nat[where m = "t + j" and n = "t + i" and q = c] by simp

lemma mod_add_inj:
  assumes eq: "(t + i) mod c = (t + j) mod c" and "i < c" "j < (c::nat)" shows "i = j"
proof (cases "i \<le> j")
  case True
  from mod_add_dvd[OF this eq] have "c dvd j - i" .
  moreover have "j - i < c" using assms(3) by linarith
  ultimately have "j - i = 0" using nat_dvd_not_less by blast
  then show ?thesis using True by simp
next
  case False
  then have "c dvd i - j" using mod_add_dvd[of j i t c] eq by simp
  moreover have "i - j < c" using assms(2) by linarith
  ultimately have "i - j = 0" using nat_dvd_not_less by blast
  then show ?thesis using False by simp
qed

lemma ring_pos_inj:
  "seq_ring_ok r \<Longrightarrow> i < unat (sr_cap r) \<Longrightarrow> j < unat (sr_cap r) \<Longrightarrow> ring_pos r i = ring_pos r j \<longleftrightarrow> i = j"
  by (erule seq_ring_okE) (auto dest: mod_add_inj)

lemma seq_ring_front_pos: "seq_ring_front r = ring_pos r 0 * sr_elt_size r"
  by (simp add: seq_ring_front_def ring_pos_def)

lemma seq_ring_end_pos: "seq_ring_end r = ring_pos r (seq_ring_size r) * sr_elt_size r"
  by (simp add: seq_ring_end_def ring_pos_def flip: ring_head)

lemma seq_ring_at_pos: "seq_ring_at r (word_of_nat i) = ring_pos r i * sr_elt_size r"
  by (simp add: seq_ring_at_def ring_pos_def)

lemma ring_pos_room:
  assumes "seq_ring_ok r" shows "(ring_pos r i + 1) * sr_elt_size r \<le> length (sr_array r)"
  using assms by (elim seq_ring_okE) (metis Suc_eq_plus1 Suc_leI mult_le_mono1)

lemma length_seq_ring_elems [simp]: "length (seq_ring_elems r) = seq_ring_size r"
  by (simp add: seq_ring_elems_def)

lemma seq_ring_init_ok: "0 < k \<Longrightarrow> seq_ring_ok (seq_ring_init k)"
  by (auto simp: seq_ring_ok_def seq_ring_init_def seq_ring_size_def DEFAULT_ELM_def intro: exI[of _ 5])

lemma seq_ring_init_elems: "seq_ring_elems (seq_ring_init k) = []"
  by (simp add: seq_ring_elems_def seq_ring_init_def seq_ring_size_def)

section \<open>Growing and pushing\<close>

lemma ring_word_double:
  assumes "m \<le> 30"
  shows "(2::32 word) ^ m * 2 = 2 ^ Suc m" "unat ((2::32 word) ^ m * 2) = 2 * 2 ^ m"
    "(2::32 word) ^ m * 2 div 2 - 1 = 2 ^ m - 1" "unat ((2::32 word) ^ m - 1) = 2 ^ m - 1"
proof -
  show p: "(2::32 word) ^ m * 2 = 2 ^ Suc m" by simp
  show d: "unat ((2::32 word) ^ m * 2) = 2 * 2 ^ m"
    unfolding p using unat_two_power[of "Suc m"] assms by simp
  have "(2::32 word) ^ m * 2 div 2 = 2 ^ m"
    by (rule word_unat_eq_iff[THEN iffD2]) (use d unat_two_power[of m] assms in \<open>simp add: unat_div\<close>)
  then show "(2::32 word) ^ m * 2 div 2 - 1 = 2 ^ m - 1" by simp
  have "unat (1::32 word) \<le> unat ((2::32 word) ^ m)" using unat_two_power[of m] assms by simp
  then show "unat ((2::32 word) ^ m - 1) = 2 ^ m - 1"
    using unat_two_power[of m] assms by (simp add: unat_sub word_le_nat_alt)
qed

text \<open>The copy of a full ring, in one or two pieces, into the new allocation.\<close>

lemma enlarge_copy:
  assumes buf: "length buf = C * k" and t: "t < C" and new: "length new = 2 * C * k"
    and h: "h = (t + (C - 1)) mod C"
  shows "h > t \<Longrightarrow> \<exists>bs new'. mem_load buf (t * k) ((h - t) * k) = Some bs \<and> mem_store new 0 bs = Some new' \<and>
      length new' = length new \<and> (\<forall>i < C - 1. elem k new' i = elem k buf ((t + i) mod C))" (is "_ \<Longrightarrow> ?one")
    and "\<not> h > t \<Longrightarrow> \<exists>bs cs new' new''. mem_load buf (t * k) ((C - t) * k) = Some bs \<and>
      mem_store new 0 bs = Some new' \<and> mem_load buf 0 (h * k) = Some cs \<and>
      mem_store new' ((C - t) * k) cs = Some new'' \<and> length new'' = length new \<and>
      (\<forall>i < C - 1. elem k new'' i = elem k buf ((t + i) mod C))" (is "_ \<Longrightarrow> ?two")
proof -
  have hc: "if t = 0 then h = C - 1 else h = t - 1"
  proof (cases "t = 0")
    case False
    then have "t + (C - 1) = (t - 1) + C" using t by simp
    then have "h = (t - 1) mod C" unfolding h by (simp only: mod_add_self2)
    then show ?thesis using t False by simp
  qed (use t h in simp)
  show ?one if "h > t"
  proof -
    have t0: "t = 0" "h = C - 1" using hc that t by (auto split: if_splits)
    have "(C - 1) * k \<le> C * k" by simp
    then have ld: "mem_load buf (t * k) ((h - t) * k) = Some (take ((C - 1) * k) buf)"
      using buf by (simp add: t0 mem_load_def)
    have l: "length (take ((C - 1) * k) buf) = (C - 1) * k"
      using mem_load_length[OF ld] t0 by simp
    moreover have "(C - 1) * k \<le> 2 * C * k" by (intro mult_le_mono1) simp
    ultimately obtain new' where st: "mem_store new 0 (take ((C - 1) * k) buf) = Some new'"
      using new by (force simp: mem_store_def)
    have "elem k new' i = elem k buf ((t + i) mod C)" if "i < C - 1" for i
      using elem_store[of new 0 k _ new' "C - 1" i] st l that by (simp add: t0 elem_take)
    then show ?thesis using ld st mem_store_length[OF st] by blast
  qed
  show ?two if nh: "\<not> h > t"
  proof -
    have Cn: "t + (C - t) = C" using t by simp
    have "t * k + (C - t) * k = C * k" unfolding add_mult_distrib[symmetric] Cn ..
    then obtain bs where ld: "mem_load buf (t * k) ((C - t) * k) = Some bs"
      using buf by (simp add: mem_load_def)
    have l: "length bs = (C - t) * k" using ld by (rule mem_load_length)
    have "(C - t) * k \<le> 2 * C * k" by (intro mult_le_mono1) simp
    then obtain new' where st: "mem_store new 0 bs = Some new'" using new l by (force simp: mem_store_def)
    have hC: "h < C" "C - t + h \<le> 2 * C" using hc t by (auto split: if_splits)
    then have "h * k \<le> C * k" by simp
    then obtain cs where ld2: "mem_load buf 0 (h * k) = Some cs" using buf by (force simp: mem_load_def)
    have l2: "length cs = h * k" using ld2 by (rule mem_load_length)
    have "(C - t) * k + h * k \<le> 2 * C * k" unfolding add_mult_distrib[symmetric] using hC by (intro mult_le_mono1)
    then obtain new'' where st2: "mem_store new' ((C - t) * k) cs = Some new''"
      using new l2 mem_store_length[OF st] by (force simp: mem_store_def)
    have "elem k new'' i = elem k buf ((t + i) mod C)" if i: "i < C - 1" for i
    proof (cases "i < C - t")
      case True
      then have "elem k new'' i = elem k bs i"
        using elem_store[OF st2 l2, of i] elem_store[of new 0 k bs new' "C - t" i] st l by simp
      also have "\<dots> = elem k buf (t + i)" using elem_load[OF ld True] .
      finally show ?thesis using True by simp
    next
      case False
      have "t \<noteq> 0" using nh hc t i by (auto split: if_splits)
      then have h1: "h = t - 1" using hc by simp
      have "t + i = (i - (C - t)) + C" using False t by linarith
      moreover have "i - (C - t) < C" using i by linarith
      ultimately have md: "(t + i) mod C = i - (C - t)" by (simp only: mod_add_self2 mod_less)
      have lt: "i - (C - t) < h" using h1 False i t \<open>t \<noteq> 0\<close> by linarith
      then have "elem k new'' i = elem k cs (i - (C - t))"
        using elem_store[OF st2 l2, of i] False by (metis add_diff_inverse_nat add_less_cancel_left not_le)
      also have "\<dots> = elem k buf (i - (C - t))" using elem_load[of buf 0 k h cs] ld2 lt by simp
      finally show ?thesis by (simp only: md)
    qed
    then show ?thesis using ld st ld2 st2 mem_store_length[OF st] mem_store_length[OF st2] by force
  qed
qed

lemma enlarge_buffer_refines:
  assumes ok: "seq_ring_ok r" and full: "ring_full r" and cap: "unat (sr_cap r) < 2 ^ 31"
  obtains r' where "enlarge_buffer r = Some r'" "seq_ring_ok r'" "\<not> ring_full r'"
    "seq_ring_elems r' = seq_ring_elems r" "sr_elt_size r' = sr_elt_size r"
    "seq_ring_size r' = seq_ring_size r"
  using ok
proof (rule seq_ring_okE)
  fix m
  assume m: "5 \<le> m" "m \<le> 31" "sr_cap r = 2 ^ m" "unat (sr_cap r) = 2 ^ m" "0 < sr_elt_size r"
    "length (sr_array r) = 2 ^ m * sr_elt_size r"
    and pos: "\<And>i. ring_pos r i = (unat (sr_tail r) + i) mod 2 ^ m"
  define C where "C = (2::nat) ^ m"
  define k where "k = sr_elt_size r"
  define t where "t = ring_pos r 0"
  define h where "h = ring_pos r (C - 1)"
  have "(2::nat) ^ m < 2 ^ 31" using cap m(4) by simp
  then have m30: "m \<le> 30" using power_less_imp_less_exp[of "2::nat" m 31] by simp
  note dbl = ring_word_double[OF m30]
  have n: "seq_ring_size r = C - 1" using full m dbl by (simp add: ring_full_def C_def)
  have t: "t < C" "unat (ring_mask (sr_cap r) (sr_tail r)) = t"
    using pos[of 0] by (simp_all add: t_def C_def) (simp add: ring_pos_def)
  have h: "h = (t + (C - 1)) mod C" "unat (ring_mask (sr_cap r) (sr_head r)) = h"
  proof -
    show "h = (t + (C - 1)) mod C" unfolding h_def t_def pos C_def by (simp only: mod_add_left_eq add_0_right)
    show "unat (ring_mask (sr_cap r) (sr_head r)) = h"
      unfolding ring_head[of r] n h_def by (simp add: ring_pos_def)
  qed
  have pt: "ring_pos r i = (t + i) mod C" for i
    unfolding t_def pos C_def by (simp only: mod_add_left_eq add_0_right)
  define new where "new = mem_calloc (2 * C) k"
  have new: "length new = 2 * C * k" by (simp add: new_def)
  have le: "ring_mask (sr_cap r) (sr_head r) > ring_mask (sr_cap r) (sr_tail r) \<longleftrightarrow> h > t"
    by (simp add: word_less_nat_alt t h)
  have d1: "h > t \<Longrightarrow> unat (ring_mask (sr_cap r) (sr_head r) - ring_mask (sr_cap r) (sr_tail r)) = h - t"
    by (simp add: unat_sub word_le_nat_alt t h)
  have d2: "unat (sr_cap r - ring_mask (sr_cap r) (sr_tail r)) = C - t"
    using t m(4) by (simp add: unat_sub word_le_nat_alt C_def)
  have nw: "mem_calloc (unat (sr_cap r * 2)) k = new"
    "mem_calloc (unat (2 ^ m * 2 :: 32 word)) k = new"
    using dbl(2) by (simp_all add: new_def C_def m(3))
  have len: "length (sr_array r) = C * k" using m by (simp add: C_def k_def)
  note cp = enlarge_copy[OF len t(1) new h(1)]
  let ?upd = "\<lambda>tmp. Some (r\<lparr>sr_cap := 2 ^ m * 2, sr_array := tmp, sr_tail := 0, sr_head := 2 ^ m - 1\<rparr>)"
  have hd: "sr_cap r * 2 div 2 - 1 = 2 ^ m - 1" using dbl(3) m(3) by simp
  have one: "enlarge_buffer r = Option.bind (mem_load (sr_array r) (t * k) ((h - t) * k))
      (\<lambda>bs. Option.bind (mem_store new 0 bs) ?upd)" if "h > t"
    using full le d1 that
    by (simp add: enlarge_buffer_def Let_def t(2) h(2) nw hd flip: k_def) (simp add: m(3) nw)
  have two: "enlarge_buffer r = Option.bind (mem_load (sr_array r) (t * k) ((C - t) * k))
      (\<lambda>bs. Option.bind (mem_store new 0 bs) (\<lambda>tmp. Option.bind (mem_load (sr_array r) 0 (h * k))
        (\<lambda>cs. Option.bind (mem_store tmp ((C - t) * k) cs) ?upd)))" if "\<not> h > t"
    using full le d2 that
    by (simp add: enlarge_buffer_def Let_def t(2) h(2) nw hd flip: k_def) (simp add: m(3) nw)
  obtain buf where buf: "enlarge_buffer r = ?upd buf"
    "length buf = 2 * C * k" "\<forall>i < C - 1. elem k buf i = elem k (sr_array r) ((t + i) mod C)"
  proof (cases "h > t")
    case True
    from cp(1)[OF True] one[OF True] that show thesis by (auto simp: new)
  next
    case False
    from cp(2)[OF False] two[OF False] that show thesis by (auto simp: new)
  qed
  let ?r = "r\<lparr>sr_cap := 2 ^ m * 2, sr_array := buf, sr_tail := 0, sr_head := 2 ^ m - 1\<rparr>"
  have sz: "seq_ring_size ?r = C - 1" using dbl by (simp add: seq_ring_size_def C_def)
  have ok': "seq_ring_ok ?r"
    using m m30 buf sz dbl(1,2) less_imp_diff_less[of "2 ^ m" "2 * 2 ^ m" "Suc 0"]
    by (auto simp: seq_ring_ok_def C_def k_def intro!: exI[of _ "Suc m"] simp del: power_Suc)
  have "unat ((2::32 word) ^ m * 2 - 1) = 2 * C - 1"
    using dbl(2) by (simp add: unat_sub word_le_nat_alt C_def)
  moreover have "C - 1 \<noteq> 2 * C - 1" using t(1) by linarith
  ultimately have nf: "\<not> ring_full ?r" using sz by (simp add: ring_full_def C_def)
  have "ring_pos ?r i = i" if "i < C - 1" for i
    using unat_ring_mask_add[of "Suc m" 0 i] m30 that by (simp add: ring_pos_def C_def mult.commute)
  then have "seq_ring_elems ?r = seq_ring_elems r"
    using buf(3) by (simp add: seq_ring_elems_def sz n pt flip: k_def)
  then show thesis using that[OF buf(1) ok' nf] sz n by simp
qed

lemma ring_full_iff: "seq_ring_ok r \<Longrightarrow> ring_full r \<longleftrightarrow> seq_ring_size r + 1 = unat (sr_cap r)"
proof (elim seq_ring_okE)
  fix m assume m: "m \<le> 31" "sr_cap r = 2 ^ m"
  have "unat (1::32 word) \<le> unat ((2::32 word) ^ m)" using unat_two_power m by simp
  then show "ring_full r \<longleftrightarrow> seq_ring_size r + 1 = unat (sr_cap r)"
    using m unat_two_power[of m] by (auto simp: ring_full_def unat_sub word_le_nat_alt)
qed

lemma unat_plus_one: "unat (w :: 32 word) < 2 ^ 31 \<Longrightarrow> unat (w + 1) = unat w + 1"
  by (simp add: unat_word_ariths)

lemma seq_ring_size_push:
  assumes "seq_ring_size r < 2 ^ 31"
  shows "seq_ring_size (r\<lparr>sr_array := b, sr_head := sr_head r + 1\<rparr>) = seq_ring_size r + 1"
proof -
  have eq: "sr_head r + 1 - sr_tail r = (sr_head r - sr_tail r) + 1" by simp
  show ?thesis
    using unat_plus_one[of "sr_head r - sr_tail r"] assms by (simp only: seq_ring_size_def eq) (simp add: eq)
qed

lemma seq_ring_push_room:
  assumes ok: "seq_ring_ok r" and nf: "\<not> ring_full r" and d: "length d = sr_elt_size r"
  obtains r' where "seq_ring_push_back r d (sr_elt_size r) = Some r'" "seq_ring_ok r'"
    "seq_ring_elems r' = seq_ring_elems r @ [d]" "sr_elt_size r' = sr_elt_size r"
    "seq_ring_size r' = seq_ring_size r + 1"
  using ok
proof (rule seq_ring_okE)
  fix m
  assume m: "5 \<le> m" "m \<le> 31" "sr_cap r = 2 ^ m" "unat (sr_cap r) = 2 ^ m" "0 < sr_elt_size r"
    "seq_ring_size r < 2 ^ m" "length (sr_array r) = 2 ^ m * sr_elt_size r"
    "\<And>i. ring_pos r i < 2 ^ m"
  define k where "k = sr_elt_size r"
  define n where "n = seq_ring_size r"
  have n: "n + 1 < 2 ^ m" using nf m ring_full_iff[OF ok] by (simp add: n_def)
  have "(2::nat) ^ m \<le> 2 ^ 31" using m(2) by (intro power_increasing) simp_all
  then have n31: "n < 2 ^ 31" using n by linarith
  have hd: "unat (ring_mask (sr_cap r) (sr_head r)) = ring_pos r n"
    unfolding ring_head[of r] by (simp add: ring_pos_def n_def)
  have "ring_pos r n * k + length d \<le> length (sr_array r)"
    using ring_pos_room[OF ok, of n] d by (simp add: k_def)
  then obtain buf where buf: "mem_store (sr_array r) (ring_pos r n * k) d = Some buf"
    using mem_store_ok by blast
  let ?r = "r\<lparr>sr_array := buf, sr_head := sr_head r + 1\<rparr>"
  have "seq_ring_push_back r d (sr_elt_size r) = Some ?r"
    using nf buf d hd by (simp add: seq_ring_push_back_def mem_load_def k_def mult.commute)
  moreover have sz: "seq_ring_size ?r = n + 1" using n31 unfolding n_def by (rule seq_ring_size_push)
  moreover have "seq_ring_ok ?r"
    using m n sz mem_store_length[OF buf] by (auto simp: seq_ring_ok_def)
  moreover have "seq_ring_elems ?r = seq_ring_elems r @ [d]"
  proof -
    have "elem k buf (ring_pos r i) = (if i = n then d else elem k (sr_array r) (ring_pos r i))"
      if "i \<le> n" for i
      using elem_store_one[OF buf, of "ring_pos r i"] d ring_pos_inj[OF ok, of i n] that n m(4)
      by (simp add: k_def)
    moreover have "ring_pos ?r i = ring_pos r i" for i by (simp add: ring_pos_def)
    ultimately show ?thesis by (simp add: seq_ring_elems_def sz flip: k_def n_def)
  qed
  ultimately show thesis using that by (simp add: n_def)
qed

lemma seq_ring_push_refines:
  assumes ok: "seq_ring_ok r" and d: "length d = sr_elt_size r" and sz: "seq_ring_size r < 2 ^ 31 - 1"
  obtains r' where "seq_ring_push_back r d (sr_elt_size r) = Some r'" "seq_ring_ok r'"
    "seq_ring_elems r' = seq_ring_elems r @ [d]" "sr_elt_size r' = sr_elt_size r"
proof (cases "ring_full r")
  case False
  then show ?thesis using seq_ring_push_room[OF ok _ d] that by metis
next
  case True
  then have "unat (sr_cap r) < 2 ^ 31" using sz ring_full_iff[OF ok] by simp
  from enlarge_buffer_refines[OF ok True this] obtain q where q: "enlarge_buffer r = Some q"
    "seq_ring_ok q" "\<not> ring_full q" "seq_ring_elems q = seq_ring_elems r"
    "sr_elt_size q = sr_elt_size r" .
  from seq_ring_push_room[OF q(2,3), of d] d q(5) obtain r' where r':
    "seq_ring_push_back q d (sr_elt_size q) = Some r'" "seq_ring_ok r'"
    "seq_ring_elems r' = seq_ring_elems q @ [d]" "sr_elt_size r' = sr_elt_size q" by auto
  have "seq_ring_push_back r d (sr_elt_size r) = seq_ring_push_back q d (sr_elt_size q)"
    using True q by (simp add: seq_ring_push_back_def)
  then show ?thesis using that r' q by simp
qed

section \<open>Erasing and iterating\<close>

text \<open>Ring positions without the remainder, which makes the case distinctions linear.\<close>
lemma ring_pos_linear:
  assumes "seq_ring_ok r" "x < unat (sr_cap r)"
  shows "ring_pos r x = (if ring_pos r 0 + x < unat (sr_cap r) then ring_pos r 0 + x
    else ring_pos r 0 + x - unat (sr_cap r))"
  using assms(1)
proof (rule seq_ring_okE)
  fix m
  assume m: "unat (sr_cap r) = 2 ^ m" "\<And>i. ring_pos r i = (unat (sr_tail r) + i) mod 2 ^ m"
    "\<And>i. ring_pos r i < 2 ^ m"
  have p: "ring_pos r x = (ring_pos r 0 + x) mod 2 ^ m"
    unfolding m(2) by (simp only: mod_add_left_eq add_0_right)
  show ?thesis
  proof (cases "ring_pos r 0 + x < unat (sr_cap r)")
    case True
    then show ?thesis using p m(1) by simp
  next
    case False
    moreover have "ring_pos r 0 + x - unat (sr_cap r) < unat (sr_cap r)"
      using m(1) m(3)[of 0] assms(2) by linarith
    ultimately show ?thesis using p m(1) le_mod_geq[of "2 ^ m" "ring_pos r 0 + x"] by simp
  qed
qed

lemma ring_pos_word: "ring_pos r i < 2 ^ 32"
  unfolding ring_pos_def using unsigned_less[of "ring_mask (sr_cap r) (sr_tail r + word_of_nat i)"] by simp

lemma ring_pos_div:
  "0 < sr_elt_size r \<Longrightarrow>
     (word_of_nat (ring_pos r i * sr_elt_size r div sr_elt_size r) :: 32 word) =
       ring_mask (sr_cap r) (sr_tail r + word_of_nat i)"
  by (simp add: ring_pos_def)

lemma seq_ring_next_pos:
  assumes ok: "seq_ring_ok r"
  shows "seq_ring_next r (ring_pos r i * sr_elt_size r) = ring_pos r (Suc i) * sr_elt_size r"
  using ok
proof (rule seq_ring_okE)
  fix m
  assume m: "m \<le> 31" "sr_cap r = 2 ^ m" "unat (sr_cap r) = 2 ^ m" "0 < sr_elt_size r"
    "\<And>i. ring_pos r i = (unat (sr_tail r) + i) mod 2 ^ m" "\<And>i. ring_pos r i < 2 ^ m"
  let ?p = "ring_mask (sr_cap r) (sr_tail r + word_of_nat i)"
  have up: "unat ?p = ring_pos r i" by (simp add: ring_pos_def)
  have "(2::nat) ^ m \<le> 2 ^ 31" using m(1) by (intro power_increasing) simp_all
  then have "unat ?p < 2 ^ 31" using m(6)[of i] up by linarith
  then have "unat (?p + 1) = ring_pos r i + 1" using unat_plus_one up by simp
  then have wrap: "?p + 1 = sr_cap r \<longleftrightarrow> ring_pos r i + 1 = 2 ^ m"
    using m(3) by (metis word_unat_eq_iff)
  have "ring_pos r (Suc i) = (ring_pos r i + 1) mod 2 ^ m"
    unfolding m(5) by (simp only: mod_add_left_eq add.assoc Suc_eq_plus1)
  then have "ring_pos r (Suc i) = (if ring_pos r i + 1 = 2 ^ m then 0 else ring_pos r i + 1)"
    using m(6)[of i] by auto
  then show ?thesis
    unfolding seq_ring_next_def ring_pos_div[OF m(4)] Let_def wrap by simp
qed

lemma seq_ring_size_pop:
  assumes "j \<le> seq_ring_size r"
  shows "seq_ring_size (r\<lparr>sr_array := b, sr_tail := sr_tail r + word_of_nat j\<rparr>) = seq_ring_size r - j"
proof -
  let ?w = "sr_head r - sr_tail r"
  have eq: "sr_head r - (sr_tail r + word_of_nat j) = ?w - word_of_nat j" by simp
  have j: "unat (word_of_nat j :: 32 word) = j"
    using assms le_unat_uoi unfolding seq_ring_size_def by blast
  then have "word_of_nat j \<le> ?w" using assms by (simp add: seq_ring_size_def word_le_nat_alt)
  then show ?thesis by (simp add: seq_ring_size_def eq unat_sub j del: diff_diff_add)
qed

text \<open>The one or two clearing writes of an erase leave the other positions alone.\<close>
lemma memset0_elem:
  assumes "p + n \<le> c" "length buf = c * k"
  obtains buf' where "mem_memset0 buf (p * k) (n * k) = Some buf'" "length buf' = length buf"
    "\<And>i. i < p \<or> p + n \<le> i \<Longrightarrow> elem k buf' i = elem k buf i"
proof -
  have "p * k + n * k \<le> length buf"
    unfolding assms(2) add_mult_distrib[symmetric] using assms(1) by (intro mult_le_mono1)
  then obtain buf' where st: "mem_store buf (p * k) (replicate (n * k) 0) = Some buf'"
    by (simp add: mem_store_def)
  have "elem k buf' i = elem k buf i" if "i < p \<or> p + n \<le> i" for i
    using elem_store[OF st, of n i] that by auto
  then show thesis using that st mem_store_length[OF st] by (simp add: mem_memset0_def)
qed

lemma seq_ring_erase_steps:
  assumes ok: "seq_ring_ok r" and j: "0 < j" "j \<le> seq_ring_size r"
  obtains buf where
    "seq_ring_erase r (seq_ring_front r) (seq_ring_at r (word_of_nat j)) =
       Some (r\<lparr>sr_array := buf, sr_tail := sr_tail r + word_of_nat j\<rparr>)"
    "length buf = length (sr_array r)"
    "\<And>x. j \<le> x \<Longrightarrow> x < seq_ring_size r \<Longrightarrow>
       elem (sr_elt_size r) buf (ring_pos r x) = elem (sr_elt_size r) (sr_array r) (ring_pos r x)"
  using ok
proof (rule seq_ring_okE)
  fix m
  assume m: "m \<le> 31" "sr_cap r = 2 ^ m" "unat (sr_cap r) = 2 ^ m" "0 < sr_elt_size r"
    "seq_ring_size r < 2 ^ m" "length (sr_array r) = 2 ^ m * sr_elt_size r" "\<And>i. ring_pos r i < 2 ^ m"
  define k where "k = sr_elt_size r"
  define C where "C = (2::nat) ^ m"
  define s where "s = ring_mask (sr_cap r) (sr_tail r)"
  define e where "e = ring_mask (sr_cap r) (sr_tail r + word_of_nat j)"
  have u: "unat s = ring_pos r 0" "unat e = ring_pos r j" "unat (sr_cap r) = C"
    by (simp_all add: s_def e_def ring_pos_def C_def m(3))
  have lt: "unat s < C" "unat e < C" using m(7) by (simp_all add: u C_def)
  have lin: "ring_pos r x = (if unat s + x < C then unat s + x else unat s + x - C)" if "x < C" for x
    using ring_pos_linear[OF ok, of x] that m(3) u by (simp add: C_def)
  have jC: "j < C" "seq_ring_size r < C" using j m by (auto simp: C_def)
  have ne: "s \<noteq> e" using lin[of j] jC j u(2) by (auto split: if_splits)
  have ew: "unat (e - s) = unat e - unat s" if "s < e"
    using that by (simp add: unat_sub word_le_nat_alt word_less_nat_alt)
  have cw: "unat (sr_cap r - s) = C - unat s"
    using lt u by (simp add: unat_sub word_le_nat_alt)
  have step: "unat e = unat s + j \<or> unat e + C = unat s + j" "s < e \<longleftrightarrow> unat e = unat s + j"
    using lin[of j] jC j lt u(2) by (auto simp: word_less_nat_alt split: if_splits)
  have jw: "(if s < e then e - s else sr_cap r - s + e) = word_of_nat j"
  proof -
    have "word_of_nat j = e - s" if "s < e"
    proof -
      have "unat (e - s) = j" using that step(2) ew by simp
      moreover have "word_of_nat (unat (e - s)) = e - s" by simp
      ultimately show ?thesis by (simp only:)
    qed
    moreover have "word_of_nat j = sr_cap r - s + e" if "\<not> s < e"
    proof -
      have "unat (sr_cap r - s) + unat e = j" unfolding cw using that step lt by linarith
      then have "word_of_nat (unat (sr_cap r - s)) + word_of_nat (unat e) = (word_of_nat j :: 32 word)"
        by (metis of_nat_add)
      then show ?thesis by simp
    qed
    ultimately show ?thesis by simp
  qed
  have it: "seq_ring_front r = unat s * k" "seq_ring_at r (word_of_nat j) = unat e * k"
    by (simp_all add: seq_ring_front_def seq_ring_at_def s_def e_def k_def)
  have itne: "unat s \<noteq> unat e" "k \<noteq> 0" using ne m(4) by (simp_all add: k_def word_unat_eq_iff)
  have fin: "ring_mask (sr_cap r) (sr_tail r + word_of_nat j) = e" by (simp add: e_def)
  have eC: "e \<le> sr_cap r" using lt u by (simp add: word_le_nat_alt)
  have len: "length (sr_array r) = C * k" by (simp add: m(6) C_def k_def)
  let ?upd = "\<lambda>buf. Some (r\<lparr>sr_array := buf, sr_tail := sr_tail r + word_of_nat j\<rparr>)"
  note red = seq_ring_erase_def Let_def it s_def[symmetric] k_def[symmetric] itne
    m(4)[folded k_def] ne ne[symmetric] eC
  show thesis
  proof (cases "s < e")
    case True
    have "unat s + j \<le> C" using True step lt by auto
    from memset0_elem[OF this len] obtain buf where buf:
      "mem_memset0 (sr_array r) (unat s * k) (j * k) = Some buf" "length buf = length (sr_array r)"
      "\<And>i. i < unat s \<or> unat s + j \<le> i \<Longrightarrow> elem k buf i = elem k (sr_array r) i" by blast
    have "unat (e - s) = j" using True step ew by simp
    then have "seq_ring_erase r (seq_ring_front r) (seq_ring_at r (word_of_nat j)) = ?upd buf"
      using True jw buf fin by (simp add: red)
    moreover have "elem k buf (ring_pos r x) = elem k (sr_array r) (ring_pos r x)"
      if "j \<le> x" "x < seq_ring_size r" for x
      by (rule buf(3)) (use lin[of x] that jC in \<open>auto split: if_splits\<close>)
    ultimately show thesis using that buf(2) by (simp add: k_def)
  next
    case False
    then have j2: "C - unat s + unat e = j" using step lt by auto
    have sC: "unat s + (C - unat s) \<le> C" using lt by simp
    from memset0_elem[OF sC len] obtain b1 where b1:
      "mem_memset0 (sr_array r) (unat s * k) ((C - unat s) * k) = Some b1"
      "length b1 = length (sr_array r)"
      "\<And>i. i < unat s \<or> unat s + (C - unat s) \<le> i \<Longrightarrow> elem k b1 i = elem k (sr_array r) i" by blast
    have "0 + unat e \<le> C" "length b1 = C * k" using lt b1(2) len by simp_all
    from memset0_elem[OF this] obtain b2 where b2:
      "mem_memset0 b1 (0 * k) (unat e * k) = Some b2" "length b2 = length b1"
      "\<And>i. i < 0 \<or> 0 + unat e \<le> i \<Longrightarrow> elem k b2 i = elem k b1 i" by blast
    have "e < s" using False ne by simp
    then have "seq_ring_erase r (seq_ring_front r) (seq_ring_at r (word_of_nat j)) = ?upd b2"
      using False jw b1 b2 fin cw by (simp add: red)
    moreover have "elem k b2 (ring_pos r x) = elem k (sr_array r) (ring_pos r x)"
      if x: "j \<le> x" "x < seq_ring_size r" for x
    proof -
      have "unat e \<le> ring_pos r x" "ring_pos r x < unat s"
        using lin[of x] x j2 lt jC by (auto split: if_splits)
      then show ?thesis using b2(3)[of "ring_pos r x"] b1(3)[of "ring_pos r x"] by simp
    qed
    ultimately show thesis using that b1(2) b2(2) by (simp add: k_def)
  qed
qed

lemma seq_ring_erase_refines:
  assumes ok: "seq_ring_ok r" and j: "0 < j" "j \<le> seq_ring_size r"
  obtains r' where "seq_ring_erase r (seq_ring_front r) (seq_ring_at r (word_of_nat j)) = Some r'"
    "seq_ring_ok r'" "seq_ring_elems r' = drop j (seq_ring_elems r)" "sr_elt_size r' = sr_elt_size r"
proof -
  from seq_ring_erase_steps[OF assms] obtain buf where buf:
    "seq_ring_erase r (seq_ring_front r) (seq_ring_at r (word_of_nat j)) =
       Some (r\<lparr>sr_array := buf, sr_tail := sr_tail r + word_of_nat j\<rparr>)" (is "_ = Some ?r")
    "length buf = length (sr_array r)"
    "\<And>x. j \<le> x \<Longrightarrow> x < seq_ring_size r \<Longrightarrow>
       elem (sr_elt_size r) buf (ring_pos r x) = elem (sr_elt_size r) (sr_array r) (ring_pos r x)"
    by blast
  have sz: "seq_ring_size ?r = seq_ring_size r - j" using j(2) by (rule seq_ring_size_pop)
  have "seq_ring_ok ?r" using ok sz buf(2) by (auto simp: seq_ring_ok_def)
  moreover have pos: "ring_pos ?r i = ring_pos r (j + i)" for i
    by (simp add: ring_pos_def add.assoc)
  have "seq_ring_elems ?r = drop j (seq_ring_elems r)"
    by (rule nth_equalityI)
       (use buf(3) in \<open>simp_all add: sz seq_ring_elems_def pos drop_map\<close>)
  ultimately show thesis using that buf(1) by simp
qed

lemma seq_ring_front_at: "seq_ring_front r = seq_ring_at r (word_of_nat 0)"
  by (simp add: seq_ring_front_def seq_ring_at_def)

lemma seq_ring_next_at:
  "seq_ring_ok r \<Longrightarrow> seq_ring_next r (seq_ring_at r (word_of_nat i)) = seq_ring_at r (word_of_nat (Suc i))"
  by (simp only: seq_ring_at_pos seq_ring_next_pos)

lemma seq_ring_load_at:
  assumes "seq_ring_ok r" "i < seq_ring_size r"
  shows "mem_load (sr_array r) (seq_ring_at r (word_of_nat i)) (sr_elt_size r) = Some (seq_ring_elems r ! i)"
  using mem_load_elem[OF ring_pos_room[OF assms(1), of i]] assms(2)
  by (simp add: seq_ring_at_pos seq_ring_elems_def)

lemma seq_ring_at_end:
  assumes ok: "seq_ring_ok r" and i: "i \<le> seq_ring_size r"
  shows "seq_ring_at r (word_of_nat i) = seq_ring_end r \<longleftrightarrow> i = seq_ring_size r"
  using ok i ring_pos_inj[OF ok, of i "seq_ring_size r"]
  by (auto simp: seq_ring_ok_def seq_ring_at_pos seq_ring_end_pos)

lemma seq_ring_free_loop_elems:
  assumes ok: "seq_ring_ok r" and i: "i \<le> seq_ring_size r"
  shows "seq_ring_free_loop r (seq_ring_at r (word_of_nat i)) = Some (drop i (seq_ring_elems r))"
  using i
proof (induction rule: inc_induct)
  case base
  then show ?case using seq_ring_at_end[OF ok, of "seq_ring_size r"]
    by (simp add: seq_ring_free_loop.simps)
next
  case (step i)
  have "seq_ring_at r (word_of_nat i) \<noteq> seq_ring_end r"
    using seq_ring_at_end[OF ok, of i] step.hyps by simp
  then show ?case
    using step seq_ring_load_at[OF ok, of i] seq_ring_next_at[OF ok, of i]
      Cons_nth_drop_Suc[of i "seq_ring_elems r"]
    by (simp add: seq_ring_free_loop.simps[of r "seq_ring_at r (word_of_nat i)"] del: of_nat_Suc)
qed

section \<open>Properties\<close>

text \<open>C29: pushing an element onto a well-formed ring with fewer than \<open>2 ^ 31 - 1\<close> elements
  always succeeds, also when the ring is full, its contents wrap around the end of the allocation
  and the buffer has to be enlarged, and appends exactly that element.\<close>

theorem seq_ring_push_appends:
  assumes "seq_ring_ok r" "length d = sr_elt_size r" "seq_ring_size r < 2 ^ 31 - 1"
  shows "\<exists>r'. seq_ring_push_back r d (sr_elt_size r) = Some r' \<and> seq_ring_ok r' \<and>
    seq_ring_elems r' = seq_ring_elems r @ [d]"
  using seq_ring_push_refines[OF assms] by metis

definition seq_ring_ex :: seq_ring where
  "seq_ring_ex = \<lparr>sr_array = mem_calloc 32 1, sr_elt_size = 1, sr_head = 3, sr_tail = - 1, sr_cap = 32\<rparr>"

lemma seq_ring_ex_ok: "seq_ring_ok seq_ring_ex"
  by (auto simp: seq_ring_ok_def seq_ring_ex_def seq_ring_size_def intro: exI[of _ 5])

lemma seq_ring_push_appends_witness:
  "\<exists>r'. seq_ring_push_back seq_ring_ex [9] 1 = Some r' \<and> seq_ring_ok r' \<and>
    seq_ring_elems r' = seq_ring_elems seq_ring_ex @ [[9]]"
  using seq_ring_push_appends[OF seq_ring_ex_ok, of "[9]"]
  by (simp add: seq_ring_ex_def seq_ring_size_def)

text \<open>Erasing the first \<open>j\<close> elements of a ring succeeds for every \<open>j\<close> up to its size,
  whether or not the erased range wraps around, and drops exactly these elements.\<close>

theorem seq_ring_erase_drops:
  assumes "seq_ring_ok r" "0 < j" "j \<le> seq_ring_size r"
  shows "\<exists>r'. seq_ring_erase r (seq_ring_front r) (seq_ring_at r (word_of_nat j)) = Some r' \<and>
    seq_ring_ok r' \<and> seq_ring_elems r' = drop j (seq_ring_elems r)"
  using seq_ring_erase_refines[OF assms] by metis

lemma seq_ring_erase_drops_witness:
  "\<exists>r'. seq_ring_erase seq_ring_ex 31 1 = Some r' \<and> seq_ring_ok r' \<and>
    seq_ring_elems r' = drop 2 (seq_ring_elems seq_ring_ex)"
  using seq_ring_erase_drops[OF seq_ring_ex_ok, of 2]
  by (simp add: seq_ring_ex_def seq_ring_size_def seq_ring_front_def seq_ring_at_def ring_mask_def)

text \<open>The loop from the front to the end of a ring terminates and hands every element to the
  free function exactly once, in order.\<close>

theorem seq_ring_free_visits_all:
  assumes "seq_ring_ok r"
  shows "seq_ring_free r True = Some (seq_ring_elems r)"
  using seq_ring_free_loop_elems[OF assms, of 0] by (simp add: seq_ring_free_def seq_ring_front_at)

lemma seq_ring_free_visits_all_witness:
  "seq_ring_free seq_ring_ex True = Some [[0], [0], [0], [0]]"
  using seq_ring_free_visits_all[OF seq_ring_ex_ok]
  by (simp add: seq_ring_elems_def seq_ring_ex_def seq_ring_size_def ring_pos_def ring_mask_def elem_def
      mem_calloc_def upt_rec)

end
