(* ===== verification/Fifo_Interface.thy ===== *)
theory Fifo_Interface
  imports Prelude
begin

text \<open>
  The contract between a queue and the code that shares it: a push appends, a pop takes
  the oldest element, and neither fails in between.  The operations of the thread-safe queues
  run under a mutex, so a run of any number of threads is a sequence of them; the lemmas of the
  locale are about every such sequence.
\<close>

datatype 'a fifo_op = Push 'a | Pop

primrec pushed :: "'a fifo_op list \<Rightarrow> 'a list" where
  "pushed [] = []"
| "pushed (op # ops) = (case op of Push x \<Rightarrow> x # pushed ops | Pop \<Rightarrow> pushed ops)"

text \<open>No pop meets an empty queue, starting from one with \<open>n\<close> elements.\<close>
primrec never_void :: "nat \<Rightarrow> 'a fifo_op list \<Rightarrow> bool" where
  "never_void n [] = True"
| "never_void n (op # ops) = (case op of Push x \<Rightarrow> never_void (Suc n) ops
     | Pop \<Rightarrow> 0 < n \<and> never_void (n - 1) ops)"

primrec fifo_run ::
  "('q \<Rightarrow> 'a \<Rightarrow> 'q option) \<Rightarrow> ('q \<Rightarrow> ('a \<times> 'q) option) \<Rightarrow> 'a fifo_op list \<Rightarrow> 'q \<Rightarrow> ('a list \<times> 'q) option"
where
  "fifo_run push pop [] q = Some ([], q)"
| "fifo_run push pop (op # ops) q = (case op of
     Push x \<Rightarrow> do { q \<leftarrow> push q x; fifo_run push pop ops q }
   | Pop \<Rightarrow> do { (x, q) \<leftarrow> pop q; (xs, q) \<leftarrow> fifo_run push pop ops q; Some (x # xs, q) })"

locale fifo =
  fixes ok :: "'q \<Rightarrow> bool" and contents :: "'q \<Rightarrow> 'a list" and wf :: "'a \<Rightarrow> bool" and limit :: nat
    and push :: "'q \<Rightarrow> 'a \<Rightarrow> 'q option" and pop :: "'q \<Rightarrow> ('a \<times> 'q) option"
  assumes push_ok: "ok q \<Longrightarrow> wf x \<Longrightarrow> length (contents q) < limit \<Longrightarrow>
      \<exists>q'. push q x = Some q' \<and> ok q' \<and> contents q' = contents q @ [x]"
    and pop_ok: "ok q \<Longrightarrow> contents q = x # xs \<Longrightarrow> \<exists>q'. pop q = Some (x, q') \<and> ok q' \<and> contents q' = xs"
    and pop_void: "ok q \<Longrightarrow> contents q = [] \<Longrightarrow> pop q = None"
begin

lemma run_returns:
  assumes "ok q" "\<forall>x \<in> set (pushed ops). wf x" "length (contents q) + length (pushed ops) \<le> limit"
    and "never_void (length (contents q)) ops"
  shows "\<exists>xs q'. fifo_run push pop ops q = Some (xs, q') \<and> ok q' \<and>
    contents q @ pushed ops = xs @ contents q'"
  using assms
proof (induction ops arbitrary: q)
  case Nil
  then show ?case by simp
next
  case (Cons op ops)
  show ?case
  proof (cases op)
    case (Push x)
    then have "wf x" "length (contents q) < limit" using Cons.prems by simp_all
    then obtain q1 where q1: "push q x = Some q1" "ok q1" "contents q1 = contents q @ [x]"
      using push_ok Cons.prems(1) by blast
    with Cons.IH[of q1] Cons.prems Push show ?thesis by auto
  next
    case Pop
    then obtain x xs where c: "contents q = x # xs" using Cons.prems by (cases "contents q") auto
    then obtain q1 where q1: "pop q = Some (x, q1)" "ok q1" "contents q1 = xs"
      using pop_ok Cons.prems(1) by blast
    with Cons.IH[of q1] Cons.prems Pop c show ?thesis by auto
  qed
qed

lemma run_void_stuck:
  assumes "ok q" "\<forall>x \<in> set (pushed ops). wf x" "length (contents q) + length (pushed ops) \<le> limit"
    and "\<not> never_void (length (contents q)) ops"
  shows "fifo_run push pop ops q = None"
  using assms
proof (induction ops arbitrary: q)
  case (Cons op ops)
  show ?case
  proof (cases op)
    case (Push x)
    then have "wf x" "length (contents q) < limit" using Cons.prems by simp_all
    then obtain q1 where q1: "push q x = Some q1" "ok q1" "contents q1 = contents q @ [x]"
      using push_ok Cons.prems(1) by blast
    with Cons.IH[of q1] Cons.prems Push show ?thesis by auto
  next
    case Pop
    show ?thesis
    proof (cases "contents q")
      case Nil
      then show ?thesis using pop_void[OF Cons.prems(1)] Pop by simp
    next
      case c: (Cons x xs)
      then obtain q1 where q1: "pop q = Some (x, q1)" "ok q1" "contents q1 = xs"
        using pop_ok Cons.prems(1) by blast
      with Cons.IH[of q1] Cons.prems Pop c show ?thesis by auto
    qed
  qed
qed simp

end

end
