(* ===== verification/Tsq.thy ===== *)
theory Tsq
  imports Seq_Ring Fifo_Interface
begin

text \<open>
  The thread-safe queues of src/util/alg_ds/ds/tsq/tsq.c and src/util/alg_ds/ds/tsn_queue/tsn_queue.c.

  Every operation holds the mutex of the queue from its first to its last access, so it is one
  step here; the mutex and the condition variable have no other state.  A wait on the condition
  variable that has nothing to return is the result \<open>Blocked\<close>: the thread sleeps and repeats the
  step after a signal.
\<close>

section \<open>The queue without notification\<close>

record tsq = tsq_r :: seq_ring

definition init_tsq :: "nat \<Rightarrow> tsq option" where
  "init_tsq elm_sz = do { c_assert (0 < elm_sz); Some \<lparr>tsq_r = seq_ring_init elm_sz\<rparr> }"

definition free_tsq :: "tsq \<Rightarrow> bool \<Rightarrow> byte list list option" where
  "free_tsq q has_f = seq_ring_free (tsq_r q) has_f"

definition push_tsq :: "tsq \<Rightarrow> byte list \<Rightarrow> nat \<Rightarrow> tsq option" where
  "push_tsq q val sz = do {
     c_assert (0 < sz);
     r \<leftarrow> seq_ring_push_back (tsq_r q) val sz;
     Some (q\<lparr>tsq_r := r\<rparr>)
   }"

definition pop_tsq :: "tsq \<Rightarrow> nat \<Rightarrow> (byte list \<times> tsq) option" where
  "pop_tsq q elm_sz = do {
     let r = tsq_r q;
     c_assert (sr_elt_size r = elm_sz);
     c_assert (seq_ring_size r \<noteq> 0);
     let it = seq_ring_front r;
     val \<leftarrow> mem_load (sr_array r) it elm_sz;
     c_assert (it \<noteq> seq_ring_end r);
     let nxt = seq_ring_next r it;
     r \<leftarrow> seq_ring_erase r it nxt;
     Some (val, q\<lparr>tsq_r := r\<rparr>)
   }"

definition size_tsq :: "tsq \<Rightarrow> nat" where
  "size_tsq q = seq_ring_size (tsq_r q)"

section \<open>The notification queue\<close>

record tsnq =
  tsnq_r :: seq_ring
  stop_token :: bool
  stopped :: bool

datatype 'a popped = Elm 'a | Stopped | Blocked

definition init_tsnq :: "nat \<Rightarrow> tsnq option" where
  "init_tsnq elm_sz = do {
     c_assert (0 < elm_sz);
     Some \<lparr>tsnq_r = seq_ring_init elm_sz, stop_token = False, stopped = False\<rparr>
   }"

text \<open>The two halves of the free operation: it announces the stop, and releases the ring once a
  consumer has acknowledged it.\<close>
definition free_tsnq_stop :: "tsnq \<Rightarrow> tsnq" where
  "free_tsnq_stop q = q\<lparr>stop_token := True\<rparr>"

definition free_tsnq_join :: "tsnq \<Rightarrow> bool \<Rightarrow> byte list list popped option" where
  "free_tsnq_join q has_f =
     (if \<not> stopped q then Some Blocked
      else do { es \<leftarrow> seq_ring_free (tsnq_r q) has_f; Some (Elm es) })"

definition push_tsnq :: "tsnq \<Rightarrow> byte list \<Rightarrow> nat \<Rightarrow> tsnq option" where
  "push_tsnq q val sz = do {
     r \<leftarrow> seq_ring_push_back (tsnq_r q) val sz;
     Some (q\<lparr>tsnq_r := r\<rparr>)
   }"

definition wait_and_pop_tsnq :: "tsnq \<Rightarrow> (byte list \<Rightarrow> 'a) \<Rightarrow> ('a popped \<times> tsnq) option" where
  "wait_and_pop_tsnq q f =
     (if seq_ring_size (tsnq_r q) = 0 \<and> \<not> stop_token q then Some (Blocked, q)
      else if stop_token q then Some (Stopped, q\<lparr>stopped := True\<rparr>)
      else do {
        let r = tsnq_r q;
        let it = seq_ring_front r;
        e \<leftarrow> mem_load (sr_array r) it (sr_elt_size r);
        let elm = f e;
        c_assert (it \<noteq> seq_ring_end r);
        let nxt = seq_ring_next r it;
        r \<leftarrow> seq_ring_erase r it nxt;
        Some (Elm elm, q\<lparr>tsnq_r := r\<rparr>)
      })"

text \<open>The loop of the batched pops: \<open>n\<close> calls of \<open>f\<close>, of which only the last result is kept.\<close>
primrec pop_loop :: "seq_ring \<Rightarrow> (byte list \<Rightarrow> 'a) \<Rightarrow> nat \<Rightarrow> nat \<Rightarrow> 'a option \<Rightarrow> ('a option \<times> nat) option" where
  "pop_loop r f 0 nxt elm = Some (elm, nxt)"
| "pop_loop r f (Suc n) nxt elm = do {
     e \<leftarrow> mem_load (sr_array r) nxt (sr_elt_size r);
     pop_loop r f n (seq_ring_next r nxt) (Some (f e))
   }"

definition pop_tsnq_batch :: "nat \<Rightarrow> tsnq \<Rightarrow> (byte list \<Rightarrow> 'a) \<Rightarrow> ('a option popped \<times> tsnq) option" where
  "pop_tsnq_batch n q f =
     (if stop_token q then Some (Stopped, q\<lparr>stopped := True\<rparr>)
      else do {
        let r = tsnq_r q;
        c_assert (n \<le> seq_ring_size r);
        let it = seq_ring_front r;
        c_assert (it \<noteq> seq_ring_end r);
        (elm, nxt) \<leftarrow> pop_loop r f n it None;
        r \<leftarrow> seq_ring_erase r it nxt;
        Some (Elm elm, q\<lparr>tsnq_r := r\<rparr>)
      })"

definition pop_tsnq_10 :: "tsnq \<Rightarrow> (byte list \<Rightarrow> 'a) \<Rightarrow> ('a option popped \<times> tsnq) option" where
  "pop_tsnq_10 = pop_tsnq_batch 10"

definition pop_tsnq_100 :: "tsnq \<Rightarrow> (byte list \<Rightarrow> 'a) \<Rightarrow> ('a option popped \<times> tsnq) option" where
  "pop_tsnq_100 = pop_tsnq_batch 100"

definition size_tsnq :: "tsnq \<Rightarrow> nat" where
  "size_tsnq q = seq_ring_size (tsnq_r q)"

section \<open>The queues keep the contract\<close>

text \<open>Both pops read the front and erase up to its successor.\<close>
lemma ring_pop_front:
  assumes ok: "seq_ring_ok r" and ne: "seq_ring_elems r = x # xs"
  obtains r' where "mem_load (sr_array r) (seq_ring_front r) (sr_elt_size r) = Some x"
    "seq_ring_front r \<noteq> seq_ring_end r" "seq_ring_size r \<noteq> 0"
    "seq_ring_erase r (seq_ring_front r) (seq_ring_next r (seq_ring_front r)) = Some r'"
    "seq_ring_ok r'" "seq_ring_elems r' = xs" "sr_elt_size r' = sr_elt_size r"
proof -
  have sz: "0 < seq_ring_size r" using ne by (metis length_greater_0_conv length_seq_ring_elems list.distinct(1))
  then have "1 \<le> seq_ring_size r" by simp
  from seq_ring_erase_refines[OF ok _ this] obtain r' where r':
    "seq_ring_erase r (seq_ring_front r) (seq_ring_at r (word_of_nat 1)) = Some r'"
    "seq_ring_ok r'" "seq_ring_elems r' = drop 1 (seq_ring_elems r)" "sr_elt_size r' = sr_elt_size r" by auto
  have nx: "seq_ring_next r (seq_ring_front r) = seq_ring_at r (word_of_nat 1)"
    unfolding seq_ring_front_at seq_ring_next_at[OF ok] by simp
  have ld: "mem_load (sr_array r) (seq_ring_front r) (sr_elt_size r) = Some x"
    using seq_ring_load_at[OF ok sz] ne by (simp only: seq_ring_front_at nth_Cons_0)
  have "seq_ring_front r \<noteq> seq_ring_end r"
    using seq_ring_at_end[OF ok, of 0] sz by (simp add: seq_ring_front_at)
  then show thesis using that[of r'] r' ld nx sz ne by simp
qed

definition tsq_ok :: "nat \<Rightarrow> tsq \<Rightarrow> bool" where
  "tsq_ok k q \<longleftrightarrow> seq_ring_ok (tsq_r q) \<and> sr_elt_size (tsq_r q) = k"

definition tsq_contents :: "tsq \<Rightarrow> byte list list" where
  "tsq_contents q = seq_ring_elems (tsq_r q)"

interpretation tsq: fifo "tsq_ok k" tsq_contents "\<lambda>x. length x = k" "2 ^ 31 - 1"
  "\<lambda>q x. push_tsq q x k" "\<lambda>q. pop_tsq q k" for k
proof unfold_locales
  fix q :: tsq and x :: "byte list"
  assume q: "tsq_ok k q" "length x = k" "length (tsq_contents q) < 2 ^ 31 - 1"
  then have "0 < k" by (auto simp: tsq_ok_def seq_ring_ok_def)
  then show "\<exists>q'. push_tsq q x k = Some q' \<and> tsq_ok k q' \<and> tsq_contents q' = tsq_contents q @ [x]"
    using seq_ring_push_refines[of "tsq_r q" x] q by (force simp: tsq_ok_def tsq_contents_def push_tsq_def)
next
  fix q x xs
  assume q: "tsq_ok k q" "tsq_contents q = x # xs"
  then have "seq_ring_ok (tsq_r q)" "seq_ring_elems (tsq_r q) = x # xs" "sr_elt_size (tsq_r q) = k"
    by (simp_all add: tsq_ok_def tsq_contents_def)
  from ring_pop_front[OF this(1,2)] this(3)
  show "\<exists>q'. pop_tsq q k = Some (x, q') \<and> tsq_ok k q' \<and> tsq_contents q' = xs"
    by (force simp: tsq_ok_def tsq_contents_def pop_tsq_def Let_def)
next
  fix q
  assume "tsq_ok k q" "tsq_contents q = []"
  then show "pop_tsq q k = None"
    by (simp add: tsq_ok_def tsq_contents_def pop_tsq_def seq_ring_elems_def)
qed

definition tsnq_ok :: "nat \<Rightarrow> tsnq \<Rightarrow> bool" where
  "tsnq_ok k q \<longleftrightarrow> seq_ring_ok (tsnq_r q) \<and> sr_elt_size (tsnq_r q) = k"

definition tsnq_contents :: "tsnq \<Rightarrow> byte list list" where
  "tsnq_contents q = seq_ring_elems (tsnq_r q)"

lemma push_tsnq_spec:
  assumes "tsnq_ok k q" "length x = k" "length (tsnq_contents q) < 2 ^ 31 - 1"
  obtains q' where "push_tsnq q x k = Some q'" "tsnq_ok k q'" "tsnq_contents q' = tsnq_contents q @ [x]"
    "stop_token q' = stop_token q"
proof -
  from assms have "seq_ring_ok (tsnq_r q)" "length x = sr_elt_size (tsnq_r q)"
    "seq_ring_size (tsnq_r q) < 2 ^ 31 - 1" by (simp_all add: tsnq_ok_def tsnq_contents_def)
  from seq_ring_push_refines[OF this] assms(1) that show thesis
    by (force simp: tsnq_ok_def tsnq_contents_def push_tsnq_def)
qed

lemma wait_and_pop_spec:
  assumes "tsnq_ok k q" "\<not> stop_token q" "tsnq_contents q = x # xs"
  obtains q' where "wait_and_pop_tsnq q f = Some (Elm (f x), q')" "tsnq_ok k q'" "tsnq_contents q' = xs"
    "stop_token q' = stop_token q"
proof -
  from assms have "seq_ring_ok (tsnq_r q)" "seq_ring_elems (tsnq_r q) = x # xs"
    by (simp_all add: tsnq_ok_def tsnq_contents_def)
  from ring_pop_front[OF this] assms that show thesis
    by (force simp: tsnq_ok_def tsnq_contents_def wait_and_pop_tsnq_def Let_def)
qed

text \<open>A consumer that takes the element itself, seen by the contract: blocking and stopping are
  not pops.\<close>
definition tsnq_take :: "tsnq \<Rightarrow> (byte list \<times> tsnq) option" where
  "tsnq_take q = (case wait_and_pop_tsnq q id of Some (Elm x, q') \<Rightarrow> Some (x, q') | _ \<Rightarrow> None)"

interpretation tsnq: fifo "\<lambda>q. tsnq_ok k q \<and> \<not> stop_token q" tsnq_contents "\<lambda>x. length x = k"
  "2 ^ 31 - 1" "\<lambda>q x. push_tsnq q x k" tsnq_take for k
proof unfold_locales
  fix q :: tsnq and x :: "byte list"
  assume "tsnq_ok k q \<and> \<not> stop_token q" "length x = k" "length (tsnq_contents q) < 2 ^ 31 - 1"
  then show "\<exists>q'. push_tsnq q x k = Some q' \<and> (tsnq_ok k q' \<and> \<not> stop_token q') \<and>
      tsnq_contents q' = tsnq_contents q @ [x]"
    using push_tsnq_spec[of k q x] by metis
next
  fix q :: tsnq and x xs
  assume "tsnq_ok k q \<and> \<not> stop_token q" "tsnq_contents q = x # xs"
  with wait_and_pop_spec[of k q x xs id] obtain q' where
    "wait_and_pop_tsnq q id = Some (Elm x, q')" "tsnq_ok k q'" "tsnq_contents q' = xs" "\<not> stop_token q'"
    by (metis id_apply)
  then show "\<exists>q'. tsnq_take q = Some (x, q') \<and> (tsnq_ok k q' \<and> \<not> stop_token q') \<and> tsnq_contents q' = xs"
    by (simp add: tsnq_take_def)
next
  fix q
  assume "tsnq_ok k q \<and> \<not> stop_token q" "tsnq_contents q = []"
  then show "tsnq_take q = None"
    by (simp add: tsnq_take_def wait_and_pop_tsnq_def tsnq_contents_def seq_ring_elems_def)
qed

lemma pop_loop_spec:
  assumes ok: "seq_ring_ok r" and "i + n \<le> seq_ring_size r"
  shows "pop_loop r f n (seq_ring_at r (word_of_nat i)) elm =
    Some (if n = 0 then elm else Some (f (seq_ring_elems r ! (i + n - 1))),
          seq_ring_at r (word_of_nat (i + n)))"
  using assms(2)
proof (induction n arbitrary: i elm)
  case (Suc n)
  then show ?case
    using seq_ring_load_at[OF ok, of i] seq_ring_next_at[OF ok, of i] Suc.IH[of "Suc i"]
    by (simp del: of_nat_Suc of_nat_add)
qed simp

section \<open>Properties\<close>

text \<open>C30: a thread-safe queue is first-in first-out: any sequence of pushes and pops on it, by
  any number of threads, that holds at most \<open>2 ^ 31 - 1\<close> elements and never pops a void queue runs
  without failing, and what was in the queue followed by what was pushed is what was popped followed
  by what is left.\<close>

theorem tsq_fifo:
  assumes "tsq_ok k q" "\<forall>x \<in> set (pushed ops). length x = k"
    and "length (tsq_contents q) + length (pushed ops) \<le> 2 ^ 31 - 1"
    and "never_void (length (tsq_contents q)) ops"
  shows "\<exists>xs q'. fifo_run (\<lambda>q x. push_tsq q x k) (\<lambda>q. pop_tsq q k) ops q = Some (xs, q') \<and>
    tsq_ok k q' \<and> tsq_contents q @ pushed ops = xs @ tsq_contents q'"
  using assms by (rule tsq.run_returns)

lemma tsq_fifo_witness:
  "\<exists>xs q'. fifo_run (\<lambda>q x. push_tsq q x 1) (\<lambda>q. pop_tsq q 1) [Push [1], Push [2], Pop]
      \<lparr>tsq_r = seq_ring_init 1\<rparr> = Some (xs, q') \<and> tsq_ok 1 q' \<and> [[1], [2]] = xs @ tsq_contents q'"
proof -
  have "tsq_ok 1 \<lparr>tsq_r = seq_ring_init 1\<rparr>" "tsq_contents \<lparr>tsq_r = seq_ring_init 1\<rparr> = []"
    using seq_ring_init_ok[of 1] seq_ring_init_elems[of 1]
    by (simp_all add: tsq_ok_def tsq_contents_def seq_ring_init_def)
  with tsq_fifo[of 1 "\<lparr>tsq_r = seq_ring_init 1\<rparr>" "[Push [1], Push [2], Pop]"] show ?thesis by simp
qed

text \<open>A batched pop of the notification queue removes the \<open>n\<close> oldest elements and keeps the
  others, but hands back only what \<open>f\<close> made of the last of them.\<close>

theorem pop_tsnq_batch_drops:
  assumes "tsnq_ok k q" "\<not> stop_token q" "0 < n" "n \<le> length (tsnq_contents q)"
  shows "\<exists>q'. pop_tsnq_batch n q f = Some (Elm (Some (f (tsnq_contents q ! (n - 1)))), q') \<and>
    tsnq_ok k q' \<and> tsnq_contents q' = drop n (tsnq_contents q)"
proof -
  have ok: "seq_ring_ok (tsnq_r q)" and n: "n \<le> seq_ring_size (tsnq_r q)"
    using assms by (simp_all add: tsnq_ok_def tsnq_contents_def)
  from seq_ring_erase_refines[OF ok assms(3) n] obtain r' where r':
    "seq_ring_erase (tsnq_r q) (seq_ring_front (tsnq_r q)) (seq_ring_at (tsnq_r q) (word_of_nat n)) = Some r'"
    "seq_ring_ok r'" "seq_ring_elems r' = drop n (seq_ring_elems (tsnq_r q))"
    "sr_elt_size r' = sr_elt_size (tsnq_r q)" .
  have "seq_ring_front (tsnq_r q) \<noteq> seq_ring_end (tsnq_r q)"
    using seq_ring_at_end[OF ok, of 0] assms(3) n by (simp add: seq_ring_front_at)
  then show ?thesis
    using pop_loop_spec[OF ok, of 0 n f None] r' assms n
    by (simp add: pop_tsnq_batch_def Let_def seq_ring_front_at tsnq_ok_def tsnq_contents_def)
qed

lemma pop_tsnq_batch_drops_witness:
  "\<exists>q'. pop_tsnq_batch 2 \<lparr>tsnq_r = seq_ring_ex, stop_token = False, stopped = False\<rparr> length =
      Some (Elm (Some 1), q') \<and> tsnq_ok 1 q' \<and>
    tsnq_contents q' = drop 2 (seq_ring_elems seq_ring_ex)"
proof -
  let ?q = "\<lparr>tsnq_r = seq_ring_ex, stop_token = False, stopped = False\<rparr>"
  have q: "tsnq_ok 1 ?q" "tsnq_contents ?q = [[0], [0], [0], [0]]" "seq_ring_size seq_ring_ex = 4"
    using seq_ring_ex_ok
    by (simp_all add: tsnq_ok_def tsnq_contents_def seq_ring_elems_def seq_ring_ex_def
        seq_ring_size_def ring_pos_def ring_mask_def elem_def mem_calloc_def upt_rec)
  with pop_tsnq_batch_drops[OF q(1), of 2 length] show ?thesis by (simp add: tsnq_contents_def)
qed

end
