(* ===== verification/Wire.thy ===== *)
theory Wire
  imports Prelude
begin

text \<open>
  What the plain encoders and decoders of the service models share: fixed-width little-endian
  integers, the pointer into the buffer that an encoder fills, and the pointer into the message that
  a decoder reads.

  An encoder allocates a buffer of the size it has computed and copies field after field, advancing
  the pointer \<open>it\<close>; the pointer splits the buffer into the bytes written so far and the room
  left, and a copy that does not fit is \<^term>\<open>None\<close>.  A decoder's pointer is the list of the bytes from it to the
  end of the message: a copy that reads beyond the end is \<^term>\<open>None\<close>.
\<close>

named_theorems wire_simps \<open>fields and pointers of the codecs\<close>

section \<open>Integers in memory\<close>

primrec le_bytes :: "nat \<Rightarrow> nat \<Rightarrow> byte list" where
  "le_bytes 0 n = []"
| "le_bytes (Suc k) n = word_of_nat n # le_bytes k (n div 256)"

fun le_nat :: "byte list \<Rightarrow> nat" where
  "le_nat [] = 0"
| "le_nat (b # bs) = unat b + 256 * le_nat bs"

lemma length_le_bytes [simp]: "length (le_bytes k n) = k"
  by (induction k arbitrary: n) simp_all

lemma le_nat_bytes: "n < 256 ^ k \<Longrightarrow> le_nat (le_bytes k n) = n"
proof (induction k arbitrary: n)
  case (Suc k)
  then have "n div 256 < 256 ^ k" by (simp add: less_mult_imp_div_less mult.commute)
  then show ?case using Suc.IH by (simp add: unat_of_nat)
qed simp

lemma unat_bound_256:
  "unat (w :: 8 word) < 256 ^ 1" "unat (x :: 16 word) < 256 ^ 2" "unat (y :: 32 word) < 256 ^ 4"
  "unat (z :: 64 word) < 256 ^ 8"
  using unsigned_less[where w = w and 'a = nat] unsigned_less[where w = x and 'a = nat]
    unsigned_less[where w = y and 'a = nat] unsigned_less[where w = z and 'a = nat] by simp_all

lemmas le_nat_word = le_nat_bytes[OF unat_bound_256(1)] le_nat_bytes[OF unat_bound_256(2)]
  le_nat_bytes[OF unat_bound_256(3)] le_nat_bytes[OF unat_bound_256(4)]

lemma unat_32: "unat (w :: uint32) < 2 ^ 32"
  using unat_bound_256(3)[of w] by simp

lemma unat_of_nat_32: "n < 2 ^ 32 \<Longrightarrow> unat (word_of_nat n :: uint32) = n"
  by (simp add: unat_of_nat)

section \<open>Writing\<close>

record wbuf =
  written :: "byte list"
  room :: nat

definition put_bytes :: "byte list \<Rightarrow> wbuf \<Rightarrow> wbuf option" where
  "put_bytes bs p = (if length bs \<le> room p then Some \<lparr>written = written p @ bs, room = room p - length bs\<rparr> else None)"

definition put8 :: "8 word \<Rightarrow> wbuf \<Rightarrow> wbuf option" where
  "put8 w = put_bytes (le_bytes 1 (unat w))"

definition put16 :: "16 word \<Rightarrow> wbuf \<Rightarrow> wbuf option" where
  "put16 w = put_bytes (le_bytes 2 (unat w))"

definition put32 :: "32 word \<Rightarrow> wbuf \<Rightarrow> wbuf option" where
  "put32 w = put_bytes (le_bytes 4 (unat w))"

definition put64 :: "64 word \<Rightarrow> wbuf \<Rightarrow> wbuf option" where
  "put64 w = put_bytes (le_bytes 8 (unat w))"

text \<open>A copy of \<open>n\<close> bytes from a buffer: it reads them first.\<close>
definition put_from :: "byte list \<Rightarrow> nat \<Rightarrow> wbuf \<Rightarrow> wbuf option" where
  "put_from buf n p = do { bs \<leftarrow> mem_load buf 0 n; put_bytes bs p }"

text \<open>The loop over the first \<open>n\<close> elements of an array.\<close>
primrec put_loop :: "('a \<Rightarrow> wbuf \<Rightarrow> wbuf option) \<Rightarrow> 'a list \<Rightarrow> nat \<Rightarrow> nat \<Rightarrow> wbuf \<Rightarrow> wbuf option" where
  "put_loop f xs i 0 p = Some p"
| "put_loop f xs i (Suc n) p = do {
     c_assert (i < length xs);
     p \<leftarrow> f (xs ! i) p;
     put_loop f xs (Suc i) n p
   }"

definition adv :: "wbuf \<Rightarrow> byte list \<Rightarrow> wbuf" where
  "adv p bs = \<lparr>written = written p @ bs, room = room p - length bs\<rparr>"

lemma room_adv [wire_simps]: "room (adv p bs) = room p - length bs"
  by (simp add: adv_def)

lemma written_adv [wire_simps]: "written (adv p bs) = written p @ bs"
  by (simp add: adv_def)

lemma adv_adv [wire_simps]: "adv (adv p as) bs = adv p (as @ bs)"
  by (simp add: adv_def)

lemma adv_Nil [wire_simps]: "adv p [] = p"
  by (simp add: adv_def)

lemma put_adv [wire_simps]: "length bs \<le> room p \<Longrightarrow> put_bytes bs p = Some (adv p bs)"
  by (simp add: put_bytes_def adv_def)

lemma put_n_adv:
  "1 \<le> room p \<Longrightarrow> put8 a p = Some (adv p (le_bytes 1 (unat a)))"
  "2 \<le> room p \<Longrightarrow> put16 b p = Some (adv p (le_bytes 2 (unat b)))"
  "4 \<le> room p \<Longrightarrow> put32 c p = Some (adv p (le_bytes 4 (unat c)))"
  "8 \<le> room p \<Longrightarrow> put64 d p = Some (adv p (le_bytes 8 (unat d)))"
  by (simp_all only: put8_def put16_def put32_def put64_def put_adv length_le_bytes)

lemma put_from_adv [wire_simps]:
  "n \<le> length buf \<Longrightarrow> n \<le> room p \<Longrightarrow> put_from buf n p = Some (adv p (take n buf))"
  by (simp add: put_from_def mem_load_def put_adv)

text \<open>A copy never fits when the room is too small.\<close>
lemma put_from_None: "length buf < n \<Longrightarrow> put_from buf n p = None"
  by (simp add: put_from_def mem_load_def)

lemma put_loop_adv:
  assumes "\<And>x p. x \<in> set xs \<Longrightarrow> length (lay x) \<le> room p \<Longrightarrow> f x p = Some (adv p (lay x))"
    and "i + n \<le> length xs" "length (concat (map lay (take n (drop i xs)))) \<le> room p"
  shows "put_loop f xs i n p = Some (adv p (concat (map lay (take n (drop i xs)))))"
  using assms(2,3)
proof (induction n arbitrary: i p)
  case (Suc n)
  then have i: "i < length xs" by linarith
  have d: "drop i xs = xs ! i # drop (Suc i) xs" using i by (simp add: Cons_nth_drop_Suc)
  have f: "f (xs ! i) p = Some (adv p (lay (xs ! i)))"
    using assms(1)[of "xs ! i" p] i Suc.prems(2) by (simp add: d)
  have "put_loop f xs (Suc i) n (adv p (lay (xs ! i))) =
      Some (adv (adv p (lay (xs ! i))) (concat (map lay (take n (drop (Suc i) xs)))))"
    using Suc.prems by (intro Suc.IH) (simp_all add: d room_adv)
  then show ?case using i f by (simp add: d adv_adv)
qed (simp add: adv_Nil)

lemma put_all_adv:
  assumes "\<And>x p. x \<in> set xs \<Longrightarrow> length (lay x) \<le> room p \<Longrightarrow> f x p = Some (adv p (lay x))"
    and "n = length xs" "length (concat (map lay xs)) \<le> room p"
  shows "put_loop f xs 0 n p = Some (adv p (concat (map lay xs)))"
  using put_loop_adv[where f = f and lay = lay and xs = xs, OF assms(1), of 0 n p] assms(2,3) by simp

section \<open>Reading\<close>

lemma word_nat_id: "word_of_nat (unat w) = w"
  by simp

definition take_bytes :: "nat \<Rightarrow> byte list \<Rightarrow> (byte list \<times> byte list) option" where
  "take_bytes n it = (if n \<le> length it then Some (take n it, drop n it) else None)"

definition get8 :: "byte list \<Rightarrow> (8 word \<times> byte list) option" where
  "get8 it = do { (bs, it) \<leftarrow> take_bytes 1 it; Some (word_of_nat (le_nat bs), it) }"

definition get16 :: "byte list \<Rightarrow> (16 word \<times> byte list) option" where
  "get16 it = do { (bs, it) \<leftarrow> take_bytes 2 it; Some (word_of_nat (le_nat bs), it) }"

definition get32 :: "byte list \<Rightarrow> (32 word \<times> byte list) option" where
  "get32 it = do { (bs, it) \<leftarrow> take_bytes 4 it; Some (word_of_nat (le_nat bs), it) }"

definition get64 :: "byte list \<Rightarrow> (64 word \<times> byte list) option" where
  "get64 it = do { (bs, it) \<leftarrow> take_bytes 8 it; Some (word_of_nat (le_nat bs), it) }"

text \<open>The loop that fills the \<open>n\<close> elements of a new array.\<close>
primrec get_loop :: "(byte list \<Rightarrow> ('a \<times> byte list) option) \<Rightarrow> nat \<Rightarrow> byte list \<Rightarrow> ('a list \<times> byte list) option" where
  "get_loop f 0 it = Some ([], it)"
| "get_loop f (Suc n) it = do {
     (x, it) \<leftarrow> f it;
     (xs, it) \<leftarrow> get_loop f n it;
     Some (x # xs, it)
   }"

lemma take_bytes_append [wire_simps]: "n = length bs \<Longrightarrow> take_bytes n (bs @ it) = Some (bs, it)"
  by (simp add: take_bytes_def)

lemma get_put:
  "get8 (le_bytes 1 (unat a) @ it) = Some (a, it)"
  "get16 (le_bytes 2 (unat b) @ it) = Some (b, it)"
  "get32 (le_bytes 4 (unat c) @ it) = Some (c, it)"
  "get64 (le_bytes 8 (unat d) @ it) = Some (d, it)"
  by (simp_all only: get8_def get16_def get32_def get64_def take_bytes_append length_le_bytes bind.bind_lunit
      case_prod_conv le_nat_word word_nat_id)

lemma get_short:
  "length it < 1 \<Longrightarrow> get8 it = None" "length it < 2 \<Longrightarrow> get16 it = None"
  "length it < 4 \<Longrightarrow> get32 it = None" "length it < 8 \<Longrightarrow> get64 it = None"
  by (simp_all add: get8_def get16_def get32_def get64_def take_bytes_def)

section \<open>The layout of the integers\<close>

definition lay8 :: "8 word \<Rightarrow> byte list" where "lay8 w = le_bytes 1 (unat w)"
definition lay16 :: "16 word \<Rightarrow> byte list" where "lay16 w = le_bytes 2 (unat w)"
definition lay32 :: "32 word \<Rightarrow> byte list" where "lay32 w = le_bytes 4 (unat w)"
definition lay64 :: "64 word \<Rightarrow> byte list" where "lay64 w = le_bytes 8 (unat w)"

lemma length_lay [simp]:
  "length (lay8 z) = 1" "length (lay16 a) = 2" "length (lay32 b) = 4" "length (lay64 c) = 8"
  by (simp_all only: lay8_def lay16_def lay32_def lay64_def length_le_bytes)

lemma put_lay [wire_simps]:
  "1 \<le> room p \<Longrightarrow> put8 z p = Some (adv p (lay8 z))"
  "2 \<le> room p \<Longrightarrow> put16 a p = Some (adv p (lay16 a))"
  "4 \<le> room p \<Longrightarrow> put32 b p = Some (adv p (lay32 b))"
  "8 \<le> room p \<Longrightarrow> put64 c p = Some (adv p (lay64 c))"
  unfolding lay8_def lay16_def lay32_def lay64_def by (simp_all only: put_n_adv)

lemma get_lay [wire_simps]:
  "get8 (lay8 z @ it) = Some (z, it)" "get16 (lay16 a @ it) = Some (a, it)"
  "get32 (lay32 b @ it) = Some (b, it)" "get64 (lay64 c @ it) = Some (c, it)"
  unfolding lay8_def lay16_def lay32_def lay64_def by (simp_all only: get_put)

section \<open>Arrays\<close>

lemma get_loop_append:
  assumes "\<And>x it. x \<in> set xs \<Longrightarrow> f (lay x @ it) = Some (g x, it)"
  shows "get_loop f (length xs) (concat (map lay xs) @ it) = Some (map g xs, it)"
  using assms by (induction xs arbitrary: it) simp_all

lemma get_loop_length: "get_loop f n it = Some (xs, it') \<Longrightarrow> length xs = n"
  by (induction n arbitrary: it xs it') (auto simp: monad_simps split: prod.splits)

section \<open>Reading a longer message\<close>

text \<open>A reader that succeeds reads the same from a message with more bytes behind.\<close>
definition extends :: "(byte list \<Rightarrow> ('a \<times> byte list) option) \<Rightarrow> bool" where
  "extends r \<longleftrightarrow> (\<forall>it x it' ys. r it = Some (x, it') \<longrightarrow> r (it @ ys) = Some (x, it' @ ys))"

named_theorems extends_intros \<open>readers that ignore what is behind\<close>

lemma extendsD: "extends r \<Longrightarrow> r it = Some (x, it') \<Longrightarrow> r (it @ ys) = Some (x, it' @ ys)"
  by (simp add: extends_def)

lemma extends_bind [extends_intros]:
  "extends r \<Longrightarrow> (\<And>x. extends (f x)) \<Longrightarrow> extends (\<lambda>it. Option.bind (r it) (\<lambda>(x, it). f x it))"
  unfolding extends_def by (auto simp: monad_simps split: prod.splits)

lemma extends_ret [extends_intros]: "extends (\<lambda>it. Some (c, it))"
  by (simp add: extends_def)

lemma extends_None [extends_intros]: "extends (\<lambda>it. None)"
  by (simp add: extends_def)

lemma extends_if [extends_intros]:
  "extends r \<Longrightarrow> extends s \<Longrightarrow> extends (\<lambda>it. if b then r it else s it)"
  by (simp add: extends_def)

lemma extends_assert [extends_intros]:
  "extends r \<Longrightarrow> extends (\<lambda>it. Option.bind (c_assert b) (\<lambda>_. r it))"
  by (cases b) (simp_all add: extends_def)

lemma extends_take_bytes [extends_intros]: "extends (take_bytes n)" "extends (\<lambda>it. take_bytes n it)"
  by (auto simp: extends_def take_bytes_def split: if_splits)

lemma extends_get [extends_intros]:
  "extends get8" "extends get16" "extends get32" "extends get64"
  "extends (\<lambda>it. get8 it)" "extends (\<lambda>it. get16 it)" "extends (\<lambda>it. get32 it)" "extends (\<lambda>it. get64 it)"
  unfolding get8_def[abs_def] get16_def[abs_def] get32_def[abs_def] get64_def[abs_def]
  by (intro extends_intros)+

lemma extends_loop [extends_intros]: "extends f \<Longrightarrow> extends (get_loop f n)"
proof (induction n)
  case (Suc n)
  then have "extends (\<lambda>it. do { (x, it) \<leftarrow> f it; (xs, it) \<leftarrow> get_loop f n it; Some (x # xs, it) })"
    by (intro extends_intros) simp_all
  then show ?case by (simp add: extends_def)
qed (simp add: extends_def)

text \<open>So a decoder that wants the end of the message rejects every message cut short, or reads
  beyond its end.\<close>
lemma truncated_None:
  assumes "extends r" "r (bs @ x # ys) = Some (v, [])" shows "\<nexists>w. r bs = Some (w, [])"
proof
  assume "\<exists>w. r bs = Some (w, [])"
  then obtain w where "r bs = Some (w, [])" ..
  from extendsD[OF assms(1) this, of "x # ys"] assms(2) show False by simp
qed

end
