(* ===== verification/Assoc_Rb_Tree.thy ===== *)
theory Assoc_Rb_Tree
  imports Prelude
begin

text \<open>
  The red-black tree of src/util/alg_ds/ds/assoc_container/assoc_rb_tree.c, pointer by pointer.

  The nodes live in a heap from addresses to nodes; the null pointer is the address 0, which is
  never allocated, so that every access through it, or through a freed node, is \<^term>\<open>None\<close>.
  The state carries the fields of \<open>assoc_rb_tree_t\<close>; \<open>comp\<close> returns 1 for less, -1 for greater
  and 0 for equal keys, and may
  itself abort.  The address that an allocation returns is an argument of the operation
  that allocates.  Keys are copied into the node as values; a null key is \<^term>\<open>None\<close>.

  The two rotations, and the two halves of either fix-up, are the same text with left and right
  exchanged: they are written once, with the side as an argument.
\<close>

section \<open>State\<close>

type_synonym addr = nat

datatype assoc_color = ASSOC_BLACK | ASSOC_RED

record ('k, 'v) assoc_node =
  n_key :: "'k option"
  n_value :: "'v option"
  n_parent :: addr
  n_left :: addr
  n_right :: addr
  n_color :: assoc_color

record ('k, 'v) assoc_rb_tree =
  heap :: "addr \<Rightarrow> ('k, 'v) assoc_node option"
  dummy :: addr
  root :: addr
  comp_fn :: "'k \<Rightarrow> 'k \<Rightarrow> int option"
  tree_size :: nat
  key_sz :: nat
  has_free_func :: bool

datatype side = L | R

fun opp :: "side \<Rightarrow> side" where
  "opp L = R"
| "opp R = L"

fun child :: "side \<Rightarrow> ('k, 'v) assoc_node \<Rightarrow> addr" where
  "child L n = n_left n"
| "child R n = n_right n"

fun set_child :: "side \<Rightarrow> addr \<Rightarrow> ('k, 'v) assoc_node \<Rightarrow> ('k, 'v) assoc_node" where
  "set_child L a n = n\<lparr>n_left := a\<rparr>"
| "set_child R a n = n\<lparr>n_right := a\<rparr>"

section \<open>Access through a pointer\<close>

definition get :: "('k, 'v) assoc_rb_tree \<Rightarrow> addr \<Rightarrow> ('k, 'v) assoc_node option" where
  "get tree a = heap tree a"

definition put ::
  "('k, 'v) assoc_rb_tree \<Rightarrow> addr \<Rightarrow> (('k, 'v) assoc_node \<Rightarrow> ('k, 'v) assoc_node) \<Rightarrow>
    ('k, 'v) assoc_rb_tree option"
where
  "put tree a f = do { n \<leftarrow> get tree a; Some (tree\<lparr>heap := (heap tree)(a \<mapsto> f n)\<rparr>) }"

definition color_of :: "('k, 'v) assoc_rb_tree \<Rightarrow> addr \<Rightarrow> assoc_color option" where
  "color_of tree a = do { n \<leftarrow> get tree a; Some (n_color n) }"

definition parent_of :: "('k, 'v) assoc_rb_tree \<Rightarrow> addr \<Rightarrow> addr option" where
  "parent_of tree a = do { n \<leftarrow> get tree a; Some (n_parent n) }"

definition child_of :: "side \<Rightarrow> ('k, 'v) assoc_rb_tree \<Rightarrow> addr \<Rightarrow> addr option" where
  "child_of s tree a = do { n \<leftarrow> get tree a; Some (child s n) }"

definition set_color :: "('k, 'v) assoc_rb_tree \<Rightarrow> addr \<Rightarrow> assoc_color \<Rightarrow> ('k, 'v) assoc_rb_tree option" where
  "set_color tree a c = put tree a (\<lambda>n. n\<lparr>n_color := c\<rparr>)"

definition set_parent :: "('k, 'v) assoc_rb_tree \<Rightarrow> addr \<Rightarrow> addr \<Rightarrow> ('k, 'v) assoc_rb_tree option" where
  "set_parent tree a p = put tree a (\<lambda>n. n\<lparr>n_parent := p\<rparr>)"

definition set_child_of ::
  "side \<Rightarrow> ('k, 'v) assoc_rb_tree \<Rightarrow> addr \<Rightarrow> addr \<Rightarrow> ('k, 'v) assoc_rb_tree option"
where
  "set_child_of s tree a b = put tree a (set_child s b)"

text \<open>The comparison dereferences the keys of two nodes, or a key and that of a node.\<close>
definition comp_key :: "('k, 'v) assoc_rb_tree \<Rightarrow> 'k option \<Rightarrow> addr \<Rightarrow> int option" where
  "comp_key tree key a = do {
     k \<leftarrow> key;
     n \<leftarrow> get tree a;
     k' \<leftarrow> n_key n;
     comp_fn tree k k'
   }"

section \<open>Creation and release\<close>

definition init_node :: "'k option \<Rightarrow> 'v option \<Rightarrow> ('k, 'v) assoc_node" where
  "init_node key val = \<lparr>n_key = key, n_value = val, n_parent = 0, n_left = 0, n_right = 0,
     n_color = ASSOC_RED\<rparr>"

definition create_node_rb_tree ::
  "('k, 'v) assoc_rb_tree \<Rightarrow> addr \<Rightarrow> 'k option \<Rightarrow> 'v option \<Rightarrow> ('k, 'v) assoc_rb_tree"
where
  "create_node_rb_tree tree x key val =
     tree\<lparr>heap := (heap tree)(x \<mapsto> (init_node key val)
       \<lparr>n_parent := dummy tree, n_left := dummy tree, n_right := dummy tree\<rparr>)\<rparr>"

definition free_node_rb_tree :: "('k, 'v) assoc_rb_tree \<Rightarrow> addr \<Rightarrow> ('k, 'v) assoc_rb_tree option" where
  "free_node_rb_tree tree a = do { n \<leftarrow> get tree a; Some (tree\<lparr>heap := (heap tree)(a := None)\<rparr>) }"

text \<open>The pairs that \<open>f\<close> is called with, in order, and the tree without its nodes.\<close>
partial_function (option) depth_first_search_free ::
  "('k, 'v) assoc_rb_tree \<Rightarrow> addr \<Rightarrow> bool \<Rightarrow>
    (('k option \<times> 'v option) list \<times> ('k, 'v) assoc_rb_tree) option"
where
  "depth_first_search_free tree node f =
     (if node = dummy tree then Some ([], tree)
      else do {
        l \<leftarrow> child_of L tree node;
        (ls, tree) \<leftarrow> depth_first_search_free tree l f;
        r \<leftarrow> child_of R tree node;
        (rs, tree) \<leftarrow> depth_first_search_free tree r f;
        n \<leftarrow> get tree node;
        tree \<leftarrow> free_node_rb_tree tree node;
        Some (ls @ rs @ (if f then [(n_key n, n_value n)] else []), tree)
      })"

definition assoc_rb_tree_init ::
  "addr \<Rightarrow> nat \<Rightarrow> ('k \<Rightarrow> 'k \<Rightarrow> int option) \<Rightarrow> bool \<Rightarrow> ('k, 'v) assoc_rb_tree option"
where
  "assoc_rb_tree_init a ksz cmp free_func = do {
     c_assert (0 < ksz);
     c_assert (a \<noteq> 0);
     let node = (init_node None None)\<lparr>n_color := ASSOC_BLACK\<rparr>;
     Some \<lparr>heap = [a \<mapsto> node], dummy = a, root = a, comp_fn = cmp, tree_size = 0, key_sz = ksz,
       has_free_func = free_func\<rparr>
   }"

definition assoc_rb_tree_free ::
  "('k, 'v) assoc_rb_tree \<Rightarrow> (('k option \<times> 'v option) list \<times> ('k, 'v) assoc_rb_tree) option"
where
  "assoc_rb_tree_free tree = do {
     (released, tree) \<leftarrow> depth_first_search_free tree (root tree) (has_free_func tree);
     n \<leftarrow> get tree (dummy tree);
     Some (released, tree\<lparr>heap := (heap tree)(dummy tree := None)\<rparr>)
   }"

section \<open>Rotation\<close>

text \<open>Make the link that points to \<open>u\<close>, in its parent or as the root, point to \<open>v\<close>.\<close>
definition relink ::
  "('k, 'v) assoc_rb_tree \<Rightarrow> addr \<Rightarrow> addr \<Rightarrow> ('k, 'v) assoc_rb_tree option"
where
  "relink tree u v = do {
     p \<leftarrow> parent_of tree u;
     if p = dummy tree then Some (tree\<lparr>root := v\<rparr>)
     else do {
       pl \<leftarrow> child_of L tree p;
       if u = pl then set_child_of L tree p v else set_child_of R tree p v
     }
   }"

text \<open>Lifts the child \<open>y\<close> on the side opposite to \<open>s\<close> above \<open>x\<close>, which becomes its child on side \<open>s\<close>.\<close>
definition rotate :: "side \<Rightarrow> ('k, 'v) assoc_rb_tree \<Rightarrow> addr \<Rightarrow> ('k, 'v) assoc_rb_tree option" where
  "rotate s tree x = do {
     y \<leftarrow> child_of (opp s) tree x;
     c_assert (y \<noteq> dummy tree);
     b \<leftarrow> child_of s tree y;
     tree \<leftarrow> set_child_of (opp s) tree x b;
     tree \<leftarrow> (if b \<noteq> dummy tree then set_parent tree b x else Some tree);
     p \<leftarrow> parent_of tree x;
     tree \<leftarrow> set_parent tree y p;
     tree \<leftarrow> relink tree x y;
     tree \<leftarrow> set_child_of s tree y x;
     set_parent tree x y
   }"

definition left_rotate :: "('k, 'v) assoc_rb_tree \<Rightarrow> addr \<Rightarrow> ('k, 'v) assoc_rb_tree option" where
  "left_rotate tree x = rotate L tree x"

definition right_rotate :: "('k, 'v) assoc_rb_tree \<Rightarrow> addr \<Rightarrow> ('k, 'v) assoc_rb_tree option" where
  "right_rotate tree x = rotate R tree x"

section \<open>Insertion\<close>

text \<open>One round for a red parent \<open>p\<close> on side \<open>s\<close> of the grandparent \<open>g\<close>.\<close>
definition insert_fixup_step ::
  "side \<Rightarrow> ('k, 'v) assoc_rb_tree \<Rightarrow> addr \<Rightarrow> addr \<Rightarrow> addr \<Rightarrow> (('k, 'v) assoc_rb_tree \<times> addr) option"
where
  "insert_fixup_step s tree z p g = do {
     uncle \<leftarrow> child_of (opp s) tree g;
     uc \<leftarrow> color_of tree uncle;
     if uc = ASSOC_RED then do {
       tree \<leftarrow> set_color tree p ASSOC_BLACK;
       tree \<leftarrow> set_color tree uncle ASSOC_BLACK;
       tree \<leftarrow> set_color tree g ASSOC_RED;
       Some (tree, g)
     } else do {
       inner \<leftarrow> child_of (opp s) tree p;
       (tree, z, p) \<leftarrow>
         (if z = inner then do {
            let z = p;
            tree \<leftarrow> rotate s tree z;
            p \<leftarrow> parent_of tree z;
            Some (tree, z, p)
          } else Some (tree, z, p));
       tree \<leftarrow> set_color tree p ASSOC_BLACK;
       tree \<leftarrow> set_color tree g ASSOC_RED;
       tree \<leftarrow> rotate (opp s) tree g;
       Some (tree, z)
     }
   }"

partial_function (option) insert_fixup_loop ::
  "('k, 'v) assoc_rb_tree \<Rightarrow> addr \<Rightarrow> ('k, 'v) assoc_rb_tree option"
where
  "insert_fixup_loop tree z = do {
     p \<leftarrow> parent_of tree z;
     pc \<leftarrow> color_of tree p;
     if pc \<noteq> ASSOC_RED then Some tree
     else do {
       g \<leftarrow> parent_of tree p;
       gl \<leftarrow> child_of L tree g;
       (tree, z) \<leftarrow> insert_fixup_step (if p = gl then L else R) tree z p g;
       insert_fixup_loop tree z
     }
   }"

definition insert_fixup ::
  "('k, 'v) assoc_rb_tree \<Rightarrow> addr \<Rightarrow> ('k, 'v) assoc_rb_tree option"
where
  "insert_fixup tree z = do {
     tree \<leftarrow> insert_fixup_loop tree z;
     set_color tree (root tree) ASSOC_BLACK
   }"

text \<open>The search for the leaf: \<open>x\<close> is the current node, \<open>y\<close> the one before.\<close>
partial_function (option) insert_descend ::
  "('k, 'v) assoc_rb_tree \<Rightarrow> 'k option \<Rightarrow> addr \<Rightarrow> addr \<Rightarrow> addr option"
where
  "insert_descend tree key x y =
     (if x = dummy tree then Some y
      else do {
        rc \<leftarrow> comp_key tree key x;
        nxt \<leftarrow> child_of (if rc = 1 then L else R) tree x;
        insert_descend tree key nxt x
      })"

definition assoc_rb_tree_insert ::
  "addr \<Rightarrow> ('k, 'v) assoc_rb_tree \<Rightarrow> 'k \<Rightarrow> nat \<Rightarrow> 'v \<Rightarrow> ('k, 'v) assoc_rb_tree option"
where
  "assoc_rb_tree_insert z tree key ksz val = do {
     c_assert (key_sz tree = ksz);
     c_assert (z \<noteq> 0);
     c_assert (z \<noteq> dummy tree);
     let tree = create_node_rb_tree tree z (Some key) (Some val);
     y \<leftarrow> insert_descend tree (Some key) (root tree) (dummy tree);
     tree \<leftarrow> set_parent tree z y;
     tree \<leftarrow>
       (if y = dummy tree then Some (tree\<lparr>root := z\<rparr>)
        else do {
          rc \<leftarrow> comp_key tree (Some key) y;
          set_child_of (if rc = 1 then L else R) tree y z
        });
     tree \<leftarrow> insert_fixup tree z;
     Some (tree\<lparr>tree_size := tree_size tree + 1\<rparr>)
   }"

section \<open>Extraction\<close>

text \<open>The three parts of one round for a node \<open>x\<close> on side \<open>s\<close> of its parent: a red sibling is
  rotated away (case 1), a nephew on the near side is rotated to the far side (case 3), and the
  far nephew takes over the missing black (case 4); case 2 moves up instead.\<close>

definition delete_red_sibling ::
  "side \<Rightarrow> ('k, 'v) assoc_rb_tree \<Rightarrow> addr \<Rightarrow> (('k, 'v) assoc_rb_tree \<times> addr) option"
where
  "delete_red_sibling s tree x = do {
     p \<leftarrow> parent_of tree x;
     w \<leftarrow> child_of (opp s) tree p;
     wc \<leftarrow> color_of tree w;
     if wc = ASSOC_RED then do {
       tree \<leftarrow> set_color tree w ASSOC_BLACK;
       p \<leftarrow> parent_of tree x;
       tree \<leftarrow> set_color tree p ASSOC_RED;
       tree \<leftarrow> rotate s tree p;
       p \<leftarrow> parent_of tree x;
       w \<leftarrow> child_of (opp s) tree p;
       Some (tree, w)
     } else Some (tree, w)
   }"

definition delete_near_nephew ::
  "side \<Rightarrow> ('k, 'v) assoc_rb_tree \<Rightarrow> addr \<Rightarrow> addr \<Rightarrow> (('k, 'v) assoc_rb_tree \<times> addr) option"
where
  "delete_near_nephew s tree x w = do {
     far \<leftarrow> child_of (opp s) tree w;
     fc \<leftarrow> color_of tree far;
     if fc = ASSOC_BLACK then do {
       wc \<leftarrow> color_of tree w;
       c_assert (wc = ASSOC_BLACK);
       near \<leftarrow> child_of s tree w;
       nc \<leftarrow> color_of tree near;
       c_assert (nc = ASSOC_RED);
       tree \<leftarrow> set_color tree near ASSOC_BLACK;
       tree \<leftarrow> set_color tree w ASSOC_RED;
       tree \<leftarrow> rotate (opp s) tree w;
       p \<leftarrow> parent_of tree x;
       w \<leftarrow> child_of (opp s) tree p;
       Some (tree, w)
     } else Some (tree, w)
   }"

definition delete_far_nephew ::
  "side \<Rightarrow> ('k, 'v) assoc_rb_tree \<Rightarrow> addr \<Rightarrow> addr \<Rightarrow> (('k, 'v) assoc_rb_tree \<times> addr) option"
where
  "delete_far_nephew s tree x w = do {
     wc \<leftarrow> color_of tree w;
     c_assert (wc = ASSOC_BLACK);
     far \<leftarrow> child_of (opp s) tree w;
     fc \<leftarrow> color_of tree far;
     c_assert (fc = ASSOC_RED);
     p \<leftarrow> parent_of tree x;
     pc \<leftarrow> color_of tree p;
     tree \<leftarrow> set_color tree w pc;
     tree \<leftarrow> set_color tree p ASSOC_BLACK;
     tree \<leftarrow> set_color tree far ASSOC_BLACK;
     tree \<leftarrow> rotate s tree p;
     Some (tree, root tree)
   }"

definition delete_fixup_step ::
  "side \<Rightarrow> ('k, 'v) assoc_rb_tree \<Rightarrow> addr \<Rightarrow> (('k, 'v) assoc_rb_tree \<times> addr) option"
where
  "delete_fixup_step s tree x = do {
     (tree, w) \<leftarrow> delete_red_sibling s tree x;
     wc \<leftarrow> color_of tree w;
     c_assert (wc = ASSOC_BLACK);
     near \<leftarrow> child_of s tree w;
     nc \<leftarrow> color_of tree near;
     far \<leftarrow> child_of (opp s) tree w;
     fc \<leftarrow> color_of tree far;
     if nc = ASSOC_BLACK \<and> fc = ASSOC_BLACK then do {
       tree \<leftarrow> set_color tree w ASSOC_RED;
       p \<leftarrow> parent_of tree x;
       Some (tree, p)
     } else do {
       (tree, w) \<leftarrow> delete_near_nephew s tree x w;
       delete_far_nephew s tree x w
     }
   }"

partial_function (option) delete_fixup_loop ::
  "('k, 'v) assoc_rb_tree \<Rightarrow> addr \<Rightarrow> (('k, 'v) assoc_rb_tree \<times> addr) option"
where
  "delete_fixup_loop tree x =
     (if x = root tree then Some (tree, x)
      else do {
        xc \<leftarrow> color_of tree x;
        if xc \<noteq> ASSOC_BLACK then Some (tree, x)
        else do {
          p \<leftarrow> parent_of tree x;
          pl \<leftarrow> child_of L tree p;
          (tree, x) \<leftarrow> delete_fixup_step (if x = pl then L else R) tree x;
          delete_fixup_loop tree x
        }
      })"

definition delete_fixup ::
  "('k, 'v) assoc_rb_tree \<Rightarrow> addr \<Rightarrow> ('k, 'v) assoc_rb_tree option"
where
  "delete_fixup tree x = do {
     (tree, x) \<leftarrow> delete_fixup_loop tree x;
     set_color tree x ASSOC_BLACK
   }"

definition transplant ::
  "('k, 'v) assoc_rb_tree \<Rightarrow> addr \<Rightarrow> addr \<Rightarrow> ('k, 'v) assoc_rb_tree option"
where
  "transplant tree u v = do {
     c_assert (u \<noteq> dummy tree);
     tree \<leftarrow> relink tree u v;
     p \<leftarrow> parent_of tree u;
     set_parent tree v p
   }"

partial_function (option) minimum_loop :: "('k, 'v) assoc_rb_tree \<Rightarrow> addr \<Rightarrow> addr option" where
  "minimum_loop tree x = do {
     l \<leftarrow> child_of L tree x;
     if l \<noteq> dummy tree then minimum_loop tree l else Some x
   }"

definition minimum :: "('k, 'v) assoc_rb_tree \<Rightarrow> addr \<Rightarrow> addr option" where
  "minimum tree x = (if x = dummy tree then Some (dummy tree) else minimum_loop tree x)"

partial_function (option) find_rb_tree ::
  "('k, 'v) assoc_rb_tree \<Rightarrow> addr \<Rightarrow> 'k option \<Rightarrow> addr option"
where
  "find_rb_tree tree node key =
     (if node = dummy tree then Some node
      else do {
        rc \<leftarrow> comp_key tree key node;
        if rc = 1 then do { l \<leftarrow> child_of L tree node; find_rb_tree tree l key }
        else if rc = -1 then do { r \<leftarrow> child_of R tree node; find_rb_tree tree r key }
        else do { c_assert (rc = 0); Some node }
      })"

definition assoc_rb_tree_extract_node ::
  "('k, 'v) assoc_rb_tree \<Rightarrow> addr \<Rightarrow> ('k, 'v) assoc_rb_tree option"
where
  "assoc_rb_tree_extract_node tree z = do {
     c_assert (z \<noteq> dummy tree);
     original \<leftarrow> color_of tree z;
     zl \<leftarrow> child_of L tree z;
     zr \<leftarrow> child_of R tree z;
     (tree, x, original) \<leftarrow>
       (if zl = dummy tree then do {
          tree \<leftarrow> transplant tree z zr;
          Some (tree, zr, original)
        } else if zr = dummy tree then do {
          tree \<leftarrow> transplant tree z zl;
          Some (tree, zl, original)
        } else do {
          y \<leftarrow> minimum tree zr;
          original \<leftarrow> color_of tree y;
          x \<leftarrow> child_of R tree y;
          yp \<leftarrow> parent_of tree y;
          tree \<leftarrow>
            (if yp = z then set_parent tree x y
             else do {
               tree \<leftarrow> transplant tree y x;
               r \<leftarrow> child_of R tree z;
               tree \<leftarrow> set_child_of R tree y r;
               set_parent tree r y
             });
          tree \<leftarrow> transplant tree z y;
          l \<leftarrow> child_of L tree z;
          tree \<leftarrow> set_child_of L tree y l;
          tree \<leftarrow> set_parent tree l y;
          c \<leftarrow> color_of tree z;
          tree \<leftarrow> set_color tree y c;
          Some (tree, x, original)
        });
     if original = ASSOC_BLACK then delete_fixup tree x else Some tree
   }"

definition assoc_rb_tree_extract ::
  "('k, 'v) assoc_rb_tree \<Rightarrow> 'k \<Rightarrow> ('v option \<times> ('k, 'v) assoc_rb_tree) option"
where
  "assoc_rb_tree_extract tree key = do {
     z \<leftarrow> find_rb_tree tree (root tree) (Some key);
     c_assert (z \<noteq> dummy tree);
     tree \<leftarrow> assoc_rb_tree_extract_node tree z;
     n \<leftarrow> get tree z;
     tree \<leftarrow> free_node_rb_tree tree z;
     c_assert (tree_size tree \<noteq> 0);
     Some (n_value n, tree\<lparr>tree_size := tree_size tree - 1\<rparr>)
   }"

text \<open>The pair that \<open>free_func\<close> is called with, and the tree without the node.\<close>
definition assoc_rb_tree_free_it ::
  "('k, 'v) assoc_rb_tree \<Rightarrow> addr \<Rightarrow> (('k option \<times> 'v option) \<times> ('k, 'v) assoc_rb_tree) option"
where
  "assoc_rb_tree_free_it tree it = do {
     c_assert (it \<noteq> dummy tree);
     tree \<leftarrow> assoc_rb_tree_extract_node tree it;
     c_assert (has_free_func tree);
     n \<leftarrow> get tree it;
     tree \<leftarrow> free_node_rb_tree tree it;
     c_assert (tree_size tree \<noteq> 0);
     Some ((n_key n, n_value n), tree\<lparr>tree_size := tree_size tree - 1\<rparr>)
   }"

section \<open>Iteration and access\<close>

definition assoc_rb_tree_front :: "('k, 'v) assoc_rb_tree \<Rightarrow> addr option" where
  "assoc_rb_tree_front tree = minimum tree (root tree)"

partial_function (option) next_up :: "('k, 'v) assoc_rb_tree \<Rightarrow> addr \<Rightarrow> addr \<Rightarrow> addr option" where
  "next_up tree node p =
     (if p = dummy tree then Some p
      else do {
        pl \<leftarrow> child_of L tree p;
        if pl = node then Some p
        else do { q \<leftarrow> parent_of tree p; next_up tree p q }
      })"

definition assoc_rb_tree_next :: "('k, 'v) assoc_rb_tree \<Rightarrow> addr \<Rightarrow> addr option" where
  "assoc_rb_tree_next tree it = do {
     c_assert (it \<noteq> 0);
     c_assert (it \<noteq> dummy tree);
     r \<leftarrow> child_of R tree it;
     if r \<noteq> dummy tree then minimum tree r
     else do { p \<leftarrow> parent_of tree it; next_up tree it p }
   }"

definition assoc_rb_tree_end :: "('k, 'v) assoc_rb_tree \<Rightarrow> addr" where
  "assoc_rb_tree_end tree = dummy tree"

definition assoc_rb_tree_key :: "('k, 'v) assoc_rb_tree \<Rightarrow> addr \<Rightarrow> 'k option option" where
  "assoc_rb_tree_key tree it = do {
     c_assert (it \<noteq> dummy tree);
     n \<leftarrow> get tree it;
     Some (n_key n)
   }"

definition assoc_rb_tree_value :: "('k, 'v) assoc_rb_tree \<Rightarrow> addr \<Rightarrow> 'v option option" where
  "assoc_rb_tree_value tree it = do {
     c_assert (it \<noteq> dummy tree);
     n \<leftarrow> get tree it;
     Some (n_value n)
   }"

definition assoc_rb_tree_size :: "('k, 'v) assoc_rb_tree \<Rightarrow> nat" where
  "assoc_rb_tree_size tree = tree_size tree"

end
