(* ===== verification/Rb_Zipper.thy ===== *)
theory Rb_Zipper
  imports Assoc_Rb_Tree
begin

text \<open>
  Trees with a hole, and what it means for the heap to hold one.

  A node of the abstract tree carries its address.  The fix-up loops walk up from a node, so a
  state is described by the subtree in focus and the path of frames from it to the root; a frame
  says on which side the hole is.  \<open>zrep\<close> ties both to the heap.  The lemmas of this theory are
  the pointer-level ones: every elementary write and the rotation, on either side.
\<close>

section \<open>Trees and paths\<close>

datatype ('k, 'v) tr =
  Lf
| Nd addr assoc_color 'k 'v "('k, 'v) tr" "('k, 'v) tr"

datatype ('k, 'v) frame = Fr side addr assoc_color 'k 'v "('k, 'v) tr"

type_synonym ('k, 'v) path = "('k, 'v) frame list"

text \<open>A node by its subtrees on side \<open>s\<close> and on the other side.\<close>
definition nd ::
  "side \<Rightarrow> addr \<Rightarrow> assoc_color \<Rightarrow> 'k \<Rightarrow> 'v \<Rightarrow> ('k, 'v) tr \<Rightarrow> ('k, 'v) tr \<Rightarrow> ('k, 'v) tr"
where
  "nd s a c k v x y = (if s = L then Nd a c k v x y else Nd a c k v y x)"

primrec fill_frame :: "('k, 'v) frame \<Rightarrow> ('k, 'v) tr \<Rightarrow> ('k, 'v) tr" where
  "fill_frame (Fr s a c k v y) x = nd s a c k v x y"

primrec plug :: "('k, 'v) path \<Rightarrow> ('k, 'v) tr \<Rightarrow> ('k, 'v) tr" where
  "plug [] t = t"
| "plug (f # fs) t = plug fs (fill_frame f t)"

primrec ptr :: "addr \<Rightarrow> ('k, 'v) tr \<Rightarrow> addr" where
  "ptr d Lf = d"
| "ptr d (Nd a c k v l r) = a"

primrec addrs :: "('k, 'v) tr \<Rightarrow> addr list" where
  "addrs Lf = []"
| "addrs (Nd a c k v l r) = a # addrs l @ addrs r"

primrec faddrs :: "('k, 'v) frame \<Rightarrow> addr list" where
  "faddrs (Fr s a c k v y) = a # addrs y"

primrec paddrs :: "('k, 'v) path \<Rightarrow> addr list" where
  "paddrs [] = []"
| "paddrs (f # fs) = faddrs f @ paddrs fs"

primrec frame_addr :: "('k, 'v) frame \<Rightarrow> addr" where
  "frame_addr (Fr s a c k v y) = a"

primrec path_parent :: "addr \<Rightarrow> ('k, 'v) path \<Rightarrow> addr" where
  "path_parent d [] = d"
| "path_parent d (f # fs) = frame_addr f"

primrec path_root :: "('k, 'v) path \<Rightarrow> addr \<Rightarrow> addr" where
  "path_root [] q = q"
| "path_root (f # fs) q = path_root fs (frame_addr f)"

primrec color :: "('k, 'v) tr \<Rightarrow> assoc_color" where
  "color Lf = ASSOC_BLACK"
| "color (Nd a c k v l r) = c"

primrec paint :: "assoc_color \<Rightarrow> ('k, 'v) tr \<Rightarrow> ('k, 'v) tr" where
  "paint c Lf = Lf"
| "paint c (Nd a c' k v l r) = Nd a c k v l r"

lemma opp_opp [simp]: "opp (opp s) = s"
  by (cases s) simp_all

lemma opp_neq [simp]: "opp s \<noteq> s" "s \<noteq> opp s"
  by (cases s; simp)+

lemma nd_opp: "nd (opp s) a c k v x y = nd s a c k v y x"
  by (cases s) (simp_all add: nd_def)

lemma nd_simps [simp]:
  "ptr d (nd s a c k v x y) = a" "color (nd s a c k v x y) = c"
  "paint c' (nd s a c k v x y) = nd s a c' k v x y" "nd s a c k v x y \<noteq> Lf"
  "set (addrs (nd s a c k v x y)) = insert a (set (addrs x) \<union> set (addrs y))"
  by (auto simp: nd_def)

lemma distinct_nd [simp]:
  "distinct (addrs (nd s a c k v x y)) \<longleftrightarrow>
     a \<notin> set (addrs x) \<and> a \<notin> set (addrs y) \<and> distinct (addrs x) \<and> distinct (addrs y) \<and>
     set (addrs x) \<inter> set (addrs y) = {}"
  by (auto simp: nd_def)

lemma tr_cases_nd: "t = Lf \<or> (\<exists>a c k v x y. t = nd s a c k v x y)"
  by (cases t; cases s) (auto simp: nd_def)

lemma ptr_in_addrs: "t \<noteq> Lf \<Longrightarrow> ptr d t \<in> set (addrs t)"
  by (cases t) simp_all

lemma ptr_eq_dummy [simp]: "d \<notin> set (addrs t) \<Longrightarrow> ptr d t = d \<longleftrightarrow> t = Lf"
  by (cases t) auto

section \<open>The heap holds a tree\<close>

text \<open>A cell by its links on side \<open>s\<close> and on the other side.\<close>
definition cell ::
  "side \<Rightarrow> assoc_color \<Rightarrow> 'k \<Rightarrow> 'v \<Rightarrow> addr \<Rightarrow> addr \<Rightarrow> addr \<Rightarrow> ('k, 'v) assoc_node"
where
  "cell s c k v p x y = \<lparr>n_key = Some k, n_value = Some v, n_parent = p,
     n_left = (if s = L then x else y), n_right = (if s = L then y else x), n_color = c\<rparr>"

lemma cell_opp: "cell (opp s) c k v p x y = cell s c k v p y x"
  by (cases s) (simp_all add: cell_def)

lemma cell_sel [simp]:
  "child s (cell s c k v p x y) = x" "child (opp s) (cell s c k v p x y) = y"
  "n_parent (cell s c k v p x y) = p" "n_color (cell s c k v p x y) = c"
  "n_key (cell s c k v p x y) = Some k" "n_value (cell s c k v p x y) = Some v"
  by (cases s; simp add: cell_def)+

lemma cell_upd [simp]:
  "set_child s q (cell s c k v p x y) = cell s c k v p q y"
  "set_child (opp s) q (cell s c k v p x y) = cell s c k v p x q"
  "(cell s c k v p x y)\<lparr>n_parent := q\<rparr> = cell s c k v q x y"
  "(cell s c k v p x y)\<lparr>n_color := c'\<rparr> = cell s c' k v p x y"
  by (cases s; simp add: cell_def)+

type_synonym ('k, 'v) heap = "addr \<Rightarrow> ('k, 'v) assoc_node option"

primrec repr :: "('k, 'v) heap \<Rightarrow> addr \<Rightarrow> addr \<Rightarrow> ('k, 'v) tr \<Rightarrow> bool" where
  "repr h d p Lf \<longleftrightarrow> True"
| "repr h d p (Nd a c k v l r) \<longleftrightarrow>
     h a = Some (cell L c k v p (ptr d l) (ptr d r)) \<and> repr h d a l \<and> repr h d a r"

primrec prepr :: "('k, 'v) heap \<Rightarrow> addr \<Rightarrow> ('k, 'v) path \<Rightarrow> addr \<Rightarrow> bool" where
  "prepr h d [] q \<longleftrightarrow> True"
| "prepr h d (f # fs) q \<longleftrightarrow>
     (case f of Fr s a c k v y \<Rightarrow> h a = Some (cell s c k v (path_parent d fs) q (ptr d y)) \<and>
        repr h d a y \<and> prepr h d fs a)"

lemma repr_nd [simp]:
  "repr h d p (nd s a c k v x y) \<longleftrightarrow>
     h a = Some (cell s c k v p (ptr d x) (ptr d y)) \<and> repr h d a x \<and> repr h d a y"
  by (cases s) (auto simp: nd_def cell_opp[of L, simplified])

lemma repr_upd [simp]: "a \<notin> set (addrs t) \<Longrightarrow> repr (h(a := n)) d p t = repr h d p t"
  by (induction t arbitrary: p) auto

lemma prepr_upd [simp]: "a \<notin> set (paddrs fs) \<Longrightarrow> prepr (h(a := n)) d fs q = prepr h d fs q"
  by (induction fs arbitrary: q) (auto split: frame.splits)

lemma repr_cong: "(\<And>a. a \<in> set (addrs t) \<Longrightarrow> h' a = h a) \<Longrightarrow> repr h' d p t = repr h d p t"
  by (induction t arbitrary: p) auto

lemma prepr_cong: "(\<And>a. a \<in> set (paddrs fs) \<Longrightarrow> h' a = h a) \<Longrightarrow> prepr h' d fs q = prepr h d fs q"
proof (induction fs arbitrary: q)
  case (Cons f fs)
  then show ?case using repr_cong[of _ h' h] by (cases f) auto
qed simp

text \<open>The whole state: the subtree \<open>t\<close> in focus and the path \<open>fs\<close> above it.\<close>
definition zrep :: "('k, 'v) assoc_rb_tree \<Rightarrow> ('k, 'v) path \<Rightarrow> ('k, 'v) tr \<Rightarrow> bool" where
  "zrep tree fs t \<longleftrightarrow>
     prepr (heap tree) (dummy tree) fs (ptr (dummy tree) t) \<and>
     repr (heap tree) (dummy tree) (path_parent (dummy tree) fs) t \<and>
     distinct (addrs t @ paddrs fs) \<and>
     dummy tree \<notin> set (addrs t @ paddrs fs) \<and> 0 \<notin> set (addrs t @ paddrs fs) \<and>
     (\<exists>n. heap tree (dummy tree) = Some n \<and> n_color n = ASSOC_BLACK) \<and>
     root tree = path_root fs (ptr (dummy tree) t)"

text \<open>What an operation on the cells \<open>A\<close> leaves alone.\<close>
definition keeps :: "addr set \<Rightarrow> ('k, 'v) assoc_rb_tree \<Rightarrow> ('k, 'v) assoc_rb_tree \<Rightarrow> bool" where
  "keeps A tree tree' \<longleftrightarrow>
     dummy tree' = dummy tree \<and> comp_fn tree' = comp_fn tree \<and> tree_size tree' = tree_size tree \<and>
     key_sz tree' = key_sz tree \<and> has_free_func tree' = has_free_func tree \<and>
     (\<forall>a. a \<notin> A \<longrightarrow> heap tree' a = heap tree a)"

lemma keeps_refl [simp]: "keeps A tree tree"
  by (simp add: keeps_def)

lemma keeps_trans: "keeps A t t' \<Longrightarrow> keeps A t' t'' \<Longrightarrow> keeps A t t''"
  by (simp add: keeps_def)

lemma keeps_mono: "keeps A t t' \<Longrightarrow> A \<subseteq> B \<Longrightarrow> keeps B t t'"
  by (auto simp: keeps_def)

text \<open>Moving the focus is a change of view.\<close>
lemma zrep_down: "zrep tree fs (nd s a c k v x y) \<longleftrightarrow> zrep tree (Fr s a c k v y # fs) x"
  by (auto simp: zrep_def)

lemma zrep_fill: "zrep tree fs (fill_frame f t) \<longleftrightarrow> zrep tree (f # fs) t"
  by (cases f) (simp add: zrep_down)

lemma zrep_plug: "zrep tree gs (plug fs t) \<longleftrightarrow> zrep tree (fs @ gs) t"
  by (induction fs arbitrary: t) (simp_all add: zrep_fill)

lemmas access_defs = get_def put_def color_of_def parent_of_def child_of_def set_color_def
  set_parent_def set_child_of_def

section \<open>Elementary writes\<close>

lemma keeps_heap: "keeps A t t' \<Longrightarrow> a \<notin> A \<Longrightarrow> heap t' a = heap t a"
  by (simp add: keeps_def)

lemma keeps_dummy: "keeps A t t' \<Longrightarrow> dummy t' = dummy t"
  by (simp add: keeps_def)

lemma keeps_repr:
  "keeps A t t' \<Longrightarrow> set (addrs x) \<inter> A = {} \<Longrightarrow> repr (heap t') d p x = repr (heap t) d p x"
  by (rule repr_cong) (auto simp: keeps_def)

lemma keeps_prepr:
  "keeps A t t' \<Longrightarrow> set (paddrs fs) \<inter> A = {} \<Longrightarrow> prepr (heap t') d fs q = prepr (heap t) d fs q"
  by (rule prepr_cong) (auto simp: keeps_def)

lemma put_Some:
  "heap t a = Some n \<Longrightarrow> put t a f = Some (t\<lparr>heap := (heap t)(a \<mapsto> f n)\<rparr>)"
  by (simp add: put_def get_def)

lemma set_parent_tree:
  assumes "repr (heap t) d p b" "distinct (addrs b)" "b \<noteq> Lf"
  obtains t' where "set_parent t (ptr d b) q = Some t'" "repr (heap t') d q b"
    "keeps (set (addrs b)) t t'" "root t' = root t"
proof (cases b)
  case (Nd a c k v l r)
  let ?t = "t\<lparr>heap := (heap t)(a \<mapsto> cell L c k v q (ptr d l) (ptr d r))\<rparr>"
  have "set_parent t (ptr d b) q = Some ?t"
    using assms Nd by (simp add: set_parent_def put_Some)
  moreover have "repr (heap ?t) d q b" using assms Nd by simp
  moreover have "keeps (set (addrs b)) t ?t" using Nd by (auto simp: keeps_def)
  ultimately show thesis using that by simp
qed (use assms in simp)

lemma set_color_tree:
  assumes "repr (heap t) d p b" "distinct (addrs b)" "b \<noteq> Lf"
  obtains t' where "set_color t (ptr d b) c = Some t'" "repr (heap t') d p (paint c b)"
    "keeps (set (addrs b)) t t'" "root t' = root t"
proof (cases b)
  case (Nd a c' k v l r)
  let ?t = "t\<lparr>heap := (heap t)(a \<mapsto> cell L c k v p (ptr d l) (ptr d r))\<rparr>"
  have "set_color t (ptr d b) c = Some ?t"
    using assms Nd by (simp add: set_color_def put_Some)
  moreover have "repr (heap ?t) d p (paint c b)" using assms Nd by simp
  moreover have "keeps (set (addrs b)) t ?t" using Nd by (auto simp: keeps_def)
  ultimately show thesis using that by simp
qed (use assms in simp)

lemma relink_path:
  assumes "prepr (heap t) (dummy t) fs u" "parent_of t u = Some (path_parent (dummy t) fs)"
    and "distinct (paddrs fs)" "dummy t \<notin> set (paddrs fs)" "u \<notin> set (paddrs fs)" "u \<noteq> dummy t"
    and "root t = path_root fs u"
  obtains t' where "relink t u v = Some t'" "prepr (heap t') (dummy t) fs v" "root t' = path_root fs v"
    "keeps (set (paddrs fs)) t t'"
proof (cases fs)
  case Nil
  then have "relink t u v = Some (t\<lparr>root := v\<rparr>)" using assms by (simp add: relink_def)
  then show thesis using that Nil by (simp add: keeps_def)
next
  case (Cons f gs)
  obtain s a c k w y where f: "f = Fr s a c k w y" by (cases f)
  let ?t = "t\<lparr>heap := (heap t)(a \<mapsto> cell s c k w (path_parent (dummy t) gs) v (ptr (dummy t) y))\<rparr>"
  have h: "heap t a = Some (cell s c k w (path_parent (dummy t) gs) u (ptr (dummy t) y))"
    using assms(1) Cons f by simp
  have y: "ptr (dummy t) y \<noteq> u" using assms Cons f ptr_in_addrs[of y "dummy t"] by (cases y) auto
  have a: "a \<noteq> dummy t" using assms Cons f by auto
  have "relink t u v = Some ?t"
    using assms(2) Cons f h a y
    by (cases s) (auto simp: relink_def child_of_def get_def set_child_of_def put_Some cell_def)
  moreover have "prepr (heap ?t) (dummy t) fs v" using assms Cons f by simp
  moreover have "keeps (set (paddrs fs)) t ?t" using Cons f by (auto simp: keeps_def)
  moreover have "root ?t = path_root fs v" using assms(7) Cons f by simp
  ultimately show thesis using that by blast
qed

section \<open>Rotation\<close>

text \<open>Every node that matters for the state has its address in the zipper.\<close>
definition zaddrs :: "('k, 'v) path \<Rightarrow> ('k, 'v) tr \<Rightarrow> addr set" where
  "zaddrs fs t = set (addrs t) \<union> set (paddrs fs)"

lemma rotate_zrep:
  assumes z: "zrep t fs (nd (opp s) x cx kx vx (nd s y cy ky vy b c) a)"
  obtains t' where "rotate s t x = Some t'" "zrep t' fs (nd s y cy ky vy (nd s x cx kx vx a b) c)"
    "keeps (zaddrs fs (nd s y cy ky vy (nd s x cx kx vx a b) c)) t t'" "heap t' (dummy t) = heap t (dummy t)"
proof -
  define d where "d = dummy t"
  define p where "p = path_parent d fs"
  let ?P = "set (paddrs fs)"
  have hx: "heap t x = Some (cell (opp s) cx kx vx p y (ptr d a))"
    and hy: "heap t y = Some (cell s cy ky vy x (ptr d b) (ptr d c))"
    and rb: "repr (heap t) d y b" and rc: "repr (heap t) d y c" and ra: "repr (heap t) d x a"
    and pr: "prepr (heap t) d fs x" and rt: "root t = path_root fs x"
    using z by (simp_all add: zrep_def d_def p_def)
  have dist: "x \<noteq> y" "x \<noteq> d" "y \<noteq> d" "distinct (addrs b)" "x \<notin> ?P" "y \<notin> ?P" "distinct (paddrs fs)"
    "d \<notin> ?P" "d \<notin> set (addrs b)" "d \<notin> set (addrs a)" "d \<notin> set (addrs c)"
    "x \<notin> set (addrs b)" "y \<notin> set (addrs b)" "x \<notin> set (addrs c)" "y \<notin> set (addrs c)"
    "x \<notin> set (addrs a)" "y \<notin> set (addrs a)" "set (addrs b) \<inter> ?P = {}" "set (addrs b) \<inter> set (addrs a) = {}"
    "set (addrs b) \<inter> set (addrs c) = {}" "set (addrs a) \<inter> ?P = {}" "set (addrs c) \<inter> ?P = {}"
    using z by (auto simp: zrep_def d_def)
  define t1 where "t1 = t\<lparr>heap := (heap t)(x \<mapsto> cell (opp s) cx kx vx p (ptr d b) (ptr d a))\<rparr>"
  have t1: "dummy t1 = d" "root t1 = root t" "repr (heap t1) d y b"
    using rb dist by (simp_all add: t1_def d_def)
  obtain t2 where t2: "(if ptr d b \<noteq> d then set_parent t1 (ptr d b) x else Some t1) = Some t2"
    "repr (heap t2) d x b" "keeps (set (addrs b)) t1 t2" "root t2 = root t"
  proof (cases "b = Lf")
    case True
    then show thesis using that t1 by simp
  next
    case False
    from set_parent_tree[OF t1(3) dist(4) False, of x] that show thesis
      using False dist(9) t1(2) by (metis ptr_eq_dummy)
  qed
  have h2: "heap t2 a' = (if a' = x then Some (cell (opp s) cx kx vx p (ptr d b) (ptr d a)) else heap t a')"
    if "a' \<notin> set (addrs b)" for a'
    using keeps_heap[OF t2(3) that] by (simp add: t1_def)
  define t3 where "t3 = t2\<lparr>heap := (heap t2)(y \<mapsto> cell s cy ky vy p (ptr d b) (ptr d c))\<rparr>"
  have d3: "dummy t3 = d" using keeps_dummy[OF t2(3)] t1(1) by (simp add: t3_def)
  have h3: "heap t3 a' = (if a' = y then Some (cell s cy ky vy p (ptr d b) (ptr d c)) else
      if a' = x then Some (cell (opp s) cx kx vx p (ptr d b) (ptr d a)) else heap t a')"
    if "a' \<notin> set (addrs b)" for a'
    using h2[OF that] by (simp add: t3_def)
  have other: "heap t3 a' = heap t a'" if "a' \<notin> set (addrs b)" "a' \<noteq> x" "a' \<noteq> y" for a'
    using h3[OF that(1)] that by simp
  have "prepr (heap t3) d fs x"
    using pr by (subst prepr_cong[where h = "heap t"]) (use dist in \<open>auto intro!: other\<close>)
  moreover have "parent_of t3 x = Some p" using h3[of x] dist by (simp add: parent_of_def get_def)
  ultimately obtain t4 where t4: "relink t3 x y = Some t4" "prepr (heap t4) d fs y"
    "root t4 = path_root fs y" "keeps ?P t3 t4"
    using relink_path[of t3 fs x y] dist rt t2(4) d3 by (auto simp: p_def t3_def)
  have h4: "heap t4 a' = heap t3 a'" if "a' \<notin> ?P" for a' using keeps_heap[OF t4(4) that] .
  define t5 where "t5 = t4\<lparr>heap := (heap t4)(y \<mapsto> cell s cy ky vy p x (ptr d c),
      x \<mapsto> cell (opp s) cx kx vx y (ptr d b) (ptr d a))\<rparr>"
  define t4' where "t4' = t4\<lparr>heap := (heap t4)(y \<mapsto> cell s cy ky vy p x (ptr d c))\<rparr>"
  have steps: "child_of (opp s) t x = Some y" "child_of s t y = Some (ptr d b)"
    "set_child_of (opp s) t x (ptr d b) = Some t1" "parent_of t2 x = Some p"
    "set_parent t2 y p = Some t3" "set_child_of s t4 y x = Some t4'" "set_parent t4' x y = Some t5"
    using hx hy dist h2[of x] h2[of y] h4[of x] h4[of y] h3[of x] h3[of y]
    by (simp_all add: access_defs t1_def t3_def t4'_def t5_def)
  moreover have "c_assert (y \<noteq> dummy t) = Some ()" using dist by (simp add: d_def)
  moreover have "(if ptr d b \<noteq> dummy t1 then set_parent t1 (ptr d b) x else Some t1) = Some t2"
    unfolding t1(1) by (rule t2(1))
  ultimately have "rotate s t x = Some t5"
    using t4(1) by (simp only: rotate_def bind.simps)
  moreover have h5: "heap t5 a' = heap t a'"
    if "a' \<notin> set (addrs b)" "a' \<noteq> x" "a' \<noteq> y" "a' \<notin> ?P" for a'
    using other[of a'] h4[of a'] that by (simp add: t5_def)
  moreover have h52: "heap t5 a' = heap t2 a'" if "a' \<noteq> x" "a' \<noteq> y" "a' \<notin> ?P" for a'
    using h4[of a'] that by (simp add: t3_def t5_def)
  moreover have "zrep t5 fs (nd s y cy ky vy (nd s x cx kx vx a b) c)"
  proof -
    have "repr (heap t5) d x a" "repr (heap t5) d y c"
      using ra rc by (subst repr_cong[where h = "heap t"]; use dist in \<open>auto intro!: h5\<close>)+
    moreover have "repr (heap t5) d x b"
      using t2(2) by (subst repr_cong[where h = "heap t2"]) (use dist in \<open>auto intro!: h52\<close>)
    moreover have "prepr (heap t5) d fs y"
      using t4(2) by (subst prepr_cong[where h = "heap t4"]) (use dist in \<open>auto simp: t5_def\<close>)
    moreover have "heap t5 d = heap t d" using dist by (intro h5) auto
    moreover have "dummy t5 = d" "root t5 = path_root fs y"
      using keeps_dummy[OF t4(4)] d3 t4(3) by (simp_all add: t5_def)
    ultimately show ?thesis
      using z dist by (auto simp: zrep_def p_def t5_def cell_opp d_def)
  qed
  moreover have "heap t5 (dummy t) = heap t (dummy t)"
    using h5[of d] dist by (simp add: d_def)
  moreover have "keeps (zaddrs fs (nd s y cy ky vy (nd s x cx kx vx a b) c)) t t5"
    using h5 t2(3) t4(4) by (auto simp: keeps_def zaddrs_def t1_def t3_def t5_def)
  ultimately show thesis using that by blast
qed

end
