(* ===== verification/Rb_Insert.thy ===== *)
theory Rb_Insert
  imports Rb_Zipper
begin

text \<open>
  The insertion fix-up on trees with a hole, and the proof that the pointer code performs it.
\<close>

section \<open>Reading and recolouring through the state\<close>

lemma zrep_node:
  assumes "zrep t fs (nd s a c k v x y)"
  shows "heap t a = Some (cell s c k v (path_parent (dummy t) fs) (ptr (dummy t) x) (ptr (dummy t) y))"
    "color_of t a = Some c" "parent_of t a = Some (path_parent (dummy t) fs)"
    "child_of s t a = Some (ptr (dummy t) x)" "child_of (opp s) t a = Some (ptr (dummy t) y)"
    "a \<noteq> dummy t" "a \<noteq> 0"
  using assms by (auto simp: zrep_def color_of_def parent_of_def child_of_def get_def)

lemma zrep_distinct:
  assumes "zrep t fs x"
  shows "distinct (addrs x @ paddrs fs)" "dummy t \<notin> set (addrs x @ paddrs fs)"
    "0 \<notin> set (addrs x @ paddrs fs)"
  using assms by (simp_all add: zrep_def)

lemma zrep_color:
  assumes "zrep t fs x" shows "color_of t (ptr (dummy t) x) = Some (color x)"
  using assms by (cases x) (auto simp: zrep_def color_of_def get_def)

lemma zrep_down_other: "zrep t fs (nd s a c k v x y) \<longleftrightarrow> zrep t (Fr (opp s) a c k v x # fs) y"
  using zrep_down[of t fs "opp s" a c k v y x] by (simp add: nd_opp)

lemma zrep_parent:
  "zrep t (Fr s a c k v y # fs) x \<Longrightarrow> x \<noteq> Lf \<Longrightarrow> parent_of t (ptr (dummy t) x) = Some a"
  by (cases x) (auto simp: zrep_def parent_of_def get_def)

lemma zaddrs_nd:
  "zaddrs fs (nd s a c k v x y) = insert a (set (addrs x) \<union> set (addrs y) \<union> set (paddrs fs))"
  by (auto simp: zaddrs_def)

lemma zaddrs_fill: "zaddrs fs (fill_frame f x) = zaddrs (f # fs) x"
  by (cases f) (auto simp: zaddrs_def)

lemma zaddrs_plug: "zaddrs gs (plug fs x) = zaddrs (fs @ gs) x"
  by (induction fs arbitrary: x) (simp_all add: zaddrs_fill)

lemma zaddrs_paint [simp]: "zaddrs fs (paint c x) = zaddrs fs x"
  by (cases x) (simp_all add: zaddrs_def)

lemma set_color_zrep:
  assumes z: "zrep t fs (nd s a c k v x y)"
  obtains t' where "set_color t a c' = Some t'" "zrep t' fs (nd s a c' k v x y)"
    "keeps {a} t t'"
proof -
  let ?t = "t\<lparr>heap := (heap t)(a \<mapsto> cell s c' k v (path_parent (dummy t) fs) (ptr (dummy t) x) (ptr (dummy t) y))\<rparr>"
  have "set_color t a c' = Some ?t"
    using zrep_node(1)[OF z] by (simp add: set_color_def put_Some)
  moreover have "zrep ?t fs (nd s a c' k v x y)"
    using z by (auto simp: zrep_def)
  moreover have "keeps {a} t ?t"
    by (simp add: keeps_def)
  ultimately show thesis using that by blast
qed

lemma set_color_focus:
  assumes z: "zrep t fs x" and x: "x \<noteq> Lf"
  obtains t' where "set_color t (ptr (dummy t) x) c = Some t'" "zrep t' fs (paint c x)"
    "keeps (set (addrs x)) t t'"
proof -
  obtain a c' k v l r where nd: "x = nd L a c' k v l r" using x tr_cases_nd[of x L] by auto
  from set_color_zrep[OF z[unfolded nd], of c] obtain t' where
    "set_color t a c = Some t'" "zrep t' fs (nd L a c k v l r)" "keeps {a} t t'" .
  with that show thesis by (simp add: nd keeps_mono)
qed

lemma zrep_swap: "zrep t (Fr s a c k v y # fs) x \<longleftrightarrow> zrep t (Fr (opp s) a c k v x # fs) y"
  by (simp only: zrep_down[symmetric] nd_opp)

lemmas zrep_downD = iffD1[OF zrep_down]
lemmas zrep_upD = iffD2[OF zrep_down]
lemmas zrep_swapD = iffD1[OF zrep_swap]

section \<open>The fix-up on trees with a hole\<close>

fun ins_fix :: "('k, 'v) path \<Rightarrow> ('k, 'v) tr \<Rightarrow> ('k, 'v) path \<times> ('k, 'v) tr" where
  "ins_fix (Fr s1 p ASSOC_RED kp vp y # Fr s g cg kg vg u # fs) z =
     (if color u = ASSOC_RED
      then ins_fix fs (nd s g ASSOC_RED kg vg (nd s1 p ASSOC_BLACK kp vp z y) (paint ASSOC_BLACK u))
      else if s1 = s
      then (Fr s p ASSOC_BLACK kp vp (nd (opp s) g ASSOC_RED kg vg u y) # fs, z)
      else (case z of
        Lf \<Rightarrow> (fs, z)
      | Nd a c k v l r \<Rightarrow>
          (Fr s a ASSOC_BLACK k v
             (nd (opp s) g ASSOC_RED kg vg u (if s = L then r else l)) # fs,
           nd s p ASSOC_RED kp vp y (if s = L then l else r))))"
| "ins_fix fs z = (fs, z)"

lemma insert_fixup_step_uncle_red:
  assumes z: "zrep t fs (nd s g cg kg vg (nd s1 p cp kp vp x y) u)" and u: "color u = ASSOC_RED"
  obtains t' where "insert_fixup_step s t q p g = Some (t', g)"
    "zrep t' fs (nd s g ASSOC_RED kg vg (nd s1 p ASSOC_BLACK kp vp x y) (paint ASSOC_BLACK u))"
    "keeps (zaddrs fs (nd s g cg kg vg (nd s1 p cp kp vp x y) u)) t t'"
proof -
  let ?A = "zaddrs fs (nd s g cg kg vg (nd s1 p cp kp vp x y) u)"
  have uL: "u \<noteq> Lf" using u by auto
  have z1: "zrep t (Fr s g cg kg vg u # fs) (nd s1 p cp kp vp x y)" using z by (simp only: zrep_down)
  have rd: "child_of (opp s) t g = Some (ptr (dummy t) u)" "color_of t (ptr (dummy t) u) = Some ASSOC_RED"
    using zrep_node(5)[OF z] zrep_color[OF zrep_swapD[OF z1]] u by simp_all
  from set_color_zrep[OF z1, of ASSOC_BLACK] obtain t1 where t1: "set_color t p ASSOC_BLACK = Some t1"
    "zrep t1 (Fr s g cg kg vg u # fs) (nd s1 p ASSOC_BLACK kp vp x y)" "keeps {p} t t1" .
  have d1: "dummy t1 = dummy t" using keeps_dummy[OF t1(3)] .
  from set_color_focus[OF zrep_swapD[OF t1(2)] uL, of ASSOC_BLACK] obtain t2 where
    t2: "set_color t1 (ptr (dummy t) u) ASSOC_BLACK = Some t2"
    "zrep t2 (Fr (opp s) g cg kg vg (nd s1 p ASSOC_BLACK kp vp x y) # fs) (paint ASSOC_BLACK u)"
    "keeps (set (addrs u)) t1 t2" unfolding d1 .
  from set_color_zrep[OF t2(2)[folded zrep_down], of ASSOC_RED] obtain t3 where t3:
    "set_color t2 g ASSOC_RED = Some t3"
    "zrep t3 fs (nd s g ASSOC_RED kg vg (nd s1 p ASSOC_BLACK kp vp x y) (paint ASSOC_BLACK u))"
    "keeps {g} t2 t3" unfolding nd_opp .
  have "keeps ?A t t1" "keeps ?A t1 t2" "keeps ?A t2 t3"
    using t1(3) t2(3) t3(3) by (auto elim!: keeps_mono simp: zaddrs_nd)
  then have "keeps ?A t t3" using keeps_trans by metis
  moreover have "insert_fixup_step s t q p g = Some (t3, g)"
    using t1 t2 t3 rd by (simp add: insert_fixup_step_def)
  ultimately show thesis using that t3(2) by simp
qed

text \<open>Recolouring and the second rotation, for a node \<open>p\<close> on the same side as its child.\<close>
lemma insert_fixup_tail:
  assumes z: "zrep t fs (nd s g cg kg vg (nd s p cp kp vp x y) u)"
  obtains t1 t2 t3 where "set_color t p ASSOC_BLACK = Some t1" "set_color t1 g ASSOC_RED = Some t2"
    "rotate (opp s) t2 g = Some t3"
    "zrep t3 (Fr s p ASSOC_BLACK kp vp (nd (opp s) g ASSOC_RED kg vg u y) # fs) x"
    "keeps (zaddrs fs (nd s g cg kg vg (nd s p cp kp vp x y) u)) t t3"
proof -
  let ?A = "zaddrs fs (nd s g cg kg vg (nd s p cp kp vp x y) u)"
  have z1: "zrep t (Fr s g cg kg vg u # fs) (nd s p cp kp vp x y)" using z by (simp only: zrep_down)
  from set_color_zrep[OF z1, of ASSOC_BLACK] obtain t1 where t1: "set_color t p ASSOC_BLACK = Some t1"
    "zrep t1 (Fr s g cg kg vg u # fs) (nd s p ASSOC_BLACK kp vp x y)" "keeps {p} t t1" .
  from set_color_zrep[OF t1(2)[folded zrep_down], of ASSOC_RED] obtain t2 where t2:
    "set_color t1 g ASSOC_RED = Some t2"
    "zrep t2 fs (nd s g ASSOC_RED kg vg (nd s p ASSOC_BLACK kp vp x y) u)" "keeps {g} t1 t2" .
  have "zrep t2 fs (nd (opp (opp s)) g ASSOC_RED kg vg (nd (opp s) p ASSOC_BLACK kp vp y x) u)"
    using t2(2) by (simp add: nd_opp)
  from rotate_zrep[OF this] obtain t3 where t3: "rotate (opp s) t2 g = Some t3"
    "zrep t3 fs (nd (opp s) p ASSOC_BLACK kp vp (nd (opp s) g ASSOC_RED kg vg u y) x)"
    "keeps (zaddrs fs (nd (opp s) p ASSOC_BLACK kp vp (nd (opp s) g ASSOC_RED kg vg u y) x)) t2 t3" .
  have "zaddrs fs (nd (opp s) p ASSOC_BLACK kp vp (nd (opp s) g ASSOC_RED kg vg u y) x) = ?A"
    by (auto simp: zaddrs_nd)
  then have "keeps ?A t t1" "keeps ?A t1 t2" "keeps ?A t2 t3"
    using t1(3) t2(3) t3(3) by (auto elim!: keeps_mono simp: zaddrs_nd)
  then have "keeps ?A t t3" using keeps_trans by metis
  moreover have "zrep t3 (Fr s p ASSOC_BLACK kp vp (nd (opp s) g ASSOC_RED kg vg u y) # fs) x"
    using t3(2) by (simp only: nd_opp[of s p] zrep_down)
  ultimately show thesis using that t1 t2 t3 by blast
qed

lemma insert_fixup_step_outer:
  assumes z: "zrep t fs (nd s g cg kg vg (nd s p cp kp vp x y) u)" and u: "color u \<noteq> ASSOC_RED"
    and x: "x \<noteq> Lf"
  obtains t' where "insert_fixup_step s t (ptr (dummy t) x) p g = Some (t', ptr (dummy t) x)"
    "zrep t' (Fr s p ASSOC_BLACK kp vp (nd (opp s) g ASSOC_RED kg vg u y) # fs) x"
    "keeps (zaddrs fs (nd s g cg kg vg (nd s p cp kp vp x y) u)) t t'"
proof -
  have z1: "zrep t (Fr s g cg kg vg u # fs) (nd s p cp kp vp x y)" using z by (simp only: zrep_down)
  have rd: "child_of (opp s) t g = Some (ptr (dummy t) u)"
    "color_of t (ptr (dummy t) u) = Some (color u)" "child_of (opp s) t p = Some (ptr (dummy t) y)"
    using zrep_node(5)[OF z] zrep_color[OF zrep_swapD[OF z1]] zrep_node(5)[OF z1] by simp_all
  have "ptr (dummy t) x \<noteq> ptr (dummy t) y"
    using z x ptr_in_addrs[of x "dummy t"] ptr_in_addrs[of y "dummy t"]
    by (cases "y = Lf") (auto simp: zrep_def)
  moreover obtain t1 t2 t3 where "set_color t p ASSOC_BLACK = Some t1" "set_color t1 g ASSOC_RED = Some t2"
    "rotate (opp s) t2 g = Some t3"
    "zrep t3 (Fr s p ASSOC_BLACK kp vp (nd (opp s) g ASSOC_RED kg vg u y) # fs) x"
    "keeps (zaddrs fs (nd s g cg kg vg (nd s p cp kp vp x y) u)) t t3"
    by (rule insert_fixup_tail[OF z])
  ultimately show thesis using that u rd by (simp add: insert_fixup_step_def)
qed

lemma insert_fixup_step_inner:
  assumes z: "zrep t fs (nd s g cg kg vg (nd (opp s) p cp kp vp (nd s a ca k v b c) y) u)"
    and u: "color u \<noteq> ASSOC_RED"
  obtains t' where "insert_fixup_step s t a p g = Some (t', p)"
    "zrep t' (Fr s a ASSOC_BLACK k v (nd (opp s) g ASSOC_RED kg vg u c) # fs) (nd s p cp kp vp y b)"
    "keeps (zaddrs fs (nd s g cg kg vg (nd (opp s) p cp kp vp (nd s a ca k v b c) y) u)) t t'"
proof -
  let ?A = "zaddrs fs (nd s g cg kg vg (nd (opp s) p cp kp vp (nd s a ca k v b c) y) u)"
  have z1: "zrep t (Fr s g cg kg vg u # fs) (nd (opp s) p cp kp vp (nd s a ca k v b c) y)"
    using z by (simp only: zrep_down)
  have rd: "child_of (opp s) t g = Some (ptr (dummy t) u)"
    "color_of t (ptr (dummy t) u) = Some (color u)" "child_of (opp s) t p = Some a"
    using zrep_node(5)[OF z] zrep_color[OF zrep_swapD[OF z1]] zrep_node(4)[OF z1] by simp_all
  from rotate_zrep[OF z1] obtain t1 where t1: "rotate s t p = Some t1"
    "zrep t1 (Fr s g cg kg vg u # fs) (nd s a ca k v (nd s p cp kp vp y b) c)"
    "keeps (zaddrs (Fr s g cg kg vg u # fs) (nd s a ca k v (nd s p cp kp vp y b) c)) t t1" .
  have pp: "parent_of t1 p = Some a"
    using zrep_node(3)[OF zrep_downD[OF t1(2)]] by simp
  from insert_fixup_tail[OF t1(2)[folded zrep_down]] obtain t2 t3 t4 where
    t4: "set_color t1 a ASSOC_BLACK = Some t2" "set_color t2 g ASSOC_RED = Some t3"
    "rotate (opp s) t3 g = Some t4"
    "zrep t4 (Fr s a ASSOC_BLACK k v (nd (opp s) g ASSOC_RED kg vg u c) # fs) (nd s p cp kp vp y b)"
    "keeps (zaddrs fs (nd s g cg kg vg (nd s a ca k v (nd s p cp kp vp y b) c) u)) t1 t4" .
  have "zaddrs (Fr s g cg kg vg u # fs) (nd s a ca k v (nd s p cp kp vp y b) c) = ?A"
    "zaddrs fs (nd s g cg kg vg (nd s a ca k v (nd s p cp kp vp y b) c) u) = ?A"
    by (auto simp: zaddrs_def)
  then have "keeps ?A t t4" using t1(3) t4(5) keeps_trans by metis
  moreover have "insert_fixup_step s t a p g = Some (t4, p)"
    using u rd t1 pp t4 by (simp add: insert_fixup_step_def)
  ultimately show thesis using that t4 by blast
qed

section \<open>The loop\<close>

primrec frame_color :: "('k, 'v) frame \<Rightarrow> assoc_color" where
  "frame_color (Fr s a c k v y) = c"

primrec top_black :: "('k, 'v) path \<Rightarrow> bool" where
  "top_black [] = True"
| "top_black (f # fs) = (if fs = [] then frame_color f = ASSOC_BLACK else top_black fs)"

text \<open>The test with which the code finds the side of a node.\<close>
lemma zrep_side:
  assumes "zrep t (Fr s g c k v y # fs) x" "x \<noteq> Lf"
  obtains gl where "child_of L t g = Some gl" "(if ptr (dummy t) x = gl then L else R) = s"
proof -
  have ne: "ptr (dummy t) x \<noteq> ptr (dummy t) y"
    using assms ptr_in_addrs[of x "dummy t"] ptr_in_addrs[of y "dummy t"]
    by (cases "y = Lf") (auto simp: zrep_def)
  have "zrep t fs (nd s g c k v x y)" using assms by (simp only: zrep_down)
  from zrep_node(4,5)[OF this] ne that show thesis by (cases s) auto
qed

lemma zrep_dummy_black: "zrep t fs x \<Longrightarrow> color_of t (dummy t) = Some ASSOC_BLACK"
  by (auto simp: zrep_def color_of_def get_def)

lemma zrep_parent_color:
  assumes "zrep t fs x" "x \<noteq> Lf"
  shows "parent_of t (ptr (dummy t) x) = Some (path_parent (dummy t) fs)"
    "color_of t (path_parent (dummy t) fs) =
      Some (case fs of [] \<Rightarrow> ASSOC_BLACK | f # _ \<Rightarrow> frame_color f)"
proof -
  show "parent_of t (ptr (dummy t) x) = Some (path_parent (dummy t) fs)"
    using assms by (cases x) (auto simp: zrep_def parent_of_def get_def)
  show "color_of t (path_parent (dummy t) fs) =
      Some (case fs of [] \<Rightarrow> ASSOC_BLACK | f # _ \<Rightarrow> frame_color f)"
    using zrep_dummy_black[OF assms(1)] assms(1)
    by (cases fs) (auto simp: zrep_def color_of_def get_def split: frame.splits)
qed

lemma insert_fixup_loop_stop:
  assumes "zrep t fs x" "x \<noteq> Lf" "fs = [] \<or> frame_color (hd fs) = ASSOC_BLACK"
  shows "insert_fixup_loop t (ptr (dummy t) x) = Some t"
  using zrep_parent_color[OF assms(1,2)] assms(3)
  by (cases fs) (auto simp: insert_fixup_loop.simps[of t])

lemma insert_fixup_loop_zrep:
  assumes "zrep t fs z" "z \<noteq> Lf" "top_black fs" "ins_fix fs z = (fs', z')"
  shows "\<exists>t'. insert_fixup_loop t (ptr (dummy t) z) = Some t' \<and> zrep t' fs' z' \<and>
    keeps (zaddrs fs z) t t'"
  using assms
proof (induction fs z arbitrary: t fs' z' rule: ins_fix.induct[case_names grandparent top black_parent one_frame])
  case (grandparent s1 p kp vp y s g cg kg vg u fs z)
  let ?P = "nd s1 p ASSOC_RED kp vp z y"
  have zp: "zrep t (Fr s g cg kg vg u # fs) ?P" using grandparent(2) by (simp only: zrep_down)
  then have zg: "zrep t fs (nd s g cg kg vg ?P u)" by (simp only: zrep_down)
  have rd: "parent_of t (ptr (dummy t) z) = Some p" "color_of t p = Some ASSOC_RED"
    "parent_of t p = Some g"
    using zrep_parent[OF grandparent(2,3)] zrep_node(2,3)[OF zp] by simp_all
  obtain gl where gl: "child_of L t g = Some gl" "(if p = gl then L else R) = s"
    using zrep_side[OF zp] by auto
  have loop: "insert_fixup_loop t (ptr (dummy t) z) =
      Option.bind (insert_fixup_step s t (ptr (dummy t) z) p g) (\<lambda>(t, z). insert_fixup_loop t z)"
    using rd gl by (simp add: insert_fixup_loop.simps[of t "ptr (dummy t) z"])
  have A: "zaddrs fs (nd s g cg kg vg ?P u) = zaddrs (Fr s1 p ASSOC_RED kp vp y # Fr s g cg kg vg u # fs) z"
    by (auto simp: zaddrs_def)
  have done': "insert_fixup_loop t1 (ptr (dummy t) w) = Some t1"
    if "zrep t1 (Fr s' a ASSOC_BLACK k v x # fs1) w" "w \<noteq> Lf" "dummy t1 = dummy t" for t1 s' a k v x fs1 w
    using insert_fixup_loop_stop[OF that(1,2)] that(3) by simp
  show ?case
  proof (cases "color u = ASSOC_RED")
    case True
    from insert_fixup_step_uncle_red[OF zg True, of "ptr (dummy t) z"] obtain t1 where t1:
      "insert_fixup_step s t (ptr (dummy t) z) p g = Some (t1, g)"
      "zrep t1 fs (nd s g ASSOC_RED kg vg (nd s1 p ASSOC_BLACK kp vp z y) (paint ASSOC_BLACK u))"
      "keeps (zaddrs fs (nd s g cg kg vg ?P u)) t t1" .
    have "top_black fs" using grandparent(4) by (auto split: if_splits)
    from grandparent(1)[OF True t1(2) _ this] grandparent(5) True obtain t2 where t2:
      "insert_fixup_loop t1 g = Some t2" "zrep t2 fs' z'"
      "keeps (zaddrs fs (nd s g ASSOC_RED kg vg (nd s1 p ASSOC_BLACK kp vp z y) (paint ASSOC_BLACK u))) t1 t2"
      by auto
    have "zaddrs fs (nd s g ASSOC_RED kg vg (nd s1 p ASSOC_BLACK kp vp z y) (paint ASSOC_BLACK u)) =
        zaddrs fs (nd s g cg kg vg ?P u)"
      using zaddrs_paint[of fs ASSOC_BLACK u] by (cases u) (auto simp: zaddrs_nd)
    then show ?thesis using loop t1 t2 keeps_trans unfolding A[symmetric] by fastforce
  next
    case u: False
    show ?thesis
    proof (cases "s1 = s")
      case True
      from insert_fixup_step_outer[OF zg[unfolded True] u grandparent(3)] obtain t1 where t1:
        "insert_fixup_step s t (ptr (dummy t) z) p g = Some (t1, ptr (dummy t) z)"
        "zrep t1 (Fr s p ASSOC_BLACK kp vp (nd (opp s) g ASSOC_RED kg vg u y) # fs) z"
        "keeps (zaddrs fs (nd s g cg kg vg (nd s p ASSOC_RED kp vp z y) u)) t t1" .
      with done'[OF t1(2) grandparent(3) keeps_dummy[OF t1(3)]] loop True u grandparent(5) show ?thesis
        unfolding A[symmetric] by auto
    next
      case False
      then have s1: "s1 = opp s" by (cases s; cases s1) auto
      obtain a c k v b e where znd: "z = nd s a c k v b e" using grandparent(3) tr_cases_nd[of z s] by auto
      from insert_fixup_step_inner[OF zg[unfolded s1 znd] u] obtain t1 where t1:
        "insert_fixup_step s t a p g = Some (t1, p)"
        "zrep t1 (Fr s a ASSOC_BLACK k v (nd (opp s) g ASSOC_RED kg vg u e) # fs)
          (nd s p ASSOC_RED kp vp y b)"
        "keeps (zaddrs fs (nd s g cg kg vg (nd s1 p ASSOC_RED kp vp z y) u)) t t1" unfolding s1 znd .
      have "ins_fix (Fr s1 p ASSOC_RED kp vp y # Fr s g cg kg vg u # fs) z =
          (Fr s a ASSOC_BLACK k v (nd (opp s) g ASSOC_RED kg vg u e) # fs, nd s p ASSOC_RED kp vp y b)"
        using u False by (cases s) (simp_all add: znd nd_def)
      moreover have "insert_fixup_loop t1 p = Some t1"
        using done'[OF t1(2) _ keeps_dummy[OF t1(3)]] by simp
      ultimately show ?thesis using loop t1 grandparent(5) unfolding A[symmetric] by (auto simp: znd)
    qed
  qed
next
  case (top z)
  then show ?case using insert_fixup_loop_stop[of t "[]" z] by simp
next
  case (black_parent s p k v y fs z)
  have "frame_color (hd (Fr s p ASSOC_BLACK k v y # fs)) = ASSOC_BLACK" by simp
  from insert_fixup_loop_stop[OF black_parent(1,2) disjI2, OF this]
  have "insert_fixup_loop t (ptr (dummy t) z) = Some t" .
  then show ?case using black_parent by auto
next
  case (one_frame v z)
  have "frame_color (hd [v]) = ASSOC_BLACK" using one_frame(3) by simp
  from insert_fixup_loop_stop[OF one_frame(1,2) disjI2, OF this]
  have "insert_fixup_loop t (ptr (dummy t) z) = Some t" .
  then show ?case using one_frame by auto
qed

lemma zrep_root: "zrep t [] x \<Longrightarrow> root t = ptr (dummy t) x"
  by (simp add: zrep_def)

lemma zrep_whole: "zrep t fs x \<longleftrightarrow> zrep t [] (plug fs x)"
  by (simp add: zrep_plug)

lemma plug_not_Lf: "x \<noteq> Lf \<Longrightarrow> plug fs x \<noteq> Lf"
proof (induction fs arbitrary: x)
  case (Cons f fs)
  then show ?case by (cases f) simp
qed simp

lemma set_addrs_plug: "set (addrs (plug fs x)) = set (addrs x) \<union> set (paddrs fs)"
proof (induction fs arbitrary: x)
  case (Cons f fs)
  then show ?case by (cases f) auto
qed simp

lemma keeps_zrep_dummy: "keeps A t t' \<Longrightarrow> zrep t' fs x \<Longrightarrow> zrep t' fs x \<and> dummy t' = dummy t"
  by (simp add: keeps_dummy)

lemma insert_fixup_zrep:
  assumes "zrep t fs z" "z \<noteq> Lf" "top_black fs" "ins_fix fs z = (fs', z')" "z' \<noteq> Lf"
  obtains t' where "insert_fixup t (ptr (dummy t) z) = Some t'"
    "zrep t' [] (paint ASSOC_BLACK (plug fs' z'))" "keeps (zaddrs fs z \<union> zaddrs fs' z') t t'"
proof -
  from insert_fixup_loop_zrep[OF assms(1-4)] obtain t1 where t1:
    "insert_fixup_loop t (ptr (dummy t) z) = Some t1" "zrep t1 fs' z'" "keeps (zaddrs fs z) t t1" by blast
  have w: "zrep t1 [] (plug fs' z')" using t1(2) by (simp add: zrep_plug)
  from set_color_focus[OF this plug_not_Lf[OF assms(5)], of ASSOC_BLACK] obtain t2 where t2:
    "set_color t1 (root t1) ASSOC_BLACK = Some t2" "zrep t2 [] (paint ASSOC_BLACK (plug fs' z'))"
    "keeps (set (addrs (plug fs' z'))) t1 t2" using zrep_root[OF w] by metis
  have "keeps (zaddrs fs z \<union> zaddrs fs' z') t t2"
    by (rule keeps_trans[of _ _ t1]; rule keeps_mono, (rule t1(3) t2(3)))
      (auto simp: set_addrs_plug zaddrs_def)
  then show thesis using that t1 t2 by (simp add: insert_fixup_def)
qed

end
