(* ===== verification/Rb_Invariant.thy ===== *)
theory Rb_Invariant
  imports Rb_Insert
begin

text \<open>
  The red-black properties and the sequence of entries, for trees and for trees with a hole.
\<close>

section \<open>The colour and height invariants\<close>

fun no_red_red :: "('k, 'v) tr \<Rightarrow> bool" where
  "no_red_red Lf \<longleftrightarrow> True"
| "no_red_red (Nd a c k v l r) \<longleftrightarrow>
     (c = ASSOC_RED \<longrightarrow> color l = ASSOC_BLACK \<and> color r = ASSOC_BLACK) \<and> no_red_red l \<and> no_red_red r"

definition weight :: "assoc_color \<Rightarrow> nat" where
  "weight c = (if c = ASSOC_BLACK then 1 else 0)"

fun bh :: "('k, 'v) tr \<Rightarrow> nat" where
  "bh Lf = 0"
| "bh (Nd a c k v l r) = bh l + weight c"

fun balanced :: "('k, 'v) tr \<Rightarrow> bool" where
  "balanced Lf \<longleftrightarrow> True"
| "balanced (Nd a c k v l r) \<longleftrightarrow> bh l = bh r \<and> balanced l \<and> balanced r"

definition is_rbt :: "('k, 'v) tr \<Rightarrow> bool" where
  "is_rbt t \<longleftrightarrow> balanced t \<and> no_red_red t \<and> color t = ASSOC_BLACK"

primrec pbal :: "nat \<Rightarrow> ('k, 'v) path \<Rightarrow> bool" where
  "pbal n [] \<longleftrightarrow> True"
| "pbal n (f # fs) \<longleftrightarrow> (case f of Fr s a c k v y \<Rightarrow> bh y = n \<and> balanced y \<and> pbal (n + weight c) fs)"

primrec pcol :: "assoc_color \<Rightarrow> ('k, 'v) path \<Rightarrow> bool" where
  "pcol c0 [] \<longleftrightarrow> True"
| "pcol c0 (f # fs) \<longleftrightarrow> (case f of Fr s a c k v y \<Rightarrow>
     (c = ASSOC_RED \<longrightarrow> c0 = ASSOC_BLACK \<and> color y = ASSOC_BLACK) \<and> no_red_red y \<and> pcol c fs)"

lemma weight_simps [simp]: "weight ASSOC_BLACK = 1" "weight ASSOC_RED = 0"
  by (simp_all add: weight_def)

lemma color_not [simp]: "c \<noteq> ASSOC_RED \<longleftrightarrow> c = ASSOC_BLACK" "c \<noteq> ASSOC_BLACK \<longleftrightarrow> c = ASSOC_RED"
  by (cases c; simp)+

lemma nd_inv [simp]:
  "no_red_red (nd s a c k v x y) \<longleftrightarrow>
     (c = ASSOC_RED \<longrightarrow> color x = ASSOC_BLACK \<and> color y = ASSOC_BLACK) \<and> no_red_red x \<and> no_red_red y"
  "balanced (nd s a c k v x y) \<longleftrightarrow> bh x = bh y \<and> balanced x \<and> balanced y"
  by (auto simp: nd_def)

lemma bh_nd [simp]: "bh x = bh y \<Longrightarrow> bh (nd s a c k v x y) = bh y + weight c"
  by (simp add: nd_def)

lemma balanced_plug: "balanced (plug fs t) \<longleftrightarrow> balanced t \<and> pbal (bh t) fs"
proof (induction fs arbitrary: t)
  case (Cons f fs)
  obtain s a c k v y where f: "f = Fr s a c k v y" by (cases f)
  show ?case using bh_nd[of t y s a c k v] by (cases "bh t = bh y") (simp_all add: Cons.IH f)
qed simp

lemma no_red_red_plug: "no_red_red (plug fs t) \<longleftrightarrow> no_red_red t \<and> pcol (color t) fs"
proof (induction fs arbitrary: t)
  case (Cons f fs)
  then show ?case by (cases f) auto
qed simp

lemma pcol_mono: "pcol c fs \<Longrightarrow> pcol ASSOC_BLACK fs"
  by (cases fs) (auto split: frame.splits)

lemma paint_inv [simp]:
  "balanced (paint c t) = balanced t" "no_red_red t \<Longrightarrow> no_red_red (paint ASSOC_BLACK t)"
  "color (paint ASSOC_BLACK t) = ASSOC_BLACK"
  by (cases t; simp)+

lemma bh_paint_red: "color t = ASSOC_RED \<Longrightarrow> bh (paint ASSOC_BLACK t) = Suc (bh t)"
  by (cases t) simp_all

section \<open>The entries in order\<close>

fun entries :: "('k, 'v) tr \<Rightarrow> (addr \<times> 'k \<times> 'v) list" where
  "entries Lf = []"
| "entries (Nd a c k v l r) = entries l @ (a, k, v) # entries r"

primrec pleft :: "('k, 'v) path \<Rightarrow> (addr \<times> 'k \<times> 'v) list" where
  "pleft [] = []"
| "pleft (f # fs) = (case f of Fr s a c k v y \<Rightarrow>
     if s = L then pleft fs else pleft fs @ entries y @ [(a, k, v)])"

primrec pright :: "('k, 'v) path \<Rightarrow> (addr \<times> 'k \<times> 'v) list" where
  "pright [] = []"
| "pright (f # fs) = (case f of Fr s a c k v y \<Rightarrow>
     if s = L then (a, k, v) # entries y @ pright fs else pright fs)"

lemma entries_plug: "entries (plug fs t) = pleft fs @ entries t @ pright fs"
proof (induction fs arbitrary: t)
  case (Cons f fs)
  then show ?case by (cases f) (auto simp: nd_def)
qed simp

lemma plug_append: "plug (fs @ gs) t = plug gs (plug fs t)"
  by (induction fs arbitrary: t) simp_all

lemma pleft_append: "pleft (fs @ gs) = pleft gs @ pleft fs"
  by (induction fs) (auto split: frame.splits)

lemma pright_append: "pright (fs @ gs) = pright fs @ pright gs"
  by (induction fs) (auto split: frame.splits)

lemma entries_paint [simp]: "entries (paint c t) = entries t"
  by (cases t) simp_all

lemma addrs_entries: "set (addrs t) = fst ` set (entries t)"
  by (induction t) auto

section \<open>The insertion fix-up restores the invariants\<close>

lemma side_cases: "s1 \<noteq> s \<Longrightarrow> s1 = opp s"
  by (cases s; cases s1) auto

lemma ins_fix_entries: "ins_fix fs z = (fs', z') \<Longrightarrow> z \<noteq> Lf \<Longrightarrow> entries (plug fs' z') = entries (plug fs z)"
proof (induction fs z arbitrary: fs' z' rule: ins_fix.induct)
  case (1 s1 p kp vp y s g cg kg vg u fs z)
  then show ?case
    by (cases s; cases s1) (auto simp: entries_plug nd_def split: if_splits tr.splits)
qed auto

lemma ins_fix_not_Lf: "ins_fix fs z = (fs', z') \<Longrightarrow> z \<noteq> Lf \<Longrightarrow> z' \<noteq> Lf"
  by (induction fs z arbitrary: fs' z' rule: ins_fix.induct) (auto split: if_splits tr.splits)

lemma ins_fix_inv:
  assumes "ins_fix fs z = (fs', z')" "balanced z" "pbal (bh z) fs" "no_red_red z" "color z = ASSOC_RED"
    "pcol ASSOC_BLACK fs" "top_black fs"
  shows "balanced (plug fs' z') \<and> no_red_red (plug fs' z')"
  using assms
proof (induction fs z arbitrary: fs' z' rule: ins_fix.induct)
  case (1 s1 p kp vp y s g cg kg vg u fs z)
  let ?g = "nd s g ASSOC_RED kg vg (nd s1 p ASSOC_BLACK kp vp z y) (paint ASSOC_BLACK u)"
  have h: "bh y = bh z" "bh u = bh z" "balanced y" "balanced u" "pbal (Suc (bh z)) fs"
    and c: "color y = ASSOC_BLACK" "no_red_red y" "no_red_red u" "cg = ASSOC_BLACK" "pcol ASSOC_BLACK fs"
    and tb: "top_black fs"
    using 1(4,7,8) by (auto split: if_splits)
  show ?case
  proof (cases "color u = ASSOC_RED")
    case True
    then have "bh (paint ASSOC_BLACK u) = Suc (bh z)" using bh_paint_red h(2) by metis
    moreover from this have "bh ?g = Suc (bh z)" using h(1) by simp
    ultimately show ?thesis using 1(1)[of fs' z'] 1(2,3,5,6) True h c tb by simp
  next
    case u: False
    show ?thesis
    proof (cases "s1 = s")
      case True
      then have "fs' = Fr s p ASSOC_BLACK kp vp (nd (opp s) g ASSOC_RED kg vg u y) # fs" "z' = z"
        using 1(2) u by auto
      then show ?thesis using 1(3,5) u h c by (simp add: balanced_plug no_red_red_plug)
    next
      case False
      obtain a b e k v where znd: "z = nd s a ASSOC_RED k v b e"
        using 1(6) tr_cases_nd[of z s] by auto
      have bz: "bh b = bh z" "bh e = bh z" "color b = ASSOC_BLACK" "color e = ASSOC_BLACK"
        "no_red_red b" "no_red_red e" "balanced b" "balanced e"
        using 1(3,5) by (auto simp: znd)
      have "fs' = Fr s a ASSOC_BLACK k v (nd (opp s) g ASSOC_RED kg vg u e) # fs"
        "z' = nd s p ASSOC_RED kp vp y b"
        using 1(2) u False by (cases s; simp add: znd nd_def)+
      then show ?thesis using u h c bz by (simp add: balanced_plug no_red_red_plug)
    qed
  qed
qed (auto simp: balanced_plug no_red_red_plug split: frame.splits)

end
