(* ===== verification/Rb_Map.thy ===== *)
theory Rb_Map
  imports Rb_Invariant
begin

text \<open>
  The red-black tree as an ordered sequence of entries: the contract of insertion.

  \<open>rb_rep\<close> says that a tree in the heap holds a list of entries, each with the address of
  its node (which is the iterator to it), in the order of the comparison function.  The order laws
  are those of the locale \<open>comparator\<close>; equal keys are allowed, as in the code.
\<close>

section \<open>Comparison functions\<close>

locale comparator =
  fixes cmp :: "'k \<Rightarrow> 'k \<Rightarrow> int"
  assumes cmp_range: "cmp a b = 1 \<or> cmp a b = 0 \<or> cmp a b = - 1"
    and cmp_swap: "cmp b a = - cmp a b"
    and cmp_trans: "cmp a b = 1 \<Longrightarrow> cmp b c = 1 \<Longrightarrow> cmp a c = 1"
    and cmp_cong: "cmp a b = 0 \<Longrightarrow> cmp a c = cmp b c"
begin

lemma cmp_refl [simp]: "cmp a a = 0"
  using cmp_swap[of a a] by simp

lemma cmp_cong2: "cmp a b = 0 \<Longrightarrow> cmp c a = cmp c b"
  using cmp_cong[of a b c] cmp_swap[of a c] cmp_swap[of b c] by simp

lemma cmp_not_less: "cmp a b \<noteq> 1 \<longleftrightarrow> cmp b a = 1 \<or> cmp a b = 0"
  using cmp_range[of a b] cmp_swap[of a b] by auto

lemma cmp_le_trans:
  assumes "cmp b a \<noteq> 1" "cmp c b \<noteq> 1" shows "cmp c a \<noteq> 1"
proof
  assume ca: "cmp c a = 1"
  consider "cmp a b = 1" | "cmp b a = 0" using assms(1) cmp_not_less by blast
  then show False
  proof cases
    case 1
    then show False using cmp_trans[OF ca] assms(2) by blast
  next
    case 2
    then show False using cmp_cong2[of b a c] ca assms(2) by simp
  qed
qed

lemma cmp_less_le: "cmp a b = 1 \<Longrightarrow> cmp c b \<noteq> 1 \<Longrightarrow> cmp a c = 1"
  using cmp_trans[of a b c] cmp_cong2[of b c a] cmp_not_less[of c b] cmp_swap[of c b] by auto

end

section \<open>Entries in order\<close>

type_synonym ('k, 'v) entry = "addr \<times> 'k \<times> 'v"

definition entry_key :: "('k, 'v) entry \<Rightarrow> 'k" where
  "entry_key e = fst (snd e)"

definition ordered :: "('k \<Rightarrow> 'k \<Rightarrow> int) \<Rightarrow> ('k, 'v) entry list \<Rightarrow> bool" where
  "ordered cmp es \<longleftrightarrow> sorted_wrt (\<lambda>x y. cmp (entry_key y) (entry_key x) \<noteq> 1) es"

text \<open>The place of a new entry: before the first that is greater.\<close>
definition ins_entry :: "('k \<Rightarrow> 'k \<Rightarrow> int) \<Rightarrow> ('k, 'v) entry \<Rightarrow> ('k, 'v) entry list \<Rightarrow> ('k, 'v) entry list" where
  "ins_entry cmp e es =
     takeWhile (\<lambda>x. cmp (entry_key e) (entry_key x) \<noteq> 1) es @ e #
     dropWhile (\<lambda>x. cmp (entry_key e) (entry_key x) \<noteq> 1) es"

lemma length_ins_entry: "length (ins_entry cmp e es) = Suc (length es)"
proof -
  let ?P = "\<lambda>x. cmp (entry_key e) (entry_key x) \<noteq> 1"
  have "length (takeWhile ?P es) + length (dropWhile ?P es) = length es"
    unfolding length_append[symmetric] by simp
  then show ?thesis by (simp add: ins_entry_def)
qed

lemma entry_key_simp [simp]: "entry_key (a, k, v) = k"
  by (simp add: entry_key_def)

lemma ordered_append:
  "ordered cmp (xs @ ys) \<longleftrightarrow> ordered cmp xs \<and> ordered cmp ys \<and>
     (\<forall>x \<in> set xs. \<forall>y \<in> set ys. cmp (entry_key y) (entry_key x) \<noteq> 1)"
  by (simp add: ordered_def sorted_wrt_append)

lemma ordered_Cons:
  "ordered cmp (x # ys) \<longleftrightarrow> (\<forall>y \<in> set ys. cmp (entry_key y) (entry_key x) \<noteq> 1) \<and> ordered cmp ys"
  by (simp add: ordered_def)

lemma ordered_Nil [simp]: "ordered cmp []"
  by (simp add: ordered_def)

context comparator
begin

lemma ordered_remove: "ordered cmp (xs @ e # ys) \<Longrightarrow> ordered cmp (xs @ ys)"
  by (simp add: ordered_append ordered_Cons)

lemma ins_entry_split:
  assumes ord: "ordered cmp (xs @ ys)"
    and xs: "\<forall>x \<in> set xs. cmp (entry_key e) (entry_key x) \<noteq> 1"
    and ys: "\<forall>y \<in> set ys. cmp (entry_key e) (entry_key y) = 1"
  shows "ins_entry cmp e (xs @ ys) = xs @ e # ys"
proof -
  have "takeWhile (\<lambda>x. cmp (entry_key e) (entry_key x) \<noteq> 1) ys = []"
    using ys by (cases ys) auto
  moreover have "dropWhile (\<lambda>x. cmp (entry_key e) (entry_key x) \<noteq> 1) ys = ys"
    using ys by (cases ys) auto
  ultimately show ?thesis using xs by (simp add: ins_entry_def takeWhile_append dropWhile_append)
qed

lemma ordered_ins:
  assumes "ordered cmp (xs @ ys)"
    and xs: "\<forall>x \<in> set xs. cmp (entry_key e) (entry_key x) \<noteq> 1"
    and ys: "\<forall>y \<in> set ys. cmp (entry_key e) (entry_key y) = 1"
  shows "ordered cmp (xs @ e # ys)"
proof -
  have "cmp (entry_key y) (entry_key e) \<noteq> 1" if "y \<in> set ys" for y
    using ys that cmp_swap[of "entry_key e" "entry_key y"] by auto
  then show ?thesis using assms by (auto simp: ordered_append ordered_Cons)
qed

end

section \<open>The way down\<close>

fun ins_path :: "('k \<Rightarrow> 'k \<Rightarrow> int) \<Rightarrow> 'k \<Rightarrow> ('k, 'v) tr \<Rightarrow> ('k, 'v) path \<Rightarrow> ('k, 'v) path" where
  "ins_path cmp key Lf fs = fs"
| "ins_path cmp key (Nd a c k v l r) fs =
     (if cmp key k = 1 then ins_path cmp key l (Fr L a c k v r # fs)
      else ins_path cmp key r (Fr R a c k v l # fs))"

lemma plug_ins_path: "plug (ins_path cmp key t fs) Lf = plug fs t"
  by (induction t arbitrary: fs) (simp_all add: nd_def)

lemma insert_descend_zrep:
  assumes "zrep T fs t" "\<forall>e \<in> set (entries t). comp_fn T key (entry_key e) = Some (cmp key (entry_key e))"
  shows "insert_descend T (Some key) (ptr (dummy T) t) (path_parent (dummy T) fs) =
    Some (path_parent (dummy T) (ins_path cmp key t fs))"
  using assms
proof (induction t arbitrary: fs)
  case Lf
  then show ?case by (simp add: insert_descend.simps)
next
  case (Nd a c k v l r)
  have z: "zrep T fs (nd L a c k v l r)" using Nd.prems by (simp add: nd_def)
  note n = zrep_node[OF z]
  have "comp_key T (Some key) a = Some (cmp key k)" using n(1) Nd.prems(2) by (simp add: comp_key_def get_def)
  moreover have "zrep T (Fr L a c k v r # fs) l" "zrep T (Fr R a c k v l # fs) r"
    using z zrep_down[of T fs L] zrep_down_other[of T fs L] by auto
  ultimately show ?case
    using n(4,5,6) Nd.IH(1)[of "Fr L a c k v r # fs"] Nd.IH(2)[of "Fr R a c k v l # fs"] Nd.prems(2)
    by (simp add: insert_descend.simps[of T _ a])
qed

text \<open>Every frame of the way has the side that the comparison chooses.\<close>
definition on_path :: "('k \<Rightarrow> 'k \<Rightarrow> int) \<Rightarrow> 'k \<Rightarrow> ('k, 'v) frame \<Rightarrow> bool" where
  "on_path cmp key f \<longleftrightarrow> (case f of Fr s a c k v y \<Rightarrow> (cmp key k = 1) = (s = L))"

lemma ins_path_on_path:
  "list_all (on_path cmp key) fs \<Longrightarrow> list_all (on_path cmp key) (ins_path cmp key t fs)"
  by (induction t arbitrary: fs) (auto simp: on_path_def)

lemma top_black_ins_path_ne: "fs \<noteq> [] \<Longrightarrow> top_black (ins_path cmp key t fs) = top_black fs"
  by (induction t arbitrary: fs) auto

lemma top_black_ins_path: "color t = ASSOC_BLACK \<Longrightarrow> top_black (ins_path cmp key t [])"
  by (cases t) (auto simp: top_black_ins_path_ne)

context comparator
begin

lemma on_path_bounds:
  assumes "list_all (on_path cmp key) fs" "ordered cmp (pleft fs @ pright fs)"
  shows "(\<forall>x \<in> set (pleft fs). cmp key (entry_key x) \<noteq> 1) \<and> (\<forall>y \<in> set (pright fs). cmp key (entry_key y) = 1)"
  using assms
proof (induction fs)
  case (Cons f fs)
  obtain s a c k v y where f: "f = Fr s a c k v y" by (cases f)
  show ?case
  proof (cases s)
    case L
    then have k: "cmp key k = 1" using Cons.prems(1) f by (simp add: on_path_def)
    have ord: "ordered cmp (pleft fs @ (a, k, v) # entries y @ pright fs)"
      using Cons.prems(2) f L by simp
    then have "ordered cmp (pleft fs @ pright fs)" by (auto simp: ordered_append ordered_Cons)
    moreover have "cmp key (entry_key x) = 1" if "x \<in> set (entries y)" for x
      using ord that by (intro cmp_less_le[OF k]) (auto simp: ordered_append ordered_Cons)
    ultimately show ?thesis using Cons.IH Cons.prems(1) f L k by auto
  next
    case R
    then have k: "cmp key k \<noteq> 1" using Cons.prems(1) f by (simp add: on_path_def)
    have ord: "ordered cmp (pleft fs @ entries y @ (a, k, v) # pright fs)"
      using Cons.prems(2) f R by simp
    then have "ordered cmp (pleft fs @ pright fs)" by (auto simp: ordered_append ordered_Cons)
    moreover have "cmp key (entry_key x) \<noteq> 1" if "x \<in> set (entries y)" for x
      using ord that by (intro cmp_le_trans[OF _ k]) (auto simp: ordered_append ordered_Cons)
    ultimately show ?thesis using Cons.IH Cons.prems(1) f R k by auto
  qed
qed simp

end

section \<open>Attaching and inserting\<close>

lemma zrep_keeps:
  assumes "zrep T fs x" "keeps A T T'" "A \<inter> zaddrs fs x = {}" "dummy T \<notin> A" "root T' = root T"
  shows "zrep T' fs x"
proof -
  have d: "set (addrs x) \<inter> A = {}" "set (paddrs fs) \<inter> A = {}" using assms(3) by (auto simp: zaddrs_def)
  show ?thesis
    using assms(1,4,5) keeps_repr[OF assms(2) d(1)] keeps_prepr[OF assms(2) d(2)]
      keeps_heap[OF assms(2), of "dummy T"]
    by (simp add: zrep_def keeps_dummy[OF assms(2)])
qed

text \<open>The link of the new node into the leaf position of its way.\<close>
definition attach ::
  "('k, 'v) assoc_rb_tree \<Rightarrow> 'k \<Rightarrow> addr \<Rightarrow> addr \<Rightarrow> ('k, 'v) assoc_rb_tree option"
where
  "attach tree key z y =
     (if y = dummy tree then Some (tree\<lparr>root := z\<rparr>)
      else do {
        rc \<leftarrow> comp_key tree (Some key) y;
        set_child_of (if rc = 1 then L else R) tree y z
      })"

lemma attach_zrep:
  assumes z: "zrep T fs Lf" and fresh: "z \<notin> set (paddrs fs)" "z \<noteq> dummy T" "z \<noteq> 0"
    and hz: "heap T z = Some (cell L ASSOC_RED key val (path_parent (dummy T) fs) (dummy T) (dummy T))"
    and path: "list_all (on_path cmp key) fs"
    and agree: "\<forall>e \<in> set (pleft fs @ pright fs). comp_fn T key (entry_key e) = Some (cmp key (entry_key e))"
  obtains T' where "attach T key z (path_parent (dummy T) fs) = Some T'"
    "zrep T' fs (Nd z ASSOC_RED key val Lf Lf)" "keeps (set (paddrs fs)) T T'"
proof (cases fs)
  case Nil
  let ?T = "T\<lparr>root := z\<rparr>"
  have "attach T key z (path_parent (dummy T) fs) = Some ?T" using Nil by (simp add: attach_def)
  moreover have "zrep ?T fs (Nd z ASSOC_RED key val Lf Lf)"
    using z fresh hz Nil by (simp add: zrep_def)
  moreover have "keeps (set (paddrs fs)) T ?T" by (simp add: keeps_def)
  ultimately show thesis using that by blast
next
  case (Cons f gs)
  obtain s a c k v y where f: "f = Fr s a c k v y" by (cases f)
  let ?T = "T\<lparr>heap := (heap T)(a \<mapsto> cell s c k v (path_parent (dummy T) gs) z (ptr (dummy T) y))\<rparr>"
  have n: "heap T a = Some (cell s c k v (path_parent (dummy T) gs) (dummy T) (ptr (dummy T) y))" "a \<noteq> dummy T"
    using z Cons f by (auto simp: zrep_def)
  have "(cmp key k = 1) = (s = L)" using path Cons f by (simp add: on_path_def)
  then have sd: "(if cmp key k = 1 then L else R) = s" by (cases s) auto
  have "comp_fn T key k = Some (cmp key k)" using agree Cons f by (cases s) auto
  then have "attach T key z (path_parent (dummy T) fs) = Some ?T"
    using Cons f n sd by (simp add: attach_def comp_key_def get_def set_child_of_def put_Some)
  moreover have "zrep ?T fs (Nd z ASSOC_RED key val Lf Lf)"
    using z fresh hz Cons f n by (auto simp: zrep_def)
  moreover have "keeps (set (paddrs fs)) T ?T" using Cons f by (simp add: keeps_def)
  ultimately show thesis using that by blast
qed

text \<open>A tree in the heap holds the entries \<open>es\<close>, whose keys satisfy \<open>vkey\<close>; on such keys its
  comparison function does not abort and computes \<open>cmp\<close>.\<close>
definition agrees ::
  "('k, 'v) assoc_rb_tree \<Rightarrow> ('k \<Rightarrow> bool) \<Rightarrow> ('k \<Rightarrow> 'k \<Rightarrow> int) \<Rightarrow> bool"
where
  "agrees T vkey cmp \<longleftrightarrow> (\<forall>a b. vkey a \<longrightarrow> vkey b \<longrightarrow> comp_fn T a b = Some (cmp a b))"

definition rb_rep ::
  "('k \<Rightarrow> bool) \<Rightarrow> ('k \<Rightarrow> 'k \<Rightarrow> int) \<Rightarrow> ('k, 'v) assoc_rb_tree \<Rightarrow> ('k, 'v) entry list \<Rightarrow> bool"
where
  "rb_rep vkey cmp T es \<longleftrightarrow> (\<exists>t. zrep T [] t \<and> is_rbt t \<and> entries t = es) \<and>
     tree_size T = length es \<and> ordered cmp es \<and> (\<forall>e \<in> set es. vkey (entry_key e)) \<and> agrees T vkey cmp"

lemma zaddrs_entries: "zaddrs [] t = fst ` set (entries t)"
  by (simp add: zaddrs_def addrs_entries)

lemma ins_path_addrs: "set (paddrs (ins_path cmp key t [])) = set (addrs t)"
  using set_addrs_plug[of "ins_path cmp key t []" Lf] by (simp add: plug_ins_path)

lemma insert_code:
  "assoc_rb_tree_insert z tree key ksz val = do {
     c_assert (key_sz tree = ksz);
     c_assert (z \<noteq> 0);
     c_assert (z \<noteq> dummy tree);
     let tree = create_node_rb_tree tree z (Some key) (Some val);
     y \<leftarrow> insert_descend tree (Some key) (root tree) (dummy tree);
     tree \<leftarrow> set_parent tree z y;
     tree \<leftarrow> attach tree key z y;
     tree \<leftarrow> insert_fixup tree z;
     Some (tree\<lparr>tree_size := tree_size tree + 1\<rparr>)
   }"
  by (simp add: assoc_rb_tree_insert_def attach_def)

lemma repr_alloc: "repr h d p t \<Longrightarrow> b \<in> set (addrs t) \<Longrightarrow> h b \<noteq> None"
  by (induction t arbitrary: p) auto

context comparator
begin

lemma insert_zrep:
  assumes agree: "\<forall>e \<in> set (entries t). comp_fn T key (entry_key e) = Some (cmp key (entry_key e))"
    and z: "zrep T [] t" and t: "is_rbt t" and ord: "ordered cmp (entries t)" and ks: "key_sz T = ksz"
    and fresh: "a \<notin> set (addrs t)" "a \<noteq> dummy T" "a \<noteq> 0"
  obtains T1 T2 t' where "assoc_rb_tree_insert a T key ksz val = Some (T2\<lparr>tree_size := tree_size T2 + 1\<rparr>)"
    "zrep T2 [] t'" "is_rbt t'" "entries t' = ins_entry cmp (a, key, val) (entries t)"
    "ordered cmp (entries t')" "keeps (insert a (set (addrs t))) T T2"
proof -
  let ?A = "insert a (set (addrs t))"
  define fs where "fs = ins_path cmp key t []"
  define T0 where "T0 = create_node_rb_tree T a (Some key) (Some val)"
  have pa: "set (paddrs fs) = set (addrs t)" by (simp add: fs_def ins_path_addrs)
  have k0: "keeps {a} T T0" by (simp add: T0_def create_node_rb_tree_def keeps_def)
  have "root T0 = root T" by (simp add: T0_def create_node_rb_tree_def)
  with zrep_keeps[OF z k0] fresh have z0: "zrep T0 [] t" by (simp add: zaddrs_def)
  have d0: "dummy T0 = dummy T" "comp_fn T0 = comp_fn T" using k0 by (simp_all add: keeps_def)
  have "insert_descend T0 (Some key) (root T0) (dummy T0) = Some (path_parent (dummy T0) fs)"
    using insert_descend_zrep[OF z0, of key cmp] agree zrep_root[OF z0] d0 by (simp add: fs_def)
  moreover define T1 where "T1 = T0\<lparr>heap := (heap T0)(a \<mapsto>
    cell L ASSOC_RED key val (path_parent (dummy T) fs) (dummy T) (dummy T))\<rparr>"
  have "set_parent T0 a (path_parent (dummy T0) fs) = Some T1"
    by (simp add: set_parent_def put_def get_def T1_def T0_def create_node_rb_tree_def init_node_def cell_def)
  moreover have k1: "keeps {a} T0 T1" by (simp add: T1_def keeps_def)
  have d1: "dummy T1 = dummy T" "comp_fn T1 = comp_fn T" using k1 d0 by (simp_all add: keeps_def)
  have "zrep T0 fs Lf" using z0 zrep_whole[of T0 fs Lf] by (simp add: fs_def plug_ins_path)
  with zrep_keeps[OF _ k1, of fs Lf] fresh pa d0 have z1: "zrep T1 fs Lf" by (simp add: zaddrs_def T1_def)
  have h1: "heap T1 a = Some (cell L ASSOC_RED key val (path_parent (dummy T1) fs) (dummy T1) (dummy T1))"
    by (simp add: T1_def T0_def create_node_rb_tree_def)
  have op: "list_all (on_path cmp key) fs" by (simp add: fs_def ins_path_on_path)
  have "entries t = pleft fs @ pright fs"
    using entries_plug[of fs Lf] by (simp add: fs_def plug_ins_path)
  then have ag: "\<forall>e \<in> set (pleft fs @ pright fs). comp_fn T1 key (entry_key e) = Some (cmp key (entry_key e))"
    using agree d1 by simp
  obtain T2 where T2: "attach T1 key a (path_parent (dummy T1) fs) = Some T2"
    "zrep T2 fs (Nd a ASSOC_RED key val Lf Lf)" "keeps (set (paddrs fs)) T1 T2"
    using attach_zrep[OF z1 _ _ _ h1 op ag] fresh pa d1 by metis
  obtain fs' z' where fx: "ins_fix fs (Nd a ASSOC_RED key val Lf Lf) = (fs', z')" by fastforce
  have nl: "z' \<noteq> Lf" using ins_fix_not_Lf[OF fx] by simp
  have tb: "top_black fs" using t by (simp add: fs_def is_rbt_def top_black_ins_path)
  obtain T3 where T3: "insert_fixup T2 (ptr (dummy T2) (Nd a ASSOC_RED key val Lf Lf)) = Some T3"
    "zrep T3 [] (paint ASSOC_BLACK (plug fs' z'))"
    "keeps (zaddrs fs (Nd a ASSOC_RED key val Lf Lf) \<union> zaddrs fs' z') T2 T3"
    using insert_fixup_zrep[OF T2(2) _ tb fx nl] by blast
  have pf: "plug fs Lf = t" by (simp add: fs_def plug_ins_path)
  have et: "entries t = pleft fs @ pright fs" using entries_plug[of fs Lf] pf by simp
  have en: "entries (plug fs' z') = pleft fs @ (a, key, val) # pright fs"
    using ins_fix_entries[OF fx] by (simp add: entries_plug)
  have bnd: "\<forall>x \<in> set (pleft fs). cmp (entry_key (a, key, val)) (entry_key x) \<noteq> 1"
    "\<forall>y \<in> set (pright fs). cmp (entry_key (a, key, val)) (entry_key y) = 1"
    using on_path_bounds[of key fs] op d1 ord et by simp_all
  have ins: "entries (plug fs' z') = ins_entry cmp (a, key, val) (entries t)"
    unfolding en et by (rule ins_entry_split[symmetric, OF _ bnd]) (use ord et in simp)
  have ord': "ordered cmp (entries (plug fs' z'))"
    unfolding en by (rule ordered_ins[OF _ bnd]) (use ord et in simp)
  have "balanced t" "no_red_red t" using t by (simp_all add: is_rbt_def)
  then have "pbal 0 fs" "pcol ASSOC_BLACK fs"
    using balanced_plug[of fs Lf] no_red_red_plug[of fs Lf] pf by simp_all
  with ins_fix_inv[OF fx] tb have rb: "is_rbt (paint ASSOC_BLACK (plug fs' z'))" by (simp add: is_rbt_def)
  have "set (addrs (plug fs' z')) = ?A"
    unfolding addrs_entries en using et addrs_entries[of t] by auto
  then have "zaddrs fs' z' = ?A" by (simp add: set_addrs_plug zaddrs_def)
  then have "keeps ?A T2 T3" using T3(3) pa by (auto simp: zaddrs_def elim: keeps_mono)
  moreover have "keeps ?A T T0" "keeps ?A T0 T1" "keeps ?A T1 T2"
    using k0 k1 T2(3) pa by (auto elim: keeps_mono)
  ultimately have kk: "keeps ?A T T3" using keeps_trans by metis
  have "assoc_rb_tree_insert a T key ksz val = Some (T3\<lparr>tree_size := tree_size T3 + 1\<rparr>)"
    unfolding insert_code using ks fresh \<open>insert_descend T0 _ _ _ = _\<close> \<open>set_parent T0 _ _ = _\<close> T2(1) T3(1) d0 d1
    by (simp flip: T0_def)
  then show thesis using that[of T3 "paint ASSOC_BLACK (plug fs' z')"] T3(2) rb ins ord' kk by simp
qed

text \<open>Insertion, seen from outside; the last fact is that other memory stays as it is.\<close>
lemma insert_rep_frame:
  assumes r: "rb_rep vkey cmp T es" and vkey: "vkey key" and ks: "key_sz T = ksz"
    and fresh: "heap T a = None" "a \<noteq> 0"
  obtains T' where "assoc_rb_tree_insert a T key ksz val = Some T'"
    "rb_rep vkey cmp T' (ins_entry cmp (a, key, val) es)" "dummy T' = dummy T"
    "comp_fn T' = comp_fn T" "key_sz T' = ksz" "has_free_func T' = has_free_func T"
    "\<forall>b. heap T b = None \<longrightarrow> b \<noteq> a \<longrightarrow> heap T' b = None"
proof -
  obtain t where t: "zrep T [] t" "is_rbt t" "entries t = es" "tree_size T = length es" "ordered cmp es"
    "\<forall>e \<in> set es. vkey (entry_key e)" and ag: "agrees T vkey cmp" using r by (auto simp: rb_rep_def)
  have "heap T b \<noteq> None" if "b \<in> insert (dummy T) (set (addrs t))" for b
    using that t(1) repr_alloc[of "heap T" "dummy T" "dummy T" t] by (auto simp: zrep_def)
  then have fr: "a \<notin> set (addrs t)" "a \<noteq> dummy T" using fresh by blast+
  have "\<forall>e \<in> set (entries t). comp_fn T key (entry_key e) = Some (cmp key (entry_key e))"
    using ag vkey t(3,6) by (auto simp: agrees_def)
  from insert_zrep[OF this t(1,2) _ ks fr fresh(2), of val] t obtain T2 t' where
    T2: "assoc_rb_tree_insert a T key ksz val = Some (T2\<lparr>tree_size := tree_size T2 + 1\<rparr>)"
    "zrep T2 [] t'" "is_rbt t'" "entries t' = ins_entry cmp (a, key, val) (entries t)"
    "ordered cmp (entries t')" "keeps (insert a (set (addrs t))) T T2" by metis
  let ?T = "T2\<lparr>tree_size := tree_size T2 + 1\<rparr>"
  have "length (ins_entry cmp (a, key, val) es) = Suc (length es)" by (rule length_ins_entry)
  moreover have "zrep ?T [] t'" using T2(2) by (simp add: zrep_def)
  moreover have "\<forall>e \<in> set (ins_entry cmp (a, key, val) es). vkey (entry_key e)"
    using t(6) vkey by (auto simp: ins_entry_def dest: set_takeWhileD set_dropWhileD)
  moreover have "agrees ?T vkey cmp" using ag T2(6) by (simp add: agrees_def keeps_def)
  ultimately have "rb_rep vkey cmp ?T (ins_entry cmp (a, key, val) es)"
    unfolding rb_rep_def using T2(3-6) t(3,4) by (auto simp: keeps_def)
  moreover have "heap ?T b = None" if "heap T b = None" "b \<noteq> a" for b
  proof -
    have "repr (heap T) (dummy T) (dummy T) t" using t(1) by (simp add: zrep_def)
    then have "b \<notin> set (addrs t)" using that(1) repr_alloc by metis
    with that T2(6) show ?thesis by (simp add: keeps_def)
  qed
  ultimately show thesis using that[OF T2(1)] T2(6) ks by (simp add: keeps_def)
qed

lemma insert_rep:
  assumes r: "rb_rep vkey cmp T es" and vkey: "vkey key" and ks: "key_sz T = ksz"
    and fresh: "heap T a = None" "a \<noteq> 0"
  obtains T' where "assoc_rb_tree_insert a T key ksz val = Some T'"
    "rb_rep vkey cmp T' (ins_entry cmp (a, key, val) es)" "dummy T' = dummy T"
    "comp_fn T' = comp_fn T" "key_sz T' = ksz" "has_free_func T' = has_free_func T"
  using insert_rep_frame[OF assms, of val] by metis

end

end
