(* ===== verification/Identifiers.thy ===== *)
theory Identifiers
  imports Rb_Map
begin

text \<open>
  The identifiers the controller, the agents and the xApps key their tables with, and the comparison
  functions on them: src/util/compare.h, src/util/ngran_types.h, the type files ric_gen_id,
  e2ap_plmn, e2ap_gnb_id and e2ap_global_node_id, src/lib/ep/sctp_msg.c, src/lib/pending_events.c,
  src/lib/pending_event_ric.c, and the identifiers of src/ric/iApp.

  The comparison functions return 1, 0 or -1; those that assert something of their arguments
  return \<^term>\<open>None\<close> where the assertion fails.  Each is shown to be a total order up to
  equal keys (locale \<open>comparator\<close>), which is what the red-black tree relies on.
\<close>

section \<open>Building comparison functions\<close>

definition cmp_on :: "('a \<Rightarrow> 'b::linorder) \<Rightarrow> 'a \<Rightarrow> 'a \<Rightarrow> int" where
  "cmp_on f a b = (if f a < f b then 1 else if f b < f a then - 1 else 0)"

definition cmp_rev :: "('a \<Rightarrow> 'a \<Rightarrow> int) \<Rightarrow> 'a \<Rightarrow> 'a \<Rightarrow> int" where
  "cmp_rev c a b = - c a b"

definition cmp_lex :: "('a \<Rightarrow> 'a \<Rightarrow> int) \<Rightarrow> ('a \<Rightarrow> 'a \<Rightarrow> int) \<Rightarrow> 'a \<Rightarrow> 'a \<Rightarrow> int" where
  "cmp_lex c d a b = (if c a b \<noteq> 0 then c a b else d a b)"

lemma cmp_on_eq_0 [simp]: "cmp_on f a b = 0 \<longleftrightarrow> f a = f b"
  by (auto simp: cmp_on_def)

lemma cmp_rev_eq_0 [simp]: "cmp_rev c a b = 0 \<longleftrightarrow> c a b = 0"
  by (simp add: cmp_rev_def)

lemma cmp_lex_eq_0 [simp]: "cmp_lex c d a b = 0 \<longleftrightarrow> c a b = 0 \<and> d a b = 0"
  by (simp add: cmp_lex_def)

lemma comparator_on: "comparator (cmp_on f)"
  by unfold_locales (auto simp: cmp_on_def split: if_splits)

lemma comparator_rev: "comparator c \<Longrightarrow> comparator (cmp_rev c)"
proof -
  assume c: "comparator c"
  have t: "c a x = 1" if "c a b = 1" "c b x = 1" for a b x using comparator.cmp_trans[OF c] that .
  have s: "c b a = - c a b" for a b using comparator.cmp_swap[OF c] .
  show ?thesis
  proof
    show "cmp_rev c a b = 1 \<or> cmp_rev c a b = 0 \<or> cmp_rev c a b = - 1" for a b
      using comparator.cmp_range[OF c, of a b] by (auto simp: cmp_rev_def)
    show "cmp_rev c b a = - cmp_rev c a b" for a b using s[of b a] by (simp add: cmp_rev_def)
    show "cmp_rev c a x = 1" if "cmp_rev c a b = 1" "cmp_rev c b x = 1" for a b x
      using that t[of x b a] s[of a b] s[of b x] s[of a x] by (simp add: cmp_rev_def)
    show "cmp_rev c a x = cmp_rev c b x" if "cmp_rev c a b = 0" for a b x
      using that comparator.cmp_cong[OF c, of a b x] by (simp add: cmp_rev_def)
  qed
qed

lemma comparator_lex: "comparator c \<Longrightarrow> comparator d \<Longrightarrow> comparator (cmp_lex c d)"
proof -
  assume c: "comparator c" and d: "comparator d"
  note sc = comparator.cmp_swap[OF c] and sd = comparator.cmp_swap[OF d]
  show ?thesis
  proof
    show "cmp_lex c d a b = 1 \<or> cmp_lex c d a b = 0 \<or> cmp_lex c d a b = - 1" for a b
      using comparator.cmp_range[OF c, of a b] comparator.cmp_range[OF d, of a b] by (auto simp: cmp_lex_def)
    show "cmp_lex c d b a = - cmp_lex c d a b" for a b using sc[of a b] sd[of a b] by (simp add: cmp_lex_def)
    show "cmp_lex c d a x = 1" if h: "cmp_lex c d a b = 1" "cmp_lex c d b x = 1" for a b x
    proof -
      consider "c a b = 1" "c b x = 1" | "c a b = 1" "c b x = 0" | "c a b = 0" "c b x = 1"
        | "c a b = 0" "c b x = 0" "d a b = 1" "d b x = 1"
        using h unfolding cmp_lex_def by (metis one_neq_zero)
      then show ?thesis
      proof cases
        case 1
        then show ?thesis using comparator.cmp_trans[OF c 1] by (simp add: cmp_lex_def)
      next
        case 2
        then show ?thesis using comparator.cmp_cong2[OF c 2(2), of a] by (simp add: cmp_lex_def)
      next
        case 3
        then show ?thesis using comparator.cmp_cong[OF c 3(1), of x] by (simp add: cmp_lex_def)
      next
        case 4
        then show ?thesis using comparator.cmp_cong[OF c 4(1), of x] comparator.cmp_trans[OF d 4(3,4)]
          by (simp add: cmp_lex_def)
      qed
    qed
    show "cmp_lex c d a x = cmp_lex c d b x" if "cmp_lex c d a b = 0" for a b x
    proof -
      have "c a b = 0" "d a b = 0" using that by simp_all
      then show ?thesis using comparator.cmp_cong[OF c, of a b x] comparator.cmp_cong[OF d, of a b x]
        by (simp add: cmp_lex_def)
    qed
  qed
qed

lemmas comparator_intros = comparator_on comparator_rev comparator_lex

section \<open>File descriptors and RAN functions\<close>

definition eq_fd :: "int \<Rightarrow> int \<Rightarrow> bool option" where
  "eq_fd fd1 fd2 = do {
     c_assert (fd1 > - 1);
     c_assert (fd2 > - 1);
     Some (fd1 = fd2)
   }"

definition cmp_fd :: "int \<Rightarrow> int \<Rightarrow> int option" where
  "cmp_fd fd1 fd2 = do {
     c_assert (fd1 > - 1);
     c_assert (fd2 > - 1);
     if fd1 < fd2 then Some 1
     else if fd1 = fd2 then Some 0
     else Some (- 1)
   }"


definition eq_ran_func_id :: "uint16 \<Rightarrow> uint16 \<Rightarrow> bool" where
  "eq_ran_func_id a b = (a = b)"

definition cmp_ran_func_id :: "uint16 \<Rightarrow> uint16 \<Rightarrow> int" where
  "cmp_ran_func_id a b = (if a < b then 1 else if a = b then 0 else - 1)"

section \<open>RIC request identifiers\<close>

record ric_gen_id =
  ric_req_id :: uint32
  ric_inst_id :: uint16
  ran_func_id :: uint16

definition eq_ric_gen_id :: "ric_gen_id \<Rightarrow> ric_gen_id \<Rightarrow> bool" where
  "eq_ric_gen_id m0 m1 \<longleftrightarrow>
     ric_req_id m0 = ric_req_id m1 \<and> ric_inst_id m0 = ric_inst_id m1 \<and> ran_func_id m0 = ran_func_id m1"

definition cmp_ric_gen_id :: "ric_gen_id \<Rightarrow> ric_gen_id \<Rightarrow> int" where
  "cmp_ric_gen_id m0 m1 =
    (if ran_func_id m0 < ran_func_id m1 then 1
     else if ran_func_id m0 > ran_func_id m1 then - 1
     else if ric_inst_id m0 < ric_inst_id m1 then 1
     else if ric_inst_id m0 > ric_inst_id m1 then - 1
     else if ric_req_id m0 < ric_req_id m1 then 1
     else if ric_req_id m0 > ric_req_id m1 then - 1
     else 0)"

record xapp_ric_id =
  x_ric_id :: ric_gen_id
  xapp_id :: uint16

definition cmp_xapp_ric_gen_id :: "xapp_ric_id \<Rightarrow> xapp_ric_id \<Rightarrow> int" where
  "cmp_xapp_ric_gen_id m0 m1 =
    (if xapp_id m0 < xapp_id m1 then 1
     else if xapp_id m0 > xapp_id m1 then - 1
     else cmp_ric_gen_id (x_ric_id m0) (x_ric_id m1))"

definition eq_xapp_id :: "uint16 \<Rightarrow> uint16 \<Rightarrow> bool" where
  "eq_xapp_id m0 m1 = (if m0 \<noteq> m1 then False else True)"

text \<open>As in the source, the first operand's xApp is compared with itself.\<close>
definition eq_xapp_ric_gen_id :: "xapp_ric_id \<Rightarrow> xapp_ric_id \<Rightarrow> bool" where
  "eq_xapp_ric_gen_id m0 m1 =
    (if eq_xapp_id (xapp_id m0) (xapp_id m0) = False then False
     else eq_ric_gen_id (x_ric_id m0) (x_ric_id m1))"

definition eq_xapp_ric_gen_id2 :: "xapp_ric_id \<Rightarrow> xapp_ric_id \<Rightarrow> bool" where
  "eq_xapp_ric_gen_id2 m0 m1 = (xapp_id m0 = xapp_id m1)"

section \<open>E2 nodes\<close>

datatype ngran_node = ngran_eNB | ngran_ng_eNB | ngran_gNB | ngran_eNB_CU | ngran_ng_eNB_CU | ngran_gNB_CU
  | ngran_eNB_DU | ngran_gNB_DU | ngran_eNB_MBMS_STA | ngran_gNB_CUCP | ngran_gNB_CUUP

fun ngran_val :: "ngran_node \<Rightarrow> nat" where
  "ngran_val ngran_eNB = 0"
| "ngran_val ngran_ng_eNB = 1"
| "ngran_val ngran_gNB = 2"
| "ngran_val ngran_eNB_CU = 3"
| "ngran_val ngran_ng_eNB_CU = 4"
| "ngran_val ngran_gNB_CU = 5"
| "ngran_val ngran_eNB_DU = 6"
| "ngran_val ngran_gNB_DU = 7"
| "ngran_val ngran_eNB_MBMS_STA = 8"
| "ngran_val ngran_gNB_CUCP = 9"
| "ngran_val ngran_gNB_CUUP = 10"

lemma ngran_val_inj: "ngran_val m = ngran_val n \<Longrightarrow> m = n"
  by (cases m; cases n) simp_all

text \<open>The order of the enumeration.\<close>
instantiation ngran_node :: linorder
begin

definition less_eq_ngran_node :: "ngran_node \<Rightarrow> ngran_node \<Rightarrow> bool" where
  "less_eq_ngran_node m n \<longleftrightarrow> ngran_val m \<le> ngran_val n"

definition less_ngran_node :: "ngran_node \<Rightarrow> ngran_node \<Rightarrow> bool" where
  "less_ngran_node m n \<longleftrightarrow> ngran_val m < ngran_val n"

instance
  by standard (auto simp: less_eq_ngran_node_def less_ngran_node_def intro: ngran_val_inj)

end

definition NODE_IS_MONOLITHIC :: "ngran_node \<Rightarrow> bool" where
  "NODE_IS_MONOLITHIC t \<longleftrightarrow> t = ngran_eNB \<or> t = ngran_ng_eNB \<or> t = ngran_gNB"

definition NODE_IS_CU :: "ngran_node \<Rightarrow> bool" where
  "NODE_IS_CU t \<longleftrightarrow> t = ngran_eNB_CU \<or> t = ngran_ng_eNB_CU \<or> t = ngran_gNB_CU \<or> t = ngran_gNB_CUCP \<or>
     t = ngran_gNB_CUUP"

definition NODE_IS_DU :: "ngran_node \<Rightarrow> bool" where
  "NODE_IS_DU t \<longleftrightarrow> t = ngran_eNB_DU \<or> t = ngran_gNB_DU"

definition NODE_IS_MBMS :: "ngran_node \<Rightarrow> bool" where
  "NODE_IS_MBMS t \<longleftrightarrow> t = ngran_eNB_MBMS_STA"

definition NODE_IS_CUUP :: "ngran_node \<Rightarrow> bool" where
  "NODE_IS_CUUP t \<longleftrightarrow> t = ngran_gNB_CUUP"

record e2ap_plmn =
  mcc :: uint16
  mnc :: uint16
  mnc_digit_len :: uint8

definition cp_e2ap_plmn :: "e2ap_plmn \<Rightarrow> e2ap_plmn" where
  "cp_e2ap_plmn src = \<lparr>mcc = mcc src, mnc = mnc src, mnc_digit_len = mnc_digit_len src\<rparr>"

definition eq_e2ap_plmn :: "e2ap_plmn \<Rightarrow> e2ap_plmn \<Rightarrow> bool" where
  "eq_e2ap_plmn m0 m1 =
    (if mcc m0 \<noteq> mcc m1 then False
     else if mnc m0 \<noteq> mnc m1 then False
     else if mnc_digit_len m0 \<noteq> mnc_digit_len m1 then False
     else True)"

definition cmp_e2ap_plmn :: "e2ap_plmn \<Rightarrow> e2ap_plmn \<Rightarrow> int" where
  "cmp_e2ap_plmn m0 m1 =
    (if mcc m0 < mcc m1 then - 1
     else if mcc m0 > mcc m1 then 1
     else if mnc m0 < mnc m1 then - 1
     else if mnc m0 > mnc m1 then 1
     else if mnc_digit_len m0 < mnc_digit_len m1 then - 1
     else if mnc_digit_len m0 > mnc_digit_len m1 then 1
     else 0)"

record e2ap_gnb_id =
  nb_id :: uint32
  unused :: uint32

definition eq_e2ap_gnb_id :: "e2ap_gnb_id \<Rightarrow> e2ap_gnb_id \<Rightarrow> bool" where
  "eq_e2ap_gnb_id m0 m1 =
    (if nb_id m0 \<noteq> nb_id m1 then False
     else if unused m0 \<noteq> unused m1 then False
     else True)"

record global_e2_node_id =
  node_type :: ngran_node
  plmn :: e2ap_plmn
  g_nb_id :: e2ap_gnb_id
  cu_du_id :: "uint64 option"

text \<open>Comparison of two nodes that are not the same object.\<close>
definition eq_global_e2_node_id :: "global_e2_node_id \<Rightarrow> global_e2_node_id \<Rightarrow> bool option" where
  "eq_global_e2_node_id m0 m1 =
    (if node_type m0 \<noteq> node_type m1 then Some False
     else if eq_e2ap_plmn (plmn m0) (plmn m1) = False then Some False
     else if eq_e2ap_gnb_id (g_nb_id m0) (g_nb_id m1) = False then Some False
     else if NODE_IS_CUUP (node_type m0) \<or> NODE_IS_DU (node_type m0) then do {
       i0 \<leftarrow> cu_du_id m0;
       i1 \<leftarrow> cu_du_id m1;
       if i0 \<noteq> i1 then Some False else Some True
     }
     else Some True)"

definition cp_global_e2_node_id :: "global_e2_node_id \<Rightarrow> global_e2_node_id" where
  "cp_global_e2_node_id src =
    \<lparr>node_type = node_type src, plmn = cp_e2ap_plmn (plmn src), g_nb_id = g_nb_id src,
     cu_du_id = (case cu_du_id src of None \<Rightarrow> None | Some i \<Rightarrow> Some i)\<rparr>"

definition cmp_global_e2_node_id :: "global_e2_node_id \<Rightarrow> global_e2_node_id \<Rightarrow> int option" where
  "cmp_global_e2_node_id m0 m1 =
    (if node_type m0 < node_type m1 then Some (- 1)
     else if node_type m0 > node_type m1 then Some 1
     else let rc = cmp_e2ap_plmn (plmn m0) (plmn m1) in
       if rc \<noteq> 0 then Some rc
       else if nb_id (g_nb_id m0) < nb_id (g_nb_id m1) then Some (- 1)
       else if nb_id (g_nb_id m0) > nb_id (g_nb_id m1) then Some 1
       else if unused (g_nb_id m0) < unused (g_nb_id m1) then Some 1
       else if unused (g_nb_id m0) > unused (g_nb_id m1) then Some (- 1)
       else if NODE_IS_CU (node_type m0) \<or> NODE_IS_CUUP (node_type m0) \<or> NODE_IS_DU (node_type m0) then do {
         i0 \<leftarrow> cu_du_id m0;
         i1 \<leftarrow> cu_du_id m1;
         if i0 < i1 then Some (- 1) else if i0 > i1 then Some 1 else Some 0
       }
       else Some 0)"

section \<open>Requests that the controller forwards\<close>

datatype ric_request_type = SUBSCRIPTION_RIC_REQUEST_TYPE | CONTROL_RIC_REQUEST_TYPE

record e2_node_ric_id =
  e2_node_id :: global_e2_node_id
  e_ric_id :: ric_gen_id
  ric_req_type :: ric_request_type

definition cp_e2_node_ric_id :: "e2_node_ric_id \<Rightarrow> e2_node_ric_id" where
  "cp_e2_node_ric_id src =
    \<lparr>e2_node_id = cp_global_e2_node_id (e2_node_id src), e_ric_id = e_ric_id src,
     ric_req_type = ric_req_type src\<rparr>"

definition cmp_uint32 :: "uint32 \<Rightarrow> uint32 \<Rightarrow> int" where
  "cmp_uint32 m0 m1 = (if m0 < m1 then - 1 else if m0 = m1 then 0 else 1)"

definition cmp_e2_node_ric_req_wrapper :: "e2_node_ric_id \<Rightarrow> e2_node_ric_id \<Rightarrow> int" where
  "cmp_e2_node_ric_req_wrapper m0 m1 = cmp_uint32 (ric_req_id (e_ric_id m0)) (ric_req_id (e_ric_id m1))"

definition eq_e2_node_ric_req :: "e2_node_ric_id \<Rightarrow> e2_node_ric_id \<Rightarrow> bool" where
  "eq_e2_node_ric_req m0 m1 = (ric_req_id (e_ric_id m0) = ric_req_id (e_ric_id m1))"

definition cmp_uint16_wrapper :: "uint16 \<Rightarrow> uint16 \<Rightarrow> int" where
  "cmp_uint16_wrapper m0 m1 = (if m0 < m1 then 1 else if m0 > m1 then - 1 else 0)"

definition eq_uint16_wrapper :: "uint16 \<Rightarrow> uint16 \<Rightarrow> bool" where
  "eq_uint16_wrapper m0 m1 = (m0 = m1)"

section \<open>Peers of the SCTP end point\<close>

record sockaddr_in =
  sin_family :: uint16
  sin_port :: uint16
  s_addr :: uint32

record sctp_sndrcvinfo =
  sinfo_stream :: uint16
  sinfo_ssn :: uint16
  sinfo_flags :: uint16
  sinfo_ppid :: uint32
  sinfo_context :: uint32
  sinfo_timetolive :: uint32
  sinfo_tsn :: uint32
  sinfo_cumtsn :: uint32
  sinfo_assoc_id :: int

record sctp_info =
  si_addr :: sockaddr_in
  si_sri :: sctp_sndrcvinfo

definition cmp_sockaddr_in :: "sockaddr_in \<Rightarrow> sockaddr_in \<Rightarrow> int" where
  "cmp_sockaddr_in m0 m1 =
    (if sin_port m0 < sin_port m1 then 1
     else if sin_port m0 > sin_port m1 then - 1
     else if s_addr m0 < s_addr m1 then 1
     else if s_addr m0 > s_addr m1 then - 1
     else if sin_family m0 < sin_family m1 then 1
     else if sin_family m0 > sin_family m1 then - 1
     else 0)"

definition cmp_sctp_sndrcvinfo :: "sctp_sndrcvinfo \<Rightarrow> sctp_sndrcvinfo \<Rightarrow> int" where
  "cmp_sctp_sndrcvinfo m0 m1 = 0"

text \<open>The wrapper takes pointers and accepts null.\<close>
definition cmp_sctp_info_wrapper :: "sctp_info option \<Rightarrow> sctp_info option \<Rightarrow> int" where
  "cmp_sctp_info_wrapper m0_v m1_v =
    (case (m0_v, m1_v) of
       (None, None) \<Rightarrow> 0
     | (None, Some _) \<Rightarrow> 1
     | (Some _, None) \<Rightarrow> - 1
     | (Some m0, Some m1) \<Rightarrow>
         let c = cmp_sockaddr_in (si_addr m0) (si_addr m1) in
         if c \<noteq> 0 then c else cmp_sctp_sndrcvinfo (si_sri m0) (si_sri m1))"

definition eq_sctp_info_wrapper :: "sctp_info option \<Rightarrow> sctp_info option \<Rightarrow> bool" where
  "eq_sctp_info_wrapper m0 m1 = (cmp_sctp_info_wrapper m0 m1 = 0)"

section \<open>Pending events\<close>

datatype pending_event = SETUP_REQUEST_PENDING_EVENT | SUBSCRIPTION_REQUEST_PENDING_EVENT
  | SUBSCRIPTION_DELETE_REQUEST_PENDING_EVENT | CONTROL_REQUEST_PENDING_EVENT
  | E42_SETUP_REQUEST_PENDING_EVENT | E42_RIC_SUBSCRIPTION_REQUEST_PENDING_EVENT
  | RIC_SUBSCRIPTION_DELETE_REQUEST_PENDING_EVENT | E42_RIC_SUBSCRIPTION_DELETE_REQUEST_PENDING_EVENT
  | E42_RIC_CONTROL_REQUEST_PENDING_EVENT

fun pending_event_val :: "pending_event \<Rightarrow> nat" where
  "pending_event_val SETUP_REQUEST_PENDING_EVENT = 0"
| "pending_event_val SUBSCRIPTION_REQUEST_PENDING_EVENT = 1"
| "pending_event_val SUBSCRIPTION_DELETE_REQUEST_PENDING_EVENT = 2"
| "pending_event_val CONTROL_REQUEST_PENDING_EVENT = 3"
| "pending_event_val E42_SETUP_REQUEST_PENDING_EVENT = 4"
| "pending_event_val E42_RIC_SUBSCRIPTION_REQUEST_PENDING_EVENT = 5"
| "pending_event_val RIC_SUBSCRIPTION_DELETE_REQUEST_PENDING_EVENT = 6"
| "pending_event_val E42_RIC_SUBSCRIPTION_DELETE_REQUEST_PENDING_EVENT = 7"
| "pending_event_val E42_RIC_CONTROL_REQUEST_PENDING_EVENT = 8"

lemma pending_event_val_inj: "pending_event_val m = pending_event_val n \<Longrightarrow> m = n"
  by (cases m; cases n) simp_all

instantiation pending_event :: linorder
begin

definition less_eq_pending_event :: "pending_event \<Rightarrow> pending_event \<Rightarrow> bool" where
  "less_eq_pending_event m n \<longleftrightarrow> pending_event_val m \<le> pending_event_val n"

definition less_pending_event :: "pending_event \<Rightarrow> pending_event \<Rightarrow> bool" where
  "less_pending_event m n \<longleftrightarrow> pending_event_val m < pending_event_val n"

instance
  by standard (auto simp: less_eq_pending_event_def less_pending_event_def intro: pending_event_val_inj)

end

definition cmp_pending_event :: "pending_event \<Rightarrow> pending_event \<Rightarrow> int" where
  "cmp_pending_event ev1 ev2 = (if ev1 < ev2 then 1 else if ev1 = ev2 then 0 else - 1)"

definition valid_pending_event :: "pending_event \<Rightarrow> bool option" where
  "valid_pending_event ev = do {
     c_assert (ev = SETUP_REQUEST_PENDING_EVENT
       \<or> ev = SUBSCRIPTION_REQUEST_PENDING_EVENT
       \<or> ev = SUBSCRIPTION_DELETE_REQUEST_PENDING_EVENT
       \<or> ev = E42_SETUP_REQUEST_PENDING_EVENT);
     Some True
   }"

record pending_event_ric =
  p_ev :: pending_event
  p_id :: ric_gen_id

definition cmp_pending_event_ric :: "pending_event_ric \<Rightarrow> pending_event_ric \<Rightarrow> int" where
  "cmp_pending_event_ric p1 p2 =
    (let cmp_ev = cmp_pending_event (p_ev p1) (p_ev p2) in
     if cmp_ev \<noteq> 0 then cmp_ev else cmp_ric_gen_id (p_id p1) (p_id p2))"

definition eq_pending_event_ric :: "pending_event_ric \<Rightarrow> pending_event_ric \<Rightarrow> bool" where
  "eq_pending_event_ric p1 p2 = (cmp_pending_event_ric p1 p2 = 0)"

section \<open>The comparison functions are total orders\<close>

text \<open>Each comparison is a lexicographic product of the orders of its fields; the ones that assert
  are so on the arguments that satisfy the assertion.\<close>

definition valid_fd :: "int \<Rightarrow> bool" where
  "valid_fd fd \<longleftrightarrow> fd > - 1"

definition has_cu_du_id :: "global_e2_node_id \<Rightarrow> bool" where
  "has_cu_du_id m \<longleftrightarrow>
    (NODE_IS_CU (node_type m) \<or> NODE_IS_CUUP (node_type m) \<or> NODE_IS_DU (node_type m) \<longrightarrow> cu_du_id m \<noteq> None)"

definition order_plmn :: "e2ap_plmn \<Rightarrow> e2ap_plmn \<Rightarrow> int" where
  "order_plmn = cmp_lex (cmp_rev (cmp_on mcc)) (cmp_lex (cmp_rev (cmp_on mnc)) (cmp_rev (cmp_on mnc_digit_len)))"

definition distributed_id :: "global_e2_node_id \<Rightarrow> uint64" where
  "distributed_id m =
    (if NODE_IS_CU (node_type m) \<or> NODE_IS_CUUP (node_type m) \<or> NODE_IS_DU (node_type m)
     then (case cu_du_id m of None \<Rightarrow> 0 | Some i \<Rightarrow> i) else 0)"

definition order_e2_node :: "global_e2_node_id \<Rightarrow> global_e2_node_id \<Rightarrow> int" where
  "order_e2_node = cmp_lex (cmp_rev (cmp_on node_type)) (cmp_lex (\<lambda>a b. order_plmn (plmn a) (plmn b))
     (cmp_lex (cmp_rev (cmp_on (\<lambda>m. nb_id (g_nb_id m)))) (cmp_lex (cmp_on (\<lambda>m. unused (g_nb_id m)))
       (cmp_rev (cmp_on distributed_id)))))"

definition order_fd :: "int \<Rightarrow> int \<Rightarrow> int" where
  "order_fd = cmp_on (\<lambda>fd. fd)"

lemma comparator_pull: "comparator c \<Longrightarrow> comparator (\<lambda>a b. c (f a) (f b))"
  unfolding comparator_def by blast

text \<open>The lexicographic orders written as the code writes them.\<close>
lemma lex_on: "cmp_lex (cmp_on f) d a b = (if f a < f b then 1 else if f b < f a then - 1 else d a b)"
  by (simp add: cmp_lex_def cmp_on_def)

lemma lex_rev: "cmp_lex (cmp_rev (cmp_on f)) d a b = (if f a < f b then - 1 else if f b < f a then 1 else d a b)"
  by (simp add: cmp_lex_def cmp_on_def cmp_rev_def)

lemma rev_on: "cmp_rev (cmp_on f) a b = (if f a < f b then - 1 else if f b < f a then 1 else 0)"
  by (simp add: cmp_on_def cmp_rev_def)

lemmas order_unfold = lex_on lex_rev rev_on cmp_on_def

lemma if_eq_last: "(if a < b then x else if a = b then y else z) = (if a < b then x else if b < a then z else (y::int))"
  for a b :: "'a::linorder"
  by (cases a b rule: linorder_cases) auto

lemma cmp_fd_order: "valid_fd a \<Longrightarrow> valid_fd b \<Longrightarrow> cmp_fd a b = Some (order_fd a b)"
  by (auto simp: cmp_fd_def valid_fd_def order_fd_def cmp_on_def)

lemma cmp_ran_func_id_order: "cmp_ran_func_id = cmp_on (\<lambda>x. x)"
  by (intro ext) (simp only: cmp_ran_func_id_def order_unfold if_eq_last)

lemma cmp_uint16_order: "cmp_uint16_wrapper = cmp_on (\<lambda>x. x)"
  by (intro ext) (simp only: cmp_uint16_wrapper_def order_unfold)

lemma cmp_uint32_order: "cmp_uint32 = cmp_rev (cmp_on (\<lambda>x. x))"
  by (intro ext) (simp only: cmp_uint32_def order_unfold if_eq_last)

lemma cmp_ric_gen_id_order:
  "cmp_ric_gen_id = cmp_lex (cmp_on ran_func_id) (cmp_lex (cmp_on ric_inst_id) (cmp_on ric_req_id))"
  by (intro ext) (simp only: cmp_ric_gen_id_def order_unfold)

lemma cmp_xapp_ric_gen_id_order:
  "cmp_xapp_ric_gen_id = cmp_lex (cmp_on xapp_id) (\<lambda>a b. cmp_ric_gen_id (x_ric_id a) (x_ric_id b))"
  by (intro ext) (simp only: cmp_xapp_ric_gen_id_def order_unfold)

lemma cmp_e2ap_plmn_order: "cmp_e2ap_plmn = order_plmn"
  by (intro ext) (simp only: cmp_e2ap_plmn_def order_plmn_def order_unfold)

lemma cmp_sockaddr_in_order:
  "cmp_sockaddr_in = cmp_lex (cmp_on sin_port) (cmp_lex (cmp_on s_addr) (cmp_on sin_family))"
  by (intro ext) (simp only: cmp_sockaddr_in_def order_unfold)

lemma cmp_pending_event_order: "cmp_pending_event = cmp_on (\<lambda>x. x)"
  by (intro ext) (simp only: cmp_pending_event_def order_unfold if_eq_last)

lemma cmp_pending_event_ric_order:
  "cmp_pending_event_ric = cmp_lex (cmp_on p_ev) (\<lambda>a b. cmp_ric_gen_id (p_id a) (p_id b))"
  by (intro ext) (simp add: cmp_pending_event_ric_def cmp_pending_event_order cmp_lex_def cmp_on_def Let_def)

lemma cmp_global_e2_node_id_order:
  assumes "has_cu_du_id a" "has_cu_du_id b"
  shows "cmp_global_e2_node_id a b = Some (order_e2_node a b)"
proof -
  define n where "n \<longleftrightarrow> NODE_IS_CU (node_type a) \<or> NODE_IS_CUUP (node_type a) \<or> NODE_IS_DU (node_type a)"
  have tail: "(if n then do { i0 \<leftarrow> cu_du_id a; i1 \<leftarrow> cu_du_id b;
        if i0 < i1 then Some (- 1) else if i0 > i1 then Some 1 else Some 0 } else Some 0) =
      Some (cmp_rev (cmp_on distributed_id) a b)" if ty: "node_type a = node_type b"
  proof (cases n)
    case True
    then obtain i j where ij: "cu_du_id a = Some i" "cu_du_id b = Some j"
      using assms ty unfolding has_cu_du_id_def n_def by auto
    then have "distributed_id a = i" "distributed_id b = j"
      using True ty unfolding distributed_id_def n_def by auto
    then show ?thesis using True ij by (simp add: rev_on)
  next
    case False
    then have "distributed_id a = 0" "distributed_id b = 0" using ty unfolding distributed_id_def n_def by auto
    then show ?thesis using False by (simp add: rev_on)
  qed
  show ?thesis
  proof (cases "node_type a" "node_type b" rule: linorder_cases)
    case less
    then show ?thesis by (simp add: cmp_global_e2_node_id_def order_e2_node_def lex_rev)
  next
    case greater
    then show ?thesis by (simp add: cmp_global_e2_node_id_def order_e2_node_def lex_rev)
  next
    case equal
    show ?thesis
      unfolding cmp_global_e2_node_id_def n_def[symmetric] tail[OF equal] order_e2_node_def cmp_e2ap_plmn_order
      by (simp add: equal lex_rev lex_on cmp_lex_def[of "\<lambda>a b. order_plmn (plmn a) (plmn b)"] Let_def)
  qed
qed

interpretation fd: comparator order_fd
  unfolding order_fd_def by (rule comparator_on)

interpretation ran_func: comparator cmp_ran_func_id
  unfolding cmp_ran_func_id_order by (rule comparator_on)

interpretation xapp_no: comparator cmp_uint16_wrapper
  unfolding cmp_uint16_order by (rule comparator_on)

interpretation u32: comparator cmp_uint32
  unfolding cmp_uint32_order by (intro comparator_intros)

interpretation ric_gen: comparator cmp_ric_gen_id
  unfolding cmp_ric_gen_id_order by (intro comparator_intros)

interpretation xapp_ric: comparator cmp_xapp_ric_gen_id
  unfolding cmp_xapp_ric_gen_id_order
  by (rule comparator_lex[OF comparator_on comparator_pull[OF ric_gen.comparator_axioms]])

interpretation node_ric: comparator cmp_e2_node_ric_req_wrapper
  unfolding cmp_e2_node_ric_req_wrapper_def[abs_def]
  by (rule comparator_pull[OF u32.comparator_axioms])

interpretation plmn_cmp: comparator cmp_e2ap_plmn
  unfolding cmp_e2ap_plmn_order order_plmn_def by (intro comparator_intros)

interpretation e2_node: comparator order_e2_node
  unfolding order_e2_node_def
  by (intro comparator_lex comparator_rev[OF comparator_on] comparator_on
      comparator_pull[OF plmn_cmp.comparator_axioms[unfolded cmp_e2ap_plmn_order]])

interpretation sockaddr: comparator cmp_sockaddr_in
  unfolding cmp_sockaddr_in_order by (intro comparator_intros)

interpretation pend: comparator cmp_pending_event
  unfolding cmp_pending_event_order by (rule comparator_on)

interpretation pend_ric: comparator cmp_pending_event_ric
  unfolding cmp_pending_event_ric_order
  by (rule comparator_lex[OF comparator_on comparator_pull[OF ric_gen.comparator_axioms]])

text \<open>The keys of the tables are never null.\<close>
definition cmp_sctp_info :: "sctp_info \<Rightarrow> sctp_info \<Rightarrow> int" where
  "cmp_sctp_info a b = cmp_sctp_info_wrapper (Some a) (Some b)"

lemma cmp_sctp_info_order: "cmp_sctp_info = (\<lambda>a b. cmp_sockaddr_in (si_addr a) (si_addr b))"
  by (intro ext) (simp add: cmp_sctp_info_def cmp_sctp_info_wrapper_def cmp_sctp_sndrcvinfo_def Let_def)

interpretation sctp: comparator cmp_sctp_info
  unfolding cmp_sctp_info_order by (rule comparator_pull[OF sockaddr.comparator_axioms])

end
