(* ===== verification/Slice_Codec.thy ===== *)
theory Slice_Codec
  imports Wire Identifiers
begin

text \<open>
  The plain encoding of the slice service model: src/sm/slice_sm/ie/slice_data_ie.h (the messages),
  src/sm/slice_sm/enc/slice_enc_plain.c and src/sm/slice_sm/dec/slice_dec_plain.c.

  A tagged union of the source is a datatype whose last constructor holds a tag that names no
  member.  Floating point fields are only copied and are held as their four bytes.  A pointer with its length
  is the buffer it points to, and the length.
\<close>

section \<open>Messages\<close>

record slice_event_trigger =
  se_ms :: uint32

record slice_hdr =
  sh_dummy :: uint32

record static_slice =
  pos_low :: uint32
  pos_high :: uint32

record nvs_rate =
  mbps_required :: uint32
  mbps_reference :: uint32

datatype nvs_slice = NVS_RATE nvs_rate | NVS_CAPACITY uint32 | NVS_OTHER uint32

record scn19_on_demand =
  pct_reserved :: uint32
  log_delta :: uint32
  tau :: uint32

datatype scn19_slice = SCN19_DYNAMIC nvs_rate | SCN19_FIXED static_slice | SCN19_ON_DEMAND scn19_on_demand
  | SCN19_OTHER uint32

record edf_slice =
  deadline :: uint32
  guaranteed_prbs :: uint32
  max_replenish :: uint32
  len_over :: uint32
  over :: "uint32 list"

datatype slice_params = PAR_STATIC static_slice | PAR_NVS nvs_slice | PAR_SCN19 scn19_slice | PAR_EDF edf_slice
  | PAR_OTHER uint32

record fr_slice =
  fr_id :: uint32
  len_label :: uint32
  label :: "byte list"
  len_sched :: uint32
  sched :: "byte list"
  fr_params :: slice_params

record ul_dl_slice_conf =
  len_slices :: uint32
  slices :: "fr_slice list"
  len_sched_name :: uint32
  sched_name :: "byte list"

record slice_conf =
  conf_dl :: ul_dl_slice_conf
  conf_ul :: ul_dl_slice_conf

record ue_slice_assoc =
  dl_id :: uint32
  ul_id :: uint32
  ue_rnti :: uint16

record ue_slice_conf =
  len_ue_slice :: uint32
  ues :: "ue_slice_assoc list"

record slice_ind_msg =
  si_conf :: slice_conf
  si_ue_conf :: ue_slice_conf
  si_tstamp :: uint64

record slice_ind_data =
  li_hdr :: slice_hdr
  li_msg :: slice_ind_msg
  li_proc_id :: "uint32 option"

record del_slice_conf =
  len_dl :: uint32
  del_dl :: "uint32 list"
  len_ul :: uint32
  del_ul :: "uint32 list"

datatype slice_ctrl_msg = CTRL_ADD slice_conf | CTRL_DEL del_slice_conf | CTRL_UE_ASSOC ue_slice_conf
  | CTRL_OTHER uint32

record slice_ctrl_req_data =
  lr_hdr :: slice_hdr
  lr_msg :: slice_ctrl_msg

datatype slice_ctrl_ans = SLICE_CTRL_OUT_OK | SLICE_CTRL_OUT_ERROR

record slice_ctrl_out =
  so_ans :: slice_ctrl_ans
  len_diag :: uint32
  diagnostic :: "byte list"

section \<open>Sizes\<close>

definition cal_static :: "static_slice \<Rightarrow> nat" where
  "cal_static sta = 4 + 4"

definition cal_nvs :: "nvs_slice \<Rightarrow> nat option" where
  "cal_nvs nvs = (case nvs of
       NVS_RATE r \<Rightarrow> Some (4 + 4 + 4)
     | NVS_CAPACITY c \<Rightarrow> Some (4 + 4)
     | NVS_OTHER t \<Rightarrow> None)"

definition cal_scn19 :: "scn19_slice \<Rightarrow> nat option" where
  "cal_scn19 scn = (case scn of
       SCN19_DYNAMIC r \<Rightarrow> Some (4 + 4 + 4)
     | SCN19_FIXED s \<Rightarrow> Some (4 + 4 + 4)
     | SCN19_ON_DEMAND d \<Rightarrow> Some (4 + 4 + 4 + 4)
     | SCN19_OTHER t \<Rightarrow> None)"

definition cal_edf :: "edf_slice \<Rightarrow> nat" where
  "cal_edf edf = 4 + 4 + 4 + 4 + unat (len_over edf) * 4"

definition cal_params :: "slice_params \<Rightarrow> nat option" where
  "cal_params par = do {
     sz \<leftarrow> (case par of
         PAR_STATIC s \<Rightarrow> Some (cal_static s)
       | PAR_NVS s \<Rightarrow> cal_nvs s
       | PAR_SCN19 s \<Rightarrow> cal_scn19 s
       | PAR_EDF s \<Rightarrow> Some (cal_edf s)
       | PAR_OTHER t \<Rightarrow> None);
     Some (4 + sz)
   }"

primrec cal_slc :: "nat \<Rightarrow> fr_slice list \<Rightarrow> nat \<Rightarrow> nat option" where
  "cal_slc 0 slc i = Some 0"
| "cal_slc (Suc n) slc i = do {
     c_assert (i < length slc);
     let s = slc ! i;
     sz_par \<leftarrow> cal_params (fr_params s);
     total \<leftarrow> cal_slc n slc (Suc i);
     Some ((4 + 4 + unat (len_label s) + 4 + unat (len_sched s) + sz_par) + total)
   }"

definition cal_ul_dl :: "ul_dl_slice_conf \<Rightarrow> nat option" where
  "cal_ul_dl slc = do {
     sz_slice \<leftarrow> cal_slc (unat (len_slices slc)) (slices slc) 0;
     Some (4 + unat (len_sched_name slc) + 4 + sz_slice)
   }"

definition cal_slice_conf :: "slice_conf \<Rightarrow> nat option" where
  "cal_slice_conf slc = do {
     ul \<leftarrow> cal_ul_dl (conf_ul slc);
     dl \<leftarrow> cal_ul_dl (conf_dl slc);
     Some (ul + dl)
   }"

definition cal_ue_slice_assoc :: "ue_slice_assoc \<Rightarrow> nat" where
  "cal_ue_slice_assoc assoc = 4 + 4 + 2"

primrec cal_ue_loop :: "nat \<Rightarrow> ue_slice_assoc list \<Rightarrow> nat \<Rightarrow> nat option" where
  "cal_ue_loop 0 us i = Some 0"
| "cal_ue_loop (Suc n) us i = do {
     c_assert (i < length us);
     sz \<leftarrow> cal_ue_loop n us (Suc i);
     Some (cal_ue_slice_assoc (us ! i) + sz)
   }"

definition cal_ue_slice_conf :: "ue_slice_conf \<Rightarrow> nat option" where
  "cal_ue_slice_conf slc = do {
     sz \<leftarrow> cal_ue_loop (unat (len_ue_slice slc)) (ues slc) 0;
     Some (4 + sz)
   }"

definition cal_ind_msg_payload :: "slice_ind_msg \<Rightarrow> nat option" where
  "cal_ind_msg_payload ind_msg = do {
     sz_conf \<leftarrow> cal_slice_conf (si_conf ind_msg);
     sz_ues \<leftarrow> cal_ue_slice_conf (si_ue_conf ind_msg);
     let sz_tstamp = 8;
     Some (sz_conf + sz_ues + sz_tstamp)
   }"

definition cal_del_slice :: "del_slice_conf \<Rightarrow> nat" where
  "cal_del_slice del = 4 + unat (len_dl del) * 4 + 4 + unat (len_ul del) * 4"

definition cal_ctrl_msg_payload :: "slice_ctrl_msg \<Rightarrow> nat option" where
  "cal_ctrl_msg_payload ctrl_msg = do {
     sz \<leftarrow> (case ctrl_msg of
         CTRL_ADD c \<Rightarrow> cal_slice_conf c
       | CTRL_DEL d \<Rightarrow> Some (cal_del_slice d)
       | CTRL_UE_ASSOC u \<Rightarrow> cal_ue_slice_conf u
       | CTRL_OTHER t \<Rightarrow> None);
     Some (4 + sz)
   }"

section \<open>Encoding\<close>

definition fill_static :: "wbuf \<Rightarrow> static_slice \<Rightarrow> wbuf option" where
  "fill_static it sta = do {
     c_assert (0 < room it);
     it \<leftarrow> put32 (pos_high sta) it;
     put32 (pos_low sta) it
   }"

definition fill_rate :: "wbuf \<Rightarrow> nvs_rate \<Rightarrow> wbuf option" where
  "fill_rate it nvs = do {
     it \<leftarrow> put32 (mbps_reference nvs) it;
     put32 (mbps_required nvs) it
   }"

definition fill_capacity :: "wbuf \<Rightarrow> uint32 \<Rightarrow> wbuf option" where
  "fill_capacity it pct = put32 pct it"

definition fill_nvs :: "wbuf \<Rightarrow> nvs_slice \<Rightarrow> wbuf option" where
  "fill_nvs it nvs = (case nvs of
       NVS_RATE r \<Rightarrow> do { it \<leftarrow> put32 0 it; fill_rate it r }
     | NVS_CAPACITY c \<Rightarrow> do { it \<leftarrow> put32 1 it; fill_capacity it c }
     | NVS_OTHER t \<Rightarrow> None)"

definition fill_on_demand :: "wbuf \<Rightarrow> scn19_on_demand \<Rightarrow> wbuf option" where
  "fill_on_demand it scn = do {
     it \<leftarrow> put32 (log_delta scn) it;
     it \<leftarrow> put32 (pct_reserved scn) it;
     put32 (tau scn) it
   }"

definition fill_scn19 :: "wbuf \<Rightarrow> scn19_slice \<Rightarrow> wbuf option" where
  "fill_scn19 it scn = (case scn of
       SCN19_DYNAMIC r \<Rightarrow> do { it \<leftarrow> put32 0 it; fill_rate it r }
     | SCN19_FIXED s \<Rightarrow> do { it \<leftarrow> put32 1 it; fill_static it s }
     | SCN19_ON_DEMAND d \<Rightarrow> do { it \<leftarrow> put32 2 it; fill_on_demand it d }
     | SCN19_OTHER t \<Rightarrow> None)"

definition fill_edf :: "wbuf \<Rightarrow> edf_slice \<Rightarrow> wbuf option" where
  "fill_edf it edf = do {
     it \<leftarrow> put32 (deadline edf) it;
     it \<leftarrow> put32 (guaranteed_prbs edf) it;
     it \<leftarrow> put32 (max_replenish edf) it;
     it \<leftarrow> put32 (len_over edf) it;
     put_loop put32 (over edf) 0 (unat (len_over edf)) it
   }"

definition fill_params :: "wbuf \<Rightarrow> slice_params \<Rightarrow> wbuf option" where
  "fill_params it par = (case par of
       PAR_STATIC s \<Rightarrow> do { it \<leftarrow> put32 1 it; fill_static it s }
     | PAR_NVS s \<Rightarrow> do { it \<leftarrow> put32 2 it; fill_nvs it s }
     | PAR_SCN19 s \<Rightarrow> do { it \<leftarrow> put32 3 it; fill_scn19 it s }
     | PAR_EDF s \<Rightarrow> do { it \<leftarrow> put32 4 it; fill_edf it s }
     | PAR_OTHER t \<Rightarrow> None)"

definition fill_slice :: "fr_slice \<Rightarrow> wbuf \<Rightarrow> wbuf option" where
  "fill_slice slc it = do {
     c_assert (0 < room it);
     it \<leftarrow> put32 (fr_id slc) it;
     it \<leftarrow> put32 (len_label slc) it;
     it \<leftarrow> put_from (label slc) (unat (len_label slc)) it;
     it \<leftarrow> put32 (len_sched slc) it;
     it \<leftarrow> put_from (sched slc) (unat (len_sched slc)) it;
     fill_params it (fr_params slc)
   }"

definition fill_ul_dl_slice_conf :: "wbuf \<Rightarrow> ul_dl_slice_conf \<Rightarrow> wbuf option" where
  "fill_ul_dl_slice_conf it conf = do {
     it \<leftarrow> put32 (len_sched_name conf) it;
     it \<leftarrow> put_from (sched_name conf) (unat (len_sched_name conf)) it;
     it \<leftarrow> put32 (len_slices conf) it;
     put_loop fill_slice (slices conf) 0 (unat (len_slices conf)) it
   }"

definition fill_slice_conf :: "wbuf \<Rightarrow> slice_conf \<Rightarrow> wbuf option" where
  "fill_slice_conf it conf = do {
     it \<leftarrow> fill_ul_dl_slice_conf it (conf_dl conf);
     fill_ul_dl_slice_conf it (conf_ul conf)
   }"

definition fill_ue_slice_assoc :: "ue_slice_assoc \<Rightarrow> wbuf \<Rightarrow> wbuf option" where
  "fill_ue_slice_assoc assoc it = do {
     c_assert (0 < room it);
     it \<leftarrow> put32 (dl_id assoc) it;
     it \<leftarrow> put32 (ul_id assoc) it;
     put16 (ue_rnti assoc) it
   }"

definition fill_ue_slice_conf :: "wbuf \<Rightarrow> ue_slice_conf \<Rightarrow> wbuf option" where
  "fill_ue_slice_conf it slc = do {
     it \<leftarrow> put32 (len_ue_slice slc) it;
     put_loop fill_ue_slice_assoc (ues slc) 0 (unat (len_ue_slice slc)) it
   }"

definition slice_enc_event_trigger_plain :: "slice_event_trigger \<Rightarrow> byte list" where
  "slice_enc_event_trigger_plain ev = le_bytes 4 (unat (se_ms ev))"

definition slice_enc_ind_hdr_plain :: "slice_hdr \<Rightarrow> byte list" where
  "slice_enc_ind_hdr_plain hdr = le_bytes 4 (unat (sh_dummy hdr))"

definition slice_enc_ind_msg_plain :: "slice_ind_msg \<Rightarrow> byte list option" where
  "slice_enc_ind_msg_plain ind_msg = do {
     sz \<leftarrow> cal_ind_msg_payload ind_msg;
     let it = \<lparr>written = [], room = sz\<rparr>;
     it \<leftarrow> fill_slice_conf it (si_conf ind_msg);
     it \<leftarrow> fill_ue_slice_conf it (si_ue_conf ind_msg);
     it \<leftarrow> put64 (si_tstamp ind_msg) it;
     c_assert (room it = 0);
     Some (written it)
   }"

definition slice_enc_ctrl_hdr_plain :: "slice_hdr \<Rightarrow> byte list" where
  "slice_enc_ctrl_hdr_plain hdr = le_bytes 4 (unat (sh_dummy hdr))"

definition fill_del_slice_conf :: "wbuf \<Rightarrow> del_slice_conf \<Rightarrow> wbuf option" where
  "fill_del_slice_conf it conf = do {
     it \<leftarrow> put32 (len_dl conf) it;
     it \<leftarrow> put_loop put32 (del_dl conf) 0 (unat (len_dl conf)) it;
     it \<leftarrow> put32 (len_ul conf) it;
     put_loop put32 (del_ul conf) 0 (unat (len_ul conf)) it
   }"

definition fill_slice_ctrl_msg :: "wbuf \<Rightarrow> slice_ctrl_msg \<Rightarrow> wbuf option" where
  "fill_slice_ctrl_msg it msg = (case msg of
       CTRL_ADD c \<Rightarrow> do { it \<leftarrow> put32 0 it; fill_slice_conf it c }
     | CTRL_DEL d \<Rightarrow> do { it \<leftarrow> put32 1 it; fill_del_slice_conf it d }
     | CTRL_UE_ASSOC u \<Rightarrow> do { it \<leftarrow> put32 2 it; fill_ue_slice_conf it u }
     | CTRL_OTHER t \<Rightarrow> None)"

definition slice_enc_ctrl_msg_plain :: "slice_ctrl_msg \<Rightarrow> byte list option" where
  "slice_enc_ctrl_msg_plain ctrl_msg = do {
     sz \<leftarrow> cal_ctrl_msg_payload ctrl_msg;
     it \<leftarrow> fill_slice_ctrl_msg \<lparr>written = [], room = sz\<rparr> ctrl_msg;
     c_assert (length (written it) = sz);
     Some (written it)
   }"

definition slice_enc_ctrl_out_plain :: "slice_ctrl_out \<Rightarrow> byte list option" where
  "slice_enc_ctrl_out_plain ctrl = do {
     let it = \<lparr>written = [], room = 4 + unat (len_diag ctrl)\<rparr>;
     it \<leftarrow> put32 (len_diag ctrl) it;
     it \<leftarrow> put_from (diagnostic ctrl) (unat (len_diag ctrl)) it;
     c_assert (room it = 0);
     Some (written it)
   }"

text \<open>The encoders of the other messages assert that they are not implemented.\<close>
definition slice_enc_action_def_plain :: "slice_hdr \<Rightarrow> byte list option" where
  "slice_enc_action_def_plain action_def = do { c_assert (0 \<noteq> (0 :: nat)); Some [] }"

definition slice_enc_call_proc_id_plain :: "slice_hdr \<Rightarrow> byte list option" where
  "slice_enc_call_proc_id_plain call_proc_id = do { c_assert (0 \<noteq> (0 :: nat)); Some [] }"

section \<open>Decoding\<close>

definition slice_dec_event_trigger_plain :: "byte list \<Rightarrow> slice_event_trigger option" where
  "slice_dec_event_trigger_plain ev_tr = do { (ms, it) \<leftarrow> get32 ev_tr; Some \<lparr>se_ms = ms\<rparr> }"

definition slice_dec_ind_hdr_plain :: "byte list \<Rightarrow> slice_hdr option" where
  "slice_dec_ind_hdr_plain ind_hdr = do {
     c_assert (length ind_hdr = 4);
     (d, it) \<leftarrow> get32 ind_hdr;
     Some \<lparr>sh_dummy = d\<rparr>
   }"

definition read_static :: "byte list \<Rightarrow> (static_slice \<times> byte list) option" where
  "read_static it = do {
     (high, it) \<leftarrow> get32 it;
     (low, it) \<leftarrow> get32 it;
     Some (\<lparr>pos_low = low, pos_high = high\<rparr>, it)
   }"

definition read_rate :: "byte list \<Rightarrow> (nvs_rate \<times> byte list) option" where
  "read_rate it = do {
     (ref, it) \<leftarrow> get32 it;
     (req, it) \<leftarrow> get32 it;
     Some (\<lparr>mbps_required = req, mbps_reference = ref\<rparr>, it)
   }"

definition read_capacity :: "byte list \<Rightarrow> (uint32 \<times> byte list) option" where
  "read_capacity it = get32 it"

definition read_nvs :: "byte list \<Rightarrow> (nvs_slice \<times> byte list) option" where
  "read_nvs it = do {
     (conf, it) \<leftarrow> get32 it;
     if conf = 0 then do { (r, it) \<leftarrow> read_rate it; Some (NVS_RATE r, it) }
     else if conf = 1 then do { (c, it) \<leftarrow> read_capacity it; Some (NVS_CAPACITY c, it) }
     else None
   }"

definition read_on_demand :: "byte list \<Rightarrow> (scn19_on_demand \<times> byte list) option" where
  "read_on_demand it = do {
     (ld, it) \<leftarrow> get32 it;
     (pct, it) \<leftarrow> get32 it;
     (t, it) \<leftarrow> get32 it;
     Some (\<lparr>pct_reserved = pct, log_delta = ld, tau = t\<rparr>, it)
   }"

definition read_scn19 :: "byte list \<Rightarrow> (scn19_slice \<times> byte list) option" where
  "read_scn19 it = do {
     (conf, it) \<leftarrow> get32 it;
     if conf = 0 then do { (r, it) \<leftarrow> read_rate it; Some (SCN19_DYNAMIC r, it) }
     else if conf = 1 then do { (s, it) \<leftarrow> read_static it; Some (SCN19_FIXED s, it) }
     else if conf = 2 then do { (d, it) \<leftarrow> read_on_demand it; Some (SCN19_ON_DEMAND d, it) }
     else None
   }"

definition read_edf :: "byte list \<Rightarrow> (edf_slice \<times> byte list) option" where
  "read_edf it = do {
     (dl, it) \<leftarrow> get32 it;
     (gp, it) \<leftarrow> get32 it;
     (mr, it) \<leftarrow> get32 it;
     (lo, it) \<leftarrow> get32 it;
     (ov, it) \<leftarrow> get_loop get32 (unat lo) it;
     Some (\<lparr>deadline = dl, guaranteed_prbs = gp, max_replenish = mr, len_over = lo, over = ov\<rparr>, it)
   }"

definition read_params :: "byte list \<Rightarrow> (slice_params \<times> byte list) option" where
  "read_params it = do {
     (ty, it) \<leftarrow> get32 it;
     if ty = 1 then do { (s, it) \<leftarrow> read_static it; Some (PAR_STATIC s, it) }
     else if ty = 2 then do { (s, it) \<leftarrow> read_nvs it; Some (PAR_NVS s, it) }
     else if ty = 3 then do { (s, it) \<leftarrow> read_scn19 it; Some (PAR_SCN19 s, it) }
     else if ty = 4 then do { (s, it) \<leftarrow> read_edf it; Some (PAR_EDF s, it) }
     else None
   }"

text \<open>A string of \<open>n\<close> bytes gets a buffer of one byte more, which stays 0; the pointer stays null
  when \<open>n\<close> is 0.\<close>
definition read_string :: "uint32 \<Rightarrow> byte list \<Rightarrow> (byte list \<times> byte list) option" where
  "read_string n it =
     (if 0 < n then do { (bs, it) \<leftarrow> take_bytes (unat n) it; Some (bs @ [0], it) } else Some ([], it))"

definition read_slice :: "byte list \<Rightarrow> (fr_slice \<times> byte list) option" where
  "read_slice it = do {
     (i, it) \<leftarrow> get32 it;
     (ll, it) \<leftarrow> get32 it;
     (lb, it) \<leftarrow> read_string ll it;
     (ls, it) \<leftarrow> get32 it;
     (sc, it) \<leftarrow> read_string ls it;
     (par, it) \<leftarrow> read_params it;
     Some (\<lparr>fr_id = i, len_label = ll, label = lb, len_sched = ls, sched = sc, fr_params = par\<rparr>, it)
   }"

definition read_ul_dl_slice_conf :: "byte list \<Rightarrow> (ul_dl_slice_conf \<times> byte list) option" where
  "read_ul_dl_slice_conf it = do {
     (ln, it) \<leftarrow> get32 it;
     (nm, it) \<leftarrow> read_string ln it;
     (n, it) \<leftarrow> get32 it;
     (ss, it) \<leftarrow> get_loop read_slice (unat n) it;
     Some (\<lparr>len_slices = n, slices = ss, len_sched_name = ln, sched_name = nm\<rparr>, it)
   }"

definition read_slice_conf :: "byte list \<Rightarrow> (slice_conf \<times> byte list) option" where
  "read_slice_conf it = do {
     (dl, it) \<leftarrow> read_ul_dl_slice_conf it;
     (ul, it) \<leftarrow> read_ul_dl_slice_conf it;
     Some (\<lparr>conf_dl = dl, conf_ul = ul\<rparr>, it)
   }"

definition read_ue_slice_assoc :: "byte list \<Rightarrow> (ue_slice_assoc \<times> byte list) option" where
  "read_ue_slice_assoc it = do {
     (d, it) \<leftarrow> get32 it;
     (u, it) \<leftarrow> get32 it;
     (r, it) \<leftarrow> get16 it;
     Some (\<lparr>dl_id = d, ul_id = u, ue_rnti = r\<rparr>, it)
   }"

definition read_ue_slice_conf :: "byte list \<Rightarrow> (ue_slice_conf \<times> byte list) option" where
  "read_ue_slice_conf it = do {
     (n, it) \<leftarrow> get32 it;
     (us, it) \<leftarrow> get_loop read_ue_slice_assoc (unat n) it;
     Some (\<lparr>len_ue_slice = n, ues = us\<rparr>, it)
   }"

definition slice_dec_ind_msg_plain :: "byte list \<Rightarrow> slice_ind_msg option" where
  "slice_dec_ind_msg_plain ind_msg = do {
     (conf, it) \<leftarrow> read_slice_conf ind_msg;
     (uc, it) \<leftarrow> read_ue_slice_conf it;
     (t, it) \<leftarrow> get64 it;
     c_assert (it = []);
     Some \<lparr>si_conf = conf, si_ue_conf = uc, si_tstamp = t\<rparr>
   }"

definition slice_dec_ctrl_hdr_plain :: "byte list \<Rightarrow> slice_hdr option" where
  "slice_dec_ctrl_hdr_plain ctrl_hdr = do {
     c_assert (length ctrl_hdr = 4);
     (d, it) \<leftarrow> get32 ctrl_hdr;
     Some \<lparr>sh_dummy = d\<rparr>
   }"

definition read_del_slice :: "byte list \<Rightarrow> (del_slice_conf \<times> byte list) option" where
  "read_del_slice it = do {
     (nd, it) \<leftarrow> get32 it;
     (ds, it) \<leftarrow> get_loop get32 (unat nd) it;
     (nu, it) \<leftarrow> get32 it;
     (us, it) \<leftarrow> get_loop get32 (unat nu) it;
     Some (\<lparr>len_dl = nd, del_dl = ds, len_ul = nu, del_ul = us\<rparr>, it)
   }"

definition slice_dec_ctrl_msg_plain :: "byte list \<Rightarrow> slice_ctrl_msg option" where
  "slice_dec_ctrl_msg_plain ctrl_msg = do {
     (ty, it) \<leftarrow> get32 ctrl_msg;
     (m, it) \<leftarrow>
       (if ty = 0 then do { (c, it) \<leftarrow> read_slice_conf it; Some (CTRL_ADD c, it) }
        else if ty = 1 then do { (d, it) \<leftarrow> read_del_slice it; Some (CTRL_DEL d, it) }
        else if ty = 2 then do { (u, it) \<leftarrow> read_ue_slice_conf it; Some (CTRL_UE_ASSOC u, it) }
        else None);
     c_assert (length ctrl_msg - length it = length ctrl_msg);
     Some m
   }"

definition slice_dec_ctrl_out_plain :: "byte list \<Rightarrow> slice_ctrl_out option" where
  "slice_dec_ctrl_out_plain ctrl_out = do {
     (n, it) \<leftarrow> get32 ctrl_out;
     if 0 < n then do {
       (bs, it) \<leftarrow> take_bytes (unat n) it;
       Some \<lparr>so_ans = SLICE_CTRL_OUT_OK, len_diag = n, diagnostic = bs\<rparr>
     }
     else Some \<lparr>so_ans = SLICE_CTRL_OUT_OK, len_diag = n, diagnostic = []\<rparr>
   }"

section \<open>The layout of the messages\<close>

definition lay_static :: "static_slice \<Rightarrow> byte list" where
  "lay_static s = lay32 (pos_high s) @ lay32 (pos_low s)"

definition lay_rate :: "nvs_rate \<Rightarrow> byte list" where
  "lay_rate r = lay32 (mbps_reference r) @ lay32 (mbps_required r)"

definition lay_nvs :: "nvs_slice \<Rightarrow> byte list" where
  "lay_nvs s = (case s of NVS_RATE r \<Rightarrow> lay32 0 @ lay_rate r | NVS_CAPACITY c \<Rightarrow> lay32 1 @ lay32 c | NVS_OTHER t \<Rightarrow> [])"

definition lay_on_demand :: "scn19_on_demand \<Rightarrow> byte list" where
  "lay_on_demand d = lay32 (log_delta d) @ lay32 (pct_reserved d) @ lay32 (tau d)"

definition lay_scn19 :: "scn19_slice \<Rightarrow> byte list" where
  "lay_scn19 s = (case s of SCN19_DYNAMIC r \<Rightarrow> lay32 0 @ lay_rate r | SCN19_FIXED t \<Rightarrow> lay32 1 @ lay_static t
     | SCN19_ON_DEMAND d \<Rightarrow> lay32 2 @ lay_on_demand d | SCN19_OTHER t \<Rightarrow> [])"

definition lay_edf :: "edf_slice \<Rightarrow> byte list" where
  "lay_edf e = lay32 (deadline e) @ lay32 (guaranteed_prbs e) @ lay32 (max_replenish e) @ lay32 (len_over e) @
     concat (map lay32 (over e))"

definition lay_params :: "slice_params \<Rightarrow> byte list" where
  "lay_params p = (case p of PAR_STATIC s \<Rightarrow> lay32 1 @ lay_static s | PAR_NVS s \<Rightarrow> lay32 2 @ lay_nvs s
     | PAR_SCN19 s \<Rightarrow> lay32 3 @ lay_scn19 s | PAR_EDF s \<Rightarrow> lay32 4 @ lay_edf s | PAR_OTHER t \<Rightarrow> [])"

definition lay_slice :: "fr_slice \<Rightarrow> byte list" where
  "lay_slice s = lay32 (fr_id s) @ lay32 (len_label s) @ take (unat (len_label s)) (label s) @
     lay32 (len_sched s) @ take (unat (len_sched s)) (sched s) @ lay_params (fr_params s)"

definition lay_ul_dl :: "ul_dl_slice_conf \<Rightarrow> byte list" where
  "lay_ul_dl c = lay32 (len_sched_name c) @ take (unat (len_sched_name c)) (sched_name c) @
     lay32 (len_slices c) @ concat (map lay_slice (slices c))"

definition lay_conf :: "slice_conf \<Rightarrow> byte list" where
  "lay_conf c = lay_ul_dl (conf_dl c) @ lay_ul_dl (conf_ul c)"

definition lay_assoc :: "ue_slice_assoc \<Rightarrow> byte list" where
  "lay_assoc a = lay32 (dl_id a) @ lay32 (ul_id a) @ lay16 (ue_rnti a)"

definition lay_ue_conf :: "ue_slice_conf \<Rightarrow> byte list" where
  "lay_ue_conf c = lay32 (len_ue_slice c) @ concat (map lay_assoc (ues c))"

definition lay_ind_msg :: "slice_ind_msg \<Rightarrow> byte list" where
  "lay_ind_msg m = lay_conf (si_conf m) @ lay_ue_conf (si_ue_conf m) @ lay64 (si_tstamp m)"

definition lay_del :: "del_slice_conf \<Rightarrow> byte list" where
  "lay_del d = lay32 (len_dl d) @ concat (map lay32 (del_dl d)) @ lay32 (len_ul d) @ concat (map lay32 (del_ul d))"

definition lay_ctrl_msg :: "slice_ctrl_msg \<Rightarrow> byte list" where
  "lay_ctrl_msg m = (case m of CTRL_ADD c \<Rightarrow> lay32 0 @ lay_conf c | CTRL_DEL d \<Rightarrow> lay32 1 @ lay_del d
     | CTRL_UE_ASSOC u \<Rightarrow> lay32 2 @ lay_ue_conf u | CTRL_OTHER t \<Rightarrow> [])"

end
