(* ===== verification/Slice_Roundtrip.thy ===== *)
theory Slice_Roundtrip
  imports Slice_Codec
begin

text \<open>
  The encoder of the slice service model writes exactly the layout of the message, into a buffer that
  is neither too small nor too large, and the decoder reads back what was written.
\<close>

section \<open>Well-formed messages\<close>

text \<open>A length never says more than its buffer holds, an array has as many elements as its
  length says, and every tag names a member.\<close>

definition ok_nvs :: "nvs_slice \<Rightarrow> bool" where
  "ok_nvs s = (case s of NVS_OTHER t \<Rightarrow> False | _ \<Rightarrow> True)"

definition ok_scn19 :: "scn19_slice \<Rightarrow> bool" where
  "ok_scn19 s = (case s of SCN19_OTHER t \<Rightarrow> False | _ \<Rightarrow> True)"

definition ok_params :: "slice_params \<Rightarrow> bool" where
  "ok_params p = (case p of PAR_STATIC s \<Rightarrow> True | PAR_NVS s \<Rightarrow> ok_nvs s | PAR_SCN19 s \<Rightarrow> ok_scn19 s
     | PAR_EDF e \<Rightarrow> length (over e) = unat (len_over e) | PAR_OTHER t \<Rightarrow> False)"

definition ok_slice :: "fr_slice \<Rightarrow> bool" where
  "ok_slice s \<longleftrightarrow> unat (len_label s) \<le> length (label s) \<and> unat (len_sched s) \<le> length (sched s) \<and>
     ok_params (fr_params s)"

definition ok_ul_dl :: "ul_dl_slice_conf \<Rightarrow> bool" where
  "ok_ul_dl c \<longleftrightarrow> unat (len_sched_name c) \<le> length (sched_name c) \<and>
     length (slices c) = unat (len_slices c) \<and> (\<forall>s \<in> set (slices c). ok_slice s)"

definition ok_conf :: "slice_conf \<Rightarrow> bool" where
  "ok_conf c \<longleftrightarrow> ok_ul_dl (conf_dl c) \<and> ok_ul_dl (conf_ul c)"

definition ok_ue_conf :: "ue_slice_conf \<Rightarrow> bool" where
  "ok_ue_conf c \<longleftrightarrow> length (ues c) = unat (len_ue_slice c)"

definition ok_ind_msg :: "slice_ind_msg \<Rightarrow> bool" where
  "ok_ind_msg m \<longleftrightarrow> ok_conf (si_conf m) \<and> ok_ue_conf (si_ue_conf m)"

definition ok_ctrl_msg :: "slice_ctrl_msg \<Rightarrow> bool" where
  "ok_ctrl_msg m = (case m of CTRL_ADD c \<Rightarrow> ok_conf c
     | CTRL_DEL d \<Rightarrow> length (del_dl d) = unat (len_dl d) \<and> length (del_ul d) = unat (len_ul d)
     | CTRL_UE_ASSOC u \<Rightarrow> ok_ue_conf u | CTRL_OTHER t \<Rightarrow> False)"

text \<open>What a decoded message looks like: each string has a buffer of its own, one byte longer.\<close>
definition norm_string :: "uint32 \<Rightarrow> byte list \<Rightarrow> byte list" where
  "norm_string n bs = (if 0 < n then take (unat n) bs @ [0] else [])"

definition norm_slice :: "fr_slice \<Rightarrow> fr_slice" where
  "norm_slice s = s\<lparr>label := norm_string (len_label s) (label s), sched := norm_string (len_sched s) (sched s)\<rparr>"

definition norm_ul_dl :: "ul_dl_slice_conf \<Rightarrow> ul_dl_slice_conf" where
  "norm_ul_dl c = c\<lparr>slices := map norm_slice (slices c), sched_name := norm_string (len_sched_name c) (sched_name c)\<rparr>"

definition norm_conf :: "slice_conf \<Rightarrow> slice_conf" where
  "norm_conf c = \<lparr>conf_dl = norm_ul_dl (conf_dl c), conf_ul = norm_ul_dl (conf_ul c)\<rparr>"

definition norm_ind_msg :: "slice_ind_msg \<Rightarrow> slice_ind_msg" where
  "norm_ind_msg m = m\<lparr>si_conf := norm_conf (si_conf m)\<rparr>"

definition norm_ctrl_msg :: "slice_ctrl_msg \<Rightarrow> slice_ctrl_msg" where
  "norm_ctrl_msg m = (case m of CTRL_ADD c \<Rightarrow> CTRL_ADD (norm_conf c) | _ \<Rightarrow> m)"

section \<open>Sizes\<close>

lemma length_concat_const: "(\<And>x. x \<in> set xs \<Longrightarrow> length (f x) = k) \<Longrightarrow> length (concat (map f xs)) = length xs * k"
  by (induction xs) simp_all

lemma length_lay_static: "length (lay_static s) = 8"
  by (simp add: lay_static_def)

lemma length_lay_rate: "length (lay_rate s) = 8"
  by (simp add: lay_rate_def)

lemma cal_nvs_lay: "ok_nvs s \<Longrightarrow> cal_nvs s = Some (length (lay_nvs s))"
  by (cases s) (simp_all add: cal_nvs_def lay_nvs_def ok_nvs_def lay_rate_def)

lemma cal_scn19_lay: "ok_scn19 s \<Longrightarrow> cal_scn19 s = Some (length (lay_scn19 s))"
  by (cases s) (simp_all add: cal_scn19_def lay_scn19_def ok_scn19_def lay_rate_def lay_static_def lay_on_demand_def)

lemma length_lay_edf: "length (over e) = unat (len_over e) \<Longrightarrow> cal_edf e = length (lay_edf e)"
  by (simp add: cal_edf_def lay_edf_def length_concat_const[where k = 4])

lemma cal_params_lay: "ok_params p \<Longrightarrow> cal_params p = Some (length (lay_params p))"
  by (cases p)
    (simp_all add: cal_params_def lay_params_def ok_params_def cal_nvs_lay cal_scn19_lay length_lay_edf
      cal_static_def length_lay_static)

lemma length_lay_slice:
  "ok_slice s \<Longrightarrow> length (lay_slice s) = 4 + 4 + unat (len_label s) + 4 + unat (len_sched s) + length (lay_params (fr_params s))"
  by (simp add: lay_slice_def ok_slice_def)

lemma cal_slc_lay:
  assumes "\<forall>s \<in> set slc. ok_slice s" "i + n = length slc"
  shows "cal_slc n slc i = Some (length (concat (map lay_slice (drop i slc))))"
  using assms(2)
proof (induction n arbitrary: i)
  case (Suc n)
  then have i: "i < length slc" by linarith
  then have d: "drop i slc = slc ! i # drop (Suc i) slc" by (simp add: Cons_nth_drop_Suc)
  have ok: "ok_slice (slc ! i)" using assms(1) i by simp
  then have "cal_params (fr_params (slc ! i)) = Some (length (lay_params (fr_params (slc ! i))))"
    by (simp add: ok_slice_def cal_params_lay)
  then show ?case using Suc.IH[of "Suc i"] Suc.prems i by (simp add: d length_lay_slice[OF ok] Let_def)
qed simp

lemma cal_ul_dl_lay: "ok_ul_dl c \<Longrightarrow> cal_ul_dl c = Some (length (lay_ul_dl c))"
  using cal_slc_lay[of "slices c" 0 "unat (len_slices c)"]
  by (simp add: ok_ul_dl_def cal_ul_dl_def lay_ul_dl_def)

lemma cal_slice_conf_lay: "ok_conf c \<Longrightarrow> cal_slice_conf c = Some (length (lay_conf c))"
  by (simp add: ok_conf_def cal_slice_conf_def lay_conf_def cal_ul_dl_lay)

lemma length_lay_assoc: "length (lay_assoc a) = 10"
  by (simp add: lay_assoc_def)

lemma cal_ue_loop_lay: "i + n = length us \<Longrightarrow> cal_ue_loop n us i = Some (n * 10)"
  by (induction n arbitrary: i) (simp_all add: cal_ue_slice_assoc_def)

lemma cal_ue_slice_conf_lay: "ok_ue_conf c \<Longrightarrow> cal_ue_slice_conf c = Some (length (lay_ue_conf c))"
  using cal_ue_loop_lay[of 0 "unat (len_ue_slice c)" "ues c"]
  by (simp add: ok_ue_conf_def cal_ue_slice_conf_def lay_ue_conf_def length_concat_const[where k = 10] length_lay_assoc)

lemma cal_ind_msg_lay: "ok_ind_msg m \<Longrightarrow> cal_ind_msg_payload m = Some (length (lay_ind_msg m))"
  by (simp add: ok_ind_msg_def cal_ind_msg_payload_def lay_ind_msg_def cal_slice_conf_lay cal_ue_slice_conf_lay)

lemma cal_ctrl_msg_lay: "ok_ctrl_msg m \<Longrightarrow> cal_ctrl_msg_payload m = Some (length (lay_ctrl_msg m))"
  by (cases m) (simp_all add: ok_ctrl_msg_def cal_ctrl_msg_payload_def lay_ctrl_msg_def cal_slice_conf_lay
      cal_ue_slice_conf_lay cal_del_slice_def lay_del_def length_concat_const[where k = 4])

section \<open>The encoder writes the layout\<close>

lemma fill_static_lay: "length (lay_static s) \<le> room p \<Longrightarrow> fill_static p s = Some (adv p (lay_static s))"
  by (simp add: fill_static_def lay_static_def wire_simps)

lemma fill_rate_lay: "length (lay_rate s) \<le> room p \<Longrightarrow> fill_rate p s = Some (adv p (lay_rate s))"
  by (simp add: fill_rate_def lay_rate_def wire_simps)

lemma fill_nvs_lay: "ok_nvs s \<Longrightarrow> length (lay_nvs s) \<le> room p \<Longrightarrow> fill_nvs p s = Some (adv p (lay_nvs s))"
  by (cases s) (simp_all add: fill_nvs_def lay_nvs_def ok_nvs_def fill_rate_lay fill_capacity_def wire_simps)

lemma fill_on_demand_lay: "length (lay_on_demand s) \<le> room p \<Longrightarrow> fill_on_demand p s = Some (adv p (lay_on_demand s))"
  by (simp add: fill_on_demand_def lay_on_demand_def wire_simps)

lemma fill_scn19_lay: "ok_scn19 s \<Longrightarrow> length (lay_scn19 s) \<le> room p \<Longrightarrow> fill_scn19 p s = Some (adv p (lay_scn19 s))"
  by (cases s) (simp_all add: fill_scn19_def lay_scn19_def ok_scn19_def fill_rate_lay fill_static_lay
      fill_on_demand_lay wire_simps)

lemma put32_loop:
  "n = length xs \<Longrightarrow> length (concat (map lay32 xs)) \<le> room p \<Longrightarrow>
     put_loop put32 xs 0 n p = Some (adv p (concat (map lay32 xs)))"
  by (rule put_all_adv) (simp_all add: wire_simps)

lemma fill_edf_lay:
  "length (over e) = unat (len_over e) \<Longrightarrow> length (lay_edf e) \<le> room p \<Longrightarrow> fill_edf p e = Some (adv p (lay_edf e))"
  by (simp add: fill_edf_def lay_edf_def put32_loop wire_simps)

lemma fill_params_lay: "ok_params s \<Longrightarrow> length (lay_params s) \<le> room p \<Longrightarrow> fill_params p s = Some (adv p (lay_params s))"
  by (cases s) (simp_all add: fill_params_def lay_params_def ok_params_def fill_static_lay fill_nvs_lay fill_scn19_lay
      fill_edf_lay wire_simps)

lemma fill_slice_lay: "ok_slice s \<Longrightarrow> length (lay_slice s) \<le> room p \<Longrightarrow> fill_slice s p = Some (adv p (lay_slice s))"
  by (simp add: fill_slice_def lay_slice_def ok_slice_def fill_params_lay wire_simps)

lemma fill_ul_dl_lay: "ok_ul_dl c \<Longrightarrow> length (lay_ul_dl c) \<le> room p \<Longrightarrow> fill_ul_dl_slice_conf p c = Some (adv p (lay_ul_dl c))"
  by (simp add: fill_ul_dl_slice_conf_def lay_ul_dl_def ok_ul_dl_def wire_simps
      put_all_adv[where f = fill_slice and lay = lay_slice, OF fill_slice_lay])

lemma fill_slice_conf_lay: "ok_conf c \<Longrightarrow> length (lay_conf c) \<le> room p \<Longrightarrow> fill_slice_conf p c = Some (adv p (lay_conf c))"
  by (simp add: fill_slice_conf_def lay_conf_def ok_conf_def fill_ul_dl_lay wire_simps)

lemma fill_assoc_lay: "length (lay_assoc a) \<le> room p \<Longrightarrow> fill_ue_slice_assoc a p = Some (adv p (lay_assoc a))"
  by (simp add: fill_ue_slice_assoc_def lay_assoc_def wire_simps)

lemma fill_ue_conf_lay: "ok_ue_conf c \<Longrightarrow> length (lay_ue_conf c) \<le> room p \<Longrightarrow> fill_ue_slice_conf p c = Some (adv p (lay_ue_conf c))"
  by (simp add: fill_ue_slice_conf_def lay_ue_conf_def ok_ue_conf_def wire_simps
      put_all_adv[where f = fill_ue_slice_assoc and lay = lay_assoc, OF fill_assoc_lay])

lemma fill_ctrl_msg_lay: "ok_ctrl_msg m \<Longrightarrow> length (lay_ctrl_msg m) \<le> room p \<Longrightarrow>
    fill_slice_ctrl_msg p m = Some (adv p (lay_ctrl_msg m))"
  by (cases m) (simp_all add: fill_slice_ctrl_msg_def lay_ctrl_msg_def ok_ctrl_msg_def fill_slice_conf_lay fill_ue_conf_lay
      fill_del_slice_conf_def lay_del_def put32_loop wire_simps)

lemma enc_ind_msg_lay: "ok_ind_msg m \<Longrightarrow> slice_enc_ind_msg_plain m = Some (lay_ind_msg m)"
  by (simp add: slice_enc_ind_msg_plain_def cal_ind_msg_lay ok_ind_msg_def lay_ind_msg_def fill_slice_conf_lay
      fill_ue_conf_lay wire_simps)

lemma enc_ctrl_msg_lay: "ok_ctrl_msg m \<Longrightarrow> slice_enc_ctrl_msg_plain m = Some (lay_ctrl_msg m)"
  by (simp add: slice_enc_ctrl_msg_plain_def cal_ctrl_msg_lay fill_ctrl_msg_lay wire_simps)

section \<open>The decoder reads the layout\<close>

lemma read_static_lay: "read_static (lay_static s @ it) = Some (s, it)"
  by (simp add: read_static_def lay_static_def wire_simps)

lemma read_rate_lay: "read_rate (lay_rate s @ it) = Some (s, it)"
  by (simp add: read_rate_def lay_rate_def wire_simps)

lemma read_nvs_lay: "ok_nvs s \<Longrightarrow> read_nvs (lay_nvs s @ it) = Some (s, it)"
  by (cases s) (simp_all add: read_nvs_def lay_nvs_def ok_nvs_def read_rate_lay read_capacity_def wire_simps)

lemma read_on_demand_lay: "read_on_demand (lay_on_demand s @ it) = Some (s, it)"
  by (simp add: read_on_demand_def lay_on_demand_def wire_simps)

lemma read_scn19_lay: "ok_scn19 s \<Longrightarrow> read_scn19 (lay_scn19 s @ it) = Some (s, it)"
  by (cases s) (simp_all add: read_scn19_def lay_scn19_def ok_scn19_def read_rate_lay read_static_lay read_on_demand_lay wire_simps)

lemma get32_loop: "n = length xs \<Longrightarrow> get_loop get32 n (concat (map lay32 xs) @ it) = Some (xs, it)"
  using get_loop_append[of xs get32 lay32 "\<lambda>x. x" it] by (simp add: wire_simps)

lemma read_edf_lay: "length (over e) = unat (len_over e) \<Longrightarrow> read_edf (lay_edf e @ it) = Some (e, it)"
  by (simp add: read_edf_def lay_edf_def get32_loop wire_simps)

lemma read_params_lay: "ok_params s \<Longrightarrow> read_params (lay_params s @ it) = Some (s, it)"
  by (cases s) (simp_all add: read_params_def lay_params_def ok_params_def read_static_lay read_nvs_lay read_scn19_lay
      read_edf_lay wire_simps)

lemma read_string_lay:
  "unat n \<le> length bs \<Longrightarrow> read_string n (take (unat n) bs @ it) = Some (norm_string n bs, it)"
  by (auto simp: read_string_def norm_string_def wire_simps word_gt_0)

lemma read_slice_lay: "ok_slice s \<Longrightarrow> read_slice (lay_slice s @ it) = Some (norm_slice s, it)"
  by (simp add: read_slice_def lay_slice_def ok_slice_def read_params_lay read_string_lay norm_slice_def wire_simps)

lemma read_ul_dl_lay: "ok_ul_dl c \<Longrightarrow> read_ul_dl_slice_conf (lay_ul_dl c @ it) = Some (norm_ul_dl c, it)"
  using get_loop_append[of "slices c" read_slice lay_slice norm_slice]
  by (simp add: read_ul_dl_slice_conf_def lay_ul_dl_def ok_ul_dl_def read_string_lay norm_ul_dl_def read_slice_lay wire_simps)

lemma read_conf_lay: "ok_conf c \<Longrightarrow> read_slice_conf (lay_conf c @ it) = Some (norm_conf c, it)"
  by (simp add: read_slice_conf_def lay_conf_def ok_conf_def read_ul_dl_lay norm_conf_def)

lemma read_assoc_lay: "read_ue_slice_assoc (lay_assoc a @ it) = Some (a, it)"
  by (simp add: read_ue_slice_assoc_def lay_assoc_def wire_simps)

lemma read_ue_conf_lay: "ok_ue_conf c \<Longrightarrow> read_ue_slice_conf (lay_ue_conf c @ it) = Some (c, it)"
  using get_loop_append[of "ues c" read_ue_slice_assoc lay_assoc "\<lambda>x. x"]
  by (simp add: read_ue_slice_conf_def lay_ue_conf_def ok_ue_conf_def read_assoc_lay wire_simps)

lemma read_del_lay:
  "length (del_dl d) = unat (len_dl d) \<Longrightarrow> length (del_ul d) = unat (len_ul d) \<Longrightarrow>
     read_del_slice (lay_del d @ it) = Some (d, it)"
  by (simp add: read_del_slice_def lay_del_def get32_loop wire_simps)

section \<open>Properties\<close>

lemma slice_ind_msg_dec:
  assumes "ok_ind_msg m" shows "slice_enc_ind_msg_plain m = Some ba \<Longrightarrow> slice_dec_ind_msg_plain ba = Some (norm_ind_msg m)"
proof -
  have "get64 (lay64 t) = Some (t, [])" for t using get_lay(4)[of t "[]"] by simp
  then have "slice_dec_ind_msg_plain (lay_ind_msg m) = Some (norm_ind_msg m)"
    using assms by (simp add: slice_dec_ind_msg_plain_def lay_ind_msg_def ok_ind_msg_def read_conf_lay read_ue_conf_lay norm_ind_msg_def)
  then show "slice_enc_ind_msg_plain m = Some ba \<Longrightarrow> ?thesis" using enc_ind_msg_lay[OF assms] by simp
qed

text \<open>C32: an indication message of the slice service model, encoded and decoded, is the message:
  the encoder's two passes, the size computation and the copying, agree on every variant, so that none of
  its assertions fails and no byte is written outside the buffer, and the decoder finds every field.\<close>
theorem slice_ind_msg_roundtrip:
  assumes "ok_ind_msg m"
  shows "\<exists>ba. slice_enc_ind_msg_plain m = Some ba \<and> cal_ind_msg_payload m = Some (length ba) \<and>
    slice_dec_ind_msg_plain ba = Some (norm_ind_msg m)"
  using slice_ind_msg_dec[OF assms] enc_ind_msg_lay[OF assms] cal_ind_msg_lay[OF assms] by blast

text \<open>The same for the control messages that add slices, delete slices and associate users with slices.\<close>
theorem slice_ctrl_msg_roundtrip:
  assumes "ok_ctrl_msg m"
  shows "\<exists>ba. slice_enc_ctrl_msg_plain m = Some ba \<and> cal_ctrl_msg_payload m = Some (length ba) \<and>
    slice_dec_ctrl_msg_plain ba = Some (norm_ctrl_msg m)"
proof -
  have "slice_dec_ctrl_msg_plain (lay_ctrl_msg m) = Some (norm_ctrl_msg m)"
    using assms read_conf_lay[where it = "[]"] read_del_lay[where it = "[]"] read_ue_conf_lay[where it = "[]"]
    by (cases m) (simp_all add: slice_dec_ctrl_msg_plain_def lay_ctrl_msg_def ok_ctrl_msg_def norm_ctrl_msg_def wire_simps)
  then show ?thesis using enc_ctrl_msg_lay[OF assms] cal_ctrl_msg_lay[OF assms] by blast
qed

text \<open>The outcome of a control message is not encoded: whatever the answer was, the decoded one
  is OK; the diagnostic text survives.\<close>
theorem slice_ctrl_out_loses_answer:
  assumes "unat (len_diag out) \<le> length (diagnostic out)"
  shows "\<exists>ba. slice_enc_ctrl_out_plain out = Some ba \<and>
    slice_dec_ctrl_out_plain ba = Some (out\<lparr>so_ans := SLICE_CTRL_OUT_OK, diagnostic := take (unat (len_diag out)) (diagnostic out)\<rparr>)"
proof -
  let ?ba = "lay32 (len_diag out) @ take (unat (len_diag out)) (diagnostic out)"
  have "slice_enc_ctrl_out_plain out = Some ?ba"
    using assms by (simp add: slice_enc_ctrl_out_plain_def wire_simps)
  moreover have "take_bytes (unat (len_diag out)) (take (unat (len_diag out)) (diagnostic out)) =
      Some (take (unat (len_diag out)) (diagnostic out), [])"
    using take_bytes_append[of "unat (len_diag out)" "take (unat (len_diag out)) (diagnostic out)" "[]"] assms by simp
  then have "slice_dec_ctrl_out_plain ?ba =
      Some (out\<lparr>so_ans := SLICE_CTRL_OUT_OK, diagnostic := take (unat (len_diag out)) (diagnostic out)\<rparr>)"
    by (auto simp: slice_dec_ctrl_out_plain_def wire_simps word_gt_0)
  ultimately show ?thesis by blast
qed

section \<open>Messages cut short\<close>

lemma extends_read_static [extends_intros]: "extends read_static"
  unfolding read_static_def[abs_def] by (intro extends_intros)

lemma extends_read_rate [extends_intros]: "extends read_rate"
  unfolding read_rate_def[abs_def] by (intro extends_intros)

lemma extends_read_nvs [extends_intros]: "extends read_nvs"
  unfolding read_nvs_def[abs_def] read_capacity_def by (intro extends_intros)

lemma extends_read_on_demand [extends_intros]: "extends read_on_demand"
  unfolding read_on_demand_def[abs_def] by (intro extends_intros)

lemma extends_read_scn19 [extends_intros]: "extends read_scn19"
  unfolding read_scn19_def[abs_def] by (intro extends_intros)

lemma extends_read_edf [extends_intros]: "extends read_edf"
  unfolding read_edf_def[abs_def] by (intro extends_intros)

lemma extends_read_params [extends_intros]: "extends read_params"
  unfolding read_params_def[abs_def] by (intro extends_intros)

lemma extends_read_string [extends_intros]: "extends (read_string n)"
  unfolding read_string_def[abs_def] by (intro extends_intros)

lemma extends_read_slice [extends_intros]: "extends read_slice"
  unfolding read_slice_def[abs_def] by (intro extends_intros)

lemma extends_read_ul_dl [extends_intros]: "extends read_ul_dl_slice_conf"
  unfolding read_ul_dl_slice_conf_def[abs_def] by (intro extends_intros)

lemma extends_read_conf [extends_intros]: "extends read_slice_conf"
  unfolding read_slice_conf_def[abs_def] by (intro extends_intros)

lemma extends_read_assoc [extends_intros]: "extends read_ue_slice_assoc"
  unfolding read_ue_slice_assoc_def[abs_def] by (intro extends_intros)

lemma extends_read_ue_conf [extends_intros]: "extends read_ue_slice_conf"
  unfolding read_ue_slice_conf_def[abs_def] by (intro extends_intros)

definition read_ind_msg :: "byte list \<Rightarrow> (slice_ind_msg \<times> byte list) option" where
  "read_ind_msg it = do {
     (conf, it) \<leftarrow> read_slice_conf it;
     (uc, it) \<leftarrow> read_ue_slice_conf it;
     (t, it) \<leftarrow> get64 it;
     Some (\<lparr>si_conf = conf, si_ue_conf = uc, si_tstamp = t\<rparr>, it)
   }"

lemma extends_read_ind_msg: "extends read_ind_msg"
  unfolding read_ind_msg_def[abs_def] by (intro extends_intros)

lemma dec_ind_msg_read: "slice_dec_ind_msg_plain bs = Some m \<longleftrightarrow> read_ind_msg bs = Some (m, [])"
  by (auto simp: slice_dec_ind_msg_plain_def read_ind_msg_def monad_simps split: prod.splits)

text \<open>No indication message that has been cut short is decoded: on every proper prefix of an
  encoded message the decoder, which never looks at the length before it copies, either
  fails its last assertion or reads beyond the end of the message.\<close>
theorem slice_ind_msg_truncated:
  assumes "ok_ind_msg m" "slice_enc_ind_msg_plain m = Some ba" "n < length ba"
  shows "slice_dec_ind_msg_plain (take n ba) = None"
proof (rule ccontr)
  assume "slice_dec_ind_msg_plain (take n ba) \<noteq> None"
  then obtain w where w: "read_ind_msg (take n ba) = Some (w, [])" using dec_ind_msg_read by blast
  have "\<exists>v. read_ind_msg ba = Some (v, [])"
    using slice_ind_msg_dec[OF assms(1)] assms(2) dec_ind_msg_read by force
  moreover have "ba = take n ba @ ba ! n # drop (Suc n) ba" using assms(3) by (rule id_take_nth_drop)
  ultimately show False using truncated_None[OF extends_read_ind_msg] w by metis
qed

section \<open>Examples\<close>

definition ex_slice :: fr_slice where
  "ex_slice = \<lparr>fr_id = 3, len_label = 2, label = [104, 105, 0], len_sched = 0, sched = [],
     fr_params = PAR_NVS (NVS_RATE \<lparr>mbps_required = 1, mbps_reference = 2\<rparr>)\<rparr>"

definition ex_ul_dl :: ul_dl_slice_conf where
  "ex_ul_dl = \<lparr>len_slices = 1, slices = [ex_slice], len_sched_name = 1, sched_name = [65, 0]\<rparr>"

definition ex_ind_msg :: slice_ind_msg where
  "ex_ind_msg = \<lparr>si_conf = \<lparr>conf_dl = ex_ul_dl, conf_ul = ex_ul_dl\<rparr>,
     si_ue_conf = \<lparr>len_ue_slice = 1, ues = [\<lparr>dl_id = 3, ul_id = 3, ue_rnti = 77\<rparr>]\<rparr>, si_tstamp = 9\<rparr>"

lemma ex_ind_msg_ok: "ok_ind_msg ex_ind_msg"
  by (simp add: ok_ind_msg_def ex_ind_msg_def ok_conf_def ok_ul_dl_def ex_ul_dl_def ok_slice_def ex_slice_def
      ok_params_def ok_nvs_def ok_ue_conf_def)

theorem slice_ind_msg_roundtrip_witness:
  "\<exists>ba. slice_enc_ind_msg_plain ex_ind_msg = Some ba \<and> slice_dec_ind_msg_plain ba = Some ex_ind_msg"
  using slice_ind_msg_roundtrip[OF ex_ind_msg_ok]
  by (auto simp: norm_ind_msg_def norm_conf_def norm_ul_dl_def norm_slice_def norm_string_def ex_ind_msg_def
      ex_ul_dl_def ex_slice_def)

theorem slice_ctrl_msg_roundtrip_witness:
  "\<exists>ba. slice_enc_ctrl_msg_plain (CTRL_DEL \<lparr>len_dl = 1, del_dl = [4], len_ul = 2, del_ul = [5, 6]\<rparr>) = Some ba \<and>
     slice_dec_ctrl_msg_plain ba = Some (CTRL_DEL \<lparr>len_dl = 1, del_dl = [4], len_ul = 2, del_ul = [5, 6]\<rparr>)"
  using slice_ctrl_msg_roundtrip[of "CTRL_DEL \<lparr>len_dl = 1, del_dl = [4], len_ul = 2, del_ul = [5, 6]\<rparr>"]
  by (auto simp: ok_ctrl_msg_def norm_ctrl_msg_def)

theorem slice_ctrl_out_loses_answer_witness:
  "\<exists>ba. slice_enc_ctrl_out_plain \<lparr>so_ans = SLICE_CTRL_OUT_ERROR, len_diag = 1, diagnostic = [63]\<rparr> = Some ba \<and>
     slice_dec_ctrl_out_plain ba = Some \<lparr>so_ans = SLICE_CTRL_OUT_OK, len_diag = 1, diagnostic = [63]\<rparr>"
  using slice_ctrl_out_loses_answer[of "\<lparr>so_ans = SLICE_CTRL_OUT_ERROR, len_diag = 1, diagnostic = [63]\<rparr>"] by auto

theorem slice_ind_msg_truncated_witness:
  "\<exists>ba. slice_enc_ind_msg_plain ex_ind_msg = Some ba \<and> 7 < length ba \<and> slice_dec_ind_msg_plain (take 7 ba) = None"
proof -
  have e: "slice_enc_ind_msg_plain ex_ind_msg = Some (lay_ind_msg ex_ind_msg)" by (rule enc_ind_msg_lay[OF ex_ind_msg_ok])
  have "7 < length (lay_ind_msg ex_ind_msg)" by (simp add: lay_ind_msg_def)
  with slice_ind_msg_truncated[OF ex_ind_msg_ok e] e show ?thesis by blast
qed

end
