(* ===== verification/Struct_Wire.thy ===== *)
theory Struct_Wire
  imports Wire
begin

text \<open>
  What the plain codecs of the service models MAC, RLC, PDCP and GTP share.  Their indication message is an
  array of structures of one size, between its length and a time stamp, and the structures are
  copied as they lie in memory, padding included.  The locale is the contract between a structure, whose image, size and reader are given, and
  the messages that are made of it.
\<close>

section \<open>Structures in memory\<close>

definition put_struct :: "('a \<Rightarrow> byte list) \<Rightarrow> 'a \<Rightarrow> wbuf \<Rightarrow> wbuf option" where
  "put_struct img s = put_bytes (img s)"

text \<open>A message: the length, the array, the time stamp.\<close>
definition lay_stats :: "('a \<Rightarrow> byte list) \<Rightarrow> uint32 \<Rightarrow> 'a list \<Rightarrow> uint64 \<Rightarrow> byte list" where
  "lay_stats img n xs t = lay32 n @ concat (map img xs) @ lay64 t"

text \<open>What the decoders read, without their checks of the length.\<close>
definition read_stats :: "(byte list \<Rightarrow> ('a \<times> byte list) option) \<Rightarrow> byte list \<Rightarrow> ((uint32 \<times> 'a list \<times> uint64) \<times> byte list) option" where
  "read_stats rd it = do {
     (n, it) \<leftarrow> get32 it;
     (xs, it) \<leftarrow> get_loop rd (unat n) it;
     (t, it) \<leftarrow> get64 it;
     Some ((n, xs, t), it)
   }"

locale wire_struct =
  fixes img :: "'a \<Rightarrow> byte list" and rd :: "byte list \<Rightarrow> ('a \<times> byte list) option" and sz :: nat and ok :: "'a \<Rightarrow> bool"
  assumes length_img: "ok x \<Longrightarrow> length (img x) = sz"
    and read_img: "ok x \<Longrightarrow> rd (img x @ it) = Some (x, it)"
    and extends_rd: "extends rd"
begin

lemma length_imgs: "\<forall>x \<in> set xs. ok x \<Longrightarrow> length (concat (map img xs)) = sz * length xs"
  by (induction xs) (simp_all add: length_img)

lemma put_all:
  assumes "\<forall>x \<in> set xs. ok x" "n = length xs" "sz * n \<le> room p"
  shows "put_loop (put_struct img) xs 0 n p = Some (adv p (concat (map img xs)))"
  by (rule put_all_adv) (use assms in \<open>simp_all add: put_struct_def put_adv length_imgs\<close>)

text \<open>The loop runs over the end of a buffer that is too small.\<close>
lemma put_loop_short:
  assumes "\<forall>x \<in> set xs. ok x" "i + n \<le> length xs" "room p < sz * n"
  shows "put_loop (put_struct img) xs i n p = None"
  using assms(2,3)
proof (induction n arbitrary: i p)
  case (Suc n)
  then have i: "i < length xs" by linarith
  then have l: "length (img (xs ! i)) = sz" using assms(1) by (simp add: length_img)
  have "put_loop (put_struct img) xs (Suc i) n (adv p (img (xs ! i))) = None" if "sz \<le> room p"
    by (rule Suc.IH) (use Suc.prems l that in \<open>simp_all add: room_adv\<close>)
  moreover have "put_struct img (xs ! i) p = (if sz \<le> room p then Some (adv p (img (xs ! i))) else None)"
    using l by (simp add: put_struct_def put_bytes_def adv_def)
  ultimately show ?case using i by simp
qed simp

lemma get_all:
  assumes "\<forall>x \<in> set xs. ok x" "n = length xs"
  shows "get_loop rd n (concat (map img xs) @ it) = Some (xs, it)"
  using get_loop_append[where f = rd and lay = img and g = "\<lambda>x. x" and xs = xs and it = it] assms read_img by simp

lemma length_stats: "\<forall>x \<in> set xs. ok x \<Longrightarrow> length (lay_stats img n xs t) = 4 + sz * length xs + 8"
  by (simp add: lay_stats_def length_imgs)

lemma read_lay_stats:
  assumes "\<forall>x \<in> set xs. ok x" "unat n = length xs"
  shows "read_stats rd (lay_stats img n xs t @ it) = Some ((n, xs, t), it)"
  using get_all[OF assms(1), of "unat n"] assms(2) by (simp add: read_stats_def lay_stats_def wire_simps)

lemma extends_stats: "extends (read_stats rd)"
  unfolding read_stats_def[abs_def] by (intro extends_intros extends_rd)

text \<open>An encoder with a buffer of the right size, and one whose buffer is too small.\<close>
lemma put_stats:
  assumes "\<forall>x \<in> set xs. ok x" "unat n = length xs" "r = 4 + sz * length xs + 8"
  shows "do { p \<leftarrow> put32 n \<lparr>written = [], room = r\<rparr>; p \<leftarrow> put_loop (put_struct img) xs 0 (unat n) p; p \<leftarrow> put64 t p;
    c_assert (room p = 0); Some (written p) } = Some (lay_stats img n xs t)"
proof -
  let ?p = "\<lparr>written = [], room = r\<rparr>"
  have 1: "put32 n ?p = Some (adv ?p (lay32 n))" by (rule put_lay) (simp add: assms(3))
  have 2: "put_loop (put_struct img) xs 0 (unat n) (adv ?p (lay32 n)) = Some (adv (adv ?p (lay32 n)) (concat (map img xs)))"
    by (rule put_all[OF assms(1,2)]) (simp add: assms(2,3) room_adv)
  have 3: "put64 t (adv (adv ?p (lay32 n)) (concat (map img xs))) = Some (adv (adv (adv ?p (lay32 n)) (concat (map img xs))) (lay64 t))"
    by (rule put_lay) (simp add: assms(1,3) room_adv length_imgs)
  show ?thesis by (simp add: 1 2 3) (simp add: assms(1,3) room_adv written_adv length_imgs lay_stats_def)
qed

lemma put_stats_short:
  assumes "\<forall>x \<in> set xs. ok x" "unat n = length xs" "r < 4 + sz * length xs + 8"
  shows "do { p \<leftarrow> put32 n \<lparr>written = [], room = r\<rparr>; p \<leftarrow> put_loop (put_struct img) xs 0 (unat n) p; p \<leftarrow> put64 t p;
    c_assert (room p = 0); Some (written p) } = None"
proof (cases "4 \<le> r")
  case True
  let ?p = "\<lparr>written = [], room = r\<rparr>"
  have 1: "put32 n ?p = Some (adv ?p (lay32 n))" by (rule put_lay) (simp add: True)
  show ?thesis
  proof (cases "sz * length xs \<le> r - 4")
    case big: True
    have 2: "put_loop (put_struct img) xs 0 (unat n) (adv ?p (lay32 n)) = Some (adv (adv ?p (lay32 n)) (concat (map img xs)))"
      by (rule put_all[OF assms(1,2)]) (simp add: big assms(2) room_adv)
    have 3: "put64 t (adv (adv ?p (lay32 n)) (concat (map img xs))) = None"
      using assms(3) by (simp add: put64_def put_bytes_def room_adv length_imgs[OF assms(1)])
    show ?thesis by (simp add: 1 2 3)
  next
    case False
    have "put_loop (put_struct img) xs 0 (unat n) (adv ?p (lay32 n)) = None"
      by (rule put_loop_short[OF assms(1)]) (use False assms(2) in \<open>simp_all add: room_adv\<close>)
    then show ?thesis by (simp add: 1)
  qed
qed (simp add: put32_def put_bytes_def)

text \<open>No message cut short has this layout.\<close>
lemma stats_truncated:
  assumes "\<forall>x \<in> set xs. ok x" "unat n = length xs" "k < length (lay_stats img n xs t)"
  shows "\<nexists>w. read_stats rd (take k (lay_stats img n xs t)) = Some (w, [])"
proof (rule truncated_None[OF extends_stats])
  have "read_stats rd (lay_stats img n xs t) = Some ((n, xs, t), [])" using read_lay_stats[OF assms(1,2), of t "[]"] by simp
  then show "read_stats rd (take k (lay_stats img n xs t) @ lay_stats img n xs t ! k # drop (Suc k) (lay_stats img n xs t)) = Some ((n, xs, t), [])"
    using id_take_nth_drop[OF assms(3)] by simp
qed

end

section \<open>Rounding up to a power of two\<close>

text \<open>The decoders of RLC and GTP round the length of a message up before they compare it.\<close>
definition next_pow2 :: "64 word \<Rightarrow> 64 word" where
  "next_pow2 x = (
     let x = x - 1;
       x = or x (drop_bit 1 x);
       x = or x (drop_bit 2 x);
       x = or x (drop_bit 4 x);
       x = or x (drop_bit 8 x);
       x = or x (drop_bit 16 x);
       x = or x (drop_bit 32 x)
     in x + 1)"

text \<open>Each step doubles the number of higher bits that have been brought down to a bit.\<close>
definition smeared :: "nat \<Rightarrow> 64 word \<Rightarrow> 64 word \<Rightarrow> bool" where
  "smeared m y x \<longleftrightarrow> (\<forall>i. bit x i \<longleftrightarrow> (\<exists>j < m. bit y (i + j)))"

lemma smeared_step:
  assumes "smeared m y x" "n = m + m" shows "smeared n y (or x (drop_bit m x))"
  unfolding smeared_def
proof (intro allI iffI)
  fix i assume "bit (or x (drop_bit m x)) i"
  then have "bit x i \<or> bit x (m + i)" by (simp add: bit_or_iff bit_drop_bit_eq add.commute)
  then obtain j where "j < m \<and> bit y (i + j) \<or> j < m \<and> bit y (m + i + j)" using assms(1) unfolding smeared_def by blast
  then show "\<exists>j < n. bit y (i + j)"
  proof
    assume "j < m \<and> bit y (m + i + j)"
    then have "m + j < n \<and> bit y (i + (m + j))" using assms(2) by (simp add: ac_simps)
    then show ?thesis by blast
  qed (use assms(2) in \<open>auto intro: trans_less_add1\<close>)
next
  fix i assume "\<exists>j < n. bit y (i + j)"
  then obtain j where j: "j < n" "bit y (i + j)" by blast
  show "bit (or x (drop_bit m x)) i"
  proof (cases "j < m")
    case True
    then show ?thesis using assms(1) j(2) by (auto simp: smeared_def bit_or_iff)
  next
    case False
    then have "j - m < m" "bit y (i + m + (j - m))" using j assms(2) by auto
    then have "bit x (i + m)" using assms(1) unfolding smeared_def by blast
    then show ?thesis by (simp add: bit_or_iff bit_drop_bit_eq add.commute)
  qed
qed

lemma next_pow2_smeared: obtains z where "smeared 64 (x - 1) z" "next_pow2 x = z + 1"
proof -
  define y where "y = x - 1"
  define a where "a = or y (drop_bit 1 y)"
  define b where "b = or a (drop_bit 2 a)"
  define c where "c = or b (drop_bit 4 b)"
  define d where "d = or c (drop_bit 8 c)"
  define e where "e = or d (drop_bit 16 d)"
  define f where "f = or e (drop_bit 32 e)"
  have 1: "smeared 1 y y" by (simp add: smeared_def)
  have 2: "smeared 2 y a" unfolding a_def by (rule smeared_step[OF 1]) simp
  have 4: "smeared 4 y b" unfolding b_def by (rule smeared_step[OF 2]) simp
  have 8: "smeared 8 y c" unfolding c_def by (rule smeared_step[OF 4]) simp
  have 16: "smeared 16 y d" unfolding d_def by (rule smeared_step[OF 8]) simp
  have 32: "smeared 32 y e" unfolding e_def by (rule smeared_step[OF 16]) simp
  have "smeared 64 y f" unfolding f_def by (rule smeared_step[OF 32]) simp
  moreover have "next_pow2 x = f + 1"
    unfolding next_pow2_def Let_def f_def e_def d_def c_def b_def a_def y_def by (rule refl)
  ultimately show thesis using that unfolding y_def by blast
qed

text \<open>The result is the power of two that is at least the argument, and less than twice it.\<close>
lemma next_pow2_eq:
  assumes "2 ^ k < unat x" "unat x \<le> 2 ^ Suc k" "k < 63" shows "unat (next_pow2 x) = 2 ^ Suc k"
proof -
  obtain z where z: "smeared 64 (x - 1) z" "next_pow2 x = z + 1" by (rule next_pow2_smeared)
  have "x \<noteq> 0" using assms(1) by auto
  then have y: "unat (x - 1) = unat x - 1" by (simp add: unat_minus_one)
  have k: "2 ^ k \<le> unat x - 1" "unat x - 1 < 2 ^ Suc k" using assms(1,2) by linarith+
  have hi: "bit (x - 1) i \<Longrightarrow> i \<le> k" for i
  proof (rule ccontr)
    assume b: "bit (x - 1) i" and "\<not> i \<le> k"
    then have "(2 :: nat) ^ Suc k \<le> 2 ^ i" by (intro power_increasing) simp_all
    moreover have "bit (unat (x - 1)) i" using b by (simp add: bit_unsigned_iff)
    then have "2 ^ i \<le> unat (x - 1)" by (metis bit_iff_odd div_less even_zero not_le)
    ultimately show False using y k(2) by linarith
  qed
  have lo: "bit (x - 1) k"
  proof -
    have "(unat x - 1) div 2 ^ k = 1"
    proof (rule antisym)
      have "(unat x - 1) div 2 ^ k < 2" by (rule less_mult_imp_div_less) (use k(2) in simp)
      then show "(unat x - 1) div 2 ^ k \<le> 1" by simp
      show "1 \<le> (unat x - 1) div 2 ^ k" using k(1) by (simp add: Suc_le_eq div_greater_zero_iff)
    qed
    then have "bit (unat (x - 1)) k" by (simp add: bit_iff_odd y)
    then show ?thesis by (simp add: bit_unsigned_iff)
  qed
  have "z = mask (Suc k)"
  proof (rule bit_word_eqI)
    fix i assume i: "i < LENGTH(64)"
    have "(\<exists>j < 64. bit (x - 1) (i + j)) \<longleftrightarrow> i \<le> k"
    proof
      assume "i \<le> k"
      then have "k - i < 64 \<and> bit (x - 1) (i + (k - i))" using lo assms(3) by simp
      then show "\<exists>j < 64. bit (x - 1) (i + j)" by blast
    qed (use hi in fastforce)
    then show "bit z i = bit (mask (Suc k) :: 64 word) i" using z(1) i by (simp add: smeared_def bit_mask_iff less_Suc_eq_le)
  qed
  then have "next_pow2 x = 2 ^ Suc k" using z(2) by (simp add: mask_eq_exp_minus_1)
  moreover have "unat (2 ^ Suc k :: 64 word) = 2 ^ Suc k"
  proof -
    have "(2 :: nat) ^ Suc k < 2 ^ 64" using assms(3) by (intro power_strict_increasing) simp_all
    then have "unat (word_of_nat (2 ^ Suc k) :: 64 word) = 2 ^ Suc k" by (simp only: unat_of_nat) simp
    then show ?thesis by simp
  qed
  ultimately show ?thesis by simp
qed

text \<open>So twelve bytes, a message without an element, are enough for the check against sixteen.\<close>
lemma next_pow2_16:
  assumes "12 \<le> n" "n < 2 ^ 63" shows "16 \<le> next_pow2 (word_of_nat n)"
proof -
  have n: "unat (word_of_nat n :: 64 word) = n" using assms(2) by (simp add: unat_of_nat)
  have "\<exists>k. 2 ^ k < n \<and> n \<le> 2 ^ Suc k \<and> 3 \<le> k \<and> k < 63"
  proof -
    define k where "k = (LEAST k. n \<le> 2 ^ Suc k)"
    have e: "n \<le> 2 ^ Suc 62" using assms(2) by simp
    have a: "n \<le> 2 ^ Suc k" unfolding k_def by (rule LeastI[of _ 62]) (rule e)
    have b: "k \<le> 62" unfolding k_def by (rule Least_le) (rule e)
    have c: "3 \<le> k"
    proof (rule ccontr)
      assume "\<not> 3 \<le> k"
      then have "(2 :: nat) ^ Suc k \<le> 2 ^ 3" by (intro power_increasing) simp_all
      then show False using a assms(1) by simp
    qed
    have "\<not> n \<le> 2 ^ Suc (k - 1)" unfolding k_def by (rule not_less_Least) (use c in \<open>simp add: k_def\<close>)
    then have "2 ^ k < n" using c by simp
    then show ?thesis using a b c by auto
  qed
  then obtain k where k: "2 ^ k < n" "n \<le> 2 ^ Suc k" "3 \<le> k" "k < 63" by blast
  then have "unat (next_pow2 (word_of_nat n)) = 2 ^ Suc k" by (intro next_pow2_eq) (simp_all add: n)
  moreover have "(2 :: nat) ^ 4 \<le> 2 ^ Suc k" using k(3) by (intro power_increasing) simp_all
  ultimately show ?thesis by (simp add: word_le_nat_alt)
qed

end
