(* ===== verification/Mac_Codec.thy ===== *)
theory Mac_Codec
  imports Struct_Wire
begin

text \<open>
  The plain encoding of the MAC service model: src/sm/mac_sm/ie/mac_data_ie.h (the messages),
  src/sm/mac_sm/enc/mac_enc_plain.c and src/sm/mac_sm/dec/mac_dec_plain.c.  Floating point fields are only
  copied and are held as their four bytes; a structure has the bytes that the compiler adds to its end.
\<close>

section \<open>Messages\<close>

record mac_event_trigger =
  me_ms :: uint32

record mac_ind_hdr =
  mh_dummy :: uint32

text \<open>The memory of a structure of statistics, 176 bytes.\<close>
record mac_ue_stats =
  mu_dl_aggr_tbs :: uint64
  mu_ul_aggr_tbs :: uint64
  mu_dl_aggr_bytes_sdus :: uint64
  mu_ul_aggr_bytes_sdus :: uint64
  mu_dl_curr_tbs :: uint64
  mu_ul_curr_tbs :: uint64
  mu_dl_sched_rb :: uint64
  mu_ul_sched_rb :: uint64
  mu_pusch_snr :: uint32
  mu_pucch_snr :: uint32
  mu_dl_bler :: uint32
  mu_ul_bler :: uint32
  mu_dl_harq :: "uint32 list"
  mu_ul_harq :: "uint32 list"
  mu_dl_num_harq :: uint32
  mu_ul_num_harq :: uint32
  mu_rnti :: uint32
  mu_dl_aggr_prb :: uint32
  mu_ul_aggr_prb :: uint32
  mu_dl_aggr_sdus :: uint32
  mu_ul_aggr_sdus :: uint32
  mu_dl_aggr_retx_prb :: uint32
  mu_ul_aggr_retx_prb :: uint32
  mu_bsr :: uint32
  mu_frame :: uint16
  mu_slot :: uint16
  mu_wb_cqi :: uint8
  mu_dl_mcs1 :: uint8
  mu_ul_mcs1 :: uint8
  mu_dl_mcs2 :: uint8
  mu_ul_mcs2 :: uint8
  mu_phr :: uint8
  mu_pad :: "byte list"

record mac_ind_msg =
  len_ue_stats :: uint32
  ue_stats :: "mac_ue_stats list"
  mac_tstamp :: uint64

record mac_ctrl_hdr =
  mc_dummy :: uint32

record mac_ctrl_msg =
  mc_action :: uint32

text \<open>The pointer to the identifier of the call process is null when there is none.\<close>
record mac_ind_data =
  mi_hdr :: mac_ind_hdr
  mi_msg :: mac_ind_msg
  mi_proc_id :: "uint32 option"

record mac_ctrl_req_data =
  mr_hdr :: mac_ctrl_hdr
  mr_msg :: mac_ctrl_msg

definition img_mac_ue_stats :: "mac_ue_stats \<Rightarrow> byte list" where
  "img_mac_ue_stats s = lay64 (mu_dl_aggr_tbs s) @ lay64 (mu_ul_aggr_tbs s) @ lay64 (mu_dl_aggr_bytes_sdus s) @
    lay64 (mu_ul_aggr_bytes_sdus s) @ lay64 (mu_dl_curr_tbs s) @ lay64 (mu_ul_curr_tbs s) @ lay64 (mu_dl_sched_rb s) @
    lay64 (mu_ul_sched_rb s) @ lay32 (mu_pusch_snr s) @ lay32 (mu_pucch_snr s) @ lay32 (mu_dl_bler s) @
    lay32 (mu_ul_bler s) @ concat (map lay32 (mu_dl_harq s)) @ concat (map lay32 (mu_ul_harq s)) @
    lay32 (mu_dl_num_harq s) @ lay32 (mu_ul_num_harq s) @ lay32 (mu_rnti s) @ lay32 (mu_dl_aggr_prb s) @
    lay32 (mu_ul_aggr_prb s) @ lay32 (mu_dl_aggr_sdus s) @ lay32 (mu_ul_aggr_sdus s) @ lay32 (mu_dl_aggr_retx_prb s) @
    lay32 (mu_ul_aggr_retx_prb s) @ lay32 (mu_bsr s) @ lay16 (mu_frame s) @ lay16 (mu_slot s) @ lay8 (mu_wb_cqi s) @
    lay8 (mu_dl_mcs1 s) @ lay8 (mu_ul_mcs1 s) @ lay8 (mu_dl_mcs2 s) @ lay8 (mu_ul_mcs2 s) @ lay8 (mu_phr s) @ mu_pad s"

definition get_mac_ue_stats :: "byte list \<Rightarrow> (mac_ue_stats \<times> byte list) option" where
  "get_mac_ue_stats it = do {
     (dl_aggr_tbs', it) \<leftarrow> get64 it; (ul_aggr_tbs', it) \<leftarrow> get64 it;
     (dl_aggr_bytes_sdus', it) \<leftarrow> get64 it; (ul_aggr_bytes_sdus', it) \<leftarrow> get64 it;
     (dl_curr_tbs', it) \<leftarrow> get64 it; (ul_curr_tbs', it) \<leftarrow> get64 it;
     (dl_sched_rb', it) \<leftarrow> get64 it; (ul_sched_rb', it) \<leftarrow> get64 it;
     (pusch_snr', it) \<leftarrow> get32 it; (pucch_snr', it) \<leftarrow> get32 it; (dl_bler', it) \<leftarrow> get32 it;
     (ul_bler', it) \<leftarrow> get32 it; (dl_harq', it) \<leftarrow> get_loop get32 5 it;
     (ul_harq', it) \<leftarrow> get_loop get32 5 it; (dl_num_harq', it) \<leftarrow> get32 it;
     (ul_num_harq', it) \<leftarrow> get32 it; (rnti', it) \<leftarrow> get32 it;
     (dl_aggr_prb', it) \<leftarrow> get32 it; (ul_aggr_prb', it) \<leftarrow> get32 it;
     (dl_aggr_sdus', it) \<leftarrow> get32 it; (ul_aggr_sdus', it) \<leftarrow> get32 it;
     (dl_aggr_retx_prb', it) \<leftarrow> get32 it; (ul_aggr_retx_prb', it) \<leftarrow> get32 it;
     (bsr', it) \<leftarrow> get32 it; (frame', it) \<leftarrow> get16 it; (slot', it) \<leftarrow> get16 it;
     (wb_cqi', it) \<leftarrow> get8 it; (dl_mcs1', it) \<leftarrow> get8 it; (ul_mcs1', it) \<leftarrow> get8 it;
     (dl_mcs2', it) \<leftarrow> get8 it; (ul_mcs2', it) \<leftarrow> get8 it; (phr', it) \<leftarrow> get8 it;
     (pad, it) \<leftarrow> take_bytes 6 it;
     Some (\<lparr>mu_dl_aggr_tbs = dl_aggr_tbs', mu_ul_aggr_tbs = ul_aggr_tbs', mu_dl_aggr_bytes_sdus = dl_aggr_bytes_sdus',
       mu_ul_aggr_bytes_sdus = ul_aggr_bytes_sdus', mu_dl_curr_tbs = dl_curr_tbs', mu_ul_curr_tbs = ul_curr_tbs',
       mu_dl_sched_rb = dl_sched_rb', mu_ul_sched_rb = ul_sched_rb', mu_pusch_snr = pusch_snr', mu_pucch_snr = pucch_snr',
       mu_dl_bler = dl_bler', mu_ul_bler = ul_bler', mu_dl_harq = dl_harq', mu_ul_harq = ul_harq',
       mu_dl_num_harq = dl_num_harq', mu_ul_num_harq = ul_num_harq', mu_rnti = rnti', mu_dl_aggr_prb = dl_aggr_prb',
       mu_ul_aggr_prb = ul_aggr_prb', mu_dl_aggr_sdus = dl_aggr_sdus', mu_ul_aggr_sdus = ul_aggr_sdus',
       mu_dl_aggr_retx_prb = dl_aggr_retx_prb', mu_ul_aggr_retx_prb = ul_aggr_retx_prb', mu_bsr = bsr', mu_frame = frame',
       mu_slot = slot', mu_wb_cqi = wb_cqi', mu_dl_mcs1 = dl_mcs1', mu_ul_mcs1 = ul_mcs1', mu_dl_mcs2 = dl_mcs2',
       mu_ul_mcs2 = ul_mcs2', mu_phr = phr', mu_pad = pad\<rparr>, it)
   }"

definition ok_mac_ue_stats :: "mac_ue_stats \<Rightarrow> bool" where
  "ok_mac_ue_stats s \<longleftrightarrow> length (mu_dl_harq s) = 5 \<and> length (mu_ul_harq s) = 5 \<and> length (mu_pad s) = 6"

section \<open>Encoding\<close>

definition mac_enc_event_trigger_plain :: "mac_event_trigger \<Rightarrow> byte list option" where
  "mac_enc_event_trigger_plain et = do {
     p \<leftarrow> put32 (me_ms et) \<lparr>written = [], room = 4\<rparr>;
     Some (written p)
   }"

definition mac_enc_ind_hdr_plain :: "mac_ind_hdr \<Rightarrow> byte list option" where
  "mac_enc_ind_hdr_plain hdr = do {
     p \<leftarrow> put32 (mh_dummy hdr) \<lparr>written = [], room = 4\<rparr>;
     Some (written p)
   }"

text \<open>The length is computed in 64 bits and kept in 32.\<close>
definition mac_enc_ind_msg_plain :: "mac_ind_msg \<Rightarrow> byte list option" where
  "mac_enc_ind_msg_plain m = do {
     let len = (word_of_nat (4 + 176 * unat (len_ue_stats m) + 8) :: uint32);
     p \<leftarrow> put32 (len_ue_stats m) \<lparr>written = [], room = unat len\<rparr>;
     p \<leftarrow> put_loop (put_struct img_mac_ue_stats) (ue_stats m) 0 (unat (len_ue_stats m)) p;
     p \<leftarrow> put64 (mac_tstamp m) p;
     c_assert (room p = 0);
     Some (written p)
   }"

definition mac_enc_ctrl_hdr_plain :: "mac_ctrl_hdr \<Rightarrow> byte list option" where
  "mac_enc_ctrl_hdr_plain hdr = do {
     p \<leftarrow> put32 (mc_dummy hdr) \<lparr>written = [], room = 4\<rparr>;
     Some (written p)
   }"

definition mac_enc_ctrl_msg_plain :: "mac_ctrl_msg \<Rightarrow> byte list option" where
  "mac_enc_ctrl_msg_plain m = do {
     p \<leftarrow> put32 (mc_action m) \<lparr>written = [], room = 4\<rparr>;
     Some (written p)
   }"

section \<open>Decoding\<close>

text \<open>The event trigger is read without a look at its length.\<close>
definition mac_dec_event_trigger_plain :: "byte list \<Rightarrow> mac_event_trigger option" where
  "mac_dec_event_trigger_plain ev_tr = do {
     (ms, it) \<leftarrow> get32 ev_tr;
     Some \<lparr>me_ms = ms\<rparr>
   }"

definition mac_dec_ind_hdr_plain :: "byte list \<Rightarrow> mac_ind_hdr option" where
  "mac_dec_ind_hdr_plain ind_hdr = do {
     c_assert (length ind_hdr = 4);
     (d, it) \<leftarrow> get32 ind_hdr;
     Some \<lparr>mh_dummy = d\<rparr>
   }"

definition mac_dec_ind_msg_plain :: "byte list \<Rightarrow> mac_ind_msg option" where
  "mac_dec_ind_msg_plain ind_msg = do {
     (n, it) \<leftarrow> get32 ind_msg;
     (us, it) \<leftarrow> get_loop get_mac_ue_stats (unat n) it;
     (t, it) \<leftarrow> get64 it;
     c_assert (it = []);
     Some \<lparr>len_ue_stats = n, ue_stats = us, mac_tstamp = t\<rparr>
   }"

definition mac_dec_ctrl_hdr_plain :: "byte list \<Rightarrow> mac_ctrl_hdr option" where
  "mac_dec_ctrl_hdr_plain ctrl_hdr = do {
     c_assert (length ctrl_hdr = 4);
     (d, it) \<leftarrow> get32 ctrl_hdr;
     Some \<lparr>mc_dummy = d\<rparr>
   }"

definition mac_dec_ctrl_msg_plain :: "byte list \<Rightarrow> mac_ctrl_msg option" where
  "mac_dec_ctrl_msg_plain ctrl_msg = do {
     c_assert (length ctrl_msg = 4);
     (a, it) \<leftarrow> get32 ctrl_msg;
     Some \<lparr>mc_action = a\<rparr>
   }"

section \<open>The structure of statistics\<close>

lemma length_concat_lay32: "length (concat (map lay32 xs)) = 4 * length xs"
  by (induction xs) simp_all

lemma get_lay32s: "n = length xs \<Longrightarrow> get_loop get32 n (concat (map lay32 xs) @ it) = Some (xs, it)"
  using get_loop_append[where f = get32 and lay = lay32 and g = "\<lambda>x. x" and xs = xs and it = it] by (simp add: get_lay)

lemma length_img_mac: "ok_mac_ue_stats s \<Longrightarrow> length (img_mac_ue_stats s) = 176"
  by (simp add: img_mac_ue_stats_def ok_mac_ue_stats_def length_concat_lay32)

lemma get_img_mac:
  assumes "ok_mac_ue_stats s" shows "get_mac_ue_stats (img_mac_ue_stats s @ it) = Some (s, it)"
proof -
  have "get_loop get32 5 (concat (map lay32 (mu_dl_harq s)) @ it) = Some (mu_dl_harq s, it)"
    "get_loop get32 5 (concat (map lay32 (mu_ul_harq s)) @ it) = Some (mu_ul_harq s, it)" for it
    using assms by (simp_all add: ok_mac_ue_stats_def get_lay32s)
  moreover have "take_bytes 6 (mu_pad s @ it) = Some (mu_pad s, it)" for it
    using assms by (simp add: ok_mac_ue_stats_def take_bytes_append)
  ultimately show ?thesis
    by (simp only: get_mac_ue_stats_def img_mac_ue_stats_def append_assoc get_lay bind.bind_lunit case_prod_conv) simp
qed

lemma extends_get_mac: "extends get_mac_ue_stats"
  unfolding get_mac_ue_stats_def[abs_def] by (intro extends_intros)

interpretation mac: wire_struct img_mac_ue_stats get_mac_ue_stats 176 ok_mac_ue_stats
  by unfold_locales (rule length_img_mac get_img_mac extends_get_mac; assumption?)+

section \<open>Messages there and back\<close>

definition ok_mac_ind_msg :: "mac_ind_msg \<Rightarrow> bool" where
  "ok_mac_ind_msg m \<longleftrightarrow> unat (len_ue_stats m) = length (ue_stats m) \<and> (\<forall>s \<in> set (ue_stats m). ok_mac_ue_stats s)"

text \<open>The bytes of a message have to be counted in 32 bits.\<close>
definition fits_mac_ind_msg :: "mac_ind_msg \<Rightarrow> bool" where
  "fits_mac_ind_msg m \<longleftrightarrow> 4 + 176 * length (ue_stats m) + 8 < 2 ^ 32"

lemma mac_enc_lay:
  assumes "ok_mac_ind_msg m" "fits_mac_ind_msg m"
  shows "mac_enc_ind_msg_plain m = Some (lay_stats img_mac_ue_stats (len_ue_stats m) (ue_stats m) (mac_tstamp m))"
proof -
  have "unat (word_of_nat (4 + 176 * unat (len_ue_stats m) + 8) :: uint32) = 4 + 176 * length (ue_stats m) + 8"
    using assms unat_of_nat_32[of "4 + 176 * unat (len_ue_stats m) + 8"]
    by (simp only: ok_mac_ind_msg_def fits_mac_ind_msg_def)
  from mac.put_stats[OF _ _ this, of "len_ue_stats m" "mac_tstamp m"] assms(1) show ?thesis
    by (simp add: ok_mac_ind_msg_def mac_enc_ind_msg_plain_def Let_def)
qed

lemma mac_dec_read:
  "mac_dec_ind_msg_plain bs = Some m \<longleftrightarrow> read_stats get_mac_ue_stats bs = Some ((len_ue_stats m, ue_stats m, mac_tstamp m), [])"
  by (cases m) (auto simp: mac_dec_ind_msg_plain_def read_stats_def monad_simps split: prod.splits)

text \<open>Of more bytes the encoder allocates what remains modulo \<open>2 ^ 32\<close>.\<close>
lemma mac_enc_overflow:
  assumes "ok_mac_ind_msg m" "\<not> fits_mac_ind_msg m"
  shows "mac_enc_ind_msg_plain m = None"
proof -
  have "unat (word_of_nat (4 + 176 * unat (len_ue_stats m) + 8) :: uint32) < 2 ^ 32" by (rule unat_32)
  then have "unat (word_of_nat (4 + 176 * unat (len_ue_stats m) + 8) :: uint32) < 4 + 176 * length (ue_stats m) + 8"
    using assms(2) by (simp add: fits_mac_ind_msg_def)
  from mac.put_stats_short[OF _ _ this, of "len_ue_stats m" "mac_tstamp m"] assms(1) show ?thesis
    by (simp add: ok_mac_ind_msg_def mac_enc_ind_msg_plain_def Let_def)
qed

end
