(* ===== verification/Rlc_Codec.thy ===== *)
theory Rlc_Codec
  imports Struct_Wire
begin

text \<open>
  The plain encoding of the RLC service model: src/sm/rlc_sm/ie/rlc_data_ie.h (the messages),
  src/sm/rlc_sm/enc/rlc_enc_plain.c and src/sm/rlc_sm/dec/rlc_dec_plain.c.  Floating point fields are only
  copied and are held as their bytes; a structure has the bytes that the compiler adds to it.
\<close>

section \<open>Messages\<close>

record rlc_event_trigger =
  rle_ms :: uint32

record rlc_ind_hdr =
  rlh_dummy :: uint32

text \<open>The memory of a structure of statistics, 152 bytes.\<close>
record rlc_rb_stats =
  rb_txpdu_pkts :: uint32
  rb_txpdu_bytes :: uint32
  rb_txpdu_wt_ms :: uint32
  rb_txpdu_dd_pkts :: uint32
  rb_txpdu_dd_bytes :: uint32
  rb_txpdu_retx_pkts :: uint32
  rb_txpdu_retx_bytes :: uint32
  rb_txpdu_segmented :: uint32
  rb_txpdu_status_pkts :: uint32
  rb_txpdu_status_bytes :: uint32
  rb_txbuf_occ_bytes :: uint32
  rb_txbuf_occ_pkts :: uint32
  rb_rxpdu_pkts :: uint32
  rb_rxpdu_bytes :: uint32
  rb_rxpdu_dup_pkts :: uint32
  rb_rxpdu_dup_bytes :: uint32
  rb_rxpdu_dd_pkts :: uint32
  rb_rxpdu_dd_bytes :: uint32
  rb_rxpdu_ow_pkts :: uint32
  rb_rxpdu_ow_bytes :: uint32
  rb_rxpdu_status_pkts :: uint32
  rb_rxpdu_status_bytes :: uint32
  rb_rxbuf_occ_bytes :: uint32
  rb_rxbuf_occ_pkts :: uint32
  rb_txsdu_pkts :: uint32
  rb_pad1 :: "byte list"
  rb_txsdu_bytes :: uint64
  rb_txsdu_avg_time_to_tx :: uint64
  rb_txsdu_wt_us :: uint32
  rb_rxsdu_pkts :: uint32
  rb_rxsdu_bytes :: uint64
  rb_rxsdu_dd_pkts :: uint32
  rb_rxsdu_dd_bytes :: uint32
  rb_rnti :: uint32
  rb_mode :: uint8
  rb_rbid :: uint8
  rb_pad2 :: "byte list"

record rlc_ind_msg =
  rlc_rb :: "rlc_rb_stats list"
  rlc_len :: uint32
  rlc_tstamp :: uint64

record rlc_ctrl_hdr =
  rlc_dummy :: uint32

record rlc_ctrl_msg =
  rlc_action :: uint32

text \<open>The pointer to the identifier of the call process is null when there is none.\<close>
record rlc_ind_data =
  rli_hdr :: rlc_ind_hdr
  rli_msg :: rlc_ind_msg
  rli_proc_id :: "uint32 option"

record rlc_ctrl_req_data =
  rlr_hdr :: rlc_ctrl_hdr
  rlr_msg :: rlc_ctrl_msg

definition img_rlc_rb_stats :: "rlc_rb_stats \<Rightarrow> byte list" where
  "img_rlc_rb_stats s = lay32 (rb_txpdu_pkts s) @ lay32 (rb_txpdu_bytes s) @ lay32 (rb_txpdu_wt_ms s) @ lay32 (rb_txpdu_dd_pkts s) @
    lay32 (rb_txpdu_dd_bytes s) @ lay32 (rb_txpdu_retx_pkts s) @ lay32 (rb_txpdu_retx_bytes s) @
    lay32 (rb_txpdu_segmented s) @ lay32 (rb_txpdu_status_pkts s) @ lay32 (rb_txpdu_status_bytes s) @
    lay32 (rb_txbuf_occ_bytes s) @ lay32 (rb_txbuf_occ_pkts s) @ lay32 (rb_rxpdu_pkts s) @
    lay32 (rb_rxpdu_bytes s) @ lay32 (rb_rxpdu_dup_pkts s) @ lay32 (rb_rxpdu_dup_bytes s) @
    lay32 (rb_rxpdu_dd_pkts s) @ lay32 (rb_rxpdu_dd_bytes s) @ lay32 (rb_rxpdu_ow_pkts s) @
    lay32 (rb_rxpdu_ow_bytes s) @ lay32 (rb_rxpdu_status_pkts s) @ lay32 (rb_rxpdu_status_bytes s) @
    lay32 (rb_rxbuf_occ_bytes s) @ lay32 (rb_rxbuf_occ_pkts s) @ lay32 (rb_txsdu_pkts s) @ rb_pad1 s @
    lay64 (rb_txsdu_bytes s) @ lay64 (rb_txsdu_avg_time_to_tx s) @ lay32 (rb_txsdu_wt_us s) @
    lay32 (rb_rxsdu_pkts s) @ lay64 (rb_rxsdu_bytes s) @ lay32 (rb_rxsdu_dd_pkts s) @ lay32 (rb_rxsdu_dd_bytes s) @
    lay32 (rb_rnti s) @ lay8 (rb_mode s) @ lay8 (rb_rbid s) @ rb_pad2 s"

definition get_rlc_rb_stats :: "byte list \<Rightarrow> (rlc_rb_stats \<times> byte list) option" where
  "get_rlc_rb_stats it = do {
     (txpdu_pkts', it) \<leftarrow> get32 it; (txpdu_bytes', it) \<leftarrow> get32 it;
     (txpdu_wt_ms', it) \<leftarrow> get32 it; (txpdu_dd_pkts', it) \<leftarrow> get32 it;
     (txpdu_dd_bytes', it) \<leftarrow> get32 it; (txpdu_retx_pkts', it) \<leftarrow> get32 it;
     (txpdu_retx_bytes', it) \<leftarrow> get32 it; (txpdu_segmented', it) \<leftarrow> get32 it;
     (txpdu_status_pkts', it) \<leftarrow> get32 it; (txpdu_status_bytes', it) \<leftarrow> get32 it;
     (txbuf_occ_bytes', it) \<leftarrow> get32 it; (txbuf_occ_pkts', it) \<leftarrow> get32 it;
     (rxpdu_pkts', it) \<leftarrow> get32 it; (rxpdu_bytes', it) \<leftarrow> get32 it;
     (rxpdu_dup_pkts', it) \<leftarrow> get32 it; (rxpdu_dup_bytes', it) \<leftarrow> get32 it;
     (rxpdu_dd_pkts', it) \<leftarrow> get32 it; (rxpdu_dd_bytes', it) \<leftarrow> get32 it;
     (rxpdu_ow_pkts', it) \<leftarrow> get32 it; (rxpdu_ow_bytes', it) \<leftarrow> get32 it;
     (rxpdu_status_pkts', it) \<leftarrow> get32 it; (rxpdu_status_bytes', it) \<leftarrow> get32 it;
     (rxbuf_occ_bytes', it) \<leftarrow> get32 it; (rxbuf_occ_pkts', it) \<leftarrow> get32 it;
     (txsdu_pkts', it) \<leftarrow> get32 it; (pad1', it) \<leftarrow> take_bytes 4 it;
     (txsdu_bytes', it) \<leftarrow> get64 it; (txsdu_avg_time_to_tx', it) \<leftarrow> get64 it;
     (txsdu_wt_us', it) \<leftarrow> get32 it; (rxsdu_pkts', it) \<leftarrow> get32 it;
     (rxsdu_bytes', it) \<leftarrow> get64 it; (rxsdu_dd_pkts', it) \<leftarrow> get32 it;
     (rxsdu_dd_bytes', it) \<leftarrow> get32 it; (rnti', it) \<leftarrow> get32 it;
     (mode', it) \<leftarrow> get8 it; (rbid', it) \<leftarrow> get8 it; (pad2', it) \<leftarrow> take_bytes 2 it;
     Some (\<lparr>rb_txpdu_pkts = txpdu_pkts', rb_txpdu_bytes = txpdu_bytes', rb_txpdu_wt_ms = txpdu_wt_ms',
       rb_txpdu_dd_pkts = txpdu_dd_pkts', rb_txpdu_dd_bytes = txpdu_dd_bytes', rb_txpdu_retx_pkts = txpdu_retx_pkts',
       rb_txpdu_retx_bytes = txpdu_retx_bytes', rb_txpdu_segmented = txpdu_segmented',
       rb_txpdu_status_pkts = txpdu_status_pkts', rb_txpdu_status_bytes = txpdu_status_bytes',
       rb_txbuf_occ_bytes = txbuf_occ_bytes', rb_txbuf_occ_pkts = txbuf_occ_pkts', rb_rxpdu_pkts = rxpdu_pkts',
       rb_rxpdu_bytes = rxpdu_bytes', rb_rxpdu_dup_pkts = rxpdu_dup_pkts', rb_rxpdu_dup_bytes = rxpdu_dup_bytes',
       rb_rxpdu_dd_pkts = rxpdu_dd_pkts', rb_rxpdu_dd_bytes = rxpdu_dd_bytes', rb_rxpdu_ow_pkts = rxpdu_ow_pkts',
       rb_rxpdu_ow_bytes = rxpdu_ow_bytes', rb_rxpdu_status_pkts = rxpdu_status_pkts',
       rb_rxpdu_status_bytes = rxpdu_status_bytes', rb_rxbuf_occ_bytes = rxbuf_occ_bytes',
       rb_rxbuf_occ_pkts = rxbuf_occ_pkts', rb_txsdu_pkts = txsdu_pkts', rb_pad1 = pad1',
       rb_txsdu_bytes = txsdu_bytes', rb_txsdu_avg_time_to_tx = txsdu_avg_time_to_tx', rb_txsdu_wt_us = txsdu_wt_us',
       rb_rxsdu_pkts = rxsdu_pkts', rb_rxsdu_bytes = rxsdu_bytes', rb_rxsdu_dd_pkts = rxsdu_dd_pkts',
       rb_rxsdu_dd_bytes = rxsdu_dd_bytes', rb_rnti = rnti', rb_mode = mode', rb_rbid = rbid', rb_pad2 = pad2'\<rparr>, it)
   }"

text \<open>The padding.\<close>
definition ok_rlc_rb_stats :: "rlc_rb_stats \<Rightarrow> bool" where
  "ok_rlc_rb_stats s \<longleftrightarrow> length (rb_pad1 s) = 4 \<and> length (rb_pad2 s) = 2"

section \<open>Encoding\<close>

definition rlc_enc_event_trigger_plain :: "rlc_event_trigger \<Rightarrow> byte list option" where
  "rlc_enc_event_trigger_plain x = do {
     p \<leftarrow> put32 (rle_ms x) \<lparr>written = [], room = 4\<rparr>;
     Some (written p)
   }"

definition rlc_enc_ind_hdr_plain :: "rlc_ind_hdr \<Rightarrow> byte list option" where
  "rlc_enc_ind_hdr_plain x = do {
     p \<leftarrow> put32 (rlh_dummy x) \<lparr>written = [], room = 4\<rparr>;
     Some (written p)
   }"

definition rlc_enc_ind_msg_plain :: "rlc_ind_msg \<Rightarrow> byte list option" where
  "rlc_enc_ind_msg_plain m = do {
     let sz = 4 + 152 * unat (rlc_len m) + 8;
     p \<leftarrow> put32 (rlc_len m) \<lparr>written = [], room = sz\<rparr>;
     p \<leftarrow> put_loop (put_struct img_rlc_rb_stats) (rlc_rb m) 0 (unat (rlc_len m)) p;
     p \<leftarrow> put64 (rlc_tstamp m) p;
     c_assert (room p = 0);
     Some (written p)
   }"

definition rlc_enc_ctrl_hdr_plain :: "rlc_ctrl_hdr \<Rightarrow> byte list option" where
  "rlc_enc_ctrl_hdr_plain x = do {
     p \<leftarrow> put32 (rlc_dummy x) \<lparr>written = [], room = 4\<rparr>;
     Some (written p)
   }"

definition rlc_enc_ctrl_msg_plain :: "rlc_ctrl_msg \<Rightarrow> byte list option" where
  "rlc_enc_ctrl_msg_plain x = do {
     p \<leftarrow> put32 (rlc_action x) \<lparr>written = [], room = 4\<rparr>;
     Some (written p)
   }"

section \<open>Decoding\<close>

text \<open>The event trigger is read without a look at its length.\<close>
definition rlc_dec_event_trigger_plain :: "byte list \<Rightarrow> rlc_event_trigger option" where
  "rlc_dec_event_trigger_plain ba = do {
     (v, it) \<leftarrow> get32 ba;
     Some \<lparr>rle_ms = v\<rparr>
   }"

definition rlc_dec_ind_hdr_plain :: "byte list \<Rightarrow> rlc_ind_hdr option" where
  "rlc_dec_ind_hdr_plain ba = do {
     c_assert (length ba = 4);
     (v, it) \<leftarrow> get32 ba;
     Some \<lparr>rlh_dummy = v\<rparr>
   }"

definition rlc_dec_ind_msg_plain :: "byte list \<Rightarrow> rlc_ind_msg option" where
  "rlc_dec_ind_msg_plain ind_msg = do {
     c_assert (16 \<le> next_pow2 (word_of_nat (length ind_msg)));
     (n, it) \<leftarrow> get32 ind_msg;
     (xs, it) \<leftarrow> get_loop get_rlc_rb_stats (unat n) it;
     (t, it) \<leftarrow> get64 it;
     c_assert (it = []);
     Some \<lparr>rlc_rb = xs, rlc_len = n, rlc_tstamp = t\<rparr>
   }"

definition rlc_dec_ctrl_hdr_plain :: "byte list \<Rightarrow> rlc_ctrl_hdr option" where
  "rlc_dec_ctrl_hdr_plain ba = do {
     c_assert (length ba = 4);
     (v, it) \<leftarrow> get32 ba;
     Some \<lparr>rlc_dummy = v\<rparr>
   }"

definition rlc_dec_ctrl_msg_plain :: "byte list \<Rightarrow> rlc_ctrl_msg option" where
  "rlc_dec_ctrl_msg_plain ba = do {
     c_assert (length ba = 4);
     (v, it) \<leftarrow> get32 ba;
     Some \<lparr>rlc_action = v\<rparr>
   }"

section \<open>The structure of statistics\<close>

lemma length_img_rlc: "ok_rlc_rb_stats s \<Longrightarrow> length (img_rlc_rb_stats s) = 152"
  by (simp add: img_rlc_rb_stats_def ok_rlc_rb_stats_def)

lemma get_img_rlc:
  assumes "ok_rlc_rb_stats s" shows "get_rlc_rb_stats (img_rlc_rb_stats s @ it) = Some (s, it)"
proof -
  have "take_bytes 4 (rb_pad1 s @ it) = Some (rb_pad1 s, it)" for it
    using assms by (simp add: ok_rlc_rb_stats_def take_bytes_append)
  moreover have "take_bytes 2 (rb_pad2 s @ it) = Some (rb_pad2 s, it)" for it
    using assms by (simp add: ok_rlc_rb_stats_def take_bytes_append)
  ultimately show ?thesis
    by (simp only: get_rlc_rb_stats_def img_rlc_rb_stats_def append_assoc get_lay bind.bind_lunit case_prod_conv) simp
qed

lemma extends_get_rlc: "extends get_rlc_rb_stats"
  unfolding get_rlc_rb_stats_def[abs_def] by (intro extends_intros)

interpretation rlc: wire_struct img_rlc_rb_stats get_rlc_rb_stats 152 ok_rlc_rb_stats
  by unfold_locales (rule length_img_rlc get_img_rlc extends_get_rlc; assumption?)+

section \<open>Messages there and back\<close>

definition ok_rlc_ind_msg :: "rlc_ind_msg \<Rightarrow> bool" where
  "ok_rlc_ind_msg m \<longleftrightarrow> unat (rlc_len m) = length (rlc_rb m) \<and> (\<forall>s \<in> set (rlc_rb m). ok_rlc_rb_stats s)"

lemma rlc_enc_lay:
  assumes "ok_rlc_ind_msg m" shows "rlc_enc_ind_msg_plain m = Some (lay_stats img_rlc_rb_stats (rlc_len m) (rlc_rb m) (rlc_tstamp m))"
  using assms rlc.put_stats[of "rlc_rb m" "rlc_len m" "4 + 152 * length (rlc_rb m) + 8" "rlc_tstamp m"]
  by (simp add: ok_rlc_ind_msg_def rlc_enc_ind_msg_plain_def)

lemma rlc_dec_reads: "rlc_dec_ind_msg_plain bs = Some m \<Longrightarrow> read_stats get_rlc_rb_stats bs = Some ((rlc_len m, rlc_rb m, rlc_tstamp m), [])"
  by (cases m) (auto simp: rlc_dec_ind_msg_plain_def read_stats_def monad_simps split: prod.splits)

lemma rlc_dec_read:
  assumes "12 \<le> length bs" "length bs < 2 ^ 63"
  shows "read_stats get_rlc_rb_stats bs = Some ((rlc_len m, rlc_rb m, rlc_tstamp m), []) \<Longrightarrow> rlc_dec_ind_msg_plain bs = Some m"
  using next_pow2_16[OF assms]
  by (cases m) (auto simp: rlc_dec_ind_msg_plain_def read_stats_def monad_simps split: prod.splits)

end
