(* ===== verification/Pdcp_Codec.thy ===== *)
theory Pdcp_Codec
  imports Struct_Wire
begin

text \<open>
  The plain encoding of the PDCP service model: src/sm/pdcp_sm/ie/pdcp_data_ie.h (the messages),
  src/sm/pdcp_sm/enc/pdcp_enc_plain.c and src/sm/pdcp_sm/dec/pdcp_dec_plain.c.  A structure
  has the bytes that the compiler adds to its end.
\<close>

section \<open>Messages\<close>

record pdcp_event_trigger =
  pde_ms :: uint32

record pdcp_ind_hdr =
  pdh_dummy :: uint32

text \<open>The memory of a structure of statistics, 68 bytes.\<close>
record pdcp_rb_stats =
  pb_txpdu_pkts :: uint32
  pb_txpdu_bytes :: uint32
  pb_txpdu_sn :: uint32
  pb_rxpdu_pkts :: uint32
  pb_rxpdu_bytes :: uint32
  pb_rxpdu_sn :: uint32
  pb_rxpdu_oo_pkts :: uint32
  pb_rxpdu_oo_bytes :: uint32
  pb_rxpdu_dd_pkts :: uint32
  pb_rxpdu_dd_bytes :: uint32
  pb_rxpdu_ro_count :: uint32
  pb_txsdu_pkts :: uint32
  pb_txsdu_bytes :: uint32
  pb_rxsdu_pkts :: uint32
  pb_rxsdu_bytes :: uint32
  pb_rnti :: uint32
  pb_mode :: uint8
  pb_rbid :: uint8
  pb_pad :: "byte list"

record pdcp_ind_msg =
  pdcp_len :: uint32
  pdcp_rb :: "pdcp_rb_stats list"
  pdcp_tstamp :: uint64

record pdcp_ctrl_hdr =
  pdc_dummy :: uint32

record pdcp_ctrl_msg =
  pdc_action :: uint32

record pdcp_ctrl_out =
  pdo_ans :: uint32

text \<open>The pointer to the identifier of the call process is null when there is none.\<close>
record pdcp_ind_data =
  pdi_hdr :: pdcp_ind_hdr
  pdi_msg :: pdcp_ind_msg
  pdi_proc_id :: "uint32 option"

record pdcp_ctrl_req_data =
  pdr_hdr :: pdcp_ctrl_hdr
  pdr_msg :: pdcp_ctrl_msg

definition img_pdcp_rb_stats :: "pdcp_rb_stats \<Rightarrow> byte list" where
  "img_pdcp_rb_stats s = lay32 (pb_txpdu_pkts s) @ lay32 (pb_txpdu_bytes s) @ lay32 (pb_txpdu_sn s) @ lay32 (pb_rxpdu_pkts s) @
    lay32 (pb_rxpdu_bytes s) @ lay32 (pb_rxpdu_sn s) @ lay32 (pb_rxpdu_oo_pkts s) @ lay32 (pb_rxpdu_oo_bytes s) @
    lay32 (pb_rxpdu_dd_pkts s) @ lay32 (pb_rxpdu_dd_bytes s) @ lay32 (pb_rxpdu_ro_count s) @
    lay32 (pb_txsdu_pkts s) @ lay32 (pb_txsdu_bytes s) @ lay32 (pb_rxsdu_pkts s) @ lay32 (pb_rxsdu_bytes s) @
    lay32 (pb_rnti s) @ lay8 (pb_mode s) @ lay8 (pb_rbid s) @ pb_pad s"

definition get_pdcp_rb_stats :: "byte list \<Rightarrow> (pdcp_rb_stats \<times> byte list) option" where
  "get_pdcp_rb_stats it = do {
     (txpdu_pkts', it) \<leftarrow> get32 it; (txpdu_bytes', it) \<leftarrow> get32 it;
     (txpdu_sn', it) \<leftarrow> get32 it; (rxpdu_pkts', it) \<leftarrow> get32 it;
     (rxpdu_bytes', it) \<leftarrow> get32 it; (rxpdu_sn', it) \<leftarrow> get32 it;
     (rxpdu_oo_pkts', it) \<leftarrow> get32 it; (rxpdu_oo_bytes', it) \<leftarrow> get32 it;
     (rxpdu_dd_pkts', it) \<leftarrow> get32 it; (rxpdu_dd_bytes', it) \<leftarrow> get32 it;
     (rxpdu_ro_count', it) \<leftarrow> get32 it; (txsdu_pkts', it) \<leftarrow> get32 it;
     (txsdu_bytes', it) \<leftarrow> get32 it; (rxsdu_pkts', it) \<leftarrow> get32 it;
     (rxsdu_bytes', it) \<leftarrow> get32 it; (rnti', it) \<leftarrow> get32 it; (mode', it) \<leftarrow> get8 it;
     (rbid', it) \<leftarrow> get8 it; (pad', it) \<leftarrow> take_bytes 2 it;
     Some (\<lparr>pb_txpdu_pkts = txpdu_pkts', pb_txpdu_bytes = txpdu_bytes', pb_txpdu_sn = txpdu_sn',
       pb_rxpdu_pkts = rxpdu_pkts', pb_rxpdu_bytes = rxpdu_bytes', pb_rxpdu_sn = rxpdu_sn',
       pb_rxpdu_oo_pkts = rxpdu_oo_pkts', pb_rxpdu_oo_bytes = rxpdu_oo_bytes', pb_rxpdu_dd_pkts = rxpdu_dd_pkts',
       pb_rxpdu_dd_bytes = rxpdu_dd_bytes', pb_rxpdu_ro_count = rxpdu_ro_count', pb_txsdu_pkts = txsdu_pkts',
       pb_txsdu_bytes = txsdu_bytes', pb_rxsdu_pkts = rxsdu_pkts', pb_rxsdu_bytes = rxsdu_bytes', pb_rnti = rnti',
       pb_mode = mode', pb_rbid = rbid', pb_pad = pad'\<rparr>, it)
   }"

text \<open>The padding.\<close>
definition ok_pdcp_rb_stats :: "pdcp_rb_stats \<Rightarrow> bool" where
  "ok_pdcp_rb_stats s \<longleftrightarrow> length (pb_pad s) = 2"

section \<open>Encoding\<close>

definition pdcp_enc_event_trigger_plain :: "pdcp_event_trigger \<Rightarrow> byte list option" where
  "pdcp_enc_event_trigger_plain x = do {
     p \<leftarrow> put32 (pde_ms x) \<lparr>written = [], room = 4\<rparr>;
     Some (written p)
   }"

definition pdcp_enc_ind_hdr_plain :: "pdcp_ind_hdr \<Rightarrow> byte list option" where
  "pdcp_enc_ind_hdr_plain x = do {
     p \<leftarrow> put32 (pdh_dummy x) \<lparr>written = [], room = 4\<rparr>;
     Some (written p)
   }"

definition pdcp_enc_ind_msg_plain :: "pdcp_ind_msg \<Rightarrow> byte list option" where
  "pdcp_enc_ind_msg_plain m = do {
     let sz = 4 + 8 + 68 * unat (pdcp_len m);
     p \<leftarrow> put32 (pdcp_len m) \<lparr>written = [], room = sz\<rparr>;
     p \<leftarrow> put_loop (put_struct img_pdcp_rb_stats) (pdcp_rb m) 0 (unat (pdcp_len m)) p;
     p \<leftarrow> put64 (pdcp_tstamp m) p;
     c_assert (room p = 0);
     Some (written p)
   }"

definition pdcp_enc_ctrl_hdr_plain :: "pdcp_ctrl_hdr \<Rightarrow> byte list option" where
  "pdcp_enc_ctrl_hdr_plain x = do {
     p \<leftarrow> put32 (pdc_dummy x) \<lparr>written = [], room = 4\<rparr>;
     Some (written p)
   }"

definition pdcp_enc_ctrl_msg_plain :: "pdcp_ctrl_msg \<Rightarrow> byte list option" where
  "pdcp_enc_ctrl_msg_plain x = do {
     p \<leftarrow> put32 (pdc_action x) \<lparr>written = [], room = 4\<rparr>;
     Some (written p)
   }"

definition pdcp_enc_ctrl_out_plain :: "pdcp_ctrl_out \<Rightarrow> byte list option" where
  "pdcp_enc_ctrl_out_plain x = do {
     p \<leftarrow> put32 (pdo_ans x) \<lparr>written = [], room = 4\<rparr>;
     Some (written p)
   }"

section \<open>Decoding\<close>

text \<open>The event trigger is read without a look at its length.\<close>
definition pdcp_dec_event_trigger_plain :: "byte list \<Rightarrow> pdcp_event_trigger option" where
  "pdcp_dec_event_trigger_plain ba = do {
     (v, it) \<leftarrow> get32 ba;
     Some \<lparr>pde_ms = v\<rparr>
   }"

definition pdcp_dec_ind_hdr_plain :: "byte list \<Rightarrow> pdcp_ind_hdr option" where
  "pdcp_dec_ind_hdr_plain ba = do {
     c_assert (length ba = 4);
     (v, it) \<leftarrow> get32 ba;
     Some \<lparr>pdh_dummy = v\<rparr>
   }"

definition pdcp_dec_ind_msg_plain :: "byte list \<Rightarrow> pdcp_ind_msg option" where
  "pdcp_dec_ind_msg_plain ind_msg = do {
     c_assert (4 + 8 \<le> length ind_msg);
     (n, it) \<leftarrow> get32 ind_msg;
     (xs, it) \<leftarrow> get_loop get_pdcp_rb_stats (unat n) it;
     (t, it) \<leftarrow> get64 it;
     c_assert (it = []);
     Some \<lparr>pdcp_len = n, pdcp_rb = xs, pdcp_tstamp = t\<rparr>
   }"

definition pdcp_dec_ctrl_hdr_plain :: "byte list \<Rightarrow> pdcp_ctrl_hdr option" where
  "pdcp_dec_ctrl_hdr_plain ba = do {
     c_assert (length ba = 4);
     (v, it) \<leftarrow> get32 ba;
     Some \<lparr>pdc_dummy = v\<rparr>
   }"

definition pdcp_dec_ctrl_msg_plain :: "byte list \<Rightarrow> pdcp_ctrl_msg option" where
  "pdcp_dec_ctrl_msg_plain ba = do {
     c_assert (length ba = 4);
     (v, it) \<leftarrow> get32 ba;
     Some \<lparr>pdc_action = v\<rparr>
   }"

text \<open>A message without a byte is refused before its length is compared.\<close>
definition pdcp_dec_ctrl_out_plain :: "byte list \<Rightarrow> pdcp_ctrl_out option" where
  "pdcp_dec_ctrl_out_plain ba = do {
     c_assert (length ba > 0);
     c_assert (length ba = 4);
     (v, it) \<leftarrow> get32 ba;
     Some \<lparr>pdo_ans = v\<rparr>
   }"

section \<open>The structure of statistics\<close>

lemma length_img_pdcp: "ok_pdcp_rb_stats s \<Longrightarrow> length (img_pdcp_rb_stats s) = 68"
  by (simp add: img_pdcp_rb_stats_def ok_pdcp_rb_stats_def)

lemma get_img_pdcp:
  assumes "ok_pdcp_rb_stats s" shows "get_pdcp_rb_stats (img_pdcp_rb_stats s @ it) = Some (s, it)"
proof -
  have "take_bytes 2 (pb_pad s @ it) = Some (pb_pad s, it)" for it
    using assms by (simp add: ok_pdcp_rb_stats_def take_bytes_append)
  then show ?thesis
    by (simp only: get_pdcp_rb_stats_def img_pdcp_rb_stats_def append_assoc get_lay bind.bind_lunit case_prod_conv) simp
qed

lemma extends_get_pdcp: "extends get_pdcp_rb_stats"
  unfolding get_pdcp_rb_stats_def[abs_def] by (intro extends_intros)

interpretation pdcp: wire_struct img_pdcp_rb_stats get_pdcp_rb_stats 68 ok_pdcp_rb_stats
  by unfold_locales (rule length_img_pdcp get_img_pdcp extends_get_pdcp; assumption?)+

section \<open>Messages there and back\<close>

definition ok_pdcp_ind_msg :: "pdcp_ind_msg \<Rightarrow> bool" where
  "ok_pdcp_ind_msg m \<longleftrightarrow> unat (pdcp_len m) = length (pdcp_rb m) \<and> (\<forall>s \<in> set (pdcp_rb m). ok_pdcp_rb_stats s)"

lemma pdcp_enc_lay:
  assumes "ok_pdcp_ind_msg m" shows "pdcp_enc_ind_msg_plain m = Some (lay_stats img_pdcp_rb_stats (pdcp_len m) (pdcp_rb m) (pdcp_tstamp m))"
  using assms pdcp.put_stats[of "pdcp_rb m" "pdcp_len m" "4 + 68 * length (pdcp_rb m) + 8" "pdcp_tstamp m"]
  by (simp add: ok_pdcp_ind_msg_def pdcp_enc_ind_msg_plain_def)

lemma pdcp_dec_reads: "pdcp_dec_ind_msg_plain bs = Some m \<Longrightarrow> read_stats get_pdcp_rb_stats bs = Some ((pdcp_len m, pdcp_rb m, pdcp_tstamp m), [])"
  by (cases m) (auto simp: pdcp_dec_ind_msg_plain_def read_stats_def monad_simps split: prod.splits)

lemma pdcp_dec_read:
  assumes "12 \<le> length bs"
  shows "read_stats get_pdcp_rb_stats bs = Some ((pdcp_len m, pdcp_rb m, pdcp_tstamp m), []) \<Longrightarrow> pdcp_dec_ind_msg_plain bs = Some m"
  using assms
  by (cases m) (auto simp: pdcp_dec_ind_msg_plain_def read_stats_def monad_simps split: prod.splits)

end
