(* ===== verification/Gtp_Codec.thy ===== *)
theory Gtp_Codec
  imports Struct_Wire
begin

text \<open>
  The plain encoding of the GTP service model: src/sm/gtp_sm/ie/gtp_data_ie.h (the messages),
  src/sm/gtp_sm/enc/gtp_enc_plain.c and src/sm/gtp_sm/dec/gtp_dec_plain.c.  A structure
  has the bytes that the compiler adds to its end.
\<close>

section \<open>Messages\<close>

record gtp_event_trigger =
  gte_ms :: uint32

record gtp_ind_hdr =
  gth_dummy :: uint32

text \<open>The memory of a structure of statistics, 12 bytes.\<close>
record gtp_ngu_stats =
  gn_rnti :: uint32
  gn_teidgnb :: uint32
  gn_qfi :: uint8
  gn_teidupf :: uint8
  gn_pad :: "byte list"

record gtp_ind_msg =
  gtp_ngut :: "gtp_ngu_stats list"
  gtp_len :: uint32
  gtp_tstamp :: uint64

record gtp_ctrl_hdr =
  gtc_dummy :: uint32

record gtp_ctrl_msg =
  gtc_action :: uint32

text \<open>The pointer to the identifier of the call process is null when there is none.\<close>
record gtp_ind_data =
  gti_hdr :: gtp_ind_hdr
  gti_msg :: gtp_ind_msg
  gti_proc_id :: "uint32 option"

record gtp_ctrl_req_data =
  gtr_hdr :: gtp_ctrl_hdr
  gtr_msg :: gtp_ctrl_msg

definition img_gtp_ngu_stats :: "gtp_ngu_stats \<Rightarrow> byte list" where
  "img_gtp_ngu_stats s = lay32 (gn_rnti s) @ lay32 (gn_teidgnb s) @ lay8 (gn_qfi s) @ lay8 (gn_teidupf s) @ gn_pad s"

definition get_gtp_ngu_stats :: "byte list \<Rightarrow> (gtp_ngu_stats \<times> byte list) option" where
  "get_gtp_ngu_stats it = do {
     (rnti', it) \<leftarrow> get32 it; (teidgnb', it) \<leftarrow> get32 it; (qfi', it) \<leftarrow> get8 it;
     (teidupf', it) \<leftarrow> get8 it; (pad', it) \<leftarrow> take_bytes 2 it;
     Some (\<lparr>gn_rnti = rnti', gn_teidgnb = teidgnb', gn_qfi = qfi', gn_teidupf = teidupf', gn_pad = pad'\<rparr>, it)
   }"

text \<open>The padding.\<close>
definition ok_gtp_ngu_stats :: "gtp_ngu_stats \<Rightarrow> bool" where
  "ok_gtp_ngu_stats s \<longleftrightarrow> length (gn_pad s) = 2"

section \<open>Encoding\<close>

definition gtp_enc_event_trigger_plain :: "gtp_event_trigger \<Rightarrow> byte list option" where
  "gtp_enc_event_trigger_plain x = do {
     p \<leftarrow> put32 (gte_ms x) \<lparr>written = [], room = 4\<rparr>;
     Some (written p)
   }"

definition gtp_enc_ind_hdr_plain :: "gtp_ind_hdr \<Rightarrow> byte list option" where
  "gtp_enc_ind_hdr_plain x = do {
     p \<leftarrow> put32 (gth_dummy x) \<lparr>written = [], room = 4\<rparr>;
     Some (written p)
   }"

definition gtp_enc_ind_msg_plain :: "gtp_ind_msg \<Rightarrow> byte list option" where
  "gtp_enc_ind_msg_plain m = do {
     let sz = 4 + 12 * unat (gtp_len m) + 8;
     p \<leftarrow> put32 (gtp_len m) \<lparr>written = [], room = sz\<rparr>;
     p \<leftarrow> put_loop (put_struct img_gtp_ngu_stats) (gtp_ngut m) 0 (unat (gtp_len m)) p;
     p \<leftarrow> put64 (gtp_tstamp m) p;
     c_assert (room p = 0);
     Some (written p)
   }"

definition gtp_enc_ctrl_hdr_plain :: "gtp_ctrl_hdr \<Rightarrow> byte list option" where
  "gtp_enc_ctrl_hdr_plain x = do {
     p \<leftarrow> put32 (gtc_dummy x) \<lparr>written = [], room = 4\<rparr>;
     Some (written p)
   }"

definition gtp_enc_ctrl_msg_plain :: "gtp_ctrl_msg \<Rightarrow> byte list option" where
  "gtp_enc_ctrl_msg_plain x = do {
     p \<leftarrow> put32 (gtc_action x) \<lparr>written = [], room = 4\<rparr>;
     Some (written p)
   }"

section \<open>Decoding\<close>

text \<open>The event trigger is read without a look at its length.\<close>
definition gtp_dec_event_trigger_plain :: "byte list \<Rightarrow> gtp_event_trigger option" where
  "gtp_dec_event_trigger_plain ba = do {
     (v, it) \<leftarrow> get32 ba;
     Some \<lparr>gte_ms = v\<rparr>
   }"

definition gtp_dec_ind_hdr_plain :: "byte list \<Rightarrow> gtp_ind_hdr option" where
  "gtp_dec_ind_hdr_plain ba = do {
     c_assert (length ba = 4);
     (v, it) \<leftarrow> get32 ba;
     Some \<lparr>gth_dummy = v\<rparr>
   }"

definition gtp_dec_ind_msg_plain :: "byte list \<Rightarrow> gtp_ind_msg option" where
  "gtp_dec_ind_msg_plain ind_msg = do {
     c_assert (16 \<le> next_pow2 (word_of_nat (length ind_msg)));
     (n, it) \<leftarrow> get32 ind_msg;
     (xs, it) \<leftarrow> get_loop get_gtp_ngu_stats (unat n) it;
     (t, it) \<leftarrow> get64 it;
     c_assert (it = []);
     Some \<lparr>gtp_ngut = xs, gtp_len = n, gtp_tstamp = t\<rparr>
   }"

definition gtp_dec_ctrl_hdr_plain :: "byte list \<Rightarrow> gtp_ctrl_hdr option" where
  "gtp_dec_ctrl_hdr_plain ba = do {
     c_assert (length ba = 4);
     (v, it) \<leftarrow> get32 ba;
     Some \<lparr>gtc_dummy = v\<rparr>
   }"

definition gtp_dec_ctrl_msg_plain :: "byte list \<Rightarrow> gtp_ctrl_msg option" where
  "gtp_dec_ctrl_msg_plain ba = do {
     c_assert (length ba = 4);
     (v, it) \<leftarrow> get32 ba;
     Some \<lparr>gtc_action = v\<rparr>
   }"

section \<open>The structure of statistics\<close>

lemma length_img_gtp: "ok_gtp_ngu_stats s \<Longrightarrow> length (img_gtp_ngu_stats s) = 12"
  by (simp add: img_gtp_ngu_stats_def ok_gtp_ngu_stats_def)

lemma get_img_gtp:
  assumes "ok_gtp_ngu_stats s" shows "get_gtp_ngu_stats (img_gtp_ngu_stats s @ it) = Some (s, it)"
proof -
  have "take_bytes 2 (gn_pad s @ it) = Some (gn_pad s, it)" for it
    using assms by (simp add: ok_gtp_ngu_stats_def take_bytes_append)
  then show ?thesis
    by (simp only: get_gtp_ngu_stats_def img_gtp_ngu_stats_def append_assoc get_lay bind.bind_lunit case_prod_conv) simp
qed

lemma extends_get_gtp: "extends get_gtp_ngu_stats"
  unfolding get_gtp_ngu_stats_def[abs_def] by (intro extends_intros)

interpretation gtp: wire_struct img_gtp_ngu_stats get_gtp_ngu_stats 12 ok_gtp_ngu_stats
  by unfold_locales (rule length_img_gtp get_img_gtp extends_get_gtp; assumption?)+

section \<open>Messages there and back\<close>

definition ok_gtp_ind_msg :: "gtp_ind_msg \<Rightarrow> bool" where
  "ok_gtp_ind_msg m \<longleftrightarrow> unat (gtp_len m) = length (gtp_ngut m) \<and> (\<forall>s \<in> set (gtp_ngut m). ok_gtp_ngu_stats s)"

lemma gtp_enc_lay:
  assumes "ok_gtp_ind_msg m" shows "gtp_enc_ind_msg_plain m = Some (lay_stats img_gtp_ngu_stats (gtp_len m) (gtp_ngut m) (gtp_tstamp m))"
  using assms gtp.put_stats[of "gtp_ngut m" "gtp_len m" "4 + 12 * length (gtp_ngut m) + 8" "gtp_tstamp m"]
  by (simp add: ok_gtp_ind_msg_def gtp_enc_ind_msg_plain_def)

lemma gtp_dec_reads: "gtp_dec_ind_msg_plain bs = Some m \<Longrightarrow> read_stats get_gtp_ngu_stats bs = Some ((gtp_len m, gtp_ngut m, gtp_tstamp m), [])"
  by (cases m) (auto simp: gtp_dec_ind_msg_plain_def read_stats_def monad_simps split: prod.splits)

lemma gtp_dec_read:
  assumes "12 \<le> length bs" "length bs < 2 ^ 63"
  shows "read_stats get_gtp_ngu_stats bs = Some ((gtp_len m, gtp_ngut m, gtp_tstamp m), []) \<Longrightarrow> gtp_dec_ind_msg_plain bs = Some m"
  using next_pow2_16[OF assms]
  by (cases m) (auto simp: gtp_dec_ind_msg_plain_def read_stats_def monad_simps split: prod.splits)

end
