(* ===== verification/Stats_Roundtrip.thy ===== *)
theory Stats_Roundtrip
  imports Mac_Codec Rlc_Codec Pdcp_Codec Gtp_Codec
begin

text \<open>
  What the service models MAC, RLC, PDCP and GTP send is what is read: the properties of the four plain codecs.
\<close>

section \<open>Encoding and decoding\<close>

lemma mac_there_and_back:
  assumes "ok_mac_ind_msg m" "fits_mac_ind_msg m"
  obtains ba where "mac_enc_ind_msg_plain m = Some ba" "mac_dec_ind_msg_plain ba = Some m"
    "\<And>k. k < length ba \<Longrightarrow> mac_dec_ind_msg_plain (take k ba) = None"
proof (rule that[OF mac_enc_lay[OF assms]])
  have o: "\<forall>s \<in> set (ue_stats m). ok_mac_ue_stats s" "unat (len_ue_stats m) = length (ue_stats m)"
    using assms(1) by (simp_all add: ok_mac_ind_msg_def)
  show "mac_dec_ind_msg_plain (lay_stats img_mac_ue_stats (len_ue_stats m) (ue_stats m) (mac_tstamp m)) = Some m"
    using mac.read_lay_stats[OF o, of "mac_tstamp m" "[]"] by (simp add: mac_dec_read)
  fix k assume "k < length (lay_stats img_mac_ue_stats (len_ue_stats m) (ue_stats m) (mac_tstamp m))"
  from mac.stats_truncated[OF o this]
  show "mac_dec_ind_msg_plain (take k (lay_stats img_mac_ue_stats (len_ue_stats m) (ue_stats m) (mac_tstamp m))) = None"
    by (metis mac_dec_read not_Some_eq)
qed

text \<open>A length in 32 bits, of elements of at most 152 bytes.\<close>
lemma stats_bytes: "unat (n :: uint32) = k \<Longrightarrow> 4 + 152 * k + 8 < 2 ^ 63"
  using unsigned_less[where w = n and 'a = nat] by simp

lemma rlc_there_and_back:
  assumes "ok_rlc_ind_msg m"
  obtains ba where "rlc_enc_ind_msg_plain m = Some ba" "rlc_dec_ind_msg_plain ba = Some m"
    "\<And>k. k < length ba \<Longrightarrow> rlc_dec_ind_msg_plain (take k ba) = None"
proof (rule that[OF rlc_enc_lay[OF assms]])
  let ?b = "lay_stats img_rlc_rb_stats (rlc_len m) (rlc_rb m) (rlc_tstamp m)"
  have o: "\<forall>s \<in> set (rlc_rb m). ok_rlc_rb_stats s" "unat (rlc_len m) = length (rlc_rb m)"
    using assms(1) by (simp_all add: ok_rlc_ind_msg_def)
  have "read_stats get_rlc_rb_stats ?b = Some ((rlc_len m, rlc_rb m, rlc_tstamp m), [])"
    using rlc.read_lay_stats[OF o, of "rlc_tstamp m" "[]"] by simp
  then show "rlc_dec_ind_msg_plain ?b = Some m"
    using stats_bytes[OF o(2)] by (intro rlc_dec_read) (simp_all add: rlc.length_stats[OF o(1)])
  fix k assume "k < length ?b"
  from rlc.stats_truncated[OF o this] show "rlc_dec_ind_msg_plain (take k ?b) = None"
    using rlc_dec_reads by (metis not_Some_eq)
qed

lemma pdcp_there_and_back:
  assumes "ok_pdcp_ind_msg m"
  obtains ba where "pdcp_enc_ind_msg_plain m = Some ba" "pdcp_dec_ind_msg_plain ba = Some m"
    "\<And>k. k < length ba \<Longrightarrow> pdcp_dec_ind_msg_plain (take k ba) = None"
proof (rule that[OF pdcp_enc_lay[OF assms]])
  let ?b = "lay_stats img_pdcp_rb_stats (pdcp_len m) (pdcp_rb m) (pdcp_tstamp m)"
  have o: "\<forall>s \<in> set (pdcp_rb m). ok_pdcp_rb_stats s" "unat (pdcp_len m) = length (pdcp_rb m)"
    using assms(1) by (simp_all add: ok_pdcp_ind_msg_def)
  have "read_stats get_pdcp_rb_stats ?b = Some ((pdcp_len m, pdcp_rb m, pdcp_tstamp m), [])"
    using pdcp.read_lay_stats[OF o, of "pdcp_tstamp m" "[]"] by simp
  then show "pdcp_dec_ind_msg_plain ?b = Some m"
    using stats_bytes[OF o(2)] by (intro pdcp_dec_read) (simp_all add: pdcp.length_stats[OF o(1)])
  fix k assume "k < length ?b"
  from pdcp.stats_truncated[OF o this] show "pdcp_dec_ind_msg_plain (take k ?b) = None"
    using pdcp_dec_reads by (metis not_Some_eq)
qed

lemma gtp_there_and_back:
  assumes "ok_gtp_ind_msg m"
  obtains ba where "gtp_enc_ind_msg_plain m = Some ba" "gtp_dec_ind_msg_plain ba = Some m"
    "\<And>k. k < length ba \<Longrightarrow> gtp_dec_ind_msg_plain (take k ba) = None"
proof (rule that[OF gtp_enc_lay[OF assms]])
  let ?b = "lay_stats img_gtp_ngu_stats (gtp_len m) (gtp_ngut m) (gtp_tstamp m)"
  have o: "\<forall>s \<in> set (gtp_ngut m). ok_gtp_ngu_stats s" "unat (gtp_len m) = length (gtp_ngut m)"
    using assms(1) by (simp_all add: ok_gtp_ind_msg_def)
  have "read_stats get_gtp_ngu_stats ?b = Some ((gtp_len m, gtp_ngut m, gtp_tstamp m), [])"
    using gtp.read_lay_stats[OF o, of "gtp_tstamp m" "[]"] by simp
  then show "gtp_dec_ind_msg_plain ?b = Some m"
    using stats_bytes[OF o(2)] by (intro gtp_dec_read) (simp_all add: gtp.length_stats[OF o(1)])
  fix k assume "k < length ?b"
  from gtp.stats_truncated[OF o this] show "gtp_dec_ind_msg_plain (take k ?b) = None"
    using gtp_dec_reads by (metis not_Some_eq)
qed

section \<open>Properties\<close>

text \<open>C33: An indication message of MAC, RLC, PDCP or GTP, encoded and decoded, is the message, and no part of it that is cut off
  before its end is decoded: the decoder finds that bytes are missing, or reads beyond the end.\<close>
theorem stats_roundtrip:
  assumes "ok_mac_ind_msg m" "fits_mac_ind_msg m" "ok_rlc_ind_msg r" "ok_pdcp_ind_msg p" "ok_gtp_ind_msg g"
  shows "(\<exists>ba. mac_enc_ind_msg_plain m = Some ba \<and> mac_dec_ind_msg_plain ba = Some m \<and>
      (\<forall>k < length ba. mac_dec_ind_msg_plain (take k ba) = None)) \<and>
    (\<exists>ba. rlc_enc_ind_msg_plain r = Some ba \<and> rlc_dec_ind_msg_plain ba = Some r \<and>
      (\<forall>k < length ba. rlc_dec_ind_msg_plain (take k ba) = None)) \<and>
    (\<exists>ba. pdcp_enc_ind_msg_plain p = Some ba \<and> pdcp_dec_ind_msg_plain ba = Some p \<and>
      (\<forall>k < length ba. pdcp_dec_ind_msg_plain (take k ba) = None)) \<and>
    (\<exists>ba. gtp_enc_ind_msg_plain g = Some ba \<and> gtp_dec_ind_msg_plain ba = Some g \<and>
      (\<forall>k < length ba. gtp_dec_ind_msg_plain (take k ba) = None))"
  by (intro conjI) (use mac_there_and_back[OF assms(1,2)] in metis, use rlc_there_and_back[OF assms(3)] in metis,
    use pdcp_there_and_back[OF assms(4)] in metis, use gtp_there_and_back[OF assms(5)] in metis)

text \<open>The encoder of MAC counts the bytes of a message in 32 bits: of 24403224 users or more it allocates the remainder and writes
  beyond the buffer.\<close>
theorem mac_ind_msg_overflow:
  assumes "ok_mac_ind_msg m" "24403224 \<le> length (ue_stats m)"
  shows "mac_enc_ind_msg_plain m = None"
  using assms by (intro mac_enc_overflow) (simp_all add: fits_mac_ind_msg_def)

section \<open>Examples\<close>

definition ex_ue :: mac_ue_stats where
  "ex_ue = \<lparr>mu_dl_aggr_tbs = 1, mu_ul_aggr_tbs = 2, mu_dl_aggr_bytes_sdus = 3, mu_ul_aggr_bytes_sdus = 4, mu_dl_curr_tbs = 5,
     mu_ul_curr_tbs = 6, mu_dl_sched_rb = 7, mu_ul_sched_rb = 8, mu_pusch_snr = 9, mu_pucch_snr = 10, mu_dl_bler = 11, mu_ul_bler = 12,
     mu_dl_harq = [1, 2, 3, 4, 5], mu_ul_harq = [6, 7, 8, 9, 10], mu_dl_num_harq = 1, mu_ul_num_harq = 2, mu_rnti = 3,
     mu_dl_aggr_prb = 4, mu_ul_aggr_prb = 5, mu_dl_aggr_sdus = 6, mu_ul_aggr_sdus = 7, mu_dl_aggr_retx_prb = 8,
     mu_ul_aggr_retx_prb = 9, mu_bsr = 10, mu_frame = 11, mu_slot = 12, mu_wb_cqi = 13, mu_dl_mcs1 = 14, mu_ul_mcs1 = 15,
     mu_dl_mcs2 = 16, mu_ul_mcs2 = 17, mu_phr = 18, mu_pad = [0, 0, 0, 0, 0, 0]\<rparr>"

definition ex_mac_msg :: mac_ind_msg where
  "ex_mac_msg = \<lparr>len_ue_stats = 2, ue_stats = [ex_ue, ex_ue], mac_tstamp = 77\<rparr>"

lemma ex_mac_msg_ok: "ok_mac_ind_msg ex_mac_msg" "fits_mac_ind_msg ex_mac_msg"
  by (simp_all add: ok_mac_ind_msg_def fits_mac_ind_msg_def ex_mac_msg_def ok_mac_ue_stats_def ex_ue_def)

theorem stats_roundtrip_witness:
  "(\<exists>ba. mac_enc_ind_msg_plain ex_mac_msg = Some ba \<and> mac_dec_ind_msg_plain ba = Some ex_mac_msg) \<and>
   (\<exists>ba. rlc_enc_ind_msg_plain \<lparr>rlc_rb = [], rlc_len = 0, rlc_tstamp = 5\<rparr> = Some ba \<and>
      rlc_dec_ind_msg_plain ba = Some \<lparr>rlc_rb = [], rlc_len = 0, rlc_tstamp = 5\<rparr>)"
proof -
  have "ok_rlc_ind_msg \<lparr>rlc_rb = [], rlc_len = 0, rlc_tstamp = 5\<rparr>" "ok_pdcp_ind_msg \<lparr>pdcp_len = 0, pdcp_rb = [], pdcp_tstamp = 5\<rparr>"
    "ok_gtp_ind_msg \<lparr>gtp_ngut = [\<lparr>gn_rnti = 1, gn_teidgnb = 2, gn_qfi = 3, gn_teidupf = 4, gn_pad = [0, 0]\<rparr>], gtp_len = 1, gtp_tstamp = 5\<rparr>"
    by (simp_all add: ok_rlc_ind_msg_def ok_pdcp_ind_msg_def ok_gtp_ind_msg_def ok_gtp_ngu_stats_def)
  from stats_roundtrip[OF ex_mac_msg_ok this] show ?thesis by blast
qed

theorem mac_ind_msg_overflow_witness:
  "\<exists>m. ok_mac_ind_msg m \<and> 24403224 \<le> length (ue_stats m) \<and> mac_enc_ind_msg_plain m = None"
proof -
  obtain n :: nat where n: "n = 24403224" by blast
  let ?m = "\<lparr>len_ue_stats = word_of_nat n, ue_stats = replicate n ex_ue, mac_tstamp = 0\<rparr>"
  have "unat (word_of_nat n :: uint32) = n" by (rule unat_of_nat_32) (simp add: n)
  then have "ok_mac_ind_msg ?m" by (simp add: ok_mac_ind_msg_def ok_mac_ue_stats_def ex_ue_def)
  moreover have "24403224 \<le> length (ue_stats ?m)" by (simp add: n)
  ultimately show ?thesis using mac_ind_msg_overflow by blast
qed

end
