(* ===== verification/Rb_Delete.thy ===== *)
theory Rb_Delete
  imports Rb_Map
begin

text \<open>
  The extraction fix-up on trees with a hole, and the proof that the pointer code performs it.
  The node in focus may be the shared leaf, whose parent link is then the only trace of the place.
\<close>

section \<open>The fix-up on trees with a hole\<close>

text \<open>The cases with a black sibling \<open>w\<close>: the new subtree, and whether it still lacks a black.\<close>
definition del_case ::
  "side \<Rightarrow> addr \<Rightarrow> assoc_color \<Rightarrow> 'k \<Rightarrow> 'v \<Rightarrow> ('k, 'v) tr \<Rightarrow> ('k, 'v) tr \<Rightarrow> bool \<times> ('k, 'v) tr"
where
  "del_case s p cp kp vp x w = (case w of
     Lf \<Rightarrow> (True, nd s p cp kp vp x w)
   | Nd wa cw kw vw l r \<Rightarrow>
       (let near = (if s = L then l else r); far = (if s = L then r else l) in
        if color near = ASSOC_BLACK \<and> color far = ASSOC_BLACK
        then (True, nd s p cp kp vp x (nd s wa ASSOC_RED kw vw near far))
        else if color far = ASSOC_BLACK
        then (case near of
            Lf \<Rightarrow> (True, nd s p cp kp vp x w)
          | Nd na cn kn vn l' r' \<Rightarrow>
              (False, nd s na cp kn vn (nd s p ASSOC_BLACK kp vp x (if s = L then l' else r'))
                 (nd s wa ASSOC_BLACK kw vw (if s = L then r' else l') far)))
        else (False, nd s wa cp kw vw (nd s p ASSOC_BLACK kp vp x near) (paint ASSOC_BLACK far))))"

lemma del_case_case2:
  "color near = ASSOC_BLACK \<Longrightarrow> color far = ASSOC_BLACK \<Longrightarrow>
     del_case s p cp kp vp x (nd s wa cw kw vw near far) =
       (True, nd s p cp kp vp x (nd s wa ASSOC_RED kw vw near far))"
  by (cases s) (simp_all add: del_case_def nd_def)

lemma del_case_case3:
  "color far = ASSOC_BLACK \<Longrightarrow>
     del_case s p cp kp vp x (nd s wa cw kw vw (nd s na ASSOC_RED kn vn a b) far) =
       (False, nd s na cp kn vn (nd s p ASSOC_BLACK kp vp x a) (nd s wa ASSOC_BLACK kw vw b far))"
  by (cases s) (simp_all add: del_case_def nd_def)

lemma del_case_case4:
  "color far = ASSOC_RED \<Longrightarrow>
     del_case s p cp kp vp x (nd s wa cw kw vw near far) =
       (False, nd s wa cp kw vw (nd s p ASSOC_BLACK kp vp x near) (paint ASSOC_BLACK far))"
  by (cases s) (simp_all add: del_case_def nd_def)

lemmas del_case_simps = del_case_case2 del_case_case3 del_case_case4

fun del_fix :: "('k, 'v) path \<Rightarrow> ('k, 'v) tr \<Rightarrow> ('k, 'v) tr" where
  "del_fix [] x = paint ASSOC_BLACK x"
| "del_fix (Fr s p cp kp vp w # fs) x =
     (if color x = ASSOC_RED then plug (Fr s p cp kp vp w # fs) (paint ASSOC_BLACK x)
      else case w of
        Nd wa ASSOC_RED kw vw l r \<Rightarrow>
          (let near = (if s = L then l else r); far = (if s = L then r else l);
               gs = Fr s wa ASSOC_BLACK kw vw far # fs in
           case del_case s p ASSOC_RED kp vp x near of
             (True, t) \<Rightarrow> plug gs (paint ASSOC_BLACK t)
           | (False, t) \<Rightarrow> paint ASSOC_BLACK (plug gs t))
      | _ \<Rightarrow>
          (case del_case s p cp kp vp x w of
             (True, t) \<Rightarrow> del_fix fs t
           | (False, t) \<Rightarrow> paint ASSOC_BLACK (plug fs t)))"

lemma del_fix_red: "color x = ASSOC_RED \<Longrightarrow> del_fix fs x = plug fs (paint ASSOC_BLACK x)"
proof (cases fs)
  case (Cons f gs)
  assume "color x = ASSOC_RED"
  then show ?thesis using Cons by (cases f) simp
qed simp

text \<open>A red sibling is moved up; the round then ends with the sibling's near child.\<close>
lemma del_fix_red_sibling:
  assumes "color x = ASSOC_BLACK"
  shows "del_fix (Fr s p cp kp vp (nd s wa ASSOC_RED kw vw near far) # fs) x =
    (case del_case s p ASSOC_RED kp vp x near of
       (True, t) \<Rightarrow> plug (Fr s wa ASSOC_BLACK kw vw far # fs) (paint ASSOC_BLACK t)
     | (False, t) \<Rightarrow> paint ASSOC_BLACK (plug (Fr s wa ASSOC_BLACK kw vw far # fs) t))"
  by (induct s) (use assms in \<open>simp_all add: nd_def Let_def\<close>)

lemma del_fix_black_sibling:
  "color x = ASSOC_BLACK \<Longrightarrow> color w = ASSOC_BLACK \<Longrightarrow>
   del_fix (Fr s p cp kp vp w # fs) x =
    (case del_case s p cp kp vp x w of
       (True, t) \<Rightarrow> del_fix fs t
     | (False, t) \<Rightarrow> paint ASSOC_BLACK (plug fs t))"
  by (cases w) auto

section \<open>It restores the invariants\<close>

lemma balanced_nd_split:
  "w \<noteq> Lf \<Longrightarrow> \<exists>wa cw kw vw near far. w = nd s wa cw kw vw near far"
  using tr_cases_nd[of w s] by auto

lemma del_case_inv:
  assumes x: "balanced x" "no_red_red x" "color x = ASSOC_BLACK"
    and w: "balanced w" "no_red_red w" "color w = ASSOC_BLACK" "bh w = Suc (bh x)"
    and r: "del_case s p cp kp vp x w = (b, t)"
  shows "balanced t" "entries t = entries (nd s p cp kp vp x w)"
    "b \<Longrightarrow> bh t = bh x + weight cp \<and> color t = cp \<and> no_red_red (paint ASSOC_BLACK t)"
    "\<not> b \<Longrightarrow> bh t = Suc (bh x) + weight cp \<and> color t = cp \<and> no_red_red t"
proof -
  obtain wa kw vw near far where wnd: "w = nd s wa ASSOC_BLACK kw vw near far"
    using w(3,4) tr_cases_nd[of w s] by fastforce
  have h: "bh near = bh x" "bh far = bh x" "balanced near" "balanced far" "no_red_red near" "no_red_red far"
    using w by (auto simp: wnd)
  have "balanced t \<and> entries t = entries (nd s p cp kp vp x w) \<and>
    (b \<longrightarrow> bh t = bh x + weight cp \<and> color t = cp \<and> no_red_red (paint ASSOC_BLACK t)) \<and>
    (\<not> b \<longrightarrow> bh t = Suc (bh x) + weight cp \<and> color t = cp \<and> no_red_red t)"
  proof (cases "color far = ASSOC_RED")
    case True
    then have f: "bh (paint ASSOC_BLACK far) = Suc (bh x)" using bh_paint_red h(2) by metis
    have "t = nd s wa cp kw vw (nd s p ASSOC_BLACK kp vp x near) (paint ASSOC_BLACK far)" "\<not> b"
      using r True by (auto simp: wnd del_case_simps)
    then show ?thesis using x h f by (cases s) (auto simp: wnd nd_def)
  next
    case far: False
    show ?thesis
    proof (cases "color near = ASSOC_BLACK")
      case True
      then have "t = nd s p cp kp vp x (nd s wa ASSOC_RED kw vw near far)" "b"
        using r far by (auto simp: wnd del_case_simps)
      then show ?thesis using x h far True by (cases s) (auto simp: wnd nd_def)
    next
      case False
      then obtain na kn vn c d where nnd: "near = nd s na ASSOC_RED kn vn c d"
        using tr_cases_nd[of near s] by fastforce
      then have "bh c = bh x" "bh d = bh x" "balanced c" "balanced d" "no_red_red c" "no_red_red d"
        using h by auto
      moreover have "t = nd s na cp kn vn (nd s p ASSOC_BLACK kp vp x c) (nd s wa ASSOC_BLACK kw vw d far)"
        "\<not> b" using r far by (auto simp: wnd nnd del_case_simps)
      ultimately show ?thesis using x h by (cases s) (auto simp: wnd nnd nd_def)
    qed
  qed
  then show "balanced t" "entries t = entries (nd s p cp kp vp x w)"
    "b \<Longrightarrow> bh t = bh x + weight cp \<and> color t = cp \<and> no_red_red (paint ASSOC_BLACK t)"
    "\<not> b \<Longrightarrow> bh t = Suc (bh x) + weight cp \<and> color t = cp \<and> no_red_red t" by blast+
qed

lemma top_black_plug: "top_black fs \<Longrightarrow> fs \<noteq> [] \<Longrightarrow> color (plug fs t) = ASSOC_BLACK"
proof (induction fs arbitrary: t)
  case (Cons f fs)
  then show ?case by (cases f; cases fs) auto
qed simp

lemma is_rbt_plug:
  "balanced t \<Longrightarrow> no_red_red t \<Longrightarrow> pbal (bh t) fs \<Longrightarrow> pcol (color t) fs \<Longrightarrow> top_black fs \<Longrightarrow> fs \<noteq> [] \<Longrightarrow>
     is_rbt (plug fs t)"
  by (simp add: is_rbt_def balanced_plug no_red_red_plug top_black_plug)

lemma is_rbt_paint_plug:
  "balanced t \<Longrightarrow> no_red_red t \<Longrightarrow> pbal (bh t) fs \<Longrightarrow> pcol (color t) fs \<Longrightarrow>
     is_rbt (paint ASSOC_BLACK (plug fs t))"
  by (simp add: is_rbt_def balanced_plug no_red_red_plug)

lemma paint_same [simp]: "color t = c \<Longrightarrow> paint c t = t"
  by (cases t) auto

lemma color_paint [simp]: "t \<noteq> Lf \<Longrightarrow> color (paint c t) = c"
  by (cases t) auto

lemma entries_plug_paint: "entries (plug fs (paint c t)) = entries (plug fs t)"
  by (simp add: entries_plug)

lemma del_fix_inv:
  assumes "balanced x" "no_red_red (paint ASSOC_BLACK x)" "pbal (Suc (bh x)) fs" "pcol ASSOC_BLACK fs"
    "top_black fs"
  shows "is_rbt (del_fix fs x) \<and> entries (del_fix fs x) = entries (plug fs x)"
  using assms
proof (induction fs arbitrary: x)
  case Nil
  then show ?case by (simp add: is_rbt_def)
next
  case (Cons f fs)
  show ?case
  proof (cases "color x = ASSOC_RED")
    case True
    then have "bh (paint ASSOC_BLACK x) = Suc (bh x)" by (rule bh_paint_red)
    then show ?thesis using Cons.prems True by (simp add: del_fix_red is_rbt_plug entries_plug del: plug.simps)
  next
    case False
    then have x: "balanced x" "no_red_red x" "color x = ASSOC_BLACK" using Cons.prems by auto
    obtain s p cp kp vp w where f: "f = Fr s p cp kp vp w" by (cases f)
    have w: "bh w = Suc (bh x)" "balanced w" "no_red_red w" "pbal (Suc (bh x) + weight cp) fs"
      "cp = ASSOC_RED \<Longrightarrow> color w = ASSOC_BLACK" "pcol cp fs"
      using Cons.prems f by auto
    have tb: "top_black fs" using Cons.prems(5) by (auto split: if_splits)
    show ?thesis
    proof (cases "color w = ASSOC_RED")
      case True
      then obtain wa kw vw near far where wnd: "w = nd s wa ASSOC_RED kw vw near far"
        using tr_cases_nd[of w s] by fastforce
      have cp: "cp = ASSOC_BLACK" using w(5) True by (cases cp) auto
      have nf: "balanced near" "balanced far" "no_red_red near" "no_red_red far" "color near = ASSOC_BLACK"
        "color far = ASSOC_BLACK" "bh near = Suc (bh x)" "bh far = Suc (bh x)" using w by (auto simp: wnd)
      obtain b t where dc: "del_case s p ASSOC_RED kp vp x near = (b, t)" by fastforce
      note inv = del_case_inv[OF x nf(1,3,5,7) dc]
      let ?gs = "Fr s wa ASSOC_BLACK kw vw far # fs"
      have gs: "pbal (Suc (bh x)) ?gs" "pcol ASSOC_BLACK ?gs" "pcol ASSOC_RED ?gs" "top_black ?gs" "?gs \<noteq> []"
        using nf w cp tb by auto
      have e: "entries (plug ?gs t) = entries (plug (f # fs) x)"
        using inv(2) by (cases s) (simp_all add: f wnd entries_plug nd_def)
      show ?thesis
      proof (cases b)
        case True
        then have "bh (paint ASSOC_BLACK t) = Suc (bh x)" "color (paint ASSOC_BLACK t) = ASSOC_BLACK"
          using inv(3) bh_paint_red[of t] by simp_all
        then have "is_rbt (plug ?gs (paint ASSOC_BLACK t))"
          using inv(1,3) True gs by (intro is_rbt_plug) (simp_all del: plug.simps)
        then show ?thesis using dc True e x
          by (simp add: f wnd del_fix_red_sibling entries_plug_paint del: plug.simps del_fix.simps)
      next
        case False
        then have "is_rbt (paint ASSOC_BLACK (plug ?gs t))"
          using inv(1,4) gs by (intro is_rbt_paint_plug) (simp_all del: plug.simps)
        then show ?thesis using dc False e x
          by (simp add: f wnd del_fix_red_sibling del: plug.simps del_fix.simps)
      qed
    next
      case False
      then have wb: "color w = ASSOC_BLACK" by simp
      obtain b t where dc: "del_case s p cp kp vp x w = (b, t)" by fastforce
      note inv = del_case_inv[OF x w(2,3) wb w(1) dc]
      have e: "entries (plug fs t) = entries (plug (f # fs) x)" using inv(2) by (simp add: f entries_plug)
      have df: "del_fix (f # fs) x = (if b then del_fix fs t else paint ASSOC_BLACK (plug fs t))"
        using dc wb x by (simp add: f del_fix_black_sibling del: del_fix.simps)
      show ?thesis
      proof (cases b)
        case True
        then have "is_rbt (del_fix fs t) \<and> entries (del_fix fs t) = entries (plug fs t)"
          using inv(1,3) w tb pcol_mono[OF w(6)] by (intro Cons.IH) (simp_all add: add.commute)
        then show ?thesis using df True e by simp
      next
        case False
        then have "is_rbt (paint ASSOC_BLACK (plug fs t))"
          using inv(1,4) w by (intro is_rbt_paint_plug) simp_all
        then show ?thesis using df False e by simp
      qed
    qed
  qed
qed

section \<open>The pointer code performs it\<close>

text \<open>The focus may be the shared leaf: then its parent link is part of the state.\<close>
definition at_node :: "('k, 'v) assoc_rb_tree \<Rightarrow> ('k, 'v) path \<Rightarrow> ('k, 'v) tr \<Rightarrow> bool" where
  "at_node T fs x \<longleftrightarrow> zrep T fs x \<and> parent_of T (ptr (dummy T) x) = Some (path_parent (dummy T) fs)"

lemma zrep_dummy_not: "zrep T fs x \<Longrightarrow> dummy T \<notin> zaddrs fs x"
  by (simp add: zrep_def zaddrs_def)

text \<open>An operation that keeps the dummy node keeps the parent link of the focus.\<close>
lemma at_node_keeps:
  assumes a: "at_node T fs x" and z: "zrep T' fs' x" and k: "keeps A T T'" "dummy T \<notin> A"
    and p: "path_parent (dummy T) fs' = path_parent (dummy T) fs"
  shows "at_node T' fs' x"
proof (cases "x = Lf")
  case True
  then show ?thesis
    using a z p keeps_heap[OF k] keeps_dummy[OF k(1)] by (simp add: at_node_def parent_of_def get_def)
next
  case False
  then show ?thesis using z zrep_parent_color(1)[OF z] by (simp add: at_node_def)
qed

lemma delete_far_nephew_zrep:
  assumes a: "at_node T (Fr s p cp kp vp (nd s wa ASSOC_BLACK kw vw near far) # fs) x"
    and far: "color far = ASSOC_RED"
  obtains T' where "delete_far_nephew s T (ptr (dummy T) x) wa = Some (T', root T')"
    "zrep T' fs (nd s wa cp kw vw (nd s p ASSOC_BLACK kp vp x near) (paint ASSOC_BLACK far))"
    "keeps (zaddrs (Fr s p cp kp vp (nd s wa ASSOC_BLACK kw vw near far) # fs) x) T T'"
proof -
  let ?W = "\<lambda>c. nd s wa c kw vw near far"
  let ?A = "zaddrs (Fr s p cp kp vp (?W ASSOC_BLACK) # fs) x"
  have z: "zrep T (Fr s p cp kp vp (?W ASSOC_BLACK) # fs) x" and px: "parent_of T (ptr (dummy T) x) = Some p"
    using a by (simp_all add: at_node_def)
  have fL: "far \<noteq> Lf" using far by auto
  note zw = zrep_swapD[OF z]
  have rd: "color_of T wa = Some ASSOC_BLACK" "child_of (opp s) T wa = Some (ptr (dummy T) far)"
    "color_of T (ptr (dummy T) far) = Some ASSOC_RED" "color_of T p = Some cp"
    using zrep_node(2,5)[OF zw] zrep_color[OF zrep_swapD[OF zrep_downD[OF zw]]] far
      zrep_node(2)[OF z[folded zrep_down]] by simp_all
  from set_color_zrep[OF zw, of cp] obtain T1 where T1: "set_color T wa cp = Some T1"
    "zrep T1 (Fr (opp s) p cp kp vp x # fs) (?W cp)" "keeps {wa} T T1" .
  have d1: "dummy T1 = dummy T" using keeps_dummy[OF T1(3)] .
  from set_color_zrep[OF T1(2)[folded zrep_down], of ASSOC_BLACK] obtain T2 where
    T2: "set_color T1 p ASSOC_BLACK = Some T2"
    "zrep T2 fs (nd (opp s) p ASSOC_BLACK kp vp (?W cp) x)" "keeps {p} T1 T2" .
  have d2: "dummy T2 = dummy T" using keeps_dummy[OF T2(3)] d1 by simp
  from set_color_focus[OF zrep_swapD[OF zrep_downD[OF zrep_downD[OF T2(2)]]] fL, of ASSOC_BLACK] obtain T3 where
    T3: "set_color T2 (ptr (dummy T) far) ASSOC_BLACK = Some T3"
    "zrep T3 (Fr (opp s) wa cp kw vw near # Fr (opp s) p ASSOC_BLACK kp vp x # fs) (paint ASSOC_BLACK far)"
    "keeps (set (addrs far)) T2 T3" unfolding d2 .
  from T3(2) have "zrep T3 fs (nd (opp s) p ASSOC_BLACK kp vp (nd s wa cp kw vw near (paint ASSOC_BLACK far)) x)"
    by (simp only: zrep_down[symmetric] nd_opp[of s wa])
  from rotate_zrep[OF this] obtain T4 where T4: "rotate s T3 p = Some T4"
    "zrep T4 fs (nd s wa cp kw vw (nd s p ASSOC_BLACK kp vp x near) (paint ASSOC_BLACK far))"
    "keeps (zaddrs fs (nd s wa cp kw vw (nd s p ASSOC_BLACK kp vp x near) (paint ASSOC_BLACK far))) T3 T4" .
  have "set (addrs (paint ASSOC_BLACK far)) = set (addrs far)" by (cases far) simp_all
  then have "zaddrs fs (nd s wa cp kw vw (nd s p ASSOC_BLACK kp vp x near) (paint ASSOC_BLACK far)) = ?A"
    by (auto simp: zaddrs_def)
  then have "keeps ?A T T1" "keeps ?A T1 T2" "keeps ?A T2 T3" "keeps ?A T3 T4"
    using T1(3) T2(3) T3(3) T4(3) by (auto elim!: keeps_mono simp: zaddrs_def)
  then have "keeps ?A T T4" using keeps_trans by metis
  moreover have "delete_far_nephew s T (ptr (dummy T) x) wa = Some (T4, root T4)"
    using rd px T1(1) T2(1) T3(1) T4(1) by (simp add: delete_far_nephew_def)
  ultimately show thesis using that T4(2) by blast
qed

lemma delete_near_nephew_zrep:
  assumes a: "at_node T (Fr s p cp kp vp (nd s wa ASSOC_BLACK kw vw (nd s na ASSOC_RED kn vn b c) far) # fs) x"
    and far: "color far = ASSOC_BLACK"
  obtains T' where "delete_near_nephew s T (ptr (dummy T) x) wa = Some (T', na)"
    "at_node T' (Fr s p cp kp vp (nd s na ASSOC_BLACK kn vn b (nd s wa ASSOC_RED kw vw c far)) # fs) x"
    "keeps (zaddrs (Fr s p cp kp vp (nd s wa ASSOC_BLACK kw vw (nd s na ASSOC_RED kn vn b c) far) # fs) x) T T'"
proof -
  let ?N = "\<lambda>c'. nd s na c' kn vn b c"
  let ?A = "zaddrs (Fr s p cp kp vp (nd s wa ASSOC_BLACK kw vw (?N ASSOC_RED) far) # fs) x"
  have z: "zrep T (Fr s p cp kp vp (nd s wa ASSOC_BLACK kw vw (?N ASSOC_RED) far) # fs) x"
    using a by (simp add: at_node_def)
  note zw = zrep_swapD[OF z]
  note zn = zrep_downD[OF zw]
  have rd: "color_of T wa = Some ASSOC_BLACK" "child_of (opp s) T wa = Some (ptr (dummy T) far)"
    "color_of T (ptr (dummy T) far) = Some ASSOC_BLACK" "child_of s T wa = Some na"
    "color_of T na = Some ASSOC_RED"
    using zrep_node(2,4,5)[OF zw] zrep_color[OF zrep_swapD[OF zn]] zrep_node(2)[OF zn] far by simp_all
  from set_color_zrep[OF zn, of ASSOC_BLACK] obtain T1 where T1: "set_color T na ASSOC_BLACK = Some T1"
    "zrep T1 (Fr s wa ASSOC_BLACK kw vw far # Fr (opp s) p cp kp vp x # fs) (?N ASSOC_BLACK)"
    "keeps {na} T T1" .
  from set_color_zrep[OF zrep_upD[OF T1(2)], of ASSOC_RED] obtain T2 where
    T2: "set_color T1 wa ASSOC_RED = Some T2"
    "zrep T2 (Fr (opp s) p cp kp vp x # fs) (nd s wa ASSOC_RED kw vw (?N ASSOC_BLACK) far)"
    "keeps {wa} T1 T2" .
  from T2(2) have "zrep T2 (Fr (opp s) p cp kp vp x # fs)
      (nd (opp (opp s)) wa ASSOC_RED kw vw (nd (opp s) na ASSOC_BLACK kn vn c b) far)"
    by (simp add: nd_opp)
  from rotate_zrep[OF this] obtain T3 where T3: "rotate (opp s) T2 wa = Some T3"
    "zrep T3 (Fr (opp s) p cp kp vp x # fs)
      (nd (opp s) na ASSOC_BLACK kn vn (nd (opp s) wa ASSOC_RED kw vw far c) b)"
    "keeps (zaddrs (Fr (opp s) p cp kp vp x # fs)
      (nd (opp s) na ASSOC_BLACK kn vn (nd (opp s) wa ASSOC_RED kw vw far c) b)) T2 T3" .
  have z3: "zrep T3 (Fr s p cp kp vp (nd s na ASSOC_BLACK kn vn b (nd s wa ASSOC_RED kw vw c far)) # fs) x"
    using zrep_swapD[OF T3(2)] by (simp add: nd_opp)
  have "keeps ?A T T1" "keeps ?A T1 T2" "keeps ?A T2 T3"
    using T1(3) T2(3) T3(3) by (auto elim!: keeps_mono simp: zaddrs_def)
  then have k: "keeps ?A T T3" using keeps_trans by metis
  have a3: "at_node T3 (Fr s p cp kp vp (nd s na ASSOC_BLACK kn vn b (nd s wa ASSOC_RED kw vw c far)) # fs) x"
    by (rule at_node_keeps[OF a z3 k zrep_dummy_not[OF z]]) simp
  then have "parent_of T3 (ptr (dummy T) x) = Some p" "child_of (opp s) T3 p = Some na"
    using keeps_dummy[OF k] zrep_node(5)[OF z3[folded zrep_down]] by (simp_all add: at_node_def)
  then have "delete_near_nephew s T (ptr (dummy T) x) wa = Some (T3, na)"
    using rd T1(1) T2(1) T3(1) by (simp add: delete_near_nephew_def)
  with that a3 k show thesis by blast
qed

lemma delete_red_sibling_black:
  assumes a: "at_node T (Fr s p cp kp vp w # fs) x" and w: "color w = ASSOC_BLACK"
  shows "delete_red_sibling s T (ptr (dummy T) x) = Some (T, ptr (dummy T) w)"
proof -
  have z: "zrep T (Fr s p cp kp vp w # fs) x" and px: "parent_of T (ptr (dummy T) x) = Some p"
    using a by (simp_all add: at_node_def)
  show ?thesis
    using px zrep_node(5)[OF zrep_upD[OF z]] zrep_color[OF zrep_swapD[OF z]] w
    by (simp add: delete_red_sibling_def)
qed

lemma delete_red_sibling_red:
  assumes a: "at_node T (Fr s p cp kp vp (nd s wa ASSOC_RED kw vw near far) # fs) x"
  obtains T' where "delete_red_sibling s T (ptr (dummy T) x) = Some (T', ptr (dummy T) near)"
    "at_node T' (Fr s p ASSOC_RED kp vp near # Fr s wa ASSOC_BLACK kw vw far # fs) x"
    "keeps (zaddrs (Fr s p cp kp vp (nd s wa ASSOC_RED kw vw near far) # fs) x) T T'"
proof -
  let ?W = "\<lambda>c. nd s wa c kw vw near far"
  let ?A = "zaddrs (Fr s p cp kp vp (?W ASSOC_RED) # fs) x"
  have z: "zrep T (Fr s p cp kp vp (?W ASSOC_RED) # fs) x" and px: "parent_of T (ptr (dummy T) x) = Some p"
    using a by (simp_all add: at_node_def)
  have dA: "dummy T \<notin> ?A" using zrep_dummy_not[OF z] .
  have rd: "child_of (opp s) T p = Some wa" "color_of T wa = Some ASSOC_RED"
    using zrep_node(5)[OF zrep_upD[OF z]] zrep_node(2)[OF zrep_swapD[OF z]] by simp_all
  from set_color_zrep[OF zrep_swapD[OF z], of ASSOC_BLACK] obtain T1 where
    T1: "set_color T wa ASSOC_BLACK = Some T1"
    "zrep T1 (Fr (opp s) p cp kp vp x # fs) (?W ASSOC_BLACK)" "keeps {wa} T T1" .
  have k1: "keeps ?A T T1" by (rule keeps_mono[OF T1(3)]) (simp add: zaddrs_def)
  have z1: "zrep T1 (Fr s p cp kp vp (?W ASSOC_BLACK) # fs) x" using zrep_swapD[OF T1(2)] by simp
  have p1: "parent_of T1 (ptr (dummy T) x) = Some p"
    using at_node_keeps[OF a z1 k1 dA] keeps_dummy[OF k1] by (simp add: at_node_def)
  from set_color_zrep[OF zrep_upD[OF T1(2)], of ASSOC_RED] obtain T2 where
    T2: "set_color T1 p ASSOC_RED = Some T2"
    "zrep T2 fs (nd (opp s) p ASSOC_RED kp vp (?W ASSOC_BLACK) x)" "keeps {p} T1 T2" .
  from rotate_zrep[OF T2(2)] obtain T3 where T3: "rotate s T2 p = Some T3"
    "zrep T3 fs (nd s wa ASSOC_BLACK kw vw (nd s p ASSOC_RED kp vp x near) far)"
    "keeps (zaddrs fs (nd s wa ASSOC_BLACK kw vw (nd s p ASSOC_RED kp vp x near) far)) T2 T3" .
  have "keeps ?A T1 T2" "keeps ?A T2 T3"
    using T2(3) T3(3) by (auto elim!: keeps_mono simp: zaddrs_def)
  then have k: "keeps ?A T T3" using k1 keeps_trans by metis
  have z3: "zrep T3 (Fr s p ASSOC_RED kp vp near # Fr s wa ASSOC_BLACK kw vw far # fs) x"
    using zrep_downD[OF zrep_downD[OF T3(2)]] .
  have a3: "at_node T3 (Fr s p ASSOC_RED kp vp near # Fr s wa ASSOC_BLACK kw vw far # fs) x"
    by (rule at_node_keeps[OF a z3 k dA]) simp
  then have "parent_of T3 (ptr (dummy T) x) = Some p" "child_of (opp s) T3 p = Some (ptr (dummy T) near)"
    using keeps_dummy[OF k] zrep_node(5)[OF zrep_upD[OF z3]] by (simp_all add: at_node_def)
  then have "delete_red_sibling s T (ptr (dummy T) x) = Some (T3, ptr (dummy T) near)"
    using rd px p1 T1(1) T2(1) T3(1) by (simp add: delete_red_sibling_def)
  with that a3 k show thesis by blast
qed

text \<open>What follows the first part of a round.\<close>
definition delete_black_sibling ::
  "side \<Rightarrow> addr \<Rightarrow> ('k, 'v) assoc_rb_tree \<times> addr \<Rightarrow> (('k, 'v) assoc_rb_tree \<times> addr) option"
where
  "delete_black_sibling s x = (\<lambda>(tree, w). do {
     wc \<leftarrow> color_of tree w;
     c_assert (wc = ASSOC_BLACK);
     near \<leftarrow> child_of s tree w;
     nc \<leftarrow> color_of tree near;
     far \<leftarrow> child_of (opp s) tree w;
     fc \<leftarrow> color_of tree far;
     if nc = ASSOC_BLACK \<and> fc = ASSOC_BLACK then do {
       tree \<leftarrow> set_color tree w ASSOC_RED;
       p \<leftarrow> parent_of tree x;
       Some (tree, p)
     } else do {
       (tree, w) \<leftarrow> delete_near_nephew s tree x w;
       delete_far_nephew s tree x w
     }
   })"

lemma delete_fixup_step_parts:
  "delete_fixup_step s tree x = Option.bind (delete_red_sibling s tree x) (delete_black_sibling s x)"
  by (simp add: delete_fixup_step_def delete_black_sibling_def)

lemma delete_black_sibling_zrep:
  assumes a: "at_node T (Fr s p cp kp vp w # fs) x" and w: "w \<noteq> Lf" "color w = ASSOC_BLACK"
    and dc: "del_case s p cp kp vp x w = (b, t)"
  obtains T' where
    "delete_black_sibling s (ptr (dummy T) x) (T, ptr (dummy T) w) = Some (T', if b then p else root T')"
    "zrep T' fs t" "keeps (zaddrs (Fr s p cp kp vp w # fs) x) T T'" "b \<Longrightarrow> ptr (dummy T) t = p \<and> t \<noteq> Lf"
proof -
  obtain wa kw vw near far where wnd: "w = nd s wa ASSOC_BLACK kw vw near far"
    using w tr_cases_nd[of w s] by fastforce
  let ?A = "zaddrs (Fr s p cp kp vp w # fs) x"
  have z: "zrep T (Fr s p cp kp vp w # fs) x" using a by (simp add: at_node_def)
  have dA: "dummy T \<notin> ?A" using zrep_dummy_not[OF z] .
  have zw: "zrep T (Fr (opp s) p cp kp vp x # fs) (nd s wa ASSOC_BLACK kw vw near far)"
    using zrep_swapD[OF z] by (simp add: wnd)
  have rd: "color_of T wa = Some ASSOC_BLACK" "child_of s T wa = Some (ptr (dummy T) near)"
    "child_of (opp s) T wa = Some (ptr (dummy T) far)" "color_of T (ptr (dummy T) near) = Some (color near)"
    "color_of T (ptr (dummy T) far) = Some (color far)"
    using zrep_node(2,4,5)[OF zw] zrep_color[OF zrep_downD[OF zw]]
      zrep_color[OF zrep_swapD[OF zrep_downD[OF zw]]] by simp_all
  show thesis
  proof (cases "color far = ASSOC_RED")
    case True
    from delete_far_nephew_zrep[OF a[unfolded wnd] True] obtain T' where
      T': "delete_far_nephew s T (ptr (dummy T) x) wa = Some (T', root T')"
      "zrep T' fs (nd s wa cp kw vw (nd s p ASSOC_BLACK kp vp x near) (paint ASSOC_BLACK far))"
      "keeps ?A T T'" unfolding wnd .
    have "delete_near_nephew s T (ptr (dummy T) x) wa = Some (T, wa)"
      using rd True by (simp add: delete_near_nephew_def)
    then show thesis using that[of T'] T' rd True dc
      by (simp add: delete_black_sibling_def wnd del_case_simps)
  next
    case far: False
    show thesis
    proof (cases "color near = ASSOC_BLACK")
      case True
      from set_color_zrep[OF zw, of ASSOC_RED] obtain T1 where T1: "set_color T wa ASSOC_RED = Some T1"
        "zrep T1 (Fr (opp s) p cp kp vp x # fs) (nd s wa ASSOC_RED kw vw near far)" "keeps {wa} T T1" .
      have k: "keeps ?A T T1" by (rule keeps_mono[OF T1(3)]) (simp add: zaddrs_def wnd)
      have z1: "zrep T1 (Fr s p cp kp vp (nd s wa ASSOC_RED kw vw near far) # fs) x"
        using zrep_swapD[OF T1(2)] by simp
      have "parent_of T1 (ptr (dummy T) x) = Some p"
        using at_node_keeps[OF a z1 k dA] keeps_dummy[OF k] by (simp add: at_node_def)
      then show thesis using that[of T1] zrep_upD[OF z1] T1(1) k rd True far dc
        by (auto simp: delete_black_sibling_def wnd del_case_simps)
    next
      case False
      then obtain na kn vn d e where nnd: "near = nd s na ASSOC_RED kn vn d e"
        using tr_cases_nd[of near s] by fastforce
      have fb: "color far = ASSOC_BLACK" using far by simp
      from delete_near_nephew_zrep[OF a[unfolded wnd nnd] fb] obtain T1 where
        T1: "delete_near_nephew s T (ptr (dummy T) x) wa = Some (T1, na)"
        "at_node T1 (Fr s p cp kp vp (nd s na ASSOC_BLACK kn vn d (nd s wa ASSOC_RED kw vw e far)) # fs) x"
        "keeps ?A T T1" unfolding wnd nnd .
      from delete_far_nephew_zrep[OF T1(2)] obtain T2 where
        T2: "delete_far_nephew s T1 (ptr (dummy T) x) na = Some (T2, root T2)"
        "zrep T2 fs (nd s na cp kn vn (nd s p ASSOC_BLACK kp vp x d) (nd s wa ASSOC_BLACK kw vw e far))"
        "keeps (zaddrs (Fr s p cp kp vp (nd s na ASSOC_BLACK kn vn d (nd s wa ASSOC_RED kw vw e far)) # fs) x) T1 T2"
        using keeps_dummy[OF T1(3)] by auto
      have "zaddrs (Fr s p cp kp vp (nd s na ASSOC_BLACK kn vn d (nd s wa ASSOC_RED kw vw e far)) # fs) x = ?A"
        by (auto simp: zaddrs_def wnd nnd)
      then have "keeps ?A T T2" using T1(3) T2(3) keeps_trans by metis
      then show thesis using that[of T2] T1(1) T2(1,2) rd fb dc
        by (simp add: delete_black_sibling_def wnd nnd del_case_simps)
    qed
  qed
qed

section \<open>The loop\<close>

lemma zrep_not_root: "zrep T (f # fs) x \<Longrightarrow> ptr (dummy T) x \<noteq> root T"
proof -
  assume z: "zrep T (f # fs) x"
  have "path_root fs (frame_addr f) \<in> set (paddrs (f # fs))"
    by (induction fs arbitrary: f) (case_tac f; auto)+
  then show ?thesis using z ptr_in_addrs[of x "dummy T"] by (cases "x = Lf") (auto simp: zrep_def)
qed

lemma zrep_side_leaf:
  assumes z: "zrep T (Fr s g c k v y # fs) x" and ne: "x \<noteq> Lf \<or> y \<noteq> Lf"
  obtains gl where "child_of L T g = Some gl" "(if ptr (dummy T) x = gl then L else R) = s"
proof -
  have ne': "ptr (dummy T) x \<noteq> ptr (dummy T) y"
    using z ne ptr_in_addrs[of x "dummy T"] ptr_in_addrs[of y "dummy T"]
    by (cases "y = Lf"; cases "x = Lf") (auto simp: zrep_def)
  from zrep_node(4,5)[OF zrep_upD[OF z]] ne' that show thesis by (cases s) auto
qed

text \<open>The last write of the fix-up, at any node and at the shared leaf.\<close>
lemma set_black_zrep:
  assumes z: "zrep T fs x"
  obtains T' where "set_color T (ptr (dummy T) x) ASSOC_BLACK = Some T'" "zrep T' fs (paint ASSOC_BLACK x)"
    "keeps (insert (dummy T) (zaddrs fs x)) T T'"
proof (cases "x = Lf")
  case True
  obtain n where n: "heap T (dummy T) = Some n" "n_color n = ASSOC_BLACK" using z by (auto simp: zrep_def)
  let ?T = "T\<lparr>heap := (heap T)(dummy T \<mapsto> n\<lparr>n_color := ASSOC_BLACK\<rparr>)\<rparr>"
  have "set_color T (ptr (dummy T) x) ASSOC_BLACK = Some ?T"
    using True n by (simp add: set_color_def put_Some)
  moreover have "zrep ?T fs (paint ASSOC_BLACK x)" using z True by (auto simp: zrep_def)
  moreover have "keeps (insert (dummy T) (zaddrs fs x)) T ?T" by (simp add: keeps_def)
  ultimately show thesis using that by blast
next
  case False
  from set_color_focus[OF z this, of ASSOC_BLACK] obtain T' where
    "set_color T (ptr (dummy T) x) ASSOC_BLACK = Some T'" "zrep T' fs (paint ASSOC_BLACK x)"
    and k: "keeps (set (addrs x)) T T'" .
  moreover have "keeps (insert (dummy T) (zaddrs fs x)) T T'"
    by (rule keeps_mono[OF k]) (auto simp: zaddrs_def)
  ultimately show thesis using that by blast
qed

lemma delete_fixup_stop:
  "x = root T \<or> color_of T x = Some ASSOC_RED \<Longrightarrow> delete_fixup T x = set_color T x ASSOC_BLACK"
  by (auto simp: delete_fixup_def delete_fixup_loop.simps[of T x])

lemma delete_fixup_round:
  assumes "x \<noteq> root T" "color_of T x = Some ASSOC_BLACK" "parent_of T x = Some p"
    "child_of L T p = Some pl" "(if x = pl then L else R) = s"
  shows "delete_fixup T x = Option.bind (delete_fixup_step s T x) (\<lambda>(T, x). delete_fixup T x)"
  using assms
  by (simp add: delete_fixup_def delete_fixup_loop.simps[of T x] case_prod_beta' bind_assoc)

lemma delete_fixup_root:
  assumes z: "zrep T fs x"
  obtains T' where "delete_fixup T (root T) = Some T'" "zrep T' [] (paint ASSOC_BLACK (plug fs x))"
    "keeps (insert (dummy T) (zaddrs fs x)) T T'"
proof -
  have w: "zrep T [] (plug fs x)" using z zrep_whole by blast
  from set_black_zrep[OF w] obtain T' where T': "set_color T (root T) ASSOC_BLACK = Some T'"
    "zrep T' [] (paint ASSOC_BLACK (plug fs x))"
    "keeps (insert (dummy T) (zaddrs [] (plug fs x))) T T'" using zrep_root[OF w] by metis
  then show thesis using that by (simp add: delete_fixup_stop zaddrs_plug)
qed

lemma delete_fixup_red:
  assumes z: "zrep T fs x" and r: "color x = ASSOC_RED"
  obtains T' where "delete_fixup T (ptr (dummy T) x) = Some T'" "zrep T' [] (plug fs (paint ASSOC_BLACK x))"
    "keeps (insert (dummy T) (zaddrs fs x)) T T'"
proof -
  from set_black_zrep[OF z] obtain T' where T': "set_color T (ptr (dummy T) x) ASSOC_BLACK = Some T'"
    "zrep T' fs (paint ASSOC_BLACK x)" "keeps (insert (dummy T) (zaddrs fs x)) T T'" .
  moreover have "delete_fixup T (ptr (dummy T) x) = set_color T (ptr (dummy T) x) ASSOC_BLACK"
    using zrep_color[OF z] r by (simp add: delete_fixup_stop)
  ultimately show thesis using that zrep_whole by metis
qed

lemma zaddrs_entries_plug: "zaddrs fs x = fst ` set (entries (plug fs x))"
  by (simp add: zaddrs_def set_addrs_plug flip: addrs_entries)

lemma zaddrs_del_case:
  "entries t = entries (nd s p cp kp vp x w) \<Longrightarrow> zaddrs fs t = zaddrs (Fr s p cp kp vp w # fs) x"
  by (simp add: zaddrs_entries_plug entries_plug[of fs])

lemma delete_fixup_zrep:
  assumes "at_node T fs x" "balanced x" "no_red_red (paint ASSOC_BLACK x)" "pbal (Suc (bh x)) fs"
    "pcol ASSOC_BLACK fs"
  shows "\<exists>T'. delete_fixup T (ptr (dummy T) x) = Some T' \<and> zrep T' [] (del_fix fs x) \<and>
    keeps (insert (dummy T) (zaddrs fs x)) T T'"
  using assms
proof (induction fs arbitrary: x T)
  case Nil
  then have z: "zrep T [] x" by (simp add: at_node_def)
  from delete_fixup_root[OF z] zrep_root[OF z] show ?case by auto
next
  case (Cons f fs)
  have z: "zrep T (f # fs) x" using Cons.prems(1) by (simp add: at_node_def)
  show ?case
  proof (cases "color x = ASSOC_RED")
    case True
    from delete_fixup_red[OF z True] show ?thesis by (auto simp: del_fix_red[OF True])
  next
    case False
    then have x: "balanced x" "no_red_red x" "color x = ASSOC_BLACK" using Cons.prems by auto
    obtain s p cp kp vp w where f: "f = Fr s p cp kp vp w" by (cases f)
    let ?A = "zaddrs (f # fs) x"
    have w: "bh w = Suc (bh x)" "balanced w" "no_red_red w" "pbal (Suc (bh x) + weight cp) fs"
      "cp = ASSOC_RED \<Longrightarrow> color w = ASSOC_BLACK" "pcol cp fs" "w \<noteq> Lf"
      using Cons.prems f by auto
    have a: "at_node T (Fr s p cp kp vp w # fs) x" using Cons.prems(1) f by simp
    obtain gl where gl: "child_of L T p = Some gl" "(if ptr (dummy T) x = gl then L else R) = s"
      using zrep_side_leaf[of T s p cp kp vp w fs x] z w(7) f by blast
    have rnd: "delete_fixup T (ptr (dummy T) x) =
        Option.bind (delete_fixup_step s T (ptr (dummy T) x)) (\<lambda>(T, x). delete_fixup T x)"
      using zrep_not_root[OF z] zrep_color[OF z] x(3) a gl
      by (intro delete_fixup_round) (simp_all add: at_node_def)
    show ?thesis
    proof (cases "color w = ASSOC_RED")
      case True
      then obtain wa kw vw near far where wnd: "w = nd s wa ASSOC_RED kw vw near far"
        using tr_cases_nd[of w s] by fastforce
      have near: "near \<noteq> Lf" "color near = ASSOC_BLACK" using w(1,2,3) by (auto simp: wnd)
      obtain b t where dc: "del_case s p ASSOC_RED kp vp x near = (b, t)" by fastforce
      have nf: "balanced near" "no_red_red near" "color near = ASSOC_BLACK" "bh near = Suc (bh x)"
        using w by (auto simp: wnd)
      note inv = del_case_inv[OF x nf dc]
      let ?gs = "Fr s wa ASSOC_BLACK kw vw far # fs"
      from delete_red_sibling_red[OF a[unfolded wnd]] obtain T1 where
        T1: "delete_red_sibling s T (ptr (dummy T) x) = Some (T1, ptr (dummy T) near)"
        "at_node T1 (Fr s p ASSOC_RED kp vp near # ?gs) x" "keeps ?A T T1" unfolding f wnd .
      have d1: "dummy T1 = dummy T" using keeps_dummy[OF T1(3)] .
      from delete_black_sibling_zrep[OF T1(2) near dc] obtain T2 where
        T2: "delete_black_sibling s (ptr (dummy T) x) (T1, ptr (dummy T) near) = Some (T2, if b then p else root T2)"
        "zrep T2 ?gs t" "keeps (zaddrs (Fr s p ASSOC_RED kp vp near # ?gs) x) T1 T2"
        "b \<Longrightarrow> ptr (dummy T) t = p \<and> t \<noteq> Lf" unfolding d1 by blast
      have A: "zaddrs (Fr s p ASSOC_RED kp vp near # ?gs) x = ?A" "zaddrs ?gs t = ?A"
        using zaddrs_del_case[OF inv(2)] by (auto simp: zaddrs_def f wnd)
      have k2: "keeps ?A T T2" using T1(3) T2(3) A keeps_trans by metis
      have d2: "dummy T2 = dummy T" using keeps_dummy[OF k2] .
      have step: "delete_fixup T (ptr (dummy T) x) = delete_fixup T2 (if b then p else root T2)"
        using rnd T1(1) T2(1) by (simp add: delete_fixup_step_parts)
      have "\<exists>T'. delete_fixup T2 (if b then p else root T2) = Some T' \<and>
          zrep T' [] (del_fix (f # fs) x) \<and> keeps (insert (dummy T) ?A) T2 T'"
      proof (cases b)
        case True
        have "color t = ASSOC_RED" using inv(3) True by simp
        from delete_fixup_red[OF T2(2) this] T2(4) True d2 A dc x(3) show ?thesis
          by (force simp: f wnd del_fix_red_sibling simp del: del_fix.simps plug.simps)
      next
        case False
        from delete_fixup_root[OF T2(2)] False d2 A dc x(3) show ?thesis
          by (force simp: f wnd del_fix_red_sibling simp del: del_fix.simps plug.simps)
      qed
      then show ?thesis unfolding step using k2 keeps_trans[OF keeps_mono[OF k2]] by blast
    next
      case False
      then have wb: "color w = ASSOC_BLACK" by simp
      obtain b t where dc: "del_case s p cp kp vp x w = (b, t)" by fastforce
      note inv = del_case_inv[OF x w(2,3) wb w(1) dc]
      from delete_black_sibling_zrep[OF a w(7) wb dc] obtain T2 where
        T2: "delete_black_sibling s (ptr (dummy T) x) (T, ptr (dummy T) w) = Some (T2, if b then p else root T2)"
        "zrep T2 fs t" "keeps ?A T T2" "b \<Longrightarrow> ptr (dummy T) t = p \<and> t \<noteq> Lf" unfolding f by blast
      have A: "zaddrs fs t = ?A" using zaddrs_del_case[OF inv(2)] by (simp add: f)
      have d2: "dummy T2 = dummy T" using keeps_dummy[OF T2(3)] .
      have df: "del_fix (f # fs) x = (if b then del_fix fs t else paint ASSOC_BLACK (plug fs t))"
        using dc wb x by (simp add: f del_fix_black_sibling del: del_fix.simps)
      have step: "delete_fixup T (ptr (dummy T) x) = delete_fixup T2 (if b then p else root T2)"
        using rnd T2(1) delete_red_sibling_black[OF a wb] by (simp add: delete_fixup_step_parts)
      have "\<exists>T'. delete_fixup T2 (if b then p else root T2) = Some T' \<and>
          zrep T' [] (del_fix (f # fs) x) \<and> keeps (insert (dummy T) ?A) T2 T'"
      proof (cases b)
        case True
        then have "at_node T2 fs t" using T2(2,4) zrep_parent_color(1)[OF T2(2)] by (simp add: at_node_def)
        from Cons.IH[OF this] inv(1,3) True w pcol_mono[OF w(6)] T2(4) d2 A show ?thesis
          by (simp add: df add.commute)
      next
        case False
        from delete_fixup_root[OF T2(2)] False d2 A show ?thesis by (force simp: df)
      qed
      then show ?thesis unfolding step using T2(3) keeps_trans[OF keeps_mono[OF T2(3)]] by blast
    qed
  qed
qed

end
