(* ===== verification/Rb_Extract.thy ===== *)
theory Rb_Extract
  imports Rb_Delete
begin

text \<open>
  Taking a node out of the tree: the transplant, the successor of a node with two children, and
  the contract of extraction by key or by iterator.
\<close>

section \<open>Transplant\<close>

text \<open>The subtree \<open>x\<close> takes the place of the node \<open>u\<close> below the path \<open>fs\<close>.\<close>
definition can_replace :: "('k, 'v) assoc_rb_tree \<Rightarrow> ('k, 'v) path \<Rightarrow> addr \<Rightarrow> ('k, 'v) tr \<Rightarrow> bool" where
  "can_replace T fs u x \<longleftrightarrow>
     prepr (heap T) (dummy T) fs u \<and> parent_of T u = Some (path_parent (dummy T) fs) \<and>
     distinct (addrs x @ paddrs fs) \<and> dummy T \<notin> set (addrs x @ paddrs fs) \<and>
     0 \<notin> set (addrs x @ paddrs fs) \<and> u \<notin> set (addrs x @ paddrs fs) \<and> u \<noteq> dummy T \<and>
     root T = path_root fs u \<and> (\<exists>p. repr (heap T) (dummy T) p x) \<and>
     (\<exists>n. heap T (dummy T) = Some n \<and> n_color n = ASSOC_BLACK)"

lemma transplant_zrep:
  assumes c: "can_replace T fs u x"
  obtains T' where "transplant T u (ptr (dummy T) x) = Some T'" "at_node T' fs x"
    "keeps (insert (dummy T) (zaddrs fs x)) T T'"
    "x \<noteq> Lf \<Longrightarrow> keeps (zaddrs fs x) T T'"
proof -
  let ?d = "dummy T"
  let ?p = "path_parent ?d fs"
  obtain n p where h: "prepr (heap T) ?d fs u" "parent_of T u = Some ?p" "root T = path_root fs u"
    "repr (heap T) ?d p x" "heap T ?d = Some n" "n_color n = ASSOC_BLACK"
    and d: "distinct (paddrs fs)" "distinct (addrs x)" "set (addrs x) \<inter> set (paddrs fs) = {}"
      "?d \<notin> set (paddrs fs)" "?d \<notin> set (addrs x)" "u \<notin> set (paddrs fs)" "u \<notin> set (addrs x)" "u \<noteq> ?d"
      "0 \<notin> set (addrs x)" "0 \<notin> set (paddrs fs)"
    using c by (auto simp: can_replace_def)
  from relink_path[OF h(1,2) d(1,4,6,8) h(3), of "ptr ?d x"] obtain T1 where
    T1: "relink T u (ptr ?d x) = Some T1" "prepr (heap T1) ?d fs (ptr ?d x)"
      "root T1 = path_root fs (ptr ?d x)" "keeps (set (paddrs fs)) T T1" .
  have d1: "dummy T1 = ?d" using keeps_dummy[OF T1(4)] .
  have p1: "parent_of T1 u = Some ?p"
    using h(2) keeps_heap[OF T1(4) d(6)] by (simp add: parent_of_def get_def)
  have x1: "repr (heap T1) ?d p x" using keeps_repr[OF T1(4) d(3)] h(4) by simp
  have n1: "heap T1 ?d = Some n" using keeps_heap[OF T1(4) d(4)] h(5) by simp
  have tp: "transplant T u (ptr ?d x) = set_parent T1 (ptr ?d x) ?p"
    using T1(1) p1 d(8) by (simp add: transplant_def)
  show thesis
  proof (cases "x = Lf")
    case True
    let ?T = "T1\<lparr>heap := (heap T1)(?d \<mapsto> n\<lparr>n_parent := ?p\<rparr>)\<rparr>"
    have "set_parent T1 (ptr ?d x) ?p = Some ?T" using True n1 by (simp add: set_parent_def put_Some)
    moreover have "at_node ?T fs x"
      using True T1(2,3) d d1 h(6) by (simp add: at_node_def zrep_def parent_of_def get_def)
    moreover have "keeps (insert ?d (zaddrs fs x)) T1 ?T" by (simp add: keeps_def)
    moreover have "keeps (insert ?d (zaddrs fs x)) T T1"
      by (rule keeps_mono[OF T1(4)]) (auto simp: zaddrs_def)
    ultimately show thesis using that tp True keeps_trans by metis
  next
    case False
    from set_parent_tree[OF x1 d(2) False, of ?p] obtain T2 where
      T2: "set_parent T1 (ptr ?d x) ?p = Some T2" "repr (heap T2) ?d ?p x" "keeps (set (addrs x)) T1 T2"
      "root T2 = root T1" .
    have d2: "dummy T2 = ?d" using keeps_dummy[OF T2(3)] d1 by simp
    have "prepr (heap T2) ?d fs (ptr ?d x)"
      using keeps_prepr[OF T2(3), of fs] d(3) T1(2) by (simp add: Int_commute)
    moreover have "heap T2 ?d = Some n" using keeps_heap[OF T2(3) d(5)] n1 by simp
    ultimately have z: "zrep T2 fs x"
      using T2(2,4) T1(3) d d2 h(6) by (auto simp: zrep_def)
    then have "at_node T2 fs x" using zrep_parent_color(1)[OF z False] by (simp add: at_node_def)
    moreover have k: "keeps (zaddrs fs x) T T1" "keeps (zaddrs fs x) T1 T2"
      using T1(4) T2(3) by (auto elim!: keeps_mono simp: zaddrs_def)
    then have "keeps (zaddrs fs x) T T2" using keeps_trans by metis
    moreover from this have "keeps (insert ?d (zaddrs fs x)) T T2" by (rule keeps_mono) auto
    ultimately show thesis using that tp T2(1) by simp
  qed
qed

text \<open>A node with one child is replaced by it.\<close>
lemma zrep_can_replace:
  assumes z: "zrep T fs (nd s a c k v x Lf)"
  shows "can_replace T fs a x"
  using z zrep_node(3)[OF z] by (auto simp: zrep_def can_replace_def)

section \<open>The successor\<close>

lemma minimum_loop_zrep:
  assumes "zrep T fs t" "t \<noteq> Lf"
  shows "\<exists>ms y c k v r. t = plug ms (Nd y c k v Lf r) \<and> pleft ms = [] \<and>
    minimum_loop T (ptr (dummy T) t) = Some y"
  using assms
proof (induction t arbitrary: fs)
  case (Nd a c k v l r)
  have z: "zrep T fs (nd L a c k v l r)" using Nd.prems by (simp add: nd_def)
  have ml: "minimum_loop T a = (if ptr (dummy T) l \<noteq> dummy T then minimum_loop T (ptr (dummy T) l) else Some a)"
    using zrep_node(4)[OF z] by (simp add: minimum_loop.simps[of T a])
  show ?case
  proof (cases "l = Lf")
    case True
    then show ?thesis using ml by (intro exI[of _ "[]"]) auto
  next
    case False
    have zl: "zrep T (Fr L a c k v r # fs) l" using zrep_downD[OF z] .
    then have "ptr (dummy T) l \<noteq> dummy T" using False by (simp add: zrep_def)
    moreover obtain ms y c' k' v' r' where m: "l = plug ms (Nd y c' k' v' Lf r')" "pleft ms = []"
      "minimum_loop T (ptr (dummy T) l) = Some y" using Nd.IH(1)[OF zl False] by blast
    moreover have "Nd a c k v l r = plug (ms @ [Fr L a c k v r]) (Nd y c' k' v' Lf r')"
      using m(1) by (simp add: plug_append nd_def)
    moreover have "pleft (ms @ [Fr L a c k v r]) = []" using m(2) by (simp add: pleft_append)
    ultimately show ?thesis using ml by (metis ptr.simps(2))
  qed
qed simp

section \<open>A node with two children\<close>

lemma paddrs_append: "paddrs (fs @ gs) = paddrs fs @ paddrs gs"
  by (induction fs) simp_all

lemma frame_addr_in: "frame_addr f \<in> set (faddrs f)"
  by (cases f) simp

lemma fill_frame_not_Lf [simp]: "fill_frame f x \<noteq> Lf"
  by (cases f) simp

text \<open>The successor \<open>y\<close> has left its place and carries the rest \<open>r\<close> of the right subtree; \<open>z\<close> is
  still linked from its parent.\<close>
definition lifted ::
  "('k, 'v) assoc_rb_tree \<Rightarrow> ('k, 'v) path \<Rightarrow> addr \<Rightarrow> assoc_color \<Rightarrow> 'k \<Rightarrow> 'v \<Rightarrow> addr \<Rightarrow> 'k \<Rightarrow> 'v \<Rightarrow>
    ('k, 'v) tr \<Rightarrow> ('k, 'v) tr \<Rightarrow> bool"
where
  "lifted T fs z c k v y ky vy l r \<longleftrightarrow>
     (\<exists>q. heap T z = Some (cell L c k v (path_parent (dummy T) fs) (ptr (dummy T) l) q)) \<and>
     (\<exists>cy p q. heap T y = Some (cell L cy ky vy p q (ptr (dummy T) r))) \<and>
     repr (heap T) (dummy T) z l \<and> repr (heap T) (dummy T) y r \<and> prepr (heap T) (dummy T) fs z \<and>
     distinct (z # y # addrs l @ addrs r @ paddrs fs) \<and>
     dummy T \<notin> set (z # y # addrs l @ addrs r @ paddrs fs) \<and>
     0 \<notin> set (z # y # addrs l @ addrs r @ paddrs fs) \<and>
     (\<exists>n. heap T (dummy T) = Some n \<and> n_color n = ASSOC_BLACK) \<and>
     root T = path_root fs z \<and> l \<noteq> Lf"

definition replace_by_successor ::
  "('k, 'v) assoc_rb_tree \<Rightarrow> addr \<Rightarrow> addr \<Rightarrow> ('k, 'v) assoc_rb_tree option"
where
  "replace_by_successor tree z y = do {
     tree \<leftarrow> transplant tree z y;
     l \<leftarrow> child_of L tree z;
     tree \<leftarrow> set_child_of L tree y l;
     tree \<leftarrow> set_parent tree l y;
     c \<leftarrow> color_of tree z;
     set_color tree y c
   }"

lemma replace_by_successor_zrep:
  assumes a: "lifted T fs z c k v y ky vy l r"
  obtains T' where "replace_by_successor T z y = Some T'" "zrep T' fs (Nd y c ky vy l r)"
    "keeps (insert y (set (addrs l) \<union> set (paddrs fs))) T T'"
    "\<exists>n. heap T' z = Some n \<and> n_key n = Some k \<and> n_value n = Some v"
proof -
  let ?d = "dummy T"
  let ?p = "path_parent ?d fs"
  let ?A = "insert y (set (addrs l) \<union> set (paddrs fs))"
  obtain q cy py qy n where h: "heap T z = Some (cell L c k v ?p (ptr ?d l) q)"
    "heap T y = Some (cell L cy ky vy py qy (ptr ?d r))" "repr (heap T) ?d z l" "repr (heap T) ?d y r"
    "prepr (heap T) ?d fs z" "heap T ?d = Some n" "n_color n = ASSOC_BLACK" "root T = path_root fs z"
    and l: "l \<noteq> Lf" using a by (auto simp: lifted_def)
  have d: "z \<noteq> y" "z \<notin> set (paddrs fs)" "z \<noteq> ?d" "y \<noteq> ?d" "z \<notin> set (addrs l)" "y \<notin> set (addrs l)"
    "y \<notin> set (addrs r)" "y \<notin> set (paddrs fs)" "distinct (addrs l)" "distinct (addrs r)" "distinct (paddrs fs)"
    "set (addrs l) \<inter> set (paddrs fs) = {}" "set (addrs r) \<inter> set (paddrs fs) = {}"
    "set (addrs l) \<inter> set (addrs r) = {}" "?d \<notin> set (paddrs fs)" "?d \<notin> set (addrs l)" "?d \<notin> set (addrs r)"
    "z \<notin> set (addrs r)" "0 \<notin> set (y # addrs l @ addrs r @ paddrs fs)"
    using a by (auto simp: lifted_def)
  have pz: "parent_of T z = Some ?p" using h(1) by (simp add: parent_of_def get_def)
  from relink_path[OF h(5) pz d(11,15,2,3) h(8), of y] obtain T1 where
    T1: "relink T z y = Some T1" "prepr (heap T1) ?d fs y" "root T1 = path_root fs y"
      "keeps (set (paddrs fs)) T T1" .
  have d1: "dummy T1 = ?d" using keeps_dummy[OF T1(4)] .
  have h1: "heap T1 b = heap T b" if "b \<notin> set (paddrs fs)" for b using keeps_heap[OF T1(4) that] .
  define T2 where "T2 = T1\<lparr>heap := (heap T1)(y \<mapsto> cell L cy ky vy ?p qy (ptr ?d r))\<rparr>"
  define T3 where "T3 = T2\<lparr>heap := (heap T2)(y \<mapsto> cell L cy ky vy ?p (ptr ?d l) (ptr ?d r))\<rparr>"
  have steps: "parent_of T1 z = Some ?p" "set_parent T1 y ?p = Some T2" "child_of L T2 z = Some (ptr ?d l)"
    "set_child_of L T2 y (ptr ?d l) = Some T3"
    using h(1,2) h1[of z] h1[of y] d by (simp_all add: access_defs T2_def T3_def cell_def)
  have r3: "repr (heap T3) ?d z l"
    using h(3) keeps_repr[OF T1(4) d(12)] d(6) by (simp add: T3_def T2_def)
  from set_parent_tree[OF r3 d(9) l, of y] obtain T4 where T4: "set_parent T3 (ptr ?d l) y = Some T4"
    "repr (heap T4) ?d y l" "keeps (set (addrs l)) T3 T4" "root T4 = root T3" .
  have h4: "heap T4 b = heap T3 b" if "b \<notin> set (addrs l)" for b using keeps_heap[OF T4(3) that] .
  define T5 where "T5 = T4\<lparr>heap := (heap T4)(y \<mapsto> cell L c ky vy ?p (ptr ?d l) (ptr ?d r))\<rparr>"
  have steps2: "color_of T4 z = Some c" "set_color T4 y c = Some T5"
    using h4[of z] h4[of y] h1[of z] h(1) d by (simp_all add: access_defs T2_def T3_def T5_def)
  have h5: "heap T5 b = heap T b" if "b \<notin> ?A" for b
    using h4[of b] h1[of b] that by (simp add: T5_def T3_def T2_def)
  have h51: "heap T5 b = heap T1 b" if "b \<notin> set (addrs l)" "b \<noteq> y" for b
    using h4[of b] that by (simp add: T5_def T3_def T2_def)
  have d5: "dummy T5 = ?d" using keeps_dummy[OF T4(3)] d1 by (simp add: T5_def T3_def T2_def)
  have "replace_by_successor T z y = Some T5"
    using T1(1) steps T4(1) steps2 d(3) by (simp add: replace_by_successor_def transplant_def)
  moreover have "zrep T5 fs (Nd y c ky vy l r)"
  proof -
    have "prepr (heap T5) ?d fs y"
      using T1(2) by (subst prepr_cong[where h = "heap T1"]) (use d in \<open>auto intro!: h51\<close>)
    moreover have "repr (heap T5) ?d y l" using T4(2) d(6) by (simp add: T5_def)
    moreover have "repr (heap T5) ?d y r"
      using h(4) by (subst repr_cong[where h = "heap T"]) (use d in \<open>auto intro!: h5\<close>)
    moreover have "heap T5 ?d = Some n" using h5[of ?d] h(6) d by simp
    moreover have "root T5 = path_root fs y" using T4(4) T1(3) by (simp add: T5_def T3_def T2_def)
    ultimately show ?thesis using d d5 h(7) by (auto simp: zrep_def T5_def)
  qed
  moreover have "keeps ?A T T5"
    using h5 T1(4) T4(3) by (auto simp: keeps_def T5_def T3_def T2_def)
  moreover have "\<exists>n. heap T5 z = Some n \<and> n_key n = Some k \<and> n_value n = Some v"
    using h5[of z] h(1) d by simp
  ultimately show thesis using that by blast
qed

text \<open>The successor is the right child itself.\<close>
lemma lift_right_child:
  assumes z: "zrep T fs (Nd z c k v l (Nd y cy ky vy Lf x))" and l: "l \<noteq> Lf"
  obtains T' where "set_parent T (ptr (dummy T) x) y = Some T'" "lifted T' fs z c k v y ky vy l x"
    "x = Lf \<Longrightarrow> parent_of T' (dummy T) = Some y" "keeps (insert (dummy T) (set (addrs x))) T T'"
proof (cases "x = Lf")
  case True
  obtain n where n: "heap T (dummy T) = Some n" "n_color n = ASSOC_BLACK" using z by (auto simp: zrep_def)
  let ?T = "T\<lparr>heap := (heap T)(dummy T \<mapsto> n\<lparr>n_parent := y\<rparr>)\<rparr>"
  have zd: "z \<noteq> dummy T" using z by (auto simp: zrep_def)
  have "set_parent T (ptr (dummy T) x) y = Some ?T" using True n by (simp add: set_parent_def put_Some)
  moreover have "lifted ?T fs z c k v y ky vy l x"
    using z l True n by (auto simp: zrep_def lifted_def)
  moreover have "parent_of ?T (dummy T) = Some y" by (simp add: parent_of_def get_def)
  moreover have "keeps (insert (dummy T) (set (addrs x))) T ?T" by (simp add: keeps_def)
  ultimately show thesis using that zd by simp
next
  case False
  have rx: "repr (heap T) (dummy T) y x" "distinct (addrs x)" using z by (simp_all add: zrep_def)
  from set_parent_tree[OF rx False, of y] obtain T' where T': "set_parent T (ptr (dummy T) x) y = Some T'"
    "repr (heap T') (dummy T) y x" "keeps (set (addrs x)) T T'" "root T' = root T" .
  have h: "heap T' b = heap T b" if "b \<notin> set (addrs x)" for b using keeps_heap[OF T'(3) that] .
  have d: "z \<notin> set (addrs x)" "y \<notin> set (addrs x)" "dummy T \<notin> set (addrs x)" "set (addrs l) \<inter> set (addrs x) = {}"
    "set (paddrs fs) \<inter> set (addrs x) = {}" using z by (auto simp: zrep_def)
  have "lifted T' fs z c k v y ky vy l x"
    using z l T'(2,4) keeps_repr[OF T'(3) d(4)] keeps_prepr[OF T'(3) d(5)] h[OF d(1)] h[OF d(2)] h[OF d(3)]
    by (auto simp: zrep_def lifted_def keeps_dummy[OF T'(3)])
  then show thesis using that False T'(1) keeps_mono[OF T'(3)] by (metis subset_insertI)
qed

text \<open>The successor lies deeper: its right child takes its place first.\<close>
definition lift_successor ::
  "('k, 'v) assoc_rb_tree \<Rightarrow> addr \<Rightarrow> addr \<Rightarrow> addr \<Rightarrow> ('k, 'v) assoc_rb_tree option"
where
  "lift_successor tree z y x = do {
     tree \<leftarrow> transplant tree y x;
     r \<leftarrow> child_of R tree z;
     tree \<leftarrow> set_child_of R tree y r;
     set_parent tree r y
   }"

lemma lift_deep_successor:
  assumes z: "zrep T fs (Nd z c k v l (plug ms (Nd y cy ky vy Lf x)))" and l: "l \<noteq> Lf" and ms: "ms \<noteq> []"
  obtains T' where "lift_successor T z y (ptr (dummy T) x) = Some T'"
    "lifted T' fs z c k v y ky vy l (plug ms x)"
    "x = Lf \<Longrightarrow> parent_of T' (dummy T) = Some (path_parent y ms)"
    "keeps (insert (dummy T) (zaddrs fs (Nd z c k v l (plug ms (Nd y cy ky vy Lf x))))) T T'"
proof -
  let ?d = "dummy T"
  let ?gs = "ms @ Fr R z c k v l # fs"
  let ?A = "insert ?d (zaddrs fs (Nd z c k v l (plug ms (Nd y cy ky vy Lf x))))"
  have "zrep T fs (nd R z c k v (plug ms (Nd y cy ky vy Lf x)) l)" using z by (simp add: nd_def)
  then have zy: "zrep T ?gs (Nd y cy ky vy Lf x)" by (simp add: zrep_down zrep_plug)
  then have zy': "zrep T ?gs (nd R y cy ky vy x Lf)" by (simp add: nd_def)
  from transplant_zrep[OF zrep_can_replace[OF zy']] obtain T1 where
    T1: "transplant T y (ptr ?d x) = Some T1" "at_node T1 ?gs x" "keeps (insert ?d (zaddrs ?gs x)) T T1"
    by blast
  have d1: "dummy T1 = ?d" using keeps_dummy[OF T1(3)] .
  let ?r = "plug ms x"
  have z1: "zrep T1 ?gs x" using T1(2) by (simp add: at_node_def)
  then have "zrep T1 fs (nd R z c k v ?r l)" by (simp add: zrep_down zrep_plug)
  then have zz: "zrep T1 fs (Nd z c k v l ?r)" by (simp add: nd_def)
  have yd: "y \<noteq> ?d" "y \<notin> zaddrs ?gs x" "z \<noteq> y" "y \<noteq> 0"
    using zy by (auto simp: zrep_def zaddrs_def paddrs_append)
  then have yA: "y \<notin> set (addrs ?r)" "y \<notin> set (addrs l)" "y \<notin> set (paddrs fs)"
    by (auto simp: zaddrs_def set_addrs_plug paddrs_append)
  obtain py where hy: "heap T1 y = Some (cell L cy ky vy py ?d (ptr ?d x))"
    using keeps_heap[OF T1(3), of y] yd zy by (auto simp: zrep_def)
  have rL: "?r \<noteq> Lf" using ms by (cases ms) (auto simp: plug_not_Lf fill_frame_not_Lf)
  define T2 where "T2 = T1\<lparr>heap := (heap T1)(y \<mapsto> cell L cy ky vy py ?d (ptr ?d ?r))\<rparr>"
  have steps: "child_of R T1 z = Some (ptr ?d ?r)" "set_child_of R T1 y (ptr ?d ?r) = Some T2"
    using zz hy d1 by (simp_all add: access_defs T2_def zrep_def cell_def)
  have r2: "repr (heap T2) ?d z ?r" "distinct (addrs ?r)"
    using zz yA d1 by (simp_all add: T2_def zrep_def)
  from set_parent_tree[OF r2 rL, of y] obtain T3 where T3: "set_parent T2 (ptr ?d ?r) y = Some T3"
    "repr (heap T3) ?d y ?r" "keeps (set (addrs ?r)) T2 T3" "root T3 = root T2" .
  have h3: "heap T3 b = heap T2 b" if "b \<notin> set (addrs ?r)" for b using keeps_heap[OF T3(3) that] .
  have d3: "dummy T3 = ?d" using keeps_dummy[OF T3(3)] d1 by (simp add: T2_def)
  have d: "z \<notin> set (addrs ?r)" "?d \<notin> set (addrs ?r)" "set (addrs l) \<inter> set (addrs ?r) = {}"
    "set (paddrs fs) \<inter> set (addrs ?r) = {}" using zz d1 by (auto simp: zrep_def)
  have "lift_successor T z y (ptr ?d x) = Some T3"
    using T1(1) steps T3(1) by (simp add: lift_successor_def)
  moreover have "lifted T3 fs z c k v y ky vy l ?r"
  proof -
    have "prepr (heap T3) ?d fs z" "repr (heap T3) ?d z l"
      using keeps_prepr[OF T3(3) d(4)] keeps_repr[OF T3(3) d(3)] zz yA d1 by (simp_all add: zrep_def T2_def)
    then show ?thesis
      using zz l T3(2,4) h3[OF d(1)] h3[OF d(2)] h3[OF yA(1)] yd yA d3 d1
      by (auto simp: zrep_def lifted_def T2_def)
  qed
  moreover have "x = Lf \<Longrightarrow> parent_of T3 ?d = Some (path_parent y ms)"
    using T1(2) d1 h3[OF d(2)] yd ms by (cases ms) (auto simp: at_node_def parent_of_def get_def T2_def)
  moreover have "keeps ?A T T3"
  proof -
    have A: "zaddrs ?gs x \<subseteq> ?A" "set (addrs ?r) \<subseteq> ?A" "y \<in> ?A"
      by (auto simp: zaddrs_def set_addrs_plug paddrs_append)
    have "keeps ?A T T1" by (rule keeps_mono[OF T1(3)]) (use A in auto)
    moreover have "keeps ?A T1 T2" using A(3) by (auto simp: keeps_def T2_def)
    moreover have "keeps ?A T2 T3" by (rule keeps_mono[OF T3(3) A(2)])
    ultimately show ?thesis using keeps_trans by metis
  qed
  ultimately show thesis using that by blast
qed

section \<open>The tree without the node\<close>

lemma top_black_of_plug: "color (plug fs t) = ASSOC_BLACK \<Longrightarrow> top_black fs"
proof (induction fs arbitrary: t)
  case (Cons f fs)
  then show ?case by (cases f; cases "fs = []") auto
qed simp

text \<open>Taking out a node that has at most the child \<open>x\<close>.\<close>
lemma unlink_inv:
  assumes n: "balanced (nd s a c k v x Lf)" "no_red_red (nd s a c k v x Lf)"
    and fs: "pbal (weight c) fs" "pcol c fs" "top_black fs" "fs = [] \<Longrightarrow> c = ASSOC_BLACK"
  shows "is_rbt (if c = ASSOC_BLACK then del_fix fs x else plug fs x) \<and>
    entries (if c = ASSOC_BLACK then del_fix fs x else plug fs x) = entries (plug fs x)"
proof (cases "c = ASSOC_BLACK")
  case True
  then show ?thesis using n fs by (simp add: del_fix_inv)
next
  case False
  then have "pcol ASSOC_BLACK fs" "fs \<noteq> []" using fs pcol_mono by auto
  then show ?thesis using n fs False by (simp add: is_rbt_plug)
qed

lemma pbal_swap: "pbal m (ms @ Fr s z c k v l # fs) = pbal m (ms @ Fr s y c k' v' l # fs)"
  by (induction ms arbitrary: m) (auto split: frame.splits)

lemma pcol_swap: "pcol m (ms @ Fr s z c k v l # fs) = pcol m (ms @ Fr s y c k' v' l # fs)"
  by (induction ms arbitrary: m) (auto split: frame.splits)

lemma top_black_swap: "top_black (ms @ Fr s z c k v l # fs) = top_black (ms @ Fr s y c k' v' l # fs)"
  by (induction ms) auto

lemma entries_swap:
  "pleft ms = [] \<Longrightarrow> entries (plug (ms @ Fr R y c ky vy l # fs) x) =
     pleft fs @ entries l @ entries (plug ms (Nd y cy ky vy Lf x)) @ pright fs"
  by (simp add: entries_plug pleft_append pright_append)

text \<open>The part of the code after the node has been unlinked.\<close>
lemma fixup_unlinked:
  assumes a: "at_node T fs x" and n: "balanced (nd s a c k v x Lf)" "no_red_red (nd s a c k v x Lf)"
    and fs: "pbal (weight c) fs" "pcol c fs" "top_black fs" "fs = [] \<Longrightarrow> c = ASSOC_BLACK"
  obtains T' t' where "(if c = ASSOC_BLACK then delete_fixup T (ptr (dummy T) x) else Some T) = Some T'"
    "zrep T' [] t'" "is_rbt t'" "entries t' = entries (plug fs x)"
    "keeps (insert (dummy T) (zaddrs fs x)) T T'"
proof (cases "c = ASSOC_BLACK")
  case True
  then have "balanced x" "no_red_red (paint ASSOC_BLACK x)" "pbal (Suc (bh x)) fs" "pcol ASSOC_BLACK fs"
    using n fs by auto
  from delete_fixup_zrep[OF a this] obtain T' where T': "delete_fixup T (ptr (dummy T) x) = Some T'"
    "zrep T' [] (del_fix fs x)" "keeps (insert (dummy T) (zaddrs fs x)) T T'" by blast
  show thesis
    by (rule that[of T' "del_fix fs x"]) (use T' True unlink_inv[OF n fs] in simp_all)
next
  case False
  have "zrep T [] (plug fs x)" using a zrep_whole[of T fs x] by (simp add: at_node_def)
  then show thesis using that[of T "plug fs x"] False unlink_inv[OF n fs] by simp
qed

text \<open>The code of the extraction, with its three parts named.\<close>
lemma extract_node_code:
  "assoc_rb_tree_extract_node tree z = do {
     c_assert (z \<noteq> dummy tree);
     original \<leftarrow> color_of tree z;
     zl \<leftarrow> child_of L tree z;
     zr \<leftarrow> child_of R tree z;
     (tree, x, original) \<leftarrow>
       (if zl = dummy tree then do { tree \<leftarrow> transplant tree z zr; Some (tree, zr, original) }
        else if zr = dummy tree then do { tree \<leftarrow> transplant tree z zl; Some (tree, zl, original) }
        else do {
          y \<leftarrow> minimum tree zr;
          original \<leftarrow> color_of tree y;
          x \<leftarrow> child_of R tree y;
          yp \<leftarrow> parent_of tree y;
          tree \<leftarrow> (if yp = z then set_parent tree x y else lift_successor tree z y x);
          tree \<leftarrow> replace_by_successor tree z y;
          Some (tree, x, original)
        });
     if original = ASSOC_BLACK then delete_fixup tree x else Some tree
   }"
  by (simp add: assoc_rb_tree_extract_node_def lift_successor_def replace_by_successor_def cong: if_cong)

lemma extract_one_child:
  assumes z: "zrep T fs (nd s a c k v x Lf)" and rb: "is_rbt (plug fs (nd s a c k v x Lf))"
  obtains T1 T' t' where "transplant T a (ptr (dummy T) x) = Some T1"
    "(if c = ASSOC_BLACK then delete_fixup T1 (ptr (dummy T) x) else Some T1) = Some T'"
    "zrep T' [] t'" "is_rbt t'" "entries t' = entries (plug fs x)"
    "keeps (insert (dummy T) (zaddrs fs x)) T T'"
proof -
  from transplant_zrep[OF zrep_can_replace[OF z]] obtain T1 where
    T1: "transplant T a (ptr (dummy T) x) = Some T1" "at_node T1 fs x"
      "keeps (insert (dummy T) (zaddrs fs x)) T T1" by blast
  have d1: "dummy T1 = dummy T" using keeps_dummy[OF T1(3)] .
  have n: "balanced (nd s a c k v x Lf)" "no_red_red (nd s a c k v x Lf)"
    and fs: "pbal (weight c) fs" "pcol c fs" "top_black fs" "fs = [] \<Longrightarrow> c = ASSOC_BLACK"
    using rb top_black_of_plug[of fs "nd s a c k v x Lf"]
    by (auto simp: is_rbt_def balanced_plug no_red_red_plug)
  from fixup_unlinked[OF T1(2) n fs] obtain T' t' where
    "(if c = ASSOC_BLACK then delete_fixup T1 (ptr (dummy T) x) else Some T1) = Some T'"
    "zrep T' [] t'" "is_rbt t'" "entries t' = entries (plug fs x)"
    "keeps (insert (dummy T) (zaddrs fs x)) T1 T'" unfolding d1 by blast
  with T1 keeps_trans that show thesis by blast
qed

lemma extract_two_children:
  assumes z: "zrep T fs (Nd a c k v l r)" and rb: "is_rbt (plug fs (Nd a c k v l r))"
    and l: "l \<noteq> Lf" and r: "r \<noteq> Lf"
  obtains T' t' where "assoc_rb_tree_extract_node T a = Some T'" "zrep T' [] t'" "is_rbt t'"
    "entries t' = pleft fs @ entries l @ entries r @ pright fs"
    "keeps (insert (dummy T) (zaddrs fs (Nd a c k v l r))) T T'"
    "\<exists>n. heap T' a = Some n \<and> n_key n = Some k \<and> n_value n = Some v"
proof -
  let ?d = "dummy T"
  let ?A = "insert ?d (zaddrs fs (Nd a c k v l r))"
  have zl: "zrep T fs (nd L a c k v l r)" and zr: "zrep T fs (nd R a c k v r l)" using z by (simp_all add: nd_def)
  from minimum_loop_zrep[OF zrep_downD[OF zr] r] obtain ms y cy ky vy x where
    m: "r = plug ms (Nd y cy ky vy Lf x)" "pleft ms = []" "minimum_loop T (ptr ?d r) = Some y" by blast
  have zy: "zrep T (ms @ Fr R a c k v l # fs) (nd R y cy ky vy x Lf)"
    using zrep_downD[OF zr] by (simp add: m(1) zrep_plug nd_def)
  note ny = zrep_node[OF zy]
  have rdL: "ptr ?d l \<noteq> ?d" "ptr ?d r \<noteq> ?d" using z l r by (auto simp: zrep_def)
  have mn: "minimum T (ptr ?d r) = Some y" using m(3) rdL by (simp add: minimum_def)
  have ay: "y \<noteq> a" "a \<notin> set (paddrs ms)"
    using zrep_distinct(1)[OF zy] by (simp_all add: paddrs_append)
  then have ay': "ms \<noteq> [] \<Longrightarrow> frame_addr (hd ms) \<noteq> a"
    using frame_addr_in[of "hd ms"] by (cases ms) auto
  have yp: "parent_of T y = Some (path_parent a ms)" using ny(3) by (cases ms) simp_all
  obtain T1 where T1: "(if path_parent a ms = a then set_parent T (ptr ?d x) y
      else lift_successor T a y (ptr ?d x)) = Some T1"
    "lifted T1 fs a c k v y ky vy l (plug ms x)"
    "x = Lf \<Longrightarrow> parent_of T1 ?d = Some (path_parent y ms)" "keeps ?A T T1"
  proof (cases "ms = []")
    case True
    have "zrep T fs (Nd a c k v l (Nd y cy ky vy Lf x))" using z m(1) True by simp
    from lift_right_child[OF this l] obtain T1 where T1: "set_parent T (ptr ?d x) y = Some T1"
      "lifted T1 fs a c k v y ky vy l x" "x = Lf \<Longrightarrow> parent_of T1 ?d = Some y"
      "keeps (insert ?d (set (addrs x))) T T1" by blast
    have "keeps ?A T T1" by (rule keeps_mono[OF T1(4)]) (simp add: m(1) True zaddrs_def, blast)
    then show thesis using that[of T1] T1(1-3) True by simp
  next
    case False
    have "zrep T fs (Nd a c k v l (plug ms (Nd y cy ky vy Lf x)))" using z m(1) by simp
    from lift_deep_successor[OF this l False] obtain T1 where
      T1: "lift_successor T a y (ptr ?d x) = Some T1" "lifted T1 fs a c k v y ky vy l (plug ms x)"
      "x = Lf \<Longrightarrow> parent_of T1 ?d = Some (path_parent y ms)" "keeps ?A T T1" unfolding m(1) by blast
    have "path_parent a ms \<noteq> a" using ay'[OF False] False by (cases ms) simp_all
    then show thesis using that[of T1] T1 by simp
  qed
  have d1: "dummy T1 = ?d" using keeps_dummy[OF T1(4)] .
  from replace_by_successor_zrep[OF T1(2)] obtain T2 where T2: "replace_by_successor T1 a y = Some T2"
    "zrep T2 fs (Nd y c ky vy l (plug ms x))" "keeps (insert y (set (addrs l) \<union> set (paddrs fs))) T1 T2"
    "\<exists>n. heap T2 a = Some n \<and> n_key n = Some k \<and> n_value n = Some v" by blast
  have d2: "dummy T2 = ?d" using keeps_dummy[OF T2(3)] d1 by simp
  let ?gs = "ms @ Fr R y c ky vy l # fs"
  have z2: "zrep T2 ?gs x"
  proof -
    have "zrep T2 fs (nd R y c ky vy (plug ms x) l)" using T2(2) by (simp add: nd_def)
    then show ?thesis by (simp add: zrep_down zrep_plug)
  qed
  have "at_node T2 ?gs x"
  proof (cases "x = Lf")
    case True
    have "?d \<notin> insert y (set (addrs l) \<union> set (paddrs fs))" using T2(2) d2 by (auto simp: zrep_def)
    then have "parent_of T2 ?d = Some (path_parent y ms)"
      using T1(3)[OF True] keeps_heap[OF T2(3), of ?d] by (simp add: parent_of_def get_def)
    then show ?thesis using z2 True d2 by (cases ms) (simp_all add: at_node_def)
  next
    case False
    then show ?thesis using z2 zrep_parent_color(1)[OF z2] by (simp add: at_node_def)
  qed
  moreover have n: "balanced (nd R y cy ky vy x Lf)" "no_red_red (nd R y cy ky vy x Lf)"
    and gs: "pbal (weight cy) ?gs" "pcol cy ?gs" "top_black ?gs" "?gs = [] \<Longrightarrow> cy = ASSOC_BLACK"
  proof -
    have "is_rbt (plug (ms @ Fr R a c k v l # fs) (nd R y cy ky vy x Lf))"
      using rb by (simp add: m(1) plug_append nd_def)
    then show "balanced (nd R y cy ky vy x Lf)" "no_red_red (nd R y cy ky vy x Lf)" "pbal (weight cy) ?gs"
      "pcol cy ?gs" "top_black ?gs" "?gs = [] \<Longrightarrow> cy = ASSOC_BLACK"
      using top_black_of_plug[of "ms @ Fr R a c k v l # fs" "nd R y cy ky vy x Lf"]
        pbal_swap[of _ ms R a c k v l fs y ky vy] pcol_swap[of _ ms R a c k v l fs y ky vy]
        top_black_swap[of ms R a c k v l fs y ky vy]
      by (auto simp: is_rbt_def balanced_plug no_red_red_plug)
  qed
  ultimately obtain T' t' where T': "(if cy = ASSOC_BLACK then delete_fixup T2 (ptr ?d x) else Some T2) = Some T'"
    "zrep T' [] t'" "is_rbt t'" "entries t' = entries (plug ?gs x)" "keeps (insert ?d (zaddrs ?gs x)) T2 T'"
    using fixup_unlinked[of T2 ?gs x R y cy ky vy] unfolding d2 by blast
  have "assoc_rb_tree_extract_node T a = Some T'"
    using zrep_node(2,4,5)[OF zl] zrep_node(6)[OF zl] rdL mn ny(2,4) yp T1(1) T2(1) T'(1)
    by (simp add: extract_node_code)
  moreover have "entries t' = pleft fs @ entries l @ entries r @ pright fs"
    using T'(4) entries_swap[OF m(2)] m(1) by simp
  moreover have "keeps ?A T T'"
  proof -
    have "insert ?d (zaddrs ?gs x) \<subseteq> ?A" "insert y (set (addrs l) \<union> set (paddrs fs)) \<subseteq> ?A"
      using m(1) by (auto simp: zaddrs_def set_addrs_plug paddrs_append)
    then have "keeps ?A T1 T2" "keeps ?A T2 T'" using T2(3) T'(5) keeps_mono by blast+
    then show ?thesis using T1(4) keeps_trans by metis
  qed
  moreover have "\<exists>n. heap T' a = Some n \<and> n_key n = Some k \<and> n_value n = Some v"
  proof -
    have "a \<notin> insert ?d (zaddrs ?gs x)"
      using zrep_distinct[OF z] ay(1) m(1) by (auto simp: zaddrs_def set_addrs_plug paddrs_append)
    then show ?thesis using keeps_heap[OF T'(5)] T2(4) by simp
  qed
  ultimately show thesis using that T'(2,3) by blast
qed

lemma extract_node_zrep:
  assumes z: "zrep T fs (Nd a c k v l r)" and rb: "is_rbt (plug fs (Nd a c k v l r))"
  obtains T' t' where "assoc_rb_tree_extract_node T a = Some T'" "zrep T' [] t'" "is_rbt t'"
    "entries t' = pleft fs @ entries l @ entries r @ pright fs"
    "keeps (insert (dummy T) (zaddrs fs (Nd a c k v l r))) T T'"
    "\<exists>n. heap T' a = Some n \<and> n_key n = Some k \<and> n_value n = Some v"
proof -
  let ?d = "dummy T"
  let ?A = "insert ?d (zaddrs fs (Nd a c k v l r))"
  have zl: "zrep T fs (nd L a c k v l r)" using z by (simp add: nd_def)
  note n = zrep_node[OF zl]
  have p: "ptr ?d l = ?d \<longleftrightarrow> l = Lf" "ptr ?d r = ?d \<longleftrightarrow> r = Lf" using z by (auto simp: zrep_def)
  have av: "heap T' a = heap T a" if "keeps (insert ?d (zaddrs fs x)) T T'" "x = l \<or> x = r" for T' x
    using keeps_heap[OF that(1), of a] z that(2) by (auto simp: zrep_def zaddrs_def)
  have kk: "keeps ?A T T'" if "keeps (insert ?d (zaddrs fs x)) T T'" "x = l \<or> x = r" for T' x
    by (rule keeps_mono[OF that(1)]) (use that(2) in \<open>auto simp: zaddrs_def\<close>)
  consider "l = Lf" | "l \<noteq> Lf" "r = Lf" | "l \<noteq> Lf" "r \<noteq> Lf" by blast
  then show thesis
  proof cases
    case 1
    then have nr: "Nd a c k v l r = nd R a c k v r Lf" by (simp add: nd_def)
    from extract_one_child[OF z[unfolded nr] rb[unfolded nr]] obtain T1 T' t' where
      T': "transplant T a (ptr ?d r) = Some T1"
      "(if c = ASSOC_BLACK then delete_fixup T1 (ptr ?d r) else Some T1) = Some T'"
      "zrep T' [] t'" "is_rbt t'" "entries t' = entries (plug fs r)" "keeps (insert ?d (zaddrs fs r)) T T'" .
    have "assoc_rb_tree_extract_node T a = Some T'"
      using n(2,4,5,6) 1 T'(1,2) by (simp add: extract_node_code)
    then show thesis using that T'(3-5) av[OF T'(6)] kk[OF T'(6)] 1 n(1) by (simp add: entries_plug)
  next
    case 2
    then have nr: "Nd a c k v l r = nd L a c k v l Lf" by (simp add: nd_def)
    from extract_one_child[OF z[unfolded nr] rb[unfolded nr]] obtain T1 T' t' where
      T': "transplant T a (ptr ?d l) = Some T1"
      "(if c = ASSOC_BLACK then delete_fixup T1 (ptr ?d l) else Some T1) = Some T'"
      "zrep T' [] t'" "is_rbt t'" "entries t' = entries (plug fs l)" "keeps (insert ?d (zaddrs fs l)) T T'" .
    have "assoc_rb_tree_extract_node T a = Some T'"
      using n(2,4,5,6) 2 p T'(1,2) by (simp add: extract_node_code)
    then show thesis using that T'(3-5) av[OF T'(6)] kk[OF T'(6)] 2 n(1) by (simp add: entries_plug)
  next
    case 3
    from extract_two_children[OF z rb 3] that show thesis by blast
  qed
qed

end
