(* ===== verification/Rb_Contract.thy ===== *)
theory Rb_Contract
  imports Rb_Extract "HOL-Library.Multiset"
begin

text \<open>
  What the operations of the red-black tree promise to the code that uses it, in terms of the
  sequence of entries: creation, insertion, search, extraction, iteration and release.
\<close>

section \<open>Search\<close>

context comparator
begin

lemma find_zrep:
  assumes "\<forall>e \<in> set (entries t). comp_fn T key (entry_key e) = Some (cmp key (entry_key e))"
    "zrep T fs t" "ordered cmp (entries t)"
  shows "(\<exists>gs a c k v l r. plug fs t = plug gs (Nd a c k v l r) \<and> zrep T gs (Nd a c k v l r) \<and>
      find_rb_tree T (ptr (dummy T) t) (Some key) = Some a \<and> cmp key k = 0) \<or>
    (find_rb_tree T (ptr (dummy T) t) (Some key) = Some (dummy T) \<and>
      (\<forall>e \<in> set (entries t). cmp key (entry_key e) \<noteq> 0))"
  using assms
proof (induction t arbitrary: fs)
  case Lf
  then show ?case by (simp add: find_rb_tree.simps)
next
  case (Nd a c k v l r)
  have zl: "zrep T fs (nd L a c k v l r)" and zr: "zrep T fs (nd R a c k v r l)"
    using Nd.prems(2) by (simp_all add: nd_def)
  note n = zrep_node[OF zl]
  have cm: "comp_key T (Some key) a = Some (cmp key k)" using n(1) Nd.prems(1) by (simp add: comp_key_def get_def)
  have ord: "ordered cmp (entries l)" "ordered cmp (entries r)"
    "\<And>x. x \<in> set (entries l) \<Longrightarrow> cmp k (entry_key x) \<noteq> 1" "\<And>x. x \<in> set (entries r) \<Longrightarrow> cmp (entry_key x) k \<noteq> 1"
    using Nd.prems(3) by (auto simp: ordered_append ordered_Cons)
  have code: "find_rb_tree T a (Some key) =
      (if cmp key k = 1 then find_rb_tree T (ptr (dummy T) l) (Some key)
       else if cmp key k = -1 then find_rb_tree T (ptr (dummy T) r) (Some key) else Some a)"
    using cm n(4,5,6) cmp_range[of key k] by (auto simp: find_rb_tree.simps[of T a])
  consider "cmp key k = 1" | "cmp key k = - 1" | "cmp key k = 0" using cmp_range by blast
  then show ?case
  proof cases
    case 1
    then have "cmp key (entry_key x) = 1" if "x \<in> set (entries r)" for x
      using cmp_less_le ord(4)[OF that] by blast
    moreover have p: "plug (Fr L a c k v r # fs) l = plug fs (Nd a c k v l r)" by (simp add: nd_def)
    moreover have f: "find_rb_tree T (ptr (dummy T) (Nd a c k v l r)) (Some key) =
        find_rb_tree T (ptr (dummy T) l) (Some key)" using code 1 by simp
    moreover have "\<forall>e \<in> set (entries l). comp_fn T key (entry_key e) = Some (cmp key (entry_key e))"
      using Nd.prems(1) by simp
    note Nd.IH(1)[OF this zrep_downD[OF zl] ord(1), unfolded p]
    ultimately show ?thesis unfolding f using 1 by (elim disj_forward) auto
  next
    case 2
    then have "cmp key (entry_key x) \<noteq> 0" if "x \<in> set (entries l)" for x
      using ord(3)[OF that] cmp_swap[of key k] cmp_cong[of key "entry_key x" k] cmp_not_less[of k "entry_key x"]
        cmp_swap[of k "entry_key x"] cmp_cong2[of key "entry_key x" k] by auto
    moreover have p: "plug (Fr R a c k v l # fs) r = plug fs (Nd a c k v l r)" by (simp add: nd_def)
    moreover have f: "find_rb_tree T (ptr (dummy T) (Nd a c k v l r)) (Some key) =
        find_rb_tree T (ptr (dummy T) r) (Some key)" using code 2 by simp
    moreover have "\<forall>e \<in> set (entries r). comp_fn T key (entry_key e) = Some (cmp key (entry_key e))"
      using Nd.prems(1) by simp
    note Nd.IH(2)[OF this zrep_downD[OF zr] ord(2), unfolded p]
    ultimately show ?thesis unfolding f using 2 by (elim disj_forward) auto
  next
    case 3
    then have f: "find_rb_tree T (ptr (dummy T) (Nd a c k v l r)) (Some key) = Some a" using code by simp
    show ?thesis by (intro disjI1 exI conjI, rule refl) (rule Nd.prems(2), rule f, rule 3)
  qed
qed

end

section \<open>Entries and their places\<close>

lemma entries_place:
  "entries t = xs @ (a, k, v) # ys \<Longrightarrow>
     \<exists>fs c l r. t = plug fs (Nd a c k v l r) \<and> xs = pleft fs @ entries l \<and> ys = entries r @ pright fs"
proof (induction t arbitrary: xs ys)
  case (Nd b c' k' v' l r)
  from Nd.prems consider zs where "entries l = xs @ (a, k, v) # zs" "ys = zs @ (b, k', v') # entries r"
    | "xs = entries l" "(b, k', v') = (a, k, v)" "entries r = ys"
    | zs where "xs = entries l @ (b, k', v') # zs" "entries r = zs @ (a, k, v) # ys"
    by (auto simp: append_eq_append_conv2 Cons_eq_append_conv append_eq_Cons_conv)
  then show ?case
  proof cases
    case 1
    from Nd.IH(1)[OF 1(1)] obtain fs c l1 r1 where p: "l = plug fs (Nd a c k v l1 r1)"
      "xs = pleft fs @ entries l1" "zs = entries r1 @ pright fs" by blast
    show ?thesis
      by (rule exI[of _ "fs @ [Fr L b c' k' v' r]"], rule exI[of _ c], rule exI[of _ l1], rule exI[of _ r1])
        (use p 1 in \<open>simp add: plug_append pleft_append pright_append nd_def\<close>)
  next
    case 2
    then show ?thesis by (intro exI[of _ "[]"]) auto
  next
    case 3
    from Nd.IH(2)[OF 3(2)] obtain fs c l1 r1 where p: "r = plug fs (Nd a c k v l1 r1)"
      "zs = pleft fs @ entries l1" "ys = entries r1 @ pright fs" by blast
    show ?thesis
      by (rule exI[of _ "fs @ [Fr R b c' k' v' l]"], rule exI[of _ c], rule exI[of _ l1], rule exI[of _ r1])
        (use p 3 in \<open>simp add: plug_append pleft_append pright_append nd_def\<close>)
  qed
qed simp

text \<open>Taking an entry out, by its iterator.\<close>
lemma extract_node_rep:
  assumes r: "rb_rep vkey cmp T (xs @ (a, k, v) # ys)" and cm: "comparator cmp"
  obtains T' where "assoc_rb_tree_extract_node T a = Some T'" "\<exists>n. heap T' a = Some n \<and> n_key n = Some k \<and> n_value n = Some v"
    "rb_rep vkey cmp (T'\<lparr>heap := (heap T')(a := None), tree_size := tree_size T' - 1\<rparr>) (xs @ ys)"
    "tree_size T' = length (xs @ (a, k, v) # ys)" "comp_fn T' = comp_fn T" "key_sz T' = key_sz T"
    "has_free_func T' = has_free_func T" "a \<noteq> dummy T" "dummy T' = dummy T"
proof -
  obtain t where t: "zrep T [] t" "is_rbt t" "entries t = xs @ (a, k, v) # ys"
    and sz: "tree_size T = length (xs @ (a, k, v) # ys)" and ord: "ordered cmp (xs @ (a, k, v) # ys)"
      "\<forall>e \<in> set (xs @ (a, k, v) # ys). vkey (entry_key e)" "agrees T vkey cmp"
    using r by (auto simp: rb_rep_def)
  from entries_place[OF t(3)] obtain fs c l q where p: "t = plug fs (Nd a c k v l q)"
    "xs = pleft fs @ entries l" "ys = entries q @ pright fs" by blast
  have z: "zrep T fs (Nd a c k v l q)" using t(1) p(1) zrep_whole by blast
  from extract_node_zrep[OF z] t(2) p(1) obtain T' t' where T': "assoc_rb_tree_extract_node T a = Some T'"
    "zrep T' [] t'" "is_rbt t'" "entries t' = pleft fs @ entries l @ entries q @ pright fs"
    "keeps (insert (dummy T) (zaddrs fs (Nd a c k v l q))) T T'"
    "\<exists>n. heap T' a = Some n \<and> n_key n = Some k \<and> n_value n = Some v" by blast
  have e: "entries t' = xs @ ys" using T'(4) p by simp
  have "set (addrs t') \<subseteq> set (addrs l) \<union> set (addrs q) \<union> set (paddrs fs)"
  proof -
    have "set (addrs t') = fst ` set (pleft fs @ pright fs) \<union> set (addrs l) \<union> set (addrs q)"
      by (simp add: addrs_entries T'(4) image_Un Un_ac)
    moreover have "fst ` set (pleft fs @ pright fs) = set (paddrs fs)"
      using addrs_entries[of "plug fs Lf"] set_addrs_plug[of fs Lf] by (simp add: entries_plug)
    ultimately show ?thesis by auto
  qed
  then have an: "a \<notin> set (addrs t')" "a \<noteq> dummy T" using zrep_distinct[OF z] by auto
  let ?T = "T'\<lparr>heap := (heap T')(a := None), tree_size := tree_size T' - 1\<rparr>"
  have "zrep ?T [] t'" using T'(2) an keeps_dummy[OF T'(5)] by (auto simp: zrep_def)
  moreover have "ordered cmp (xs @ ys)" using comparator.ordered_remove[OF cm ord(1)] .
  ultimately have "rb_rep vkey cmp ?T (xs @ ys)"
    using T'(3,5) e sz ord(2,3) by (auto simp: rb_rep_def keeps_def agrees_def)
  then show thesis using that T'(1,5,6) an sz by (simp add: keeps_def)
qed

section \<open>The contract\<close>

lemma init_rep:
  assumes "0 < ksz" "a \<noteq> 0" "\<And>x y. vkey x \<Longrightarrow> vkey y \<Longrightarrow> f x y = Some (cmp x y)"
  obtains T where "assoc_rb_tree_init a ksz f ff = Some T" "rb_rep vkey cmp T []" "comp_fn T = f" "key_sz T = ksz"
    "has_free_func T = ff"
proof -
  let ?T = "\<lparr>heap = [a \<mapsto> (init_node None None)\<lparr>n_color := ASSOC_BLACK\<rparr>], dummy = a, root = a,
    comp_fn = f, tree_size = 0, key_sz = ksz, has_free_func = ff\<rparr>"
  have "zrep ?T [] Lf" by (simp add: zrep_def)
  moreover have "is_rbt Lf" by (simp add: is_rbt_def)
  ultimately have "rb_rep vkey cmp ?T []" using assms(3) by (auto simp: rb_rep_def agrees_def)
  then show thesis using that assms by (simp add: assoc_rb_tree_init_def)
qed

context comparator
begin

lemma find_rep:
  assumes r: "rb_rep vkey cmp T es" and vkey: "vkey key"
  shows "(\<exists>xs a k v ys. es = xs @ (a, k, v) # ys \<and> find_rb_tree T (root T) (Some key) = Some a \<and>
      cmp key k = 0 \<and> a \<noteq> dummy T) \<or>
    (find_rb_tree T (root T) (Some key) = Some (dummy T) \<and> (\<forall>e \<in> set es. cmp key (entry_key e) \<noteq> 0))"
proof -
  obtain t where t: "zrep T [] t" "entries t = es" "ordered cmp es"
      "\<forall>e \<in> set (entries t). comp_fn T key (entry_key e) = Some (cmp key (entry_key e))"
    using r vkey by (auto simp: rb_rep_def agrees_def)
  have rt: "root T = ptr (dummy T) t" using zrep_root[OF t(1)] .
  from find_zrep[OF t(4) t(1)] t(2,3) rt consider
    gs a c k v l r where "t = plug gs (Nd a c k v l r)" "zrep T gs (Nd a c k v l r)"
      "find_rb_tree T (root T) (Some key) = Some a" "cmp key k = 0"
    | "find_rb_tree T (root T) (Some key) = Some (dummy T)" "\<forall>e \<in> set es. cmp key (entry_key e) \<noteq> 0"
    by auto
  then show ?thesis
  proof cases
    case 1
    have "es = (pleft gs @ entries l) @ (a, k, v) # (entries r @ pright gs)"
      using t(2) 1(1) by (simp add: entries_plug)
    moreover have "a \<noteq> dummy T" using zrep_distinct(2)[OF 1(2)] by auto
    ultimately show ?thesis using 1(3,4) by blast
  next
    case 2
    then show ?thesis by blast
  qed
qed

lemma extract_rep:
  assumes r: "rb_rep vkey cmp T es" and vkey: "vkey key" and key: "\<exists>e \<in> set es. cmp key (entry_key e) = 0"
  obtains T' xs a k v ys where "es = xs @ (a, k, v) # ys" "cmp key k = 0"
    "assoc_rb_tree_extract T key = Some (Some v, T')" "rb_rep vkey cmp T' (xs @ ys)" "heap T' a = None"
    "comp_fn T' = comp_fn T" "key_sz T' = key_sz T" "has_free_func T' = has_free_func T" "dummy T' = dummy T"
proof -
  from find_rep[OF r vkey] key obtain xs a k v ys where
    e: "es = xs @ (a, k, v) # ys" "find_rb_tree T (root T) (Some key) = Some a" "cmp key k = 0" "a \<noteq> dummy T"
    by blast
  from extract_node_rep[OF r[unfolded e(1)] comparator_axioms] obtain T1 where
    T1: "assoc_rb_tree_extract_node T a = Some T1"
    "\<exists>n. heap T1 a = Some n \<and> n_key n = Some k \<and> n_value n = Some v"
    "rb_rep vkey cmp (T1\<lparr>heap := (heap T1)(a := None), tree_size := tree_size T1 - 1\<rparr>) (xs @ ys)"
    "tree_size T1 = length (xs @ (a, k, v) # ys)" "comp_fn T1 = comp_fn T" "key_sz T1 = key_sz T"
    "has_free_func T1 = has_free_func T" "dummy T1 = dummy T" by blast
  let ?T = "T1\<lparr>heap := (heap T1)(a := None), tree_size := tree_size T1 - 1\<rparr>"
  have "assoc_rb_tree_extract T key = Some (Some v, ?T)"
    using e(2,4) T1(1,2,4) by (auto simp: assoc_rb_tree_extract_def get_def free_node_rb_tree_def)
  then show thesis using that[OF e(1,3)] T1(3,5,6,7,8) by simp
qed

lemma extract_missing:
  assumes r: "rb_rep vkey cmp T es" and vkey: "vkey key" and key: "\<forall>e \<in> set es. cmp key (entry_key e) \<noteq> 0"
  shows "assoc_rb_tree_extract T key = None"
  using find_rep[OF r vkey] key by (auto simp: assoc_rb_tree_extract_def)

end

lemma front_rep:
  assumes "rb_rep vkey cmp T es"
  shows "assoc_rb_tree_front T = Some (case es of [] \<Rightarrow> dummy T | e # _ \<Rightarrow> fst e)"
proof -
  obtain t where t: "zrep T [] t" "entries t = es" using assms by (auto simp: rb_rep_def)
  show ?thesis
  proof (cases "t = Lf")
    case True
    then show ?thesis using t zrep_root[OF t(1)] by (simp add: assoc_rb_tree_front_def minimum_def)
  next
    case False
    from minimum_loop_zrep[OF t(1) False] obtain ms y c k v r where
      m: "t = plug ms (Nd y c k v Lf r)" "pleft ms = []" "minimum_loop T (ptr (dummy T) t) = Some y" by blast
    have "es = (y, k, v) # entries r @ pright ms" using t(2) m by (simp add: entries_plug)
    moreover have "ptr (dummy T) t \<noteq> dummy T" using False t(1) by (auto simp: zrep_def)
    ultimately show ?thesis using m(3) zrep_root[OF t(1)] by (simp add: assoc_rb_tree_front_def minimum_def)
  qed
qed

text \<open>The climb to the first ancestor of which the node is on the left.\<close>
lemma next_up_zrep:
  assumes "zrep T fs x" "x \<noteq> Lf"
  shows "next_up T (ptr (dummy T) x) (path_parent (dummy T) fs) =
    Some (case pright fs of [] \<Rightarrow> dummy T | e # _ \<Rightarrow> fst e)"
  using assms
proof (induction fs arbitrary: x)
  case Nil
  then show ?case by (simp add: next_up.simps)
next
  case (Cons f fs)
  obtain s a c k v y where f: "f = Fr s a c k v y" by (cases f)
  have z: "zrep T (Fr s a c k v y # fs) x" using Cons.prems f by simp
  note n = zrep_node[OF zrep_upD[OF z]]
  show ?case
  proof (cases s)
    case L
    then show ?thesis using n f by (simp add: next_up.simps[of T _ a])
  next
    case R
    have "ptr (dummy T) y \<noteq> ptr (dummy T) x"
      using zrep_distinct[OF z] Cons.prems(2) ptr_in_addrs[of x "dummy T"] ptr_in_addrs[of y "dummy T"]
      by (cases "y = Lf") auto
    then show ?thesis using n f R Cons.IH[OF zrep_upD[OF z]] by (simp add: next_up.simps[of T _ a])
  qed
qed

lemma next_rep:
  assumes "rb_rep vkey cmp T (xs @ (a, k, v) # ys)"
  shows "assoc_rb_tree_next T a = Some (case ys of [] \<Rightarrow> dummy T | e # _ \<Rightarrow> fst e)"
proof -
  obtain t where t: "zrep T [] t" "entries t = xs @ (a, k, v) # ys" using assms by (auto simp: rb_rep_def)
  from entries_place[OF t(2)] obtain fs c l r where p: "t = plug fs (Nd a c k v l r)"
    "ys = entries r @ pright fs" by blast
  have z: "zrep T fs (Nd a c k v l r)" using t(1) p(1) zrep_whole by blast
  then have zr: "zrep T fs (nd R a c k v r l)" by (simp add: nd_def)
  note n = zrep_node[OF zr]
  show ?thesis
  proof (cases "r = Lf")
    case True
    then show ?thesis using n next_up_zrep[OF z] p(2) by (simp add: assoc_rb_tree_next_def)
  next
    case False
    from minimum_loop_zrep[OF zrep_downD[OF zr] False] obtain ms y c' k' v' q where
      m: "r = plug ms (Nd y c' k' v' Lf q)" "pleft ms = []" "minimum_loop T (ptr (dummy T) r) = Some y" by blast
    have "entries r = (y, k', v') # entries q @ pright ms" using m by (simp add: entries_plug)
    moreover have "ptr (dummy T) r \<noteq> dummy T" using False zrep_distinct(2)[OF z] by auto
    ultimately show ?thesis using n m(3) p(2) by (simp add: assoc_rb_tree_next_def minimum_def)
  qed
qed

lemma access_rep:
  assumes "rb_rep vkey cmp T (xs @ (a, k, v) # ys)"
  shows "assoc_rb_tree_key T a = Some (Some k)" "assoc_rb_tree_value T a = Some (Some v)"
    "a \<noteq> dummy T" "heap T a \<noteq> None" "a \<noteq> 0"
proof -
  obtain t where t: "zrep T [] t" "entries t = xs @ (a, k, v) # ys" using assms by (auto simp: rb_rep_def)
  from entries_place[OF t(2)] obtain fs c l r where p: "t = plug fs (Nd a c k v l r)" by blast
  have z: "zrep T fs (nd L a c k v l r)" using t(1) p zrep_whole[of T fs] by (simp add: nd_def)
  from zrep_node[OF z] show "assoc_rb_tree_key T a = Some (Some k)" "assoc_rb_tree_value T a = Some (Some v)"
    "a \<noteq> dummy T" "heap T a \<noteq> None" "a \<noteq> 0"
    by (simp_all add: assoc_rb_tree_key_def assoc_rb_tree_value_def get_def)
qed

section \<open>Release\<close>

primrec postorder :: "('k, 'v) tr \<Rightarrow> ('k \<times> 'v) list" where
  "postorder Lf = []"
| "postorder (Nd a c k v l r) = postorder l @ postorder r @ [(k, v)]"

lemma mset_postorder: "mset (postorder t) = mset (map snd (entries t))"
  by (induction t) auto

lemma dfs_free:
  assumes "repr (heap T) (dummy T) p t" "distinct (addrs t)" "dummy T \<notin> set (addrs t)"
  shows "depth_first_search_free T (ptr (dummy T) t) f =
    Some (if f then map (\<lambda>(k, v). (Some k, Some v)) (postorder t) else [],
      T\<lparr>heap := (\<lambda>b. if b \<in> set (addrs t) then None else heap T b)\<rparr>)"
  using assms
proof (induction t arbitrary: p T)
  case Lf
  then show ?case by (simp add: depth_first_search_free.simps)
next
  case (Nd a c k v l r)
  let ?T1 = "T\<lparr>heap := (\<lambda>b. if b \<in> set (addrs l) then None else heap T b)\<rparr>"
  let ?T2 = "T\<lparr>heap := (\<lambda>b. if b \<in> set (addrs l @ addrs r) then None else heap T b)\<rparr>"
  have l: "depth_first_search_free T (ptr (dummy T) l) f =
      Some (if f then map (\<lambda>(k, v). (Some k, Some v)) (postorder l) else [], ?T1)"
    using Nd.prems by (intro Nd.IH(1)) auto
  have "repr (heap ?T1) (dummy ?T1) a r"
    using Nd.prems by (subst repr_cong[where h = "heap T"]) auto
  then have r: "depth_first_search_free ?T1 (ptr (dummy T) r) f =
      Some (if f then map (\<lambda>(k, v). (Some k, Some v)) (postorder r) else [], ?T2)"
  proof -
    have "(\<lambda>b. if b \<in> set (addrs r) then None else heap ?T1 b) = heap ?T2" by auto
    then have "?T1\<lparr>heap := (\<lambda>b. if b \<in> set (addrs r) then None else heap ?T1 b)\<rparr> = ?T2" by simp
    then show ?thesis using Nd.IH(2)[OF \<open>repr (heap ?T1) _ a r\<close>] Nd.prems(2,3) by simp
  qed
  have h: "heap T a = Some (cell L c k v p (ptr (dummy T) l) (ptr (dummy T) r))" "a \<noteq> dummy T"
    "a \<notin> set (addrs l)" "a \<notin> set (addrs r)" using Nd.prems by auto
  have cr: "child R (cell L c k v p (ptr (dummy T) l) (ptr (dummy T) r)) = ptr (dummy T) r"
    using cell_sel(2)[of L] by simp
  have cl: "child L (cell L c k v p (ptr (dummy T) l) (ptr (dummy T) r)) = ptr (dummy T) l"
    using cell_sel(1)[of L] by simp
  have "(heap ?T2)(a := None) = (\<lambda>b. if b \<in> set (addrs (Nd a c k v l r)) then None else heap T b)"
    by auto
  then show ?case
    using h l r cl cr
    by (simp add: depth_first_search_free.simps[of T a] child_of_def get_def free_node_rb_tree_def
        del: child.simps)
qed

text \<open>Releasing a tree hands every entry to the free function once and leaves none of its nodes
  allocated.\<close>
lemma free_rep:
  assumes "rb_rep vkey cmp T es" "has_free_func T"
  obtains rel T' where "assoc_rb_tree_free T = Some (rel, T')"
    "mset rel = mset (map (\<lambda>(a, k, v). (Some k, Some v)) es)"
    "\<forall>b. heap T' b = (if b = dummy T \<or> b \<in> fst ` set es then None else heap T b)"
proof -
  obtain t where t: "zrep T [] t" "entries t = es" using assms by (auto simp: rb_rep_def)
  let ?T1 = "T\<lparr>heap := (\<lambda>b. if b \<in> set (addrs t) then None else heap T b)\<rparr>"
  have "repr (heap T) (dummy T) (dummy T) t" "distinct (addrs t)" "dummy T \<notin> set (addrs t)"
    using t(1) by (simp_all add: zrep_def)
  from dfs_free[OF this, of True] zrep_root[OF t(1)]
  have d: "depth_first_search_free T (root T) True =
      Some (map (\<lambda>(k, v). (Some k, Some v)) (postorder t), ?T1)" by simp
  obtain n where n: "heap T (dummy T) = Some n" "dummy T \<notin> set (addrs t)" using t(1) by (auto simp: zrep_def)
  have m: "mset (map (\<lambda>(k, v). (Some k, Some v)) (postorder t)) = mset (map (\<lambda>(a, k, v). (Some k, Some v)) es)"
  proof -
    have "map (\<lambda>(a, k, v). (Some k, Some v)) es = map (\<lambda>(k, v). (Some k, Some v)) (map snd es)"
      by (induction es) auto
    then show ?thesis by (simp only: mset_map mset_postorder t(2))
  qed
  show thesis
    by (rule that[OF _ m, of "?T1\<lparr>heap := (heap ?T1)(dummy T := None)\<rparr>"])
      (use d n assms(2) t(2) in \<open>simp_all add: assoc_rb_tree_free_def get_def addrs_entries\<close>)
qed

section \<open>Height\<close>

primrec tr_height :: "('k, 'v) tr \<Rightarrow> nat" where
  "tr_height Lf = 0"
| "tr_height (Nd a c k v l r) = Suc (max (tr_height l) (tr_height r))"

lemma height_bh:
  "balanced t \<Longrightarrow> no_red_red t \<Longrightarrow> tr_height t \<le> 2 * bh t + (if color t = ASSOC_RED then 1 else 0)"
proof (induction t)
  case (Nd a c k v l r)
  then show ?case by (cases c; cases "color l"; cases "color r") (auto simp: max_def)
qed simp

lemma bh_size: "balanced t \<Longrightarrow> 2 ^ bh t \<le> Suc (length (entries t))"
proof (induction t)
  case (Nd a c k v l r)
  then show ?case by (cases c) auto
qed simp

lemma height_rep:
  assumes "is_rbt t" shows "2 ^ tr_height t \<le> (Suc (length (entries t))) ^ 2"
proof -
  have "tr_height t \<le> 2 * bh t" using height_bh[of t] assms by (simp add: is_rbt_def)
  then have "(2::nat) ^ tr_height t \<le> 2 ^ (2 * bh t)" by (intro power_increasing) simp_all
  also have "\<dots> = (2 ^ bh t) ^ 2" by (simp only: power_mult[symmetric] mult.commute)
  also have "\<dots> \<le> (Suc (length (entries t))) ^ 2"
    using bh_size[of t] assms by (intro power_mono) (simp_all add: is_rbt_def)
  finally show ?thesis .
qed

end
