(* ===== verification/Rb_Table.thy ===== *)
theory Rb_Table
  imports Rb_Contract Identifiers
begin

text \<open>
  The properties of the red-black tree, for any comparison function that is a total order up to
  equal keys, and the tree on RAN function identifiers with which the properties are instantiated.
\<close>

section \<open>A tree with one entry\<close>

definition ex_tree :: "(uint16, nat) assoc_rb_tree" where
  "ex_tree = \<lparr>heap = [1 \<mapsto> (init_node None None)\<lparr>n_color := ASSOC_BLACK\<rparr>,
      2 \<mapsto> \<lparr>n_key = Some 7, n_value = Some 30, n_parent = 1, n_left = 1, n_right = 1, n_color = ASSOC_BLACK\<rparr>],
    dummy = 1, root = 2, comp_fn = (\<lambda>a b. Some (cmp_ran_func_id a b)), tree_size = 1, key_sz = 2,
    has_free_func = True\<rparr>"

lemma ex_tree_rep: "rb_rep (\<lambda>_. True) cmp_ran_func_id ex_tree [(2, 7, 30)]"
proof -
  have "zrep ex_tree [] (Nd 2 ASSOC_BLACK 7 30 Lf Lf)"
    by (simp add: zrep_def ex_tree_def init_node_def cell_def)
  moreover have "is_rbt (Nd 2 ASSOC_BLACK 7 30 Lf Lf)" by (simp add: is_rbt_def)
  moreover have "agrees ex_tree (\<lambda>_. True) cmp_ran_func_id" by (simp add: agrees_def ex_tree_def)
  ultimately show ?thesis
    unfolding rb_rep_def by (intro conjI exI[of _ "Nd 2 ASSOC_BLACK 7 30 Lf Lf"])
      (simp_all add: ordered_def ex_tree_def)
qed

lemma ex_tree_sel [simp]:
  "key_sz ex_tree = 2" "has_free_func ex_tree" "dummy ex_tree = 1" "heap ex_tree 3 = None"
  by (simp_all add: ex_tree_def)

section \<open>The properties of the operations\<close>

text \<open>C23: inserting a key of the right size into a tree never aborts: the new tree is again a
  red-black tree whose nodes hold the old entries, in order, and the new one before the first
  greater key; nothing else of the tree changes.\<close>
theorem assoc_rb_tree_insert_ordered:
  assumes "comparator cmp" "rb_rep vkey cmp T es" "vkey key" "key_sz T = ksz" "heap T a = None" "a \<noteq> 0"
  shows "\<exists>T'. assoc_rb_tree_insert a T key ksz val = Some T' \<and>
    rb_rep vkey cmp T' (ins_entry cmp (a, key, val) es) \<and> assoc_rb_tree_size T' = length es + 1 \<and>
    dummy T' = dummy T \<and> comp_fn T' = comp_fn T \<and> has_free_func T' = has_free_func T"
proof -
  obtain T' where T': "assoc_rb_tree_insert a T key ksz val = Some T'"
    "rb_rep vkey cmp T' (ins_entry cmp (a, key, val) es)" "dummy T' = dummy T"
    "comp_fn T' = comp_fn T" "key_sz T' = ksz" "has_free_func T' = has_free_func T"
    using comparator.insert_rep[OF assms(1-6)] .
  then show ?thesis
    by (intro exI[of _ T']) (simp add: rb_rep_def length_ins_entry assoc_rb_tree_size_def)
qed

text \<open>The theorem at the tree that holds the function 7, for the function 9.\<close>
theorem assoc_rb_tree_insert_ordered_witness:
  "\<exists>T'. assoc_rb_tree_insert 3 ex_tree 9 2 40 = Some T' \<and>
     rb_rep (\<lambda>_. True) cmp_ran_func_id T' [(2, 7, 30), (3, 9, 40)] \<and> assoc_rb_tree_size T' = 2"
proof -
  have "ins_entry cmp_ran_func_id (3, 9, 40) [(2, 7, 30)] = [(2, 7, 30), (3, 9, 40 :: nat)]"
    by (simp add: ins_entry_def cmp_ran_func_id_def)
  then show ?thesis
    using assoc_rb_tree_insert_ordered[OF ran_func.comparator_axioms ex_tree_rep TrueI ex_tree_sel(1,4), of 9 40]
    by (fastforce simp: numeral_2_eq_2[symmetric])
qed

text \<open>C24: extracting a key that some entry of the tree has removes the node of such an entry and
  returns its value: the rest stays a red-black tree with the other entries in order, and the node
  is released.\<close>
theorem assoc_rb_tree_extract_removes:
  assumes "comparator cmp" "rb_rep vkey cmp T es" "vkey key" "\<exists>e \<in> set es. cmp key (entry_key e) = 0"
  shows "\<exists>T' xs a k v ys. es = xs @ (a, k, v) # ys \<and> cmp key k = 0 \<and>
    assoc_rb_tree_extract T key = Some (Some v, T') \<and> rb_rep vkey cmp T' (xs @ ys) \<and> heap T' a = None \<and>
    assoc_rb_tree_size T' + 1 = length es"
proof -
  obtain T' xs a k v ys where x: "es = xs @ (a, k, v) # ys" "cmp key k = 0"
    "assoc_rb_tree_extract T key = Some (Some v, T')" "rb_rep vkey cmp T' (xs @ ys)" "heap T' a = None"
    using comparator.extract_rep[OF assms] by metis
  moreover have "assoc_rb_tree_size T' + 1 = length es" using x(1,4) by (simp add: rb_rep_def assoc_rb_tree_size_def)
  ultimately show ?thesis by blast
qed

theorem assoc_rb_tree_extract_removes_witness:
  "\<exists>T'. assoc_rb_tree_extract ex_tree 7 = Some (Some 30, T') \<and>
     rb_rep (\<lambda>_. True) cmp_ran_func_id T' [] \<and> heap T' 2 = None \<and> assoc_rb_tree_size T' = 0"
  using assoc_rb_tree_extract_removes[OF ran_func.comparator_axioms ex_tree_rep, of 7]
  by (auto simp: Cons_eq_append_conv)

text \<open>Extracting a key that no entry has fails an assertion.\<close>
theorem assoc_rb_tree_extract_absent:
  assumes "comparator cmp" "rb_rep vkey cmp T es" "vkey key" "\<forall>e \<in> set es. cmp key (entry_key e) \<noteq> 0"
  shows "assoc_rb_tree_extract T key = None"
  using comparator.extract_missing[OF assms] .

theorem assoc_rb_tree_extract_absent_witness: "assoc_rb_tree_extract ex_tree 8 = None"
  by (rule assoc_rb_tree_extract_absent[OF ran_func.comparator_axioms ex_tree_rep])
    (simp_all add: cmp_ran_func_id_def)

lemma iterates:
  assumes "rb_rep vkey cmp T es" "i < length es"
  shows "assoc_rb_tree_next T ((map fst es @ [dummy T]) ! i) = Some ((map fst es @ [dummy T]) ! (i + 1))"
    "assoc_rb_tree_key T ((map fst es @ [dummy T]) ! i) = Some (Some (fst (snd (es ! i))))"
    "assoc_rb_tree_value T ((map fst es @ [dummy T]) ! i) = Some (Some (snd (snd (es ! i))))"
    "(map fst es @ [dummy T]) ! i \<noteq> dummy T"
proof -
  let ?pl = "map fst es @ [dummy T]"
  obtain a k v where e: "es ! i = (a, k, v)" by (cases "es ! i")
  have "es = take i es @ (a, k, v) # drop (Suc i) es" using assms(2) e by (metis id_take_nth_drop)
  then have r: "rb_rep vkey cmp T (take i es @ (a, k, v) # drop (Suc i) es)" using assms(1) by simp
  have p: "?pl ! i = a" using assms(2) e by (simp add: nth_append)
  have q: "?pl ! (i + 1) = (case drop (Suc i) es of [] \<Rightarrow> dummy T | e # _ \<Rightarrow> fst e)"
  proof (cases "Suc i < length es")
    case True
    then have "drop (Suc i) es = es ! Suc i # drop (Suc (Suc i)) es" by (simp add: Cons_nth_drop_Suc)
    then show ?thesis using True by (simp add: nth_append)
  next
    case False
    then show ?thesis using assms(2) by (simp add: nth_append)
  qed
  show "assoc_rb_tree_next T (?pl ! i) = Some (?pl ! (i + 1))" using next_rep[OF r] p q by simp
  show "assoc_rb_tree_key T (?pl ! i) = Some (Some (fst (snd (es ! i))))"
    "assoc_rb_tree_value T (?pl ! i) = Some (Some (snd (snd (es ! i))))" "?pl ! i \<noteq> dummy T"
    using access_rep[OF r] p e by simp_all
qed

text \<open>C25: from the front, stepping with next visits the nodes of the entries in the order of their
  keys, ends after the last one, and the key and the value of each are those of its entry.\<close>
theorem assoc_rb_tree_iterates_in_order:
  assumes "rb_rep vkey cmp T es" and "places = map fst es @ [assoc_rb_tree_end T]"
  shows "assoc_rb_tree_front T = Some (places ! 0) \<and>
    (\<forall>i < length es. assoc_rb_tree_next T (places ! i) = Some (places ! (i + 1)) \<and>
       assoc_rb_tree_key T (places ! i) = Some (Some (fst (snd (es ! i)))) \<and>
       assoc_rb_tree_value T (places ! i) = Some (Some (snd (snd (es ! i)))) \<and>
       places ! i \<noteq> assoc_rb_tree_end T)"
  using front_rep[OF assms(1)] iterates[OF assms(1)] assms(2)
  by (cases es) (simp_all add: assoc_rb_tree_end_def)

theorem assoc_rb_tree_iterates_in_order_witness:
  "assoc_rb_tree_front ex_tree = Some 2 \<and> assoc_rb_tree_next ex_tree 2 = Some 1 \<and>
   assoc_rb_tree_value ex_tree 2 = Some (Some 30)"
  using assoc_rb_tree_iterates_in_order[OF ex_tree_rep, of "[2, 1]"] by (simp add: assoc_rb_tree_end_def)

text \<open>C26: releasing a tree calls the release function once on each entry and leaves none of the
  nodes of the tree, nor its sentinel, allocated.\<close>
theorem assoc_rb_tree_free_releases_all:
  assumes "rb_rep vkey cmp T es" "has_free_func T"
  shows "\<exists>rel T'. assoc_rb_tree_free T = Some (rel, T') \<and>
    mset rel = mset (map (\<lambda>(a, k, v). (Some k, Some v)) es) \<and>
    (\<forall>b. heap T' b = (if b = dummy T \<or> b \<in> fst ` set es then None else heap T b))"
  using free_rep[OF assms] by metis

theorem assoc_rb_tree_free_releases_all_witness:
  "\<exists>T'. assoc_rb_tree_free ex_tree = Some ([(Some 7, Some 30)], T') \<and> heap T' 1 = None \<and> heap T' 2 = None"
  using assoc_rb_tree_free_releases_all[OF ex_tree_rep] by auto

section \<open>Reachable trees\<close>

text \<open>The iterators that a client can hold: the front and what next makes of an iterator.\<close>
inductive rb_iter :: "('k, 'v) assoc_rb_tree \<Rightarrow> addr \<Rightarrow> bool" for T :: "('k, 'v) assoc_rb_tree" where
  iter_front: "assoc_rb_tree_front T = Some it \<Longrightarrow> rb_iter T it"
| iter_next: "rb_iter T it \<Longrightarrow> assoc_rb_tree_next T it = Some it' \<Longrightarrow> rb_iter T it'"

lemma rb_iter_place:
  assumes "rb_iter T it" "rb_rep vkey cmp T es"
  shows "it = dummy T \<or> (\<exists>xs k v ys. es = xs @ (it, k, v) # ys)"
  using assms(1)
proof induction
  case (iter_front it)
  then show ?case using front_rep[OF assms(2)] by (cases es) (fastforce intro: exI[of _ "[]"])+
next
  case (iter_next it it')
  then have "it \<noteq> dummy T" by (auto simp: assoc_rb_tree_next_def)
  with iter_next obtain xs k v ys where e: "es = xs @ (it, k, v) # ys" by blast
  with assms(2) next_rep[of vkey cmp T xs it k v ys] iter_next(2)
  have "it' = (case ys of [] \<Rightarrow> dummy T | e # _ \<Rightarrow> fst e)" by simp
  then show ?case
  proof (cases ys)
    case (Cons y zs)
    moreover obtain b k' v' where "y = (b, k', v')" by (cases y)
    ultimately show ?thesis using e \<open>it' = _\<close> by (auto intro: exI[of _ "xs @ [(it, k, v)]"])
  qed simp
qed

text \<open>A tree in use: created, then changed by insertions at fresh addresses, by extractions and by
  releases through an iterator.\<close>
inductive rb_reach ::
  "('k \<Rightarrow> bool) \<Rightarrow> ('k \<Rightarrow> 'k \<Rightarrow> int option) \<Rightarrow> ('k, 'v) assoc_rb_tree \<Rightarrow> bool"
  for vkey :: "'k \<Rightarrow> bool" and f :: "'k \<Rightarrow> 'k \<Rightarrow> int option"
where
  reach_init: "assoc_rb_tree_init a ksz f ff = Some T \<Longrightarrow> rb_reach vkey f T"
| reach_insert: "rb_reach vkey f T \<Longrightarrow> vkey key \<Longrightarrow> heap T a = None \<Longrightarrow>
    assoc_rb_tree_insert a T key ksz val = Some T' \<Longrightarrow> rb_reach vkey f T'"
| reach_extract: "rb_reach vkey f T \<Longrightarrow> vkey key \<Longrightarrow> assoc_rb_tree_extract T key = Some (v, T') \<Longrightarrow>
    rb_reach vkey f T'"
| reach_free_it: "rb_reach vkey f T \<Longrightarrow> rb_iter T it \<Longrightarrow> assoc_rb_tree_free_it T it = Some (r, T') \<Longrightarrow>
    rb_reach vkey f T'"

lemma free_it_rep:
  assumes "rb_rep vkey cmp T (xs @ (a, k, v) # ys)" "comparator cmp" "assoc_rb_tree_free_it T a = Some (r, T')"
  shows "r = (Some k, Some v) \<and> rb_rep vkey cmp T' (xs @ ys)"
proof -
  obtain T1 where T1: "assoc_rb_tree_extract_node T a = Some T1"
    "\<exists>n. heap T1 a = Some n \<and> n_key n = Some k \<and> n_value n = Some v"
    "rb_rep vkey cmp (T1\<lparr>heap := (heap T1)(a := None), tree_size := tree_size T1 - 1\<rparr>) (xs @ ys)"
    using extract_node_rep[OF assms(1,2)] by metis
  then obtain n where n: "heap T1 a = Some n" "n_key n = Some k" "n_value n = Some v" by blast
  have "r = (Some k, Some v)" "T' = T1\<lparr>heap := (heap T1)(a := None), tree_size := tree_size T1 - 1\<rparr>"
    using assms(3) T1(1) n by (auto simp: assoc_rb_tree_free_it_def get_def free_node_rb_tree_def monad_simps)
  with T1(3) show ?thesis by simp
qed

text \<open>C22: every tree that insertions, extractions and releases can produce is a red-black
  tree whose entries are in order, whose size is their number, and whose keys are valid.\<close>
theorem rb_reach_invariant:
  assumes "comparator cmp" "\<And>x y. vkey x \<Longrightarrow> vkey y \<Longrightarrow> f x y = Some (cmp x y)" "rb_reach vkey f T"
  shows "\<exists>es. rb_rep vkey cmp T es"
  using assms(3)
proof induction
  case (reach_init a ksz ff T)
  then have "0 < ksz" "a \<noteq> 0" by (auto simp: assoc_rb_tree_init_def monad_simps)
  then obtain T1 :: "('a, 'b) assoc_rb_tree" where
    "assoc_rb_tree_init a ksz f ff = Some T1" "rb_rep vkey cmp T1 []"
    using init_rep[where ff = ff and f = f and vkey = vkey and cmp = cmp] assms(2) by blast
  with reach_init show ?case by auto
next
  case (reach_insert T key a ksz val T')
  then obtain es where es: "rb_rep vkey cmp T es" by blast
  have "key_sz T = ksz" "a \<noteq> 0" using reach_insert by (auto simp: assoc_rb_tree_insert_def monad_simps)
  from comparator.insert_rep[OF assms(1) es reach_insert(2) this(1) reach_insert(3) this(2), of val] reach_insert(4)
  show ?case by (metis option.inject)
next
  case (reach_extract T key v T')
  then obtain es where es: "rb_rep vkey cmp T es" by blast
  have "\<exists>e \<in> set es. cmp key (entry_key e) = 0"
    using comparator.extract_missing[OF assms(1) es reach_extract(2)] reach_extract(3) by fastforce
  from comparator.extract_rep[OF assms(1) es reach_extract(2) this] reach_extract(3)
  show ?case by (metis option.inject prod.inject)
next
  case (reach_free_it T it r T')
  then obtain es where es: "rb_rep vkey cmp T es" by blast
  have "it \<noteq> dummy T" using reach_free_it(3) by (auto simp: assoc_rb_tree_free_it_def)
  with rb_iter_place[OF reach_free_it(2) es] obtain xs k v ys where "es = xs @ (it, k, v) # ys" by blast
  with free_it_rep[OF _ assms(1) reach_free_it(3)] es show ?case by blast
qed

theorem rb_reach_invariant_witness:
  "\<exists>es. rb_rep (\<lambda>_. True) cmp_ran_func_id
     (the (assoc_rb_tree_init 1 2 (\<lambda>a b. Some (cmp_ran_func_id a b)) True) :: (uint16, nat) assoc_rb_tree) es"
proof (rule rb_reach_invariant[OF ran_func.comparator_axioms])
  show "rb_reach (\<lambda>_. True) (\<lambda>a b. Some (cmp_ran_func_id a b))
      (the (assoc_rb_tree_init 1 2 (\<lambda>a b. Some (cmp_ran_func_id a b)) True) :: (uint16, nat) assoc_rb_tree)"
    by (rule reach_init[of 1 2 _ True]) (simp add: assoc_rb_tree_init_def)
qed simp

end
