(* ===== verification/Find.thy ===== *)
theory Find
  imports Seq_Ring Seq_Arr Rb_Table
begin

text \<open>
  The linear searches of src/util/alg_ds/alg/find.c over the dynamic array, the ring and the
  red-black tree.  The predicate is called with the value that is searched for and with the element,
  or the key, at the iterator; it may abort.
\<close>

section \<open>The searches\<close>

definition find_if_list :: "'l \<Rightarrow> addr \<Rightarrow> addr \<Rightarrow> 'q \<Rightarrow> ('q \<Rightarrow> byte list \<Rightarrow> bool option) \<Rightarrow> addr option" where
  "find_if_list l start_it end_it value f = do { c_assert (0 \<noteq> (0 :: nat)); Some start_it }"

partial_function (option) find_if_arr ::
  "seq_arr \<Rightarrow> nat \<Rightarrow> nat \<Rightarrow> 'q \<Rightarrow> ('q \<Rightarrow> byte list \<Rightarrow> bool option) \<Rightarrow> nat option"
where
  "find_if_arr arr start_it end_it value f =
     (if start_it \<noteq> end_it then do {
        e \<leftarrow> mem_load (sa_data arr) start_it (sa_elt_size arr);
        b \<leftarrow> f value e;
        if b then Some start_it
        else find_if_arr arr (seq_arr_next arr start_it) end_it value f
      }
      else Some start_it)"

partial_function (option) find_if_ring ::
  "seq_ring \<Rightarrow> nat \<Rightarrow> nat \<Rightarrow> 'q \<Rightarrow> ('q \<Rightarrow> byte list \<Rightarrow> bool option) \<Rightarrow> nat option"
where
  "find_if_ring arr start_it end_it value f =
     (if start_it \<noteq> end_it then do {
        e \<leftarrow> mem_load (sr_array arr) start_it (sr_elt_size arr);
        b \<leftarrow> f value e;
        if b then Some start_it
        else find_if_ring arr (seq_ring_next arr start_it) end_it value f
      }
      else Some start_it)"

partial_function (option) find_if_rb_tree ::
  "('k, 'v) assoc_rb_tree \<Rightarrow> addr \<Rightarrow> addr \<Rightarrow> 'q \<Rightarrow> ('q \<Rightarrow> 'k \<Rightarrow> bool option) \<Rightarrow> addr option"
where
  "find_if_rb_tree tree start_it end_it value f =
     (if start_it \<noteq> end_it then do {
        key \<leftarrow> assoc_rb_tree_key tree start_it;
        k \<leftarrow> key;
        b \<leftarrow> f value k;
        if b then Some start_it
        else do {
          start_it \<leftarrow> assoc_rb_tree_next tree start_it;
          find_if_rb_tree tree start_it end_it value f
        }
      }
      else Some start_it)"

text \<open>The use that every table makes of it: from the front to the end.\<close>
definition find_all_rb_tree ::
  "('k, 'v) assoc_rb_tree \<Rightarrow> 'q \<Rightarrow> ('q \<Rightarrow> 'k \<Rightarrow> bool option) \<Rightarrow> addr option"
where
  "find_all_rb_tree tree value f = do {
     it \<leftarrow> assoc_rb_tree_front tree;
     find_if_rb_tree tree it (assoc_rb_tree_end tree) value f
   }"

section \<open>What they find\<close>

text \<open>The position of the first element, from \<open>i\<close> on, for which \<open>p\<close> holds.\<close>
definition first_from :: "('a \<Rightarrow> bool) \<Rightarrow> nat \<Rightarrow> 'a list \<Rightarrow> nat" where
  "first_from p i xs = i + length (takeWhile (\<lambda>x. \<not> p x) (drop i xs))"

lemma first_from_end: "first_from p (length xs) xs = length xs"
  by (simp add: first_from_def)

lemma first_from_step:
  "i < length xs \<Longrightarrow> first_from p i xs = (if p (xs ! i) then i else first_from p (Suc i) xs)"
  by (simp add: first_from_def Cons_nth_drop_Suc[symmetric])

lemma first_from_le: "i \<le> length xs \<Longrightarrow> first_from p i xs \<le> length xs"
  by (simp add: first_from_def) (metis diff_is_0_eq' le_diff_conv2 length_drop length_takeWhile_le add.commute)

lemma first_from_holds: "first_from p i xs < length xs \<Longrightarrow> p (xs ! first_from p i xs)"
proof (induction "length xs - i" arbitrary: i)
  case 0
  then show ?case by (simp add: first_from_def)
next
  case (Suc n)
  then have "i < length xs" by linarith
  then show ?case using Suc first_from_step[of i xs p] by auto
qed

lemma find_if_arr_elems:
  assumes ok: "seq_arr_ok arr" and k: "0 < sa_elt_size arr"
    and f: "\<And>x. x \<in> set (seq_arr_elems arr) \<Longrightarrow> f q x = Some (p x)" and i: "i \<le> sa_size arr"
  shows "find_if_arr arr (i * sa_elt_size arr) (seq_arr_end arr) q f =
    Some (first_from p i (seq_arr_elems arr) * sa_elt_size arr)"
  using i
proof (induction "sa_size arr - i" arbitrary: i)
  case 0
  then show ?case
    using first_from_end[of p "seq_arr_elems arr"]
    by (simp add: find_if_arr.simps seq_arr_end_def seq_arr_elems_def)
next
  case (Suc n)
  then have i: "i < sa_size arr" by linarith
  have ne: "i * sa_elt_size arr \<noteq> seq_arr_end arr" using i k by (simp add: seq_arr_end_def)
  have "sa_size arr \<le> sa_cap arr" "sa_cap arr * sa_elt_size arr \<le> length (sa_data arr)"
    using ok by (simp_all add: seq_arr_ok_def)
  moreover have "(i + 1) * sa_elt_size arr \<le> sa_cap arr * sa_elt_size arr"
    using i calculation(1) by (intro mult_le_mono1) linarith
  ultimately have "(i + 1) * sa_elt_size arr \<le> length (sa_data arr)" by linarith
  then have ld: "mem_load (sa_data arr) (i * sa_elt_size arr) (sa_elt_size arr) = Some (elem (sa_elt_size arr) (sa_data arr) i)"
    by (rule mem_load_elem)
  have e: "seq_arr_elems arr ! i = elem (sa_elt_size arr) (sa_data arr) i" "i < length (seq_arr_elems arr)"
    using i by (simp_all add: seq_arr_elems_def elems_nth)
  then have "f q (elem (sa_elt_size arr) (sa_data arr) i) = Some (p (elem (sa_elt_size arr) (sa_data arr) i))"
    using f nth_mem by metis
  moreover have "find_if_arr arr (Suc i * sa_elt_size arr) (seq_arr_end arr) q f =
      Some (first_from p (Suc i) (seq_arr_elems arr) * sa_elt_size arr)"
    using Suc i by (intro Suc.hyps(1)) linarith+
  ultimately show ?case
    using ne ld e first_from_step[OF e(2), of p]
    by (simp add: find_if_arr.simps[of arr "i * sa_elt_size arr"] seq_arr_next_def add.commute)
qed

lemma find_if_ring_elems:
  assumes ok: "seq_ring_ok r" and f: "\<And>x. x \<in> set (seq_ring_elems r) \<Longrightarrow> f q x = Some (p x)"
    and i: "i \<le> seq_ring_size r"
  shows "find_if_ring r (seq_ring_at r (word_of_nat i)) (seq_ring_end r) q f =
    Some (seq_ring_at r (word_of_nat (first_from p i (seq_ring_elems r))))"
  using i
proof (induction rule: inc_induct)
  case base
  then show ?case using seq_ring_at_end[OF ok, of "seq_ring_size r"] first_from_end[of p "seq_ring_elems r"]
    by (simp add: find_if_ring.simps)
next
  case (step i)
  have "seq_ring_at r (word_of_nat i) \<noteq> seq_ring_end r"
    using seq_ring_at_end[OF ok, of i] step.hyps by simp
  moreover have "f q (seq_ring_elems r ! i) = Some (p (seq_ring_elems r ! i))"
    using step.hyps by (intro f nth_mem) simp
  ultimately show ?case
    using step seq_ring_load_at[OF ok, of i] seq_ring_next_at[OF ok, of i]
      first_from_step[of i "seq_ring_elems r" p]
    by (simp add: find_if_ring.simps[of r "seq_ring_at r (word_of_nat i)"] del: of_nat_Suc)
qed

lemma find_if_rb_tree_rep:
  assumes r: "rb_rep vkey cmp T es" and f: "\<And>e. e \<in> set es \<Longrightarrow> f q (entry_key e) = Some (p e)"
    and i: "i \<le> length es"
  shows "find_if_rb_tree T ((map fst es @ [dummy T]) ! i) (assoc_rb_tree_end T) q f =
    Some ((map fst es @ [dummy T]) ! first_from p i es)"
  using i
proof (induction "length es - i" arbitrary: i)
  case 0
  then show ?case
    using first_from_end[of p es]
    by (simp add: find_if_rb_tree.simps assoc_rb_tree_end_def nth_append)
next
  case (Suc n)
  then have i: "i < length es" by linarith
  let ?pl = "map fst es @ [dummy T]"
  have it: "assoc_rb_tree_next T (?pl ! i) = Some (?pl ! (i + 1))"
      "assoc_rb_tree_key T (?pl ! i) = Some (Some (entry_key (es ! i)))" "?pl ! i \<noteq> dummy T"
    using iterates[OF r, of i] i by (simp_all add: entry_key_def)
  have "f q (entry_key (es ! i)) = Some (p (es ! i))" using f i by simp
  moreover have "find_if_rb_tree T (?pl ! Suc i) (assoc_rb_tree_end T) q f =
      Some (?pl ! first_from p (Suc i) es)"
    using Suc i by (intro Suc.hyps(1)) linarith+
  ultimately show ?case
    using it first_from_step[OF i, of p]
    by (simp add: find_if_rb_tree.simps[of T "?pl ! i"] assoc_rb_tree_end_def)
qed

lemma find_all_rep:
  assumes r: "rb_rep vkey cmp T es" and f: "\<And>e. e \<in> set es \<Longrightarrow> f q (entry_key e) = Some (p e)"
  shows "find_all_rb_tree T q f = Some (case find p es of None \<Rightarrow> dummy T | Some e \<Rightarrow> fst e)"
proof -
  let ?pl = "map fst es @ [dummy T]"
  have "assoc_rb_tree_front T = Some (?pl ! 0)" using front_rep[OF r] by (cases es) (simp_all split: prod.splits)
  then have "find_all_rb_tree T q f = Some (?pl ! first_from p 0 es)"
    using find_if_rb_tree_rep[OF r, of f q p 0, OF f] by (simp only: find_all_rb_tree_def bind.bind_lunit)
  also have "?pl ! first_from p 0 es = (case find p es of None \<Rightarrow> dummy T | Some e \<Rightarrow> fst e)"
    by (induction es) (auto simp: first_from_def)
  finally show ?thesis .
qed

end
