(* ===== verification/Bimap.thy ===== *)
theory Bimap
  imports Find
begin

text \<open>
  The bidirectional map of src/util/alg_ds/ds/assoc_container/bimap.c: two red-black trees, one from
  the left keys to copies of the right ones and one from the right keys to copies of the left ones.

  The insertion allocates a node in each tree, whose addresses are arguments, and a copy
  of each key, which is a value here.  The locale \<open>bi_comparators\<close> holds what the operations need of the
  two comparison functions; it is interpreted on those of every map of the program.
\<close>

section \<open>State and operations\<close>

record ('a, 'b) bi_map =
  left_tree :: "('a, 'b) assoc_rb_tree"
  right_tree :: "('b, 'a) assoc_rb_tree"

definition bi_map_init ::
  "addr \<Rightarrow> addr \<Rightarrow> nat \<Rightarrow> nat \<Rightarrow> ('a \<Rightarrow> 'a \<Rightarrow> int option) \<Rightarrow> ('b \<Rightarrow> 'b \<Rightarrow> int option) \<Rightarrow> bool \<Rightarrow> bool \<Rightarrow>
    ('a, 'b) bi_map option"
where
  "bi_map_init a1 a2 key_sz1 key_sz2 cmp1 cmp2 free1 free2 = do {
     c_assert (0 < key_sz1);
     c_assert (0 < key_sz2);
     l \<leftarrow> assoc_rb_tree_init a1 key_sz1 cmp1 free1;
     r \<leftarrow> assoc_rb_tree_init a2 key_sz2 cmp2 free2;
     Some \<lparr>left_tree = l, right_tree = r\<rparr>
   }"

text \<open>The pairs that the two release functions are called with.\<close>
definition bi_map_free ::
  "('a, 'b) bi_map \<Rightarrow> (('a option \<times> 'b option) list \<times> ('b option \<times> 'a option) list \<times> ('a, 'b) bi_map) option"
where
  "bi_map_free m = do {
     (ls, l) \<leftarrow> assoc_rb_tree_free (left_tree m);
     (rs, r) \<leftarrow> assoc_rb_tree_free (right_tree m);
     Some (ls, rs, \<lparr>left_tree = l, right_tree = r\<rparr>)
   }"

definition bi_map_insert ::
  "addr \<Rightarrow> addr \<Rightarrow> ('a, 'b) bi_map \<Rightarrow> 'a \<Rightarrow> nat \<Rightarrow> 'b \<Rightarrow> nat \<Rightarrow> ('a, 'b) bi_map option"
where
  "bi_map_insert a1 a2 m key1 key_sz1 key2 key_sz2 = do {
     c_assert (0 < key_sz1);
     c_assert (0 < key_sz2);
     let val1 = key2;
     c \<leftarrow> comp_fn (right_tree m) key2 val1;
     c_assert (c = 0);
     l \<leftarrow> assoc_rb_tree_insert a1 (left_tree m) key1 key_sz1 val1;
     let val2 = key1;
     c \<leftarrow> comp_fn l key1 val2;
     c_assert (c = 0);
     r \<leftarrow> assoc_rb_tree_insert a2 (right_tree m) key2 key_sz2 val2;
     Some \<lparr>left_tree = l, right_tree = r\<rparr>
   }"

text \<open>The result, and the left key that \<open>f\<close> is called with and that is released.\<close>
definition bi_map_extract_left ::
  "('a, 'b) bi_map \<Rightarrow> 'a \<Rightarrow> nat \<Rightarrow> ('b \<times> 'a \<times> ('a, 'b) bi_map) option"
where
  "bi_map_extract_left m key1 key1_sz = do {
     c_assert (key1_sz = key_sz (left_tree m));
     (key2, l) \<leftarrow> assoc_rb_tree_extract (left_tree m) key1;
     key2 \<leftarrow> key2;
     (key3, r) \<leftarrow> assoc_rb_tree_extract (right_tree m) key2;
     key3 \<leftarrow> key3;
     c \<leftarrow> comp_fn l key1 key3;
     c_assert (c = 0);
     let sz_1 = assoc_rb_tree_size l;
     let sz_2 = assoc_rb_tree_size r;
     c_assert (sz_1 = sz_2);
     Some (key2, key3, \<lparr>left_tree = l, right_tree = r\<rparr>)
   }"

definition bi_map_extract_right ::
  "('a, 'b) bi_map \<Rightarrow> 'b \<Rightarrow> nat \<Rightarrow> ('a \<times> 'b \<times> ('a, 'b) bi_map) option"
where
  "bi_map_extract_right m key2 key2_sz = do {
     c_assert (key2_sz = key_sz (right_tree m));
     (key1, r) \<leftarrow> assoc_rb_tree_extract (right_tree m) key2;
     key1 \<leftarrow> key1;
     (key3, l) \<leftarrow> assoc_rb_tree_extract (left_tree m) key1;
     key3 \<leftarrow> key3;
     c \<leftarrow> comp_fn r key2 key3;
     c_assert (c = 0);
     c_assert (has_free_func r);
     let sz_1 = assoc_rb_tree_size l;
     let sz_2 = assoc_rb_tree_size r;
     c_assert (sz_1 = sz_2);
     Some (key1, key3, \<lparr>left_tree = l, right_tree = r\<rparr>)
   }"

definition bi_map_size :: "('a, 'b) bi_map \<Rightarrow> nat option" where
  "bi_map_size m = do {
     let cap = assoc_rb_tree_size (left_tree m);
     c_assert (cap = assoc_rb_tree_size (right_tree m));
     Some cap
   }"

definition bi_map_front_left :: "('a, 'b) bi_map \<Rightarrow> addr option" where
  "bi_map_front_left m = assoc_rb_tree_front (left_tree m)"

definition bi_map_next_left :: "('a, 'b) bi_map \<Rightarrow> addr \<Rightarrow> addr option" where
  "bi_map_next_left m it = do { c_assert (it \<noteq> 0); assoc_rb_tree_next (left_tree m) it }"

definition bi_map_end_left :: "('a, 'b) bi_map \<Rightarrow> addr" where
  "bi_map_end_left m = assoc_rb_tree_end (left_tree m)"

definition bi_map_front_right :: "('a, 'b) bi_map \<Rightarrow> addr option" where
  "bi_map_front_right m = assoc_rb_tree_front (right_tree m)"

definition bi_map_next_right :: "('a, 'b) bi_map \<Rightarrow> addr \<Rightarrow> addr option" where
  "bi_map_next_right m it = do { c_assert (it \<noteq> 0); assoc_rb_tree_next (right_tree m) it }"

definition bi_map_end_right :: "('a, 'b) bi_map \<Rightarrow> addr" where
  "bi_map_end_right m = assoc_rb_tree_end (right_tree m)"

definition bi_map_value_left :: "('a, 'b) bi_map \<Rightarrow> addr \<Rightarrow> 'b option option" where
  "bi_map_value_left m it = assoc_rb_tree_value (left_tree m) it"

definition bi_map_value_right :: "('a, 'b) bi_map \<Rightarrow> addr \<Rightarrow> 'a option option" where
  "bi_map_value_right m it = assoc_rb_tree_value (right_tree m) it"

text \<open>The search of find.c on the left keys.\<close>
partial_function (option) find_if_bi_map_left ::
  "('a, 'b) bi_map \<Rightarrow> addr \<Rightarrow> addr \<Rightarrow> 'q \<Rightarrow> ('q \<Rightarrow> 'a \<Rightarrow> bool option) \<Rightarrow> addr option"
where
  "find_if_bi_map_left m start_it end_it value f =
     (if start_it \<noteq> end_it then do {
        key \<leftarrow> assoc_rb_tree_key (left_tree m) start_it;
        k \<leftarrow> key;
        b \<leftarrow> f value k;
        if b then Some start_it
        else do {
          start_it \<leftarrow> bi_map_next_left m start_it;
          find_if_bi_map_left m start_it end_it value f
        }
      }
      else Some start_it)"

text \<open>On the right the predicate gets the node itself, not its key.\<close>
partial_function (option) find_if_bi_map_right ::
  "('a, 'b) bi_map \<Rightarrow> addr \<Rightarrow> addr \<Rightarrow> 'q \<Rightarrow> ('q \<Rightarrow> ('b, 'a) assoc_node \<Rightarrow> bool option) \<Rightarrow> addr option"
where
  "find_if_bi_map_right m start_it end_it value f =
     (if start_it \<noteq> end_it then do {
        n \<leftarrow> heap (right_tree m) start_it;
        b \<leftarrow> f value n;
        if b = True then Some start_it
        else do {
          start_it \<leftarrow> bi_map_next_right m start_it;
          find_if_bi_map_right m start_it end_it value f
        }
      }
      else Some start_it)"

section \<open>Invariant\<close>

text \<open>No two entries have equal keys.\<close>
definition uniq :: "('k \<Rightarrow> 'k \<Rightarrow> int) \<Rightarrow> ('k, 'v) entry list \<Rightarrow> bool" where
  "uniq cmp es \<longleftrightarrow> sorted_wrt (\<lambda>x y. cmp (entry_key x) (entry_key y) \<noteq> 0) es"

text \<open>The map holds the pairs \<open>P\<close>: both trees hold exactly them, and no key occurs twice.\<close>
definition bm_rep ::
  "('a \<Rightarrow> bool) \<Rightarrow> ('a \<Rightarrow> 'a \<Rightarrow> int) \<Rightarrow> ('b \<Rightarrow> bool) \<Rightarrow> ('b \<Rightarrow> 'b \<Rightarrow> int) \<Rightarrow> ('a, 'b) bi_map \<Rightarrow>
    ('a \<times> 'b) multiset \<Rightarrow> bool"
where
  "bm_rep v1 c1 v2 c2 m P \<longleftrightarrow>
     (\<exists>es fs. rb_rep v1 c1 (left_tree m) es \<and> rb_rep v2 c2 (right_tree m) fs \<and>
        mset (map snd es) = P \<and> mset (map (prod.swap \<circ> snd) fs) = P \<and> uniq c1 es \<and> uniq c2 fs)"

text \<open>What the operations leave as it is: the sizes of the keys and the release functions.\<close>
definition bm_same :: "('a, 'b) bi_map \<Rightarrow> ('a, 'b) bi_map \<Rightarrow> bool" where
  "bm_same m m' \<longleftrightarrow> key_sz (left_tree m') = key_sz (left_tree m) \<and> key_sz (right_tree m') = key_sz (right_tree m) \<and>
     has_free_func (left_tree m') = has_free_func (left_tree m) \<and>
     has_free_func (right_tree m') = has_free_func (right_tree m)"

lemma uniq_append:
  "uniq c (xs @ e # ys) \<longleftrightarrow> uniq c (xs @ ys) \<and> (\<forall>x \<in> set xs. c (entry_key x) (entry_key e) \<noteq> 0) \<and>
     (\<forall>y \<in> set ys. c (entry_key e) (entry_key y) \<noteq> 0)"
  by (auto simp: uniq_def sorted_wrt_append)

context comparator
begin

lemma cmp_sym_0: "cmp a b = 0 \<longleftrightarrow> cmp b a = 0"
  using cmp_swap[of a b] by auto

lemma uniq_remove: "uniq cmp (xs @ e # ys) \<longleftrightarrow>
    uniq cmp (xs @ ys) \<and> (\<forall>x \<in> set (xs @ ys). cmp (entry_key e) (entry_key x) \<noteq> 0)"
  using uniq_append[of cmp xs e ys] cmp_sym_0[of "entry_key e"] by auto

lemma ins_entry_parts: "\<exists>xs ys. ins_entry cmp e es = xs @ e # ys \<and> es = xs @ ys"
  using ins_entry_def takeWhile_dropWhile_id by metis

lemma uniq_ins:
  assumes "uniq cmp es" "\<forall>x \<in> set es. cmp (entry_key e) (entry_key x) \<noteq> 0"
  shows "uniq cmp (ins_entry cmp e es)"
  using ins_entry_parts[of e es] assms uniq_remove by metis

lemma mset_ins: "mset (map f (ins_entry cmp e es)) = add_mset (f e) (mset (map f es))"
proof -
  obtain xs ys where "ins_entry cmp e es = xs @ e # ys" "es = xs @ ys" using ins_entry_parts by metis
  then show ?thesis by simp
qed

lemma uniq_same:
  assumes "uniq cmp (xs @ e # ys)" "x \<in> set (xs @ e # ys)" "cmp (entry_key e) (entry_key x) = 0"
  shows "x = e"
  using assms uniq_remove[of xs e ys] by auto

end

locale bi_comparators = lc: comparator c1 + rc: comparator c2
  for c1 :: "'a \<Rightarrow> 'a \<Rightarrow> int" and c2 :: "'b \<Rightarrow> 'b \<Rightarrow> int"
begin

lemma insert_bm_rep:
  assumes m: "bm_rep v1 c1 v2 c2 m P" and v: "v1 key1" "v2 key2"
    and new: "\<forall>(a, b) \<in># P. c1 key1 a \<noteq> 0 \<and> c2 key2 b \<noteq> 0"
    and sz: "key_sz (left_tree m) = s1" "key_sz (right_tree m) = s2" "0 < s1" "0 < s2"
    and fresh: "heap (left_tree m) a1 = None" "a1 \<noteq> 0" "heap (right_tree m) a2 = None" "a2 \<noteq> 0"
  shows "\<exists>m'. bi_map_insert a1 a2 m key1 s1 key2 s2 = Some m' \<and>
    bm_rep v1 c1 v2 c2 m' (add_mset (key1, key2) P) \<and> bm_same m m'"
proof -
  obtain es fs where r: "rb_rep v1 c1 (left_tree m) es" "rb_rep v2 c2 (right_tree m) fs"
    "mset (map snd es) = P" "mset (map (prod.swap \<circ> snd) fs) = P" "uniq c1 es" "uniq c2 fs"
    using m by (auto simp: bm_rep_def)
  have ag: "agrees (left_tree m) v1 c1" "agrees (right_tree m) v2 c2" using r by (auto simp: rb_rep_def)
  obtain l where l: "assoc_rb_tree_insert a1 (left_tree m) key1 s1 key2 = Some l"
    "rb_rep v1 c1 l (ins_entry c1 (a1, key1, key2) es)" "comp_fn l = comp_fn (left_tree m)" "key_sz l = s1"
    "has_free_func l = has_free_func (left_tree m)"
    using lc.insert_rep[OF r(1) v(1) sz(1) fresh(1,2)] by metis
  obtain q where q: "assoc_rb_tree_insert a2 (right_tree m) key2 s2 key1 = Some q"
    "rb_rep v2 c2 q (ins_entry c2 (a2, key2, key1) fs)" "key_sz q = s2"
    "has_free_func q = has_free_func (right_tree m)"
    using rc.insert_rep[OF r(2) v(2) sz(2) fresh(3,4)] by metis
  have "\<forall>x \<in> set es. c1 key1 (entry_key x) \<noteq> 0"
  proof
    fix x assume "x \<in> set es"
    then have "snd x \<in># P" using r(3) by (auto simp flip: r(3))
    then show "c1 key1 (entry_key x) \<noteq> 0" using new by (auto simp: entry_key_def split_beta)
  qed
  then have u1: "uniq c1 (ins_entry c1 (a1, key1, key2) es)" using r(5) by (intro lc.uniq_ins) simp_all
  have "\<forall>x \<in> set fs. c2 key2 (entry_key x) \<noteq> 0"
  proof
    fix x assume "x \<in> set fs"
    then have "prod.swap (snd x) \<in># P" by (auto simp flip: r(4))
    then show "c2 key2 (entry_key x) \<noteq> 0" using new by (auto simp: entry_key_def split_beta)
  qed
  then have u2: "uniq c2 (ins_entry c2 (a2, key2, key1) fs)" using r(6) by (intro rc.uniq_ins) simp_all
  have "bi_map_insert a1 a2 m key1 s1 key2 s2 = Some \<lparr>left_tree = l, right_tree = q\<rparr>"
    using sz(3,4) l q ag v by (simp add: bi_map_insert_def agrees_def)
  moreover have "bm_rep v1 c1 v2 c2 \<lparr>left_tree = l, right_tree = q\<rparr> (add_mset (key1, key2) P)"
  proof -
    have "mset (map snd (ins_entry c1 (a1, key1, key2) es)) = add_mset (key1, key2) P"
      "mset (map (prod.swap \<circ> snd) (ins_entry c2 (a2, key2, key1) fs)) = add_mset (key1, key2) P"
      using r(3,4) by (simp_all only: lc.mset_ins rc.mset_ins) simp_all
    then show ?thesis unfolding bm_rep_def bi_map.simps using l(2) q(2,4) u1 u2 by metis
  qed
  ultimately show ?thesis using l(4,5) q(3,4) sz by (auto simp: bm_same_def)
qed

lemma extract_left_bm_rep:
  assumes m: "bm_rep v1 c1 v2 c2 m P" and v: "v1 key1" and sz: "key_sz (left_tree m) = s1"
    and ab: "(a, b) \<in># P" "c1 key1 a = 0"
  shows "\<exists>m'. bi_map_extract_left m key1 s1 = Some (b, a, m') \<and> bm_rep v1 c1 v2 c2 m' (P - {#(a, b)#}) \<and>
    bm_same m m'"
proof -
  obtain es fs where r: "rb_rep v1 c1 (left_tree m) es" "rb_rep v2 c2 (right_tree m) fs"
    "mset (map snd es) = P" "mset (map (prod.swap \<circ> snd) fs) = P" "uniq c1 es" "uniq c2 fs"
    using m by (auto simp: bm_rep_def)
  have ag: "agrees (left_tree m) v1 c1" using r by (auto simp: rb_rep_def)
  from ab r(3) obtain x where x: "x \<in> set es" "snd x = (a, b)" by auto
  from ab r(4) obtain y where y: "y \<in> set fs" "snd y = (b, a)" by auto
  have "\<exists>e \<in> set es. c1 key1 (entry_key e) = 0" using x ab(2) by (intro bexI[of _ x]) (simp_all add: entry_key_def)
  from lc.extract_rep[OF r(1) v this] obtain l xs n k w ys where
    l: "es = xs @ (n, k, w) # ys" "c1 key1 k = 0" "assoc_rb_tree_extract (left_tree m) key1 = Some (Some w, l)"
    "rb_rep v1 c1 l (xs @ ys)" "comp_fn l = comp_fn (left_tree m)" "key_sz l = key_sz (left_tree m)"
    "has_free_func l = has_free_func (left_tree m)" by metis
  have "c1 k a = 0" using l(2) ab(2) lc.cmp_cong[of key1 k a] by simp
  then have "x = (n, k, w)" using lc.uniq_same[of xs "(n, k, w)" ys x] x r(5) l(1) by (simp add: entry_key_def)
  then have kw: "k = a" "w = b" using x(2) by simp_all
  have vb: "v2 b" and va: "v1 a"
    using r(1,2) x y unfolding rb_rep_def by (auto simp: entry_key_def)
  have "\<exists>e \<in> set fs. c2 b (entry_key e) = 0" using y by (intro bexI[of _ y]) (simp_all add: entry_key_def)
  from rc.extract_rep[OF r(2) vb this] obtain q xs' n' k' w' ys' where
    q: "fs = xs' @ (n', k', w') # ys'" "c2 b k' = 0" "assoc_rb_tree_extract (right_tree m) b = Some (Some w', q)"
    "rb_rep v2 c2 q (xs' @ ys')" "key_sz q = key_sz (right_tree m)" "has_free_func q = has_free_func (right_tree m)" by metis
  have "c2 k' b = 0" using q(2) rc.cmp_sym_0 by blast
  then have "y = (n', k', w')" using rc.uniq_same[of xs' "(n', k', w')" ys' y] y r(6) q(1) by (simp add: entry_key_def)
  then have kw': "k' = b" "w' = a" using y(2) by simp_all
  have P: "P = add_mset (a, b) (mset (map snd (xs @ ys)))" "P = add_mset (a, b) (mset (map (prod.swap \<circ> snd) (xs' @ ys')))"
    using r(3,4) l(1) q(1) kw kw' by auto
  then have P': "mset (map snd (xs @ ys)) = P - {#(a, b)#}" "mset (map (prod.swap \<circ> snd) (xs' @ ys')) = P - {#(a, b)#}"
    by simp_all
  have "length (xs @ ys) = length (xs' @ ys')"
    using arg_cong[OF trans[OF P'(1) P'(2)[symmetric]], of size] by simp
  then have "assoc_rb_tree_size l = assoc_rb_tree_size q"
    using l(4) q(4) by (simp add: rb_rep_def assoc_rb_tree_size_def)
  then have "bi_map_extract_left m key1 s1 = Some (b, a, \<lparr>left_tree = l, right_tree = q\<rparr>)"
    using l(3,5) q(3) kw kw' ag v va ab(2) sz by (simp add: bi_map_extract_left_def agrees_def)
  moreover have "bm_rep v1 c1 v2 c2 \<lparr>left_tree = l, right_tree = q\<rparr> (P - {#(a, b)#})"
  proof -
    have "uniq c1 (xs @ ys)" "uniq c2 (xs' @ ys')"
      using r(5,6) l(1) q(1) lc.uniq_remove[of xs _ ys] rc.uniq_remove[of xs' _ ys'] by auto
    then show ?thesis unfolding bm_rep_def using P' l(4) q(4)
      by (intro conjI exI[of _ "xs @ ys"] exI[of _ "xs' @ ys'"]) (simp_all del: map_append mset_map map_map)
  qed
  ultimately show ?thesis using l(6,7) q(5,6) sz by (auto simp: bm_same_def)
qed

lemma extract_left_absent:
  assumes m: "bm_rep v1 c1 v2 c2 m P" and v: "v1 key1" and new: "\<forall>(a, b) \<in># P. c1 key1 a \<noteq> 0"
  shows "bi_map_extract_left m key1 s1 = None"
proof -
  obtain es where r: "rb_rep v1 c1 (left_tree m) es" "mset (map snd es) = P" using m by (auto simp: bm_rep_def)
  have "\<forall>e \<in> set es. c1 key1 (entry_key e) \<noteq> 0"
  proof
    fix x assume "x \<in> set es"
    then have "snd x \<in># P" by (auto simp flip: r(2))
    then show "c1 key1 (entry_key x) \<noteq> 0" using new by (auto simp: entry_key_def split_beta)
  qed
  from lc.extract_missing[OF r(1) v this] show ?thesis
    by (cases "s1 = key_sz (left_tree m)") (simp_all add: bi_map_extract_left_def)
qed

end

section \<open>Left and right exchanged\<close>

definition bm_flip :: "('a, 'b) bi_map \<Rightarrow> ('b, 'a) bi_map" where
  "bm_flip m = \<lparr>left_tree = right_tree m, right_tree = left_tree m\<rparr>"

lemma bm_flip_flip [simp]: "bm_flip (bm_flip m) = m"
  by (simp add: bm_flip_def)

lemma bm_flip_sel [simp]: "left_tree (bm_flip m) = right_tree m" "right_tree (bm_flip m) = left_tree m"
  by (simp_all add: bm_flip_def)

lemma bi_comparators_flip: "bi_comparators c1 c2 \<Longrightarrow> bi_comparators c2 c1"
  by (simp add: bi_comparators_def)

lemma bm_same_flip: "bm_same (bm_flip m) (bm_flip m') = bm_same m m'"
  by (auto simp: bm_same_def)

lemma bm_rep_flip: "bm_rep v1 c1 v2 c2 m P \<Longrightarrow> bm_rep v2 c2 v1 c1 (bm_flip m) (image_mset prod.swap P)"
proof -
  assume "bm_rep v1 c1 v2 c2 m P"
  then obtain es fs where r: "rb_rep v1 c1 (left_tree m) es" "rb_rep v2 c2 (right_tree m) fs"
    "mset (map snd es) = P" "mset (map (prod.swap \<circ> snd) fs) = P" "uniq c1 es" "uniq c2 fs"
    by (auto simp: bm_rep_def)
  have "image_mset prod.swap P = mset (map (prod.swap \<circ> snd) es)" by (simp flip: r(3) add: multiset.map_comp)
  moreover have "image_mset prod.swap P = mset (map snd fs)"
    by (simp flip: r(4) add: multiset.map_comp comp_def)
  ultimately show ?thesis using r(1,2,5,6) unfolding bm_rep_def bm_flip_sel by metis
qed

lemma extract_right_flip:
  assumes "bi_map_extract_left (bm_flip m) k s = Some (a, b, m')" "has_free_func (right_tree m)" "bm_same (bm_flip m) m'"
  shows "bi_map_extract_right m k s = Some (a, b, bm_flip m')"
  using assms
  by (auto simp: bi_map_extract_left_def bi_map_extract_right_def bm_same_def monad_simps split: prod.splits)

context bi_comparators
begin

lemma extract_right_bm_rep:
  assumes m: "bm_rep v1 c1 v2 c2 m P" and v: "v2 key2" and sz: "key_sz (right_tree m) = s2"
    and ab: "(a, b) \<in># P" "c2 key2 b = 0" and ff: "has_free_func (right_tree m)"
  shows "\<exists>m'. bi_map_extract_right m key2 s2 = Some (a, b, m') \<and> bm_rep v1 c1 v2 c2 m' (P - {#(a, b)#}) \<and>
    bm_same m m'"
proof -
  have "(b, a) \<in># image_mset prod.swap P" using ab(1) by force
  from bi_comparators.extract_left_bm_rep[OF bi_comparators_flip[OF bi_comparators_axioms] bm_rep_flip[OF m] v _ this ab(2), of s2]
  obtain m' where m': "bi_map_extract_left (bm_flip m) key2 s2 = Some (a, b, m')"
    "bm_rep v2 c2 v1 c1 m' (image_mset prod.swap P - {#(b, a)#})" "bm_same (bm_flip m) m'" using sz by auto
  have "image_mset prod.swap (image_mset prod.swap P - {#(b, a)#}) = P - {#(a, b)#}"
    using ab(1) by (simp add: image_mset_Diff multiset.map_comp comp_def)
  with bm_rep_flip[OF m'(2)] have "bm_rep v1 c1 v2 c2 (bm_flip m') (P - {#(a, b)#})" by simp
  moreover have "bm_same m (bm_flip m')" using m'(3) bm_same_flip[of m "bm_flip m'"] by simp
  ultimately show ?thesis using extract_right_flip[OF m'(1) ff m'(3)] by blast
qed

end

lemma size_bm_rep:
  assumes "bm_rep v1 c1 v2 c2 m P" shows "bi_map_size m = Some (size P)"
proof -
  obtain es fs where r: "rb_rep v1 c1 (left_tree m) es" "rb_rep v2 c2 (right_tree m) fs"
    "mset (map snd es) = P" "mset (map (prod.swap \<circ> snd) fs) = P"
    using assms by (auto simp: bm_rep_def)
  then have "length es = size P" "length fs = size P" by (metis size_mset length_map)+
  then show ?thesis using r(1,2) by (simp add: bi_map_size_def assoc_rb_tree_size_def rb_rep_def)
qed

lemma init_bm_rep:
  fixes f1 :: "'a \<Rightarrow> 'a \<Rightarrow> int option" and f2 :: "'b \<Rightarrow> 'b \<Rightarrow> int option"
  assumes "0 < s1" "0 < s2" "a1 \<noteq> 0" "a2 \<noteq> 0"
    "\<And>x y. v1 x \<Longrightarrow> v1 y \<Longrightarrow> f1 x y = Some (c1 x y)" "\<And>x y. v2 x \<Longrightarrow> v2 y \<Longrightarrow> f2 x y = Some (c2 x y)"
  obtains m where "bi_map_init a1 a2 s1 s2 f1 f2 ff1 ff2 = Some m" "bm_rep v1 c1 v2 c2 m {#}"
    "key_sz (left_tree m) = s1" "key_sz (right_tree m) = s2"
    "has_free_func (left_tree m) = ff1" "has_free_func (right_tree m) = ff2"
proof -
  obtain l :: "('a, 'b) assoc_rb_tree" where l: "assoc_rb_tree_init a1 s1 f1 ff1 = Some l" "rb_rep v1 c1 l []" "key_sz l = s1" "has_free_func l = ff1"
    using init_rep[where f = f1 and vkey = v1 and cmp = c1 and ff = ff1] assms(1,3,5) by metis
  obtain r :: "('b, 'a) assoc_rb_tree" where r: "assoc_rb_tree_init a2 s2 f2 ff2 = Some r" "rb_rep v2 c2 r []" "key_sz r = s2" "has_free_func r = ff2"
    using init_rep[where f = f2 and vkey = v2 and cmp = c2 and ff = ff2] assms(2,4,6) by metis
  have "uniq c1 []" "uniq c2 []" by (simp_all add: uniq_def)
  then have "bm_rep v1 c1 v2 c2 \<lparr>left_tree = l, right_tree = r\<rparr> {#}"
    unfolding bm_rep_def using l r by (intro exI[of _ "[]"]) simp
  then show thesis using that l r assms(1,2) by (simp add: bi_map_init_def)
qed

text \<open>The searches on either side find the pair whose key satisfies the predicate.\<close>
lemma find_left_bm_rep:
  assumes m: "bm_rep v1 c1 v2 c2 m P" and f: "\<forall>(a, b) \<in># P. f q a = Some (p a)"
  shows "\<exists>it. find_all_rb_tree (left_tree m) q f = Some it \<and>
    ((it = assoc_rb_tree_end (left_tree m) \<and> (\<forall>(a, b) \<in># P. \<not> p a)) \<or>
     (it \<noteq> assoc_rb_tree_end (left_tree m) \<and> (\<exists>a b. (a, b) \<in># P \<and> p a \<and>
        assoc_rb_tree_key (left_tree m) it = Some (Some a) \<and> assoc_rb_tree_value (left_tree m) it = Some (Some b))))"
proof -
  obtain es where r: "rb_rep v1 c1 (left_tree m) es" "mset (map snd es) = P" using m by (auto simp: bm_rep_def)
  have inP: "snd e \<in># P" if "e \<in> set es" for e using that by (auto simp flip: r(2))
  have fe: "f q (entry_key e) = Some (p (entry_key e))" if "e \<in> set es" for e
    using inP[OF that] f by (auto simp: entry_key_def split_beta)
  note fa = find_all_rep[OF r(1), of f q "\<lambda>e. p (entry_key e)", OF fe]
  show ?thesis
  proof (cases "find (\<lambda>e. p (entry_key e)) es")
    case None
    have "\<not> p a" if "(a, b) \<in># P" for a b
    proof -
      have "(a, b) \<in> snd ` set es" using that by (simp flip: r(2))
      then obtain e where "e \<in> set es" "snd e = (a, b)" by force
      then have "\<not> p (entry_key e)" "entry_key e = a"
        using None unfolding find_None_iff by (blast, simp add: entry_key_def)
      then show ?thesis by simp
    qed
    then show ?thesis using fa None by (auto simp: assoc_rb_tree_end_def)
  next
    case (Some e)
    obtain n a b where e: "e = (n, a, b)" by (cases e)
    have "e \<in> set es" "p (entry_key e)" using Some unfolding find_Some_iff by auto
    then have m: "e \<in> set es" "p a" using e by simp_all
    from m(1) obtain xs ys where "es = xs @ (n, a, b) # ys" using e by (metis split_list)
    with access_rep[of v1 c1 "left_tree m" xs n a b ys] r(1) inP[OF m(1)] m(2) e fa Some show ?thesis
      by (auto simp: assoc_rb_tree_end_def)
  qed
qed

lemma find_right_bm_rep:
  assumes m: "bm_rep v1 c1 v2 c2 m P" and f: "\<forall>(a, b) \<in># P. f q b = Some (p b)"
  shows "\<exists>it. find_all_rb_tree (right_tree m) q f = Some it \<and>
    ((it = assoc_rb_tree_end (right_tree m) \<and> (\<forall>(a, b) \<in># P. \<not> p b)) \<or>
     (it \<noteq> assoc_rb_tree_end (right_tree m) \<and> (\<exists>a b. (a, b) \<in># P \<and> p b \<and>
        assoc_rb_tree_key (right_tree m) it = Some (Some b) \<and> assoc_rb_tree_value (right_tree m) it = Some (Some a))))"
proof -
  have "\<forall>(b, a) \<in># image_mset prod.swap P. f q b = Some (p b)" using f by auto
  from find_left_bm_rep[OF bm_rep_flip[OF m], of f q p, OF this] show ?thesis by fastforce
qed

section \<open>Small maps\<close>

text \<open>An address is free in a table when neither of the two trees uses it.\<close>
definition fresh_for :: "('a, 'b) bi_map \<Rightarrow> addr \<Rightarrow> addr \<Rightarrow> bool" where
  "fresh_for m a1 a2 \<longleftrightarrow> heap (left_tree m) a1 = None \<and> a1 \<noteq> 0 \<and> heap (right_tree m) a2 = None \<and> a2 \<noteq> 0"

text \<open>A map with one pair.\<close>
definition one_node :: "('k \<Rightarrow> 'k \<Rightarrow> int option) \<Rightarrow> nat \<Rightarrow> 'k \<Rightarrow> 'v \<Rightarrow> ('k, 'v) assoc_rb_tree" where
  "one_node f ks k v = \<lparr>heap = [1 \<mapsto> (init_node None None)\<lparr>n_color := ASSOC_BLACK\<rparr>,
      2 \<mapsto> \<lparr>n_key = Some k, n_value = Some v, n_parent = 1, n_left = 1, n_right = 1, n_color = ASSOC_BLACK\<rparr>],
    dummy = 1, root = 2, comp_fn = f, tree_size = 1, key_sz = ks, has_free_func = True\<rparr>"

lemma one_node_rep:
  assumes "\<And>a b. vkey a \<Longrightarrow> vkey b \<Longrightarrow> f a b = Some (cmp a b)" "vkey k"
  shows "rb_rep vkey cmp (one_node f ks k v) [(2, k, v)]"
proof -
  let ?t = "Nd 2 ASSOC_BLACK k v Lf Lf"
  have "zrep (one_node f ks k v) [] ?t"
    by (simp add: zrep_def one_node_def init_node_def cell_def)
  moreover have "is_rbt ?t" by (simp add: is_rbt_def)
  moreover have "agrees (one_node f ks k v) vkey cmp" using assms(1) by (simp add: agrees_def one_node_def)
  ultimately show ?thesis using assms(2)
    by (auto simp: rb_rep_def ordered_def one_node_def intro!: exI[of _ ?t])
qed

definition one_pair ::
  "('a \<Rightarrow> 'a \<Rightarrow> int option) \<Rightarrow> ('b \<Rightarrow> 'b \<Rightarrow> int option) \<Rightarrow> nat \<Rightarrow> nat \<Rightarrow> 'a \<Rightarrow> 'b \<Rightarrow> ('a, 'b) bi_map"
where
  "one_pair f g s1 s2 a b = \<lparr>left_tree = one_node f s1 a b, right_tree = one_node g s2 b a\<rparr>"

lemma one_pair_rep:
  assumes "\<And>a b. v1 a \<Longrightarrow> v1 b \<Longrightarrow> f a b = Some (c1 a b)" "v1 a"
    "\<And>a b. v2 a \<Longrightarrow> v2 b \<Longrightarrow> g a b = Some (c2 a b)" "v2 b"
  shows "bm_rep v1 c1 v2 c2 (one_pair f g s1 s2 a b) {#(a, b)#}"
proof -
  have "rb_rep v1 c1 (one_node f s1 a b) [(2, a, b)]" using assms(1,2) by (rule one_node_rep)
  moreover have "rb_rep v2 c2 (one_node g s2 b a) [(2, b, a)]" using assms(3,4) by (rule one_node_rep)
  ultimately show ?thesis unfolding bm_rep_def one_pair_def
    by (intro exI[of _ "[(2, a, b)]"] exI[of _ "[(2, b, a)]"]) (simp add: uniq_def)
qed

lemma one_pair_sel:
  "key_sz (left_tree (one_pair f g s1 s2 a b)) = s1" "key_sz (right_tree (one_pair f g s1 s2 a b)) = s2"
  "has_free_func (left_tree (one_pair f g s1 s2 a b))" "has_free_func (right_tree (one_pair f g s1 s2 a b))"
  "fresh_for (one_pair f g s1 s2 a b) 4 4"
  by (simp_all add: one_pair_def one_node_def fresh_for_def)

definition two_nodes ::
  "('k \<Rightarrow> 'k \<Rightarrow> int option) \<Rightarrow> nat \<Rightarrow> 'k \<Rightarrow> 'v \<Rightarrow> 'k \<Rightarrow> 'v \<Rightarrow> ('k, 'v) assoc_rb_tree"
where
  "two_nodes f ks k v k' v' = \<lparr>heap = [1 \<mapsto> (init_node None None)\<lparr>n_color := ASSOC_BLACK\<rparr>,
      2 \<mapsto> \<lparr>n_key = Some k, n_value = Some v, n_parent = 1, n_left = 1, n_right = 3, n_color = ASSOC_BLACK\<rparr>,
      3 \<mapsto> \<lparr>n_key = Some k', n_value = Some v', n_parent = 2, n_left = 1, n_right = 1, n_color = ASSOC_RED\<rparr>],
    dummy = 1, root = 2, comp_fn = f, tree_size = 2, key_sz = ks, has_free_func = True\<rparr>"

lemma two_nodes_rep:
  assumes "\<And>a b. vkey a \<Longrightarrow> vkey b \<Longrightarrow> f a b = Some (cmp a b)" "vkey k" "vkey k'" "cmp k' k \<noteq> 1"
  shows "rb_rep vkey cmp (two_nodes f ks k v k' v') [(2, k, v), (3, k', v')]"
proof -
  let ?t = "Nd 2 ASSOC_BLACK k v Lf (Nd 3 ASSOC_RED k' v' Lf Lf)"
  have "zrep (two_nodes f ks k v k' v') [] ?t"
    by (simp add: zrep_def two_nodes_def init_node_def cell_def)
  moreover have "is_rbt ?t" by (simp add: is_rbt_def)
  moreover have "agrees (two_nodes f ks k v k' v') vkey cmp" using assms(1) by (simp add: agrees_def two_nodes_def)
  ultimately show ?thesis using assms(2-4)
    by (auto simp: rb_rep_def ordered_def two_nodes_def intro!: exI[of _ ?t])
qed

section \<open>Properties\<close>

text \<open>C27: inserting a pair of new keys adds it to both trees.\<close>
theorem bi_map_insert_adds:
  assumes "bi_comparators c1 c2" "bm_rep v1 c1 v2 c2 m P" "v1 key1" "v2 key2"
    and "\<forall>(a, b) \<in># P. c1 key1 a \<noteq> 0 \<and> c2 key2 b \<noteq> 0"
    and "key_sz (left_tree m) = s1" "key_sz (right_tree m) = s2" "0 < s1" "0 < s2" "fresh_for m a1 a2"
  shows "\<exists>m'. bi_map_insert a1 a2 m key1 s1 key2 s2 = Some m' \<and>
    bm_rep v1 c1 v2 c2 m' (add_mset (key1, key2) P) \<and> bi_map_size m' = Some (size P + 1)"
  using bi_comparators.insert_bm_rep[OF assms(1-9), of a1 a2] assms(10) size_bm_rep
  by (fastforce simp: fresh_for_def)

definition ex_pairs :: "(uint16, uint16) bi_map" where
  "ex_pairs = one_pair (\<lambda>a b. Some (cmp_ran_func_id a b)) (\<lambda>a b. Some (cmp_ran_func_id a b)) 2 2 5 6"

lemma ex_pairs_rep: "bm_rep (\<lambda>_. True) cmp_ran_func_id (\<lambda>_. True) cmp_ran_func_id ex_pairs {#(5, 6)#}"
  unfolding ex_pairs_def by (rule one_pair_rep) simp_all

lemma ex_pairs_comparators: "bi_comparators cmp_ran_func_id cmp_ran_func_id"
  by (intro bi_comparators.intro ran_func.comparator_axioms)

theorem bi_map_insert_adds_witness:
  "\<exists>m'. bi_map_insert 4 4 ex_pairs 7 2 8 2 = Some m' \<and> bi_map_size m' = Some 2 \<and>
     bm_rep (\<lambda>_. True) cmp_ran_func_id (\<lambda>_. True) cmp_ran_func_id m' {#(7, 8), (5, 6)#}"
proof -
  have "cmp_ran_func_id 7 5 \<noteq> 0" "cmp_ran_func_id 8 6 \<noteq> 0" by (simp_all add: cmp_ran_func_id_def)
  moreover have "key_sz (left_tree ex_pairs) = 2" "key_sz (right_tree ex_pairs) = 2" "fresh_for ex_pairs 4 4"
    by (simp_all add: ex_pairs_def one_pair_sel)
  moreover have "size {#(5, 6 :: uint16) :: uint16 \<times> uint16#} + 1 = 2" by simp
  ultimately show ?thesis
    using bi_map_insert_adds[OF ex_pairs_comparators ex_pairs_rep TrueI TrueI, of 7 8 2 2 4 4] by fastforce
qed

text \<open>C28: extracting by the left key and extracting by the right key return the partner of the
  key and release the stored copy of the key; the pair is gone from both trees and the sizes of the
  trees agree, so that no assertion fails.\<close>
theorem bi_map_extract_inverse:
  assumes "bi_comparators c1 c2" "bm_rep v1 c1 v2 c2 m P" "(a, b) \<in># P"
    and "key_sz (left_tree m) = s1" "key_sz (right_tree m) = s2" "has_free_func (right_tree m)"
    and "v1 key1" "c1 key1 a = 0" "v2 key2" "c2 key2 b = 0"
  shows "(\<exists>m'. bi_map_extract_left m key1 s1 = Some (b, a, m') \<and> bm_rep v1 c1 v2 c2 m' (P - {#(a, b)#})) \<and>
    (\<exists>m'. bi_map_extract_right m key2 s2 = Some (a, b, m') \<and> bm_rep v1 c1 v2 c2 m' (P - {#(a, b)#}))"
  using bi_comparators.extract_left_bm_rep[OF assms(1,2,7,4,3,8)]
    bi_comparators.extract_right_bm_rep[OF assms(1,2,9,5,3,10,6)] by blast

theorem bi_map_extract_inverse_witness:
  "(\<exists>m'. bi_map_extract_left ex_pairs 5 2 = Some (6, 5, m') \<and>
      bm_rep (\<lambda>_. True) cmp_ran_func_id (\<lambda>_. True) cmp_ran_func_id m' {#}) \<and>
   (\<exists>m'. bi_map_extract_right ex_pairs 6 2 = Some (5, 6, m') \<and>
      bm_rep (\<lambda>_. True) cmp_ran_func_id (\<lambda>_. True) cmp_ran_func_id m' {#})"
  using bi_map_extract_inverse[OF ex_pairs_comparators ex_pairs_rep, of 5 6 2 2 5 6]
  by (simp add: ex_pairs_def one_pair_sel cmp_ran_func_id_def)

end
