(* ===== verification/Ric_Tables.thy ===== *)
theory Ric_Tables
  imports Bimap
begin

text \<open>
  The tables of the controller: src/ric/iApp/map_ric_id.c (which xApp asked for which request
  to an E2 node), src/ric/iApp/map_xapps_sockaddr.c (at which address an xApp is) and
  src/ric/map_e2_node_sockaddr.c (at which address an E2 node is).  Each is a bidirectional map
  behind a lock that is held for the whole operation, so that an operation is one step.

  The sizes of the keys are those of the structures on a 64-bit machine.  The block of
  \<open>add_map_e2_node_sad\<close> that is compiled with DEBUG only is left out.
\<close>

section \<open>Requests and the xApps that made them\<close>

type_synonym map_ric_id = "(e2_node_ric_id, xapp_ric_id) bi_map"

definition init_map_ric_id :: "addr \<Rightarrow> addr \<Rightarrow> map_ric_id option" where
  "init_map_ric_id a1 a2 =
     bi_map_init a1 a2 48 12 (\<lambda>a b. Some (cmp_e2_node_ric_req_wrapper a b)) (\<lambda>a b. Some (cmp_xapp_ric_gen_id a b))
       True True"

definition free_map_ric_id ::
  "map_ric_id \<Rightarrow> ((e2_node_ric_id option \<times> xapp_ric_id option) list \<times>
     (xapp_ric_id option \<times> e2_node_ric_id option) list \<times> map_ric_id) option"
where
  "free_map_ric_id m = bi_map_free m"

definition add_map_ric_id ::
  "addr \<Rightarrow> addr \<Rightarrow> map_ric_id \<Rightarrow> e2_node_ric_id \<Rightarrow> xapp_ric_id \<Rightarrow> map_ric_id option"
where
  "add_map_ric_id a1 a2 m node x = do {
     it \<leftarrow> find_all_rb_tree (left_tree m) node (\<lambda>a b. Some (eq_e2_node_ric_req a b));
     c_assert (it = assoc_rb_tree_end (left_tree m));
     bi_map_insert a1 a2 m node 48 x 12
   }"

text \<open>The node that is released, and the table without the pair.\<close>
definition rm_map_ric_id :: "map_ric_id \<Rightarrow> xapp_ric_id \<Rightarrow> (e2_node_ric_id \<times> map_ric_id) option" where
  "rm_map_ric_id m ric_id = do {
     (n, x, m) \<leftarrow> bi_map_extract_right m ric_id 12;
     Some (n, m)
   }"

definition zero_node :: global_e2_node_id where
  "zero_node = \<lparr>node_type = ngran_eNB, plmn = \<lparr>mcc = 0, mnc = 0, mnc_digit_len = 0\<rparr>,
     g_nb_id = \<lparr>nb_id = 0, unused = 0\<rparr>, cu_du_id = None\<rparr>"

definition dummy_node :: "uint16 \<Rightarrow> e2_node_ric_id" where
  "dummy_node req = \<lparr>e2_node_id = zero_node,
     e_ric_id = \<lparr>ric_req_id = ucast req, ric_inst_id = 0, ran_func_id = 0\<rparr>,
     ric_req_type = SUBSCRIPTION_RIC_REQUEST_TYPE\<rparr>"

text \<open>The expected value: \<^term>\<open>None\<close> inside when no xApp is waiting for the request.\<close>
definition find_xapp_map_ric_id :: "map_ric_id \<Rightarrow> uint16 \<Rightarrow> xapp_ric_id option option" where
  "find_xapp_map_ric_id m req = do {
     c_assert (0 < req);
     it \<leftarrow> find_all_rb_tree (left_tree m) (dummy_node req) (\<lambda>a b. Some (eq_e2_node_ric_req a b));
     if it = assoc_rb_tree_end (left_tree m) then Some None
     else do {
       v \<leftarrow> assoc_rb_tree_value (left_tree m) it;
       x \<leftarrow> v;
       Some (Some x)
     }
   }"

definition find_ric_req_map_ric_id :: "map_ric_id \<Rightarrow> xapp_ric_id \<Rightarrow> e2_node_ric_id option" where
  "find_ric_req_map_ric_id m x = do {
     it \<leftarrow> find_all_rb_tree (right_tree m) x (\<lambda>a b. Some (eq_xapp_ric_gen_id a b));
     c_assert (it \<noteq> assoc_rb_tree_end (right_tree m));
     v \<leftarrow> assoc_rb_tree_value (right_tree m) it;
     v
   }"

text \<open>The loop over the requests of an xApp; the array it fills is the list of its elements.\<close>
partial_function (option) all_subs_loop ::
  "(xapp_ric_id, e2_node_ric_id) assoc_rb_tree \<Rightarrow> addr \<Rightarrow> xapp_ric_id \<Rightarrow> e2_node_ric_id list \<Rightarrow>
    e2_node_ric_id list option"
where
  "all_subs_loop right it first_id arr =
     (if it \<noteq> assoc_rb_tree_end right then do {
        v \<leftarrow> assoc_rb_tree_value right it;
        n \<leftarrow> v;
        let arr = (if ric_req_type n = SUBSCRIPTION_RIC_REQUEST_TYPE then arr @ [cp_e2_node_ric_id n] else arr);
        nx \<leftarrow> assoc_rb_tree_next right it;
        it \<leftarrow> find_if_rb_tree right nx (assoc_rb_tree_end right) first_id (\<lambda>a b. Some (eq_xapp_ric_gen_id2 a b));
        all_subs_loop right it first_id arr
      }
      else Some arr)"

definition find_all_subs_map_ric_id :: "map_ric_id \<Rightarrow> uint16 \<Rightarrow> e2_node_ric_id list option" where
  "find_all_subs_map_ric_id m x = do {
     let first_id = \<lparr>x_ric_id = \<lparr>ric_req_id = 0, ric_inst_id = 0, ran_func_id = 0\<rparr>, xapp_id = x\<rparr>;
     it \<leftarrow> find_all_rb_tree (right_tree m) first_id (\<lambda>a b. Some (eq_xapp_ric_gen_id2 a b));
     all_subs_loop (right_tree m) it first_id []
   }"

section \<open>Addresses of the xApps\<close>

type_synonym map_xapps_sockaddr = "(uint16, sctp_info) bi_map"

definition init_map_xapps_sad :: "addr \<Rightarrow> addr \<Rightarrow> map_xapps_sockaddr option" where
  "init_map_xapps_sad a1 a2 =
     bi_map_init a1 a2 2 48 (\<lambda>a b. Some (cmp_uint16_wrapper a b)) (\<lambda>a b. Some (cmp_sctp_info_wrapper (Some a) (Some b)))
       True True"

definition free_map_xapps_sad ::
  "map_xapps_sockaddr \<Rightarrow> ((uint16 option \<times> sctp_info option) list \<times>
     (sctp_info option \<times> uint16 option) list \<times> map_xapps_sockaddr) option"
where
  "free_map_xapps_sad m = bi_map_free m"

definition add_map_xapps_sad ::
  "addr \<Rightarrow> addr \<Rightarrow> map_xapps_sockaddr \<Rightarrow> uint16 \<Rightarrow> sctp_info \<Rightarrow> map_xapps_sockaddr option"
where
  "add_map_xapps_sad a1 a2 m xid s = do {
     it \<leftarrow> find_all_rb_tree (left_tree m) xid (\<lambda>a b. Some (eq_uint16_wrapper a b));
     c_assert (it = assoc_rb_tree_end (left_tree m));
     let info = s;
     bi_map_insert a1 a2 m xid 2 info 48
   }"

definition rm_map_xapps_sad :: "map_xapps_sockaddr \<Rightarrow> uint16 \<Rightarrow> map_xapps_sockaddr option" where
  "rm_map_xapps_sad m xid = do {
     c_assert (0 \<noteq> (0 :: nat));
     (s, x, m) \<leftarrow> bi_map_extract_left m xid 2;
     Some m
   }"

definition find_map_xapps_sad :: "map_xapps_sockaddr \<Rightarrow> uint16 \<Rightarrow> sctp_info option" where
  "find_map_xapps_sad m xid = do {
     it \<leftarrow> find_all_rb_tree (left_tree m) xid (\<lambda>a b. Some (eq_uint16_wrapper a b));
     c_assert (it \<noteq> assoc_rb_tree_end (left_tree m));
     v \<leftarrow> assoc_rb_tree_value (left_tree m) it;
     v
   }"

definition find_map_xapps_xid :: "map_xapps_sockaddr \<Rightarrow> sctp_info \<Rightarrow> uint16 option" where
  "find_map_xapps_xid m s = do {
     it \<leftarrow> find_all_rb_tree (right_tree m) s (\<lambda>a b. Some (eq_sctp_info_wrapper (Some a) (Some b)));
     c_assert (it \<noteq> assoc_rb_tree_end (right_tree m));
     v \<leftarrow> assoc_rb_tree_value (right_tree m) it;
     v
   }"

section \<open>Addresses of the E2 nodes\<close>

type_synonym map_e2_node_sockaddr = "(global_e2_node_id, sctp_info) bi_map"

definition init_map_e2_node_sad :: "addr \<Rightarrow> addr \<Rightarrow> map_e2_node_sockaddr option" where
  "init_map_e2_node_sad a1 a2 =
     bi_map_init a1 a2 32 48 cmp_global_e2_node_id (\<lambda>a b. Some (cmp_sctp_info_wrapper (Some a) (Some b))) True True"

definition free_map_e2_node_sad ::
  "map_e2_node_sockaddr \<Rightarrow> ((global_e2_node_id option \<times> sctp_info option) list \<times>
     (sctp_info option \<times> global_e2_node_id option) list \<times> map_e2_node_sockaddr) option"
where
  "free_map_e2_node_sad m = bi_map_free m"

definition add_map_e2_node_sad ::
  "addr \<Rightarrow> addr \<Rightarrow> map_e2_node_sockaddr \<Rightarrow> global_e2_node_id \<Rightarrow> sctp_info \<Rightarrow> map_e2_node_sockaddr option"
where
  "add_map_e2_node_sad a1 a2 m nid s = do {
     let id_cp = cp_global_e2_node_id nid;
     bi_map_insert a1 a2 m id_cp 32 s 48
   }"

definition rm_map_e2_node_sad ::
  "map_e2_node_sockaddr \<Rightarrow> global_e2_node_id \<Rightarrow> (sctp_info \<times> map_e2_node_sockaddr) option"
where
  "rm_map_e2_node_sad m nid = do {
     (s, freed, m) \<leftarrow> bi_map_extract_left m nid 32;
     Some (s, m)
   }"

definition rm_map_sad_e2_node ::
  "map_e2_node_sockaddr \<Rightarrow> sctp_info \<Rightarrow> (global_e2_node_id \<times> map_e2_node_sockaddr) option"
where
  "rm_map_sad_e2_node m s = do {
     (nid, freed, m) \<leftarrow> bi_map_extract_right m s 48;
     Some (nid, m)
   }"

text \<open>The comparison for equality starts with the identity of the two pointers, which never holds here.\<close>
definition find_map_e2_node_sad :: "map_e2_node_sockaddr \<Rightarrow> global_e2_node_id \<Rightarrow> sctp_info option" where
  "find_map_e2_node_sad m nid = do {
     it \<leftarrow> find_all_rb_tree (left_tree m) nid eq_global_e2_node_id;
     c_assert (it \<noteq> assoc_rb_tree_end (left_tree m));
     v \<leftarrow> assoc_rb_tree_value (left_tree m) it;
     v
   }"

section \<open>What the tables hold\<close>

interpretation ric_table: bi_comparators cmp_e2_node_ric_req_wrapper cmp_xapp_ric_gen_id
  by (intro bi_comparators.intro node_ric.comparator_axioms xapp_ric.comparator_axioms)

interpretation xapp_table: bi_comparators cmp_uint16_wrapper cmp_sctp_info
  by (intro bi_comparators.intro xapp_no.comparator_axioms sctp.comparator_axioms)

interpretation node_table: bi_comparators order_e2_node cmp_sctp_info
  by (intro bi_comparators.intro e2_node.comparator_axioms sctp.comparator_axioms)

text \<open>The table of requests holds the pairs \<open>P\<close> and is ready for further operations.\<close>
definition ric_table_rep :: "map_ric_id \<Rightarrow> (e2_node_ric_id \<times> xapp_ric_id) multiset \<Rightarrow> bool" where
  "ric_table_rep m P \<longleftrightarrow>
     bm_rep (\<lambda>_. True) cmp_e2_node_ric_req_wrapper (\<lambda>_. True) cmp_xapp_ric_gen_id m P \<and>
     key_sz (left_tree m) = 48 \<and> key_sz (right_tree m) = 12 \<and> has_free_func (right_tree m)"

definition xapp_table_rep :: "map_xapps_sockaddr \<Rightarrow> (uint16 \<times> sctp_info) multiset \<Rightarrow> bool" where
  "xapp_table_rep m P \<longleftrightarrow>
     bm_rep (\<lambda>_. True) cmp_uint16_wrapper (\<lambda>_. True) cmp_sctp_info m P \<and>
     key_sz (left_tree m) = 2 \<and> key_sz (right_tree m) = 48 \<and> has_free_func (right_tree m)"

definition node_table_rep :: "map_e2_node_sockaddr \<Rightarrow> (global_e2_node_id \<times> sctp_info) multiset \<Rightarrow> bool" where
  "node_table_rep m P \<longleftrightarrow>
     bm_rep has_cu_du_id order_e2_node (\<lambda>_. True) cmp_sctp_info m P \<and>
     key_sz (left_tree m) = 32 \<and> key_sz (right_tree m) = 48 \<and> has_free_func (right_tree m)"

lemma cmp_e2_node_ric_req_0: "cmp_e2_node_ric_req_wrapper a b = 0 \<longleftrightarrow> eq_e2_node_ric_req a b"
  by (simp add: cmp_e2_node_ric_req_wrapper_def cmp_uint32_order eq_e2_node_ric_req_def)

lemma cmp_uint16_0: "cmp_uint16_wrapper a b = 0 \<longleftrightarrow> a = b"
  by (simp add: cmp_uint16_order)

lemma ric_gen_id_eq: "a = b \<longleftrightarrow>
    ran_func_id a = ran_func_id b \<and> ric_inst_id a = ric_inst_id b \<and> ric_req_id a = ric_req_id b"
  for a b :: ric_gen_id
  by (cases a; cases b) auto

lemma xapp_ric_id_eq: "a = b \<longleftrightarrow> xapp_id a = xapp_id b \<and> x_ric_id a = x_ric_id b" for a b :: xapp_ric_id
  by (cases a; cases b) auto

lemma cmp_ric_gen_id_0: "cmp_ric_gen_id a b = 0 \<longleftrightarrow> a = b"
  by (simp only: cmp_ric_gen_id_order cmp_lex_eq_0 cmp_on_eq_0 ric_gen_id_eq[of a])

lemma cmp_xapp_ric_gen_id_0: "cmp_xapp_ric_gen_id a b = 0 \<longleftrightarrow> a = b"
  by (simp only: cmp_xapp_ric_gen_id_order cmp_lex_eq_0 cmp_on_eq_0 cmp_ric_gen_id_0 xapp_ric_id_eq[of a])

lemma eq_ric_gen_id_iff: "eq_ric_gen_id a b \<longleftrightarrow> a = b"
  unfolding eq_ric_gen_id_def ric_gen_id_eq[of a] by blast

lemma eq_xapp_ric_gen_id_iff: "eq_xapp_ric_gen_id a b \<longleftrightarrow> x_ric_id a = x_ric_id b"
  by (simp add: eq_xapp_ric_gen_id_def eq_xapp_id_def eq_ric_gen_id_iff)

lemma cmp_sctp_info_wrapper_Some: "cmp_sctp_info_wrapper (Some a) (Some b) = cmp_sctp_info a b"
  by (simp add: cmp_sctp_info_def)

lemma ric_table_init:
  assumes "a1 \<noteq> 0" "a2 \<noteq> 0" shows "\<exists>m. init_map_ric_id a1 a2 = Some m \<and> ric_table_rep m {#}"
  by (rule init_bm_rep[where ?v1.0 = "\<lambda>_. True" and ?c1.0 = cmp_e2_node_ric_req_wrapper and ?v2.0 = "\<lambda>_. True" and
        ?c2.0 = cmp_xapp_ric_gen_id and ?f1.0 = "\<lambda>a b. Some (cmp_e2_node_ric_req_wrapper a b)" and
        ?f2.0 = "\<lambda>a b. Some (cmp_xapp_ric_gen_id a b)" and ?s1.0 = 48 and ?s2.0 = 12 and ?ff1.0 = True and ?ff2.0 = True,
        OF _ _ assms]) (auto simp: ric_table_rep_def init_map_ric_id_def)

lemma xapp_table_init:
  assumes "a1 \<noteq> 0" "a2 \<noteq> 0" shows "\<exists>m. init_map_xapps_sad a1 a2 = Some m \<and> xapp_table_rep m {#}"
  by (rule init_bm_rep[where ?v1.0 = "\<lambda>_. True" and ?c1.0 = cmp_uint16_wrapper and ?v2.0 = "\<lambda>_. True" and
        ?c2.0 = cmp_sctp_info and ?f1.0 = "\<lambda>a b. Some (cmp_uint16_wrapper a b)" and
        ?f2.0 = "\<lambda>a b. Some (cmp_sctp_info_wrapper (Some a) (Some b))" and ?s1.0 = 2 and ?s2.0 = 48 and ?ff1.0 = True and ?ff2.0 = True,
        OF _ _ assms]) (auto simp: xapp_table_rep_def init_map_xapps_sad_def cmp_sctp_info_wrapper_Some)

lemma node_table_init:
  assumes "a1 \<noteq> 0" "a2 \<noteq> 0" shows "\<exists>m. init_map_e2_node_sad a1 a2 = Some m \<and> node_table_rep m {#}"
  by (rule init_bm_rep[where ?v1.0 = has_cu_du_id and ?c1.0 = order_e2_node and ?v2.0 = "\<lambda>_. True" and
        ?c2.0 = cmp_sctp_info and ?f1.0 = cmp_global_e2_node_id and
        ?f2.0 = "\<lambda>a b. Some (cmp_sctp_info_wrapper (Some a) (Some b))" and ?s1.0 = 32 and ?s2.0 = 48 and ?ff1.0 = True and ?ff2.0 = True,
        OF _ _ assms cmp_global_e2_node_id_order]) (auto simp: node_table_rep_def init_map_e2_node_sad_def cmp_sctp_info_wrapper_Some)

text \<open>The lookups of an entry, each by one application of the search of the map.\<close>
lemma find_value_left:
  assumes m: "bm_rep v1 c1 v2 c2 m P" and f: "\<forall>(a, b) \<in># P. f q a = Some (p a)"
    and one: "(a, b) \<in># P" "p a" "\<forall>(a', b') \<in># P. p a' \<longrightarrow> b' = b"
  obtains it where "find_all_rb_tree (left_tree m) q f = Some it" "it \<noteq> assoc_rb_tree_end (left_tree m)"
    "assoc_rb_tree_value (left_tree m) it = Some (Some b)"
proof -
  from find_left_bm_rep[where f = f and q = q and p = p, OF m f] obtain it where
    it: "find_all_rb_tree (left_tree m) q f = Some it" and
    "(it = assoc_rb_tree_end (left_tree m) \<and> (\<forall>(a, b) \<in># P. \<not> p a)) \<or>
     (it \<noteq> assoc_rb_tree_end (left_tree m) \<and> (\<exists>a b. (a, b) \<in># P \<and> p a \<and>
        assoc_rb_tree_key (left_tree m) it = Some (Some a) \<and> assoc_rb_tree_value (left_tree m) it = Some (Some b)))"
    by blast
  then consider "\<forall>(a, b) \<in># P. \<not> p a" | a' b' where "it \<noteq> assoc_rb_tree_end (left_tree m)" "(a', b') \<in># P" "p a'"
    "assoc_rb_tree_value (left_tree m) it = Some (Some b')" by blast
  then show thesis
  proof cases
    case 1
    then show thesis using one(1,2) by blast
  next
    case 2
    moreover have "b' = b" using one(3) 2(2,3) by auto
    ultimately show thesis using that[OF it] by simp
  qed
qed

lemma find_none_left:
  assumes m: "bm_rep v1 c1 v2 c2 m P" and f: "\<forall>(a, b) \<in># P. f q a = Some (p a)"
    and none: "\<forall>(a, b) \<in># P. \<not> p a"
  shows "find_all_rb_tree (left_tree m) q f = Some (assoc_rb_tree_end (left_tree m))"
  using find_left_bm_rep[where f = f and q = q and p = p, OF m f] none by blast

lemma find_value_right:
  assumes m: "bm_rep v1 c1 v2 c2 m P" and f: "\<forall>(a, b) \<in># P. f q b = Some (p b)"
    and one: "(a, b) \<in># P" "p b" "\<forall>(a', b') \<in># P. p b' \<longrightarrow> a' = a"
  obtains it where "find_all_rb_tree (right_tree m) q f = Some it" "it \<noteq> assoc_rb_tree_end (right_tree m)"
    "assoc_rb_tree_value (right_tree m) it = Some (Some a)"
proof -
  have "\<forall>(b, a) \<in># image_mset prod.swap P. f q b = Some (p b)" "(b, a) \<in># image_mset prod.swap P"
    "\<forall>(b', a') \<in># image_mset prod.swap P. p b' \<longrightarrow> a' = a" using f one by force+
  from find_value_left[where f = f and q = q and p = p, OF bm_rep_flip[OF m] this(1,2) one(2) this(3)] that show thesis
    unfolding bm_flip_sel by blast
qed

text \<open>The same for predicates that do not abort.\<close>
lemma find_eq_left:
  assumes "bm_rep v1 c1 v2 c2 m P" "(a, b) \<in># P" "e q a" "\<forall>(a', b') \<in># P. e q a' \<longrightarrow> b' = b"
  shows "\<exists>it. find_all_rb_tree (left_tree m) q (\<lambda>x y. Some (e x y)) = Some it \<and>
    it \<noteq> assoc_rb_tree_end (left_tree m) \<and> assoc_rb_tree_value (left_tree m) it = Some (Some b)"
proof -
  from find_value_left[where f = "\<lambda>x y. Some (e x y)" and p = "e q" and q = q, OF assms(1) _ assms(2-4)]
  show ?thesis by auto
qed

lemma find_eq_right:
  assumes "bm_rep v1 c1 v2 c2 m P" "(a, b) \<in># P" "e q b" "\<forall>(a', b') \<in># P. e q b' \<longrightarrow> a' = a"
  shows "\<exists>it. find_all_rb_tree (right_tree m) q (\<lambda>x y. Some (e x y)) = Some it \<and>
    it \<noteq> assoc_rb_tree_end (right_tree m) \<and> assoc_rb_tree_value (right_tree m) it = Some (Some a)"
proof -
  from find_value_right[where f = "\<lambda>x y. Some (e x y)" and p = "e q" and q = q, OF assms(1) _ assms(2-4)]
  show ?thesis by auto
qed

lemma find_eq_none_left:
  assumes "bm_rep v1 c1 v2 c2 m P" "\<And>a b. (a, b) \<in># P \<Longrightarrow> \<not> e q a"
  shows "find_all_rb_tree (left_tree m) q (\<lambda>x y. Some (e x y)) = Some (assoc_rb_tree_end (left_tree m))"
  by (rule find_none_left[OF assms(1), where p = "e q"]) (use assms(2) in auto)

text \<open>Two pairs of a map with equal left keys, or equal right ones, are the same.\<close>
lemma bm_rep_left_unique:
  assumes "bm_rep v1 c1 v2 c2 m P" "comparator c1" "(a, b) \<in># P" "(a', b') \<in># P" "c1 a a' = 0"
  shows "(a, b) = (a', b')"
proof -
  obtain es where es: "mset (map snd es) = P" "uniq c1 es" using assms(1) by (auto simp: bm_rep_def)
  obtain x where x: "x \<in> set es" "snd x = (a, b)" using assms(3) by (auto simp flip: es(1))
  obtain y where y: "y \<in> set es" "snd y = (a', b')" using assms(4) by (auto simp flip: es(1))
  obtain xs ys where sp: "es = xs @ x # ys" using x(1) by (metis split_list)
  have "uniq c1 (xs @ x # ys)" "y \<in> set (xs @ x # ys)" using es(2) y(1) sp by simp_all
  moreover have "c1 (entry_key x) (entry_key y) = 0" using x(2) y(2) assms(5) by (simp add: entry_key_def)
  ultimately have "y = x" by (rule comparator.uniq_same[OF assms(2)])
  then show ?thesis using x(2) y(2) by simp
qed

lemma bm_rep_right_unique:
  assumes "bm_rep v1 c1 v2 c2 m P" "comparator c2" "(a, b) \<in># P" "(a', b') \<in># P" "c2 b b' = 0"
  shows "(a, b) = (a', b')"
  using bm_rep_left_unique[OF bm_rep_flip[OF assms(1)] assms(2), of b a b' a'] assms(3-5) by force

section \<open>The table of requests\<close>

lemma ric_table_key_unique:
  assumes "ric_table_rep m P" "(n, x) \<in># P" "(n', x') \<in># P" "eq_e2_node_ric_req n n'"
  shows "(n, x) = (n', x')"
  using bm_rep_left_unique[OF _ node_ric.comparator_axioms assms(2,3)] assms(1,4)
  by (auto simp: ric_table_rep_def cmp_e2_node_ric_req_0)

lemma ric_table_add:
  assumes "ric_table_rep m P" "fresh_for m a1 a2"
    and "\<forall>(n, y) \<in># P. ric_req_id (e_ric_id node) \<noteq> ric_req_id (e_ric_id n) \<and> x \<noteq> y"
  shows "\<exists>m'. add_map_ric_id a1 a2 m node x = Some m' \<and> ric_table_rep m' (add_mset (node, x) P)"
proof -
  have m: "bm_rep (\<lambda>_. True) cmp_e2_node_ric_req_wrapper (\<lambda>_. True) cmp_xapp_ric_gen_id m P"
    "key_sz (left_tree m) = 48" "key_sz (right_tree m) = 12" "has_free_func (right_tree m)"
    using assms(1) by (simp_all add: ric_table_rep_def)
  have "find_all_rb_tree (left_tree m) node (\<lambda>a b. Some (eq_e2_node_ric_req a b)) = Some (assoc_rb_tree_end (left_tree m))"
    by (rule find_eq_none_left[OF m(1)]) (use assms(3) in \<open>auto simp: eq_e2_node_ric_req_def\<close>)
  moreover have "\<forall>(a, b) \<in># P. cmp_e2_node_ric_req_wrapper node a \<noteq> 0 \<and> cmp_xapp_ric_gen_id x b \<noteq> 0"
    using assms(3) by (auto simp: cmp_e2_node_ric_req_0 cmp_xapp_ric_gen_id_0 eq_e2_node_ric_req_def)
  note ric_table.insert_bm_rep[OF m(1) TrueI TrueI this m(2,3), of a1 a2]
  ultimately show ?thesis
    using assms(2) m by (auto simp: add_map_ric_id_def fresh_for_def ric_table_rep_def bm_same_def)
qed

text \<open>A request whose number is not in the table and whose xApp request is new is added: the
  table then holds it and everything it held before.\<close>
theorem add_map_ric_id_adds:
  assumes "ric_table_rep m P" "fresh_for m a1 a2"
    and "\<forall>(n, y) \<in># P. ric_req_id (e_ric_id node) \<noteq> ric_req_id (e_ric_id n) \<and> x \<noteq> y"
  shows "\<exists>m'. add_map_ric_id a1 a2 m node x = Some m' \<and> ric_table_rep m' (add_mset (node, x) P)"
  by (rule ric_table_add[OF assms])

text \<open>Adding a request whose number is in the table fails an assertion.\<close>
theorem add_map_ric_id_rejects:
  assumes "ric_table_rep m P" "(n, y) \<in># P" "ric_req_id (e_ric_id node) = ric_req_id (e_ric_id n)"
  shows "add_map_ric_id a1 a2 m node x = None"
proof -
  have m: "bm_rep (\<lambda>_. True) cmp_e2_node_ric_req_wrapper (\<lambda>_. True) cmp_xapp_ric_gen_id m P"
    using assms(1) by (simp add: ric_table_rep_def)
  have p: "eq_e2_node_ric_req node n" using assms(3) by (simp add: eq_e2_node_ric_req_def)
  have u: "\<forall>(a', b') \<in># P. eq_e2_node_ric_req node a' \<longrightarrow> b' = y"
    using ric_table_key_unique[OF assms(1,2)] p unfolding eq_e2_node_ric_req_def by force
  from find_eq_left[where e = eq_e2_node_ric_req, OF m assms(2) p u]
  obtain it where "find_all_rb_tree (left_tree m) node (\<lambda>a b. Some (eq_e2_node_ric_req a b)) = Some it"
    "it \<noteq> assoc_rb_tree_end (left_tree m)" by blast
  then show ?thesis by (simp add: add_map_ric_id_def)
qed

lemma ric_table_find:
  assumes "ric_table_rep m P" "0 < req"
  shows "(\<forall>n x. (n, x) \<in># P \<longrightarrow> ric_req_id (e_ric_id n) = ucast req \<longrightarrow> find_xapp_map_ric_id m req = Some (Some x)) \<and>
    ((\<forall>(n, x) \<in># P. ric_req_id (e_ric_id n) \<noteq> ucast req) \<longrightarrow> find_xapp_map_ric_id m req = Some None)"
proof -
  have m: "bm_rep (\<lambda>_. True) cmp_e2_node_ric_req_wrapper (\<lambda>_. True) cmp_xapp_ric_gen_id m P"
    using assms(1) by (simp add: ric_table_rep_def)
  have e: "eq_e2_node_ric_req (dummy_node req) n \<longleftrightarrow> ric_req_id (e_ric_id n) = ucast req" for n
    by (auto simp: eq_e2_node_ric_req_def dummy_node_def)
  have "find_xapp_map_ric_id m req = Some (Some x)" if "(n, x) \<in># P" "ric_req_id (e_ric_id n) = ucast req" for n x
  proof -
    have u: "\<forall>(a', b') \<in># P. eq_e2_node_ric_req (dummy_node req) a' \<longrightarrow> b' = x"
    proof clarify
      fix a' b' assume "(a', b') \<in># P" "eq_e2_node_ric_req (dummy_node req) a'"
      with ric_table_key_unique[OF assms(1) that(1), of a' b'] that(2) show "b' = x"
        by (simp add: e) (simp add: eq_e2_node_ric_req_def)
    qed
    have "eq_e2_node_ric_req (dummy_node req) n" using that(2) by (simp add: e)
    from find_eq_left[where e = eq_e2_node_ric_req, OF m that(1) this u] obtain it where
      "find_all_rb_tree (left_tree m) (dummy_node req) (\<lambda>a b. Some (eq_e2_node_ric_req a b)) = Some it"
      "it \<noteq> assoc_rb_tree_end (left_tree m)" "assoc_rb_tree_value (left_tree m) it = Some (Some x)" by blast
    then show ?thesis using assms(2) by (simp add: find_xapp_map_ric_id_def)
  qed
  moreover have "find_xapp_map_ric_id m req = Some None" if "\<forall>(n, x) \<in># P. ric_req_id (e_ric_id n) \<noteq> ucast req"
  proof -
    have "find_all_rb_tree (left_tree m) (dummy_node req) (\<lambda>a b. Some (eq_e2_node_ric_req a b)) =
        Some (assoc_rb_tree_end (left_tree m))"
      by (rule find_eq_none_left[OF m]) (use that in \<open>auto simp: e\<close>)
    then show ?thesis using assms(2) by (simp add: find_xapp_map_ric_id_def)
  qed
  ultimately show ?thesis by blast
qed

text \<open>An answer of a node is routed to the xApp whose request has its number, and to none when
  no request has it.\<close>
theorem find_xapp_map_ric_id_routes:
  assumes "ric_table_rep m P" "0 < req"
  shows "(\<forall>n x. (n, x) \<in># P \<longrightarrow> ric_req_id (e_ric_id n) = ucast req \<longrightarrow> find_xapp_map_ric_id m req = Some (Some x)) \<and>
    ((\<forall>(n, x) \<in># P. ric_req_id (e_ric_id n) \<noteq> ucast req) \<longrightarrow> find_xapp_map_ric_id m req = Some None)"
  by (rule ric_table_find[OF assms])

lemma ric_table_rm:
  assumes "ric_table_rep m P" "(n, x) \<in># P"
  shows "\<exists>m'. rm_map_ric_id m x = Some (n, m') \<and> ric_table_rep m' (P - {#(n, x)#})"
proof -
  have m: "bm_rep (\<lambda>_. True) cmp_e2_node_ric_req_wrapper (\<lambda>_. True) cmp_xapp_ric_gen_id m P"
    "key_sz (left_tree m) = 48" "key_sz (right_tree m) = 12" "has_free_func (right_tree m)"
    using assms(1) by (simp_all add: ric_table_rep_def)
  have "cmp_xapp_ric_gen_id x x = 0" by simp
  from ric_table.extract_right_bm_rep[OF m(1) TrueI m(3) assms(2) this m(4)] m show ?thesis
    by (auto simp: ric_table_rep_def rm_map_ric_id_def bm_same_def)
qed

text \<open>Removing the request of an xApp releases exactly the node it was for and leaves the other
  requests.\<close>
theorem rm_map_ric_id_removes:
  assumes "ric_table_rep m P" "(n, x) \<in># P"
  shows "\<exists>m'. rm_map_ric_id m x = Some (n, m') \<and> ric_table_rep m' (P - {#(n, x)#})"
  by (rule ric_table_rm[OF assms])

text \<open>The lookup of the node of an xApp's request compares the request identifiers
  only: when two xApps use the same identifier, the request of the one with the greater number is
  answered with the node of the other.\<close>
theorem find_ric_req_ignores_xapp:
  assumes "ric_table_rep m {#(n1, x1), (n2, x2)#}" "x_ric_id x1 = x_ric_id x2" "xapp_id x1 < xapp_id x2"
  shows "find_ric_req_map_ric_id m x2 = Some n1"
proof -
  obtain fs where r: "rb_rep (\<lambda>_. True) cmp_xapp_ric_gen_id (right_tree m) fs"
    "mset (map (prod.swap \<circ> snd) fs) = {#(n1, x1), (n2, x2)#}"
    using assms(1) by (auto simp: ric_table_rep_def bm_rep_def)
  have "length fs = size (mset (map (prod.swap \<circ> snd) fs))" by simp
  then have "length fs = Suc (Suc 0)" unfolding r(2) by simp
  then obtain e1 e2 where fs: "fs = [e1, e2]" by (auto simp: length_Suc_conv)
  have "cmp_xapp_ric_gen_id (entry_key e2) (entry_key e1) \<noteq> 1" using r(1) fs by (simp add: rb_rep_def ordered_def)
  moreover have "cmp_xapp_ric_gen_id x1 x2 = 1" using assms(3) by (simp add: cmp_xapp_ric_gen_id_def)
  moreover have "{#prod.swap (snd e1), prod.swap (snd e2)#} = {#(n1, x1), (n2, x2)#}" using r(2) fs by simp
  then have "prod.swap (snd e1) = (n1, x1) \<and> prod.swap (snd e2) = (n2, x2) \<or>
      prod.swap (snd e1) = (n2, x2) \<and> prod.swap (snd e2) = (n1, x1)"
    by (auto simp: add_eq_conv_ex)
  ultimately have e1: "snd e1 = (x1, n1)" by (auto simp: entry_key_def prod.swap_def prod_eq_iff)
  have "find_all_rb_tree (right_tree m) x2 (\<lambda>a b. Some (eq_xapp_ric_gen_id a b)) = Some (fst e1)"
    using find_all_rep[OF r(1), where q = x2 and f = "\<lambda>a b. Some (eq_xapp_ric_gen_id a b)"
        and p = "\<lambda>e. eq_xapp_ric_gen_id x2 (entry_key e)"] fs e1 assms(2)
    by (simp add: entry_key_def eq_xapp_ric_gen_id_iff)
  moreover have "fs = [] @ (fst e1, x1, n1) # [e2]" using fs e1 by (simp add: prod_eq_iff)
  then have "rb_rep (\<lambda>_. True) cmp_xapp_ric_gen_id (right_tree m) ([] @ (fst e1, x1, n1) # [e2])" using r(1) by simp
  note access_rep[OF this]
  ultimately show ?thesis by (simp add: find_ric_req_map_ric_id_def assoc_rb_tree_end_def)
qed

lemma filter_first_from:
  "filter p (drop i xs) = (if first_from p i xs < length xs
     then xs ! first_from p i xs # filter p (drop (Suc (first_from p i xs)) xs) else [])"
proof (induction "length xs - i" arbitrary: i)
  case 0
  then show ?case by (simp add: first_from_def)
next
  case (Suc n)
  then have i: "i < length xs" and n: "n = length xs - Suc i" by linarith+
  have "drop i xs = xs ! i # drop (Suc i) xs" using i by (simp add: Cons_nth_drop_Suc)
  then show ?case using Suc.hyps(1)[OF n] first_from_step[OF i, of p] i by simp
qed

definition subs_of :: "('a \<Rightarrow> e2_node_ric_id) \<Rightarrow> 'a list \<Rightarrow> e2_node_ric_id list" where
  "subs_of f es = map cp_e2_node_ric_id (filter (\<lambda>n. ric_req_type n = SUBSCRIPTION_RIC_REQUEST_TYPE) (map f es))"

lemma all_subs_loop_rep:
  assumes r: "rb_rep vkey cmp T es" and i: "i \<le> length es"
    and p: "p = (\<lambda>e. eq_xapp_ric_gen_id2 q (entry_key e))"
  shows "all_subs_loop T ((map fst es @ [dummy T]) ! first_from p i es) q acc =
    Some (acc @ subs_of (\<lambda>e. snd (snd e)) (filter p (drop i es)))"
  using i
proof (induction "length es - i" arbitrary: i acc rule: less_induct)
  case less
  let ?pl = "map fst es @ [dummy T]" and ?j = "first_from p i es"
  show ?case
  proof (cases "?j < length es")
    case False
    then have "?j = length es" using first_from_le[of i es p] less.prems by linarith
    then show ?thesis
      by (simp add: filter_first_from[of p i] all_subs_loop.simps assoc_rb_tree_end_def nth_append subs_of_def)
  next
    case True
    have ij: "i \<le> ?j" by (simp add: first_from_def)
    note it = iterates[OF r True]
    have nx: "find_if_rb_tree T (?pl ! Suc ?j) (assoc_rb_tree_end T) q (\<lambda>a b. Some (eq_xapp_ric_gen_id2 a b)) =
        Some (?pl ! first_from p (Suc ?j) es)"
      using find_if_rb_tree_rep[OF r, where p = p and q = q and f = "\<lambda>a b. Some (eq_xapp_ric_gen_id2 a b)"
          and i = "Suc ?j"] True p by simp
    have "length es - Suc ?j < length es - i" "Suc ?j \<le> length es" using True ij by linarith+
    note IH = less.hyps[OF this]
    let ?n = "snd (snd (es ! ?j))"
    have "all_subs_loop T (?pl ! ?j) q acc = all_subs_loop T (?pl ! first_from p (Suc ?j) es) q
        (if ric_req_type ?n = SUBSCRIPTION_RIC_REQUEST_TYPE then acc @ [cp_e2_node_ric_id ?n] else acc)"
      using it nx by (simp add: all_subs_loop.simps[of T "?pl ! ?j"] assoc_rb_tree_end_def Let_def)
    then show ?thesis using IH True by (simp add: filter_first_from[of p i] subs_of_def)
  qed
qed

lemma ric_table_all_subs:
  assumes "ric_table_rep m P"
  shows "\<exists>arr. find_all_subs_map_ric_id m xid = Some arr \<and>
    mset arr = image_mset (\<lambda>(n, x). cp_e2_node_ric_id n)
      (filter_mset (\<lambda>(n, x). xapp_id x = xid \<and> ric_req_type n = SUBSCRIPTION_RIC_REQUEST_TYPE) P)"
proof -
  obtain fs where r: "rb_rep (\<lambda>_. True) cmp_xapp_ric_gen_id (right_tree m) fs"
    "mset (map (prod.swap \<circ> snd) fs) = P"
    using assms by (auto simp: ric_table_rep_def bm_rep_def)
  let ?q = "\<lparr>x_ric_id = \<lparr>ric_req_id = 0, ric_inst_id = 0, ran_func_id = 0\<rparr>, xapp_id = xid\<rparr>"
  let ?p = "\<lambda>e. eq_xapp_ric_gen_id2 ?q (entry_key e)"
  let ?pl = "map fst fs @ [dummy (right_tree m)]"
  have fr: "assoc_rb_tree_front (right_tree m) = Some (?pl ! 0)"
    using front_rep[OF r(1)] by (cases fs) (simp_all split: prod.splits)
  then have "find_all_rb_tree (right_tree m) ?q (\<lambda>a b. Some (eq_xapp_ric_gen_id2 a b)) = Some (?pl ! first_from ?p 0 fs)"
    using find_if_rb_tree_rep[OF r(1), where p = ?p and q = ?q and f = "\<lambda>a b. Some (eq_xapp_ric_gen_id2 a b)" and i = 0]
    by (simp only: find_all_rb_tree_def bind.bind_lunit le0)
  then have "find_all_subs_map_ric_id m xid = Some (subs_of (\<lambda>e. snd (snd e)) (filter ?p fs))"
    using all_subs_loop_rep[OF r(1) _ refl, of 0 ?q "[]"] by (simp add: find_all_subs_map_ric_id_def Let_def)
  moreover have "mset (subs_of (\<lambda>e. snd (snd e)) (filter ?p fs)) = image_mset (\<lambda>(n, x). cp_e2_node_ric_id n)
      (filter_mset (\<lambda>(n, x). xapp_id x = xid \<and> ric_req_type n = SUBSCRIPTION_RIC_REQUEST_TYPE) P)"
    unfolding r(2)[symmetric] by (induction fs) (auto simp: subs_of_def eq_xapp_ric_gen_id2_def entry_key_def)
  ultimately show ?thesis by blast
qed

text \<open>The subscriptions collected for an xApp that disconnects are copies of
  exactly those requests in the table that are its own and are subscriptions.\<close>
theorem find_all_subs_map_ric_id_complete:
  assumes "ric_table_rep m P"
  shows "\<exists>arr. find_all_subs_map_ric_id m xid = Some arr \<and>
    mset arr = image_mset (\<lambda>(n, x). cp_e2_node_ric_id n)
      (filter_mset (\<lambda>(n, x). xapp_id x = xid \<and> ric_req_type n = SUBSCRIPTION_RIC_REQUEST_TYPE) P)"
  by (rule ric_table_all_subs[OF assms])

section \<open>A table with two requests\<close>

definition ex_node :: "uint32 \<Rightarrow> e2_node_ric_id" where
  "ex_node req = \<lparr>e2_node_id = zero_node, e_ric_id = \<lparr>ric_req_id = req, ric_inst_id = 0, ran_func_id = 2\<rparr>,
     ric_req_type = SUBSCRIPTION_RIC_REQUEST_TYPE\<rparr>"

definition ex_xapp :: "uint16 \<Rightarrow> xapp_ric_id" where
  "ex_xapp x = \<lparr>x_ric_id = \<lparr>ric_req_id = 1024, ric_inst_id = 0, ran_func_id = 2\<rparr>, xapp_id = x\<rparr>"

definition ex_ric_table :: map_ric_id where
  "ex_ric_table = \<lparr>left_tree = two_nodes (\<lambda>a b. Some (cmp_e2_node_ric_req_wrapper a b)) 48
       (ex_node 2) (ex_xapp 8) (ex_node 1) (ex_xapp 7),
     right_tree = two_nodes (\<lambda>a b. Some (cmp_xapp_ric_gen_id a b)) 12 (ex_xapp 7) (ex_node 1) (ex_xapp 8) (ex_node 2)\<rparr>"

lemma ex_ric_table_rep: "ric_table_rep ex_ric_table {#(ex_node 1, ex_xapp 7), (ex_node 2, ex_xapp 8)#}"
proof -
  have "rb_rep (\<lambda>_. True) cmp_e2_node_ric_req_wrapper (left_tree ex_ric_table)
      [(2, ex_node 2, ex_xapp 8), (3, ex_node 1, ex_xapp 7)]"
    unfolding ex_ric_table_def bi_map.simps
    by (rule two_nodes_rep) (simp_all add: cmp_e2_node_ric_req_wrapper_def cmp_uint32_def ex_node_def)
  moreover have "rb_rep (\<lambda>_. True) cmp_xapp_ric_gen_id (right_tree ex_ric_table)
      [(2, ex_xapp 7, ex_node 1), (3, ex_xapp 8, ex_node 2)]"
    unfolding ex_ric_table_def bi_map.simps
    by (rule two_nodes_rep) (simp_all add: cmp_xapp_ric_gen_id_def ex_xapp_def)
  moreover have "uniq cmp_e2_node_ric_req_wrapper [(2, ex_node 2, ex_xapp 8), (3, ex_node 1, ex_xapp 7)]"
    by (simp add: uniq_def cmp_e2_node_ric_req_wrapper_def cmp_uint32_def ex_node_def)
  moreover have "uniq cmp_xapp_ric_gen_id [(2, ex_xapp 7, ex_node 1), (3, ex_xapp 8, ex_node 2)]"
    by (simp add: uniq_def cmp_xapp_ric_gen_id_def ex_xapp_def)
  ultimately have "bm_rep (\<lambda>_. True) cmp_e2_node_ric_req_wrapper (\<lambda>_. True) cmp_xapp_ric_gen_id ex_ric_table
      {#(ex_node 1, ex_xapp 7), (ex_node 2, ex_xapp 8)#}"
    unfolding bm_rep_def
    by (intro exI[of _ "[(2, ex_node 2, ex_xapp 8), (3, ex_node 1, ex_xapp 7)]"]
        exI[of _ "[(2, ex_xapp 7, ex_node 1), (3, ex_xapp 8, ex_node 2)]"]) (simp add: add_mset_commute)
  then show ?thesis by (simp add: ric_table_rep_def ex_ric_table_def two_nodes_def)
qed

lemma ex_ric_table_fresh: "fresh_for ex_ric_table 4 4"
  by (simp add: fresh_for_def ex_ric_table_def two_nodes_def)

lemma ex_sel: "ric_req_id (e_ric_id (ex_node r)) = r" "x_ric_id (ex_xapp a) = x_ric_id (ex_xapp b)"
  "xapp_id (ex_xapp a) = a" "ric_req_type (ex_node r) = SUBSCRIPTION_RIC_REQUEST_TYPE"
  by (simp_all add: ex_node_def ex_xapp_def)

lemma ex_xapp_inj: "ex_xapp a = ex_xapp b \<longleftrightarrow> a = b"
  by (simp add: ex_xapp_def)

theorem add_map_ric_id_adds_witness:
  "\<exists>m'. add_map_ric_id 4 4 ex_ric_table (ex_node 3) (ex_xapp 9) = Some m' \<and>
     ric_table_rep m' {#(ex_node 3, ex_xapp 9), (ex_node 1, ex_xapp 7), (ex_node 2, ex_xapp 8)#}"
  using add_map_ric_id_adds[OF ex_ric_table_rep ex_ric_table_fresh, of "ex_node 3" "ex_xapp 9"]
  by (simp add: ex_sel ex_xapp_inj)

theorem add_map_ric_id_rejects_witness: "add_map_ric_id 4 4 ex_ric_table (ex_node 1) (ex_xapp 9) = None"
  using add_map_ric_id_rejects[OF ex_ric_table_rep, of "ex_node 1" "ex_xapp 7" "ex_node 1"] by (simp add: ex_sel)

theorem find_xapp_map_ric_id_routes_witness:
  "find_xapp_map_ric_id ex_ric_table 2 = Some (Some (ex_xapp 8)) \<and> find_xapp_map_ric_id ex_ric_table 5 = Some None"
proof
  show "find_xapp_map_ric_id ex_ric_table 2 = Some (Some (ex_xapp 8))"
    using find_xapp_map_ric_id_routes[OF ex_ric_table_rep, of 2] by (auto simp: ex_sel)
  show "find_xapp_map_ric_id ex_ric_table 5 = Some None"
    using find_xapp_map_ric_id_routes[OF ex_ric_table_rep, of 5] by (auto simp: ex_sel)
qed

theorem rm_map_ric_id_removes_witness:
  "\<exists>m'. rm_map_ric_id ex_ric_table (ex_xapp 8) = Some (ex_node 2, m') \<and> ric_table_rep m' {#(ex_node 1, ex_xapp 7)#}"
  using rm_map_ric_id_removes[OF ex_ric_table_rep, of "ex_node 2" "ex_xapp 8"] by simp

theorem find_ric_req_ignores_xapp_witness: "find_ric_req_map_ric_id ex_ric_table (ex_xapp 8) = Some (ex_node 1)"
  by (rule find_ric_req_ignores_xapp[OF ex_ric_table_rep]) (simp_all add: ex_sel ex_xapp_def)

theorem find_all_subs_map_ric_id_complete_witness:
  "\<exists>arr. find_all_subs_map_ric_id ex_ric_table 8 = Some arr \<and> mset arr = {#cp_e2_node_ric_id (ex_node 2)#}"
  using find_all_subs_map_ric_id_complete[OF ex_ric_table_rep, of 8] by (simp add: ex_sel)

section \<open>The addresses of the xApps\<close>

lemma find_map_xapps_sad_rep:
  assumes "xapp_table_rep m P" "(xid, info) \<in># P"
  shows "find_map_xapps_sad m xid = Some info"
proof -
  have m: "bm_rep (\<lambda>_. True) cmp_uint16_wrapper (\<lambda>_. True) cmp_sctp_info m P"
    using assms(1) by (simp add: xapp_table_rep_def)
  have "\<forall>(a, b) \<in># P. eq_uint16_wrapper xid a \<longrightarrow> b = info"
    using bm_rep_left_unique[OF m xapp_no.comparator_axioms assms(2)]
    by (auto simp: eq_uint16_wrapper_def cmp_uint16_0)
  from find_eq_left[where e = eq_uint16_wrapper and q = xid, OF m assms(2) _ this] show ?thesis
    by (auto simp: find_map_xapps_sad_def eq_uint16_wrapper_def)
qed

lemma find_map_xapps_xid_rep:
  assumes "xapp_table_rep m P" "(xid, info) \<in># P" "cmp_sctp_info s info = 0"
  shows "find_map_xapps_xid m s = Some xid"
proof -
  let ?e = "\<lambda>a b. eq_sctp_info_wrapper (Some a) (Some b)"
  have m: "bm_rep (\<lambda>_. True) cmp_uint16_wrapper (\<lambda>_. True) cmp_sctp_info m P"
    using assms(1) by (simp add: xapp_table_rep_def)
  have e: "?e a b \<longleftrightarrow> cmp_sctp_info a b = 0" for a b
    by (simp add: eq_sctp_info_wrapper_def cmp_sctp_info_wrapper_Some)
  have "\<forall>(a, b) \<in># P. ?e s b \<longrightarrow> a = xid"
  proof clarify
    fix a b assume ab: "(a, b) \<in># P" "?e s b"
    have "cmp_sctp_info info b = 0" using sctp.cmp_cong[OF assms(3), of b] ab(2) e by simp
    from bm_rep_right_unique[OF m sctp.comparator_axioms assms(2) ab(1) this] show "a = xid" by simp
  qed
  from find_eq_right[where e = ?e and q = s, OF m assms(2) _ this] assms(3) show ?thesis
    by (auto simp: find_map_xapps_xid_def e)
qed

lemma xapp_table_add:
  assumes "xapp_table_rep m P" "fresh_for m a1 a2" "\<forall>(x, s) \<in># P. xid \<noteq> x \<and> cmp_sctp_info info s \<noteq> 0"
  shows "\<exists>m'. add_map_xapps_sad a1 a2 m xid info = Some m' \<and> xapp_table_rep m' (add_mset (xid, info) P)"
proof -
  have m: "bm_rep (\<lambda>_. True) cmp_uint16_wrapper (\<lambda>_. True) cmp_sctp_info m P"
    "key_sz (left_tree m) = 2" "key_sz (right_tree m) = 48" "has_free_func (right_tree m)"
    using assms(1) by (simp_all add: xapp_table_rep_def)
  have "find_all_rb_tree (left_tree m) xid (\<lambda>a b. Some (eq_uint16_wrapper a b)) = Some (assoc_rb_tree_end (left_tree m))"
    by (rule find_eq_none_left[OF m(1)]) (use assms(3) in \<open>auto simp: eq_uint16_wrapper_def\<close>)
  moreover have "\<forall>(a, b) \<in># P. cmp_uint16_wrapper xid a \<noteq> 0 \<and> cmp_sctp_info info b \<noteq> 0"
    using assms(3) by (auto simp: cmp_uint16_0)
  note xapp_table.insert_bm_rep[OF m(1) TrueI TrueI this m(2,3), of a1 a2]
  ultimately show ?thesis
    using assms(2) m by (auto simp: add_map_xapps_sad_def fresh_for_def xapp_table_rep_def bm_same_def)
qed

text \<open>The address of an xApp that is added under a new number and a new address is found
  by its number, and the number by the address; the other xApps stay.\<close>
theorem map_xapps_sad_roundtrip:
  assumes "xapp_table_rep m P" "fresh_for m a1 a2" "\<forall>(x, s) \<in># P. xid \<noteq> x \<and> cmp_sctp_info info s \<noteq> 0"
  shows "\<exists>m'. add_map_xapps_sad a1 a2 m xid info = Some m' \<and> xapp_table_rep m' (add_mset (xid, info) P) \<and>
    find_map_xapps_sad m' xid = Some info \<and> find_map_xapps_xid m' info = Some xid"
proof -
  obtain m' where m': "add_map_xapps_sad a1 a2 m xid info = Some m'" "xapp_table_rep m' (add_mset (xid, info) P)"
    using xapp_table_add[OF assms] by blast
  moreover have "find_map_xapps_sad m' xid = Some info" by (rule find_map_xapps_sad_rep[OF m'(2)]) simp
  moreover have "find_map_xapps_xid m' info = Some xid" by (rule find_map_xapps_xid_rep[OF m'(2), of _ info]) simp_all
  ultimately show ?thesis by blast
qed

definition ex_sri :: sctp_sndrcvinfo where
  "ex_sri = \<lparr>sinfo_stream = 0, sinfo_ssn = 0, sinfo_flags = 0, sinfo_ppid = 0, sinfo_context = 0,
     sinfo_timetolive = 0, sinfo_tsn = 0, sinfo_cumtsn = 0, sinfo_assoc_id = 0\<rparr>"

definition ex_addr :: "uint16 \<Rightarrow> sctp_info" where
  "ex_addr port = \<lparr>si_addr = \<lparr>sin_family = 2, sin_port = port, s_addr = 1\<rparr>, si_sri = ex_sri\<rparr>"

lemma cmp_ex_addr: "cmp_sctp_info (ex_addr a) (ex_addr b) = (if a < b then 1 else if b < a then - 1 else 0)"
  by (simp add: cmp_sctp_info_order cmp_sockaddr_in_def ex_addr_def)

definition ex_xapp_table :: map_xapps_sockaddr where
  "ex_xapp_table = one_pair (\<lambda>a b. Some (cmp_uint16_wrapper a b))
     (\<lambda>a b. Some (cmp_sctp_info_wrapper (Some a) (Some b))) 2 48 7 (ex_addr 100)"

lemma ex_xapp_table_rep: "xapp_table_rep ex_xapp_table {#(7, ex_addr 100)#}"
  unfolding xapp_table_rep_def ex_xapp_table_def
  by (intro conjI one_pair_rep) (simp_all add: one_pair_sel cmp_sctp_info_wrapper_Some)

theorem map_xapps_sad_roundtrip_witness:
  "\<exists>m'. add_map_xapps_sad 4 4 ex_xapp_table 8 (ex_addr 200) = Some m' \<and>
     find_map_xapps_sad m' 8 = Some (ex_addr 200) \<and> find_map_xapps_xid m' (ex_addr 200) = Some 8"
proof -
  have "fresh_for ex_xapp_table 4 4" by (simp add: ex_xapp_table_def one_pair_sel)
  from map_xapps_sad_roundtrip[OF ex_xapp_table_rep this, of 8 "ex_addr 200"] show ?thesis
    by (auto simp: cmp_ex_addr)
qed

section \<open>The addresses of the E2 nodes\<close>

lemma cp_global_e2_node_id_id: "cp_global_e2_node_id n = n"
  by (cases n; cases "plmn n") (auto simp: cp_global_e2_node_id_def cp_e2ap_plmn_def split: option.split)

lemma node_table_add:
  assumes "node_table_rep m P" "fresh_for m a1 a2" "has_cu_du_id nid"
    and "\<forall>(n, t) \<in># P. order_e2_node nid n \<noteq> 0 \<and> cmp_sctp_info s t \<noteq> 0"
  shows "\<exists>m'. add_map_e2_node_sad a1 a2 m nid s = Some m' \<and> node_table_rep m' (add_mset (nid, s) P)"
proof -
  have m: "bm_rep has_cu_du_id order_e2_node (\<lambda>_. True) cmp_sctp_info m P"
    "key_sz (left_tree m) = 32" "key_sz (right_tree m) = 48" "has_free_func (right_tree m)"
    using assms(1) by (simp_all add: node_table_rep_def)
  from node_table.insert_bm_rep[OF m(1) assms(3) TrueI assms(4) m(2,3), of a1 a2] show ?thesis
    using assms(2) m
    by (auto simp: add_map_e2_node_sad_def cp_global_e2_node_id_id fresh_for_def node_table_rep_def bm_same_def)
qed

lemma node_table_rm:
  assumes "node_table_rep m P" "(nid, s) \<in># P" "cmp_sctp_info t s = 0"
  shows "\<exists>m'. rm_map_sad_e2_node m t = Some (nid, m') \<and> node_table_rep m' (P - {#(nid, s)#})"
proof -
  have m: "bm_rep has_cu_du_id order_e2_node (\<lambda>_. True) cmp_sctp_info m P"
    "key_sz (right_tree m) = 48" "has_free_func (right_tree m)"
    using assms(1) by (simp_all add: node_table_rep_def)
  from node_table.extract_right_bm_rep[OF m(1) TrueI m(2) assms(2,3) m(3)] show ?thesis
    using assms(1) by (auto simp: rm_map_sad_e2_node_def node_table_rep_def bm_same_def)
qed

text \<open>The search for the address of a node, when no other node compares equal to it.\<close>
lemma node_table_find:
  assumes "node_table_rep m P" "(nid, s) \<in># P" "eq_global_e2_node_id q nid = Some True"
    and "\<forall>(n, t) \<in># P. eq_global_e2_node_id q n = Some (n = nid)"
  shows "find_map_e2_node_sad m q = Some s"
proof -
  have m: "bm_rep has_cu_du_id order_e2_node (\<lambda>_. True) cmp_sctp_info m P"
    using assms(1) by (simp add: node_table_rep_def)
  have u: "\<forall>(a, b) \<in># P. a = nid \<longrightarrow> b = s"
  proof clarify
    fix b assume ab: "(nid, b) \<in># P"
    have "order_e2_node nid nid = 0" by simp
    from bm_rep_left_unique[OF m e2_node.comparator_axioms assms(2) ab this] show "b = s" by simp
  qed
  obtain it where "find_all_rb_tree (left_tree m) q eq_global_e2_node_id = Some it" "it \<noteq> assoc_rb_tree_end (left_tree m)"
    "assoc_rb_tree_value (left_tree m) it = Some (Some s)"
    using find_value_left[where f = eq_global_e2_node_id and q = q and p = "\<lambda>n. n = nid", OF m assms(4,2) refl u] .
  then show ?thesis by (simp add: find_map_e2_node_sad_def)
qed

text \<open>The search aborts when no node compares equal.\<close>
lemma node_table_find_none:
  assumes "node_table_rep m P" "\<forall>(n, t) \<in># P. eq_global_e2_node_id q n = Some False"
  shows "find_map_e2_node_sad m q = None"
proof -
  have m: "bm_rep has_cu_du_id order_e2_node (\<lambda>_. True) cmp_sctp_info m P"
    using assms(1) by (simp add: node_table_rep_def)
  have "find_all_rb_tree (left_tree m) q eq_global_e2_node_id = Some (assoc_rb_tree_end (left_tree m))"
    by (rule find_none_left[where p = "\<lambda>_. False", OF m]) (use assms(2) in auto)
  then show ?thesis by (simp add: find_map_e2_node_sad_def)
qed

text \<open>An E2 node that is added under a new identifier and a new address is removed again by its
  address: the identifier comes back and the table is as before.\<close>
theorem map_e2_node_sad_roundtrip:
  assumes "node_table_rep m P" "fresh_for m a1 a2" "has_cu_du_id nid"
    and "\<forall>(n, t) \<in># P. order_e2_node nid n \<noteq> 0 \<and> cmp_sctp_info s t \<noteq> 0"
  shows "\<exists>m' m''. add_map_e2_node_sad a1 a2 m nid s = Some m' \<and> node_table_rep m' (add_mset (nid, s) P) \<and>
    rm_map_sad_e2_node m' s = Some (nid, m'') \<and> node_table_rep m'' P"
proof -
  obtain m' where m': "add_map_e2_node_sad a1 a2 m nid s = Some m'" "node_table_rep m' (add_mset (nid, s) P)"
    using node_table_add[OF assms] by blast
  have "(nid, s) \<in># add_mset (nid, s) P" "cmp_sctp_info s s = 0" by simp_all
  from node_table_rm[OF m'(2) this] m' show ?thesis by auto
qed

definition ex_gnb :: "uint32 \<Rightarrow> global_e2_node_id" where
  "ex_gnb n = \<lparr>node_type = ngran_gNB, plmn = \<lparr>mcc = 505, mnc = 1, mnc_digit_len = 2\<rparr>,
     g_nb_id = \<lparr>nb_id = n, unused = 0\<rparr>, cu_du_id = None\<rparr>"

definition ex_node_table :: map_e2_node_sockaddr where
  "ex_node_table = one_pair cmp_global_e2_node_id
     (\<lambda>a b. Some (cmp_sctp_info_wrapper (Some a) (Some b))) 32 48 (ex_gnb 1) (ex_addr 100)"

lemma ex_gnb_valid: "has_cu_du_id (ex_gnb n)"
  by (simp add: has_cu_du_id_def ex_gnb_def NODE_IS_CU_def NODE_IS_CUUP_def NODE_IS_DU_def)

lemma ex_node_table_rep: "node_table_rep ex_node_table {#(ex_gnb 1, ex_addr 100)#}"
  unfolding node_table_rep_def ex_node_table_def
  by (intro conjI one_pair_rep) (simp_all add: one_pair_sel cmp_sctp_info_wrapper_Some cmp_global_e2_node_id_order ex_gnb_valid)

theorem map_e2_node_sad_roundtrip_witness:
  "\<exists>m' m''. add_map_e2_node_sad 4 4 ex_node_table (ex_gnb 2) (ex_addr 200) = Some m' \<and>
     rm_map_sad_e2_node m' (ex_addr 200) = Some (ex_gnb 2, m'') \<and> node_table_rep m'' {#(ex_gnb 1, ex_addr 100)#}"
proof -
  have "order_e2_node (ex_gnb 2) (ex_gnb 1) \<noteq> 0" by (simp add: order_e2_node_def ex_gnb_def)
  moreover have "fresh_for ex_node_table 4 4" by (simp add: ex_node_table_def one_pair_sel)
  ultimately show ?thesis
    using map_e2_node_sad_roundtrip[OF ex_node_table_rep _ ex_gnb_valid, of 4 4 2 "ex_addr 200"]
    by (auto simp: cmp_ex_addr)
qed

text \<open>The search for the address of a node does not compare the identifier of a central unit,
  which the order of the table does compare: of two central units with the same
  PLMN and number it finds the one with the greater identifier, whichever is asked for.\<close>
theorem find_map_e2_node_sad_confuses_cu:
  assumes "node_table_rep m {#(n1, s1), (n2, s2)#}" "node_type n1 = ngran_gNB_CU"
    and "n2 = n1\<lparr>cu_du_id := Some j\<rparr>" "cu_du_id n1 = Some i" "i < j"
  shows "find_map_e2_node_sad m n1 = Some s2"
proof -
  obtain es where r: "rb_rep has_cu_du_id order_e2_node (left_tree m) es"
    "mset (map snd es) = {#(n1, s1), (n2, s2)#}"
    using assms(1) by (auto simp: node_table_rep_def bm_rep_def)
  have "length es = size (mset (map snd es))" by simp
  then have "length es = Suc (Suc 0)" unfolding r(2) by simp
  then obtain e1 e2 where es: "es = [e1, e2]" by (auto simp: length_Suc_conv)
  have "order_e2_node (entry_key e2) (entry_key e1) \<noteq> 1" using r(1) es by (simp add: rb_rep_def ordered_def)
  moreover have "order_e2_node n2 n1 = 1"
    using assms(2-5) by (simp add: order_e2_node_def order_plmn_def lex_on lex_rev rev_on distributed_id_def NODE_IS_CU_def cmp_lex_def)
  moreover have "{#snd e1, snd e2#} = {#(n1, s1), (n2, s2)#}" using r(2) es by simp
  then have "snd e1 = (n1, s1) \<and> snd e2 = (n2, s2) \<or> snd e1 = (n2, s2) \<and> snd e2 = (n1, s1)"
    by (auto simp: add_eq_conv_ex)
  ultimately have e1: "snd e1 = (n2, s2)" "snd e2 = (n1, s1)" by (auto simp: entry_key_def)
  have f: "eq_global_e2_node_id n1 n2 = Some True" "eq_global_e2_node_id n1 n1 = Some True"
    using assms(2,3) by (simp_all add: eq_global_e2_node_id_def eq_e2ap_plmn_def eq_e2ap_gnb_id_def NODE_IS_CUUP_def NODE_IS_DU_def)
  have "eq_global_e2_node_id n1 (entry_key e) = Some True" if "e \<in> set es" for e
    using that es e1 f by (auto simp: entry_key_def)
  from find_all_rep[OF r(1), where q = n1 and f = eq_global_e2_node_id and p = "\<lambda>_. True", OF this]
  have "find_all_rb_tree (left_tree m) n1 eq_global_e2_node_id = Some (fst e1)" using es by simp
  moreover have "es = [] @ (fst e1, n2, s2) # [e2]" using es e1 by (simp add: prod_eq_iff)
  then have "rb_rep has_cu_du_id order_e2_node (left_tree m) ([] @ (fst e1, n2, s2) # [e2])" using r(1) by simp
  note access_rep[OF this]
  ultimately show ?thesis by (simp add: find_map_e2_node_sad_def assoc_rb_tree_end_def)
qed

definition ex_cu :: "uint64 \<Rightarrow> global_e2_node_id" where
  "ex_cu i = (ex_gnb 1)\<lparr>node_type := ngran_gNB_CU, cu_du_id := Some i\<rparr>"

definition ex_cu_table :: map_e2_node_sockaddr where
  "ex_cu_table = \<lparr>left_tree = two_nodes cmp_global_e2_node_id 32 (ex_cu 6) (ex_addr 200) (ex_cu 5) (ex_addr 100),
     right_tree = two_nodes (\<lambda>a b. Some (cmp_sctp_info_wrapper (Some a) (Some b))) 48
       (ex_addr 100) (ex_cu 5) (ex_addr 200) (ex_cu 6)\<rparr>"

lemma ex_cu_order: "order_e2_node (ex_cu 5) (ex_cu 6) = - 1"
  by (simp add: order_e2_node_def order_plmn_def lex_on lex_rev rev_on distributed_id_def NODE_IS_CU_def cmp_lex_def
      ex_cu_def ex_gnb_def)

lemma ex_cu_table_rep: "node_table_rep ex_cu_table {#(ex_cu 5, ex_addr 100), (ex_cu 6, ex_addr 200)#}"
proof -
  have v: "has_cu_du_id (ex_cu i)" for i by (simp add: has_cu_du_id_def ex_cu_def)
  have o: "order_e2_node (ex_cu 5) (ex_cu 6) = - 1" "order_e2_node (ex_cu 6) (ex_cu 5) = 1"
    using ex_cu_order e2_node.cmp_swap[of "ex_cu 6" "ex_cu 5"] by simp_all
  have "rb_rep has_cu_du_id order_e2_node (left_tree ex_cu_table) [(2, ex_cu 6, ex_addr 200), (3, ex_cu 5, ex_addr 100)]"
    unfolding ex_cu_table_def bi_map.simps
    by (rule two_nodes_rep) (simp_all add: cmp_global_e2_node_id_order v o)
  moreover have "rb_rep (\<lambda>_. True) cmp_sctp_info (right_tree ex_cu_table) [(2, ex_addr 100, ex_cu 5), (3, ex_addr 200, ex_cu 6)]"
    unfolding ex_cu_table_def bi_map.simps
    by (rule two_nodes_rep) (simp_all add: cmp_sctp_info_wrapper_Some cmp_ex_addr)
  moreover have "uniq order_e2_node [(2, ex_cu 6, ex_addr 200), (3, ex_cu 5, ex_addr 100)]"
    "uniq cmp_sctp_info [(2, ex_addr 100, ex_cu 5), (3, ex_addr 200, ex_cu 6)]"
    by (simp_all add: uniq_def o cmp_ex_addr)
  ultimately have "bm_rep has_cu_du_id order_e2_node (\<lambda>_. True) cmp_sctp_info ex_cu_table
      {#(ex_cu 5, ex_addr 100), (ex_cu 6, ex_addr 200)#}"
    unfolding bm_rep_def
    by (intro exI[of _ "[(2, ex_cu 6, ex_addr 200), (3, ex_cu 5, ex_addr 100)]"]
        exI[of _ "[(2, ex_addr 100, ex_cu 5), (3, ex_addr 200, ex_cu 6)]"]) (simp add: add_mset_commute)
  then show ?thesis by (simp add: node_table_rep_def ex_cu_table_def two_nodes_def)
qed

theorem find_map_e2_node_sad_confuses_cu_witness: "find_map_e2_node_sad ex_cu_table (ex_cu 5) = Some (ex_addr 200)"
  by (rule find_map_e2_node_sad_confuses_cu[OF ex_cu_table_rep, of 6 5]) (simp_all add: ex_cu_def)

end
