(* ===== verification/E2ap_Types.thy ===== *)
theory E2ap_Types
  imports Identifiers
begin

text \<open>
  The messages of the E2AP protocol that the controller, the iApp and the xApps exchange, version
  2.03: src/lib/e2ap/v2_03/e2ap_types/ (the structures, their comparisons and their copies) and
  src/lib/e2ap/v2_03/type_defs.h (the message types).

  An array with its length is a list, an optional pointer is an option.  The comparisons and the copies
  take pointers to two different structures; reading through a null pointer, and a failed
  assertion, are \<^term>\<open>None\<close>.
\<close>

section \<open>Byte arrays: src/util/byte_array.c\<close>

type_synonym byte_array = "byte list"

definition copy_byte_array :: "byte_array \<Rightarrow> byte_array" where
  "copy_byte_array src = take (length src) src"

text \<open>The comparison of two pointers; the first test is for the same pointer, here the null one.\<close>
fun eq_byte_array :: "byte_array option \<Rightarrow> byte_array option \<Rightarrow> bool" where
  "eq_byte_array None None = True"
| "eq_byte_array None (Some b) = False"
| "eq_byte_array (Some a) None = False"
| "eq_byte_array (Some a) (Some b) = (if length a \<noteq> length b then False else list_all2 (=) a b)"

section \<open>Loops\<close>

text \<open>The comparison loop over two arrays of the same length.\<close>
fun eq_loop :: "('a \<Rightarrow> 'a \<Rightarrow> bool option) \<Rightarrow> 'a list \<Rightarrow> 'a list \<Rightarrow> bool option" where
  "eq_loop f [] ys = Some True"
| "eq_loop f (x # xs) [] = None"
| "eq_loop f (x # xs) (y # ys) = do { b \<leftarrow> f x y; if b = False then Some False else eq_loop f xs ys }"

text \<open>The loop that copies the elements of an array.\<close>
fun cp_loop :: "('a \<Rightarrow> 'b option) \<Rightarrow> 'a list \<Rightarrow> 'b list option" where
  "cp_loop f [] = Some []"
| "cp_loop f (x # xs) = do { y \<leftarrow> f x; ys \<leftarrow> cp_loop f xs; Some (y # ys) }"

section \<open>Parts of messages\<close>

datatype cause = CAUSE_NOTHING uint32 | CAUSE_RICREQUEST uint32 | CAUSE_RICSERVICE uint32 | CAUSE_E2NODE uint32
  | CAUSE_TRANSPORT uint32 | CAUSE_PROTOCOL uint32 | CAUSE_MISC uint32

text \<open>All members of the union have four bytes: the comparison of the bytes is that of the values.\<close>
definition eq_cause :: "cause \<Rightarrow> cause \<Rightarrow> bool" where
  "eq_cause m0 m1 \<longleftrightarrow> m0 = m1"

definition cp_cause :: "cause \<Rightarrow> cause" where
  "cp_cause src = src"

datatype ric_subseq_action_type = RIC_SUBS_REQ_CONTINUE | RIC_SUBS_REQ_HALT

record ric_subsequent_action =
  sub_type :: ric_subseq_action_type
  time_to_wait_ms :: "uint32 option"

text \<open>The second pointer that is dereferenced is not tested: the test is on the structure it is in.\<close>
definition eq_ric_subsequent_action :: "ric_subsequent_action option \<Rightarrow> ric_subsequent_action option \<Rightarrow> bool option" where
  "eq_ric_subsequent_action p0 p1 = (case (p0, p1) of
       (None, None) \<Rightarrow> Some True
     | (None, Some _) \<Rightarrow> Some False
     | (Some _, None) \<Rightarrow> Some False
     | (Some m0, Some m1) \<Rightarrow>
         if sub_type m0 \<noteq> sub_type m1 then Some False
         else (case time_to_wait_ms m0 of
             None \<Rightarrow> (case time_to_wait_ms m1 of None \<Rightarrow> Some True | Some _ \<Rightarrow> Some False)
           | Some t0 \<Rightarrow> do { t1 \<leftarrow> time_to_wait_ms m1; if t0 \<noteq> t1 then Some False else Some True }))"

datatype ric_action_type = RIC_ACT_REPORT | RIC_ACT_INSERT | RIC_ACT_POLICY

record ric_action =
  act_id :: uint8
  act_type :: ric_action_type
  act_definition :: "byte_array option"
  subseq_action :: "ric_subsequent_action option"

definition eq_ric_action :: "ric_action \<Rightarrow> ric_action \<Rightarrow> bool option" where
  "eq_ric_action m0 m1 =
     (if act_id m0 \<noteq> act_id m1 then Some False
      else if act_type m0 \<noteq> act_type m1 then Some False
      else if eq_byte_array (act_definition m0) (act_definition m1) = False then Some False
      else do {
        b \<leftarrow> eq_ric_subsequent_action (subseq_action m0) (subseq_action m1);
        if b = False then Some False else Some True
      })"

record ric_action_admitted =
  ric_act_id :: uint8

definition eq_ric_action_admitted :: "ric_action_admitted \<Rightarrow> ric_action_admitted \<Rightarrow> bool option" where
  "eq_ric_action_admitted m0 m1 = (if ric_act_id m0 \<noteq> ric_act_id m1 then Some False else Some True)"

definition cp_ric_action_admitted :: "ric_action_admitted \<Rightarrow> ric_action_admitted option" where
  "cp_ric_action_admitted src = Some \<lparr>ric_act_id = ric_act_id src\<rparr>"

record ric_action_not_admitted =
  na_ric_act_id :: uint8
  na_cause :: cause

definition eq_ric_action_not_admitted :: "ric_action_not_admitted \<Rightarrow> ric_action_not_admitted \<Rightarrow> bool option" where
  "eq_ric_action_not_admitted m0 m1 =
     (if na_ric_act_id m0 \<noteq> na_ric_act_id m1 then Some False
      else if eq_cause (na_cause m0) (na_cause m1) = False then Some False
      else Some True)"

definition cp_ric_action_not_admitted :: "ric_action_not_admitted \<Rightarrow> ric_action_not_admitted option" where
  "cp_ric_action_not_admitted src = Some \<lparr>na_ric_act_id = na_ric_act_id src, na_cause = cp_cause (na_cause src)\<rparr>"

record ran_function =
  rf_defn :: byte_array
  rf_id :: uint16
  rf_rev :: uint16
  rf_oid :: byte_array

definition cp_ran_function :: "ran_function \<Rightarrow> ran_function option" where
  "cp_ran_function src = Some
     \<lparr>rf_defn = copy_byte_array (rf_defn src), rf_id = rf_id src, rf_rev = rf_rev src,
      rf_oid = copy_byte_array (rf_oid src)\<rparr>"

definition eq_ran_function :: "ran_function \<Rightarrow> ran_function \<Rightarrow> bool option" where
  "eq_ran_function m0 m1 =
     (if eq_byte_array (Some (rf_defn m0)) (Some (rf_defn m1)) = False then Some False
      else if rf_id m0 \<noteq> rf_id m1 then Some False
      else if rf_rev m0 \<noteq> rf_rev m1 then Some False
      else if eq_byte_array (Some (rf_oid m0)) (Some (rf_oid m1)) = False then Some False
      else Some True)"

definition cmp_ran_function :: "ran_function \<Rightarrow> ran_function \<Rightarrow> int" where
  "cmp_ran_function m0 m1 = (if rf_id m0 < rf_id m1 then - 1 else if rf_id m0 = rf_id m1 then 0 else 1)"

text \<open>The type of the interface; the first field of the identifier of a component and of its configuration.\<close>
datatype e2ap_node_comp_interface_type = NG_E2AP | XN_E2AP | E1_E2AP | F1_E2AP | W1_E2AP | S1_E2AP | X2_E2AP | END_E2AP

text \<open>The tagged union; the members of the tags that no operation supports are left out.\<close>
datatype e2ap_node_comp_id = NG_COMP_ID byte_array | E1_COMP_ID uint64 | F1_COMP_ID uint64 | S1_COMP_ID byte_array
  | UNSUPPORTED_COMP_ID e2ap_node_comp_interface_type

fun supported_type :: "e2ap_node_comp_id \<Rightarrow> bool" where
  "supported_type (UNSUPPORTED_COMP_ID t) = False"
| "supported_type _ = True"

definition cp_e2ap_node_comp_id :: "e2ap_node_comp_id \<Rightarrow> e2ap_node_comp_id option" where
  "cp_e2ap_node_comp_id src = do {
     c_assert (supported_type src);
     (case src of
         NG_COMP_ID s \<Rightarrow> Some (NG_COMP_ID (copy_byte_array s))
       | F1_COMP_ID d \<Rightarrow> do { c_assert (d < 2 ^ 36); Some (F1_COMP_ID d) }
       | E1_COMP_ID d \<Rightarrow> Some (E1_COMP_ID d)
       | S1_COMP_ID s \<Rightarrow> Some (S1_COMP_ID (copy_byte_array s))
       | _ \<Rightarrow> None)
   }"

definition eq_e2ap_node_comp_id :: "e2ap_node_comp_id \<Rightarrow> e2ap_node_comp_id \<Rightarrow> bool option" where
  "eq_e2ap_node_comp_id m0 m1 = do {
     c_assert (supported_type m0);
     c_assert (supported_type m1);
     (case (m0, m1) of
         (NG_COMP_ID a, NG_COMP_ID b) \<Rightarrow> Some (eq_byte_array (Some a) (Some b))
       | (F1_COMP_ID a, F1_COMP_ID b) \<Rightarrow> do { c_assert (a < 2 ^ 36); c_assert (b < 2 ^ 36); Some (a = b) }
       | (E1_COMP_ID a, E1_COMP_ID b) \<Rightarrow> do { c_assert (a < 2 ^ 36); c_assert (b < 2 ^ 36); Some (a = b) }
       | (S1_COMP_ID a, S1_COMP_ID b) \<Rightarrow> Some (eq_byte_array (Some a) (Some b))
       | _ \<Rightarrow> Some False)
   }"

record e2ap_node_comp_conf =
  conf_request :: byte_array
  conf_response :: byte_array

definition eq_e2ap_node_comp_conf :: "e2ap_node_comp_conf \<Rightarrow> e2ap_node_comp_conf \<Rightarrow> bool" where
  "eq_e2ap_node_comp_conf m0 m1 =
     (if eq_byte_array (Some (conf_request m0)) (Some (conf_request m1)) = False then False
      else if eq_byte_array (Some (conf_response m0)) (Some (conf_response m1)) = False then False
      else True)"

definition cp_e2ap_node_comp_conf :: "e2ap_node_comp_conf \<Rightarrow> e2ap_node_comp_conf" where
  "cp_e2ap_node_comp_conf src =
     \<lparr>conf_request = copy_byte_array (conf_request src), conf_response = copy_byte_array (conf_response src)\<rparr>"

record e2ap_node_component_config_add =
  cca_interface_type :: e2ap_node_comp_interface_type
  cca_comp_id :: e2ap_node_comp_id
  cca_comp_conf :: e2ap_node_comp_conf

definition cp_e2ap_node_component_config_add ::
  "e2ap_node_component_config_add \<Rightarrow> e2ap_node_component_config_add option"
where
  "cp_e2ap_node_component_config_add src = do {
     i \<leftarrow> cp_e2ap_node_comp_id (cca_comp_id src);
     Some \<lparr>cca_interface_type = cca_interface_type src, cca_comp_id = i,
           cca_comp_conf = cp_e2ap_node_comp_conf (cca_comp_conf src)\<rparr>
   }"

definition eq_e2ap_node_component_config_add ::
  "e2ap_node_component_config_add \<Rightarrow> e2ap_node_component_config_add \<Rightarrow> bool option"
where
  "eq_e2ap_node_component_config_add m0 m1 =
     (if cca_interface_type m0 \<noteq> cca_interface_type m1 then Some False
      else do {
        b \<leftarrow> eq_e2ap_node_comp_id (cca_comp_id m0) (cca_comp_id m1);
        if b = False then Some False
        else if eq_e2ap_node_comp_conf (cca_comp_conf m0) (cca_comp_conf m1) = False then Some False
        else Some True
      })"

datatype outcome_comp_conf_ack = SUCCESS_E2AP_NODE_COMP_CONF_ACK | FAILURE_E2AP_NODE_COMP_CONF_ACK

record e2ap_node_comp_conf_ack =
  ack_outcome :: outcome_comp_conf_ack
  ack_cause :: "cause option"

definition eq_e2ap_node_comp_conf_ack :: "e2ap_node_comp_conf_ack \<Rightarrow> e2ap_node_comp_conf_ack \<Rightarrow> bool option" where
  "eq_e2ap_node_comp_conf_ack m0 m1 =
     (if ack_outcome m0 \<noteq> ack_outcome m1 then Some False
      else do { c_assert (ack_cause m0 = None); c_assert (ack_cause m1 = None); Some True })"

record e2ap_node_comp_config_add_ack =
  caa_interface_type :: e2ap_node_comp_interface_type
  caa_comp_id :: e2ap_node_comp_id
  caa_ack :: e2ap_node_comp_conf_ack

definition eq_e2ap_node_component_config_add_ack ::
  "e2ap_node_comp_config_add_ack \<Rightarrow> e2ap_node_comp_config_add_ack \<Rightarrow> bool option"
where
  "eq_e2ap_node_component_config_add_ack m0 m1 = do {
     c_assert (caa_interface_type m0 \<noteq> END_E2AP);
     c_assert (caa_interface_type m1 \<noteq> END_E2AP);
     if caa_interface_type m0 \<noteq> caa_interface_type m1 then Some False
     else do {
       b \<leftarrow> eq_e2ap_node_comp_id (caa_comp_id m0) (caa_comp_id m1);
       if b = False then Some False
       else do {
         b \<leftarrow> eq_e2ap_node_comp_conf_ack (caa_ack m0) (caa_ack m1);
         if b = False then Some False else Some True
       }
     }
   }"

record global_ric_id =
  ric_plmn :: e2ap_plmn
  near_ric_id :: uint32

definition eq_global_ric_id :: "global_ric_id \<Rightarrow> global_ric_id \<Rightarrow> bool" where
  "eq_global_ric_id m0 m1 =
     (if eq_e2ap_plmn (ric_plmn m0) (ric_plmn m1) = False then False
      else if near_ric_id m0 \<noteq> near_ric_id m1 then False
      else True)"

record rejected_ran_function =
  rej_id :: uint16
  rej_cause :: cause

definition eq_rejected_ran_function :: "rejected_ran_function \<Rightarrow> rejected_ran_function \<Rightarrow> bool option" where
  "eq_rejected_ran_function m0 m1 =
     (if rej_id m0 \<noteq> rej_id m1 then Some False
      else if eq_cause (rej_cause m0) (rej_cause m1) = False then Some False
      else Some True)"

end
