(* ===== verification/E2ap_Msg.thy ===== *)
theory E2ap_Msg
  imports E2ap_Types
begin

text \<open>
  The messages: src/lib/e2ap/v2_03/e2ap_types/*.c, and the union of all of them in
  src/lib/e2ap/v2_03/type_defs.h.  The messages that the code only rejects carry no payload here.
\<close>

section \<open>Functional procedures\<close>

record ric_subscription_request =
  sr_ric_id :: ric_gen_id
  sr_event_trigger :: byte_array
  sr_action :: "ric_action list"

definition eq_ric_subscritption_request :: "ric_subscription_request \<Rightarrow> ric_subscription_request \<Rightarrow> bool option" where
  "eq_ric_subscritption_request m0 m1 =
     (if eq_ric_gen_id (sr_ric_id m0) (sr_ric_id m1) = False then Some False
      else if eq_byte_array (Some (sr_event_trigger m0)) (Some (sr_event_trigger m1)) = False then Some False
      else if length (sr_action m0) \<noteq> length (sr_action m1) then Some False
      else eq_loop eq_ric_action (sr_action m0) (sr_action m1))"

record ric_subscription_response =
  rs_ric_id :: ric_gen_id
  rs_admitted :: "ric_action_admitted list"
  rs_not_admitted :: "ric_action_not_admitted list"

definition eq_ric_subscritption_response ::
  "ric_subscription_response \<Rightarrow> ric_subscription_response \<Rightarrow> bool option"
where
  "eq_ric_subscritption_response m0 m1 =
     (if eq_ric_gen_id (rs_ric_id m0) (rs_ric_id m1) = False then Some False
      else if length (rs_admitted m0) \<noteq> length (rs_admitted m1) then Some False
      else do {
        b \<leftarrow> eq_loop eq_ric_action_admitted (rs_admitted m0) (rs_admitted m1);
        if b = False then Some False
        else if length (rs_not_admitted m0) \<noteq> length (rs_not_admitted m1) then Some False
        else eq_loop eq_ric_action_not_admitted (rs_not_admitted m0) (rs_not_admitted m1)
      })"

definition cp_ric_subscription_respponse :: "ric_subscription_response \<Rightarrow> ric_subscription_response option" where
  "cp_ric_subscription_respponse src = do {
     as \<leftarrow> cp_loop cp_ric_action_admitted (rs_admitted src);
     ns \<leftarrow> cp_loop cp_ric_action_not_admitted (rs_not_admitted src);
     Some \<lparr>rs_ric_id = rs_ric_id src, rs_admitted = as, rs_not_admitted = ns\<rparr>
   }"

text \<open>The moved message; the source is zeroed.\<close>
definition mv_ric_subscription_respponse :: "ric_subscription_response \<Rightarrow> ric_subscription_response" where
  "mv_ric_subscription_respponse src =
     \<lparr>rs_ric_id = rs_ric_id src, rs_admitted = rs_admitted src, rs_not_admitted = rs_not_admitted src\<rparr>"

record ric_subscription_delete_request =
  sdr_ric_id :: ric_gen_id

definition eq_ric_subscription_delete_request ::
  "ric_subscription_delete_request \<Rightarrow> ric_subscription_delete_request \<Rightarrow> bool"
where
  "eq_ric_subscription_delete_request m0 m1 =
     (if eq_ric_gen_id (sdr_ric_id m0) (sdr_ric_id m1) = False then False else True)"

definition cp_ric_subscription_delete_request ::
  "ric_subscription_delete_request \<Rightarrow> ric_subscription_delete_request"
where
  "cp_ric_subscription_delete_request src = \<lparr>sdr_ric_id = sdr_ric_id src\<rparr>"

record ric_subscription_delete_response =
  sdp_ric_id :: ric_gen_id

definition eq_ric_subscription_delete_response ::
  "ric_subscription_delete_response \<Rightarrow> ric_subscription_delete_response \<Rightarrow> bool"
where
  "eq_ric_subscription_delete_response m0 m1 =
     (if eq_ric_gen_id (sdp_ric_id m0) (sdp_ric_id m1) = False then False else True)"

datatype ric_indication_type = RIC_IND_REPORT | RIC_IND_INSERT

record ric_indication =
  ind_ric_id :: ric_gen_id
  ind_action_id :: uint8
  ind_sn :: "uint16 option"
  ind_type :: ric_indication_type
  ind_hdr :: byte_array
  ind_msg :: byte_array
  ind_call_process_id :: "byte_array option"

definition eq_sn :: "uint16 option \<Rightarrow> uint16 option \<Rightarrow> bool" where
  "eq_sn m0 m1 = (case (m0, m1) of
       (None, None) \<Rightarrow> True
     | (None, Some _) \<Rightarrow> False
     | (Some _, None) \<Rightarrow> False
     | (Some a, Some b) \<Rightarrow> if a \<noteq> b then False else True)"

definition eq_ric_indication :: "ric_indication \<Rightarrow> ric_indication \<Rightarrow> bool" where
  "eq_ric_indication m0 m1 =
     (if eq_ric_gen_id (ind_ric_id m0) (ind_ric_id m1) = False then False
      else if ind_action_id m0 \<noteq> ind_action_id m1 then False
      else if eq_sn (ind_sn m0) (ind_sn m1) = False then False
      else if ind_type m0 \<noteq> ind_type m1 then False
      else if eq_byte_array (Some (ind_hdr m0)) (Some (ind_hdr m1)) = False then False
      else if eq_byte_array (Some (ind_msg m0)) (Some (ind_msg m1)) = False then False
      else if eq_byte_array (ind_call_process_id m0) (ind_call_process_id m1) = False then False
      else True)"

definition mv_ric_indication :: "ric_indication \<Rightarrow> ric_indication" where
  "mv_ric_indication src =
     \<lparr>ind_ric_id = ind_ric_id src, ind_action_id = ind_action_id src, ind_sn = ind_sn src,
      ind_type = ind_type src, ind_hdr = ind_hdr src, ind_msg = ind_msg src,
      ind_call_process_id = ind_call_process_id src\<rparr>"

datatype ric_control_ack_req = RIC_CONTROL_REQUEST_NO_ACK | RIC_CONTROL_REQUEST_ACK | RIC_CONTROL_REQUEST_NACK

record ric_control_request =
  cr_ric_id :: ric_gen_id
  cr_call_process_id :: "byte_array option"
  cr_hdr :: byte_array
  cr_msg :: byte_array
  cr_ack_req :: "ric_control_ack_req option"

text \<open>The static function of the same name as the comparison of the acknowledgements below.\<close>
definition eq_ack_req :: "ric_control_ack_req option \<Rightarrow> ric_control_ack_req option \<Rightarrow> bool" where
  "eq_ack_req m0 m1 = (case (m0, m1) of
       (None, None) \<Rightarrow> True
     | (None, Some _) \<Rightarrow> False
     | (Some _, None) \<Rightarrow> False
     | (Some a, Some b) \<Rightarrow> if a \<noteq> b then False else True)"

definition eq_ric_control_request :: "ric_control_request \<Rightarrow> ric_control_request \<Rightarrow> bool" where
  "eq_ric_control_request m0 m1 =
     (if eq_ric_gen_id (cr_ric_id m0) (cr_ric_id m1) = False then False
      else if eq_byte_array (cr_call_process_id m0) (cr_call_process_id m1) = False then False
      else if eq_byte_array (Some (cr_hdr m0)) (Some (cr_hdr m1)) = False then False
      else if eq_byte_array (Some (cr_msg m0)) (Some (cr_msg m1)) = False then False
      else if eq_ack_req (cr_ack_req m0) (cr_ack_req m1) = False then False
      else True)"

record ric_control_acknowledge =
  ca_ric_id :: ric_gen_id
  ca_call_process_id :: "byte_array option"
  ca_control_outcome :: "byte_array option"

definition eq_ric_control_ack_req :: "ric_control_acknowledge \<Rightarrow> ric_control_acknowledge \<Rightarrow> bool" where
  "eq_ric_control_ack_req m0 m1 =
     (if eq_ric_gen_id (ca_ric_id m0) (ca_ric_id m1) = False then False
      else if eq_byte_array (ca_call_process_id m0) (ca_call_process_id m1) = False then False
      else if eq_byte_array (ca_control_outcome m0) (ca_control_outcome m1) = False then False
      else True)"

section \<open>Setup\<close>

record e2_setup_request =
  stp_trans_id :: uint8
  stp_id :: global_e2_node_id
  stp_ran_func_item :: "ran_function list"
  stp_comp_conf_add :: "e2ap_node_component_config_add list"

text \<open>The identifier is copied with its pointer: the copy shares the identifier of the CU or DU.\<close>
definition cp_e2_setup_request :: "e2_setup_request \<Rightarrow> e2_setup_request option" where
  "cp_e2_setup_request src = do {
     rf \<leftarrow> cp_loop cp_ran_function (stp_ran_func_item src);
     cca \<leftarrow> cp_loop cp_e2ap_node_component_config_add (stp_comp_conf_add src);
     Some \<lparr>stp_trans_id = stp_trans_id src, stp_id = stp_id src, stp_ran_func_item = rf, stp_comp_conf_add = cca\<rparr>
   }"

definition eq_e2_setup_request :: "e2_setup_request \<Rightarrow> e2_setup_request \<Rightarrow> bool option" where
  "eq_e2_setup_request m0 m1 =
     (if stp_trans_id m0 \<noteq> stp_trans_id m1 then Some False
      else do {
        b \<leftarrow> eq_global_e2_node_id (stp_id m0) (stp_id m1);
        if b = False then Some False
        else if length (stp_ran_func_item m0) \<noteq> length (stp_ran_func_item m1) then Some False
        else do {
          b \<leftarrow> eq_loop eq_ran_function (stp_ran_func_item m0) (stp_ran_func_item m1);
          if b = False then Some False
          else if length (stp_comp_conf_add m0) \<noteq> length (stp_comp_conf_add m1) then Some False
          else eq_loop eq_e2ap_node_component_config_add (stp_comp_conf_add m0) (stp_comp_conf_add m1)
        }
      })"

record e2_setup_response =
  stq_trans_id :: uint8
  stq_id :: global_ric_id
  stq_accepted :: "uint16 list"
  stq_rejected :: "rejected_ran_function list"
  stq_comp_config_add_ack :: "e2ap_node_comp_config_add_ack list"

text \<open>The loop over the acknowledgements compares the first ones in every turn.\<close>
primrec eq_first_ack_loop ::
  "nat \<Rightarrow> e2ap_node_comp_config_add_ack list \<Rightarrow> e2ap_node_comp_config_add_ack list \<Rightarrow> bool option"
where
  "eq_first_ack_loop 0 as bs = Some True"
| "eq_first_ack_loop (Suc n) as bs = do {
     c_assert (as \<noteq> [] \<and> bs \<noteq> []);
     b \<leftarrow> eq_e2ap_node_component_config_add_ack (hd as) (hd bs);
     if b = False then Some False else eq_first_ack_loop n as bs
   }"

definition eq_e2_setup_response :: "e2_setup_response \<Rightarrow> e2_setup_response \<Rightarrow> bool option" where
  "eq_e2_setup_response m0 m1 =
     (if stq_trans_id m0 \<noteq> stq_trans_id m1 then Some False
      else if eq_global_ric_id (stq_id m0) (stq_id m1) = False then Some False
      else if length (stq_accepted m0) \<noteq> length (stq_accepted m1) then Some False
      else do {
        b \<leftarrow> eq_loop (\<lambda>a b. Some (a = b)) (stq_accepted m0) (stq_accepted m1);
        if b = False then Some False
        else if length (stq_rejected m0) \<noteq> length (stq_rejected m1) then Some False
        else do {
          b \<leftarrow> eq_loop eq_rejected_ran_function (stq_rejected m0) (stq_rejected m1);
          if b = False then Some False
          else if length (stq_comp_config_add_ack m0) \<noteq> length (stq_comp_config_add_ack m1) then Some False
          else eq_first_ack_loop (length (stq_comp_config_add_ack m0)) (stq_comp_config_add_ack m0)
            (stq_comp_config_add_ack m1)
        }
      })"

record e42_setup_request =
  e42_ran_func_item :: "ran_function list"

definition cp_e42_setup_request :: "e42_setup_request \<Rightarrow> e42_setup_request option" where
  "cp_e42_setup_request src = do {
     rf \<leftarrow> cp_loop cp_ran_function (e42_ran_func_item src);
     Some \<lparr>e42_ran_func_item = rf\<rparr>
   }"

definition eq_e42_setup_request :: "e42_setup_request \<Rightarrow> e42_setup_request \<Rightarrow> bool option" where
  "eq_e42_setup_request m0 m1 =
     (if length (e42_ran_func_item m0) \<noteq> length (e42_ran_func_item m1) then Some False
      else eq_loop eq_ran_function (e42_ran_func_item m0) (e42_ran_func_item m1))"

text \<open>The length of the array of component configurations has one byte and is a field of its own.\<close>
record e2_node_connected =
  nc_id :: global_e2_node_id
  nc_len_cca :: uint8
  nc_cca :: "e2ap_node_component_config_add list"
  nc_ack_rf :: "ran_function list"

text \<open>The length of the copy, which bounds the loop over the configurations, is still zero.\<close>
definition cp_e2_node_connected :: "e2_node_connected \<Rightarrow> e2_node_connected option" where
  "cp_e2_node_connected src = do {
     c_assert (0 < nc_len_cca src);
     let len_cca = 0;
     cca \<leftarrow> cp_loop cp_e2ap_node_component_config_add (take (unat len_cca) (nc_cca src));
     rf \<leftarrow> cp_loop cp_ran_function (nc_ack_rf src);
     Some \<lparr>nc_id = cp_global_e2_node_id (nc_id src), nc_len_cca = len_cca, nc_cca = cca, nc_ack_rf = rf\<rparr>
   }"

text \<open>What \<open>free_e2_node_connected\<close> asserts.\<close>
definition free_e2_node_connected :: "e2_node_connected \<Rightarrow> unit option" where
  "free_e2_node_connected src = c_assert (0 < nc_len_cca src)"

definition eq_e2_node_connected :: "e2_node_connected \<Rightarrow> e2_node_connected \<Rightarrow> bool option" where
  "eq_e2_node_connected m0 m1 = do {
     b \<leftarrow> eq_global_e2_node_id (nc_id m0) (nc_id m1);
     if b = False then Some False
     else do {
       c_assert (0 < nc_len_cca m0 \<and> 0 < nc_len_cca m1);
       if nc_len_cca m0 \<noteq> nc_len_cca m1 then Some False
       else do {
         b \<leftarrow> eq_loop eq_e2ap_node_component_config_add (take (unat (nc_len_cca m0)) (nc_cca m0))
           (take (unat (nc_len_cca m1)) (nc_cca m1));
         if b = False then Some False
         else if length (nc_ack_rf m0) \<noteq> length (nc_ack_rf m1) then Some False
         else eq_loop eq_ran_function (nc_ack_rf m0) (nc_ack_rf m1)
       }
     }
   }"

record e42_setup_response =
  stx_xapp_id :: uint16
  stx_len_e2_nodes_conn :: uint8
  stx_nodes :: "e2_node_connected list"

definition cp_e42_setup_response :: "e42_setup_response \<Rightarrow> e42_setup_response option" where
  "cp_e42_setup_response src = do {
     ns \<leftarrow> cp_loop cp_e2_node_connected (take (unat (stx_len_e2_nodes_conn src)) (stx_nodes src));
     Some \<lparr>stx_xapp_id = stx_xapp_id src, stx_len_e2_nodes_conn = stx_len_e2_nodes_conn src, stx_nodes = ns\<rparr>
   }"

definition eq_e42_setup_response :: "e42_setup_response \<Rightarrow> e42_setup_response \<Rightarrow> bool option" where
  "eq_e42_setup_response m0 m1 =
     (if stx_xapp_id m0 \<noteq> stx_xapp_id m1 then Some False
      else if stx_len_e2_nodes_conn m0 \<noteq> stx_len_e2_nodes_conn m1 then Some False
      else eq_loop eq_e2_node_connected (take (unat (stx_len_e2_nodes_conn m0)) (stx_nodes m0))
        (take (unat (stx_len_e2_nodes_conn m1)) (stx_nodes m1)))"

section \<open>Requests of the xApps\<close>

record e42_ric_subscription_request =
  e42_sr_xapp_id :: uint16
  e42_sr_id :: global_e2_node_id
  e42_sr :: ric_subscription_request

definition eq_e42_ric_subscritption_request ::
  "e42_ric_subscription_request \<Rightarrow> e42_ric_subscription_request \<Rightarrow> bool option"
where
  "eq_e42_ric_subscritption_request m0 m1 =
     (if e42_sr_xapp_id m0 \<noteq> e42_sr_xapp_id m1 then Some False
      else do {
        rv \<leftarrow> eq_global_e2_node_id (e42_sr_id m0) (e42_sr_id m1);
        if rv = False then Some False
        else eq_ric_subscritption_request (e42_sr m0) (e42_sr m1)
      })"

record e42_ric_subscription_delete_request =
  e42_sdr_xapp_id :: uint16
  e42_sdr :: ric_subscription_delete_request

definition eq_e42_ric_subscription_delete_request ::
  "e42_ric_subscription_delete_request \<Rightarrow> e42_ric_subscription_delete_request \<Rightarrow> bool"
where
  "eq_e42_ric_subscription_delete_request m0 m1 =
     (if e42_sdr_xapp_id m0 \<noteq> e42_sdr_xapp_id m1 then False
      else eq_ric_subscription_delete_request (e42_sdr m0) (e42_sdr m1))"

record e42_ric_control_request =
  e42_cr_xapp_id :: uint16
  e42_cr_id :: global_e2_node_id
  e42_ctrl_req :: ric_control_request

definition eq_e42_ric_control_request :: "e42_ric_control_request \<Rightarrow> e42_ric_control_request \<Rightarrow> bool option" where
  "eq_e42_ric_control_request m0 m1 =
     (if e42_cr_xapp_id m0 \<noteq> e42_cr_xapp_id m1 then Some False
      else do {
        rv \<leftarrow> eq_global_e2_node_id (e42_cr_id m0) (e42_cr_id m1);
        if rv = False then Some False
        else Some (eq_ric_control_request (e42_ctrl_req m0) (e42_ctrl_req m1))
      })"

section \<open>All messages\<close>

text \<open>The tag and the member of the union; the last one is the tag for no message.\<close>
datatype e2ap_msg =
    ric_sub_req ric_subscription_request
  | ric_sub_resp ric_subscription_response
  | ric_sub_fail
  | ric_sub_del_req ric_subscription_delete_request
  | ric_sub_del_resp ric_subscription_delete_response
  | ric_sub_del_fail
  | ric_ind ric_indication
  | ric_ctrl_req ric_control_request
  | ric_ctrl_ack ric_control_acknowledge
  | ric_ctrl_fail
  | err_ind
  | e2_stp_req e2_setup_request
  | e2_stp_resp e2_setup_response
  | e2_stp_fail
  | rst_req
  | rst_resp
  | ric_serv_updt
  | ric_serv_updt_ack
  | ric_serv_updt_fail
  | ric_serv_query
  | e2_node_conf_updt
  | e2_node_conf_updt_ack
  | e2_node_conf_updt_fail
  | e2_conn_updt
  | e2_conn_updt_ack
  | e2_conn_updt_fail
  | e2_rem_req
  | e2_rem_res
  | e2_rem_fail
  | e42_stp_req e42_setup_request
  | e42_stp_resp e42_setup_response
  | e42_ric_sub_req e42_ric_subscription_request
  | e42_ric_sub_del_req e42_ric_subscription_delete_request
  | e42_ric_ctrl_req e42_ric_control_request
  | no_msg

end
