(* ===== verification/E2ap_Eq.thy ===== *)
theory E2ap_Eq
  imports E2ap_Msg
begin

text \<open>
  The comparisons of the messages decide equality and the copies are equal to the original, and where
  they do not and are not: the acknowledgements of the setup response, the component
  configurations of a connected node, the waiting time of a subsequent action.
\<close>

named_theorems eq_simps \<open>comparisons that are equality\<close>
named_theorems cp_simps \<open>copies that are the identity\<close>

section \<open>Loops and byte arrays\<close>

lemma eq_byte_array_eq [eq_simps]: "eq_byte_array a b \<longleftrightarrow> a = b"
  by (cases a; cases b) (auto simp: list_eq_iff_nth_eq list_all2_conv_all_nth)

lemma copy_byte_array_id [cp_simps]: "copy_byte_array b = b"
  by (simp add: copy_byte_array_def)

lemma eq_loop_eq:
  assumes "\<And>x y. x \<in> set xs \<Longrightarrow> y \<in> set ys \<Longrightarrow> f x y = Some (x = y)" "length xs = length ys"
  shows "eq_loop f xs ys = Some (xs = ys)"
  using assms(2,1) by (induction xs ys rule: list_induct2) auto

text \<open>An element that is equal to itself: the loop over an array and its copy.\<close>
lemma eq_loop_refl: "(\<And>x. x \<in> set xs \<Longrightarrow> f x x = Some True) \<Longrightarrow> eq_loop f xs xs = Some True"
  by (induction xs) auto

lemma cp_loop_id: "(\<And>x. x \<in> set xs \<Longrightarrow> f x = Some x) \<Longrightarrow> cp_loop f xs = Some xs"
  by (induction xs) auto

section \<open>Parts\<close>

lemma eq_ric_gen_id_eq [eq_simps]: "eq_ric_gen_id a b \<longleftrightarrow> a = b"
  by (cases a; cases b) (auto simp: eq_ric_gen_id_def)

lemma eq_ric_action_admitted_eq [eq_simps]: "eq_ric_action_admitted a b = Some (a = b)"
  by (cases a; cases b) (simp add: eq_ric_action_admitted_def)

lemma eq_ric_action_not_admitted_eq [eq_simps]: "eq_ric_action_not_admitted a b = Some (a = b)"
  by (cases a; cases b) (simp add: eq_ric_action_not_admitted_def eq_cause_def)

lemma eq_ran_function_eq [eq_simps]: "eq_ran_function a b = Some (a = b)"
  by (cases a; cases b) (simp add: eq_ran_function_def eq_byte_array_eq)

lemma cp_ran_function_id [cp_simps]: "cp_ran_function a = Some a"
  by (cases a) (simp add: cp_ran_function_def cp_simps)

lemma eq_sn_eq [eq_simps]: "eq_sn a b \<longleftrightarrow> a = b"
  by (auto simp: eq_sn_def split: option.split)

lemma eq_ack_req_eq [eq_simps]: "eq_ack_req a b \<longleftrightarrow> a = b"
  by (auto simp: eq_ack_req_def split: option.split)

text \<open>Component configurations that the code supports.\<close>
definition ok_comp_id :: "e2ap_node_comp_id \<Rightarrow> bool" where
  "ok_comp_id c = (case c of UNSUPPORTED_COMP_ID t \<Rightarrow> False | E1_COMP_ID d \<Rightarrow> d < 2 ^ 36 | F1_COMP_ID d \<Rightarrow> d < 2 ^ 36
     | _ \<Rightarrow> True)"

lemma eq_comp_id_eq: "ok_comp_id a \<Longrightarrow> ok_comp_id b \<Longrightarrow> eq_e2ap_node_comp_id a b = Some (a = b)"
  by (cases a; cases b) (simp_all add: eq_e2ap_node_comp_id_def ok_comp_id_def eq_byte_array_eq)

text \<open>Component identifiers that can be copied.\<close>
definition cp_ok_id :: "e2ap_node_comp_id \<Rightarrow> bool" where
  "cp_ok_id c = (case c of UNSUPPORTED_COMP_ID t \<Rightarrow> False | F1_COMP_ID d \<Rightarrow> d < 2 ^ 36 | _ \<Rightarrow> True)"

lemma cp_comp_id_id: "cp_ok_id a \<Longrightarrow> cp_e2ap_node_comp_id a = Some a"
  by (cases a) (simp_all add: cp_e2ap_node_comp_id_def cp_ok_id_def cp_simps)

lemma eq_comp_conf_eq [eq_simps]: "eq_e2ap_node_comp_conf a b \<longleftrightarrow> a = b"
  by (cases a; cases b) (simp add: eq_e2ap_node_comp_conf_def eq_byte_array_eq)

lemma cp_comp_conf_id [cp_simps]: "cp_e2ap_node_comp_conf a = a"
  by (cases a) (simp add: cp_e2ap_node_comp_conf_def cp_simps)

abbreviation ok_cca :: "e2ap_node_component_config_add \<Rightarrow> bool" where
  "ok_cca c \<equiv> ok_comp_id (cca_comp_id c)"

lemma eq_cca_eq: "ok_cca a \<Longrightarrow> ok_cca b \<Longrightarrow> eq_e2ap_node_component_config_add a b = Some (a = b)"
  by (cases a; cases b) (simp add: eq_e2ap_node_component_config_add_def eq_comp_id_eq eq_comp_conf_eq)

abbreviation cp_ok :: "e2ap_node_component_config_add \<Rightarrow> bool" where
  "cp_ok c \<equiv> cp_ok_id (cca_comp_id c)"

lemma ok_cca_cp: "ok_cca c \<Longrightarrow> cp_ok c"
  by (simp add: ok_comp_id_def cp_ok_id_def split: e2ap_node_comp_id.splits)

lemma cp_cca_id: "cp_ok a \<Longrightarrow> cp_e2ap_node_component_config_add a = Some a"
  by (cases a) (simp add: cp_e2ap_node_component_config_add_def cp_comp_id_id cp_comp_conf_id)

lemma cp_cca_loop: "\<forall>c \<in> set cs. cp_ok c \<Longrightarrow> cp_loop cp_e2ap_node_component_config_add cs = Some cs"
  by (rule cp_loop_id) (simp add: cp_cca_id)

lemma cp_rf_loop [cp_simps]: "cp_loop cp_ran_function rs = Some rs"
  by (rule cp_loop_id) (simp add: cp_simps)

definition ok_ack :: "e2ap_node_comp_config_add_ack \<Rightarrow> bool" where
  "ok_ack a \<longleftrightarrow> caa_interface_type a \<noteq> END_E2AP \<and> ok_comp_id (caa_comp_id a) \<and> ack_cause (caa_ack a) = None"

lemma eq_ack_eq: "ok_ack a \<Longrightarrow> ok_ack b \<Longrightarrow> eq_e2ap_node_component_config_add_ack a b = Some (a = b)"
  by (cases a; cases b; cases "caa_ack a"; cases "caa_ack b")
    (auto simp: eq_e2ap_node_component_config_add_ack_def ok_ack_def eq_comp_id_eq eq_e2ap_node_comp_conf_ack_def)

text \<open>A waiting time is present in all subsequent actions of the message.\<close>
definition waits :: "ric_subscription_request \<Rightarrow> bool" where
  "waits m \<longleftrightarrow> (\<forall>a \<in> set (sr_action m). \<forall>s. subseq_action a = Some s \<longrightarrow> time_to_wait_ms s \<noteq> None)"

lemma eq_subsequent_action_eq:
  assumes "\<And>s. b = Some s \<Longrightarrow> time_to_wait_ms s \<noteq> None"
  shows "eq_ric_subsequent_action a b = Some (a = b)"
proof (cases "a = None \<or> b = None")
  case False
  then obtain s t where "a = Some s" "b = Some t" by auto
  with assms show ?thesis
    by (cases s; cases t; cases "time_to_wait_ms s") (auto simp: eq_ric_subsequent_action_def)
qed (auto simp: eq_ric_subsequent_action_def split: option.split)

lemma eq_ric_action_eq:
  assumes "\<And>s. subseq_action b = Some s \<Longrightarrow> time_to_wait_ms s \<noteq> None"
  shows "eq_ric_action a b = Some (a = b)"
  using eq_subsequent_action_eq[where a = "subseq_action a" and b = "subseq_action b", OF assms]
  by (cases a; cases b) (simp add: eq_ric_action_def eq_byte_array_eq)

lemma eq_subscription_request_eq:
  assumes "waits b" shows "eq_ric_subscritption_request a b = Some (a = b)"
proof -
  have "eq_loop eq_ric_action (sr_action a) (sr_action b) = Some (sr_action a = sr_action b)"
    if "length (sr_action a) = length (sr_action b)"
    using that assms by (intro eq_loop_eq eq_ric_action_eq) (auto simp: waits_def)
  then show ?thesis by (cases a; cases b) (auto simp: eq_ric_subscritption_request_def eq_simps)
qed

section \<open>Messages\<close>

lemma eq_subscription_response_eq: "eq_ric_subscritption_response a b = Some (a = b)"
proof -
  note l = eq_loop_eq[where f = eq_ric_action_admitted, OF eq_ric_action_admitted_eq]
    eq_loop_eq[where f = eq_ric_action_not_admitted, OF eq_ric_action_not_admitted_eq]
  show ?thesis by (cases a; cases b) (auto simp: eq_ric_subscritption_response_def eq_simps l)
qed

lemma eq_e42_setup_request_eq: "eq_e42_setup_request a b = Some (a = b)"
  using eq_loop_eq[where f = eq_ran_function, OF eq_ran_function_eq]
  by (cases a; cases b) (auto simp: eq_e42_setup_request_def)


text \<open>When the first of two equal subsequent actions has a waiting time and the second has none,
  the comparison of the subscription requests reads through a null pointer.\<close>
lemma eq_ric_subscritption_request_null:
  assumes "sr_ric_id m0 = sr_ric_id m1" "sr_event_trigger m0 = sr_event_trigger m1"
    and "sr_action m0 = a0 # as0" "sr_action m1 = a1 # as1" "length as0 = length as1"
    and "act_id a0 = act_id a1" "act_type a0 = act_type a1" "act_definition a0 = act_definition a1"
    and "subseq_action a0 = Some \<lparr>sub_type = t, time_to_wait_ms = Some w\<rparr>"
    and "subseq_action a1 = Some \<lparr>sub_type = t, time_to_wait_ms = None\<rparr>"
  shows "eq_ric_subscritption_request m0 m1 = None"
  using assms by (simp add: eq_ric_subscritption_request_def eq_simps eq_ric_action_def eq_ric_subsequent_action_def)

section \<open>Setup\<close>

lemma eq_node_refl: "has_cu_du_id n \<Longrightarrow> eq_global_e2_node_id n n = Some True"
  by (auto simp: eq_global_e2_node_id_def eq_e2ap_plmn_def eq_e2ap_gnb_id_def has_cu_du_id_def NODE_IS_DU_def
      NODE_IS_CUUP_def NODE_IS_CU_def split: if_splits)

text \<open>A setup request whose components have supported types is copied, and the
  copy compares equal to it.\<close>
lemma cp_e2_setup_request_equal:
  assumes "\<forall>c \<in> set (stp_comp_conf_add m). ok_cca c" "has_cu_du_id (stp_id m)"
  shows "\<exists>m'. cp_e2_setup_request m = Some m' \<and> eq_e2_setup_request m m' = Some True"
proof -
  have "cp_e2_setup_request m = Some m"
    using cp_cca_loop[of "stp_comp_conf_add m"] assms(1) ok_cca_cp by (cases m) (simp add: cp_e2_setup_request_def cp_simps)
  moreover have "eq_loop eq_e2ap_node_component_config_add (stp_comp_conf_add m) (stp_comp_conf_add m) = Some True"
    by (rule eq_loop_refl) (use assms(1) in \<open>simp add: eq_cca_eq\<close>)
  moreover have "eq_loop eq_ran_function (stp_ran_func_item m) (stp_ran_func_item m) = Some True"
    by (rule eq_loop_refl) (simp add: eq_ran_function_eq)
  ultimately show ?thesis using eq_node_refl[OF assms(2)] by (simp add: eq_e2_setup_request_def)
qed

lemma eq_first_ack_loop_True:
  assumes "ok_ack a" shows "eq_first_ack_loop n (a # as) (a # bs) = Some True"
  by (induction n) (simp_all add: eq_ack_eq[OF assms assms])

text \<open>The comparison of two setup responses looks at the first acknowledgement only: responses
  that differ in all the others compare equal.\<close>
theorem eq_e2_setup_response_first_ack:
  assumes "stq_comp_config_add_ack m0 = a # as" "ok_ack a" "length as = length bs"
    and "m1 = m0\<lparr>stq_comp_config_add_ack := a # bs\<rparr>"
  shows "eq_e2_setup_response m0 m1 = Some True"
proof -
  have "eq_loop (\<lambda>a b. Some (a = b)) xs xs = Some True" for xs :: "uint16 list" by (rule eq_loop_refl) simp
  moreover have "eq_loop eq_rejected_ran_function xs xs = Some True" for xs
    by (rule eq_loop_refl) (simp add: eq_rejected_ran_function_def eq_cause_def)
  moreover have "eq_global_ric_id (stq_id m0) (stq_id m0)" by (simp add: eq_global_ric_id_def eq_e2ap_plmn_def)
  ultimately show ?thesis
    using assms(1,3,4) eq_first_ack_loop_True[OF assms(2)]
    by (simp add: eq_e2_setup_response_def del: eq_first_ack_loop.simps)
qed

text \<open>The copy of a connected node has none of its component configurations: releasing it
  fails an assertion, and so does comparing it with the original.\<close>
theorem cp_e2_node_connected_drops_cca:
  assumes "0 < nc_len_cca n" "has_cu_du_id (nc_id n)"
  shows "\<exists>n'. cp_e2_node_connected n = Some n' \<and> nc_cca n' = [] \<and> free_e2_node_connected n' = None \<and>
    eq_e2_node_connected n n' = None"
proof -
  have "cp_global_e2_node_id (nc_id n) = nc_id n"
    by (cases "nc_id n"; cases "plmn (nc_id n)") (auto simp: cp_global_e2_node_id_def cp_e2ap_plmn_def split: option.split)
  then show ?thesis
    using assms eq_node_refl[OF assms(2)]
    by (simp add: cp_e2_node_connected_def cp_simps free_e2_node_connected_def eq_e2_node_connected_def)
qed

section \<open>Examples\<close>

definition ex_sub_req :: "uint32 \<Rightarrow> ric_subscription_request" where
  "ex_sub_req req = \<lparr>sr_ric_id = \<lparr>ric_req_id = req, ric_inst_id = 0, ran_func_id = 2\<rparr>, sr_event_trigger = [1, 2],
     sr_action = [\<lparr>act_id = 0, act_type = RIC_ACT_REPORT, act_definition = Some [7], subseq_action = None\<rparr>]\<rparr>"

definition ex_ack :: "uint64 \<Rightarrow> e2ap_node_comp_config_add_ack" where
  "ex_ack d = \<lparr>caa_interface_type = F1_E2AP, caa_comp_id = F1_COMP_ID d,
     caa_ack = \<lparr>ack_outcome = SUCCESS_E2AP_NODE_COMP_CONF_ACK, ack_cause = None\<rparr>\<rparr>"

definition ex_setup_resp :: "e2ap_node_comp_config_add_ack list \<Rightarrow> e2_setup_response" where
  "ex_setup_resp acks = \<lparr>stq_trans_id = 1, stq_id = \<lparr>ric_plmn = \<lparr>mcc = 505, mnc = 1, mnc_digit_len = 2\<rparr>, near_ric_id = 25\<rparr>,
     stq_accepted = [2, 142], stq_rejected = [], stq_comp_config_add_ack = acks\<rparr>"

definition ex_connected :: e2_node_connected where
  "ex_connected = \<lparr>nc_id = \<lparr>node_type = ngran_gNB, plmn = \<lparr>mcc = 505, mnc = 1, mnc_digit_len = 2\<rparr>,
       g_nb_id = \<lparr>nb_id = 3584, unused = 0\<rparr>, cu_du_id = None\<rparr>,
     nc_len_cca = 1, nc_cca = [\<lparr>cca_interface_type = NG_E2AP, cca_comp_id = NG_COMP_ID [65],
       cca_comp_conf = \<lparr>conf_request = [], conf_response = []\<rparr>\<rparr>], nc_ack_rf = []\<rparr>"


theorem eq_e2_setup_response_first_ack_witness:
  "eq_e2_setup_response (ex_setup_resp [ex_ack 1, ex_ack 2]) (ex_setup_resp [ex_ack 1, ex_ack 3]) = Some True \<and>
   ex_setup_resp [ex_ack 1, ex_ack 2] \<noteq> ex_setup_resp [ex_ack 1, ex_ack 3]"
  using eq_e2_setup_response_first_ack[of "ex_setup_resp [ex_ack 1, ex_ack 2]" "ex_ack 1" "[ex_ack 2]" "[ex_ack 3]"
      "ex_setup_resp [ex_ack 1, ex_ack 3]"]
  by (simp add: ex_setup_resp_def ok_ack_def ex_ack_def ok_comp_id_def)

theorem cp_e2_node_connected_drops_cca_witness:
  "\<exists>n'. cp_e2_node_connected ex_connected = Some n' \<and> nc_cca n' = [] \<and> nc_cca ex_connected \<noteq> [] \<and>
     free_e2_node_connected n' = None"
  using cp_e2_node_connected_drops_cca[of ex_connected]
  by (auto simp: ex_connected_def has_cu_du_id_def NODE_IS_CU_def NODE_IS_CUUP_def NODE_IS_DU_def)

end
