(* ===== verification/Reg_E2_Nodes.thy ===== *)
theory Reg_E2_Nodes
  imports E2ap_Eq Find
begin

text \<open>
  The registry of the connected E2 nodes: src/lib/msg_hand/reg_e2_nodes.c and e2_node_arr.c, a
  red-black tree from node identifiers to the RAN functions and component configurations of the node.

  The dynamic arrays that the values hold are the lists of their elements.  Every operation
  holds the lock for its whole body.  The addresses that the allocations return are arguments: one for
  the insertion, a sequence \<open>mal\<close> for the copy of the tree.  The variant that decodes the definitions
  of the RAN functions with the plug-ins is left out.
\<close>

record pair_rf_cca =
  pr_ran_func :: "ran_function list"
  pr_comp_conf_add :: "e2ap_node_component_config_add list"

record reg_e2_nodes =
  node_to_rf :: "(global_e2_node_id, pair_rf_cca) assoc_rb_tree"

definition init_reg_e2_node :: "addr \<Rightarrow> reg_e2_nodes option" where
  "init_reg_e2_node a = do {
     t \<leftarrow> assoc_rb_tree_init a 32 cmp_global_e2_node_id True;
     Some \<lparr>node_to_rf = t\<rparr>
   }"

definition free_reg_e2_node ::
  "reg_e2_nodes \<Rightarrow> ((global_e2_node_id option \<times> pair_rf_cca option) list \<times> reg_e2_nodes) option"
where
  "free_reg_e2_node i = do {
     (rel, t) \<leftarrow> assoc_rb_tree_free (node_to_rf i);
     Some (rel, i\<lparr>node_to_rf := t\<rparr>)
   }"

definition add_reg_e2_node ::
  "addr \<Rightarrow> reg_e2_nodes \<Rightarrow> global_e2_node_id \<Rightarrow> ran_function list \<Rightarrow> e2ap_node_component_config_add list \<Rightarrow>
    reg_e2_nodes option"
where
  "add_reg_e2_node a i nid ran_func cca = do {
     c_assert (0 < length ran_func);
     c_assert (0 < length cca);
     rf \<leftarrow> cp_loop cp_ran_function ran_func;
     cc \<leftarrow> cp_loop cp_e2ap_node_component_config_add cca;
     (if assoc_rb_tree_size (node_to_rf i) > 0 then do {
        it \<leftarrow> find_all_rb_tree (node_to_rf i) nid eq_global_e2_node_id;
        c_assert (it = assoc_rb_tree_end (node_to_rf i))
      } else Some ());
     let cp_id = cp_global_e2_node_id nid;
     t \<leftarrow> assoc_rb_tree_insert a (node_to_rf i) cp_id 32 \<lparr>pr_ran_func = rf, pr_comp_conf_add = cc\<rparr>;
     Some (i\<lparr>node_to_rf := t\<rparr>)
   }"

definition sz_reg_e2_node :: "reg_e2_nodes \<Rightarrow> nat" where
  "sz_reg_e2_node n = assoc_rb_tree_size (node_to_rf n)"

partial_function (option) cp_reg_loop ::
  "(nat \<Rightarrow> addr) \<Rightarrow> (global_e2_node_id, pair_rf_cca) assoc_rb_tree \<Rightarrow> addr \<Rightarrow> nat \<Rightarrow>
    (global_e2_node_id, pair_rf_cca) assoc_rb_tree \<Rightarrow> (global_e2_node_id, pair_rf_cca) assoc_rb_tree option"
where
  "cp_reg_loop mal t it i ans =
     (if it \<noteq> assoc_rb_tree_end t then do {
        key \<leftarrow> assoc_rb_tree_key t it;
        tmp \<leftarrow> key;
        let cp_tmp = cp_global_e2_node_id tmp;
        val \<leftarrow> assoc_rb_tree_value t it;
        rf_cca \<leftarrow> val;
        rf \<leftarrow> cp_loop cp_ran_function (pr_ran_func rf_cca);
        cc \<leftarrow> cp_loop cp_e2ap_node_component_config_add (pr_comp_conf_add rf_cca);
        ans \<leftarrow> assoc_rb_tree_insert (mal (Suc i)) ans cp_tmp 32 \<lparr>pr_ran_func = rf, pr_comp_conf_add = cc\<rparr>;
        it \<leftarrow> assoc_rb_tree_next t it;
        cp_reg_loop mal t it (Suc i) ans
      }
      else Some ans)"

definition cp_reg_e2_node ::
  "(nat \<Rightarrow> addr) \<Rightarrow> reg_e2_nodes \<Rightarrow> (global_e2_node_id, pair_rf_cca) assoc_rb_tree option"
where
  "cp_reg_e2_node mal n = do {
     ans \<leftarrow> assoc_rb_tree_init (mal 0) 32 cmp_global_e2_node_id True;
     it \<leftarrow> assoc_rb_tree_front (node_to_rf n);
     ans \<leftarrow> cp_reg_loop mal (node_to_rf n) it 0 ans;
     c_assert (assoc_rb_tree_size ans = assoc_rb_tree_size (node_to_rf n));
     Some ans
   }"

definition cp_cca :: "e2ap_node_component_config_add list \<Rightarrow> e2ap_node_component_config_add list option" where
  "cp_cca arr = do {
     let sz_cca = length arr;
     c_assert (0 < sz_cca \<and> sz_cca < 256);
     cp_loop cp_e2ap_node_component_config_add arr
   }"

record e2_node_arr =
  arr_len :: uint8
  arr_n :: "e2_node_connected list"

definition free_e2_node_arr :: "e2_node_arr \<Rightarrow> unit option" where
  "free_e2_node_arr arr = do {
     us \<leftarrow> cp_loop free_e2_node_connected (take (unat (arr_len arr)) (arr_n arr));
     Some ()
   }"

text \<open>The loop fills an array of \<open>len\<close> elements; a write at or beyond \<open>len\<close> is outside the allocation.\<close>
partial_function (option) gen_arr_loop ::
  "(global_e2_node_id, pair_rf_cca) assoc_rb_tree \<Rightarrow> addr \<Rightarrow> nat \<Rightarrow> nat \<Rightarrow> e2_node_connected list \<Rightarrow>
    e2_node_connected list option"
where
  "gen_arr_loop t it i len dst =
     (if it \<noteq> assoc_rb_tree_end t then do {
        c_assert (i < len);
        key \<leftarrow> assoc_rb_tree_key t it;
        tmp_id \<leftarrow> key;
        val \<leftarrow> assoc_rb_tree_value t it;
        rf_cca \<leftarrow> val;
        span \<leftarrow> cp_cca (pr_comp_conf_add rf_cca);
        rf \<leftarrow> cp_loop cp_ran_function (pr_ran_func rf_cca);
        it \<leftarrow> assoc_rb_tree_next t it;
        gen_arr_loop t it (Suc i) len (dst @ [\<lparr>nc_id = cp_global_e2_node_id tmp_id,
          nc_len_cca = word_of_nat (length span), nc_cca = span, nc_ack_rf = rf\<rparr>])
      }
      else Some dst)"

text \<open>The length of the array has one byte.\<close>
definition generate_e2_node_arr :: "(nat \<Rightarrow> addr) \<Rightarrow> reg_e2_nodes \<Rightarrow> e2_node_arr option" where
  "generate_e2_node_arr mal n = do {
     t \<leftarrow> cp_reg_e2_node mal n;
     let len = (word_of_nat (assoc_rb_tree_size t) :: uint8);
     it \<leftarrow> assoc_rb_tree_front t;
     dst \<leftarrow> gen_arr_loop t it 0 (unat len) [];
     (rel, t) \<leftarrow> assoc_rb_tree_free t;
     Some \<lparr>arr_len = len, arr_n = dst\<rparr>
   }"

definition rm_reg_e2_node :: "reg_e2_nodes \<Rightarrow> global_e2_node_id \<Rightarrow> reg_e2_nodes option" where
  "rm_reg_e2_node n nid = do {
     it \<leftarrow> find_all_rb_tree (node_to_rf n) nid eq_global_e2_node_id;
     c_assert (it \<noteq> assoc_rb_tree_end (node_to_rf n));
     (rel, t) \<leftarrow> assoc_rb_tree_free_it (node_to_rf n) it;
     Some (n\<lparr>node_to_rf := t\<rparr>)
   }"

end
