(* ===== verification/Reg_Facts.thy ===== *)
theory Reg_Facts
  imports Reg_E2_Nodes
begin

text \<open>
  What the registry holds and what its operations do to it: adding a node, removing a node,
  listing the nodes.
\<close>

section \<open>Equality of nodes\<close>

text \<open>The comparison of two valid identifiers.\<close>
definition eq_node :: "global_e2_node_id \<Rightarrow> global_e2_node_id \<Rightarrow> bool" where
  "eq_node a b \<longleftrightarrow> eq_global_e2_node_id a b = Some True"

lemma eq_global_valid:
  assumes "has_cu_du_id a" "has_cu_du_id b" shows "eq_global_e2_node_id a b = Some (eq_node a b)"
proof -
  have "eq_global_e2_node_id a b \<noteq> None"
  proof (cases "node_type a = node_type b \<and> (NODE_IS_CUUP (node_type a) \<or> NODE_IS_DU (node_type a))")
    case True
    then obtain i j where "cu_du_id a = Some i" "cu_du_id b = Some j" using assms by (auto simp: has_cu_du_id_def)
    then show ?thesis by (simp add: eq_global_e2_node_id_def del: not_None_eq)
  next
    case False
    then show ?thesis by (simp add: eq_global_e2_node_id_def del: not_None_eq)
  qed
  then show ?thesis by (auto simp: eq_node_def)
qed

lemma eq_node_same [simp]: "has_cu_du_id a \<Longrightarrow> eq_node a a"
  using eq_node_refl[of a] by (simp add: eq_node_def)

lemma cp_node_id [cp_simps]: "cp_global_e2_node_id n = n"
  by (cases n; cases "plmn n") (auto simp: cp_global_e2_node_id_def cp_e2ap_plmn_def split: option.split)

section \<open>Contents\<close>

type_synonym reg_entry = "(global_e2_node_id, pair_rf_cca) entry"

definition ok_pair :: "pair_rf_cca \<Rightarrow> bool" where
  "ok_pair p \<longleftrightarrow> 0 < length (pr_comp_conf_add p) \<and> length (pr_comp_conf_add p) < 256 \<and>
     (\<forall>c \<in> set (pr_comp_conf_add p). cp_ok c)"

definition node_tree_rep :: "(global_e2_node_id, pair_rf_cca) assoc_rb_tree \<Rightarrow> reg_entry list \<Rightarrow> bool" where
  "node_tree_rep t es \<longleftrightarrow> rb_rep has_cu_du_id order_e2_node t es \<and> key_sz t = 32 \<and> has_free_func t \<and>
     (\<forall>e \<in> set es. ok_pair (snd (snd e)))"

definition reg_rep :: "reg_e2_nodes \<Rightarrow> reg_entry list \<Rightarrow> bool" where
  "reg_rep n es \<longleftrightarrow> node_tree_rep (node_to_rf n) es"

text \<open>The connected node that stands for an entry.\<close>
definition connected :: "reg_entry \<Rightarrow> e2_node_connected" where
  "connected e = \<lparr>nc_id = fst (snd e), nc_len_cca = word_of_nat (length (pr_comp_conf_add (snd (snd e)))),
     nc_cca = pr_comp_conf_add (snd (snd e)), nc_ack_rf = pr_ran_func (snd (snd e))\<rparr>"

lemma node_tree_size: "node_tree_rep t es \<Longrightarrow> assoc_rb_tree_size t = length es"
  by (simp add: node_tree_rep_def rb_rep_def assoc_rb_tree_size_def)

lemma cp_pair_cca: "ok_pair p \<Longrightarrow> cp_loop cp_e2ap_node_component_config_add (pr_comp_conf_add p) = Some (pr_comp_conf_add p)"
  by (rule cp_cca_loop) (simp add: ok_pair_def)

lemma node_tree_init:
  assumes "a \<noteq> 0"
  obtains t where "assoc_rb_tree_init a 32 cmp_global_e2_node_id True = Some t" "node_tree_rep t []"
    "heap t = [a \<mapsto> (init_node None None)\<lparr>n_color := ASSOC_BLACK\<rparr>]"
proof -
  have f: "cmp_global_e2_node_id x y = Some (order_e2_node x y)" if "has_cu_du_id x" "has_cu_du_id y" for x y
    by (rule cmp_global_e2_node_id_order[OF that])
  have p: "(0 :: nat) < 32" by simp
  obtain t :: "(global_e2_node_id, pair_rf_cca) assoc_rb_tree" where
    t: "assoc_rb_tree_init a 32 cmp_global_e2_node_id True = Some t" "rb_rep has_cu_du_id order_e2_node t []"
    "key_sz t = 32" "has_free_func t"
    using init_rep[where ff = True and f = cmp_global_e2_node_id and vkey = has_cu_du_id and cmp = order_e2_node,
        OF p assms f] by metis
  moreover have "heap t = [a \<mapsto> (init_node None None)\<lparr>n_color := ASSOC_BLACK\<rparr>]"
    using t(1) assms by (auto simp: assoc_rb_tree_init_def)
  ultimately show thesis using that by (simp add: node_tree_rep_def)
qed

lemma node_tree_insert:
  assumes "node_tree_rep t es" "has_cu_du_id nid" "ok_pair p" "heap t a = None" "a \<noteq> 0"
  obtains t' where "assoc_rb_tree_insert a t nid 32 p = Some t'"
    "node_tree_rep t' (ins_entry order_e2_node (a, nid, p) es)"
    "\<forall>b. heap t b = None \<longrightarrow> b \<noteq> a \<longrightarrow> heap t' b = None"
proof -
  have r: "rb_rep has_cu_du_id order_e2_node t es" "key_sz t = 32" using assms(1) by (simp_all add: node_tree_rep_def)
  obtain t' where "assoc_rb_tree_insert a t nid 32 p = Some t'"
    "rb_rep has_cu_du_id order_e2_node t' (ins_entry order_e2_node (a, nid, p) es)" "key_sz t' = 32"
    "has_free_func t' = has_free_func t" "\<forall>b. heap t b = None \<longrightarrow> b \<noteq> a \<longrightarrow> heap t' b = None"
    using e2_node.insert_rep_frame[OF r(1) assms(2) r(2) assms(4,5), of p] by metis
  moreover have "set (ins_entry order_e2_node (a, nid, p) es) \<subseteq> insert (a, nid, p) (set es)"
    by (auto simp: ins_entry_def dest: set_takeWhileD set_dropWhileD)
  then have "\<forall>e \<in> set (ins_entry order_e2_node (a, nid, p) es). ok_pair (snd (snd e))"
    using assms(1,3) unfolding node_tree_rep_def by fastforce
  ultimately show thesis using that assms(1) unfolding node_tree_rep_def by metis
qed

lemma node_tree_find:
  assumes "node_tree_rep t es" "has_cu_du_id nid"
  shows "find_all_rb_tree t nid eq_global_e2_node_id =
    Some (case find (\<lambda>e. eq_node nid (entry_key e)) es of None \<Rightarrow> dummy t | Some e \<Rightarrow> fst e)"
proof (rule find_all_rep)
  show "rb_rep has_cu_du_id order_e2_node t es" using assms(1) by (simp add: node_tree_rep_def)
  then show "eq_global_e2_node_id nid (entry_key e) = Some (eq_node nid (entry_key e))" if "e \<in> set es" for e
    using assms(2) that by (intro eq_global_valid) (simp_all add: rb_rep_def)
qed

section \<open>Adding and removing\<close>

lemma add_reg_e2_node_heap:
  assumes r: "reg_rep n es" and "has_cu_du_id nid" "heap (node_to_rf n) a = None" "a \<noteq> 0"
    and "rfs \<noteq> []" "ok_pair \<lparr>pr_ran_func = rfs, pr_comp_conf_add = cca\<rparr>"
    and new: "\<forall>e \<in> set es. \<not> eq_node nid (entry_key e)"
  obtains n' where "add_reg_e2_node a n nid rfs cca = Some n'"
    "reg_rep n' (ins_entry order_e2_node (a, nid, \<lparr>pr_ran_func = rfs, pr_comp_conf_add = cca\<rparr>) es)"
    "\<forall>b. heap (node_to_rf n) b = None \<longrightarrow> b \<noteq> a \<longrightarrow> heap (node_to_rf n') b = None"
proof -
  have t: "node_tree_rep (node_to_rf n) es" using r by (simp add: reg_rep_def)
  obtain t' where t': "assoc_rb_tree_insert a (node_to_rf n) nid 32 \<lparr>pr_ran_func = rfs, pr_comp_conf_add = cca\<rparr> = Some t'"
    "node_tree_rep t' (ins_entry order_e2_node (a, nid, \<lparr>pr_ran_func = rfs, pr_comp_conf_add = cca\<rparr>) es)"
    "\<forall>b. heap (node_to_rf n) b = None \<longrightarrow> b \<noteq> a \<longrightarrow> heap t' b = None"
    using node_tree_insert[OF t assms(2,6,3,4)] by metis
  have "find (\<lambda>e. eq_node nid (entry_key e)) es = None" using new unfolding find_None_iff by blast
  then have "find_all_rb_tree (node_to_rf n) nid eq_global_e2_node_id = Some (assoc_rb_tree_end (node_to_rf n))"
    using node_tree_find[OF t assms(2)] by (simp add: assoc_rb_tree_end_def)
  moreover have "cp_loop cp_e2ap_node_component_config_add cca = Some cca" using cp_pair_cca[OF assms(6)] by simp
  moreover have "0 < length cca" using assms(6) by (simp add: ok_pair_def)
  ultimately have "add_reg_e2_node a n nid rfs cca = Some (n\<lparr>node_to_rf := t'\<rparr>)"
    using t'(1) assms(5) by (simp add: add_reg_e2_node_def cp_simps)
  with that t'(2,3) show thesis by (simp add: reg_rep_def)
qed

lemma add_reg_e2_node_rep:
  assumes r: "reg_rep n es" and "has_cu_du_id nid" "heap (node_to_rf n) a = None" "a \<noteq> 0"
    and "rfs \<noteq> []" "ok_pair \<lparr>pr_ran_func = rfs, pr_comp_conf_add = cca\<rparr>"
    and new: "\<forall>e \<in> set es. \<not> eq_node nid (entry_key e)"
  obtains n' where "add_reg_e2_node a n nid rfs cca = Some n'"
    "reg_rep n' (ins_entry order_e2_node (a, nid, \<lparr>pr_ran_func = rfs, pr_comp_conf_add = cca\<rparr>) es)"
  using add_reg_e2_node_heap[OF assms] that by blast

text \<open>A node that compares equal to one in the registry cannot be added.\<close>
lemma add_reg_e2_node_rejects:
  assumes r: "reg_rep n es" and "has_cu_du_id nid" "e \<in> set es" "eq_node nid (entry_key e)"
  shows "add_reg_e2_node a n nid rfs cca = None"
proof -
  have t: "node_tree_rep (node_to_rf n) es" using r by (simp add: reg_rep_def)
  obtain e' where e': "find (\<lambda>e. eq_node nid (entry_key e)) es = Some e'"
    using assms(3,4) find_None_iff[of "\<lambda>e. eq_node nid (entry_key e)" es] by (metis not_None_eq)
  then obtain i where "i < length es" "es ! i = e'" unfolding find_Some_iff by auto
  then have "fst e' \<noteq> dummy (node_to_rf n)"
    using iterates(4)[of has_cu_du_id order_e2_node "node_to_rf n" es i] t by (auto simp: node_tree_rep_def nth_append)
  moreover have "0 < assoc_rb_tree_size (node_to_rf n)" using node_tree_size[OF t] assms(3) by (cases es) auto
  moreover have "find_all_rb_tree (node_to_rf n) nid eq_global_e2_node_id = Some (fst e')"
    using node_tree_find[OF t assms(2)] e' by simp
  ultimately show ?thesis
    by (simp add: add_reg_e2_node_def assoc_rb_tree_end_def Option.bind_eq_None_conv)
qed

text \<open>Removing takes out the first node that compares equal.\<close>
lemma rm_reg_e2_node_rep:
  assumes r: "reg_rep n (xs @ e # ys)" and v: "has_cu_du_id nid" and e: "eq_node nid (entry_key e)"
    and xs: "\<forall>x \<in> set xs. \<not> eq_node nid (entry_key x)"
  obtains n' where "rm_reg_e2_node n nid = Some n'" "reg_rep n' (xs @ ys)"
proof -
  obtain a k p where ek: "e = (a, k, p)" by (cases e)
  have t: "node_tree_rep (node_to_rf n) (xs @ (a, k, p) # ys)" using r ek by (simp add: reg_rep_def)
  then have rb: "rb_rep has_cu_du_id order_e2_node (node_to_rf n) (xs @ (a, k, p) # ys)"
    and sz: "key_sz (node_to_rf n) = 32" "has_free_func (node_to_rf n)" by (simp_all add: node_tree_rep_def)
  have "find (\<lambda>e. eq_node nid (entry_key e)) (xs @ (a, k, p) # ys) = Some (a, k, p)"
    using xs e ek by (induction xs) simp_all
  then have f: "find_all_rb_tree (node_to_rf n) nid eq_global_e2_node_id = Some a"
    using node_tree_find[OF t v] by simp
  obtain T where T: "assoc_rb_tree_extract_node (node_to_rf n) a = Some T"
    "\<exists>m. heap T a = Some m \<and> n_key m = Some k \<and> n_value m = Some p"
    "rb_rep has_cu_du_id order_e2_node (T\<lparr>heap := (heap T)(a := None), tree_size := tree_size T - 1\<rparr>) (xs @ ys)"
    "tree_size T = length (xs @ (a, k, p) # ys)" "key_sz T = key_sz (node_to_rf n)"
    "has_free_func T = has_free_func (node_to_rf n)" "a \<noteq> dummy (node_to_rf n)"
    using extract_node_rep[OF rb e2_node.comparator_axioms] by metis
  let ?T = "T\<lparr>heap := (heap T)(a := None), tree_size := tree_size T - 1\<rparr>"
  have "assoc_rb_tree_free_it (node_to_rf n) a = Some ((Some k, Some p), ?T)"
    using T sz by (auto simp: assoc_rb_tree_free_it_def get_def free_node_rb_tree_def)
  then have "rm_reg_e2_node n nid = Some (n\<lparr>node_to_rf := ?T\<rparr>)"
    using f T(7) by (simp add: rm_reg_e2_node_def assoc_rb_tree_end_def)
  moreover have "reg_rep (n\<lparr>node_to_rf := ?T\<rparr>) (xs @ ys)"
    using T(3,5,6) sz t by (auto simp: reg_rep_def node_tree_rep_def)
  ultimately show thesis by (rule that)
qed

section \<open>Listing\<close>

text \<open>Inserting the entries of an ordered list one after the other appends each at the end.\<close>
lemma ins_entry_last:
  assumes "\<forall>x \<in> set xs. cmp (entry_key e) (entry_key x) \<noteq> 1" shows "ins_entry cmp e xs = xs @ [e]"
proof -
  have "takeWhile (\<lambda>x. cmp (entry_key e) (entry_key x) \<noteq> 1) xs = xs" using assms by (simp add: takeWhile_eq_all_conv)
  moreover have "dropWhile (\<lambda>x. cmp (entry_key e) (entry_key x) \<noteq> 1) xs = []" using assms by (simp add: dropWhile_eq_Nil_conv)
  ultimately show ?thesis by (simp add: ins_entry_def)
qed

text \<open>The addresses that an allocator returns for a copy: distinct and not null.\<close>
definition ok_mal :: "(nat \<Rightarrow> addr) \<Rightarrow> bool" where
  "ok_mal mal \<longleftrightarrow> inj mal \<and> (\<forall>i. mal i \<noteq> 0)"

text \<open>The copy of the first \<open>i\<close> entries.\<close>
definition moved :: "(nat \<Rightarrow> addr) \<Rightarrow> nat \<Rightarrow> reg_entry list \<Rightarrow> reg_entry list" where
  "moved mal i es = map (\<lambda>j. (mal (Suc j), snd (es ! j))) [0..<i]"

lemma entry_key_moved: "entry_key (a, snd e) = entry_key e"
  by (simp add: entry_key_def)

lemma map_connected_moved: "i \<le> length es \<Longrightarrow> map connected (moved mal i es) = map connected (take i es)"
  by (rule nth_equalityI) (simp_all add: moved_def connected_def)

lemma cp_reg_loop_rep:
  assumes t: "node_tree_rep t es" and m: "ok_mal mal"
  shows "i \<le> length es \<Longrightarrow> node_tree_rep ans (moved mal i es) \<Longrightarrow> \<forall>j \<ge> i. heap ans (mal (Suc j)) = None \<Longrightarrow>
    \<exists>ans'. cp_reg_loop mal t ((map fst es @ [dummy t]) ! i) i ans = Some ans' \<and>
      node_tree_rep ans' (moved mal (length es) es)"
proof (induction "length es - i" arbitrary: i ans)
  case 0
  then show ?case by (simp add: cp_reg_loop.simps assoc_rb_tree_end_def nth_append)
next
  case (Suc k)
  then have i: "i < length es" by linarith
  have rb: "rb_rep has_cu_du_id order_e2_node t es" using t by (simp add: node_tree_rep_def)
  note it = iterates[OF rb i]
  obtain a key p where e: "es ! i = (a, key, p)" by (cases "es ! i")
  have mem: "(a, key, p) \<in> set es" using i e nth_mem[of i es] by simp
  then have v: "has_cu_du_id key" "ok_pair p" using t rb by (fastforce simp: node_tree_rep_def rb_rep_def)+
  have fr: "heap ans (mal (Suc i)) = None" "mal (Suc i) \<noteq> 0" using Suc.prems m by (auto simp: ok_mal_def)
  obtain ans1 where a1: "assoc_rb_tree_insert (mal (Suc i)) ans key 32 p = Some ans1"
    "node_tree_rep ans1 (ins_entry order_e2_node (mal (Suc i), key, p) (moved mal i es))"
    "\<forall>b. heap ans b = None \<longrightarrow> b \<noteq> mal (Suc i) \<longrightarrow> heap ans1 b = None"
    using node_tree_insert[OF Suc.prems(2) v fr] by metis
  have ord: "order_e2_node (entry_key (es ! i)) (entry_key (es ! j)) \<noteq> 1" if "j < i" for j
    using rb i that by (auto simp: rb_rep_def ordered_def sorted_wrt_iff_nth_less)
  have "ins_entry order_e2_node (mal (Suc i), key, p) (moved mal i es) = moved mal i es @ [(mal (Suc i), key, p)]"
    by (rule ins_entry_last) (use ord e in \<open>auto simp: moved_def entry_key_def\<close>)
  also have "\<dots> = moved mal (Suc i) es" using e by (simp add: moved_def)
  finally have r1: "node_tree_rep ans1 (moved mal (Suc i) es)" using a1(2) by simp
  have "\<forall>j \<ge> Suc i. heap ans1 (mal (Suc j)) = None"
  proof (intro allI impI)
    fix j assume j: "Suc i \<le> j"
    then have "mal (Suc j) \<noteq> mal (Suc i)" using m by (auto simp: ok_mal_def inj_eq)
    moreover have "heap ans (mal (Suc j)) = None" using Suc.prems(3) j by simp
    ultimately show "heap ans1 (mal (Suc j)) = None" using a1(3) by blast
  qed
  with Suc.hyps(1)[of "Suc i" ans1] Suc.hyps(2) i r1 obtain ans' where
    "cp_reg_loop mal t ((map fst es @ [dummy t]) ! Suc i) (Suc i) ans1 = Some ans'"
    "node_tree_rep ans' (moved mal (length es) es)" by fastforce
  then show ?case
    using it e a1(1) cp_pair_cca[OF v(2)]
    by (cases p) (simp add: cp_reg_loop.simps[of mal t "(map fst es @ [dummy t]) ! i"] assoc_rb_tree_end_def cp_simps)
qed

lemma cp_reg_e2_node_rep:
  assumes "reg_rep n es" "ok_mal mal"
  obtains t where "cp_reg_e2_node mal n = Some t" "node_tree_rep t (moved mal (length es) es)"
proof -
  have t: "node_tree_rep (node_to_rf n) es" using assms(1) by (simp add: reg_rep_def)
  then have rb: "rb_rep has_cu_du_id order_e2_node (node_to_rf n) es" by (simp add: node_tree_rep_def)
  obtain t0 where t0: "assoc_rb_tree_init (mal 0) 32 cmp_global_e2_node_id True = Some t0" "node_tree_rep t0 []"
    "heap t0 = [mal 0 \<mapsto> (init_node None None)\<lparr>n_color := ASSOC_BLACK\<rparr>]"
    using node_tree_init[of "mal 0"] assms(2) unfolding ok_mal_def by metis
  have "\<forall>j \<ge> 0. heap t0 (mal (Suc j)) = None" using t0(3) assms(2) by (auto simp: ok_mal_def inj_def)
  with cp_reg_loop_rep[OF t assms(2), of 0 t0] t0(2) obtain ans where
    ans: "cp_reg_loop mal (node_to_rf n) ((map fst es @ [dummy (node_to_rf n)]) ! 0) 0 t0 = Some ans"
    "node_tree_rep ans (moved mal (length es) es)" by (auto simp: moved_def)
  have "assoc_rb_tree_front (node_to_rf n) = Some ((map fst es @ [dummy (node_to_rf n)]) ! 0)"
    using front_rep[OF rb] by (cases es) (simp_all split: prod.splits)
  moreover have "assoc_rb_tree_size ans = assoc_rb_tree_size (node_to_rf n)"
    using node_tree_size[OF ans(2)] node_tree_size[OF t] by (simp add: moved_def)
  ultimately have "cp_reg_e2_node mal n = Some ans" using t0(1) ans(1) by (simp add: cp_reg_e2_node_def)
  with ans(2) show thesis using that by blast
qed

lemma gen_arr_loop_rep:
  assumes t: "node_tree_rep t es" and len: "length es \<le> len"
  shows "i \<le> length es \<Longrightarrow> gen_arr_loop t ((map fst es @ [dummy t]) ! i) i len dst = Some (dst @ map connected (drop i es))"
proof (induction "length es - i" arbitrary: i dst)
  case 0
  then show ?case by (simp add: gen_arr_loop.simps assoc_rb_tree_end_def nth_append)
next
  case (Suc k)
  then have i: "i < length es" by linarith
  have rb: "rb_rep has_cu_du_id order_e2_node t es" using t by (simp add: node_tree_rep_def)
  note it = iterates[OF rb i]
  obtain a key p where e: "es ! i = (a, key, p)" by (cases "es ! i")
  have "(a, key, p) \<in> set es" using i e nth_mem[of i es] by simp
  then have p: "ok_pair p" using t by (fastforce simp: node_tree_rep_def)
  have "cp_cca (pr_comp_conf_add p) = Some (pr_comp_conf_add p)"
    using p cp_pair_cca[OF p] by (simp add: cp_cca_def ok_pair_def)
  moreover have "drop i es = (a, key, p) # drop (Suc i) es" using i e by (metis Cons_nth_drop_Suc)
  moreover have "gen_arr_loop t ((map fst es @ [dummy t]) ! Suc i) (Suc i) len (dst @ [connected (a, key, p)]) =
      Some (dst @ [connected (a, key, p)] @ map connected (drop (Suc i) es))"
    using Suc.hyps(1)[of "Suc i"] Suc.hyps(2) i by fastforce
  ultimately show ?case
    using it e i len
    by (simp add: gen_arr_loop.simps[of t "(map fst es @ [dummy t]) ! i"] assoc_rb_tree_end_def cp_simps connected_def)
qed

text \<open>Beyond the end of the array.\<close>
lemma gen_arr_loop_overflow:
  assumes t: "node_tree_rep t es" and len: "len < length es"
  shows "i \<le> len \<Longrightarrow> gen_arr_loop t ((map fst es @ [dummy t]) ! i) i len dst = None"
proof (induction "len - i" arbitrary: i dst)
  case 0
  then show ?case using iterates(4)[of has_cu_du_id order_e2_node t es i] t len
    by (simp add: gen_arr_loop.simps[of t "(map fst es @ [dummy t]) ! i"] assoc_rb_tree_end_def node_tree_rep_def)
next
  case (Suc k)
  then have i: "i < length es" "Suc i \<le> len" using len by linarith+
  have rb: "rb_rep has_cu_du_id order_e2_node t es" using t by (simp add: node_tree_rep_def)
  note it = iterates[OF rb i(1)]
  have "gen_arr_loop t ((map fst es @ [dummy t]) ! Suc i) (Suc i) len d = None" for d
    using Suc.hyps(1)[of "Suc i"] Suc.hyps(2) i by fastforce
  then show ?case
    using it by (simp add: gen_arr_loop.simps[of t "(map fst es @ [dummy t]) ! i"] assoc_rb_tree_end_def
        Option.bind_eq_None_conv split: prod.splits)
qed

lemma front_place: "rb_rep vkey cmp T es \<Longrightarrow> assoc_rb_tree_front T = Some ((map fst es @ [dummy T]) ! 0)"
  using front_rep[of vkey cmp T es] by (cases es) (simp_all split: prod.splits)

lemma generate_e2_node_arr_rep:
  assumes "reg_rep n es" "ok_mal mal"
  shows "generate_e2_node_arr mal n =
    (if length es < 256 then Some \<lparr>arr_len = word_of_nat (length es), arr_n = map connected es\<rparr> else None)"
proof -
  obtain t where t: "cp_reg_e2_node mal n = Some t" "node_tree_rep t (moved mal (length es) es)"
    using cp_reg_e2_node_rep[OF assms] .
  let ?es = "moved mal (length es) es"
  have rb: "rb_rep has_cu_du_id order_e2_node t ?es" "has_free_func t" using t(2) by (simp_all add: node_tree_rep_def)
  obtain rel t' where rel: "assoc_rb_tree_free t = Some (rel, t')" using free_rep[OF rb] by metis
  have l: "length ?es = length es" by (simp add: moved_def)
  have sz: "assoc_rb_tree_size t = length es" using node_tree_size[OF t(2)] l by simp
  let ?len = "unat (word_of_nat (length es) :: uint8)"
  have len: "?len = length es mod 256" by (simp add: unat_of_nat)
  show ?thesis
  proof (cases "length es < 256")
    case True
    then have "gen_arr_loop t ((map fst ?es @ [dummy t]) ! 0) 0 ?len [] = Some (map connected ?es)"
      using gen_arr_loop_rep[OF t(2), of ?len 0 "[]"] l len by simp
    moreover have "map connected ?es = map connected es" using map_connected_moved[of "length es" es mal] by simp
    ultimately show ?thesis
      using True t(1) front_place[OF rb(1)] rel sz by (simp add: generate_e2_node_arr_def Let_def)
  next
    case False
    then have "?len < length es" unfolding len using mod_less_divisor[of 256 "length es"] by linarith
    then have "gen_arr_loop t ((map fst ?es @ [dummy t]) ! 0) 0 ?len [] = None"
      using gen_arr_loop_overflow[OF t(2), of ?len 0 "[]"] l by simp
    then show ?thesis using False t(1) front_place[OF rb(1)] sz by (simp add: generate_e2_node_arr_def Let_def)
  qed
qed

text \<open>The array can be released again.\<close>
lemma free_e2_node_arr_connected:
  assumes "\<forall>e \<in> set es. ok_pair (snd (snd e))"
  shows "free_e2_node_arr \<lparr>arr_len = l, arr_n = map connected es\<rparr> = Some ()"
proof -
  have "free_e2_node_connected (connected e) = Some ()" if "e \<in> set es" for e
  proof -
    have "0 < length (pr_comp_conf_add (snd (snd e)))" "length (pr_comp_conf_add (snd (snd e))) < 256"
      using assms that by (auto simp: ok_pair_def)
    then have "(word_of_nat (length (pr_comp_conf_add (snd (snd e)))) :: uint8) \<noteq> 0"
      by (simp add: word_unat_eq_iff unat_of_nat)
    then show ?thesis by (simp add: free_e2_node_connected_def connected_def word_gt_0)
  qed
  then have "cp_loop free_e2_node_connected (map connected es') = Some (map (\<lambda>_. ()) es')" if "set es' \<subseteq> set es" for es'
    using that by (induction es') auto
  from this[of "take (unat l) es"] show ?thesis
    by (simp add: free_e2_node_arr_def take_map set_take_subset)
qed

end
