(* ===== verification/Near_Ric.thy ===== *)
theory Near_Ric
  imports Ric_Tables Reg_Facts Mac_Codec Rlc_Codec Pdcp_Codec Gtp_Codec Slice_Codec
begin

text \<open>
  The near-real-time controller: src/ric/near_ric.c, with src/ric/plugin_ric.c, src/ric/e2_node.c,
  src/ric/asio_ric.c, src/ric/endpoint_ric.c and src/ric/generate_setup_response.c as far as the
  controller uses them.

  The state is the structure \<open>near_ric_t\<close>: the addresses of the E2 nodes, the file descriptors that are
  polled, the plug-ins, the listeners, the connected nodes, the counter of request numbers and the
  pending events.  What is sent and what the listeners are called with is recorded in two lists at its
  end: a message counts as sent when it is handed to the end point, un-encoded.  The kernel and the
  allocator are arguments: the file descriptor of a new timer, and the addresses \<open>mal\<close> of new nodes of
  the tables.  A plug-in is the record of its entry points, loaded at run time.
\<close>

section \<open>State\<close>

datatype sm_ag_if_rd_ind_e = MAC_STATS_V0 | RLC_STATS_V0 | PDCP_STATS_V0 | SLICE_STATS_V0 | TC_STATS_V0
  | GTP_STATS_V0 | KPM_STATS_V3_0 | RAN_CTRL_STATS_V1_03 | SM_AGENT_IF_READ_V0_END

text \<open>A decoded indication: its type and the union; what is not modelled of the union are its bytes.\<close>
datatype sm_ag_if_rd_ind_u = RD_MAC mac_ind_data | RD_RLC rlc_ind_data | RD_PDCP pdcp_ind_data | RD_SLICE slice_ind_data
  | RD_GTP gtp_ind_data | RD_BYTES "byte list"

record sm_ag_if_rd_ind =
  rd_type :: sm_ag_if_rd_ind_e
  rd_data :: sm_ag_if_rd_ind_u

text \<open>What the pointer of a control request points to.\<close>
datatype sm_ctrl_cmd = CTRL_MAC mac_ctrl_req_data | CTRL_RLC rlc_ctrl_req_data | CTRL_PDCP pdcp_ctrl_req_data
  | CTRL_GTP gtp_ctrl_req_data | CTRL_SLICE slice_ctrl_req_data | CTRL_BYTES byte_array

record sm_ric =
  sm_ran_func_id :: uint16
  on_subscription :: "byte_array \<Rightarrow> (byte_array \<times> byte_array option) option"
  on_indication :: "byte_array \<Rightarrow> byte_array \<Rightarrow> byte_array option \<Rightarrow> sm_ag_if_rd_ind option"
  on_control_req :: "sm_ctrl_cmd \<Rightarrow> (byte_array \<times> byte_array) option"

record e2_node =
  en_id :: global_e2_node_id
  en_accepted :: "uint16 list"

record near_ric =
  ep_nodes :: map_e2_node_sockaddr
  io :: "int set"
  sm_ds :: "(uint16, sm_ric) assoc_rb_tree"
  pub_sub :: "(uint16, string list) assoc_rb_tree"
  conn_e2_nodes :: "e2_node list"
  next_req_id :: uint32
  pending :: "(int, pending_event_ric) bi_map"
  nr_sent :: "(sctp_info \<times> e2ap_msg) list"
  nr_published :: "(string \<times> sm_ag_if_rd_ind) list"

section \<open>Input and output\<close>

definition add_fd_asio_ric :: "int set \<Rightarrow> int \<Rightarrow> int set option" where
  "add_fd_asio_ric fds fd = do {
     c_assert (0 < fd);
     c_assert (fd \<notin> fds);
     Some (insert fd fds)
   }"

definition create_timer_ms_asio_ric :: "int set \<Rightarrow> int \<Rightarrow> int \<Rightarrow> int \<Rightarrow> int set option" where
  "create_timer_ms_asio_ric fds tfd initial_ms interval_ms = do {
     c_assert (0 < initial_ms);
     c_assert (0 < interval_ms);
     c_assert (tfd \<noteq> - 1);
     add_fd_asio_ric fds tfd
   }"

definition rm_fd_asio_ric :: "int set \<Rightarrow> int \<Rightarrow> int set option" where
  "rm_fd_asio_ric fds fd = do {
     c_assert (fd \<in> fds);
     Some (fds - {fd})
   }"

definition e2ap_send_sctp_msg_ric :: "near_ric \<Rightarrow> sctp_info \<Rightarrow> e2ap_msg \<Rightarrow> near_ric" where
  "e2ap_send_sctp_msg_ric ric info m = ric\<lparr>nr_sent := nr_sent ric @ [(info, m)]\<rparr>"

definition e2ap_send_bytes_ric :: "near_ric \<Rightarrow> global_e2_node_id \<Rightarrow> e2ap_msg \<Rightarrow> near_ric option" where
  "e2ap_send_bytes_ric ric nid m = do {
     s \<leftarrow> find_map_e2_node_sad (ep_nodes ric) nid;
     Some (e2ap_send_sctp_msg_ric ric s m)
   }"

definition e2ap_reg_sock_addr_ric ::
  "(nat \<Rightarrow> addr) \<Rightarrow> near_ric \<Rightarrow> global_e2_node_id \<Rightarrow> sctp_info \<Rightarrow> near_ric option"
where
  "e2ap_reg_sock_addr_ric mal ric nid s = do {
     m \<leftarrow> add_map_e2_node_sad (mal 0) (mal 1) (ep_nodes ric) nid s;
     Some (ric\<lparr>ep_nodes := m\<rparr>)
   }"

definition e2ap_rm_sock_addr_ric :: "near_ric \<Rightarrow> sctp_info \<Rightarrow> (global_e2_node_id \<times> near_ric) option" where
  "e2ap_rm_sock_addr_ric ric s = do {
     (nid, m) \<leftarrow> rm_map_sad_e2_node (ep_nodes ric) s;
     Some (nid, ric\<lparr>ep_nodes := m\<rparr>)
   }"

section \<open>Plug-ins and listeners\<close>

definition sm_plugin_ric :: "near_ric \<Rightarrow> uint16 \<Rightarrow> sm_ric option" where
  "sm_plugin_ric ric fid = do {
     c_assert (0 < fid);
     it \<leftarrow> find_all_rb_tree (sm_ds ric) fid (\<lambda>a b. Some (eq_ran_func_id a b));
     c_assert (it \<noteq> assoc_rb_tree_end (sm_ds ric));
     v \<leftarrow> assoc_rb_tree_value (sm_ds ric) it;
     sm \<leftarrow> v;
     c_assert (sm_ran_func_id sm = fid);
     Some sm
   }"

text \<open>The array of listeners is changed in place, through the pointer in the tree.\<close>
definition set_value :: "('k, 'v) assoc_rb_tree \<Rightarrow> addr \<Rightarrow> 'v \<Rightarrow> ('k, 'v) assoc_rb_tree option" where
  "set_value tree it v = do {
     n \<leftarrow> get tree it;
     Some (tree\<lparr>heap := (heap tree)(it \<mapsto> n\<lparr>n_value := Some v\<rparr>)\<rparr>)
   }"

definition register_listeners_for_ran_func_id :: "addr \<Rightarrow> near_ric \<Rightarrow> uint16 \<Rightarrow> string \<Rightarrow> near_ric option" where
  "register_listeners_for_ran_func_id a ric fid subs = do {
     it \<leftarrow> find_all_rb_tree (pub_sub ric) fid (\<lambda>a b. Some (eq_ran_func_id a b));
     if it = assoc_rb_tree_end (pub_sub ric) then do {
       t \<leftarrow> assoc_rb_tree_insert a (pub_sub ric) fid 2 [subs];
       Some (ric\<lparr>pub_sub := t\<rparr>)
     }
     else do {
       v \<leftarrow> assoc_rb_tree_value (pub_sub ric) it;
       arr \<leftarrow> v;
       t \<leftarrow> set_value (pub_sub ric) it (arr @ [subs]);
       Some (ric\<lparr>pub_sub := t\<rparr>)
     }
   }"

partial_function (option) load_default_loop :: "(nat \<Rightarrow> addr) \<Rightarrow> addr \<Rightarrow> nat \<Rightarrow> near_ric \<Rightarrow> near_ric option" where
  "load_default_loop mal it i ric =
     (if it \<noteq> assoc_rb_tree_end (sm_ds ric) then do {
        key \<leftarrow> assoc_rb_tree_key (sm_ds ric) it;
        fid \<leftarrow> key;
        ric \<leftarrow> register_listeners_for_ran_func_id (mal i) ric fid ''stdout listener'';
        ric \<leftarrow> register_listeners_for_ran_func_id (mal i) ric fid ''redis listener'';
        ric \<leftarrow> register_listeners_for_ran_func_id (mal i) ric fid ''influx listener'';
        it \<leftarrow> assoc_rb_tree_next (sm_ds ric) it;
        load_default_loop mal it (Suc i) ric
      }
      else Some ric)"

definition load_default_pub_sub_ric :: "(nat \<Rightarrow> addr) \<Rightarrow> near_ric \<Rightarrow> near_ric option" where
  "load_default_pub_sub_ric mal ric = do {
     it \<leftarrow> assoc_rb_tree_front (sm_ds ric);
     load_default_loop mal it 0 ric
   }"

text \<open>The listeners that are called are those of the first function of the tree, not of the one found.\<close>
definition publish_ind_msg :: "near_ric \<Rightarrow> uint16 \<Rightarrow> sm_ag_if_rd_ind \<Rightarrow> near_ric option" where
  "publish_ind_msg ric fid d = do {
     start_it \<leftarrow> assoc_rb_tree_front (pub_sub ric);
     sm_it \<leftarrow> find_if_rb_tree (pub_sub ric) start_it (assoc_rb_tree_end (pub_sub ric)) fid
       (\<lambda>a b. Some (eq_ran_func_id a b));
     c_assert (sm_it \<noteq> assoc_rb_tree_end (pub_sub ric));
     v \<leftarrow> assoc_rb_tree_value (pub_sub ric) start_it;
     arr \<leftarrow> v;
     Some (ric\<lparr>nr_published := nr_published ric @ map (\<lambda>s. (s, d)) arr\<rparr>)
   }"

section \<open>Pending events\<close>

definition wait_ms :: int where
  "wait_ms = 3000"

text \<open>A timer is started and the event is inserted under its file descriptor.\<close>
definition add_pending_event ::
  "(nat \<Rightarrow> addr) \<Rightarrow> int \<Rightarrow> near_ric \<Rightarrow> pending_event_ric \<Rightarrow> near_ric option"
where
  "add_pending_event mal fd_timer ric ev = do {
     fds \<leftarrow> create_timer_ms_asio_ric (io ric) fd_timer wait_ms wait_ms;
     p \<leftarrow> bi_map_insert (mal 0) (mal 1) (pending ric) fd_timer 4 ev 12;
     Some (ric\<lparr>io := fds, pending := p\<rparr>)
   }"

definition stop_pending_event :: "near_ric \<Rightarrow> pending_event_ric \<Rightarrow> near_ric option" where
  "stop_pending_event ric ev = do {
     (fd, freed, p) \<leftarrow> bi_map_extract_right (pending ric) ev 12;
     c_assert (0 < fd);
     fds \<leftarrow> rm_fd_asio_ric (io ric) fd;
     Some (ric\<lparr>pending := p, io := fds\<rparr>)
   }"

section \<open>Requests of the iApp\<close>

text \<open>The write through a pointer to 16 bits: the low half of the field of 32 bits.\<close>
definition set_low16 :: "uint16 \<Rightarrow> uint32 \<Rightarrow> uint32" where
  "set_low16 w x = word_of_nat (unat x div 65536 * 65536 + unat w)"

definition with_req_id :: "uint16 \<Rightarrow> ric_gen_id \<Rightarrow> ric_gen_id" where
  "with_req_id w i = i\<lparr>ric_req_id := set_low16 w (ric_req_id i)\<rparr>"

text \<open>The number of the request, the request as changed in place, and the new state.\<close>
definition fwd_ric_subscription_request ::
  "(nat \<Rightarrow> addr) \<Rightarrow> int \<Rightarrow> near_ric \<Rightarrow> global_e2_node_id \<Rightarrow> ric_subscription_request \<Rightarrow>
    (uint16 \<times> ric_subscription_request \<times> near_ric) option"
where
  "fwd_ric_subscription_request mal fd_timer ric nid sr = do {
     let req = (ucast (next_req_id ric) :: uint16);
     let ric = ric\<lparr>next_req_id := next_req_id ric + 1\<rparr>;
     let sr = sr\<lparr>sr_ric_id := with_req_id req (sr_ric_id sr)\<rparr>;
     ric \<leftarrow> add_pending_event mal fd_timer ric \<lparr>p_ev = SUBSCRIPTION_REQUEST_PENDING_EVENT, p_id = sr_ric_id sr\<rparr>;
     ric \<leftarrow> e2ap_send_bytes_ric ric nid (ric_sub_req sr);
     Some (req, sr, ric)
   }"

definition fwd_ric_subscription_request_delete ::
  "(nat \<Rightarrow> addr) \<Rightarrow> int \<Rightarrow> near_ric \<Rightarrow> global_e2_node_id \<Rightarrow> ric_subscription_delete_request \<Rightarrow> near_ric option"
where
  "fwd_ric_subscription_request_delete mal fd_timer ric nid sdr = do {
     let ev = \<lparr>p_ev = SUBSCRIPTION_DELETE_REQUEST_PENDING_EVENT, p_id = sdr_ric_id sdr\<rparr>;
     it \<leftarrow> find_all_rb_tree (right_tree (pending ric)) ev (\<lambda>a b. Some (eq_pending_event_ric a b));
     if it \<noteq> assoc_rb_tree_end (right_tree (pending ric)) then Some ric
     else do {
       ric \<leftarrow> add_pending_event mal fd_timer ric ev;
       e2ap_send_bytes_ric ric nid (ric_sub_del_req sdr)
     }
   }"

definition fwd_ric_control_request ::
  "(nat \<Rightarrow> addr) \<Rightarrow> int \<Rightarrow> near_ric \<Rightarrow> global_e2_node_id \<Rightarrow> ric_control_request \<Rightarrow>
    (uint16 \<times> ric_control_request \<times> near_ric) option"
where
  "fwd_ric_control_request mal fd_timer ric nid cr = do {
     let req = (ucast (next_req_id ric) :: uint16);
     let ric = ric\<lparr>next_req_id := next_req_id ric + 1\<rparr>;
     let cr = cr\<lparr>cr_ric_id := with_req_id req (cr_ric_id cr)\<rparr>;
     ric \<leftarrow> add_pending_event mal fd_timer ric \<lparr>p_ev = CONTROL_REQUEST_PENDING_EVENT, p_id = cr_ric_id cr\<rparr>;
     ric \<leftarrow> e2ap_send_bytes_ric ric nid (ric_ctrl_req cr);
     Some (req, cr, ric)
   }"

section \<open>Requests of the process itself\<close>

definition generate_subscription_request ::
  "near_ric \<Rightarrow> sm_ric \<Rightarrow> uint16 \<Rightarrow> byte_array \<Rightarrow> (ric_subscription_request \<times> near_ric) option"
where
  "generate_subscription_request ric sm fid cmd = do {
     let rid = \<lparr>ric_req_id = next_req_id ric, ric_inst_id = 0, ran_func_id = fid\<rparr>;
     let ric = ric\<lparr>next_req_id := next_req_id ric + 1\<rparr>;
     (et, ad) \<leftarrow> on_subscription sm cmd;
     Some (\<lparr>sr_ric_id = rid, sr_event_trigger = et,
       sr_action = [\<lparr>act_id = 0, act_type = RIC_ACT_REPORT, act_definition = ad, subseq_action = None\<rparr>]\<rparr>, ric)
   }"

definition report_service_near_ric ::
  "(nat \<Rightarrow> addr) \<Rightarrow> int \<Rightarrow> near_ric \<Rightarrow> global_e2_node_id \<Rightarrow> uint16 \<Rightarrow> byte_array \<Rightarrow> (uint16 \<times> near_ric) option"
where
  "report_service_near_ric mal fd_timer ric nid fid cmd = do {
     c_assert (fid \<noteq> 0);
     c_assert (fid < 150);
     sm \<leftarrow> sm_plugin_ric ric fid;
     (sr, ric) \<leftarrow> generate_subscription_request ric sm fid cmd;
     ric \<leftarrow> add_pending_event mal fd_timer ric \<lparr>p_ev = SUBSCRIPTION_REQUEST_PENDING_EVENT, p_id = sr_ric_id sr\<rparr>;
     ric \<leftarrow> e2ap_send_bytes_ric ric nid (ric_sub_req sr);
     Some (ucast (ric_req_id (sr_ric_id sr)), ric)
   }"

definition rm_report_service_near_ric ::
  "(nat \<Rightarrow> addr) \<Rightarrow> int \<Rightarrow> near_ric \<Rightarrow> global_e2_node_id \<Rightarrow> uint16 \<Rightarrow> uint16 \<Rightarrow> near_ric option"
where
  "rm_report_service_near_ric mal fd_timer ric nid fid act = do {
     c_assert (0 < act);
     let sd = \<lparr>sdr_ric_id = \<lparr>ric_req_id = ucast act, ric_inst_id = 0, ran_func_id = fid\<rparr>\<rparr>;
     ric \<leftarrow> add_pending_event mal fd_timer ric
       \<lparr>p_ev = SUBSCRIPTION_DELETE_REQUEST_PENDING_EVENT, p_id = sdr_ric_id sd\<rparr>;
     e2ap_send_bytes_ric ric nid (ric_sub_del_req sd)
   }"

definition generate_control_request ::
  "near_ric \<Rightarrow> sm_ric \<Rightarrow> sm_ctrl_cmd \<Rightarrow> (ric_control_request \<times> near_ric) option"
where
  "generate_control_request ric sm ctrl = do {
     let rid = \<lparr>ric_req_id = next_req_id ric, ric_inst_id = 0, ran_func_id = sm_ran_func_id sm\<rparr>;
     let ric = ric\<lparr>next_req_id := next_req_id ric + 1\<rparr>;
     (hdr, msg) \<leftarrow> on_control_req sm ctrl;
     Some (\<lparr>cr_ric_id = rid, cr_call_process_id = None, cr_hdr = hdr, cr_msg = msg,
       cr_ack_req = Some RIC_CONTROL_REQUEST_ACK\<rparr>, ric)
   }"

definition control_service_near_ric ::
  "(nat \<Rightarrow> addr) \<Rightarrow> int \<Rightarrow> near_ric \<Rightarrow> global_e2_node_id \<Rightarrow> uint16 \<Rightarrow> sm_ctrl_cmd \<Rightarrow> near_ric option"
where
  "control_service_near_ric mal fd_timer ric nid fid ctrl = do {
     c_assert (0 < fid);
     c_assert (fid = 3 \<or> fid = 145 \<or> fid = 146);
     sm \<leftarrow> sm_plugin_ric ric fid;
     (cr, ric) \<leftarrow> generate_control_request ric sm ctrl;
     ric \<leftarrow> add_pending_event mal fd_timer ric \<lparr>p_ev = CONTROL_REQUEST_PENDING_EVENT, p_id = cr_ric_id cr\<rparr>;
     e2ap_send_bytes_ric ric nid (ric_ctrl_req cr)
   }"

section \<open>Setup\<close>

definition init_e2_node :: "global_e2_node_id \<Rightarrow> uint16 list \<Rightarrow> e2_node" where
  "init_e2_node nid accepted = \<lparr>en_id = nid, en_accepted = accepted\<rparr>"

definition cp_e2_node :: "e2_node \<Rightarrow> e2_node" where
  "cp_e2_node src = \<lparr>en_id = cp_global_e2_node_id (en_id src), en_accepted = map (\<lambda>x. x) (en_accepted src)\<rparr>"

text \<open>The copies that the process asks for; the array is the list of its elements.\<close>
definition e2_nodes_near_ric_api :: "near_ric \<Rightarrow> e2_node list" where
  "e2_nodes_near_ric_api ric = map cp_e2_node (conn_e2_nodes ric)"

text \<open>A function that no plug-in has fails an assertion.\<close>
definition accept_ran_func :: "near_ric \<Rightarrow> e2_setup_request \<Rightarrow> uint16 list option" where
  "accept_ran_func ric req = cp_loop (\<lambda>rf. do {
     let fid = rf_id rf;
     it \<leftarrow> find_all_rb_tree (sm_ds ric) fid (\<lambda>a b. Some (eq_ran_func_id a b));
     c_assert (it \<noteq> assoc_rb_tree_end (sm_ds ric));
     k \<leftarrow> assoc_rb_tree_key (sm_ds ric) it;
     c_assert (k = Some fid);
     Some fid
   }) (stp_ran_func_item req)"

definition generate_setup_response_v2 :: "near_ric \<Rightarrow> e2_setup_request \<Rightarrow> e2_setup_response option" where
  "generate_setup_response_v2 ric req = do {
     acc \<leftarrow> accept_ran_func ric req;
     c_assert (0 < length (stp_comp_conf_add req) \<and> length (stp_comp_conf_add req) < 1025);
     add_ack \<leftarrow> cp_loop (\<lambda>c. do {
       i \<leftarrow> cp_e2ap_node_comp_id (cca_comp_id c);
       Some \<lparr>caa_interface_type = cca_interface_type c, caa_comp_id = i,
         caa_ack = \<lparr>ack_outcome = SUCCESS_E2AP_NODE_COMP_CONF_ACK, ack_cause = None\<rparr>\<rparr>
     }) (stp_comp_conf_add req);
     Some \<lparr>stq_trans_id = stp_trans_id req, stq_id = \<lparr>ric_plmn = plmn (stp_id req), near_ric_id = 25\<rparr>,
       stq_accepted = acc, stq_rejected = [], stq_comp_config_add_ack = add_ack\<rparr>
   }"

section \<open>Start and end\<close>

text \<open>The new controller, without the plug-ins, which are loaded from a directory, and with the end
  point's file descriptor.\<close>
definition init_near_ric ::
  "(nat \<Rightarrow> addr) \<Rightarrow> int \<Rightarrow> (uint16, sm_ric) assoc_rb_tree \<Rightarrow> near_ric option"
where
  "init_near_ric mal ep_fd plugins = do {
     nodes \<leftarrow> init_map_e2_node_sad (mal 0) (mal 1);
     fds \<leftarrow> add_fd_asio_ric {} ep_fd;
     ps \<leftarrow> assoc_rb_tree_init (mal 2) 2 (\<lambda>a b. Some (cmp_ran_func_id a b)) True;
     pend \<leftarrow> bi_map_init (mal 3) (mal 4) 4 12 cmp_fd (\<lambda>a b. Some (cmp_pending_event_ric a b)) True True;
     load_default_pub_sub_ric (\<lambda>i. mal (5 + i)) \<lparr>ep_nodes = nodes, io = fds, sm_ds = plugins, pub_sub = ps,
       conn_e2_nodes = [], next_req_id = 1021, pending = pend, nr_sent = [], nr_published = []\<rparr>
   }"

text \<open>What the release functions of the pending events assert.\<close>
definition free_fd :: "int option \<times> pending_event_ric option \<Rightarrow> unit option" where
  "free_fd kv = do { fd \<leftarrow> fst kv; v \<leftarrow> snd kv; c_assert (0 < fd) }"

definition free_pending_ev_ric :: "pending_event_ric option \<times> int option \<Rightarrow> unit option" where
  "free_pending_ev_ric kv = do { ev \<leftarrow> fst kv; v \<leftarrow> snd kv; b \<leftarrow> valid_pending_event (p_ev ev); c_assert b }"

definition free_pending :: "near_ric \<Rightarrow> unit option" where
  "free_pending ric = do {
     (ls, rs, m) \<leftarrow> bi_map_free (pending ric);
     us \<leftarrow> cp_loop free_fd ls;
     us \<leftarrow> cp_loop free_pending_ev_ric rs;
     Some ()
   }"

end
