(* ===== verification/Iapp.thy ===== *)
theory Iapp
  imports Near_Ric
begin

text \<open>
  The iApp, which serves the xApps: src/ric/iApp/e42_iapp.c, src/ric/iApp/msg_handler_iapp.c,
  src/ric/iApp/e42_iapp_api.c and src/ric/iApp/endpoint_iapp.c.

  The iApp calls the controller and the controller calls the iApp, so the handlers work on both
  states, the record \<open>controller\<close>.  A handler takes the decoded message and returns the answer and the
  new state; a failed assertion, which ends the process, is \<^term>\<open>None\<close>.  The arguments \<open>mal\<close> and
  \<open>fd\<close> are what the allocator and the kernel return: \<open>mal i j\<close> is the address of the \<open>j\<close>-th node that
  the \<open>i\<close>-th call of the handler allocates.
\<close>

section \<open>State\<close>

type_synonym alloc = "nat \<Rightarrow> nat \<Rightarrow> addr"

record e42_iapp =
  ia_xapps :: map_xapps_sockaddr
  ia_xapp_id :: uint32
  ia_e2_nodes :: reg_e2_nodes
  ia_map_ric_id :: map_ric_id
  ia_sent :: "(sctp_info \<times> e2ap_msg) list"

record controller =
  ric :: near_ric
  iapp :: e42_iapp

definition init_e42_iapp :: "(nat \<Rightarrow> addr) \<Rightarrow> e42_iapp option" where
  "init_e42_iapp mal = do {
     xs \<leftarrow> init_map_xapps_sad (mal 0) (mal 1);
     reg \<leftarrow> init_reg_e2_node (mal 2);
     m \<leftarrow> init_map_ric_id (mal 3) (mal 4);
     Some \<lparr>ia_xapps = xs, ia_xapp_id = 7, ia_e2_nodes = reg, ia_map_ric_id = m, ia_sent = []\<rparr>
   }"

definition e2ap_send_sctp_msg_iapp :: "controller \<Rightarrow> sctp_info \<Rightarrow> e2ap_msg \<Rightarrow> controller" where
  "e2ap_send_sctp_msg_iapp c info m = c\<lparr>iapp := (iapp c)\<lparr>ia_sent := ia_sent (iapp c) @ [(info, m)]\<rparr>\<rparr>"

definition e2ap_reg_sock_addr_iapp :: "(nat \<Rightarrow> addr) \<Rightarrow> e42_iapp \<Rightarrow> uint16 \<Rightarrow> sctp_info \<Rightarrow> e42_iapp option" where
  "e2ap_reg_sock_addr_iapp mal i xid s = do {
     m \<leftarrow> add_map_xapps_sad (mal 0) (mal 1) (ia_xapps i) xid s;
     Some (i\<lparr>ia_xapps := m\<rparr>)
   }"

definition add_e2_node_iapp ::
  "addr \<Rightarrow> e42_iapp \<Rightarrow> global_e2_node_id \<Rightarrow> ran_function list \<Rightarrow> e2ap_node_component_config_add list \<Rightarrow> e42_iapp option"
where
  "add_e2_node_iapp a i nid ran_func cca = do {
     c_assert (0 < length ran_func);
     r \<leftarrow> add_reg_e2_node a (ia_e2_nodes i) nid ran_func cca;
     Some (i\<lparr>ia_e2_nodes := r\<rparr>)
   }"

definition rm_e2_node_iapp :: "e42_iapp \<Rightarrow> global_e2_node_id \<Rightarrow> e42_iapp option" where
  "rm_e2_node_iapp i nid = do {
     r \<leftarrow> rm_reg_e2_node (ia_e2_nodes i) nid;
     Some (i\<lparr>ia_e2_nodes := r\<rparr>)
   }"

section \<open>Messages from the E2 nodes\<close>

text \<open>The end of every handler that passes a message on: the address of the xApp is looked up and the
  message is sent.\<close>
definition send_to_xapp :: "controller \<Rightarrow> uint16 \<Rightarrow> e2ap_msg \<Rightarrow> controller option" where
  "send_to_xapp c xid ans = do {
     info \<leftarrow> find_map_xapps_sad (ia_xapps (iapp c)) xid;
     Some (e2ap_send_sctp_msg_iapp c info ans)
   }"

definition e2ap_handle_subscription_response_iapp ::
  "controller \<Rightarrow> ric_subscription_response \<Rightarrow> (e2ap_msg \<times> controller) option"
where
  "e2ap_handle_subscription_response_iapp c src = do {
     xpctd \<leftarrow> find_xapp_map_ric_id (ia_map_ric_id (iapp c)) (ucast (ric_req_id (rs_ric_id src)));
     x \<leftarrow> xpctd;
     c_assert (ran_func_id (rs_ric_id src) = ran_func_id (x_ric_id x));
     c_assert (ric_inst_id (rs_ric_id src) = ric_inst_id (x_ric_id x));
     let dst = mv_ric_subscription_respponse src;
     let dst = dst\<lparr>rs_ric_id := (rs_ric_id dst)\<lparr>ric_req_id := ric_req_id (x_ric_id x)\<rparr>\<rparr>;
     c \<leftarrow> send_to_xapp c (xapp_id x) (ric_sub_resp dst);
     Some (no_msg, c)
   }"

definition e2ap_handle_subscription_delete_response_iapp ::
  "controller \<Rightarrow> ric_subscription_delete_response \<Rightarrow> (e2ap_msg \<times> controller) option"
where
  "e2ap_handle_subscription_delete_response_iapp c src = do {
     xpctd \<leftarrow> find_xapp_map_ric_id (ia_map_ric_id (iapp c)) (ucast (ric_req_id (sdp_ric_id src)));
     (case xpctd of
         None \<Rightarrow> Some (no_msg, c)
       | Some x \<Rightarrow> do {
           c_assert (ran_func_id (sdp_ric_id src) = ran_func_id (x_ric_id x));
           c_assert (ric_inst_id (sdp_ric_id src) = ric_inst_id (x_ric_id x));
           c \<leftarrow> send_to_xapp c (xapp_id x) (ric_sub_del_resp \<lparr>sdp_ric_id = x_ric_id x\<rparr>);
           (n, m) \<leftarrow> rm_map_ric_id (ia_map_ric_id (iapp c)) x;
           Some (no_msg, c\<lparr>iapp := (iapp c)\<lparr>ia_map_ric_id := m\<rparr>\<rparr>)
         })
   }"

definition e2ap_handle_e42_ric_control_ack_iapp ::
  "controller \<Rightarrow> ric_control_acknowledge \<Rightarrow> (e2ap_msg \<times> controller) option"
where
  "e2ap_handle_e42_ric_control_ack_iapp c src = do {
     xpctd \<leftarrow> find_xapp_map_ric_id (ia_map_ric_id (iapp c)) (ucast (ric_req_id (ca_ric_id src)));
     x \<leftarrow> xpctd;
     c_assert (ran_func_id (ca_ric_id src) = ran_func_id (x_ric_id x));
     c_assert (ric_inst_id (ca_ric_id src) = ric_inst_id (x_ric_id x));
     let ans = ric_ctrl_ack \<lparr>ca_ric_id = x_ric_id x, ca_call_process_id = None, ca_control_outcome = None\<rparr>;
     c \<leftarrow> send_to_xapp c (xapp_id x) ans;
     (n, m) \<leftarrow> rm_map_ric_id (ia_map_ric_id (iapp c)) x;
     Some (no_msg, c\<lparr>iapp := (iapp c)\<lparr>ia_map_ric_id := m\<rparr>\<rparr>)
   }"

definition e2ap_handle_ric_indication_iapp ::
  "controller \<Rightarrow> ric_indication \<Rightarrow> (e2ap_msg \<times> controller) option"
where
  "e2ap_handle_ric_indication_iapp c src = do {
     xpctd \<leftarrow> find_xapp_map_ric_id (ia_map_ric_id (iapp c)) (ucast (ric_req_id (ind_ric_id src)));
     (case xpctd of
         None \<Rightarrow> Some (no_msg, c)
       | Some x \<Rightarrow> do {
           c_assert (ran_func_id (ind_ric_id src) = ran_func_id (x_ric_id x));
           c_assert (ric_inst_id (ind_ric_id src) = ric_inst_id (x_ric_id x));
           let dst = mv_ric_indication src;
           let dst = dst\<lparr>ind_ric_id := (ind_ric_id dst)\<lparr>ric_req_id := ric_req_id (x_ric_id x)\<rparr>\<rparr>;
           c \<leftarrow> send_to_xapp c (xapp_id x) (ric_ind dst);
           Some (no_msg, c)
         })
   }"

section \<open>Messages from the xApps\<close>

definition generate_e42_setup_response ::
  "(nat \<Rightarrow> addr) \<Rightarrow> e42_iapp \<Rightarrow> e42_setup_request \<Rightarrow> (e42_setup_response \<times> e42_iapp) option"
where
  "generate_e42_setup_response mal i req = do {
     c_assert (0 < length (e42_ran_func_item req));
     ans \<leftarrow> generate_e2_node_arr mal (ia_e2_nodes i);
     Some (\<lparr>stx_xapp_id = ucast (ia_xapp_id i), stx_len_e2_nodes_conn = arr_len ans, stx_nodes = arr_n ans\<rparr>,
       i\<lparr>ia_xapp_id := ia_xapp_id i + 1\<rparr>)
   }"

definition e2ap_handle_e42_setup_request_iapp ::
  "alloc \<Rightarrow> controller \<Rightarrow> e42_setup_request \<Rightarrow> (e2ap_msg \<times> controller) option"
where
  "e2ap_handle_e42_setup_request_iapp mal c req = do {
     (sr, i) \<leftarrow> generate_e42_setup_response (mal 0) (iapp c) req;
     Some (e42_stp_resp sr, c\<lparr>iapp := i\<rparr>)
   }"

definition valid_xapp_id :: "e42_iapp \<Rightarrow> uint32 \<Rightarrow> bool option" where
  "valid_xapp_id i xid = do { c_assert (xid < 2 ^ 16); Some (xid \<le> ia_xapp_id i) }"

fun any_node :: "global_e2_node_id \<Rightarrow> e2_node_connected list \<Rightarrow> bool option" where
  "any_node nid [] = Some False"
| "any_node nid (n # ns) = do {
     b \<leftarrow> eq_global_e2_node_id (nc_id n) nid;
     if b then Some True else any_node nid ns
   }"

definition valid_global_e2_node :: "(nat \<Rightarrow> addr) \<Rightarrow> e42_iapp \<Rightarrow> global_e2_node_id \<Rightarrow> bool option" where
  "valid_global_e2_node mal i nid = do {
     nodes \<leftarrow> generate_e2_node_arr mal (ia_e2_nodes i);
     b \<leftarrow> any_node nid (take (unat (arr_len nodes)) (arr_n nodes));
     free_e2_node_arr nodes;
     Some b
   }"

definition e2ap_handle_e42_ric_subscription_delete_request_iapp ::
  "alloc \<Rightarrow> int \<Rightarrow> controller \<Rightarrow> e42_ric_subscription_delete_request \<Rightarrow> (e2ap_msg \<times> controller) option"
where
  "e2ap_handle_e42_ric_subscription_delete_request_iapp mal fd c src = do {
     let x = \<lparr>x_ric_id = sdr_ric_id (e42_sdr src), xapp_id = e42_sdr_xapp_id src\<rparr>;
     n \<leftarrow> find_ric_req_map_ric_id (ia_map_ric_id (iapp c)) x;
     c_assert (ric_req_type n = SUBSCRIPTION_RIC_REQUEST_TYPE);
     let dst = cp_ric_subscription_delete_request (e42_sdr src);
     let dst = dst\<lparr>sdr_ric_id := (sdr_ric_id dst)\<lparr>ric_req_id := ric_req_id (e_ric_id n)\<rparr>\<rparr>;
     r \<leftarrow> fwd_ric_subscription_request_delete (mal 0) fd (ric c) (e2_node_id n) dst;
     Some (no_msg, c\<lparr>ric := r\<rparr>)
   }"

text \<open>The request is stamped with its number in place, so that the entry of the table takes the other
  parts of the identifier from the stamped request.\<close>
definition e2ap_handle_e42_ric_subscription_request_iapp ::
  "alloc \<Rightarrow> int \<Rightarrow> controller \<Rightarrow> e42_ric_subscription_request \<Rightarrow> (e2ap_msg \<times> controller) option"
where
  "e2ap_handle_e42_ric_subscription_request_iapp mal fd c sr = do {
     b \<leftarrow> valid_xapp_id (iapp c) (ucast (e42_sr_xapp_id sr));
     c_assert b;
     b \<leftarrow> valid_global_e2_node (mal 0) (iapp c) (e42_sr_id sr);
     c_assert b;
     let x = \<lparr>x_ric_id = sr_ric_id (e42_sr sr), xapp_id = e42_sr_xapp_id sr\<rparr>;
     (new_ric_id, sr', r) \<leftarrow> fwd_ric_subscription_request (mal 1) fd (ric c) (e42_sr_id sr) (e42_sr sr);
     let n = \<lparr>e2_node_id = cp_global_e2_node_id (e42_sr_id sr), e_ric_id = sr_ric_id sr',
       ric_req_type = SUBSCRIPTION_RIC_REQUEST_TYPE\<rparr>;
     let n = n\<lparr>e_ric_id := (e_ric_id n)\<lparr>ric_req_id := ucast new_ric_id\<rparr>\<rparr>;
     m \<leftarrow> add_map_ric_id (mal 2 0) (mal 2 1) (ia_map_ric_id (iapp c)) n x;
     Some (no_msg, c\<lparr>ric := r, iapp := (iapp c)\<lparr>ia_map_ric_id := m\<rparr>\<rparr>)
   }"

definition e2ap_handle_e42_ric_control_request_iapp ::
  "alloc \<Rightarrow> int \<Rightarrow> controller \<Rightarrow> e42_ric_control_request \<Rightarrow> (e2ap_msg \<times> controller) option"
where
  "e2ap_handle_e42_ric_control_request_iapp mal fd c cr = do {
     b \<leftarrow> valid_xapp_id (iapp c) (ucast (e42_cr_xapp_id cr));
     c_assert b;
     b \<leftarrow> valid_global_e2_node (mal 0) (iapp c) (e42_cr_id cr);
     c_assert b;
     let x = \<lparr>x_ric_id = cr_ric_id (e42_ctrl_req cr), xapp_id = e42_cr_xapp_id cr\<rparr>;
     (new_ric_id, cr', r) \<leftarrow> fwd_ric_control_request (mal 1) fd (ric c) (e42_cr_id cr) (e42_ctrl_req cr);
     let n = \<lparr>e2_node_id = cp_global_e2_node_id (e42_cr_id cr), e_ric_id = cr_ric_id cr',
       ric_req_type = CONTROL_RIC_REQUEST_TYPE\<rparr>;
     let n = n\<lparr>e_ric_id := (e_ric_id n)\<lparr>ric_req_id := ucast new_ric_id\<rparr>\<rparr>;
     m \<leftarrow> add_map_ric_id (mal 2 0) (mal 2 1) (ia_map_ric_id (iapp c)) n x;
     Some (no_msg, c\<lparr>ric := r, iapp := (iapp c)\<lparr>ia_map_ric_id := m\<rparr>\<rparr>)
   }"

section \<open>Dispatch\<close>

text \<open>The table of handlers; a type that is not in it fails the first assertion.\<close>
definition e2ap_msg_handle_iapp ::
  "alloc \<Rightarrow> int \<Rightarrow> controller \<Rightarrow> e2ap_msg \<Rightarrow> (e2ap_msg \<times> controller) option"
where
  "e2ap_msg_handle_iapp mal fd c msg = (case msg of
       ric_sub_resp m \<Rightarrow> e2ap_handle_subscription_response_iapp c m
     | e42_stp_req m \<Rightarrow> e2ap_handle_e42_setup_request_iapp mal c m
     | e42_ric_sub_req m \<Rightarrow> e2ap_handle_e42_ric_subscription_request_iapp mal fd c m
     | e42_ric_sub_del_req m \<Rightarrow> e2ap_handle_e42_ric_subscription_delete_request_iapp mal fd c m
     | e42_ric_ctrl_req m \<Rightarrow> e2ap_handle_e42_ric_control_request_iapp mal fd c m
     | ric_ctrl_ack m \<Rightarrow> e2ap_handle_e42_ric_control_ack_iapp c m
     | ric_ind m \<Rightarrow> e2ap_handle_ric_indication_iapp c m
     | ric_sub_del_resp m \<Rightarrow> e2ap_handle_subscription_delete_response_iapp c m
     | _ \<Rightarrow> None)"

definition notify_msg_iapp :: "alloc \<Rightarrow> int \<Rightarrow> controller \<Rightarrow> e2ap_msg \<Rightarrow> controller option" where
  "notify_msg_iapp mal fd c msg = do {
     c_assert (case msg of ric_ind _ \<Rightarrow> True | ric_sub_resp _ \<Rightarrow> True | ric_sub_del_resp _ \<Rightarrow> True
       | ric_ctrl_ack _ \<Rightarrow> True | _ \<Rightarrow> False);
     (ans, c) \<leftarrow> e2ap_msg_handle_iapp mal fd c msg;
     c_assert (ans = no_msg);
     Some c
   }"

section \<open>The event loop\<close>

text \<open>A message from an xApp: the answer goes back to the address it came from, which is registered
  when the answer gives the xApp its number.\<close>
definition iapp_sctp_msg_arrived :: "alloc \<Rightarrow> int \<Rightarrow> controller \<Rightarrow> sctp_info \<Rightarrow> e2ap_msg \<Rightarrow> controller option" where
  "iapp_sctp_msg_arrived mal fd c info msg = do {
     (ans, c) \<leftarrow> e2ap_msg_handle_iapp mal fd c msg;
     c \<leftarrow> (case ans of
         e42_stp_resp r \<Rightarrow> do {
           i \<leftarrow> e2ap_reg_sock_addr_iapp (mal 3) (iapp c) (stx_xapp_id r) info;
           Some (c\<lparr>iapp := i\<rparr>)
         }
       | _ \<Rightarrow> Some c);
     if ans \<noteq> no_msg then Some (e2ap_send_sctp_msg_iapp c info ans) else Some c
   }"

text \<open>The subscriptions of an xApp that has gone away are deleted at their nodes, one after the other.\<close>
fun gen_e2ap_subs_delete :: "alloc \<Rightarrow> (nat \<Rightarrow> int) \<Rightarrow> nat \<Rightarrow> near_ric \<Rightarrow> e2_node_ric_id list \<Rightarrow> near_ric option" where
  "gen_e2ap_subs_delete mal fds i r [] = Some r"
| "gen_e2ap_subs_delete mal fds i r (n # ns) = do {
     r \<leftarrow> fwd_ric_subscription_request_delete (mal i) (fds i) r (e2_node_id n) \<lparr>sdr_ric_id = e_ric_id n\<rparr>;
     gen_e2ap_subs_delete mal fds (Suc i) r ns
   }"

definition rm_if_pending_subs :: "alloc \<Rightarrow> (nat \<Rightarrow> int) \<Rightarrow> controller \<Rightarrow> uint16 \<Rightarrow> controller option" where
  "rm_if_pending_subs mal fds c xid = do {
     arr \<leftarrow> find_all_subs_map_ric_id (ia_map_ric_id (iapp c)) xid;
     r \<leftarrow> gen_e2ap_subs_delete mal fds 0 (ric c) arr;
     Some (c\<lparr>ric := r\<rparr>)
   }"

definition iapp_connection_shutdown :: "alloc \<Rightarrow> (nat \<Rightarrow> int) \<Rightarrow> controller \<Rightarrow> sctp_info \<Rightarrow> controller option" where
  "iapp_connection_shutdown mal fds c info = do {
     xid \<leftarrow> find_map_xapps_xid (ia_xapps (iapp c)) info;
     rm_if_pending_subs mal fds c xid
   }"

end
