(* ===== verification/Msg_Handler_Ric.thy ===== *)
theory Msg_Handler_Ric
  imports Iapp
begin

text \<open>
  What the controller does with the messages of the E2 nodes: src/ric/msg_handler_ric.c,
  src/ric/not_handler_ric.c, and the event loop of src/ric/near_ric.c.

  The messages are handled by the threads of the pool, in parallel; each handler is one
  step here, its accesses to the tables being under their locks.
\<close>

section \<open>Handlers\<close>

definition e2ap_handle_subscription_response_ric ::
  "alloc \<Rightarrow> int \<Rightarrow> controller \<Rightarrow> ric_subscription_response \<Rightarrow> (e2ap_msg \<times> controller) option"
where
  "e2ap_handle_subscription_response_ric mal fd c resp = do {
     r \<leftarrow> stop_pending_event (ric c) \<lparr>p_ev = SUBSCRIPTION_REQUEST_PENDING_EVENT, p_id = rs_ric_id resp\<rparr>;
     c_assert (length (rs_not_admitted resp) = 0);
     c_assert (length (rs_admitted resp) = 1);
     c_assert (ric_act_id (rs_admitted resp ! 0) = 0);
     c \<leftarrow> notify_msg_iapp mal fd (c\<lparr>ric := r\<rparr>) (ric_sub_resp resp);
     Some (no_msg, c)
   }"

definition e2ap_handle_subscription_delete_response_ric ::
  "alloc \<Rightarrow> int \<Rightarrow> controller \<Rightarrow> ric_subscription_delete_response \<Rightarrow> (e2ap_msg \<times> controller) option"
where
  "e2ap_handle_subscription_delete_response_ric mal fd c resp = do {
     r \<leftarrow> stop_pending_event (ric c)
       \<lparr>p_ev = SUBSCRIPTION_DELETE_REQUEST_PENDING_EVENT, p_id = sdp_ric_id resp\<rparr>;
     c \<leftarrow> notify_msg_iapp mal fd (c\<lparr>ric := r\<rparr>) (ric_sub_del_resp resp);
     Some (no_msg, c)
   }"

definition e2ap_handle_indication_ric ::
  "alloc \<Rightarrow> int \<Rightarrow> controller \<Rightarrow> ric_indication \<Rightarrow> (e2ap_msg \<times> controller) option"
where
  "e2ap_handle_indication_ric mal fd c ind = do {
     let fid = ran_func_id (ind_ric_id ind);
     sm \<leftarrow> sm_plugin_ric (ric c) fid;
     d \<leftarrow> on_indication sm (ind_hdr ind) (ind_msg ind) (ind_call_process_id ind);
     c_assert (rd_type d \<noteq> SM_AGENT_IF_READ_V0_END);
     r \<leftarrow> publish_ind_msg (ric c) fid d;
     c \<leftarrow> notify_msg_iapp mal fd (c\<lparr>ric := r\<rparr>) (ric_ind ind);
     Some (no_msg, c)
   }"

definition e2ap_handle_control_ack_ric ::
  "alloc \<Rightarrow> int \<Rightarrow> controller \<Rightarrow> ric_control_acknowledge \<Rightarrow> (e2ap_msg \<times> controller) option"
where
  "e2ap_handle_control_ack_ric mal fd c ack = do {
     r \<leftarrow> stop_pending_event (ric c) \<lparr>p_ev = CONTROL_REQUEST_PENDING_EVENT, p_id = ca_ric_id ack\<rparr>;
     c \<leftarrow> notify_msg_iapp mal fd (c\<lparr>ric := r\<rparr>) (ric_ctrl_ack ack);
     Some (no_msg, c)
   }"

text \<open>The line that is printed reads the identifier of a node that is not monolithic.\<close>
definition e2ap_handle_setup_request_ric ::
  "alloc \<Rightarrow> controller \<Rightarrow> e2_setup_request \<Rightarrow> (e2ap_msg \<times> controller) option"
where
  "e2ap_handle_setup_request_ric mal c req = do {
     (if NODE_IS_MONOLITHIC (node_type (stp_id req)) then Some ()
      else do { i \<leftarrow> cu_du_id (stp_id req); Some () });
     i \<leftarrow> add_e2_node_iapp (mal 0 0) (iapp c) (stp_id req) (stp_ran_func_item req) (stp_comp_conf_add req);
     resp \<leftarrow> generate_setup_response_v2 (ric c) req;
     let n = init_e2_node (stp_id req) (stq_accepted resp);
     Some (e2_stp_resp resp, c\<lparr>iapp := i, ric := (ric c)\<lparr>conn_e2_nodes := conn_e2_nodes (ric c) @ [n]\<rparr>\<rparr>)
   }"

text \<open>The handlers of the other types assert that they are not implemented; a type
  that is not in the table fails the first assertion.\<close>
definition e2ap_msg_handle_ric ::
  "alloc \<Rightarrow> int \<Rightarrow> controller \<Rightarrow> e2ap_msg \<Rightarrow> (e2ap_msg \<times> controller) option"
where
  "e2ap_msg_handle_ric mal fd c msg = (case msg of
       ric_sub_resp m \<Rightarrow> e2ap_handle_subscription_response_ric mal fd c m
     | ric_sub_del_resp m \<Rightarrow> e2ap_handle_subscription_delete_response_ric mal fd c m
     | ric_ind m \<Rightarrow> e2ap_handle_indication_ric mal fd c m
     | ric_ctrl_ack m \<Rightarrow> e2ap_handle_control_ack_ric mal fd c m
     | e2_stp_req m \<Rightarrow> e2ap_handle_setup_request_ric mal c m
     | _ \<Rightarrow> None)"

section \<open>Events\<close>

text \<open>The task for a message from a node: the address of a node that sets up is registered before
  the message is handled.\<close>
definition sctp_msg_arrived_event :: "alloc \<Rightarrow> int \<Rightarrow> controller \<Rightarrow> sctp_info \<Rightarrow> e2ap_msg \<Rightarrow> controller option" where
  "sctp_msg_arrived_event mal fd c info msg = do {
     c \<leftarrow> (case msg of
         e2_stp_req m \<Rightarrow> do {
           r \<leftarrow> e2ap_reg_sock_addr_ric (mal 1) (ric c) (stp_id m) info;
           Some (c\<lparr>ric := r\<rparr>)
         }
       | _ \<Rightarrow> Some c);
     (ans, c) \<leftarrow> e2ap_msg_handle_ric mal fd c msg;
     if ans \<noteq> no_msg then Some (c\<lparr>ric := e2ap_send_sctp_msg_ric (ric c) info ans\<rparr>) else Some c
   }"

text \<open>The loop of the search over the array of connected nodes.\<close>
fun find_conn_node :: "global_e2_node_id \<Rightarrow> e2_node list \<Rightarrow> nat \<Rightarrow> nat option" where
  "find_conn_node nid [] i = Some i"
| "find_conn_node nid (n # ns) i = do {
     b \<leftarrow> eq_global_e2_node_id nid (en_id n);
     if b then Some i else find_conn_node nid ns (Suc i)
   }"

definition notification_handle_ric :: "controller \<Rightarrow> sctp_info \<Rightarrow> controller option" where
  "notification_handle_ric c info = do {
     (nid, r) \<leftarrow> e2ap_rm_sock_addr_ric (ric c) info;
     i \<leftarrow> find_conn_node nid (conn_e2_nodes r) 0;
     c_assert (i < length (conn_e2_nodes r));
     let r = r\<lparr>conn_e2_nodes := take i (conn_e2_nodes r) @ drop (Suc i) (conn_e2_nodes r)\<rparr>;
     ia \<leftarrow> rm_e2_node_iapp (iapp c) nid;
     Some (c\<lparr>ric := r, iapp := ia\<rparr>)
   }"

definition consume_fd :: "int \<Rightarrow> unit option" where
  "consume_fd fd = c_assert (0 < fd)"

text \<open>The look-up of the event of a timer that has expired.\<close>
definition pend_event :: "near_ric \<Rightarrow> int \<Rightarrow> pending_event_ric option" where
  "pend_event r fd = do {
     c_assert (0 < fd);
     it \<leftarrow> find_all_rb_tree (left_tree (pending r)) fd eq_fd;
     c_assert (it \<noteq> assoc_rb_tree_end (left_tree (pending r)));
     v \<leftarrow> assoc_rb_tree_value (left_tree (pending r)) it;
     v
   }"

datatype asio_event = MSG_ARRIVED sctp_info e2ap_msg | CONNECTION_SHUTDOWN sctp_info | TIMER int | CHECK_STOP_TOKEN

text \<open>One turn of the loop.  The event of an expired timer is built without its file descriptor, which
  stays zero, and this zero is what is consumed.\<close>
definition e2_event_loop_ric :: "alloc \<Rightarrow> int \<Rightarrow> controller \<Rightarrow> asio_event \<Rightarrow> controller option" where
  "e2_event_loop_ric mal fd c ev = (case ev of
       MSG_ARRIVED info msg \<Rightarrow> sctp_msg_arrived_event mal fd c info msg
     | TIMER t \<Rightarrow> do {
         p_ev \<leftarrow> pend_event (ric c) t;
         let e_fd = 0;
         consume_fd e_fd;
         Some c
       }
     | CONNECTION_SHUTDOWN info \<Rightarrow> notification_handle_ric c info
     | CHECK_STOP_TOKEN \<Rightarrow> Some c)"

text \<open>One turn of the loop of the iApp, which has no timers.\<close>
definition e2_event_loop_iapp :: "alloc \<Rightarrow> (nat \<Rightarrow> int) \<Rightarrow> controller \<Rightarrow> asio_event \<Rightarrow> controller option" where
  "e2_event_loop_iapp mal fds c ev = (case ev of
       MSG_ARRIVED info msg \<Rightarrow> iapp_sctp_msg_arrived mal (fds 0) c info msg
     | TIMER t \<Rightarrow> do { c_assert (0 < t); c_assert (0 \<noteq> (0 :: nat)); Some c }
     | CONNECTION_SHUTDOWN info \<Rightarrow> iapp_connection_shutdown mal fds c info
     | CHECK_STOP_TOKEN \<Rightarrow> Some c)"

end
