(* ===== verification/Controller_Spec.thy ===== *)
theory Controller_Spec
  imports Msg_Handler_Ric
begin

text \<open>
  What the controller and the iApp together are meant to do, without trees, locks and memory: the tables
  are multisets of pairs, the registry is the list of its entries in order, and a step relation
  says which messages are served and what is sent.  The refinement is in the theory that follows.

  The premises of the rules are the contract of the peers: a node or an xApp comes
  with an address that is not in use, an xApp uses its own number and does not reuse the
  identifier of a request that is still open, the nodes answer what they were asked, and less than 65535
  requests are made, so that the 16 bits of a request number do not wrap.
\<close>

section \<open>State\<close>

type_synonym req_entry = "e2_node_ric_id \<times> xapp_ric_id"

record actrl =
  reqs :: "req_entry multiset"
  xapps :: "(uint16 \<times> sctp_info) multiset"
  nodes :: "(global_e2_node_id \<times> sctp_info) multiset"
  regs :: "(global_e2_node_id \<times> pair_rf_cca) list"
  pend :: "(int \<times> pending_event_ric) multiset"
  fds :: "int set"
  conn :: "e2_node list"
  next_req :: nat
  next_xapp :: nat
  sms :: "(uint16 \<times> sm_ric) list"
  subs :: "(uint16 \<times> string list) list"
  to_nodes :: "(sctp_info \<times> e2ap_msg) list"
  to_xapps :: "(sctp_info \<times> e2ap_msg) list"
  published :: "(string \<times> sm_ag_if_rd_ind) list"

datatype ctrl_event = RIC_EVENT asio_event | IAPP_EVENT asio_event

section \<open>Parts of the rules\<close>

definition ok_setup :: "e2_setup_request \<Rightarrow> bool" where
  "ok_setup req \<longleftrightarrow> has_cu_du_id (stp_id req) \<and>
     (\<not> NODE_IS_MONOLITHIC (node_type (stp_id req)) \<longrightarrow> cu_du_id (stp_id req) \<noteq> None) \<and>
     stp_ran_func_item req \<noteq> [] \<and> stp_comp_conf_add req \<noteq> [] \<and> length (stp_comp_conf_add req) < 256 \<and>
     (\<forall>c \<in> set (stp_comp_conf_add req). cp_ok c)"

definition setup_response :: "e2_setup_request \<Rightarrow> e2_setup_response" where
  "setup_response req = \<lparr>stq_trans_id = stp_trans_id req,
     stq_id = \<lparr>ric_plmn = plmn (stp_id req), near_ric_id = 25\<rparr>,
     stq_accepted = map rf_id (stp_ran_func_item req), stq_rejected = [],
     stq_comp_config_add_ack = map (\<lambda>c. \<lparr>caa_interface_type = cca_interface_type c, caa_comp_id = cca_comp_id c,
       caa_ack = \<lparr>ack_outcome = SUCCESS_E2AP_NODE_COMP_CONF_ACK, ack_cause = None\<rparr>\<rparr>) (stp_comp_conf_add req)\<rparr>"

text \<open>The place of a node in the registry.\<close>
definition reg_insert ::
  "global_e2_node_id \<times> pair_rf_cca \<Rightarrow> (global_e2_node_id \<times> pair_rf_cca) list \<Rightarrow> (global_e2_node_id \<times> pair_rf_cca) list"
where
  "reg_insert e es = takeWhile (\<lambda>x. order_e2_node (fst e) (fst x) \<noteq> 1) es @ e #
     dropWhile (\<lambda>x. order_e2_node (fst e) (fst x) \<noteq> 1) es"

definition connected_node :: "global_e2_node_id \<times> pair_rf_cca \<Rightarrow> e2_node_connected" where
  "connected_node e = connected (0, e)"

text \<open>The identifier under which a request of an xApp is sent to the node.\<close>
definition renumbered :: "nat \<Rightarrow> ric_gen_id \<Rightarrow> ric_gen_id" where
  "renumbered k i = i\<lparr>ric_req_id := word_of_nat k\<rparr>"

definition same_func :: "ric_gen_id \<Rightarrow> ric_gen_id \<Rightarrow> bool" where
  "same_func i j \<longleftrightarrow> ran_func_id i = ran_func_id j \<and> ric_inst_id i = ric_inst_id j"

text \<open>A new request of the kind \<open>k\<close> and \<open>ty\<close>, from the xApp \<open>x\<close>, for the node \<open>nid\<close>.\<close>
definition new_req :: "pending_event \<Rightarrow> ric_request_type \<Rightarrow> int \<Rightarrow> global_e2_node_id \<Rightarrow> xapp_ric_id \<Rightarrow> actrl \<Rightarrow> actrl" where
  "new_req k ty fd nid x a = a\<lparr>
     reqs := add_mset (\<lparr>e2_node_id = nid, e_ric_id = renumbered (next_req a) (x_ric_id x), ric_req_type = ty\<rparr>, x) (reqs a),
     pend := add_mset (fd, \<lparr>p_ev = k, p_id = renumbered (next_req a) (x_ric_id x)\<rparr>) (pend a),
     fds := insert fd (fds a), next_req := next_req a + 1\<rparr>"

text \<open>When an xApp may ask for something at a node: the node with the address \<open>t\<close>, the xApp with \<open>s\<close>.\<close>
definition may_request :: "actrl \<Rightarrow> int \<Rightarrow> global_e2_node_id \<Rightarrow> sctp_info \<Rightarrow> xapp_ric_id \<Rightarrow> bool" where
  "may_request a fd nid t x \<longleftrightarrow> (nid, t) \<in># nodes a \<and> (\<exists>s. (xapp_id x, s) \<in># xapps a) \<and>
     ric_req_id (x_ric_id x) < 65536 \<and> (\<forall>(n, y) \<in># reqs a. y \<noteq> x) \<and> next_req a < 65535 \<and> 0 < fd \<and> fd \<notin> fds a"

text \<open>The numbers and identifiers of a message match those of an open request.\<close>
definition matches :: "ric_gen_id \<Rightarrow> req_entry \<Rightarrow> bool" where
  "matches i e \<longleftrightarrow> ric_req_id i = ric_req_id (e_ric_id (fst e)) \<and> same_func i (x_ric_id (snd e))"

section \<open>Steps\<close>

inductive astep :: "actrl \<Rightarrow> (nat \<Rightarrow> int) \<Rightarrow> ctrl_event \<Rightarrow> actrl \<Rightarrow> bool" where
  node_setup: "ok_setup req \<Longrightarrow> \<forall>(n, p) \<in> set (regs a). \<not> eq_node (stp_id req) n \<Longrightarrow>
    \<forall>(n, t) \<in># nodes a. cmp_sctp_info info t \<noteq> 0 \<Longrightarrow>
    \<forall>rf \<in> set (stp_ran_func_item req). \<exists>sm. (rf_id rf, sm) \<in> set (sms a) \<Longrightarrow>
    astep a kfd (RIC_EVENT (MSG_ARRIVED info (e2_stp_req req))) (a\<lparr>
      nodes := add_mset (stp_id req, info) (nodes a),
      regs := reg_insert (stp_id req, \<lparr>pr_ran_func = stp_ran_func_item req, pr_comp_conf_add = stp_comp_conf_add req\<rparr>) (regs a),
      conn := conn a @ [\<lparr>en_id = stp_id req, en_accepted = map rf_id (stp_ran_func_item req)\<rparr>],
      to_nodes := to_nodes a @ [(info, e2_stp_resp (setup_response req))]\<rparr>)"
| node_shutdown: "(nid, t) \<in># nodes a \<Longrightarrow> cmp_sctp_info info t = 0 \<Longrightarrow>
    regs a = ps @ (nid, p) # qs \<Longrightarrow> conn a = cs @ c # ds \<Longrightarrow> en_id c = nid \<Longrightarrow>
    astep a kfd (RIC_EVENT (CONNECTION_SHUTDOWN info)) (a\<lparr>
      nodes := nodes a - {#(nid, t)#}, regs := ps @ qs, conn := cs @ ds\<rparr>)"
| xapp_setup: "e42_ran_func_item req \<noteq> [] \<Longrightarrow> length (regs a) < 256 \<Longrightarrow> next_xapp a < 65535 \<Longrightarrow>
    \<forall>(x, s) \<in># xapps a. cmp_sctp_info info s \<noteq> 0 \<Longrightarrow>
    astep a kfd (IAPP_EVENT (MSG_ARRIVED info (e42_stp_req req))) (a\<lparr>
      xapps := add_mset (word_of_nat (next_xapp a), info) (xapps a), next_xapp := next_xapp a + 1,
      to_xapps := to_xapps a @ [(info, e42_stp_resp \<lparr>stx_xapp_id = word_of_nat (next_xapp a),
        stx_len_e2_nodes_conn = word_of_nat (length (regs a)), stx_nodes = map connected_node (regs a)\<rparr>)]\<rparr>)"
| subscribe: "x = \<lparr>x_ric_id = sr_ric_id (e42_sr m), xapp_id = e42_sr_xapp_id m\<rparr> \<Longrightarrow>
    may_request a (kfd 0) (e42_sr_id m) t x \<Longrightarrow> length (regs a) < 256 \<Longrightarrow>
    a' = new_req SUBSCRIPTION_REQUEST_PENDING_EVENT SUBSCRIPTION_RIC_REQUEST_TYPE (kfd 0) (e42_sr_id m) x a \<Longrightarrow>
    astep a kfd (IAPP_EVENT (MSG_ARRIVED info (e42_ric_sub_req m))) (a'\<lparr>
      to_nodes := to_nodes a @ [(t, ric_sub_req ((e42_sr m)\<lparr>sr_ric_id := renumbered (next_req a) (x_ric_id x)\<rparr>))]\<rparr>)"
| control: "x = \<lparr>x_ric_id = cr_ric_id (e42_ctrl_req m), xapp_id = e42_cr_xapp_id m\<rparr> \<Longrightarrow>
    may_request a (kfd 0) (e42_cr_id m) t x \<Longrightarrow> length (regs a) < 256 \<Longrightarrow>
    a' = new_req CONTROL_REQUEST_PENDING_EVENT CONTROL_RIC_REQUEST_TYPE (kfd 0) (e42_cr_id m) x a \<Longrightarrow>
    astep a kfd (IAPP_EVENT (MSG_ARRIVED info (e42_ric_ctrl_req m))) (a'\<lparr>
      to_nodes := to_nodes a @ [(t, ric_ctrl_req ((e42_ctrl_req m)\<lparr>cr_ric_id := renumbered (next_req a) (x_ric_id x)\<rparr>))]\<rparr>)"
| subscribed: "(fd, \<lparr>p_ev = SUBSCRIPTION_REQUEST_PENDING_EVENT, p_id = rs_ric_id m\<rparr>) \<in># pend a \<Longrightarrow>
    (n, x) \<in># reqs a \<Longrightarrow> matches (rs_ric_id m) (n, x) \<Longrightarrow> (xapp_id x, s) \<in># xapps a \<Longrightarrow>
    rs_not_admitted m = [] \<Longrightarrow> rs_admitted m = [\<lparr>ric_act_id = 0\<rparr>] \<Longrightarrow>
    astep a kfd (RIC_EVENT (MSG_ARRIVED info (ric_sub_resp m))) (a\<lparr>
      pend := pend a - {#(fd, \<lparr>p_ev = SUBSCRIPTION_REQUEST_PENDING_EVENT, p_id = rs_ric_id m\<rparr>)#}, fds := fds a - {fd},
      to_xapps := to_xapps a @ [(s, ric_sub_resp (m\<lparr>rs_ric_id := x_ric_id x\<rparr>))]\<rparr>)"
| indication: "(ran_func_id (ind_ric_id m), sm) \<in> set (sms a) \<Longrightarrow> subs a = (f, ls) # ss \<Longrightarrow>
    ran_func_id (ind_ric_id m) \<in> fst ` set (subs a) \<Longrightarrow>
    on_indication sm (ind_hdr m) (ind_msg m) (ind_call_process_id m) = Some d \<Longrightarrow>
    rd_type d \<noteq> SM_AGENT_IF_READ_V0_END \<Longrightarrow> (n, x) \<in># reqs a \<Longrightarrow> matches (ind_ric_id m) (n, x) \<Longrightarrow>
    (xapp_id x, s) \<in># xapps a \<Longrightarrow>
    astep a kfd (RIC_EVENT (MSG_ARRIVED info (ric_ind m))) (a\<lparr>
      published := published a @ map (\<lambda>l. (l, d)) ls,
      to_xapps := to_xapps a @ [(s, ric_ind (m\<lparr>ind_ric_id := x_ric_id x\<rparr>))]\<rparr>)"
| stale_indication: "(ran_func_id (ind_ric_id m), sm) \<in> set (sms a) \<Longrightarrow> subs a = (f, ls) # ss \<Longrightarrow>
    ran_func_id (ind_ric_id m) \<in> fst ` set (subs a) \<Longrightarrow>
    on_indication sm (ind_hdr m) (ind_msg m) (ind_call_process_id m) = Some d \<Longrightarrow>
    rd_type d \<noteq> SM_AGENT_IF_READ_V0_END \<Longrightarrow> 0 < ric_req_id (ind_ric_id m) \<Longrightarrow> ric_req_id (ind_ric_id m) < 65536 \<Longrightarrow>
    \<forall>(n, x) \<in># reqs a. ric_req_id (e_ric_id n) \<noteq> ric_req_id (ind_ric_id m) \<Longrightarrow>
    astep a kfd (RIC_EVENT (MSG_ARRIVED info (ric_ind m))) (a\<lparr>published := published a @ map (\<lambda>l. (l, d)) ls\<rparr>)"
| controlled: "(fd, \<lparr>p_ev = CONTROL_REQUEST_PENDING_EVENT, p_id = ca_ric_id m\<rparr>) \<in># pend a \<Longrightarrow>
    (n, x) \<in># reqs a \<Longrightarrow> matches (ca_ric_id m) (n, x) \<Longrightarrow> (xapp_id x, s) \<in># xapps a \<Longrightarrow>
    astep a kfd (RIC_EVENT (MSG_ARRIVED info (ric_ctrl_ack m))) (a\<lparr>
      pend := pend a - {#(fd, \<lparr>p_ev = CONTROL_REQUEST_PENDING_EVENT, p_id = ca_ric_id m\<rparr>)#}, fds := fds a - {fd},
      reqs := reqs a - {#(n, x)#},
      to_xapps := to_xapps a @ [(s, ric_ctrl_ack \<lparr>ca_ric_id = x_ric_id x, ca_call_process_id = None,
        ca_control_outcome = None\<rparr>)]\<rparr>)"
| unsubscribe: "x = \<lparr>x_ric_id = sdr_ric_id (e42_sdr m), xapp_id = e42_sdr_xapp_id m\<rparr> \<Longrightarrow>
    (n, x) \<in># reqs a \<Longrightarrow> \<forall>(n', y) \<in># reqs a. x_ric_id y = x_ric_id x \<longrightarrow> y = x \<Longrightarrow>
    ric_req_type n = SUBSCRIPTION_RIC_REQUEST_TYPE \<Longrightarrow> (e2_node_id n, t) \<in># nodes a \<Longrightarrow>
    ev = \<lparr>p_ev = SUBSCRIPTION_DELETE_REQUEST_PENDING_EVENT, p_id = e_ric_id n\<rparr> \<Longrightarrow>
    \<forall>(f, e) \<in># pend a. e \<noteq> ev \<Longrightarrow> 0 < kfd 0 \<Longrightarrow> kfd 0 \<notin> fds a \<Longrightarrow>
    astep a kfd (IAPP_EVENT (MSG_ARRIVED info (e42_ric_sub_del_req m))) (a\<lparr>
      pend := add_mset (kfd 0, ev) (pend a), fds := insert (kfd 0) (fds a),
      to_nodes := to_nodes a @ [(t, ric_sub_del_req \<lparr>sdr_ric_id = e_ric_id n\<rparr>)]\<rparr>)"
| unsubscribed: "(fd, \<lparr>p_ev = SUBSCRIPTION_DELETE_REQUEST_PENDING_EVENT, p_id = sdp_ric_id m\<rparr>) \<in># pend a \<Longrightarrow>
    (n, x) \<in># reqs a \<Longrightarrow> matches (sdp_ric_id m) (n, x) \<Longrightarrow> (xapp_id x, s) \<in># xapps a \<Longrightarrow>
    astep a kfd (RIC_EVENT (MSG_ARRIVED info (ric_sub_del_resp m))) (a\<lparr>
      pend := pend a - {#(fd, \<lparr>p_ev = SUBSCRIPTION_DELETE_REQUEST_PENDING_EVENT, p_id = sdp_ric_id m\<rparr>)#},
      fds := fds a - {fd}, reqs := reqs a - {#(n, x)#},
      to_xapps := to_xapps a @ [(s, ric_sub_del_resp \<lparr>sdp_ric_id = x_ric_id x\<rparr>)]\<rparr>)"
| idle_ric: "astep a kfd (RIC_EVENT CHECK_STOP_TOKEN) a"
| idle_iapp: "astep a kfd (IAPP_EVENT CHECK_STOP_TOKEN) a"

end
