(* ===== verification/Controller_Inv.thy ===== *)
theory Controller_Inv
  imports Controller_Spec
begin

text \<open>
  The invariant of the specification of the controller: the three lists of nodes agree, every open
  request has its own number and a registered xApp, every timer is polled and belongs to a number
  that was given out.
\<close>

section \<open>Nodes that compare equal\<close>

text \<open>What the comparison of two nodes looks at: the identifier of a central unit is not part of it.\<close>
definition node_key :: "global_e2_node_id \<Rightarrow> ngran_node \<times> e2ap_plmn \<times> e2ap_gnb_id \<times> uint64 option" where
  "node_key n = (node_type n, plmn n, g_nb_id n,
     if NODE_IS_CUUP (node_type n) \<or> NODE_IS_DU (node_type n) then cu_du_id n else None)"

lemma eq_e2ap_plmn_iff: "eq_e2ap_plmn a b \<longleftrightarrow> a = b"
  by (cases a; cases b) (simp add: eq_e2ap_plmn_def)

lemma eq_e2ap_gnb_id_iff: "eq_e2ap_gnb_id a b \<longleftrightarrow> a = b"
  by (cases a; cases b) (simp add: eq_e2ap_gnb_id_def)

lemma eq_global_key:
  assumes "has_cu_du_id a" "has_cu_du_id b"
  shows "eq_global_e2_node_id a b = Some (node_key a = node_key b)"
proof (cases "node_type a = node_type b \<and> (NODE_IS_CUUP (node_type a) \<or> NODE_IS_DU (node_type a))")
  case True
  then obtain i j where "cu_du_id a = Some i" "cu_du_id b = Some j" using assms by (auto simp: has_cu_du_id_def)
  with True show ?thesis
    by (simp add: eq_global_e2_node_id_def node_key_def eq_e2ap_plmn_iff eq_e2ap_gnb_id_iff)
next
  case False
  then show ?thesis
    by (auto simp: eq_global_e2_node_id_def node_key_def eq_e2ap_plmn_iff eq_e2ap_gnb_id_iff)
qed

lemma eq_node_key: "has_cu_du_id a \<Longrightarrow> has_cu_du_id b \<Longrightarrow> eq_node a b \<longleftrightarrow> node_key a = node_key b"
  by (simp add: eq_node_def eq_global_key)

text \<open>Nodes with different keys are different keys of the table of addresses.\<close>
lemma order_plmn_0: "order_plmn a b = 0 \<longleftrightarrow> a = b"
  by (cases a; cases b) (auto simp: order_plmn_def cmp_lex_eq_0 cmp_rev_eq_0 cmp_on_eq_0)

lemma order_node_key:
  assumes "has_cu_du_id a" "has_cu_du_id b" "order_e2_node a b = 0"
  shows "node_key a = node_key b"
proof -
  have e: "node_type a = node_type b" "plmn a = plmn b" "nb_id (g_nb_id a) = nb_id (g_nb_id b)"
    "unused (g_nb_id a) = unused (g_nb_id b)" "distributed_id a = distributed_id b"
    using assms(3) by (auto simp: order_e2_node_def cmp_lex_eq_0 cmp_rev_eq_0 cmp_on_eq_0 order_plmn_0)
  have "g_nb_id a = g_nb_id b" using e(3,4) by simp
  moreover have "cu_du_id a = cu_du_id b" if "NODE_IS_CUUP (node_type a) \<or> NODE_IS_DU (node_type a)"
    using that e assms(1,2) by (auto simp: distributed_id_def has_cu_du_id_def)
  ultimately show ?thesis using e by (simp add: node_key_def)
qed

section \<open>The invariant\<close>

definition nodes_inv :: "actrl \<Rightarrow> bool" where
  "nodes_inv a \<longleftrightarrow> (\<forall>(n, p) \<in> set (regs a). has_cu_du_id n \<and> ok_pair p) \<and>
     distinct (map (node_key \<circ> fst) (regs a)) \<and> image_mset fst (nodes a) = mset (map fst (regs a)) \<and>
     mset (map en_id (conn a)) = mset (map fst (regs a))"

definition reqs_inv :: "actrl \<Rightarrow> bool" where
  "reqs_inv a \<longleftrightarrow> 0 < next_req a \<and> next_req a \<le> 65535 \<and>
     (\<forall>(n, x) \<in># reqs a. 0 < ric_req_id (e_ric_id n) \<and> unat (ric_req_id (e_ric_id n)) < next_req a \<and>
        same_func (e_ric_id n) (x_ric_id x) \<and> xapp_id x \<in> fst ` set_mset (xapps a))"

text \<open>No first component occurs twice.\<close>
definition uniq_fst :: "('a \<times> 'b) multiset \<Rightarrow> bool" where
  "uniq_fst P \<longleftrightarrow> (\<forall>q \<in># P. fst q \<notin> fst ` set_mset (P - {#q#}))"

lemma uniq_fst_add: "uniq_fst P \<Longrightarrow> f \<notin> fst ` set_mset P \<Longrightarrow> uniq_fst (add_mset (f, e) P)"
  unfolding uniq_fst_def
proof
  fix q assume u: "\<forall>q \<in># P. fst q \<notin> fst ` set_mset (P - {#q#})" "f \<notin> fst ` set_mset P" and q: "q \<in># add_mset (f, e) P"
  show "fst q \<notin> fst ` set_mset (add_mset (f, e) P - {#q#})"
  proof (cases "q \<in># P")
    case True
    then have "add_mset (f, e) P - {#q#} = add_mset (f, e) (P - {#q#})" by (simp add: multiset_eq_iff)
    moreover have "fst q \<noteq> f" using True u(2) by auto
    ultimately show ?thesis using True u(1) by simp
  qed (use q u(2) in auto)
qed

lemma uniq_fst_remove: "uniq_fst P \<Longrightarrow> uniq_fst (P - {#q#})"
  unfolding uniq_fst_def
proof
  fix r assume u: "\<forall>q \<in># P. fst q \<notin> fst ` set_mset (P - {#q#})" and r: "r \<in># P - {#q#}"
  have "P - {#q#} - {#r#} \<subseteq># P - {#r#}" by (metis diff_right_commute diff_subset_eq_self)
  then have "set_mset (P - {#q#} - {#r#}) \<subseteq> set_mset (P - {#r#})" by (rule set_mset_mono)
  then show "fst r \<notin> fst ` set_mset (P - {#q#} - {#r#})" using u in_diffD[OF r] by blast
qed

definition pend_inv :: "actrl \<Rightarrow> bool" where
  "pend_inv a \<longleftrightarrow> uniq_fst (pend a) \<and> (\<forall>(f, e) \<in># pend a. 0 < f \<and> f \<in> fds a \<and> unat (ric_req_id (p_id e)) < next_req a)"

definition xapps_inv :: "actrl \<Rightarrow> bool" where
  "xapps_inv a \<longleftrightarrow> next_xapp a \<le> 65535 \<and> (\<forall>(x, s) \<in># xapps a. unat x < next_xapp a)"

definition sms_inv :: "actrl \<Rightarrow> bool" where
  "sms_inv a \<longleftrightarrow> (\<forall>(k, sm) \<in> set (sms a). 0 < k \<and> sm_ran_func_id sm = k)"

definition a_inv :: "actrl \<Rightarrow> bool" where
  "a_inv a \<longleftrightarrow> nodes_inv a \<and> reqs_inv a \<and> pend_inv a \<and> xapps_inv a \<and> sms_inv a"

lemma reg_insert_parts: "\<exists>xs ys. reg_insert e es = xs @ e # ys \<and> es = xs @ ys"
  unfolding reg_insert_def by (metis takeWhile_dropWhile_id)

text \<open>Each part of the invariant looks at its own components.\<close>
lemma inv_cong:
  "nodes a = nodes b \<Longrightarrow> regs a = regs b \<Longrightarrow> conn a = conn b \<Longrightarrow> nodes_inv a = nodes_inv b"
  "reqs a = reqs b \<Longrightarrow> next_req a = next_req b \<Longrightarrow> xapps a = xapps b \<Longrightarrow> reqs_inv a = reqs_inv b"
  "pend a = pend b \<Longrightarrow> fds a = fds b \<Longrightarrow> next_req a = next_req b \<Longrightarrow> pend_inv a = pend_inv b"
  "xapps a = xapps b \<Longrightarrow> next_xapp a = next_xapp b \<Longrightarrow> xapps_inv a = xapps_inv b"
  "sms a = sms b \<Longrightarrow> sms_inv a = sms_inv b"
  by (simp_all add: nodes_inv_def reqs_inv_def pend_inv_def xapps_inv_def sms_inv_def)

lemma nodes_inv_setup:
  assumes "nodes_inv a" "ok_setup req" "\<forall>(n, p) \<in> set (regs a). \<not> eq_node (stp_id req) n"
    "en_id c = stp_id req" "p = \<lparr>pr_ran_func = rf, pr_comp_conf_add = stp_comp_conf_add req\<rparr>"
  shows "nodes_inv (a\<lparr>nodes := add_mset (stp_id req, info) (nodes a), regs := reg_insert (stp_id req, p) (regs a),
    conn := conn a @ [c], to_nodes := ms\<rparr>)"
proof -
  obtain xs ys where r: "reg_insert (stp_id req, p) (regs a) = xs @ (stp_id req, p) # ys" "regs a = xs @ ys"
    using reg_insert_parts by metis
  have v: "has_cu_du_id (stp_id req)" "ok_pair p" using assms(2,5) by (auto simp: ok_setup_def ok_pair_def)
  have "node_key (fst e) \<noteq> node_key (stp_id req)" if "e \<in> set (xs @ ys)" for e
  proof -
    have "has_cu_du_id (fst e)" "\<not> eq_node (stp_id req) (fst e)"
      using assms(1,3) that unfolding nodes_inv_def r(2) by (cases e; force)+
    then show ?thesis using eq_node_key[OF v(1)] by metis
  qed
  then have "node_key (stp_id req) \<notin> (node_key \<circ> fst) ` set (xs @ ys)" by force
  then show ?thesis using assms(1,4) v r by (auto simp: nodes_inv_def)
qed

lemma nodes_inv_shutdown:
  assumes "nodes_inv a" "(nid, t) \<in># nodes a" "regs a = ps @ (nid, p) # qs" "conn a = cs @ c # ds" "en_id c = nid"
  shows "nodes_inv (a\<lparr>nodes := nodes a - {#(nid, t)#}, regs := ps @ qs, conn := cs @ ds\<rparr>)"
proof -
  have "image_mset fst (nodes a - {#(nid, t)#}) = image_mset fst (nodes a) - {#nid#}"
    using assms(2) by (simp add: image_mset_Diff)
  then show ?thesis using assms(1,3-5) by (simp add: nodes_inv_def)
qed

lemma pend_inv_add:
  assumes "pend_inv a" "0 < fd" "fd \<notin> fds a" "next_req a \<le> k"
    "unat (ric_req_id (p_id e)) < k"
  shows "pend_inv (a\<lparr>reqs := rs, pend := add_mset (fd, e) (pend a), fds := insert fd (fds a), next_req := k, to_nodes := ms\<rparr>)"
proof -
  have "fd \<notin> fst ` set_mset (pend a)" using assms(1,3) unfolding pend_inv_def by force
  then have "uniq_fst (add_mset (fd, e) (pend a))" using assms(1) by (intro uniq_fst_add) (simp_all add: pend_inv_def)
  then show ?thesis using assms unfolding pend_inv_def by fastforce
qed

lemma pend_inv_remove:
  assumes "pend_inv a" "(fd, e) \<in># pend a"
  shows "pend_inv (a\<lparr>pend := pend a - {#(fd, e)#}, fds := fds a - {fd}, reqs := rs, to_xapps := ms\<rparr>)"
proof -
  have n: "fd \<notin> fst ` set_mset (pend a - {#(fd, e)#})" using assms unfolding pend_inv_def uniq_fst_def by force
  have "\<forall>(f, e') \<in># pend a - {#(fd, e)#}. 0 < f \<and> f \<in> fds a - {fd} \<and>
      unat (ric_req_id (p_id e')) < next_req a"
  proof clarify
    fix f e' assume m: "(f, e') \<in># pend a - {#(fd, e)#}"
    then have "f \<noteq> fd" using n by force
    moreover have "(f, e') \<in># pend a" using m by (rule in_diffD)
    ultimately show "0 < f \<and> f \<in> fds a - {fd} \<and>
        unat (ric_req_id (p_id e')) < next_req a"
      using assms(1) unfolding pend_inv_def by fastforce
  qed
  then show ?thesis using assms(1) uniq_fst_remove[of "pend a"] by (simp add: pend_inv_def)
qed

lemma reqs_inv_remove: "reqs_inv a \<Longrightarrow> reqs_inv (a\<lparr>reqs := reqs a - D\<rparr>)"
  unfolding reqs_inv_def by (auto dest: in_diffD)

lemma reqs_inv_add:
  assumes "reqs_inv a" "next_req a \<le> k" "k \<le> 65535" "0 < ric_req_id (e_ric_id n)" "unat (ric_req_id (e_ric_id n)) < k"
    "same_func (e_ric_id n) (x_ric_id x)" "xapp_id x \<in> fst ` set_mset (xapps a)"
  shows "reqs_inv (a\<lparr>reqs := add_mset (n, x) (reqs a), pend := P, fds := F, next_req := k, to_nodes := ms\<rparr>)"
proof -
  have "\<forall>(n, x) \<in># reqs a. 0 < ric_req_id (e_ric_id n) \<and> unat (ric_req_id (e_ric_id n)) < k \<and>
      same_func (e_ric_id n) (x_ric_id x) \<and> xapp_id x \<in> fst ` set_mset (xapps a)"
    using assms(1,2) unfolding reqs_inv_def by fastforce
  then show ?thesis using assms by (simp add: reqs_inv_def)
qed

text \<open>The number that a new request gets.\<close>
lemma new_number:
  assumes "0 < k" "k < 65535"
  shows "unat (ric_req_id (renumbered k i)) = k" "0 < ric_req_id (renumbered k i)"
proof -
  show "unat (ric_req_id (renumbered k i)) = k" using assms by (simp add: renumbered_def unat_of_nat)
  then show "0 < ric_req_id (renumbered k i)" using assms(1) by (simp add: word_less_nat_alt)
qed

lemma new_req_inv:
  assumes "a_inv a" "may_request a fd nid t x"
  shows "a_inv ((new_req k ty fd nid x a)\<lparr>to_nodes := ms\<rparr>)"
proof -
  let ?b = "(new_req k ty fd nid x a)\<lparr>to_nodes := ms\<rparr>"
  have i: "nodes_inv a" "reqs_inv a" "pend_inv a" "xapps_inv a" "sms_inv a" using assms(1) by (simp_all add: a_inv_def)
  have n: "0 < next_req a" "next_req a < 65535" using assms(2) i(2) by (simp_all add: may_request_def reqs_inv_def)
  have "xapp_id x \<in> fst ` set_mset (xapps a)" using assms(2) by (force simp: may_request_def)
  moreover have "same_func (renumbered (next_req a) (x_ric_id x)) (x_ric_id x)" by (simp add: same_func_def renumbered_def)
  ultimately have "reqs_inv ?b" unfolding new_req_def
    using reqs_inv_add[OF i(2), of "next_req a + 1" "\<lparr>e2_node_id = nid, e_ric_id = renumbered (next_req a) (x_ric_id x), ric_req_type = ty\<rparr>" x]
      n new_number[OF n, of "x_ric_id x"] by simp
  moreover have "pend_inv ?b"
    using pend_inv_add[OF i(3), of fd "next_req a + 1" "\<lparr>p_ev = k, p_id = renumbered (next_req a) (x_ric_id x)\<rparr>"]
      assms(2) new_number[OF n, of "x_ric_id x"] by (simp add: new_req_def may_request_def)
  moreover have "nodes_inv ?b" "xapps_inv ?b" "sms_inv ?b"
    using i inv_cong(1)[of ?b a] inv_cong(4)[of ?b a] inv_cong(5)[of ?b a] by (simp_all add: new_req_def)
  ultimately show ?thesis by (simp add: a_inv_def)
qed

text \<open>Ending a request: its timer stops, its entry may be removed.\<close>
lemma end_req_inv:
  assumes "a_inv a" "(fd, e) \<in># pend a"
  shows "a_inv (a\<lparr>pend := pend a - {#(fd, e)#}, fds := fds a - {fd}, reqs := reqs a - D, to_xapps := ms\<rparr>)"
    (is "a_inv ?b")
proof -
  have i: "nodes_inv a" "reqs_inv a" "pend_inv a" "xapps_inv a" "sms_inv a" using assms(1) by (simp_all add: a_inv_def)
  have "pend_inv ?b" by (rule pend_inv_remove[OF i(3) assms(2)])
  moreover have "reqs_inv ?b" using reqs_inv_remove[OF i(2), of D] inv_cong(2)[of ?b "a\<lparr>reqs := reqs a - D\<rparr>"] by simp
  moreover have "nodes_inv ?b" "xapps_inv ?b" "sms_inv ?b"
    using i inv_cong(1)[of ?b a] inv_cong(4)[of ?b a] inv_cong(5)[of ?b a] by simp_all
  ultimately show ?thesis by (simp add: a_inv_def)
qed

lemma a_inv_sent:
  "a_inv (a\<lparr>to_xapps := ms\<rparr>) = a_inv a" "a_inv (a\<lparr>published := ps\<rparr>) = a_inv a"
  by (simp_all add: a_inv_def inv_cong[of "a\<lparr>to_xapps := ms\<rparr>" a] inv_cong[of "a\<lparr>published := ps\<rparr>" a])

lemma a_inv_step:
  assumes "astep a kfd ev a'" "a_inv a" shows "a_inv a'"
  using assms
proof (cases rule: astep.cases)
  case (node_setup req info)
  have "nodes_inv a'" unfolding node_setup(2)
    by (rule nodes_inv_setup[where rf = "stp_ran_func_item req"]) (use node_setup assms(2) in \<open>simp_all add: a_inv_def\<close>)
  then show ?thesis using assms(2) inv_cong[of a' a] by (simp add: a_inv_def node_setup(2))
next
  case (node_shutdown nid t info ps p qs cs c ds)
  have "nodes_inv a'" unfolding node_shutdown(2)
    by (rule nodes_inv_shutdown) (use node_shutdown assms(2) in \<open>simp_all add: a_inv_def\<close>)
  then show ?thesis using assms(2) inv_cong[of a' a] by (simp add: a_inv_def node_shutdown(2))
next
  case (xapp_setup req info)
  have i: "nodes_inv a" "reqs_inv a" "pend_inv a" "xapps_inv a" "sms_inv a" using assms(2) by (simp_all add: a_inv_def)
  have "unat (word_of_nat (next_xapp a) :: uint16) = next_xapp a" using xapp_setup by (simp add: unat_of_nat)
  then have "xapps_inv a'" using i(4) xapp_setup unfolding xapps_inv_def by fastforce
  moreover have "reqs_inv a'" using i(2) unfolding reqs_inv_def xapp_setup(2) by fastforce
  ultimately show ?thesis using i inv_cong[of a' a] by (simp add: a_inv_def xapp_setup(2))
next
  case (subscribe x m t b info)
  then show ?thesis using new_req_inv[OF assms(2)] by simp
next
  case (control x m t b info)
  then show ?thesis using new_req_inv[OF assms(2)] by simp
next
  case (subscribed fd m n x s info)
  then show ?thesis using end_req_inv[OF assms(2), where D = "{#}"] by simp
next
  case (controlled fd m n x s info)
  then show ?thesis using end_req_inv[OF assms(2), where D = "{#(n, x)#}"] by simp
next
  case (unsubscribed fd m n x s info)
  then show ?thesis using end_req_inv[OF assms(2), where D = "{#(n, x)#}"] by simp
next
  case (unsubscribe x m n t e info)
  have i: "nodes_inv a" "reqs_inv a" "pend_inv a" "xapps_inv a" "sms_inv a" using assms(2) by (simp_all add: a_inv_def)
  have "unat (ric_req_id (p_id e)) < next_req a" using i(2) unsubscribe unfolding reqs_inv_def by fastforce
  then have "pend_inv a'" using pend_inv_add[OF i(3), where fd = "kfd 0" and k = "next_req a" and e = e and rs = "reqs a"] unsubscribe by simp
  then show ?thesis using i inv_cong[of a' a] by (simp add: a_inv_def unsubscribe(2))
qed (simp_all add: a_inv_sent)

section \<open>Reachable states\<close>

text \<open>The start: no node, no xApp, no request; the plug-ins are loaded and have their listeners.\<close>
definition a_init :: "(uint16 \<times> sm_ric) list \<Rightarrow> int \<Rightarrow> actrl" where
  "a_init plugins ep_fd = \<lparr>reqs = {#}, xapps = {#}, nodes = {#}, regs = [], pend = {#}, fds = {ep_fd}, conn = [],
     next_req = 1021, next_xapp = 7, sms = plugins,
     subs = map (\<lambda>s. (fst s, [''stdout listener'', ''redis listener'', ''influx listener''])) plugins,
     to_nodes = [], to_xapps = [], published = []\<rparr>"

inductive areach :: "actrl \<Rightarrow> actrl \<Rightarrow> bool" for a0 where
  start: "areach a0 a0"
| step: "areach a0 a \<Longrightarrow> astep a kfd ev a' \<Longrightarrow> areach a0 a'"

lemma a_inv_init: "\<forall>(k, sm) \<in> set plugins. 0 < k \<and> sm_ran_func_id sm = k \<Longrightarrow> a_inv (a_init plugins ep_fd)"
  by (simp add: a_inv_def a_init_def nodes_inv_def reqs_inv_def pend_inv_def uniq_fst_def xapps_inv_def sms_inv_def)

lemma a_inv_reach: "areach a0 a \<Longrightarrow> a_inv a0 \<Longrightarrow> a_inv a"
  by (induction rule: areach.induct) (auto intro: a_inv_step)

end
