(* ===== verification/Controller_Parts.thy ===== *)
theory Controller_Parts
  imports Controller_Spec
begin

text \<open>
  The parts of the controller on their abstract contents: the pending events with their timers,
  the plug-ins, the listeners.
\<close>

section \<open>Pending events\<close>

interpretation pend_table: bi_comparators order_fd cmp_pending_event_ric
  by (intro bi_comparators.intro fd.comparator_axioms pend_ric.comparator_axioms)

definition pend_rep :: "(int, pending_event_ric) bi_map \<Rightarrow> (int \<times> pending_event_ric) multiset \<Rightarrow> bool" where
  "pend_rep m P \<longleftrightarrow> bm_rep valid_fd order_fd (\<lambda>_. True) cmp_pending_event_ric m P \<and>
     key_sz (left_tree m) = 4 \<and> key_sz (right_tree m) = 12 \<and> has_free_func (right_tree m)"

lemma order_fd_0: "order_fd a b = 0 \<longleftrightarrow> a = b"
  by (auto simp: order_fd_def)

lemma cmp_pending_event_ric_0: "cmp_pending_event_ric a b = 0 \<longleftrightarrow> a = b"
  by (cases a; cases b) (auto simp: cmp_pending_event_ric_def cmp_pending_event_def cmp_ric_gen_id_0 Let_def)

lemma pend_init:
  assumes "a1 \<noteq> 0" "a2 \<noteq> 0"
  shows "\<exists>m. bi_map_init a1 a2 4 12 cmp_fd (\<lambda>a b. Some (cmp_pending_event_ric a b)) True True = Some m \<and>
    pend_rep m {#}"
  by (rule init_bm_rep[where ?v1.0 = valid_fd and ?c1.0 = order_fd and ?v2.0 = "\<lambda>_. True" and ?c2.0 = cmp_pending_event_ric and
        ?f1.0 = cmp_fd and ?f2.0 = "\<lambda>a b. Some (cmp_pending_event_ric a b)" and ?s1.0 = 4 and ?s2.0 = 12 and ?ff1.0 = True and ?ff2.0 = True,
        OF _ _ assms cmp_fd_order]) (auto simp: pend_rep_def)

lemma pend_add:
  assumes "pend_rep m P" "fresh_for m a1 a2" "0 < fd" "\<forall>(f, e) \<in># P. f \<noteq> fd \<and> e \<noteq> ev"
  shows "\<exists>m'. bi_map_insert a1 a2 m fd 4 ev 12 = Some m' \<and> pend_rep m' (add_mset (fd, ev) P)"
proof -
  have m: "bm_rep valid_fd order_fd (\<lambda>_. True) cmp_pending_event_ric m P"
    "key_sz (left_tree m) = 4" "key_sz (right_tree m) = 12" "has_free_func (right_tree m)"
    using assms(1) by (simp_all add: pend_rep_def)
  have "\<forall>(f, e) \<in># P. order_fd fd f \<noteq> 0 \<and> cmp_pending_event_ric ev e \<noteq> 0"
    using assms(4) by (auto simp: order_fd_0 cmp_pending_event_ric_0)
  from pend_table.insert_bm_rep[OF m(1) _ TrueI this m(2,3), of a1 a2] show ?thesis
    using assms(2,3) m by (auto simp: valid_fd_def fresh_for_def pend_rep_def bm_same_def)
qed

lemma pend_extract:
  assumes "pend_rep m P" "(fd, ev) \<in># P"
  shows "\<exists>m'. bi_map_extract_right m ev 12 = Some (fd, ev, m') \<and> pend_rep m' (P - {#(fd, ev)#})"
proof -
  have m: "bm_rep valid_fd order_fd (\<lambda>_. True) cmp_pending_event_ric m P"
    "key_sz (left_tree m) = 4" "key_sz (right_tree m) = 12" "has_free_func (right_tree m)"
    using assms(1) by (simp_all add: pend_rep_def)
  have "cmp_pending_event_ric ev ev = 0" by simp
  from pend_table.extract_right_bm_rep[OF m(1) TrueI m(3) assms(2) this m(4)] show ?thesis
    using m by (auto simp: pend_rep_def bm_same_def)
qed

text \<open>The look-up of an event that is not pending.\<close>
lemma pend_absent:
  assumes "pend_rep m P" "\<forall>(f, e) \<in># P. e \<noteq> ev"
  shows "find_all_rb_tree (right_tree m) ev (\<lambda>a b. Some (eq_pending_event_ric a b)) =
    Some (assoc_rb_tree_end (right_tree m))"
proof -
  have m: "bm_rep valid_fd order_fd (\<lambda>_. True) cmp_pending_event_ric m P" using assms(1) by (simp add: pend_rep_def)
  from find_eq_none_left[OF bm_rep_flip[OF m], of eq_pending_event_ric ev] assms(2) show ?thesis
    by (fastforce simp: eq_pending_event_ric_def cmp_pending_event_ric_0)
qed

text \<open>The look-up of a pending event.\<close>
lemma pend_present:
  assumes "pend_rep m P" "(fd, ev) \<in># P"
  obtains it where "find_all_rb_tree (right_tree m) ev (\<lambda>a b. Some (eq_pending_event_ric a b)) = Some it"
    "it \<noteq> assoc_rb_tree_end (right_tree m)"
proof -
  have m: "bm_rep valid_fd order_fd (\<lambda>_. True) cmp_pending_event_ric m P" using assms(1) by (simp add: pend_rep_def)
  have "\<forall>(a, b) \<in># P. eq_pending_event_ric ev b \<longrightarrow> a = fd"
    using bm_rep_right_unique[OF m pend_ric.comparator_axioms assms(2)]
    by (fastforce simp: eq_pending_event_ric_def)
  from find_eq_right[where e = eq_pending_event_ric and q = ev, OF m assms(2) _ this] show thesis
    using that by (auto simp: eq_pending_event_ric_def)
qed

text \<open>The look-up by timer.\<close>
lemma pend_event_rep:
  assumes "pend_rep (pending r) P" "(fd, ev) \<in># P" "0 < fd"
  shows "pend_event r fd = Some ev"
proof -
  have m: "bm_rep valid_fd order_fd (\<lambda>_. True) cmp_pending_event_ric (pending r) P"
    using assms(1) by (simp add: pend_rep_def)
  have v: "\<forall>(a, b) \<in># P. valid_fd a" using m by (fastforce simp: bm_rep_def rb_rep_def entry_key_def)
  have f: "\<forall>(a, b) \<in># P. eq_fd fd a = Some (a = fd)"
    using v assms(3) by (auto simp: eq_fd_def valid_fd_def)
  have u: "\<forall>(a, b) \<in># P. a = fd \<longrightarrow> b = ev"
    using bm_rep_left_unique[OF m fd.comparator_axioms assms(2)] by fastforce
  obtain it where "find_all_rb_tree (left_tree (pending r)) fd eq_fd = Some it" "it \<noteq> assoc_rb_tree_end (left_tree (pending r))"
    "assoc_rb_tree_value (left_tree (pending r)) it = Some (Some ev)"
    using find_value_left[where f = eq_fd and p = "\<lambda>a. a = fd" and q = fd, OF m f assms(2) _ u] by blast
  then show ?thesis using assms(3) by (simp add: pend_event_def)
qed

lemma add_pending_event_rep:
  assumes "pend_rep (pending r) P" "fresh_for (pending r) (mal 0) (mal 1)" "0 < fd" "fd \<notin> io r"
    and "\<forall>(f, e) \<in># P. f \<noteq> fd \<and> e \<noteq> ev"
  obtains p' where "add_pending_event mal fd r ev = Some (r\<lparr>io := insert fd (io r), pending := p'\<rparr>)"
    "pend_rep p' (add_mset (fd, ev) P)"
proof -
  from pend_add[OF assms(1-3,5)] obtain p' where "bi_map_insert (mal 0) (mal 1) (pending r) fd 4 ev 12 = Some p'"
    "pend_rep p' (add_mset (fd, ev) P)" by blast
  with assms(3,4) that show thesis
    by (simp add: add_pending_event_def create_timer_ms_asio_ric_def add_fd_asio_ric_def wait_ms_def)
qed

lemma stop_pending_event_rep:
  assumes "pend_rep (pending r) P" "(fd, ev) \<in># P" "0 < fd" "fd \<in> io r"
  obtains p' where "stop_pending_event r ev = Some (r\<lparr>pending := p', io := io r - {fd}\<rparr>)"
    "pend_rep p' (P - {#(fd, ev)#})"
proof -
  from pend_extract[OF assms(1,2)] obtain p' where "bi_map_extract_right (pending r) ev 12 = Some (fd, ev, p')"
    "pend_rep p' (P - {#(fd, ev)#})" by blast
  with assms(3,4) that show thesis by (simp add: stop_pending_event_def rm_fd_asio_ric_def)
qed

section \<open>Trees without repeated keys\<close>

definition tree_rep :: "(uint16, 'v) assoc_rb_tree \<Rightarrow> (uint16 \<times> 'v) list \<Rightarrow> bool" where
  "tree_rep t ps \<longleftrightarrow> (\<exists>es. rb_rep (\<lambda>_. True) cmp_ran_func_id t es \<and> map snd es = ps) \<and> distinct (map fst ps)"

lemma tree_find:
  assumes "tree_rep t ps" "(k, v) \<in> set ps"
  obtains it where "find_all_rb_tree t k (\<lambda>a b. Some (eq_ran_func_id a b)) = Some it"
    "it \<noteq> assoc_rb_tree_end t" "assoc_rb_tree_key t it = Some (Some k)" "assoc_rb_tree_value t it = Some (Some v)"
proof -
  obtain es where r: "rb_rep (\<lambda>_. True) cmp_ran_func_id t es" "map snd es = ps" and d: "distinct (map fst ps)"
    using assms(1) by (auto simp: tree_rep_def)
  let ?p = "\<lambda>e. eq_ran_func_id k (entry_key e)"
  have f: "find_all_rb_tree t k (\<lambda>a b. Some (eq_ran_func_id a b)) =
      Some (case find ?p es of None \<Rightarrow> dummy t | Some e \<Rightarrow> fst e)"
    by (rule find_all_rep[OF r(1)]) simp
  obtain e where e: "e \<in> set es" "snd e = (k, v)" using assms(2) r(2) by auto
  then have "?p e" by (simp add: eq_ran_func_id_def entry_key_def)
  with e(1) have "find ?p es \<noteq> None" unfolding find_None_iff by blast
  then obtain e' where e': "find ?p es = Some e'" by auto
  then have m: "e' \<in> set es" "?p e'" by (auto simp: find_Some_iff)
  then have "fst (snd e') = k" by (simp add: eq_ran_func_id_def entry_key_def)
  moreover have "snd e' \<in> set ps" using m(1) r(2) by auto
  ultimately have s: "snd e' = (k, v)" using d assms(2) eq_key_imp_eq_value[of ps k] by (cases "snd e'") auto
  obtain xs ys where "es = xs @ (fst e', k, v) # ys" using split_list[OF m(1)] s by (metis prod.collapse)
  from access_rep[OF r(1)[unfolded this]] show thesis
    using that[of "fst e'"] f e' by (simp add: assoc_rb_tree_end_def)
qed

lemma tree_find_end:
  assumes "tree_rep t ps" "k \<notin> fst ` set ps"
  shows "find_all_rb_tree t k (\<lambda>a b. Some (eq_ran_func_id a b)) = Some (assoc_rb_tree_end t)"
proof -
  obtain es where r: "rb_rep (\<lambda>_. True) cmp_ran_func_id t es" "map snd es = ps" using assms(1) by (auto simp: tree_rep_def)
  let ?p = "\<lambda>e. eq_ran_func_id k (entry_key e)"
  have f: "find_all_rb_tree t k (\<lambda>a b. Some (eq_ran_func_id a b)) =
      Some (case find ?p es of None \<Rightarrow> dummy t | Some e \<Rightarrow> fst e)"
    by (rule find_all_rep[OF r(1)]) simp
  have "find ?p es = None" unfolding find_None_iff
  proof
    assume "\<exists>x. x \<in> set es \<and> ?p x"
    then obtain x where "x \<in> set es" "fst (snd x) = k" by (auto simp: eq_ran_func_id_def entry_key_def)
    then have "k \<in> fst ` set ps" unfolding r(2)[symmetric] by force
    then show False using assms(2) by simp
  qed
  with f show ?thesis by (simp add: assoc_rb_tree_end_def)
qed

section \<open>Plug-ins and listeners\<close>

lemma sm_plugin_ric_rep:
  assumes "tree_rep (sm_ds r) ps" "(k, sm) \<in> set ps" "0 < k" "sm_ran_func_id sm = k"
  shows "sm_plugin_ric r k = Some sm"
  by (rule tree_find[OF assms(1,2)]) (use assms(3,4) in \<open>simp add: sm_plugin_ric_def\<close>)

lemma accept_ran_func_rep:
  assumes "tree_rep (sm_ds r) ps" "\<forall>rf \<in> set (stp_ran_func_item req). rf_id rf \<in> fst ` set ps"
  shows "accept_ran_func r req = Some (map rf_id (stp_ran_func_item req))"
proof -
  have "(do { it \<leftarrow> find_all_rb_tree (sm_ds r) fid (\<lambda>a b. Some (eq_ran_func_id a b));
      c_assert (it \<noteq> assoc_rb_tree_end (sm_ds r));
      k \<leftarrow> assoc_rb_tree_key (sm_ds r) it;
      c_assert (k = Some fid);
      Some fid }) = Some fid" if "(fid, sm) \<in> set ps" for fid sm
    by (rule tree_find[OF assms(1) that]) simp
  then have one: "(do { it \<leftarrow> find_all_rb_tree (sm_ds r) fid (\<lambda>a b. Some (eq_ran_func_id a b));
      c_assert (it \<noteq> assoc_rb_tree_end (sm_ds r));
      k \<leftarrow> assoc_rb_tree_key (sm_ds r) it;
      c_assert (k = Some fid);
      Some fid }) = Some fid" if "fid \<in> fst ` set ps" for fid using that by fastforce
  have "cp_loop f xs = Some (map g xs)" if "\<forall>x \<in> set xs. f x = Some (g x)" for f :: "ran_function \<Rightarrow> uint16 option" and g xs
    using that by (induction xs) auto
  then show ?thesis unfolding accept_ran_func_def Let_def using assms(2) one by simp
qed

text \<open>Every listener of the first function is called.\<close>
lemma publish_ind_msg_rep:
  assumes "tree_rep (pub_sub r) ps" "k \<in> fst ` set ps" "ps = (f, ls) # qs"
  shows "publish_ind_msg r k d = Some (r\<lparr>nr_published := nr_published r @ map (\<lambda>l. (l, d)) ls\<rparr>)"
proof -
  obtain es where r: "rb_rep (\<lambda>_. True) cmp_ran_func_id (pub_sub r) es" "map snd es = ps"
    using assms(1) by (auto simp: tree_rep_def)
  then obtain a es' where es: "es = [] @ (a, f, ls) # es'" using assms(3) by auto
  obtain v where "(k, v) \<in> set ps" using assms(2) by auto
  then obtain it where it: "find_all_rb_tree (pub_sub r) k (\<lambda>a b. Some (eq_ran_func_id a b)) = Some it"
    "it \<noteq> assoc_rb_tree_end (pub_sub r)" using tree_find[OF assms(1)] by metis
  have "assoc_rb_tree_front (pub_sub r) = Some a" using front_rep[OF r(1)] es by simp
  moreover have "assoc_rb_tree_value (pub_sub r) a = Some (Some ls)" using access_rep(2)[OF r(1)[unfolded es]] by simp
  ultimately show ?thesis using it by (simp add: publish_ind_msg_def find_all_rb_tree_def)
qed

text \<open>A function without listeners fails an assertion.\<close>
lemma publish_ind_msg_none:
  assumes "tree_rep (pub_sub r) ps" "k \<notin> fst ` set ps"
  shows "publish_ind_msg r k d = None"
  using tree_find_end[OF assms]
  by (simp add: publish_ind_msg_def find_all_rb_tree_def Option.bind_eq_None_conv split: Option.bind_splits)

end
