(* ===== verification/Controller_Refine.thy ===== *)
theory Controller_Refine
  imports Controller_Inv Controller_Parts
begin

text \<open>
  The controller and the iApp implement the specification: every step that the specification
  allows is carried out by the code without a failed assertion, and leaves the tables, the registry, the pending
  events and what was sent as the specification says.
\<close>

section \<open>The relation\<close>

definition ctrl_rep :: "controller \<Rightarrow> actrl \<Rightarrow> bool" where
  "ctrl_rep c a \<longleftrightarrow> ric_table_rep (ia_map_ric_id (iapp c)) (reqs a) \<and> xapp_table_rep (ia_xapps (iapp c)) (xapps a) \<and>
     node_table_rep (ep_nodes (ric c)) (nodes a) \<and> (\<exists>es. reg_rep (ia_e2_nodes (iapp c)) es \<and> map snd es = regs a) \<and>
     pend_rep (pending (ric c)) (pend a) \<and> tree_rep (sm_ds (ric c)) (sms a) \<and> tree_rep (pub_sub (ric c)) (subs a) \<and>
     io (ric c) = fds a \<and> conn_e2_nodes (ric c) = conn a \<and> next_req_id (ric c) = word_of_nat (next_req a) \<and>
     ia_xapp_id (iapp c) = word_of_nat (next_xapp a) \<and> nr_sent (ric c) = to_nodes a \<and>
     ia_sent (iapp c) = to_xapps a \<and> nr_published (ric c) = published a"

lemma ctrl_repD:
  assumes "ctrl_rep c a"
  shows "ric_table_rep (ia_map_ric_id (iapp c)) (reqs a)" "xapp_table_rep (ia_xapps (iapp c)) (xapps a)"
    "node_table_rep (ep_nodes (ric c)) (nodes a)" "\<exists>es. reg_rep (ia_e2_nodes (iapp c)) es \<and> map snd es = regs a"
    "pend_rep (pending (ric c)) (pend a)" "tree_rep (sm_ds (ric c)) (sms a)" "tree_rep (pub_sub (ric c)) (subs a)"
    "io (ric c) = fds a" "conn_e2_nodes (ric c) = conn a" "next_req_id (ric c) = word_of_nat (next_req a)"
    "ia_xapp_id (iapp c) = word_of_nat (next_xapp a)" "nr_sent (ric c) = to_nodes a"
    "ia_sent (iapp c) = to_xapps a" "nr_published (ric c) = published a"
  using assms by (simp_all add: ctrl_rep_def)

text \<open>The allocator returns addresses that are not in use.\<close>
definition fresh_mem :: "alloc \<Rightarrow> controller \<Rightarrow> bool" where
  "fresh_mem mal c \<longleftrightarrow> (\<forall>i. ok_mal (mal i) \<and> fresh_for (pending (ric c)) (mal i 0) (mal i 1) \<and>
     fresh_for (ep_nodes (ric c)) (mal i 0) (mal i 1) \<and> fresh_for (ia_xapps (iapp c)) (mal i 0) (mal i 1) \<and>
     fresh_for (ia_map_ric_id (iapp c)) (mal i 0) (mal i 1) \<and> heap (node_to_rf (ia_e2_nodes (iapp c))) (mal i 0) = None)"

definition ctrl_run :: "alloc \<Rightarrow> (nat \<Rightarrow> int) \<Rightarrow> controller \<Rightarrow> ctrl_event \<Rightarrow> controller option" where
  "ctrl_run mal kfd c ev = (case ev of RIC_EVENT e \<Rightarrow> e2_event_loop_ric mal (kfd 0) c e
     | IAPP_EVENT e \<Rightarrow> e2_event_loop_iapp mal kfd c e)"

section \<open>Numbers of requests\<close>

lemma set_low16_word:
  assumes "k < 65536" "x < 65536"
  shows "set_low16 (ucast (word_of_nat k :: uint32)) x = word_of_nat k"
proof -
  have "unat x < 65536" using assms(2) by (simp add: word_less_nat_alt)
  moreover have "unat (ucast (word_of_nat k :: uint32) :: uint16) = k" using assms(1) by (simp add: unsigned_ucast_eq take_bit_eq_mod unat_of_nat)
  ultimately show ?thesis by (simp add: set_low16_def)
qed

lemma with_req_id_renumbered:
  assumes "k < 65536" "ric_req_id i < 65536"
  shows "with_req_id (ucast (word_of_nat k :: uint32)) i = renumbered k i"
  using set_low16_word[OF assms] by (simp add: with_req_id_def renumbered_def)

lemma ucast_ucast_number: "k < 65536 \<Longrightarrow> ucast (ucast (word_of_nat k :: uint32) :: uint16) = (word_of_nat k :: uint32)"
proof -
  assume k: "k < 65536"
  have a: "ucast (word_of_nat k :: uint32) = (word_of_nat k :: uint16)"
    unfolding unsigned_of_nat take_bit_eq_mod using k by simp
  have "ucast (word_of_nat k :: uint16) = (word_of_nat k :: uint32)"
    unfolding unsigned_of_nat take_bit_eq_mod using k by simp
  with a show ?thesis by simp
qed

section \<open>The address of a node\<close>

lemma find_node_addr:
  assumes "node_table_rep m P" "(nid, t) \<in># P" "\<forall>n \<in># image_mset fst P. has_cu_du_id n"
    "\<forall>n \<in># image_mset fst P. node_key n = node_key nid \<longrightarrow> n = nid"
  shows "find_map_e2_node_sad m nid = Some t"
proof (rule node_table_find[OF assms(1,2)])
  have v: "has_cu_du_id nid" using assms(2,3) by force
  then show "eq_global_e2_node_id nid nid = Some True" by (rule eq_node_refl)
  show "\<forall>(n, t) \<in># P. eq_global_e2_node_id nid n = Some (n = nid)"
  proof clarify
    fix n t assume "(n, t) \<in># P"
    then have "n \<in># image_mset fst P" by force
    then have "has_cu_du_id n" "node_key n = node_key nid \<longrightarrow> n = nid" using assms(3,4) by blast+
    then show "eq_global_e2_node_id nid n = Some (n = nid)" using eq_global_key[OF v] by auto
  qed
qed

lemma nodes_inv_addr:
  assumes "ctrl_rep c a" "nodes_inv a" "(nid, t) \<in># nodes a"
  shows "find_map_e2_node_sad (ep_nodes (ric c)) nid = Some t" "has_cu_du_id nid" "nid \<in> fst ` set (regs a)"
proof -
  have m: "set_mset (image_mset fst (nodes a)) = fst ` set (regs a)" using assms(2) by (simp add: nodes_inv_def)
  have v: "\<forall>n \<in> fst ` set (regs a). has_cu_du_id n" using assms(2) by (auto simp: nodes_inv_def)
  show n: "nid \<in> fst ` set (regs a)" using assms(3) m by force
  then show "has_cu_du_id nid" using v by blast
  have "inj_on (node_key \<circ> fst) (set (regs a))" using assms(2) by (simp add: nodes_inv_def distinct_map)
  then have "\<forall>x \<in> fst ` set (regs a). node_key x = node_key nid \<longrightarrow> x = nid"
    using n by (fastforce simp: inj_on_def)
  then show "find_map_e2_node_sad (ep_nodes (ric c)) nid = Some t"
    using v by (intro find_node_addr[OF ctrl_repD(3)[OF assms(1)] assms(3)]) (simp_all only: m)
qed

section \<open>Forwarded requests\<close>

text \<open>What the two request handlers share: the number, the timer, the message to the node.\<close>
lemma fwd_subscription:
  assumes "next_req_id r = word_of_nat k" "k < 65535" "ric_req_id (sr_ric_id sr) < 65536"
    "pend_rep (pending r) P" "fresh_for (pending r) (mal 0) (mal 1)" "0 < fd" "fd \<notin> io r"
    "\<forall>(f, e) \<in># P. f \<noteq> fd \<and> e \<noteq> \<lparr>p_ev = SUBSCRIPTION_REQUEST_PENDING_EVENT, p_id = renumbered k (sr_ric_id sr)\<rparr>"
    "find_map_e2_node_sad (ep_nodes r) nid = Some t"
  obtains p' where "fwd_ric_subscription_request mal fd r nid sr = Some (ucast (word_of_nat k :: uint32),
      sr\<lparr>sr_ric_id := renumbered k (sr_ric_id sr)\<rparr>, r\<lparr>io := insert fd (io r), next_req_id := word_of_nat (k + 1), pending := p',
        nr_sent := nr_sent r @ [(t, ric_sub_req (sr\<lparr>sr_ric_id := renumbered k (sr_ric_id sr)\<rparr>))]\<rparr>)"
    "pend_rep p' (add_mset (fd, \<lparr>p_ev = SUBSCRIPTION_REQUEST_PENDING_EVENT, p_id = renumbered k (sr_ric_id sr)\<rparr>) P)"
proof -
  let ?r = "r\<lparr>next_req_id := word_of_nat (k + 1)\<rparr>"
  have "pend_rep (pending ?r) P" "fresh_for (pending ?r) (mal 0) (mal 1)" "fd \<notin> io ?r" using assms(4,5,7) by simp_all
  from add_pending_event_rep[OF this(1,2) assms(6) this(3) assms(8)] obtain p' where
    p: "add_pending_event mal fd ?r \<lparr>p_ev = SUBSCRIPTION_REQUEST_PENDING_EVENT, p_id = renumbered k (sr_ric_id sr)\<rparr> =
      Some (?r\<lparr>io := insert fd (io ?r), pending := p'\<rparr>)"
    "pend_rep p' (add_mset (fd, \<lparr>p_ev = SUBSCRIPTION_REQUEST_PENDING_EVENT, p_id = renumbered k (sr_ric_id sr)\<rparr>) P)" .
  have "with_req_id (ucast (word_of_nat k :: uint32)) (sr_ric_id sr) = renumbered k (sr_ric_id sr)"
    using assms(2,3) by (intro with_req_id_renumbered) simp_all
  then show thesis using that[OF _ p(2)] p(1) assms(1,9)
    by (simp add: fwd_ric_subscription_request_def e2ap_send_bytes_ric_def e2ap_send_sctp_msg_ric_def Let_def add.commute)
qed

lemma fwd_control:
  assumes "next_req_id r = word_of_nat k" "k < 65535" "ric_req_id (cr_ric_id cr) < 65536"
    "pend_rep (pending r) P" "fresh_for (pending r) (mal 0) (mal 1)" "0 < fd" "fd \<notin> io r"
    "\<forall>(f, e) \<in># P. f \<noteq> fd \<and> e \<noteq> \<lparr>p_ev = CONTROL_REQUEST_PENDING_EVENT, p_id = renumbered k (cr_ric_id cr)\<rparr>"
    "find_map_e2_node_sad (ep_nodes r) nid = Some t"
  obtains p' where "fwd_ric_control_request mal fd r nid cr = Some (ucast (word_of_nat k :: uint32),
      cr\<lparr>cr_ric_id := renumbered k (cr_ric_id cr)\<rparr>, r\<lparr>io := insert fd (io r), next_req_id := word_of_nat (k + 1), pending := p',
        nr_sent := nr_sent r @ [(t, ric_ctrl_req (cr\<lparr>cr_ric_id := renumbered k (cr_ric_id cr)\<rparr>))]\<rparr>)"
    "pend_rep p' (add_mset (fd, \<lparr>p_ev = CONTROL_REQUEST_PENDING_EVENT, p_id = renumbered k (cr_ric_id cr)\<rparr>) P)"
proof -
  let ?r = "r\<lparr>next_req_id := word_of_nat (k + 1)\<rparr>"
  have "pend_rep (pending ?r) P" "fresh_for (pending ?r) (mal 0) (mal 1)" "fd \<notin> io ?r" using assms(4,5,7) by simp_all
  from add_pending_event_rep[OF this(1,2) assms(6) this(3) assms(8)] obtain p' where
    p: "add_pending_event mal fd ?r \<lparr>p_ev = CONTROL_REQUEST_PENDING_EVENT, p_id = renumbered k (cr_ric_id cr)\<rparr> =
      Some (?r\<lparr>io := insert fd (io ?r), pending := p'\<rparr>)"
    "pend_rep p' (add_mset (fd, \<lparr>p_ev = CONTROL_REQUEST_PENDING_EVENT, p_id = renumbered k (cr_ric_id cr)\<rparr>) P)" .
  have "with_req_id (ucast (word_of_nat k :: uint32)) (cr_ric_id cr) = renumbered k (cr_ric_id cr)"
    using assms(2,3) by (intro with_req_id_renumbered) simp_all
  then show thesis using that[OF _ p(2)] p(1) assms(1,9)
    by (simp add: fwd_ric_control_request_def e2ap_send_bytes_ric_def e2ap_send_sctp_msg_ric_def Let_def add.commute)
qed

lemma fwd_delete:
  assumes "pend_rep (pending r) P" "fresh_for (pending r) (mal 0) (mal 1)" "0 < fd" "fd \<notin> io r"
    "ev = \<lparr>p_ev = SUBSCRIPTION_DELETE_REQUEST_PENDING_EVENT, p_id = sdr_ric_id sdr\<rparr>"
    "\<forall>(f, e) \<in># P. f \<noteq> fd \<and> e \<noteq> ev" "find_map_e2_node_sad (ep_nodes r) nid = Some t"
  obtains p' where "fwd_ric_subscription_request_delete mal fd r nid sdr = Some (r\<lparr>io := insert fd (io r), pending := p',
        nr_sent := nr_sent r @ [(t, ric_sub_del_req sdr)]\<rparr>)"
    "pend_rep p' (add_mset (fd, ev) P)"
proof -
  from add_pending_event_rep[OF assms(1-4,6)] obtain p' where
    p: "add_pending_event mal fd r ev = Some (r\<lparr>io := insert fd (io r), pending := p'\<rparr>)"
    "pend_rep p' (add_mset (fd, ev) P)" .
  have "\<forall>(f, e) \<in># P. e \<noteq> ev" using assms(6) by fastforce
  from pend_absent[OF assms(1) this] show thesis using that[OF _ p(2)] p(1) assms(5,7)
    by (simp add: fwd_ric_subscription_request_delete_def e2ap_send_bytes_ric_def e2ap_send_sctp_msg_ric_def Let_def)
qed

section \<open>Answers of the E2 nodes\<close>

lemma number_cast:
  assumes "0 < w" "unat w < 65536"
  shows "0 < (ucast w :: uint16)" "ucast (ucast w :: uint16) = (w :: uint32)"
proof -
  show u: "ucast (ucast w :: uint16) = w" using ucast_ucast_number[OF assms(2)] by simp
  show "0 < (ucast w :: uint16)"
  proof (rule ccontr)
    assume "\<not> 0 < (ucast w :: uint16)"
    then have "(ucast w :: uint16) = 0" by (simp add: word_gt_0)
    then show False using u assms(1) by simp
  qed
qed

lemma find_request:
  assumes "ctrl_rep c a" "reqs_inv a" "(n, x) \<in># reqs a" "matches i (n, x)"
  shows "find_xapp_map_ric_id (ia_map_ric_id (iapp c)) (ucast (ric_req_id i)) = Some (Some x)"
    "ran_func_id i = ran_func_id (x_ric_id x)" "ric_inst_id i = ric_inst_id (x_ric_id x)"
    "i\<lparr>ric_req_id := ric_req_id (x_ric_id x)\<rparr> = x_ric_id x"
proof -
  have w: "0 < ric_req_id i" "unat (ric_req_id i) < 65536" "ric_req_id i = ric_req_id (e_ric_id n)"
    using assms(2-4) by (fastforce simp: reqs_inv_def matches_def)+
  from ric_table_find[OF ctrl_repD(1)[OF assms(1)] number_cast(1)[OF w(1,2)]] assms(3) w(3) number_cast(2)[OF w(1,2)]
  show "find_xapp_map_ric_id (ia_map_ric_id (iapp c)) (ucast (ric_req_id i)) = Some (Some x)" by simp
  show "ran_func_id i = ran_func_id (x_ric_id x)" "ric_inst_id i = ric_inst_id (x_ric_id x)"
    using assms(4) by (simp_all add: matches_def same_func_def)
  then show "i\<lparr>ric_req_id := ric_req_id (x_ric_id x)\<rparr> = x_ric_id x" by (cases i; cases "x_ric_id x") simp
qed

lemma send_to_xapp_rep:
  assumes "ctrl_rep c a" "(xid, s) \<in># xapps a" "iapp b = iapp c"
  shows "send_to_xapp b xid m = Some (e2ap_send_sctp_msg_iapp b s m)"
  using find_map_xapps_sad_rep[OF ctrl_repD(2)[OF assms(1)] assms(2)] assms(3) by (simp add: send_to_xapp_def)

lemma stop_timer:
  assumes "ctrl_rep c a" "pend_inv a" "(fd, ev) \<in># pend a"
  obtains r where "stop_pending_event (ric c) ev = Some r"
    "ctrl_rep (c\<lparr>ric := r\<rparr>) (a\<lparr>pend := pend a - {#(fd, ev)#}, fds := fds a - {fd}\<rparr>)"
proof -
  have "0 < fd" "fd \<in> io (ric c)" using assms(2,3) ctrl_repD(8)[OF assms(1)] by (fastforce simp: pend_inv_def)+
  from stop_pending_event_rep[OF ctrl_repD(5)[OF assms(1)] assms(3) this] obtain p' where
    "stop_pending_event (ric c) ev = Some ((ric c)\<lparr>pending := p', io := io (ric c) - {fd}\<rparr>)"
    "pend_rep p' (pend a - {#(fd, ev)#})" .
  then show thesis using that assms(1) by (simp add: ctrl_rep_def)
qed

text \<open>What was sent to an xApp.\<close>
lemma ctrl_rep_sent:
  "ctrl_rep c a \<Longrightarrow> ctrl_rep (e2ap_send_sctp_msg_iapp c s m) (a\<lparr>to_xapps := to_xapps a @ [(s, m)]\<rparr>)"
  by (simp add: ctrl_rep_def e2ap_send_sctp_msg_iapp_def)

text \<open>The removal of a request.\<close>
lemma rm_request:
  assumes "ctrl_rep c a" "(n, x) \<in># reqs a"
  obtains m where "rm_map_ric_id (ia_map_ric_id (iapp c)) x = Some (n, m)"
    "ctrl_rep (c\<lparr>iapp := (iapp c)\<lparr>ia_map_ric_id := m\<rparr>\<rparr>) (a\<lparr>reqs := reqs a - {#(n, x)#}\<rparr>)"
proof -
  obtain m where "rm_map_ric_id (ia_map_ric_id (iapp c)) x = Some (n, m)" "ric_table_rep m (reqs a - {#(n, x)#})"
    using ric_table_rm[OF ctrl_repD(1)[OF assms(1)] assms(2)] by blast
  then show thesis using that assms(1) by (simp add: ctrl_rep_def)
qed

lemma mv_id: "mv_ric_subscription_respponse m = m" "mv_ric_indication i = i"
  by (simp_all add: mv_ric_subscription_respponse_def mv_ric_indication_def)

lemmas handler_defs = e2_event_loop_ric_def sctp_msg_arrived_event_def e2ap_msg_handle_ric_def
  notify_msg_iapp_def e2ap_msg_handle_iapp_def

lemma reqs_to_xapps: "a\<lparr>to_xapps := ms, reqs := q\<rparr> = a\<lparr>reqs := q, to_xapps := ms\<rparr>"
  by (rule actrl.equality) simp_all

lemma subscribed_refines:
  assumes "ctrl_rep c a" "a_inv a"
    and "(fd, \<lparr>p_ev = SUBSCRIPTION_REQUEST_PENDING_EVENT, p_id = rs_ric_id m\<rparr>) \<in># pend a"
    and "(n, x) \<in># reqs a" "matches (rs_ric_id m) (n, x)" "(xapp_id x, s) \<in># xapps a"
    and "rs_not_admitted m = []" "rs_admitted m = [\<lparr>ric_act_id = 0\<rparr>]"
  shows "\<exists>c'. e2_event_loop_ric mal tfd c (MSG_ARRIVED info (ric_sub_resp m)) = Some c' \<and> ctrl_rep c' (a\<lparr>
      pend := pend a - {#(fd, \<lparr>p_ev = SUBSCRIPTION_REQUEST_PENDING_EVENT, p_id = rs_ric_id m\<rparr>)#}, fds := fds a - {fd},
      to_xapps := to_xapps a @ [(s, ric_sub_resp (m\<lparr>rs_ric_id := x_ric_id x\<rparr>))]\<rparr>)"
proof -
  have i: "reqs_inv a" "pend_inv a" using assms(2) by (simp_all add: a_inv_def)
  obtain r where r: "stop_pending_event (ric c) \<lparr>p_ev = SUBSCRIPTION_REQUEST_PENDING_EVENT, p_id = rs_ric_id m\<rparr> = Some r"
    "ctrl_rep (c\<lparr>ric := r\<rparr>) (a\<lparr>pend := pend a - {#(fd, \<lparr>p_ev = SUBSCRIPTION_REQUEST_PENDING_EVENT, p_id = rs_ric_id m\<rparr>)#},
      fds := fds a - {fd}\<rparr>)" using stop_timer[OF assms(1) i(2) assms(3)] .
  note f = find_request[OF assms(1) i(1) assms(4,5)]
  have "send_to_xapp (c\<lparr>ric := r\<rparr>) (xapp_id x) msg = Some (e2ap_send_sctp_msg_iapp (c\<lparr>ric := r\<rparr>) s msg)" for msg
    by (rule send_to_xapp_rep[OF assms(1,6)]) simp
  then show ?thesis using ctrl_rep_sent[OF r(2), of s "ric_sub_resp (m\<lparr>rs_ric_id := x_ric_id x\<rparr>)"] r(1) f(1-3) assms(7,8)
    by (simp add: handler_defs e2ap_handle_subscription_response_ric_def mv_id
        e2ap_handle_subscription_response_iapp_def f(4) del: ric_gen_id.update_convs)
qed

text \<open>The answers that end a request.\<close>
lemma unsubscribed_refines:
  assumes "ctrl_rep c a" "a_inv a"
    and "(fd, \<lparr>p_ev = SUBSCRIPTION_DELETE_REQUEST_PENDING_EVENT, p_id = sdp_ric_id m\<rparr>) \<in># pend a"
    and "(n, x) \<in># reqs a" "matches (sdp_ric_id m) (n, x)" "(xapp_id x, s) \<in># xapps a"
  shows "\<exists>c'. e2_event_loop_ric mal tfd c (MSG_ARRIVED info (ric_sub_del_resp m)) = Some c' \<and> ctrl_rep c' (a\<lparr>
      pend := pend a - {#(fd, \<lparr>p_ev = SUBSCRIPTION_DELETE_REQUEST_PENDING_EVENT, p_id = sdp_ric_id m\<rparr>)#},
      fds := fds a - {fd}, reqs := reqs a - {#(n, x)#},
      to_xapps := to_xapps a @ [(s, ric_sub_del_resp \<lparr>sdp_ric_id = x_ric_id x\<rparr>)]\<rparr>)"
proof -
  have i: "reqs_inv a" "pend_inv a" using assms(2) by (simp_all add: a_inv_def)
  let ?ans = "ric_sub_del_resp \<lparr>sdp_ric_id = x_ric_id x\<rparr>"
  let ?a = "a\<lparr>pend := pend a - {#(fd, \<lparr>p_ev = SUBSCRIPTION_DELETE_REQUEST_PENDING_EVENT, p_id = sdp_ric_id m\<rparr>)#},
      fds := fds a - {fd}, to_xapps := to_xapps a @ [(s, ?ans)]\<rparr>"
  obtain r where r: "stop_pending_event (ric c) \<lparr>p_ev = SUBSCRIPTION_DELETE_REQUEST_PENDING_EVENT, p_id = sdp_ric_id m\<rparr> = Some r"
    "ctrl_rep (c\<lparr>ric := r\<rparr>) (a\<lparr>pend := pend a - {#(fd, \<lparr>p_ev = SUBSCRIPTION_DELETE_REQUEST_PENDING_EVENT, p_id = sdp_ric_id m\<rparr>)#},
      fds := fds a - {fd}\<rparr>)" using stop_timer[OF assms(1) i(2) assms(3)] .
  let ?c = "e2ap_send_sctp_msg_iapp (c\<lparr>ric := r\<rparr>) s ?ans"
  have "ctrl_rep ?c ?a" using ctrl_rep_sent[OF r(2), of s ?ans] by simp
  from rm_request[OF this] assms(4) obtain m' where m': "rm_map_ric_id (ia_map_ric_id (iapp ?c)) x = Some (n, m')"
    "ctrl_rep (?c\<lparr>iapp := (iapp ?c)\<lparr>ia_map_ric_id := m'\<rparr>\<rparr>) (?a\<lparr>reqs := reqs a - {#(n, x)#}\<rparr>)" by auto
  have "send_to_xapp (c\<lparr>ric := r\<rparr>) (xapp_id x) ?ans = Some ?c" by (rule send_to_xapp_rep[OF assms(1,6)]) simp
  then show ?thesis using m'(1) m'(2)[unfolded reqs_to_xapps] r(1) find_request[OF assms(1) i(1) assms(4,5)]
    by (simp add: handler_defs e2ap_handle_subscription_delete_response_ric_def
        e2ap_handle_subscription_delete_response_iapp_def)
qed

lemma controlled_refines:
  assumes "ctrl_rep c a" "a_inv a"
    and "(fd, \<lparr>p_ev = CONTROL_REQUEST_PENDING_EVENT, p_id = ca_ric_id m\<rparr>) \<in># pend a"
    and "(n, x) \<in># reqs a" "matches (ca_ric_id m) (n, x)" "(xapp_id x, s) \<in># xapps a"
  shows "\<exists>c'. e2_event_loop_ric mal tfd c (MSG_ARRIVED info (ric_ctrl_ack m)) = Some c' \<and> ctrl_rep c' (a\<lparr>
      pend := pend a - {#(fd, \<lparr>p_ev = CONTROL_REQUEST_PENDING_EVENT, p_id = ca_ric_id m\<rparr>)#}, fds := fds a - {fd},
      reqs := reqs a - {#(n, x)#},
      to_xapps := to_xapps a @ [(s, ric_ctrl_ack \<lparr>ca_ric_id = x_ric_id x, ca_call_process_id = None,
        ca_control_outcome = None\<rparr>)]\<rparr>)"
proof -
  have i: "reqs_inv a" "pend_inv a" using assms(2) by (simp_all add: a_inv_def)
  let ?ans = "ric_ctrl_ack \<lparr>ca_ric_id = x_ric_id x, ca_call_process_id = None, ca_control_outcome = None\<rparr>"
  let ?a = "a\<lparr>pend := pend a - {#(fd, \<lparr>p_ev = CONTROL_REQUEST_PENDING_EVENT, p_id = ca_ric_id m\<rparr>)#},
      fds := fds a - {fd}, to_xapps := to_xapps a @ [(s, ?ans)]\<rparr>"
  obtain r where r: "stop_pending_event (ric c) \<lparr>p_ev = CONTROL_REQUEST_PENDING_EVENT, p_id = ca_ric_id m\<rparr> = Some r"
    "ctrl_rep (c\<lparr>ric := r\<rparr>) (a\<lparr>pend := pend a - {#(fd, \<lparr>p_ev = CONTROL_REQUEST_PENDING_EVENT, p_id = ca_ric_id m\<rparr>)#},
      fds := fds a - {fd}\<rparr>)" using stop_timer[OF assms(1) i(2) assms(3)] .
  let ?c = "e2ap_send_sctp_msg_iapp (c\<lparr>ric := r\<rparr>) s ?ans"
  have "ctrl_rep ?c ?a" using ctrl_rep_sent[OF r(2), of s ?ans] by simp
  from rm_request[OF this] assms(4) obtain m' where m': "rm_map_ric_id (ia_map_ric_id (iapp ?c)) x = Some (n, m')"
    "ctrl_rep (?c\<lparr>iapp := (iapp ?c)\<lparr>ia_map_ric_id := m'\<rparr>\<rparr>) (?a\<lparr>reqs := reqs a - {#(n, x)#}\<rparr>)" by auto
  have "send_to_xapp (c\<lparr>ric := r\<rparr>) (xapp_id x) ?ans = Some ?c" by (rule send_to_xapp_rep[OF assms(1,6)]) simp
  then show ?thesis using m'(1) m'(2)[unfolded reqs_to_xapps] r(1) find_request[OF assms(1) i(1) assms(4,5)]
    by (simp add: handler_defs e2ap_handle_control_ack_ric_def e2ap_handle_e42_ric_control_ack_iapp_def)
qed

text \<open>Indications: the listeners are called and the message goes to the xApp of the request, if there
  is one.\<close>
lemma publish_refines:
  assumes "ctrl_rep c a" "a_inv a" "(ran_func_id (ind_ric_id m), sm) \<in> set (sms a)" "subs a = (f, ls) # ss"
    and "ran_func_id (ind_ric_id m) \<in> fst ` set (subs a)"
  obtains r where "sm_plugin_ric (ric c) (ran_func_id (ind_ric_id m)) = Some sm"
    "publish_ind_msg (ric c) (ran_func_id (ind_ric_id m)) d = Some r"
    "ctrl_rep (c\<lparr>ric := r\<rparr>) (a\<lparr>published := published a @ map (\<lambda>l. (l, d)) ls\<rparr>)"
proof -
  have "0 < ran_func_id (ind_ric_id m) \<and> sm_ran_func_id sm = ran_func_id (ind_ric_id m)"
    using assms(2,3) unfolding a_inv_def sms_inv_def by blast
  then have "sm_plugin_ric (ric c) (ran_func_id (ind_ric_id m)) = Some sm"
    using sm_plugin_ric_rep[OF ctrl_repD(6)[OF assms(1)] assms(3)] by blast
  with publish_ind_msg_rep[OF ctrl_repD(7)[OF assms(1)] assms(5,4)] that assms(1) show thesis
    by (simp add: ctrl_rep_def)
qed

lemma indication_refines:
  assumes "ctrl_rep c a" "a_inv a" "(ran_func_id (ind_ric_id m), sm) \<in> set (sms a)" "subs a = (f, ls) # ss"
    and "ran_func_id (ind_ric_id m) \<in> fst ` set (subs a)"
    and "on_indication sm (ind_hdr m) (ind_msg m) (ind_call_process_id m) = Some d"
    and "rd_type d \<noteq> SM_AGENT_IF_READ_V0_END" "(n, x) \<in># reqs a" "matches (ind_ric_id m) (n, x)" "(xapp_id x, s) \<in># xapps a"
  shows "\<exists>c'. e2_event_loop_ric mal tfd c (MSG_ARRIVED info (ric_ind m)) = Some c' \<and> ctrl_rep c' (a\<lparr>
      published := published a @ map (\<lambda>l. (l, d)) ls,
      to_xapps := to_xapps a @ [(s, ric_ind (m\<lparr>ind_ric_id := x_ric_id x\<rparr>))]\<rparr>)"
proof -
  have i: "reqs_inv a" using assms(2) by (simp_all add: a_inv_def)
  obtain r where r: "sm_plugin_ric (ric c) (ran_func_id (ind_ric_id m)) = Some sm"
    "publish_ind_msg (ric c) (ran_func_id (ind_ric_id m)) d = Some r"
    "ctrl_rep (c\<lparr>ric := r\<rparr>) (a\<lparr>published := published a @ map (\<lambda>l. (l, d)) ls\<rparr>)"
    using publish_refines[OF assms(1-5)] by metis
  note f = find_request[OF assms(1) i assms(8,9)]
  have "send_to_xapp (c\<lparr>ric := r\<rparr>) (xapp_id x) msg = Some (e2ap_send_sctp_msg_iapp (c\<lparr>ric := r\<rparr>) s msg)" for msg
    by (rule send_to_xapp_rep[OF assms(1,10)]) simp
  then show ?thesis using ctrl_rep_sent[OF r(3), of s "ric_ind (m\<lparr>ind_ric_id := x_ric_id x\<rparr>)"] r(1,2) f(1-3) assms(6,7)
    by (simp add: handler_defs e2ap_handle_indication_ric_def mv_id e2ap_handle_ric_indication_iapp_def f(4)
        del: ric_gen_id.update_convs)
qed

lemma stale_indication_refines:
  assumes "ctrl_rep c a" "a_inv a" "(ran_func_id (ind_ric_id m), sm) \<in> set (sms a)" "subs a = (f, ls) # ss"
    and "ran_func_id (ind_ric_id m) \<in> fst ` set (subs a)"
    and "on_indication sm (ind_hdr m) (ind_msg m) (ind_call_process_id m) = Some d"
    and "rd_type d \<noteq> SM_AGENT_IF_READ_V0_END" "0 < ric_req_id (ind_ric_id m)" "ric_req_id (ind_ric_id m) < 65536"
    and "\<forall>(n, x) \<in># reqs a. ric_req_id (e_ric_id n) \<noteq> ric_req_id (ind_ric_id m)"
  shows "\<exists>c'. e2_event_loop_ric mal tfd c (MSG_ARRIVED info (ric_ind m)) = Some c' \<and>
    ctrl_rep c' (a\<lparr>published := published a @ map (\<lambda>l. (l, d)) ls\<rparr>)"
proof -
  have "unat (ric_req_id (ind_ric_id m)) < 65536" using assms(9) by (simp add: word_less_nat_alt)
  note w = number_cast[OF assms(8) this]
  obtain r where r: "sm_plugin_ric (ric c) (ran_func_id (ind_ric_id m)) = Some sm"
    "publish_ind_msg (ric c) (ran_func_id (ind_ric_id m)) d = Some r"
    "ctrl_rep (c\<lparr>ric := r\<rparr>) (a\<lparr>published := published a @ map (\<lambda>l. (l, d)) ls\<rparr>)"
    using publish_refines[OF assms(1-5)] by metis
  have "find_xapp_map_ric_id (ia_map_ric_id (iapp c)) (ucast (ric_req_id (ind_ric_id m))) = Some None"
    using ric_table_find[OF ctrl_repD(1)[OF assms(1)] w(1)] assms(10) w(2) by simp
  then show ?thesis using r assms(6,7)
    by (simp add: handler_defs e2ap_handle_indication_ric_def e2ap_handle_ric_indication_iapp_def)
qed

section \<open>Setup and shutdown of an E2 node\<close>

lemma ins_entry_reg: "map snd (ins_entry order_e2_node (i, k, v) es) = reg_insert (k, v) (map snd es)"
  by (simp add: ins_entry_def reg_insert_def takeWhile_map dropWhile_map comp_def entry_key_def)

lemma generate_setup_response_rep:
  assumes "tree_rep (sm_ds r) ps" "\<forall>rf \<in> set (stp_ran_func_item req). rf_id rf \<in> fst ` set ps" "ok_setup req"
  shows "generate_setup_response_v2 r req = Some (setup_response req)"
proof -
  have "cp_loop (\<lambda>c. do { i \<leftarrow> cp_e2ap_node_comp_id (cca_comp_id c);
      Some \<lparr>caa_interface_type = cca_interface_type c, caa_comp_id = i,
        caa_ack = \<lparr>ack_outcome = SUCCESS_E2AP_NODE_COMP_CONF_ACK, ack_cause = None\<rparr>\<rparr> }) cs =
    Some (map (\<lambda>c. \<lparr>caa_interface_type = cca_interface_type c, caa_comp_id = cca_comp_id c,
        caa_ack = \<lparr>ack_outcome = SUCCESS_E2AP_NODE_COMP_CONF_ACK, ack_cause = None\<rparr>\<rparr>) cs)"
    if "\<forall>c \<in> set cs. cp_ok c" for cs
    using that by (induction cs) (simp_all add: cp_comp_id_id)
  then show ?thesis using accept_ran_func_rep[OF assms(1,2)] assms(3)
    by (simp add: generate_setup_response_v2_def setup_response_def ok_setup_def)
qed

lemma node_setup_refines:
  assumes R: "ctrl_rep c a" and "a_inv a" and m: "fresh_mem mal c" and req: "ok_setup req"
    and new: "\<forall>(n, p) \<in> set (regs a). \<not> eq_node (stp_id req) n"
    and "\<forall>(n, t) \<in># nodes a. cmp_sctp_info info t \<noteq> 0"
    and sm: "\<forall>rf \<in> set (stp_ran_func_item req). \<exists>sm. (rf_id rf, sm) \<in> set (sms a)"
  shows "\<exists>c'. e2_event_loop_ric mal tfd c (MSG_ARRIVED info (e2_stp_req req)) = Some c' \<and> ctrl_rep c' (a\<lparr>
      nodes := add_mset (stp_id req, info) (nodes a),
      regs := reg_insert (stp_id req, \<lparr>pr_ran_func = stp_ran_func_item req, pr_comp_conf_add = stp_comp_conf_add req\<rparr>) (regs a),
      conn := conn a @ [\<lparr>en_id = stp_id req, en_accepted = map rf_id (stp_ran_func_item req)\<rparr>],
      to_nodes := to_nodes a @ [(info, e2_stp_resp (setup_response req))]\<rparr>)"
proof -
  let ?nid = "stp_id req" and ?p = "\<lparr>pr_ran_func = stp_ran_func_item req, pr_comp_conf_add = stp_comp_conf_add req\<rparr>"
  have ni: "nodes_inv a" using assms(2) by (simp add: a_inv_def)
  have v: "has_cu_du_id ?nid" "ok_pair ?p" "stp_ran_func_item req \<noteq> []" using req by (auto simp: ok_setup_def ok_pair_def)
  have "\<forall>(n, t) \<in># nodes a. order_e2_node ?nid n \<noteq> 0 \<and> cmp_sctp_info info t \<noteq> 0"
  proof clarify
    fix n t assume nt: "(n, t) \<in># nodes a"
    obtain p where "(n, p) \<in> set (regs a)" using nodes_inv_addr(3)[OF R ni nt] by auto
    then have "\<not> eq_node ?nid n" "has_cu_du_id n" using new ni unfolding nodes_inv_def by blast+
    then have "order_e2_node ?nid n \<noteq> 0" using order_node_key[OF v(1)] eq_node_key[OF v(1)] by blast
    moreover have "cmp_sctp_info info t \<noteq> 0" using nt assms(6) by blast
    ultimately show "order_e2_node ?nid n \<noteq> 0 \<and> cmp_sctp_info info t \<noteq> 0" ..
  qed
  then obtain m' where m': "add_map_e2_node_sad (mal 1 0) (mal 1 1) (ep_nodes (ric c)) ?nid info = Some m'"
    "node_table_rep m' (add_mset (?nid, info) (nodes a))"
    using node_table_add[OF ctrl_repD(3)[OF R] _ v(1)] m unfolding fresh_mem_def by blast
  obtain es where es: "reg_rep (ia_e2_nodes (iapp c)) es" "map snd es = regs a" using ctrl_repD(4)[OF R] by blast
  have "\<forall>e \<in> set es. \<not> eq_node ?nid (entry_key e)" using new unfolding es(2)[symmetric] by (auto simp: entry_key_def)
  moreover have "heap (node_to_rf (ia_e2_nodes (iapp c))) (mal 0 0) = None" "mal 0 0 \<noteq> 0"
    using m by (simp_all add: fresh_mem_def ok_mal_def)
  ultimately obtain n' where n': "add_reg_e2_node (mal 0 0) (ia_e2_nodes (iapp c)) ?nid (stp_ran_func_item req)
      (stp_comp_conf_add req) = Some n'" "reg_rep n' (ins_entry order_e2_node (mal 0 0, ?nid, ?p) es)"
    using add_reg_e2_node_rep[OF es(1) v(1) _ _ v(3,2)] by metis
  let ?r = "(ric c)\<lparr>ep_nodes := m'\<rparr>"
  have f: "\<forall>rf \<in> set (stp_ran_func_item req). rf_id rf \<in> fst ` set (sms a)"
  proof
    fix rf assume "rf \<in> set (stp_ran_func_item req)"
    then obtain s where "(rf_id rf, s) \<in> set (sms a)" using sm by blast
    then show "rf_id rf \<in> fst ` set (sms a)" by (rule image_eqI[rotated]) simp
  qed
  have "tree_rep (sm_ds ?r) (sms a)" using ctrl_repD(6)[OF R] by simp
  then have g: "generate_setup_response_v2 ?r req = Some (setup_response req)" using f req by (rule generate_setup_response_rep)
  have u: "\<exists>i. (if NODE_IS_MONOLITHIC (node_type ?nid) then Some () else do { i \<leftarrow> cu_du_id ?nid; Some () }) = Some i"
    using req by (auto simp: ok_setup_def)
  have "map snd (ins_entry order_e2_node (mal 0 0, ?nid, ?p) es) = reg_insert (?nid, ?p) (regs a)"
    unfolding ins_entry_reg es(2) ..
  with n'(2) have rr: "\<exists>es. reg_rep n' es \<and> map snd es = reg_insert (?nid, ?p) (regs a)" by blast
  have "setup_response req = setup_response req \<and> stq_accepted (setup_response req) = map rf_id (stp_ran_func_item req)"
    by (simp add: setup_response_def)
  then show ?thesis using m' n'(1) g u v(3) rr R
    by (simp add: handler_defs e2ap_handle_setup_request_ric_def e2ap_reg_sock_addr_ric_def add_e2_node_iapp_def
        init_e2_node_def ctrl_rep_def e2ap_send_sctp_msg_ric_def)
qed

lemma find_conn_node_at:
  assumes "\<forall>c \<in> set (cs @ c # ds). has_cu_du_id (en_id c)" "has_cu_du_id nid" "node_key (en_id c) = node_key nid"
    "\<forall>x \<in> set cs. node_key (en_id x) \<noteq> node_key nid"
  shows "find_conn_node nid (cs @ c # ds) i = Some (i + length cs)"
  using assms
proof (induction cs arbitrary: i)
  case (Cons x cs)
  then have "eq_global_e2_node_id nid (en_id x) = Some False" by (subst eq_global_key) auto
  then show ?case using Cons by simp
qed (simp add: eq_global_key)

lemma node_shutdown_refines:
  assumes R: "ctrl_rep c a" and "a_inv a" and nt: "(nid, t) \<in># nodes a" and info: "cmp_sctp_info info t = 0"
    and reg: "regs a = ps @ (nid, p) # qs" and co: "conn a = cs @ d # ds" "en_id d = nid"
  shows "\<exists>c'. e2_event_loop_ric mal tfd c (CONNECTION_SHUTDOWN info) = Some c' \<and> ctrl_rep c' (a\<lparr>
      nodes := nodes a - {#(nid, t)#}, regs := ps @ qs, conn := cs @ ds\<rparr>)"
proof -
  have ni: "nodes_inv a" using assms(2) by (simp add: a_inv_def)
  have v: "has_cu_du_id nid" using nodes_inv_addr(2)[OF R ni nt] .
  obtain m' where m': "rm_map_sad_e2_node (ep_nodes (ric c)) info = Some (nid, m')"
    "node_table_rep m' (nodes a - {#(nid, t)#})"
    using node_table_rm[OF ctrl_repD(3)[OF R] nt info] by blast
  have d: "distinct (map (node_key \<circ> fst) (regs a))" and e: "mset (map en_id (conn a)) = mset (map fst (regs a))"
    and k: "\<forall>n \<in> fst ` set (regs a). has_cu_du_id n" using ni by (auto simp: nodes_inv_def)
  have "image_mset node_key (mset (map en_id (conn a))) = image_mset node_key (mset (map fst (regs a)))" using e by simp
  then have "mset (map (node_key \<circ> en_id) (conn a)) = mset (map (node_key \<circ> fst) (regs a))"
    by (simp add: multiset.map_comp)
  then have dc: "distinct (map (node_key \<circ> en_id) (conn a))" using d mset_eq_imp_distinct_iff by blast
  have "set (map en_id (conn a)) = set (map fst (regs a))" using e by (metis set_mset_mset)
  then have kc: "\<forall>x \<in> set (conn a). has_cu_du_id (en_id x)" using k by (metis image_eqI image_set)
  have "\<forall>x \<in> set cs. node_key (en_id x) \<noteq> node_key nid" using dc co by (auto simp: rev_image_eqI)
  then have fc: "find_conn_node nid (conn a) 0 = Some (length cs)"
    using find_conn_node_at[of cs d ds nid 0] kc v co by simp
  obtain es where es: "reg_rep (ia_e2_nodes (iapp c)) es" "map snd es = regs a" using ctrl_repD(4)[OF R] by blast
  obtain xs x ys where x: "es = xs @ x # ys" "map snd xs = ps" "snd x = (nid, p)" "map snd ys = qs"
    using es(2) unfolding reg by (auto simp: map_eq_append_conv map_eq_Cons_conv)
  have "\<forall>z \<in> set xs. \<not> eq_node nid (entry_key z)"
  proof
    fix z assume "z \<in> set xs"
    then have "snd z \<in> set ps" using x(2) by auto
    then have "entry_key z \<in> fst ` set ps" by (simp add: entry_key_def)
    moreover have "\<forall>q \<in> set ps. node_key (fst q) \<noteq> node_key nid" using d unfolding reg by (auto simp: rev_image_eqI)
    ultimately show "\<not> eq_node nid (entry_key z)" using eq_node_key[OF v] k reg by force
  qed
  moreover have "eq_node nid (entry_key x)" using v x(3) by (simp add: entry_key_def)
  ultimately obtain n' where n': "rm_reg_e2_node (ia_e2_nodes (iapp c)) nid = Some n'" "reg_rep n' (xs @ ys)"
    using rm_reg_e2_node_rep[OF es(1)[unfolded x(1)] v] by metis
  have "take (length cs) (conn a) @ drop (Suc (length cs)) (conn a) = cs @ ds" "length cs < length (conn a)"
    unfolding co(1) by simp_all
  moreover have "map snd (xs @ ys) = ps @ qs" using x by simp
  then have "\<exists>es. reg_rep n' es \<and> map snd es = ps @ qs" using n'(2) by blast
  ultimately show ?thesis using m' fc n'(1) R ctrl_repD(9)[OF R]
    by (simp add: e2_event_loop_ric_def notification_handle_ric_def e2ap_rm_sock_addr_ric_def rm_e2_node_iapp_def ctrl_rep_def)
qed

section \<open>Requests of the xApps\<close>

lemma registry_listing:
  assumes "ctrl_rep c a" "ok_mal mal" "length (regs a) < 256"
  shows "generate_e2_node_arr mal (ia_e2_nodes (iapp c)) =
    Some \<lparr>arr_len = word_of_nat (length (regs a)), arr_n = map connected_node (regs a)\<rparr>"
proof -
  obtain es where es: "reg_rep (ia_e2_nodes (iapp c)) es" "map snd es = regs a" using ctrl_repD(4)[OF assms(1)] by blast
  have "map connected es = map connected_node (map snd es)"
    by (simp add: connected_node_def connected_def)
  moreover have "length es = length (regs a)" using es(2) by (metis length_map)
  ultimately show ?thesis using generate_e2_node_arr_rep[OF es(1) assms(2)] es(2) assms(3) by simp
qed

lemma any_node_True:
  assumes "nid \<in> nc_id ` set ns" "\<forall>n \<in> set ns. has_cu_du_id (nc_id n)"
  shows "any_node nid ns = Some True"
  using assms
proof (induction ns)
  case (Cons n ns)
  have v: "has_cu_du_id nid" "has_cu_du_id (nc_id n)" using Cons.prems by auto
  show ?case
  proof (cases "node_key (nc_id n) = node_key nid")
    case False
    then have "nid \<in> nc_id ` set ns" using Cons.prems(1) by auto
    then show ?thesis using Cons eq_global_key[OF v(2,1)] False by simp
  qed (simp add: eq_global_key[OF v(2,1)])
qed simp

lemma valid_node:
  assumes "ctrl_rep c a" "nodes_inv a" "ok_mal mal" "length (regs a) < 256" "nid \<in> fst ` set (regs a)"
  shows "valid_global_e2_node mal (iapp c) nid = Some True"
proof -
  let ?ns = "map connected_node (regs a)"
  have u: "unat (word_of_nat (length (regs a)) :: uint8) = length (regs a)" using assms(4) by (simp add: unat_of_nat)
  have "nc_id ` set ?ns = fst ` set (regs a)" by (auto simp: connected_node_def connected_def image_image)
  then have "any_node nid ?ns = Some True"
    using assms(2,5) by (intro any_node_True) (auto simp: nodes_inv_def connected_node_def connected_def)
  moreover have "free_e2_node_arr \<lparr>arr_len = l, arr_n = ?ns\<rparr> = Some ()" for l
  proof -
    have e: "map connected (map (Pair 0) (regs a)) = ?ns" by (simp add: connected_node_def)
    have "\<forall>e \<in> set (map (Pair 0) (regs a)). ok_pair (snd (snd e))" using assms(2) by (auto simp: nodes_inv_def)
    from free_e2_node_arr_connected[OF this] show ?thesis unfolding e .
  qed
  ultimately show ?thesis
    using registry_listing[OF assms(1,3,4)] u by (simp add: valid_global_e2_node_def)
qed

lemma valid_xapp:
  assumes "ctrl_rep c a" "xapps_inv a" "(xid, s) \<in># xapps a"
  shows "valid_xapp_id (iapp c) (ucast xid) = Some True"
proof -
  have x: "unat xid < next_xapp a" "next_xapp a \<le> 65535" using assms(2,3) by (auto simp: xapps_inv_def)
  have "unat xid < 2 ^ 16" using unsigned_less[of xid] by simp
  then have u: "unat (ucast xid :: uint32) = unat xid" by (simp add: unsigned_ucast_eq take_bit_eq_mod)
  moreover have "unat (word_of_nat (next_xapp a) :: uint32) = next_xapp a" using x(2) by (simp add: unat_of_nat)
  moreover have "(ucast xid :: uint32) < 2 ^ 16" using u \<open>unat xid < 2 ^ 16\<close> by (simp add: word_less_nat_alt)
  ultimately show ?thesis using x ctrl_repD(11)[OF assms(1)] by (simp add: valid_xapp_id_def word_le_nat_alt)
qed

lemma xapp_setup_refines:
  assumes R: "ctrl_rep c a" and "a_inv a" and m: "fresh_mem mal c" and req: "e42_ran_func_item req \<noteq> []"
    and len: "length (regs a) < 256" and nx: "next_xapp a < 65535" and new: "\<forall>(x, s) \<in># xapps a. cmp_sctp_info info s \<noteq> 0"
  shows "\<exists>c'. e2_event_loop_iapp mal kfd c (MSG_ARRIVED info (e42_stp_req req)) = Some c' \<and> ctrl_rep c' (a\<lparr>
      xapps := add_mset (word_of_nat (next_xapp a), info) (xapps a), next_xapp := next_xapp a + 1,
      to_xapps := to_xapps a @ [(info, e42_stp_resp \<lparr>stx_xapp_id = word_of_nat (next_xapp a),
        stx_len_e2_nodes_conn = word_of_nat (length (regs a)), stx_nodes = map connected_node (regs a)\<rparr>)]\<rparr>)"
proof -
  let ?x = "word_of_nat (next_xapp a) :: uint16"
  have xi: "xapps_inv a" using assms(2) by (simp add: a_inv_def)
  have u: "unat ?x = next_xapp a" using nx by (simp add: unat_of_nat)
  have "\<forall>(x, s) \<in># xapps a. ?x \<noteq> x \<and> cmp_sctp_info info s \<noteq> 0"
  proof clarify
    fix x s assume "(x, s) \<in># xapps a"
    then have "unat x < next_xapp a" "cmp_sctp_info info s \<noteq> 0" using xi new by (auto simp: xapps_inv_def)
    then show "?x \<noteq> x \<and> cmp_sctp_info info s \<noteq> 0" using u by auto
  qed
  then obtain m' where m': "add_map_xapps_sad (mal 3 0) (mal 3 1) (ia_xapps (iapp c)) ?x info = Some m'"
    "xapp_table_rep m' (add_mset (?x, info) (xapps a))"
    using xapp_table_add[OF ctrl_repD(2)[OF R]] m unfolding fresh_mem_def by blast
  have "ok_mal (mal 0)" using m by (simp add: fresh_mem_def)
  note l = registry_listing[OF R this len]
  have c: "ucast (ia_xapp_id (iapp c)) = ?x"
    unfolding ctrl_repD(11)[OF R] unsigned_of_nat take_bit_eq_mod using nx by simp
  show ?thesis using m' l c req R
    by (simp add: e2_event_loop_iapp_def iapp_sctp_msg_arrived_def e2ap_msg_handle_iapp_def
        e2ap_handle_e42_setup_request_iapp_def generate_e42_setup_response_def e2ap_reg_sock_addr_iapp_def
        e2ap_send_sctp_msg_iapp_def ctrl_rep_def add.commute)
qed

text \<open>What a request may assume of the state.\<close>
lemma request_ready:
  assumes R: "ctrl_rep c a" and "a_inv a" and m: "fresh_mem mal c" and "may_request a fd nid t x" and len: "length (regs a) < 256"
  shows "valid_xapp_id (iapp c) (ucast (xapp_id x)) = Some True" "valid_global_e2_node (mal 0) (iapp c) nid = Some True"
    "find_map_e2_node_sad (ep_nodes (ric c)) nid = Some t" "0 < next_req a" "next_req a < 65535" "ric_req_id (x_ric_id x) < 65536"
    "0 < fd" "fd \<notin> io (ric c)" "fresh_for (pending (ric c)) (mal 1 0) (mal 1 1)"
    "fresh_for (ia_map_ric_id (iapp c)) (mal 2 0) (mal 2 1)"
    "\<forall>(f, e) \<in># pend a. f \<noteq> fd \<and> e \<noteq> \<lparr>p_ev = ev, p_id = renumbered (next_req a) (x_ric_id x)\<rparr>"
    "\<forall>(n, y) \<in># reqs a. ric_req_id (renumbered (next_req a) (x_ric_id x)) \<noteq> ric_req_id (e_ric_id n) \<and> x \<noteq> y"
proof -
  have i: "nodes_inv a" "reqs_inv a" "pend_inv a" "xapps_inv a" using assms(2) by (simp_all add: a_inv_def)
  have q: "(nid, t) \<in># nodes a" "\<exists>s. (xapp_id x, s) \<in># xapps a" "ric_req_id (x_ric_id x) < 65536"
    "\<forall>(n, y) \<in># reqs a. y \<noteq> x" "next_req a < 65535" "0 < fd" "fd \<notin> fds a"
    using assms(4) by (simp_all add: may_request_def)
  show "valid_xapp_id (iapp c) (ucast (xapp_id x)) = Some True" using valid_xapp[OF R i(4)] q(2) by blast
  have "ok_mal (mal 0)" using m by (simp add: fresh_mem_def)
  from valid_node[OF R i(1) this len nodes_inv_addr(3)[OF R i(1) q(1)]]
  show "valid_global_e2_node (mal 0) (iapp c) nid = Some True" .
  show "find_map_e2_node_sad (ep_nodes (ric c)) nid = Some t" by (rule nodes_inv_addr(1)[OF R i(1) q(1)])
  show n: "0 < next_req a" using i(2) by (simp add: reqs_inv_def)
  show "next_req a < 65535" "ric_req_id (x_ric_id x) < 65536" "0 < fd" "fd \<notin> io (ric c)"
    using q ctrl_repD(8)[OF R] by simp_all
  show "fresh_for (pending (ric c)) (mal 1 0) (mal 1 1)" "fresh_for (ia_map_ric_id (iapp c)) (mal 2 0) (mal 2 1)"
    using m unfolding fresh_mem_def by blast+
  have k: "unat (ric_req_id (renumbered (next_req a) (x_ric_id x))) = next_req a" by (rule new_number[OF n q(5)])
  show "\<forall>(f, e) \<in># pend a. f \<noteq> fd \<and> e \<noteq> \<lparr>p_ev = ev, p_id = renumbered (next_req a) (x_ric_id x)\<rparr>"
    using i(3) k q(7) unfolding pend_inv_def by fastforce
  show "\<forall>(n, y) \<in># reqs a. ric_req_id (renumbered (next_req a) (x_ric_id x)) \<noteq> ric_req_id (e_ric_id n) \<and> x \<noteq> y"
    using i(2) k q(4) unfolding reqs_inv_def by fastforce
qed

lemma subscribe_refines:
  assumes R: "ctrl_rep c a" and "a_inv a" and m: "fresh_mem mal c"
    and x: "x = \<lparr>x_ric_id = sr_ric_id (e42_sr q), xapp_id = e42_sr_xapp_id q\<rparr>"
    and may: "may_request a (kfd 0) (e42_sr_id q) t x" and len: "length (regs a) < 256"
    and a': "a' = new_req SUBSCRIPTION_REQUEST_PENDING_EVENT SUBSCRIPTION_RIC_REQUEST_TYPE (kfd 0) (e42_sr_id q) x a"
  shows "\<exists>c'. e2_event_loop_iapp mal kfd c (MSG_ARRIVED info (e42_ric_sub_req q)) = Some c' \<and> ctrl_rep c' (a'\<lparr>
      to_nodes := to_nodes a @ [(t, ric_sub_req ((e42_sr q)\<lparr>sr_ric_id := renumbered (next_req a) (x_ric_id x)\<rparr>))]\<rparr>)"
proof -
  let ?e = "\<lparr>p_ev = SUBSCRIPTION_REQUEST_PENDING_EVENT, p_id = renumbered (next_req a) (x_ric_id x)\<rparr>"
  let ?n = "\<lparr>e2_node_id = e42_sr_id q, e_ric_id = renumbered (next_req a) (x_ric_id x), ric_req_type = SUBSCRIPTION_RIC_REQUEST_TYPE\<rparr>"
  note d = request_ready[OF R assms(2) m may len]
  have xs: "x_ric_id x = sr_ric_id (e42_sr q)" "xapp_id x = e42_sr_xapp_id q" using x by simp_all
  obtain p' where p': "fwd_ric_subscription_request (mal 1) (kfd 0) (ric c) (e42_sr_id q) (e42_sr q) =
      Some (ucast (word_of_nat (next_req a) :: uint32), (e42_sr q)\<lparr>sr_ric_id := renumbered (next_req a) (x_ric_id x)\<rparr>,
        (ric c)\<lparr>io := insert (kfd 0) (io (ric c)), next_req_id := word_of_nat (next_req a + 1), pending := p',
        nr_sent := nr_sent (ric c) @ [(t, ric_sub_req ((e42_sr q)\<lparr>sr_ric_id := renumbered (next_req a) (x_ric_id x)\<rparr>))]\<rparr>)"
    "pend_rep p' (add_mset (kfd 0, ?e) (pend a))"
    using fwd_subscription[OF ctrl_repD(10)[OF R] d(5) _ ctrl_repD(5)[OF R] d(9,7,8) _ d(3), of "e42_sr q"]
      d(6) d(11)[of SUBSCRIPTION_REQUEST_PENDING_EVENT] unfolding xs by blast
  obtain m' where m': "add_map_ric_id (mal 2 0) (mal 2 1) (ia_map_ric_id (iapp c)) ?n x = Some m'"
    "ric_table_rep m' (add_mset (?n, x) (reqs a))"
    using ric_table_add[OF ctrl_repD(1)[OF R] d(10), of ?n x] d(12) by auto
  have w: "ucast (ucast (word_of_nat (next_req a) :: uint32) :: uint16) = (word_of_nat (next_req a) :: uint32)"
    using d(5) by (intro ucast_ucast_number) simp
  have e: "\<lparr>e2_node_id = e42_sr_id q, e_ric_id = (renumbered (next_req a) (x_ric_id x))\<lparr>ric_req_id := word_of_nat (next_req a)\<rparr>,
      ric_req_type = SUBSCRIPTION_RIC_REQUEST_TYPE\<rparr> = ?n" by (simp add: renumbered_def)
  show ?thesis using d(1,2) p' m' R w e
    by (simp add: e2_event_loop_iapp_def iapp_sctp_msg_arrived_def e2ap_msg_handle_iapp_def
        e2ap_handle_e42_ric_subscription_request_iapp_def cp_node_id xs x[symmetric] a' new_req_def ctrl_rep_def)
qed

lemma control_refines:
  assumes R: "ctrl_rep c a" and "a_inv a" and m: "fresh_mem mal c"
    and x: "x = \<lparr>x_ric_id = cr_ric_id (e42_ctrl_req q), xapp_id = e42_cr_xapp_id q\<rparr>"
    and may: "may_request a (kfd 0) (e42_cr_id q) t x" and len: "length (regs a) < 256"
    and a': "a' = new_req CONTROL_REQUEST_PENDING_EVENT CONTROL_RIC_REQUEST_TYPE (kfd 0) (e42_cr_id q) x a"
  shows "\<exists>c'. e2_event_loop_iapp mal kfd c (MSG_ARRIVED info (e42_ric_ctrl_req q)) = Some c' \<and> ctrl_rep c' (a'\<lparr>
      to_nodes := to_nodes a @ [(t, ric_ctrl_req ((e42_ctrl_req q)\<lparr>cr_ric_id := renumbered (next_req a) (x_ric_id x)\<rparr>))]\<rparr>)"
proof -
  let ?e = "\<lparr>p_ev = CONTROL_REQUEST_PENDING_EVENT, p_id = renumbered (next_req a) (x_ric_id x)\<rparr>"
  let ?n = "\<lparr>e2_node_id = e42_cr_id q, e_ric_id = renumbered (next_req a) (x_ric_id x), ric_req_type = CONTROL_RIC_REQUEST_TYPE\<rparr>"
  note d = request_ready[OF R assms(2) m may len]
  have xs: "x_ric_id x = cr_ric_id (e42_ctrl_req q)" "xapp_id x = e42_cr_xapp_id q" using x by simp_all
  obtain p' where p': "fwd_ric_control_request (mal 1) (kfd 0) (ric c) (e42_cr_id q) (e42_ctrl_req q) =
      Some (ucast (word_of_nat (next_req a) :: uint32), (e42_ctrl_req q)\<lparr>cr_ric_id := renumbered (next_req a) (x_ric_id x)\<rparr>,
        (ric c)\<lparr>io := insert (kfd 0) (io (ric c)), next_req_id := word_of_nat (next_req a + 1), pending := p',
        nr_sent := nr_sent (ric c) @ [(t, ric_ctrl_req ((e42_ctrl_req q)\<lparr>cr_ric_id := renumbered (next_req a) (x_ric_id x)\<rparr>))]\<rparr>)"
    "pend_rep p' (add_mset (kfd 0, ?e) (pend a))"
    using fwd_control[OF ctrl_repD(10)[OF R] d(5) _ ctrl_repD(5)[OF R] d(9,7,8) _ d(3), of "e42_ctrl_req q"]
      d(6) d(11)[of CONTROL_REQUEST_PENDING_EVENT] unfolding xs by blast
  obtain m' where m': "add_map_ric_id (mal 2 0) (mal 2 1) (ia_map_ric_id (iapp c)) ?n x = Some m'"
    "ric_table_rep m' (add_mset (?n, x) (reqs a))"
    using ric_table_add[OF ctrl_repD(1)[OF R] d(10), of ?n x] d(12) by auto
  have w: "ucast (ucast (word_of_nat (next_req a) :: uint32) :: uint16) = (word_of_nat (next_req a) :: uint32)"
    using d(5) by (intro ucast_ucast_number) simp
  have e: "\<lparr>e2_node_id = e42_cr_id q, e_ric_id = (renumbered (next_req a) (x_ric_id x))\<lparr>ric_req_id := word_of_nat (next_req a)\<rparr>,
      ric_req_type = CONTROL_RIC_REQUEST_TYPE\<rparr> = ?n" by (simp add: renumbered_def)
  show ?thesis using d(1,2) p' m' R w e
    by (simp add: e2_event_loop_iapp_def iapp_sctp_msg_arrived_def e2ap_msg_handle_iapp_def
        e2ap_handle_e42_ric_control_request_iapp_def cp_node_id xs x[symmetric] a' new_req_def ctrl_rep_def)
qed

lemma find_ric_req_rep:
  assumes "ric_table_rep m P" "(n, x) \<in># P" "\<forall>(n', y) \<in># P. x_ric_id y = x_ric_id x \<longrightarrow> y = x"
  shows "find_ric_req_map_ric_id m x = Some n"
proof -
  have m: "bm_rep (\<lambda>_. True) cmp_e2_node_ric_req_wrapper (\<lambda>_. True) cmp_xapp_ric_gen_id m P"
    using assms(1) by (simp add: ric_table_rep_def)
  have "\<forall>(n', y) \<in># P. eq_xapp_ric_gen_id x y \<longrightarrow> n' = n"
  proof clarify
    fix n' y assume y: "(n', y) \<in># P" "eq_xapp_ric_gen_id x y"
    then have "y = x" using assms(3) by (auto simp: eq_xapp_ric_gen_id_iff)
    then show "n' = n" using bm_rep_right_unique[OF m xapp_ric.comparator_axioms assms(2) y(1)] by simp
  qed
  moreover have "eq_xapp_ric_gen_id x x" by (simp add: eq_xapp_ric_gen_id_iff)
  ultimately obtain it where "find_all_rb_tree (right_tree m) x (\<lambda>x y. Some (eq_xapp_ric_gen_id x y)) = Some it"
    "it \<noteq> assoc_rb_tree_end (right_tree m)" "assoc_rb_tree_value (right_tree m) it = Some (Some n)"
    using find_eq_right[where e = eq_xapp_ric_gen_id and q = x, OF m assms(2)] by blast
  then show ?thesis by (simp add: find_ric_req_map_ric_id_def)
qed

lemma unsubscribe_refines:
  assumes R: "ctrl_rep c a" and "a_inv a" and mem: "fresh_mem mal c"
    and x: "x = \<lparr>x_ric_id = sdr_ric_id (e42_sdr m), xapp_id = e42_sdr_xapp_id m\<rparr>"
    and nx: "(n, x) \<in># reqs a" and un: "\<forall>(n', y) \<in># reqs a. x_ric_id y = x_ric_id x \<longrightarrow> y = x"
    and ty: "ric_req_type n = SUBSCRIPTION_RIC_REQUEST_TYPE" and nt: "(e2_node_id n, t) \<in># nodes a"
    and ev: "ev = \<lparr>p_ev = SUBSCRIPTION_DELETE_REQUEST_PENDING_EVENT, p_id = e_ric_id n\<rparr>"
    and pe: "\<forall>(f, e) \<in># pend a. e \<noteq> ev" and fd: "0 < kfd 0" "kfd 0 \<notin> fds a"
  shows "\<exists>c'. e2_event_loop_iapp mal kfd c (MSG_ARRIVED info (e42_ric_sub_del_req m)) = Some c' \<and> ctrl_rep c' (a\<lparr>
      pend := add_mset (kfd 0, ev) (pend a), fds := insert (kfd 0) (fds a),
      to_nodes := to_nodes a @ [(t, ric_sub_del_req \<lparr>sdr_ric_id = e_ric_id n\<rparr>)]\<rparr>)"
proof -
  have i: "nodes_inv a" "reqs_inv a" "pend_inv a" using assms(2) by (simp_all add: a_inv_def)
  have "\<forall>(f, e) \<in># pend a. f \<noteq> kfd 0 \<and> e \<noteq> ev" using i(3) pe fd(2) unfolding pend_inv_def by fastforce
  moreover have "fresh_for (pending (ric c)) (mal 0 0) (mal 0 1)" using mem unfolding fresh_mem_def by blast
  moreover have "kfd 0 \<notin> io (ric c)" using fd(2) ctrl_repD(8)[OF R] by simp
  moreover have "ev = \<lparr>p_ev = SUBSCRIPTION_DELETE_REQUEST_PENDING_EVENT, p_id = sdr_ric_id \<lparr>sdr_ric_id = e_ric_id n\<rparr>\<rparr>"
    using ev by simp
  ultimately obtain p' where p': "fwd_ric_subscription_request_delete (mal 0) (kfd 0) (ric c) (e2_node_id n) \<lparr>sdr_ric_id = e_ric_id n\<rparr> =
      Some ((ric c)\<lparr>io := insert (kfd 0) (io (ric c)), pending := p',
        nr_sent := nr_sent (ric c) @ [(t, ric_sub_del_req \<lparr>sdr_ric_id = e_ric_id n\<rparr>)]\<rparr>)"
    "pend_rep p' (add_mset (kfd 0, ev) (pend a))"
    using fwd_delete[OF ctrl_repD(5)[OF R] _ fd(1) _ _ _ nodes_inv_addr(1)[OF R i(1) nt]] by metis
  have "same_func (e_ric_id n) (x_ric_id x)" using i(2) nx unfolding reqs_inv_def by blast
  then have d: "(sdr_ric_id (e42_sdr m))\<lparr>ric_req_id := ric_req_id (e_ric_id n)\<rparr> = e_ric_id n"
    using x by (cases "e_ric_id n") (simp add: same_func_def)
  have "(cp_ric_subscription_delete_request (e42_sdr m))\<lparr>sdr_ric_id :=
      (sdr_ric_id (cp_ric_subscription_delete_request (e42_sdr m)))\<lparr>ric_req_id := ric_req_id (e_ric_id n)\<rparr>\<rparr> =
    \<lparr>sdr_ric_id = e_ric_id n\<rparr>" by (simp only: cp_ric_subscription_delete_request_def ric_subscription_delete_request.simps d)
  then show ?thesis using find_ric_req_rep[OF ctrl_repD(1)[OF R] nx un] ty p' R
    by (simp add: e2_event_loop_iapp_def iapp_sctp_msg_arrived_def e2ap_msg_handle_iapp_def
        e2ap_handle_e42_ric_subscription_delete_request_iapp_def x[symmetric] ctrl_rep_def)
qed

section \<open>Every step\<close>

lemma ctrl_step:
  assumes "astep a kfd ev a'" "ctrl_rep c a" "a_inv a" "fresh_mem mal c"
  shows "\<exists>c'. ctrl_run mal kfd c ev = Some c' \<and> ctrl_rep c' a'"
  using assms(1)
proof (cases rule: astep.cases)
  case (node_setup req info)
  then show ?thesis using node_setup_refines[OF assms(2-4)] by (simp add: ctrl_run_def)
next
  case (node_shutdown nid t info ps p qs cs d ds)
  then show ?thesis using node_shutdown_refines[OF assms(2,3)] by (simp add: ctrl_run_def)
next
  case (xapp_setup req info)
  then show ?thesis using xapp_setup_refines[OF assms(2-4)] by (simp add: ctrl_run_def)
next
  case (subscribe x m t b info)
  then show ?thesis using subscribe_refines[OF assms(2-4)] by (simp add: ctrl_run_def)
next
  case (control x m t b info)
  then show ?thesis using control_refines[OF assms(2-4)] by (simp add: ctrl_run_def)
next
  case (subscribed fd m n x s info)
  then show ?thesis using subscribed_refines[OF assms(2,3)] by (simp add: ctrl_run_def)
next
  case (indication m sm f ls ss d n x s info)
  then show ?thesis using indication_refines[OF assms(2,3)] by (simp add: ctrl_run_def)
next
  case (stale_indication m sm f ls ss d info)
  then show ?thesis using stale_indication_refines[OF assms(2,3)] by (simp add: ctrl_run_def)
next
  case (controlled fd m n x s info)
  then show ?thesis using controlled_refines[OF assms(2,3)] by (simp add: ctrl_run_def)
next
  case (unsubscribe x m n t ev' info)
  then show ?thesis using unsubscribe_refines[OF assms(2-4)] by (simp add: ctrl_run_def)
next
  case (unsubscribed fd m n x s info)
  then show ?thesis using unsubscribed_refines[OF assms(2,3)] by (simp add: ctrl_run_def)
qed (use assms(2) in \<open>simp_all add: ctrl_run_def e2_event_loop_ric_def e2_event_loop_iapp_def\<close>)

end
