(* ===== verification/Rb_Value.thy ===== *)
theory Rb_Value
  imports Rb_Contract
begin

text \<open>
  A value of the red-black tree that is changed in place, through the pointer that the tree holds.
\<close>

primrec set_val :: "addr \<Rightarrow> 'v \<Rightarrow> ('k, 'v) tr \<Rightarrow> ('k, 'v) tr" where
  "set_val a w Lf = Lf"
| "set_val a w (Nd b c k v l r) = Nd b c k (if b = a then w else v) (set_val a w l) (set_val a w r)"

lemma set_val_shape [simp]:
  "ptr d (set_val a w t) = ptr d t" "addrs (set_val a w t) = addrs t" "color (set_val a w t) = color t"
  "bh (set_val a w t) = bh t" "balanced (set_val a w t) = balanced t" "no_red_red (set_val a w t) = no_red_red t"
  by (induction t) simp_all

lemma set_val_entries: "entries (set_val a w t) = map (\<lambda>(b, k, v). (b, k, if b = a then w else v)) (entries t)"
  by (induction t) simp_all

lemma set_val_repr:
  assumes "h a = Some n"
  shows "repr h d p t \<Longrightarrow> repr (h(a \<mapsto> n\<lparr>n_value := Some w\<rparr>)) d p (set_val a w t)"
  using assms by (induction t arbitrary: p) (auto simp: cell_def)

lemma mset_addrs: "mset (map fst (entries t)) = mset (addrs t)"
  by (induction t) simp_all

text \<open>The write changes the one entry at the address.\<close>
lemma set_value_rep:
  assumes r: "rb_rep vkey cmp T (xs @ (a, k, v) # ys)"
  obtains n where "heap T a = Some n"
    "rb_rep vkey cmp (T\<lparr>heap := (heap T)(a \<mapsto> n\<lparr>n_value := Some w\<rparr>)\<rparr>) (xs @ (a, k, w) # ys)"
proof -
  let ?es = "xs @ (a, k, v) # ys" and ?fs = "xs @ (a, k, w) # ys"
  obtain t where t: "zrep T [] t" "is_rbt t" "entries t = ?es" using r by (auto simp: rb_rep_def)
  have ad: "a \<in> set (addrs t)" "distinct (addrs t)" using t(1,3) by (auto simp: addrs_entries zrep_def)
  obtain n where n: "heap T a = Some n" using access_rep(4)[OF r] by auto
  have "map fst (entries t) = map fst ?es" using t(3) by simp
  moreover have "distinct (map fst (entries t))"
    using ad(2) mset_addrs mset_eq_imp_distinct_iff by blast
  ultimately have "distinct (map fst ?es)" by simp
  moreover have "map (\<lambda>(b, k, v). (b, k, if b = a then w else v)) zs = zs" if "a \<notin> fst ` set zs" for zs :: "('a, 'b) entry list"
    using that by (intro map_idI) (auto simp: rev_image_eqI)
  ultimately have "map (\<lambda>(b, k, v). (b, k, if b = a then w else v)) ?es = ?fs" by simp
  then have e: "entries (set_val a w t) = ?fs" using t(3) by (simp add: set_val_entries)
  have "a \<noteq> dummy T" using access_rep(3)[OF r] .
  then have "zrep (T\<lparr>heap := (heap T)(a \<mapsto> n\<lparr>n_value := Some w\<rparr>)\<rparr>) [] (set_val a w t)"
    using t(1) set_val_repr[where h = "heap T" and d = "dummy T" and p = "dummy T" and t = t and w = w and a = a and n = n] n by (simp add: zrep_def)
  moreover have "is_rbt (set_val a w t)" using t(2) by (simp add: is_rbt_def)
  moreover have "tree_size T = length ?fs" "ordered cmp ?fs" "\<forall>e \<in> set ?fs. vkey (entry_key e)" "agrees T vkey cmp"
    using r by (auto simp: rb_rep_def ordered_append ordered_Cons entry_key_def)
  ultimately show thesis using that[OF n] e unfolding rb_rep_def
    by (auto simp: agrees_def)
qed

end
