(* ===== verification/Controller_Start.thy ===== *)
theory Controller_Start
  imports Controller_Refine Rb_Value
begin

text \<open>
  The start of the controller: the tables are empty, every plug-in has its three listeners.
\<close>

section \<open>Registering listeners\<close>

definition pub_rep :: "(uint16, string list) assoc_rb_tree \<Rightarrow> (uint16, string list) entry list \<Rightarrow> bool" where
  "pub_rep t es \<longleftrightarrow> rb_rep (\<lambda>_. True) cmp_ran_func_id t es \<and> key_sz t = 2"

lemma pub_find:
  assumes "pub_rep t es"
  shows "find_all_rb_tree t k (\<lambda>a b. Some (eq_ran_func_id a b)) =
    Some (case find (\<lambda>e. fst (snd e) = k) es of None \<Rightarrow> assoc_rb_tree_end t | Some e \<Rightarrow> fst e)"
proof -
  have rb: "rb_rep (\<lambda>_. True) cmp_ran_func_id t es" using assms by (simp add: pub_rep_def)
  have "(\<lambda>a b. Some (eq_ran_func_id a b)) k (entry_key e) = Some (fst (snd e) = k)" for e :: "(uint16, string list) entry"
    by (auto simp: eq_ran_func_id_def entry_key_def)
  from find_all_rep[where f = "\<lambda>a b. Some (eq_ran_func_id a b)" and q = k and p = "\<lambda>e. fst (snd e) = k", OF rb this] show ?thesis unfolding assoc_rb_tree_end_def .
qed

text \<open>The first listener of a function.\<close>
lemma register_first:
  assumes p: "pub_rep (pub_sub r) es" and "k \<notin> (fst \<circ> snd) ` set es" "\<forall>x \<in> set es. cmp_ran_func_id k (entry_key x) \<noteq> 1"
    and "heap (pub_sub r) a = None" "a \<noteq> 0"
  obtains t where "register_listeners_for_ran_func_id a r k s = Some (r\<lparr>pub_sub := t\<rparr>)" "pub_rep t (es @ [(a, k, [s])])"
    "\<forall>b. heap (pub_sub r) b = None \<longrightarrow> b \<noteq> a \<longrightarrow> heap t b = None"
proof -
  have rb: "rb_rep (\<lambda>_. True) cmp_ran_func_id (pub_sub r) es" "key_sz (pub_sub r) = 2" using p by (simp_all add: pub_rep_def)
  obtain t where t: "assoc_rb_tree_insert a (pub_sub r) k 2 [s] = Some t"
    "rb_rep (\<lambda>_. True) cmp_ran_func_id t (ins_entry cmp_ran_func_id (a, k, [s]) es)" "key_sz t = 2"
    "\<forall>b. heap (pub_sub r) b = None \<longrightarrow> b \<noteq> a \<longrightarrow> heap t b = None"
    using ran_func.insert_rep_frame[OF rb(1) TrueI rb(2) assms(4,5), where val = "[s]"] by metis
  have "ins_entry cmp_ran_func_id (a, k, [s]) es = es @ [(a, k, [s])]"
    by (rule ins_entry_last) (use assms(3) in \<open>simp add: entry_key_def\<close>)
  moreover have "find (\<lambda>e. fst (snd e) = k) es = None" using assms(2) by (force simp: find_None_iff)
  ultimately show thesis using that t pub_find[OF p, of k]
    by (simp add: register_listeners_for_ran_func_id_def pub_rep_def)
qed

text \<open>A further listener of the function.\<close>
lemma register_again:
  assumes p: "pub_rep (pub_sub r) (es @ [(a, k, ls)])" and k: "k \<notin> (fst \<circ> snd) ` set es"
  obtains t where "register_listeners_for_ran_func_id b r k s = Some (r\<lparr>pub_sub := t\<rparr>)" "pub_rep t (es @ [(a, k, ls @ [s])])"
    "\<forall>b. heap (pub_sub r) b = None \<longrightarrow> heap t b = None"
proof -
  have rb: "rb_rep (\<lambda>_. True) cmp_ran_func_id (pub_sub r) (es @ (a, k, ls) # [])" "key_sz (pub_sub r) = 2"
    using p by (simp_all add: pub_rep_def)
  obtain n where n: "heap (pub_sub r) a = Some n"
    "rb_rep (\<lambda>_. True) cmp_ran_func_id ((pub_sub r)\<lparr>heap := (heap (pub_sub r))(a \<mapsto> n\<lparr>n_value := Some (ls @ [s])\<rparr>)\<rparr>)
      (es @ [(a, k, ls @ [s])])" using set_value_rep[OF rb(1)] by metis
  have "find (\<lambda>e. fst (snd e) = k) (es @ [(a, k, ls)]) = Some (a, k, ls)" using k by (induction es) auto
  then have "find_all_rb_tree (pub_sub r) k (\<lambda>a b. Some (eq_ran_func_id a b)) = Some a" using pub_find[OF p, of k] by simp
  moreover note access_rep[OF rb(1)]
  ultimately show thesis using that n rb(2)
    by (simp add: register_listeners_for_ran_func_id_def set_value_def get_def assoc_rb_tree_end_def pub_rep_def)
qed

definition three :: "string list" where
  "three = [''stdout listener'', ''redis listener'', ''influx listener'']"

lemma register_three:
  assumes p: "pub_rep (pub_sub r) es" and k: "k \<notin> (fst \<circ> snd) ` set es" and "\<forall>x \<in> set es. cmp_ran_func_id k (entry_key x) \<noteq> 1"
    and "heap (pub_sub r) a = None" "a \<noteq> 0"
  obtains t where "do { r \<leftarrow> register_listeners_for_ran_func_id a r k ''stdout listener'';
      r \<leftarrow> register_listeners_for_ran_func_id a r k ''redis listener'';
      register_listeners_for_ran_func_id a r k ''influx listener'' } = Some (r\<lparr>pub_sub := t\<rparr>)"
    "pub_rep t (es @ [(a, k, three)])" "\<forall>b. heap (pub_sub r) b = None \<longrightarrow> b \<noteq> a \<longrightarrow> heap t b = None"
proof -
  obtain t1 where t1: "register_listeners_for_ran_func_id a r k ''stdout listener'' = Some (r\<lparr>pub_sub := t1\<rparr>)"
    "pub_rep t1 (es @ [(a, k, [''stdout listener''])])" "\<forall>b. heap (pub_sub r) b = None \<longrightarrow> b \<noteq> a \<longrightarrow> heap t1 b = None"
    using register_first[OF assms] by metis
  have p1: "pub_rep (pub_sub (r\<lparr>pub_sub := t1\<rparr>)) (es @ [(a, k, [''stdout listener''])])" using t1(2) by simp
  obtain t2 where t2: "register_listeners_for_ran_func_id a (r\<lparr>pub_sub := t1\<rparr>) k ''redis listener'' = Some (r\<lparr>pub_sub := t2\<rparr>)"
    "pub_rep t2 (es @ [(a, k, [''stdout listener'', ''redis listener''])])" "\<forall>b. heap t1 b = None \<longrightarrow> heap t2 b = None"
    using register_again[OF p1 k, of a "''redis listener''"] by auto
  have p2: "pub_rep (pub_sub (r\<lparr>pub_sub := t2\<rparr>)) (es @ [(a, k, [''stdout listener'', ''redis listener''])])" using t2(2) by simp
  obtain t3 where t3: "register_listeners_for_ran_func_id a (r\<lparr>pub_sub := t2\<rparr>) k ''influx listener'' = Some (r\<lparr>pub_sub := t3\<rparr>)"
    "pub_rep t3 (es @ [(a, k, three)])" "\<forall>b. heap t2 b = None \<longrightarrow> heap t3 b = None"
    using register_again[OF p2 k, of a "''influx listener''"] by (auto simp: three_def)
  show thesis using that[of t3] t1 t2 t3 by simp
qed

text \<open>The listeners after the first \<open>i\<close> plug-ins.\<close>
definition listened :: "(nat \<Rightarrow> addr) \<Rightarrow> nat \<Rightarrow> (uint16, sm_ric) entry list \<Rightarrow> (uint16, string list) entry list" where
  "listened mal i es = map (\<lambda>j. (mal j, fst (snd (es ! j)), three)) [0..<i]"

lemma load_default_loop_rep:
  assumes rb: "rb_rep (\<lambda>_. True) cmp_ran_func_id t es" and d: "distinct (map (fst \<circ> snd) es)"
    and m: "inj mal" "\<forall>i. mal i \<noteq> 0"
  shows "i \<le> length es \<Longrightarrow> sm_ds r = t \<Longrightarrow> pub_rep (pub_sub r) (listened mal i es) \<Longrightarrow>
      \<forall>j \<ge> i. heap (pub_sub r) (mal j) = None \<Longrightarrow>
    \<exists>p. load_default_loop mal ((map fst es @ [dummy t]) ! i) i r = Some (r\<lparr>pub_sub := p\<rparr>) \<and>
      pub_rep p (listened mal (length es) es)"
proof (induction "length es - i" arbitrary: i r)
  case 0
  then show ?case by (intro exI[of _ "pub_sub r"]) (simp add: load_default_loop.simps assoc_rb_tree_end_def nth_append)
next
  case (Suc n)
  then have i: "i < length es" by linarith
  note it = iterates[OF rb i]
  let ?k = "fst (snd (es ! i))"
  have "?k \<notin> (\<lambda>j. fst (snd (es ! j))) ` {0..<i}" using d i by (auto simp: distinct_conv_nth)
  then have k: "?k \<notin> (fst \<circ> snd) ` set (listened mal i es)" by (simp add: listened_def image_image)
  have o: "\<forall>x \<in> set (listened mal i es). cmp_ran_func_id ?k (entry_key x) \<noteq> 1"
    using rb i by (auto simp: listened_def rb_rep_def ordered_def sorted_wrt_iff_nth_less entry_key_def)
  obtain p where p: "do { r \<leftarrow> register_listeners_for_ran_func_id (mal i) r ?k ''stdout listener'';
      r \<leftarrow> register_listeners_for_ran_func_id (mal i) r ?k ''redis listener'';
      register_listeners_for_ran_func_id (mal i) r ?k ''influx listener'' } = Some (r\<lparr>pub_sub := p\<rparr>)"
    "pub_rep p (listened mal i es @ [(mal i, ?k, three)])" "\<forall>b. heap (pub_sub r) b = None \<longrightarrow> b \<noteq> mal i \<longrightarrow> heap p b = None"
    using register_three[OF Suc.prems(3) k o] Suc.prems(4) m(2) by (metis order_refl)
  let ?r = "r\<lparr>pub_sub := p\<rparr>"
  have l: "listened mal (Suc i) es = listened mal i es @ [(mal i, ?k, three)]" by (simp add: listened_def)
  have "\<forall>j \<ge> Suc i. heap p (mal j) = None"
  proof (intro allI impI)
    fix j assume "Suc i \<le> j"
    then have "heap (pub_sub r) (mal j) = None" "mal j \<noteq> mal i" using Suc.prems(4) m(1) by (auto simp: inj_eq)
    then show "heap p (mal j) = None" using p(3) by blast
  qed
  with Suc.hyps(1)[of "Suc i" ?r] Suc.hyps(2) Suc.prems(2) i p(2) obtain q where
    "load_default_loop mal ((map fst es @ [dummy t]) ! Suc i) (Suc i) ?r = Some (?r\<lparr>pub_sub := q\<rparr>)"
    "pub_rep q (listened mal (length es) es)" unfolding l by fastforce
  moreover have "sm_ds ?r = t" using Suc.prems(2) by simp
  moreover obtain r1 r2 where "register_listeners_for_ran_func_id (mal i) r ?k ''stdout listener'' = Some r1"
    "register_listeners_for_ran_func_id (mal i) r1 ?k ''redis listener'' = Some r2"
    "register_listeners_for_ran_func_id (mal i) r2 ?k ''influx listener'' = Some ?r"
    using p(1) by (auto simp: bind_eq_Some_conv)
  ultimately show ?case using it Suc.prems(2)
    by (intro exI[of _ q]) (simp add: load_default_loop.simps[of mal "(map fst es @ [dummy t]) ! i"] assoc_rb_tree_end_def)
qed

section \<open>The start\<close>

lemma map_snd_listened:
  "map snd (listened mal (length es) es) = map (\<lambda>s. (fst s, three)) (map snd es)"
  by (rule nth_equalityI) (simp_all add: listened_def)

lemma init_near_ric_rep:
  assumes rb: "rb_rep (\<lambda>_. True) cmp_ran_func_id plugins es" and d: "distinct (map (fst \<circ> snd) es)"
    and m: "ok_mal mal" and fd: "0 < ep_fd"
  obtains r where "init_near_ric mal ep_fd plugins = Some r" "node_table_rep (ep_nodes r) {#}" "pend_rep (pending r) {#}"
    "tree_rep (sm_ds r) (map snd es)" "tree_rep (pub_sub r) (map (\<lambda>s. (fst s, three)) (map snd es))"
    "io r = {ep_fd}" "conn_e2_nodes r = []" "next_req_id r = 1021" "nr_sent r = []" "nr_published r = []"
proof -
  have nz: "mal i \<noteq> 0" for i using m by (simp add: ok_mal_def)
  obtain nodes where nodes: "init_map_e2_node_sad (mal 0) (mal 1) = Some nodes" "node_table_rep nodes {#}"
    using node_table_init[OF nz nz] by blast
  obtain pn where pn: "bi_map_init (mal 3) (mal 4) 4 12 cmp_fd (\<lambda>a b. Some (cmp_pending_event_ric a b)) True True = Some pn"
    "pend_rep pn {#}" using pend_init[OF nz nz] by blast
  obtain ps :: "(uint16, string list) assoc_rb_tree" where
    ps: "assoc_rb_tree_init (mal 2) 2 (\<lambda>a b. Some (cmp_ran_func_id a b)) True = Some ps"
    "rb_rep (\<lambda>_. True) cmp_ran_func_id ps []" "key_sz ps = 2"
    using init_rep[where ff = True and f = "\<lambda>a b. Some (cmp_ran_func_id a b)" and vkey = "\<lambda>_. True" and cmp = cmp_ran_func_id
        and ksz = 2 and a = "mal 2"] nz by (metis zero_less_numeral)
  have "heap ps b = None" if "b \<noteq> mal 2" for b
    using ps(1) that nz by (auto simp: assoc_rb_tree_init_def)
  moreover have "mal (5 + j) \<noteq> mal 2" for j using m by (auto simp: ok_mal_def inj_eq)
  ultimately have fr: "\<forall>j \<ge> 0. heap ps (mal (5 + j)) = None" by blast
  define r where "r = \<lparr>ep_nodes = nodes, io = {ep_fd}, sm_ds = plugins, pub_sub = ps, conn_e2_nodes = [], next_req_id = 1021,
    pending = pn, nr_sent = [], nr_published = []\<rparr>"
  have "inj (\<lambda>i. mal (5 + i))" using m by (intro injI) (auto simp: ok_mal_def inj_eq)
  have "\<forall>i. mal (5 + i) \<noteq> 0" using nz by blast
  from load_default_loop_rep[OF rb d \<open>inj (\<lambda>i. mal (5 + i))\<close> \<open>\<forall>i. mal (5 + i) \<noteq> 0\<close>, of 0 r] obtain p where
    p: "load_default_loop (\<lambda>i. mal (5 + i)) ((map fst es @ [dummy plugins]) ! 0) 0 r = Some (r\<lparr>pub_sub := p\<rparr>)"
    "pub_rep p (listened (\<lambda>i. mal (5 + i)) (length es) es)"
    using fr ps by (auto simp: r_def pub_rep_def listened_def)
  have "load_default_pub_sub_ric (\<lambda>i. mal (5 + i)) r = Some (r\<lparr>pub_sub := p\<rparr>)"
    using p(1) front_place[OF rb] by (simp add: load_default_pub_sub_ric_def r_def)
  then have i: "init_near_ric mal ep_fd plugins = Some (r\<lparr>pub_sub := p\<rparr>)"
    using nodes(1) pn(1) ps(1) fd by (simp add: init_near_ric_def add_fd_asio_ric_def r_def)
  have "tree_rep plugins (map snd es)" using rb d by (auto simp: tree_rep_def)
  moreover have "tree_rep p (map (\<lambda>s. (fst s, three)) (map snd es))"
    unfolding tree_rep_def map_snd_listened[of "\<lambda>i. mal (5 + i)", symmetric]
    using p(2) d by (auto simp: pub_rep_def map_snd_listened comp_def)
  ultimately show thesis using that[OF i] nodes(2) pn(2) by (simp add: r_def)
qed

lemma init_e42_iapp_rep:
  assumes m: "ok_mal mal"
  obtains i where "init_e42_iapp mal = Some i" "xapp_table_rep (ia_xapps i) {#}" "reg_rep (ia_e2_nodes i) []"
    "ric_table_rep (ia_map_ric_id i) {#}" "ia_xapp_id i = 7" "ia_sent i = []"
proof -
  have nz: "mal i \<noteq> 0" for i using m by (simp add: ok_mal_def)
  obtain xs where xs: "init_map_xapps_sad (mal 0) (mal 1) = Some xs" "xapp_table_rep xs {#}"
    using xapp_table_init[OF nz nz] by blast
  obtain q where q: "init_map_ric_id (mal 3) (mal 4) = Some q" "ric_table_rep q {#}" using ric_table_init[OF nz nz] by blast
  obtain t where t: "assoc_rb_tree_init (mal 2) 32 cmp_global_e2_node_id True = Some t" "node_tree_rep t []"
    using node_tree_init[OF nz] by metis
  show thesis using that xs q t by (simp add: init_e42_iapp_def init_reg_e2_node_def reg_rep_def)
qed

end
