(* ===== verification/Controller_Example.thy ===== *)
theory Controller_Example
  imports Controller_Start
begin

text \<open>
  A state in which a node and an xApp are registered, with what it stands for: the properties of the
  controller are shown to apply to it.
\<close>

section \<open>Example\<close>

definition ex_sm :: sm_ric where
  "ex_sm = \<lparr>sm_ran_func_id = 2, on_subscription = (\<lambda>b. Some (b, None)),
     on_indication = (\<lambda>h m p. Some \<lparr>rd_type = KPM_STATS_V3_0, rd_data = RD_BYTES m\<rparr>), on_control_req = (\<lambda>c. case c of CTRL_BYTES b \<Rightarrow> Some (b, b) | _ \<Rightarrow> None)\<rparr>"

definition ex_pair :: pair_rf_cca where
  "ex_pair = \<lparr>pr_ran_func = [\<lparr>rf_defn = [1], rf_id = 2, rf_rev = 0, rf_oid = [1]\<rparr>],
     pr_comp_conf_add = [\<lparr>cca_interface_type = F1_E2AP, cca_comp_id = F1_COMP_ID 5,
       cca_comp_conf = \<lparr>conf_request = [], conf_response = []\<rparr>\<rparr>]\<rparr>"

definition empty_map :: "('a \<Rightarrow> 'a \<Rightarrow> int option) \<Rightarrow> ('b \<Rightarrow> 'b \<Rightarrow> int option) \<Rightarrow> nat \<Rightarrow> nat \<Rightarrow> ('a, 'b) bi_map" where
  "empty_map f g s1 s2 = \<lparr>left_tree = \<lparr>heap = [1 \<mapsto> (init_node None None)\<lparr>n_color := ASSOC_BLACK\<rparr>], dummy = 1, root = 1,
       comp_fn = f, tree_size = 0, key_sz = s1, has_free_func = True\<rparr>,
     right_tree = \<lparr>heap = [1 \<mapsto> (init_node None None)\<lparr>n_color := ASSOC_BLACK\<rparr>], dummy = 1, root = 1,
       comp_fn = g, tree_size = 0, key_sz = s2, has_free_func = True\<rparr>\<rparr>"

lemma empty_map_init: "0 < s1 \<Longrightarrow> 0 < s2 \<Longrightarrow> bi_map_init 1 1 s1 s2 f g True True = Some (empty_map f g s1 s2)"
  by (simp add: bi_map_init_def assoc_rb_tree_init_def empty_map_def)

lemma empty_map_heap:
  "heap (left_tree (empty_map f g s1 s2)) a = None \<longleftrightarrow> a \<noteq> 1" "heap (right_tree (empty_map f g s1 s2)) a = None \<longleftrightarrow> a \<noteq> 1"
  by (simp_all add: empty_map_def)

definition ex_pend :: "(int, pending_event_ric) bi_map" where
  "ex_pend = empty_map cmp_fd (\<lambda>a b. Some (cmp_pending_event_ric a b)) 4 12"

definition ex_reqs :: map_ric_id where
  "ex_reqs = empty_map (\<lambda>a b. Some (cmp_e2_node_ric_req_wrapper a b)) (\<lambda>a b. Some (cmp_xapp_ric_gen_id a b)) 48 12"

definition ex_ctrl :: controller where
  "ex_ctrl = \<lparr>ric = \<lparr>ep_nodes = ex_node_table, io = {3}, sm_ds = one_node (\<lambda>a b. Some (cmp_ran_func_id a b)) 2 2 ex_sm,
       pub_sub = one_node (\<lambda>a b. Some (cmp_ran_func_id a b)) 2 2 three,
       conn_e2_nodes = [\<lparr>en_id = ex_gnb 1, en_accepted = [2]\<rparr>], next_req_id = 1021, pending = ex_pend, nr_sent = [],
       nr_published = []\<rparr>,
     iapp = \<lparr>ia_xapps = ex_xapp_table, ia_xapp_id = 8, ia_e2_nodes = \<lparr>node_to_rf = one_node cmp_global_e2_node_id 32 (ex_gnb 1) ex_pair\<rparr>,
       ia_map_ric_id = ex_reqs, ia_sent = []\<rparr>\<rparr>"

definition ex_actrl :: actrl where
  "ex_actrl = \<lparr>reqs = {#}, xapps = {#(7, ex_addr 100)#}, nodes = {#(ex_gnb 1, ex_addr 100)#}, regs = [(ex_gnb 1, ex_pair)],
     pend = {#}, fds = {3}, conn = [\<lparr>en_id = ex_gnb 1, en_accepted = [2]\<rparr>], next_req = 1021, next_xapp = 8,
     sms = [(2, ex_sm)], subs = [(2, three)], to_nodes = [], to_xapps = [], published = []\<rparr>"

definition ex_mal :: alloc where
  "ex_mal i j = 10 + j"

lemma ex_ok_pair: "ok_pair ex_pair"
  by (simp add: ok_pair_def ex_pair_def cp_ok_id_def)

lemma one_node_tree: "tree_rep (one_node (\<lambda>a b. Some (cmp_ran_func_id a b)) 2 2 v) [(2, v)]"
  unfolding tree_rep_def by (intro conjI exI[of _ "[(2, 2, v)]"] one_node_rep) simp_all

lemma ex_ctrl_rep: "ctrl_rep ex_ctrl ex_actrl"
proof -
  have "pend_rep ex_pend {#}" using pend_init[of 1 1] by (simp add: empty_map_init ex_pend_def del: One_nat_def)
  moreover have "ric_table_rep ex_reqs {#}"
    using ric_table_init[of 1 1] by (simp add: empty_map_init ex_reqs_def init_map_ric_id_def del: One_nat_def)
  moreover have "rb_rep has_cu_du_id order_e2_node (one_node cmp_global_e2_node_id 32 (ex_gnb 1) ex_pair) [(2, ex_gnb 1, ex_pair)]"
    by (intro one_node_rep cmp_global_e2_node_id_order ex_gnb_valid)
  then have "reg_rep \<lparr>node_to_rf = one_node cmp_global_e2_node_id 32 (ex_gnb 1) ex_pair\<rparr> [(2, ex_gnb 1, ex_pair)]"
    using ex_ok_pair by (simp add: reg_rep_def node_tree_rep_def) (simp add: one_node_def)
  then have "\<exists>es. reg_rep \<lparr>node_to_rf = one_node cmp_global_e2_node_id 32 (ex_gnb 1) ex_pair\<rparr> es \<and>
      map snd es = [(ex_gnb 1, ex_pair)]" by (intro exI[of _ "[(2, ex_gnb 1, ex_pair)]"]) simp
  ultimately show ?thesis using ex_xapp_table_rep ex_node_table_rep
    by (simp add: ctrl_rep_def ex_ctrl_def ex_actrl_def one_node_tree)
qed

lemma ex_a_inv: "a_inv ex_actrl"
  using ex_ok_pair ex_gnb_valid
  by (simp add: a_inv_def ex_actrl_def nodes_inv_def reqs_inv_def pend_inv_def uniq_fst_def xapps_inv_def sms_inv_def ex_sm_def)

lemma ex_fresh: "fresh_mem ex_mal ex_ctrl"
  by (simp add: fresh_mem_def ex_ctrl_def ex_mal_def ok_mal_def ex_pend_def ex_reqs_def empty_map_heap one_node_def inj_def
      ex_node_table_def ex_xapp_table_def one_pair_def fresh_for_def)

text \<open>What comes in: the request of the xApp, and the answers of the node.\<close>

definition ex_id :: "uint32 \<Rightarrow> ric_gen_id" where
  "ex_id k = \<lparr>ric_req_id = k, ric_inst_id = 0, ran_func_id = 2\<rparr>"

definition ex_e42_sub :: e42_ric_subscription_request where
  "ex_e42_sub = \<lparr>e42_sr_xapp_id = 7, e42_sr_id = ex_gnb 1,
     e42_sr = \<lparr>sr_ric_id = ex_id 5, sr_event_trigger = [1, 0],
       sr_action = [\<lparr>act_id = 0, act_type = RIC_ACT_REPORT, act_definition = None, subseq_action = None\<rparr>]\<rparr>\<rparr>"

definition ex_xid :: xapp_ric_id where
  "ex_xid = \<lparr>x_ric_id = ex_id 5, xapp_id = 7\<rparr>"

definition ex_kfd :: "nat \<Rightarrow> int" where
  "ex_kfd i = 9 + int i"

lemma ex_may_request: "may_request ex_actrl (ex_kfd 0) (ex_gnb 1) (ex_addr 100) ex_xid"
  by (simp add: may_request_def ex_actrl_def ex_xid_def ex_id_def ex_kfd_def)

lemma ex_xid_eq: "ex_xid = \<lparr>x_ric_id = sr_ric_id (e42_sr ex_e42_sub), xapp_id = e42_sr_xapp_id ex_e42_sub\<rparr>"
  by (simp add: ex_xid_def ex_e42_sub_def)

text \<open>The state after this request.\<close>
definition ex_after :: actrl where
  "ex_after = (new_req SUBSCRIPTION_REQUEST_PENDING_EVENT SUBSCRIPTION_RIC_REQUEST_TYPE (ex_kfd 0) (ex_gnb 1) ex_xid ex_actrl)
     \<lparr>to_nodes := [(ex_addr 100, ric_sub_req ((e42_sr ex_e42_sub)\<lparr>sr_ric_id := renumbered 1021 (ex_id 5)\<rparr>))]\<rparr>"

lemma ex_subscribe:
  "astep ex_actrl ex_kfd (IAPP_EVENT (MSG_ARRIVED (ex_addr 200) (e42_ric_sub_req ex_e42_sub))) ex_after"
proof -
  have n: "e42_sr_id ex_e42_sub = ex_gnb 1" by (simp add: ex_e42_sub_def)
  have "length (regs ex_actrl) < 256" by (simp add: ex_actrl_def)
  from astep.subscribe[of ex_xid ex_e42_sub ex_actrl ex_kfd "ex_addr 100", OF ex_xid_eq _ this] ex_may_request
  have "astep ex_actrl ex_kfd (IAPP_EVENT (MSG_ARRIVED (ex_addr 200) (e42_ric_sub_req ex_e42_sub)))
      ((new_req SUBSCRIPTION_REQUEST_PENDING_EVENT SUBSCRIPTION_RIC_REQUEST_TYPE (ex_kfd 0) (ex_gnb 1) ex_xid ex_actrl)
        \<lparr>to_nodes := to_nodes ex_actrl @ [(ex_addr 100,
          ric_sub_req ((e42_sr ex_e42_sub)\<lparr>sr_ric_id := renumbered (next_req ex_actrl) (x_ric_id ex_xid)\<rparr>))]\<rparr>)"
    unfolding n by blast
  then show ?thesis by (simp add: ex_after_def ex_actrl_def ex_xid_def)
qed

end
