(* ===== verification/Controller_Props.thy ===== *)
theory Controller_Props
  imports Controller_Start Controller_Example
begin

text \<open>
  What the controller promises, and where it fails: the properties of the controller and the iApp
  together.
\<close>

section \<open>Refinement\<close>

text \<open>C5: the controller and the iApp implement their specification: whatever message, disconnection or idle turn the
  specification allows in a state that satisfies its invariant is served by the code without a failed assertion, whatever fresh
  memory the allocator hands out, and leaves the tables of addresses, the registry of nodes, the table of
  requests, the pending events with their timers, the counters and all that was sent as the specification says; the invariant holds again.\<close>
lemma controller_refines:
  assumes "astep a kfd ev a'" "ctrl_rep c a" "a_inv a" "fresh_mem mal c"
  shows "a_inv a' \<and> (\<exists>c'. ctrl_run mal kfd c ev = Some c' \<and> ctrl_rep c' a')"
  using ctrl_step[OF assms] a_inv_step[OF assms(1,3)] by blast

lemma controller_refines_witness:
  "\<exists>c'. ctrl_run ex_mal ex_kfd ex_ctrl (IAPP_EVENT (MSG_ARRIVED (ex_addr 200) (e42_ric_sub_req ex_e42_sub))) = Some c' \<and>
    ctrl_rep c' ex_after"
  using controller_refines[OF ex_subscribe ex_ctrl_rep ex_a_inv ex_fresh] by blast

section \<open>Runs\<close>

text \<open>A run of the code next to the specification: every event is one that the specification allows, the
  memory is fresh.\<close>
inductive ctrl_reach :: "controller \<Rightarrow> actrl \<Rightarrow> controller \<Rightarrow> actrl \<Rightarrow> bool" for c0 a0 where
  start: "ctrl_reach c0 a0 c0 a0"
| step: "ctrl_reach c0 a0 c a \<Longrightarrow> astep a kfd ev a' \<Longrightarrow> fresh_mem mal c \<Longrightarrow> ctrl_run mal kfd c ev = Some c' \<Longrightarrow>
    ctrl_reach c0 a0 c' a'"

lemma ctrl_reach_rep:
  assumes "ctrl_reach c0 a0 c a" "ctrl_rep c0 a0" "a_inv a0"
  shows "ctrl_rep c a \<and> a_inv a"
  using assms
proof (induction rule: ctrl_reach.induct)
  case (step c a kfd ev a' mal c')
  then have "ctrl_rep c a" "a_inv a" by simp_all
  then show ?case using ctrl_step[OF step.hyps(2) _ _ step.hyps(3)] a_inv_step[OF step.hyps(2)] step.hyps(4) by force
qed simp

text \<open>The controller as it is started.\<close>
lemma started:
  assumes "rb_rep (\<lambda>_. True) cmp_ran_func_id plugins es" "distinct (map (fst \<circ> snd) es)"
    and "\<forall>(k, sm) \<in> set (map snd es). 0 < k \<and> sm_ran_func_id sm = k" "ok_mal m1" "ok_mal m2" "0 < ep_fd"
  obtains r i where "init_near_ric m1 ep_fd plugins = Some r" "init_e42_iapp m2 = Some i"
    "ctrl_rep \<lparr>ric = r, iapp = i\<rparr> (a_init (map snd es) ep_fd)" "a_inv (a_init (map snd es) ep_fd)"
proof -
  obtain r where r: "init_near_ric m1 ep_fd plugins = Some r" "node_table_rep (ep_nodes r) {#}" "pend_rep (pending r) {#}"
    "tree_rep (sm_ds r) (map snd es)" "tree_rep (pub_sub r) (map (\<lambda>s. (fst s, three)) (map snd es))"
    "io r = {ep_fd}" "conn_e2_nodes r = []" "next_req_id r = 1021" "nr_sent r = []" "nr_published r = []"
    using init_near_ric_rep[OF assms(1,2,4,6)] .
  obtain i where i: "init_e42_iapp m2 = Some i" "xapp_table_rep (ia_xapps i) {#}" "reg_rep (ia_e2_nodes i) []"
    "ric_table_rep (ia_map_ric_id i) {#}" "ia_xapp_id i = 7" "ia_sent i = []"
    using init_e42_iapp_rep[OF assms(5)] .
  have "ctrl_rep \<lparr>ric = r, iapp = i\<rparr> (a_init (map snd es) ep_fd)"
    using r i by (simp add: ctrl_rep_def a_init_def three_def)
  then show thesis using that[OF r(1) i(1)] a_inv_init[OF assms(3)] by simp
qed

text \<open>C15: a controller that is started with plug-ins of distinct functions has empty tables, polls its end point
  only, numbers its requests from 1021 and its xApps from 7, and every plug-in has its three listeners: it
  represents the start of the specification.\<close>
lemma controller_starts:
  assumes "rb_rep (\<lambda>_. True) cmp_ran_func_id plugins es" "distinct (map (fst \<circ> snd) es)"
    and "\<forall>(k, sm) \<in> set (map snd es). 0 < k \<and> sm_ran_func_id sm = k" "ok_mal m1" "ok_mal m2" "0 < ep_fd"
  shows "\<exists>r i. init_near_ric m1 ep_fd plugins = Some r \<and> init_e42_iapp m2 = Some i \<and>
    ctrl_rep \<lparr>ric = r, iapp = i\<rparr> (a_init (map snd es) ep_fd)"
  using started[OF assms] by metis

lemma controller_starts_witness:
  "\<exists>r i. init_near_ric (\<lambda>j. 10 + j) 3 (one_node (\<lambda>a b. Some (cmp_ran_func_id a b)) 2 2 ex_sm) = Some r \<and>
    init_e42_iapp (\<lambda>j. 10 + j) = Some i \<and> ctrl_rep \<lparr>ric = r, iapp = i\<rparr> (a_init [(2, ex_sm)] 3)"
proof -
  have "rb_rep (\<lambda>_. True) cmp_ran_func_id (one_node (\<lambda>a b. Some (cmp_ran_func_id a b)) 2 2 ex_sm) [(2, 2, ex_sm)]"
    by (intro one_node_rep) simp_all
  moreover have "ok_mal (\<lambda>j. 10 + j)" by (simp add: ok_mal_def inj_def)
  ultimately show ?thesis using controller_starts[where es = "[(2, 2, ex_sm)]" and ?m1.0 = "\<lambda>j. 10 + j" and ?m2.0 = "\<lambda>j. 10 + j"]
    by (simp add: ex_sm_def)
qed

text \<open>C6: in every state that a run reaches, an answer of a node finds its xApp: the number of every open request
  is positive, leads to the xApp that made it and to no other, and the address of this xApp is
  registered; the timer of every pending event is polled and leads to its event.\<close>
lemma controller_routes_answers:
  assumes "ctrl_reach c0 a0 c a" "ctrl_rep c0 a0" "a_inv a0"
  shows "(\<forall>(n, x) \<in># reqs a. 0 < ric_req_id (e_ric_id n) \<and>
      find_xapp_map_ric_id (ia_map_ric_id (iapp c)) (ucast (ric_req_id (e_ric_id n))) = Some (Some x) \<and>
      (\<exists>s. find_map_xapps_sad (ia_xapps (iapp c)) (xapp_id x) = Some s)) \<and>
    (\<forall>(fd, ev) \<in># pend a. fd \<in> io (ric c) \<and> pend_event (ric c) fd = Some ev)"
proof (intro conjI; clarify)
  have R: "ctrl_rep c a" "a_inv a" using ctrl_reach_rep[OF assms] by simp_all
  then have i: "reqs_inv a" "pend_inv a" by (simp_all add: a_inv_def)
  fix n x assume m: "(n, x) \<in># reqs a"
  then have q: "0 < ric_req_id (e_ric_id n)" "same_func (e_ric_id n) (x_ric_id x)" "xapp_id x \<in> fst ` set_mset (xapps a)"
    using i(1) unfolding reqs_inv_def by blast+
  have f: "find_xapp_map_ric_id (ia_map_ric_id (iapp c)) (ucast (ric_req_id (e_ric_id n))) = Some (Some x)"
    using find_request(1)[OF R(1) i(1) m] q(2) by (simp add: matches_def)
  obtain s where "(xapp_id x, s) \<in># xapps a" using q(3) by force
  then have "find_map_xapps_sad (ia_xapps (iapp c)) (xapp_id x) = Some s"
    using find_map_xapps_sad_rep[OF ctrl_repD(2)[OF R(1)]] by blast
  then show "0 < ric_req_id (e_ric_id n) \<and>
      find_xapp_map_ric_id (ia_map_ric_id (iapp c)) (ucast (ric_req_id (e_ric_id n))) = Some (Some x) \<and>
      (\<exists>s. find_map_xapps_sad (ia_xapps (iapp c)) (xapp_id x) = Some s)" using f q(1) by blast
next
  have R: "ctrl_rep c a" "a_inv a" using ctrl_reach_rep[OF assms] by simp_all
  fix fd ev assume m: "(fd, ev) \<in># pend a"
  then have q: "0 < fd" "fd \<in> fds a" using R(2) unfolding a_inv_def pend_inv_def by blast+
  then show "fd \<in> io (ric c) \<and> pend_event (ric c) fd = Some ev"
    using ctrl_repD(8)[OF R(1)] pend_event_rep[OF ctrl_repD(5)[OF R(1)] m q(1)] by simp
qed

lemma controller_routes_answers_witness:
  "\<exists>c. ctrl_rep c ex_after \<and> find_xapp_map_ric_id (ia_map_ric_id (iapp c)) 1021 = Some (Some ex_xid) \<and>
    pend_event (ric c) 9 = Some \<lparr>p_ev = SUBSCRIPTION_REQUEST_PENDING_EVENT, p_id = ex_id 1021\<rparr>"
proof -
  obtain c where c: "ctrl_run ex_mal ex_kfd ex_ctrl (IAPP_EVENT (MSG_ARRIVED (ex_addr 200) (e42_ric_sub_req ex_e42_sub))) = Some c"
    "ctrl_rep c ex_after" using ctrl_step[OF ex_subscribe ex_ctrl_rep ex_a_inv ex_fresh] by blast
  have r: "ctrl_reach ex_ctrl ex_actrl c ex_after"
    by (rule ctrl_reach.step[OF ctrl_reach.start ex_subscribe ex_fresh c(1)])
  from controller_routes_answers[OF r ex_ctrl_rep ex_a_inv] c(2) show ?thesis
    by (auto simp: ex_after_def new_req_def ex_actrl_def ex_kfd_def ex_xid_def ex_id_def renumbered_def)
qed

section \<open>The life of a request\<close>

text \<open>The answers of a node.\<close>
definition granted :: "ric_gen_id \<Rightarrow> ric_subscription_response" where
  "granted i = \<lparr>rs_ric_id = i, rs_admitted = [\<lparr>ric_act_id = 0\<rparr>], rs_not_admitted = []\<rparr>"

text \<open>A subscription is asked for and granted: what changes is the entry of the table.\<close>
lemma subscription_opens:
  assumes R: "ctrl_rep c a" and I: "a_inv a" and "fresh_mem mal c"
    and x: "x = \<lparr>x_ric_id = sr_ric_id (e42_sr q), xapp_id = e42_sr_xapp_id q\<rparr>"
    and may: "may_request a (kfd 0) (e42_sr_id q) t x" and "length (regs a) < 256" and s: "(xapp_id x, s) \<in># xapps a"
    and i: "i = renumbered (next_req a) (x_ric_id x)"
  obtains c1 c2 where "ctrl_run mal kfd c (IAPP_EVENT (MSG_ARRIVED info (e42_ric_sub_req q))) = Some c1"
    "\<And>mal tfd. ctrl_run mal tfd c1 (RIC_EVENT (MSG_ARRIVED t (ric_sub_resp (granted i)))) = Some (c2 mal (tfd 0))"
    "\<And>mal tfd. ctrl_rep (c2 mal tfd) (a\<lparr>reqs := add_mset (\<lparr>e2_node_id = e42_sr_id q, e_ric_id = i,
        ric_req_type = SUBSCRIPTION_RIC_REQUEST_TYPE\<rparr>, x) (reqs a), next_req := next_req a + 1,
      to_nodes := to_nodes a @ [(t, ric_sub_req ((e42_sr q)\<lparr>sr_ric_id := i\<rparr>))],
      to_xapps := to_xapps a @ [(s, ric_sub_resp (granted (x_ric_id x)))]\<rparr>)"
proof -
  let ?b = "(new_req SUBSCRIPTION_REQUEST_PENDING_EVENT SUBSCRIPTION_RIC_REQUEST_TYPE (kfd 0) (e42_sr_id q) x a)
    \<lparr>to_nodes := to_nodes a @ [(t, ric_sub_req ((e42_sr q)\<lparr>sr_ric_id := i\<rparr>))]\<rparr>"
  let ?n = "\<lparr>e2_node_id = e42_sr_id q, e_ric_id = i, ric_req_type = SUBSCRIPTION_RIC_REQUEST_TYPE\<rparr>"
  obtain c1 where c1: "e2_event_loop_iapp mal kfd c (MSG_ARRIVED info (e42_ric_sub_req q)) = Some c1" "ctrl_rep c1 ?b"
    using subscribe_refines[where kfd = kfd and q = q, OF assms(1-6) refl] unfolding i by blast
  have b: "a_inv ?b" by (rule new_req_inv[OF I may])
  have p: "(kfd 0, \<lparr>p_ev = SUBSCRIPTION_REQUEST_PENDING_EVENT, p_id = rs_ric_id (granted i)\<rparr>) \<in># pend ?b"
    "(?n, x) \<in># reqs ?b" "matches (rs_ric_id (granted i)) (?n, x)" "(xapp_id x, s) \<in># xapps ?b"
    using s by (simp_all add: new_req_def granted_def matches_def same_func_def i renumbered_def)
  have "\<exists>c'. e2_event_loop_ric mal tfd c1 (MSG_ARRIVED t (ric_sub_resp (granted i))) = Some c' \<and> ctrl_rep c' (?b\<lparr>
      pend := pend ?b - {#(kfd 0, \<lparr>p_ev = SUBSCRIPTION_REQUEST_PENDING_EVENT, p_id = rs_ric_id (granted i)\<rparr>)#}, fds := fds ?b - {kfd 0},
      to_xapps := to_xapps ?b @ [(s, ric_sub_resp ((granted i)\<lparr>rs_ric_id := x_ric_id x\<rparr>))]\<rparr>)" for mal tfd
    by (rule subscribed_refines[OF c1(2) b p]) (simp_all add: granted_def)
  then obtain c2 where c2: "\<And>mal tfd. e2_event_loop_ric mal tfd c1 (MSG_ARRIVED t (ric_sub_resp (granted i))) = Some (c2 mal tfd)"
    "\<And>mal tfd. ctrl_rep (c2 mal tfd) (?b\<lparr>
      pend := pend ?b - {#(kfd 0, \<lparr>p_ev = SUBSCRIPTION_REQUEST_PENDING_EVENT, p_id = rs_ric_id (granted i)\<rparr>)#}, fds := fds ?b - {kfd 0},
      to_xapps := to_xapps ?b @ [(s, ric_sub_resp ((granted i)\<lparr>rs_ric_id := x_ric_id x\<rparr>))]\<rparr>)" by metis
  have f: "kfd 0 \<notin> fds a" using may by (simp add: may_request_def)
  show thesis
  proof (rule that[of c1 c2])
    fix mal tfd
    show "ctrl_rep (c2 mal tfd) (a\<lparr>reqs := add_mset (?n, x) (reqs a), next_req := next_req a + 1,
      to_nodes := to_nodes a @ [(t, ric_sub_req ((e42_sr q)\<lparr>sr_ric_id := i\<rparr>))],
      to_xapps := to_xapps a @ [(s, ric_sub_resp (granted (x_ric_id x)))]\<rparr>)"
      using c2(2)[of mal tfd] f by (simp add: ctrl_rep_def new_req_def granted_def i)
  qed (use c1(1) c2(1) in \<open>simp_all add: ctrl_run_def\<close>)
qed

text \<open>An open subscription is given up: its entry goes, everything else is as before.\<close>
lemma subscription_closes:
  assumes R: "ctrl_rep c a" and I: "a_inv a" and "fresh_mem mal c"
    and "x = \<lparr>x_ric_id = sdr_ric_id (e42_sdr m), xapp_id = e42_sdr_xapp_id m\<rparr>"
    and nx: "(n, x) \<in># reqs a" and "\<forall>(n', y) \<in># reqs a. x_ric_id y = x_ric_id x \<longrightarrow> y = x"
    and "ric_req_type n = SUBSCRIPTION_RIC_REQUEST_TYPE" and "(e2_node_id n, t) \<in># nodes a"
    and pe: "\<forall>(f, e) \<in># pend a. e \<noteq> \<lparr>p_ev = SUBSCRIPTION_DELETE_REQUEST_PENDING_EVENT, p_id = e_ric_id n\<rparr>"
    and fd: "0 < kfd 0" "kfd 0 \<notin> fds a" and s: "(xapp_id x, s) \<in># xapps a"
  shows "\<exists>c1 c2. ctrl_run mal kfd c (IAPP_EVENT (MSG_ARRIVED info (e42_ric_sub_del_req m))) = Some c1 \<and>
    ctrl_run mal kfd c1 (RIC_EVENT (MSG_ARRIVED t (ric_sub_del_resp \<lparr>sdp_ric_id = e_ric_id n\<rparr>))) = Some c2 \<and>
    ctrl_rep c2 (a\<lparr>reqs := reqs a - {#(n, x)#}, to_nodes := to_nodes a @ [(t, ric_sub_del_req \<lparr>sdr_ric_id = e_ric_id n\<rparr>)],
      to_xapps := to_xapps a @ [(s, ric_sub_del_resp \<lparr>sdp_ric_id = x_ric_id x\<rparr>)]\<rparr>)"
proof -
  let ?e = "\<lparr>p_ev = SUBSCRIPTION_DELETE_REQUEST_PENDING_EVENT, p_id = e_ric_id n\<rparr>"
  let ?b = "a\<lparr>pend := add_mset (kfd 0, ?e) (pend a), fds := insert (kfd 0) (fds a),
      to_nodes := to_nodes a @ [(t, ric_sub_del_req \<lparr>sdr_ric_id = e_ric_id n\<rparr>)]\<rparr>"
  have st: "astep a kfd (IAPP_EVENT (MSG_ARRIVED info (e42_ric_sub_del_req m))) ?b"
    by (rule astep.unsubscribe[where kfd = kfd and m = m, OF assms(4-8) refl pe fd])
  obtain c1 where c1: "ctrl_run mal kfd c (IAPP_EVENT (MSG_ARRIVED info (e42_ric_sub_del_req m))) = Some c1" "ctrl_rep c1 ?b"
    using ctrl_step[OF st R I assms(3)] by blast
  have b: "a_inv ?b" by (rule a_inv_step[OF st I])
  have q: "same_func (e_ric_id n) (x_ric_id x)" using I nx unfolding a_inv_def reqs_inv_def by blast
  have "(kfd 0, \<lparr>p_ev = SUBSCRIPTION_DELETE_REQUEST_PENDING_EVENT, p_id = sdp_ric_id \<lparr>sdp_ric_id = e_ric_id n\<rparr>\<rparr>) \<in># pend ?b"
    "(n, x) \<in># reqs ?b" "matches (sdp_ric_id \<lparr>sdp_ric_id = e_ric_id n\<rparr>) (n, x)" "(xapp_id x, s) \<in># xapps ?b"
    using nx s q by (simp_all add: matches_def)
  from unsubscribed_refines[OF c1(2) b this, of mal "kfd 0" t] obtain c2 where
    "e2_event_loop_ric mal (kfd 0) c1 (MSG_ARRIVED t (ric_sub_del_resp \<lparr>sdp_ric_id = e_ric_id n\<rparr>)) = Some c2"
    "ctrl_rep c2 (?b\<lparr>pend := pend ?b - {#(kfd 0, ?e)#}, fds := fds ?b - {kfd 0}, reqs := reqs ?b - {#(n, x)#},
      to_xapps := to_xapps ?b @ [(s, ric_sub_del_resp \<lparr>sdp_ric_id = x_ric_id x\<rparr>)]\<rparr>)" by auto
  then show ?thesis using c1(1) fd(2) by (intro exI[of _ c1] exI[of _ c2]) (simp add: ctrl_run_def ctrl_rep_def)
qed

text \<open>The life of a subscription: a registered xApp that subscribes at a connected node is granted the subscription
  by the answer of the node, under its own number, and when it asks for the deletion, the node is asked
  with the number that the controller had given; after the answer of the node, the tables, the pending events, the timers
  and the polled descriptors are as before the subscription, the counter of the numbers is one higher, and two messages each have gone to the node and to the xApp.\<close>
lemma subscription_lifecycle:
  assumes R: "ctrl_rep c a" and I: "a_inv a" and "fresh_mem mal c"
    and x: "x = \<lparr>x_ric_id = sr_ric_id (e42_sr q), xapp_id = e42_sr_xapp_id q\<rparr>"
    and may: "may_request a (kfd 0) (e42_sr_id q) t x" and "length (regs a) < 256" and s: "(xapp_id x, s) \<in># xapps a"
    and un: "\<forall>(n, y) \<in># reqs a. x_ric_id y \<noteq> x_ric_id x"
    and i: "i = renumbered (next_req a) (x_ric_id x)"
    and m: "m = \<lparr>e42_sdr_xapp_id = xapp_id x, e42_sdr = \<lparr>sdr_ric_id = x_ric_id x\<rparr>\<rparr>"
  shows "\<exists>c1 c2. ctrl_run mal kfd c (IAPP_EVENT (MSG_ARRIVED info (e42_ric_sub_req q))) = Some c1 \<and>
    ctrl_run mal kfd c1 (RIC_EVENT (MSG_ARRIVED t (ric_sub_resp (granted i)))) = Some c2 \<and>
    (\<forall>mal' kfd'. fresh_mem mal' c2 \<longrightarrow> 0 < kfd' 0 \<longrightarrow> kfd' 0 \<notin> io (ric c2) \<longrightarrow> (\<exists>c3 c4.
      ctrl_run mal' kfd' c2 (IAPP_EVENT (MSG_ARRIVED info (e42_ric_sub_del_req m))) = Some c3 \<and>
      ctrl_run mal' kfd' c3 (RIC_EVENT (MSG_ARRIVED t (ric_sub_del_resp \<lparr>sdp_ric_id = i\<rparr>))) = Some c4 \<and>
      ctrl_rep c4 (a\<lparr>next_req := next_req a + 1,
        to_nodes := to_nodes a @ [(t, ric_sub_req ((e42_sr q)\<lparr>sr_ric_id := i\<rparr>)), (t, ric_sub_del_req \<lparr>sdr_ric_id = i\<rparr>)],
        to_xapps := to_xapps a @ [(s, ric_sub_resp (granted (x_ric_id x))), (s, ric_sub_del_resp \<lparr>sdp_ric_id = x_ric_id x\<rparr>)]\<rparr>)))"
proof -
  let ?n = "\<lparr>e2_node_id = e42_sr_id q, e_ric_id = i, ric_req_type = SUBSCRIPTION_RIC_REQUEST_TYPE\<rparr>"
  let ?b = "a\<lparr>reqs := add_mset (?n, x) (reqs a), next_req := next_req a + 1,
      to_nodes := to_nodes a @ [(t, ric_sub_req ((e42_sr q)\<lparr>sr_ric_id := i\<rparr>))],
      to_xapps := to_xapps a @ [(s, ric_sub_resp (granted (x_ric_id x)))]\<rparr>"
  obtain c1 d where c1: "ctrl_run mal kfd c (IAPP_EVENT (MSG_ARRIVED info (e42_ric_sub_req q))) = Some c1"
    and "\<And>mal tfd. ctrl_run mal tfd c1 (RIC_EVENT (MSG_ARRIVED t (ric_sub_resp (granted i)))) = Some (d mal (tfd 0))"
    "\<And>mal tfd. ctrl_rep (d mal tfd) ?b"
    by (rule subscription_opens[where info = info and kfd = kfd and q = q, OF assms(1-7) i]) blast
  then obtain c2 where c2: "ctrl_run mal kfd c1 (RIC_EVENT (MSG_ARRIVED t (ric_sub_resp (granted i)))) = Some c2" "ctrl_rep c2 ?b"
    by blast
  have iv: "reqs_inv a" "pend_inv a" using I by (simp_all add: a_inv_def)
  have k: "0 < next_req a" "next_req a < 65535" using may iv(1) by (simp_all add: may_request_def reqs_inv_def)
  note nr = new_number[OF k, of "x_ric_id x", folded i]
  have b: "a_inv ?b"
  proof -
    have "same_func i (x_ric_id x)" by (simp add: i same_func_def renumbered_def)
    moreover have "xapp_id x \<in> fst ` set_mset (xapps a)" using s by force
    ultimately have "reqs_inv (a\<lparr>reqs := add_mset (?n, x) (reqs a), pend := {#}, fds := {}, next_req := next_req a + 1, to_nodes := []\<rparr>)"
      using nr k by (intro reqs_inv_add[OF iv(1)]) simp_all
    then have "reqs_inv ?b" by (rule inv_cong(2)[THEN iffD1, rotated 3]) simp_all
    moreover have "pend_inv ?b" using iv(2) unfolding pend_inv_def by fastforce
    ultimately show ?thesis using I inv_cong(1)[of ?b a] inv_cong(4)[of ?b a] inv_cong(5)[of ?b a] by (simp add: a_inv_def)
  qed
  have pe: "\<forall>(f, e) \<in># pend ?b. e \<noteq> \<lparr>p_ev = SUBSCRIPTION_DELETE_REQUEST_PENDING_EVENT, p_id = e_ric_id ?n\<rparr>"
    using iv(2) nr(1) unfolding pend_inv_def by fastforce
  have r: "(?n, x) \<in># reqs ?b" "\<forall>(n', y) \<in># reqs ?b. x_ric_id y = x_ric_id x \<longrightarrow> y = x"
    "ric_req_type ?n = SUBSCRIPTION_RIC_REQUEST_TYPE" "(e2_node_id ?n, t) \<in># nodes ?b"
    using un may by (auto simp: may_request_def)
  have s': "(xapp_id x, s) \<in># xapps ?b" using s by simp
  have x': "x = \<lparr>x_ric_id = sdr_ric_id (e42_sdr m), xapp_id = e42_sdr_xapp_id m\<rparr>" by (simp add: m)
  show ?thesis
  proof (rule exI[of _ c1], rule exI[of _ c2], intro conjI allI impI, rule c1, rule c2(1))
    fix mal' and kfd' :: "nat \<Rightarrow> int" assume f: "fresh_mem mal' c2" "0 < kfd' 0" "kfd' 0 \<notin> io (ric c2)"
    then have f': "kfd' 0 \<notin> fds ?b" using ctrl_repD(8)[OF c2(2)] by simp
    show "\<exists>c3 c4. ctrl_run mal' kfd' c2 (IAPP_EVENT (MSG_ARRIVED info (e42_ric_sub_del_req m))) = Some c3 \<and>
      ctrl_run mal' kfd' c3 (RIC_EVENT (MSG_ARRIVED t (ric_sub_del_resp \<lparr>sdp_ric_id = i\<rparr>))) = Some c4 \<and>
      ctrl_rep c4 (a\<lparr>next_req := next_req a + 1,
        to_nodes := to_nodes a @ [(t, ric_sub_req ((e42_sr q)\<lparr>sr_ric_id := i\<rparr>)), (t, ric_sub_del_req \<lparr>sdr_ric_id = i\<rparr>)],
        to_xapps := to_xapps a @ [(s, ric_sub_resp (granted (x_ric_id x))), (s, ric_sub_del_resp \<lparr>sdp_ric_id = x_ric_id x\<rparr>)]\<rparr>)"
      using subscription_closes[where kfd = kfd' and m = m, OF c2(2) b f(1) x' r pe f(2) f' s', of info] by (simp add: ctrl_rep_def)
  qed
qed

lemma subscription_lifecycle_witness:
  "\<exists>c1 c2. ctrl_run ex_mal ex_kfd ex_ctrl (IAPP_EVENT (MSG_ARRIVED (ex_addr 200) (e42_ric_sub_req ex_e42_sub))) = Some c1 \<and>
    ctrl_run ex_mal ex_kfd c1 (RIC_EVENT (MSG_ARRIVED (ex_addr 100) (ric_sub_resp (granted (ex_id 1021))))) = Some c2"
proof -
  have "may_request ex_actrl (ex_kfd 0) (e42_sr_id ex_e42_sub) (ex_addr 100) ex_xid" "length (regs ex_actrl) < 256"
    "(xapp_id ex_xid, ex_addr 100) \<in># xapps ex_actrl" "\<forall>(n, y) \<in># reqs ex_actrl. x_ric_id y \<noteq> x_ric_id ex_xid"
    "ex_id 1021 = renumbered (next_req ex_actrl) (x_ric_id ex_xid)"
    using ex_may_request by (simp_all add: ex_e42_sub_def ex_actrl_def ex_xid_def renumbered_def ex_id_def)
  from subscription_lifecycle[where kfd = ex_kfd and q = ex_e42_sub and info = "ex_addr 200", OF ex_ctrl_rep ex_a_inv ex_fresh ex_xid_eq this refl] show ?thesis by blast
qed

section \<open>Where the controller ends\<close>

text \<open>A node that does not answer in time ends the controller: the expired timer leads to its
  pending event, but the file descriptor that is read next is the zero of the event structure, which was
  never set, and the assertion on it fails.\<close>
lemma ric_timer_aborts:
  assumes "ctrl_rep c a" "a_inv a" "(fd, ev) \<in># pend a"
  shows "pend_event (ric c) fd = Some ev \<and> e2_event_loop_ric mal k c (TIMER fd) = None"
proof -
  have "0 < fd" using assms(2,3) unfolding a_inv_def pend_inv_def by blast
  then show ?thesis using pend_event_rep[OF ctrl_repD(5)[OF assms(1)] assms(3)]
    by (simp add: e2_event_loop_ric_def consume_fd_def)
qed

lemma ex_subscribed: obtains c where "ctrl_rep c ex_after" "a_inv ex_after"
  using ctrl_step[OF ex_subscribe ex_ctrl_rep ex_a_inv ex_fresh] a_inv_step[OF ex_subscribe ex_a_inv] by blast

lemma ric_timer_aborts_witness:
  "\<exists>c. pend_event (ric c) 9 = Some \<lparr>p_ev = SUBSCRIPTION_REQUEST_PENDING_EVENT, p_id = ex_id 1021\<rparr> \<and>
    e2_event_loop_ric ex_mal 20 c (TIMER 9) = None"
proof -
  obtain c where "ctrl_rep c ex_after" "a_inv ex_after" by (rule ex_subscribed)
  moreover have "(9, \<lparr>p_ev = SUBSCRIPTION_REQUEST_PENDING_EVENT, p_id = ex_id 1021\<rparr>) \<in># pend ex_after"
    by (simp add: ex_after_def new_req_def ex_actrl_def ex_kfd_def ex_xid_def ex_id_def renumbered_def)
  ultimately show ?thesis using ric_timer_aborts by blast
qed

text \<open>C37: a node that disconnects leaves its requests in the table; when the xApp then asks for the deletion of its
  subscription, the address of the node is not found and the controller ends.\<close>
lemma lost_node_delete_aborts:
  assumes R: "ctrl_rep c a" and I: "a_inv a"
    and nx: "(n, x) \<in># reqs a" "\<forall>(n', y) \<in># reqs a. x_ric_id y = x_ric_id x \<longrightarrow> y = x"
    and lost: "has_cu_du_id (e2_node_id n)" "\<forall>(m, t) \<in># nodes a. \<not> eq_node (e2_node_id n) m"
    and pe: "\<forall>(f, e) \<in># pend a. e \<noteq> \<lparr>p_ev = SUBSCRIPTION_DELETE_REQUEST_PENDING_EVENT, p_id = e_ric_id n\<rparr>"
  shows "e2_event_loop_iapp mal kfd c (MSG_ARRIVED info (e42_ric_sub_del_req
    \<lparr>e42_sdr_xapp_id = xapp_id x, e42_sdr = \<lparr>sdr_ric_id = x_ric_id x\<rparr>\<rparr>)) = None"
proof -
  have v: "\<forall>(m, t) \<in># nodes a. has_cu_du_id m"
  proof clarify
    fix m t assume "(m, t) \<in># nodes a"
    then show "has_cu_du_id m" using nodes_inv_addr(2)[OF R] I unfolding a_inv_def by blast
  qed
  have "eq_global_e2_node_id (e2_node_id n) m = Some False" if "(m, t) \<in># nodes a" for m t
    using that v lost eq_global_key[OF lost(1)] eq_node_key[OF lost(1)] by fastforce
  then have f: "find_map_e2_node_sad (ep_nodes (ric c)) (e2_node_id n) = None"
    by (intro node_table_find_none[OF ctrl_repD(3)[OF R]]) blast
  have ep: "ep_nodes r' = ep_nodes r" if "add_pending_event m2 k r e = Some r'" for m2 k r e r'
    using that by (auto simp: add_pending_event_def bind_eq_Some_conv)
  have q: "same_func (e_ric_id n) (x_ric_id x)" using I nx(1) unfolding a_inv_def reqs_inv_def by blast
  then have "(x_ric_id x)\<lparr>ric_req_id := ric_req_id (e_ric_id n)\<rparr> = e_ric_id n"
    by (cases "e_ric_id n") (simp add: same_func_def)
  moreover have "fwd_ric_subscription_request_delete m2 k (ric c) (e2_node_id n) \<lparr>sdr_ric_id = e_ric_id n\<rparr> = None" for m2 k
  proof (cases "add_pending_event m2 k (ric c) \<lparr>p_ev = SUBSCRIPTION_DELETE_REQUEST_PENDING_EVENT, p_id = e_ric_id n\<rparr>")
    case (Some r)
    then show ?thesis using pend_absent[OF ctrl_repD(5)[OF R] pe] f ep[OF Some]
      by (simp add: fwd_ric_subscription_request_delete_def e2ap_send_bytes_ric_def)
  qed (use pend_absent[OF ctrl_repD(5)[OF R] pe] in \<open>simp add: fwd_ric_subscription_request_delete_def\<close>)
  moreover have "find_ric_req_map_ric_id (ia_map_ric_id (iapp c)) \<lparr>x_ric_id = x_ric_id x, xapp_id = xapp_id x\<rparr> = Some n"
    using find_ric_req_rep[OF ctrl_repD(1)[OF R] nx] by (cases x) simp
  ultimately show ?thesis
    by (simp add: e2_event_loop_iapp_def iapp_sctp_msg_arrived_def e2ap_msg_handle_iapp_def
        e2ap_handle_e42_ric_subscription_delete_request_iapp_def cp_ric_subscription_delete_request_def Let_def)
qed

text \<open>The node of the example goes away while the subscription is open, the answer having come.\<close>
definition ex_lost :: actrl where
  "ex_lost = ex_after\<lparr>nodes := {#}, regs := [], conn := []\<rparr>"

lemma ex_lost: obtains c where "ctrl_rep c ex_lost" "a_inv ex_lost"
proof -
  obtain c where c: "ctrl_rep c ex_after" "a_inv ex_after" by (rule ex_subscribed)
  have p: "(ex_gnb 1, ex_addr 100) \<in># nodes ex_after" "cmp_sctp_info (ex_addr 100) (ex_addr 100) = 0"
    "regs ex_after = [] @ (ex_gnb 1, ex_pair) # []" "conn ex_after = [] @ \<lparr>en_id = ex_gnb 1, en_accepted = [2]\<rparr> # []"
    "en_id \<lparr>en_id = ex_gnb 1, en_accepted = [2]\<rparr> = ex_gnb 1"
    by (simp_all add: ex_after_def new_req_def ex_actrl_def)
  have l: "ex_after\<lparr>nodes := nodes ex_after - {#(ex_gnb 1, ex_addr 100)#}, regs := [] @ [], conn := [] @ []\<rparr> = ex_lost"
    by (simp add: ex_lost_def ex_after_def new_req_def ex_actrl_def)
  show thesis
    using that node_shutdown_refines[OF c p, of ex_mal 3] a_inv_step[OF astep.node_shutdown[OF p, of ex_kfd] c(2)]
    unfolding l by blast
qed

lemma lost_node_delete_aborts_witness:
  "\<exists>c. e2_event_loop_iapp ex_mal ex_kfd c (MSG_ARRIVED (ex_addr 200) (e42_ric_sub_del_req
    \<lparr>e42_sdr_xapp_id = 7, e42_sdr = \<lparr>sdr_ric_id = ex_id 5\<rparr>\<rparr>)) = None"
proof -
  obtain c where c: "ctrl_rep c ex_lost" "a_inv ex_lost" by (rule ex_lost)
  let ?n = "\<lparr>e2_node_id = ex_gnb 1, e_ric_id = ex_id 1021, ric_req_type = SUBSCRIPTION_RIC_REQUEST_TYPE\<rparr>"
  have "(?n, ex_xid) \<in># reqs ex_lost" "\<forall>(n', y) \<in># reqs ex_lost. x_ric_id y = x_ric_id ex_xid \<longrightarrow> y = ex_xid"
    "has_cu_du_id (e2_node_id ?n)" "\<forall>(m, t) \<in># nodes ex_lost. \<not> eq_node (e2_node_id ?n) m"
    "\<forall>(f, e) \<in># pend ex_lost. e \<noteq> \<lparr>p_ev = SUBSCRIPTION_DELETE_REQUEST_PENDING_EVENT, p_id = e_ric_id ?n\<rparr>"
    using ex_gnb_valid by (simp_all add: ex_lost_def ex_after_def new_req_def ex_actrl_def ex_xid_def ex_id_def renumbered_def)
  from lost_node_delete_aborts[OF c this, of ex_mal ex_kfd "ex_addr 200"] show ?thesis by (auto simp: ex_xid_def)
qed

text \<open>C38: the numbers of requests have 16 bits: when the counter of 32 bits reaches a multiple of 65536, the next
  subscription is sent to the node under the number 0, and the answer of the node ends the controller, since the
  look-up asserts a positive number.\<close>
lemma request_number_wraps:
  assumes "ucast (next_req_id (ric c)) = (0 :: uint16)" "ric_req_id (sr_ric_id sr) < 65536"
    and "fwd_ric_subscription_request mal fd (ric c) nid sr = Some (k, sr', r)"
  shows "k = 0 \<and> ric_req_id (sr_ric_id sr') = 0 \<and> (\<exists>t. nr_sent r = nr_sent (ric c) @ [(t, ric_sub_req sr')]) \<and>
    (\<forall>c'. e2ap_handle_subscription_response_iapp c' (granted (sr_ric_id sr')) = None)"
proof -
  have "set_low16 0 (ric_req_id (sr_ric_id sr)) = 0"
    using assms(2) by (simp add: set_low16_def word_less_nat_alt)
  then have z: "ric_req_id (with_req_id 0 (sr_ric_id sr)) = 0" by (simp add: with_req_id_def)
  have "nr_sent r' = nr_sent r2" if "add_pending_event m2 k r2 e = Some r'" for m2 k r2 e r'
    using that by (auto simp: add_pending_event_def bind_eq_Some_conv)
  then have k: "k = 0" "sr' = sr\<lparr>sr_ric_id := with_req_id 0 (sr_ric_id sr)\<rparr>"
    "\<exists>t. nr_sent r = nr_sent (ric c) @ [(t, ric_sub_req sr')]"
    using assms(1,3) by (fastforce simp: fwd_ric_subscription_request_def e2ap_send_bytes_ric_def
        e2ap_send_sctp_msg_ric_def Let_def bind_eq_Some_conv)+
  moreover have "find_xapp_map_ric_id m 0 = None" for m by (simp add: find_xapp_map_ric_id_def)
  ultimately show ?thesis using z
    by (simp add: e2ap_handle_subscription_response_iapp_def granted_def)
qed

text \<open>The counter of the example, after 64515 further requests.\<close>
lemma request_number_wraps_witness:
  "\<exists>sr r. fwd_ric_subscription_request (ex_mal 0) 9 ((ric ex_ctrl)\<lparr>next_req_id := 65536\<rparr>) (ex_gnb 1) (e42_sr ex_e42_sub) = Some (0, sr, r) \<and>
    (\<forall>c'. e2ap_handle_subscription_response_iapp c' (granted (sr_ric_id sr)) = None)"
proof -
  let ?c = "ex_ctrl\<lparr>ric := (ric ex_ctrl)\<lparr>next_req_id := 65536\<rparr>\<rparr>" and ?r = "(ric ex_ctrl)\<lparr>next_req_id := 65537\<rparr>"
  let ?e = "\<lparr>p_ev = SUBSCRIPTION_REQUEST_PENDING_EVENT, p_id = with_req_id 0 (ex_id 5)\<rparr>"
  have m: "(ex_gnb 1, ex_addr 100) \<in># nodes ex_actrl" by (simp add: ex_actrl_def)
  have a: "find_map_e2_node_sad (ep_nodes (ric ex_ctrl)) (ex_gnb 1) = Some (ex_addr 100)"
    using nodes_inv_addr(1)[OF ex_ctrl_rep _ m] ex_a_inv by (simp add: a_inv_def)
  have p: "pend_rep (pending ?r) {#}" using ctrl_repD(5)[OF ex_ctrl_rep] by (simp add: ex_actrl_def)
  have q: "fresh_for (pending ?r) (ex_mal 0 0) (ex_mal 0 1)" using ex_fresh by (simp add: fresh_mem_def)
  have "9 \<notin> io ?r" by (simp add: ex_ctrl_def)
  then obtain p where "add_pending_event (ex_mal 0) 9 ?r ?e = Some (?r\<lparr>io := insert 9 (io ?r), pending := p\<rparr>)"
    using add_pending_event_rep[OF p q, of 9 ?e] by auto
  moreover have "sr_ric_id (e42_sr ex_e42_sub) = ex_id 5" by (simp add: ex_e42_sub_def)
  moreover have "(65536 :: uint16) = 0" by code_simp
  ultimately obtain sr r where f: "fwd_ric_subscription_request (ex_mal 0) 9 (ric ?c) (ex_gnb 1) (e42_sr ex_e42_sub) = Some (0, sr, r)"
    using a by (simp add: fwd_ric_subscription_request_def e2ap_send_bytes_ric_def Let_def)
  have "ucast (next_req_id (ric ?c)) = (0 :: uint16)" "ric_req_id (sr_ric_id (e42_sr ex_e42_sub)) < 65536"
    by (simp_all add: ex_e42_sub_def ex_id_def)
  from request_number_wraps[OF this f] f show ?thesis by auto
qed

text \<open>C36: the answer to the setup of an xApp lists at most 255 nodes: its length has one byte, and with 256
  registered nodes or more the array that is filled is shorter than the registry, and the write beyond its end is reached.\<close>
lemma xapp_setup_lists_255:
  assumes "ctrl_rep c a" "ok_mal mal" "e42_ran_func_item req \<noteq> []"
  shows "generate_e42_setup_response mal (iapp c) req =
    (if length (regs a) < 256 then Some (\<lparr>stx_xapp_id = ucast (ia_xapp_id (iapp c)), stx_len_e2_nodes_conn = word_of_nat (length (regs a)),
       stx_nodes = map connected_node (regs a)\<rparr>, (iapp c)\<lparr>ia_xapp_id := ia_xapp_id (iapp c) + 1\<rparr>) else None)"
proof -
  obtain es where es: "reg_rep (ia_e2_nodes (iapp c)) es" "map snd es = regs a" using ctrl_repD(4)[OF assms(1)] by blast
  have "length es = length (regs a)" using es(2) by (metis length_map)
  then have "generate_e2_node_arr mal (ia_e2_nodes (iapp c)) = None" if "\<not> length (regs a) < 256"
    using generate_e2_node_arr_rep[OF es(1) assms(2)] that by simp
  then show ?thesis using registry_listing[OF assms(1,2)] assms(3) by (simp add: generate_e42_setup_response_def)
qed

lemma xapp_setup_lists_255_witness:
  "generate_e42_setup_response (\<lambda>j. 10 + j) (iapp ex_ctrl) \<lparr>e42_ran_func_item = pr_ran_func ex_pair\<rparr> =
    Some (\<lparr>stx_xapp_id = 8, stx_len_e2_nodes_conn = 1, stx_nodes = [connected_node (ex_gnb 1, ex_pair)]\<rparr>,
      (iapp ex_ctrl)\<lparr>ia_xapp_id := 9\<rparr>)"
proof -
  have "ok_mal (\<lambda>j. 10 + j)" by (simp add: ok_mal_def inj_def)
  moreover have "regs ex_actrl = [(ex_gnb 1, ex_pair)]" "ia_xapp_id (iapp ex_ctrl) = 8" by (simp_all add: ex_actrl_def ex_ctrl_def)
  ultimately show ?thesis using xapp_setup_lists_255[OF ex_ctrl_rep, of "\<lambda>j. 10 + j" "\<lparr>e42_ran_func_item = pr_ran_func ex_pair\<rparr>"]
    by (simp add: ex_pair_def)
qed

text \<open>An xApp that disconnects stays registered: the deletion of its subscriptions is asked for, but neither
  its address nor its requests leave the tables, so that messages for it are sent on to the old address.\<close>
lemma xapp_shutdown_keeps_address:
  assumes "e2_event_loop_iapp mal kfd c (CONNECTION_SHUTDOWN info) = Some c'"
  shows "iapp c' = iapp c \<and> send_to_xapp c' xid m = map_option (\<lambda>d. d\<lparr>ric := ric c'\<rparr>) (send_to_xapp c xid m)"
proof -
  have i: "iapp c' = iapp c" using assms
    by (auto simp: e2_event_loop_iapp_def iapp_connection_shutdown_def rm_if_pending_subs_def bind_eq_Some_conv)
  then show ?thesis by (cases "find_map_xapps_sad (ia_xapps (iapp c)) xid")
      (simp_all add: send_to_xapp_def e2ap_send_sctp_msg_iapp_def)
qed

lemma xapp_shutdown_keeps_address_witness:
  "\<exists>c. e2_event_loop_iapp ex_mal ex_kfd ex_ctrl (CONNECTION_SHUTDOWN (ex_addr 100)) = Some c \<and>
    send_to_xapp c 7 no_msg \<noteq> None"
proof -
  have x: "(7, ex_addr 100) \<in># xapps ex_actrl" by (simp add: ex_actrl_def)
  obtain arr where "find_all_subs_map_ric_id (ia_map_ric_id (iapp ex_ctrl)) 7 = Some arr" "mset arr = {#}"
    using ric_table_all_subs[OF ctrl_repD(1)[OF ex_ctrl_rep], of 7] by (auto simp: ex_actrl_def)
  then have e: "e2_event_loop_iapp ex_mal ex_kfd ex_ctrl (CONNECTION_SHUTDOWN (ex_addr 100)) = Some (ex_ctrl\<lparr>ric := ric ex_ctrl\<rparr>)"
    using find_map_xapps_xid_rep[OF ctrl_repD(2)[OF ex_ctrl_rep] x, of "ex_addr 100"]
    by (simp add: e2_event_loop_iapp_def iapp_connection_shutdown_def rm_if_pending_subs_def)
  from xapp_shutdown_keeps_address[OF this, of 7 no_msg] show ?thesis
    using e send_to_xapp_rep[OF ex_ctrl_rep x] by simp
qed

section \<open>Answers\<close>

text \<open>C35: only a setup is answered where it came from: what a handler of the iApp returns is the response to the setup of
  an xApp, with the number that the counter held and the counter one higher, or nothing, and for the messages
  of the nodes it leaves the controller as it is; so the
  assertion that a message passed on by the controller gives no answer never fails.\<close>
lemma handlers_answer_setups_only:
  assumes "e2ap_msg_handle_iapp mal fd c msg = Some (ans, c')"
  shows "(case msg of e42_stp_req q \<Rightarrow> \<exists>r. ans = e42_stp_resp r \<and> stx_xapp_id r = ucast (ia_xapp_id (iapp c)) \<and>
        c' = c\<lparr>iapp := (iapp c)\<lparr>ia_xapp_id := ia_xapp_id (iapp c) + 1\<rparr>\<rparr>
      | e42_ric_sub_req _ \<Rightarrow> ans = no_msg \<and> ia_xapps (iapp c') = ia_xapps (iapp c)
      | e42_ric_ctrl_req _ \<Rightarrow> ans = no_msg \<and> ia_xapps (iapp c') = ia_xapps (iapp c)
      | e42_ric_sub_del_req _ \<Rightarrow> ans = no_msg \<and> iapp c' = iapp c
      | _ \<Rightarrow> ans = no_msg \<and> ric c' = ric c \<and> notify_msg_iapp mal fd c msg = Some c')"
proof -
  have n: "notify_msg_iapp mal fd c msg = Some c'" if "ans = no_msg" "case msg of ric_ind _ \<Rightarrow> True | ric_sub_resp _ \<Rightarrow> True
      | ric_sub_del_resp _ \<Rightarrow> True | ric_ctrl_ack _ \<Rightarrow> True | _ \<Rightarrow> False"
    using assms that by (simp add: notify_msg_iapp_def)
  have s: "send_to_xapp c xid m = Some d \<Longrightarrow> ric d = ric c" for d xid m
    by (auto simp: send_to_xapp_def e2ap_send_sctp_msg_iapp_def bind_eq_Some_conv)
  show ?thesis
  proof (cases msg)
    case (ric_sub_resp m)
    then have "ans = no_msg \<and> ric c' = ric c" using assms
      by (auto simp: e2ap_msg_handle_iapp_def Let_def bind_eq_Some_conv e2ap_handle_subscription_response_iapp_def dest!: s)
    then show ?thesis using n ric_sub_resp by simp
  next
    case (ric_sub_del_resp m)
    then have "ans = no_msg \<and> ric c' = ric c" using assms
      by (auto simp: e2ap_msg_handle_iapp_def Let_def bind_eq_Some_conv e2ap_handle_subscription_delete_response_iapp_def
          split: option.splits dest!: s)
    then show ?thesis using n ric_sub_del_resp by simp
  next
    case (ric_ind m)
    then have "ans = no_msg \<and> ric c' = ric c" using assms
      by (auto simp: e2ap_msg_handle_iapp_def Let_def bind_eq_Some_conv e2ap_handle_ric_indication_iapp_def
          split: option.splits dest!: s)
    then show ?thesis using n ric_ind by simp
  next
    case (ric_ctrl_ack m)
    then have "ans = no_msg \<and> ric c' = ric c" using assms
      by (auto simp: e2ap_msg_handle_iapp_def Let_def bind_eq_Some_conv e2ap_handle_e42_ric_control_ack_iapp_def dest!: s)
    then show ?thesis using n ric_ctrl_ack by simp
  next
    case (e42_stp_req m)
    then show ?thesis using assms by (auto simp: e2ap_msg_handle_iapp_def bind_eq_Some_conv
        e2ap_handle_e42_setup_request_iapp_def generate_e42_setup_response_def)
  next
    case (e42_ric_sub_req m)
    then show ?thesis using assms by (auto simp: e2ap_msg_handle_iapp_def bind_eq_Some_conv Let_def
        e2ap_handle_e42_ric_subscription_request_iapp_def)
  next
    case (e42_ric_ctrl_req m)
    then show ?thesis using assms by (auto simp: e2ap_msg_handle_iapp_def bind_eq_Some_conv Let_def
        e2ap_handle_e42_ric_control_request_iapp_def)
  next
    case (e42_ric_sub_del_req m)
    then show ?thesis using assms by (auto simp: e2ap_msg_handle_iapp_def bind_eq_Some_conv Let_def
        e2ap_handle_e42_ric_subscription_delete_request_iapp_def)
  qed (use assms in \<open>simp_all add: e2ap_msg_handle_iapp_def\<close>)
qed

lemma handlers_answer_setups_only_witness:
  "\<exists>r. e2ap_msg_handle_iapp ex_mal 9 ex_ctrl (e42_stp_req \<lparr>e42_ran_func_item = pr_ran_func ex_pair\<rparr>) =
    Some (e42_stp_resp r, ex_ctrl\<lparr>iapp := (iapp ex_ctrl)\<lparr>ia_xapp_id := 9\<rparr>\<rparr>) \<and> stx_xapp_id r = 8"
proof -
  have "ok_mal (ex_mal 0)" "length (regs ex_actrl) < 256" by (simp_all add: ex_mal_def ok_mal_def inj_def ex_actrl_def)
  from registry_listing[OF ex_ctrl_rep this] obtain q d where
    e: "e2ap_msg_handle_iapp ex_mal 9 ex_ctrl (e42_stp_req \<lparr>e42_ran_func_item = pr_ran_func ex_pair\<rparr>) = Some (q, d)"
    by (simp add: e2ap_msg_handle_iapp_def e2ap_handle_e42_setup_request_iapp_def generate_e42_setup_response_def ex_pair_def)
  have "ia_xapp_id (iapp ex_ctrl) = 8" by (simp add: ex_ctrl_def)
  with handlers_answer_setups_only[OF e] e show ?thesis by auto
qed

end
