(* ===== verification/Assoc_Reg.thy ===== *)
theory Assoc_Reg
  imports Prelude
begin

text \<open>
  The registry of src/util/alg_ds/ds/assoc_container/assoc_reg.c with its searches in
  src/util/alg_ds/alg/lower_bound.c, find.c and for_each.c: an array of buckets ordered by a key
  that only grows, compacted, shrunk and enlarged as needed.

  A bucket has a key, a flag and a value; the value of zeroed memory is \<open>None\<close>.  Iterators
  are the places of the buckets in the array.  Sizes are natural numbers, and the decrement of the size wraps at 64 bits.
\<close>

section \<open>State\<close>

record 'v registry_bucket =
  b_key :: "32 word"
  b_has_value :: bool
  b_val :: "'v option"

record 'v assoc_reg =
  rg_arr :: "'v registry_bucket list"
  rg_sz :: nat
  rg_cap :: nat
  rg_occ :: nat
  rg_elm_sz :: nat
  rg_key_id :: nat

definition reg_MIN_SIZE :: nat where
  "reg_MIN_SIZE = 16"

definition zero_bucket :: "'v registry_bucket" where
  "zero_bucket = \<lparr>b_key = 0, b_has_value = False, b_val = None\<rparr>"

definition size_dec :: "nat \<Rightarrow> nat" where
  "size_dec n = (if n = 0 then 2 ^ 64 - 1 else n - 1)"

section \<open>Helpers\<close>

definition bucket_at :: "'v assoc_reg \<Rightarrow> nat \<Rightarrow> 'v registry_bucket option" where
  "bucket_at reg it = (if it < length (rg_arr reg) then Some (rg_arr reg ! it) else None)"

definition iterator_in_ds :: "'v assoc_reg \<Rightarrow> nat \<Rightarrow> bool" where
  "iterator_in_ds reg it \<longleftrightarrow> it < rg_occ reg"

text \<open>The loop of \<open>copy_if\<close> from the place \<open>i\<close>, the output at \<open>i_out\<close>.\<close>
function copy_if :: "('b \<Rightarrow> bool) \<Rightarrow> 'b list \<Rightarrow> nat \<Rightarrow> nat \<Rightarrow> 'b list \<Rightarrow> nat \<Rightarrow> ('b list \<times> nat) option" where
  "copy_if fp arr i n_memb out i_out =
     (if i < n_memb
      then do {
        c_assert (i < length arr);
        if fp (arr ! i)
        then do {
          c_assert (i_out < length out);
          copy_if fp arr (i + 1) n_memb (out[i_out := arr ! i]) (i_out + 1)
        }
        else copy_if fp arr (i + 1) n_memb out i_out
      }
      else Some (out, i_out))"
  by pat_completeness auto
termination by (relation "measure (\<lambda>(fp, arr, i, n, out, k). n - i)") auto

declare copy_if.simps [simp del]

text \<open>The loop of \<open>partition\<close>.\<close>
function reg_partition :: "('b \<Rightarrow> bool) \<Rightarrow> 'b list \<Rightarrow> nat \<Rightarrow> nat \<Rightarrow> nat \<Rightarrow> ('b list \<times> nat) option" where
  "reg_partition fp arr i j n_memb =
     (if i < n_memb
      then do {
        c_assert (i < length arr);
        if fp (arr ! i) then reg_partition fp (arr[j := arr ! i]) (i + 1) (j + 1) n_memb
        else reg_partition fp arr (i + 1) j n_memb
      }
      else Some (arr, j))"
  by pat_completeness auto
termination by (relation "measure (\<lambda>(fp, arr, i, j, n). n - i)") auto

declare reg_partition.simps [simp del]

definition zero_from :: "'v registry_bucket list \<Rightarrow> nat \<Rightarrow> nat \<Rightarrow> 'v registry_bucket list" where
  "zero_from arr idx cap = take idx arr @ replicate (cap - idx) zero_bucket"

definition shrink_if_necessary :: "'v assoc_reg \<Rightarrow> 'v assoc_reg option" where
  "shrink_if_necessary reg =
     (if rg_cap reg = reg_MIN_SIZE \<or> rg_sz reg * 4 > rg_cap reg then Some reg
      else do {
        (arr, idx) \<leftarrow> reg_partition b_has_value (rg_arr reg) 0 0 (rg_occ reg);
        c_assert (idx \<le> rg_occ reg);
        let arr = zero_from arr idx (rg_cap reg);
        let tmp = replicate (rg_cap reg div 2) zero_bucket;
        c_assert (idx \<le> length tmp);
        let tmp = take idx arr @ drop idx tmp;
        Some (reg\<lparr>rg_arr := tmp, rg_occ := idx, rg_cap := rg_cap reg div 2\<rparr>)
      })"

definition compact_if_necessary :: "'v assoc_reg \<Rightarrow> 'v assoc_reg option" where
  "compact_if_necessary reg =
     (if rg_sz reg * 2 > rg_occ reg then Some reg
      else do {
        (arr, idx) \<leftarrow> reg_partition b_has_value (rg_arr reg) 0 0 (rg_occ reg);
        c_assert (idx \<le> rg_occ reg);
        Some (reg\<lparr>rg_arr := zero_from arr idx (rg_cap reg), rg_occ := idx\<rparr>)
      })"

definition expand_if_neccesary :: "'v assoc_reg \<Rightarrow> 'v assoc_reg option" where
  "expand_if_neccesary reg =
     (if int (rg_occ reg) < int (rg_cap reg) - 1 then Some reg
      else do {
        let tmp = replicate (rg_cap reg * 2) zero_bucket;
        (arr, idx) \<leftarrow> copy_if b_has_value (rg_arr reg) 0 (rg_occ reg) tmp 0;
        Some (reg\<lparr>rg_arr := arr, rg_occ := idx, rg_cap := rg_cap reg * 2\<rparr>)
      })"

section \<open>Operations\<close>

definition assoc_reg_init :: "nat \<Rightarrow> 'v assoc_reg" where
  "assoc_reg_init elm_sz = \<lparr>rg_arr = replicate reg_MIN_SIZE zero_bucket, rg_sz = 0, rg_cap = reg_MIN_SIZE, rg_occ = 0,
     rg_elm_sz = elm_sz, rg_key_id = 1\<rparr>"

text \<open>Only the array is released, not what the values hold.\<close>
definition assoc_reg_free :: "'v assoc_reg \<Rightarrow> 'v assoc_reg" where
  "assoc_reg_free reg = reg\<lparr>rg_arr := []\<rparr>"

text \<open>Returns the key that the value is given.\<close>
definition assoc_reg_push_back :: "'v assoc_reg \<Rightarrow> 'v \<Rightarrow> nat \<Rightarrow> (32 word \<times> 'v assoc_reg) option" where
  "assoc_reg_push_back reg value elm_sz = do {
     c_assert (elm_sz = rg_elm_sz reg);
     reg \<leftarrow> expand_if_neccesary reg;
     c_assert (rg_occ reg < length (rg_arr reg));
     let key = word_of_nat (rg_key_id reg);
     let arr = (rg_arr reg)[rg_occ reg := \<lparr>b_key = key, b_has_value = True, b_val = Some value\<rparr>];
     c_assert (rg_key_id reg \<noteq> 2 ^ 64 - 1);
     Some (key, reg\<lparr>rg_arr := arr, rg_key_id := rg_key_id reg + 1, rg_occ := rg_occ reg + 1, rg_sz := rg_sz reg + 1\<rparr>)
   }"

definition assoc_reg_key :: "'v assoc_reg \<Rightarrow> nat \<Rightarrow> 32 word option" where
  "assoc_reg_key reg it = do {
     c_assert (iterator_in_ds reg it);
     b \<leftarrow> bucket_at reg it;
     c_assert (b_has_value b);
     Some (b_key b)
   }"

definition assoc_reg_value :: "'v assoc_reg \<Rightarrow> nat \<Rightarrow> 'v option" where
  "assoc_reg_value reg it = do {
     c_assert (iterator_in_ds reg it);
     b \<leftarrow> bucket_at reg it;
     c_assert (b_has_value b);
     b_val b
   }"

definition assoc_reg_size :: "'v assoc_reg \<Rightarrow> nat" where
  "assoc_reg_size reg = rg_sz reg"

definition assoc_reg_end :: "'v assoc_reg \<Rightarrow> nat" where
  "assoc_reg_end reg = rg_occ reg"

text \<open>The loop of \<open>assoc_reg_front\<close>.\<close>
function reg_front_loop :: "'v assoc_reg \<Rightarrow> nat \<Rightarrow> nat option" where
  "reg_front_loop reg idx = do {
     b \<leftarrow> bucket_at reg idx;
     if b_has_value b then Some idx
     else if idx + 1 < rg_occ reg then reg_front_loop reg (idx + 1)
     else do { c_assert (idx + 1 = rg_occ reg); Some (rg_occ reg) }
   }"
  by pat_completeness auto
termination by (relation "measure (\<lambda>(reg, idx). rg_occ reg - idx)") auto

declare reg_front_loop.simps [simp del]

definition assoc_reg_front :: "'v assoc_reg \<Rightarrow> nat option" where
  "assoc_reg_front reg = (if rg_occ reg = 0 then Some 0 else reg_front_loop reg 0)"

text \<open>The loop of \<open>assoc_reg_next\<close>: \<open>idx\<close> starts at zero with \<open>b\<close> one place ahead, so that this place is looked at twice.\<close>
function reg_next_loop :: "'v assoc_reg \<Rightarrow> nat \<Rightarrow> nat \<Rightarrow> nat \<Rightarrow> nat option" where
  "reg_next_loop reg it idx b =
     (if b = rg_occ reg then Some b
      else do {
        x \<leftarrow> bucket_at reg b;
        if b_has_value x then Some b
        else reg_next_loop reg it (idx + 1) (it + (idx + 1))
      })"
  by pat_completeness auto
termination
  by (relation "measure (\<lambda>(reg, it, idx, b). if b < length (rg_arr reg) then Suc (Suc (length (rg_arr reg)) - (it + idx)) else 0)")
    (auto simp: bucket_at_def split: if_splits)

declare reg_next_loop.simps [simp del]

definition assoc_reg_next :: "'v assoc_reg \<Rightarrow> nat \<Rightarrow> nat option" where
  "assoc_reg_next reg it = do {
     b \<leftarrow> bucket_at reg it;
     c_assert (b_has_value b);
     c_assert (iterator_in_ds reg it);
     reg_next_loop reg it 0 (it + 1)
   }"

text \<open>The next place lies behind.\<close>
lemma reg_next_loop_gt: "reg_next_loop reg it idx b = Some k \<Longrightarrow> it < b \<Longrightarrow> it < k"
proof (induction reg it idx b rule: reg_next_loop.induct)
  case (1 reg it idx b)
  show ?case
  proof (cases "b = rg_occ reg")
    case False
    then obtain x where x: "bucket_at reg b = Some x"
      using 1(2) by (subst (asm) reg_next_loop.simps) (auto simp: bind_Some_conv)
    show ?thesis
    proof (cases "b_has_value x")
      case True
      then show ?thesis using 1(2,3) False x by (subst (asm) reg_next_loop.simps) simp
    next
      case f: False
      then have "reg_next_loop reg it (idx + 1) (it + (idx + 1)) = Some k" using 1(2) False x by (subst (asm) reg_next_loop.simps) simp
      then show ?thesis using 1(1)[OF False x f] by simp
    qed
  qed (use 1(2,3) in \<open>simp add: reg_next_loop.simps\<close>)
qed

lemma assoc_reg_next_gt: "assoc_reg_next reg it = Some k \<Longrightarrow> it < k \<and> it < length (rg_arr reg)"
  by (auto simp: assoc_reg_next_def monad_simps bucket_at_def dest!: reg_next_loop_gt split: if_splits)

text \<open>The loop of \<open>assoc_reg_erase\<close>; the values that are handed to the free function are returned.\<close>
function reg_erase_loop :: "'v assoc_reg \<Rightarrow> nat \<Rightarrow> nat \<Rightarrow> ('v option list \<times> 'v assoc_reg) option" where
  "reg_erase_loop reg start_it end_it =
     (if start_it = end_it then Some ([], reg)
      else case assoc_reg_next reg start_it of None \<Rightarrow> None
        | Some nxt \<Rightarrow> do {
            let b = rg_arr reg ! start_it;
            (freed, reg) \<leftarrow> reg_erase_loop (reg\<lparr>rg_arr := (rg_arr reg)[start_it := b\<lparr>b_has_value := False\<rparr>], rg_sz := size_dec (rg_sz reg)\<rparr>) nxt end_it;
            Some (b_val b # freed, reg)
          })"
  by pat_completeness auto
termination
  by (relation "measure (\<lambda>(reg, s, e). length (rg_arr reg) - s)") (auto dest!: assoc_reg_next_gt)

declare reg_erase_loop.simps [simp del]

definition assoc_reg_erase :: "'v assoc_reg \<Rightarrow> nat \<Rightarrow> nat \<Rightarrow> ('v option list \<times> 'v assoc_reg) option" where
  "assoc_reg_erase reg start_it end_it =
     (if start_it = end_it then Some ([], reg)
      else do {
        c_assert (iterator_in_ds reg start_it);
        (freed, reg) \<leftarrow> reg_erase_loop reg start_it end_it;
        reg \<leftarrow> compact_if_necessary reg;
        reg \<leftarrow> shrink_if_necessary reg;
        Some (freed, reg)
      })"

text \<open>Removes the values that satisfy \<open>f\<close> and returns their keys.\<close>
function remove_if_loop :: "('v \<Rightarrow> bool) \<Rightarrow> 'v assoc_reg \<Rightarrow> nat \<Rightarrow> (32 word list \<times> 'v assoc_reg) option" where
  "remove_if_loop f reg i =
     (if i < rg_occ reg
      then do {
        b \<leftarrow> bucket_at reg i;
        del \<leftarrow> (if b_has_value b then do { v \<leftarrow> b_val b; Some (f v) } else Some False);
        if del
        then do {
          (keys, reg) \<leftarrow> remove_if_loop f (reg\<lparr>rg_sz := size_dec (rg_sz reg), rg_arr := (rg_arr reg)[i := b\<lparr>b_has_value := False\<rparr>]\<rparr>) (i + 1);
          Some (b_key b # keys, reg)
        }
        else remove_if_loop f reg (i + 1)
      }
      else Some ([], reg))"
  by pat_completeness auto
termination by (relation "measure (\<lambda>(f, reg, i). rg_occ reg - i)") auto

declare remove_if_loop.simps [simp del]

definition remove_if_range_reg :: "'v assoc_reg \<Rightarrow> ('v \<Rightarrow> bool) \<Rightarrow> (32 word list \<times> 'v assoc_reg) option" where
  "remove_if_range_reg reg f = do {
     (keys, reg) \<leftarrow> remove_if_loop f reg 0;
     reg \<leftarrow> compact_if_necessary reg;
     reg \<leftarrow> shrink_if_necessary reg;
     Some (keys, reg)
   }"

text \<open>The checks of the test function: the keys grow, and the size counts the values.\<close>
fun invariants_loop :: "'v registry_bucket list \<Rightarrow> int \<Rightarrow> 32 word \<Rightarrow> 32 word option" where
  "invariants_loop [] last_key counter = Some counter"
| "invariants_loop (b # bs) last_key counter = do {
     let counter = (if b_has_value b then counter + 1 else counter);
     c_assert (int (unat (b_key b)) > last_key);
     invariants_loop bs (int (unat (b_key b))) counter
   }"

definition test_invariants_registry_hold :: "'v assoc_reg \<Rightarrow> unit option" where
  "test_invariants_registry_hold reg = do {
     c_assert (rg_cap reg \<ge> rg_occ reg);
     c_assert (rg_cap reg \<ge> rg_sz reg);
     c_assert (rg_occ reg \<le> length (rg_arr reg));
     counter \<leftarrow> invariants_loop (take (rg_occ reg) (rg_arr reg)) (- 1) 0;
     c_assert (unat counter = rg_sz reg)
   }"

section \<open>Searches\<close>

text \<open>The loop of the binary search; \<open>len\<close> is an int.\<close>
function lower_bound_loop :: "'v assoc_reg \<Rightarrow> nat \<Rightarrow> 32 word \<Rightarrow> nat \<Rightarrow> int \<Rightarrow> nat option" where
  "lower_bound_loop reg start_it key lower len =
     (if len > 0
      then do {
        let half = len div 2;
        let idx = lower + nat half;
        b \<leftarrow> bucket_at reg (start_it + idx);
        if b_key b < key then lower_bound_loop reg start_it key (idx + 1) (len - half - 1)
        else lower_bound_loop reg start_it key lower half
      }
      else Some lower)"
  by pat_completeness auto
termination by (relation "measure (\<lambda>(reg, s, k, l, len). nat len)") auto

declare lower_bound_loop.simps [simp del]

definition lower_bound_reg :: "'v assoc_reg \<Rightarrow> nat \<Rightarrow> nat \<Rightarrow> 32 word \<Rightarrow> nat option" where
  "lower_bound_reg reg start_it end_it key =
     (if start_it = end_it then Some end_it
      else do {
        let sz = nat (c_size (int end_it - int start_it));
        c_assert (sz < rg_cap reg);
        lower \<leftarrow> lower_bound_loop reg start_it key 0 (c_int (int sz));
        Some (start_it + lower)
      })"

definition find_reg :: "'v assoc_reg \<Rightarrow> nat \<Rightarrow> nat \<Rightarrow> 32 word \<Rightarrow> nat option" where
  "find_reg reg start_it end_it key = do {
     c_assert (key > 0);
     if start_it = end_it then Some end_it
     else do {
       it \<leftarrow> lower_bound_reg reg start_it end_it key;
       c_assert (it \<le> end_it);
       if it = end_it then Some end_it
       else do {
         b \<leftarrow> bucket_at reg it;
         if \<not> b_has_value b \<or> b_key b \<noteq> key then Some end_it else Some it
       }
     }
   }"

text \<open>The places of the buckets that the function is called with.\<close>
function for_each_loop :: "'v assoc_reg \<Rightarrow> nat \<Rightarrow> nat \<Rightarrow> nat list option" where
  "for_each_loop reg start_it end_it =
     (if start_it = end_it then Some []
      else case bucket_at reg start_it of None \<Rightarrow> None
        | Some b \<Rightarrow> do {
            its \<leftarrow> for_each_loop reg (start_it + 1) end_it;
            Some (if b_has_value b then start_it # its else its)
          })"
  by pat_completeness auto
termination by (relation "measure (\<lambda>(reg, s, e). length (rg_arr reg) - s)") (auto simp: bucket_at_def split: if_splits)

declare for_each_loop.simps [simp del]

definition for_each_reg :: "'v assoc_reg \<Rightarrow> nat \<Rightarrow> nat \<Rightarrow> nat list option" where
  "for_each_reg reg start_it end_it = do {
     c_assert (start_it < rg_cap reg);
     for_each_loop reg start_it end_it
   }"

end
