(* ===== verification/Assoc_Reg_Facts.thy ===== *)
theory Assoc_Reg_Facts
  imports Assoc_Reg
begin

text \<open>
  The registry as the list of its keys and values: the array invariant, and what each operation does to
  the list.
\<close>

section \<open>Contents and invariant\<close>

definition occupied :: "'v assoc_reg \<Rightarrow> 'v registry_bucket list" where
  "occupied reg = take (rg_occ reg) (rg_arr reg)"

definition contents_of :: "'v registry_bucket list \<Rightarrow> (32 word \<times> 'v) list" where
  "contents_of bs = map (\<lambda>b. (b_key b, the (b_val b))) (filter b_has_value bs)"

definition contents :: "'v assoc_reg \<Rightarrow> (32 word \<times> 'v) list" where
  "contents reg = contents_of (occupied reg)"

definition key_less :: "'v registry_bucket \<Rightarrow> 'v registry_bucket \<Rightarrow> bool" where
  "key_less a b \<longleftrightarrow> b_key a < b_key b"

definition buckets_ok :: "nat \<Rightarrow> 'v registry_bucket list \<Rightarrow> bool" where
  "buckets_ok n bs \<longleftrightarrow> sorted_wrt key_less bs \<and>
     (\<forall>b \<in> set bs. 0 < b_key b \<and> unat (b_key b) < n \<and> (b_has_value b \<longrightarrow> b_val b \<noteq> None))"

definition reg_inv :: "'v assoc_reg \<Rightarrow> bool" where
  "reg_inv reg \<longleftrightarrow> length (rg_arr reg) = rg_cap reg \<and> (\<exists>k. rg_cap reg = 16 * 2 ^ k) \<and> rg_occ reg < rg_cap reg \<and>
     rg_occ reg < rg_key_id reg \<and> rg_sz reg = length (contents reg) \<and> buckets_ok (rg_key_id reg) (occupied reg)"

lemma contents_of_simps [simp]: "contents_of [] = []" "contents_of (as @ bs) = contents_of as @ contents_of bs"
  "contents_of (b # bs) = (if b_has_value b then (b_key b, the (b_val b)) # contents_of bs else contents_of bs)"
  by (simp_all add: contents_of_def)

lemma contents_of_filter [simp]: "contents_of (filter b_has_value bs) = contents_of bs"
  by (induction bs) simp_all

lemma length_contents_of: "length (contents_of bs) = length (filter b_has_value bs)"
  by (simp add: contents_of_def)

lemma buckets_ok_filter: "buckets_ok n bs \<Longrightarrow> buckets_ok n (filter P bs)"
  by (simp add: buckets_ok_def sorted_wrt_filter)

lemma buckets_ok_append: "buckets_ok n (as @ bs) \<longleftrightarrow> buckets_ok n as \<and> buckets_ok n bs \<and> (\<forall>a \<in> set as. \<forall>b \<in> set bs. b_key a < b_key b)"
  by (auto simp: buckets_ok_def sorted_wrt_append key_less_def)

lemma buckets_ok_less: "buckets_ok n bs \<Longrightarrow> i < j \<Longrightarrow> j < length bs \<Longrightarrow> b_key (bs ! i) < b_key (bs ! j)"
  unfolding buckets_ok_def key_less_def using sorted_wrt_nth_less by blast

section \<open>The loops that move buckets\<close>

lemma reg_partition_spec:
  assumes "j \<le> i" "i \<le> n" "n \<le> length arr"
  shows "\<exists>arr'. reg_partition fp arr i j n = Some (arr', j + length (filter fp (drop i (take n arr)))) \<and> length arr' = length arr \<and>
    take (j + length (filter fp (drop i (take n arr)))) arr' = take j arr @ filter fp (drop i (take n arr))"
  using assms
proof (induction "n - i" arbitrary: i j arr)
  case 0
  then show ?case by (simp add: reg_partition.simps)
next
  case (Suc k)
  then have i: "i < n" "i < length arr" by simp_all
  have d: "drop i (take n arr) = arr ! i # drop (Suc i) (take n arr)" using i by (simp add: Cons_nth_drop_Suc[symmetric])
  show ?case
  proof (cases "fp (arr ! i)")
    case True
    let ?a = "arr[j := arr ! i]"
    have e: "drop (Suc i) (take n ?a) = drop (Suc i) (take n arr)" using Suc.prems(1) by (simp add: take_update_swap drop_update_cancel)
    have t: "take (Suc j) ?a = take j arr @ [arr ! i]" using Suc.prems i by (simp add: take_Suc_conv_app_nth)
    have "\<exists>arr'. reg_partition fp ?a (Suc i) (Suc j) n = Some (arr', Suc j + length (filter fp (drop (Suc i) (take n ?a)))) \<and> length arr' = length ?a \<and>
      take (Suc j + length (filter fp (drop (Suc i) (take n ?a)))) arr' = take (Suc j) ?a @ filter fp (drop (Suc i) (take n ?a))"
      by (rule Suc.hyps(1)) (use Suc i in simp_all)
    then show ?thesis unfolding e t using True i d by (subst reg_partition.simps) simp
  next
    case False
    have "\<exists>arr'. reg_partition fp arr (Suc i) j n = Some (arr', j + length (filter fp (drop (Suc i) (take n arr)))) \<and> length arr' = length arr \<and>
      take (j + length (filter fp (drop (Suc i) (take n arr)))) arr' = take j arr @ filter fp (drop (Suc i) (take n arr))"
      by (rule Suc.hyps(1)) (use Suc i in simp_all)
    then show ?thesis using False i d by (subst reg_partition.simps) simp
  qed
qed

lemma copy_if_spec:
  assumes "i \<le> n" "n \<le> length arr" "k + (n - i) \<le> length out"
  shows "\<exists>out'. copy_if fp arr i n out k = Some (out', k + length (filter fp (drop i (take n arr)))) \<and> length out' = length out \<and>
    take (k + length (filter fp (drop i (take n arr)))) out' = take k out @ filter fp (drop i (take n arr))"
  using assms
proof (induction "n - i" arbitrary: i k out)
  case 0
  then show ?case by (simp add: copy_if.simps)
next
  case (Suc m)
  then have i: "i < n" "i < length arr" "k < length out" by simp_all
  have d: "drop i (take n arr) = arr ! i # drop (Suc i) (take n arr)" using i by (simp add: Cons_nth_drop_Suc[symmetric])
  show ?case
  proof (cases "fp (arr ! i)")
    case True
    let ?o = "out[k := arr ! i]"
    have t: "take (Suc k) ?o = take k out @ [arr ! i]" using i by (simp add: take_Suc_conv_app_nth)
    have "\<exists>out'. copy_if fp arr (Suc i) n ?o (Suc k) = Some (out', Suc k + length (filter fp (drop (Suc i) (take n arr)))) \<and> length out' = length ?o \<and>
      take (Suc k + length (filter fp (drop (Suc i) (take n arr)))) out' = take (Suc k) ?o @ filter fp (drop (Suc i) (take n arr))"
      by (rule Suc.hyps(1)) (use Suc i in simp_all)
    then show ?thesis unfolding t using True i d by (subst copy_if.simps) simp
  next
    case False
    have "\<exists>out'. copy_if fp arr (Suc i) n out k = Some (out', k + length (filter fp (drop (Suc i) (take n arr)))) \<and> length out' = length out \<and>
      take (k + length (filter fp (drop (Suc i) (take n arr)))) out' = take k out @ filter fp (drop (Suc i) (take n arr))"
      by (rule Suc.hyps(1)) (use Suc i in simp_all)
    then show ?thesis using False i d by (subst copy_if.simps) simp
  qed
qed

section \<open>Compacting, shrinking and enlarging\<close>

text \<open>Any array that starts with the buckets that have values represents the same contents.\<close>
lemma reg_inv_moved:
  assumes "reg_inv reg" "take idx arr = filter b_has_value (occupied reg)" "idx = length (filter b_has_value (occupied reg))"
    "length arr = cap" "\<exists>k. cap = 16 * 2 ^ k" "idx < cap"
  shows "reg_inv (reg\<lparr>rg_arr := arr, rg_occ := idx, rg_cap := cap\<rparr>) \<and> contents (reg\<lparr>rg_arr := arr, rg_occ := idx, rg_cap := cap\<rparr>) = contents reg"
proof -
  have "idx \<le> rg_occ reg" using assms(3) length_filter_le[of b_has_value "occupied reg"] by (simp add: occupied_def)
  then have "idx < rg_key_id reg" using assms(1) by (simp add: reg_inv_def)
  then show ?thesis using assms buckets_ok_filter[of "rg_key_id reg" "occupied reg" b_has_value]
    by (simp add: reg_inv_def contents_def occupied_def)
qed

lemma occupied_partition:
  assumes "reg_inv reg"
  obtains arr where "reg_partition b_has_value (rg_arr reg) 0 0 (rg_occ reg) = Some (arr, length (filter b_has_value (occupied reg)))"
    "length arr = rg_cap reg" "take (length (filter b_has_value (occupied reg))) arr = filter b_has_value (occupied reg)"
    "length (filter b_has_value (occupied reg)) \<le> rg_occ reg" "length (filter b_has_value (occupied reg)) = rg_sz reg"
proof -
  have l: "rg_occ reg \<le> length (rg_arr reg)" "length (rg_arr reg) = rg_cap reg" "length (filter b_has_value (occupied reg)) = rg_sz reg"
    using assms by (simp_all add: reg_inv_def contents_def length_contents_of)
  have "length (filter b_has_value (occupied reg)) \<le> rg_occ reg"
    using length_filter_le[of b_has_value "occupied reg"] l(1) by (simp add: occupied_def)
  then show thesis using that reg_partition_spec[of 0 0 "rg_occ reg" "rg_arr reg" b_has_value] l by (auto simp: occupied_def)
qed

lemma compact_spec:
  assumes "reg_inv reg"
  obtains reg' where "compact_if_necessary reg = Some reg'" "reg_inv reg'" "contents reg' = contents reg"
    "rg_key_id reg' = rg_key_id reg" "rg_elm_sz reg' = rg_elm_sz reg"
proof (cases "rg_sz reg * 2 > rg_occ reg")
  case True
  then show thesis using that[of reg] assms by (simp add: compact_if_necessary_def)
next
  case False
  obtain arr where a: "reg_partition b_has_value (rg_arr reg) 0 0 (rg_occ reg) = Some (arr, rg_sz reg)"
    "length arr = rg_cap reg" "take (rg_sz reg) arr = filter b_has_value (occupied reg)" "rg_sz reg \<le> rg_occ reg"
    "length (filter b_has_value (occupied reg)) = rg_sz reg"
    using occupied_partition[OF assms] by metis
  have i: "rg_occ reg < rg_cap reg" "\<exists>k. rg_cap reg = 16 * 2 ^ k" using assms by (simp_all add: reg_inv_def)
  let ?r = "reg\<lparr>rg_arr := zero_from arr (rg_sz reg) (rg_cap reg), rg_occ := rg_sz reg\<rparr>"
  have e: "?r\<lparr>rg_cap := rg_cap reg\<rparr> = ?r" by simp
  have "reg_inv (?r\<lparr>rg_cap := rg_cap reg\<rparr>) \<and> contents (?r\<lparr>rg_cap := rg_cap reg\<rparr>) = contents reg"
    by (rule reg_inv_moved[OF assms]) (use a i in \<open>auto simp: zero_from_def\<close>)
  then have "reg_inv ?r \<and> contents ?r = contents reg" unfolding e .
  then show thesis using that[of ?r] False a(1,4) by (simp add: compact_if_necessary_def)
qed

lemma shrink_spec:
  assumes "reg_inv reg"
  obtains reg' where "shrink_if_necessary reg = Some reg'" "reg_inv reg'" "contents reg' = contents reg"
    "rg_key_id reg' = rg_key_id reg" "rg_elm_sz reg' = rg_elm_sz reg"
proof (cases "rg_cap reg = reg_MIN_SIZE \<or> rg_sz reg * 4 > rg_cap reg")
  case True
  then show thesis using that[of reg] assms by (simp add: shrink_if_necessary_def)
next
  case False
  obtain arr where a: "reg_partition b_has_value (rg_arr reg) 0 0 (rg_occ reg) = Some (arr, rg_sz reg)"
    "length arr = rg_cap reg" "take (rg_sz reg) arr = filter b_has_value (occupied reg)" "rg_sz reg \<le> rg_occ reg"
    "length (filter b_has_value (occupied reg)) = rg_sz reg"
    using occupied_partition[OF assms] by metis
  have i: "rg_occ reg < rg_cap reg" "rg_cap reg \<noteq> 16" "rg_sz reg * 4 \<le> rg_cap reg" using assms False by (simp_all add: reg_inv_def reg_MIN_SIZE_def)
  obtain k where k: "rg_cap reg = 16 * 2 ^ k" using assms by (auto simp: reg_inv_def)
  then obtain m where m: "k = Suc m" using i(2) by (cases k) auto
  have z: "(0 :: nat) < 2 ^ m" by simp
  have c1: "rg_cap reg = 2 * (16 * 2 ^ m)" using k m by simp
  have c: "rg_cap reg div 2 = 16 * 2 ^ m" "rg_sz reg < rg_cap reg div 2" using c1 i(3) z by (simp, linarith)
  let ?t = "take (rg_sz reg) (zero_from arr (rg_sz reg) (rg_cap reg)) @ drop (rg_sz reg) (replicate (rg_cap reg div 2) zero_bucket)"
  let ?r = "reg\<lparr>rg_arr := ?t, rg_occ := rg_sz reg, rg_cap := rg_cap reg div 2\<rparr>"
  have "reg_inv ?r \<and> contents ?r = contents reg"
    by (rule reg_inv_moved[OF assms]) (use a i c in \<open>auto simp: zero_from_def\<close>)
  then show thesis using that[of ?r] False a(1,4) c by (simp add: shrink_if_necessary_def Let_def)
qed

lemma expand_spec:
  assumes "reg_inv reg"
  obtains reg' where "expand_if_neccesary reg = Some reg'" "reg_inv reg'" "contents reg' = contents reg"
    "rg_key_id reg' = rg_key_id reg" "rg_elm_sz reg' = rg_elm_sz reg" "rg_occ reg' + 1 < rg_cap reg'"
proof (cases "int (rg_occ reg) < int (rg_cap reg) - 1")
  case True
  then show thesis using that[of reg] assms by (simp add: expand_if_neccesary_def)
next
  case False
  have i: "rg_occ reg < rg_cap reg" "rg_occ reg \<le> length (rg_arr reg)" "length (rg_arr reg) = rg_cap reg" using assms by (simp_all add: reg_inv_def)
  obtain k where k: "rg_cap reg = 16 * 2 ^ k" using assms by (auto simp: reg_inv_def)
  have k2: "\<exists>k. rg_cap reg * 2 = 16 * 2 ^ k" unfolding k by (rule exI[of _ "Suc k"]) simp
  let ?n = "length (filter b_has_value (occupied reg))"
  have n: "?n \<le> rg_occ reg" using length_filter_le[of b_has_value "occupied reg"] i(2) by (simp add: occupied_def)
  obtain arr where a: "copy_if b_has_value (rg_arr reg) 0 (rg_occ reg) (replicate (rg_cap reg * 2) zero_bucket) 0 = Some (arr, ?n)"
    "length arr = rg_cap reg * 2" "take ?n arr = filter b_has_value (occupied reg)"
    using copy_if_spec[of 0 "rg_occ reg" "rg_arr reg" 0 "replicate (rg_cap reg * 2) zero_bucket" b_has_value] i by (auto simp: occupied_def)
  let ?r = "reg\<lparr>rg_arr := arr, rg_occ := ?n, rg_cap := rg_cap reg * 2\<rparr>"
  have "reg_inv ?r \<and> contents ?r = contents reg"
    by (rule reg_inv_moved[OF assms]) (use a k2 n i in auto)
  then show thesis using that[of ?r] False a(1) n i by (simp add: expand_if_neccesary_def Let_def)
qed

section \<open>New values\<close>

lemma reg_init_spec: "reg_inv (assoc_reg_init n)" "contents (assoc_reg_init n) = []" "rg_key_id (assoc_reg_init n) = 1"
  "rg_elm_sz (assoc_reg_init n) = n"
  by (auto simp: reg_inv_def assoc_reg_init_def reg_MIN_SIZE_def contents_def occupied_def buckets_ok_def intro!: exI[of _ 0])

lemma push_spec:
  assumes "reg_inv reg" "rg_key_id reg < 2 ^ 32"
  obtains reg' where "assoc_reg_push_back reg v (rg_elm_sz reg) = Some (word_of_nat (rg_key_id reg), reg')" "reg_inv reg'"
    "contents reg' = contents reg @ [(word_of_nat (rg_key_id reg), v)]" "rg_key_id reg' = rg_key_id reg + 1" "rg_elm_sz reg' = rg_elm_sz reg"
proof -
  obtain r where r: "expand_if_neccesary reg = Some r" "reg_inv r" "contents r = contents reg"
    "rg_key_id r = rg_key_id reg" "rg_elm_sz r = rg_elm_sz reg" "rg_occ r + 1 < rg_cap r" using expand_spec[OF assms(1)] .
  let ?b = "\<lparr>b_key = word_of_nat (rg_key_id reg), b_has_value = True, b_val = Some v\<rparr>"
  let ?r = "r\<lparr>rg_arr := (rg_arr r)[rg_occ r := ?b], rg_key_id := rg_key_id r + 1, rg_occ := rg_occ r + 1, rg_sz := rg_sz r + 1\<rparr>"
  have u: "unat (word_of_nat (rg_key_id reg) :: 32 word) = rg_key_id reg" using assms(2) by (simp add: unat_of_nat)
  have l: "rg_occ r < length (rg_arr r)" "rg_occ r < rg_key_id r" using r(2,6) by (simp_all add: reg_inv_def)
  have o: "occupied ?r = occupied r @ [?b]" using l by (simp add: occupied_def take_Suc_conv_app_nth)
  have bo: "buckets_ok (rg_key_id r) (occupied r)" using r(2) by (simp add: reg_inv_def)
  have k: "0 < rg_key_id reg" using l(2) r(4) by simp
  have "buckets_ok (rg_key_id r + 1) (occupied r)" using bo by (auto simp: buckets_ok_def)
  moreover have "buckets_ok (rg_key_id r + 1) [?b]" using u k r(4) by (simp add: buckets_ok_def word_less_nat_alt)
  moreover have "\<forall>a \<in> set (occupied r). b_key a < word_of_nat (rg_key_id reg)"
    using bo r(4) unfolding buckets_ok_def by (simp add: word_less_nat_alt u)
  ultimately have "buckets_ok (rg_key_id ?r) (occupied ?r)" unfolding o buckets_ok_append by simp
  then have "reg_inv ?r" using r(2,6) o by (auto simp: reg_inv_def contents_def)
  moreover have "contents ?r = contents reg @ [(word_of_nat (rg_key_id reg), v)]" using o r(3) by (simp add: contents_def)
  moreover have "assoc_reg_push_back reg v (rg_elm_sz reg) = Some (word_of_nat (rg_key_id reg), ?r)"
    using r(1,4) l(1) assms(2) by (simp add: assoc_reg_push_back_def Let_def)
  ultimately show thesis using that r(4,5) by simp
qed

section \<open>Places\<close>

text \<open>The places that the iterators visit: the buckets with values, and the end.\<close>
definition is_stop :: "'v assoc_reg \<Rightarrow> nat \<Rightarrow> bool" where
  "is_stop reg i \<longleftrightarrow> i \<le> rg_occ reg \<and> (i < rg_occ reg \<longrightarrow> b_has_value (rg_arr reg ! i))"

text \<open>The first such place from \<open>b\<close> on.\<close>
definition first_stop :: "'v assoc_reg \<Rightarrow> nat \<Rightarrow> nat \<Rightarrow> bool" where
  "first_stop reg b k \<longleftrightarrow> b \<le> k \<and> is_stop reg k \<and> (\<forall>j. b \<le> j \<longrightarrow> j < k \<longrightarrow> \<not> b_has_value (rg_arr reg ! j))"

lemma first_stop_Suc: "first_stop reg (Suc b) k \<Longrightarrow> \<not> b_has_value (rg_arr reg ! b) \<Longrightarrow> first_stop reg b k"
  unfolding first_stop_def by (metis Suc_leD Suc_leI le_neq_implies_less)

lemma next_loop_spec:
  assumes "it + idx \<le> rg_occ reg" "rg_occ reg \<le> length (rg_arr reg)"
  shows "\<exists>k. reg_next_loop reg it idx (it + idx) = Some k \<and> first_stop reg (it + idx) k"
  using assms
proof (induction "rg_occ reg - (it + idx)" arbitrary: idx)
  case 0
  then show ?case by (subst reg_next_loop.simps) (simp add: first_stop_def is_stop_def)
next
  case (Suc n)
  show ?case
  proof (cases "b_has_value (rg_arr reg ! (it + idx))")
    case True
    then show ?thesis using Suc by (subst reg_next_loop.simps) (simp add: first_stop_def is_stop_def bucket_at_def)
  next
    case False
    have "\<exists>k. reg_next_loop reg it (Suc idx) (it + Suc idx) = Some k \<and> first_stop reg (it + Suc idx) k"
      by (rule Suc.hyps(1)) (use Suc in simp_all)
    then obtain k where "reg_next_loop reg it (Suc idx) (it + Suc idx) = Some k" "first_stop reg (Suc (it + idx)) k" by auto
    moreover have "it + idx < rg_occ reg" using Suc.hyps(2) by simp
    ultimately show ?thesis using False Suc.prems first_stop_Suc[of reg "it + idx" k]
      by (subst reg_next_loop.simps) (simp add: bucket_at_def)
  qed
qed

lemma next_loop_first:
  assumes "it + 1 \<le> rg_occ reg" "rg_occ reg < length (rg_arr reg)"
  shows "reg_next_loop reg it 0 (it + 1) = reg_next_loop reg it 1 (it + 1)"
proof (cases "it + 1 = rg_occ reg")
  case True
  then show ?thesis by (simp add: reg_next_loop.simps)
next
  case False
  then show ?thesis
  proof (cases "b_has_value (rg_arr reg ! (it + 1))")
    case True
    then show ?thesis using False assms reg_next_loop.simps[of reg it 0 "it + 1"] reg_next_loop.simps[of reg it 1 "it + 1"]
      by (simp add: bucket_at_def)
  next
    case f: False
    then show ?thesis using False assms reg_next_loop.simps[of reg it 0 "it + 1"] by (simp add: bucket_at_def)
  qed
qed

lemma next_spec:
  assumes "rg_occ reg < length (rg_arr reg)" "it < rg_occ reg" "b_has_value (rg_arr reg ! it)"
  obtains k where "assoc_reg_next reg it = Some k" "first_stop reg (Suc it) k"
  using that next_loop_spec[of it 1 reg] next_loop_first[of it reg] assms
  by (auto simp: assoc_reg_next_def bucket_at_def iterator_in_ds_def)

lemma front_loop_spec:
  assumes "idx < rg_occ reg" "rg_occ reg \<le> length (rg_arr reg)"
  shows "\<exists>k. reg_front_loop reg idx = Some k \<and> first_stop reg idx k"
  using assms
proof (induction "rg_occ reg - Suc idx" arbitrary: idx)
  case 0
  then have "rg_occ reg = Suc idx" by simp
  moreover have "first_stop reg (Suc idx) (Suc idx)" using \<open>rg_occ reg = Suc idx\<close> by (simp add: first_stop_def is_stop_def)
  ultimately show ?case using 0 first_stop_Suc[of reg idx "Suc idx"]
    by (subst reg_front_loop.simps) (auto simp: bucket_at_def first_stop_def[of _ idx idx] is_stop_def)
next
  case (Suc n)
  show ?case
  proof (cases "b_has_value (rg_arr reg ! idx)")
    case True
    then show ?thesis using Suc by (subst reg_front_loop.simps) (simp add: first_stop_def is_stop_def bucket_at_def)
  next
    case False
    have "\<exists>k. reg_front_loop reg (Suc idx) = Some k \<and> first_stop reg (Suc idx) k" by (rule Suc.hyps(1)) (use Suc in simp_all)
    then obtain k where "reg_front_loop reg (Suc idx) = Some k" "first_stop reg (Suc idx) k" by blast
    moreover have "Suc idx < rg_occ reg" using Suc.hyps(2) by simp
    ultimately show ?thesis using False Suc.prems first_stop_Suc[of reg idx k] by (subst reg_front_loop.simps) (simp add: bucket_at_def)
  qed
qed

lemma front_spec:
  assumes "reg_inv reg" obtains k where "assoc_reg_front reg = Some k" "first_stop reg 0 k"
proof (cases "rg_occ reg = 0")
  case True
  then show thesis using that[of 0] by (simp add: assoc_reg_front_def first_stop_def is_stop_def)
next
  case False
  then show thesis using that front_loop_spec[of 0 reg] assms by (auto simp: assoc_reg_front_def reg_inv_def)
qed

section \<open>Erasing\<close>

definition clr :: "'v registry_bucket \<Rightarrow> 'v registry_bucket" where
  "clr b = b\<lparr>b_has_value := False\<rparr>"

lemma clr_simps [simp]: "b_key (clr b) = b_key b" "b_val (clr b) = b_val b" "\<not> b_has_value (clr b)" "\<not> b_has_value b \<Longrightarrow> clr b = b"
  by (simp_all add: clr_def)

lemma contents_of_clr [simp]: "contents_of (map clr bs) = []"
  by (simp add: contents_of_def filter_map comp_def)

definition cleared :: "nat \<Rightarrow> nat \<Rightarrow> 'v registry_bucket list \<Rightarrow> 'v registry_bucket list" where
  "cleared s e arr = take s arr @ map clr (drop s (take e arr)) @ drop e arr"

lemma cleared_step:
  assumes "s < k" "k \<le> e" "e \<le> length arr" "\<forall>j. Suc s \<le> j \<longrightarrow> j < k \<longrightarrow> \<not> b_has_value (arr ! j)"
  shows "cleared k e (arr[s := clr (arr ! s)]) = cleared s e arr"
proof (rule nth_equalityI)
  fix i assume "i < length (cleared k e (arr[s := clr (arr ! s)]))"
  then have "i < length arr" using assms by (simp add: cleared_def)
  then show "cleared k e (arr[s := clr (arr ! s)]) ! i = cleared s e arr ! i"
    using assms(1-3) assms(4)[rule_format, of i]
    by (cases "i < s"; cases "i = s"; cases "i < k"; cases "i < e") (simp_all add: cleared_def nth_append nth_list_update)
qed (use assms in \<open>simp add: cleared_def\<close>)

lemma drop_take_split: "i \<le> k \<Longrightarrow> k \<le> e \<Longrightarrow> e \<le> length xs \<Longrightarrow> drop i (take e xs) = drop i (take k xs) @ drop k (take e xs)"
  by (rule nth_equalityI) (auto simp: nth_append add.commute)

lemma no_values: "\<forall>j. a \<le> j \<longrightarrow> j < k \<longrightarrow> \<not> b_has_value (arr ! j) \<Longrightarrow> filter b_has_value (drop a (take k arr)) = []"
proof (clarsimp simp: filter_empty_conv in_set_conv_nth)
  fix i assume "\<forall>j \<ge> a. j < k \<longrightarrow> \<not> b_has_value (arr ! j)" "i < min (length arr) k - a" "b_has_value (drop a (take k arr) ! i)"
  moreover from this have "a + i < length arr" "a + i < k" by (simp_all add: less_diff_conv)
  moreover from this have "drop a (take k arr) ! i = arr ! (a + i)" by simp
  ultimately show False by simp
qed

lemma size_dec_pos: "0 < n \<Longrightarrow> size_dec n = n - 1"
  by (simp add: size_dec_def)

lemma erase_loop_spec:
  assumes "rg_occ reg < length (rg_arr reg)" "is_stop reg s" "is_stop reg e" "s \<le> e"
    "length (filter b_has_value (drop s (take e (rg_arr reg)))) \<le> rg_sz reg"
  shows "reg_erase_loop reg s e = Some (map b_val (filter b_has_value (drop s (take e (rg_arr reg)))),
    reg\<lparr>rg_arr := cleared s e (rg_arr reg), rg_sz := rg_sz reg - length (filter b_has_value (drop s (take e (rg_arr reg))))\<rparr>)"
  using assms
proof (induction "e - s" arbitrary: reg s rule: less_induct)
  case less
  show ?case
  proof (cases "s = e")
    case True
    then show ?thesis by (subst reg_erase_loop.simps) (simp add: cleared_def)
  next
    case False
    let ?arr = "rg_arr reg"
    let ?reg = "reg\<lparr>rg_arr := ?arr[s := clr (?arr ! s)], rg_sz := size_dec (rg_sz reg)\<rparr>"
    have s: "s < e" "e \<le> rg_occ reg" "s < rg_occ reg" "b_has_value (?arr ! s)" using less.prems(2-4) False by (auto simp: is_stop_def)
    obtain k where k: "assoc_reg_next reg s = Some k" "first_stop reg (Suc s) k" by (rule next_spec[OF less.prems(1) s(3,4)])
    have ke: "s < k" "k \<le> e" "is_stop reg k" "\<forall>j. Suc s \<le> j \<longrightarrow> j < k \<longrightarrow> \<not> b_has_value (?arr ! j)"
    proof -
      show f: "s < k" "is_stop reg k" "\<forall>j. Suc s \<le> j \<longrightarrow> j < k \<longrightarrow> \<not> b_has_value (?arr ! j)" using k(2) by (auto simp: first_stop_def)
      show "k \<le> e"
      proof (rule ccontr)
        assume "\<not> k \<le> e"
        then have "\<not> b_has_value (?arr ! e)" "e < rg_occ reg" using f s by (auto simp: is_stop_def)
        then show False using less.prems(3) by (simp add: is_stop_def)
      qed
    qed
    have sp: "filter b_has_value (drop s (take e ?arr)) = ?arr ! s # filter b_has_value (drop k (take e ?arr))"
    proof -
      have "drop s (take e ?arr) = ?arr ! s # drop (Suc s) (take e ?arr)" using s less.prems(1) by (simp add: Cons_nth_drop_Suc[symmetric])
      moreover have "drop (Suc s) (take e ?arr) = drop (Suc s) (take k ?arr) @ drop k (take e ?arr)"
        using ke(1,2) s less.prems(1) by (intro drop_take_split) simp_all
      moreover have "filter b_has_value (drop (Suc s) (take k ?arr)) = []"
        by (rule no_values[OF ke(4)])
      ultimately show ?thesis using s(4) by simp
    qed
    have u: "drop k (take e (?arr[s := clr (?arr ! s)])) = drop k (take e ?arr)" using ke(1) by (simp add: take_update_swap drop_update_cancel)
    have pos: "0 < rg_sz reg" using less.prems(5) sp by simp
    have "reg_erase_loop ?reg k e = Some (map b_val (filter b_has_value (drop k (take e (rg_arr ?reg)))),
      ?reg\<lparr>rg_arr := cleared k e (rg_arr ?reg), rg_sz := rg_sz ?reg - length (filter b_has_value (drop k (take e (rg_arr ?reg))))\<rparr>)"
    proof (rule less.hyps)
      show "e - k < e - s" using ke(1) s(1) by simp
      show "is_stop ?reg k" "is_stop ?reg e" using ke(1-3) s(1) less.prems(3) by (auto simp: is_stop_def)
      show "length (filter b_has_value (drop k (take e (rg_arr ?reg)))) \<le> rg_sz ?reg"
        using less.prems(5) sp u pos by (simp add: size_dec_pos)
    qed (use ke(2) less.prems(1) in simp_all)
    then have IH: "reg_erase_loop ?reg k e = Some (map b_val (filter b_has_value (drop k (take e ?arr))),
      reg\<lparr>rg_arr := cleared s e ?arr, rg_sz := rg_sz reg - 1 - length (filter b_has_value (drop k (take e ?arr)))\<rparr>)"
      using cleared_step[OF ke(1,2) _ ke(4)] s(2) less.prems(1) u pos by (simp add: size_dec_pos)
    show ?thesis using IH k(1) False sp by (subst reg_erase_loop.simps) (simp add: clr_def)
  qed
qed

lemma occupied_cleared:
  assumes "s \<le> e" "e \<le> rg_occ reg" "rg_occ reg \<le> length (rg_arr reg)"
  shows "take (rg_occ reg) (cleared s e (rg_arr reg)) = take s (occupied reg) @ map clr (drop s (take e (occupied reg))) @ drop e (occupied reg)"
  using assms by (intro nth_equalityI) (auto simp: cleared_def occupied_def nth_append)

lemma map_key_clr [simp]: "map b_key (map clr bs) = map b_key bs"
  by simp

lemma buckets_ok_keys: "buckets_ok n bs \<Longrightarrow> map b_key bs' = map b_key bs \<Longrightarrow> \<forall>b \<in> set bs'. b_has_value b \<longrightarrow> b_val b \<noteq> None \<Longrightarrow> buckets_ok n bs'"
  unfolding buckets_ok_def key_less_def sorted_wrt_map[of "(<)" b_key, symmetric]
  by (metis (no_types, lifting) in_set_conv_nth length_map nth_map)

text \<open>Erasing the range between two stops.\<close>
lemma erase_spec:
  assumes "reg_inv reg" "is_stop reg s" "is_stop reg e" "s \<le> e"
  obtains reg' where "assoc_reg_erase reg s e = Some (map b_val (filter b_has_value (drop s (take e (occupied reg)))), reg')" "reg_inv reg'"
    "contents reg' = contents_of (take s (occupied reg)) @ contents_of (drop e (occupied reg))"
    "rg_key_id reg' = rg_key_id reg" "rg_elm_sz reg' = rg_elm_sz reg"
proof (cases "s = e")
  case True
  have "contents_of (take e (occupied reg)) @ contents_of (drop e (occupied reg)) = contents reg"
    unfolding contents_def contents_of_simps(2)[symmetric] by simp
  then show thesis using that[of reg] True assms(1) by (simp add: assoc_reg_erase_def)
next
  case False
  have l: "e \<le> rg_occ reg" "rg_occ reg < length (rg_arr reg)" "length (rg_arr reg) = rg_cap reg" "s < rg_occ reg"
    using assms False by (simp_all add: reg_inv_def is_stop_def)
  have o: "drop s (take e (rg_arr reg)) = drop s (take e (occupied reg))" using l by (simp add: occupied_def)
  let ?n = "length (filter b_has_value (drop s (take e (occupied reg))))"
  have sp: "occupied reg = take s (occupied reg) @ drop s (take e (occupied reg)) @ drop e (occupied reg)"
    using assms(4) by (metis append.assoc append_take_drop_id min.absorb1 take_take)
  have c: "contents reg = contents_of (take s (occupied reg)) @ contents_of (drop s (take e (occupied reg))) @ contents_of (drop e (occupied reg))"
    unfolding contents_def by (subst sp) (simp only: contents_of_simps)
  have sz: "rg_sz reg = length (contents reg)" using assms(1) by (simp add: reg_inv_def)
  have le: "?n \<le> rg_sz reg" unfolding sz c by (simp add: length_contents_of)
  let ?r = "reg\<lparr>rg_arr := cleared s e (rg_arr reg), rg_sz := rg_sz reg - ?n\<rparr>"
  have loop: "reg_erase_loop reg s e = Some (map b_val (filter b_has_value (drop s (take e (occupied reg)))), ?r)"
    using erase_loop_spec[OF l(2) assms(2,3,4)] le unfolding o by blast
  have oc: "occupied ?r = take s (occupied reg) @ map clr (drop s (take e (occupied reg))) @ drop e (occupied reg)"
    using occupied_cleared[OF assms(4) l(1)] l(2) by (simp add: occupied_def)
  have cr: "contents ?r = contents_of (take s (occupied reg)) @ contents_of (drop e (occupied reg))"
    unfolding contents_def oc by (simp only: contents_of_simps contents_of_clr append_Nil)
  have k: "map b_key (occupied ?r) = map b_key (occupied reg)"
    unfolding oc by (subst (4) sp) (simp only: map_append map_key_clr)
  have b: "buckets_ok (rg_key_id reg) (occupied reg)" using assms(1) by (simp add: reg_inv_def)
  then have "\<forall>b \<in> set (occupied reg). b_has_value b \<longrightarrow> b_val b \<noteq> None" by (simp add: buckets_ok_def)
  then have "\<forall>b \<in> set (occupied ?r). b_has_value b \<longrightarrow> b_val b \<noteq> None"
    unfolding oc by (auto dest: in_set_takeD in_set_dropD)
  from buckets_ok_keys[OF b k this] have "buckets_ok (rg_key_id ?r) (occupied ?r)" by simp
  moreover have "rg_sz ?r = length (contents ?r)" unfolding cr using sz c by (simp add: length_contents_of)
  moreover have "length (cleared s e (rg_arr reg)) = rg_cap reg" using assms(4) l by (simp add: cleared_def)
  ultimately have "reg_inv ?r" using assms(1) by (simp add: reg_inv_def)
  from compact_spec[OF this] obtain r1 where r1: "compact_if_necessary ?r = Some r1" "reg_inv r1" "contents r1 = contents ?r"
    "rg_key_id r1 = rg_key_id ?r" "rg_elm_sz r1 = rg_elm_sz ?r" .
  from shrink_spec[OF r1(2)] obtain r2 where r2: "shrink_if_necessary r1 = Some r2" "reg_inv r2" "contents r2 = contents r1"
    "rg_key_id r2 = rg_key_id r1" "rg_elm_sz r2 = rg_elm_sz r1" .
  have "assoc_reg_erase reg s e = Some (map b_val (filter b_has_value (drop s (take e (occupied reg)))), r2)"
    using False l(4) loop r1(1) r2(1) by (simp add: assoc_reg_erase_def iterator_in_ds_def)
  then show thesis using that r1 r2 cr by simp
qed

section \<open>Searching\<close>

text \<open>The binary search finds the first place whose key is not less.\<close>
lemma lower_bound_loop_spec:
  assumes "buckets_ok n (occupied reg)" "rg_occ reg \<le> length (rg_arr reg)" "s + sz = rg_occ reg" "lower + nat len \<le> sz" "0 \<le> len"
    "\<forall>i < lower. b_key (rg_arr reg ! (s + i)) < key" "\<forall>i. lower + nat len \<le> i \<longrightarrow> i < sz \<longrightarrow> key \<le> b_key (rg_arr reg ! (s + i))"
  shows "\<exists>k \<le> sz. lower_bound_loop reg s key lower len = Some k \<and> (\<forall>i < k. b_key (rg_arr reg ! (s + i)) < key) \<and>
    (\<forall>i. k \<le> i \<longrightarrow> i < sz \<longrightarrow> key \<le> b_key (rg_arr reg ! (s + i)))"
  using assms(4-)
proof (induction "nat len" arbitrary: lower len rule: less_induct)
  case less
  show ?case
  proof (cases "len > 0")
    case False
    then show ?thesis using less.prems by (subst lower_bound_loop.simps) auto
  next
    case True
    let ?half = "len div 2"
    let ?idx = "lower + nat ?half"
    have h: "0 \<le> ?half" "?half < len" using True by simp_all
    have nh: "nat len = nat ?half + nat (len - ?half)" "nat (len - ?half - 1) < nat len" "nat ?half < nat len" using h True by simp_all
    have idx: "?idx < sz" using less.prems(1) h True by linarith
    have at: "bucket_at reg (s + ?idx) = Some (rg_arr reg ! (s + ?idx))" using idx assms(2,3) by (simp add: bucket_at_def)
    have mono: "b_key (rg_arr reg ! (s + i)) < b_key (rg_arr reg ! (s + j))" if "i < j" "j < sz" for i j
      using buckets_ok_less[OF assms(1), of "s + i" "s + j"] that assms(2,3) by (simp add: occupied_def)
    show ?thesis
    proof (cases "b_key (rg_arr reg ! (s + ?idx)) < key")
      case l: True
      have p: "?idx + 1 + nat (len - ?half - 1) = lower + nat len" using h True by linarith
      have q: "b_key (rg_arr reg ! (s + i)) < key" if "i < ?idx + 1" for i
      proof (cases "i = ?idx")
        case False
        then have "i < ?idx" using that by simp
        from less_trans[OF mono[OF this idx] l] show ?thesis .
      qed (use l in simp)
      have "\<exists>k \<le> sz. lower_bound_loop reg s key (?idx + 1) (len - ?half - 1) = Some k \<and> (\<forall>i < k. b_key (rg_arr reg ! (s + i)) < key) \<and>
        (\<forall>i. k \<le> i \<longrightarrow> i < sz \<longrightarrow> key \<le> b_key (rg_arr reg ! (s + i)))"
      proof (rule less.hyps[OF nh(2)])
        show "?idx + 1 + nat (len - ?half - 1) \<le> sz" unfolding p by (rule less.prems(1))
        show "0 \<le> len - ?half - 1" using h by simp
        show "\<forall>i < ?idx + 1. b_key (rg_arr reg ! (s + i)) < key" using q by blast
        show "\<forall>i. ?idx + 1 + nat (len - ?half - 1) \<le> i \<longrightarrow> i < sz \<longrightarrow> key \<le> b_key (rg_arr reg ! (s + i))"
          unfolding p by (rule less.prems(4))
      qed
      then show ?thesis using True l at by (subst lower_bound_loop.simps) (simp add: Let_def)
    next
      case g: False
      have q: "key \<le> b_key (rg_arr reg ! (s + i))" if "lower + nat ?half \<le> i" "i < sz" for i
      proof (cases "i = ?idx")
        case False
        then have "?idx < i" using that(1) by simp
        from mono[OF this that(2)] g show ?thesis by simp
      qed (use g in simp)
      have "\<exists>k \<le> sz. lower_bound_loop reg s key lower ?half = Some k \<and> (\<forall>i < k. b_key (rg_arr reg ! (s + i)) < key) \<and>
        (\<forall>i. k \<le> i \<longrightarrow> i < sz \<longrightarrow> key \<le> b_key (rg_arr reg ! (s + i)))"
      proof (rule less.hyps[OF nh(3) _ h(1) less.prems(3)])
        show "lower + nat ?half \<le> sz" using idx by simp
        show "\<forall>i. lower + nat ?half \<le> i \<longrightarrow> i < sz \<longrightarrow> key \<le> b_key (rg_arr reg ! (s + i))" using q by blast
      qed
      then show ?thesis using True g at by (subst lower_bound_loop.simps) (simp add: Let_def)
    qed
  qed
qed

lemma lower_bound_spec:
  assumes "reg_inv reg" "s \<le> rg_occ reg" "rg_occ reg < 2 ^ 31"
  obtains k where "lower_bound_reg reg s (rg_occ reg) key = Some k" "s \<le> k" "k \<le> rg_occ reg"
    "\<forall>i. s \<le> i \<longrightarrow> i < k \<longrightarrow> b_key (rg_arr reg ! i) < key" "\<forall>i. k \<le> i \<longrightarrow> i < rg_occ reg \<longrightarrow> key \<le> b_key (rg_arr reg ! i)"
proof (cases "s = rg_occ reg")
  case True
  then show thesis using that[of s] by (simp add: lower_bound_reg_def)
next
  case False
  let ?sz = "rg_occ reg - s"
  have i: "buckets_ok (rg_key_id reg) (occupied reg)" "rg_occ reg < rg_cap reg" "length (rg_arr reg) = rg_cap reg"
    using assms(1) by (simp_all add: reg_inv_def)
  have sz: "nat (c_size (int (rg_occ reg) - int s)) = ?sz" "c_int (int ?sz) = int ?sz"
    using assms(2,3) c_int_nat[of ?sz] by (simp_all add: c_size_id of_nat_diff)
  obtain k where k: "k \<le> ?sz" "lower_bound_loop reg s key 0 (int ?sz) = Some k" "\<forall>i < k. b_key (rg_arr reg ! (s + i)) < key"
    "\<forall>i. k \<le> i \<longrightarrow> i < ?sz \<longrightarrow> key \<le> b_key (rg_arr reg ! (s + i))"
  proof -
    obtain z where z: "z = ?sz" by simp
    then have "s + z = rg_occ reg" using assms(2) by simp
    then show thesis using that lower_bound_loop_spec[OF i(1), of s z 0 "int z" key] i unfolding z[symmetric] by auto
  qed
  show thesis
  proof (rule that[of "s + k"])
    have "?sz < rg_cap reg" using i(2) by linarith
    then show "lower_bound_reg reg s (rg_occ reg) key = Some (s + k)" using False sz k(2) by (simp add: lower_bound_reg_def)
    show "\<forall>i. s \<le> i \<longrightarrow> i < s + k \<longrightarrow> b_key (rg_arr reg ! i) < key"
      using k(3) by (metis add_less_cancel_left le_add_diff_inverse)
    show "\<forall>i. s + k \<le> i \<longrightarrow> i < rg_occ reg \<longrightarrow> key \<le> b_key (rg_arr reg ! i)"
      using k(4) assms(2) by (metis add_less_cancel_left add_le_cancel_left le_add_diff_inverse le_add1 le_trans)
  qed (use k(1) assms(2) in simp_all)
qed

text \<open>The bucket of an entry, and the entries around it.\<close>
lemma contents_of_split:
  "contents_of bs = xs @ e # ys \<Longrightarrow>
    \<exists>as b cs. bs = as @ b # cs \<and> b_has_value b \<and> (b_key b, the (b_val b)) = e \<and> contents_of as = xs \<and> contents_of cs = ys"
proof (induction bs arbitrary: xs)
  case Nil
  then show ?case by simp
next
  case (Cons b bs)
  show ?case
  proof (cases "b_has_value b \<and> xs = []")
    case True
    then show ?thesis using Cons.prems by (intro exI[of _ "[]"] exI[of _ b] exI[of _ bs]) simp
  next
    case False
    then have "contents_of bs = (if b_has_value b then tl xs else xs) @ e # ys" using Cons.prems by (cases xs) auto
    from Cons.IH[OF this] obtain as c cs where h: "bs = as @ c # cs" "b_has_value c" "(b_key c, the (b_val c)) = e"
      "contents_of as = (if b_has_value b then tl xs else xs)" "contents_of cs = ys" by blast
    have "contents_of (b # as) = xs" using h(4) False Cons.prems by (cases xs) auto
    then show ?thesis using h by (intro exI[of _ "b # as"] exI[of _ c] exI[of _ cs]) simp
  qed
qed

lemma contents_place:
  assumes "reg_inv reg" "contents reg = xs @ (k, v) # ys"
  obtains i where "i < rg_occ reg" "b_has_value (rg_arr reg ! i)" "b_key (rg_arr reg ! i) = k" "b_val (rg_arr reg ! i) = Some v"
    "contents_of (take i (occupied reg)) = xs" "contents_of (drop (Suc i) (occupied reg)) = ys"
proof -
  obtain as b cs where h: "occupied reg = as @ b # cs" "b_has_value b" "(b_key b, the (b_val b)) = (k, v)" "contents_of as = xs"
    "contents_of cs = ys" using contents_of_split[of "occupied reg" xs "(k, v)" ys] assms(2) unfolding contents_def by blast
  have l: "length (occupied reg) = rg_occ reg" using assms(1) by (simp add: reg_inv_def occupied_def)
  have i: "length as < rg_occ reg" unfolding l[symmetric] h(1) by simp
  have b: "rg_arr reg ! length as = b" using h(1) i unfolding occupied_def by (metis nth_append_length nth_take)
  have "b_val b = Some v" using assms(1) h(1,2,3) by (auto simp: reg_inv_def buckets_ok_def)
  then show thesis using that[of "length as"] h i b by simp
qed

text \<open>The search from the front finds the entry of a key, or the end when there is none.\<close>
lemma find_spec:
  assumes "reg_inv reg" "rg_occ reg < 2 ^ 31" "first_stop reg 0 s" "0 < key"
  obtains it where "find_reg reg s (assoc_reg_end reg) key = Some it"
    "it = rg_occ reg \<and> key \<notin> fst ` set (contents reg) \<or>
     it < rg_occ reg \<and> b_has_value (rg_arr reg ! it) \<and> b_key (rg_arr reg ! it) = key"
proof (cases "s = rg_occ reg")
  case True
  have "filter b_has_value (drop 0 (take s (rg_arr reg))) = []" using assms(3) by (intro no_values) (auto simp: first_stop_def)
  then have "contents reg = []" using True by (simp add: contents_def contents_of_def occupied_def)
  then show thesis using that[of s] True assms(4) by (simp add: find_reg_def assoc_reg_end_def)
next
  case False
  then have s: "s < rg_occ reg" using assms(3) by (simp add: first_stop_def is_stop_def)
  obtain k where k: "lower_bound_reg reg s (rg_occ reg) key = Some k" "s \<le> k" "k \<le> rg_occ reg"
    "\<forall>i. s \<le> i \<longrightarrow> i < k \<longrightarrow> b_key (rg_arr reg ! i) < key" "\<forall>i. k \<le> i \<longrightarrow> i < rg_occ reg \<longrightarrow> key \<le> b_key (rg_arr reg ! i)"
    by (rule lower_bound_spec[OF assms(1) less_imp_le[OF s] assms(2)])
  have inv: "buckets_ok (rg_key_id reg) (occupied reg)" "rg_occ reg < length (rg_arr reg)" using assms(1) by (simp_all add: reg_inv_def)
  show thesis
  proof (cases "k < rg_occ reg \<and> b_has_value (rg_arr reg ! k) \<and> b_key (rg_arr reg ! k) = key")
    case True
    then show thesis using that[of k] k(1) assms(4) s inv(2) by (simp add: find_reg_def assoc_reg_end_def bucket_at_def)
  next
    case nf: False
    have "find_reg reg s (assoc_reg_end reg) key = Some (rg_occ reg)"
      using nf k(1,3) assms(4) s inv(2) by (cases "k < rg_occ reg") (auto simp: find_reg_def assoc_reg_end_def bucket_at_def)
    moreover have "key \<notin> fst ` set (contents reg)"
    proof
      assume "key \<in> fst ` set (contents reg)"
      then obtain v where "(key, v) \<in> set (contents reg)" by auto
      then obtain xs ys where "contents reg = xs @ (key, v) # ys" by (meson split_list)
      from contents_place[OF assms(1) this] obtain i where i: "i < rg_occ reg" "b_has_value (rg_arr reg ! i)" "b_key (rg_arr reg ! i) = key"
        by metis
      have "s \<le> i"
      proof (rule ccontr)
        assume "\<not> s \<le> i"
        then show False using assms(3) i(2) by (simp add: first_stop_def)
      qed
      then have "k \<le> i" using k(4) i(3) by (metis less_irrefl not_le)
      moreover have "i \<noteq> k" using nf i by blast
      ultimately have ki: "k < i" by simp
      have "b_key (rg_arr reg ! k) < key"
        using buckets_ok_less[OF inv(1) ki] i(1,3) ki inv(2) by (simp add: occupied_def)
      then show False using k(5) ki i(1) by (metis le_refl less_trans not_le)
    qed
    ultimately show thesis using that by blast
  qed
qed

text \<open>Keys are distinct, so a bucket with a value is the entry of its key.\<close>
lemma contents_of_sorted: "sorted_wrt key_less bs \<Longrightarrow> sorted_wrt (<) (map fst (contents_of bs))"
  by (induction bs) (auto simp: contents_of_def key_less_def)

lemma contents_distinct: "reg_inv reg \<Longrightarrow> distinct (map fst (contents reg))"
  using contents_of_sorted[of "occupied reg"] strict_sorted_iff unfolding reg_inv_def buckets_ok_def contents_def by blast

lemma contents_at:
  assumes "reg_inv reg" "i < rg_occ reg" "b_has_value (rg_arr reg ! i)"
  obtains v where "b_val (rg_arr reg ! i) = Some v"
    "contents reg = contents_of (take i (occupied reg)) @ (b_key (rg_arr reg ! i), v) # contents_of (drop (Suc i) (occupied reg))"
proof -
  have l: "i < length (occupied reg)" "occupied reg ! i = rg_arr reg ! i" using assms(1,2) by (simp_all add: reg_inv_def occupied_def)
  have "rg_arr reg ! i \<in> set (occupied reg)" using l nth_mem by fastforce
  then obtain v where v: "b_val (rg_arr reg ! i) = Some v" using assms(1,3) by (auto simp: reg_inv_def buckets_ok_def)
  have "contents reg = contents_of (take i (occupied reg) @ rg_arr reg ! i # drop (Suc i) (occupied reg))"
    unfolding contents_def using id_take_nth_drop[OF l(1)] l(2) by simp
  then show thesis using that[OF v] v assms(3) by simp
qed

end
