(* ===== verification/Registry.thy ===== *)
theory Registry
  imports Assoc_Reg_Facts
begin

text \<open>
  Sequences of operations on the registry of src/util/alg_ds/ds/assoc_container/assoc_reg.c, each the way its
  callers and its tests compose it, and the growing map of keys that the registry implements.
\<close>

section \<open>Removing by a predicate\<close>

definition del_if :: "('v \<Rightarrow> bool) \<Rightarrow> 'v registry_bucket \<Rightarrow> 'v registry_bucket" where
  "del_if f b = (if b_has_value b \<and> f (the (b_val b)) then clr b else b)"

lemma del_if_key [simp]: "b_key (del_if f b) = b_key b" "b_val (del_if f b) = b_val b"
  by (simp_all add: del_if_def)

lemma contents_of_del_if [simp]: "contents_of (map (del_if f) bs) = filter (\<lambda>(k, v). \<not> f v) (contents_of bs)"
  by (induction bs) (simp_all add: del_if_def)

definition keys_if :: "('v \<Rightarrow> bool) \<Rightarrow> (32 word \<times> 'v) list \<Rightarrow> 32 word list" where
  "keys_if f xs = map fst (filter (\<lambda>(k, v). f v) xs)"

lemma keys_if_simps [simp]: "keys_if f [] = []" "keys_if f ((k, v) # xs) = (if f v then k # keys_if f xs else keys_if f xs)"
  by (simp_all add: keys_if_def)

lemma length_keys_if: "length (keys_if f xs) + length (filter (\<lambda>(k, v). \<not> f v) xs) = length xs"
  by (induction xs) auto

lemma remove_if_loop_spec:
  assumes "i \<le> rg_occ reg" "rg_occ reg \<le> length (rg_arr reg)" "\<forall>b \<in> set (occupied reg). b_has_value b \<longrightarrow> b_val b \<noteq> None"
    "length (keys_if f (contents_of (drop i (occupied reg)))) \<le> rg_sz reg"
  shows "remove_if_loop f reg i = Some (keys_if f (contents_of (drop i (occupied reg))),
    reg\<lparr>rg_arr := take i (rg_arr reg) @ map (del_if f) (drop i (occupied reg)) @ drop (rg_occ reg) (rg_arr reg),
      rg_sz := rg_sz reg - length (keys_if f (contents_of (drop i (occupied reg))))\<rparr>)"
  using assms
proof (induction "rg_occ reg - i" arbitrary: reg i)
  case 0
  then have "i = rg_occ reg" by simp
  then show ?case by (subst remove_if_loop.simps) (simp add: occupied_def)
next
  case (Suc n)
  then have i: "i < rg_occ reg" "i < length (rg_arr reg)" by simp_all
  let ?b = "rg_arr reg ! i"
  have d: "drop i (occupied reg) = ?b # drop (Suc i) (occupied reg)" using i by (simp add: occupied_def Cons_nth_drop_Suc[symmetric])
  have b: "bucket_at reg i = Some ?b" using i by (simp add: bucket_at_def)
  have "?b \<in> set (occupied reg)" using i by (metis d in_set_dropD list.set_intros(1))
  then have v: "b_has_value ?b \<Longrightarrow> b_val ?b = Some (the (b_val ?b))" using Suc.prems(3) by auto
  have t: "take (Suc i) (rg_arr reg) = take i (rg_arr reg) @ [?b]" using i by (simp add: take_Suc_conv_app_nth)
  show ?case
  proof (cases "b_has_value ?b \<and> f (the (b_val ?b))")
    case True
    then obtain x where x: "b_val ?b = Some x" "f x" using v by fastforce
    let ?r = "reg\<lparr>rg_sz := rg_sz reg - 1, rg_arr := (rg_arr reg)[i := clr ?b]\<rparr>"
    have sz: "0 < rg_sz reg" using Suc.prems(4) True d by simp
    have o: "occupied ?r = (occupied reg)[i := clr ?b]" by (simp add: occupied_def take_update_swap)
    have od: "drop (Suc i) (occupied ?r) = drop (Suc i) (occupied reg)" unfolding o by (simp add: drop_update_cancel)
    have "\<forall>b \<in> set (occupied ?r). b_has_value b \<longrightarrow> b_val b \<noteq> None" unfolding o
      using Suc.prems(3) set_update_subset_insert[of "occupied reg" i "clr ?b"] by auto
    then have "remove_if_loop f ?r (Suc i) = Some (keys_if f (contents_of (drop (Suc i) (occupied ?r))),
      ?r\<lparr>rg_arr := take (Suc i) (rg_arr ?r) @ map (del_if f) (drop (Suc i) (occupied ?r)) @ drop (rg_occ ?r) (rg_arr ?r),
        rg_sz := rg_sz ?r - length (keys_if f (contents_of (drop (Suc i) (occupied ?r))))\<rparr>)"
      by (intro Suc.hyps(1)) (use Suc.hyps(2) Suc.prems True d od i in simp_all)
    moreover have "take (Suc i) (rg_arr ?r) = take i (rg_arr reg) @ [clr ?b]" using i by (simp add: take_Suc_conv_app_nth)
    moreover have "drop (rg_occ reg) (rg_arr ?r) = drop (rg_occ reg) (rg_arr reg)" using i by (simp add: drop_update_cancel)
    moreover have "size_dec (rg_sz reg) = rg_sz reg - 1" using sz by (rule size_dec_pos)
    ultimately show ?thesis using i b x True unfolding d od
      by (subst remove_if_loop.simps) (simp add: del_if_def clr_def)
  next
    case False
    have "remove_if_loop f reg (Suc i) = Some (keys_if f (contents_of (drop (Suc i) (occupied reg))),
      reg\<lparr>rg_arr := take (Suc i) (rg_arr reg) @ map (del_if f) (drop (Suc i) (occupied reg)) @ drop (rg_occ reg) (rg_arr reg),
        rg_sz := rg_sz reg - length (keys_if f (contents_of (drop (Suc i) (occupied reg))))\<rparr>)"
      by (intro Suc.hyps(1)) (use Suc.hyps(2) Suc.prems False d i in \<open>auto split: if_splits\<close>)
    moreover have "(if b_has_value ?b then do { v \<leftarrow> b_val ?b; Some (f v) } else Some False) = Some False" using v False by (cases "b_val ?b"; cases "b_has_value ?b") auto
    ultimately show ?thesis using i b False t unfolding d by (subst remove_if_loop.simps) (auto simp: del_if_def)
  qed
qed

text \<open>An array with the same keys that represents other contents.\<close>
lemma reg_inv_update:
  assumes "reg_inv reg" "length arr = rg_cap reg" "map b_key (take (rg_occ reg) arr) = map b_key (occupied reg)"
    "\<forall>b \<in> set (take (rg_occ reg) arr). b_has_value b \<longrightarrow> b_val b \<noteq> None" "sz = length (contents_of (take (rg_occ reg) arr))"
  shows "reg_inv (reg\<lparr>rg_arr := arr, rg_sz := sz\<rparr>)"
  using assms buckets_ok_keys[OF _ assms(3,4), of "rg_key_id reg"] by (simp add: reg_inv_def contents_def occupied_def)

lemma remove_if_spec:
  assumes "reg_inv reg"
  obtains reg' where "remove_if_range_reg reg f = Some (keys_if f (contents reg), reg')" "reg_inv reg'"
    "contents reg' = filter (\<lambda>(k, v). \<not> f v) (contents reg)" "rg_key_id reg' = rg_key_id reg" "rg_elm_sz reg' = rg_elm_sz reg"
proof -
  have l: "rg_occ reg < length (rg_arr reg)" "length (rg_arr reg) = rg_cap reg" "rg_sz reg = length (contents reg)"
    "buckets_ok (rg_key_id reg) (occupied reg)" using assms by (simp_all add: reg_inv_def)
  have v: "\<forall>b \<in> set (occupied reg). b_has_value b \<longrightarrow> b_val b \<noteq> None" using l(4) by (simp add: buckets_ok_def)
  let ?arr = "map (del_if f) (occupied reg) @ drop (rg_occ reg) (rg_arr reg)"
  let ?sz = "rg_sz reg - length (keys_if f (contents reg))"
  let ?r = "reg\<lparr>rg_arr := ?arr, rg_sz := ?sz\<rparr>"
  have loop: "remove_if_loop f reg 0 = Some (keys_if f (contents reg), ?r)"
    using remove_if_loop_spec[of 0 reg f] l(1,3) v length_keys_if[of f "contents reg"] by (simp add: contents_def)
  have o: "take (rg_occ reg) ?arr = map (del_if f) (occupied reg)" using l(1) by (simp add: occupied_def)
  have c: "contents ?r = filter (\<lambda>(k, v). \<not> f v) (contents reg)" unfolding contents_def[of ?r] occupied_def[of ?r]
    using arg_cong[OF o, of contents_of] by (simp add: contents_def del: take_append)
  have "reg_inv ?r"
  proof (rule reg_inv_update[OF assms])
    show "length ?arr = rg_cap reg" using l(1,2) by (simp add: occupied_def)
    show "map b_key (take (rg_occ reg) ?arr) = map b_key (occupied reg)" unfolding o by simp
    show "\<forall>b \<in> set (take (rg_occ reg) ?arr). b_has_value b \<longrightarrow> b_val b \<noteq> None" unfolding o using v by (auto simp: del_if_def)
    show "?sz = length (contents_of (take (rg_occ reg) ?arr))" unfolding o using length_keys_if[of f "contents reg"] l(3) by (simp add: contents_def)
  qed
  from compact_spec[OF this] obtain r1 where r1: "compact_if_necessary ?r = Some r1" "reg_inv r1" "contents r1 = contents ?r"
    "rg_key_id r1 = rg_key_id ?r" "rg_elm_sz r1 = rg_elm_sz ?r" .
  from shrink_spec[OF r1(2)] obtain r2 where r2: "shrink_if_necessary r1 = Some r2" "reg_inv r2" "contents r2 = contents r1"
    "rg_key_id r2 = rg_key_id r1" "rg_elm_sz r2 = rg_elm_sz r1" .
  show thesis using that[of r2] loop r1 r2 c by (simp add: remove_if_range_reg_def)
qed

section \<open>The test of the invariants\<close>

lemma invariants_loop_spec:
  "sorted_wrt key_less bs \<Longrightarrow> \<forall>b \<in> set bs. lk < int (unat (b_key b)) \<Longrightarrow>
    invariants_loop bs lk c = Some (c + of_nat (length (contents_of bs)))"
proof (induction bs arbitrary: lk c)
  case (Cons b bs)
  have "\<forall>x \<in> set bs. int (unat (b_key b)) < int (unat (b_key x))"
    using Cons.prems(1) by (auto simp: key_less_def word_less_def)
  from Cons.IH[OF _ this] Cons.prems show ?case by (simp add: add.assoc)
qed simp

lemma test_invariants_spec:
  assumes "reg_inv reg" "rg_key_id reg < 2 ^ 32"
  shows "test_invariants_registry_hold reg = Some ()"
proof -
  have "length (contents reg) \<le> length (occupied reg)" unfolding contents_def length_contents_of by (rule length_filter_le)
  moreover have l: "length (occupied reg) = rg_occ reg" using assms(1) by (simp add: reg_inv_def occupied_def)
  ultimately have sz: "rg_sz reg \<le> rg_occ reg" using assms(1) by (simp add: reg_inv_def)
  have "sorted_wrt key_less (occupied reg)" using assms(1) by (simp add: reg_inv_def buckets_ok_def)
  moreover have ge: "\<forall>b \<in> set (occupied reg). - 1 < int (unat (b_key b))" by (rule ballI) linarith
  ultimately have "invariants_loop (take (rg_occ reg) (rg_arr reg)) (- 1) 0 = Some (of_nat (rg_sz reg))"
    using invariants_loop_spec[of "occupied reg" "- 1" 0] assms(1) ge by (simp add: reg_inv_def contents_def occupied_def)
  moreover have "unat (of_nat (rg_sz reg) :: 32 word) = rg_sz reg"
    using sz assms by (simp add: unat_of_nat reg_inv_def)
  ultimately show ?thesis using assms(1) sz by (simp add: test_invariants_registry_hold_def reg_inv_def)
qed

section \<open>Sequences of operations\<close>

datatype 'v reg_op = Reg_Push 'v | Reg_Find "32 word" | Reg_Erase "32 word" | Reg_Erase_If "'v \<Rightarrow> bool"

datatype 'v reg_out = Out_Key "32 word" | Out_Value "'v option" | Out_Freed "'v option list" | Out_Keys "32 word list"

definition find_key :: "'v assoc_reg \<Rightarrow> 32 word \<Rightarrow> nat option" where
  "find_key reg key = do {
     it \<leftarrow> assoc_reg_front reg;
     find_reg reg it (assoc_reg_end reg) key
   }"

fun reg_step :: "'v assoc_reg \<Rightarrow> 'v reg_op \<Rightarrow> ('v reg_out \<times> 'v assoc_reg) option" where
  "reg_step reg (Reg_Push v) = do {
     (key, reg) \<leftarrow> assoc_reg_push_back reg v (rg_elm_sz reg);
     Some (Out_Key key, reg)
   }"
| "reg_step reg (Reg_Find key) = do {
     it \<leftarrow> find_key reg key;
     if it = assoc_reg_end reg then Some (Out_Value None, reg)
     else do {
       v \<leftarrow> assoc_reg_value reg it;
       Some (Out_Value (Some v), reg)
     }
   }"
| "reg_step reg (Reg_Erase key) = do {
     it \<leftarrow> find_key reg key;
     if it = assoc_reg_end reg then Some (Out_Freed [], reg)
     else do {
       nxt \<leftarrow> assoc_reg_next reg it;
       (freed, reg) \<leftarrow> assoc_reg_erase reg it nxt;
       Some (Out_Freed freed, reg)
     }
   }"
| "reg_step reg (Reg_Erase_If f) = do {
     (keys, reg) \<leftarrow> remove_if_range_reg reg f;
     Some (Out_Keys keys, reg)
   }"

fun reg_run :: "'v assoc_reg \<Rightarrow> 'v reg_op list \<Rightarrow> ('v reg_out list \<times> 'v assoc_reg) option" where
  "reg_run reg [] = Some ([], reg)"
| "reg_run reg (op # ops) = do {
     (out, reg) \<leftarrow> reg_step reg op;
     (outs, reg) \<leftarrow> reg_run reg ops;
     Some (out # outs, reg)
   }"

text \<open>The next key, and the values in the order of their keys.\<close>
type_synonym 'v areg = "nat \<times> (32 word \<times> 'v) list"

fun areg_step :: "'v areg \<Rightarrow> 'v reg_op \<Rightarrow> ('v reg_out \<times> 'v areg) option" where
  "areg_step (n, xs) (Reg_Push v) = Some (Out_Key (word_of_nat n), n + 1, xs @ [(word_of_nat n, v)])"
| "areg_step (n, xs) (Reg_Find key) = (if key = 0 then None else Some (Out_Value (map_of xs key), n, xs))"
| "areg_step (n, xs) (Reg_Erase key) =
     (if key = 0 then None
      else Some (Out_Freed (map (Some \<circ> snd) (filter (\<lambda>e. fst e = key) xs)), n, filter (\<lambda>e. fst e \<noteq> key) xs))"
| "areg_step (n, xs) (Reg_Erase_If f) = Some (Out_Keys (keys_if f xs), n, filter (\<lambda>(k, v). \<not> f v) xs)"

fun areg_run :: "'v areg \<Rightarrow> 'v reg_op list \<Rightarrow> ('v reg_out list \<times> 'v areg) option" where
  "areg_run m [] = Some ([], m)"
| "areg_run m (op # ops) = do {
     (out, m) \<leftarrow> areg_step m op;
     (outs, m) \<leftarrow> areg_run m ops;
     Some (out # outs, m)
   }"

definition reg_abs :: "'v assoc_reg \<Rightarrow> 'v areg" where
  "reg_abs reg = (rg_key_id reg, contents reg)"

lemma find_key_cases:
  assumes "reg_inv reg" "rg_key_id reg \<le> 2 ^ 31"
  obtains "key = 0" "find_key reg key = None"
  | "0 < key" "find_key reg key = Some (rg_occ reg)" "key \<notin> fst ` set (contents reg)"
  | it where "0 < key" "find_key reg key = Some it" "it < rg_occ reg" "b_has_value (rg_arr reg ! it)" "b_key (rg_arr reg ! it) = key"
proof -
  obtain s where s: "assoc_reg_front reg = Some s" "first_stop reg 0 s" using front_spec[OF assms(1)] .
  show thesis
  proof (cases "key = 0")
    case True
    then show ?thesis using that(1) s(1) by (simp add: find_key_def find_reg_def)
  next
    case False
    then have k: "0 < key" by (simp add: word_gt_0)
    have occ: "rg_occ reg < 2 ^ 31" using assms by (simp add: reg_inv_def)
    obtain it where "find_reg reg s (assoc_reg_end reg) key = Some it"
      "it = rg_occ reg \<and> key \<notin> fst ` set (contents reg) \<or>
       it < rg_occ reg \<and> b_has_value (rg_arr reg ! it) \<and> b_key (rg_arr reg ! it) = key" by (rule find_spec[OF assms(1) occ s(2) k])
    then show ?thesis using that(2,3) s(1) k by (auto simp: find_key_def)
  qed
qed

text \<open>The entry of a key that was found: its value, and what is left after it is erased.\<close>
lemma found_value:
  assumes "reg_inv reg" "it < rg_occ reg" "b_has_value (rg_arr reg ! it)" "b_key (rg_arr reg ! it) = key"
  obtains v xs ys where "assoc_reg_value reg it = Some v" "contents reg = xs @ (key, v) # ys" "key \<notin> fst ` set (xs @ ys)"
    "contents_of (take it (occupied reg)) = xs" "contents_of (drop (Suc it) (occupied reg)) = ys"
proof -
  obtain v where v: "b_val (rg_arr reg ! it) = Some v"
    "contents reg = contents_of (take it (occupied reg)) @ (key, v) # contents_of (drop (Suc it) (occupied reg))"
    using contents_at[OF assms(1-3)] assms(4) by metis
  have "assoc_reg_value reg it = Some v" using v(1) assms by (simp add: assoc_reg_value_def iterator_in_ds_def bucket_at_def reg_inv_def)
  moreover have "key \<notin> fst ` set (contents_of (take it (occupied reg)) @ contents_of (drop (Suc it) (occupied reg)))"
    using contents_distinct[OF assms(1)] unfolding v(2) by auto
  ultimately show thesis using that v(2) by blast
qed

lemma found_erase:
  assumes "reg_inv reg" "it < rg_occ reg" "b_has_value (rg_arr reg ! it)" "b_key (rg_arr reg ! it) = key"
  obtains v nxt reg' xs ys where "contents reg = xs @ (key, v) # ys" "key \<notin> fst ` set (xs @ ys)" "assoc_reg_next reg it = Some nxt"
    "assoc_reg_erase reg it nxt = Some ([Some v], reg')" "reg_inv reg'" "contents reg' = xs @ ys"
    "rg_key_id reg' = rg_key_id reg" "rg_elm_sz reg' = rg_elm_sz reg"
proof -
  obtain v xs ys where f: "assoc_reg_value reg it = Some v" "contents reg = xs @ (key, v) # ys" "key \<notin> fst ` set (xs @ ys)"
    "contents_of (take it (occupied reg)) = xs" "contents_of (drop (Suc it) (occupied reg)) = ys" by (rule found_value[OF assms])
  have l: "rg_occ reg < length (rg_arr reg)" using assms(1) by (simp add: reg_inv_def)
  obtain nxt where n: "assoc_reg_next reg it = Some nxt" "first_stop reg (Suc it) nxt" using next_spec[OF l assms(2,3)] .
  have st: "is_stop reg it" "is_stop reg nxt" "it \<le> nxt" "Suc it \<le> nxt" "nxt \<le> rg_occ reg" using n(2) assms by (simp_all add: first_stop_def is_stop_def)
  obtain reg' where e: "assoc_reg_erase reg it nxt = Some (map b_val (filter b_has_value (drop it (take nxt (occupied reg)))), reg')"
    "reg_inv reg'" "contents reg' = contents_of (take it (occupied reg)) @ contents_of (drop nxt (occupied reg))"
    "rg_key_id reg' = rg_key_id reg" "rg_elm_sz reg' = rg_elm_sz reg" by (rule erase_spec[OF assms(1) st(1-3)])
  have nv: "filter b_has_value (drop (Suc it) (take nxt (occupied reg))) = []"
    using no_values[of "Suc it" nxt "rg_arr reg"] n(2) st(5) by (simp add: first_stop_def occupied_def)
  have "drop it (take nxt (occupied reg)) = rg_arr reg ! it # drop (Suc it) (take nxt (occupied reg))"
    using assms(2) st(4,5) l by (simp add: occupied_def Cons_nth_drop_Suc[symmetric])
  then have freed: "map b_val (filter b_has_value (drop it (take nxt (occupied reg)))) = [Some v]"
    using nv assms(2,3) f(1) l by (simp add: assoc_reg_value_def bucket_at_def iterator_in_ds_def)
  have "drop (Suc it) (occupied reg) = drop (Suc it) (take nxt (occupied reg)) @ drop nxt (occupied reg)"
    using drop_take_split[of "Suc it" nxt "rg_occ reg" "occupied reg"] st(4,5) l by (simp add: occupied_def)
  then have "contents_of (drop nxt (occupied reg)) = ys"
    using nv f(5) by (metis append_Nil contents_of_filter contents_of_simps(1,2))
  then show thesis using that[OF f(2,3) n(1)] e freed f(4) by simp
qed

text \<open>A filtered list of entries around the entry of a key.\<close>
lemma filter_key:
  assumes "xs = as @ (key, v) # bs" "key \<notin> fst ` set (as @ bs)"
  shows "filter (\<lambda>e. fst e = key) xs = [(key, v)]" "filter (\<lambda>e. fst e \<noteq> key) xs = as @ bs" "map_of xs key = Some v"
proof -
  have "filter (\<lambda>e. fst e = key) as = []" "filter (\<lambda>e. fst e = key) bs = []"
    "filter (\<lambda>e. fst e \<noteq> key) as = as" "filter (\<lambda>e. fst e \<noteq> key) bs = bs"
    using assms(2) by (auto simp: filter_empty_conv intro!: filter_True image_eqI)
  then show "filter (\<lambda>e. fst e = key) xs = [(key, v)]" "filter (\<lambda>e. fst e \<noteq> key) xs = as @ bs" by (simp_all add: assms(1))
  have "map_of as key = None" using assms(2) by (auto simp: map_of_eq_None_iff)
  then show "map_of xs key = Some v" by (simp add: assms(1) map_add_def)
qed

lemma filter_no_key:
  assumes "key \<notin> fst ` set xs"
  shows "filter (\<lambda>e. fst e = key) xs = []" "filter (\<lambda>e. fst e \<noteq> key) xs = xs" "map_of xs key = None"
  using assms by (auto simp: filter_empty_conv filter_id_conv map_of_eq_None_iff)

text \<open>One operation: either both sides stop, or they give the same and the states correspond.\<close>
lemma reg_step_refines:
  assumes "reg_inv reg" "rg_key_id reg < 2 ^ 31"
  shows "reg_step reg op = None \<and> areg_step (reg_abs reg) op = None \<or>
    (\<exists>out reg'. reg_step reg op = Some (out, reg') \<and> areg_step (reg_abs reg) op = Some (out, reg_abs reg') \<and> reg_inv reg' \<and>
      rg_key_id reg' \<le> rg_key_id reg + 1)"
proof (cases op)
  case (Reg_Push v)
  have "rg_key_id reg < 2 ^ 32" using assms(2) by simp
  then obtain reg' where "assoc_reg_push_back reg v (rg_elm_sz reg) = Some (word_of_nat (rg_key_id reg), reg')" "reg_inv reg'"
    "contents reg' = contents reg @ [(word_of_nat (rg_key_id reg), v)]" "rg_key_id reg' = rg_key_id reg + 1" by (rule push_spec[OF assms(1)])
  then show ?thesis by (simp add: Reg_Push reg_abs_def)
next
  case (Reg_Find key)
  have k: "rg_key_id reg \<le> 2 ^ 31" using assms(2) by simp
  show ?thesis
  proof (cases rule: find_key_cases[OF assms(1) k, where key = key])
    case 2
    then show ?thesis using assms(1) filter_no_key[OF 2(3)] by (simp add: Reg_Find reg_abs_def assoc_reg_end_def)
  next
    case (3 it)
    obtain v xs ys where f: "assoc_reg_value reg it = Some v" "contents reg = xs @ (key, v) # ys" "key \<notin> fst ` set (xs @ ys)"
      by (rule found_value[OF assms(1) 3(3-5)])
    show ?thesis using 3 f(1) filter_key(3)[OF f(2,3)] assms(1) by (simp add: Reg_Find reg_abs_def assoc_reg_end_def)
  qed (simp add: Reg_Find reg_abs_def)
next
  case (Reg_Erase key)
  have k: "rg_key_id reg \<le> 2 ^ 31" using assms(2) by simp
  show ?thesis
  proof (cases rule: find_key_cases[OF assms(1) k, where key = key])
    case 2
    then show ?thesis using assms(1) filter_no_key[OF 2(3)] by (simp add: Reg_Erase reg_abs_def assoc_reg_end_def)
  next
    case (3 it)
    obtain v nxt reg' xs ys where f: "contents reg = xs @ (key, v) # ys" "key \<notin> fst ` set (xs @ ys)" "assoc_reg_next reg it = Some nxt"
      "assoc_reg_erase reg it nxt = Some ([Some v], reg')" "reg_inv reg'" "contents reg' = xs @ ys"
      "rg_key_id reg' = rg_key_id reg" by (rule found_erase[OF assms(1) 3(3-5)])
    show ?thesis using 3(1-3) f(3-7) filter_key(1,2)[OF f(1,2)] by (simp add: Reg_Erase reg_abs_def assoc_reg_end_def)
  qed (simp add: Reg_Erase reg_abs_def)
next
  case (Reg_Erase_If f)
  obtain reg' where "remove_if_range_reg reg f = Some (keys_if f (contents reg), reg')" "reg_inv reg'"
    "contents reg' = filter (\<lambda>(k, v). \<not> f v) (contents reg)" "rg_key_id reg' = rg_key_id reg" by (rule remove_if_spec[OF assms(1)])
  then show ?thesis by (simp add: Reg_Erase_If reg_abs_def)
qed

lemma reg_run_refines:
  assumes "reg_inv reg" "rg_key_id reg + length ops \<le> 2 ^ 31"
  shows "reg_run reg ops = None \<and> areg_run (reg_abs reg) ops = None \<or>
    (\<exists>outs reg'. reg_run reg ops = Some (outs, reg') \<and> areg_run (reg_abs reg) ops = Some (outs, reg_abs reg') \<and> reg_inv reg' \<and>
      rg_key_id reg' \<le> rg_key_id reg + length ops)"
  using assms
proof (induction ops arbitrary: reg)
  case (Cons op ops)
  have "rg_key_id reg < 2 ^ 31" using Cons.prems(2) by simp
  from reg_step_refines[OF Cons.prems(1) this, of op] show ?case
  proof (elim disjE exE conjE)
    fix out r assume r: "reg_step reg op = Some (out, r)" "areg_step (reg_abs reg) op = Some (out, reg_abs r)" "reg_inv r" "rg_key_id r \<le> rg_key_id reg + 1"
    then have "rg_key_id r + length ops \<le> 2 ^ 31" using Cons.prems(2) by simp
    from Cons.IH[OF r(3) this] show ?thesis using r by (elim disjE exE conjE) auto
  qed simp
qed simp

section \<open>Properties\<close>

text \<open>C20: 
  A fresh registry behaves as a growing map on every sequence of operations: the same
  keys, values and freed values, the same stops, and in the end the same entries.
\<close>
theorem registry_refines:
  fixes ops :: "'v reg_op list"
  assumes "length ops < 2 ^ 31"
  shows "map_option (\<lambda>(outs, reg). (outs, reg_abs reg)) (reg_run (assoc_reg_init sz) ops) = areg_run (1, []) ops"
proof -
  have "reg_abs (assoc_reg_init sz :: 'v assoc_reg) = (1, [])" by (simp add: reg_abs_def reg_init_spec)
  with reg_run_refines[OF reg_init_spec(1), of sz ops] assms show ?thesis by (auto simp: reg_init_spec)
qed

text \<open>C21: 
  The test of the invariants passes after every sequence of operations, and the array keeps its shape: a
  capacity that is sixteen times a power of two, with a free place behind the used ones.
\<close>
theorem registry_invariants:
  assumes "length ops < 2 ^ 31" "reg_run (assoc_reg_init sz) ops = Some (outs, reg)"
  shows "test_invariants_registry_hold reg = Some () \<and> rg_occ reg < rg_cap reg \<and> (\<exists>k. rg_cap reg = 16 * 2 ^ k) \<and>
    assoc_reg_size reg = length (snd (reg_abs reg))"
proof -
  have "reg_inv reg" "rg_key_id reg < 2 ^ 32"
    using reg_run_refines[OF reg_init_spec(1), of sz ops] assms by (auto simp: reg_init_spec)
  then show ?thesis using test_invariants_spec[of reg] by (simp add: reg_inv_def reg_abs_def assoc_reg_size_def)
qed

definition ex_reg_ops :: "nat reg_op list" where
  "ex_reg_ops = map Reg_Push [10, 20, 30, 40] @ [Reg_Find 2, Reg_Erase 2, Reg_Find 2, Reg_Erase_If (\<lambda>v. v = 40), Reg_Erase 1, Reg_Push 50, Reg_Find 5]"

lemma ex_reg_areg: "areg_run (1, []) ex_reg_ops =
  Some ([Out_Key 1, Out_Key 2, Out_Key 3, Out_Key 4, Out_Value (Some 20), Out_Freed [Some 20], Out_Value None, Out_Keys [4],
    Out_Freed [Some 10], Out_Key 5, Out_Value (Some 50)], 6, [(3, 30), (5, 50)])"
  by (simp add: ex_reg_ops_def)

lemma registry_refines_witness:
  "map_option (\<lambda>(outs, reg). (outs, reg_abs reg)) (reg_run (assoc_reg_init 8) ex_reg_ops) =
    Some ([Out_Key 1, Out_Key 2, Out_Key 3, Out_Key 4, Out_Value (Some 20), Out_Freed [Some 20], Out_Value None, Out_Keys [4],
      Out_Freed [Some 10], Out_Key 5, Out_Value (Some 50)], 6, [(3, 30), (5, 50)])"
  using registry_refines[of ex_reg_ops 8] unfolding ex_reg_areg by (simp add: ex_reg_ops_def)

lemma registry_invariants_witness:
  "\<exists>outs reg. reg_run (assoc_reg_init 8) [Reg_Push (7 :: nat), Reg_Push 8, Reg_Erase 1] = Some (outs, reg) \<and>
    test_invariants_registry_hold reg = Some () \<and> assoc_reg_size reg = 1"
proof -
  let ?ops = "[Reg_Push (7 :: nat), Reg_Push 8, Reg_Erase 1]"
  obtain outs reg where r: "reg_run (assoc_reg_init 8) ?ops = Some (outs, reg)" "areg_run (1, []) ?ops = Some (outs, reg_abs reg)"
    using reg_run_refines[OF reg_init_spec(1), of 8 ?ops] by (auto simp: reg_init_spec reg_abs_def)
  have "length (snd (reg_abs reg)) = 1" using r(2)[symmetric] by auto
  then show ?thesis using registry_invariants[OF _ r(1)] r(1) by auto
qed

end
