(* ===== verification/Agent.thy ===== *)
theory Agent
  imports Near_Ric
begin

text \<open>
  The agent in an E2 node: src/agent/e2_agent.c, src/agent/msg_handler_agent.c,
  src/agent/not_handler_agent.c, src/agent/gen_msg_agent.c, src/agent/plugin_agent.c and
  src/agent/asio_agent.c as far as the agent uses it, with the events of src/lib.

  The state is the structure \<open>e2_agent_t\<close>: the polled descriptors, the pipe that announces aperiodic
  events, the plug-ins, the running indications with their timers, the pending
  setup, the queue of aperiodic events and the transaction number.  The queue is the list of
  its elements, as the queue behaves.  What is sent is recorded un-encoded; the action definitions that are released and the
  aperiodic subscriptions that are ended are recorded too.  A plug-in is the record of its
  entry points; what it returns when an indication is due depends on the radio network and is an argument.
\<close>

section \<open>Plug-ins\<close>

datatype subscription_ans_e = PERIODIC_SUBSCRIPTION_FLRC | APERIODIC_SUBSCRIPTION_FLRC | END_SUBSCRIPTION__FLRC

text \<open>The answer of a plug-in to a subscription; the members of the union are side by side.\<close>
record sm_ag_if_ans_subs =
  ans_type :: subscription_ans_e
  ans_ms :: int
  ans_act_def :: "byte list"

record sm_agent =
  sma_id :: uint16
  sma_rev :: uint16
  sma_oid :: string
  sma_on_subscription :: "byte_array \<Rightarrow> byte_array option \<Rightarrow> uint32 \<Rightarrow> sm_ag_if_ans_subs option"
  sma_on_control :: "byte_array \<Rightarrow> byte_array \<Rightarrow> byte_array option"
  sma_on_e2_setup :: byte_array
  sma_has_free_act_def :: bool

text \<open>The data of an indication: header, message and, possibly, the identifier of the call process.\<close>
record sm_ind_data =
  sid_hdr :: byte_array
  sid_msg :: byte_array
  sid_cpid :: "byte_array option"

section \<open>Events\<close>

record ind_event =
  ie_ric_id :: ric_gen_id
  ie_sm :: "sm_agent option"
  ie_action_id :: uint8
  ie_type :: subscription_ans_e
  ie_act_def :: "byte list"

definition cmp_ind_event :: "ind_event \<Rightarrow> ind_event \<Rightarrow> int" where
  "cmp_ind_event m0 m1 = (let cmp = cmp_ric_gen_id (ie_ric_id m0) (ie_ric_id m1) in if cmp \<noteq> 0 then cmp else cmp)"

text \<open>The casts read the first field of the event, its identifier, and the first field of that, the number.\<close>
definition eq_ind_event_ric_req_id :: "ind_event \<Rightarrow> ind_event \<Rightarrow> bool" where
  "eq_ind_event_ric_req_id value key \<longleftrightarrow> ric_req_id (ie_ric_id value) = ric_req_id (ie_ric_id key)"

definition eq_ind_event :: "ind_event \<Rightarrow> ind_event \<Rightarrow> bool" where
  "eq_ind_event value key \<longleftrightarrow> eq_ric_gen_id (ie_ric_id value) (ie_ric_id key)"

record aind_event =
  ai_ric_id :: ric_gen_id
  ai_sm :: "sm_agent option"
  ai_action_id :: uint8
  ai_ind_data :: "byte list"

datatype sctp_in = SCTP_MSG_NOTIFICATION | SCTP_MSG_PAYLOAD e2ap_msg

datatype async_event = CHECK_STOP_TOKEN_EVENT | SCTP_CONNECTION_SHUTDOWN_EVENT | SCTP_MSG_ARRIVED_EVENT e2ap_msg
  | INDICATION_EVENT ind_event | APERIODIC_INDICATION_EVENT "aind_event list" | PENDING_EVENT pending_event

section \<open>State\<close>

record e2_agent =
  ag_ep_fd :: int
  ag_io :: "int set"
  ag_pipe_r :: int
  ag_pipe_bytes :: nat
  ag_sm_ds :: "(uint16, sm_agent) assoc_rb_tree"
  ag_ind_event :: "(int, ind_event) bi_map"
  ag_pending :: "(int, pending_event) bi_map"
  ag_id :: global_e2_node_id
  ag_aind :: "aind_event list"
  ag_trans_id :: uint32
  ag_sent :: "e2ap_msg list"
  ag_freed :: "byte list list"
  ag_ended :: "uint32 list"

section \<open>Input and output\<close>

definition add_fd_asio_agent :: "int set \<Rightarrow> int \<Rightarrow> int set option" where
  "add_fd_asio_agent fds fd = do { c_assert (fd \<notin> fds); Some (insert fd fds) }"

definition rm_fd_asio_agent :: "int set \<Rightarrow> int \<Rightarrow> int set option" where
  "rm_fd_asio_agent fds fd = do { c_assert (fd \<in> fds); Some (fds - {fd}) }"

definition create_timer_ms_asio_agent :: "int set \<Rightarrow> int \<Rightarrow> int \<Rightarrow> int \<Rightarrow> int set option" where
  "create_timer_ms_asio_agent fds tfd initial_ms interval_ms = do {
     c_assert (initial_ms > - 1);
     c_assert (interval_ms > - 1);
     c_assert (tfd \<noteq> - 1);
     add_fd_asio_agent fds tfd
   }"

definition e2ap_send_bytes_agent :: "e2_agent \<Rightarrow> e2ap_msg \<Rightarrow> e2_agent" where
  "e2ap_send_bytes_agent ag m = ag\<lparr>ag_sent := ag_sent ag @ [m]\<rparr>"

definition consume_fd_sync :: "int \<Rightarrow> unit option" where
  "consume_fd_sync fd = c_assert (fd > 0)"

text \<open>At most four bytes are read from the pipe; the read of an empty pipe waits.\<close>
definition consume_fd_async :: "e2_agent \<Rightarrow> (nat \<times> e2_agent) option" where
  "consume_fd_async ag = do {
     c_assert (ag_pipe_r ag > 0);
     c_assert (ag_pipe_bytes ag > 0);
     let bytes = min 4 (ag_pipe_bytes ag);
     Some (bytes, ag\<lparr>ag_pipe_bytes := ag_pipe_bytes ag - bytes\<rparr>)
   }"

definition sm_plugin_ag :: "e2_agent \<Rightarrow> uint16 \<Rightarrow> sm_agent option" where
  "sm_plugin_ag ag key = do {
     c_assert (0 < key);
     it \<leftarrow> find_all_rb_tree (ag_sm_ds ag) key (\<lambda>a b. Some (eq_ran_func_id a b));
     c_assert (it \<noteq> assoc_rb_tree_end (ag_sm_ds ag));
     v \<leftarrow> assoc_rb_tree_value (ag_sm_ds ag) it;
     sm \<leftarrow> v;
     c_assert (sma_id sm = key);
     Some sm
   }"

definition size_plugin_ag :: "e2_agent \<Rightarrow> nat" where
  "size_plugin_ag ag = assoc_rb_tree_size (ag_sm_ds ag)"

section \<open>Setup\<close>

definition cp_str_to_ba :: "string \<Rightarrow> byte_array" where
  "cp_str_to_ba str = map of_char str"

text \<open>One RAN function per plug-in; after the loop the iterator has to be the end.\<close>
fun gen_rf_loop :: "(uint16, sm_agent) assoc_rb_tree \<Rightarrow> addr \<Rightarrow> nat \<Rightarrow> ran_function list option" where
  "gen_rf_loop t it 0 = do { c_assert (it = assoc_rb_tree_end t); Some [] }"
| "gen_rf_loop t it (Suc n) = do {
     v \<leftarrow> assoc_rb_tree_value t it;
     sm \<leftarrow> v;
     k \<leftarrow> assoc_rb_tree_key t it;
     c_assert (k = Some (sma_id sm));
     it \<leftarrow> assoc_rb_tree_next t it;
     rfs \<leftarrow> gen_rf_loop t it n;
     Some (\<lparr>rf_defn = sma_on_e2_setup sm, rf_id = sma_id sm, rf_rev = sma_rev sm, rf_oid = cp_str_to_ba (sma_oid sm)\<rparr> # rfs)
   }"

text \<open>The component configurations are read from the RAN.\<close>
definition gen_setup_request_v2 ::
  "e2_agent \<Rightarrow> e2ap_node_component_config_add list \<Rightarrow> (e2_setup_request \<times> e2_agent) option"
where
  "gen_setup_request_v2 ag cca = do {
     let len_rf = assoc_rb_tree_size (ag_sm_ds ag);
     c_assert (len_rf > 0);
     it \<leftarrow> assoc_rb_tree_front (ag_sm_ds ag);
     rfs \<leftarrow> gen_rf_loop (ag_sm_ds ag) it len_rf;
     Some (\<lparr>stp_trans_id = ucast (ag_trans_id ag), stp_id = cp_global_e2_node_id (ag_id ag), stp_ran_func_item = rfs,
       stp_comp_conf_add = cca\<rparr>, ag\<lparr>ag_trans_id := ag_trans_id ag + 1\<rparr>)
   }"

definition init_pending_events :: "addr \<Rightarrow> addr \<Rightarrow> (int, pending_event) bi_map option" where
  "init_pending_events a1 a2 = bi_map_init a1 a2 4 4 cmp_fd (\<lambda>a b. Some (cmp_pending_event a b)) True True"

definition init_indication_event :: "addr \<Rightarrow> addr \<Rightarrow> (int, ind_event) bi_map option" where
  "init_indication_event a1 a2 = bi_map_init a1 a2 4 32 cmp_fd (\<lambda>a b. Some (cmp_ind_event a b)) True True"

text \<open>The plug-ins are loaded from a directory; the descriptors come from the kernel.\<close>
definition e2_init_agent ::
  "(nat \<Rightarrow> addr) \<Rightarrow> int \<Rightarrow> int \<Rightarrow> int \<Rightarrow> (uint16, sm_agent) assoc_rb_tree \<Rightarrow> global_e2_node_id \<Rightarrow> e2_agent option"
where
  "e2_init_agent mal port ep_fd pipe_r plugins nid = do {
     c_assert (port > 0 \<and> port < 65535);
     fds \<leftarrow> add_fd_asio_agent {} pipe_r;
     fds \<leftarrow> add_fd_asio_agent fds ep_fd;
     p \<leftarrow> init_pending_events (mal 0) (mal 1);
     i \<leftarrow> init_indication_event (mal 2) (mal 3);
     Some \<lparr>ag_ep_fd = ep_fd, ag_io = fds, ag_pipe_r = pipe_r, ag_pipe_bytes = 0, ag_sm_ds = plugins, ag_ind_event = i,
       ag_pending = p, ag_id = nid, ag_aind = [], ag_trans_id = 0, ag_sent = [], ag_freed = [], ag_ended = []\<rparr>
   }"

text \<open>A timer for the answer to the setup.\<close>
definition pend_setup :: "(nat \<Rightarrow> addr) \<Rightarrow> int \<Rightarrow> e2_agent \<Rightarrow> e2_agent option" where
  "pend_setup mal tfd ag = do {
     let wait_ms = 3000;
     fds \<leftarrow> create_timer_ms_asio_agent (ag_io ag) tfd wait_ms wait_ms;
     p \<leftarrow> bi_map_insert (mal 0) (mal 1) (ag_pending ag) tfd 4 SETUP_REQUEST_PENDING_EVENT 4;
     Some (ag\<lparr>ag_io := fds, ag_pending := p\<rparr>)
   }"

text \<open>The part before the loop.\<close>
definition e2_start_agent ::
  "(nat \<Rightarrow> addr) \<Rightarrow> int \<Rightarrow> e2ap_node_component_config_add list \<Rightarrow> e2_agent \<Rightarrow> e2_agent option"
where
  "e2_start_agent mal tfd cca ag = do {
     (sr, ag) \<leftarrow> gen_setup_request_v2 ag cca;
     ag \<leftarrow> pend_setup mal tfd ag;
     Some (e2ap_send_bytes_agent ag (e2_stp_req sr))
   }"

section \<open>Handlers\<close>

definition check_valid_msg_type :: "e2ap_msg \<Rightarrow> bool" where
  "check_valid_msg_type m = (case m of ric_sub_req _ \<Rightarrow> True | ric_sub_del_req _ \<Rightarrow> True | ric_ctrl_req _ \<Rightarrow> True
     | err_ind \<Rightarrow> True | e2_stp_resp _ \<Rightarrow> True | e2_stp_fail \<Rightarrow> True | rst_req \<Rightarrow> True | rst_resp \<Rightarrow> True
     | ric_serv_updt_ack \<Rightarrow> True | ric_serv_updt_fail \<Rightarrow> True | ric_serv_query \<Rightarrow> True | e2_node_conf_updt_ack \<Rightarrow> True
     | e2_node_conf_updt_fail \<Rightarrow> True | e2_conn_updt \<Rightarrow> True | _ \<Rightarrow> False)"

definition not_aperiodic_ind_event :: "int \<Rightarrow> bool option" where
  "not_aperiodic_ind_event fd = do { c_assert (fd > - 1); Some (fd \<noteq> 0) }"

text \<open>A subscription that is not there is only reported.\<close>
definition stop_ind_event :: "e2_agent \<Rightarrow> ric_gen_id \<Rightarrow> (bool \<times> e2_agent) option" where
  "stop_ind_event ag i = do {
     let tmp = \<lparr>ie_ric_id = i, ie_sm = None, ie_action_id = 0, ie_type = PERIODIC_SUBSCRIPTION_FLRC, ie_act_def = []\<rparr>;
     let r = right_tree (ag_ind_event ag);
     it \<leftarrow> find_all_rb_tree r tmp (\<lambda>a b. Some (eq_ind_event a b));
     if it = assoc_rb_tree_end r then Some (False, ag)
     else do {
       k \<leftarrow> assoc_rb_tree_key r it;
       ev \<leftarrow> k;
       sm \<leftarrow> ie_sm ev;
       let ag = (if sma_has_free_act_def sm then ag\<lparr>ag_freed := ag_freed ag @ [ie_act_def ev]\<rparr> else ag);
       let ag = (if ie_type ev = APERIODIC_SUBSCRIPTION_FLRC then ag\<lparr>ag_ended := ag_ended ag @ [ric_req_id i]\<rparr> else ag);
       (fd, key, m) \<leftarrow> bi_map_extract_right (ag_ind_event ag) tmp 32;
       c_assert (fd > - 1);
       let ag = ag\<lparr>ag_ind_event := m\<rparr>;
       b \<leftarrow> not_aperiodic_ind_event fd;
       if b then do {
         fds \<leftarrow> rm_fd_asio_agent (ag_io ag) fd;
         Some (True, ag\<lparr>ag_io := fds\<rparr>)
       }
       else Some (True, ag)
     }
   }"

definition supported_ric_subscription_request :: "ric_subscription_request \<Rightarrow> bool option" where
  "supported_ric_subscription_request sr = do {
     c_assert (length (sr_action sr) = 1);
     c_assert (act_type (sr_action sr ! 0) = RIC_ACT_REPORT);
     Some True
   }"

definition generate_subscription_response :: "ric_gen_id \<Rightarrow> uint8 \<Rightarrow> ric_subscription_response" where
  "generate_subscription_response i act = \<lparr>rs_ric_id = i, rs_admitted = [\<lparr>ric_act_id = act\<rparr>], rs_not_admitted = []\<rparr>"

definition e2ap_handle_subscription_request_agent ::
  "(nat \<Rightarrow> addr) \<Rightarrow> int \<Rightarrow> e2_agent \<Rightarrow> ric_subscription_request \<Rightarrow> (e2ap_msg \<times> e2_agent) option"
where
  "e2ap_handle_subscription_request_agent mal tfd ag sr = do {
     b \<leftarrow> supported_ric_subscription_request sr;
     c_assert b;
     sm \<leftarrow> sm_plugin_ag ag (ran_func_id (sr_ric_id sr));
     subs \<leftarrow> sma_on_subscription sm (sr_event_trigger sr) (act_definition (sr_action sr ! 0)) (ric_req_id (sr_ric_id sr));
     let ev = \<lparr>ie_ric_id = sr_ric_id sr, ie_sm = Some sm, ie_action_id = act_id (sr_action sr ! 0), ie_type = ans_type subs,
       ie_act_def = ans_act_def subs\<rparr>;
     ag \<leftarrow> (case ie_type ev of
         PERIODIC_SUBSCRIPTION_FLRC \<Rightarrow> do {
           c_assert (ans_ms subs < 10001);
           fds \<leftarrow> create_timer_ms_asio_agent (ag_io ag) tfd (ans_ms subs) (ans_ms subs);
           m \<leftarrow> bi_map_insert (mal 0) (mal 1) (ag_ind_event ag) tfd 4 ev 32;
           Some (ag\<lparr>ag_io := fds, ag_ind_event := m\<rparr>)
         }
       | APERIODIC_SUBSCRIPTION_FLRC \<Rightarrow> do {
           let fd = 0;
           m \<leftarrow> bi_map_insert (mal 0) (mal 1) (ag_ind_event ag) fd 4 ev 32;
           Some (ag\<lparr>ag_ind_event := m\<rparr>)
         }
       | END_SUBSCRIPTION__FLRC \<Rightarrow> None);
     Some (ric_sub_resp (generate_subscription_response (sr_ric_id sr) (act_id (sr_action sr ! 0))), ag)
   }"

definition e2ap_handle_subscription_delete_request_agent ::
  "e2_agent \<Rightarrow> ric_subscription_delete_request \<Rightarrow> (e2ap_msg \<times> e2_agent) option"
where
  "e2ap_handle_subscription_delete_request_agent ag sdr = do {
     (found, ag) \<leftarrow> stop_ind_event ag (sdr_ric_id sdr);
     Some (ric_sub_del_resp \<lparr>sdp_ric_id = sdr_ric_id sdr\<rparr>, ag)
   }"

definition ba_from_ctrl_out :: "byte_array \<Rightarrow> byte_array option" where
  "ba_from_ctrl_out data = (let sz = length data in if sz > 0 then Some (take sz data) else None)"

definition e2ap_handle_control_request_agent ::
  "e2_agent \<Rightarrow> ric_control_request \<Rightarrow> (e2ap_msg \<times> e2_agent) option"
where
  "e2ap_handle_control_request_agent ag cr = do {
     c_assert (cr_ack_req cr = Some RIC_CONTROL_REQUEST_ACK);
     sm \<leftarrow> sm_plugin_ag ag (ran_func_id (cr_ric_id cr));
     ctrl_ans \<leftarrow> sma_on_control sm (cr_hdr cr) (cr_msg cr);
     Some (ric_ctrl_ack \<lparr>ca_ric_id = cr_ric_id cr, ca_call_process_id = None,
       ca_control_outcome = ba_from_ctrl_out ctrl_ans\<rparr>, ag)
   }"

definition stop_pending_event_agent :: "e2_agent \<Rightarrow> pending_event \<Rightarrow> e2_agent option" where
  "stop_pending_event_agent ag ev = do {
     (fd, key, p) \<leftarrow> bi_map_extract_right (ag_pending ag) ev 4;
     c_assert (fd > 0);
     fds \<leftarrow> rm_fd_asio_agent (ag_io ag) fd;
     Some (ag\<lparr>ag_pending := p, ag_io := fds\<rparr>)
   }"

text \<open>The number that is printed is decremented in place before it is set to zero.\<close>
definition e2ap_handle_setup_response_agent :: "e2_agent \<Rightarrow> e2_setup_response \<Rightarrow> (e2ap_msg \<times> e2_agent) option" where
  "e2ap_handle_setup_response_agent ag resp = do {
     ag \<leftarrow> stop_pending_event_agent ag SETUP_REQUEST_PENDING_EVENT;
     c_assert (ag_trans_id ag > 0);
     let ag = ag\<lparr>ag_trans_id := ag_trans_id ag - 1\<rparr>;
     Some (no_msg, ag\<lparr>ag_trans_id := 0\<rparr>)
   }"

text \<open>A failed setup is only printed: the assertions on its cause are left out, since the model of the
  message has no cause.  The types that follow assert that they are not implemented.\<close>
definition e2ap_msg_handle_agent ::
  "(nat \<Rightarrow> addr) \<Rightarrow> int \<Rightarrow> e2_agent \<Rightarrow> e2ap_msg \<Rightarrow> (e2ap_msg \<times> e2_agent) option"
where
  "e2ap_msg_handle_agent mal tfd ag msg = do {
     c_assert (check_valid_msg_type msg);
     (case msg of
         ric_sub_req m \<Rightarrow> e2ap_handle_subscription_request_agent mal tfd ag m
       | ric_sub_del_req m \<Rightarrow> e2ap_handle_subscription_delete_request_agent ag m
       | ric_ctrl_req m \<Rightarrow> e2ap_handle_control_request_agent ag m
       | e2_stp_resp m \<Rightarrow> e2ap_handle_setup_response_agent ag m
       | e2_stp_fail \<Rightarrow> Some (no_msg, ag)
       | _ \<Rightarrow> None)
   }"

text \<open>The loss of the connection starts the timer after which the setup is sent again.\<close>
definition notification_handle_ag :: "(nat \<Rightarrow> addr) \<Rightarrow> int \<Rightarrow> e2_agent \<Rightarrow> e2_agent option" where
  "notification_handle_ag mal tfd ag = pend_setup mal tfd ag"

section \<open>Indications\<close>

text \<open>The allocation for the identifier of the call process has the size of its length field, so that
  the two fields that are then written do not fit.\<close>
definition generate_indication :: "sm_ind_data \<Rightarrow> ric_gen_id \<Rightarrow> uint8 \<Rightarrow> ric_indication option" where
  "generate_indication d i act = (case sid_cpid d of
       None \<Rightarrow> Some \<lparr>ind_ric_id = i, ind_action_id = act, ind_sn = None, ind_type = RIC_IND_REPORT, ind_hdr = sid_hdr d,
         ind_msg = sid_msg d, ind_call_process_id = None\<rparr>
     | Some cpid \<Rightarrow> do {
         let allocated = 8; let needed = (16 :: nat);
         c_assert (needed \<le> allocated);
         Some \<lparr>ind_ric_id = i, ind_action_id = act, ind_sn = None, ind_type = RIC_IND_REPORT, ind_hdr = sid_hdr d,
           ind_msg = sid_msg d, ind_call_process_id = Some cpid\<rparr>
       })"

text \<open>The loop over the aperiodic events: what the plug-in makes of each is in the list \<open>exps\<close>.\<close>
fun aind_loop :: "e2_agent \<Rightarrow> aind_event list \<Rightarrow> sm_ind_data option list \<Rightarrow> e2_agent option" where
  "aind_loop ag [] exps = Some ag"
| "aind_loop ag (a # as) exps = do {
     sm \<leftarrow> ai_sm a;
     (case hd exps of
         None \<Rightarrow> do {
           (rc, ag) \<leftarrow> consume_fd_async ag;
           c_assert (rc \<noteq> 1);
           aind_loop ag as (tl exps)
         }
       | Some d \<Rightarrow> do {
           ind \<leftarrow> generate_indication d (ai_ric_id a) (ai_action_id a);
           let ag = e2ap_send_bytes_agent ag (ric_ind ind);
           (rc, ag) \<leftarrow> consume_fd_async ag;
           c_assert (rc \<noteq> 1);
           aind_loop ag as (tl exps)
         })
   }"

text \<open>The number of digits that are written to the pipe.\<close>
fun digits :: "nat \<Rightarrow> nat" where
  "digits n = (if n < 10 then 1 else Suc (digits (n div 10)))"

declare digits.simps [simp del]

text \<open>Called by the RAN: the event is queued and announced.  The search is repeated ten times to give the
  subscription time to arrive; here the map does not change in between.\<close>
definition e2_async_event_agent :: "e2_agent \<Rightarrow> uint32 \<Rightarrow> byte list \<Rightarrow> e2_agent option" where
  "e2_async_event_agent ag req data = do {
     let tmp = \<lparr>ie_ric_id = \<lparr>ric_req_id = req, ric_inst_id = 0, ran_func_id = 0\<rparr>, ie_sm = None, ie_action_id = 0,
       ie_type = PERIODIC_SUBSCRIPTION_FLRC, ie_act_def = []\<rparr>;
     let r = right_tree (ag_ind_event ag);
     it \<leftarrow> find_all_rb_tree r tmp (\<lambda>a b. Some (eq_ind_event_ric_req_id a b));
     c_assert (it \<noteq> assoc_rb_tree_end r);
     k \<leftarrow> assoc_rb_tree_key r it;
     ev \<leftarrow> k;
     let aind = \<lparr>ai_ric_id = ie_ric_id ev, ai_sm = ie_sm ev, ai_action_id = ie_action_id ev, ai_ind_data = data\<rparr>;
     let rc = digits (unat req);
     c_assert (rc > 0 \<and> rc < 31);
     Some (ag\<lparr>ag_aind := ag_aind ag @ [aind], ag_pipe_bytes := ag_pipe_bytes ag + rc\<rparr>)
   }"

section \<open>The event loop\<close>

definition net_pkt :: "e2_agent \<Rightarrow> int \<Rightarrow> bool option" where
  "net_pkt ag fd = do { c_assert (fd > 0); Some (fd = ag_ep_fd ag) }"

text \<open>All the queued events are taken out.\<close>
definition aind_event_agent :: "e2_agent \<Rightarrow> int \<Rightarrow> (aind_event list \<times> e2_agent) option option" where
  "aind_event_agent ag fd =
     (if fd \<noteq> ag_pipe_r ag then Some None
      else do {
        let sz = length (ag_aind ag);
        c_assert (sz > 0);
        Some (Some (take sz (ag_aind ag), ag\<lparr>ag_aind := drop sz (ag_aind ag)\<rparr>))
      })"

definition ind_event_agent :: "e2_agent \<Rightarrow> int \<Rightarrow> ind_event option option" where
  "ind_event_agent ag fd = do {
     c_assert (fd > 0);
     let l = left_tree (ag_ind_event ag);
     it \<leftarrow> find_all_rb_tree l fd eq_fd;
     if it \<noteq> assoc_rb_tree_end l then do {
       v \<leftarrow> assoc_rb_tree_value l it;
       ev \<leftarrow> v;
       Some (Some ev)
     }
     else Some None
   }"

definition pend_event_agent :: "e2_agent \<Rightarrow> int \<Rightarrow> pending_event option" where
  "pend_event_agent ag fd = do {
     c_assert (fd > 0);
     sz \<leftarrow> bi_map_size (ag_pending ag);
     c_assert (sz = 1);
     let l = left_tree (ag_pending ag);
     it \<leftarrow> find_all_rb_tree l fd eq_fd;
     c_assert (it \<noteq> assoc_rb_tree_end l);
     v \<leftarrow> assoc_rb_tree_value l it;
     v
   }"

text \<open>The descriptor that is ready, or \<open>-1\<close>, and what the socket holds.\<close>
definition next_async_event_agent :: "e2_agent \<Rightarrow> int \<Rightarrow> sctp_in \<Rightarrow> (async_event \<times> e2_agent) option" where
  "next_async_event_agent ag fd rcv =
     (if fd = - 1 then Some (CHECK_STOP_TOKEN_EVENT, ag)
      else do {
        net \<leftarrow> net_pkt ag fd;
        if net then Some (case rcv of SCTP_MSG_NOTIFICATION \<Rightarrow> SCTP_CONNECTION_SHUTDOWN_EVENT
            | SCTP_MSG_PAYLOAD m \<Rightarrow> SCTP_MSG_ARRIVED_EVENT m, ag)
        else do {
          ai \<leftarrow> aind_event_agent ag fd;
          (case ai of
              Some (arr, ag) \<Rightarrow> Some (APERIODIC_INDICATION_EVENT arr, ag)
            | None \<Rightarrow> do {
                i \<leftarrow> ind_event_agent ag fd;
                (case i of
                    Some ev \<Rightarrow> Some (INDICATION_EVENT ev, ag)
                  | None \<Rightarrow> do {
                      p \<leftarrow> pend_event_agent ag fd;
                      Some (PENDING_EVENT p, ag)
                    })
              })
        }
      })"

text \<open>One turn of the loop.\<close>
definition e2_event_loop_agent ::
  "(nat \<Rightarrow> addr) \<Rightarrow> int \<Rightarrow> e2ap_node_component_config_add list \<Rightarrow> sm_ind_data option list \<Rightarrow> e2_agent \<Rightarrow> int \<Rightarrow> sctp_in \<Rightarrow>
    e2_agent option"
where
  "e2_event_loop_agent mal tfd cca exps ag fd rcv = do {
     (e, ag) \<leftarrow> next_async_event_agent ag fd rcv;
     (case e of
         SCTP_MSG_ARRIVED_EVENT msg \<Rightarrow> do {
           (ans, ag) \<leftarrow> e2ap_msg_handle_agent mal tfd ag msg;
           if ans \<noteq> no_msg then Some (e2ap_send_bytes_agent ag ans) else Some ag
         }
       | APERIODIC_INDICATION_EVENT arr \<Rightarrow> do {
           c_assert (length arr > 0);
           aind_loop ag arr exps
         }
       | INDICATION_EVENT ev \<Rightarrow> do {
           sm \<leftarrow> ie_sm ev;
           (case hd exps of
               None \<Rightarrow> do { consume_fd_sync fd; Some ag }
             | Some d \<Rightarrow> do {
                 ind \<leftarrow> generate_indication d (ie_ric_id ev) (ie_action_id ev);
                 let ag = e2ap_send_bytes_agent ag (ric_ind ind);
                 consume_fd_sync fd;
                 Some ag
               })
         }
       | PENDING_EVENT p \<Rightarrow> do {
           c_assert (p = SETUP_REQUEST_PENDING_EVENT);
           (sr, ag) \<leftarrow> gen_setup_request_v2 ag cca;
           let ag = e2ap_send_bytes_agent ag (e2_stp_req sr);
           consume_fd_sync fd;
           Some ag
         }
       | SCTP_CONNECTION_SHUTDOWN_EVENT \<Rightarrow> notification_handle_ag mal tfd ag
       | CHECK_STOP_TOKEN_EVENT \<Rightarrow> Some ag)
   }"

section \<open>The end\<close>

definition free_sm_agent :: "uint16 option \<times> sm_agent option \<Rightarrow> uint16 option" where
  "free_sm_agent kv = do { k \<leftarrow> fst kv; sm \<leftarrow> snd kv; Some (sma_id sm) }"

text \<open>The plug-ins, with the functions they were asked for by number.\<close>
definition free_plugin_ag :: "e2_agent \<Rightarrow> uint16 list option" where
  "free_plugin_ag ag = do {
     (rel, t) \<leftarrow> assoc_rb_tree_free (ag_sm_ds ag);
     cp_loop free_sm_agent rel
   }"

definition free_fd_agent :: "int option \<times> pending_event option \<Rightarrow> unit option" where
  "free_fd_agent kv = do { fd \<leftarrow> fst kv; v \<leftarrow> snd kv; c_assert (0 < fd) }"

definition free_pending_ev :: "pending_event option \<times> int option \<Rightarrow> unit option" where
  "free_pending_ev kv = do { ev \<leftarrow> fst kv; v \<leftarrow> snd kv; b \<leftarrow> valid_pending_event ev; c_assert b }"

text \<open>Releases the action definition of the event, if the plug-in asks for it: the plug-in is read, which
  must not be among those that have been released.\<close>
definition free_ind_event_map :: "uint16 list \<Rightarrow> int option \<times> ind_event option \<Rightarrow> byte list list option" where
  "free_ind_event_map released kv = do {
     k \<leftarrow> fst kv;
     ev \<leftarrow> snd kv;
     sm \<leftarrow> ie_sm ev;
     c_assert (sma_id sm \<notin> set released);
     Some (if sma_has_free_act_def sm then [ie_act_def ev] else [])
   }"

definition free_key :: "ind_event option \<times> int option \<Rightarrow> unit option" where
  "free_key kv = do { k \<leftarrow> fst kv; v \<leftarrow> snd kv; Some () }"

definition free_pending_agent :: "e2_agent \<Rightarrow> unit option" where
  "free_pending_agent ag = do {
     (ls, rs, m) \<leftarrow> bi_map_free (ag_pending ag);
     us \<leftarrow> cp_loop free_fd_agent ls;
     us \<leftarrow> cp_loop free_pending_ev rs;
     Some ()
   }"

definition free_indication_event :: "uint16 list \<Rightarrow> e2_agent \<Rightarrow> byte list list option" where
  "free_indication_event released ag = do {
     (li, ri, m) \<leftarrow> bi_map_free (ag_ind_event ag);
     freed \<leftarrow> cp_loop (free_ind_event_map released) li;
     us \<leftarrow> cp_loop free_key ri;
     Some (concat freed)
   }"

text \<open>The loop has ended; the result is what is released of the action definitions.\<close>
definition e2_free_agent :: "e2_agent \<Rightarrow> byte list list option" where
  "e2_free_agent ag = do {
     released \<leftarrow> free_plugin_ag ag;
     free_pending_agent ag;
     free_indication_event released ag
   }"

end
