(* ===== verification/Agent_Facts.thy ===== *)
theory Agent_Facts
  imports Agent Controller_Parts
begin

text \<open>
  The agent on its abstract contents: the running indications and the pending setup are
  multisets of pairs, the plug-ins a list.
\<close>

section \<open>Contents\<close>

lemma cmp_ind_event_order: "cmp_ind_event = (\<lambda>a b. cmp_ric_gen_id (ie_ric_id a) (ie_ric_id b))"
  by (intro ext) (simp add: cmp_ind_event_def Let_def)

interpretation ind: comparator cmp_ind_event
  unfolding cmp_ind_event_order by (rule comparator_pull[OF ric_gen.comparator_axioms])

interpretation ind_table: bi_comparators order_fd cmp_ind_event
  by (intro bi_comparators.intro fd.comparator_axioms ind.comparator_axioms)

interpretation setup_table: bi_comparators order_fd cmp_pending_event
  by (intro bi_comparators.intro fd.comparator_axioms pend.comparator_axioms)

definition ind_rep :: "(int, ind_event) bi_map \<Rightarrow> (int \<times> ind_event) multiset \<Rightarrow> bool" where
  "ind_rep m S \<longleftrightarrow> bm_rep valid_fd order_fd (\<lambda>_. True) cmp_ind_event m S \<and>
     key_sz (left_tree m) = 4 \<and> key_sz (right_tree m) = 32 \<and> has_free_func (left_tree m) \<and> has_free_func (right_tree m)"

definition setup_rep :: "(int, pending_event) bi_map \<Rightarrow> (int \<times> pending_event) multiset \<Rightarrow> bool" where
  "setup_rep m P \<longleftrightarrow> bm_rep valid_fd order_fd (\<lambda>_. True) cmp_pending_event m P \<and>
     key_sz (left_tree m) = 4 \<and> key_sz (right_tree m) = 4 \<and> has_free_func (left_tree m) \<and> has_free_func (right_tree m)"

definition ag_rep :: "e2_agent \<Rightarrow> (int \<times> ind_event) multiset \<Rightarrow> (int \<times> pending_event) multiset \<Rightarrow>
    (uint16 \<times> sm_agent) list \<Rightarrow> bool" where
  "ag_rep ag S P ps \<longleftrightarrow> ind_rep (ag_ind_event ag) S \<and> setup_rep (ag_pending ag) P \<and> tree_rep (ag_sm_ds ag) ps"

lemma ag_repD:
  assumes "ag_rep ag S P ps"
  shows "ind_rep (ag_ind_event ag) S" "setup_rep (ag_pending ag) P" "tree_rep (ag_sm_ds ag) ps"
  using assms by (simp_all add: ag_rep_def)

text \<open>The addresses of the next insertion are free.\<close>
definition ag_fresh :: "(nat \<Rightarrow> addr) \<Rightarrow> e2_agent \<Rightarrow> bool" where
  "ag_fresh mal ag \<longleftrightarrow> fresh_for (ag_ind_event ag) (mal 0) (mal 1) \<and> fresh_for (ag_pending ag) (mal 0) (mal 1)"

text \<open>What the agent keeps: an indication has its plug-in; a periodic one has a timer that is polled and is neither the
  socket nor the pipe, an aperiodic one has none; so has the pending setup; no two events have the same number.\<close>
definition ag_inv :: "e2_agent \<Rightarrow> (int \<times> ind_event) multiset \<Rightarrow> (int \<times> pending_event) multiset \<Rightarrow> bool" where
  "ag_inv ag S P \<longleftrightarrow> 0 < ag_ep_fd ag \<and> 0 < ag_pipe_r ag \<and> ag_ep_fd ag \<noteq> ag_pipe_r ag \<and> ag_ep_fd ag \<in> ag_io ag \<and> ag_pipe_r ag \<in> ag_io ag \<and>
     (\<forall>(fd, ev) \<in># S. ie_sm ev \<noteq> None \<and> (ie_type ev = PERIODIC_SUBSCRIPTION_FLRC \<or> ie_type ev = APERIODIC_SUBSCRIPTION_FLRC) \<and>
        (if ie_type ev = APERIODIC_SUBSCRIPTION_FLRC then fd = 0
         else 0 < fd \<and> fd \<in> ag_io ag \<and> fd \<noteq> ag_ep_fd ag \<and> fd \<noteq> ag_pipe_r ag)) \<and>
     (\<forall>(fd, p) \<in># P. 0 < fd \<and> fd \<in> ag_io ag \<and> fd \<noteq> ag_ep_fd ag \<and> fd \<noteq> ag_pipe_r ag \<and> (\<forall>(f, ev) \<in># S. f \<noteq> fd))"

lemma cmp_ind_event_0: "cmp_ind_event a b = 0 \<longleftrightarrow> ie_ric_id a = ie_ric_id b"
  by (simp add: cmp_ind_event_order cmp_ric_gen_id_0)

lemma cmp_pending_event_0: "cmp_pending_event a b = 0 \<longleftrightarrow> a = b"
  by (auto simp: cmp_pending_event_def)

section \<open>The two tables\<close>

lemma ind_add:
  assumes "ind_rep m S" "fresh_for m a1 a2" "0 \<le> fd" "\<forall>(f, e) \<in># S. f \<noteq> fd \<and> ie_ric_id e \<noteq> ie_ric_id ev"
  shows "\<exists>m'. bi_map_insert a1 a2 m fd 4 ev 32 = Some m' \<and> ind_rep m' (add_mset (fd, ev) S)"
proof -
  have m: "bm_rep valid_fd order_fd (\<lambda>_. True) cmp_ind_event m S"
    "key_sz (left_tree m) = 4" "key_sz (right_tree m) = 32" "has_free_func (left_tree m)" "has_free_func (right_tree m)"
    using assms(1) by (simp_all add: ind_rep_def)
  have "\<forall>(f, e) \<in># S. order_fd fd f \<noteq> 0 \<and> cmp_ind_event ev e \<noteq> 0"
    using assms(4) by (fastforce simp: order_fd_0 cmp_ind_event_0)
  from ind_table.insert_bm_rep[OF m(1) _ TrueI this m(2,3), of a1 a2] show ?thesis
    using assms(2,3) m by (auto simp: valid_fd_def fresh_for_def ind_rep_def bm_same_def)
qed

lemma ind_extract:
  assumes "ind_rep m S" "(fd, ev) \<in># S" "ie_ric_id tmp = ie_ric_id ev"
  shows "\<exists>m'. bi_map_extract_right m tmp 32 = Some (fd, ev, m') \<and> ind_rep m' (S - {#(fd, ev)#})"
proof -
  have m: "bm_rep valid_fd order_fd (\<lambda>_. True) cmp_ind_event m S"
    "key_sz (left_tree m) = 4" "key_sz (right_tree m) = 32" "has_free_func (left_tree m)" "has_free_func (right_tree m)"
    using assms(1) by (simp_all add: ind_rep_def)
  have "cmp_ind_event tmp ev = 0" using assms(3) by (simp add: cmp_ind_event_0)
  from ind_table.extract_right_bm_rep[OF m(1) TrueI m(3) assms(2) this m(5)] show ?thesis
    using m by (auto simp: ind_rep_def bm_same_def)
qed

lemma setup_add:
  assumes "setup_rep m P" "fresh_for m a1 a2" "0 < fd" "\<forall>(f, e) \<in># P. f \<noteq> fd \<and> e \<noteq> ev"
  shows "\<exists>m'. bi_map_insert a1 a2 m fd 4 ev 4 = Some m' \<and> setup_rep m' (add_mset (fd, ev) P)"
proof -
  have m: "bm_rep valid_fd order_fd (\<lambda>_. True) cmp_pending_event m P"
    "key_sz (left_tree m) = 4" "key_sz (right_tree m) = 4" "has_free_func (left_tree m)" "has_free_func (right_tree m)"
    using assms(1) by (simp_all add: setup_rep_def)
  have "\<forall>(f, e) \<in># P. order_fd fd f \<noteq> 0 \<and> cmp_pending_event ev e \<noteq> 0"
    using assms(4) by (fastforce simp: order_fd_0 cmp_pending_event_0)
  from setup_table.insert_bm_rep[OF m(1) _ TrueI this m(2,3), of a1 a2] show ?thesis
    using assms(2,3) m by (auto simp: valid_fd_def fresh_for_def setup_rep_def bm_same_def)
qed

lemma setup_extract:
  assumes "setup_rep m P" "(fd, ev) \<in># P"
  shows "\<exists>m'. bi_map_extract_right m ev 4 = Some (fd, ev, m') \<and> setup_rep m' (P - {#(fd, ev)#})"
proof -
  have m: "bm_rep valid_fd order_fd (\<lambda>_. True) cmp_pending_event m P"
    "key_sz (left_tree m) = 4" "key_sz (right_tree m) = 4" "has_free_func (left_tree m)" "has_free_func (right_tree m)"
    using assms(1) by (simp_all add: setup_rep_def)
  have "cmp_pending_event ev ev = 0" by simp
  from setup_table.extract_right_bm_rep[OF m(1) TrueI m(3) assms(2) this m(5)] show ?thesis
    using m by (auto simp: setup_rep_def bm_same_def)
qed

text \<open>The other pairs of a map have other keys.\<close>
lemma bm_rep_others:
  assumes "bm_rep v1 c1 v2 c2 m P" "comparator c1" "(a, b) \<in># P"
  shows "\<forall>(a', b') \<in># P - {#(a, b)#}. c1 a a' \<noteq> 0"
proof -
  obtain es where es: "mset (map snd es) = P" "uniq c1 es" using assms(1) by (auto simp: bm_rep_def)
  obtain x where x: "x \<in> set es" "snd x = (a, b)" using assms(3) by (auto simp flip: es(1))
  obtain xs ys where sp: "es = xs @ x # ys" using x(1) by (metis split_list)
  have r: "P - {#(a, b)#} = mset (map snd (xs @ ys))" using es(1) x(2) sp by auto
  have u: "\<forall>y \<in> set (xs @ ys). c1 (entry_key x) (entry_key y) \<noteq> 0"
    using es(2) comparator.cmp_sym_0[OF assms(2)] unfolding sp uniq_append by auto
  have k: "entry_key x = a" using x(2) by (simp add: entry_key_def)
  show ?thesis
  proof clarify
    fix a' b' assume "(a', b') \<in># P - {#(a, b)#}" "c1 a a' = 0"
    then have "(a', b') \<in> snd ` set (xs @ ys)" unfolding r by (simp only: set_mset_mset set_map)
    then obtain y where "y \<in> set (xs @ ys)" "snd y = (a', b')" by (metis imageE)
    then show False using u k \<open>c1 a a' = 0\<close> by (fastforce simp: entry_key_def)
  qed
qed

text \<open>The look-up of an event by its identifier, in the right tree; the key that is found is the event itself.\<close>
lemma find_key_right:
  assumes m: "bm_rep v1 c1 v2 c2 m P" and ab: "(a, b) \<in># P" and p: "e q b"
    and u: "\<forall>(a', b') \<in># P. e q b' \<longrightarrow> b' = b"
  obtains it where "find_all_rb_tree (right_tree m) q (\<lambda>x y. Some (e x y)) = Some it" "it \<noteq> assoc_rb_tree_end (right_tree m)"
    "assoc_rb_tree_key (right_tree m) it = Some (Some b)"
  using find_right_bm_rep[where f = "\<lambda>x y. Some (e x y)" and p = "e q" and q = q, OF m] ab p u by fastforce

lemma find_key_right_end:
  assumes m: "bm_rep v1 c1 v2 c2 m P" and u: "\<forall>(a', b') \<in># P. \<not> e q b'"
  shows "find_all_rb_tree (right_tree m) q (\<lambda>x y. Some (e x y)) = Some (assoc_rb_tree_end (right_tree m))"
  using find_right_bm_rep[where f = "\<lambda>x y. Some (e x y)" and p = "e q" and q = q, OF m] u by fastforce

text \<open>The look-up by descriptor.\<close>
lemma find_fd:
  assumes m: "bm_rep valid_fd order_fd v2 c2 m S" and fd: "(fd, ev) \<in># S" "0 \<le> fd"
  obtains it where "find_all_rb_tree (left_tree m) fd eq_fd = Some it" "it \<noteq> assoc_rb_tree_end (left_tree m)"
    "assoc_rb_tree_value (left_tree m) it = Some (Some ev)"
proof -
  have v: "\<forall>(a, b) \<in># S. valid_fd a" using m by (fastforce simp: bm_rep_def rb_rep_def entry_key_def)
  have f: "\<forall>(a, b) \<in># S. eq_fd fd a = Some (a = fd)" using v fd(2) by (auto simp: eq_fd_def valid_fd_def)
  have u: "\<forall>(a, b) \<in># S. a = fd \<longrightarrow> b = ev" using bm_rep_left_unique[OF m fd.comparator_axioms fd(1)] by fastforce
  show thesis
    using find_value_left[where f = eq_fd and p = "\<lambda>a. a = fd" and q = fd, OF m f fd(1) _ u] that by blast
qed

lemma find_fd_end:
  assumes m: "bm_rep valid_fd order_fd v2 c2 m S" and fd: "\<forall>(f, e) \<in># S. f \<noteq> fd" "0 \<le> fd"
  shows "find_all_rb_tree (left_tree m) fd eq_fd = Some (assoc_rb_tree_end (left_tree m))"
proof -
  have v: "\<forall>(a, b) \<in># S. valid_fd a" using m by (fastforce simp: bm_rep_def rb_rep_def entry_key_def)
  show ?thesis
    by (rule find_none_left[OF m, where p = "\<lambda>a. a = fd"]) (use v fd in \<open>auto simp: eq_fd_def valid_fd_def\<close>)
qed

section \<open>Subscriptions\<close>

lemma sm_plugin_ag_rep:
  assumes "tree_rep (ag_sm_ds ag) ps" "(k, sm) \<in> set ps" "0 < k" "sma_id sm = k"
  shows "sm_plugin_ag ag k = Some sm"
  by (rule tree_find[OF assms(1,2)]) (use assms(3,4) in \<open>simp add: sm_plugin_ag_def\<close>)

text \<open>What the agent keeps of a subscription, and what it answers.\<close>
definition sub_answer :: "sm_agent \<Rightarrow> ric_subscription_request \<Rightarrow> sm_ag_if_ans_subs option" where
  "sub_answer sm sr = sma_on_subscription sm (sr_event_trigger sr) (act_definition (sr_action sr ! 0)) (ric_req_id (sr_ric_id sr))"

definition ind_event_of :: "sm_agent \<Rightarrow> ric_subscription_request \<Rightarrow> ind_event" where
  "ind_event_of sm sr = (let subs = the (sub_answer sm sr) in
     \<lparr>ie_ric_id = sr_ric_id sr, ie_sm = Some sm, ie_action_id = act_id (sr_action sr ! 0), ie_type = ans_type subs, ie_act_def = ans_act_def subs\<rparr>)"

text \<open>A subscription that the agent serves with a timer of \<open>ms\<close> milliseconds.\<close>
definition periodic :: "sm_agent \<Rightarrow> ric_subscription_request \<Rightarrow> bool" where
  "periodic sm sr \<longleftrightarrow> (\<exists>a. sr_action sr = [a] \<and> act_type a = RIC_ACT_REPORT) \<and>
     (\<exists>subs. sub_answer sm sr = Some subs \<and> ans_type subs = PERIODIC_SUBSCRIPTION_FLRC \<and> 0 \<le> ans_ms subs \<and> ans_ms subs < 10001)"

definition ag_new :: "e2_agent \<Rightarrow> (int \<times> ind_event) multiset \<Rightarrow> (int \<times> pending_event) multiset \<Rightarrow> int \<Rightarrow> bool" where
  "ag_new ag S P tfd \<longleftrightarrow> 0 < tfd \<and> tfd \<notin> ag_io ag"

lemma new_fd:
  assumes "ag_inv ag S P" "ag_new ag S P tfd"
  shows "\<forall>(f, e) \<in># S. f \<noteq> tfd" "\<forall>(f, e) \<in># P. f \<noteq> tfd" "tfd \<noteq> ag_ep_fd ag" "tfd \<noteq> ag_pipe_r ag" "0 < tfd" "tfd \<notin> ag_io ag"
proof -
  have t: "0 < tfd" "tfd \<notin> ag_io ag" using assms(2) by (simp_all add: ag_new_def)
  then show "0 < tfd" "tfd \<notin> ag_io ag" by simp_all
  have "f \<noteq> tfd" if "(f, e) \<in># S" for f e
  proof -
    have "if ie_type e = APERIODIC_SUBSCRIPTION_FLRC then f = 0 else f \<in> ag_io ag"
      using assms(1) that unfolding ag_inv_def by fastforce
    then show ?thesis using t by (auto split: if_splits)
  qed
  then show "\<forall>(f, e) \<in># S. f \<noteq> tfd" by blast
  show "\<forall>(f, e) \<in># P. f \<noteq> tfd" using assms(1) t unfolding ag_inv_def by fastforce
  show "tfd \<noteq> ag_ep_fd ag" "tfd \<noteq> ag_pipe_r ag" using assms(1) t by (auto simp: ag_inv_def)
qed

lemma agent_subscribe:
  assumes R: "ag_rep ag S P ps" and I: "ag_inv ag S P" and mal: "ag_fresh mal ag" and sm: "(ran_func_id (sr_ric_id sr), sm) \<in> set ps"
    "0 < ran_func_id (sr_ric_id sr)" "sma_id sm = ran_func_id (sr_ric_id sr)"
    and per: "periodic sm sr" and new: "ag_new ag S P tfd" "\<forall>(f, e) \<in># S. ie_ric_id e \<noteq> sr_ric_id sr"
  obtains m where "e2ap_handle_subscription_request_agent mal tfd ag sr =
      Some (ric_sub_resp (generate_subscription_response (sr_ric_id sr) (act_id (sr_action sr ! 0))),
        ag\<lparr>ag_io := insert tfd (ag_io ag), ag_ind_event := m\<rparr>)"
    "ag_rep (ag\<lparr>ag_io := insert tfd (ag_io ag), ag_ind_event := m\<rparr>) (add_mset (tfd, ind_event_of sm sr) S) P ps"
    "ag_inv (ag\<lparr>ag_io := insert tfd (ag_io ag), ag_ind_event := m\<rparr>) (add_mset (tfd, ind_event_of sm sr) S) P"
proof -
  note f = new_fd[OF I new(1)]
  have "\<forall>(f, e) \<in># S. f \<noteq> tfd \<and> ie_ric_id e \<noteq> ie_ric_id (ind_event_of sm sr)"
    using f(1) new(2) by (fastforce simp: ind_event_of_def Let_def)
  moreover have "fresh_for (ag_ind_event ag) (mal 0) (mal 1)" "0 \<le> tfd" using mal f(5) by (simp_all add: ag_fresh_def)
  ultimately obtain m where m: "bi_map_insert (mal 0) (mal 1) (ag_ind_event ag) tfd 4 (ind_event_of sm sr) 32 = Some m"
    "ind_rep m (add_mset (tfd, ind_event_of sm sr) S)" using ind_add[OF ag_repD(1)[OF R]] by blast
  have p: "sm_plugin_ag ag (ran_func_id (sr_ric_id sr)) = Some sm" by (rule sm_plugin_ag_rep[OF ag_repD(3)[OF R] sm])
  obtain a where a: "sr_action sr = [a]" "act_type a = RIC_ACT_REPORT" using per by (auto simp: periodic_def)
  have t: "create_timer_ms_asio_agent (ag_io ag) tfd ms ms = Some (insert tfd (ag_io ag))" if "0 \<le> ms" for ms
    using that f(5,6) by (simp add: create_timer_ms_asio_agent_def add_fd_asio_agent_def)
  have h: "e2ap_handle_subscription_request_agent mal tfd ag sr =
      Some (ric_sub_resp (generate_subscription_response (sr_ric_id sr) (act_id (sr_action sr ! 0))),
        ag\<lparr>ag_io := insert tfd (ag_io ag), ag_ind_event := m\<rparr>)"
    using p a per m(1) t
    by (auto simp: e2ap_handle_subscription_request_agent_def supported_ric_subscription_request_def periodic_def ind_event_of_def
        sub_answer_def Let_def)
  have i: "ie_sm (ind_event_of sm sr) = Some sm" "ie_type (ind_event_of sm sr) = PERIODIC_SUBSCRIPTION_FLRC"
    using per by (auto simp: periodic_def ind_event_of_def Let_def)
  show thesis
  proof (rule that[OF h])
    show "ag_rep (ag\<lparr>ag_io := insert tfd (ag_io ag), ag_ind_event := m\<rparr>) (add_mset (tfd, ind_event_of sm sr) S) P ps"
      using m(2) R by (simp add: ag_rep_def)
    show "ag_inv (ag\<lparr>ag_io := insert tfd (ag_io ag), ag_ind_event := m\<rparr>) (add_mset (tfd, ind_event_of sm sr) S) P"
      using I i f unfolding ag_inv_def by (fastforce split: if_splits)
  qed
qed

text \<open>What remains of the agent after the end of a subscription.\<close>
definition ended :: "e2_agent \<Rightarrow> int \<Rightarrow> ind_event \<Rightarrow> (int, ind_event) bi_map \<Rightarrow> e2_agent" where
  "ended ag fd ev m = ag\<lparr>ag_ind_event := m, ag_io := ag_io ag - {fd},
     ag_freed := ag_freed ag @ (case ie_sm ev of None \<Rightarrow> [] | Some sm \<Rightarrow> if sma_has_free_act_def sm then [ie_act_def ev] else [])\<rparr>"

lemma ag_inv_ended:
  assumes "ag_inv ag S P" "\<forall>(f, x) \<in># S - {#(fd, ev)#}. f \<noteq> fd" "0 < fd" "fd \<in> ag_io ag" "fd \<noteq> ag_ep_fd ag" "fd \<noteq> ag_pipe_r ag"
    and "(fd, ev) \<in># S"
  shows "ag_inv (ended ag fd ev m) (S - {#(fd, ev)#}) P"
proof -
  have s: "ie_sm x \<noteq> None \<and> (ie_type x = PERIODIC_SUBSCRIPTION_FLRC \<or> ie_type x = APERIODIC_SUBSCRIPTION_FLRC) \<and>
        (if ie_type x = APERIODIC_SUBSCRIPTION_FLRC then f = 0
         else 0 < f \<and> f \<in> ag_io ag - {fd} \<and> f \<noteq> ag_ep_fd ag \<and> f \<noteq> ag_pipe_r ag)" if "(f, x) \<in># S - {#(fd, ev)#}" for f x
    using assms(1,2) that in_diffD[OF that] unfolding ag_inv_def by (fastforce split: if_splits)
  have p: "0 < f \<and> f \<in> ag_io ag - {fd} \<and> f \<noteq> ag_ep_fd ag \<and> f \<noteq> ag_pipe_r ag \<and> (\<forall>(g, x) \<in># S - {#(fd, ev)#}. g \<noteq> f)"
    if "(f, q) \<in># P" for f q
  proof -
    have "0 < f \<and> f \<in> ag_io ag \<and> f \<noteq> ag_ep_fd ag \<and> f \<noteq> ag_pipe_r ag \<and> (\<forall>(g, x) \<in># S. g \<noteq> f)"
      using assms(1) that unfolding ag_inv_def by blast
    then show ?thesis using assms(7) by (auto dest: in_diffD)
  qed
  show ?thesis using assms(1,3-6) s p unfolding ag_inv_def ended_def by fastforce
qed

lemma agent_unsubscribe:
  assumes R: "ag_rep ag S P ps" and I: "ag_inv ag S P" and ev: "(fd, ev) \<in># S" "ie_type ev = PERIODIC_SUBSCRIPTION_FLRC"
  obtains m where "e2ap_handle_subscription_delete_request_agent ag \<lparr>sdr_ric_id = ie_ric_id ev\<rparr> =
      Some (ric_sub_del_resp \<lparr>sdp_ric_id = ie_ric_id ev\<rparr>, ended ag fd ev m)"
    "ag_rep (ended ag fd ev m) (S - {#(fd, ev)#}) P ps" "ag_inv (ended ag fd ev m) (S - {#(fd, ev)#}) P"
proof -
  let ?tmp = "\<lparr>ie_ric_id = ie_ric_id ev, ie_sm = None, ie_action_id = 0, ie_type = PERIODIC_SUBSCRIPTION_FLRC, ie_act_def = []\<rparr>"
  have b: "bm_rep valid_fd order_fd (\<lambda>_. True) cmp_ind_event (ag_ind_event ag) S" using ag_repD(1)[OF R] by (simp add: ind_rep_def)
  have e: "0 < fd" "fd \<in> ag_io ag" "fd \<noteq> ag_ep_fd ag" "fd \<noteq> ag_pipe_r ag" and sm: "ie_sm ev \<noteq> None"
    using I ev unfolding ag_inv_def by fastforce+
  have "\<forall>(a', b') \<in># S. eq_ind_event ?tmp b' \<longrightarrow> b' = ev"
    using bm_rep_right_unique[OF b ind.comparator_axioms ev(1)] by (fastforce simp: eq_ind_event_def eq_ric_gen_id_iff cmp_ind_event_0)
  then obtain it where it: "find_all_rb_tree (right_tree (ag_ind_event ag)) ?tmp (\<lambda>x y. Some (eq_ind_event x y)) = Some it"
    "it \<noteq> assoc_rb_tree_end (right_tree (ag_ind_event ag))" "assoc_rb_tree_key (right_tree (ag_ind_event ag)) it = Some (Some ev)"
    using find_key_right[where e = eq_ind_event and q = ?tmp, OF b ev(1)] by (auto simp: eq_ind_event_def eq_ric_gen_id_iff)
  obtain m where m: "bi_map_extract_right (ag_ind_event ag) ?tmp 32 = Some (fd, ev, m)" "ind_rep m (S - {#(fd, ev)#})"
    using ind_extract[OF ag_repD(1)[OF R] ev(1), of ?tmp] by auto
  have h: "e2ap_handle_subscription_delete_request_agent ag \<lparr>sdr_ric_id = ie_ric_id ev\<rparr> =
      Some (ric_sub_del_resp \<lparr>sdp_ric_id = ie_ric_id ev\<rparr>, ended ag fd ev m)"
    using it m(1) sm e ev(2) by (auto simp: e2ap_handle_subscription_delete_request_agent_def stop_ind_event_def Let_def ended_def
        not_aperiodic_ind_event_def rm_fd_asio_agent_def)
  have u: "\<forall>(f, x) \<in># S - {#(fd, ev)#}. f \<noteq> fd"
    using bm_rep_others[OF b fd.comparator_axioms ev(1)] by (auto simp: order_fd_0)
  show thesis
  proof (rule that[OF h])
    show "ag_rep (ended ag fd ev m) (S - {#(fd, ev)#}) P ps" using m(2) R by (simp add: ag_rep_def ended_def)
    show "ag_inv (ended ag fd ev m) (S - {#(fd, ev)#}) P"
      using I u e ev(1) by (rule ag_inv_ended)
  qed
qed

text \<open>The end of a subscription that is not there is confirmed as well.\<close>
lemma agent_unsubscribe_absent:
  assumes "ag_rep ag S P ps" "\<forall>(f, e) \<in># S. ie_ric_id e \<noteq> i"
  shows "e2ap_handle_subscription_delete_request_agent ag \<lparr>sdr_ric_id = i\<rparr> = Some (ric_sub_del_resp \<lparr>sdp_ric_id = i\<rparr>, ag)"
proof -
  let ?tmp = "\<lparr>ie_ric_id = i, ie_sm = None, ie_action_id = 0, ie_type = PERIODIC_SUBSCRIPTION_FLRC, ie_act_def = []\<rparr>"
  have b: "bm_rep valid_fd order_fd (\<lambda>_. True) cmp_ind_event (ag_ind_event ag) S" using ag_repD(1)[OF assms(1)] by (simp add: ind_rep_def)
  have "\<forall>(a', b') \<in># S. \<not> eq_ind_event ?tmp b'" using assms(2) by (fastforce simp: eq_ind_event_def eq_ric_gen_id_iff)
  from find_key_right_end[where e = eq_ind_event and q = ?tmp, OF b this] show ?thesis
    by (simp add: e2ap_handle_subscription_delete_request_agent_def stop_ind_event_def Let_def)
qed

section \<open>Control\<close>

lemma agent_control:
  assumes R: "ag_rep ag S P ps" and sm: "(ran_func_id (cr_ric_id cr), sm) \<in> set ps" "0 < ran_func_id (cr_ric_id cr)"
    "sma_id sm = ran_func_id (cr_ric_id cr)" and "cr_ack_req cr = Some RIC_CONTROL_REQUEST_ACK" "sma_on_control sm (cr_hdr cr) (cr_msg cr) = Some res"
  shows "e2ap_handle_control_request_agent ag cr = Some (ric_ctrl_ack \<lparr>ca_ric_id = cr_ric_id cr, ca_call_process_id = None,
    ca_control_outcome = (if res = [] then None else Some res)\<rparr>, ag)"
  using sm_plugin_ag_rep[OF ag_repD(3)[OF R] sm] assms(5,6)
  by (simp add: e2ap_handle_control_request_agent_def ba_from_ctrl_out_def Let_def)

section \<open>The event loop\<close>

text \<open>A message from the controller: the answer is sent back.\<close>
lemma agent_message:
  assumes "ag_inv ag S P" "e2ap_msg_handle_agent mal tfd ag msg = Some (ans, ag')"
  shows "e2_event_loop_agent mal tfd cca exps ag (ag_ep_fd ag) (SCTP_MSG_PAYLOAD msg) =
    Some (if ans \<noteq> no_msg then e2ap_send_bytes_agent ag' ans else ag')"
  using assms by (simp add: e2_event_loop_agent_def next_async_event_agent_def net_pkt_def ag_inv_def)

text \<open>The timer of an indication.\<close>
lemma ind_timer:
  assumes R: "ag_rep ag S P ps" and I: "ag_inv ag S P" and ev: "(fd, ev) \<in># S" "ie_type ev = PERIODIC_SUBSCRIPTION_FLRC"
  shows "next_async_event_agent ag fd rcv = Some (INDICATION_EVENT ev, ag)" "0 < fd"
proof -
  have b: "bm_rep valid_fd order_fd (\<lambda>_. True) cmp_ind_event (ag_ind_event ag) S" using ag_repD(1)[OF R] by (simp add: ind_rep_def)
  have e: "0 < fd" "fd \<noteq> ag_ep_fd ag" "fd \<noteq> ag_pipe_r ag" using I ev unfolding ag_inv_def by fastforce+
  then show "0 < fd" by simp
  obtain it where "find_all_rb_tree (left_tree (ag_ind_event ag)) fd eq_fd = Some it" "it \<noteq> assoc_rb_tree_end (left_tree (ag_ind_event ag))"
    "assoc_rb_tree_value (left_tree (ag_ind_event ag)) it = Some (Some ev)"
    by (rule find_fd[OF b ev(1)]) (use e in simp_all)
  then show "next_async_event_agent ag fd rcv = Some (INDICATION_EVENT ev, ag)"
    using e by (simp add: next_async_event_agent_def net_pkt_def aind_event_agent_def ind_event_agent_def Let_def)
qed

definition indication :: "ind_event \<Rightarrow> sm_ind_data \<Rightarrow> ric_indication" where
  "indication ev d = \<lparr>ind_ric_id = ie_ric_id ev, ind_action_id = ie_action_id ev, ind_sn = None, ind_type = RIC_IND_REPORT,
     ind_hdr = sid_hdr d, ind_msg = sid_msg d, ind_call_process_id = None\<rparr>"

lemma agent_indicates:
  assumes R: "ag_rep ag S P ps" and I: "ag_inv ag S P" and ev: "(fd, ev) \<in># S" "ie_type ev = PERIODIC_SUBSCRIPTION_FLRC"
  shows "e2_event_loop_agent mal tfd cca (x # exps) ag fd rcv = (case x of None \<Rightarrow> Some ag
    | Some d \<Rightarrow> if sid_cpid d = None then Some (ag\<lparr>ag_sent := ag_sent ag @ [ric_ind (indication ev d)]\<rparr>) else None)"
proof -
  obtain sm where "ie_sm ev = Some sm" using I ev(1) unfolding ag_inv_def by fastforce
  then show ?thesis using ind_timer[OF R I ev]
    by (auto simp: e2_event_loop_agent_def consume_fd_sync_def generate_indication_def indication_def e2ap_send_bytes_agent_def
        split: option.splits)
qed

section \<open>Setup\<close>

text \<open>The RAN functions that are offered.\<close>
definition offered :: "sm_agent \<Rightarrow> ran_function" where
  "offered sm = \<lparr>rf_defn = sma_on_e2_setup sm, rf_id = sma_id sm, rf_rev = sma_rev sm, rf_oid = cp_str_to_ba (sma_oid sm)\<rparr>"

lemma gen_rf_loop_rep:
  assumes rb: "rb_rep (\<lambda>_. True) cmp_ran_func_id t es" and k: "\<forall>e \<in> set es. sma_id (snd (snd e)) = fst (snd e)"
  shows "i \<le> length es \<Longrightarrow> gen_rf_loop t ((map fst es @ [dummy t]) ! i) (length es - i) =
    Some (map (\<lambda>e. offered (snd (snd e))) (drop i es))"
proof (induction "length es - i" arbitrary: i)
  case 0
  then show ?case by (simp add: nth_append assoc_rb_tree_end_def)
next
  case (Suc n)
  then have i: "i < length es" by linarith
  note it = iterates[OF rb i]
  have n: "length es - i = Suc (length es - Suc i)" using i by linarith
  have IH: "gen_rf_loop t ((map fst es @ [dummy t]) ! Suc i) (length es - Suc i) = Some (map (\<lambda>e. offered (snd (snd e))) (drop (Suc i) es))"
    using Suc.hyps(1)[of "Suc i"] Suc.hyps(2) i by simp
  have "sma_id (snd (snd (es ! i))) = fst (snd (es ! i))" using k i by simp
  then show ?case using it IH by (simp add: n Cons_nth_drop_Suc[OF i, symmetric] offered_def)
qed

text \<open>All the plug-ins are offered, in the order of the tree.\<close>
lemma gen_setup_request_rep:
  assumes "tree_rep (ag_sm_ds ag) ps" "ps \<noteq> []" "\<forall>(k, sm) \<in> set ps. sma_id sm = k"
  shows "gen_setup_request_v2 ag cca = Some (\<lparr>stp_trans_id = ucast (ag_trans_id ag), stp_id = ag_id ag,
    stp_ran_func_item = map (\<lambda>(k, sm). offered sm) ps, stp_comp_conf_add = cca\<rparr>, ag\<lparr>ag_trans_id := ag_trans_id ag + 1\<rparr>)"
proof -
  obtain es where es: "rb_rep (\<lambda>_. True) cmp_ran_func_id (ag_sm_ds ag) es" "map snd es = ps" using assms(1) by (auto simp: tree_rep_def)
  have k: "\<forall>e \<in> set es. sma_id (snd (snd e)) = fst (snd e)" using assms(3) unfolding es(2)[symmetric] by (fastforce simp: split_beta)
  have sz: "assoc_rb_tree_size (ag_sm_ds ag) = length es" using es(1) by (simp add: rb_rep_def assoc_rb_tree_size_def)
  have ne: "length es > 0" using assms(2) es(2) by auto
  have "gen_rf_loop (ag_sm_ds ag) ((map fst es @ [dummy (ag_sm_ds ag)]) ! 0) (length es) = Some (map (\<lambda>e. offered (snd (snd e))) es)"
    using gen_rf_loop_rep[OF es(1) k, of 0] by simp
  moreover have "map (\<lambda>e. offered (snd (snd e))) es = map (\<lambda>(k, sm). offered sm) ps"
    using es(2) by (auto simp: split_beta)
  ultimately show ?thesis using front_place[OF es(1)] sz ne
    by (simp add: gen_setup_request_v2_def cp_global_e2_node_id_id Let_def)
qed

text \<open>Waiting for the answer to the setup.\<close>
lemma pend_setup_rep:
  assumes R: "ag_rep ag S {#} ps" and I: "ag_inv ag S {#}" and mal: "ag_fresh mal ag" and new: "ag_new ag S {#} tfd"
  obtains p where "pend_setup mal tfd ag = Some (ag\<lparr>ag_io := insert tfd (ag_io ag), ag_pending := p\<rparr>)"
    "ag_rep (ag\<lparr>ag_io := insert tfd (ag_io ag), ag_pending := p\<rparr>) S {#(tfd, SETUP_REQUEST_PENDING_EVENT)#} ps"
    "ag_inv (ag\<lparr>ag_io := insert tfd (ag_io ag), ag_pending := p\<rparr>) S {#(tfd, SETUP_REQUEST_PENDING_EVENT)#}"
proof -
  note f = new_fd[OF I new]
  have "fresh_for (ag_pending ag) (mal 0) (mal 1)" using mal by (simp add: ag_fresh_def)
  from setup_add[OF ag_repD(2)[OF R] this f(5), of SETUP_REQUEST_PENDING_EVENT] obtain p where
    p: "bi_map_insert (mal 0) (mal 1) (ag_pending ag) tfd 4 SETUP_REQUEST_PENDING_EVENT 4 = Some p"
    "setup_rep p {#(tfd, SETUP_REQUEST_PENDING_EVENT)#}" by auto
  have "pend_setup mal tfd ag = Some (ag\<lparr>ag_io := insert tfd (ag_io ag), ag_pending := p\<rparr>)"
    using p(1) f(5,6) by (simp add: pend_setup_def create_timer_ms_asio_agent_def add_fd_asio_agent_def)
  moreover have "ag_inv (ag\<lparr>ag_io := insert tfd (ag_io ag), ag_pending := p\<rparr>) S {#(tfd, SETUP_REQUEST_PENDING_EVENT)#}"
    using I f unfolding ag_inv_def by (fastforce split: if_splits)
  ultimately show thesis using that p(2) R by (simp add: ag_rep_def)
qed

text \<open>The answer to the setup.\<close>
lemma setup_response_rep:
  assumes R: "ag_rep ag S {#(fd, SETUP_REQUEST_PENDING_EVENT)#} ps" and I: "ag_inv ag S {#(fd, SETUP_REQUEST_PENDING_EVENT)#}"
    and "0 < ag_trans_id ag"
  obtains p where "e2ap_handle_setup_response_agent ag resp =
      Some (no_msg, ag\<lparr>ag_pending := p, ag_io := ag_io ag - {fd}, ag_trans_id := 0\<rparr>)"
    "ag_rep (ag\<lparr>ag_pending := p, ag_io := ag_io ag - {fd}, ag_trans_id := 0\<rparr>) S {#} ps"
    "ag_inv (ag\<lparr>ag_pending := p, ag_io := ag_io ag - {fd}, ag_trans_id := 0\<rparr>) S {#}"
proof -
  have e: "0 < fd" "fd \<in> ag_io ag" "fd \<noteq> ag_ep_fd ag" "fd \<noteq> ag_pipe_r ag" "\<forall>(f, ev) \<in># S. f \<noteq> fd" using I by (simp_all add: ag_inv_def)
  from setup_extract[OF ag_repD(2)[OF R], of fd SETUP_REQUEST_PENDING_EVENT] obtain p where
    p: "bi_map_extract_right (ag_pending ag) SETUP_REQUEST_PENDING_EVENT 4 = Some (fd, SETUP_REQUEST_PENDING_EVENT, p)"
    "setup_rep p {#}" by auto
  have "e2ap_handle_setup_response_agent ag resp =
      Some (no_msg, ag\<lparr>ag_pending := p, ag_io := ag_io ag - {fd}, ag_trans_id := 0\<rparr>)"
    using p(1) e assms(3) by (simp add: e2ap_handle_setup_response_agent_def stop_pending_event_agent_def rm_fd_asio_agent_def Let_def)
  moreover have "ag_inv (ag\<lparr>ag_pending := p, ag_io := ag_io ag - {fd}, ag_trans_id := 0\<rparr>) S {#}"
    using I e unfolding ag_inv_def by (fastforce split: if_splits)
  ultimately show thesis using that p(2) R by (simp add: ag_rep_def)
qed

text \<open>No answer in time: the setup is sent again.\<close>
lemma setup_timer:
  assumes R: "ag_rep ag S {#(fd, SETUP_REQUEST_PENDING_EVENT)#} ps" and I: "ag_inv ag S {#(fd, SETUP_REQUEST_PENDING_EVENT)#}"
  shows "next_async_event_agent ag fd rcv = Some (PENDING_EVENT SETUP_REQUEST_PENDING_EVENT, ag)" "0 < fd"
proof -
  have e: "0 < fd" "fd \<noteq> ag_ep_fd ag" "fd \<noteq> ag_pipe_r ag" "\<forall>(f, ev) \<in># S. f \<noteq> fd" using I by (simp_all add: ag_inv_def)
  then show "0 < fd" by simp
  have b: "bm_rep valid_fd order_fd (\<lambda>_. True) cmp_ind_event (ag_ind_event ag) S" using ag_repD(1)[OF R] by (simp add: ind_rep_def)
  have p: "bm_rep valid_fd order_fd (\<lambda>_. True) cmp_pending_event (ag_pending ag) {#(fd, SETUP_REQUEST_PENDING_EVENT)#}"
    using ag_repD(2)[OF R] by (simp add: setup_rep_def)
  have "find_all_rb_tree (left_tree (ag_ind_event ag)) fd eq_fd = Some (assoc_rb_tree_end (left_tree (ag_ind_event ag)))"
    using find_fd_end[OF b e(4)] e(1) by simp
  moreover obtain it where "find_all_rb_tree (left_tree (ag_pending ag)) fd eq_fd = Some it" "it \<noteq> assoc_rb_tree_end (left_tree (ag_pending ag))"
    "assoc_rb_tree_value (left_tree (ag_pending ag)) it = Some (Some SETUP_REQUEST_PENDING_EVENT)"
    by (rule find_fd[OF p _ order.strict_implies_order[OF e(1)]]) simp
  ultimately show "next_async_event_agent ag fd rcv = Some (PENDING_EVENT SETUP_REQUEST_PENDING_EVENT, ag)"
    using e size_bm_rep[OF p]
    by (simp add: next_async_event_agent_def net_pkt_def aind_event_agent_def ind_event_agent_def pend_event_agent_def Let_def)
qed

end
