(* ===== verification/Agent_Spec.thy ===== *)
theory Agent_Spec
  imports Agent_Facts
begin

text \<open>
  What the agent is meant to do, without trees and memory: the running indications and the pending setup
  are multisets, the plug-ins a list, and a step relation says what is answered and what is sent.
  The code implements it (\<open>agent_step\<close>).  The premises are the contract of the controller: one report action per
  subscription, no identifier that is in use, a control that asks for an acknowledgement.
\<close>

section \<open>State\<close>

record aagent =
  inds :: "(int \<times> ind_event) multiset"
  setups :: "(int \<times> pending_event) multiset"
  plugs :: "(uint16 \<times> sm_agent) list"
  node_id :: global_e2_node_id
  polled :: "int set"
  trans :: uint32
  out :: "e2ap_msg list"
  released :: "byte list list"

text \<open>What wakes the agent: a message, the loss of the connection, a timer with what the plug-in then reports,
  or nothing.\<close>
datatype agent_in = FROM_RIC e2ap_msg | LOST | TIMEOUT int "sm_ind_data option" | NOTHING

definition agent_run ::
  "(nat \<Rightarrow> addr) \<Rightarrow> int \<Rightarrow> e2ap_node_component_config_add list \<Rightarrow> e2_agent \<Rightarrow> agent_in \<Rightarrow> e2_agent option"
where
  "agent_run mal tfd cca ag ev = (case ev of
       FROM_RIC m \<Rightarrow> e2_event_loop_agent mal tfd cca [] ag (ag_ep_fd ag) (SCTP_MSG_PAYLOAD m)
     | LOST \<Rightarrow> e2_event_loop_agent mal tfd cca [] ag (ag_ep_fd ag) SCTP_MSG_NOTIFICATION
     | TIMEOUT fd x \<Rightarrow> e2_event_loop_agent mal tfd cca [x] ag fd SCTP_MSG_NOTIFICATION
     | NOTHING \<Rightarrow> e2_event_loop_agent mal tfd cca [] ag (- 1) SCTP_MSG_NOTIFICATION)"

text \<open>The plug-ins have positive numbers and release functions, every indication has one of them, and what is
  pending is a setup.\<close>
definition ag_sane :: "aagent \<Rightarrow> bool" where
  "ag_sane a \<longleftrightarrow> (\<forall>(k, sm) \<in> set (plugs a). 0 < k \<and> sma_id sm = k) \<and> plugs a \<noteq> [] \<and>
     (\<forall>(fd, ev) \<in># inds a. \<exists>sm. ie_sm ev = Some sm \<and> (sma_id sm, sm) \<in> set (plugs a)) \<and>
     (\<forall>(fd, e) \<in># setups a. e = SETUP_REQUEST_PENDING_EVENT)"

definition ag_abs :: "e2_agent \<Rightarrow> aagent \<Rightarrow> bool" where
  "ag_abs ag a \<longleftrightarrow> ag_rep ag (inds a) (setups a) (plugs a) \<and> ag_inv ag (inds a) (setups a) \<and>
     ag_sane a \<and> has_free_func (ag_sm_ds ag) \<and>
     ag_id ag = node_id a \<and> ag_io ag = polled a \<and> ag_trans_id ag = trans a \<and> ag_sent ag = out a \<and> ag_freed ag = released a"

lemma ag_absD:
  assumes "ag_abs ag a"
  shows "ag_rep ag (inds a) (setups a) (plugs a)" "ag_inv ag (inds a) (setups a)"
    "\<forall>(k, sm) \<in> set (plugs a). 0 < k \<and> sma_id sm = k" "plugs a \<noteq> []" "ag_id ag = node_id a" "ag_io ag = polled a"
    "ag_trans_id ag = trans a" "ag_sent ag = out a" "ag_freed ag = released a" "ag_sane a" "has_free_func (ag_sm_ds ag)"
  using assms by (simp_all add: ag_abs_def ag_sane_def)

section \<open>Steps\<close>

definition setup_request :: "aagent \<Rightarrow> e2ap_node_component_config_add list \<Rightarrow> e2_setup_request" where
  "setup_request a cca = \<lparr>stp_trans_id = ucast (trans a), stp_id = node_id a,
     stp_ran_func_item = map (\<lambda>(k, sm). offered sm) (plugs a), stp_comp_conf_add = cca\<rparr>"

definition act_def_of :: "ind_event \<Rightarrow> byte list list" where
  "act_def_of ev = (case ie_sm ev of None \<Rightarrow> [] | Some sm \<Rightarrow> if sma_has_free_act_def sm then [ie_act_def ev] else [])"

inductive agstep :: "e2ap_node_component_config_add list \<Rightarrow> int \<Rightarrow> aagent \<Rightarrow> agent_in \<Rightarrow> aagent \<Rightarrow> bool" for cca tfd a where
  subscribe: "(ran_func_id (sr_ric_id sr), sm) \<in> set (plugs a) \<Longrightarrow> periodic sm sr \<Longrightarrow> 0 < tfd \<Longrightarrow> tfd \<notin> polled a \<Longrightarrow>
    \<forall>(f, e) \<in># inds a. ie_ric_id e \<noteq> sr_ric_id sr \<Longrightarrow>
    agstep cca tfd a (FROM_RIC (ric_sub_req sr)) (a\<lparr>inds := add_mset (tfd, ind_event_of sm sr) (inds a), polled := insert tfd (polled a),
      out := out a @ [ric_sub_resp (generate_subscription_response (sr_ric_id sr) (act_id (sr_action sr ! 0)))]\<rparr>)"
| unsubscribe: "(fd, ev) \<in># inds a \<Longrightarrow> ie_type ev = PERIODIC_SUBSCRIPTION_FLRC \<Longrightarrow> i = ie_ric_id ev \<Longrightarrow>
    agstep cca tfd a (FROM_RIC (ric_sub_del_req \<lparr>sdr_ric_id = i\<rparr>)) (a\<lparr>inds := inds a - {#(fd, ev)#}, polled := polled a - {fd},
      released := released a @ act_def_of ev, out := out a @ [ric_sub_del_resp \<lparr>sdp_ric_id = i\<rparr>]\<rparr>)"
| unsubscribe_absent: "\<forall>(f, e) \<in># inds a. ie_ric_id e \<noteq> i \<Longrightarrow>
    agstep cca tfd a (FROM_RIC (ric_sub_del_req \<lparr>sdr_ric_id = i\<rparr>)) (a\<lparr>out := out a @ [ric_sub_del_resp \<lparr>sdp_ric_id = i\<rparr>]\<rparr>)"
| control: "(ran_func_id (cr_ric_id cr), sm) \<in> set (plugs a) \<Longrightarrow> cr_ack_req cr = Some RIC_CONTROL_REQUEST_ACK \<Longrightarrow>
    sma_on_control sm (cr_hdr cr) (cr_msg cr) = Some res \<Longrightarrow>
    agstep cca tfd a (FROM_RIC (ric_ctrl_req cr)) (a\<lparr>out := out a @ [ric_ctrl_ack \<lparr>ca_ric_id = cr_ric_id cr,
      ca_call_process_id = None, ca_control_outcome = if res = [] then None else Some res\<rparr>]\<rparr>)"
| set_up: "setups a = {#(fd, SETUP_REQUEST_PENDING_EVENT)#} \<Longrightarrow> 0 < trans a \<Longrightarrow>
    agstep cca tfd a (FROM_RIC (e2_stp_resp resp)) (a\<lparr>setups := {#}, polled := polled a - {fd}, trans := 0\<rparr>)"
| setup_failed: "agstep cca tfd a (FROM_RIC e2_stp_fail) a"
| setup_again: "setups a = {#(fd, SETUP_REQUEST_PENDING_EVENT)#} \<Longrightarrow>
    agstep cca tfd a (TIMEOUT fd x) (a\<lparr>trans := trans a + 1, out := out a @ [e2_stp_req (setup_request a cca)]\<rparr>)"
| lost: "setups a = {#} \<Longrightarrow> 0 < tfd \<Longrightarrow> tfd \<notin> polled a \<Longrightarrow>
    agstep cca tfd a LOST (a\<lparr>setups := {#(tfd, SETUP_REQUEST_PENDING_EVENT)#}, polled := insert tfd (polled a)\<rparr>)"
| indicate: "(fd, ev) \<in># inds a \<Longrightarrow> ie_type ev = PERIODIC_SUBSCRIPTION_FLRC \<Longrightarrow> sid_cpid d = None \<Longrightarrow>
    agstep cca tfd a (TIMEOUT fd (Some d)) (a\<lparr>out := out a @ [ric_ind (indication ev d)]\<rparr>)"
| no_data: "(fd, ev) \<in># inds a \<Longrightarrow> ie_type ev = PERIODIC_SUBSCRIPTION_FLRC \<Longrightarrow> agstep cca tfd a (TIMEOUT fd None) a"
| nothing: "agstep cca tfd a NOTHING a"

inductive_cases agstepE: "agstep cca tfd a ev a'"

section \<open>The code implements it\<close>

text \<open>What the steps keep of the abstract state.\<close>
lemma ind_event_of_fields:
  "periodic sm sr \<Longrightarrow> ie_sm (ind_event_of sm sr) = Some sm \<and> ie_type (ind_event_of sm sr) = PERIODIC_SUBSCRIPTION_FLRC \<and>
    ie_ric_id (ind_event_of sm sr) = sr_ric_id sr \<and> ie_action_id (ind_event_of sm sr) = act_id (sr_action sr ! 0)"
  by (auto simp: periodic_def ind_event_of_def Let_def)

lemma ag_sane_cong [simp]:
  "ag_sane (a\<lparr>polled := p\<rparr>) = ag_sane a" "ag_sane (a\<lparr>trans := t\<rparr>) = ag_sane a" "ag_sane (a\<lparr>out := q\<rparr>) = ag_sane a"
  "ag_sane (a\<lparr>released := r\<rparr>) = ag_sane a" "ag_sane a \<Longrightarrow> ag_sane (a\<lparr>setups := {#}\<rparr>)"
  "ag_sane a \<Longrightarrow> ag_sane (a\<lparr>setups := {#(fd, SETUP_REQUEST_PENDING_EVENT)#}\<rparr>)"
  "ag_sane a \<Longrightarrow> ag_sane (a\<lparr>inds := inds a - S\<rparr>)"
  by (auto simp: ag_sane_def dest: in_diffD)

lemma ag_sane_add:
  assumes "ag_sane a" "(k, sm) \<in> set (plugs a)" "periodic sm sr"
  shows "ag_sane (a\<lparr>inds := add_mset (fd, ind_event_of sm sr) (inds a)\<rparr>)"
proof -
  have "sma_id sm = k" using assms(1,2) by (auto simp: ag_sane_def)
  then show ?thesis using assms(1,2) ind_event_of_fields[OF assms(3)] by (simp add: ag_sane_def)
qed

text \<open>The parts of the state that are neither a table nor polled do not matter to the tables.\<close>
lemma ag_rep_cong:
  assumes "ag_ind_event ag = ag_ind_event ag'" "ag_pending ag = ag_pending ag'" "ag_sm_ds ag = ag_sm_ds ag'"
  shows "ag_rep ag S P ps \<longleftrightarrow> ag_rep ag' S P ps"
  using assms by (simp add: ag_rep_def)

lemma ag_inv_cong:
  assumes "ag_ep_fd ag = ag_ep_fd ag'" "ag_pipe_r ag = ag_pipe_r ag'" "ag_io ag = ag_io ag'"
  shows "ag_inv ag S P \<longleftrightarrow> ag_inv ag' S P"
  using assms by (simp add: ag_inv_def)

text \<open>What is sent is appended.\<close>
lemma ag_abs_sent:
  assumes "ag_abs ag a"
  shows "ag_abs (e2ap_send_bytes_agent ag m) (a\<lparr>out := out a @ [m]\<rparr>)"
proof -
  have "ag_rep (e2ap_send_bytes_agent ag m) S P ps \<longleftrightarrow> ag_rep ag S P ps" for S P ps
    by (rule ag_rep_cong) (simp_all add: e2ap_send_bytes_agent_def)
  moreover have "ag_inv (e2ap_send_bytes_agent ag m) S P \<longleftrightarrow> ag_inv ag S P" for S P
    by (rule ag_inv_cong) (simp_all add: e2ap_send_bytes_agent_def)
  ultimately show ?thesis using assms by (simp add: ag_abs_def) (simp add: e2ap_send_bytes_agent_def)
qed

text \<open>A handler whose answer is sent.\<close>
lemma answer_sent:
  assumes "ag_abs ag a" "e2ap_msg_handle_agent mal tfd ag m = Some (ans, ag1)" "ag_abs ag1 a1" "ans \<noteq> no_msg"
  shows "\<exists>ag'. agent_run mal tfd cca ag (FROM_RIC m) = Some ag' \<and> ag_abs ag' (a1\<lparr>out := out a1 @ [ans]\<rparr>)"
  using agent_message[OF ag_absD(2)[OF assms(1)] assms(2), of cca "[]"] ag_abs_sent[OF assms(3), of ans] assms(4)
  by (auto simp: agent_run_def)

lemma no_answer:
  assumes "ag_abs ag a" "e2ap_msg_handle_agent mal tfd ag m = Some (no_msg, ag1)" "ag_abs ag1 a1"
  shows "\<exists>ag'. agent_run mal tfd cca ag (FROM_RIC m) = Some ag' \<and> ag_abs ag' a1"
  using agent_message[OF ag_absD(2)[OF assms(1)] assms(2), of cca "[]"] assms(3) by (auto simp: agent_run_def)

lemmas handle_defs = e2ap_msg_handle_agent_def check_valid_msg_type_def

lemma ag_subscribe_step:
  assumes A: "ag_abs ag a" and mal: "ag_fresh mal ag"
    and h: "(ran_func_id (sr_ric_id sr), sm) \<in> set (plugs a)" "periodic sm sr" "0 < tfd" "tfd \<notin> polled a"
      "\<forall>(f, e) \<in># inds a. ie_ric_id e \<noteq> sr_ric_id sr"
  shows "\<exists>ag'. agent_run mal tfd cca ag (FROM_RIC (ric_sub_req sr)) = Some ag' \<and>
    ag_abs ag' (a\<lparr>inds := add_mset (tfd, ind_event_of sm sr) (inds a), polled := insert tfd (polled a),
      out := out a @ [ric_sub_resp (generate_subscription_response (sr_ric_id sr) (act_id (sr_action sr ! 0)))]\<rparr>)"
proof -
  note d = ag_absD[OF A]
  have k: "0 < ran_func_id (sr_ric_id sr)" "sma_id sm = ran_func_id (sr_ric_id sr)" using d(3) h(1) by auto
  have n: "ag_new ag (inds a) (setups a) tfd" using h(3,4) d(6) by (simp add: ag_new_def)
  from agent_subscribe[OF d(1,2) mal h(1) k h(2) n h(5)] obtain m where
    m: "e2ap_handle_subscription_request_agent mal tfd ag sr =
      Some (ric_sub_resp (generate_subscription_response (sr_ric_id sr) (act_id (sr_action sr ! 0))),
        ag\<lparr>ag_io := insert tfd (ag_io ag), ag_ind_event := m\<rparr>)"
    "ag_rep (ag\<lparr>ag_io := insert tfd (ag_io ag), ag_ind_event := m\<rparr>) (add_mset (tfd, ind_event_of sm sr) (inds a)) (setups a) (plugs a)"
    "ag_inv (ag\<lparr>ag_io := insert tfd (ag_io ag), ag_ind_event := m\<rparr>) (add_mset (tfd, ind_event_of sm sr) (inds a)) (setups a)" .
  have "ag_abs (ag\<lparr>ag_io := insert tfd (ag_io ag), ag_ind_event := m\<rparr>)
      (a\<lparr>inds := add_mset (tfd, ind_event_of sm sr) (inds a), polled := insert tfd (polled a)\<rparr>)"
    using m(2,3) d ag_sane_add[OF d(10) h(1,2), of tfd] by (simp add: ag_abs_def)
  from answer_sent[OF A _ this, of mal tfd "ric_sub_req sr"] m(1) show ?thesis by (simp add: handle_defs)
qed

lemma ag_unsubscribe_step:
  assumes A: "ag_abs ag a" and h: "(fd, ev) \<in># inds a" "ie_type ev = PERIODIC_SUBSCRIPTION_FLRC"
  shows "\<exists>ag'. agent_run mal tfd cca ag (FROM_RIC (ric_sub_del_req \<lparr>sdr_ric_id = ie_ric_id ev\<rparr>)) = Some ag' \<and>
    ag_abs ag' (a\<lparr>inds := inds a - {#(fd, ev)#}, polled := polled a - {fd},
      released := released a @ act_def_of ev, out := out a @ [ric_sub_del_resp \<lparr>sdp_ric_id = ie_ric_id ev\<rparr>]\<rparr>)"
proof -
  note d = ag_absD[OF A]
  from agent_unsubscribe[OF d(1,2) h] obtain m where
    m: "e2ap_handle_subscription_delete_request_agent ag \<lparr>sdr_ric_id = ie_ric_id ev\<rparr> =
      Some (ric_sub_del_resp \<lparr>sdp_ric_id = ie_ric_id ev\<rparr>, ended ag fd ev m)"
    "ag_rep (ended ag fd ev m) (inds a - {#(fd, ev)#}) (setups a) (plugs a)"
    "ag_inv (ended ag fd ev m) (inds a - {#(fd, ev)#}) (setups a)" .
  have "ag_abs (ended ag fd ev m) (a\<lparr>inds := inds a - {#(fd, ev)#}, polled := polled a - {fd}, released := released a @ act_def_of ev\<rparr>)"
    using m(2,3) d by (simp add: ag_abs_def) (simp add: ended_def act_def_of_def)
  from answer_sent[OF A _ this, of mal tfd "ric_sub_del_req \<lparr>sdr_ric_id = ie_ric_id ev\<rparr>"] m(1)
  show ?thesis by (simp add: handle_defs)
qed

lemma ag_setup_again_step:
  assumes A: "ag_abs ag a" and h: "setups a = {#(fd, SETUP_REQUEST_PENDING_EVENT)#}"
  shows "\<exists>ag'. agent_run mal tfd cca ag (TIMEOUT fd x) = Some ag' \<and>
    ag_abs ag' (a\<lparr>trans := trans a + 1, out := out a @ [e2_stp_req (setup_request a cca)]\<rparr>)"
proof -
  note d = ag_absD[OF A]
  have "gen_setup_request_v2 ag cca = Some (setup_request a cca, ag\<lparr>ag_trans_id := ag_trans_id ag + 1\<rparr>)"
    using gen_setup_request_rep[OF ag_repD(3)[OF d(1)] d(4), of cca] d(3,5,7) by (fastforce simp: setup_request_def)
  moreover have "ag_abs (ag\<lparr>ag_trans_id := ag_trans_id ag + 1\<rparr>) (a\<lparr>trans := trans a + 1\<rparr>)"
    using A ag_rep_cong[of "ag\<lparr>ag_trans_id := ag_trans_id ag + 1\<rparr>" ag] ag_inv_cong[of "ag\<lparr>ag_trans_id := ag_trans_id ag + 1\<rparr>" ag]
    by (simp add: ag_abs_def)
  from ag_abs_sent[OF this, of "e2_stp_req (setup_request a cca)"]
  have "ag_abs (e2ap_send_bytes_agent (ag\<lparr>ag_trans_id := ag_trans_id ag + 1\<rparr>) (e2_stp_req (setup_request a cca)))
      (a\<lparr>trans := trans a + 1, out := out a @ [e2_stp_req (setup_request a cca)]\<rparr>)" by simp
  ultimately show ?thesis using setup_timer(1)[OF d(1)[unfolded h] d(2)[unfolded h], of SCTP_MSG_NOTIFICATION]
      setup_timer(2)[OF d(1)[unfolded h] d(2)[unfolded h]]
    by (simp add: agent_run_def e2_event_loop_agent_def consume_fd_sync_def)
qed

text \<open>Every step of the specification is one of the code.\<close>
lemma agent_step:
  assumes "agstep cca tfd a ev a'" and A: "ag_abs ag a" and mal: "ag_fresh mal ag"
  shows "\<exists>ag'. agent_run mal tfd cca ag ev = Some ag' \<and> ag_abs ag' a'"
  using assms(1)
proof (cases rule: agstep.cases)
  case (subscribe sr sm)
  then show ?thesis using ag_subscribe_step[OF A mal subscribe(3-7)] by simp
next
  case (unsubscribe fd ev i)
  then show ?thesis using ag_unsubscribe_step[OF A unsubscribe(3,4)] by simp
next
  case (unsubscribe_absent i)
  then have "e2ap_msg_handle_agent mal tfd ag (ric_sub_del_req \<lparr>sdr_ric_id = i\<rparr>) = Some (ric_sub_del_resp \<lparr>sdp_ric_id = i\<rparr>, ag)"
    using agent_unsubscribe_absent[OF ag_absD(1)[OF A]] by (simp add: handle_defs)
  from answer_sent[OF A this A] show ?thesis using unsubscribe_absent by simp
next
  case (control cr sm res)
  have "0 < ran_func_id (cr_ric_id cr)" "sma_id sm = ran_func_id (cr_ric_id cr)" using ag_absD(3)[OF A] control(3) by auto
  from agent_control[OF ag_absD(1)[OF A] control(3) this control(4)]
  have "e2ap_msg_handle_agent mal tfd ag (ric_ctrl_req cr) = Some (ric_ctrl_ack \<lparr>ca_ric_id = cr_ric_id cr, ca_call_process_id = None,
      ca_control_outcome = if res = [] then None else Some res\<rparr>, ag)" using control(5) by (simp add: handle_defs Let_def)
  from answer_sent[OF A this A] show ?thesis using control by simp
next
  case (set_up fd resp)
  note d = ag_absD[OF A]
  have "0 < ag_trans_id ag" using set_up(4) d(7) by simp
  from setup_response_rep[OF d(1)[unfolded set_up(3)] d(2)[unfolded set_up(3)] this] obtain p where
    p: "e2ap_handle_setup_response_agent ag resp = Some (no_msg, ag\<lparr>ag_pending := p, ag_io := ag_io ag - {fd}, ag_trans_id := 0\<rparr>)"
    "ag_rep (ag\<lparr>ag_pending := p, ag_io := ag_io ag - {fd}, ag_trans_id := 0\<rparr>) (inds a) {#} (plugs a)"
    "ag_inv (ag\<lparr>ag_pending := p, ag_io := ag_io ag - {fd}, ag_trans_id := 0\<rparr>) (inds a) {#}" by metis
  have "ag_abs (ag\<lparr>ag_pending := p, ag_io := ag_io ag - {fd}, ag_trans_id := 0\<rparr>) a'"
    using p(2,3) d set_up by (simp add: ag_abs_def)
  from no_answer[OF A _ this, of mal tfd "e2_stp_resp resp"] show ?thesis using p(1) set_up by (simp add: handle_defs)
next
  case setup_failed
  then show ?thesis using no_answer[OF A _ A, of mal tfd e2_stp_fail] by (simp add: handle_defs)
next
  case (setup_again fd x)
  then show ?thesis using ag_setup_again_step[OF A setup_again(3)] by simp
next
  case lost
  note d = ag_absD[OF A]
  have "ag_new ag (inds a) {#} tfd" using lost d(6) by (simp add: ag_new_def)
  from pend_setup_rep[OF d(1)[unfolded lost(3)] d(2)[unfolded lost(3)] mal this] obtain p where
    p: "pend_setup mal tfd ag = Some (ag\<lparr>ag_io := insert tfd (ag_io ag), ag_pending := p\<rparr>)"
    "ag_rep (ag\<lparr>ag_io := insert tfd (ag_io ag), ag_pending := p\<rparr>) (inds a) {#(tfd, SETUP_REQUEST_PENDING_EVENT)#} (plugs a)"
    "ag_inv (ag\<lparr>ag_io := insert tfd (ag_io ag), ag_pending := p\<rparr>) (inds a) {#(tfd, SETUP_REQUEST_PENDING_EVENT)#}" .
  have "ag_abs (ag\<lparr>ag_io := insert tfd (ag_io ag), ag_pending := p\<rparr>) a'" using p(2,3) d lost by (simp add: ag_abs_def)
  moreover have "0 < ag_ep_fd ag" using d(2) by (simp add: ag_inv_def)
  ultimately show ?thesis using p(1) lost
    by (simp add: agent_run_def e2_event_loop_agent_def next_async_event_agent_def net_pkt_def notification_handle_ag_def)
next
  case (indicate fd ev d)
  have "ag_abs (ag\<lparr>ag_sent := ag_sent ag @ [ric_ind (indication ev d)]\<rparr>) (a\<lparr>out := out a @ [ric_ind (indication ev d)]\<rparr>)"
    using ag_abs_sent[OF A, of "ric_ind (indication ev d)"] by (simp add: e2ap_send_bytes_agent_def)
  then show ?thesis using agent_indicates[OF ag_absD(1,2)[OF A] indicate(3,4)] indicate by (simp add: agent_run_def)
next
  case (no_data fd ev)
  then show ?thesis using agent_indicates[OF ag_absD(1,2)[OF A] no_data(3,4)] A by (simp add: agent_run_def)
next
  case nothing
  then show ?thesis using A by (simp add: agent_run_def e2_event_loop_agent_def next_async_event_agent_def)
qed

end
