(* ===== verification/Agent_Props.thy ===== *)
theory Agent_Props
  imports Agent_Spec Controller_Example
begin

text \<open>
  What the agent promises and where it fails.
\<close>

section \<open>Refinement\<close>

text \<open>C11: the agent implements its specification: whatever message, lost connection or expired timer the
  specification allows in a state that represents its own is served by the code without a failed assertion, in whatever
  fresh memory, and leaves the running indications with their timers, the pending setup, the transaction number, what
  was sent and what was released of the plug-ins as the specification says.\<close>
lemma agent_refines:
  assumes "agstep cca tfd a ev a'" "ag_abs ag a" "ag_fresh mal ag"
  shows "\<exists>ag'. agent_run mal tfd cca ag ev = Some ag' \<and> ag_abs ag' a'"
  using agent_step[OF assms] .

section \<open>Start\<close>

lemma ind_init:
  assumes "a1 \<noteq> 0" "a2 \<noteq> 0" shows "\<exists>m. init_indication_event a1 a2 = Some m \<and> ind_rep m {#}"
  by (rule init_bm_rep[where ?v1.0 = valid_fd and ?c1.0 = order_fd and ?v2.0 = "\<lambda>_. True" and ?c2.0 = cmp_ind_event and
        ?f1.0 = cmp_fd and ?f2.0 = "\<lambda>a b. Some (cmp_ind_event a b)" and ?s1.0 = 4 and ?s2.0 = 32 and ?ff1.0 = True and ?ff2.0 = True,
        OF _ _ assms cmp_fd_order]) (auto simp: ind_rep_def init_indication_event_def)

lemma setup_init:
  assumes "a1 \<noteq> 0" "a2 \<noteq> 0" shows "\<exists>m. init_pending_events a1 a2 = Some m \<and> setup_rep m {#}"
  by (rule init_bm_rep[where ?v1.0 = valid_fd and ?c1.0 = order_fd and ?v2.0 = "\<lambda>_. True" and ?c2.0 = cmp_pending_event and
        ?f1.0 = cmp_fd and ?f2.0 = "\<lambda>a b. Some (cmp_pending_event a b)" and ?s1.0 = 4 and ?s2.0 = 4 and ?ff1.0 = True and ?ff2.0 = True,
        OF _ _ assms cmp_fd_order]) (auto simp: setup_rep_def init_pending_events_def)

text \<open>The agent that waits for the answer to its first setup.\<close>
definition a_started ::
  "(uint16 \<times> sm_agent) list \<Rightarrow> global_e2_node_id \<Rightarrow> int \<Rightarrow> int \<Rightarrow> int \<Rightarrow> e2ap_node_component_config_add list \<Rightarrow> aagent"
where
  "a_started ps nid ep_fd pipe_r tfd cca =
     \<lparr>inds = {#}, setups = {#(tfd, SETUP_REQUEST_PENDING_EVENT)#}, plugs = ps, node_id = nid, polled = {tfd, ep_fd, pipe_r},
      trans = 1, out = [e2_stp_req \<lparr>stp_trans_id = 0, stp_id = nid, stp_ran_func_item = map (\<lambda>(k, sm). offered sm) ps,
        stp_comp_conf_add = cca\<rparr>], released = []\<rparr>"

lemma agent_initial:
  assumes "tree_rep plugins ps" "0 < port" "port < 65535" "0 < ep_fd" "0 < pipe_r" "ep_fd \<noteq> pipe_r" "ok_mal m1"
  obtains ag where "e2_init_agent m1 port ep_fd pipe_r plugins nid = Some ag" "ag_rep ag {#} {#} ps" "ag_inv ag {#} {#}"
    "ag_id ag = nid" "ag_io ag = {ep_fd, pipe_r}" "ag_trans_id ag = 0" "ag_sent ag = []" "ag_freed ag = []" "ag_sm_ds ag = plugins"
proof -
  have nz: "m1 i \<noteq> 0" for i using assms(7) by (simp add: ok_mal_def)
  obtain p where p: "init_pending_events (m1 0) (m1 1) = Some p" "setup_rep p {#}" using setup_init[OF nz nz] by blast
  obtain i where i: "init_indication_event (m1 2) (m1 3) = Some i" "ind_rep i {#}" using ind_init[OF nz nz] by blast
  let ?ag = "\<lparr>ag_ep_fd = ep_fd, ag_io = {ep_fd, pipe_r}, ag_pipe_r = pipe_r, ag_pipe_bytes = 0, ag_sm_ds = plugins, ag_ind_event = i,
       ag_pending = p, ag_id = nid, ag_aind = [], ag_trans_id = 0, ag_sent = [], ag_freed = [], ag_ended = []\<rparr>"
  have "e2_init_agent m1 port ep_fd pipe_r plugins nid = Some ?ag"
    using assms(2-6) p(1) i(1) by (simp add: e2_init_agent_def add_fd_asio_agent_def)
  moreover have "ag_rep ?ag {#} {#} ps" using p(2) i(2) assms(1) by (simp add: ag_rep_def)
  moreover have "ag_inv ?ag {#} {#}" using assms(4-6) by (simp add: ag_inv_def)
  ultimately show thesis using that[of ?ag] by simp
qed

text \<open>C12: an agent that is started offers all its plug-ins, in the order of their numbers, waits for the answer with a
  timer of its own and represents the start of the specification.\<close>
lemma agent_starts:
  assumes "tree_rep plugins ps" "has_free_func plugins" "ps \<noteq> []" "\<forall>(k, sm) \<in> set ps. 0 < k \<and> sma_id sm = k" "0 < port" "port < 65535"
    and "0 < ep_fd" "0 < pipe_r" "0 < tfd" "ep_fd \<noteq> pipe_r" "tfd \<noteq> ep_fd" "tfd \<noteq> pipe_r" "ok_mal m1"
  shows "\<exists>ag. e2_init_agent m1 port ep_fd pipe_r plugins nid = Some ag \<and> (\<forall>m2. ag_fresh m2 ag \<longrightarrow>
    (\<exists>ag'. e2_start_agent m2 tfd cca ag = Some ag' \<and> ag_abs ag' (a_started ps nid ep_fd pipe_r tfd cca)))"
proof -
  obtain ag where ag: "e2_init_agent m1 port ep_fd pipe_r plugins nid = Some ag" "ag_rep ag {#} {#} ps" "ag_inv ag {#} {#}"
    "ag_id ag = nid" "ag_io ag = {ep_fd, pipe_r}" "ag_trans_id ag = 0" "ag_sent ag = []" "ag_freed ag = []" "ag_sm_ds ag = plugins"
    by (rule agent_initial[OF assms(1,5-8,10,13)]) blast
  show ?thesis
  proof (rule exI[of _ ag], rule conjI[OF ag(1)], intro allI impI)
    fix m2 assume f: "ag_fresh m2 ag"
    let ?b = "ag\<lparr>ag_trans_id := 1\<rparr>" and ?m = "\<lparr>stp_trans_id = 0, stp_id = nid, stp_ran_func_item = map (\<lambda>(k, sm). offered sm) ps,
        stp_comp_conf_add = cca\<rparr>"
    have g: "gen_setup_request_v2 ag cca = Some (?m, ?b)"
      using gen_setup_request_rep[OF ag_repD(3)[OF ag(2)] assms(3), of cca] assms(4) ag(4,6) by fastforce
    have b: "ag_rep ?b {#} {#} ps" "ag_inv ?b {#} {#}" "ag_fresh m2 ?b" "ag_new ?b {#} {#} tfd"
      using ag(2,3,5) f assms(9,11,12) ag_rep_cong[of ?b ag] ag_inv_cong[of ?b ag] by (simp_all add: ag_fresh_def ag_new_def)
    obtain p where p: "pend_setup m2 tfd ?b = Some (?b\<lparr>ag_io := insert tfd (ag_io ?b), ag_pending := p\<rparr>)"
      "ag_rep (?b\<lparr>ag_io := insert tfd (ag_io ?b), ag_pending := p\<rparr>) {#} {#(tfd, SETUP_REQUEST_PENDING_EVENT)#} ps"
      "ag_inv (?b\<lparr>ag_io := insert tfd (ag_io ?b), ag_pending := p\<rparr>) {#} {#(tfd, SETUP_REQUEST_PENDING_EVENT)#}"
      by (rule pend_setup_rep[OF b])
    have "ag_abs (?b\<lparr>ag_io := insert tfd (ag_io ?b), ag_pending := p\<rparr>) ((a_started ps nid ep_fd pipe_r tfd cca)\<lparr>out := []\<rparr>)"
      using p(2,3) ag(4-9) assms(2-4) by (simp add: ag_abs_def a_started_def ag_sane_def)
    from ag_abs_sent[OF this, of "e2_stp_req ?m"]
    show "\<exists>ag'. e2_start_agent m2 tfd cca ag = Some ag' \<and> ag_abs ag' (a_started ps nid ep_fd pipe_r tfd cca)"
      using g p(1) by (simp add: e2_start_agent_def a_started_def)
  qed
qed

section \<open>Example\<close>

text \<open>A plug-in that reports every ten milliseconds, or, for an empty event trigger, when something happens.\<close>
definition ex_sma :: sm_agent where
  "ex_sma = \<lparr>sma_id = 2, sma_rev = 0, sma_oid = ''1'', sma_on_subscription = (\<lambda>t d n.
      Some \<lparr>ans_type = if t = [] then APERIODIC_SUBSCRIPTION_FLRC else PERIODIC_SUBSCRIPTION_FLRC, ans_ms = 10, ans_act_def = []\<rparr>),
     sma_on_control = (\<lambda>h m. Some []), sma_on_e2_setup = [1], sma_has_free_act_def = False\<rparr>"

lemma ex_sma_answer: "sub_answer ex_sma sr = Some \<lparr>ans_type = if sr_event_trigger sr = [] then APERIODIC_SUBSCRIPTION_FLRC
    else PERIODIC_SUBSCRIPTION_FLRC, ans_ms = 10, ans_act_def = []\<rparr>"
  by (simp add: sub_answer_def ex_sma_def)

definition ex_agent :: e2_agent where
  "ex_agent = \<lparr>ag_ep_fd = 3, ag_io = {3, 5}, ag_pipe_r = 5, ag_pipe_bytes = 0,
     ag_sm_ds = one_node (\<lambda>a b. Some (cmp_ran_func_id a b)) 2 2 ex_sma,
     ag_ind_event = empty_map cmp_fd (\<lambda>a b. Some (cmp_ind_event a b)) 4 32,
     ag_pending = empty_map cmp_fd (\<lambda>a b. Some (cmp_pending_event a b)) 4 4, ag_id = ex_gnb 1, ag_aind = [], ag_trans_id = 0,
     ag_sent = [], ag_freed = [], ag_ended = []\<rparr>"

definition ex_aagent :: aagent where
  "ex_aagent = \<lparr>inds = {#}, setups = {#}, plugs = [(2, ex_sma)], node_id = ex_gnb 1, polled = {3, 5}, trans = 0, out = [], released = []\<rparr>"

lemma ex_ag_rep: "ag_rep ex_agent {#} {#} [(2, ex_sma)]"
proof -
  have "ind_rep (ag_ind_event ex_agent) {#}"
    using ind_init[of 1 1] by (simp add: empty_map_init ex_agent_def init_indication_event_def del: One_nat_def)
  moreover have "setup_rep (ag_pending ex_agent) {#}"
    using setup_init[of 1 1] by (simp add: empty_map_init ex_agent_def init_pending_events_def del: One_nat_def)
  ultimately show ?thesis by (simp add: ag_rep_def) (simp add: ex_agent_def one_node_tree)
qed

lemma ex_ag_inv: "ag_inv ex_agent {#} {#}"
  by (simp add: ag_inv_def ex_agent_def)

lemma ex_ag_abs: "ag_abs ex_agent ex_aagent"
  using ex_ag_rep ex_ag_inv by (simp add: ag_abs_def ex_aagent_def) (simp add: ex_agent_def ex_sma_def ag_sane_def one_node_def)

lemma ex_ag_fresh: "ag_fresh (\<lambda>j. 10 + j) ex_agent"
  by (simp add: ag_fresh_def ex_agent_def fresh_for_def empty_map_heap)

definition ex_sr :: "byte_array \<Rightarrow> uint32 \<Rightarrow> ric_subscription_request" where
  "ex_sr t n = \<lparr>sr_ric_id = ex_id n, sr_event_trigger = t,
     sr_action = [\<lparr>act_id = 0, act_type = RIC_ACT_REPORT, act_definition = None, subseq_action = None\<rparr>]\<rparr>"

lemma ex_periodic: "t \<noteq> [] \<Longrightarrow> periodic ex_sma (ex_sr t n)"
  by (simp add: periodic_def ex_sma_answer) (simp add: ex_sr_def)

definition ex_running :: aagent where
  "ex_running = ex_aagent\<lparr>inds := {#(9, ind_event_of ex_sma (ex_sr [1] 1021))#}, polled := {9, 3, 5},
     out := [ric_sub_resp (generate_subscription_response (ex_id 1021) 0)]\<rparr>"

lemma ex_ag_subscribe: "agstep [] 9 ex_aagent (FROM_RIC (ric_sub_req (ex_sr [1] 1021))) ex_running"
proof -
  have "agstep [] 9 ex_aagent (FROM_RIC (ric_sub_req (ex_sr [1] 1021)))
      (ex_aagent\<lparr>inds := add_mset (9, ind_event_of ex_sma (ex_sr [1] 1021)) (inds ex_aagent), polled := insert 9 (polled ex_aagent),
      out := out ex_aagent @ [ric_sub_resp (generate_subscription_response (sr_ric_id (ex_sr [1] 1021)) (act_id (sr_action (ex_sr [1] 1021) ! 0)))]\<rparr>)"
    by (rule agstep.subscribe) (simp_all add: ex_periodic, simp_all add: ex_aagent_def ex_sr_def ex_id_def)
  then show ?thesis by (simp add: ex_running_def ex_aagent_def ex_sr_def)
qed

lemma ex_running: obtains ag where "agent_run (\<lambda>j. 10 + j) 9 [] ex_agent (FROM_RIC (ric_sub_req (ex_sr [1] 1021))) = Some ag" "ag_abs ag ex_running"
  using agent_step[OF ex_ag_subscribe ex_ag_abs ex_ag_fresh] by blast

lemma agent_refines_witness:
  "\<exists>ag. agent_run (\<lambda>j. 10 + j) 9 [] ex_agent (FROM_RIC (ric_sub_req (ex_sr [1] 1021))) = Some ag \<and> ag_abs ag ex_running"
  using agent_refines[OF ex_ag_subscribe ex_ag_abs ex_ag_fresh] .

lemma agent_starts_witness:
  "\<exists>ag. e2_init_agent (\<lambda>j. 10 + j) 36421 3 5 (one_node (\<lambda>a b. Some (cmp_ran_func_id a b)) 2 2 ex_sma) (ex_gnb 1) = Some ag \<and>
    (\<forall>m2. ag_fresh m2 ag \<longrightarrow> (\<exists>ag'. e2_start_agent m2 9 [] ag = Some ag' \<and> ag_abs ag' (a_started [(2, ex_sma)] (ex_gnb 1) 3 5 9 [])))"
  by (rule agent_starts[OF one_node_tree]) (simp_all add: ex_sma_def ok_mal_def inj_def one_node_def)

section \<open>Two aperiodic subscriptions\<close>

text \<open>An aperiodic subscription is entered under the descriptor 0.\<close>
definition aperiodic :: "sm_agent \<Rightarrow> ric_subscription_request \<Rightarrow> bool" where
  "aperiodic sm sr \<longleftrightarrow> (\<exists>a. sr_action sr = [a] \<and> act_type a = RIC_ACT_REPORT) \<and>
     (\<exists>subs. sub_answer sm sr = Some subs \<and> ans_type subs = APERIODIC_SUBSCRIPTION_FLRC)"

lemma aperiodic_event:
  "aperiodic sm sr \<Longrightarrow> ie_type (ind_event_of sm sr) = APERIODIC_SUBSCRIPTION_FLRC \<and> ie_sm (ind_event_of sm sr) = Some sm \<and>
    ie_ric_id (ind_event_of sm sr) = sr_ric_id sr"
  by (auto simp: aperiodic_def ind_event_of_def Let_def)

lemma subscribe_aperiodic:
  assumes "sm_plugin_ag ag (ran_func_id (sr_ric_id sr)) = Some sm" "aperiodic sm sr"
    "bi_map_insert (mal 0) (mal 1) (ag_ind_event ag) 0 4 (ind_event_of sm sr) 32 = Some m"
  shows "e2ap_handle_subscription_request_agent mal tfd ag sr =
    Some (ric_sub_resp (generate_subscription_response (sr_ric_id sr) (act_id (sr_action sr ! 0))), ag\<lparr>ag_ind_event := m\<rparr>)"
proof -
  obtain a where "sr_action sr = [a]" "act_type a = RIC_ACT_REPORT" using assms(2) by (auto simp: aperiodic_def)
  then show ?thesis using assms
    by (auto simp: e2ap_handle_subscription_request_agent_def supported_ric_subscription_request_def aperiodic_def ind_event_of_def
        sub_answer_def Let_def)
qed

text \<open>The table when two pairs have the same left key: the trees are still well-formed.\<close>
definition ind_loose :: "(int, ind_event) bi_map \<Rightarrow> (int \<times> ind_event) multiset \<Rightarrow> bool" where
  "ind_loose m S \<longleftrightarrow> (\<exists>es fs. rb_rep valid_fd order_fd (left_tree m) es \<and> rb_rep (\<lambda>_. True) cmp_ind_event (right_tree m) fs \<and>
     mset (map snd es) = S \<and> mset (map (prod.swap \<circ> snd) fs) = S \<and> uniq cmp_ind_event fs) \<and>
     key_sz (left_tree m) = 4 \<and> key_sz (right_tree m) = 32"

lemma ind_loose_rep: "ind_rep m S \<Longrightarrow> ind_loose m S"
  unfolding ind_rep_def bm_rep_def ind_loose_def by blast

lemma ind_loose_add:
  assumes "ind_loose m S" "fresh_for m a1 a2" "0 \<le> fd" "\<forall>(f, e) \<in># S. ie_ric_id e \<noteq> ie_ric_id ev"
  shows "\<exists>m'. bi_map_insert a1 a2 m fd 4 ev 32 = Some m' \<and> ind_loose m' (add_mset (fd, ev) S)"
proof -
  obtain es fs where r: "rb_rep valid_fd order_fd (left_tree m) es" "rb_rep (\<lambda>_. True) cmp_ind_event (right_tree m) fs"
    "mset (map snd es) = S" "mset (map (prod.swap \<circ> snd) fs) = S" "uniq cmp_ind_event fs"
    and k: "key_sz (left_tree m) = 4" "key_sz (right_tree m) = 32" using assms(1) by (auto simp: ind_loose_def)
  have v: "valid_fd fd" using assms(3) by (simp add: valid_fd_def)
  have fr: "heap (left_tree m) a1 = None" "a1 \<noteq> 0" "heap (right_tree m) a2 = None" "a2 \<noteq> 0" using assms(2) by (simp_all add: fresh_for_def)
  obtain l where l: "assoc_rb_tree_insert a1 (left_tree m) fd 4 ev = Some l"
    "rb_rep valid_fd order_fd l (ins_entry order_fd (a1, fd, ev) es)" "comp_fn l = comp_fn (left_tree m)" "key_sz l = 4"
    using fd.insert_rep[OF r(1) v k(1) fr(1,2)] by metis
  obtain q where q: "assoc_rb_tree_insert a2 (right_tree m) ev 32 fd = Some q"
    "rb_rep (\<lambda>_. True) cmp_ind_event q (ins_entry cmp_ind_event (a2, ev, fd) fs)" "key_sz q = 32"
    using ind.insert_rep[OF r(2) TrueI k(2) fr(3,4)] by metis
  have ag: "comp_fn (left_tree m) fd fd = Some 0" "comp_fn (right_tree m) ev ev = Some 0"
    using r(1,2) v by (simp_all add: rb_rep_def agrees_def)
  have "\<forall>x \<in> set fs. cmp_ind_event ev (entry_key x) \<noteq> 0"
  proof
    fix x assume "x \<in> set fs"
    then have "(prod.swap \<circ> snd) x \<in> (prod.swap \<circ> snd) ` set fs" by blast
    then have "(snd (snd x), fst (snd x)) \<in># S" unfolding r(4)[symmetric] by (cases x) (simp only: set_mset_mset set_map, simp)
    then have "ie_ric_id (fst (snd x)) \<noteq> ie_ric_id ev" using assms(4) by blast
    then show "cmp_ind_event ev (entry_key x) \<noteq> 0" by (simp add: cmp_ind_event_0 entry_key_def)
  qed
  then have "uniq cmp_ind_event (ins_entry cmp_ind_event (a2, ev, fd) fs)" using ind.uniq_ins[OF r(5)] by (simp add: entry_key_def)
  moreover have "mset (map snd (ins_entry order_fd (a1, fd, ev) es)) = add_mset (fd, ev) S"
    "mset (map (prod.swap \<circ> snd) (ins_entry cmp_ind_event (a2, ev, fd) fs)) = add_mset (fd, ev) S"
    unfolding ind.mset_ins fd.mset_ins r(3,4) by simp_all
  ultimately have "ind_loose \<lparr>left_tree = l, right_tree = q\<rparr> (add_mset (fd, ev) S)"
    using l q unfolding ind_loose_def by auto
  moreover have "bi_map_insert a1 a2 m fd 4 ev 32 = Some \<lparr>left_tree = l, right_tree = q\<rparr>"
    using l(1,3) q(1) ag by (simp add: bi_map_insert_def)
  ultimately show ?thesis by blast
qed

text \<open>The left look-up by 0 gives one of the two events; the extraction of the other one fails the comparison.\<close>
lemma ind_loose_extract:
  assumes m: "ind_loose m S" and e: "(0, e1) \<in># S" "(0, e2) \<in># S" "ie_ric_id e1 \<noteq> ie_ric_id e2"
  shows "\<exists>e \<in> {e1, e2}. \<forall>tmp. ie_ric_id tmp = ie_ric_id e \<longrightarrow> bi_map_extract_right m tmp 32 = None"
proof -
  obtain es fs where r: "rb_rep valid_fd order_fd (left_tree m) es" "rb_rep (\<lambda>_. True) cmp_ind_event (right_tree m) fs"
    "mset (map snd es) = S" "mset (map (prod.swap \<circ> snd) fs) = S" "uniq cmp_ind_event fs" using m by (auto simp: ind_loose_def)
  have v: "valid_fd 0" by (simp add: valid_fd_def)
  obtain x where x: "x \<in> set es" "snd x = (0, e1)" using e(1) by (auto simp flip: r(3))
  then have "order_fd 0 (entry_key x) = 0" by (simp add: entry_key_def order_fd_0)
  then obtain L a k w where L: "assoc_rb_tree_extract (left_tree m) 0 = Some (Some w, L)" using comparator.extract_rep[OF fd.comparator_axioms r(1) v] x(1) by metis
  have none: "bi_map_extract_right m tmp 32 = None" if o: "(0, e) \<in># S" "ie_ric_id tmp = ie_ric_id e" "ie_ric_id e \<noteq> ie_ric_id w" for e tmp
  proof -
    have "(e, 0) \<in># mset (map snd fs)"
    proof -
      have "(0, e) \<in> (prod.swap \<circ> snd) ` set fs" using o(1) by (simp flip: r(4))
      then show ?thesis by force
    qed
    then obtain y where y: "y \<in> set fs" "snd y = (e, 0)" by auto
    then have c: "cmp_ind_event tmp (entry_key y) = 0" using o(2) by (simp add: entry_key_def cmp_ind_event_0)
    then obtain R xs a k fdv ys where R: "fs = xs @ (a, k, fdv) # ys" "cmp_ind_event tmp k = 0"
      "assoc_rb_tree_extract (right_tree m) tmp = Some (Some fdv, R)" "comp_fn R = comp_fn (right_tree m)"
      using comparator.extract_rep[OF ind.comparator_axioms r(2) TrueI] y(1) by metis
    have "cmp_ind_event (entry_key y) (entry_key (a, k, fdv)) = 0"
      using c R(2) o(2) y(2) by (simp add: entry_key_def cmp_ind_event_0)
    then have "y = (a, k, fdv)" using ind.uniq_same[of xs "(a, k, fdv)" ys y] r(5) y(1) R(1)
      by (metis ind.cmp_sym_0)
    then have "fdv = 0" using y(2) by simp
    moreover have "comp_fn R tmp w = Some (cmp_ind_event tmp w)" using R(4) r(2) by (simp add: rb_rep_def agrees_def)
    moreover have "cmp_ind_event tmp w \<noteq> 0" using o(2,3) by (simp add: cmp_ind_event_0)
    ultimately show ?thesis using R(3) L by (simp add: bi_map_extract_right_def Option.bind_eq_None_conv)
  qed
  show ?thesis
  proof (cases "ie_ric_id w = ie_ric_id e1")
    case True
    then show ?thesis using none[OF e(2)] e(3) by (intro bexI[of _ e2]) auto
  next
    case False
    then show ?thesis using none[OF e(1)] by (intro bexI[of _ e1]) auto
  qed
qed

text \<open>C40: two aperiodic subscriptions at one agent: both are entered under the descriptor 0, and whichever of the two is
  deleted first, for one of them the deletion ends the agent, since the table finds the other event under this
  descriptor.\<close>
lemma agent_aperiodic_pair_aborts:
  assumes R: "ag_rep ag S P ps" and I: "ag_inv ag S P" and mal: "ag_fresh mal ag" and none: "\<forall>(f, e) \<in># S. f \<noteq> 0"
    and sm: "\<forall>sr \<in> {sr1, sr2}. sm_plugin_ag ag (ran_func_id (sr_ric_id sr)) = Some sm \<and> aperiodic sm sr \<and>
      (\<forall>(f, e) \<in># S. ie_ric_id e \<noteq> sr_ric_id sr)" "sr_ric_id sr1 \<noteq> sr_ric_id sr2"
  shows "\<exists>ans1 ag1. e2ap_handle_subscription_request_agent mal tfd ag sr1 = Some (ans1, ag1) \<and>
    (\<forall>mal'. ag_fresh mal' ag1 \<longrightarrow> (\<exists>ans2 ag2. e2ap_handle_subscription_request_agent mal' tfd ag1 sr2 = Some (ans2, ag2) \<and>
      (\<exists>sr \<in> {sr1, sr2}. e2ap_handle_subscription_delete_request_agent ag2 \<lparr>sdr_ric_id = sr_ric_id sr\<rparr> = None)))"
proof -
  have a: "aperiodic sm sr1" "aperiodic sm sr2" using sm(1) by auto
  let ?e1 = "ind_event_of sm sr1" and ?e2 = "ind_event_of sm sr2"
  note e1 = aperiodic_event[OF a(1)] and e2 = aperiodic_event[OF a(2)]
  have "\<forall>(f, e) \<in># S. ie_ric_id e \<noteq> ie_ric_id ?e1" using sm(1) e1 by simp
  then obtain m1 where m1: "bi_map_insert (mal 0) (mal 1) (ag_ind_event ag) 0 4 ?e1 32 = Some m1" "ind_loose m1 (add_mset (0, ?e1) S)"
    using ind_loose_add[OF ind_loose_rep[OF ag_repD(1)[OF R]], of "mal 0" "mal 1" 0 ?e1] mal by (auto simp: ag_fresh_def)
  let ?ag1 = "ag\<lparr>ag_ind_event := m1\<rparr>"
  have h1: "e2ap_handle_subscription_request_agent mal tfd ag sr1 =
      Some (ric_sub_resp (generate_subscription_response (sr_ric_id sr1) (act_id (sr_action sr1 ! 0))), ?ag1)"
    by (rule subscribe_aperiodic[OF _ a(1) m1(1)]) (use sm(1) in simp)
  show ?thesis
  proof (rule exI, rule exI, rule conjI[OF h1], intro allI impI)
    fix mal' assume mal': "ag_fresh mal' ?ag1"
    have "\<forall>(f, e) \<in># add_mset (0, ?e1) S. ie_ric_id e \<noteq> ie_ric_id ?e2" using sm e1 e2 by auto
    moreover have "fresh_for m1 (mal' 0) (mal' 1)" using mal' by (simp add: ag_fresh_def)
    ultimately obtain m2 where m2: "bi_map_insert (mal' 0) (mal' 1) (ag_ind_event ?ag1) 0 4 ?e2 32 = Some m2"
      "ind_loose m2 (add_mset (0, ?e2) (add_mset (0, ?e1) S))"
      using ind_loose_add[OF m1(2)] by fastforce
    let ?ag2 = "?ag1\<lparr>ag_ind_event := m2\<rparr>"
    have p: "sm_plugin_ag ?ag1 (ran_func_id (sr_ric_id sr2)) = Some sm" using sm(1) by (simp add: sm_plugin_ag_def)
    note h2 = subscribe_aperiodic[OF p a(2) m2(1)]
    obtain e where e: "e \<in> {?e1, ?e2}" "\<forall>tmp. ie_ric_id tmp = ie_ric_id e \<longrightarrow> bi_map_extract_right m2 tmp 32 = None"
    proof -
      have "\<exists>e \<in> {?e1, ?e2}. \<forall>tmp. ie_ric_id tmp = ie_ric_id e \<longrightarrow> bi_map_extract_right m2 tmp 32 = None"
        using ind_loose_extract[OF m2(2), of ?e1 ?e2] e1 e2 sm(2) by simp
      then show thesis using that by blast
    qed
    then obtain sr where sr: "sr \<in> {sr1, sr2}" "ie_ric_id e = sr_ric_id sr" using e1 e2 by auto
    let ?tmp = "\<lparr>ie_ric_id = sr_ric_id sr, ie_sm = None, ie_action_id = 0, ie_type = PERIODIC_SUBSCRIPTION_FLRC, ie_act_def = []\<rparr>"
    have x: "bi_map_extract_right m2 ?tmp 32 = None" using e(2) sr(2) by simp
    obtain fs where fs: "rb_rep (\<lambda>_. True) cmp_ind_event (right_tree m2) fs" "mset (map (prod.swap \<circ> snd) fs) = add_mset (0, ?e2) (add_mset (0, ?e1) S)"
      using m2(2) by (auto simp: ind_loose_def)
    have "\<exists>y \<in> set fs. eq_ind_event ?tmp (entry_key y)"
    proof -
      have "(0, e) \<in># mset (map (prod.swap \<circ> snd) fs)" using e(1) unfolding fs(2) by auto
      then have "(0, e) \<in> (prod.swap \<circ> snd) ` set fs" by (simp only: set_mset_mset set_map)
      then show ?thesis using sr(2) by (force simp: eq_ind_event_def eq_ric_gen_id_iff entry_key_def)
    qed
    then have "find (\<lambda>y. eq_ind_event ?tmp (entry_key y)) fs \<noteq> None" by (simp only: find_None_iff) blast
    then obtain y where y: "find (\<lambda>y. eq_ind_event ?tmp (entry_key y)) fs = Some y" by auto
    have "find_all_rb_tree (right_tree m2) ?tmp (\<lambda>a b. Some (eq_ind_event a b)) = Some (fst y)"
      using find_all_rep[where f = "\<lambda>a b. Some (eq_ind_event a b)" and p = "\<lambda>y. eq_ind_event ?tmp (entry_key y)" and q = ?tmp, OF fs(1)] y by simp
    moreover have "fst y \<noteq> assoc_rb_tree_end (right_tree m2)"
    proof -
      have "y \<in> set fs" using y by (auto simp: find_Some_iff)
      then obtain xs ys where "fs = xs @ (fst y, fst (snd y), snd (snd y)) # ys" using split_list by (metis prod.collapse)
      from access_rep(3)[OF fs(1)[unfolded this]] show ?thesis by (simp add: assoc_rb_tree_end_def)
    qed
    ultimately have "e2ap_handle_subscription_delete_request_agent ?ag2 \<lparr>sdr_ric_id = sr_ric_id sr\<rparr> = None"
      using x by (auto simp: e2ap_handle_subscription_delete_request_agent_def stop_ind_event_def Let_def Option.bind_eq_None_conv)
    then show "\<exists>ans2 ag2. e2ap_handle_subscription_request_agent mal' tfd ?ag1 sr2 = Some (ans2, ag2) \<and>
      (\<exists>sr \<in> {sr1, sr2}. e2ap_handle_subscription_delete_request_agent ag2 \<lparr>sdr_ric_id = sr_ric_id sr\<rparr> = None)"
      using h2 sr(1) by (intro exI[of _ "ric_sub_resp (generate_subscription_response (sr_ric_id sr2) (act_id (sr_action sr2 ! 0)))"] exI[of _ ?ag2]) auto
  qed
qed

lemma agent_aperiodic_pair_aborts_witness:
  "\<exists>ans1 ag1. e2ap_handle_subscription_request_agent (\<lambda>j. 10 + j) 9 ex_agent (ex_sr [] 1) = Some (ans1, ag1) \<and>
    (\<forall>mal'. ag_fresh mal' ag1 \<longrightarrow> (\<exists>ans2 ag2. e2ap_handle_subscription_request_agent mal' 9 ag1 (ex_sr [] 2) = Some (ans2, ag2) \<and>
      (\<exists>sr \<in> {ex_sr [] 1, ex_sr [] 2}. e2ap_handle_subscription_delete_request_agent ag2 \<lparr>sdr_ric_id = sr_ric_id sr\<rparr> = None)))"
proof (rule agent_aperiodic_pair_aborts[OF ex_ag_rep ex_ag_inv ex_ag_fresh])
  have "sm_plugin_ag ex_agent 2 = Some ex_sma"
    by (rule sm_plugin_ag_rep[OF ag_repD(3)[OF ex_ag_rep]]) (simp_all add: ex_sma_def)
  then show "\<forall>sr \<in> {ex_sr [] 1, ex_sr [] 2}. sm_plugin_ag ex_agent (ran_func_id (sr_ric_id sr)) = Some ex_sma \<and> aperiodic ex_sma sr \<and>
      (\<forall>(f, e) \<in># {#}. ie_ric_id e \<noteq> sr_ric_id sr)"
    by (simp add: aperiodic_def ex_sma_answer ex_sr_def ex_id_def)
qed (simp_all add: ex_sr_def ex_id_def)

section \<open>Aperiodic indications\<close>

lemma digits_bounds: "(digits n = 1 \<longleftrightarrow> n < 10) \<and> (digits n \<le> 4 \<longleftrightarrow> n < 10000) \<and> 0 < digits n"
proof -
  have "digits n = (if n < 10 then 1 else if n < 100 then 2 else if n < 1000 then 3 else if n < 10000 then 4 else
      4 + digits (n div 10 div 10 div 10 div 10))"
    by (subst digits.simps, subst digits.simps, subst digits.simps, subst digits.simps) (auto simp: div_mult2_eq[symmetric])
  moreover have "0 < digits k" for k by (subst digits.simps) simp
  ultimately show ?thesis by auto
qed

lemma digits_32: "digits (unat (n :: uint32)) < 31"
proof -
  have "digits k \<le> Suc m" if "k < 10 ^ Suc m" for k m
    using that
  proof (induction m arbitrary: k)
    case (Suc m)
    then have "k div 10 < 10 ^ Suc m" by (simp add: less_mult_imp_div_less mult.commute)
    then show ?case using Suc.IH by (subst digits.simps) simp
  qed (subst digits.simps, simp)
  moreover have "unat n < 10 ^ Suc 9" using unsigned_less[of n, where ?'a = nat] by simp
  ultimately have "digits (unat n) \<le> Suc 9" by blast
  then show ?thesis by simp
qed

text \<open>The RAN announces an event of the subscription \<open>ev\<close>: it is queued, and its number is written to the pipe.\<close>
lemma async_queued:
  assumes R: "ag_rep ag S P ps" and ev: "(fd, ev) \<in># S" "\<forall>(f, e) \<in># S. ric_req_id (ie_ric_id e) = ric_req_id (ie_ric_id ev) \<longrightarrow> e = ev"
  shows "e2_async_event_agent ag (ric_req_id (ie_ric_id ev)) data = Some (ag\<lparr>
    ag_aind := ag_aind ag @ [\<lparr>ai_ric_id = ie_ric_id ev, ai_sm = ie_sm ev, ai_action_id = ie_action_id ev, ai_ind_data = data\<rparr>],
    ag_pipe_bytes := ag_pipe_bytes ag + digits (unat (ric_req_id (ie_ric_id ev)))\<rparr>)"
proof -
  let ?tmp = "\<lparr>ie_ric_id = \<lparr>ric_req_id = ric_req_id (ie_ric_id ev), ric_inst_id = 0, ran_func_id = 0\<rparr>, ie_sm = None, ie_action_id = 0,
       ie_type = PERIODIC_SUBSCRIPTION_FLRC, ie_act_def = []\<rparr>"
  have b: "bm_rep valid_fd order_fd (\<lambda>_. True) cmp_ind_event (ag_ind_event ag) S" using ag_repD(1)[OF R] by (simp add: ind_rep_def)
  have "\<forall>(a', b') \<in># S. eq_ind_event_ric_req_id ?tmp b' \<longrightarrow> b' = ev" using ev(2) by (fastforce simp: eq_ind_event_ric_req_id_def)
  then obtain it where "find_all_rb_tree (right_tree (ag_ind_event ag)) ?tmp (\<lambda>x y. Some (eq_ind_event_ric_req_id x y)) = Some it"
    "it \<noteq> assoc_rb_tree_end (right_tree (ag_ind_event ag))" "assoc_rb_tree_key (right_tree (ag_ind_event ag)) it = Some (Some ev)"
    using find_key_right[where e = eq_ind_event_ric_req_id and q = ?tmp, OF b ev(1)] by (auto simp: eq_ind_event_ric_req_id_def)
  then show ?thesis using digits_bounds digits_32 by (simp add: e2_async_event_agent_def Let_def)
qed


text \<open>The agent of the example, with a subscription that reports when something happens.\<close>
lemma ex_waiting: obtains ag where "ag_rep ag {#(0, ind_event_of ex_sma (ex_sr [] n))#} {#} [(2, ex_sma)]"
  "ag_inv ag {#(0, ind_event_of ex_sma (ex_sr [] n))#} {#}" "ag_aind ag = []" "ag_pipe_bytes ag = 0"
proof -
  have "fresh_for (ag_ind_event ex_agent) 10 11" using ex_ag_fresh by (simp add: ag_fresh_def)
  then obtain m where m: "ind_rep m {#(0, ind_event_of ex_sma (ex_sr [] n))#}"
    using ind_add[OF ag_repD(1)[OF ex_ag_rep], of 10 11 0] by auto
  have "ag_rep (ex_agent\<lparr>ag_ind_event := m\<rparr>) {#(0, ind_event_of ex_sma (ex_sr [] n))#} {#} [(2, ex_sma)]"
    using ex_ag_rep m by (simp add: ag_rep_def)
  moreover have "ag_inv (ex_agent\<lparr>ag_ind_event := m\<rparr>) {#(0, ind_event_of ex_sma (ex_sr [] n))#} {#}"
    by (simp add: ag_inv_def ind_event_of_def ex_sma_answer ex_sr_def Let_def) (simp add: ex_agent_def)
  ultimately show thesis by (rule that) (simp_all add: ex_agent_def)
qed


section \<open>Other ends of the agent\<close>

text \<open>An indication that carries the identifier of a call process ends the agent: the structure that
  holds it is allocated with the size of its length field, half of what is then written.\<close>
lemma agent_call_process_aborts:
  assumes "ag_abs ag a" "(fd, ev) \<in># inds a" "ie_type ev = PERIODIC_SUBSCRIPTION_FLRC" "sid_cpid d \<noteq> None"
  shows "agent_run mal tfd cca ag (TIMEOUT fd (Some d)) = None"
  using agent_indicates[OF ag_absD(1,2)[OF assms(1)] assms(2,3)] assms(4) by (auto simp: agent_run_def)

lemma agent_call_process_aborts_witness:
  "\<exists>ag. ag_abs ag ex_running \<and> agent_run (\<lambda>j. 20 + j) 11 [] ag (TIMEOUT 9 (Some \<lparr>sid_hdr = [], sid_msg = [], sid_cpid = Some [1]\<rparr>)) = None"
proof -
  obtain ag where ag: "ag_abs ag ex_running" by (rule ex_running)
  have "(9, ind_event_of ex_sma (ex_sr [1] 1021)) \<in># inds ex_running" "ie_type (ind_event_of ex_sma (ex_sr [1] 1021)) = PERIODIC_SUBSCRIPTION_FLRC"
    by (simp_all add: ex_running_def ind_event_of_def ex_sma_answer ex_sr_def Let_def)
  from agent_call_process_aborts[OF ag this] ag show ?thesis by auto
qed

lemma cp_loop_None: "x \<in> set xs \<Longrightarrow> f x = None \<Longrightarrow> cp_loop f xs = None"
  by (induction xs) (auto simp: Option.bind_eq_None_conv)

lemma cp_loop_all: "(\<And>x. x \<in> set xs \<Longrightarrow> f x = Some (g x)) \<Longrightarrow> cp_loop f xs = Some (map g xs)"
  by (induction xs) auto

text \<open>What the release of the plug-ins, and that of a table, hands out.\<close>
lemma free_plugins:
  assumes "tree_rep (ag_sm_ds ag) ps" "has_free_func (ag_sm_ds ag)"
  obtains rel where "free_plugin_ag ag = Some rel" "set rel = (\<lambda>x. sma_id (snd x)) ` set ps"
proof -
  obtain es where es: "rb_rep (\<lambda>_. True) cmp_ran_func_id (ag_sm_ds ag) es" "map snd es = ps" using assms(1) by (auto simp: tree_rep_def)
  obtain rel t where rel: "assoc_rb_tree_free (ag_sm_ds ag) = Some (rel, t)" "mset rel = mset (map (\<lambda>(a, k, v). (Some k, Some v)) es)"
    using free_rep[OF es(1) assms(2)] by metis
  have s: "set rel = (\<lambda>(a, k, v). (Some k, Some v)) ` set es" using mset_eq_setD[OF rel(2)] by simp
  have "cp_loop free_sm_agent rel = Some (map (\<lambda>x. sma_id (the (snd x))) rel)"
    by (rule cp_loop_all) (auto simp: s free_sm_agent_def)
  moreover have "(\<lambda>x. sma_id (the (snd x))) ` set rel = (\<lambda>x. sma_id (snd x)) ` set ps"
    unfolding s es(2)[symmetric] by (force simp: image_image split_beta)
  ultimately show thesis using that rel(1) by (simp add: free_plugin_ag_def)
qed

lemma free_table:
  assumes "bm_rep v1 c1 v2 c2 m P" "has_free_func (left_tree m)" "has_free_func (right_tree m)"
  obtains ls rs m' where "bi_map_free m = Some (ls, rs, m')" "set ls = (\<lambda>(a, b). (Some a, Some b)) ` set_mset P"
    "set rs = (\<lambda>(a, b). (Some b, Some a)) ` set_mset P"
proof -
  obtain es fs where r: "rb_rep v1 c1 (left_tree m) es" "rb_rep v2 c2 (right_tree m) fs"
    "mset (map snd es) = P" "mset (map (prod.swap \<circ> snd) fs) = P" using assms(1) by (auto simp: bm_rep_def)
  obtain ls l where ls: "assoc_rb_tree_free (left_tree m) = Some (ls, l)" "mset ls = mset (map (\<lambda>(a, k, v). (Some k, Some v)) es)"
    using free_rep[OF r(1) assms(2)] by metis
  obtain rs q where rs: "assoc_rb_tree_free (right_tree m) = Some (rs, q)" "mset rs = mset (map (\<lambda>(a, k, v). (Some k, Some v)) fs)"
    using free_rep[OF r(2) assms(3)] by metis
  have P: "set_mset P = snd ` set es" "set_mset P = (prod.swap \<circ> snd) ` set fs"
    using r(3,4) by (metis set_map set_mset_mset)+
  have "set ls = (\<lambda>(a, b). (Some a, Some b)) ` set_mset P"
    using mset_eq_setD[OF ls(2)] by (simp add: P(1) image_image split_beta)
  moreover have "set rs = (\<lambda>(a, b). (Some b, Some a)) ` set_mset P"
    using mset_eq_setD[OF rs(2)] by (simp add: P(2) image_image split_beta)
  ultimately show thesis using that ls(1) rs(1) by (simp add: bi_map_free_def)
qed

text \<open>An agent that is released while an indication runs reads a plug-in that has been released: the plug-ins go
  first, the indications, which ask their plug-in whether it releases the action definition, last.  Without
  indications everything is released.\<close>
lemma agent_free_order:
  assumes A: "ag_abs ag a"
  shows "e2_free_agent ag = (if inds a = {#} then Some [] else None)"
proof -
  note d = ag_absD[OF A]
  have t: "tree_rep (ag_sm_ds ag) (plugs a)" using ag_repD(3)[OF d(1)] .
  obtain rel where rel: "free_plugin_ag ag = Some rel" "set rel = (\<lambda>x. sma_id (snd x)) ` set (plugs a)"
    by (rule free_plugins[OF t d(11)]) blast
  have p: "bm_rep valid_fd order_fd (\<lambda>_. True) cmp_pending_event (ag_pending ag) (setups a)"
    "has_free_func (left_tree (ag_pending ag))" "has_free_func (right_tree (ag_pending ag))"
    using ag_repD(2)[OF d(1)] by (simp_all add: setup_rep_def)
  obtain ls rs m where f: "bi_map_free (ag_pending ag) = Some (ls, rs, m)" "set ls = (\<lambda>(a, b). (Some a, Some b)) ` set_mset (setups a)"
    "set rs = (\<lambda>(a, b). (Some b, Some a)) ` set_mset (setups a)" by (rule free_table[OF p]) blast
  have "\<forall>(fd, e) \<in># setups a. 0 < fd" using d(2) by (auto simp: ag_inv_def)
  then have "cp_loop free_fd_agent ls = Some (map (\<lambda>_. ()) ls)" by (intro cp_loop_all) (auto simp: f(2) free_fd_agent_def)
  moreover have "cp_loop free_pending_ev rs = Some (map (\<lambda>_. ()) rs)"
    using d(10) by (intro cp_loop_all) (auto simp: ag_sane_def f(3) free_pending_ev_def valid_pending_event_def)
  ultimately have fp: "free_pending_agent ag = Some ()" using f(1) by (simp add: free_pending_agent_def)
  have i: "bm_rep valid_fd order_fd (\<lambda>_. True) cmp_ind_event (ag_ind_event ag) (inds a)"
    "has_free_func (left_tree (ag_ind_event ag))" "has_free_func (right_tree (ag_ind_event ag))"
    using ag_repD(1)[OF d(1)] by (simp_all add: ind_rep_def)
  obtain li ri m' where g: "bi_map_free (ag_ind_event ag) = Some (li, ri, m')" "set li = (\<lambda>(a, b). (Some a, Some b)) ` set_mset (inds a)"
    "set ri = (\<lambda>(a, b). (Some b, Some a)) ` set_mset (inds a)" by (rule free_table[OF i]) blast
  show ?thesis
  proof (cases "inds a = {#}")
    case True
    then show ?thesis using g rel(1) fp by (simp add: e2_free_agent_def free_indication_event_def)
  next
    case False
    then obtain fd ev where e: "(fd, ev) \<in># inds a" by (metis multiset_nonemptyE surj_pair)
    then obtain sm where "ie_sm ev = Some sm" "(sma_id sm, sm) \<in> set (plugs a)" using d(10) unfolding ag_sane_def by blast
    moreover from this have "sma_id sm \<in> set rel" using rel(2) by force
    ultimately have "free_ind_event_map rel (Some fd, Some ev) = None" by (simp add: free_ind_event_map_def)
    moreover have "(Some fd, Some ev) \<in> set li" using e g(2) by force
    ultimately have "cp_loop (free_ind_event_map rel) li = None" by (rule cp_loop_None[rotated])
    then show ?thesis using g(1) rel(1) fp False by (simp add: e2_free_agent_def free_indication_event_def)
  qed
qed

lemma agent_free_order_witness:
  "e2_free_agent ex_agent = Some [] \<and> (\<exists>ag. ag_abs ag ex_running \<and> e2_free_agent ag = None)"
proof -
  obtain ag where ag: "ag_abs ag ex_running" by (rule ex_running)
  show ?thesis using agent_free_order[OF ex_ag_abs] agent_free_order[OF ag] ag by (auto simp: ex_aagent_def ex_running_def)
qed

end
