(* ===== verification/System.thy ===== *)
theory System
  imports Controller_Props Agent_Props
begin

text \<open>
  The controller with an agent: the messages that the controller sends to the address of the node are what
  the agent receives, in order, and the other way round.  The encoding of the messages and the association
  that carries them are left out; the numbers of delivered messages say what is under way.
\<close>

section \<open>The system\<close>

record system =
  ctl :: controller
  agt :: e2_agent
  got_down :: nat
  got_up :: nat

datatype sys_in = XAPP sctp_info e2ap_msg | TO_NODE | TO_RIC | AGENT_TIMER int sm_ind_data

definition msgs_to :: "sctp_info \<Rightarrow> (sctp_info \<times> e2ap_msg) list \<Rightarrow> e2ap_msg list" where
  "msgs_to t ms = map snd (filter (\<lambda>x. fst x = t) ms)"

definition sys_step ::
  "alloc \<Rightarrow> (nat \<Rightarrow> addr) \<Rightarrow> (nat \<Rightarrow> int) \<Rightarrow> int \<Rightarrow> sctp_info \<Rightarrow> system \<Rightarrow> sys_in \<Rightarrow> system option"
where
  "sys_step mal mal_a kfd tfd t s i = (case i of
       XAPP info m \<Rightarrow> do { c \<leftarrow> ctrl_run mal kfd (ctl s) (IAPP_EVENT (MSG_ARRIVED info m)); Some (s\<lparr>ctl := c\<rparr>) }
     | TO_NODE \<Rightarrow> do {
         c_assert (got_down s < length (msgs_to t (nr_sent (ric (ctl s)))));
         ag \<leftarrow> agent_run mal_a tfd [] (agt s) (FROM_RIC (msgs_to t (nr_sent (ric (ctl s))) ! got_down s));
         Some (s\<lparr>agt := ag, got_down := got_down s + 1\<rparr>)
       }
     | TO_RIC \<Rightarrow> do {
         c_assert (got_up s < length (ag_sent (agt s)));
         c \<leftarrow> ctrl_run mal kfd (ctl s) (RIC_EVENT (MSG_ARRIVED t (ag_sent (agt s) ! got_up s)));
         Some (s\<lparr>ctl := c, got_up := got_up s + 1\<rparr>)
       }
     | AGENT_TIMER fd d \<Rightarrow> do { ag \<leftarrow> agent_run mal_a tfd [] (agt s) (TIMEOUT fd (Some d)); Some (s\<lparr>agt := ag\<rparr>) })"

text \<open>Whatever fresh memory the two programs are given, the inputs are served one after the other, and then \<open>Q\<close> holds.\<close>
fun serves :: "(nat \<Rightarrow> int) \<Rightarrow> int \<Rightarrow> sctp_info \<Rightarrow> sys_in list \<Rightarrow> (system \<Rightarrow> bool) \<Rightarrow> system \<Rightarrow> bool" where
  "serves kfd tfd t [] Q s = Q s"
| "serves kfd tfd t (i # is) Q s = (\<forall>mal mal_a. fresh_mem mal (ctl s) \<longrightarrow> ag_fresh mal_a (agt s) \<longrightarrow>
     (\<exists>s'. sys_step mal mal_a kfd tfd t s i = Some s' \<and> serves kfd tfd t is Q s'))"

lemma serves_append: "serves kfd tfd t (is @ js) Q s = serves kfd tfd t is (serves kfd tfd t js Q) s"
  by (induction "is" arbitrary: s) auto

lemma serves_mono: "serves kfd tfd t is P s \<Longrightarrow> (\<And>s. P s \<Longrightarrow> Q s) \<Longrightarrow> serves kfd tfd t is Q s"
  by (induction "is" arbitrary: s) (simp, force)

section \<open>What the states stand for\<close>

record asystem =
  a_ctl :: actrl
  a_agt :: aagent
  a_down :: nat
  a_up :: nat

definition sys_rep :: "asystem \<Rightarrow> system \<Rightarrow> bool" where
  "sys_rep A s \<longleftrightarrow> ctrl_rep (ctl s) (a_ctl A) \<and> a_inv (a_ctl A) \<and> ag_abs (agt s) (a_agt A) \<and> got_down s = a_down A \<and> got_up s = a_up A"

text \<open>One input after the other, on the specifications.\<close>

lemma serves_xapp:
  assumes "sys_rep A s" "astep (a_ctl A) kfd (IAPP_EVENT (MSG_ARRIVED info m)) b"
    and "\<And>s'. sys_rep (\<lparr>a_ctl = b, a_agt = a_agt A, a_down = a_down A, a_up = a_up A\<rparr>) s' \<Longrightarrow> serves kfd tfd t is Q s'"
  shows "serves kfd tfd t (XAPP info m # is) Q s"
proof (simp, intro allI impI)
  fix mal mal_a assume "fresh_mem mal (ctl s)"
  then obtain c where c: "ctrl_run mal kfd (ctl s) (IAPP_EVENT (MSG_ARRIVED info m)) = Some c" "ctrl_rep c b"
    using ctrl_step[OF assms(2)] assms(1) unfolding sys_rep_def by blast
  have "sys_rep (\<lparr>a_ctl = b, a_agt = a_agt A, a_down = a_down A, a_up = a_up A\<rparr>) (s\<lparr>ctl := c\<rparr>)" using c(2) assms(1) a_inv_step[OF assms(2)] by (simp add: sys_rep_def)
  then show "\<exists>s'. sys_step mal mal_a kfd tfd t s (XAPP info m) = Some s' \<and> serves kfd tfd t is Q s'"
    using c(1) assms(3) by (simp add: sys_step_def)
qed

lemma serves_to_ric:
  assumes "sys_rep A s" "out (a_agt A) = ms @ m # ns" "a_up A = length ms" "astep (a_ctl A) kfd (RIC_EVENT (MSG_ARRIVED t m)) b"
    and "\<And>s'. sys_rep (\<lparr>a_ctl = b, a_agt = a_agt A, a_down = a_down A, a_up = a_up A + 1\<rparr>) s' \<Longrightarrow> serves kfd tfd t is Q s'"
  shows "serves kfd tfd t (TO_RIC # is) Q s"
proof (simp, intro allI impI)
  fix mal mal_a assume "fresh_mem mal (ctl s)"
  then obtain c where c: "ctrl_run mal kfd (ctl s) (RIC_EVENT (MSG_ARRIVED t m)) = Some c" "ctrl_rep c b"
    using ctrl_step[OF assms(4)] assms(1) unfolding sys_rep_def by blast
  have "ag_sent (agt s) = ms @ m # ns" "got_up s = length ms"
    using assms(1-3) ag_absD(8)[of "agt s" "a_agt A"] by (simp_all add: sys_rep_def)
  moreover have "sys_rep (\<lparr>a_ctl = b, a_agt = a_agt A, a_down = a_down A, a_up = a_up A + 1\<rparr>) (s\<lparr>ctl := c, got_up := got_up s + 1\<rparr>)"
    using c(2) assms(1) a_inv_step[OF assms(4)] by (simp add: sys_rep_def)
  ultimately show "\<exists>s'. sys_step mal mal_a kfd tfd t s TO_RIC = Some s' \<and> serves kfd tfd t is Q s'"
    using c(1) assms(5) by (simp add: sys_step_def)
qed

lemma serves_to_node:
  assumes "sys_rep A s" "msgs_to t (to_nodes (a_ctl A)) = ms @ m # ns" "a_down A = length ms" "agstep [] tfd (a_agt A) (FROM_RIC m) b"
    and "\<And>s'. sys_rep (\<lparr>a_ctl = a_ctl A, a_agt = b, a_down = a_down A + 1, a_up = a_up A\<rparr>) s' \<Longrightarrow> serves kfd tfd t is Q s'"
  shows "serves kfd tfd t (TO_NODE # is) Q s"
proof (simp, intro allI impI)
  fix mal mal_a assume "ag_fresh mal_a (agt s)"
  then obtain ag where ag: "agent_run mal_a tfd [] (agt s) (FROM_RIC m) = Some ag" "ag_abs ag b"
    using agent_step[OF assms(4)] assms(1) unfolding sys_rep_def by blast
  have "nr_sent (ric (ctl s)) = to_nodes (a_ctl A)" using assms(1) by (simp add: sys_rep_def ctrl_rep_def)
  moreover have "got_down s = length ms" using assms(1,3) by (simp add: sys_rep_def)
  moreover have "sys_rep (\<lparr>a_ctl = a_ctl A, a_agt = b, a_down = a_down A + 1, a_up = a_up A\<rparr>) (s\<lparr>agt := ag, got_down := got_down s + 1\<rparr>)"
    using ag(2) assms(1) by (simp add: sys_rep_def)
  ultimately show "\<exists>s'. sys_step mal mal_a kfd tfd t s TO_NODE = Some s' \<and> serves kfd tfd t is Q s'"
    using ag(1) assms(2,5) by (simp add: sys_step_def)
qed

lemma serves_timer:
  assumes "sys_rep A s" "agstep [] tfd (a_agt A) (TIMEOUT fd (Some d)) b"
    and "\<And>s'. sys_rep (\<lparr>a_ctl = a_ctl A, a_agt = b, a_down = a_down A, a_up = a_up A\<rparr>) s' \<Longrightarrow> serves kfd tfd t is Q s'"
  shows "serves kfd tfd t (AGENT_TIMER fd d # is) Q s"
proof (simp, intro allI impI)
  fix mal mal_a assume "ag_fresh mal_a (agt s)"
  then obtain ag where ag: "agent_run mal_a tfd [] (agt s) (TIMEOUT fd (Some d)) = Some ag" "ag_abs ag b"
    using agent_step[OF assms(2)] assms(1) unfolding sys_rep_def by blast
  have "sys_rep (\<lparr>a_ctl = a_ctl A, a_agt = b, a_down = a_down A, a_up = a_up A\<rparr>) (s\<lparr>agt := ag\<rparr>)" using ag(2) assms(1) by (simp add: sys_rep_def)
  then show "\<exists>s'. sys_step mal mal_a kfd tfd t s (AGENT_TIMER fd d) = Some s' \<and> serves kfd tfd t is Q s'"
    using ag(1) assms(3) by (simp add: sys_step_def)
qed

section \<open>A session\<close>

lemma msgs_to_simps [simp]: "msgs_to t [] = []" "msgs_to t (xs @ ys) = msgs_to t xs @ msgs_to t ys"
  "msgs_to t ((s, m) # xs) = (if s = t then m # msgs_to t xs else msgs_to t xs)"
  by (simp_all add: msgs_to_def)

text \<open>What an xApp asks for: reports of the node \<open>nid\<close>, at the address \<open>t\<close>, whose agent has the plug-in \<open>sm\<close> and for which the
  controller has the plug-in \<open>smr\<close>; no message is under way.\<close>
record session =
  s_sub :: e42_ric_subscription_request
  s_agent_sm :: sm_agent
  s_ric_sm :: sm_ric
  s_xapp :: sctp_info
  s_listeners :: "string list"

definition s_xid :: "session \<Rightarrow> xapp_ric_id" where
  "s_xid w = \<lparr>x_ric_id = sr_ric_id (e42_sr (s_sub w)), xapp_id = e42_sr_xapp_id (s_sub w)\<rparr>"

text \<open>The identifier and the subscription that the node sees, and the event that it runs.\<close>
definition s_rid :: "session \<Rightarrow> asystem \<Rightarrow> ric_gen_id" where
  "s_rid w A = renumbered (next_req (a_ctl A)) (sr_ric_id (e42_sr (s_sub w)))"

definition s_req :: "session \<Rightarrow> asystem \<Rightarrow> ric_subscription_request" where
  "s_req w A = (e42_sr (s_sub w))\<lparr>sr_ric_id := s_rid w A\<rparr>"

definition s_ev :: "session \<Rightarrow> asystem \<Rightarrow> ind_event" where
  "s_ev w A = ind_event_of (s_agent_sm w) (s_req w A)"

definition s_node :: "session \<Rightarrow> asystem \<Rightarrow> e2_node_ric_id" where
  "s_node w A = \<lparr>e2_node_id = e42_sr_id (s_sub w), e_ric_id = s_rid w A, ric_req_type = SUBSCRIPTION_RIC_REQUEST_TYPE\<rparr>"

definition can_subscribe :: "session \<Rightarrow> (nat \<Rightarrow> int) \<Rightarrow> int \<Rightarrow> sctp_info \<Rightarrow> asystem \<Rightarrow> bool" where
  "can_subscribe w kfd tfd t A \<longleftrightarrow>
     may_request (a_ctl A) (kfd 0) (e42_sr_id (s_sub w)) t (s_xid w) \<and> length (regs (a_ctl A)) < 256 \<and>
     (e42_sr_xapp_id (s_sub w), s_xapp w) \<in># xapps (a_ctl A) \<and>
     (\<forall>(n, y) \<in># reqs (a_ctl A). x_ric_id y \<noteq> sr_ric_id (e42_sr (s_sub w))) \<and>
     (ran_func_id (sr_ric_id (e42_sr (s_sub w))), s_agent_sm w) \<in> set (plugs (a_agt A)) \<and>
     (ran_func_id (sr_ric_id (e42_sr (s_sub w))), s_ric_sm w) \<in> set (sms (a_ctl A)) \<and>
     (\<exists>f ss. subs (a_ctl A) = (f, s_listeners w) # ss) \<and>
     ran_func_id (sr_ric_id (e42_sr (s_sub w))) \<in> fst ` set (subs (a_ctl A)) \<and>
     periodic (s_agent_sm w) (s_req w A) \<and> act_id (sr_action (e42_sr (s_sub w)) ! 0) = 0 \<and>
     0 < tfd \<and> tfd \<notin> polled (a_agt A) \<and> (\<forall>(f, e) \<in># inds (a_agt A). ie_ric_id e \<noteq> s_rid w A) \<and>
     a_down A = length (msgs_to t (to_nodes (a_ctl A))) \<and> a_up A = length (out (a_agt A))"

definition open_inputs :: "session \<Rightarrow> sctp_info \<Rightarrow> sys_in list" where
  "open_inputs w info = [XAPP info (e42_ric_sub_req (s_sub w)), TO_NODE, TO_RIC]"

text \<open>The system with the subscription open.\<close>
definition opened :: "session \<Rightarrow> int \<Rightarrow> sctp_info \<Rightarrow> asystem \<Rightarrow> asystem" where
  "opened w tfd t A = \<lparr>
     a_ctl = (a_ctl A)\<lparr>reqs := add_mset (s_node w A, s_xid w) (reqs (a_ctl A)), next_req := next_req (a_ctl A) + 1,
       to_nodes := to_nodes (a_ctl A) @ [(t, ric_sub_req (s_req w A))],
       to_xapps := to_xapps (a_ctl A) @ [(s_xapp w, ric_sub_resp (granted (sr_ric_id (e42_sr (s_sub w)))))]\<rparr>,
     a_agt = (a_agt A)\<lparr>inds := add_mset (tfd, s_ev w A) (inds (a_agt A)), polled := insert tfd (polled (a_agt A)),
       out := out (a_agt A) @ [ric_sub_resp (granted (s_rid w A))]\<rparr>,
     a_down = a_down A + 1, a_up = a_up A + 1\<rparr>"

lemma session_opens:
  assumes "sys_rep A s" and w: "can_subscribe w kfd tfd t A"
  shows "serves kfd tfd t (open_inputs w info) (sys_rep (opened w tfd t A)) s"
proof -
  let ?a = "a_ctl A" and ?g = "a_agt A" and ?q = "s_sub w" and ?i = "s_rid w A" and ?x = "s_xid w"
  let ?b = "(new_req SUBSCRIPTION_REQUEST_PENDING_EVENT SUBSCRIPTION_RIC_REQUEST_TYPE (kfd 0) (e42_sr_id ?q) ?x ?a)
    \<lparr>to_nodes := to_nodes ?a @ [(t, ric_sub_req (s_req w A))]\<rparr>"
  let ?h = "?g\<lparr>inds := add_mset (tfd, s_ev w A) (inds ?g), polled := insert tfd (polled ?g),
       out := out ?g @ [ric_sub_resp (granted ?i)]\<rparr>"
  let ?e = "\<lparr>p_ev = SUBSCRIPTION_REQUEST_PENDING_EVENT, p_id = rs_ric_id (granted ?i)\<rparr>"
  have may: "may_request ?a (kfd 0) (e42_sr_id ?q) t ?x" and k: "kfd 0 \<notin> fds ?a"
    using w by (simp_all add: can_subscribe_def may_request_def)
  have i: "renumbered (next_req ?a) (x_ric_id ?x) = ?i" by (simp add: s_rid_def s_xid_def)
  have st1: "astep ?a kfd (IAPP_EVENT (MSG_ARRIVED info (e42_ric_sub_req ?q))) ?b"
    using astep.subscribe[where kfd = kfd, OF s_xid_def may _ refl, of info] w i by (simp add: can_subscribe_def s_req_def)
  have r: "ran_func_id ?i = ran_func_id (sr_ric_id (e42_sr ?q))" by (simp add: s_rid_def renumbered_def)
  have "generate_subscription_response ?i 0 = granted ?i" by (simp add: generate_subscription_response_def granted_def)
  then have st2: "agstep [] tfd ?g (FROM_RIC (ric_sub_req (s_req w A))) ?h"
    using agstep.subscribe[of "s_req w A" "s_agent_sm w" ?g tfd "[]"] w r by (simp add: can_subscribe_def s_req_def s_ev_def)
  have st3: "astep ?b kfd (RIC_EVENT (MSG_ARRIVED t (ric_sub_resp (granted ?i)))) (?b\<lparr>
      pend := pend ?b - {#(kfd 0, ?e)#}, fds := fds ?b - {kfd 0},
      to_xapps := to_xapps ?b @ [(s_xapp w, ric_sub_resp ((granted ?i)\<lparr>rs_ric_id := x_ric_id ?x\<rparr>))]\<rparr>)"
    by (rule astep.subscribed[where n = "s_node w A"])
      (use w in \<open>simp_all add: can_subscribe_def new_req_def granted_def matches_def same_func_def s_node_def s_rid_def s_xid_def renumbered_def\<close>)
  have fin: "?b\<lparr>pend := pend ?b - {#(kfd 0, ?e)#}, fds := fds ?b - {kfd 0},
      to_xapps := to_xapps ?b @ [(s_xapp w, ric_sub_resp ((granted ?i)\<lparr>rs_ric_id := x_ric_id ?x\<rparr>))]\<rparr> = a_ctl (opened w tfd t A)"
    using k i by (intro actrl.equality) (simp_all add: opened_def new_req_def granted_def s_node_def s_xid_def)
  have d: "msgs_to t (to_nodes ?b) = msgs_to t (to_nodes ?a) @ ric_sub_req (s_req w A) # []" "a_down A = length (msgs_to t (to_nodes ?a))"
    and u: "out ?h = out ?g @ ric_sub_resp (granted ?i) # []" "a_up A = length (out ?g)"
    using w by (simp_all add: can_subscribe_def)
  let ?A1 = "\<lparr>a_ctl = ?b, a_agt = ?g, a_down = a_down A, a_up = a_up A\<rparr>"
  let ?A2 = "\<lparr>a_ctl = ?b, a_agt = ?h, a_down = a_down A + 1, a_up = a_up A\<rparr>"
  have s3: "serves kfd tfd t [TO_RIC] (sys_rep (opened w tfd t A)) s'" if "sys_rep ?A2 s'" for s'
  proof (rule serves_to_ric[OF that, where b = "a_ctl (opened w tfd t A)"])
    show "out (a_agt ?A2) = out ?g @ ric_sub_resp (granted ?i) # []" "a_up ?A2 = length (out ?g)" using u by simp_all
    show "astep (a_ctl ?A2) kfd (RIC_EVENT (MSG_ARRIVED t (ric_sub_resp (granted ?i)))) (a_ctl (opened w tfd t A))"
      using st3 unfolding fin by simp
  qed (simp add: opened_def)
  have s2: "serves kfd tfd t [TO_NODE, TO_RIC] (sys_rep (opened w tfd t A)) s'" if "sys_rep ?A1 s'" for s'
    by (rule serves_to_node[OF that, where b = ?h]) (use d st2 s3 in simp_all)
  show ?thesis unfolding open_inputs_def by (rule serves_xapp[OF assms(1) st1 s2])
qed

text \<open>The reports that the controller can read.\<close>
definition readable :: "session \<Rightarrow> sm_ind_data \<Rightarrow> bool" where
  "readable w d \<longleftrightarrow> sid_cpid d = None \<and> (\<exists>r. on_indication (s_ric_sm w) (sid_hdr d) (sid_msg d) None = Some r \<and> rd_type r \<noteq> SM_AGENT_IF_READ_V0_END)"

definition s_data :: "session \<Rightarrow> sm_ind_data \<Rightarrow> sm_ag_if_rd_ind" where
  "s_data w d = the (on_indication (s_ric_sm w) (sid_hdr d) (sid_msg d) None)"

definition report_inputs :: "int \<Rightarrow> sm_ind_data list \<Rightarrow> sys_in list" where
  "report_inputs tfd ds = concat (map (\<lambda>d. [AGENT_TIMER tfd d, TO_RIC]) ds)"

definition to_xapp :: "session \<Rightarrow> asystem \<Rightarrow> sm_ind_data \<Rightarrow> sctp_info \<times> e2ap_msg" where
  "to_xapp w A d = (s_xapp w, ric_ind ((indication (s_ev w A) d)\<lparr>ind_ric_id := sr_ric_id (e42_sr (s_sub w))\<rparr>))"

definition reported :: "session \<Rightarrow> asystem \<Rightarrow> sm_ind_data list \<Rightarrow> asystem \<Rightarrow> asystem" where
  "reported w A ds B = \<lparr>
     a_ctl = (a_ctl B)\<lparr>to_xapps := to_xapps (a_ctl B) @ map (to_xapp w A) ds,
       published := published (a_ctl B) @ concat (map (\<lambda>d. map (\<lambda>l. (l, s_data w d)) (s_listeners w)) ds)\<rparr>,
     a_agt = (a_agt B)\<lparr>out := out (a_agt B) @ map (\<lambda>d. ric_ind (indication (s_ev w A) d)) ds\<rparr>,
     a_down = a_down B, a_up = a_up B + length ds\<rparr>"

text \<open>The subscription is open.\<close>
definition is_open :: "session \<Rightarrow> int \<Rightarrow> asystem \<Rightarrow> asystem \<Rightarrow> bool" where
  "is_open w tfd A B \<longleftrightarrow> (s_node w A, s_xid w) \<in># reqs (a_ctl B) \<and> (e42_sr_xapp_id (s_sub w), s_xapp w) \<in># xapps (a_ctl B) \<and>
     (ran_func_id (sr_ric_id (e42_sr (s_sub w))), s_ric_sm w) \<in> set (sms (a_ctl B)) \<and>
     (\<exists>f ss. subs (a_ctl B) = (f, s_listeners w) # ss) \<and>
     ran_func_id (sr_ric_id (e42_sr (s_sub w))) \<in> fst ` set (subs (a_ctl B)) \<and>
     (tfd, s_ev w A) \<in># inds (a_agt B) \<and> ie_type (s_ev w A) = PERIODIC_SUBSCRIPTION_FLRC \<and> ie_ric_id (s_ev w A) = s_rid w A \<and>
     a_up B = length (out (a_agt B))"

lemma s_ev_fields:
  "can_subscribe w kfd tfd t A \<Longrightarrow> ie_type (s_ev w A) = PERIODIC_SUBSCRIPTION_FLRC \<and> ie_ric_id (s_ev w A) = s_rid w A"
  using ind_event_of_fields[of "s_agent_sm w" "s_req w A"] by (simp add: can_subscribe_def s_ev_def s_req_def)

lemma opened_is_open: "can_subscribe w kfd tfd t A \<Longrightarrow> is_open w tfd A (opened w tfd t A)"
  using s_ev_fields[of w kfd tfd t A] by (simp add: can_subscribe_def is_open_def opened_def)

lemma reported_is_open: "is_open w tfd A B \<Longrightarrow> is_open w tfd A (reported w A ds B)"
  by (simp add: is_open_def reported_def)

lemma one_report:
  assumes "sys_rep B s" and o: "is_open w tfd A B" and d: "readable w d"
    and Q: "\<And>s'. sys_rep (reported w A [d] B) s' \<Longrightarrow> serves kfd tfd t is Q s'"
  shows "serves kfd tfd t (AGENT_TIMER tfd d # TO_RIC # is) Q s"
proof -
  let ?m = "indication (s_ev w A) d" and ?a = "a_ctl B"
  let ?g = "(a_agt B)\<lparr>out := out (a_agt B) @ [ric_ind ?m]\<rparr>"
  obtain r where r: "sid_cpid d = None" "on_indication (s_ric_sm w) (sid_hdr d) (sid_msg d) None = Some r" "rd_type r \<noteq> SM_AGENT_IF_READ_V0_END"
    using d by (auto simp: readable_def)
  have st1: "agstep [] tfd (a_agt B) (TIMEOUT tfd (Some d)) ?g"
    by (rule agstep.indicate) (use o r(1) in \<open>simp_all add: is_open_def\<close>)
  obtain f ss where ls: "subs ?a = (f, s_listeners w) # ss" using o by (auto simp: is_open_def)
  have e: "ind_ric_id ?m = s_rid w A" using o by (simp add: indication_def is_open_def)
  have id: "ran_func_id (s_rid w A) = ran_func_id (sr_ric_id (e42_sr (s_sub w)))" "same_func (s_rid w A) (sr_ric_id (e42_sr (s_sub w)))"
    by (simp_all add: s_rid_def renumbered_def same_func_def)
  have st2: "astep ?a kfd (RIC_EVENT (MSG_ARRIVED t (ric_ind ?m))) (?a\<lparr>
      published := published ?a @ map (\<lambda>l. (l, r)) (s_listeners w),
      to_xapps := to_xapps ?a @ [(s_xapp w, ric_ind (?m\<lparr>ind_ric_id := x_ric_id (s_xid w)\<rparr>))]\<rparr>)"
  proof (rule astep.indication[OF _ ls, where sm = "s_ric_sm w" and n = "s_node w A"])
    show "on_indication (s_ric_sm w) (ind_hdr ?m) (ind_msg ?m) (ind_call_process_id ?m) = Some r" using r(2) by (simp add: indication_def)
    show "matches (ind_ric_id ?m) (s_node w A, s_xid w)" using e id by (simp add: matches_def s_node_def s_xid_def)
  qed (use o e id r(3) in \<open>simp_all add: is_open_def s_xid_def\<close>)
  have fin: "?a\<lparr>published := published ?a @ map (\<lambda>l. (l, r)) (s_listeners w),
      to_xapps := to_xapps ?a @ [(s_xapp w, ric_ind (?m\<lparr>ind_ric_id := x_ric_id (s_xid w)\<rparr>))]\<rparr> = a_ctl (reported w A [d] B)"
    using r(2) by (intro actrl.equality) (simp_all add: reported_def to_xapp_def s_xid_def s_data_def)
  let ?B1 = "\<lparr>a_ctl = ?a, a_agt = ?g, a_down = a_down B, a_up = a_up B\<rparr>"
  have "serves kfd tfd t (TO_RIC # is) Q s'" if "sys_rep ?B1 s'" for s'
  proof (rule serves_to_ric[OF that, where b = "a_ctl (reported w A [d] B)"])
    show "out (a_agt ?B1) = out (a_agt B) @ ric_ind ?m # []" "a_up ?B1 = length (out (a_agt B))" using o by (simp_all add: is_open_def)
    show "astep (a_ctl ?B1) kfd (RIC_EVENT (MSG_ARRIVED t (ric_ind ?m))) (a_ctl (reported w A [d] B))" using st2 unfolding fin by simp
  qed (use Q in \<open>simp add: reported_def\<close>)
  then show ?thesis by (rule serves_timer[OF assms(1) st1])
qed

lemma session_reports:
  assumes "sys_rep B s" "is_open w tfd A B" "\<forall>d \<in> set ds. readable w d"
  shows "serves kfd tfd t (report_inputs tfd ds) (sys_rep (reported w A ds B)) s"
  using assms
proof (induction ds arbitrary: B s)
  case Nil
  then show ?case by (cases B) (simp add: report_inputs_def reported_def)
next
  case (Cons d ds)
  have "reported w A ds (reported w A [d] B) = reported w A (d # ds) B" by (simp add: reported_def)
  then have "serves kfd tfd t (report_inputs tfd ds) (sys_rep (reported w A (d # ds) B)) s'" if "sys_rep (reported w A [d] B) s'" for s'
    using Cons.IH[OF that reported_is_open[OF Cons.prems(2)]] Cons.prems(3) by simp
  then show ?case using one_report[OF Cons.prems(1,2)] Cons.prems(3) by (simp add: report_inputs_def)
qed

definition s_delete :: "session \<Rightarrow> e42_ric_subscription_delete_request" where
  "s_delete w = \<lparr>e42_sdr_xapp_id = e42_sr_xapp_id (s_sub w), e42_sdr = \<lparr>sdr_ric_id = sr_ric_id (e42_sr (s_sub w))\<rparr>\<rparr>"

definition close_inputs :: "session \<Rightarrow> sctp_info \<Rightarrow> sys_in list" where
  "close_inputs w info = [XAPP info (e42_ric_sub_del_req (s_delete w)), TO_NODE, TO_RIC]"

definition closed :: "session \<Rightarrow> int \<Rightarrow> sctp_info \<Rightarrow> asystem \<Rightarrow> asystem \<Rightarrow> asystem" where
  "closed w tfd t A B = \<lparr>
     a_ctl = (a_ctl B)\<lparr>reqs := reqs (a_ctl B) - {#(s_node w A, s_xid w)#},
       to_nodes := to_nodes (a_ctl B) @ [(t, ric_sub_del_req \<lparr>sdr_ric_id = s_rid w A\<rparr>)],
       to_xapps := to_xapps (a_ctl B) @ [(s_xapp w, ric_sub_del_resp \<lparr>sdp_ric_id = sr_ric_id (e42_sr (s_sub w))\<rparr>)]\<rparr>,
     a_agt = (a_agt B)\<lparr>inds := inds (a_agt B) - {#(tfd, s_ev w A)#}, polled := polled (a_agt B) - {tfd},
       released := released (a_agt B) @ act_def_of (s_ev w A), out := out (a_agt B) @ [ric_sub_del_resp \<lparr>sdp_ric_id = s_rid w A\<rparr>]\<rparr>,
     a_down = a_down B + 1, a_up = a_up B + 1\<rparr>"

lemma session_closes:
  assumes "sys_rep B s" and o: "is_open w tfd A B"
    and down: "a_down B = length (msgs_to t (to_nodes (a_ctl B)))" and t: "(e42_sr_id (s_sub w), t) \<in># nodes (a_ctl B)"
    and un: "\<forall>(n, y) \<in># reqs (a_ctl B). x_ric_id y = x_ric_id (s_xid w) \<longrightarrow> y = s_xid w"
    and pe: "\<forall>(f, e) \<in># pend (a_ctl B). e \<noteq> \<lparr>p_ev = SUBSCRIPTION_DELETE_REQUEST_PENDING_EVENT, p_id = s_rid w A\<rparr>"
    and k: "0 < kfd 0" "kfd 0 \<notin> fds (a_ctl B)"
  shows "serves kfd tfd t (close_inputs w info) (sys_rep (closed w tfd t A B)) s"
proof -
  let ?a = "a_ctl B" and ?g = "a_agt B" and ?i = "s_rid w A"
  let ?e = "\<lparr>p_ev = SUBSCRIPTION_DELETE_REQUEST_PENDING_EVENT, p_id = ?i\<rparr>"
  let ?b = "?a\<lparr>pend := add_mset (kfd 0, ?e) (pend ?a), fds := insert (kfd 0) (fds ?a),
      to_nodes := to_nodes ?a @ [(t, ric_sub_del_req \<lparr>sdr_ric_id = ?i\<rparr>)]\<rparr>"
  let ?h = "?g\<lparr>inds := inds ?g - {#(tfd, s_ev w A)#}, polled := polled ?g - {tfd},
       released := released ?g @ act_def_of (s_ev w A), out := out ?g @ [ric_sub_del_resp \<lparr>sdp_ric_id = ?i\<rparr>]\<rparr>"
  have x: "s_xid w = \<lparr>x_ric_id = sdr_ric_id (e42_sdr (s_delete w)), xapp_id = e42_sdr_xapp_id (s_delete w)\<rparr>"
    by (simp add: s_xid_def s_delete_def)
  have n: "(s_node w A, s_xid w) \<in># reqs ?a" "e_ric_id (s_node w A) = ?i" using o by (simp_all add: is_open_def s_node_def)
  have st1: "astep ?a kfd (IAPP_EVENT (MSG_ARRIVED info (e42_ric_sub_del_req (s_delete w)))) ?b"
    using astep.unsubscribe[where kfd = kfd and m = "s_delete w" and info = info and t = t, OF x n(1) un _ _ refl _ k] t pe n(2)
    by (simp add: s_node_def)
  have ev: "(tfd, s_ev w A) \<in># inds ?g" "ie_type (s_ev w A) = PERIODIC_SUBSCRIPTION_FLRC" "?i = ie_ric_id (s_ev w A)"
    and up: "a_up B = length (out ?g)" using o by (simp_all add: is_open_def)
  note st2 = agstep.unsubscribe[OF ev, of "[]" tfd]
  have id: "same_func ?i (sr_ric_id (e42_sr (s_sub w)))" by (simp add: s_rid_def renumbered_def same_func_def)
  have st3: "astep ?b kfd (RIC_EVENT (MSG_ARRIVED t (ric_sub_del_resp \<lparr>sdp_ric_id = ?i\<rparr>))) (?b\<lparr>
      pend := pend ?b - {#(kfd 0, \<lparr>p_ev = SUBSCRIPTION_DELETE_REQUEST_PENDING_EVENT, p_id = sdp_ric_id \<lparr>sdp_ric_id = ?i\<rparr>\<rparr>)#},
      fds := fds ?b - {kfd 0}, reqs := reqs ?b - {#(s_node w A, s_xid w)#},
      to_xapps := to_xapps ?b @ [(s_xapp w, ric_sub_del_resp \<lparr>sdp_ric_id = x_ric_id (s_xid w)\<rparr>)]\<rparr>)"
    by (rule astep.unsubscribed) (use o id n in \<open>simp_all add: is_open_def matches_def s_node_def s_xid_def\<close>)
  have fin: "?b\<lparr>
      pend := pend ?b - {#(kfd 0, \<lparr>p_ev = SUBSCRIPTION_DELETE_REQUEST_PENDING_EVENT, p_id = sdp_ric_id \<lparr>sdp_ric_id = ?i\<rparr>\<rparr>)#},
      fds := fds ?b - {kfd 0}, reqs := reqs ?b - {#(s_node w A, s_xid w)#},
      to_xapps := to_xapps ?b @ [(s_xapp w, ric_sub_del_resp \<lparr>sdp_ric_id = x_ric_id (s_xid w)\<rparr>)]\<rparr> = a_ctl (closed w tfd t A B)"
    using k by (intro actrl.equality) (simp_all add: closed_def s_xid_def)
  let ?B1 = "\<lparr>a_ctl = ?b, a_agt = ?g, a_down = a_down B, a_up = a_up B\<rparr>"
  let ?B2 = "\<lparr>a_ctl = ?b, a_agt = ?h, a_down = a_down B + 1, a_up = a_up B\<rparr>"
  have s3: "serves kfd tfd t [TO_RIC] (sys_rep (closed w tfd t A B)) s'" if "sys_rep ?B2 s'" for s'
  proof (rule serves_to_ric[OF that, where b = "a_ctl (closed w tfd t A B)"])
    show "out (a_agt ?B2) = out ?g @ ric_sub_del_resp \<lparr>sdp_ric_id = ?i\<rparr> # []" "a_up ?B2 = length (out ?g)" using up by simp_all
    show "astep (a_ctl ?B2) kfd (RIC_EVENT (MSG_ARRIVED t (ric_sub_del_resp \<lparr>sdp_ric_id = ?i\<rparr>))) (a_ctl (closed w tfd t A B))"
      using st3 unfolding fin by simp
  qed (simp add: closed_def)
  have s2: "serves kfd tfd t [TO_NODE, TO_RIC] (sys_rep (closed w tfd t A B)) s'" if "sys_rep ?B1 s'" for s'
    by (rule serves_to_node[OF that, where b = ?h]) (use down st2 s3 in simp_all)
  show ?thesis unfolding close_inputs_def by (rule serves_xapp[OF assms(1) st1 s2])
qed

text \<open>When the xApp has deleted the subscription and the deletion has been confirmed: the counter is one higher,
  messages have gone both ways, and everything else is as before.\<close>
definition served :: "session \<Rightarrow> sctp_info \<Rightarrow> sm_ind_data list \<Rightarrow> asystem \<Rightarrow> asystem" where
  "served w t ds A = \<lparr>
     a_ctl = (a_ctl A)\<lparr>next_req := next_req (a_ctl A) + 1,
       to_nodes := to_nodes (a_ctl A) @ [(t, ric_sub_req (s_req w A)), (t, ric_sub_del_req \<lparr>sdr_ric_id = s_rid w A\<rparr>)],
       to_xapps := to_xapps (a_ctl A) @ [(s_xapp w, ric_sub_resp (granted (sr_ric_id (e42_sr (s_sub w)))))] @ map (to_xapp w A) ds @
         [(s_xapp w, ric_sub_del_resp \<lparr>sdp_ric_id = sr_ric_id (e42_sr (s_sub w))\<rparr>)],
       published := published (a_ctl A) @ concat (map (\<lambda>d. map (\<lambda>l. (l, s_data w d)) (s_listeners w)) ds)\<rparr>,
     a_agt = (a_agt A)\<lparr>released := released (a_agt A) @ act_def_of (s_ev w A),
       out := out (a_agt A) @ [ric_sub_resp (granted (s_rid w A))] @ map (\<lambda>d. ric_ind (indication (s_ev w A) d)) ds @
         [ric_sub_del_resp \<lparr>sdp_ric_id = s_rid w A\<rparr>]\<rparr>,
     a_down = a_down A + 2, a_up = a_up A + length ds + 2\<rparr>"

lemma closed_served:
  assumes "can_subscribe w kfd tfd t A"
  shows "closed w tfd t A (reported w A ds (opened w tfd t A)) = served w t ds A"
proof -
  have "tfd \<notin> polled (a_agt A)" using assms by (simp add: can_subscribe_def)
  then show ?thesis by (simp add: closed_def reported_def opened_def served_def)
qed

text \<open>The end of the session, whatever was reported.\<close>
lemma session_ends:
  assumes A: "sys_rep A s0" and w: "can_subscribe w kfd tfd t A" and s: "sys_rep (reported w A ds (opened w tfd t A)) s"
  shows "serves kfd tfd t (close_inputs w info) (sys_rep (served w t ds A)) s"
proof -
  let ?R = "reported w A ds (opened w tfd t A)"
  note c = w[unfolded can_subscribe_def]
  have iv: "reqs_inv (a_ctl A)" "pend_inv (a_ctl A)" using A by (simp_all add: sys_rep_def a_inv_def)
  have k: "0 < next_req (a_ctl A)" "next_req (a_ctl A) < 65535" using c iv(1) by (simp_all add: may_request_def reqs_inv_def)
  note nr = new_number(1)[OF k, of "sr_ric_id (e42_sr (s_sub w))", folded s_rid_def]
  have pe: "\<forall>(f, e) \<in># pend (a_ctl ?R). e \<noteq> \<lparr>p_ev = SUBSCRIPTION_DELETE_REQUEST_PENDING_EVENT, p_id = s_rid w A\<rparr>"
    using iv(2) nr unfolding pend_inv_def by (fastforce simp: reported_def opened_def)
  have o: "is_open w tfd A ?R" by (rule reported_is_open[OF opened_is_open[OF w]])
  have un: "\<forall>(n, y) \<in># reqs (a_ctl ?R). x_ric_id y = x_ric_id (s_xid w) \<longrightarrow> y = s_xid w"
    using c by (auto simp: reported_def opened_def s_xid_def)
  show ?thesis unfolding closed_served[OF w, symmetric]
    by (rule session_closes[OF s o _ _ un pe]) (use c in \<open>simp_all add: reported_def opened_def may_request_def\<close>)
qed

text \<open>A session of an xApp, from end to end: the xApp subscribes at a connected node; its request goes through the controller to
  the agent, which starts the timer of the plug-in, and the grant comes back; every report of the plug-in
  reaches the xApp in order, under the identifier that the xApp chose, and the listeners of the controller; the deletion goes
  the same way.  Whatever fresh memory the two programs are given, no assertion fails on the way, and afterwards the tables, timers
  and descriptors of both are what they were.\<close>
theorem session_served:
  assumes "sys_rep A s" "can_subscribe w kfd tfd t A" "\<forall>d \<in> set ds. readable w d"
  shows "serves kfd tfd t (open_inputs w info @ report_inputs tfd ds @ close_inputs w info) (sys_rep (served w t ds A)) s"
proof -
  let ?O = "opened w tfd t A"
  have re: "serves kfd tfd t (report_inputs tfd ds @ close_inputs w info) (sys_rep (served w t ds A)) s'" if "sys_rep ?O s'" for s'
    unfolding serves_append
    by (rule serves_mono[OF session_reports[OF that opened_is_open[OF assms(2)] assms(3)]]) (rule session_ends[OF assms(1,2)])
  show ?thesis unfolding serves_append[of _ _ _ "open_inputs w info"] by (rule serves_mono[OF session_opens[OF assms(1,2)] re])
qed

text \<open>The example: the controller with its node and xApp, and the agent of this node.\<close>
definition ex_session :: session where
  "ex_session = \<lparr>s_sub = ex_e42_sub, s_agent_sm = ex_sma, s_ric_sm = ex_sm, s_xapp = ex_addr 100, s_listeners = three\<rparr>"

definition ex_asys :: asystem where
  "ex_asys = \<lparr>a_ctl = ex_actrl, a_agt = ex_aagent, a_down = 0, a_up = 0\<rparr>"

lemma ex_can_subscribe: "can_subscribe ex_session ex_kfd 9 (ex_addr 100) ex_asys"
proof -
  have "periodic ex_sma (s_req ex_session ex_asys)"
    by (simp add: periodic_def s_req_def ex_session_def ex_e42_sub_def ex_sma_answer)
  moreover have "s_xid ex_session = ex_xid" by (simp add: s_xid_def ex_session_def ex_xid_eq)
  moreover have "e42_sr_id ex_e42_sub = ex_gnb 1" by (simp add: ex_e42_sub_def)
  ultimately show ?thesis using ex_may_request
    by (simp add: can_subscribe_def) (simp add: ex_session_def ex_asys_def ex_aagent_def ex_actrl_def ex_e42_sub_def ex_id_def)
qed

theorem session_served_witness:
  "\<exists>s. sys_step ex_mal (\<lambda>j. 10 + j) ex_kfd 9 (ex_addr 100) \<lparr>ctl = ex_ctrl, agt = ex_agent, got_down = 0, got_up = 0\<rparr>
      (XAPP (ex_addr 200) (e42_ric_sub_req ex_e42_sub)) = Some s \<and>
    serves ex_kfd 9 (ex_addr 100) ([TO_NODE, TO_RIC] @ report_inputs 9 [\<lparr>sid_hdr = [1], sid_msg = [2], sid_cpid = None\<rparr>] @
      close_inputs ex_session (ex_addr 200))
      (sys_rep (served ex_session (ex_addr 100) [\<lparr>sid_hdr = [1], sid_msg = [2], sid_cpid = None\<rparr>] ex_asys)) s"
proof -
  have r: "sys_rep ex_asys \<lparr>ctl = ex_ctrl, agt = ex_agent, got_down = 0, got_up = 0\<rparr>"
    using ex_ctrl_rep ex_a_inv ex_ag_abs by (simp add: sys_rep_def ex_asys_def)
  have d: "\<forall>d \<in> set [\<lparr>sid_hdr = [1], sid_msg = [2], sid_cpid = None\<rparr>]. readable ex_session d"
    by (simp add: readable_def ex_session_def ex_sm_def)
  have s: "s_sub ex_session = ex_e42_sub" by (simp add: ex_session_def)
  from session_served[OF r ex_can_subscribe d, of "ex_addr 200"] ex_fresh ex_ag_fresh
  show ?thesis by (simp add: open_inputs_def s)
qed

end
