(* ===== verification/Act_Proc.thy ===== *)
theory Act_Proc
  imports Registry Ric_Tables
begin

text \<open>
  The active procedures of an xApp, src/xApp/act_proc.c: the registry of the subscriptions and control
  requests under their request numbers.  The lock is left out: each function holds it from start to end.

  The locale \<open>growing_map\<close> is what clients rely on: a store that gives each new value the next number,
  and keeps the value as \<open>stored\<close> says.
  The registry and the active procedures are instances.
\<close>

section \<open>Stores that number their values\<close>

locale growing_map =
  fixes ok :: "'s \<Rightarrow> bool" and nxt :: "'s \<Rightarrow> nat" and entries :: "'s \<Rightarrow> (32 word \<times> 'v) list" and limit :: nat
    and stored :: "32 word \<Rightarrow> 'a \<Rightarrow> 'v" and adding :: "'s \<Rightarrow> 'a \<Rightarrow> (32 word \<times> 's) option"
    and looking :: "'s \<Rightarrow> 32 word \<Rightarrow> ('v option \<times> 's) option"
    and deleting :: "'s \<Rightarrow> 32 word \<Rightarrow> 's option"
  assumes limit_le: "limit \<le> 2 ^ 31"
    and adding_law: "ok s \<Longrightarrow> nxt s < limit \<Longrightarrow>
      \<exists>s'. adding s v = Some (word_of_nat (nxt s), s') \<and> ok s' \<and> nxt s' = nxt s + 1 \<and> entries s' = entries s @ [(word_of_nat (nxt s), stored (word_of_nat (nxt s)) v)]"
    and looking_law: "ok s \<Longrightarrow> nxt s \<le> limit \<Longrightarrow> 0 < k \<Longrightarrow> unat k < limit \<Longrightarrow>
      \<exists>s'. looking s k = Some (map_of (entries s) k, s') \<and> ok s' \<and> nxt s' = nxt s \<and> entries s' = entries s"
    and deleting_law: "ok s \<Longrightarrow> nxt s \<le> limit \<Longrightarrow> k \<in> fst ` set (entries s) \<Longrightarrow>
      \<exists>s'. deleting s k = Some s' \<and> ok s' \<and> nxt s' = nxt s \<and> entries s' = filter (\<lambda>e. fst e \<noteq> k) (entries s)"
    and numbers: "ok s \<Longrightarrow> (k, x) \<in> set (entries s) \<Longrightarrow> 0 < k \<and> unat k < nxt s"
    and distinct_numbers: "ok s \<Longrightarrow> distinct (map fst (entries s))"
begin

lemma number_val: "nxt s \<le> limit \<Longrightarrow> n \<le> nxt s \<Longrightarrow> unat (word_of_nat n :: 32 word) = n"
  using limit_le by (simp add: unat_of_nat)

text \<open>A new number is given to no other value.\<close>
lemma unused_number: "ok s \<Longrightarrow> nxt s \<le> limit \<Longrightarrow> word_of_nat (nxt s) \<notin> fst ` set (entries s)"
  using numbers[of s] number_val[of s "nxt s"] by force

text \<open>What was added is found under its number, and everything else as before.\<close>
lemma look_after_add:
  assumes "ok s" "nxt s < limit" "0 < nxt s" "0 < k" "unat k < limit"
  obtains s' s'' where "adding s v = Some (word_of_nat (nxt s), s')"
    "looking s' k = Some (if k = word_of_nat (nxt s) then Some (stored k v) else map_of (entries s) k, s'')" "ok s''"
    "entries s'' = entries s @ [(word_of_nat (nxt s), stored (word_of_nat (nxt s)) v)]"
proof -
  obtain s' where s': "adding s v = Some (word_of_nat (nxt s), s')" "ok s'" "nxt s' = nxt s + 1"
    "entries s' = entries s @ [(word_of_nat (nxt s), stored (word_of_nat (nxt s)) v)]" using adding_law[OF assms(1,2)] by blast
  obtain s'' where s'': "looking s' k = Some (map_of (entries s') k, s'')" "ok s''" "entries s'' = entries s'"
    using looking_law[OF s'(2), of k] s'(3) assms(2,4,5) by auto
  have "map_of (entries s) (word_of_nat (nxt s)) = None" using unused_number[OF assms(1)] assms(2) by (simp add: map_of_eq_None_iff)
  then have "map_of (entries s') k = (if k = word_of_nat (nxt s) then Some (stored k v) else map_of (entries s) k)"
    using s'(4) by (auto simp: map_add_def split: option.splits)
  then show thesis using that s' s'' by simp
qed

text \<open>A number is not used again: what is found under a number that was given and removed is nothing.\<close>
lemma look_after_delete:
  assumes "ok s" "nxt s \<le> limit" "(k, v) \<in> set (entries s)"
  obtains s' s'' where "deleting s k = Some s'" "looking s' k = Some (None, s'')" "nxt s'' = nxt s"
    "entries s'' = filter (\<lambda>e. fst e \<noteq> k) (entries s)"
proof -
  have k: "0 < k" "unat k < limit" using numbers[OF assms(1,3)] assms(2) by simp_all
  have "k \<in> fst ` set (entries s)" using assms(3) by force
  then obtain s' where s': "deleting s k = Some s'" "ok s'" "nxt s' = nxt s" "entries s' = filter (\<lambda>e. fst e \<noteq> k) (entries s)"
    using deleting_law[OF assms(1,2)] by blast
  then obtain s'' where s'': "looking s' k = Some (map_of (entries s') k, s'')" "nxt s'' = nxt s'" "entries s'' = entries s'"
    using looking_law[OF s'(2) _ k] assms(2) by auto
  have "map_of (entries s') k = None" using s'(4) by (auto simp: map_of_eq_None_iff)
  then show thesis using that s' s'' by simp
qed

lemma look_entry:
  assumes "ok s" "nxt s \<le> limit" "(k, v) \<in> set (entries s)"
  obtains s' where "looking s k = Some (Some v, s')" "ok s'" "nxt s' = nxt s" "entries s' = entries s"
proof -
  have k: "0 < k" "unat k < limit" using numbers[OF assms(1,3)] assms(2) by simp_all
  have "map_of (entries s) k = Some v" using distinct_numbers[OF assms(1)] assms(3) by (simp add: map_of_is_SomeI)
  then show thesis using that looking_law[OF assms(1,2) k] by auto
qed

end

text \<open>The registry, with the search from the front and the removal of one entry.\<close>
definition reg_look :: "'v assoc_reg \<Rightarrow> 32 word \<Rightarrow> ('v option \<times> 'v assoc_reg) option" where
  "reg_look reg key = map_option (\<lambda>(out, reg). (case out of Out_Value v \<Rightarrow> v | _ \<Rightarrow> None, reg)) (reg_step reg (Reg_Find key))"

definition reg_del :: "'v assoc_reg \<Rightarrow> 32 word \<Rightarrow> 'v assoc_reg option" where
  "reg_del reg key = map_option snd (reg_step reg (Reg_Erase key))"

lemma reg_numbers: "reg_inv reg \<Longrightarrow> (k, v) \<in> set (contents reg) \<Longrightarrow> 0 < k \<and> unat k < rg_key_id reg"
  by (auto simp: reg_inv_def contents_def contents_of_def buckets_ok_def)

interpretation reg_map: growing_map reg_inv rg_key_id contents "2 ^ 31" "\<lambda>k v. v" "\<lambda>reg v. assoc_reg_push_back reg v (rg_elm_sz reg)" reg_look reg_del
proof unfold_locales
  fix s :: "'v assoc_reg" and v k
  show "reg_inv s \<Longrightarrow> rg_key_id s < 2 ^ 31 \<Longrightarrow>
      \<exists>s'. assoc_reg_push_back s v (rg_elm_sz s) = Some (word_of_nat (rg_key_id s), s') \<and> reg_inv s' \<and>
        rg_key_id s' = rg_key_id s + 1 \<and> contents s' = contents s @ [(word_of_nat (rg_key_id s), v)]"
    by (rule push_spec[of s v]) simp_all
  assume s: "reg_inv s" "rg_key_id s \<le> 2 ^ 31"
  show "\<exists>s'. reg_look s k = Some (map_of (contents s) k, s') \<and> reg_inv s' \<and> rg_key_id s' = rg_key_id s \<and> contents s' = contents s" if k: "0 < k"
  proof (cases rule: find_key_cases[OF s, where key = k])
    case 2
    then show ?thesis using s(1) filter_no_key[OF 2(3)] by (simp add: reg_look_def assoc_reg_end_def)
  next
    case (3 it)
    obtain v xs ys where f: "assoc_reg_value s it = Some v" "contents s = xs @ (k, v) # ys" "k \<notin> fst ` set (xs @ ys)"
      by (rule found_value[OF s(1) 3(3-5)])
    show ?thesis using 3 f(1) filter_key(3)[OF f(2,3)] s(1) by (simp add: reg_look_def assoc_reg_end_def)
  qed (use k in simp)
  show "\<exists>s'. reg_del s k = Some s' \<and> reg_inv s' \<and> rg_key_id s' = rg_key_id s \<and> contents s' = filter (\<lambda>e. fst e \<noteq> k) (contents s)"
    if k: "k \<in> fst ` set (contents s)"
  proof (cases rule: find_key_cases[OF s, where key = k])
    case 1
    then show ?thesis using k reg_numbers[OF s(1)] by force
  next
    case (3 it)
    obtain v nxt reg' xs ys where f: "contents s = xs @ (k, v) # ys" "k \<notin> fst ` set (xs @ ys)" "assoc_reg_next s it = Some nxt"
      "assoc_reg_erase s it nxt = Some ([Some v], reg')" "reg_inv reg'" "contents reg' = xs @ ys" "rg_key_id reg' = rg_key_id s"
      by (rule found_erase[OF s(1) 3(3-5)])
    show ?thesis using 3(1-3) f(3-7) filter_key(2)[OF f(1,2)] by (simp add: reg_del_def assoc_reg_end_def)
  qed (use k in simp)
qed (simp_all add: reg_numbers contents_distinct)

section \<open>Active procedures\<close>

datatype act_proc_val_e = RIC_SUBSCRIPTION_PROCEDURE_ACTIVE | RIC_CONTROL_PROCEDURE_ACTIVE

text \<open>A callback is its address; zero is the null pointer.\<close>
type_synonym sm_cb = nat

record act_proc_val =
  av_type :: act_proc_val_e
  av_id :: ric_gen_id
  av_sm_cb :: sm_cb
  av_e2_node :: global_e2_node_id

type_synonym act_proc = "act_proc_val assoc_reg"

definition init_act_proc :: act_proc where
  "init_act_proc = assoc_reg_init 56"

definition free_act_proc :: "act_proc \<Rightarrow> act_proc" where
  "free_act_proc p = assoc_reg_free p"

definition valid_proc_type :: "act_proc_val_e \<Rightarrow> bool" where
  "valid_proc_type type \<longleftrightarrow> type = RIC_SUBSCRIPTION_PROCEDURE_ACTIVE \<or> type = RIC_CONTROL_PROCEDURE_ACTIVE"

definition add_act_proc ::
  "act_proc \<Rightarrow> act_proc_val_e \<Rightarrow> ric_gen_id \<Rightarrow> global_e2_node_id \<Rightarrow> sm_cb \<Rightarrow> (32 word \<times> act_proc) option"
where
  "add_act_proc p type i e2_node cb = do {
     c_assert (valid_proc_type type);
     let val = \<lparr>av_type = type, av_id = i, av_sm_cb = cb, av_e2_node = cp_global_e2_node_id e2_node\<rparr>;
     assoc_reg_push_back p val 56
   }"

definition rm_act_proc :: "act_proc \<Rightarrow> uint16 \<Rightarrow> act_proc option" where
  "rm_act_proc p req_id = do {
     it \<leftarrow> assoc_reg_front p;
     it \<leftarrow> find_reg p it (assoc_reg_end p) (ucast req_id);
     c_assert (it \<noteq> assoc_reg_end p);
     nxt \<leftarrow> assoc_reg_next p it;
     (freed, p) \<leftarrow> assoc_reg_erase p it nxt;
     Some p
   }"

text \<open>The number is written through the pointer into the registry.\<close>
definition find_act_proc :: "act_proc \<Rightarrow> uint16 \<Rightarrow> (act_proc_val option \<times> act_proc) option" where
  "find_act_proc p req_id = do {
     it \<leftarrow> assoc_reg_front p;
     it \<leftarrow> find_reg p it (assoc_reg_end p) (ucast req_id);
     if it = assoc_reg_end p then Some (None, p)
     else do {
       val \<leftarrow> assoc_reg_value p it;
       let val = val\<lparr>av_id := (av_id val)\<lparr>ric_req_id := ucast req_id\<rparr>\<rparr>;
       b \<leftarrow> bucket_at p it;
       Some (Some val, p\<lparr>rg_arr := (rg_arr p)[it := b\<lparr>b_val := Some val\<rparr>]\<rparr>)
     }
   }"


text \<open>The procedures under their numbers, with the numbers that a search writes.\<close>
definition with_number :: "32 word \<Rightarrow> act_proc_val \<Rightarrow> act_proc_val" where
  "with_number k v = v\<lparr>av_id := (av_id v)\<lparr>ric_req_id := k\<rparr>\<rparr>"

definition procedures :: "act_proc \<Rightarrow> (32 word \<times> act_proc_val) list" where
  "procedures p = map (\<lambda>(k, v). (k, with_number k v)) (contents p)"

definition act_proc_ok :: "act_proc \<Rightarrow> bool" where
  "act_proc_ok p \<longleftrightarrow> reg_inv p \<and> rg_elm_sz p = 56"

lemma fst_procedures [simp]: "map fst (procedures p) = map fst (contents p)" "fst ` set (procedures p) = fst ` set (contents p)"
  by (simp_all add: procedures_def comp_def case_prod_beta image_image)

lemma with_number_twice [simp]: "with_number k (with_number k v) = with_number k v"
  by (simp add: with_number_def)

text \<open>A write through the pointer to a value.\<close>
lemma write_value:
  fixes reg :: "'v assoc_reg" and w :: 'v
  assumes "reg_inv reg" "it < rg_occ reg" "b_has_value (rg_arr reg ! it)" "b_key (rg_arr reg ! it) = key"
    and "contents reg = xs @ (key, v) # ys" "contents_of (take it (occupied reg)) = xs" "contents_of (drop (Suc it) (occupied reg)) = ys"
  defines "reg' \<equiv> reg\<lparr>rg_arr := (rg_arr reg)[it := (rg_arr reg ! it)\<lparr>b_val := Some w\<rparr>]\<rparr>"
  shows "reg_inv reg'" "contents reg' = xs @ (key, w) # ys" "rg_key_id reg' = rg_key_id reg" "rg_elm_sz reg' = rg_elm_sz reg"
proof -
  let ?b = "(rg_arr reg ! it)\<lparr>b_val := Some w\<rparr>"
  have l: "it < length (occupied reg)" "occupied reg ! it = rg_arr reg ! it" "rg_occ reg < length (rg_arr reg)" "length (rg_arr reg) = rg_cap reg"
    using assms(1,2) by (simp_all add: reg_inv_def occupied_def)
  have o: "take (rg_occ reg) (rg_arr reg') = (occupied reg)[it := ?b]" by (simp add: reg'_def occupied_def take_update_swap)
  have c: "contents_of (take (rg_occ reg) (rg_arr reg')) = xs @ (key, w) # ys"
    unfolding o upd_conv_take_nth_drop[OF l(1)] using assms(3,4,6,7) by simp
  have v: "\<forall>b \<in> set (occupied reg). b_has_value b \<longrightarrow> b_val b \<noteq> None" using assms(1) by (simp add: reg_inv_def buckets_ok_def)
  have "reg_inv (reg\<lparr>rg_arr := rg_arr reg', rg_sz := rg_sz reg\<rparr>)"
  proof (rule reg_inv_update[OF assms(1)])
    show "length (rg_arr reg') = rg_cap reg" using l(4) by (simp add: reg'_def)
    show "map b_key (take (rg_occ reg) (rg_arr reg')) = map b_key (occupied reg)"
      unfolding o map_update using l(1,2) by (metis list_update_id nth_map registry_bucket.select_convs(1) registry_bucket.surjective registry_bucket.update_convs(3))
    show "\<forall>b \<in> set (take (rg_occ reg) (rg_arr reg')). b_has_value b \<longrightarrow> b_val b \<noteq> None"
      unfolding o using v set_update_subset_insert[of "occupied reg" it ?b] by auto
    show "rg_sz reg = length (contents_of (take (rg_occ reg) (rg_arr reg')))" unfolding c using assms(1,5) by (simp add: reg_inv_def)
  qed
  then show "reg_inv reg'" by (simp add: reg'_def)
  show "contents reg' = xs @ (key, w) # ys" using c by (simp add: contents_def occupied_def reg'_def)
qed (simp_all add: reg'_def)

lemma ucast_number: "unat (k :: 32 word) < 65536 \<Longrightarrow> ucast (ucast k :: uint16) = k"
  by (rule word_unat_eq_iff[THEN iffD2]) (simp add: unsigned_ucast_eq unsigned_take_bit_eq take_bit_nat_eq_self_iff)

lemma procedures_find:
  assumes p: "act_proc_ok p" "rg_key_id p \<le> 65536" and k: "0 < k" "unat k < 65536"
  shows "\<exists>p'. find_act_proc p (ucast k) = Some (map_of (procedures p) k, p') \<and> act_proc_ok p' \<and> rg_key_id p' = rg_key_id p \<and>
    procedures p' = procedures p"
proof -
  have i: "reg_inv p" "rg_key_id p \<le> 2 ^ 31" using p by (simp_all add: act_proc_ok_def)
  have f: "find_act_proc p (ucast k) = do {
     it \<leftarrow> find_key p k;
     if it = assoc_reg_end p then Some (None, p)
     else do {
       val \<leftarrow> assoc_reg_value p it;
       b \<leftarrow> bucket_at p it;
       Some (Some (with_number k val), p\<lparr>rg_arr := (rg_arr p)[it := b\<lparr>b_val := Some (with_number k val)\<rparr>]\<rparr>)
     }
   }" unfolding find_act_proc_def find_key_def ucast_number[OF k(2)] with_number_def Let_def by (cases "assoc_reg_front p") simp_all
  show ?thesis
  proof (cases rule: find_key_cases[OF i, where key = k])
    case 2
    have "map_of (procedures p) k = None" using 2(3) by (simp add: map_of_eq_None_iff)
    then show ?thesis using p(1) 2(2) unfolding f by (simp add: assoc_reg_end_def)
  next
    case (3 it)
    obtain v xs ys where v: "assoc_reg_value p it = Some v" "contents p = xs @ (k, v) # ys" "k \<notin> fst ` set (xs @ ys)"
      "contents_of (take it (occupied p)) = xs" "contents_of (drop (Suc it) (occupied p)) = ys"
      by (rule found_value[OF i(1) 3(3-5)])
    let ?p = "p\<lparr>rg_arr := (rg_arr p)[it := (rg_arr p ! it)\<lparr>b_val := Some (with_number k v)\<rparr>]\<rparr>"
    note w = write_value[OF i(1) 3(3-5) v(2,4,5), of "with_number k v"]
    have "bucket_at p it = Some (rg_arr p ! it)" using 3(3) i(1) by (simp add: bucket_at_def reg_inv_def)
    then have "find_act_proc p (ucast k) = Some (Some (with_number k v), ?p)" using 3(2,3) v(1) unfolding f by (simp add: assoc_reg_end_def)
    moreover have "map_of (procedures p) k = Some (with_number k v)"
      using filter_key(3)[of "procedures p" "map (\<lambda>(k, v). (k, with_number k v)) xs" k "with_number k v" "map (\<lambda>(k, v). (k, with_number k v)) ys"] v(2,3)
      by (force simp: procedures_def)
    moreover have "procedures ?p = procedures p" using v(2) w(2) by (simp add: procedures_def)
    ultimately show ?thesis using w p(1) by (simp add: act_proc_ok_def)
  qed (use k in simp)
qed

lemma procedures_rm:
  assumes p: "act_proc_ok p" "rg_key_id p \<le> 65536" and k: "k \<in> fst ` set (procedures p)"
  shows "\<exists>p'. rm_act_proc p (ucast k) = Some p' \<and> act_proc_ok p' \<and> rg_key_id p' = rg_key_id p \<and>
    procedures p' = filter (\<lambda>e. fst e \<noteq> k) (procedures p)"
proof -
  have i: "reg_inv p" "rg_key_id p \<le> 2 ^ 31" using p by (simp_all add: act_proc_ok_def)
  obtain v where "(k, v) \<in> set (contents p)" using k by auto
  then have kk: "0 < k" "unat k < 65536" using reg_numbers[OF i(1)] p(2) by fastforce+
  have f: "rm_act_proc p (ucast k) = do {
     it \<leftarrow> find_key p k;
     c_assert (it \<noteq> assoc_reg_end p);
     nxt \<leftarrow> assoc_reg_next p it;
     (freed, p) \<leftarrow> assoc_reg_erase p it nxt;
     Some p
   }" unfolding rm_act_proc_def find_key_def ucast_number[OF kk(2)] by (cases "assoc_reg_front p") simp_all
  show ?thesis
  proof (cases rule: find_key_cases[OF i, where key = k])
    case 2
    then show ?thesis using k by simp
  next
    case (3 it)
    obtain v nxt p' xs ys where e: "contents p = xs @ (k, v) # ys" "k \<notin> fst ` set (xs @ ys)" "assoc_reg_next p it = Some nxt"
      "assoc_reg_erase p it nxt = Some ([Some v], p')" "reg_inv p'" "contents p' = xs @ ys" "rg_key_id p' = rg_key_id p"
      "rg_elm_sz p' = rg_elm_sz p" by (rule found_erase[OF i(1) 3(3-5)])
    have "filter (\<lambda>e. fst e \<noteq> k) (procedures p) = procedures p'"
      using filter_key(2)[of "procedures p" "map (\<lambda>(k, v). (k, with_number k v)) xs" k "with_number k v" "map (\<lambda>(k, v). (k, with_number k v)) ys"] e(1,2,6)
      by (force simp: procedures_def)
    moreover have "rm_act_proc p (ucast k) = Some p'" using 3(2,3) e(3,4) unfolding f by (simp add: assoc_reg_end_def)
    ultimately show ?thesis using e(5,7,8) p(1) by (simp add: act_proc_ok_def)
  qed (use kk in simp)
qed

interpretation procs: growing_map act_proc_ok rg_key_id procedures 65536 with_number
  "\<lambda>p v. add_act_proc p (av_type v) (av_id v) (av_e2_node v) (av_sm_cb v)" "\<lambda>p k. find_act_proc p (ucast k)" "\<lambda>p k. rm_act_proc p (ucast k)"
proof unfold_locales
  fix s :: act_proc and v k
  show "\<exists>s'. add_act_proc s (av_type v) (av_id v) (av_e2_node v) (av_sm_cb v) = Some (word_of_nat (rg_key_id s), s') \<and> act_proc_ok s' \<and>
      rg_key_id s' = rg_key_id s + 1 \<and> procedures s' = procedures s @ [(word_of_nat (rg_key_id s), with_number (word_of_nat (rg_key_id s)) v)]"
    if s: "act_proc_ok s" "rg_key_id s < 65536"
  proof -
    have i: "reg_inv s" "rg_key_id s < 2 ^ 32" using s by (simp_all add: act_proc_ok_def)
    have t: "valid_proc_type (av_type v)" by (cases "av_type v") (simp_all add: valid_proc_type_def)
    obtain p' where "assoc_reg_push_back s v (rg_elm_sz s) = Some (word_of_nat (rg_key_id s), p')" "reg_inv p'"
      "contents p' = contents s @ [(word_of_nat (rg_key_id s), v)]" "rg_key_id p' = rg_key_id s + 1" "rg_elm_sz p' = rg_elm_sz s"
      by (rule push_spec[OF i])
    moreover have "\<lparr>av_type = av_type v, av_id = av_id v, av_sm_cb = av_sm_cb v, av_e2_node = av_e2_node v\<rparr> = v" by simp
    ultimately show ?thesis using s t unfolding add_act_proc_def by (simp only: cp_global_e2_node_id_id) (simp add: act_proc_ok_def procedures_def cp_global_e2_node_id_id)
  qed
  show "act_proc_ok s \<Longrightarrow> (k, v) \<in> set (procedures s) \<Longrightarrow> 0 < k \<and> unat k < rg_key_id s"
    by (auto simp: procedures_def act_proc_ok_def dest: reg_numbers)
  show "act_proc_ok s \<Longrightarrow> distinct (map fst (procedures s))" by (simp add: act_proc_ok_def contents_distinct)
qed (rule order_refl | simp add: procedures_find procedures_rm del: fst_procedures)+

section \<open>Numbers\<close>

text \<open>A new procedure has a number that no registered one has, is found under it with the number written into its identifier,
  and after its removal nothing is found under the number: the other procedures are as before, and the number is not given again.\<close>
theorem act_proc_numbers:
  assumes "act_proc_ok p" "0 < rg_key_id p" "rg_key_id p < 65536"
  shows "\<exists>k p1 p2 p3 p4. unat k = rg_key_id p \<and> k \<notin> fst ` set (procedures p) \<and> add_act_proc p type i n cb = Some (k, p1) \<and>
    find_act_proc p1 (ucast k) = Some (Some \<lparr>av_type = type, av_id = i\<lparr>ric_req_id := k\<rparr>, av_sm_cb = cb, av_e2_node = n\<rparr>, p2) \<and>
    rm_act_proc p2 (ucast k) = Some p3 \<and> find_act_proc p3 (ucast k) = Some (None, p4) \<and>
    act_proc_ok p4 \<and> procedures p4 = procedures p \<and> rg_key_id p4 = rg_key_id p + 1"
proof -
  let ?k = "word_of_nat (rg_key_id p) :: 32 word" and ?v = "\<lparr>av_type = type, av_id = i, av_sm_cb = cb, av_e2_node = n\<rparr>"
  have u: "unat ?k = rg_key_id p" using assms(3) by (simp add: unat_of_nat)
  have new: "?k \<notin> fst ` set (procedures p)" using procs.unused_number[OF assms(1)] assms(3) by simp
  obtain p1 where p1: "add_act_proc p type i n cb = Some (?k, p1)" "act_proc_ok p1" "rg_key_id p1 = rg_key_id p + 1"
    "procedures p1 = procedures p @ [(?k, with_number ?k ?v)]" using procs.adding_law[OF assms(1,3), of ?v] by auto
  have in1: "(?k, with_number ?k ?v) \<in> set (procedures p1)" using p1(4) by simp
  obtain p2 where p2: "find_act_proc p1 (ucast ?k) = Some (Some (with_number ?k ?v), p2)" "act_proc_ok p2" "rg_key_id p2 = rg_key_id p1"
    "procedures p2 = procedures p1" by (rule procs.look_entry[OF p1(2) _ in1]) (use p1(3) assms(3) in simp_all)
  have k: "?k \<in> fst ` set (procedures p2)" using p2(4) p1(4) by simp
  obtain p3 where p3: "rm_act_proc p2 (ucast ?k) = Some p3" "act_proc_ok p3" "rg_key_id p3 = rg_key_id p2"
    "procedures p3 = filter (\<lambda>e. fst e \<noteq> ?k) (procedures p2)" using procs.deleting_law[OF p2(2) _ k] p2(3) p1(3) assms(3) by auto
  have "\<forall>e \<in> set (procedures p). fst e \<noteq> ?k" using new by (metis imageI)
  then have e: "procedures p3 = procedures p" using p3(4) p2(4) p1(4) by simp
  have "map_of (procedures p3) ?k = None" using new e by (simp add: map_of_eq_None_iff)
  moreover have "0 < ?k" using assms(2) u by (simp add: word_less_nat_alt)
  ultimately obtain p4 where p4: "find_act_proc p3 (ucast ?k) = Some (None, p4)" "act_proc_ok p4" "rg_key_id p4 = rg_key_id p3"
    "procedures p4 = procedures p3" using procs.looking_law[OF p3(2), of ?k] p3(3) p2(3) p1(3) assms(3) u by auto
  have w: "with_number ?k ?v = \<lparr>av_type = type, av_id = i\<lparr>ric_req_id := ?k\<rparr>, av_sm_cb = cb, av_e2_node = n\<rparr>" by (simp add: with_number_def)
  show ?thesis using u new p1(1,3) p2(1,3) p3(1,3) p4 e unfolding w by auto
qed

lemma act_proc_numbers_witness:
  "\<exists>k p1 p2 p3 p4. unat k = 1 \<and> add_act_proc init_act_proc RIC_SUBSCRIPTION_PROCEDURE_ACTIVE \<lparr>ric_req_id = 0, ric_inst_id = 0, ran_func_id = 2\<rparr> (ex_gnb 1) 7 = Some (k, p1) \<and>
    find_act_proc p1 (ucast k) = Some (Some \<lparr>av_type = RIC_SUBSCRIPTION_PROCEDURE_ACTIVE, av_id = \<lparr>ric_req_id = k, ric_inst_id = 0, ran_func_id = 2\<rparr>, av_sm_cb = 7,
      av_e2_node = ex_gnb 1\<rparr>, p2) \<and> rm_act_proc p2 (ucast k) = Some p3 \<and> find_act_proc p3 (ucast k) = Some (None, p4)"
proof -
  have p: "act_proc_ok init_act_proc" "rg_key_id init_act_proc = 1" by (simp_all add: act_proc_ok_def init_act_proc_def reg_init_spec)
  have q: "0 < rg_key_id init_act_proc" "rg_key_id init_act_proc < 65536" using p(2) by simp_all
  show ?thesis using act_proc_numbers[OF p(1) q, of RIC_SUBSCRIPTION_PROCEDURE_ACTIVE "\<lparr>ric_req_id = 0, ric_inst_id = 0, ran_func_id = 2\<rparr>" "ex_gnb 1" 7]
    unfolding p(2) by auto
qed

end
