(* ===== verification/Xapp.thy ===== *)
theory Xapp
  imports Act_Proc Agent Iapp
begin

text \<open>
  The xApp: src/xApp/e42_xapp.c, src/xApp/msg_handler_xapp.c, src/xApp/msg_generator_xapp.c,
  src/xApp/pending_event_xapp.c, src/xApp/sync_ui.c, src/xApp/msg_dispatcher_xapp.c, src/xApp/asio_xapp.c and
  src/xApp/plugin_ric.c as far as the xApp uses them, and the interface of src/xApp/e42_xapp_api.c.

  The state is the structure \<open>e42_xapp_t\<close>: the polled descriptors, the plug-ins, the registered nodes, the identifier,
  the flags that the caller waits for, the active procedures, the pending events and the queue of the dispatcher.  What is
  sent is recorded un-encoded, and so are the rows for the database and the calls of the callbacks.

  Two threads and the dispatcher run on this state.  The functions that a caller uses block: each is the part up to the wait
  and the part after it.  The order of their steps and those of the event loop is that of \<open>xapp_step\<close>.
\<close>

section \<open>Pending events\<close>

record pending_event_xapp =
  px_ev :: pending_event
  px_id :: ric_gen_id
  px_wait_ms :: int

definition eq_pending_event_xapp :: "pending_event_xapp \<Rightarrow> pending_event_xapp \<Rightarrow> bool" where
  "eq_pending_event_xapp m0 m1 \<longleftrightarrow> (if px_ev m0 \<noteq> px_ev m1 then False else if \<not> eq_ric_gen_id (px_id m0) (px_id m1) then False else True)"

text \<open>The comparison of the table reads the first field, the kind of the event.\<close>
definition cmp_pending_event_xapp :: "pending_event_xapp \<Rightarrow> pending_event_xapp \<Rightarrow> int" where
  "cmp_pending_event_xapp m0 m1 = cmp_pending_event (px_ev m0) (px_ev m1)"

type_synonym pending_events_xapp = "(int, pending_event_xapp) bi_map"

definition init_pending_events_xapp :: "addr \<Rightarrow> addr \<Rightarrow> pending_events_xapp option" where
  "init_pending_events_xapp a1 a2 = bi_map_init a1 a2 4 16 cmp_fd (\<lambda>a b. Some (cmp_pending_event_xapp a b)) True True"

definition free_fd_xapp :: "int option \<times> pending_event_xapp option \<Rightarrow> unit option" where
  "free_fd_xapp kv = do { fd \<leftarrow> fst kv; v \<leftarrow> snd kv; c_assert (fd > 0) }"

definition free_pending_ev_xapp :: "pending_event_xapp option \<times> int option \<Rightarrow> unit option" where
  "free_pending_ev_xapp kv = do { ev \<leftarrow> fst kv; v \<leftarrow> snd kv; b \<leftarrow> valid_pending_event (px_ev ev); c_assert b }"

definition free_pending_events_xapp :: "pending_events_xapp \<Rightarrow> unit option" where
  "free_pending_events_xapp p = do {
     (ls, rs, m) \<leftarrow> bi_map_free p;
     us \<leftarrow> cp_loop free_fd_xapp ls;
     us \<leftarrow> cp_loop free_pending_ev_xapp rs;
     Some ()
   }"

definition add_pending_event_ds :: "addr \<Rightarrow> addr \<Rightarrow> pending_events_xapp \<Rightarrow> int \<Rightarrow> pending_event_xapp \<Rightarrow> pending_events_xapp option" where
  "add_pending_event_ds a1 a2 p fd ev = do {
     c_assert (fd > 0);
     bi_map_insert a1 a2 p fd 4 ev 16
   }"

definition find_pending_event_fd :: "pending_events_xapp \<Rightarrow> int \<Rightarrow> bool option" where
  "find_pending_event_fd p fd = do {
     c_assert (fd > 0);
     it \<leftarrow> find_all_rb_tree (left_tree p) fd (\<lambda>a b. Some (a = b));
     Some (it \<noteq> assoc_rb_tree_end (left_tree p))
   }"

definition rm_pending_event_ev :: "pending_events_xapp \<Rightarrow> pending_event_xapp \<Rightarrow> (int \<times> pending_events_xapp) option" where
  "rm_pending_event_ev p ev = do {
     sz \<leftarrow> bi_map_size p;
     (fd, freed, p) \<leftarrow> bi_map_extract_right p ev 16;
     sz' \<leftarrow> bi_map_size p;
     c_assert (sz = sz' + 1);
     c_assert (fd > 0);
     Some (fd, p)
   }"

definition rm_pending_event_fd :: "pending_events_xapp \<Rightarrow> int \<Rightarrow> pending_events_xapp option" where
  "rm_pending_event_fd p fd = do {
     c_assert (fd > 0);
     (ev, freed, p) \<leftarrow> bi_map_extract_left p fd 4;
     Some p
   }"

section \<open>State\<close>

record sync_ui =
  flag_sync :: bool
  msg_ack :: bool

record e42_xapp =
  xa_ep_fd :: int
  xa_io :: "int set"
  xa_plugin_ag :: "(uint16, sm_agent) assoc_rb_tree"
  xa_plugin_ric :: "(uint16, sm_ric) assoc_rb_tree"
  xa_e2_nodes :: reg_e2_nodes
  xa_id :: uint16
  xa_sync :: sync_ui
  xa_act_proc :: act_proc
  xa_pending :: pending_events_xapp
  xa_disp :: "(sm_ag_if_rd_ind \<times> sm_cb) list"
  xa_connected :: bool
  xa_stop_token :: bool
  xa_sent :: "e2ap_msg list"
  xa_db :: "(global_e2_node_id \<times> sm_ag_if_rd_ind) list"
  xa_called :: "(sm_cb \<times> sm_ag_if_rd_ind) list"

section \<open>Input and output\<close>

definition add_fd_asio_xapp :: "int set \<Rightarrow> int \<Rightarrow> int set option" where
  "add_fd_asio_xapp fds fd = do {
     c_assert (fd > 0);
     c_assert (fd \<notin> fds);
     Some (insert fd fds)
   }"

definition create_timer_ms_asio_xapp :: "int set \<Rightarrow> int \<Rightarrow> int \<Rightarrow> int \<Rightarrow> int set option" where
  "create_timer_ms_asio_xapp fds tfd initial_ms interval_ms = do {
     c_assert (initial_ms > 0);
     c_assert (interval_ms > 0);
     c_assert (tfd \<noteq> - 1);
     add_fd_asio_xapp fds tfd
   }"

definition rm_fd_asio_xapp :: "int set \<Rightarrow> int \<Rightarrow> int set option" where
  "rm_fd_asio_xapp fds fd = do {
     c_assert (fd \<in> fds);
     Some (fds - {fd})
   }"

definition e2ap_send_bytes_xapp :: "e42_xapp \<Rightarrow> e2ap_msg \<Rightarrow> e42_xapp" where
  "e2ap_send_bytes_xapp x m = x\<lparr>xa_sent := xa_sent x @ [m]\<rparr>"

definition consume_fd_xapp :: "int \<Rightarrow> unit option" where
  "consume_fd_xapp fd = c_assert (fd > 0)"

definition sm_plugin_ric_xapp :: "e42_xapp \<Rightarrow> uint16 \<Rightarrow> sm_ric option" where
  "sm_plugin_ric_xapp x key = do {
     c_assert (0 < key);
     it \<leftarrow> find_all_rb_tree (xa_plugin_ric x) key (\<lambda>a b. Some (eq_ran_func_id a b));
     c_assert (it \<noteq> assoc_rb_tree_end (xa_plugin_ric x));
     v \<leftarrow> assoc_rb_tree_value (xa_plugin_ric x) it;
     sm \<leftarrow> v;
     c_assert (sm_ran_func_id sm = key);
     Some sm
   }"

section \<open>The caller and the event loop\<close>

definition init_sync_ui :: sync_ui where
  "init_sync_ui = \<lparr>flag_sync = False, msg_ack = False\<rparr>"

text \<open>Up to the wait: both flags are cleared.\<close>
definition cond_wait_sync_ui_enter :: "sync_ui \<Rightarrow> sync_ui" where
  "cond_wait_sync_ui_enter s = s\<lparr>flag_sync := False, msg_ack := False\<rparr>"

text \<open>After the wait: \<open>timeout\<close> says that the time is over without a signal.\<close>
definition cond_wait_sync_ui_leave :: "sync_ui \<Rightarrow> bool \<Rightarrow> unit option" where
  "cond_wait_sync_ui_leave s timeout = do {
     c_assert (\<not> timeout);
     c_assert (msg_ack s)
   }"

definition signal_sync_ui :: "sync_ui \<Rightarrow> sync_ui" where
  "signal_sync_ui s = s\<lparr>flag_sync := True, msg_ack := True\<rparr>"

section \<open>The dispatcher\<close>

definition send_msg_dispatcher :: "e42_xapp \<Rightarrow> sm_ag_if_rd_ind \<Rightarrow> sm_cb \<Rightarrow> e42_xapp" where
  "send_msg_dispatcher x rd cb = x\<lparr>xa_disp := xa_disp x @ [(rd, cb)]\<rparr>"

definition size_msg_dispatcher :: "e42_xapp \<Rightarrow> nat" where
  "size_msg_dispatcher x = length (xa_disp x)"

text \<open>One turn of the worker on a queue with an element; a null callback is a call of address zero.\<close>
definition worker_thread :: "e42_xapp \<Rightarrow> e42_xapp option" where
  "worker_thread x = (case xa_disp x of [] \<Rightarrow> Some x
     | (rd, cb) # q \<Rightarrow> do {
         c_assert (cb \<noteq> 0);
         Some (x\<lparr>xa_disp := q, xa_called := xa_called x @ [(cb, rd)]\<rparr>)
       })"

section \<open>Messages that the xApp generates\<close>

text \<open>The command is not the null pointer.\<close>
definition generate_subscription_request_xapp :: "ric_gen_id \<Rightarrow> sm_ric \<Rightarrow> byte_array \<Rightarrow> ric_subscription_request option" where
  "generate_subscription_request_xapp i sm cmd = do {
     (et, ad) \<leftarrow> on_subscription sm cmd;
     c_assert ((case ad of None \<Rightarrow> 0 | Some d \<Rightarrow> length d) < 2048);
     Some \<lparr>sr_ric_id = i, sr_event_trigger = et,
       sr_action = [\<lparr>act_id = 0, act_type = RIC_ACT_REPORT, act_definition = ad, subseq_action = None\<rparr>]\<rparr>
   }"

definition generate_e42_setup_request :: "e42_xapp \<Rightarrow> e42_setup_request option" where
  "generate_e42_setup_request x = do {
     let len_rf = assoc_rb_tree_size (xa_plugin_ag x);
     c_assert (len_rf > 0);
     c_assert (len_rf = assoc_rb_tree_size (xa_plugin_ric x));
     it \<leftarrow> assoc_rb_tree_front (xa_plugin_ag x);
     rfs \<leftarrow> gen_rf_loop (xa_plugin_ag x) it len_rf;
     Some \<lparr>e42_ran_func_item = rfs\<rparr>
   }"

definition generate_ric_control_request :: "ric_gen_id \<Rightarrow> sm_ric \<Rightarrow> sm_ctrl_cmd \<Rightarrow> ric_control_request option" where
  "generate_ric_control_request i sm ctrl = do {
     (hdr, msg) \<leftarrow> on_control_req sm ctrl;
     c_assert (length hdr < 2049);
     c_assert (length msg < 2049);
     Some \<lparr>cr_ric_id = i, cr_call_process_id = None, cr_hdr = hdr, cr_msg = msg, cr_ack_req = Some RIC_CONTROL_REQUEST_ACK\<rparr>
   }"

section \<open>Handlers of what is sent\<close>

definition add_pending_event_xapp :: "(nat \<Rightarrow> addr) \<Rightarrow> int \<Rightarrow> e42_xapp \<Rightarrow> pending_event_xapp \<Rightarrow> e42_xapp option" where
  "add_pending_event_xapp mal tfd x ev = do {
     c_assert (px_wait_ms ev > 0);
     fds \<leftarrow> create_timer_ms_asio_xapp (xa_io x) tfd (px_wait_ms ev) (px_wait_ms ev);
     p \<leftarrow> add_pending_event_ds (mal 0) (mal 1) (xa_pending x) tfd ev;
     Some (x\<lparr>xa_io := fds, xa_pending := p\<rparr>)
   }"

definition rm_pending_event_xapp :: "e42_xapp \<Rightarrow> pending_event_xapp \<Rightarrow> e42_xapp option" where
  "rm_pending_event_xapp x ev = do {
     (fd, p) \<leftarrow> rm_pending_event_ev (xa_pending x) ev;
     fds \<leftarrow> rm_fd_asio_xapp (xa_io x) fd;
     Some (x\<lparr>xa_pending := p, xa_io := fds\<rparr>)
   }"

definition e2ap_handle_e42_setup_request_xapp :: "(nat \<Rightarrow> addr) \<Rightarrow> int \<Rightarrow> e42_xapp \<Rightarrow> e42_xapp option" where
  "e2ap_handle_e42_setup_request_xapp mal tfd x = do {
     sr \<leftarrow> generate_e42_setup_request x;
     c_assert (length (e42_ran_func_item sr) > 0);
     let x = e2ap_send_bytes_xapp x (e42_stp_req sr);
     add_pending_event_xapp mal tfd x \<lparr>px_ev = E42_SETUP_REQUEST_PENDING_EVENT,
       px_id = \<lparr>ric_req_id = 0, ric_inst_id = 0, ran_func_id = 0\<rparr>, px_wait_ms = 1000\<rparr>
   }"

text \<open>The event is registered before the message is sent.\<close>
definition e2ap_handle_e42_ric_subscription_request_xapp ::
  "(nat \<Rightarrow> addr) \<Rightarrow> int \<Rightarrow> e42_xapp \<Rightarrow> e42_ric_subscription_request \<Rightarrow> e42_xapp option"
where
  "e2ap_handle_e42_ric_subscription_request_xapp mal tfd x sr = do {
     x \<leftarrow> add_pending_event_xapp mal tfd x \<lparr>px_ev = E42_RIC_SUBSCRIPTION_REQUEST_PENDING_EVENT, px_id = sr_ric_id (e42_sr sr), px_wait_ms = 5000\<rparr>;
     Some (e2ap_send_bytes_xapp x (e42_ric_sub_req sr))
   }"

text \<open>The message is sent before the event is registered: the two parts are separate steps of the caller.\<close>
definition sub_del_event :: "e42_ric_subscription_delete_request \<Rightarrow> pending_event_xapp" where
  "sub_del_event sdr = \<lparr>px_ev = E42_RIC_SUBSCRIPTION_DELETE_REQUEST_PENDING_EVENT, px_id = sdr_ric_id (e42_sdr sdr), px_wait_ms = 10000\<rparr>"

definition e2ap_handle_e42_subscription_delete_request_xapp ::
  "(nat \<Rightarrow> addr) \<Rightarrow> int \<Rightarrow> e42_xapp \<Rightarrow> e42_ric_subscription_delete_request \<Rightarrow> e42_xapp option"
where
  "e2ap_handle_e42_subscription_delete_request_xapp mal tfd x sdr = do {
     let x = e2ap_send_bytes_xapp x (e42_ric_sub_del_req sdr);
     add_pending_event_xapp mal tfd x (sub_del_event sdr)
   }"

definition ctrl_event :: "e42_ric_control_request \<Rightarrow> pending_event_xapp" where
  "ctrl_event cr = \<lparr>px_ev = E42_RIC_CONTROL_REQUEST_PENDING_EVENT, px_id = cr_ric_id (e42_ctrl_req cr), px_wait_ms = 10000\<rparr>"

definition e2ap_handle_e42_ric_control_request_xapp ::
  "(nat \<Rightarrow> addr) \<Rightarrow> int \<Rightarrow> e42_xapp \<Rightarrow> e42_ric_control_request \<Rightarrow> e42_xapp option"
where
  "e2ap_handle_e42_ric_control_request_xapp mal tfd x cr = do {
     let x = e2ap_send_bytes_xapp x (e42_ric_ctrl_req cr);
     add_pending_event_xapp mal tfd x (ctrl_event cr)
   }"


section \<open>Handlers of what is received\<close>

definition check_valid_msg_type_xapp :: "e2ap_msg \<Rightarrow> bool" where
  "check_valid_msg_type_xapp m = (case m of ric_sub_resp _ \<Rightarrow> True | ric_sub_fail \<Rightarrow> True | ric_sub_del_resp _ \<Rightarrow> True
     | ric_sub_del_fail \<Rightarrow> True | ric_ind _ \<Rightarrow> True | ric_ctrl_ack _ \<Rightarrow> True | ric_ctrl_fail \<Rightarrow> True | err_ind \<Rightarrow> True
     | e42_stp_resp _ \<Rightarrow> True | e2_stp_fail \<Rightarrow> True | e42_ric_ctrl_req _ \<Rightarrow> True | e42_stp_req _ \<Rightarrow> True | rst_req \<Rightarrow> True
     | rst_resp \<Rightarrow> True | ric_serv_updt \<Rightarrow> True | e2_node_conf_updt \<Rightarrow> True | e2_conn_updt_ack \<Rightarrow> True | e2_conn_updt_fail \<Rightarrow> True
     | _ \<Rightarrow> False)"

text \<open>The three answers: the procedure is looked up, its timer is stopped and the caller is woken up.  The events that
  only serve to find the registered one have no waiting time.\<close>
definition find_proc_xapp :: "e42_xapp \<Rightarrow> uint32 \<Rightarrow> (act_proc_val option \<times> e42_xapp) option" where
  "find_proc_xapp x req_id = do {
     (rv, p) \<leftarrow> find_act_proc (xa_act_proc x) (ucast req_id);
     Some (rv, x\<lparr>xa_act_proc := p\<rparr>)
   }"

definition e2ap_handle_subscription_response_xapp :: "e42_xapp \<Rightarrow> ric_subscription_response \<Rightarrow> (e2ap_msg \<times> e42_xapp) option" where
  "e2ap_handle_subscription_response_xapp x resp = do {
     (rv, x) \<leftarrow> find_proc_xapp x (ric_req_id (rs_ric_id resp));
     val \<leftarrow> rv;
     x \<leftarrow> rm_pending_event_xapp x \<lparr>px_ev = E42_RIC_SUBSCRIPTION_REQUEST_PENDING_EVENT, px_id = av_id val, px_wait_ms = 0\<rparr>;
     Some (no_msg, x\<lparr>xa_sync := signal_sync_ui (xa_sync x)\<rparr>)
   }"

definition e2ap_handle_subscription_delete_response_xapp ::
  "e42_xapp \<Rightarrow> ric_subscription_delete_response \<Rightarrow> (e2ap_msg \<times> e42_xapp) option"
where
  "e2ap_handle_subscription_delete_response_xapp x resp = do {
     (rv, x) \<leftarrow> find_proc_xapp x (ric_req_id (sdp_ric_id resp));
     val \<leftarrow> rv;
     x \<leftarrow> rm_pending_event_xapp x \<lparr>px_ev = E42_RIC_SUBSCRIPTION_DELETE_REQUEST_PENDING_EVENT, px_id = av_id val, px_wait_ms = 0\<rparr>;
     Some (no_msg, x\<lparr>xa_sync := signal_sync_ui (xa_sync x)\<rparr>)
   }"

definition e2ap_handle_control_ack_xapp :: "e42_xapp \<Rightarrow> ric_control_acknowledge \<Rightarrow> (e2ap_msg \<times> e42_xapp) option" where
  "e2ap_handle_control_ack_xapp x ack = do {
     (rv, x) \<leftarrow> find_proc_xapp x (ric_req_id (ca_ric_id ack));
     val \<leftarrow> rv;
     x \<leftarrow> rm_pending_event_xapp x \<lparr>px_ev = E42_RIC_CONTROL_REQUEST_PENDING_EVENT, px_id = av_id val, px_wait_ms = 0\<rparr>;
     Some (no_msg, x\<lparr>xa_sync := signal_sync_ui (xa_sync x)\<rparr>)
   }"

definition ind_sm_payload :: "ric_indication \<Rightarrow> (byte_array \<times> byte_array \<times> byte_array option) option" where
  "ind_sm_payload src = do {
     c_assert (case ind_call_process_id src of None \<Rightarrow> True | Some i \<Rightarrow> length i > 0);
     Some (ind_hdr src, ind_msg src, ind_call_process_id src)
   }"

text \<open>The types of indications that the xApp accepts.\<close>
definition ind_type_xapp :: "sm_ag_if_rd_ind_e \<Rightarrow> bool" where
  "ind_type_xapp t \<longleftrightarrow> t = MAC_STATS_V0 \<or> t = RLC_STATS_V0 \<or> t = PDCP_STATS_V0 \<or> t = SLICE_STATS_V0
     \<or> t = KPM_STATS_V3_0 \<or> t = GTP_STATS_V0 \<or> t = RAN_CTRL_STATS_V1_03"

text \<open>An indication of a procedure that is not registered is dropped.\<close>
definition e2ap_handle_indication_xapp :: "e42_xapp \<Rightarrow> ric_indication \<Rightarrow> (e2ap_msg \<times> e42_xapp) option" where
  "e2ap_handle_indication_xapp x src = do {
     sm \<leftarrow> sm_plugin_ric_xapp x (ran_func_id (ind_ric_id src));
     (hdr, msg, cpid) \<leftarrow> ind_sm_payload src;
     rd \<leftarrow> on_indication sm hdr msg cpid;
     c_assert (ind_type_xapp (rd_type rd));
     (ans, x) \<leftarrow> find_proc_xapp x (ric_req_id (ind_ric_id src));
     (case ans of
         None \<Rightarrow> Some (no_msg, x)
       | Some val \<Rightarrow> do {
           let x = x\<lparr>xa_db := xa_db x @ [(av_e2_node val, rd)]\<rparr>;
           Some (no_msg, send_msg_dispatcher x rd (av_sm_cb val))
         })
   }"

text \<open>The nodes of the answer; the components are an array with its length.\<close>
fun add_nodes_xapp :: "(nat \<Rightarrow> addr) \<Rightarrow> nat \<Rightarrow> reg_e2_nodes \<Rightarrow> e2_node_connected list \<Rightarrow> reg_e2_nodes option" where
  "add_nodes_xapp mal i n [] = Some n"
| "add_nodes_xapp mal i n (c # cs) = do {
     c_assert (unat (nc_len_cca c) \<le> length (nc_cca c));
     n \<leftarrow> add_reg_e2_node (mal i) n (nc_id c) (nc_ack_rf c) (take (unat (nc_len_cca c)) (nc_cca c));
     add_nodes_xapp mal (Suc i) n cs
   }"

definition e2ap_handle_e42_setup_response_xapp :: "(nat \<Rightarrow> addr) \<Rightarrow> e42_xapp \<Rightarrow> e42_setup_response \<Rightarrow> (e2ap_msg \<times> e42_xapp) option" where
  "e2ap_handle_e42_setup_response_xapp mal x sr =
     (if xa_connected x then Some (no_msg, x)
      else do {
        let x = x\<lparr>xa_id := stx_xapp_id sr\<rparr>;
        c_assert (unat (stx_len_e2_nodes_conn sr) \<le> length (stx_nodes sr));
        n \<leftarrow> add_nodes_xapp mal 0 (xa_e2_nodes x) (take (unat (stx_len_e2_nodes_conn sr)) (stx_nodes sr));
        let x = x\<lparr>xa_e2_nodes := n\<rparr>;
        x \<leftarrow> rm_pending_event_xapp x \<lparr>px_ev = E42_SETUP_REQUEST_PENDING_EVENT,
          px_id = \<lparr>ric_req_id = 0, ric_inst_id = 0, ran_func_id = 0\<rparr>, px_wait_ms = 0\<rparr>;
        Some (no_msg, x\<lparr>xa_connected := True\<rparr>)
      })"

text \<open>A setup request asserts that it comes without a message; the types that are left out assert that they are not
  implemented or have no handler.\<close>
definition e2ap_msg_handle_xapp :: "(nat \<Rightarrow> addr) \<Rightarrow> int \<Rightarrow> e42_xapp \<Rightarrow> e2ap_msg \<Rightarrow> (e2ap_msg \<times> e42_xapp) option" where
  "e2ap_msg_handle_xapp mal tfd x msg = do {
     c_assert (check_valid_msg_type_xapp msg);
     (case msg of
         ric_sub_resp m \<Rightarrow> e2ap_handle_subscription_response_xapp x m
       | ric_sub_del_resp m \<Rightarrow> e2ap_handle_subscription_delete_response_xapp x m
       | ric_ind m \<Rightarrow> e2ap_handle_indication_xapp x m
       | ric_ctrl_ack m \<Rightarrow> e2ap_handle_control_ack_xapp x m
       | e42_stp_resp m \<Rightarrow> e2ap_handle_e42_setup_response_xapp mal x m
       | e42_ric_ctrl_req m \<Rightarrow> do { x \<leftarrow> e2ap_handle_e42_ric_control_request_xapp mal tfd x m; Some (no_msg, x) }
       | _ \<Rightarrow> None)
   }"

section \<open>The event loop\<close>

datatype async_event_xapp = NETWORK_EVENT | PENDING_EVENT_XAPP pending_event

definition net_pkt_xapp :: "e42_xapp \<Rightarrow> int \<Rightarrow> bool option" where
  "net_pkt_xapp x fd = do { c_assert (fd > 0); Some (fd = xa_ep_fd x) }"

definition pend_event_xapp :: "e42_xapp \<Rightarrow> int \<Rightarrow> pending_event option" where
  "pend_event_xapp x fd = do {
     c_assert (fd > 0);
     let l = left_tree (xa_pending x);
     it \<leftarrow> find_all_rb_tree l fd eq_fd;
     c_assert (it \<noteq> assoc_rb_tree_end l);
     v \<leftarrow> assoc_rb_tree_value l it;
     ev \<leftarrow> v;
     Some (px_ev ev)
   }"

definition find_event_type :: "e42_xapp \<Rightarrow> int \<Rightarrow> async_event_xapp option" where
  "find_event_type x fd = do {
     net \<leftarrow> net_pkt_xapp x fd;
     if net then Some NETWORK_EVENT
     else do { e \<leftarrow> pend_event_xapp x fd; Some (PENDING_EVENT_XAPP e) }
   }"

text \<open>One turn of the loop: the descriptor that is ready, or \<open>-1\<close>, and the message that the socket holds.\<close>
definition e2_event_loop_xapp :: "(nat \<Rightarrow> addr) \<Rightarrow> int \<Rightarrow> e42_xapp \<Rightarrow> int \<Rightarrow> e2ap_msg \<Rightarrow> e42_xapp option" where
  "e2_event_loop_xapp mal tfd x fd rcv =
     (if fd = - 1 then Some x
      else do {
        e \<leftarrow> find_event_type x fd;
        (case e of
            NETWORK_EVENT \<Rightarrow> do {
              (ans, x) \<leftarrow> e2ap_msg_handle_xapp mal tfd x rcv;
              if ans \<noteq> no_msg then Some (e2ap_send_bytes_xapp x ans) else Some x
            }
          | PENDING_EVENT_XAPP ev \<Rightarrow> do {
              c_assert (ev = E42_SETUP_REQUEST_PENDING_EVENT \<or> ev = E42_RIC_SUBSCRIPTION_REQUEST_PENDING_EVENT
                \<or> ev = E42_RIC_SUBSCRIPTION_DELETE_REQUEST_PENDING_EVENT \<or> ev = E42_RIC_CONTROL_REQUEST_PENDING_EVENT);
              c_assert (ev \<noteq> E42_RIC_SUBSCRIPTION_REQUEST_PENDING_EVENT);
              c_assert (ev \<noteq> E42_RIC_SUBSCRIPTION_DELETE_REQUEST_PENDING_EVENT);
              c_assert (ev \<noteq> E42_RIC_CONTROL_REQUEST_PENDING_EVENT);
              sr \<leftarrow> generate_e42_setup_request x;
              let x = e2ap_send_bytes_xapp x (e42_stp_req sr);
              u \<leftarrow> consume_fd_xapp fd;
              Some x
            })
      })"

section \<open>Start and end\<close>

text \<open>The plug-ins are loaded from a directory; the descriptor comes from the kernel.\<close>
definition init_e42_xapp ::
  "(nat \<Rightarrow> addr) \<Rightarrow> int \<Rightarrow> (uint16, sm_agent) assoc_rb_tree \<Rightarrow> (uint16, sm_ric) assoc_rb_tree \<Rightarrow> e42_xapp option"
where
  "init_e42_xapp mal ep_fd ags rics = do {
     fds \<leftarrow> add_fd_asio_xapp {} ep_fd;
     n \<leftarrow> init_reg_e2_node (mal 0);
     p \<leftarrow> init_pending_events_xapp (mal 1) (mal 2);
     Some \<lparr>xa_ep_fd = ep_fd, xa_io = fds, xa_plugin_ag = ags, xa_plugin_ric = rics, xa_e2_nodes = n, xa_id = 0,
       xa_sync = init_sync_ui, xa_act_proc = init_act_proc, xa_pending = p, xa_disp = [], xa_connected = False,
       xa_stop_token = False, xa_sent = [], xa_db = [], xa_called = []\<rparr>
   }"

text \<open>The part before the loop.\<close>
definition start_e42_xapp :: "(nat \<Rightarrow> addr) \<Rightarrow> int \<Rightarrow> e42_xapp \<Rightarrow> e42_xapp option" where
  "start_e42_xapp mal tfd x = e2ap_handle_e42_setup_request_xapp mal tfd x"

text \<open>After the loop has stopped: the tables are released.  What is released of the nodes and the plug-ins is only memory.\<close>
definition free_e42_xapp :: "e42_xapp \<Rightarrow> e42_xapp option" where
  "free_e42_xapp x = do {
     let x = x\<lparr>xa_stop_token := True\<rparr>;
     (rel, n) \<leftarrow> free_reg_e2_node (xa_e2_nodes x);
     (ags, t) \<leftarrow> assoc_rb_tree_free (xa_plugin_ag x);
     (rics, r) \<leftarrow> assoc_rb_tree_free (xa_plugin_ric x);
     u \<leftarrow> free_pending_events_xapp (xa_pending x);
     let s = (xa_sync x)\<lparr>flag_sync := True\<rparr>;
     Some (x\<lparr>xa_e2_nodes := n, xa_sync := s, xa_act_proc := free_act_proc (xa_act_proc x)\<rparr>)
   }"

definition connected_e42_xapp :: "e42_xapp \<Rightarrow> bool" where
  "connected_e42_xapp x = xa_connected x"

definition not_dispatch_msg :: "e42_xapp \<Rightarrow> nat" where
  "not_dispatch_msg x = size_msg_dispatcher x"

section \<open>Calls\<close>

definition valid_ran_func_id :: "uint16 \<Rightarrow> bool" where
  "valid_ran_func_id f \<longleftrightarrow> f = 145 \<or> f = 142 \<or> f = 143 \<or> f = 144 \<or> f = 146 \<or> f = 148 \<or> f = 2 \<or> f = 3"

definition generate_ric_gen_id ::
  "e42_xapp \<Rightarrow> act_proc_val_e \<Rightarrow> uint16 \<Rightarrow> global_e2_node_id \<Rightarrow> sm_cb \<Rightarrow> (ric_gen_id \<times> e42_xapp) option"
where
  "generate_ric_gen_id x type f nid cb = do {
     c_assert (valid_ran_func_id f);
     let ric_req = \<lparr>ric_req_id = 0, ric_inst_id = 0, ran_func_id = f\<rparr>;
     (req_id, p) \<leftarrow> add_act_proc (xa_act_proc x) type ric_req nid cb;
     c_assert (req_id < 2 ^ 16);
     Some (ric_req\<lparr>ric_req_id := req_id\<rparr>, x\<lparr>xa_act_proc := p\<rparr>)
   }"

definition send_subscription_request ::
  "(nat \<Rightarrow> addr) \<Rightarrow> int \<Rightarrow> e42_xapp \<Rightarrow> global_e2_node_id \<Rightarrow> ric_gen_id \<Rightarrow> byte_array \<Rightarrow> e42_xapp option"
where
  "send_subscription_request mal tfd x nid i data = do {
     sm \<leftarrow> sm_plugin_ric_xapp x (ran_func_id i);
     sr \<leftarrow> generate_subscription_request_xapp i sm data;
     e2ap_handle_e42_ric_subscription_request_xapp mal tfd x \<lparr>e42_sr_xapp_id = xa_id x, e42_sr_id = cp_global_e2_node_id nid, e42_sr = sr\<rparr>
   }"

text \<open>What the caller does after the wait.\<close>
datatype ui_rest = RETURN_HANDLE uint32 | REMOVE_REPORT uint16 | REMOVE_CONTROL uint16

datatype ui_call = REPORT global_e2_node_id uint16 byte_array sm_cb | RM_REPORT int | CONTROL global_e2_node_id uint16 sm_ctrl_cmd

text \<open>Where the caller is: outside, between the message and the registration of its event, before the wait, in the wait.\<close>
datatype ui_pc = UI_IDLE | UI_PEND pending_event_xapp ui_rest | UI_ENTER ui_rest | UI_BLOCKED ui_rest

definition report_sm_sync_xapp ::
  "(nat \<Rightarrow> addr) \<Rightarrow> int \<Rightarrow> e42_xapp \<Rightarrow> global_e2_node_id \<Rightarrow> uint16 \<Rightarrow> byte_array \<Rightarrow> sm_cb \<Rightarrow> (ui_pc \<times> e42_xapp) option"
where
  "report_sm_sync_xapp mal tfd x nid f data cb = do {
     (i, x) \<leftarrow> generate_ric_gen_id x RIC_SUBSCRIPTION_PROCEDURE_ACTIVE f nid cb;
     x \<leftarrow> send_subscription_request mal tfd x nid i data;
     Some (UI_ENTER (RETURN_HANDLE (ric_req_id i)), x)
   }"

definition rm_report_sm_sync_xapp :: "e42_xapp \<Rightarrow> int \<Rightarrow> (ui_pc \<times> e42_xapp) option" where
  "rm_report_sm_sync_xapp x handle = do {
     c_assert (handle > - 1 \<and> handle < 2 ^ 16);
     (ans, x) \<leftarrow> find_proc_xapp x (word_of_int handle);
     val \<leftarrow> ans;
     let sdr = \<lparr>e42_sdr_xapp_id = xa_id x, e42_sdr = \<lparr>sdr_ric_id = av_id val\<rparr>\<rparr>;
     Some (UI_PEND (sub_del_event sdr) (REMOVE_REPORT (word_of_int handle)), e2ap_send_bytes_xapp x (e42_ric_sub_del_req sdr))
   }"

definition control_sm_sync_xapp :: "e42_xapp \<Rightarrow> global_e2_node_id \<Rightarrow> uint16 \<Rightarrow> sm_ctrl_cmd \<Rightarrow> (ui_pc \<times> e42_xapp) option" where
  "control_sm_sync_xapp x nid f ctrl = do {
     c_assert (valid_ran_func_id f);
     (i, x) \<leftarrow> generate_ric_gen_id x RIC_CONTROL_PROCEDURE_ACTIVE f nid 0;
     sm \<leftarrow> sm_plugin_ric_xapp x (ran_func_id i);
     req \<leftarrow> generate_ric_control_request i sm ctrl;
     let cr = \<lparr>e42_cr_xapp_id = xa_id x, e42_cr_id = cp_global_e2_node_id nid, e42_ctrl_req = req\<rparr>;
     Some (UI_PEND (ctrl_event cr) (REMOVE_CONTROL (ucast (ric_req_id i))), e2ap_send_bytes_xapp x (e42_ric_ctrl_req cr))
   }"

definition after_wait :: "e42_xapp \<Rightarrow> ui_rest \<Rightarrow> e42_xapp option" where
  "after_wait x rest = (case rest of
       RETURN_HANDLE h \<Rightarrow> Some x
     | REMOVE_REPORT h \<Rightarrow> do { p \<leftarrow> rm_act_proc (xa_act_proc x) h; Some (x\<lparr>xa_act_proc := p\<rparr>) }
     | REMOVE_CONTROL h \<Rightarrow> do { p \<leftarrow> rm_act_proc (xa_act_proc x) h; Some (x\<lparr>xa_act_proc := p\<rparr>) })"

definition wait_over :: "e42_xapp \<Rightarrow> ui_rest \<Rightarrow> bool \<Rightarrow> (ui_pc \<times> e42_xapp) option" where
  "wait_over x rest timeout = do {
     u \<leftarrow> cond_wait_sync_ui_leave (xa_sync x) timeout;
     x \<leftarrow> after_wait x rest;
     Some (UI_IDLE, x)
   }"

section \<open>Interleavings\<close>

text \<open>A step of the caller, of the event loop or of the dispatcher; the last two are a wait that is over since the flag is
  set, and one that is over since the time is, which can also be when the flag is set before the caller has the lock again.\<close>
datatype xapp_in = CALL ui_call | REGISTER | WAIT | LOOP int e2ap_msg | DISPATCH | WAKE_UP | TIME_OVER

text \<open>The steps that can be taken, with their outcome: \<open>None\<close> is an assertion that fails.\<close>
inductive xapp_step :: "(nat \<Rightarrow> addr) \<Rightarrow> int \<Rightarrow> ui_pc \<times> e42_xapp \<Rightarrow> xapp_in \<Rightarrow> (ui_pc \<times> e42_xapp) option \<Rightarrow> bool" for mal tfd where
  "xapp_step mal tfd (UI_IDLE, x) (CALL (REPORT nid f d cb)) (report_sm_sync_xapp mal tfd x nid f d cb)"
| "xapp_step mal tfd (UI_IDLE, x) (CALL (RM_REPORT h)) (rm_report_sm_sync_xapp x h)"
| "xapp_step mal tfd (UI_IDLE, x) (CALL (CONTROL nid f d)) (control_sm_sync_xapp x nid f d)"
| "xapp_step mal tfd (UI_PEND ev rest, x) REGISTER (map_option (Pair (UI_ENTER rest)) (add_pending_event_xapp mal tfd x ev))"
| "xapp_step mal tfd (UI_ENTER rest, x) WAIT (Some (UI_BLOCKED rest, x\<lparr>xa_sync := cond_wait_sync_ui_enter (xa_sync x)\<rparr>))"
| "xapp_step mal tfd (pc, x) (LOOP fd m) (map_option (Pair pc) (e2_event_loop_xapp mal tfd x fd m))"
| "xa_disp x \<noteq> [] \<Longrightarrow> xapp_step mal tfd (pc, x) DISPATCH (map_option (Pair pc) (worker_thread x))"
| "flag_sync (xa_sync x) \<Longrightarrow> xapp_step mal tfd (UI_BLOCKED rest, x) WAKE_UP (wait_over x rest False)"
| "xapp_step mal tfd (UI_BLOCKED rest, x) TIME_OVER (wait_over x rest True)"

inductive_simps xapp_step_simps [simp]:
  "xapp_step mal tfd (pc, x) (CALL (REPORT nid f d cb)) r" "xapp_step mal tfd (pc, x) (CALL (RM_REPORT h)) r"
  "xapp_step mal tfd (pc, x) (CALL (CONTROL nid f d)) r" "xapp_step mal tfd (pc, x) REGISTER r" "xapp_step mal tfd (pc, x) WAIT r"
  "xapp_step mal tfd (pc, x) (LOOP fd m) r" "xapp_step mal tfd (pc, x) DISPATCH r" "xapp_step mal tfd (pc, x) WAKE_UP r"
  "xapp_step mal tfd (pc, x) TIME_OVER r"

section \<open>The interface\<close>

definition valid_global_e2_node_xapp :: "(nat \<Rightarrow> addr) \<Rightarrow> global_e2_node_id \<Rightarrow> reg_e2_nodes \<Rightarrow> bool option" where
  "valid_global_e2_node_xapp mal nid n = do {
     t \<leftarrow> cp_reg_e2_node mal n;
     it \<leftarrow> find_all_rb_tree t nid eq_global_e2_node_id;
     Some (if it = assoc_rb_tree_end t then False else True)
   }"

definition valid_sm_id :: "uint32 \<Rightarrow> bool option" where
  "valid_sm_id sm_id = do {
     c_assert (sm_id = 2 \<or> sm_id = 3 \<or> sm_id = 142 \<or> sm_id = 143 \<or> sm_id = 144 \<or> sm_id = 145 \<or> sm_id = 146 \<or> sm_id = 147 \<or> sm_id = 148);
     Some True
   }"

definition report_sm_xapp_api ::
  "alloc \<Rightarrow> int \<Rightarrow> e42_xapp \<Rightarrow> global_e2_node_id \<Rightarrow> uint32 \<Rightarrow> byte_array \<Rightarrow> sm_cb \<Rightarrow> (ui_pc \<times> e42_xapp) option"
where
  "report_sm_xapp_api mal tfd x nid f data cb = do {
     b \<leftarrow> valid_global_e2_node_xapp (mal 0) nid (xa_e2_nodes x);
     c_assert b;
     b \<leftarrow> valid_sm_id f;
     c_assert b;
     report_sm_sync_xapp (mal 1) tfd x nid (ucast f) data cb
   }"

definition rm_report_sm_xapp_api :: "e42_xapp \<Rightarrow> int \<Rightarrow> (ui_pc \<times> e42_xapp) option" where
  "rm_report_sm_xapp_api x handle = do {
     c_assert (handle > - 1);
     rm_report_sm_sync_xapp x handle
   }"

definition control_sm_xapp_api :: "e42_xapp \<Rightarrow> global_e2_node_id \<Rightarrow> uint32 \<Rightarrow> sm_ctrl_cmd \<Rightarrow> (ui_pc \<times> e42_xapp) option" where
  "control_sm_xapp_api x nid f wr = do {
     c_assert (f = 142 \<or> f = 145 \<or> f = 146 \<or> f = 3);
     control_sm_sync_xapp x nid (ucast f) wr
   }"

definition try_stop_xapp_api :: "e42_xapp \<Rightarrow> (bool \<times> e42_xapp) option" where
  "try_stop_xapp_api x = do {
     let sz = not_dispatch_msg x;
     if sz > 0 then Some (False, x)
     else do { x \<leftarrow> free_e42_xapp x; Some (True, x) }
   }"

end
