(* ===== verification/Xapp_Facts.thy ===== *)
theory Xapp_Facts
  imports Xapp Agent_Facts
begin

text \<open>
  The parts of the xApp on their abstract contents: the pending events with their timers, the plug-ins,
  the procedures (locale \<open>growing_map\<close>) and the registered nodes.
\<close>

section \<open>Pending events\<close>

interpretation pend_xapp: comparator cmp_pending_event_xapp
  unfolding cmp_pending_event_xapp_def[abs_def] by (rule comparator_pull[OF pend.comparator_axioms])

interpretation pend_xapp_table: bi_comparators order_fd cmp_pending_event_xapp
  by (intro bi_comparators.intro fd.comparator_axioms pend_xapp.comparator_axioms)

definition px_rep :: "pending_events_xapp \<Rightarrow> (int \<times> pending_event_xapp) multiset \<Rightarrow> bool" where
  "px_rep m P \<longleftrightarrow> bm_rep valid_fd order_fd (\<lambda>_. True) cmp_pending_event_xapp m P \<and>
     key_sz (left_tree m) = 4 \<and> key_sz (right_tree m) = 16 \<and> has_free_func (left_tree m) \<and> has_free_func (right_tree m)"

lemma px_repD:
  assumes "px_rep m P"
  shows "bm_rep valid_fd order_fd (\<lambda>_. True) cmp_pending_event_xapp m P" "key_sz (left_tree m) = 4" "key_sz (right_tree m) = 16"
    "has_free_func (left_tree m)" "has_free_func (right_tree m)" "bi_map_size m = Some (size P)"
  using assms size_bm_rep by (auto simp: px_rep_def)

lemma cmp_pending_event_xapp_0: "cmp_pending_event_xapp a b = 0 \<longleftrightarrow> px_ev a = px_ev b"
  by (simp add: cmp_pending_event_xapp_def cmp_pending_event_0)

lemma px_init:
  assumes "a1 \<noteq> 0" "a2 \<noteq> 0" shows "\<exists>m. init_pending_events_xapp a1 a2 = Some m \<and> px_rep m {#}"
  by (rule init_bm_rep[where ?v1.0 = valid_fd and ?c1.0 = order_fd and ?v2.0 = "\<lambda>_. True" and ?c2.0 = cmp_pending_event_xapp and
        ?f1.0 = cmp_fd and ?f2.0 = "\<lambda>a b. Some (cmp_pending_event_xapp a b)" and ?s1.0 = 4 and ?s2.0 = 16 and ?ff1.0 = True and ?ff2.0 = True,
        OF _ _ assms cmp_fd_order]) (auto simp: px_rep_def init_pending_events_xapp_def)

lemma px_add:
  assumes "px_rep m P" "fresh_for m a1 a2" "0 < fd" "\<forall>(f, e) \<in># P. f \<noteq> fd \<and> px_ev e \<noteq> px_ev ev"
  shows "\<exists>m'. add_pending_event_ds a1 a2 m fd ev = Some m' \<and> px_rep m' (add_mset (fd, ev) P)"
proof -
  note d = px_repD[OF assms(1)]
  have "\<forall>(f, e) \<in># P. order_fd fd f \<noteq> 0 \<and> cmp_pending_event_xapp ev e \<noteq> 0"
    using assms(4) by (auto simp: order_fd_0 cmp_pending_event_xapp_0)
  from pend_xapp_table.insert_bm_rep[OF d(1) _ TrueI this d(2,3), of a1 a2] show ?thesis
    using assms(2,3) d by (auto simp: valid_fd_def fresh_for_def px_rep_def bm_same_def add_pending_event_ds_def)
qed

lemma px_extract:
  assumes "px_rep m P" "(fd, ev) \<in># P" "px_ev tmp = px_ev ev" "0 < fd"
  shows "\<exists>m'. rm_pending_event_ev m tmp = Some (fd, m') \<and> px_rep m' (P - {#(fd, ev)#})"
proof -
  note d = px_repD[OF assms(1)]
  have "cmp_pending_event_xapp tmp ev = 0" using assms(3) by (simp add: cmp_pending_event_xapp_0)
  from pend_xapp_table.extract_right_bm_rep[OF d(1) TrueI d(3) assms(2) this d(5)] obtain m' where
    m': "bi_map_extract_right m tmp 16 = Some (fd, ev, m')" "px_rep m' (P - {#(fd, ev)#})" using d by (auto simp: px_rep_def bm_same_def)
  have "size P = size (P - {#(fd, ev)#}) + 1" using assms(2) by (simp add: size_Suc_Diff1)
  then show ?thesis using m' d(6) px_repD(6)[OF m'(2)] assms(4) by (simp add: rm_pending_event_ev_def)
qed

text \<open>Nothing of the kind is pending: the removal stops the program.\<close>
lemma px_extract_absent:
  assumes "px_rep m P" "\<forall>(f, e) \<in># P. px_ev e \<noteq> px_ev tmp"
  shows "rm_pending_event_ev m tmp = None"
proof -
  note d = px_repD[OF assms(1)]
  obtain fs where r: "rb_rep (\<lambda>_. True) cmp_pending_event_xapp (right_tree m) fs" "mset (map (prod.swap \<circ> snd) fs) = P"
    using d(1) by (auto simp: bm_rep_def)
  have "\<forall>e \<in> set fs. cmp_pending_event_xapp tmp (entry_key e) \<noteq> 0"
  proof
    fix x assume "x \<in> set fs"
    then have "prod.swap (snd x) \<in># P" by (auto simp flip: r(2))
    then show "cmp_pending_event_xapp tmp (entry_key x) \<noteq> 0" using assms(2) by (auto simp: entry_key_def split_beta cmp_pending_event_xapp_0)
  qed
  from pend_xapp.extract_missing[OF r(1) TrueI this] show ?thesis using d(3,6)
    by (simp add: rm_pending_event_ev_def bi_map_extract_right_def)
qed

lemma px_event:
  assumes "px_rep (xa_pending x) P" "(fd, ev) \<in># P" "0 < fd"
  shows "pend_event_xapp x fd = Some (px_ev ev)"
  by (rule find_fd[OF px_repD(1)[OF assms(1)] assms(2)]) (use assms(3) in \<open>simp_all add: pend_event_xapp_def\<close>)

section \<open>The representation\<close>

text \<open>The procedures are kept below their limit, and the timers are polled and not the socket.\<close>
definition xa_inv :: "e42_xapp \<Rightarrow> (int \<times> pending_event_xapp) multiset \<Rightarrow> bool" where
  "xa_inv x P \<longleftrightarrow> 0 < xa_ep_fd x \<and> xa_ep_fd x \<in> xa_io x \<and> act_proc_ok (xa_act_proc x) \<and> 0 < rg_key_id (xa_act_proc x) \<and>
     rg_key_id (xa_act_proc x) \<le> 65536 \<and>
     (\<forall>(fd, ev) \<in># P. 0 < fd \<and> fd \<in> xa_io x \<and> fd \<noteq> xa_ep_fd x)"

definition xa_rep :: "e42_xapp \<Rightarrow> (int \<times> pending_event_xapp) multiset \<Rightarrow> (uint16 \<times> sm_agent) list \<Rightarrow> (uint16 \<times> sm_ric) list \<Rightarrow>
    (global_e2_node_id \<times> pair_rf_cca) multiset \<Rightarrow> bool" where
  "xa_rep x P ags rics N \<longleftrightarrow> px_rep (xa_pending x) P \<and> tree_rep (xa_plugin_ag x) ags \<and> tree_rep (xa_plugin_ric x) rics \<and>
     (\<exists>es. reg_rep (xa_e2_nodes x) es \<and> mset (map snd es) = N)"

definition xa_fresh :: "(nat \<Rightarrow> addr) \<Rightarrow> e42_xapp \<Rightarrow> bool" where
  "xa_fresh mal x \<longleftrightarrow> fresh_for (xa_pending x) (mal 0) (mal 1) \<and> ok_mal mal \<and> (\<forall>i. heap (node_to_rf (xa_e2_nodes x)) (mal i) = None)"

lemma xa_rep_cong:
  assumes "xa_pending x = xa_pending y" "xa_plugin_ag x = xa_plugin_ag y" "xa_plugin_ric x = xa_plugin_ric y" "xa_e2_nodes x = xa_e2_nodes y"
  shows "xa_rep x P ags rics N \<longleftrightarrow> xa_rep y P ags rics N"
  using assms by (simp add: xa_rep_def)

lemma xa_inv_cong:
  assumes "xa_ep_fd x = xa_ep_fd y" "xa_io x = xa_io y" "xa_act_proc x = xa_act_proc y"
  shows "xa_inv x P \<longleftrightarrow> xa_inv y P"
  using assms by (simp add: xa_inv_def)

lemma sm_plugin_ric_xapp_rep:
  assumes "tree_rep (xa_plugin_ric x) ps" "(k, sm) \<in> set ps" "0 < k" "sm_ran_func_id sm = k"
  shows "sm_plugin_ric_xapp x k = Some sm"
  by (rule tree_find[OF assms(1,2)]) (use assms(3,4) in \<open>simp add: sm_plugin_ric_xapp_def\<close>)

lemma generate_e42_setup_request_rep:
  assumes "tree_rep (xa_plugin_ag x) ps" "ps \<noteq> []" "\<forall>(k, sm) \<in> set ps. sma_id sm = k"
    and "tree_rep (xa_plugin_ric x) rs" "length rs = length ps"
  shows "generate_e42_setup_request x = Some \<lparr>e42_ran_func_item = map (\<lambda>(k, sm). offered sm) ps\<rparr>"
proof -
  obtain es where es: "rb_rep (\<lambda>_. True) cmp_ran_func_id (xa_plugin_ag x) es" "map snd es = ps" using assms(1) by (auto simp: tree_rep_def)
  obtain fs where fs: "rb_rep (\<lambda>_. True) cmp_ran_func_id (xa_plugin_ric x) fs" "map snd fs = rs" using assms(4) by (auto simp: tree_rep_def)
  have k: "\<forall>e \<in> set es. sma_id (snd (snd e)) = fst (snd e)" using assms(3) unfolding es(2)[symmetric] by (fastforce simp: split_beta)
  have sz: "assoc_rb_tree_size (xa_plugin_ag x) = length es" "assoc_rb_tree_size (xa_plugin_ric x) = length es"
    using es fs assms(5) by (auto simp: rb_rep_def assoc_rb_tree_size_def)
  have ne: "length es > 0" using assms(2) es(2) by auto
  have "gen_rf_loop (xa_plugin_ag x) ((map fst es @ [dummy (xa_plugin_ag x)]) ! 0) (length es) = Some (map (\<lambda>e. offered (snd (snd e))) es)"
    using gen_rf_loop_rep[OF es(1) k, of 0] by simp
  moreover have "map (\<lambda>e. offered (snd (snd e))) es = map (\<lambda>(k, sm). offered sm) ps" using es(2) by (auto simp: split_beta)
  ultimately show ?thesis using front_place[OF es(1)] sz ne by (simp add: generate_e42_setup_request_def Let_def)
qed

section \<open>Events come and go\<close>

definition new_timer :: "e42_xapp \<Rightarrow> int \<Rightarrow> bool" where
  "new_timer x tfd \<longleftrightarrow> 0 < tfd \<and> tfd \<notin> xa_io x"

definition none_of_kind :: "pending_event \<Rightarrow> (int \<times> pending_event_xapp) multiset \<Rightarrow> bool" where
  "none_of_kind k P \<longleftrightarrow> (\<forall>(f, e) \<in># P. px_ev e \<noteq> k)"

lemma add_pending_rep:
  assumes R: "xa_rep x P ags rics N" and I: "xa_inv x P" and mal: "xa_fresh mal x" and new: "new_timer x tfd"
    and ev: "none_of_kind (px_ev ev) P" "0 < px_wait_ms ev"
  obtains p where "add_pending_event_xapp mal tfd x ev = Some (x\<lparr>xa_io := insert tfd (xa_io x), xa_pending := p\<rparr>)"
    "xa_rep (x\<lparr>xa_io := insert tfd (xa_io x), xa_pending := p\<rparr>) (add_mset (tfd, ev) P) ags rics N"
    "xa_inv (x\<lparr>xa_io := insert tfd (xa_io x), xa_pending := p\<rparr>) (add_mset (tfd, ev) P)"
proof -
  have n: "0 < tfd" "tfd \<notin> xa_io x" using new by (simp_all add: new_timer_def)
  have "\<forall>(f, e) \<in># P. f \<noteq> tfd \<and> px_ev e \<noteq> px_ev ev" using ev(1) I n by (fastforce simp: none_of_kind_def xa_inv_def)
  moreover have "px_rep (xa_pending x) P" "fresh_for (xa_pending x) (mal 0) (mal 1)" using R mal by (simp_all add: xa_rep_def xa_fresh_def)
  ultimately obtain p where p: "add_pending_event_ds (mal 0) (mal 1) (xa_pending x) tfd ev = Some p" "px_rep p (add_mset (tfd, ev) P)"
    using px_add n(1) by metis
  have "tfd \<noteq> xa_ep_fd x" using I n(2) by (auto simp: xa_inv_def)
  then have "xa_inv (x\<lparr>xa_io := insert tfd (xa_io x), xa_pending := p\<rparr>) (add_mset (tfd, ev) P)" using I n(1) by (auto simp: xa_inv_def)
  moreover have "xa_rep (x\<lparr>xa_io := insert tfd (xa_io x), xa_pending := p\<rparr>) (add_mset (tfd, ev) P) ags rics N"
    using R p(2) by (simp add: xa_rep_def)
  ultimately show thesis using that p(1) n ev(2)
    by (simp add: add_pending_event_xapp_def create_timer_ms_asio_xapp_def add_fd_asio_xapp_def)
qed

lemma rm_pending_rep:
  assumes R: "xa_rep x P ags rics N" and I: "xa_inv x P" and ev: "(fd, ev) \<in># P" "px_ev tmp = px_ev ev"
  obtains p where "rm_pending_event_xapp x tmp = Some (x\<lparr>xa_pending := p, xa_io := xa_io x - {fd}\<rparr>)"
    "xa_rep (x\<lparr>xa_pending := p, xa_io := xa_io x - {fd}\<rparr>) (P - {#(fd, ev)#}) ags rics N"
    "xa_inv (x\<lparr>xa_pending := p, xa_io := xa_io x - {fd}\<rparr>) (P - {#(fd, ev)#})"
proof -
  have px: "px_rep (xa_pending x) P" using R by (simp add: xa_rep_def)
  have f: "0 < fd" "fd \<in> xa_io x" "fd \<noteq> xa_ep_fd x" using I ev(1) by (auto simp: xa_inv_def)
  obtain p where p: "rm_pending_event_ev (xa_pending x) tmp = Some (fd, p)" "px_rep p (P - {#(fd, ev)#})"
    using px_extract[OF px ev f(1)] by blast
  have "\<forall>(f, e) \<in># P - {#(fd, ev)#}. order_fd fd f \<noteq> 0"
    by (rule bm_rep_others[OF px_repD(1)[OF px] fd.comparator_axioms ev(1)])
  then have "\<forall>(f, e) \<in># P - {#(fd, ev)#}. f \<noteq> fd" by (auto simp: order_fd_0)
  then have "xa_inv (x\<lparr>xa_pending := p, xa_io := xa_io x - {fd}\<rparr>) (P - {#(fd, ev)#})"
    using I f(3) by (fastforce simp: xa_inv_def dest: in_diffD)
  moreover have "xa_rep (x\<lparr>xa_pending := p, xa_io := xa_io x - {fd}\<rparr>) (P - {#(fd, ev)#}) ags rics N"
    using R p(2) by (simp add: xa_rep_def)
  ultimately show thesis using that p(1) f(2) by (simp add: rm_pending_event_xapp_def rm_fd_asio_xapp_def)
qed

lemma rm_pending_absent:
  assumes "xa_rep x P ags rics N" "none_of_kind (px_ev tmp) P"
  shows "rm_pending_event_xapp x tmp = None"
  using px_extract_absent[of "xa_pending x" P tmp] assms by (simp add: xa_rep_def none_of_kind_def rm_pending_event_xapp_def)

text \<open>The messages and the timers reach their branches of the loop.\<close>
lemma loop_message:
  assumes "xa_inv x P"
  shows "e2_event_loop_xapp mal tfd x (xa_ep_fd x) m = do {
    (ans, x) \<leftarrow> e2ap_msg_handle_xapp mal tfd x m;
    if ans \<noteq> no_msg then Some (e2ap_send_bytes_xapp x ans) else Some x
  }"
  using assms by (simp add: xa_inv_def e2_event_loop_xapp_def find_event_type_def net_pkt_xapp_def)

lemma loop_timer:
  assumes "xa_rep x P ags rics N" "xa_inv x P" "(fd, ev) \<in># P"
  shows "find_event_type x fd = Some (PENDING_EVENT_XAPP (px_ev ev))" "fd \<noteq> - 1" "0 < fd"
proof -
  have f: "0 < fd" "fd \<noteq> xa_ep_fd x" using assms(2,3) by (auto simp: xa_inv_def)
  have "px_rep (xa_pending x) P" using assms(1) by (simp add: xa_rep_def)
  from px_event[OF this assms(3) f(1)] f show "find_event_type x fd = Some (PENDING_EVENT_XAPP (px_ev ev))" "fd \<noteq> - 1" "0 < fd"
    by (auto simp: find_event_type_def net_pkt_xapp_def)
qed

end
