(* ===== verification/Xapp_Spec.thy ===== *)
theory Xapp_Spec
  imports Xapp_Facts
begin

text \<open>
  What the xApp is meant to do, without trees, arrays and memory: the pending events are a multiset, the procedures a list,
  the plug-ins lists, and a step relation says what a caller, the event loop and the dispatcher do.
  The code implements it (\<open>xapp_step_ok\<close>).  The premises are the contract of the callers and the controller: one call
  at a time, answers to what is pending, registered before it is answered, indications of types that are accepted.
\<close>

section \<open>State\<close>

record axapp =
  x_pc :: ui_pc
  x_ep :: int
  x_polled :: "int set"
  x_ags :: "(uint16 \<times> sm_agent) list"
  x_rics :: "(uint16 \<times> sm_ric) list"
  x_nodes :: "(global_e2_node_id \<times> pair_rf_cca) multiset"
  x_num :: uint16
  x_flags :: sync_ui
  x_procs :: "(uint32 \<times> act_proc_val) list"
  x_next :: nat
  x_pend :: "(int \<times> pending_event_xapp) multiset"
  x_queue :: "(sm_ag_if_rd_ind \<times> sm_cb) list"
  x_up :: bool
  x_out :: "e2ap_msg list"
  x_rows :: "(global_e2_node_id \<times> sm_ag_if_rd_ind) list"
  x_calls :: "(sm_cb \<times> sm_ag_if_rd_ind) list"

text \<open>The plug-ins of both kinds are loaded from the same directory.\<close>
definition xa_sane :: "axapp \<Rightarrow> bool" where
  "xa_sane a \<longleftrightarrow> x_ags a \<noteq> [] \<and> length (x_rics a) = length (x_ags a) \<and> (\<forall>(k, sm) \<in> set (x_ags a). sma_id sm = k) \<and>
     (\<forall>(k, sm) \<in> set (x_rics a). 0 < k \<and> sm_ran_func_id sm = k)"

definition xa_abs :: "ui_pc \<times> e42_xapp \<Rightarrow> axapp \<Rightarrow> bool" where
  "xa_abs s a \<longleftrightarrow> fst s = x_pc a \<and> xa_rep (snd s) (x_pend a) (x_ags a) (x_rics a) (x_nodes a) \<and> xa_inv (snd s) (x_pend a) \<and> xa_sane a \<and>
     xa_ep_fd (snd s) = x_ep a \<and> xa_io (snd s) = x_polled a \<and> xa_id (snd s) = x_num a \<and> xa_sync (snd s) = x_flags a \<and>
     procedures (xa_act_proc (snd s)) = x_procs a \<and> rg_key_id (xa_act_proc (snd s)) = x_next a \<and> xa_disp (snd s) = x_queue a \<and>
     xa_connected (snd s) = x_up a \<and> xa_sent (snd s) = x_out a \<and> xa_db (snd s) = x_rows a \<and> xa_called (snd s) = x_calls a"

lemma xa_absD:
  assumes "xa_abs (pc, x) a"
  shows "pc = x_pc a" "xa_rep x (x_pend a) (x_ags a) (x_rics a) (x_nodes a)" "xa_inv x (x_pend a)" "xa_sane a"
    "xa_ep_fd x = x_ep a" "xa_io x = x_polled a" "xa_id x = x_num a" "xa_sync x = x_flags a" "procedures (xa_act_proc x) = x_procs a"
    "rg_key_id (xa_act_proc x) = x_next a" "xa_disp x = x_queue a" "xa_connected x = x_up a" "xa_sent x = x_out a" "xa_db x = x_rows a"
    "xa_called x = x_calls a"
  using assms by (simp_all add: xa_abs_def)

section \<open>Steps\<close>

definition no_ric_id :: ric_gen_id where
  "no_ric_id = \<lparr>ric_req_id = 0, ric_inst_id = 0, ran_func_id = 0\<rparr>"

text \<open>A new procedure and what it asks for.\<close>
definition new_id :: "axapp \<Rightarrow> uint16 \<Rightarrow> ric_gen_id" where
  "new_id a f = \<lparr>ric_req_id = word_of_nat (x_next a), ric_inst_id = 0, ran_func_id = f\<rparr>"

definition with_proc :: "axapp \<Rightarrow> act_proc_val_e \<Rightarrow> uint16 \<Rightarrow> global_e2_node_id \<Rightarrow> sm_cb \<Rightarrow> axapp" where
  "with_proc a type f nid cb = a\<lparr>x_procs := x_procs a @ [(word_of_nat (x_next a),
     \<lparr>av_type = type, av_id = new_id a f, av_sm_cb = cb, av_e2_node = nid\<rparr>)], x_next := x_next a + 1\<rparr>"

definition subs_request :: "axapp \<Rightarrow> uint16 \<Rightarrow> byte_array \<Rightarrow> byte_array option \<Rightarrow> ric_subscription_request" where
  "subs_request a f et ad = \<lparr>sr_ric_id = new_id a f, sr_event_trigger = et,
     sr_action = [\<lparr>act_id = 0, act_type = RIC_ACT_REPORT, act_definition = ad, subseq_action = None\<rparr>]\<rparr>"

definition ctrl_request :: "axapp \<Rightarrow> uint16 \<Rightarrow> byte_array \<Rightarrow> byte_array \<Rightarrow> ric_control_request" where
  "ctrl_request a f hdr msg = \<lparr>cr_ric_id = new_id a f, cr_call_process_id = None, cr_hdr = hdr, cr_msg = msg,
     cr_ack_req = Some RIC_CONTROL_REQUEST_ACK\<rparr>"

text \<open>The nodes that the answer to a setup may name.\<close>
definition new_nodes :: "axapp \<Rightarrow> e2_node_connected list \<Rightarrow> bool" where
  "new_nodes a cs \<longleftrightarrow> (\<forall>c \<in> set cs. has_cu_du_id (nc_id c) \<and> nc_ack_rf c \<noteq> [] \<and> unat (nc_len_cca c) = length (nc_cca c) \<and>
       ok_pair \<lparr>pr_ran_func = nc_ack_rf c, pr_comp_conf_add = nc_cca c\<rparr>) \<and>
     sorted_wrt (\<lambda>c d. \<not> eq_node (nc_id d) (nc_id c)) cs \<and>
     (\<forall>c \<in> set cs. \<forall>(n, p) \<in># x_nodes a. \<not> eq_node (nc_id c) n)"

definition node_pair :: "e2_node_connected \<Rightarrow> global_e2_node_id \<times> pair_rf_cca" where
  "node_pair c = (nc_id c, \<lparr>pr_ran_func = nc_ack_rf c, pr_comp_conf_add = nc_cca c\<rparr>)"

text \<open>What an answer does to the caller.\<close>
definition answered :: "axapp \<Rightarrow> int \<Rightarrow> pending_event_xapp \<Rightarrow> axapp" where
  "answered a fd ev = a\<lparr>x_pend := x_pend a - {#(fd, ev)#}, x_polled := x_polled a - {fd}, x_flags := \<lparr>flag_sync = True, msg_ack = True\<rparr>\<rparr>"

definition number_of :: "ui_rest \<Rightarrow> uint16 option" where
  "number_of rest = (case rest of RETURN_HANDLE h \<Rightarrow> None | REMOVE_REPORT h \<Rightarrow> Some h | REMOVE_CONTROL h \<Rightarrow> Some h)"

inductive xstep :: "int \<Rightarrow> axapp \<Rightarrow> xapp_in \<Rightarrow> axapp \<Rightarrow> bool" for tfd a where
  report: "x_pc a = UI_IDLE \<Longrightarrow> valid_ran_func_id f \<Longrightarrow> (f, sm) \<in> set (x_rics a) \<Longrightarrow> on_subscription sm d = Some (et, ad) \<Longrightarrow>
    (case ad of None \<Rightarrow> 0 | Some b \<Rightarrow> length b) < 2048 \<Longrightarrow> x_next a < 65536 \<Longrightarrow> 0 < tfd \<Longrightarrow> tfd \<notin> x_polled a \<Longrightarrow>
    none_of_kind E42_RIC_SUBSCRIPTION_REQUEST_PENDING_EVENT (x_pend a) \<Longrightarrow>
    xstep tfd a (CALL (REPORT nid f d cb)) ((with_proc a RIC_SUBSCRIPTION_PROCEDURE_ACTIVE f nid cb)\<lparr>
      x_pc := UI_ENTER (RETURN_HANDLE (word_of_nat (x_next a))), x_polled := insert tfd (x_polled a),
      x_pend := add_mset (tfd, \<lparr>px_ev = E42_RIC_SUBSCRIPTION_REQUEST_PENDING_EVENT, px_id = new_id a f, px_wait_ms = 5000\<rparr>) (x_pend a),
      x_out := x_out a @ [e42_ric_sub_req \<lparr>e42_sr_xapp_id = x_num a, e42_sr_id = nid, e42_sr = subs_request a f et ad\<rparr>]\<rparr>)"
| rm_report: "x_pc a = UI_IDLE \<Longrightarrow> (h, v) \<in> set (x_procs a) \<Longrightarrow> sdr = \<lparr>e42_sdr_xapp_id = x_num a, e42_sdr = \<lparr>sdr_ric_id = av_id v\<rparr>\<rparr> \<Longrightarrow>
    xstep tfd a (CALL (RM_REPORT (uint h))) (a\<lparr>x_pc := UI_PEND (sub_del_event sdr) (REMOVE_REPORT (ucast h)),
      x_out := x_out a @ [e42_ric_sub_del_req sdr]\<rparr>)"
| control: "x_pc a = UI_IDLE \<Longrightarrow> valid_ran_func_id f \<Longrightarrow> (f, sm) \<in> set (x_rics a) \<Longrightarrow> on_control_req sm d = Some (hdr, msg) \<Longrightarrow>
    length hdr < 2049 \<Longrightarrow> length msg < 2049 \<Longrightarrow> x_next a < 65536 \<Longrightarrow>
    cr = \<lparr>e42_cr_xapp_id = x_num a, e42_cr_id = nid, e42_ctrl_req = ctrl_request a f hdr msg\<rparr> \<Longrightarrow>
    xstep tfd a (CALL (CONTROL nid f d)) ((with_proc a RIC_CONTROL_PROCEDURE_ACTIVE f nid 0)\<lparr>
      x_pc := UI_PEND (ctrl_event cr) (REMOVE_CONTROL (word_of_nat (x_next a))), x_out := x_out a @ [e42_ric_ctrl_req cr]\<rparr>)"
| register: "x_pc a = UI_PEND ev rest \<Longrightarrow> 0 < px_wait_ms ev \<Longrightarrow> 0 < tfd \<Longrightarrow> tfd \<notin> x_polled a \<Longrightarrow> none_of_kind (px_ev ev) (x_pend a) \<Longrightarrow>
    xstep tfd a REGISTER (a\<lparr>x_pc := UI_ENTER rest, x_polled := insert tfd (x_polled a), x_pend := add_mset (tfd, ev) (x_pend a)\<rparr>)"
| wait: "x_pc a = UI_ENTER rest \<Longrightarrow>
    xstep tfd a WAIT (a\<lparr>x_pc := UI_BLOCKED rest, x_flags := \<lparr>flag_sync = False, msg_ack = False\<rparr>\<rparr>)"
| subscribed: "(ric_req_id (rs_ric_id m), v) \<in> set (x_procs a) \<Longrightarrow> (fd, ev) \<in># x_pend a \<Longrightarrow>
    px_ev ev = E42_RIC_SUBSCRIPTION_REQUEST_PENDING_EVENT \<Longrightarrow> xstep tfd a (LOOP (x_ep a) (ric_sub_resp m)) (answered a fd ev)"
| unsubscribed: "(ric_req_id (sdp_ric_id m), v) \<in> set (x_procs a) \<Longrightarrow> (fd, ev) \<in># x_pend a \<Longrightarrow>
    px_ev ev = E42_RIC_SUBSCRIPTION_DELETE_REQUEST_PENDING_EVENT \<Longrightarrow> xstep tfd a (LOOP (x_ep a) (ric_sub_del_resp m)) (answered a fd ev)"
| controlled: "(ric_req_id (ca_ric_id m), v) \<in> set (x_procs a) \<Longrightarrow> (fd, ev) \<in># x_pend a \<Longrightarrow>
    px_ev ev = E42_RIC_CONTROL_REQUEST_PENDING_EVENT \<Longrightarrow> xstep tfd a (LOOP (x_ep a) (ric_ctrl_ack m)) (answered a fd ev)"
| indication: "(ran_func_id (ind_ric_id m), sm) \<in> set (x_rics a) \<Longrightarrow> ind_call_process_id m = None \<Longrightarrow>
    on_indication sm (ind_hdr m) (ind_msg m) None = Some rd \<Longrightarrow> ind_type_xapp (rd_type rd) \<Longrightarrow> (ric_req_id (ind_ric_id m), v) \<in> set (x_procs a) \<Longrightarrow>
    xstep tfd a (LOOP (x_ep a) (ric_ind m)) (a\<lparr>x_rows := x_rows a @ [(av_e2_node v, rd)], x_queue := x_queue a @ [(rd, av_sm_cb v)]\<rparr>)"
| late_indication: "(ran_func_id (ind_ric_id m), sm) \<in> set (x_rics a) \<Longrightarrow> ind_call_process_id m = None \<Longrightarrow>
    on_indication sm (ind_hdr m) (ind_msg m) None = Some rd \<Longrightarrow> ind_type_xapp (rd_type rd) \<Longrightarrow>
    ric_req_id (ind_ric_id m) \<notin> fst ` set (x_procs a) \<Longrightarrow> 0 < ric_req_id (ind_ric_id m) \<Longrightarrow> unat (ric_req_id (ind_ric_id m)) < 65536 \<Longrightarrow>
    xstep tfd a (LOOP (x_ep a) (ric_ind m)) a"
| set_up: "\<not> x_up a \<Longrightarrow> (fd, ev) \<in># x_pend a \<Longrightarrow> px_ev ev = E42_SETUP_REQUEST_PENDING_EVENT \<Longrightarrow> new_nodes a (stx_nodes m) \<Longrightarrow>
    unat (stx_len_e2_nodes_conn m) = length (stx_nodes m) \<Longrightarrow>
    xstep tfd a (LOOP (x_ep a) (e42_stp_resp m)) (a\<lparr>x_up := True, x_num := stx_xapp_id m, x_nodes := x_nodes a + mset (map node_pair (stx_nodes m)),
      x_pend := x_pend a - {#(fd, ev)#}, x_polled := x_polled a - {fd}\<rparr>)"
| set_up_already: "x_up a \<Longrightarrow> xstep tfd a (LOOP (x_ep a) (e42_stp_resp m)) a"
| set_up_again: "(fd, ev) \<in># x_pend a \<Longrightarrow> px_ev ev = E42_SETUP_REQUEST_PENDING_EVENT \<Longrightarrow>
    xstep tfd a (LOOP fd m) (a\<lparr>x_out := x_out a @ [e42_stp_req \<lparr>e42_ran_func_item = map (\<lambda>(k, sm). offered sm) (x_ags a)\<rparr>]\<rparr>)"
| nothing: "xstep tfd a (LOOP (- 1) m) a"
| dispatch: "x_queue a = (rd, cb) # q \<Longrightarrow> cb \<noteq> 0 \<Longrightarrow> xstep tfd a DISPATCH (a\<lparr>x_queue := q, x_calls := x_calls a @ [(cb, rd)]\<rparr>)"
| wake_up: "x_pc a = UI_BLOCKED rest \<Longrightarrow> x_flags a = \<lparr>flag_sync = True, msg_ack = True\<rparr> \<Longrightarrow>
    (case number_of rest of None \<Rightarrow> True | Some h \<Rightarrow> ucast h \<in> fst ` set (x_procs a)) \<Longrightarrow>
    xstep tfd a WAKE_UP (a\<lparr>x_pc := UI_IDLE,
      x_procs := (case number_of rest of None \<Rightarrow> x_procs a | Some h \<Rightarrow> filter (\<lambda>e. fst e \<noteq> ucast h) (x_procs a))\<rparr>)"

inductive_cases xstepE: "xstep tfd a i a'"

text \<open>The outcome of a step is determined.\<close>
lemma xapp_step_det: "xapp_step mal tfd s i r \<Longrightarrow> xapp_step mal tfd s i r' \<Longrightarrow> r = r'"
  by (cases s) (auto elim!: xapp_step.cases)


section \<open>The code implements it\<close>

lemma xa_sane_cong [simp]:
  "xa_sane (a\<lparr>x_pc := v1\<rparr>) = xa_sane a" "xa_sane (a\<lparr>x_polled := v2\<rparr>) = xa_sane a" "xa_sane (a\<lparr>x_nodes := v3\<rparr>) = xa_sane a"
  "xa_sane (a\<lparr>x_num := v4\<rparr>) = xa_sane a" "xa_sane (a\<lparr>x_flags := v5\<rparr>) = xa_sane a" "xa_sane (a\<lparr>x_procs := v6\<rparr>) = xa_sane a"
  "xa_sane (a\<lparr>x_next := v7\<rparr>) = xa_sane a" "xa_sane (a\<lparr>x_pend := v8\<rparr>) = xa_sane a" "xa_sane (a\<lparr>x_queue := v9\<rparr>) = xa_sane a"
  "xa_sane (a\<lparr>x_up := v10\<rparr>) = xa_sane a" "xa_sane (a\<lparr>x_out := v11\<rparr>) = xa_sane a" "xa_sane (a\<lparr>x_rows := v12\<rparr>) = xa_sane a"
  "xa_sane (a\<lparr>x_calls := v13\<rparr>) = xa_sane a"
  by (simp_all add: xa_sane_def)

text \<open>Changes of the parts that no table depends on.\<close>
lemma xa_rep_upd [simp]:
  "xa_rep (x\<lparr>xa_io := v0\<rparr>) P ags rics N = xa_rep x P ags rics N"
  "xa_rep (x\<lparr>xa_id := v1\<rparr>) P ags rics N = xa_rep x P ags rics N"
  "xa_rep (x\<lparr>xa_sync := v2\<rparr>) P ags rics N = xa_rep x P ags rics N"
  "xa_rep (x\<lparr>xa_act_proc := v3\<rparr>) P ags rics N = xa_rep x P ags rics N"
  "xa_rep (x\<lparr>xa_disp := v4\<rparr>) P ags rics N = xa_rep x P ags rics N"
  "xa_rep (x\<lparr>xa_connected := v5\<rparr>) P ags rics N = xa_rep x P ags rics N"
  "xa_rep (x\<lparr>xa_sent := v6\<rparr>) P ags rics N = xa_rep x P ags rics N"
  "xa_rep (x\<lparr>xa_db := v7\<rparr>) P ags rics N = xa_rep x P ags rics N"
  "xa_rep (x\<lparr>xa_called := v8\<rparr>) P ags rics N = xa_rep x P ags rics N"
  "xa_rep (x\<lparr>xa_stop_token := v9\<rparr>) P ags rics N = xa_rep x P ags rics N"
  "xa_rep (x\<lparr>xa_ep_fd := v10\<rparr>) P ags rics N = xa_rep x P ags rics N"
  by (simp_all add: xa_rep_def)

lemma xa_inv_upd [simp]:
  "xa_inv (x\<lparr>xa_pending := v0\<rparr>) P = xa_inv x P"
  "xa_inv (x\<lparr>xa_e2_nodes := v1\<rparr>) P = xa_inv x P"
  "xa_inv (x\<lparr>xa_id := v2\<rparr>) P = xa_inv x P"
  "xa_inv (x\<lparr>xa_sync := v3\<rparr>) P = xa_inv x P"
  "xa_inv (x\<lparr>xa_disp := v4\<rparr>) P = xa_inv x P"
  "xa_inv (x\<lparr>xa_connected := v5\<rparr>) P = xa_inv x P"
  "xa_inv (x\<lparr>xa_sent := v6\<rparr>) P = xa_inv x P"
  "xa_inv (x\<lparr>xa_db := v7\<rparr>) P = xa_inv x P"
  "xa_inv (x\<lparr>xa_called := v8\<rparr>) P = xa_inv x P"
  "xa_inv (x\<lparr>xa_stop_token := v9\<rparr>) P = xa_inv x P"
  "xa_inv (x\<lparr>xa_plugin_ag := v10\<rparr>) P = xa_inv x P"
  "xa_inv (x\<lparr>xa_plugin_ric := v11\<rparr>) P = xa_inv x P"
  by (simp_all add: xa_inv_def)

lemma xa_abs_plain:
  assumes "xa_abs (pc, x) a"
  shows "xa_abs (pc', x) (a\<lparr>x_pc := pc'\<rparr>)" "xa_abs (pc, x\<lparr>xa_sync := fl\<rparr>) (a\<lparr>x_flags := fl\<rparr>)"
    "xa_abs (pc, e2ap_send_bytes_xapp x m) (a\<lparr>x_out := x_out a @ [m]\<rparr>)"
    "xa_abs (pc, x\<lparr>xa_disp := q\<rparr>) (a\<lparr>x_queue := q\<rparr>)" "xa_abs (pc, x\<lparr>xa_db := d\<rparr>) (a\<lparr>x_rows := d\<rparr>)"
    "xa_abs (pc, x\<lparr>xa_called := c\<rparr>) (a\<lparr>x_calls := c\<rparr>)" "xa_abs (pc, x\<lparr>xa_id := i\<rparr>) (a\<lparr>x_num := i\<rparr>)"
    "xa_abs (pc, x\<lparr>xa_connected := b\<rparr>) (a\<lparr>x_up := b\<rparr>)"
  using assms by (simp_all add: xa_abs_def e2ap_send_bytes_xapp_def)

lemma xa_abs_procs:
  assumes "xa_abs (pc, x) a" "act_proc_ok p" "0 < rg_key_id p" "rg_key_id p \<le> 65536"
  shows "xa_abs (pc, x\<lparr>xa_act_proc := p\<rparr>) (a\<lparr>x_procs := procedures p, x_next := rg_key_id p\<rparr>)"
proof -
  have "xa_inv (x\<lparr>xa_act_proc := p\<rparr>) (x_pend a)" using xa_absD(3)[OF assms(1)] assms(2-4) by (simp add: xa_inv_def)
  then show ?thesis using assms(1) by (simp add: xa_abs_def)
qed

lemma xa_invD:
  assumes "xa_inv x P"
  shows "act_proc_ok (xa_act_proc x)" "0 < rg_key_id (xa_act_proc x)" "rg_key_id (xa_act_proc x) \<le> 65536" "0 < xa_ep_fd x"
  using assms by (simp_all add: xa_inv_def)

text \<open>The search for a procedure.\<close>
lemma find_proc_rep:
  assumes "xa_abs (pc, x) a" "0 < k" "unat k < 65536"
  obtains x' where "find_proc_xapp x k = Some (map_of (x_procs a) k, x')" "xa_abs (pc, x') a" "xa_connected x' = xa_connected x"
proof -
  note d = xa_absD[OF assms(1)]
  note i = xa_invD[OF d(3)]
  obtain p where p: "find_act_proc (xa_act_proc x) (ucast k) = Some (map_of (procedures (xa_act_proc x)) k, p)" "act_proc_ok p"
    "rg_key_id p = rg_key_id (xa_act_proc x)" "procedures p = procedures (xa_act_proc x)"
    using procs.looking_law[OF i(1,3) assms(2,3)] by blast
  have "xa_abs (pc, x\<lparr>xa_act_proc := p\<rparr>) (a\<lparr>x_procs := procedures p, x_next := rg_key_id p\<rparr>)"
    using xa_abs_procs[OF assms(1) p(2)] p(3) i by simp
  moreover have "a\<lparr>x_procs := procedures p, x_next := rg_key_id p\<rparr> = a" using p(3,4) d(9,10) by (simp add: axapp.equality)
  ultimately show thesis using that[of "x\<lparr>xa_act_proc := p\<rparr>"] p(1) d(9) by (simp add: find_proc_xapp_def)
qed

lemma proc_number:
  assumes "xa_abs (pc, x) a" "(k, v) \<in> set (x_procs a)"
  shows "0 < k" "unat k < 65536" "map_of (x_procs a) k = Some v"
proof -
  note d = xa_absD[OF assms(1)]
  note i = xa_invD[OF d(3)]
  show "0 < k" "unat k < 65536" using procs.numbers[OF i(1), of k v] assms(2) d(9) i(3) by auto
  show "map_of (x_procs a) k = Some v" using procs.distinct_numbers[OF i(1)] assms(2) d(9) by (simp add: map_of_is_SomeI)
qed

lemma xa_abs_pending:
  assumes "xa_abs (pc, x) a" "xa_rep (x\<lparr>xa_pending := p, xa_io := q\<rparr>) P (x_ags a) (x_rics a) (x_nodes a)" "xa_inv (x\<lparr>xa_pending := p, xa_io := q\<rparr>) P"
  shows "xa_abs (pc, x\<lparr>xa_pending := p, xa_io := q\<rparr>) (a\<lparr>x_pend := P, x_polled := q\<rparr>)"
  using assms by (simp add: xa_abs_def)

lemma xa_removed:
  assumes "xa_abs (pc, x) a" "(fd, ev) \<in># x_pend a" "px_ev tmp = px_ev ev"
  obtains x' where "rm_pending_event_xapp x tmp = Some x'" "xa_abs (pc, x') (a\<lparr>x_pend := x_pend a - {#(fd, ev)#}, x_polled := x_polled a - {fd}\<rparr>)"
proof -
  note d = xa_absD[OF assms(1)]
  obtain p where p: "rm_pending_event_xapp x tmp = Some (x\<lparr>xa_pending := p, xa_io := xa_io x - {fd}\<rparr>)"
    "xa_rep (x\<lparr>xa_pending := p, xa_io := xa_io x - {fd}\<rparr>) (x_pend a - {#(fd, ev)#}) (x_ags a) (x_rics a) (x_nodes a)"
    "xa_inv (x\<lparr>xa_pending := p, xa_io := xa_io x - {fd}\<rparr>) (x_pend a - {#(fd, ev)#})"
    by (rule rm_pending_rep[OF d(2,3) assms(2,3)])
  show thesis using that[OF p(1)] xa_abs_pending[OF assms(1) p(2,3)] d(6) by simp
qed

lemma xa_added:
  assumes "xa_abs (pc, x) a" "xa_fresh mal x" "0 < tfd" "tfd \<notin> x_polled a" "none_of_kind (px_ev ev) (x_pend a)" "0 < px_wait_ms ev"
  obtains x' where "add_pending_event_xapp mal tfd x ev = Some x'"
    "xa_abs (pc, x') (a\<lparr>x_pend := add_mset (tfd, ev) (x_pend a), x_polled := insert tfd (x_polled a)\<rparr>)"
proof -
  note d = xa_absD[OF assms(1)]
  have "new_timer x tfd" using assms(3,4) d(6) by (simp add: new_timer_def)
  then obtain p where p: "add_pending_event_xapp mal tfd x ev = Some (x\<lparr>xa_io := insert tfd (xa_io x), xa_pending := p\<rparr>)"
    "xa_rep (x\<lparr>xa_io := insert tfd (xa_io x), xa_pending := p\<rparr>) (add_mset (tfd, ev) (x_pend a)) (x_ags a) (x_rics a) (x_nodes a)"
    "xa_inv (x\<lparr>xa_io := insert tfd (xa_io x), xa_pending := p\<rparr>) (add_mset (tfd, ev) (x_pend a))"
    by (rule add_pending_rep[OF d(2,3) assms(2) _ assms(5,6)])
  let ?y = "x\<lparr>xa_io := insert tfd (xa_io x), xa_pending := p\<rparr>"
  have "?y = x\<lparr>xa_pending := p, xa_io := insert tfd (xa_io x)\<rparr>" by simp
  then have "xa_abs (pc, ?y) (a\<lparr>x_pend := add_mset (tfd, ev) (x_pend a), x_polled := insert tfd (xa_io x)\<rparr>)"
    using xa_abs_pending[OF assms(1)] p(2,3) by metis
  then show thesis using that[OF p(1)] d(6) by metis
qed

text \<open>The answers.\<close>
lemma answer_step:
  assumes A: "xa_abs (pc, x) a" and k: "(k, v) \<in> set (x_procs a)" and ev: "(fd, ev) \<in># x_pend a" "px_ev ev = kind"
  obtains x' where "do {
      (rv, x) \<leftarrow> find_proc_xapp x k;
      val \<leftarrow> rv;
      x \<leftarrow> rm_pending_event_xapp x \<lparr>px_ev = kind, px_id = av_id val, px_wait_ms = 0\<rparr>;
      Some (no_msg, x\<lparr>xa_sync := signal_sync_ui (xa_sync x)\<rparr>)
    } = Some (no_msg, x')" "xa_abs (pc, x') (answered a fd ev)"
proof -
  note n = proc_number[OF A k]
  obtain y where y: "find_proc_xapp x k = Some (Some v, y)" "xa_abs (pc, y) a" by (rule find_proc_rep[OF A n(1,2)]) (use n(3) in simp)
  have t: "px_ev \<lparr>px_ev = kind, px_id = av_id v, px_wait_ms = 0\<rparr> = px_ev ev" using ev(2) by simp
  obtain z where z: "rm_pending_event_xapp y \<lparr>px_ev = kind, px_id = av_id v, px_wait_ms = 0\<rparr> = Some z"
    "xa_abs (pc, z) (a\<lparr>x_pend := x_pend a - {#(fd, ev)#}, x_polled := x_polled a - {fd}\<rparr>)" by (rule xa_removed[OF y(2) ev(1) t])
  have "signal_sync_ui (xa_sync z) = \<lparr>flag_sync = True, msg_ack = True\<rparr>" by (cases "xa_sync z") (simp add: signal_sync_ui_def)
  then show thesis using that[of "z\<lparr>xa_sync := signal_sync_ui (xa_sync z)\<rparr>"] y(1) z xa_abs_plain(2)[OF z(2), of "signal_sync_ui (xa_sync z)"]
    by (simp add: answered_def)
qed

lemma message_step:
  assumes "xa_abs (pc, x) a" "e2ap_msg_handle_xapp mal tfd x m = Some (no_msg, x')" "xa_abs (pc, x') a'"
  shows "\<exists>s'. xapp_step mal tfd (pc, x) (LOOP (x_ep a) m) (Some s') \<and> xa_abs s' a'"
  using assms(2,3) loop_message[OF xa_absD(3)[OF assms(1)], of mal tfd m] xa_absD(5)[OF assms(1)] by simp

lemmas xapp_handle_defs = e2ap_msg_handle_xapp_def check_valid_msg_type_xapp_def

lemma xapp_answers:
  assumes A: "xa_abs (pc, x) a" and ev: "(fd, ev) \<in># x_pend a"
  shows "(ric_req_id (rs_ric_id m1), v) \<in> set (x_procs a) \<Longrightarrow> px_ev ev = E42_RIC_SUBSCRIPTION_REQUEST_PENDING_EVENT \<Longrightarrow>
      \<exists>s'. xapp_step mal tfd (pc, x) (LOOP (x_ep a) (ric_sub_resp m1)) (Some s') \<and> xa_abs s' (answered a fd ev)"
    "(ric_req_id (sdp_ric_id m2), v) \<in> set (x_procs a) \<Longrightarrow> px_ev ev = E42_RIC_SUBSCRIPTION_DELETE_REQUEST_PENDING_EVENT \<Longrightarrow>
      \<exists>s'. xapp_step mal tfd (pc, x) (LOOP (x_ep a) (ric_sub_del_resp m2)) (Some s') \<and> xa_abs s' (answered a fd ev)"
    "(ric_req_id (ca_ric_id m3), v) \<in> set (x_procs a) \<Longrightarrow> px_ev ev = E42_RIC_CONTROL_REQUEST_PENDING_EVENT \<Longrightarrow>
      \<exists>s'. xapp_step mal tfd (pc, x) (LOOP (x_ep a) (ric_ctrl_ack m3)) (Some s') \<and> xa_abs s' (answered a fd ev)"
proof -
  show "\<exists>s'. xapp_step mal tfd (pc, x) (LOOP (x_ep a) (ric_sub_resp m1)) (Some s') \<and> xa_abs s' (answered a fd ev)"
    if "(ric_req_id (rs_ric_id m1), v) \<in> set (x_procs a)" "px_ev ev = E42_RIC_SUBSCRIPTION_REQUEST_PENDING_EVENT"
    by (rule answer_step[OF A that(1) ev that(2)], rule message_step[OF A])
      (simp_all add: xapp_handle_defs e2ap_handle_subscription_response_xapp_def)
  show "\<exists>s'. xapp_step mal tfd (pc, x) (LOOP (x_ep a) (ric_sub_del_resp m2)) (Some s') \<and> xa_abs s' (answered a fd ev)"
    if "(ric_req_id (sdp_ric_id m2), v) \<in> set (x_procs a)" "px_ev ev = E42_RIC_SUBSCRIPTION_DELETE_REQUEST_PENDING_EVENT"
    by (rule answer_step[OF A that(1) ev that(2)], rule message_step[OF A])
      (simp_all add: xapp_handle_defs e2ap_handle_subscription_delete_response_xapp_def)
  show "\<exists>s'. xapp_step mal tfd (pc, x) (LOOP (x_ep a) (ric_ctrl_ack m3)) (Some s') \<and> xa_abs s' (answered a fd ev)"
    if "(ric_req_id (ca_ric_id m3), v) \<in> set (x_procs a)" "px_ev ev = E42_RIC_CONTROL_REQUEST_PENDING_EVENT"
    by (rule answer_step[OF A that(1) ev that(2)], rule message_step[OF A])
      (simp_all add: xapp_handle_defs e2ap_handle_control_ack_xapp_def)
qed


text \<open>A new procedure.\<close>
lemma new_proc_rep:
  assumes A: "xa_abs (pc, x) a" and f: "valid_ran_func_id f" and n: "x_next a < 65536"
  obtains x' where "generate_ric_gen_id x type f nid cb = Some (new_id a f, x')" "xa_abs (pc, x') (with_proc a type f nid cb)"
    "xa_fresh mal x' = xa_fresh mal x"
proof -
  note d = xa_absD[OF A]
  note i = xa_invD[OF d(3)]
  let ?v = "\<lparr>av_type = type, av_id = \<lparr>ric_req_id = 0, ric_inst_id = 0, ran_func_id = f\<rparr>, av_sm_cb = cb, av_e2_node = nid\<rparr>"
  let ?k = "word_of_nat (x_next a) :: uint32"
  obtain p where p: "add_act_proc (xa_act_proc x) type \<lparr>ric_req_id = 0, ric_inst_id = 0, ran_func_id = f\<rparr> nid cb = Some (?k, p)"
    "act_proc_ok p" "rg_key_id p = x_next a + 1" "procedures p = x_procs a @ [(?k, with_number ?k ?v)]"
    using procs.adding_law[OF i(1), of ?v] n d(9,10) by auto
  have k: "?k < 65536" using n by (simp add: word_less_nat_alt unat_of_nat)
  have "xa_abs (pc, x\<lparr>xa_act_proc := p\<rparr>) (a\<lparr>x_procs := procedures p, x_next := rg_key_id p\<rparr>)"
    using xa_abs_procs[OF A p(2)] p(3) n by simp
  moreover have "a\<lparr>x_procs := procedures p, x_next := rg_key_id p\<rparr> = with_proc a type f nid cb"
    using p(3,4) by (simp add: with_proc_def with_number_def new_id_def)
  ultimately show thesis using that[of "x\<lparr>xa_act_proc := p\<rparr>"] f p(1) k
    by (simp add: generate_ric_gen_id_def new_id_def xa_fresh_def)
qed

lemma xa_ric_plugin:
  assumes "xa_abs (pc, x) a" "(f, sm) \<in> set (x_rics a)"
  shows "sm_plugin_ric_xapp x f = Some sm"
  using sm_plugin_ric_xapp_rep[of x "x_rics a" f sm] xa_absD(2,4)[OF assms(1)] assms(2) by (auto simp: xa_rep_def xa_sane_def)

text \<open>The contents after an update in another order.\<close>
lemma xa_abs_eq: "xa_abs s a \<Longrightarrow> a = b \<Longrightarrow> xa_abs s b"
  by simp

lemma report_step:
  assumes A: "xa_abs (UI_IDLE, x) a" and mal: "xa_fresh mal x"
    and h: "valid_ran_func_id f" "(f, sm) \<in> set (x_rics a)" "on_subscription sm d = Some (et, ad)"
      "(case ad of None \<Rightarrow> 0 | Some b \<Rightarrow> length b) < 2048" "x_next a < 65536" "0 < tfd" "tfd \<notin> x_polled a"
      "none_of_kind E42_RIC_SUBSCRIPTION_REQUEST_PENDING_EVENT (x_pend a)"
  shows "\<exists>x'. report_sm_sync_xapp mal tfd x nid f d cb = Some (UI_ENTER (RETURN_HANDLE (word_of_nat (x_next a))), x') \<and>
    xa_abs (UI_ENTER (RETURN_HANDLE (word_of_nat (x_next a))), x') ((with_proc a RIC_SUBSCRIPTION_PROCEDURE_ACTIVE f nid cb)\<lparr>
      x_pc := UI_ENTER (RETURN_HANDLE (word_of_nat (x_next a))), x_polled := insert tfd (x_polled a),
      x_pend := add_mset (tfd, \<lparr>px_ev = E42_RIC_SUBSCRIPTION_REQUEST_PENDING_EVENT, px_id = new_id a f, px_wait_ms = 5000\<rparr>) (x_pend a),
      x_out := x_out a @ [e42_ric_sub_req \<lparr>e42_sr_xapp_id = x_num a, e42_sr_id = nid, e42_sr = subs_request a f et ad\<rparr>]\<rparr>)"
proof -
  let ?b = "with_proc a RIC_SUBSCRIPTION_PROCEDURE_ACTIVE f nid cb"
  let ?ev = "\<lparr>px_ev = E42_RIC_SUBSCRIPTION_REQUEST_PENDING_EVENT, px_id = new_id a f, px_wait_ms = 5000\<rparr>"
  let ?m = "e42_ric_sub_req \<lparr>e42_sr_xapp_id = x_num a, e42_sr_id = nid, e42_sr = subs_request a f et ad\<rparr>"
  obtain y where y: "generate_ric_gen_id x RIC_SUBSCRIPTION_PROCEDURE_ACTIVE f nid cb = Some (new_id a f, y)" "xa_abs (UI_IDLE, y) ?b"
    "xa_fresh mal y = xa_fresh mal x" by (rule new_proc_rep[OF A h(1,5)])
  have b: "x_polled ?b = x_polled a" "x_pend ?b = x_pend a" "x_out ?b = x_out a" "x_rics ?b = x_rics a" "x_num ?b = x_num a"
    by (simp_all add: with_proc_def)
  have f: "(f, sm) \<in> set (x_rics ?b)" using h(2) b(4) by simp
  have q: "generate_subscription_request_xapp (new_id a f) sm d = Some (subs_request a f et ad)"
    using h(3,4) by (simp add: generate_subscription_request_xapp_def subs_request_def)
  have fm: "xa_fresh mal y" "tfd \<notin> x_polled ?b" "none_of_kind (px_ev ?ev) (x_pend ?b)" using y(3) mal h(7,8) b by simp_all
  have w: "0 < px_wait_ms ?ev" by simp
  obtain z where z: "add_pending_event_xapp mal tfd y ?ev = Some z"
    "xa_abs (UI_IDLE, z) (?b\<lparr>x_pend := add_mset (tfd, ?ev) (x_pend ?b), x_polled := insert tfd (x_polled ?b)\<rparr>)"
    by (rule xa_added[OF y(2) fm(1) h(6) fm(2,3) w])
  let ?c = "?b\<lparr>x_pend := add_mset (tfd, ?ev) (x_pend ?b), x_polled := insert tfd (x_polled ?b)\<rparr>"
  have i: "ran_func_id (new_id a f) = f" "sr_ric_id (subs_request a f et ad) = new_id a f" "ric_req_id (new_id a f) = word_of_nat (x_next a)"
    by (simp_all add: new_id_def subs_request_def)
  have "xa_id y = x_num a" using xa_absD(7)[OF y(2)] b(5) by simp
  then have r: "report_sm_sync_xapp mal tfd x nid f d cb = Some (UI_ENTER (RETURN_HANDLE (word_of_nat (x_next a))), e2ap_send_bytes_xapp z ?m)"
    using y(1) xa_ric_plugin[OF y(2) f] q z(1)
    by (simp add: report_sm_sync_xapp_def send_subscription_request_def e2ap_handle_e42_ric_subscription_request_xapp_def i cp_global_e2_node_id_id)
  have "xa_abs (UI_ENTER (RETURN_HANDLE (word_of_nat (x_next a))), e2ap_send_bytes_xapp z ?m)
    (?c\<lparr>x_out := x_out ?c @ [?m], x_pc := UI_ENTER (RETURN_HANDLE (word_of_nat (x_next a)))\<rparr>)"
    by (rule xa_abs_plain(1)[OF xa_abs_plain(3)[OF z(2)]])
  then have "xa_abs (UI_ENTER (RETURN_HANDLE (word_of_nat (x_next a))), e2ap_send_bytes_xapp z ?m) (?b\<lparr>
      x_pc := UI_ENTER (RETURN_HANDLE (word_of_nat (x_next a))), x_polled := insert tfd (x_polled a),
      x_pend := add_mset (tfd, ?ev) (x_pend a), x_out := x_out a @ [?m]\<rparr>)"
    by (rule xa_abs_eq) (simp add: b)
  with r show ?thesis by blast
qed

lemma rm_report_step:
  assumes A: "xa_abs (UI_IDLE, x) a" and h: "(h, v) \<in> set (x_procs a)"
  defines "sdr \<equiv> \<lparr>e42_sdr_xapp_id = x_num a, e42_sdr = \<lparr>sdr_ric_id = av_id v\<rparr>\<rparr>"
  shows "\<exists>x'. rm_report_sm_sync_xapp x (uint h) = Some (UI_PEND (sub_del_event sdr) (REMOVE_REPORT (ucast h)), x') \<and>
    xa_abs (UI_PEND (sub_del_event sdr) (REMOVE_REPORT (ucast h)), x')
      (a\<lparr>x_pc := UI_PEND (sub_del_event sdr) (REMOVE_REPORT (ucast h)), x_out := x_out a @ [e42_ric_sub_del_req sdr]\<rparr>)"
proof -
  note n = proc_number[OF A h]
  obtain y where y: "find_proc_xapp x h = Some (Some v, y)" "xa_abs (UI_IDLE, y) a" by (rule find_proc_rep[OF A n(1,2)]) (use n(3) in simp)
  have "int (unat h) < int 65536" using n(2) by (simp only: of_nat_less_iff)
  then have u1: "uint h < 65536" by simp
  have u2: "- 1 < uint h" using uint_ge_0[of h] by linarith
  have u3: "word_of_int (uint h) = (ucast h :: uint16)" by (simp only: ucast_eq)
  note u = u1 u2 u3
  have "xa_id y = x_num a" using xa_absD(7)[OF y(2)] .
  then have "rm_report_sm_sync_xapp x (uint h) = Some (UI_PEND (sub_del_event sdr) (REMOVE_REPORT (ucast h)), e2ap_send_bytes_xapp y (e42_ric_sub_del_req sdr))"
    using y(1) u by (simp add: rm_report_sm_sync_xapp_def sdr_def Let_def)
  moreover have "xa_abs (UI_PEND (sub_del_event sdr) (REMOVE_REPORT (ucast h)), e2ap_send_bytes_xapp y (e42_ric_sub_del_req sdr))
      (a\<lparr>x_out := x_out a @ [e42_ric_sub_del_req sdr], x_pc := UI_PEND (sub_del_event sdr) (REMOVE_REPORT (ucast h))\<rparr>)"
    by (rule xa_abs_plain(1)[OF xa_abs_plain(3)[OF y(2)]])
  then have "xa_abs (UI_PEND (sub_del_event sdr) (REMOVE_REPORT (ucast h)), e2ap_send_bytes_xapp y (e42_ric_sub_del_req sdr))
      (a\<lparr>x_pc := UI_PEND (sub_del_event sdr) (REMOVE_REPORT (ucast h)), x_out := x_out a @ [e42_ric_sub_del_req sdr]\<rparr>)"
    by (rule xa_abs_eq) simp
  ultimately show ?thesis by blast
qed

lemma control_step:
  fixes nid :: global_e2_node_id
  assumes A: "xa_abs (UI_IDLE, x) a"
    and h: "valid_ran_func_id f" "(f, sm) \<in> set (x_rics a)" "on_control_req sm d = Some (hdr, msg)" "length hdr < 2049" "length msg < 2049"
      "x_next a < 65536"
  defines "cr \<equiv> \<lparr>e42_cr_xapp_id = x_num a, e42_cr_id = nid, e42_ctrl_req = ctrl_request a f hdr msg\<rparr>"
  shows "\<exists>x'. control_sm_sync_xapp x nid f d = Some (UI_PEND (ctrl_event cr) (REMOVE_CONTROL (word_of_nat (x_next a))), x') \<and>
    xa_abs (UI_PEND (ctrl_event cr) (REMOVE_CONTROL (word_of_nat (x_next a))), x') ((with_proc a RIC_CONTROL_PROCEDURE_ACTIVE f nid 0)\<lparr>
      x_pc := UI_PEND (ctrl_event cr) (REMOVE_CONTROL (word_of_nat (x_next a))), x_out := x_out a @ [e42_ric_ctrl_req cr]\<rparr>)"
proof -
  let ?b = "with_proc a RIC_CONTROL_PROCEDURE_ACTIVE f nid 0"
  let ?pc = "UI_PEND (ctrl_event cr) (REMOVE_CONTROL (word_of_nat (x_next a)))"
  obtain y where y: "generate_ric_gen_id x RIC_CONTROL_PROCEDURE_ACTIVE f nid 0 = Some (new_id a f, y)" "xa_abs (UI_IDLE, y) ?b"
    by (rule new_proc_rep[OF A h(1,6)])
  have b: "x_out ?b = x_out a" "x_rics ?b = x_rics a" "x_num ?b = x_num a" by (simp_all add: with_proc_def)
  have f: "(f, sm) \<in> set (x_rics ?b)" using h(2) b(2) by simp
  have i: "ran_func_id (new_id a f) = f" "ric_req_id (new_id a f) = word_of_nat (x_next a)" by (simp_all add: new_id_def)
  have "unat (ucast (word_of_nat (x_next a) :: uint32) :: uint16) = unat (word_of_nat (x_next a) :: uint16)"
    using h(6) by (simp add: unsigned_ucast_eq unsigned_take_bit_eq unat_of_nat take_bit_eq_mod)
  then have u: "ucast (word_of_nat (x_next a) :: uint32) = (word_of_nat (x_next a) :: uint16)" by (simp add: word_unat_eq_iff)
  have "xa_id y = x_num a" using xa_absD(7)[OF y(2)] b(3) by simp
  then have "control_sm_sync_xapp x nid f d = Some (?pc, e2ap_send_bytes_xapp y (e42_ric_ctrl_req cr))"
    using h(1,3-5) y(1) xa_ric_plugin[OF y(2) f]
    by (simp add: control_sm_sync_xapp_def generate_ric_control_request_def i u cr_def ctrl_request_def cp_global_e2_node_id_id Let_def)
  moreover have "xa_abs (?pc, e2ap_send_bytes_xapp y (e42_ric_ctrl_req cr)) (?b\<lparr>x_out := x_out ?b @ [e42_ric_ctrl_req cr], x_pc := ?pc\<rparr>)"
    by (rule xa_abs_plain(1)[OF xa_abs_plain(3)[OF y(2)]])
  then have "xa_abs (?pc, e2ap_send_bytes_xapp y (e42_ric_ctrl_req cr)) (?b\<lparr>x_pc := ?pc, x_out := x_out a @ [e42_ric_ctrl_req cr]\<rparr>)"
    by (rule xa_abs_eq) (simp add: b)
  ultimately show ?thesis by blast
qed

lemma indication_step:
  assumes A: "xa_abs (pc, x) a" and h: "(ran_func_id (ind_ric_id m), sm) \<in> set (x_rics a)" "ind_call_process_id m = None"
    "on_indication sm (ind_hdr m) (ind_msg m) None = Some rd" "ind_type_xapp (rd_type rd)"
  shows "(ric_req_id (ind_ric_id m), v) \<in> set (x_procs a) \<Longrightarrow> \<exists>s'. xapp_step mal tfd (pc, x) (LOOP (x_ep a) (ric_ind m)) (Some s') \<and>
      xa_abs s' (a\<lparr>x_rows := x_rows a @ [(av_e2_node v, rd)], x_queue := x_queue a @ [(rd, av_sm_cb v)]\<rparr>)"
    and "ric_req_id (ind_ric_id m) \<notin> fst ` set (x_procs a) \<Longrightarrow> 0 < ric_req_id (ind_ric_id m) \<Longrightarrow> unat (ric_req_id (ind_ric_id m)) < 65536 \<Longrightarrow>
      \<exists>s'. xapp_step mal tfd (pc, x) (LOOP (x_ep a) (ric_ind m)) (Some s') \<and> xa_abs s' a"
proof -
  have sm: "sm_plugin_ric_xapp x (ran_func_id (ind_ric_id m)) = Some sm" by (rule xa_ric_plugin[OF A h(1)])
  have pl: "ind_sm_payload m = Some (ind_hdr m, ind_msg m, None)" using h(2) by (simp add: ind_sm_payload_def)
  show "\<exists>s'. xapp_step mal tfd (pc, x) (LOOP (x_ep a) (ric_ind m)) (Some s') \<and>
      xa_abs s' (a\<lparr>x_rows := x_rows a @ [(av_e2_node v, rd)], x_queue := x_queue a @ [(rd, av_sm_cb v)]\<rparr>)"
    if k: "(ric_req_id (ind_ric_id m), v) \<in> set (x_procs a)"
  proof -
    note n = proc_number[OF A k]
    obtain y where y: "find_proc_xapp x (ric_req_id (ind_ric_id m)) = Some (Some v, y)" "xa_abs (pc, y) a"
      by (rule find_proc_rep[OF A n(1,2)]) (use n(3) in simp)
    let ?z = "y\<lparr>xa_db := xa_db y @ [(av_e2_node v, rd)]\<rparr>"
    have e: "xa_db y = x_rows a" "xa_disp y = x_queue a" using xa_absD(11,14)[OF y(2)] by simp_all
    have z: "xa_abs (pc, ?z) (a\<lparr>x_rows := x_rows a @ [(av_e2_node v, rd)]\<rparr>)" using xa_abs_plain(5)[OF y(2)] e by simp
    have "xa_abs (pc, send_msg_dispatcher ?z rd (av_sm_cb v)) (a\<lparr>x_rows := x_rows a @ [(av_e2_node v, rd)], x_queue := x_queue a @ [(rd, av_sm_cb v)]\<rparr>)"
      using xa_abs_plain(4)[OF z] e by (simp add: send_msg_dispatcher_def)
    from message_step[OF A _ this] show ?thesis
      using sm pl h(3,4) y(1) by (simp add: xapp_handle_defs e2ap_handle_indication_xapp_def)
  qed
  show "\<exists>s'. xapp_step mal tfd (pc, x) (LOOP (x_ep a) (ric_ind m)) (Some s') \<and> xa_abs s' a"
    if k: "ric_req_id (ind_ric_id m) \<notin> fst ` set (x_procs a)" "0 < ric_req_id (ind_ric_id m)" "unat (ric_req_id (ind_ric_id m)) < 65536"
  proof -
    have "map_of (x_procs a) (ric_req_id (ind_ric_id m)) = None" using k(1) by (simp add: map_of_eq_None_iff)
    then obtain y where y: "find_proc_xapp x (ric_req_id (ind_ric_id m)) = Some (None, y)" "xa_abs (pc, y) a"
      using find_proc_rep[OF A k(2,3)] by metis
    from message_step[OF A _ y(2)] show ?thesis
      using sm pl h(3,4) y(1) by (simp add: xapp_handle_defs e2ap_handle_indication_xapp_def)
  qed
qed


text \<open>The nodes of the answer to a setup.\<close>
lemma add_nodes_rep:
  assumes "reg_rep n es" "\<forall>c \<in> set cs. has_cu_du_id (nc_id c) \<and> nc_ack_rf c \<noteq> [] \<and> unat (nc_len_cca c) = length (nc_cca c) \<and>
       ok_pair \<lparr>pr_ran_func = nc_ack_rf c, pr_comp_conf_add = nc_cca c\<rparr>" "sorted_wrt (\<lambda>c d. \<not> eq_node (nc_id d) (nc_id c)) cs"
    "\<forall>c \<in> set cs. \<forall>(k, p) \<in># mset (map snd es). \<not> eq_node (nc_id c) k" "ok_mal mal" "\<forall>j \<ge> i. heap (node_to_rf n) (mal j) = None"
  shows "\<exists>n' es'. add_nodes_xapp mal i n cs = Some n' \<and> reg_rep n' es' \<and> mset (map snd es') = mset (map snd es) + mset (map node_pair cs)"
  using assms
proof (induction cs arbitrary: i n es)
  case (Cons c cs)
  have c: "has_cu_du_id (nc_id c)" "nc_ack_rf c \<noteq> []" "unat (nc_len_cca c) = length (nc_cca c)"
    "ok_pair \<lparr>pr_ran_func = nc_ack_rf c, pr_comp_conf_add = nc_cca c\<rparr>" using Cons.prems(2) by simp_all
  have new: "\<forall>e \<in> set es. \<not> eq_node (nc_id c) (entry_key e)" using Cons.prems(4) by (fastforce simp: entry_key_def)
  have mal: "heap (node_to_rf n) (mal i) = None" "mal i \<noteq> 0" using Cons.prems(5,6) by (simp_all add: ok_mal_def)
  let ?es = "ins_entry order_e2_node (mal i, nc_id c, \<lparr>pr_ran_func = nc_ack_rf c, pr_comp_conf_add = nc_cca c\<rparr>) es"
  obtain n' where n': "add_reg_e2_node (mal i) n (nc_id c) (nc_ack_rf c) (nc_cca c) = Some n'" "reg_rep n' ?es"
    "\<forall>b. heap (node_to_rf n) b = None \<longrightarrow> b \<noteq> mal i \<longrightarrow> heap (node_to_rf n') b = None"
    by (rule add_reg_e2_node_heap[OF Cons.prems(1) c(1) mal c(2,4) new])
  have ms: "mset (map snd ?es) = add_mset (node_pair c) (mset (map snd es))" by (simp only: e2_node.mset_ins) (simp add: node_pair_def)
  have sw: "sorted_wrt (\<lambda>c d. \<not> eq_node (nc_id d) (nc_id c)) cs" using Cons.prems(3) by simp
  have new': "\<forall>d \<in> set cs. \<forall>(k, p) \<in># mset (map snd ?es). \<not> eq_node (nc_id d) k"
    using Cons.prems(3,4) unfolding ms by (auto simp: node_pair_def)
  have "\<forall>j \<ge> Suc i. heap (node_to_rf n') (mal j) = None"
  proof (intro allI impI)
    fix j assume "Suc i \<le> j"
    moreover have "mal j \<noteq> mal i" if "j \<noteq> i" using Cons.prems(5) that by (auto simp: ok_mal_def inj_eq)
    ultimately show "heap (node_to_rf n') (mal j) = None" using n'(3) Cons.prems(6) by simp
  qed
  from Cons.IH[OF n'(2) _ sw new' Cons.prems(5) this] Cons.prems(2) obtain n'' es'' where
    "add_nodes_xapp mal (Suc i) n' cs = Some n''" "reg_rep n'' es''" "mset (map snd es'') = mset (map snd ?es) + mset (map node_pair cs)"
    by auto
  then show ?case using n'(1) c(3) unfolding ms by auto
qed auto

lemma set_up_step:
  assumes A: "xa_abs (pc, x) a" and mal: "xa_fresh mal x"
    and h: "\<not> x_up a" "(fd, ev) \<in># x_pend a" "px_ev ev = E42_SETUP_REQUEST_PENDING_EVENT" "new_nodes a (stx_nodes m)"
      "unat (stx_len_e2_nodes_conn m) = length (stx_nodes m)"
  shows "\<exists>s'. xapp_step mal tfd (pc, x) (LOOP (x_ep a) (e42_stp_resp m)) (Some s') \<and> xa_abs s' (a\<lparr>x_up := True, x_num := stx_xapp_id m,
    x_nodes := x_nodes a + mset (map node_pair (stx_nodes m)), x_pend := x_pend a - {#(fd, ev)#}, x_polled := x_polled a - {fd}\<rparr>)"
proof -
  note d = xa_absD[OF A]
  let ?N = "x_nodes a + mset (map node_pair (stx_nodes m))"
  obtain es where es: "reg_rep (xa_e2_nodes x) es" "mset (map snd es) = x_nodes a" using d(2) by (auto simp: xa_rep_def)
  have hp: "\<forall>j \<ge> 0. heap (node_to_rf (xa_e2_nodes x)) (mal j) = None" "ok_mal mal" using mal by (simp_all add: xa_fresh_def)
  have "\<exists>n es'. add_nodes_xapp mal 0 (xa_e2_nodes x) (stx_nodes m) = Some n \<and> reg_rep n es' \<and>
      mset (map snd es') = mset (map snd es) + mset (map node_pair (stx_nodes m))"
    by (rule add_nodes_rep[OF es(1) _ _ _ hp(2,1)]) (use h(4) in \<open>auto simp only: new_nodes_def es(2)\<close>)
  then obtain n es' where n: "add_nodes_xapp mal 0 (xa_e2_nodes x) (stx_nodes m) = Some n" "reg_rep n es'" "mset (map snd es') = ?N"
    unfolding es(2) by blast
  let ?y = "x\<lparr>xa_id := stx_xapp_id m, xa_e2_nodes := n\<rparr>"
  have "xa_rep ?y (x_pend a) (x_ags a) (x_rics a) ?N" using d(2) n(2,3) unfolding xa_rep_def by (simp del: mset_map) blast
  then have y: "xa_abs (pc, ?y) (a\<lparr>x_num := stx_xapp_id m, x_nodes := ?N\<rparr>)" using A by (simp add: xa_abs_def)
  have p: "(fd, ev) \<in># x_pend (a\<lparr>x_num := stx_xapp_id m, x_nodes := ?N\<rparr>)" using h(2) by simp
  let ?e = "\<lparr>px_ev = E42_SETUP_REQUEST_PENDING_EVENT, px_id = \<lparr>ric_req_id = 0, ric_inst_id = 0, ran_func_id = 0\<rparr>, px_wait_ms = 0\<rparr>"
  have e: "px_ev ?e = px_ev ev" using h(3) by simp
  let ?b = "a\<lparr>x_num := stx_xapp_id m, x_nodes := ?N\<rparr>"
  obtain z where z: "rm_pending_event_xapp ?y ?e = Some z"
    "xa_abs (pc, z) (?b\<lparr>x_pend := x_pend ?b - {#(fd, ev)#}, x_polled := x_polled ?b - {fd}\<rparr>)" by (rule xa_removed[OF y p e])
  have "e2ap_msg_handle_xapp mal tfd x (e42_stp_resp m) = Some (no_msg, z\<lparr>xa_connected := True\<rparr>)"
    using h(1,5) d(12) n(1) z(1) by (simp add: xapp_handle_defs e2ap_handle_e42_setup_response_xapp_def Let_def)
  from message_step[OF A this xa_abs_plain(8)[OF z(2)]] obtain s' where
    s': "xapp_step mal tfd (pc, x) (LOOP (x_ep a) (e42_stp_resp m)) (Some s')"
    "xa_abs s' (?b\<lparr>x_pend := x_pend ?b - {#(fd, ev)#}, x_polled := x_polled ?b - {fd}, x_up := True\<rparr>)" by blast
  have "xa_abs s' (a\<lparr>x_up := True, x_num := stx_xapp_id m, x_nodes := ?N, x_pend := x_pend a - {#(fd, ev)#}, x_polled := x_polled a - {fd}\<rparr>)"
    by (rule xa_abs_eq[OF s'(2)]) simp
  with s'(1) show ?thesis by blast
qed

lemma set_up_again_step:
  assumes A: "xa_abs (pc, x) a" and h: "(fd, ev) \<in># x_pend a" "px_ev ev = E42_SETUP_REQUEST_PENDING_EVENT"
  shows "\<exists>s'. xapp_step mal tfd (pc, x) (LOOP fd m) (Some s') \<and>
    xa_abs s' (a\<lparr>x_out := x_out a @ [e42_stp_req \<lparr>e42_ran_func_item = map (\<lambda>(k, sm). offered sm) (x_ags a)\<rparr>]\<rparr>)"
proof -
  note d = xa_absD[OF A]
  note t = loop_timer[OF d(2,3) h(1)]
  have "generate_e42_setup_request x = Some \<lparr>e42_ran_func_item = map (\<lambda>(k, sm). offered sm) (x_ags a)\<rparr>"
    by (rule generate_e42_setup_request_rep[where rs = "x_rics a"]) (use d(2,4) in \<open>simp_all add: xa_rep_def xa_sane_def\<close>)
  then have "e2_event_loop_xapp mal tfd x fd m = Some (e2ap_send_bytes_xapp x (e42_stp_req \<lparr>e42_ran_func_item = map (\<lambda>(k, sm). offered sm) (x_ags a)\<rparr>))"
    using t h(2) by (simp add: e2_event_loop_xapp_def consume_fd_xapp_def)
  then show ?thesis using xa_abs_plain(3)[OF A] by simp
qed

lemma wake_up_step:
  assumes A: "xa_abs (UI_BLOCKED rest, x) a" and h: "x_flags a = \<lparr>flag_sync = True, msg_ack = True\<rparr>"
    "case number_of rest of None \<Rightarrow> True | Some h \<Rightarrow> ucast h \<in> fst ` set (x_procs a)"
  shows "\<exists>s'. xapp_step mal tfd (UI_BLOCKED rest, x) WAKE_UP (Some s') \<and> xa_abs s' (a\<lparr>x_pc := UI_IDLE,
      x_procs := (case number_of rest of None \<Rightarrow> x_procs a | Some h \<Rightarrow> filter (\<lambda>e. fst e \<noteq> ucast h) (x_procs a))\<rparr>)"
proof -
  note d = xa_absD[OF A]
  note i = xa_invD[OF d(3)]
  have fl: "flag_sync (xa_sync x)" "msg_ack (xa_sync x)" using d(8) h(1) by simp_all
  show ?thesis
  proof (cases "number_of rest")
    case None
    then have "after_wait x rest = Some x" by (simp add: after_wait_def number_of_def split: ui_rest.splits)
    then have "wait_over x rest False = Some (UI_IDLE, x)" using fl by (simp add: wait_over_def cond_wait_sync_ui_leave_def)
    then show ?thesis using None fl xa_abs_plain(1)[OF A, of UI_IDLE] by simp
  next
    case (Some k)
    have k: "(ucast k :: uint32) \<in> fst ` set (procedures (xa_act_proc x))" using h(2) Some d(9) by simp
    have u: "ucast (ucast k :: uint32) = k" by (rule word_unat_eq_iff[THEN iffD2])
      (use unsigned_less[of k, where ?'a = nat] in \<open>simp add: unsigned_ucast_eq unsigned_take_bit_eq take_bit_nat_eq_self_iff\<close>)
    obtain p where p: "rm_act_proc (xa_act_proc x) k = Some p" "act_proc_ok p" "rg_key_id p = rg_key_id (xa_act_proc x)"
      "procedures p = filter (\<lambda>e. fst e \<noteq> ucast k) (procedures (xa_act_proc x))"
      using procs.deleting_law[OF i(1,3) k] unfolding u by blast
    have "after_wait x rest = Some (x\<lparr>xa_act_proc := p\<rparr>)" using Some p(1) by (simp add: after_wait_def number_of_def split: ui_rest.splits)
    then have w: "wait_over x rest False = Some (UI_IDLE, x\<lparr>xa_act_proc := p\<rparr>)" using fl by (simp add: wait_over_def cond_wait_sync_ui_leave_def)
    have "0 < rg_key_id p" "rg_key_id p \<le> 65536" using p(3) i by simp_all
    from xa_abs_plain(1)[OF xa_abs_procs[OF A p(2) this], of UI_IDLE] p(3,4) d(9,10)
    have "xa_abs (UI_IDLE, x\<lparr>xa_act_proc := p\<rparr>) (a\<lparr>x_procs := filter (\<lambda>e. fst e \<noteq> ucast k) (x_procs a), x_next := x_next a, x_pc := UI_IDLE\<rparr>)" by simp
    then have "xa_abs (UI_IDLE, x\<lparr>xa_act_proc := p\<rparr>) (a\<lparr>x_pc := UI_IDLE, x_procs := filter (\<lambda>e. fst e \<noteq> ucast k) (x_procs a)\<rparr>)"
      by (rule xa_abs_eq) simp
    then show ?thesis using Some fl w by simp
  qed
qed

text \<open>Every step of the specification is one of the code, and the only outcome there is.\<close>
lemma xapp_step_ok:
  assumes step: "xstep tfd a i a'" and A: "xa_abs (pc, x) a" and mal: "xa_fresh mal x"
  shows "\<exists>s'. xapp_step mal tfd (pc, x) i (Some s') \<and> xa_abs s' a'"
proof -
  note d = xa_absD[OF A]
  from step show ?thesis
  proof (cases rule: xstep.cases)
    case (report f sm d et ad nid cb)
    have "pc = UI_IDLE" using report(3) d(1) by simp
    then show ?thesis using report_step[of x a mal f sm d et ad tfd nid cb] A mal report by fastforce
  next
    case (rm_report h v sdr)
    have "pc = UI_IDLE" using rm_report(3) d(1) by simp
    then show ?thesis using rm_report_step[of x a h v] A rm_report by fastforce
  next
    case (control f sm d hdr msg cr nid)
    have "pc = UI_IDLE" using control(3) d(1) by simp
    then show ?thesis using control_step[of x a f sm d hdr msg nid] A control by fastforce
  next
    case (register ev rest)
    have pc: "pc = UI_PEND ev rest" using register(3) d(1) by simp
    obtain y where y: "add_pending_event_xapp mal tfd x ev = Some y"
      "xa_abs (pc, y) (a\<lparr>x_pend := add_mset (tfd, ev) (x_pend a), x_polled := insert tfd (x_polled a)\<rparr>)"
      by (rule xa_added[OF A mal register(5,6,7,4)])
    have "xa_abs (UI_ENTER rest, y) a'" unfolding register(2) by (rule xa_abs_eq[OF xa_abs_plain(1)[OF y(2)]]) simp
    then show ?thesis using y(1) pc register(1) by simp
  next
    case (wait rest)
    have pc: "pc = UI_ENTER rest" using wait(3) d(1) by simp
    have c: "cond_wait_sync_ui_enter (xa_sync x) = \<lparr>flag_sync = False, msg_ack = False\<rparr>" by (cases "xa_sync x") (simp add: cond_wait_sync_ui_enter_def)
    have "xa_abs (UI_BLOCKED rest, x\<lparr>xa_sync := cond_wait_sync_ui_enter (xa_sync x)\<rparr>) a'" unfolding wait(2) c
      by (rule xa_abs_eq[OF xa_abs_plain(1)[OF xa_abs_plain(2)[OF A]]]) simp
    then show ?thesis using pc wait(1) by simp
  next
    case (subscribed m v fd ev)
    then show ?thesis using xapp_answers(1)[OF A subscribed(4,3,5)] by simp
  next
    case (unsubscribed m v fd ev)
    then show ?thesis using xapp_answers(2)[OF A unsubscribed(4,3,5)] by simp
  next
    case (controlled m v fd ev)
    then show ?thesis using xapp_answers(3)[OF A controlled(4,3,5)] by simp
  next
    case (indication m sm rd v)
    then show ?thesis using indication_step(1)[OF A indication(3-7)] by simp
  next
    case (late_indication m sm rd)
    then show ?thesis using indication_step(2)[OF A late_indication(3-9)] by simp
  next
    case (set_up fd ev m)
    then show ?thesis using set_up_step[OF A mal set_up(3-7)] by simp
  next
    case (set_up_already m)
    have "e2ap_msg_handle_xapp mal tfd x (e42_stp_resp m) = Some (no_msg, x)"
      using set_up_already(3) d(12) by (simp add: xapp_handle_defs e2ap_handle_e42_setup_response_xapp_def)
    from message_step[OF A this A] show ?thesis using set_up_already by simp
  next
    case (set_up_again fd ev m)
    then show ?thesis using set_up_again_step[OF A set_up_again(3,4)] by simp
  next
    case (nothing m)
    then show ?thesis using A by (simp add: e2_event_loop_xapp_def)
  next
    case (dispatch rd cb q)
    have q: "xa_disp x = (rd, cb) # q" "xa_called x = x_calls a" using d(11,15) dispatch(3) by simp_all
    have "xa_abs (pc, x\<lparr>xa_disp := q, xa_called := x_calls a @ [(cb, rd)]\<rparr>) a'" unfolding dispatch(2)
      by (rule xa_abs_plain(6)[OF xa_abs_plain(4)[OF A]])
    then show ?thesis using q dispatch(1,4) by (simp add: worker_thread_def)
  next
    case (wake_up rest)
    then have pc: "pc = UI_BLOCKED rest" using d(1) by simp
    show ?thesis using wake_up_step[of rest x a] A pc wake_up by simp
  qed
qed

end
