(* ===== verification/Xapp_Props.thy ===== *)
theory Xapp_Props
  imports Xapp_Spec Agent_Props
begin

text \<open>
  What the xApp promises and where it fails: runs of its threads, a session of a caller, the answers that come at the
  wrong moment, and the limits of its tables.
\<close>

section \<open>Runs\<close>

text \<open>Whatever fresh memory the program is given, each step can be taken, has this one outcome, and in the end \<open>Q\<close> holds.  With each
  step comes the descriptor that a new timer would get.\<close>
fun xserves :: "(int \<times> xapp_in) list \<Rightarrow> (ui_pc \<times> e42_xapp \<Rightarrow> bool) \<Rightarrow> ui_pc \<times> e42_xapp \<Rightarrow> bool" where
  "xserves [] Q s = Q s"
| "xserves ((tfd, i) # is) Q s = (\<forall>mal. xa_fresh mal (snd s) \<longrightarrow>
     (\<exists>s'. (\<forall>r. xapp_step mal tfd s i r \<longleftrightarrow> r = Some s') \<and> xserves is Q s'))"

inductive xrun :: "axapp \<Rightarrow> (int \<times> xapp_in) list \<Rightarrow> axapp \<Rightarrow> bool" where
  xrun_nil: "xrun a [] a"
| xrun_cons: "xstep tfd a i b \<Longrightarrow> xrun b is c \<Longrightarrow> xrun a ((tfd, i) # is) c"

lemma xrun_append: "xrun a is b \<Longrightarrow> xrun b js c \<Longrightarrow> xrun a (is @ js) c"
  by (induction rule: xrun.induct) (auto intro: xrun_cons)

lemma xserves_mono: "xserves is P s \<Longrightarrow> (\<And>s. P s \<Longrightarrow> Q s) \<Longrightarrow> xserves is Q s"
proof (induction "is" arbitrary: s)
  case (Cons x xs)
  obtain tfd i where x: "x = (tfd, i)" by (cases x)
  show ?case using Cons.prems Cons.IH unfolding x xserves.simps by blast
qed simp

lemma xrun_serves: "xrun a is b \<Longrightarrow> xa_abs s a \<Longrightarrow> xserves is (\<lambda>s'. xa_abs s' b) s"
proof (induction a "is" b arbitrary: s rule: xrun.induct)
  case (xrun_cons tfd a i b "is" c)
  show ?case unfolding xserves.simps
  proof (intro allI impI)
    fix mal assume m: "xa_fresh mal (snd s)"
    have "\<exists>s'. xapp_step mal tfd (fst s, snd s) i (Some s') \<and> xa_abs s' b"
      by (rule xapp_step_ok[OF xrun_cons.hyps(1) _ m]) (simp add: xrun_cons.prems)
    then obtain s' where s': "xapp_step mal tfd s i (Some s')" "xa_abs s' b" by auto
    then have "\<forall>r. xapp_step mal tfd s i r \<longleftrightarrow> r = Some s'" using xapp_step_det by blast
    then show "\<exists>s'. (\<forall>r. xapp_step mal tfd s i r \<longleftrightarrow> r = Some s') \<and> xserves is (\<lambda>s'. xa_abs s' c) s'"
      using xrun_cons.IH[OF s'(2)] by blast
  qed
qed simp

section \<open>Start\<close>

definition setup_event :: pending_event_xapp where
  "setup_event = \<lparr>px_ev = E42_SETUP_REQUEST_PENDING_EVENT, px_id = \<lparr>ric_req_id = 0, ric_inst_id = 0, ran_func_id = 0\<rparr>, px_wait_ms = 1000\<rparr>"

text \<open>The xApp that waits for the answer to its setup.\<close>
definition x_started :: "(uint16 \<times> sm_agent) list \<Rightarrow> (uint16 \<times> sm_ric) list \<Rightarrow> int \<Rightarrow> int \<Rightarrow> axapp" where
  "x_started ags rics ep tfd = \<lparr>x_pc = UI_IDLE, x_ep = ep, x_polled = {tfd, ep}, x_ags = ags, x_rics = rics, x_nodes = {#}, x_num = 0,
     x_flags = \<lparr>flag_sync = False, msg_ack = False\<rparr>, x_procs = [], x_next = 1, x_pend = {#(tfd, setup_event)#}, x_queue = [], x_up = False,
     x_out = [e42_stp_req \<lparr>e42_ran_func_item = map (\<lambda>(k, sm). offered sm) ags\<rparr>], x_rows = [], x_calls = []\<rparr>"

definition x_initial :: "(uint16 \<times> sm_agent) list \<Rightarrow> (uint16 \<times> sm_ric) list \<Rightarrow> int \<Rightarrow> axapp" where
  "x_initial ags rics ep = \<lparr>x_pc = UI_IDLE, x_ep = ep, x_polled = {ep}, x_ags = ags, x_rics = rics, x_nodes = {#}, x_num = 0,
     x_flags = \<lparr>flag_sync = False, msg_ack = False\<rparr>, x_procs = [], x_next = 1, x_pend = {#}, x_queue = [], x_up = False,
     x_out = [], x_rows = [], x_calls = []\<rparr>"

definition plugins_ok :: "(uint16 \<times> sm_agent) list \<Rightarrow> (uint16 \<times> sm_ric) list \<Rightarrow> bool" where
  "plugins_ok ags rics \<longleftrightarrow> ags \<noteq> [] \<and> length rics = length ags \<and> (\<forall>(k, sm) \<in> set ags. sma_id sm = k) \<and>
     (\<forall>(k, sm) \<in> set rics. 0 < k \<and> sm_ran_func_id sm = k)"

lemma xapp_initial:
  assumes "tree_rep agt ags" "tree_rep rict rics" "plugins_ok ags rics" "0 < ep" "ok_mal m1"
  obtains x where "init_e42_xapp m1 ep agt rict = Some x" "xa_abs (UI_IDLE, x) (x_initial ags rics ep)"
proof -
  have nz: "m1 i \<noteq> 0" for i using assms(5) by (simp add: ok_mal_def)
  obtain p where p: "init_pending_events_xapp (m1 1) (m1 2) = Some p" "px_rep p {#}" using px_init[OF nz nz] by blast
  obtain t where t: "assoc_rb_tree_init (m1 0) 32 cmp_global_e2_node_id True = Some t" "node_tree_rep t []" by (rule node_tree_init[OF nz[of 0]]) blast
  let ?x = "\<lparr>xa_ep_fd = ep, xa_io = {ep}, xa_plugin_ag = agt, xa_plugin_ric = rict, xa_e2_nodes = \<lparr>node_to_rf = t\<rparr>, xa_id = 0,
       xa_sync = init_sync_ui, xa_act_proc = init_act_proc, xa_pending = p, xa_disp = [], xa_connected = False,
       xa_stop_token = False, xa_sent = [], xa_db = [], xa_called = []\<rparr>"
  have "init_e42_xapp m1 ep agt rict = Some ?x"
    using assms(4) p(1) t(1) by (simp add: init_e42_xapp_def add_fd_asio_xapp_def init_reg_e2_node_def)
  moreover have "xa_rep ?x {#} ags rics {#}" using p(2) t(2) assms(1,2) by (auto simp: xa_rep_def reg_rep_def)
  moreover have "xa_inv ?x {#}" using assms(4) by (simp add: xa_inv_def act_proc_ok_def init_act_proc_def reg_init_spec)
  moreover have "procedures init_act_proc = []" "rg_key_id init_act_proc = 1" by (simp_all add: procedures_def init_act_proc_def reg_init_spec)
  ultimately show thesis using that[of ?x] assms(3)
    by (simp add: xa_abs_def x_initial_def xa_sane_def plugins_ok_def init_sync_ui_def)
qed

lemma xapp_start:
  assumes A: "xa_abs (UI_IDLE, x) (x_initial ags rics ep)" and mal: "xa_fresh mal x" and t: "0 < tfd" "tfd \<noteq> ep"
  obtains y where "start_e42_xapp mal tfd x = Some y" "xa_abs (UI_IDLE, y) (x_started ags rics ep tfd)"
proof -
  let ?a = "x_initial ags rics ep" and ?m = "e42_stp_req \<lparr>e42_ran_func_item = map (\<lambda>(k, sm). offered sm) ags\<rparr>"
  note d = xa_absD[OF A]
  have s: "ags \<noteq> []" "length rics = length ags" "\<forall>(k, sm) \<in> set ags. sma_id sm = k" using d(4) by (simp_all add: xa_sane_def x_initial_def)
  have g: "generate_e42_setup_request x = Some \<lparr>e42_ran_func_item = map (\<lambda>(k, sm). offered sm) ags\<rparr>"
    by (rule generate_e42_setup_request_rep[where rs = rics]) (use d(2) s in \<open>simp_all add: xa_rep_def x_initial_def\<close>)
  have f: "xa_fresh mal (e2ap_send_bytes_xapp x ?m)" using mal by (simp add: xa_fresh_def e2ap_send_bytes_xapp_def)
  let ?b = "?a\<lparr>x_out := x_out ?a @ [?m]\<rparr>"
  have h: "tfd \<notin> x_polled ?b" "none_of_kind (px_ev setup_event) (x_pend ?b)" "0 < px_wait_ms setup_event"
    using t by (simp_all add: x_initial_def none_of_kind_def setup_event_def)
  obtain y where y: "add_pending_event_xapp mal tfd (e2ap_send_bytes_xapp x ?m) setup_event = Some y"
    "xa_abs (UI_IDLE, y) (?b\<lparr>x_pend := add_mset (tfd, setup_event) (x_pend ?b), x_polled := insert tfd (x_polled ?b)\<rparr>)"
    by (rule xa_added[OF xa_abs_plain(3)[OF A] f t(1) h])
  have "xa_abs (UI_IDLE, y) (x_started ags rics ep tfd)" by (rule xa_abs_eq[OF y(2)]) (simp add: x_initial_def x_started_def)
  moreover have "start_e42_xapp mal tfd x = Some y"
    using g y(1) s(1) by (simp add: start_e42_xapp_def e2ap_handle_e42_setup_request_xapp_def setup_event_def)
  ultimately show thesis using that by blast
qed

text \<open>C14: The started xApp offers all its plug-ins, waits for the answer with a timer and represents the start of its
  specification.\<close>
theorem xapp_starts:
  assumes "tree_rep agt ags" "tree_rep rict rics" "plugins_ok ags rics" "0 < ep" "ok_mal m1" "0 < tfd" "tfd \<noteq> ep"
  shows "\<exists>x. init_e42_xapp m1 ep agt rict = Some x \<and> (\<forall>m2. xa_fresh m2 x \<longrightarrow>
    (\<exists>y. start_e42_xapp m2 tfd x = Some y \<and> xa_abs (UI_IDLE, y) (x_started ags rics ep tfd)))"
proof -
  obtain x where x: "init_e42_xapp m1 ep agt rict = Some x" "xa_abs (UI_IDLE, x) (x_initial ags rics ep)"
    by (rule xapp_initial[OF assms(1-5)])
  moreover have "\<exists>y. start_e42_xapp m2 tfd x = Some y \<and> xa_abs (UI_IDLE, y) (x_started ags rics ep tfd)" if "xa_fresh m2 x" for m2
    by (rule xapp_start[OF x(2) that assms(6,7)]) blast
  ultimately show ?thesis by blast
qed

section \<open>Refinement\<close>

text \<open>C13: The xApp implements its specification: every run of calls, registrations, waits, messages, timers and dispatches that it
  allows is served by the code without a failed assertion, in whatever fresh memory, and the state afterwards is that of the
  specification.\<close>
theorem xapp_refines:
  assumes "xrun a is b" "xa_abs s a"
  shows "xserves is (\<lambda>s'. xa_abs s' b) s"
  using xrun_serves[OF assms] .

section \<open>A session\<close>

record xsession =
  w_node :: global_e2_node_id
  w_rf :: uint16
  w_cmd :: byte_array
  w_cb :: sm_cb
  w_timers :: "int \<times> int"

definition xs_inputs :: "axapp \<Rightarrow> xsession \<Rightarrow> ric_subscription_response \<Rightarrow> ric_indication list \<Rightarrow> ric_subscription_delete_response \<Rightarrow>
    ric_indication \<Rightarrow> (int \<times> xapp_in) list" where
  "xs_inputs a w r ms dr late =
     [(fst (w_timers w), CALL (REPORT (w_node w) (w_rf w) (w_cmd w) (w_cb w))), (0, WAIT), (0, LOOP (x_ep a) (ric_sub_resp r)), (0, WAKE_UP)] @
     concat (map (\<lambda>m. [(0, LOOP (x_ep a) (ric_ind m)), (0, DISPATCH)]) ms) @
     [(0, CALL (RM_REPORT (int (x_next a)))), (snd (w_timers w), REGISTER), (0, WAIT), (0, LOOP (x_ep a) (ric_sub_del_resp dr)), (0, WAKE_UP),
      (0, LOOP (x_ep a) (ric_ind late))]"

text \<open>The indications of the session: they have its number and its RAN function, and the plug-in decodes them.\<close>
definition xs_ind :: "axapp \<Rightarrow> xsession \<Rightarrow> sm_ric \<Rightarrow> ric_indication \<Rightarrow> sm_ag_if_rd_ind \<Rightarrow> bool" where
  "xs_ind a w sm m rd \<longleftrightarrow> ric_req_id (ind_ric_id m) = word_of_nat (x_next a) \<and> ran_func_id (ind_ric_id m) = w_rf w \<and> ind_call_process_id m = None \<and>
     on_indication sm (ind_hdr m) (ind_msg m) None = Some rd \<and> ind_type_xapp (rd_type rd)"

definition xs_ready :: "axapp \<Rightarrow> xsession \<Rightarrow> sm_ric \<Rightarrow> byte_array \<times> byte_array option \<Rightarrow> bool" where
  "xs_ready a w sm e \<longleftrightarrow> x_pc a = UI_IDLE \<and> x_queue a = [] \<and> valid_ran_func_id (w_rf w) \<and> (w_rf w, sm) \<in> set (x_rics a) \<and>
     on_subscription sm (w_cmd w) = Some e \<and> (case snd e of None \<Rightarrow> 0 | Some b \<Rightarrow> length b) < 2048 \<and> 0 < x_next a \<and> x_next a < 65536 \<and> w_cb w \<noteq> 0 \<and>
     0 < fst (w_timers w) \<and> fst (w_timers w) \<notin> x_polled a \<and> 0 < snd (w_timers w) \<and> snd (w_timers w) \<notin> x_polled a \<and>
     none_of_kind E42_RIC_SUBSCRIPTION_REQUEST_PENDING_EVENT (x_pend a) \<and>
     none_of_kind E42_RIC_SUBSCRIPTION_DELETE_REQUEST_PENDING_EVENT (x_pend a)"

text \<open>The state after the subscription, after the indications and at the end.\<close>
definition xs_open :: "axapp \<Rightarrow> xsession \<Rightarrow> byte_array \<times> byte_array option \<Rightarrow> axapp" where
  "xs_open a w e = (with_proc a RIC_SUBSCRIPTION_PROCEDURE_ACTIVE (w_rf w) (w_node w) (w_cb w))\<lparr>x_flags := \<lparr>flag_sync = True, msg_ack = True\<rparr>,
     x_out := x_out a @ [e42_ric_sub_req \<lparr>e42_sr_xapp_id = x_num a, e42_sr_id = w_node w, e42_sr = subs_request a (w_rf w) (fst e) (snd e)\<rparr>]\<rparr>"

definition xs_fed :: "xsession \<Rightarrow> sm_ag_if_rd_ind list \<Rightarrow> axapp \<Rightarrow> axapp" where
  "xs_fed w rds b = b\<lparr>x_rows := x_rows b @ map (Pair (w_node w)) rds, x_calls := x_calls b @ map (Pair (w_cb w)) rds\<rparr>"

definition xs_closed :: "axapp \<Rightarrow> xsession \<Rightarrow> axapp \<Rightarrow> axapp" where
  "xs_closed a w b = b\<lparr>x_procs := x_procs a, x_out := x_out b @ [e42_ric_sub_del_req \<lparr>e42_sdr_xapp_id = x_num a,
     e42_sdr = \<lparr>sdr_ric_id = new_id a (w_rf w)\<rparr>\<rparr>]\<rparr>"


lemma next_number:
  assumes "xa_abs s a" "x_next a < 65536"
  shows "(word_of_nat (x_next a) :: uint32) \<notin> fst ` set (x_procs a)" "uint (word_of_nat (x_next a) :: uint32) = int (x_next a)"
    "unat (word_of_nat (x_next a) :: uint32) = x_next a" "ucast (ucast (word_of_nat (x_next a) :: uint32) :: uint16) = (word_of_nat (x_next a) :: uint32)"
proof -
  have A: "xa_abs (fst s, snd s) a" using assms(1) by simp
  note d = xa_absD[OF A]
  show "(word_of_nat (x_next a) :: uint32) \<notin> fst ` set (x_procs a)"
    using procs.unused_number[OF xa_invD(1)[OF d(3)]] d(9,10) assms(2) by simp
  show u: "unat (word_of_nat (x_next a) :: uint32) = x_next a" using assms(2) by (simp add: unat_of_nat)
  then show "uint (word_of_nat (x_next a) :: uint32) = int (x_next a)" by (simp only: uint_nat)
  show "ucast (ucast (word_of_nat (x_next a) :: uint32) :: uint16) = (word_of_nat (x_next a) :: uint32)"
    by (rule ucast_number) (simp only: u assms(2))
qed

text \<open>The caller waits for the answer to its subscription.\<close>
definition sub_event :: "axapp \<Rightarrow> xsession \<Rightarrow> pending_event_xapp" where
  "sub_event a w = \<lparr>px_ev = E42_RIC_SUBSCRIPTION_REQUEST_PENDING_EVENT, px_id = new_id a (w_rf w), px_wait_ms = 5000\<rparr>"

definition xs_asked :: "axapp \<Rightarrow> xsession \<Rightarrow> byte_array \<times> byte_array option \<Rightarrow> axapp" where
  "xs_asked a w e = (xs_open a w e)\<lparr>x_pc := UI_BLOCKED (RETURN_HANDLE (word_of_nat (x_next a))), x_flags := \<lparr>flag_sync = False, msg_ack = False\<rparr>,
     x_polled := insert (fst (w_timers w)) (x_polled a), x_pend := add_mset (fst (w_timers w), sub_event a w) (x_pend a)\<rparr>"

lemma xrun_ask:
  assumes "xs_ready a w sm e"
  shows "xrun a [(fst (w_timers w), CALL (REPORT (w_node w) (w_rf w) (w_cmd w) (w_cb w))), (0, WAIT)] (xs_asked a w e)"
proof -
  obtain et ad where e: "e = (et, ad)" by (cases e)
  let ?t = "fst (w_timers w)" and ?h = "RETURN_HANDLE (word_of_nat (x_next a))"
  let ?b = "(with_proc a RIC_SUBSCRIPTION_PROCEDURE_ACTIVE (w_rf w) (w_node w) (w_cb w))\<lparr>x_pc := UI_ENTER ?h, x_polled := insert ?t (x_polled a),
      x_pend := add_mset (?t, \<lparr>px_ev = E42_RIC_SUBSCRIPTION_REQUEST_PENDING_EVENT, px_id = new_id a (w_rf w), px_wait_ms = 5000\<rparr>) (x_pend a),
      x_out := x_out a @ [e42_ric_sub_req \<lparr>e42_sr_xapp_id = x_num a, e42_sr_id = w_node w, e42_sr = subs_request a (w_rf w) et ad\<rparr>]\<rparr>"
  let ?c = "?b\<lparr>x_pc := UI_BLOCKED ?h, x_flags := \<lparr>flag_sync = False, msg_ack = False\<rparr>\<rparr>"
  have 1: "xstep ?t a (CALL (REPORT (w_node w) (w_rf w) (w_cmd w) (w_cb w))) ?b"
    by (rule xstep.report[where sm = sm]) (use assms(1) in \<open>simp_all add: xs_ready_def e\<close>)
  have 2: "xstep 0 ?b WAIT ?c" by (rule xstep.wait) simp
  have q: "?c = xs_asked a w e" by (simp add: xs_asked_def xs_open_def with_proc_def sub_event_def e)
  show ?thesis using xrun_cons[OF 1 xrun_cons[OF 2[unfolded q] xrun_nil]] .
qed

lemma xrun_granted:
  assumes "xs_ready a w sm e" "ric_req_id (rs_ric_id r) = word_of_nat (x_next a)"
  shows "xrun (xs_asked a w e) [(0, LOOP (x_ep a) (ric_sub_resp r)), (0, WAKE_UP)] (xs_open a w e)"
proof -
  let ?c = "xs_asked a w e" and ?t = "fst (w_timers w)" and ?h = "RETURN_HANDLE (word_of_nat (x_next a))"
  let ?f = "answered ?c ?t (sub_event a w)"
  have v: "(ric_req_id (rs_ric_id r), \<lparr>av_type = RIC_SUBSCRIPTION_PROCEDURE_ACTIVE, av_id = new_id a (w_rf w), av_sm_cb = w_cb w, av_e2_node = w_node w\<rparr>)
      \<in> set (x_procs ?c)" using assms(2) by (simp add: xs_asked_def xs_open_def with_proc_def)
  have 1: "xstep 0 ?c (LOOP (x_ep ?c) (ric_sub_resp r)) ?f"
    by (rule xstep.subscribed[OF v]) (simp_all add: xs_asked_def sub_event_def)
  have p: "x_ep ?c = x_ep a" by (simp add: xs_asked_def xs_open_def with_proc_def)
  have 2: "xstep 0 ?f WAKE_UP (?f\<lparr>x_pc := UI_IDLE, x_procs :=
      (case number_of ?h of None \<Rightarrow> x_procs ?f | Some h \<Rightarrow> filter (\<lambda>e. fst e \<noteq> ucast h) (x_procs ?f))\<rparr>)"
    by (rule xstep.wake_up) (simp_all add: answered_def number_of_def xs_asked_def)
  have q: "\<dots> = xs_open a w e"
    using assms(1) by (simp add: xs_asked_def xs_open_def answered_def number_of_def with_proc_def xs_ready_def)
  show ?thesis using xrun_cons[OF 1[unfolded p] xrun_cons[OF 2[unfolded q] xrun_nil]] .
qed

lemma xrun_fed:
  assumes "list_all2 (xs_ind a w sm) ms rds" "x_queue b = []" "(w_rf w, sm) \<in> set (x_rics b)" "w_cb w \<noteq> 0"
    "(word_of_nat (x_next a), v) \<in> set (x_procs b)" "av_sm_cb v = w_cb w" "av_e2_node v = w_node w"
  shows "xrun b (concat (map (\<lambda>m. [(0, LOOP (x_ep b) (ric_ind m)), (0, DISPATCH)]) ms)) (xs_fed w rds b)"
  using assms
proof (induction ms rds arbitrary: b rule: list_all2_induct)
  case Nil
  have "xs_fed w [] b = b" by (simp add: xs_fed_def)
  then show ?case by (simp add: xrun_nil)
next
  case (Cons m ms rd rds)
  let ?c = "b\<lparr>x_rows := x_rows b @ [(av_e2_node v, rd)], x_queue := x_queue b @ [(rd, av_sm_cb v)]\<rparr>"
  let ?d = "?c\<lparr>x_queue := [], x_calls := x_calls ?c @ [(av_sm_cb v, rd)]\<rparr>"
  have 1: "xstep 0 b (LOOP (x_ep b) (ric_ind m)) ?c"
    by (rule xstep.indication[where sm = sm]) (use Cons.hyps(1) Cons.prems in \<open>simp_all add: xs_ind_def\<close>)
  have 2: "xstep 0 ?c DISPATCH ?d" by (rule xstep.dispatch) (use Cons.prems in simp_all)
  have 3: "xrun ?d (concat (map (\<lambda>m. [(0, LOOP (x_ep ?d) (ric_ind m)), (0, DISPATCH)]) ms)) (xs_fed w rds ?d)"
    by (rule Cons.IH) (use Cons.prems in simp_all)
  have e: "xs_fed w rds ?d = xs_fed w (rd # rds) b" using Cons.prems by (simp add: xs_fed_def)
  have p: "x_ep ?d = x_ep b" by simp
  show ?case using xrun_cons[OF 1 xrun_cons[OF 2 3[unfolded e p]]] by simp
qed

text \<open>The subscription of the session is open.\<close>
definition xs_listening :: "axapp \<Rightarrow> xsession \<Rightarrow> axapp \<Rightarrow> bool" where
  "xs_listening a w b \<longleftrightarrow> x_procs b = x_procs a @ [(word_of_nat (x_next a), \<lparr>av_type = RIC_SUBSCRIPTION_PROCEDURE_ACTIVE, av_id = new_id a (w_rf w),
       av_sm_cb = w_cb w, av_e2_node = w_node w\<rparr>)] \<and> x_pc b = UI_IDLE \<and> x_ep b = x_ep a \<and> x_polled b = x_polled a \<and> x_pend b = x_pend a \<and>
     x_rics b = x_rics a \<and> x_num b = x_num a \<and> x_flags b = \<lparr>flag_sync = True, msg_ack = True\<rparr> \<and> x_queue b = x_queue a"

lemma listening_open: "xs_ready a w sm e \<Longrightarrow> xs_listening a w (xs_open a w e)"
  by (simp add: xs_listening_def xs_open_def with_proc_def xs_ready_def)

lemma listening_fed: "xs_listening a w b \<Longrightarrow> xs_listening a w (xs_fed w rds b)"
  by (simp add: xs_listening_def xs_fed_def)

definition xs_sdr :: "axapp \<Rightarrow> xsession \<Rightarrow> e42_ric_subscription_delete_request" where
  "xs_sdr a w = \<lparr>e42_sdr_xapp_id = x_num a, e42_sdr = \<lparr>sdr_ric_id = new_id a (w_rf w)\<rparr>\<rparr>"

text \<open>The caller waits for the answer to the deletion.\<close>
definition xs_ending :: "axapp \<Rightarrow> xsession \<Rightarrow> axapp \<Rightarrow> axapp" where
  "xs_ending a w b = b\<lparr>x_pc := UI_BLOCKED (REMOVE_REPORT (ucast (word_of_nat (x_next a) :: uint32))), x_flags := \<lparr>flag_sync = False, msg_ack = False\<rparr>,
     x_polled := insert (snd (w_timers w)) (x_polled b), x_pend := add_mset (snd (w_timers w), sub_del_event (xs_sdr a w)) (x_pend b),
     x_out := x_out b @ [e42_ric_sub_del_req (xs_sdr a w)]\<rparr>"

lemma xrun_end:
  assumes A: "xa_abs s a" and r: "xs_ready a w sm e" and b: "xs_listening a w b"
  shows "xrun b [(0, CALL (RM_REPORT (int (x_next a)))), (snd (w_timers w), REGISTER), (0, WAIT)] (xs_ending a w b)"
proof -
  let ?n = "word_of_nat (x_next a) :: uint32" and ?u = "snd (w_timers w)"
  let ?v = "\<lparr>av_type = RIC_SUBSCRIPTION_PROCEDURE_ACTIVE, av_id = new_id a (w_rf w), av_sm_cb = w_cb w, av_e2_node = w_node w\<rparr>"
  have r': "x_next a < 65536" "0 < ?u" "?u \<notin> x_polled a" "none_of_kind E42_RIC_SUBSCRIPTION_DELETE_REQUEST_PENDING_EVENT (x_pend a)"
    using r by (simp_all add: xs_ready_def)
  note b' = b[unfolded xs_listening_def]
  let ?h = "REMOVE_REPORT (ucast ?n)" and ?ev = "sub_del_event (xs_sdr a w)"
  let ?c = "b\<lparr>x_pc := UI_PEND ?ev ?h, x_out := x_out b @ [e42_ric_sub_del_req (xs_sdr a w)]\<rparr>"
  let ?d = "?c\<lparr>x_pc := UI_ENTER ?h, x_polled := insert ?u (x_polled ?c), x_pend := add_mset (?u, ?ev) (x_pend ?c)\<rparr>"
  let ?e = "?d\<lparr>x_pc := UI_BLOCKED ?h, x_flags := \<lparr>flag_sync = False, msg_ack = False\<rparr>\<rparr>"
  have v: "x_pc b = UI_IDLE" "(?n, ?v) \<in> set (x_procs b)" "xs_sdr a w = \<lparr>e42_sdr_xapp_id = x_num b, e42_sdr = \<lparr>sdr_ric_id = av_id ?v\<rparr>\<rparr>"
    using b' by (simp_all add: xs_sdr_def)
  have 1: "xstep 0 b (CALL (RM_REPORT (uint ?n))) ?c" by (rule xstep.rm_report[OF v])
  have 2: "xstep ?u ?c REGISTER ?d" by (rule xstep.register) (use b' r' in \<open>simp_all add: sub_del_event_def\<close>)
  have 3: "xstep 0 ?d WAIT ?e" by (rule xstep.wait) simp
  have q: "?e = xs_ending a w b" by (simp add: xs_ending_def)
  show ?thesis using xrun_cons[OF 1[unfolded next_number(2)[OF A r'(1)]] xrun_cons[OF 2 xrun_cons[OF 3[unfolded q] xrun_nil]]] .
qed

lemma xrun_ended:
  assumes A: "xa_abs s a" and r: "xs_ready a w sm e" and b: "xs_listening a w b" and m: "ric_req_id (sdp_ric_id m) = word_of_nat (x_next a)"
  shows "xrun (xs_ending a w b) [(0, LOOP (x_ep a) (ric_sub_del_resp m)), (0, WAKE_UP)] (xs_closed a w b)"
proof -
  let ?n = "word_of_nat (x_next a) :: uint32" and ?u = "snd (w_timers w)" and ?e = "xs_ending a w b"
  let ?v = "\<lparr>av_type = RIC_SUBSCRIPTION_PROCEDURE_ACTIVE, av_id = new_id a (w_rf w), av_sm_cb = w_cb w, av_e2_node = w_node w\<rparr>"
  have r': "x_next a < 65536" "?u \<notin> x_polled a" using r by (simp_all add: xs_ready_def)
  note n = next_number[OF A r'(1)]
  note b' = b[unfolded xs_listening_def]
  let ?h = "REMOVE_REPORT (ucast ?n)" and ?f = "answered ?e ?u (sub_del_event (xs_sdr a w))"
  have v: "(ric_req_id (sdp_ric_id m), ?v) \<in> set (x_procs ?e)" using m b' by (simp add: xs_ending_def)
  have 1: "xstep 0 ?e (LOOP (x_ep ?e) (ric_sub_del_resp m)) ?f"
    by (rule xstep.unsubscribed[OF v]) (simp_all add: sub_del_event_def xs_ending_def)
  have p: "x_ep ?e = x_ep a" using b' by (simp add: xs_ending_def)
  let ?g = "?f\<lparr>x_pc := UI_IDLE, x_procs := (case number_of ?h of None \<Rightarrow> x_procs ?f | Some h \<Rightarrow> filter (\<lambda>e. fst e \<noteq> ucast h) (x_procs ?f))\<rparr>"
  have 2: "xstep 0 ?f WAKE_UP ?g" by (rule xstep.wake_up) (use b' n(4) in \<open>simp_all add: answered_def number_of_def xs_ending_def\<close>)
  have k: "filter (\<lambda>e. fst e \<noteq> ?n) (x_procs a) = x_procs a" by (rule filter_True) (use n(1) in force)
  have q: "?g = xs_closed a w b"
    using b' n(4) k r'(2) by (simp add: answered_def number_of_def xs_closed_def xs_ending_def xs_sdr_def)
  show ?thesis using xrun_cons[OF 1[unfolded p] xrun_cons[OF 2[unfolded q] xrun_nil]] .
qed

lemma xrun_late:
  assumes A: "xa_abs s a" and r: "xs_ready a w sm e" and b: "xs_listening a w b" and l: "xs_ind a w sm late rd"
  shows "xrun (xs_closed a w b) [(0, LOOP (x_ep a) (ric_ind late))] (xs_closed a w b)"
proof -
  have r': "0 < x_next a" "x_next a < 65536" "(w_rf w, sm) \<in> set (x_rics a)" using r by (simp_all add: xs_ready_def)
  note n = next_number[OF A r'(2)]
  have 1: "xstep 0 (xs_closed a w b) (LOOP (x_ep (xs_closed a w b)) (ric_ind late)) (xs_closed a w b)"
    by (rule xstep.late_indication[where sm = sm and rd = rd])
      (use l n(1,3) r' b in \<open>simp_all add: xs_ind_def xs_closed_def word_less_nat_alt xs_listening_def\<close>)
  have p: "x_ep (xs_closed a w b) = x_ep a" using b by (simp add: xs_closed_def xs_listening_def)
  show ?thesis using xrun_cons[OF 1[unfolded p] xrun_nil] .
qed

text \<open>A caller subscribes, reads and unsubscribes.  Whatever the interleaving with other callers was before: the subscription is
  requested with a new number, every indication is stored and handed to the callback in order, the caller returns from both calls,
  and afterwards the procedures and pending events are those from before and a late indication is dropped.\<close>
theorem xapp_session:
  assumes "xa_abs s a" "xs_ready a w sm e" "ric_req_id (rs_ric_id r) = word_of_nat (x_next a)" "ric_req_id (sdp_ric_id dr) = word_of_nat (x_next a)"
    "list_all2 (xs_ind a w sm) ms rds" "xs_ind a w sm late rd"
  shows "xserves (xs_inputs a w r ms dr late) (\<lambda>s'. xa_abs s' (xs_closed a w (xs_fed w rds (xs_open a w e)))) s"
proof -
  let ?b = "xs_open a w e" and ?c = "xs_fed w rds (xs_open a w e)"
  note o = listening_open[OF assms(2)]
  note f = listening_fed[OF o, of rds]
  have b: "x_queue ?b = []" "(w_rf w, sm) \<in> set (x_rics ?b)" "w_cb w \<noteq> 0" "x_ep ?b = x_ep a"
    "(word_of_nat (x_next a), \<lparr>av_type = RIC_SUBSCRIPTION_PROCEDURE_ACTIVE, av_id = new_id a (w_rf w), av_sm_cb = w_cb w, av_e2_node = w_node w\<rparr>)
      \<in> set (x_procs ?b)" using assms(2) o by (simp_all add: xs_listening_def xs_ready_def)
  have "xrun ?b (concat (map (\<lambda>m. [(0, LOOP (x_ep a) (ric_ind m)), (0, DISPATCH)]) ms)) ?c"
    using xrun_fed[OF assms(5) b(1-3,5)] b(4) by simp
  note run = xrun_append[OF xrun_ask[OF assms(2)] xrun_append[OF xrun_granted[OF assms(2,3)] xrun_append[OF this
    xrun_append[OF xrun_end[OF assms(1,2) f] xrun_append[OF xrun_ended[OF assms(1,2) f assms(4)] xrun_late[OF assms(1,2) f assms(6)]]]]]]
  show ?thesis by (rule xrun_serves[OF _ assms(1)]) (use run in \<open>simp add: xs_inputs_def\<close>)
qed

section \<open>Answers at the wrong moment\<close>

lemma find_registered:
  assumes "xa_abs s a" "(k, v) \<in> set (x_procs a)"
  obtains y where "find_proc_xapp (snd s) k = Some (Some v, y)" "xa_abs (fst s, y) a"
proof -
  have A: "xa_abs (fst s, snd s) a" using assms(1) by simp
  note n = proc_number[OF A assms(2)]
  show thesis by (rule find_proc_rep[OF A n(1,2)]) (use that n(3) in simp)
qed

lemma step_message:
  assumes "xa_abs s a"
  shows "xapp_step mal tfd s (LOOP (x_ep a) m) r \<longleftrightarrow> r = map_option (Pair (fst s)) (do {
    (ans, x) \<leftarrow> e2ap_msg_handle_xapp mal tfd (snd s) m;
    if ans \<noteq> no_msg then Some (e2ap_send_bytes_xapp x ans) else Some x
  })"
proof -
  have A: "xa_abs (fst s, snd s) a" using assms by simp
  show ?thesis using loop_message[OF xa_absD(3)[OF A], of mal tfd m] xa_absD(5)[OF A] by (cases s) simp
qed

text \<open>An answer stops the xApp when nothing of its kind is pending.\<close>
lemma unexpected_answer:
  assumes "xa_abs s a"
  shows "(ric_req_id (rs_ric_id m1), v) \<in> set (x_procs a) \<Longrightarrow> none_of_kind E42_RIC_SUBSCRIPTION_REQUEST_PENDING_EVENT (x_pend a) \<Longrightarrow>
      xapp_step mal tfd s (LOOP (x_ep a) (ric_sub_resp m1)) r \<longleftrightarrow> r = None"
    "(ric_req_id (sdp_ric_id m2), v) \<in> set (x_procs a) \<Longrightarrow> none_of_kind E42_RIC_SUBSCRIPTION_DELETE_REQUEST_PENDING_EVENT (x_pend a) \<Longrightarrow>
      xapp_step mal tfd s (LOOP (x_ep a) (ric_sub_del_resp m2)) r \<longleftrightarrow> r = None"
    "(ric_req_id (ca_ric_id m3), v) \<in> set (x_procs a) \<Longrightarrow> none_of_kind E42_RIC_CONTROL_REQUEST_PENDING_EVENT (x_pend a) \<Longrightarrow>
      xapp_step mal tfd s (LOOP (x_ep a) (ric_ctrl_ack m3)) r \<longleftrightarrow> r = None"
proof -
  have N: "rm_pending_event_xapp y tmp = None" if "xa_abs (fst s, y) a" "none_of_kind (px_ev tmp) (x_pend a)" for y tmp
    by (rule rm_pending_absent[OF xa_absD(2)[OF that(1)] that(2)])
  show "xapp_step mal tfd s (LOOP (x_ep a) (ric_sub_resp m1)) r \<longleftrightarrow> r = None"
    if h: "(ric_req_id (rs_ric_id m1), v) \<in> set (x_procs a)" "none_of_kind E42_RIC_SUBSCRIPTION_REQUEST_PENDING_EVENT (x_pend a)"
    by (rule find_registered[OF assms h(1)])
      (use h(2) N in \<open>simp add: step_message[OF assms] xapp_handle_defs e2ap_handle_subscription_response_xapp_def\<close>)
  show "xapp_step mal tfd s (LOOP (x_ep a) (ric_sub_del_resp m2)) r \<longleftrightarrow> r = None"
    if h: "(ric_req_id (sdp_ric_id m2), v) \<in> set (x_procs a)" "none_of_kind E42_RIC_SUBSCRIPTION_DELETE_REQUEST_PENDING_EVENT (x_pend a)"
    by (rule find_registered[OF assms h(1)])
      (use h(2) N in \<open>simp add: step_message[OF assms] xapp_handle_defs e2ap_handle_subscription_delete_response_xapp_def\<close>)
  show "xapp_step mal tfd s (LOOP (x_ep a) (ric_ctrl_ack m3)) r \<longleftrightarrow> r = None"
    if h: "(ric_req_id (ca_ric_id m3), v) \<in> set (x_procs a)" "none_of_kind E42_RIC_CONTROL_REQUEST_PENDING_EVENT (x_pend a)"
    by (rule find_registered[OF assms h(1)])
      (use h(2) N in \<open>simp add: step_message[OF assms] xapp_handle_defs e2ap_handle_control_ack_xapp_def\<close>)
qed

text \<open>The state in which the answer has come before the wait: the wait clears the flag.\<close>
definition xs_asleep :: "axapp \<Rightarrow> xsession \<Rightarrow> byte_array \<times> byte_array option \<Rightarrow> axapp" where
  "xs_asleep a w e = (xs_open a w e)\<lparr>x_pc := UI_BLOCKED (RETURN_HANDLE (word_of_nat (x_next a))), x_flags := \<lparr>flag_sync = False, msg_ack = False\<rparr>\<rparr>"

lemma xrun_asleep:
  assumes "xs_ready a w sm e" "ric_req_id (rs_ric_id r) = word_of_nat (x_next a)"
  shows "xrun a [(fst (w_timers w), CALL (REPORT (w_node w) (w_rf w) (w_cmd w) (w_cb w))), (0, LOOP (x_ep a) (ric_sub_resp r)), (0, WAIT)]
    (xs_asleep a w e)"
proof -
  obtain et ad where e: "e = (et, ad)" by (cases e)
  let ?t = "fst (w_timers w)" and ?h = "RETURN_HANDLE (word_of_nat (x_next a))"
  let ?ev = "\<lparr>px_ev = E42_RIC_SUBSCRIPTION_REQUEST_PENDING_EVENT, px_id = new_id a (w_rf w), px_wait_ms = 5000\<rparr>"
  let ?b = "(with_proc a RIC_SUBSCRIPTION_PROCEDURE_ACTIVE (w_rf w) (w_node w) (w_cb w))\<lparr>x_pc := UI_ENTER ?h, x_polled := insert ?t (x_polled a),
      x_pend := add_mset (?t, ?ev) (x_pend a),
      x_out := x_out a @ [e42_ric_sub_req \<lparr>e42_sr_xapp_id = x_num a, e42_sr_id = w_node w, e42_sr = subs_request a (w_rf w) et ad\<rparr>]\<rparr>"
  have 1: "xstep ?t a (CALL (REPORT (w_node w) (w_rf w) (w_cmd w) (w_cb w))) ?b"
    by (rule xstep.report[where sm = sm]) (use assms(1) in \<open>simp_all add: xs_ready_def e\<close>)
  have v: "(ric_req_id (rs_ric_id r), \<lparr>av_type = RIC_SUBSCRIPTION_PROCEDURE_ACTIVE, av_id = new_id a (w_rf w), av_sm_cb = w_cb w, av_e2_node = w_node w\<rparr>)
      \<in> set (x_procs ?b)" using assms(2) by (simp add: with_proc_def)
  have 2: "xstep 0 ?b (LOOP (x_ep ?b) (ric_sub_resp r)) (answered ?b ?t ?ev)" by (rule xstep.subscribed[OF v]) simp_all
  have p: "x_ep ?b = x_ep a" by (simp add: with_proc_def)
  have 3: "xstep 0 (answered ?b ?t ?ev) WAIT ((answered ?b ?t ?ev)\<lparr>x_pc := UI_BLOCKED ?h, x_flags := \<lparr>flag_sync = False, msg_ack = False\<rparr>\<rparr>)"
    by (rule xstep.wait) (simp add: answered_def)
  have q: "\<dots> = xs_asleep a w e" using assms(1) by (simp add: xs_asleep_def xs_open_def answered_def with_proc_def xs_ready_def e)
  show ?thesis using xrun_cons[OF 1 xrun_cons[OF 2[unfolded p] xrun_cons[OF 3[unfolded q] xrun_nil]]] .
qed

text \<open>C16: A lost wake-up: when the answer to a subscription is handled before the caller starts to wait, the wait clears the
  flag that the answer has set.  The caller is not woken up; when its time is over an assertion fails, and so does a second answer.\<close>
theorem xapp_lost_answer:
  assumes "xa_abs s a" "xs_ready a w sm e" "ric_req_id (rs_ric_id r) = word_of_nat (x_next a)"
  shows "xserves [(fst (w_timers w), CALL (REPORT (w_node w) (w_rf w) (w_cmd w) (w_cb w))), (0, LOOP (x_ep a) (ric_sub_resp r)), (0, WAIT)]
    (\<lambda>s'. \<forall>mal tfd y. \<not> xapp_step mal tfd s' WAKE_UP y \<and> (xapp_step mal tfd s' TIME_OVER y \<longleftrightarrow> y = None) \<and>
      (xapp_step mal tfd s' (LOOP (x_ep a) (ric_sub_resp r)) y \<longleftrightarrow> y = None)) s"
proof (rule xserves_mono[OF xrun_serves[OF xrun_asleep[OF assms(2,3)] assms(1)]], intro allI)
  fix s' mal tfd y assume A: "xa_abs s' (xs_asleep a w e)"
  let ?v = "\<lparr>av_type = RIC_SUBSCRIPTION_PROCEDURE_ACTIVE, av_id = new_id a (w_rf w), av_sm_cb = w_cb w, av_e2_node = w_node w\<rparr>"
  have b: "(ric_req_id (rs_ric_id r), ?v) \<in> set (x_procs (xs_asleep a w e))" "x_ep (xs_asleep a w e) = x_ep a"
    "none_of_kind E42_RIC_SUBSCRIPTION_REQUEST_PENDING_EVENT (x_pend (xs_asleep a w e))"
    using assms(2,3) by (simp_all add: xs_asleep_def xs_open_def with_proc_def xs_ready_def)
  have "fst s' = UI_BLOCKED (RETURN_HANDLE (word_of_nat (x_next a)))" "xa_sync (snd s') = \<lparr>flag_sync = False, msg_ack = False\<rparr>"
    using A by (simp_all add: xa_abs_def xs_asleep_def)
  then show "\<not> xapp_step mal tfd s' WAKE_UP y \<and> (xapp_step mal tfd s' TIME_OVER y \<longleftrightarrow> y = None) \<and>
      (xapp_step mal tfd s' (LOOP (x_ep a) (ric_sub_resp r)) y \<longleftrightarrow> y = None)"
    using unexpected_answer(1)[OF A b(1,3), of mal tfd y] b(2) by (cases s') (auto simp: wait_over_def cond_wait_sync_ui_leave_def)
qed

lemma early_answers:
  assumes "xa_abs s a" "x_pc a = UI_IDLE"
    and "(ric_req_id (sdp_ric_id dr), v) \<in> set (x_procs a)" "none_of_kind E42_RIC_SUBSCRIPTION_DELETE_REQUEST_PENDING_EVENT (x_pend a)"
    and "valid_ran_func_id f" "(f, sm) \<in> set (x_rics a)" "on_control_req sm d = Some (hdr, msg)" "length hdr < 2049" "length msg < 2049"
    and "x_next a < 65536" "ric_req_id (ca_ric_id ack) = word_of_nat (x_next a)" "none_of_kind E42_RIC_CONTROL_REQUEST_PENDING_EVENT (x_pend a)"
  shows "xserves [(0, CALL (RM_REPORT (uint (ric_req_id (sdp_ric_id dr)))))]
      (\<lambda>s'. \<forall>mal tfd y. xapp_step mal tfd s' (LOOP (x_ep a) (ric_sub_del_resp dr)) y \<longleftrightarrow> y = None) s"
    "xserves [(0, CALL (CONTROL nid f d))]
      (\<lambda>s'. \<forall>mal tfd y. xapp_step mal tfd s' (LOOP (x_ep a) (ric_ctrl_ack ack)) y \<longleftrightarrow> y = None) s"
proof -
  show "xserves [(0, CALL (RM_REPORT (uint (ric_req_id (sdp_ric_id dr)))))]
      (\<lambda>s'. \<forall>mal tfd y. xapp_step mal tfd s' (LOOP (x_ep a) (ric_sub_del_resp dr)) y \<longleftrightarrow> y = None) s"
  proof (rule xserves_mono[OF xrun_serves[OF xrun_cons[OF xstep.rm_report[OF assms(2,3) refl] xrun_nil] assms(1)]], intro allI)
    fix s' mal tfd y assume A: "xa_abs s' (a\<lparr>x_pc := UI_PEND (sub_del_event \<lparr>e42_sdr_xapp_id = x_num a, e42_sdr = \<lparr>sdr_ric_id = av_id v\<rparr>\<rparr>)
      (REMOVE_REPORT (ucast (ric_req_id (sdp_ric_id dr)))),
      x_out := x_out a @ [e42_ric_sub_del_req \<lparr>e42_sdr_xapp_id = x_num a, e42_sdr = \<lparr>sdr_ric_id = av_id v\<rparr>\<rparr>]\<rparr>)"
    show "xapp_step mal tfd s' (LOOP (x_ep a) (ric_sub_del_resp dr)) y \<longleftrightarrow> y = None"
      using unexpected_answer(2)[OF A, of dr v mal tfd y] assms(3,4) by simp
  qed
  show "xserves [(0, CALL (CONTROL nid f d))]
      (\<lambda>s'. \<forall>mal tfd y. xapp_step mal tfd s' (LOOP (x_ep a) (ric_ctrl_ack ack)) y \<longleftrightarrow> y = None) s"
  proof (rule xserves_mono[OF xrun_serves[OF xrun_cons[OF xstep.control[OF assms(2,5-10) refl] xrun_nil] assms(1)]], intro allI)
    fix s' mal tfd y
    let ?cr = "\<lparr>e42_cr_xapp_id = x_num a, e42_cr_id = nid, e42_ctrl_req = ctrl_request a f hdr msg\<rparr>"
    let ?v = "\<lparr>av_type = RIC_CONTROL_PROCEDURE_ACTIVE, av_id = new_id a f, av_sm_cb = 0, av_e2_node = nid\<rparr>"
    assume A: "xa_abs s' ((with_proc a RIC_CONTROL_PROCEDURE_ACTIVE f nid 0)\<lparr>
      x_pc := UI_PEND (ctrl_event ?cr) (REMOVE_CONTROL (word_of_nat (x_next a))), x_out := x_out a @ [e42_ric_ctrl_req ?cr]\<rparr>)"
    show "xapp_step mal tfd s' (LOOP (x_ep a) (ric_ctrl_ack ack)) y \<longleftrightarrow> y = None"
      using unexpected_answer(3)[OF A, of ack ?v mal tfd y] assms(11,12) by (simp add: with_proc_def)
  qed
qed


text \<open>C17: The two callers that send before they register: an answer that comes in between stops the xApp.\<close>
theorem xapp_early_answer:
  assumes "xa_abs s a" "x_pc a = UI_IDLE"
    and "(ric_req_id (sdp_ric_id dr), v) \<in> set (x_procs a)" "none_of_kind E42_RIC_SUBSCRIPTION_DELETE_REQUEST_PENDING_EVENT (x_pend a)"
    and "valid_ran_func_id f" "(f, sm) \<in> set (x_rics a)" "on_control_req sm d = Some (hdr, msg)" "length hdr < 2049" "length msg < 2049"
    and "x_next a < 65536" "ric_req_id (ca_ric_id ack) = word_of_nat (x_next a)" "none_of_kind E42_RIC_CONTROL_REQUEST_PENDING_EVENT (x_pend a)"
  shows "xserves [(0, CALL (RM_REPORT (uint (ric_req_id (sdp_ric_id dr)))))]
      (\<lambda>s'. \<forall>mal tfd y. xapp_step mal tfd s' (LOOP (x_ep a) (ric_sub_del_resp dr)) y \<longleftrightarrow> y = None) s \<and>
    xserves [(0, CALL (CONTROL nid f d))]
      (\<lambda>s'. \<forall>mal tfd y. xapp_step mal tfd s' (LOOP (x_ep a) (ric_ctrl_ack ack)) y \<longleftrightarrow> y = None) s"
  using early_answers[OF assms] by blast

section \<open>Limits\<close>

lemma no_number:
  assumes "act_proc_ok (xa_act_proc x)" "rg_key_id (xa_act_proc x) = 65536"
  shows "generate_ric_gen_id x type f nid cb = None"
proof -
  have i: "reg_inv (xa_act_proc x)" "rg_elm_sz (xa_act_proc x) = 56" "rg_key_id (xa_act_proc x) < 2 ^ 32"
    using assms by (simp_all add: act_proc_ok_def)
  let ?v = "\<lparr>av_type = type, av_id = \<lparr>ric_req_id = 0, ric_inst_id = 0, ran_func_id = f\<rparr>, av_sm_cb = cb, av_e2_node = cp_global_e2_node_id nid\<rparr>"
  obtain p where p: "assoc_reg_push_back (xa_act_proc x) ?v 56 = Some (word_of_nat 65536, p)"
    using push_spec[OF i(1,3), of ?v] i(2) assms(2) by metis
  then have "add_act_proc (xa_act_proc x) type \<lparr>ric_req_id = 0, ric_inst_id = 0, ran_func_id = f\<rparr> nid cb =
      (if valid_proc_type type then Some (65536, p) else None)" by (simp add: add_act_proc_def Let_def)
  then show ?thesis by (simp add: generate_ric_gen_id_def Let_def split: option.split)
qed

text \<open>C18: The request numbers are never used again, although the procedures are removed: the xApp that has given out 65535 of them
  stops at the next subscription and at the next control request, whatever they ask for.\<close>
theorem xapp_numbers_run_out:
  assumes "xa_abs s a" "x_pc a = UI_IDLE" "x_next a = 65536"
  shows "(xapp_step mal tfd s (CALL (REPORT nid f d cb)) r \<longleftrightarrow> r = None) \<and> (xapp_step mal tfd s (CALL (CONTROL nid f c)) r \<longleftrightarrow> r = None)"
proof -
  have A: "xa_abs (UI_IDLE, snd s) a" using assms(1,2) by (simp add: xa_abs_def)
  have "act_proc_ok (xa_act_proc (snd s))" "rg_key_id (xa_act_proc (snd s)) = 65536"
    using xa_invD(1)[OF xa_absD(3)[OF A]] xa_absD(10)[OF A] assms(3) by simp_all
  note n = no_number[OF this]
  have "fst s = UI_IDLE" using assms(1,2) by (simp add: xa_abs_def)
  then show ?thesis by (cases s) (use n in \<open>simp add: report_sm_sync_xapp_def control_sm_sync_xapp_def\<close>)
qed


section \<open>The end\<close>

definition released_kind :: "pending_event \<Rightarrow> bool" where
  "released_kind k \<longleftrightarrow> k = SETUP_REQUEST_PENDING_EVENT \<or> k = SUBSCRIPTION_REQUEST_PENDING_EVENT \<or>
     k = SUBSCRIPTION_DELETE_REQUEST_PENDING_EVENT \<or> k = E42_SETUP_REQUEST_PENDING_EVENT"

lemma free_pending_xapp:
  assumes "px_rep p P" "\<forall>(fd, ev) \<in># P. 0 < fd"
  shows "free_pending_events_xapp p = (if \<forall>(fd, ev) \<in># P. released_kind (px_ev ev) then Some () else None)"
proof -
  note d = px_repD[OF assms(1)]
  obtain ls rs m where f: "bi_map_free p = Some (ls, rs, m)" "set ls = (\<lambda>(a, b). (Some a, Some b)) ` set_mset P"
    "set rs = (\<lambda>(a, b). (Some b, Some a)) ` set_mset P" by (rule free_table[OF d(1,4,5)]) blast
  have l: "cp_loop free_fd_xapp ls = Some (map (\<lambda>_. ()) ls)" using assms(2) by (intro cp_loop_all) (auto simp: f(2) free_fd_xapp_def)
  have v: "valid_pending_event k = (if released_kind k then Some True else None)" for k
    by (auto simp: valid_pending_event_def released_kind_def)
  show ?thesis
  proof (cases "\<forall>(fd, ev) \<in># P. released_kind (px_ev ev)")
    case True
    have "cp_loop free_pending_ev_xapp rs = Some (map (\<lambda>_. ()) rs)"
      using True by (intro cp_loop_all) (auto simp: f(3) free_pending_ev_xapp_def v)
    then show ?thesis using l f(1) True by (simp add: free_pending_events_xapp_def)
  next
    case False
    then obtain fd ev where e: "(fd, ev) \<in># P" "\<not> released_kind (px_ev ev)" by blast
    have "(Some ev, Some fd) \<in> set rs" using e(1) by (force simp: f(3))
    moreover have "free_pending_ev_xapp (Some ev, Some fd) = None" using e(2) by (simp add: free_pending_ev_xapp_def v)
    ultimately have "cp_loop free_pending_ev_xapp rs = None" by (rule cp_loop_None)
    then show ?thesis using l f(1) False by (simp add: free_pending_events_xapp_def)
  qed
qed

lemma free_tree:
  assumes "rb_rep vkey cmp T es" "has_free_func T" shows "\<exists>rel T'. assoc_rb_tree_free T = Some (rel, T')"
  using free_rep[OF assms] by metis

text \<open>An xApp that is stopped while one of its own subscription or control requests is pending stops with an assertion: the
  release of the pending events only knows the kinds of the controller and of the setup.  Otherwise everything is released.\<close>
theorem xapp_free_pending:
  assumes "xa_abs s a" "has_free_func (xa_plugin_ag (snd s))" "has_free_func (xa_plugin_ric (snd s))"
  shows "free_e42_xapp (snd s) \<noteq> None \<longleftrightarrow> (\<forall>(fd, ev) \<in># x_pend a. released_kind (px_ev ev))"
proof -
  have A: "xa_abs (fst s, snd s) a" using assms(1) by simp
  note d = xa_absD[OF A]
  have r: "px_rep (xa_pending (snd s)) (x_pend a)" "tree_rep (xa_plugin_ag (snd s)) (x_ags a)" "tree_rep (xa_plugin_ric (snd s)) (x_rics a)"
    using d(2) by (simp_all add: xa_rep_def)
  obtain es where "node_tree_rep (node_to_rf (xa_e2_nodes (snd s))) es" using d(2) by (auto simp: xa_rep_def reg_rep_def)
  then have n: "\<exists>rel T. assoc_rb_tree_free (node_to_rf (xa_e2_nodes (snd s))) = Some (rel, T)" using free_tree by (auto simp: node_tree_rep_def)
  have t: "\<exists>rel T. assoc_rb_tree_free (xa_plugin_ag (snd s)) = Some (rel, T)" "\<exists>rel T. assoc_rb_tree_free (xa_plugin_ric (snd s)) = Some (rel, T)"
    using r(2,3) free_tree assms(2,3) by (auto simp: tree_rep_def)
  have "\<forall>(fd, ev) \<in># x_pend a. 0 < fd" using d(3) by (auto simp: xa_inv_def)
  from free_pending_xapp[OF r(1) this] n t show ?thesis by (auto simp: free_e42_xapp_def free_reg_e2_node_def Let_def)
qed


section \<open>Examples\<close>

definition ex_plug_tree :: "'v \<Rightarrow> (uint16, 'v) assoc_rb_tree" where
  "ex_plug_tree v = one_node (\<lambda>a b. Some (cmp_ran_func_id a b)) 2 2 v"

definition ex_ax :: axapp where
  "ex_ax = x_initial [(2, ex_sma)] [(2, ex_sm)] 3"

lemma ex_plugins_ok: "plugins_ok [(2, ex_sma)] [(2, ex_sm)]"
  by (simp add: plugins_ok_def) (simp add: ex_sma_def ex_sm_def)

lemma ex_ok_mal: "ok_mal (\<lambda>j. 10 + j)"
  by (simp add: ok_mal_def inj_def)

lemma ex_xapp: obtains x where "init_e42_xapp (\<lambda>j. 10 + j) 3 (ex_plug_tree ex_sma) (ex_plug_tree ex_sm) = Some x" "xa_abs (UI_IDLE, x) ex_ax"
  using xapp_initial[OF one_node_tree one_node_tree ex_plugins_ok _ ex_ok_mal, of 3] by (auto simp: ex_ax_def ex_plug_tree_def)

lemma ex_xapp_fresh:
  assumes "init_e42_xapp (\<lambda>j. 10 + j) 3 (ex_plug_tree ex_sma) (ex_plug_tree ex_sm) = Some x" shows "xa_fresh (\<lambda>j. 20 + j) x"
  using assms by (auto simp: init_e42_xapp_def bind_eq_Some_conv xa_fresh_def fresh_for_def ok_mal_def inj_def
      init_reg_e2_node_def init_pending_events_xapp_def bi_map_init_def assoc_rb_tree_init_def Let_def)

lemma xapp_starts_witness:
  "\<exists>x. init_e42_xapp (\<lambda>j. 10 + j) 3 (ex_plug_tree ex_sma) (ex_plug_tree ex_sm) = Some x \<and> (\<forall>m2. xa_fresh m2 x \<longrightarrow>
    (\<exists>y. start_e42_xapp m2 9 x = Some y \<and> xa_abs (UI_IDLE, y) (x_started [(2, ex_sma)] [(2, ex_sm)] 3 9)))"
  unfolding ex_plug_tree_def using xapp_starts[OF one_node_tree one_node_tree ex_plugins_ok _ ex_ok_mal, of 3 9] by simp

definition ex_w :: xsession where
  "ex_w = \<lparr>w_node = ex_gnb 1, w_rf = 2, w_cmd = [1], w_cb = 77, w_timers = (9, 11)\<rparr>"

definition ex_answer :: ric_subscription_response where
  "ex_answer = \<lparr>rs_ric_id = \<lparr>ric_req_id = 1, ric_inst_id = 0, ran_func_id = 2\<rparr>, rs_admitted = [], rs_not_admitted = []\<rparr>"

definition ex_del_answer :: ric_subscription_delete_response where
  "ex_del_answer = \<lparr>sdp_ric_id = \<lparr>ric_req_id = 1, ric_inst_id = 0, ran_func_id = 2\<rparr>\<rparr>"

definition ex_report :: "byte_array \<Rightarrow> ric_indication" where
  "ex_report b = \<lparr>ind_ric_id = \<lparr>ric_req_id = 1, ric_inst_id = 0, ran_func_id = 2\<rparr>, ind_action_id = 0, ind_sn = None, ind_type = RIC_IND_REPORT,
     ind_hdr = [], ind_msg = b, ind_call_process_id = None\<rparr>"

definition ex_row :: "byte_array \<Rightarrow> sm_ag_if_rd_ind" where
  "ex_row b = \<lparr>rd_type = KPM_STATS_V3_0, rd_data = RD_BYTES b\<rparr>"

lemma ex_ready: "xs_ready ex_ax ex_w ex_sm ([1], None)"
  by (simp add: xs_ready_def ex_ax_def x_initial_def ex_w_def none_of_kind_def valid_ran_func_id_def) (simp add: ex_sm_def)

lemma ex_number: "x_next ex_ax = 1" "x_pc ex_ax = UI_IDLE" "x_ep ex_ax = 3" "x_rics ex_ax = [(2, ex_sm)]" "x_pend ex_ax = {#}"
  by (simp_all add: ex_ax_def x_initial_def)

lemma ex_xs_ind: "xs_ind ex_ax ex_w ex_sm (ex_report b) (ex_row b)"
  by (simp add: xs_ind_def ex_number ex_w_def ex_report_def ex_row_def ind_type_xapp_def) (simp add: ex_sm_def)

lemma xapp_refines_witness:
  "\<exists>s. xa_abs s ex_ax \<and> xserves [(9, CALL (REPORT (ex_gnb 1) 2 [1] 77)), (0, WAIT), (0, LOOP 3 (ric_sub_resp ex_answer)), (0, WAKE_UP)]
    (\<lambda>s'. xa_abs s' (xs_open ex_ax ex_w ([1], None))) s"
proof -
  obtain x where x: "xa_abs (UI_IDLE, x) ex_ax" by (rule ex_xapp)
  have "xrun ex_ax [(9, CALL (REPORT (ex_gnb 1) 2 [1] 77)), (0, WAIT), (0, LOOP 3 (ric_sub_resp ex_answer)), (0, WAKE_UP)]
      (xs_open ex_ax ex_w ([1], None))"
    using xrun_append[OF xrun_ask[OF ex_ready] xrun_granted[OF ex_ready, of ex_answer]] by (simp add: ex_number ex_answer_def) (simp add: ex_w_def)
  from xapp_refines[OF this x] x show ?thesis by blast
qed

lemma xapp_session_witness:
  "\<exists>s. xa_abs s ex_ax \<and> xserves (xs_inputs ex_ax ex_w ex_answer [ex_report [5], ex_report [6]] ex_del_answer (ex_report [7]))
    (\<lambda>s'. xa_abs s' (xs_closed ex_ax ex_w (xs_fed ex_w [ex_row [5], ex_row [6]] (xs_open ex_ax ex_w ([1], None))))) s"
proof -
  obtain x where x: "xa_abs (UI_IDLE, x) ex_ax" by (rule ex_xapp)
  have "list_all2 (xs_ind ex_ax ex_w ex_sm) [ex_report [5], ex_report [6]] [ex_row [5], ex_row [6]]" by (simp add: ex_xs_ind)
  from xapp_session[OF x ex_ready _ _ this ex_xs_ind, of ex_answer ex_del_answer] x show ?thesis
    by (auto simp: ex_number ex_answer_def ex_del_answer_def)
qed

lemma xapp_lost_answer_witness:
  "\<exists>s. xa_abs s ex_ax \<and> xserves [(9, CALL (REPORT (ex_gnb 1) 2 [1] 77)), (0, LOOP 3 (ric_sub_resp ex_answer)), (0, WAIT)]
    (\<lambda>s'. \<forall>mal tfd y. \<not> xapp_step mal tfd s' WAKE_UP y \<and> (xapp_step mal tfd s' TIME_OVER y \<longleftrightarrow> y = None) \<and>
      (xapp_step mal tfd s' (LOOP 3 (ric_sub_resp ex_answer)) y \<longleftrightarrow> y = None)) s"
proof -
  obtain x where x: "xa_abs (UI_IDLE, x) ex_ax" by (rule ex_xapp)
  have w: "w_timers ex_w = (9, 11)" "w_node ex_w = ex_gnb 1" "w_rf ex_w = 2" "w_cmd ex_w = [1]" "w_cb ex_w = 77" by (simp_all add: ex_w_def)
  have "ric_req_id (rs_ric_id ex_answer) = word_of_nat (x_next ex_ax)" by (simp add: ex_answer_def ex_number)
  from xapp_lost_answer[OF x ex_ready this, unfolded w ex_number fst_conv] x show ?thesis by blast
qed

lemma ex_with_proc: obtains x where "xa_abs (UI_IDLE, x) (with_proc ex_ax RIC_SUBSCRIPTION_PROCEDURE_ACTIVE 2 (ex_gnb 1) 77)"
proof -
  obtain x where x: "xa_abs (UI_IDLE, x) ex_ax" by (rule ex_xapp)
  have "valid_ran_func_id 2" "x_next ex_ax < 65536" by (simp_all add: valid_ran_func_id_def ex_number)
  then show thesis by (rule new_proc_rep[OF x]) (rule that)
qed

definition ex_ctrl_ack :: ric_control_acknowledge where
  "ex_ctrl_ack = \<lparr>ca_ric_id = \<lparr>ric_req_id = 2, ric_inst_id = 0, ran_func_id = 2\<rparr>, ca_call_process_id = None, ca_control_outcome = None\<rparr>"

lemma xapp_early_answer_witness:
  "\<exists>s. xserves [(0, CALL (RM_REPORT 1))] (\<lambda>s'. \<forall>mal tfd y. xapp_step mal tfd s' (LOOP 3 (ric_sub_del_resp ex_del_answer)) y \<longleftrightarrow> y = None) s \<and>
    xserves [(0, CALL (CONTROL (ex_gnb 1) 2 (CTRL_BYTES [4])))] (\<lambda>s'. \<forall>mal tfd y. xapp_step mal tfd s' (LOOP 3 (ric_ctrl_ack ex_ctrl_ack)) y \<longleftrightarrow> y = None) s"
proof -
  let ?a = "with_proc ex_ax RIC_SUBSCRIPTION_PROCEDURE_ACTIVE 2 (ex_gnb 1) 77"
  let ?v = "\<lparr>av_type = RIC_SUBSCRIPTION_PROCEDURE_ACTIVE, av_id = new_id ex_ax 2, av_sm_cb = 77, av_e2_node = ex_gnb 1\<rparr>"
  obtain x where x: "xa_abs (UI_IDLE, x) ?a" by (rule ex_with_proc)
  have h: "x_pc ?a = UI_IDLE" "(ric_req_id (sdp_ric_id ex_del_answer), ?v) \<in> set (x_procs ?a)" "none_of_kind k (x_pend ?a)" "(2, ex_sm) \<in> set (x_rics ?a)"
    "x_next ?a < 65536" "ric_req_id (ca_ric_id ex_ctrl_ack) = word_of_nat (x_next ?a)" "x_ep ?a = 3" for k
    by (simp_all add: with_proc_def ex_number ex_del_answer_def none_of_kind_def ex_ctrl_ack_def)
  have c: "on_control_req ex_sm (CTRL_BYTES [4]) = Some ([4], [4])" by (simp add: ex_sm_def)
  have v: "valid_ran_func_id 2" "length [4 :: uint8] < 2049" "uint (ric_req_id (sdp_ric_id ex_del_answer)) = 1"
    by (simp_all add: valid_ran_func_id_def ex_del_answer_def)
  show ?thesis
    by (rule exI[of _ "(UI_IDLE, x)"]) (rule xapp_early_answer[OF x h(1,2,3) v(1) h(4) c v(2,2) h(5,6,3), of "ex_gnb 1", unfolded h(7) v(3)])
qed

lemma xapp_numbers_run_out_witness:
  "\<exists>s a. xa_abs s a \<and> x_next a = 65536 \<and> (\<forall>mal tfd r. (xapp_step mal tfd s (CALL (REPORT (ex_gnb 1) 2 [1] 77)) r \<longleftrightarrow> r = None) \<and>
    (xapp_step mal tfd s (CALL (CONTROL (ex_gnb 1) 2 (CTRL_BYTES [4]))) r \<longleftrightarrow> r = None))"
proof -
  obtain x where x: "xa_abs (UI_IDLE, x) ex_ax" by (rule ex_xapp)
  let ?p = "init_act_proc\<lparr>rg_key_id := 65536\<rparr>"
  have "reg_inv ?p" "procedures ?p = []" "rg_elm_sz ?p = 56" "rg_key_id ?p = 65536"
    using reg_init_spec by (auto simp: init_act_proc_def assoc_reg_init_def reg_inv_def procedures_def contents_def occupied_def buckets_ok_def)
  then have "xa_abs (UI_IDLE, x\<lparr>xa_act_proc := ?p\<rparr>) (ex_ax\<lparr>x_procs := [], x_next := 65536\<rparr>)"
    using xa_abs_procs[OF x, of ?p] by (simp add: act_proc_ok_def)
  moreover have "x_pc (ex_ax\<lparr>x_procs := [], x_next := 65536\<rparr>) = UI_IDLE" "x_next (ex_ax\<lparr>x_procs := [], x_next := 65536\<rparr>) = 65536"
    by (simp_all add: ex_number)
  ultimately show ?thesis using xapp_numbers_run_out by blast
qed

definition ex_tc :: sm_ric where
  "ex_tc = \<lparr>sm_ran_func_id = 146, on_subscription = (\<lambda>b. Some (b, None)),
     on_indication = (\<lambda>h m p. Some \<lparr>rd_type = TC_STATS_V0, rd_data = RD_BYTES m\<rparr>), on_control_req = (\<lambda>c. case c of CTRL_BYTES b \<Rightarrow> Some (b, b) | _ \<Rightarrow> None)\<rparr>"


lemma ex_pending: fixes cr obtains x where "xa_abs (UI_IDLE, x) (ex_ax\<lparr>x_pend := {#(9, ctrl_event cr)#}, x_polled := {9, 3}\<rparr>)"
    "has_free_func (xa_plugin_ag x)" "has_free_func (xa_plugin_ric x)"
proof -
  obtain x where x: "init_e42_xapp (\<lambda>j. 10 + j) 3 (ex_plug_tree ex_sma) (ex_plug_tree ex_sm) = Some x" "xa_abs (UI_IDLE, x) ex_ax" by (rule ex_xapp)
  have p: "xa_plugin_ag x = ex_plug_tree ex_sma" "xa_plugin_ric x = ex_plug_tree ex_sm"
    using x(1) by (auto simp: init_e42_xapp_def bind_eq_Some_conv)
  note f = ex_xapp_fresh[OF x(1)]
  have k: "new_timer x 9" "none_of_kind (px_ev (ctrl_event cr)) {#}" "0 < px_wait_ms (ctrl_event cr)"
    using xa_absD(6)[OF x(2)] by (simp_all add: new_timer_def ex_ax_def x_initial_def none_of_kind_def ctrl_event_def)
  have P: "x_pend ex_ax = {#}" "x_ags ex_ax = [(2, ex_sma)]" "x_rics ex_ax = [(2, ex_sm)]" "x_nodes ex_ax = {#}" "x_polled ex_ax = {3}"
    by (simp_all add: ex_ax_def x_initial_def)
  note d = xa_absD(2,3,6)[OF x(2), unfolded P]
  obtain q where q: "xa_rep (x\<lparr>xa_io := insert 9 (xa_io x), xa_pending := q\<rparr>) {#(9, ctrl_event cr)#} [(2, ex_sma)] [(2, ex_sm)] {#}"
    "xa_inv (x\<lparr>xa_io := insert 9 (xa_io x), xa_pending := q\<rparr>) {#(9, ctrl_event cr)#}"
    by (rule add_pending_rep[OF d(1,2) f k])
  have "xa_abs (UI_IDLE, x\<lparr>xa_io := insert 9 (xa_io x), xa_pending := q\<rparr>) (ex_ax\<lparr>x_pend := {#(9, ctrl_event cr)#}, x_polled := {9, 3}\<rparr>)"
    using x(2) q d(3) P by (simp add: xa_abs_def)
  then show thesis by (rule that) (simp_all add: p ex_plug_tree_def one_node_def)
qed

lemma xapp_free_pending_witness:
  "\<exists>x y. xa_abs (UI_IDLE, x) ex_ax \<and> free_e42_xapp x \<noteq> None \<and> free_e42_xapp y = None \<and>
    xa_abs (UI_IDLE, y) (ex_ax\<lparr>x_pend := {#(9, ctrl_event \<lparr>e42_cr_xapp_id = 1, e42_cr_id = ex_gnb 1, e42_ctrl_req = ctrl_request ex_ax 2 [] []\<rparr>)#}, x_polled := {9, 3}\<rparr>)"
proof -
  let ?cr = "\<lparr>e42_cr_xapp_id = 1, e42_cr_id = ex_gnb 1, e42_ctrl_req = ctrl_request ex_ax 2 [] []\<rparr>"
  obtain x where x: "init_e42_xapp (\<lambda>j. 10 + j) 3 (ex_plug_tree ex_sma) (ex_plug_tree ex_sm) = Some x" "xa_abs (UI_IDLE, x) ex_ax" by (rule ex_xapp)
  have p: "xa_plugin_ag x = ex_plug_tree ex_sma" "xa_plugin_ric x = ex_plug_tree ex_sm" using x(1) by (auto simp: init_e42_xapp_def bind_eq_Some_conv)
  have f: "has_free_func (ex_plug_tree v)" for v :: 'v by (simp add: ex_plug_tree_def one_node_def)
  have 1: "free_e42_xapp x \<noteq> None" using xapp_free_pending[OF x(2)] by (simp add: p f ex_number)
  obtain y where y: "xa_abs (UI_IDLE, y) (ex_ax\<lparr>x_pend := {#(9, ctrl_event ?cr)#}, x_polled := {9, 3}\<rparr>)"
    "has_free_func (xa_plugin_ag y)" "has_free_func (xa_plugin_ric y)" by (rule ex_pending)
  have 2: "free_e42_xapp y = None" using xapp_free_pending[OF y(1)] y(2,3) by (simp add: ctrl_event_def released_kind_def)
  show ?thesis using x(2) 1 2 y(1) by blast
qed

end
