(* ===== verification/Full_System.thy ===== *)
theory Full_System
  imports System Xapp_Props
begin

text \<open>
  The three programs together: an xApp with its callers, the controller with the iApp, and an agent.
  What one program sends to another is delivered in order; the encoding of the messages and the associations that carry them
  are left out.  The address of the xApp is \<open>sx\<close>, that of the agent \<open>t\<close>; other xApps and nodes may be there.
\<close>

section \<open>The system\<close>

record full_system =
  net :: system
  xap :: "ui_pc \<times> e42_xapp"
  got_out :: nat
  got_in :: nat

datatype full_in = NET sys_in | UI int xapp_in | TO_IAPP | TO_XAPP

text \<open>Messages reach the xApp only by delivery.\<close>
definition local_in :: "xapp_in \<Rightarrow> bool" where
  "local_in i \<longleftrightarrow> (case i of LOOP fd m \<Rightarrow> False | _ \<Rightarrow> True)"

inductive full_step ::
  "alloc \<Rightarrow> (nat \<Rightarrow> addr) \<Rightarrow> (nat \<Rightarrow> addr) \<Rightarrow> (nat \<Rightarrow> int) \<Rightarrow> int \<Rightarrow> sctp_info \<Rightarrow> sctp_info \<Rightarrow> full_system \<Rightarrow> full_in \<Rightarrow> full_system option \<Rightarrow> bool"
  for mal mal_a mal_x kfd tfd t sx f
where
  "full_step mal mal_a mal_x kfd tfd t sx f (NET i) (map_option (\<lambda>s. f\<lparr>net := s\<rparr>) (sys_step mal mal_a kfd tfd t (net f) i))"
| "local_in i \<Longrightarrow> xapp_step mal_x ttfd (xap f) i r \<Longrightarrow> full_step mal mal_a mal_x kfd tfd t sx f (UI ttfd i) (map_option (\<lambda>x. f\<lparr>xap := x\<rparr>) r)"
| "got_out f < length (xa_sent (snd (xap f))) \<Longrightarrow> full_step mal mal_a mal_x kfd tfd t sx f TO_IAPP
    (map_option (\<lambda>s. f\<lparr>net := s, got_out := got_out f + 1\<rparr>)
      (sys_step mal mal_a kfd tfd t (net f) (XAPP sx (xa_sent (snd (xap f)) ! got_out f))))"
| "got_in f < length (msgs_to sx (ia_sent (iapp (ctl (net f))))) \<Longrightarrow>
    xapp_step mal_x 0 (xap f) (LOOP (xa_ep_fd (snd (xap f))) (msgs_to sx (ia_sent (iapp (ctl (net f)))) ! got_in f)) r \<Longrightarrow>
    full_step mal mal_a mal_x kfd tfd t sx f TO_XAPP (map_option (\<lambda>x. f\<lparr>xap := x, got_in := got_in f + 1\<rparr>) r)"

inductive_simps full_step_simps:
  "full_step mal mal_a mal_x kfd tfd t sx f (NET i) r" "full_step mal mal_a mal_x kfd tfd t sx f (UI ttfd i) r"
  "full_step mal mal_a mal_x kfd tfd t sx f TO_IAPP r" "full_step mal mal_a mal_x kfd tfd t sx f TO_XAPP r"

text \<open>Whatever fresh memory the three programs are given, each input can be served, has this one outcome, and then \<open>Q\<close> holds.\<close>
fun fserves :: "(nat \<Rightarrow> int) \<Rightarrow> int \<Rightarrow> sctp_info \<Rightarrow> sctp_info \<Rightarrow> full_in list \<Rightarrow> (full_system \<Rightarrow> bool) \<Rightarrow> full_system \<Rightarrow> bool" where
  "fserves kfd tfd t sx [] Q f = Q f"
| "fserves kfd tfd t sx (i # is) Q f = (\<forall>mal mal_a mal_x. fresh_mem mal (ctl (net f)) \<longrightarrow> ag_fresh mal_a (agt (net f)) \<longrightarrow>
     xa_fresh mal_x (snd (xap f)) \<longrightarrow>
     (\<exists>f'. (\<forall>r. full_step mal mal_a mal_x kfd tfd t sx f i r \<longleftrightarrow> r = Some f') \<and> fserves kfd tfd t sx is Q f'))"

section \<open>Composition\<close>

text \<open>What the controller with the agent serves, and what the xApp serves, the system serves.\<close>
lemma fserves_net:
  assumes "serves kfd tfd t is P (net f)" "\<And>s. P s \<Longrightarrow> fserves kfd tfd t sx js Q (f\<lparr>net := s\<rparr>)"
  shows "fserves kfd tfd t sx (map NET is @ js) Q f"
  using assms
proof (induction "is" arbitrary: f)
  case Nil
  then show ?case using Nil.prems(2)[of "net f"] by simp
next
  case (Cons i "is")
  show ?case unfolding list.map append.simps fserves.simps
  proof (intro allI impI)
    fix mal mal_a mal_x assume "fresh_mem mal (ctl (net f))" "ag_fresh mal_a (agt (net f))"
    then obtain s where s: "sys_step mal mal_a kfd tfd t (net f) i = Some s" "serves kfd tfd t is P s" using Cons.prems(1) by auto
    have "fserves kfd tfd t sx (map NET is @ js) Q (f\<lparr>net := s\<rparr>)" by (rule Cons.IH) (use s(2) Cons.prems(2) in simp_all)
    then show "\<exists>f'. (\<forall>r. full_step mal mal_a mal_x kfd tfd t sx f (NET i) r \<longleftrightarrow> r = Some f') \<and> fserves kfd tfd t sx (map NET is @ js) Q f'"
      using s(1) by (intro exI[of _ "f\<lparr>net := s\<rparr>"]) (simp add: full_step_simps)
  qed
qed

lemma fserves_ui:
  assumes "xserves is P (xap f)" "\<forall>x \<in> set is. local_in (snd x)" "\<And>x. P x \<Longrightarrow> fserves kfd tfd t sx js Q (f\<lparr>xap := x\<rparr>)"
  shows "fserves kfd tfd t sx (map (\<lambda>(u, i). UI u i) is @ js) Q f"
  using assms
proof (induction "is" arbitrary: f)
  case Nil
  then show ?case using Nil.prems(3)[of "xap f"] by simp
next
  case (Cons x "is")
  obtain u i where x: "x = (u, i)" by (cases x)
  show ?case unfolding list.map append.simps fserves.simps x prod.case
  proof (intro allI impI)
    fix mal mal_a mal_x assume "xa_fresh mal_x (snd (xap f))"
    then obtain y where y: "\<forall>r. xapp_step mal_x u (xap f) i r \<longleftrightarrow> r = Some y" "xserves is P y" using Cons.prems(1) unfolding x xserves.simps by blast
    have "fserves kfd tfd t sx (map (\<lambda>(u, i). UI u i) is @ js) Q (f\<lparr>xap := y\<rparr>)" by (rule Cons.IH) (use y(2) Cons.prems(2,3) in simp_all)
    then show "\<exists>f'. (\<forall>r. full_step mal mal_a mal_x kfd tfd t sx f (UI u i) r \<longleftrightarrow> r = Some f') \<and>
        fserves kfd tfd t sx (map (\<lambda>(u, i). UI u i) is @ js) Q f'"
      using y(1) Cons.prems(2) x by (intro exI[of _ "f\<lparr>xap := y\<rparr>"]) (simp add: full_step_simps)
  qed
qed

lemma fserves_to_iapp:
  assumes "serves kfd tfd t (XAPP sx m # is) P (net f)" "xa_sent (snd (xap f)) = ms @ m # ns" "got_out f = length ms"
    "\<And>s. P s \<Longrightarrow> fserves kfd tfd t sx js Q (f\<lparr>net := s, got_out := got_out f + 1\<rparr>)"
  shows "fserves kfd tfd t sx (TO_IAPP # map NET is @ js) Q f"
  unfolding fserves.simps
proof (intro allI impI)
  fix mal mal_a mal_x assume "fresh_mem mal (ctl (net f))" "ag_fresh mal_a (agt (net f))"
  then obtain s where s: "sys_step mal mal_a kfd tfd t (net f) (XAPP sx m) = Some s" "serves kfd tfd t is P s" using assms(1) by auto
  have "fserves kfd tfd t sx (map NET is @ js) Q (f\<lparr>net := s, got_out := got_out f + 1\<rparr>)"
  proof (rule fserves_net)
    show "serves kfd tfd t is P (net (f\<lparr>net := s, got_out := got_out f + 1\<rparr>))" using s(2) by simp
    fix s' assume "P s'"
    have e: "f\<lparr>net := s, got_out := got_out f + 1, net := s'\<rparr> = f\<lparr>net := s', got_out := got_out f + 1\<rparr>" by simp
    show "fserves kfd tfd t sx js Q (f\<lparr>net := s, got_out := got_out f + 1, net := s'\<rparr>)" unfolding e by (rule assms(4)[OF \<open>P s'\<close>])
  qed
  then show "\<exists>f'. (\<forall>r. full_step mal mal_a mal_x kfd tfd t sx f TO_IAPP r \<longleftrightarrow> r = Some f') \<and> fserves kfd tfd t sx (map NET is @ js) Q f'"
    using s(1) assms(2,3) by (intro exI[of _ "f\<lparr>net := s, got_out := got_out f + 1\<rparr>"]) (simp add: full_step_simps)
qed

lemma fserves_to_xapp:
  assumes "xserves ((0, LOOP (xa_ep_fd (snd (xap f))) m) # is) P (xap f)" "msgs_to sx (ia_sent (iapp (ctl (net f)))) = ms @ m # ns" "got_in f = length ms"
    "\<forall>x \<in> set is. local_in (snd x)" "\<And>x. P x \<Longrightarrow> fserves kfd tfd t sx js Q (f\<lparr>xap := x, got_in := got_in f + 1\<rparr>)"
  shows "fserves kfd tfd t sx (TO_XAPP # map (\<lambda>(u, i). UI u i) is @ js) Q f"
  unfolding fserves.simps
proof (intro allI impI)
  fix mal mal_a mal_x assume "xa_fresh mal_x (snd (xap f))"
  then obtain y where y: "\<forall>r. xapp_step mal_x 0 (xap f) (LOOP (xa_ep_fd (snd (xap f))) m) r \<longleftrightarrow> r = Some y" "xserves is P y"
    using assms(1) unfolding xserves.simps by blast
  have "fserves kfd tfd t sx (map (\<lambda>(u, i). UI u i) is @ js) Q (f\<lparr>xap := y, got_in := got_in f + 1\<rparr>)"
  proof (rule fserves_ui[OF _ assms(4)])
    show "xserves is P (xap (f\<lparr>xap := y, got_in := got_in f + 1\<rparr>))" using y(2) by simp
    fix x assume "P x"
    have e: "f\<lparr>xap := y, got_in := got_in f + 1, xap := x\<rparr> = f\<lparr>xap := x, got_in := got_in f + 1\<rparr>" by simp
    show "fserves kfd tfd t sx js Q (f\<lparr>xap := y, got_in := got_in f + 1, xap := x\<rparr>)" unfolding e by (rule assms(5)[OF \<open>P x\<close>])
  qed
  then show "\<exists>f'. (\<forall>r. full_step mal mal_a mal_x kfd tfd t sx f TO_XAPP r \<longleftrightarrow> r = Some f') \<and>
      fserves kfd tfd t sx (map (\<lambda>(u, i). UI u i) is @ js) Q f'"
    using y(1) assms(2,3) by (intro exI[of _ "f\<lparr>xap := y, got_in := got_in f + 1\<rparr>"]) (simp add: full_step_simps)
qed


section \<open>A session\<close>

text \<open>What the programs stand for; nothing is under way between the xApp and the iApp.\<close>
definition full_rep :: "sctp_info \<Rightarrow> asystem \<Rightarrow> axapp \<Rightarrow> full_system \<Rightarrow> bool" where
  "full_rep sx A a f \<longleftrightarrow> sys_rep A (net f) \<and> xa_abs (xap f) a \<and> got_out f = length (x_out a) \<and> got_in f = length (msgs_to sx (to_xapps (a_ctl A)))"

lemma full_repD:
  assumes "full_rep sx A a f"
  shows "sys_rep A (net f)" "xa_abs (xap f) a" "got_out f = length (x_out a)" "got_in f = length (msgs_to sx (to_xapps (a_ctl A)))"
  using assms by (simp_all add: full_rep_def)

lemma sys_rep_sent: "sys_rep A s \<Longrightarrow> ia_sent (iapp (ctl s)) = to_xapps (a_ctl A)"
  by (simp add: sys_rep_def ctrl_rep_def)

lemma xa_abs_sent: "xa_abs x a \<Longrightarrow> xa_sent (snd x) = x_out a \<and> xa_ep_fd (snd x) = x_ep a"
  by (simp add: xa_abs_def)

text \<open>The caller does something and the xApp sends a message, which goes through the controller with what follows.\<close>
lemma fserves_request:
  assumes R: "full_rep sx A a f" and run: "xrun a ui b" "\<forall>x \<in> set ui. local_in (snd x)" "x_out b = x_out a @ [m]"
    and served: "\<And>s. sys_rep A s \<Longrightarrow> serves kfd tfd t (XAPP sx m # is) (sys_rep B) s"
    and cont: "\<And>g. sys_rep B (net g) \<Longrightarrow> xa_abs (xap g) b \<Longrightarrow> got_out g = length (x_out b) \<Longrightarrow>
      got_in g = length (msgs_to sx (to_xapps (a_ctl A))) \<Longrightarrow> fserves kfd tfd t sx js Q g"
  shows "fserves kfd tfd t sx (map (\<lambda>(u, i). UI u i) ui @ TO_IAPP # map NET is @ js) Q f"
proof (rule fserves_ui[OF xrun_serves[OF run(1) full_repD(2)[OF R]] run(2)])
  note r = full_repD[OF R]
  fix x assume x: "xa_abs x b"
  show "fserves kfd tfd t sx (TO_IAPP # map NET is @ js) Q (f\<lparr>xap := x\<rparr>)"
  proof (rule fserves_to_iapp[where ns = "[]"])
    show "serves kfd tfd t (XAPP sx m # is) (sys_rep B) (net (f\<lparr>xap := x\<rparr>))" using served[OF r(1)] by simp
    show "xa_sent (snd (xap (f\<lparr>xap := x\<rparr>))) = x_out a @ m # []" using xa_abs_sent[OF x] run(3) by simp
    show "got_out (f\<lparr>xap := x\<rparr>) = length (x_out a)" using r(3) by simp
    fix s assume "sys_rep B s"
    then show "fserves kfd tfd t sx js Q (f\<lparr>xap := x, net := s, got_out := got_out (f\<lparr>xap := x\<rparr>) + 1\<rparr>)"
      by (intro cont) (use x r run(3) in simp_all)
  qed
qed

text \<open>A message of the iApp reaches the xApp, which handles it; then the caller or the dispatcher go on.\<close>
lemma fserves_delivery:
  assumes B: "sys_rep B (net g)" "xa_abs (xap g) b" "got_in g = length ms" "msgs_to sx (to_xapps (a_ctl B)) = ms @ [m]"
    and run: "xrun b ((0, LOOP (x_ep b) m) # ui) c" "\<forall>x \<in> set ui. local_in (snd x)" "x_out c = x_out b" "got_out g = length (x_out b)"
    and cont: "\<And>h. full_rep sx B c h \<Longrightarrow> fserves kfd tfd t sx js Q h"
  shows "fserves kfd tfd t sx (TO_XAPP # map (\<lambda>(u, i). UI u i) ui @ js) Q g"
proof (rule fserves_to_xapp[where ns = "[]", OF _ _ B(3) run(2)])
  show "xserves ((0, LOOP (xa_ep_fd (snd (xap g))) m) # ui) (\<lambda>x. xa_abs x c) (xap g)"
    using xrun_serves[OF run(1) B(2)] xa_abs_sent[OF B(2)] by simp
  show "msgs_to sx (ia_sent (iapp (ctl (net g)))) = ms @ m # []" using sys_rep_sent[OF B(1)] B(4) by simp
  fix x assume "xa_abs x c"
  then show "fserves kfd tfd t sx js Q (g\<lparr>xap := x, got_in := got_in g + 1\<rparr>)"
    by (intro cont) (use B run(3,4) in \<open>simp add: full_rep_def\<close>)
qed

text \<open>The two views of the session agree.\<close>
definition same_session :: "session \<Rightarrow> xsession \<Rightarrow> byte_array \<times> byte_array option \<Rightarrow> axapp \<Rightarrow> bool" where
  "same_session w v e a \<longleftrightarrow> s_sub w = \<lparr>e42_sr_xapp_id = x_num a, e42_sr_id = w_node v, e42_sr = subs_request a (w_rf v) (fst e) (snd e)\<rparr>"

text \<open>The reports that the controller and the xApp can read.\<close>
definition xapp_data :: "sm_ric \<Rightarrow> sm_ind_data \<Rightarrow> sm_ag_if_rd_ind" where
  "xapp_data smx d = the (on_indication smx (sid_hdr d) (sid_msg d) None)"

definition xapp_readable :: "sm_ric \<Rightarrow> sm_ind_data \<Rightarrow> bool" where
  "xapp_readable smx d \<longleftrightarrow> (\<exists>rd. on_indication smx (sid_hdr d) (sid_msg d) None = Some rd \<and> ind_type_xapp (rd_type rd))"

definition full_inputs :: "axapp \<Rightarrow> xsession \<Rightarrow> int \<Rightarrow> sm_ind_data list \<Rightarrow> full_in list" where
  "full_inputs a v tfd ds =
     [UI (fst (w_timers v)) (CALL (REPORT (w_node v) (w_rf v) (w_cmd v) (w_cb v))), UI 0 WAIT, TO_IAPP, NET TO_NODE, NET TO_RIC, TO_XAPP, UI 0 WAKE_UP] @
     concat (map (\<lambda>d. [NET (AGENT_TIMER tfd d), NET TO_RIC, TO_XAPP, UI 0 DISPATCH]) ds) @
     [UI 0 (CALL (RM_REPORT (int (x_next a)))), UI (snd (w_timers v)) REGISTER, UI 0 WAIT, TO_IAPP, NET TO_NODE, NET TO_RIC, TO_XAPP, UI 0 WAKE_UP]"

lemma full_opens:
  assumes R: "full_rep sx A a f" and w: "can_subscribe w kfd tfd t A" "same_session w v e a" "s_xapp w = sx" and v: "xs_ready a v sm e"
    and cont: "\<And>h. full_rep sx (opened w tfd t A) (xs_open a v e) h \<Longrightarrow> fserves kfd tfd t sx js Q h"
  shows "fserves kfd tfd t sx ([UI (fst (w_timers v)) (CALL (REPORT (w_node v) (w_rf v) (w_cmd v) (w_cb v))), UI 0 WAIT, TO_IAPP, NET TO_NODE,
    NET TO_RIC, TO_XAPP, UI 0 WAKE_UP] @ js) Q f"
proof -
  let ?O = "opened w tfd t A" and ?m = "ric_sub_resp (granted (sr_ric_id (e42_sr (s_sub w))))"
  note o = listening_open[OF v, unfolded xs_listening_def]
  have i: "sr_ric_id (e42_sr (s_sub w)) = new_id a (w_rf v)" using w(2) by (simp add: same_session_def subs_request_def)
  have g: "ric_req_id (rs_ric_id (granted (sr_ric_id (e42_sr (s_sub w))))) = word_of_nat (x_next a)" by (simp add: i granted_def new_id_def)
  have "fserves kfd tfd t sx (map (\<lambda>(u, i). UI u i) [(fst (w_timers v), CALL (REPORT (w_node v) (w_rf v) (w_cmd v) (w_cb v))), (0, WAIT)] @
      TO_IAPP # map NET [TO_NODE, TO_RIC] @ TO_XAPP # map (\<lambda>(u, i). UI u i) [(0, WAKE_UP)] @ js) Q f"
  proof (rule fserves_request[OF R xrun_ask[OF v], where B = ?O and m = "e42_ric_sub_req (s_sub w)"])
    show "x_out (xs_asked a v e) = x_out a @ [e42_ric_sub_req (s_sub w)]"
      using w(2) by (simp add: xs_asked_def xs_open_def with_proc_def same_session_def)
    show "serves kfd tfd t (XAPP sx (e42_ric_sub_req (s_sub w)) # [TO_NODE, TO_RIC]) (sys_rep ?O) s" if "sys_rep A s" for s
      using session_opens[OF that w(1), of sx] by (simp add: open_inputs_def)
    fix g' :: full_system assume h: "sys_rep ?O (net g')" "xa_abs (xap g') (xs_asked a v e)" "got_out g' = length (x_out (xs_asked a v e))"
      "got_in g' = length (msgs_to sx (to_xapps (a_ctl A)))"
    have m: "msgs_to sx (to_xapps (a_ctl ?O)) = msgs_to sx (to_xapps (a_ctl A)) @ [?m]" using w(3) by (simp add: opened_def)
    have run: "xrun (xs_asked a v e) ((0, LOOP (x_ep (xs_asked a v e)) ?m) # [(0, WAKE_UP)]) (xs_open a v e)"
      using xrun_granted[OF v g] o by (simp add: xs_asked_def)
    show "fserves kfd tfd t sx (TO_XAPP # map (\<lambda>(u, i). UI u i) [(0, WAKE_UP)] @ js) Q g'"
      by (rule fserves_delivery[OF h(1,2,4) m run _ _ h(3) cont]) (simp_all add: local_in_def xs_asked_def)
  qed (simp_all add: local_in_def)
  then show ?thesis by simp
qed

text \<open>One report, from the timer of the plug-in to the callback.\<close>
lemma full_reports:
  assumes R: "full_rep sx B b f" and o: "is_open w tfd A B" and l: "xs_listening a v b" and w: "same_session w v e a" "s_xapp w = sx"
    and v: "xs_ready a v smx e" and d: "readable w d" "xapp_readable smx d"
    and cont: "\<And>h. full_rep sx (reported w A [d] B) (xs_fed v [xapp_data smx d] b) h \<Longrightarrow> fserves kfd tfd t sx js Q h"
  shows "fserves kfd tfd t sx ([NET (AGENT_TIMER tfd d), NET TO_RIC, TO_XAPP, UI 0 DISPATCH] @ js) Q f"
proof -
  let ?B = "reported w A [d] B" and ?c = "xs_fed v [xapp_data smx d] b" and ?m = "snd (to_xapp w A d)"
  note r = full_repD[OF R]
  have i: "sr_ric_id (e42_sr (s_sub w)) = new_id a (w_rf v)" using w(1) by (simp add: same_session_def subs_request_def)
  obtain n where n: "?m = ric_ind n" "ind_ric_id n = new_id a (w_rf v)" "ind_hdr n = sid_hdr d" "ind_msg n = sid_msg d" "ind_call_process_id n = None"
    using d(1) by (simp add: to_xapp_def i indication_def readable_def)
  have x: "list_all2 (xs_ind a v smx) [n] [xapp_data smx d]"
    using d(2) n by (auto simp: xs_ind_def new_id_def xapp_readable_def xapp_data_def)
  note l' = l[unfolded xs_listening_def]
  have q: "x_queue b = []" "(w_rf v, smx) \<in> set (x_rics b)" "w_cb v \<noteq> 0"
    "(word_of_nat (x_next a), \<lparr>av_type = RIC_SUBSCRIPTION_PROCEDURE_ACTIVE, av_id = new_id a (w_rf v), av_sm_cb = w_cb v, av_e2_node = w_node v\<rparr>) \<in> set (x_procs b)"
    using l' v by (simp_all add: xs_ready_def)
  have run: "xrun b ((0, LOOP (x_ep b) ?m) # [(0, DISPATCH)]) ?c" using xrun_fed[OF x q] n(1) by simp
  have "fserves kfd tfd t sx (map NET [AGENT_TIMER tfd d, TO_RIC] @ TO_XAPP # map (\<lambda>(u, i). UI u i) [(0, DISPATCH)] @ js) Q f"
  proof (rule fserves_net)
    show "serves kfd tfd t [AGENT_TIMER tfd d, TO_RIC] (sys_rep ?B) (net f)"
      by (rule one_report[OF r(1) o d(1)]) simp
    fix s assume s: "sys_rep ?B s"
    have m: "msgs_to sx (to_xapps (a_ctl ?B)) = msgs_to sx (to_xapps (a_ctl B)) @ [?m]" using w(2) by (simp add: reported_def to_xapp_def)
    show "fserves kfd tfd t sx (TO_XAPP # map (\<lambda>(u, i). UI u i) [(0, DISPATCH)] @ js) Q (f\<lparr>net := s\<rparr>)"
      by (rule fserves_delivery[OF _ _ _ m run _ _ _ cont]) (use s r in \<open>simp_all add: local_in_def xs_fed_def\<close>)
  qed
  then show ?thesis by simp
qed

lemma full_all_reports:
  assumes "full_rep sx B b f" "is_open w tfd A B" "xs_listening a v b" "same_session w v e a" "s_xapp w = sx"
    and "xs_ready a v smx e" "\<forall>d \<in> set ds. readable w d \<and> xapp_readable smx d"
    and "\<And>h. full_rep sx (reported w A ds B) (xs_fed v (map (xapp_data smx) ds) b) h \<Longrightarrow> fserves kfd tfd t sx js Q h"
  shows "fserves kfd tfd t sx (concat (map (\<lambda>d. [NET (AGENT_TIMER tfd d), NET TO_RIC, TO_XAPP, UI 0 DISPATCH]) ds) @ js) Q f"
  using assms
proof (induction ds arbitrary: B b f)
  case Nil
  have "reported w A [] B = B" "xs_fed v [] b = b" by (cases B) (simp_all add: reported_def xs_fed_def)
  then show ?case using Nil.prems(1,8) by simp
next
  case (Cons d ds)
  let ?r = "concat (map (\<lambda>d. [NET (AGENT_TIMER tfd d), NET TO_RIC, TO_XAPP, UI 0 DISPATCH]) ds) @ js"
  have e: "reported w A ds (reported w A [d] B) = reported w A (d # ds) B"
    "xs_fed v (map (xapp_data smx) ds) (xs_fed v [xapp_data smx d] b) = xs_fed v (map (xapp_data smx) (d # ds)) b"
    by (simp_all add: reported_def xs_fed_def)
  have d: "readable w d" "xapp_readable smx d" "\<forall>d \<in> set ds. readable w d \<and> xapp_readable smx d" using Cons.prems(7) by simp_all
  have "fserves kfd tfd t sx ?r Q h" if h: "full_rep sx (reported w A [d] B) (xs_fed v [xapp_data smx d] b) h" for h
    by (rule Cons.IH[OF h reported_is_open[OF Cons.prems(2)] listening_fed[OF Cons.prems(3)] Cons.prems(4-6) d(3)])
      (use Cons.prems(8) e in simp)
  from full_reports[OF Cons.prems(1-6) d(1,2) this] show ?case by simp
qed

lemma full_closes:
  assumes A: "full_rep sx A a f0" and w: "can_subscribe w kfd tfd t A" "same_session w v e a" "s_xapp w = sx" and v: "xs_ready a v smx e"
    and R: "full_rep sx (reported w A ds (opened w tfd t A)) (xs_fed v rds (xs_open a v e)) f"
    and cont: "\<And>h. full_rep sx (served w t ds A) (xs_closed a v (xs_fed v rds (xs_open a v e))) h \<Longrightarrow> fserves kfd tfd t sx js Q h"
  shows "fserves kfd tfd t sx ([UI 0 (CALL (RM_REPORT (int (x_next a)))), UI (snd (w_timers v)) REGISTER, UI 0 WAIT, TO_IAPP, NET TO_NODE,
    NET TO_RIC, TO_XAPP, UI 0 WAKE_UP] @ js) Q f"
proof -
  let ?R = "reported w A ds (opened w tfd t A)" and ?c = "xs_fed v rds (xs_open a v e)"
  let ?m = "ric_sub_del_resp \<lparr>sdp_ric_id = sr_ric_id (e42_sr (s_sub w))\<rparr>"
  note r = full_repD[OF A]
  note l = listening_fed[OF listening_open[OF v], of rds]
  have i: "sr_ric_id (e42_sr (s_sub w)) = new_id a (w_rf v)" "s_delete w = xs_sdr a v"
    using w(2) by (simp_all add: same_session_def subs_request_def s_delete_def xs_sdr_def)
  have g: "ric_req_id (sdp_ric_id \<lparr>sdp_ric_id = sr_ric_id (e42_sr (s_sub w))\<rparr>) = word_of_nat (x_next a)" by (simp add: i(1) new_id_def)
  have "fserves kfd tfd t sx (map (\<lambda>(u, i). UI u i) [(0, CALL (RM_REPORT (int (x_next a)))), (snd (w_timers v), REGISTER), (0, WAIT)] @
      TO_IAPP # map NET [TO_NODE, TO_RIC] @ TO_XAPP # map (\<lambda>(u, i). UI u i) [(0, WAKE_UP)] @ js) Q f"
  proof (rule fserves_request[OF R xrun_end[OF r(2) v l], where B = "served w t ds A" and m = "e42_ric_sub_del_req (s_delete w)"])
    show "x_out (xs_ending a v ?c) = x_out ?c @ [e42_ric_sub_del_req (s_delete w)]" by (simp add: xs_ending_def i(2))
    show "serves kfd tfd t (XAPP sx (e42_ric_sub_del_req (s_delete w)) # [TO_NODE, TO_RIC]) (sys_rep (served w t ds A)) s" if "sys_rep ?R s" for s
      using session_ends[OF r(1) w(1) that, of sx] by (simp add: close_inputs_def)
    fix g' :: full_system assume h: "sys_rep (served w t ds A) (net g')" "xa_abs (xap g') (xs_ending a v ?c)"
      "got_out g' = length (x_out (xs_ending a v ?c))" "got_in g' = length (msgs_to sx (to_xapps (a_ctl ?R)))"
    have m: "msgs_to sx (to_xapps (a_ctl (served w t ds A))) = msgs_to sx (to_xapps (a_ctl ?R)) @ [?m]"
      using w(3) by (simp add: served_def reported_def opened_def)
    have "x_ep (xs_ending a v ?c) = x_ep a" using l by (simp add: xs_listening_def xs_ending_def)
    then have run: "xrun (xs_ending a v ?c) ((0, LOOP (x_ep (xs_ending a v ?c)) ?m) # [(0, WAKE_UP)]) (xs_closed a v ?c)"
      using xrun_ended[OF r(2) v l g] by simp
    show "fserves kfd tfd t sx (TO_XAPP # map (\<lambda>(u, i). UI u i) [(0, WAKE_UP)] @ js) Q g'"
      by (rule fserves_delivery[OF h(1,2,4) m run _ _ h(3) cont]) (simp_all add: local_in_def xs_ending_def xs_closed_def xs_sdr_def)
  qed (simp_all add: local_in_def)
  then show ?thesis by simp
qed

lemma fserves_session:
  assumes "full_rep sx A a f" "can_subscribe w kfd tfd t A" "same_session w v e a" "s_xapp w = sx" "xs_ready a v smx e"
    and "\<forall>d \<in> set ds. readable w d \<and> xapp_readable smx d"
  shows "fserves kfd tfd t sx (full_inputs a v tfd ds)
    (full_rep sx (served w t ds A) (xs_closed a v (xs_fed v (map (xapp_data smx) ds) (xs_open a v e)))) f"
  unfolding full_inputs_def
proof (rule full_opens[OF assms(1-5)], rule full_all_reports[OF _ opened_is_open[OF assms(2)] listening_open[OF assms(5)] assms(3-6)])
  fix h assume h: "full_rep sx (reported w A ds (opened w tfd t A)) (xs_fed v (map (xapp_data smx) ds) (xs_open a v e)) h"
  show "fserves kfd tfd t sx [UI 0 (CALL (RM_REPORT (int (x_next a)))), UI (snd (w_timers v)) REGISTER, UI 0 WAIT, TO_IAPP, NET TO_NODE, NET TO_RIC, TO_XAPP,
    UI 0 WAKE_UP] (full_rep sx (served w t ds A) (xs_closed a v (xs_fed v (map (xapp_data smx) ds) (xs_open a v e)))) h"
    using full_closes[OF assms(1-5) h, where js = "[]"] by simp
qed


text \<open>The example: the controller and the agent of the earlier one, and the xApp that is registered there.\<close>
definition ex_fax :: axapp where
  "ex_fax = ex_ax\<lparr>x_num := 7\<rparr>"

definition ex_fw :: session where
  "ex_fw = \<lparr>s_sub = \<lparr>e42_sr_xapp_id = 7, e42_sr_id = ex_gnb 1, e42_sr = subs_request ex_fax 2 [1] None\<rparr>, s_agent_sm = ex_sma, s_ric_sm = ex_sm,
     s_xapp = ex_addr 100, s_listeners = three\<rparr>"

lemma ex_fw_can_subscribe: "can_subscribe ex_fw ex_kfd 9 (ex_addr 100) ex_asys"
proof -
  have "periodic ex_sma (s_req ex_fw ex_asys)"
    by (simp add: periodic_def s_req_def ex_fw_def subs_request_def ex_sma_answer)
  then show ?thesis
    by (simp add: can_subscribe_def may_request_def s_xid_def)
      (simp add: ex_fw_def ex_asys_def ex_aagent_def ex_actrl_def ex_kfd_def subs_request_def new_id_def ex_fax_def ex_number)
qed

lemma ex_full: obtains f where "full_rep (ex_addr 100) ex_asys ex_fax f" "fresh_mem ex_mal (ctl (net f))" "ag_fresh (\<lambda>j. 10 + j) (agt (net f))"
    "xa_fresh (\<lambda>j. 20 + j) (snd (xap f))"
proof -
  obtain x where x: "init_e42_xapp (\<lambda>j. 10 + j) 3 (ex_plug_tree ex_sma) (ex_plug_tree ex_sm) = Some x" "xa_abs (UI_IDLE, x) ex_ax" by (rule ex_xapp)
  let ?f = "\<lparr>net = \<lparr>ctl = ex_ctrl, agt = ex_agent, got_down = 0, got_up = 0\<rparr>, xap = (UI_IDLE, x\<lparr>xa_id := 7\<rparr>), got_out = 0, got_in = 0\<rparr>"
  have a: "xa_abs (UI_IDLE, x\<lparr>xa_id := 7\<rparr>) ex_fax" using x(2) by (simp add: xa_abs_def ex_fax_def)
  have "full_rep (ex_addr 100) ex_asys ex_fax ?f"
    using ex_ctrl_rep ex_a_inv ex_ag_abs a
    by (simp add: full_rep_def sys_rep_def) (simp add: ex_asys_def ex_fax_def ex_ax_def x_initial_def ex_actrl_def ex_aagent_def)
  moreover have "xa_fresh (\<lambda>j. 20 + j) (x\<lparr>xa_id := 7\<rparr>)" using ex_xapp_fresh[OF x(1)] by (simp add: xa_fresh_def)
  ultimately show thesis using that[of ?f] ex_fresh ex_ag_fresh by simp
qed


end
