(* ===== verification/Full_Control.thy ===== *)
theory Full_Control
  imports Full_System
begin

text \<open>
  A control request from the call of the caller through the controller to the plug-in of an agent, and the acknowledgement
  back.
\<close>

section \<open>The controller and the agent\<close>

record control =
  k_req :: e42_ric_control_request
  k_agent_sm :: sm_agent
  k_xapp :: sctp_info

definition k_xid :: "control \<Rightarrow> xapp_ric_id" where
  "k_xid k = \<lparr>x_ric_id = cr_ric_id (e42_ctrl_req (k_req k)), xapp_id = e42_cr_xapp_id (k_req k)\<rparr>"

definition k_rid :: "control \<Rightarrow> asystem \<Rightarrow> ric_gen_id" where
  "k_rid k A = renumbered (next_req (a_ctl A)) (cr_ric_id (e42_ctrl_req (k_req k)))"

definition can_control :: "control \<Rightarrow> (nat \<Rightarrow> int) \<Rightarrow> sctp_info \<Rightarrow> asystem \<Rightarrow> bool" where
  "can_control k kfd t A \<longleftrightarrow>
     may_request (a_ctl A) (kfd 0) (e42_cr_id (k_req k)) t (k_xid k) \<and> length (regs (a_ctl A)) < 256 \<and>
     (e42_cr_xapp_id (k_req k), k_xapp k) \<in># xapps (a_ctl A) \<and>
     (ran_func_id (cr_ric_id (e42_ctrl_req (k_req k))), k_agent_sm k) \<in> set (plugs (a_agt A)) \<and>
     cr_ack_req (e42_ctrl_req (k_req k)) = Some RIC_CONTROL_REQUEST_ACK \<and>
     sma_on_control (k_agent_sm k) (cr_hdr (e42_ctrl_req (k_req k))) (cr_msg (e42_ctrl_req (k_req k))) \<noteq> None \<and>
     a_down A = length (msgs_to t (to_nodes (a_ctl A))) \<and> a_up A = length (out (a_agt A))"

text \<open>What the plug-in in the agent answers.\<close>
definition k_outcome :: "control \<Rightarrow> byte_array" where
  "k_outcome k = the (sma_on_control (k_agent_sm k) (cr_hdr (e42_ctrl_req (k_req k))) (cr_msg (e42_ctrl_req (k_req k))))"

definition k_ack :: "control \<Rightarrow> asystem \<Rightarrow> ric_control_acknowledge" where
  "k_ack k A = \<lparr>ca_ric_id = k_rid k A, ca_call_process_id = None, ca_control_outcome = if k_outcome k = [] then None else Some (k_outcome k)\<rparr>"

text \<open>After the request: the counter is one higher and messages have gone both ways.\<close>
definition k_done :: "control \<Rightarrow> sctp_info \<Rightarrow> asystem \<Rightarrow> asystem" where
  "k_done k t A = \<lparr>
     a_ctl = (a_ctl A)\<lparr>next_req := next_req (a_ctl A) + 1,
       to_nodes := to_nodes (a_ctl A) @ [(t, ric_ctrl_req ((e42_ctrl_req (k_req k))\<lparr>cr_ric_id := k_rid k A\<rparr>))],
       to_xapps := to_xapps (a_ctl A) @ [(k_xapp k, ric_ctrl_ack \<lparr>ca_ric_id = cr_ric_id (e42_ctrl_req (k_req k)), ca_call_process_id = None,
         ca_control_outcome = None\<rparr>)]\<rparr>,
     a_agt = (a_agt A)\<lparr>out := out (a_agt A) @ [ric_ctrl_ack (k_ack k A)]\<rparr>,
     a_down = a_down A + 1, a_up = a_up A + 1\<rparr>"

lemma control_served:
  assumes "sys_rep A s" and w: "can_control k kfd t A"
  shows "serves kfd tfd t [XAPP info (e42_ric_ctrl_req (k_req k)), TO_NODE, TO_RIC] (sys_rep (k_done k t A)) s"
proof -
  let ?a = "a_ctl A" and ?g = "a_agt A" and ?q = "k_req k" and ?i = "k_rid k A" and ?x = "k_xid k"
  let ?r = "(e42_ctrl_req ?q)\<lparr>cr_ric_id := ?i\<rparr>"
  let ?b = "(new_req CONTROL_REQUEST_PENDING_EVENT CONTROL_RIC_REQUEST_TYPE (kfd 0) (e42_cr_id ?q) ?x ?a)
    \<lparr>to_nodes := to_nodes ?a @ [(t, ric_ctrl_req ?r)]\<rparr>"
  let ?n = "\<lparr>e2_node_id = e42_cr_id ?q, e_ric_id = ?i, ric_req_type = CONTROL_RIC_REQUEST_TYPE\<rparr>"
  let ?h = "?g\<lparr>out := out ?g @ [ric_ctrl_ack (k_ack k A)]\<rparr>"
  have may: "may_request ?a (kfd 0) (e42_cr_id ?q) t ?x" and kf: "kfd 0 \<notin> fds ?a"
    using w by (simp_all add: can_control_def may_request_def)
  have i: "renumbered (next_req ?a) (x_ric_id ?x) = ?i" by (simp add: k_rid_def k_xid_def)
  have st1: "astep ?a kfd (IAPP_EVENT (MSG_ARRIVED info (e42_ric_ctrl_req ?q))) ?b"
    using astep.control[where kfd = kfd, OF k_xid_def may _ refl, of info] w i by (simp add: can_control_def)
  have st2: "agstep [] tfd ?g (FROM_RIC (ric_ctrl_req ?r)) ?h"
    using agstep.control[of ?r "k_agent_sm k" ?g "k_outcome k" "[]" tfd] w
    by (auto simp: can_control_def k_outcome_def k_ack_def k_rid_def renumbered_def)
  have st3: "astep ?b kfd (RIC_EVENT (MSG_ARRIVED t (ric_ctrl_ack (k_ack k A)))) (?b\<lparr>
      pend := pend ?b - {#(kfd 0, \<lparr>p_ev = CONTROL_REQUEST_PENDING_EVENT, p_id = ca_ric_id (k_ack k A)\<rparr>)#}, fds := fds ?b - {kfd 0},
      reqs := reqs ?b - {#(?n, ?x)#},
      to_xapps := to_xapps ?b @ [(k_xapp k, ric_ctrl_ack \<lparr>ca_ric_id = x_ric_id ?x, ca_call_process_id = None, ca_control_outcome = None\<rparr>)]\<rparr>)"
    by (rule astep.controlled)
      (use w i in \<open>simp_all add: can_control_def new_req_def k_ack_def matches_def same_func_def k_rid_def k_xid_def renumbered_def\<close>)
  have fin: "?b\<lparr>
      pend := pend ?b - {#(kfd 0, \<lparr>p_ev = CONTROL_REQUEST_PENDING_EVENT, p_id = ca_ric_id (k_ack k A)\<rparr>)#}, fds := fds ?b - {kfd 0},
      reqs := reqs ?b - {#(?n, ?x)#},
      to_xapps := to_xapps ?b @ [(k_xapp k, ric_ctrl_ack \<lparr>ca_ric_id = x_ric_id ?x, ca_call_process_id = None, ca_control_outcome = None\<rparr>)]\<rparr>
    = a_ctl (k_done k t A)"
    using kf i by (intro actrl.equality) (simp_all add: k_done_def new_req_def k_ack_def k_xid_def k_rid_def)
  let ?A1 = "\<lparr>a_ctl = ?b, a_agt = ?g, a_down = a_down A, a_up = a_up A\<rparr>"
  let ?A2 = "\<lparr>a_ctl = ?b, a_agt = ?h, a_down = a_down A + 1, a_up = a_up A\<rparr>"
  have d: "msgs_to t (to_nodes ?b) = msgs_to t (to_nodes ?a) @ ric_ctrl_req ?r # []" "a_down A = length (msgs_to t (to_nodes ?a))"
    and u: "out ?h = out ?g @ ric_ctrl_ack (k_ack k A) # []" "a_up A = length (out ?g)"
    using w by (simp_all add: can_control_def)
  have s3: "serves kfd tfd t [TO_RIC] (sys_rep (k_done k t A)) s'" if "sys_rep ?A2 s'" for s'
  proof (rule serves_to_ric[OF that, where b = "a_ctl (k_done k t A)"])
    show "out (a_agt ?A2) = out ?g @ ric_ctrl_ack (k_ack k A) # []" "a_up ?A2 = length (out ?g)" using u by simp_all
    show "astep (a_ctl ?A2) kfd (RIC_EVENT (MSG_ARRIVED t (ric_ctrl_ack (k_ack k A)))) (a_ctl (k_done k t A))"
      using st3 unfolding fin by simp
  qed (simp add: k_done_def)
  have s2: "serves kfd tfd t [TO_NODE, TO_RIC] (sys_rep (k_done k t A)) s'" if "sys_rep ?A1 s'" for s'
    by (rule serves_to_node[OF that, where b = ?h]) (use d st2 s3 in simp_all)
  show ?thesis by (rule serves_xapp[OF assms(1) st1 s2])
qed

section \<open>The xApp\<close>

record xcontrol =
  c_node :: global_e2_node_id
  c_rf :: uint16
  c_cmd :: sm_ctrl_cmd
  c_timer :: int

definition xc_ready :: "axapp \<Rightarrow> xcontrol \<Rightarrow> sm_ric \<Rightarrow> byte_array \<times> byte_array \<Rightarrow> bool" where
  "xc_ready a w sm e \<longleftrightarrow> x_pc a = UI_IDLE \<and> valid_ran_func_id (c_rf w) \<and> (c_rf w, sm) \<in> set (x_rics a) \<and> on_control_req sm (c_cmd w) = Some e \<and>
     length (fst e) < 2049 \<and> length (snd e) < 2049 \<and> x_next a < 65536 \<and> 0 < c_timer w \<and> c_timer w \<notin> x_polled a \<and>
     none_of_kind E42_RIC_CONTROL_REQUEST_PENDING_EVENT (x_pend a)"

definition xc_req :: "axapp \<Rightarrow> xcontrol \<Rightarrow> byte_array \<times> byte_array \<Rightarrow> e42_ric_control_request" where
  "xc_req a w e = \<lparr>e42_cr_xapp_id = x_num a, e42_cr_id = c_node w, e42_ctrl_req = ctrl_request a (c_rf w) (fst e) (snd e)\<rparr>"

text \<open>The caller waits, and has returned: a number is used up.\<close>
definition xc_asked :: "axapp \<Rightarrow> xcontrol \<Rightarrow> byte_array \<times> byte_array \<Rightarrow> axapp" where
  "xc_asked a w e = (with_proc a RIC_CONTROL_PROCEDURE_ACTIVE (c_rf w) (c_node w) 0)\<lparr>
     x_pc := UI_BLOCKED (REMOVE_CONTROL (word_of_nat (x_next a))), x_flags := \<lparr>flag_sync = False, msg_ack = False\<rparr>,
     x_polled := insert (c_timer w) (x_polled a), x_pend := add_mset (c_timer w, ctrl_event (xc_req a w e)) (x_pend a),
     x_out := x_out a @ [e42_ric_ctrl_req (xc_req a w e)]\<rparr>"

definition xc_done :: "axapp \<Rightarrow> xcontrol \<Rightarrow> byte_array \<times> byte_array \<Rightarrow> axapp" where
  "xc_done a w e = a\<lparr>x_next := x_next a + 1, x_flags := \<lparr>flag_sync = True, msg_ack = True\<rparr>, x_out := x_out a @ [e42_ric_ctrl_req (xc_req a w e)]\<rparr>"

lemma xrun_control:
  assumes "xc_ready a w sm e"
  shows "xrun a [(0, CALL (CONTROL (c_node w) (c_rf w) (c_cmd w))), (c_timer w, REGISTER), (0, WAIT)] (xc_asked a w e)"
proof -
  obtain hdr msg where e: "e = (hdr, msg)" by (cases e)
  note r = assms[unfolded xc_ready_def]
  let ?h = "REMOVE_CONTROL (word_of_nat (x_next a))" and ?ev = "ctrl_event (xc_req a w e)"
  let ?b = "(with_proc a RIC_CONTROL_PROCEDURE_ACTIVE (c_rf w) (c_node w) 0)\<lparr>x_pc := UI_PEND ?ev ?h, x_out := x_out a @ [e42_ric_ctrl_req (xc_req a w e)]\<rparr>"
  let ?c = "?b\<lparr>x_pc := UI_ENTER ?h, x_polled := insert (c_timer w) (x_polled ?b), x_pend := add_mset (c_timer w, ?ev) (x_pend ?b)\<rparr>"
  let ?d = "?c\<lparr>x_pc := UI_BLOCKED ?h, x_flags := \<lparr>flag_sync = False, msg_ack = False\<rparr>\<rparr>"
  have 1: "xstep 0 a (CALL (CONTROL (c_node w) (c_rf w) (c_cmd w))) ?b"
    by (rule xstep.control[where sm = sm and hdr = hdr and msg = msg]) (use r in \<open>simp_all add: e xc_req_def\<close>)
  have 2: "xstep (c_timer w) ?b REGISTER ?c" by (rule xstep.register) (use r in \<open>simp_all add: ctrl_event_def with_proc_def\<close>)
  have 3: "xstep 0 ?c WAIT ?d" by (rule xstep.wait) simp
  have q: "?d = xc_asked a w e" by (simp add: xc_asked_def with_proc_def)
  show ?thesis using xrun_cons[OF 1 xrun_cons[OF 2 xrun_cons[OF 3[unfolded q] xrun_nil]]] .
qed

lemma xrun_controlled:
  assumes A: "xa_abs s a" and r: "xc_ready a w sm e" and m: "ric_req_id (ca_ric_id m) = word_of_nat (x_next a)"
  shows "xrun (xc_asked a w e) [(0, LOOP (x_ep a) (ric_ctrl_ack m)), (0, WAKE_UP)] (xc_done a w e)"
proof -
  let ?n = "word_of_nat (x_next a) :: uint32" and ?e = "xc_asked a w e" and ?h = "REMOVE_CONTROL (word_of_nat (x_next a))"
  let ?v = "\<lparr>av_type = RIC_CONTROL_PROCEDURE_ACTIVE, av_id = new_id a (c_rf w), av_sm_cb = 0, av_e2_node = c_node w\<rparr>"
  let ?f = "answered ?e (c_timer w) (ctrl_event (xc_req a w e))"
  have r': "x_next a < 65536" "c_timer w \<notin> x_polled a" "x_pc a = UI_IDLE" using r by (simp_all add: xc_ready_def)
  note n = next_number[OF A r'(1)]
  have u: "ucast (word_of_nat (x_next a) :: uint16) = ?n"
    using r'(1) by (intro word_unat_eq_iff[THEN iffD2]) (simp add: unsigned_ucast_eq unat_of_nat unsigned_take_bit_eq take_bit_nat_eq_self)
  have v: "(ric_req_id (ca_ric_id m), ?v) \<in> set (x_procs ?e)" using m by (simp add: xc_asked_def with_proc_def)
  have 1: "xstep 0 ?e (LOOP (x_ep ?e) (ric_ctrl_ack m)) ?f"
    by (rule xstep.controlled[OF v]) (simp_all add: ctrl_event_def xc_asked_def)
  have p: "x_ep ?e = x_ep a" by (simp add: xc_asked_def with_proc_def)
  let ?g = "?f\<lparr>x_pc := UI_IDLE, x_procs := (case number_of ?h of None \<Rightarrow> x_procs ?f | Some h \<Rightarrow> filter (\<lambda>e. fst e \<noteq> ucast h) (x_procs ?f))\<rparr>"
  have 2: "xstep 0 ?f WAKE_UP ?g" by (rule xstep.wake_up) (use u in \<open>simp_all add: answered_def number_of_def xc_asked_def with_proc_def\<close>)
  have k: "filter (\<lambda>e. fst e \<noteq> ?n) (x_procs a) = x_procs a" by (rule filter_True) (use n(1) in force)
  have q: "?g = xc_done a w e"
    using u k r' by (simp add: answered_def number_of_def xc_done_def xc_asked_def with_proc_def)
  show ?thesis using xrun_cons[OF 1[unfolded p] xrun_cons[OF 2[unfolded q] xrun_nil]] .
qed

section \<open>The three programs\<close>

definition same_control :: "control \<Rightarrow> xcontrol \<Rightarrow> byte_array \<times> byte_array \<Rightarrow> axapp \<Rightarrow> bool" where
  "same_control k v e a \<longleftrightarrow> k_req k = xc_req a v e"

definition control_inputs :: "xcontrol \<Rightarrow> full_in list" where
  "control_inputs v = [UI 0 (CALL (CONTROL (c_node v) (c_rf v) (c_cmd v))), UI (c_timer v) REGISTER, UI 0 WAIT, TO_IAPP, NET TO_NODE,
     NET TO_RIC, TO_XAPP, UI 0 WAKE_UP]"

lemma fserves_control:
  assumes R: "full_rep sx A a f" and w: "can_control k kfd t A" "same_control k v e a" "k_xapp k = sx" and v: "xc_ready a v sm e"
  shows "fserves kfd tfd t sx (control_inputs v) (full_rep sx (k_done k t A) (xc_done a v e)) f"
proof -
  let ?m = "ric_ctrl_ack \<lparr>ca_ric_id = cr_ric_id (e42_ctrl_req (k_req k)), ca_call_process_id = None, ca_control_outcome = None\<rparr>"
  note r = full_repD[OF R]
  have i: "k_req k = xc_req a v e" using w(2) by (simp add: same_control_def)
  have g: "ric_req_id (ca_ric_id \<lparr>ca_ric_id = cr_ric_id (e42_ctrl_req (k_req k)), ca_call_process_id = None, ca_control_outcome = None\<rparr>) = word_of_nat (x_next a)"
    by (simp add: i xc_req_def ctrl_request_def new_id_def)
  have "fserves kfd tfd t sx (map (\<lambda>(u, i). UI u i) [(0, CALL (CONTROL (c_node v) (c_rf v) (c_cmd v))), (c_timer v, REGISTER), (0, WAIT)] @
      TO_IAPP # map NET [TO_NODE, TO_RIC] @ TO_XAPP # map (\<lambda>(u, i). UI u i) [(0, WAKE_UP)] @ []) (full_rep sx (k_done k t A) (xc_done a v e)) f"
  proof (rule fserves_request[OF R xrun_control[OF v], where B = "k_done k t A" and m = "e42_ric_ctrl_req (k_req k)"])
    show "x_out (xc_asked a v e) = x_out a @ [e42_ric_ctrl_req (k_req k)]" by (simp add: xc_asked_def i)
    show "serves kfd tfd t (XAPP sx (e42_ric_ctrl_req (k_req k)) # [TO_NODE, TO_RIC]) (sys_rep (k_done k t A)) s" if "sys_rep A s" for s
      by (rule control_served[OF that w(1)])
    fix g' :: full_system assume h: "sys_rep (k_done k t A) (net g')" "xa_abs (xap g') (xc_asked a v e)"
      "got_out g' = length (x_out (xc_asked a v e))" "got_in g' = length (msgs_to sx (to_xapps (a_ctl A)))"
    have m: "msgs_to sx (to_xapps (a_ctl (k_done k t A))) = msgs_to sx (to_xapps (a_ctl A)) @ [?m]" using w(3) by (simp add: k_done_def)
    have "x_ep (xc_asked a v e) = x_ep a" by (simp add: xc_asked_def with_proc_def)
    then have run: "xrun (xc_asked a v e) ((0, LOOP (x_ep (xc_asked a v e)) ?m) # [(0, WAKE_UP)]) (xc_done a v e)"
      using xrun_controlled[OF r(2) v g] by simp
    show "fserves kfd tfd t sx (TO_XAPP # map (\<lambda>(u, i). UI u i) [(0, WAKE_UP)] @ []) (full_rep sx (k_done k t A) (xc_done a v e)) g'"
      by (rule fserves_delivery[OF h(1,2,4) m run _ _ h(3)]) (simp_all add: local_in_def xc_asked_def xc_done_def)
  qed (simp_all add: local_in_def)
  then show ?thesis by (simp add: control_inputs_def)
qed

text \<open>C4: A control request through all three programs: the caller asks for it and registers the pending event before the request is handled, the
  plug-in of the agent gets the header and the message, and the acknowledgement wakes the caller up; what the plug-in answers
  reaches the controller and not the xApp.  No assertion fails, and afterwards the tables, timers and
  descriptors of the three are what they were.\<close>
theorem full_control:
  assumes R: "full_rep sx A a f" and w: "can_control k kfd t A" "same_control k v e a" "k_xapp k = sx" and v: "xc_ready a v sm e"
  shows "fserves kfd tfd t sx (control_inputs v) (full_rep sx (k_done k t A) (xc_done a v e)) f"
  using assms by (rule fserves_control)

definition ex_xc :: xcontrol where
  "ex_xc = \<lparr>c_node = ex_gnb 1, c_rf = 2, c_cmd = CTRL_BYTES [4], c_timer = 9\<rparr>"

definition ex_k :: control where
  "ex_k = \<lparr>k_req = xc_req ex_fax ex_xc ([4], [4]), k_agent_sm = ex_sma, k_xapp = ex_addr 100\<rparr>"

theorem full_control_witness:
  "\<exists>f. full_rep (ex_addr 100) ex_asys ex_fax f \<and>
    fserves ex_kfd 9 (ex_addr 100) (ex_addr 100) (control_inputs ex_xc) (full_rep (ex_addr 100) (k_done ex_k (ex_addr 100) ex_asys) (xc_done ex_fax ex_xc ([4], [4]))) f"
proof -
  obtain f where f: "full_rep (ex_addr 100) ex_asys ex_fax f" by (rule ex_full)
  have a: "sma_on_control ex_sma h m = Some []" for h m by (simp add: ex_sma_def)
  have c: "can_control ex_k ex_kfd (ex_addr 100) ex_asys"
    using a by (simp add: can_control_def may_request_def k_xid_def)
      (simp add: ex_k_def ex_xc_def xc_req_def ex_asys_def ex_aagent_def ex_actrl_def ex_kfd_def ctrl_request_def new_id_def ex_fax_def ex_number)
  have s: "same_control ex_k ex_xc ([4], [4]) ex_fax" "k_xapp ex_k = ex_addr 100" by (simp_all add: same_control_def ex_k_def)
  have o: "on_control_req ex_sm (CTRL_BYTES [4]) = Some ([4], [4])" by (simp add: ex_sm_def)
  have v: "xc_ready ex_fax ex_xc ex_sm ([4], [4])"
    using o by (simp add: xc_ready_def ex_xc_def ex_fax_def ex_number valid_ran_func_id_def none_of_kind_def) (simp add: ex_ax_def x_initial_def)
  from full_control[OF f c s v] f show ?thesis by blast
qed

end
