(* ===== verification/Sm_Plugins.thy ===== *)
theory Sm_Plugins
  imports Agent Stats_Roundtrip Slice_Roundtrip
begin

text \<open>
  The plug-ins of the service models MAC, RLC, PDCP, GTP and SLICE: src/sm/mac_sm/mac_sm_agent.c, mac_sm_ric.c and the same
  files of the other models.  The agent's plug-in answers subscriptions, encodes what it reads from the radio access network
  and decodes control requests for it; the plug-in of the controller and the xApp encodes subscriptions and control requests and decodes
  indications.  What is read from the RAN is an argument, what is written to it is returned.
\<close>

section \<open>Commands of the caller\<close>

text \<open>Whether \<open>strncmp\<close> finds no difference; a string without its end is read beyond its allocation.\<close>
fun strncmp_eq :: "byte list \<Rightarrow> byte list \<Rightarrow> nat \<Rightarrow> bool option" where
  "strncmp_eq xs ys 0 = Some True"
| "strncmp_eq (x # xs) (y # ys) (Suc n) = (if x \<noteq> y then Some False else if x = 0 then Some True else strncmp_eq xs ys n)"
| "strncmp_eq xs ys (Suc n) = None"

definition c_string :: "string \<Rightarrow> byte list" where
  "c_string s = cp_str_to_ba s @ [0]"

definition ms_of_cmd :: "byte_array \<Rightarrow> uint32 option" where
  "ms_of_cmd cmd = do {
     b \<leftarrow> strncmp_eq cmd (c_string ''1_ms'') 10;
     if b then Some 1 else do {
     b \<leftarrow> strncmp_eq cmd (c_string ''2_ms'') 10;
     if b then Some 2 else do {
     b \<leftarrow> strncmp_eq cmd (c_string ''5_ms'') 10;
     if b then Some 5 else do {
     b \<leftarrow> strncmp_eq cmd (c_string ''10_ms'') 10;
     if b then Some 10 else None
     }}}
   }"

section \<open>Plug-ins\<close>

subsection \<open>MAC\<close>

definition on_subscription_mac_sm_ag :: "byte_array \<Rightarrow> sm_ag_if_ans_subs option" where
  "on_subscription_mac_sm_ag event_trigger = do {
     ev \<leftarrow> mac_dec_event_trigger_plain event_trigger;
     Some \<lparr>ans_type = PERIODIC_SUBSCRIPTION_FLRC, ans_ms = int (unat (me_ms ev)), ans_act_def = []\<rparr>
   }"

definition on_indication_mac_sm_ag :: "byte_array \<Rightarrow> mac_ind_data option \<Rightarrow> sm_ind_data option option" where
  "on_indication_mac_sm_ag act_def rd = do {
     c_assert (act_def = []);
     ba_hdr \<leftarrow> mac_enc_ind_hdr_plain \<lparr>mh_dummy = 0\<rparr>;
     (case rd of
         None \<Rightarrow> Some None
       | Some ind \<Rightarrow> do {
           ba \<leftarrow> mac_enc_ind_msg_plain (mi_msg ind);
           Some (Some \<lparr>sid_hdr = ba_hdr, sid_msg = ba, sid_cpid = None\<rparr>)
         })
   }"

definition on_control_mac_sm_ag :: "byte_array \<Rightarrow> byte_array \<Rightarrow> (mac_ctrl_req_data \<times> byte_array) option" where
  "on_control_mac_sm_ag ctrl_hdr ctrl_msg = do {
     hdr \<leftarrow> mac_dec_ctrl_hdr_plain ctrl_hdr;
     c_assert (mc_dummy hdr = 1);
     msg \<leftarrow> mac_dec_ctrl_msg_plain ctrl_msg;
     c_assert (mc_action msg = 42);
     Some (\<lparr>mr_hdr = \<lparr>mc_dummy = mc_dummy hdr\<rparr>, mr_msg = \<lparr>mc_action = mc_action msg\<rparr>\<rparr>, [])
   }"

definition on_e2_setup_mac_sm_ag :: byte_array where
  "on_e2_setup_mac_sm_ag = cp_str_to_ba ''MAC_STATS_V0''"

definition make_mac_sm_agent :: sm_agent where
  "make_mac_sm_agent = \<lparr>sma_id = 142, sma_rev = 1, sma_oid = ''0.0.0.0.0.0.0.0.1.142.0'',
     sma_on_subscription = (\<lambda>et ad n. on_subscription_mac_sm_ag et),
     sma_on_control = (\<lambda>hdr msg. map_option snd (on_control_mac_sm_ag hdr msg)),
     sma_on_e2_setup = on_e2_setup_mac_sm_ag, sma_has_free_act_def = False\<rparr>"

definition on_subscription_mac_sm_ric :: "byte_array \<Rightarrow> (byte_array \<times> byte_array option) option" where
  "on_subscription_mac_sm_ric cmd = do {
     ms \<leftarrow> ms_of_cmd cmd;
     ba \<leftarrow> mac_enc_event_trigger_plain \<lparr>me_ms = ms\<rparr>;
     Some (ba, None)
   }"

definition on_indication_mac_sm_ric :: "byte_array \<Rightarrow> byte_array \<Rightarrow> byte_array option \<Rightarrow> sm_ag_if_rd_ind option" where
  "on_indication_mac_sm_ric ba_hdr ba_msg cpid = do {
     hdr \<leftarrow> mac_dec_ind_hdr_plain ba_hdr;
     msg \<leftarrow> mac_dec_ind_msg_plain ba_msg;
     c_assert (cpid = None);
     Some \<lparr>rd_type = MAC_STATS_V0, rd_data = RD_MAC \<lparr>mi_hdr = hdr, mi_msg = msg, mi_proc_id = None\<rparr>\<rparr>
   }"

definition on_control_req_mac_sm_ric :: "sm_ctrl_cmd \<Rightarrow> (byte_array \<times> byte_array) option" where
  "on_control_req_mac_sm_ric ctrl = (case ctrl of
       CTRL_MAC req \<Rightarrow> do {
         c_assert (mc_dummy (mr_hdr req) = 1);
         c_assert (mc_action (mr_msg req) = 42);
         hdr \<leftarrow> mac_enc_ctrl_hdr_plain (mr_hdr req);
         msg \<leftarrow> mac_enc_ctrl_msg_plain (mr_msg req);
         Some (hdr, msg)
       }
     | _ \<Rightarrow> None)"

definition make_mac_sm_ric :: sm_ric where
  "make_mac_sm_ric = \<lparr>sm_ran_func_id = 142, on_subscription = on_subscription_mac_sm_ric, on_indication = on_indication_mac_sm_ric,
     on_control_req = on_control_req_mac_sm_ric\<rparr>"

subsection \<open>RLC\<close>

definition on_subscription_rlc_sm_ag :: "byte_array \<Rightarrow> sm_ag_if_ans_subs option" where
  "on_subscription_rlc_sm_ag event_trigger = do {
     ev \<leftarrow> rlc_dec_event_trigger_plain event_trigger;
     Some \<lparr>ans_type = PERIODIC_SUBSCRIPTION_FLRC, ans_ms = int (unat (rle_ms ev)), ans_act_def = []\<rparr>
   }"

definition on_indication_rlc_sm_ag :: "byte_array \<Rightarrow> rlc_ind_data option \<Rightarrow> sm_ind_data option option" where
  "on_indication_rlc_sm_ag act_def rd = do {
     c_assert (act_def = []);
     ba_hdr \<leftarrow> rlc_enc_ind_hdr_plain \<lparr>rlh_dummy = 0\<rparr>;
     (case rd of
         None \<Rightarrow> Some None
       | Some ind \<Rightarrow> do {
           ba \<leftarrow> rlc_enc_ind_msg_plain (rli_msg ind);
           Some (Some \<lparr>sid_hdr = ba_hdr, sid_msg = ba, sid_cpid = None\<rparr>)
         })
   }"

definition on_control_rlc_sm_ag :: "byte_array \<Rightarrow> byte_array \<Rightarrow> (rlc_ctrl_req_data \<times> byte_array) option" where
  "on_control_rlc_sm_ag ctrl_hdr ctrl_msg = do {
     hdr \<leftarrow> rlc_dec_ctrl_hdr_plain ctrl_hdr;
     c_assert (rlc_dummy hdr = 0);
     msg \<leftarrow> rlc_dec_ctrl_msg_plain ctrl_msg;
     c_assert (rlc_action msg = 42);
     Some (\<lparr>rlr_hdr = \<lparr>rlc_dummy = 0\<rparr>, rlr_msg = \<lparr>rlc_action = rlc_action msg\<rparr>\<rparr>, [])
   }"

definition on_e2_setup_rlc_sm_ag :: byte_array where
  "on_e2_setup_rlc_sm_ag = cp_str_to_ba ''RLC_STATS_V0''"

definition make_rlc_sm_agent :: sm_agent where
  "make_rlc_sm_agent = \<lparr>sma_id = 143, sma_rev = 1, sma_oid = ''0.0.0.0.0.0.0.0.1.143.0'',
     sma_on_subscription = (\<lambda>et ad n. on_subscription_rlc_sm_ag et),
     sma_on_control = (\<lambda>hdr msg. map_option snd (on_control_rlc_sm_ag hdr msg)),
     sma_on_e2_setup = on_e2_setup_rlc_sm_ag, sma_has_free_act_def = False\<rparr>"

definition on_subscription_rlc_sm_ric :: "byte_array \<Rightarrow> (byte_array \<times> byte_array option) option" where
  "on_subscription_rlc_sm_ric cmd = do {
     ms \<leftarrow> ms_of_cmd cmd;
     ba \<leftarrow> rlc_enc_event_trigger_plain \<lparr>rle_ms = ms\<rparr>;
     Some (ba, None)
   }"

definition on_indication_rlc_sm_ric :: "byte_array \<Rightarrow> byte_array \<Rightarrow> byte_array option \<Rightarrow> sm_ag_if_rd_ind option" where
  "on_indication_rlc_sm_ric ba_hdr ba_msg cpid = do {
     msg \<leftarrow> rlc_dec_ind_msg_plain ba_msg;
     hdr \<leftarrow> rlc_dec_ind_hdr_plain ba_hdr;
     c_assert (cpid = None);
     Some \<lparr>rd_type = RLC_STATS_V0, rd_data = RD_RLC \<lparr>rli_hdr = hdr, rli_msg = msg, rli_proc_id = None\<rparr>\<rparr>
   }"

definition on_control_req_rlc_sm_ric :: "sm_ctrl_cmd \<Rightarrow> (byte_array \<times> byte_array) option" where
  "on_control_req_rlc_sm_ric ctrl = (case ctrl of
       CTRL_RLC req \<Rightarrow> do {
         c_assert (rlc_dummy (rlr_hdr req) = 0);
         c_assert (rlc_action (rlr_msg req) = 42);
         hdr \<leftarrow> rlc_enc_ctrl_hdr_plain (rlr_hdr req);
         msg \<leftarrow> rlc_enc_ctrl_msg_plain (rlr_msg req);
         Some (hdr, msg)
       }
     | _ \<Rightarrow> None)"

definition make_rlc_sm_ric :: sm_ric where
  "make_rlc_sm_ric = \<lparr>sm_ran_func_id = 143, on_subscription = on_subscription_rlc_sm_ric, on_indication = on_indication_rlc_sm_ric,
     on_control_req = on_control_req_rlc_sm_ric\<rparr>"

subsection \<open>PDCP\<close>

definition on_subscription_pdcp_sm_ag :: "byte_array \<Rightarrow> sm_ag_if_ans_subs option" where
  "on_subscription_pdcp_sm_ag event_trigger = do {
     ev \<leftarrow> pdcp_dec_event_trigger_plain event_trigger;
     Some \<lparr>ans_type = PERIODIC_SUBSCRIPTION_FLRC, ans_ms = int (unat (pde_ms ev)), ans_act_def = []\<rparr>
   }"

definition on_indication_pdcp_sm_ag :: "byte_array \<Rightarrow> pdcp_ind_data option \<Rightarrow> sm_ind_data option option" where
  "on_indication_pdcp_sm_ag act_def rd = do {
     c_assert (act_def = []);
     ba_hdr \<leftarrow> pdcp_enc_ind_hdr_plain \<lparr>pdh_dummy = 0\<rparr>;
     (case rd of
         None \<Rightarrow> Some None
       | Some ind \<Rightarrow> do {
           ba \<leftarrow> pdcp_enc_ind_msg_plain (pdi_msg ind);
           Some (Some \<lparr>sid_hdr = ba_hdr, sid_msg = ba, sid_cpid = None\<rparr>)
         })
   }"

text \<open>What the RAN answers is encoded; an answer of another kind is \<open>None\<close>.\<close>
definition on_control_pdcp_sm_ag ::
  "(pdcp_ctrl_req_data \<Rightarrow> pdcp_ctrl_out option) \<Rightarrow> byte_array \<Rightarrow> byte_array \<Rightarrow> (pdcp_ctrl_req_data \<times> byte_array) option"
where
  "on_control_pdcp_sm_ag write_ctrl ctrl_hdr ctrl_msg = do {
     hdr \<leftarrow> pdcp_dec_ctrl_hdr_plain ctrl_hdr;
     c_assert (pdc_dummy hdr = 0);
     msg \<leftarrow> pdcp_dec_ctrl_msg_plain ctrl_msg;
     c_assert (pdc_action msg = 42);
     let req = \<lparr>pdr_hdr = hdr, pdr_msg = msg\<rparr>;
     ans \<leftarrow> write_ctrl req;
     ba \<leftarrow> pdcp_enc_ctrl_out_plain ans;
     Some (req, ba)
   }"

definition on_e2_setup_pdcp_sm_ag :: byte_array where
  "on_e2_setup_pdcp_sm_ag = cp_str_to_ba ''PDCP_STATS_V0''"

definition make_pdcp_sm_agent :: "(pdcp_ctrl_req_data \<Rightarrow> pdcp_ctrl_out option) \<Rightarrow> sm_agent" where
  "make_pdcp_sm_agent write_ctrl = \<lparr>sma_id = 144, sma_rev = 1, sma_oid = ''0.0.0.0.0.0.0.0.1.144.0'',
     sma_on_subscription = (\<lambda>et ad n. on_subscription_pdcp_sm_ag et),
     sma_on_control = (\<lambda>hdr msg. map_option snd (on_control_pdcp_sm_ag write_ctrl hdr msg)),
     sma_on_e2_setup = on_e2_setup_pdcp_sm_ag, sma_has_free_act_def = False\<rparr>"

definition on_subscription_pdcp_sm_ric :: "byte_array \<Rightarrow> (byte_array \<times> byte_array option) option" where
  "on_subscription_pdcp_sm_ric cmd = do {
     ms \<leftarrow> ms_of_cmd cmd;
     ba \<leftarrow> pdcp_enc_event_trigger_plain \<lparr>pde_ms = ms\<rparr>;
     Some (ba, None)
   }"

definition on_indication_pdcp_sm_ric :: "byte_array \<Rightarrow> byte_array \<Rightarrow> byte_array option \<Rightarrow> sm_ag_if_rd_ind option" where
  "on_indication_pdcp_sm_ric ba_hdr ba_msg cpid = do {
     hdr \<leftarrow> pdcp_dec_ind_hdr_plain ba_hdr;
     msg \<leftarrow> pdcp_dec_ind_msg_plain ba_msg;
     Some \<lparr>rd_type = PDCP_STATS_V0, rd_data = RD_PDCP \<lparr>pdi_hdr = hdr, pdi_msg = msg, pdi_proc_id = None\<rparr>\<rparr>
   }"

definition on_control_req_pdcp_sm_ric :: "sm_ctrl_cmd \<Rightarrow> (byte_array \<times> byte_array) option" where
  "on_control_req_pdcp_sm_ric ctrl = (case ctrl of
       CTRL_PDCP req \<Rightarrow> do {
         hdr \<leftarrow> pdcp_enc_ctrl_hdr_plain (pdr_hdr req);
         msg \<leftarrow> pdcp_enc_ctrl_msg_plain (pdr_msg req);
         Some (hdr, msg)
       }
     | _ \<Rightarrow> None)"

definition make_pdcp_sm_ric :: sm_ric where
  "make_pdcp_sm_ric = \<lparr>sm_ran_func_id = 144, on_subscription = on_subscription_pdcp_sm_ric, on_indication = on_indication_pdcp_sm_ric,
     on_control_req = on_control_req_pdcp_sm_ric\<rparr>"

subsection \<open>GTP\<close>

definition on_subscription_gtp_sm_ag :: "byte_array \<Rightarrow> sm_ag_if_ans_subs option" where
  "on_subscription_gtp_sm_ag event_trigger = do {
     ev \<leftarrow> gtp_dec_event_trigger_plain event_trigger;
     Some \<lparr>ans_type = PERIODIC_SUBSCRIPTION_FLRC, ans_ms = int (unat (gte_ms ev)), ans_act_def = []\<rparr>
   }"

definition on_indication_gtp_sm_ag :: "byte_array \<Rightarrow> gtp_ind_data option \<Rightarrow> sm_ind_data option option" where
  "on_indication_gtp_sm_ag act_def rd = do {
     c_assert (act_def = []);
     ba_hdr \<leftarrow> gtp_enc_ind_hdr_plain \<lparr>gth_dummy = 0\<rparr>;
     (case rd of
         None \<Rightarrow> Some None
       | Some ind \<Rightarrow> do {
           ba \<leftarrow> gtp_enc_ind_msg_plain (gti_msg ind);
           Some (Some \<lparr>sid_hdr = ba_hdr, sid_msg = ba, sid_cpid = None\<rparr>)
         })
   }"

definition on_control_gtp_sm_ag :: "byte_array \<Rightarrow> byte_array \<Rightarrow> (gtp_ctrl_req_data \<times> byte_array) option" where
  "on_control_gtp_sm_ag ctrl_hdr ctrl_msg = do {
     hdr \<leftarrow> gtp_dec_ctrl_hdr_plain ctrl_hdr;
     c_assert (gtc_dummy hdr = 0);
     msg \<leftarrow> gtp_dec_ctrl_msg_plain ctrl_msg;
     c_assert (gtc_action msg = 42);
     Some (\<lparr>gtr_hdr = \<lparr>gtc_dummy = 0\<rparr>, gtr_msg = \<lparr>gtc_action = gtc_action msg\<rparr>\<rparr>, [])
   }"

definition on_e2_setup_gtp_sm_ag :: byte_array where
  "on_e2_setup_gtp_sm_ag = cp_str_to_ba ''GTP_STATS_V0''"

definition make_gtp_sm_agent :: sm_agent where
  "make_gtp_sm_agent = \<lparr>sma_id = 148, sma_rev = 1, sma_oid = ''0.0.0.0.0.0.0.0.1.148.0'',
     sma_on_subscription = (\<lambda>et ad n. on_subscription_gtp_sm_ag et),
     sma_on_control = (\<lambda>hdr msg. map_option snd (on_control_gtp_sm_ag hdr msg)),
     sma_on_e2_setup = on_e2_setup_gtp_sm_ag, sma_has_free_act_def = False\<rparr>"

definition on_subscription_gtp_sm_ric :: "byte_array \<Rightarrow> (byte_array \<times> byte_array option) option" where
  "on_subscription_gtp_sm_ric cmd = do {
     ms \<leftarrow> ms_of_cmd cmd;
     ba \<leftarrow> gtp_enc_event_trigger_plain \<lparr>gte_ms = ms\<rparr>;
     Some (ba, None)
   }"

definition on_indication_gtp_sm_ric :: "byte_array \<Rightarrow> byte_array \<Rightarrow> byte_array option \<Rightarrow> sm_ag_if_rd_ind option" where
  "on_indication_gtp_sm_ric ba_hdr ba_msg cpid = do {
     msg \<leftarrow> gtp_dec_ind_msg_plain ba_msg;
     hdr \<leftarrow> gtp_dec_ind_hdr_plain ba_hdr;
     Some \<lparr>rd_type = GTP_STATS_V0, rd_data = RD_GTP \<lparr>gti_hdr = hdr, gti_msg = msg, gti_proc_id = None\<rparr>\<rparr>
   }"

definition on_control_req_gtp_sm_ric :: "sm_ctrl_cmd \<Rightarrow> (byte_array \<times> byte_array) option" where
  "on_control_req_gtp_sm_ric ctrl = (case ctrl of
       CTRL_GTP req \<Rightarrow> do {
         c_assert (gtc_dummy (gtr_hdr req) = 0);
         c_assert (gtc_action (gtr_msg req) = 42);
         hdr \<leftarrow> gtp_enc_ctrl_hdr_plain (gtr_hdr req);
         msg \<leftarrow> gtp_enc_ctrl_msg_plain (gtr_msg req);
         Some (hdr, msg)
       }
     | _ \<Rightarrow> None)"

definition make_gtp_sm_ric :: sm_ric where
  "make_gtp_sm_ric = \<lparr>sm_ran_func_id = 148, on_subscription = on_subscription_gtp_sm_ric, on_indication = on_indication_gtp_sm_ric,
     on_control_req = on_control_req_gtp_sm_ric\<rparr>"

subsection \<open>SLICE\<close>

definition on_subscription_slice_sm_ag :: "byte_array \<Rightarrow> sm_ag_if_ans_subs option" where
  "on_subscription_slice_sm_ag event_trigger = do {
     ev \<leftarrow> slice_dec_event_trigger_plain event_trigger;
     Some \<lparr>ans_type = PERIODIC_SUBSCRIPTION_FLRC, ans_ms = int (unat (se_ms ev)), ans_act_def = []\<rparr>
   }"

definition on_indication_slice_sm_ag :: "byte_array \<Rightarrow> slice_ind_data option \<Rightarrow> sm_ind_data option option" where
  "on_indication_slice_sm_ag act_def rd = do {
     c_assert (act_def = []);
     let ba_hdr = slice_enc_ind_hdr_plain \<lparr>sh_dummy = 0\<rparr>;
     (case rd of
         None \<Rightarrow> Some None
       | Some ind \<Rightarrow> do {
           ba \<leftarrow> slice_enc_ind_msg_plain (li_msg ind);
           Some (Some \<lparr>sid_hdr = ba_hdr, sid_msg = ba, sid_cpid = None\<rparr>)
         })
   }"

definition on_control_slice_sm_ag ::
  "(slice_ctrl_req_data \<Rightarrow> slice_ctrl_out option) \<Rightarrow> byte_array \<Rightarrow> byte_array \<Rightarrow> (slice_ctrl_req_data \<times> byte_array) option"
where
  "on_control_slice_sm_ag write_ctrl ctrl_hdr ctrl_msg = do {
     hdr \<leftarrow> slice_dec_ctrl_hdr_plain ctrl_hdr;
     msg \<leftarrow> slice_dec_ctrl_msg_plain ctrl_msg;
     let req = \<lparr>lr_hdr = hdr, lr_msg = msg\<rparr>;
     ans \<leftarrow> write_ctrl req;
     ba \<leftarrow> slice_enc_ctrl_out_plain ans;
     Some (req, ba)
   }"

definition on_e2_setup_slice_sm_ag :: byte_array where
  "on_e2_setup_slice_sm_ag = cp_str_to_ba ''SLICE_STATS_V0''"

definition make_slice_sm_agent :: "(slice_ctrl_req_data \<Rightarrow> slice_ctrl_out option) \<Rightarrow> sm_agent" where
  "make_slice_sm_agent write_ctrl = \<lparr>sma_id = 145, sma_rev = 1, sma_oid = ''0.0.0.0.0.0.0.0.1.145.0'',
     sma_on_subscription = (\<lambda>et ad n. on_subscription_slice_sm_ag et),
     sma_on_control = (\<lambda>hdr msg. map_option snd (on_control_slice_sm_ag write_ctrl hdr msg)),
     sma_on_e2_setup = on_e2_setup_slice_sm_ag, sma_has_free_act_def = False\<rparr>"

definition on_subscription_slice_sm_ric :: "byte_array \<Rightarrow> (byte_array \<times> byte_array option) option" where
  "on_subscription_slice_sm_ric cmd = do {
     ms \<leftarrow> ms_of_cmd cmd;
     Some (slice_enc_event_trigger_plain \<lparr>se_ms = ms\<rparr>, None)
   }"

text \<open>The header is not decoded; the structure is zero but for the message.\<close>
definition on_indication_slice_sm_ric :: "byte_array \<Rightarrow> byte_array \<Rightarrow> byte_array option \<Rightarrow> sm_ag_if_rd_ind option" where
  "on_indication_slice_sm_ric ba_hdr ba_msg cpid = do {
     msg \<leftarrow> slice_dec_ind_msg_plain ba_msg;
     Some \<lparr>rd_type = SLICE_STATS_V0, rd_data = RD_SLICE \<lparr>li_hdr = \<lparr>sh_dummy = 0\<rparr>, li_msg = msg, li_proc_id = None\<rparr>\<rparr>
   }"

definition on_control_req_slice_sm_ric :: "sm_ctrl_cmd \<Rightarrow> (byte_array \<times> byte_array) option" where
  "on_control_req_slice_sm_ric ctrl = (case ctrl of
       CTRL_SLICE data \<Rightarrow> do {
         msg \<leftarrow> slice_enc_ctrl_msg_plain (lr_msg data);
         Some (slice_enc_ctrl_hdr_plain (lr_hdr data), msg)
       }
     | _ \<Rightarrow> None)"

text \<open>The answer of a control request; nothing in the repository calls it.\<close>
definition on_control_out_slice_sm_ric :: "byte_array \<Rightarrow> slice_ctrl_out option" where
  "on_control_out_slice_sm_ric ba = do {
     out \<leftarrow> slice_dec_ctrl_out_plain ba;
     c_assert (0 < len_diag out);
     Some out
   }"

definition make_slice_sm_ric :: sm_ric where
  "make_slice_sm_ric = \<lparr>sm_ran_func_id = 145, on_subscription = on_subscription_slice_sm_ric,
     on_indication = on_indication_slice_sm_ric, on_control_req = on_control_req_slice_sm_ric\<rparr>"

end
