(* ===== verification/Sm_Session.thy ===== *)
theory Sm_Session
  imports Full_Control Sm_Plugins
begin

text \<open>
  The three programs with the plug-ins of the service models: what the radio access network reports in the
  agent is what the callback of the caller gets.  The locale is the contract that a service model keeps between its plug-in in the agent
  and its plug-in in the controller and the xApp; the five models that have a plain codec keep it.
\<close>

section \<open>The contract of a service model\<close>

locale service_model =
  fixes ag :: sm_agent and rc :: sm_ric and report :: "'m \<Rightarrow> sm_ind_data" and data :: "'m \<Rightarrow> sm_ag_if_rd_ind" and ok :: "'m \<Rightarrow> bool"
  assumes known: "sm_ran_func_id rc = sma_id ag" "valid_ran_func_id (sma_id ag)"
    and command: "ms_of_cmd cmd = Some ms \<Longrightarrow> \<exists>et. on_subscription rc cmd = Some (et, None) \<and>
      (\<forall>ad n. \<exists>ans. sma_on_subscription ag et ad n = Some ans \<and> ans_type ans = PERIODIC_SUBSCRIPTION_FLRC \<and> ans_ms ans = int (unat ms))"
    and read: "ok m \<Longrightarrow> sid_cpid (report m) = None \<and> on_indication rc (sid_hdr (report m)) (sid_msg (report m)) None = Some (data m) \<and>
      ind_type_xapp (rd_type (data m))"

text \<open>The caller can subscribe, and the controller and the agent can serve it.\<close>
definition caller_ready :: "axapp \<Rightarrow> xsession \<Rightarrow> bool" where
  "caller_ready a v \<longleftrightarrow> x_pc a = UI_IDLE \<and> x_queue a = [] \<and> 0 < x_next a \<and> x_next a < 65536 \<and> w_cb v \<noteq> 0 \<and>
     0 < fst (w_timers v) \<and> fst (w_timers v) \<notin> x_polled a \<and> 0 < snd (w_timers v) \<and> snd (w_timers v) \<notin> x_polled a \<and>
     none_of_kind E42_RIC_SUBSCRIPTION_REQUEST_PENDING_EVENT (x_pend a) \<and>
     none_of_kind E42_RIC_SUBSCRIPTION_DELETE_REQUEST_PENDING_EVENT (x_pend a)"

definition system_ready :: "axapp \<Rightarrow> xsession \<Rightarrow> string list \<Rightarrow> (nat \<Rightarrow> int) \<Rightarrow> int \<Rightarrow> sctp_info \<Rightarrow> sctp_info \<Rightarrow> asystem \<Rightarrow> bool" where
  "system_ready a v ls kfd tfd t sx A \<longleftrightarrow>
     may_request (a_ctl A) (kfd 0) (w_node v) t \<lparr>x_ric_id = new_id a (w_rf v), xapp_id = x_num a\<rparr> \<and> length (regs (a_ctl A)) < 256 \<and>
     (x_num a, sx) \<in># xapps (a_ctl A) \<and> (\<forall>(n, y) \<in># reqs (a_ctl A). x_ric_id y \<noteq> new_id a (w_rf v)) \<and>
     (\<exists>f ss. subs (a_ctl A) = (f, ls) # ss) \<and> w_rf v \<in> fst ` set (subs (a_ctl A)) \<and> 0 < tfd \<and> tfd \<notin> polled (a_agt A) \<and>
     (\<forall>(f, e) \<in># inds (a_agt A). ie_ric_id e \<noteq> renumbered (next_req (a_ctl A)) (new_id a (w_rf v))) \<and>
     a_down A = length (msgs_to t (to_nodes (a_ctl A))) \<and> a_up A = length (out (a_agt A))"

text \<open>The session with given plug-ins; \<open>et\<close> is the event trigger.\<close>
definition session_of :: "sm_agent \<Rightarrow> sm_ric \<Rightarrow> byte_array \<Rightarrow> axapp \<Rightarrow> xsession \<Rightarrow> string list \<Rightarrow> sctp_info \<Rightarrow> session" where
  "session_of ag rc et a v ls sx = \<lparr>s_sub = \<lparr>e42_sr_xapp_id = x_num a, e42_sr_id = w_node v, e42_sr = subs_request a (w_rf v) et None\<rparr>,
     s_agent_sm = ag, s_ric_sm = rc, s_xapp = sx, s_listeners = ls\<rparr>"

lemma ms_of_cmd_bound:
  assumes "ms_of_cmd cmd = Some ms" shows "unat ms < 10001"
proof -
  have "ms = 1 \<or> ms = 2 \<or> ms = 5 \<or> ms = 10" using assms by (auto simp: ms_of_cmd_def monad_simps split: if_splits)
  then show ?thesis by auto
qed

text \<open>The plug-ins are loaded in all three programs.\<close>
definition loaded :: "uint16 \<Rightarrow> sm_agent \<Rightarrow> sm_ric \<Rightarrow> axapp \<Rightarrow> asystem \<Rightarrow> bool" where
  "loaded f ag rc a A \<longleftrightarrow> f = sma_id ag \<and> (sma_id ag, rc) \<in> set (x_rics a) \<and> (sma_id ag, rc) \<in> set (sms (a_ctl A)) \<and> (sma_id ag, ag) \<in> set (plugs (a_agt A))"

context service_model
begin

lemma can_subscribe:
  assumes "system_ready a v ls kfd tfd t sx A" "loaded (w_rf v) ag rc a A" "ms_of_cmd (w_cmd v) = Some ms"
    and "on_subscription rc (w_cmd v) = Some (et, None)"
  shows "can_subscribe (session_of ag rc et a v ls sx) kfd tfd t A"
proof -
  let ?q = "s_req (session_of ag rc et a v ls sx) A"
  have q: "sr_event_trigger ?q = et" "sr_action ?q = [\<lparr>act_id = 0, act_type = RIC_ACT_REPORT, act_definition = None, subseq_action = None\<rparr>]"
    by (simp_all add: s_req_def session_of_def subs_request_def)
  obtain ans where ans: "sma_on_subscription ag et None (ric_req_id (sr_ric_id ?q)) = Some ans" "ans_type ans = PERIODIC_SUBSCRIPTION_FLRC"
    "ans_ms ans = int (unat ms)" using command[OF assms(3)] assms(4) by auto
  have "int (unat ms) < 10001" using ms_of_cmd_bound[OF assms(3)] by linarith
  then have "periodic ag ?q" using ans q by (simp add: periodic_def sub_answer_def)
  then show ?thesis using assms(1,2)
    by (simp add: can_subscribe_def system_ready_def session_of_def subs_request_def s_xid_def s_rid_def loaded_def new_id_def)
qed

lemma session:
  assumes R: "full_rep sx A a f" and ready: "caller_ready a v" "system_ready a v ls kfd tfd t sx A" "loaded (w_rf v) ag rc a A"
    and cmd: "ms_of_cmd (w_cmd v) = Some ms" and ok: "\<forall>m \<in> set rs. ok m"
  obtains et where "on_subscription rc (w_cmd v) = Some (et, None)"
    "fserves kfd tfd t sx (full_inputs a v tfd (map report rs))
      (full_rep sx (served (session_of ag rc et a v ls sx) t (map report rs) A)
        (xs_closed a v (xs_fed v (map data rs) (xs_open a v (et, None))))) f"
proof -
  obtain et where et: "on_subscription rc (w_cmd v) = Some (et, None)" using command[OF cmd] by blast
  let ?w = "session_of ag rc et a v ls sx"
  have c: "can_subscribe ?w kfd tfd t A" by (rule can_subscribe[OF ready(2,3) cmd et])
  have s: "same_session ?w v (et, None) a" "s_xapp ?w = sx" by (simp_all add: same_session_def session_of_def)
  have x: "xs_ready a v rc (et, None)"
    using ready(1,3) et known unfolding xs_ready_def caller_ready_def loaded_def by simp
  have d: "\<forall>d \<in> set (map report rs). readable ?w d \<and> xapp_readable rc d"
    using ok read by (force simp: readable_def xapp_readable_def session_of_def ind_type_xapp_def)
  have m: "map (xapp_data rc) (map report rs) = map data rs" using ok read by (simp add: xapp_data_def)
  show thesis by (rule that[OF et fserves_session[OF R c s x d, unfolded m]])
qed

end

section \<open>The models that keep it\<close>

lemma put32_4: "put32 x \<lparr>written = [], room = 4\<rparr> = Some \<lparr>written = lay32 x, room = 0\<rparr>"
  by (simp add: put_lay adv_def)

lemma get32_lay: "get32 (lay32 x) = Some (x, [])"
  using get_lay(3)[of x "[]"] by simp

lemma le_bytes_lay32: "le_bytes 4 (unat x) = lay32 x"
  by (simp only: lay32_def)

lemma le_bytes_0: "le_bytes 4 0 = lay32 0"
  by (simp only: lay32_def unat_0)

lemmas plugin_simps = put32_4 get32_lay le_bytes_lay32 le_bytes_0

text \<open>What the plug-ins make of a report of the radio access network, and what the callback gets.\<close>
definition mac_report :: "mac_ind_msg \<Rightarrow> sm_ind_data" where
  "mac_report m = \<lparr>sid_hdr = lay32 0, sid_msg = the (mac_enc_ind_msg_plain m), sid_cpid = None\<rparr>"

definition mac_data :: "mac_ind_msg \<Rightarrow> sm_ag_if_rd_ind" where
  "mac_data m = \<lparr>rd_type = MAC_STATS_V0, rd_data = RD_MAC \<lparr>mi_hdr = \<lparr>mh_dummy = 0\<rparr>, mi_msg = m, mi_proc_id = None\<rparr>\<rparr>"

lemma mac_indication:
  assumes "ok_mac_ind_msg m" "fits_mac_ind_msg m"
  shows "on_indication_mac_sm_ag [] (Some \<lparr>mi_hdr = h, mi_msg = m, mi_proc_id = p\<rparr>) = Some (Some (mac_report m))"
    "on_indication_mac_sm_ric (sid_hdr (mac_report m)) (sid_msg (mac_report m)) None = Some (mac_data m)"
proof -
  obtain ba where "mac_enc_ind_msg_plain m = Some ba" "mac_dec_ind_msg_plain ba = Some m" by (rule mac_there_and_back[OF assms])
  then show "on_indication_mac_sm_ag [] (Some \<lparr>mi_hdr = h, mi_msg = m, mi_proc_id = p\<rparr>) = Some (Some (mac_report m))"
    "on_indication_mac_sm_ric (sid_hdr (mac_report m)) (sid_msg (mac_report m)) None = Some (mac_data m)"
    by (simp_all add: on_indication_mac_sm_ag_def on_indication_mac_sm_ric_def mac_report_def mac_data_def
        mac_enc_ind_hdr_plain_def mac_dec_ind_hdr_plain_def plugin_simps)
qed

interpretation mac_model: service_model make_mac_sm_agent make_mac_sm_ric mac_report mac_data "\<lambda>m. ok_mac_ind_msg m \<and> fits_mac_ind_msg m"
proof unfold_locales
  show "ms_of_cmd cmd = Some ms \<Longrightarrow> \<exists>et. on_subscription make_mac_sm_ric cmd = Some (et, None) \<and>
      (\<forall>ad n. \<exists>ans. sma_on_subscription make_mac_sm_agent et ad n = Some ans \<and> ans_type ans = PERIODIC_SUBSCRIPTION_FLRC \<and>
        ans_ms ans = int (unat ms))" for cmd ms
    by (simp add: make_mac_sm_ric_def make_mac_sm_agent_def on_subscription_mac_sm_ric_def on_subscription_mac_sm_ag_def
        mac_enc_event_trigger_plain_def mac_dec_event_trigger_plain_def plugin_simps)
qed (simp_all add: make_mac_sm_ric_def make_mac_sm_agent_def valid_ran_func_id_def mac_indication mac_data_def ind_type_xapp_def,
  simp add: mac_report_def)

definition rlc_report :: "rlc_ind_msg \<Rightarrow> sm_ind_data" where
  "rlc_report m = \<lparr>sid_hdr = lay32 0, sid_msg = the (rlc_enc_ind_msg_plain m), sid_cpid = None\<rparr>"

definition rlc_data :: "rlc_ind_msg \<Rightarrow> sm_ag_if_rd_ind" where
  "rlc_data m = \<lparr>rd_type = RLC_STATS_V0, rd_data = RD_RLC \<lparr>rli_hdr = \<lparr>rlh_dummy = 0\<rparr>, rli_msg = m, rli_proc_id = None\<rparr>\<rparr>"

lemma rlc_indication:
  assumes "ok_rlc_ind_msg m"
  shows "on_indication_rlc_sm_ag [] (Some \<lparr>rli_hdr = h, rli_msg = m, rli_proc_id = p\<rparr>) = Some (Some (rlc_report m))"
    "on_indication_rlc_sm_ric (sid_hdr (rlc_report m)) (sid_msg (rlc_report m)) None = Some (rlc_data m)"
proof -
  obtain ba where "rlc_enc_ind_msg_plain m = Some ba" "rlc_dec_ind_msg_plain ba = Some m" by (rule rlc_there_and_back[OF assms])
  then show "on_indication_rlc_sm_ag [] (Some \<lparr>rli_hdr = h, rli_msg = m, rli_proc_id = p\<rparr>) = Some (Some (rlc_report m))"
    "on_indication_rlc_sm_ric (sid_hdr (rlc_report m)) (sid_msg (rlc_report m)) None = Some (rlc_data m)"
    by (simp_all add: on_indication_rlc_sm_ag_def on_indication_rlc_sm_ric_def rlc_report_def rlc_data_def
        rlc_enc_ind_hdr_plain_def rlc_dec_ind_hdr_plain_def plugin_simps)
qed

interpretation rlc_model: service_model make_rlc_sm_agent make_rlc_sm_ric rlc_report rlc_data "ok_rlc_ind_msg"
proof unfold_locales
  show "ms_of_cmd cmd = Some ms \<Longrightarrow> \<exists>et. on_subscription make_rlc_sm_ric cmd = Some (et, None) \<and>
      (\<forall>ad n. \<exists>ans. sma_on_subscription make_rlc_sm_agent et ad n = Some ans \<and> ans_type ans = PERIODIC_SUBSCRIPTION_FLRC \<and>
        ans_ms ans = int (unat ms))" for cmd ms
    by (simp add: make_rlc_sm_ric_def make_rlc_sm_agent_def on_subscription_rlc_sm_ric_def on_subscription_rlc_sm_ag_def
        rlc_enc_event_trigger_plain_def rlc_dec_event_trigger_plain_def plugin_simps)
qed (simp_all add: make_rlc_sm_ric_def make_rlc_sm_agent_def valid_ran_func_id_def rlc_indication rlc_data_def ind_type_xapp_def,
  simp add: rlc_report_def)

definition pdcp_report :: "pdcp_ind_msg \<Rightarrow> sm_ind_data" where
  "pdcp_report m = \<lparr>sid_hdr = lay32 0, sid_msg = the (pdcp_enc_ind_msg_plain m), sid_cpid = None\<rparr>"

definition pdcp_data :: "pdcp_ind_msg \<Rightarrow> sm_ag_if_rd_ind" where
  "pdcp_data m = \<lparr>rd_type = PDCP_STATS_V0, rd_data = RD_PDCP \<lparr>pdi_hdr = \<lparr>pdh_dummy = 0\<rparr>, pdi_msg = m, pdi_proc_id = None\<rparr>\<rparr>"

lemma pdcp_indication:
  assumes "ok_pdcp_ind_msg m"
  shows "on_indication_pdcp_sm_ag [] (Some \<lparr>pdi_hdr = h, pdi_msg = m, pdi_proc_id = p\<rparr>) = Some (Some (pdcp_report m))"
    "on_indication_pdcp_sm_ric (sid_hdr (pdcp_report m)) (sid_msg (pdcp_report m)) None = Some (pdcp_data m)"
proof -
  obtain ba where "pdcp_enc_ind_msg_plain m = Some ba" "pdcp_dec_ind_msg_plain ba = Some m" by (rule pdcp_there_and_back[OF assms])
  then show "on_indication_pdcp_sm_ag [] (Some \<lparr>pdi_hdr = h, pdi_msg = m, pdi_proc_id = p\<rparr>) = Some (Some (pdcp_report m))"
    "on_indication_pdcp_sm_ric (sid_hdr (pdcp_report m)) (sid_msg (pdcp_report m)) None = Some (pdcp_data m)"
    by (simp_all add: on_indication_pdcp_sm_ag_def on_indication_pdcp_sm_ric_def pdcp_report_def pdcp_data_def
        pdcp_enc_ind_hdr_plain_def pdcp_dec_ind_hdr_plain_def plugin_simps)
qed

interpretation pdcp_model: service_model "make_pdcp_sm_agent write_ctrl" make_pdcp_sm_ric pdcp_report pdcp_data "ok_pdcp_ind_msg" for write_ctrl
proof unfold_locales
  show "ms_of_cmd cmd = Some ms \<Longrightarrow> \<exists>et. on_subscription make_pdcp_sm_ric cmd = Some (et, None) \<and>
      (\<forall>ad n. \<exists>ans. sma_on_subscription (make_pdcp_sm_agent write_ctrl) et ad n = Some ans \<and> ans_type ans = PERIODIC_SUBSCRIPTION_FLRC \<and>
        ans_ms ans = int (unat ms))" for cmd ms
    by (simp add: make_pdcp_sm_ric_def make_pdcp_sm_agent_def on_subscription_pdcp_sm_ric_def on_subscription_pdcp_sm_ag_def
        pdcp_enc_event_trigger_plain_def pdcp_dec_event_trigger_plain_def plugin_simps)
qed (simp_all add: make_pdcp_sm_ric_def make_pdcp_sm_agent_def valid_ran_func_id_def pdcp_indication pdcp_data_def ind_type_xapp_def,
  simp add: pdcp_report_def)

definition gtp_report :: "gtp_ind_msg \<Rightarrow> sm_ind_data" where
  "gtp_report m = \<lparr>sid_hdr = lay32 0, sid_msg = the (gtp_enc_ind_msg_plain m), sid_cpid = None\<rparr>"

definition gtp_data :: "gtp_ind_msg \<Rightarrow> sm_ag_if_rd_ind" where
  "gtp_data m = \<lparr>rd_type = GTP_STATS_V0, rd_data = RD_GTP \<lparr>gti_hdr = \<lparr>gth_dummy = 0\<rparr>, gti_msg = m, gti_proc_id = None\<rparr>\<rparr>"

lemma gtp_indication:
  assumes "ok_gtp_ind_msg m"
  shows "on_indication_gtp_sm_ag [] (Some \<lparr>gti_hdr = h, gti_msg = m, gti_proc_id = p\<rparr>) = Some (Some (gtp_report m))"
    "on_indication_gtp_sm_ric (sid_hdr (gtp_report m)) (sid_msg (gtp_report m)) None = Some (gtp_data m)"
proof -
  obtain ba where "gtp_enc_ind_msg_plain m = Some ba" "gtp_dec_ind_msg_plain ba = Some m" by (rule gtp_there_and_back[OF assms])
  then show "on_indication_gtp_sm_ag [] (Some \<lparr>gti_hdr = h, gti_msg = m, gti_proc_id = p\<rparr>) = Some (Some (gtp_report m))"
    "on_indication_gtp_sm_ric (sid_hdr (gtp_report m)) (sid_msg (gtp_report m)) None = Some (gtp_data m)"
    by (simp_all add: on_indication_gtp_sm_ag_def on_indication_gtp_sm_ric_def gtp_report_def gtp_data_def
        gtp_enc_ind_hdr_plain_def gtp_dec_ind_hdr_plain_def plugin_simps)
qed

interpretation gtp_model: service_model make_gtp_sm_agent make_gtp_sm_ric gtp_report gtp_data "ok_gtp_ind_msg"
proof unfold_locales
  show "ms_of_cmd cmd = Some ms \<Longrightarrow> \<exists>et. on_subscription make_gtp_sm_ric cmd = Some (et, None) \<and>
      (\<forall>ad n. \<exists>ans. sma_on_subscription make_gtp_sm_agent et ad n = Some ans \<and> ans_type ans = PERIODIC_SUBSCRIPTION_FLRC \<and>
        ans_ms ans = int (unat ms))" for cmd ms
    by (simp add: make_gtp_sm_ric_def make_gtp_sm_agent_def on_subscription_gtp_sm_ric_def on_subscription_gtp_sm_ag_def
        gtp_enc_event_trigger_plain_def gtp_dec_event_trigger_plain_def plugin_simps)
qed (simp_all add: make_gtp_sm_ric_def make_gtp_sm_agent_def valid_ran_func_id_def gtp_indication gtp_data_def ind_type_xapp_def,
  simp add: gtp_report_def)

definition slice_report :: "slice_ind_msg \<Rightarrow> sm_ind_data" where
  "slice_report m = \<lparr>sid_hdr = lay32 0, sid_msg = the (slice_enc_ind_msg_plain m), sid_cpid = None\<rparr>"

definition slice_data :: "slice_ind_msg \<Rightarrow> sm_ag_if_rd_ind" where
  "slice_data m = \<lparr>rd_type = SLICE_STATS_V0, rd_data = RD_SLICE \<lparr>li_hdr = \<lparr>sh_dummy = 0\<rparr>, li_msg = norm_ind_msg m, li_proc_id = None\<rparr>\<rparr>"

lemma slice_indication:
  assumes "ok_ind_msg m"
  shows "on_indication_slice_sm_ag [] (Some \<lparr>li_hdr = h, li_msg = m, li_proc_id = p\<rparr>) = Some (Some (slice_report m))"
    "on_indication_slice_sm_ric (sid_hdr (slice_report m)) (sid_msg (slice_report m)) None = Some (slice_data m)"
proof -
  have "slice_enc_ind_msg_plain m = Some (lay_ind_msg m)" "slice_dec_ind_msg_plain (lay_ind_msg m) = Some (norm_ind_msg m)"
    using enc_ind_msg_lay[OF assms] slice_ind_msg_dec[OF assms] by simp_all
  then show "on_indication_slice_sm_ag [] (Some \<lparr>li_hdr = h, li_msg = m, li_proc_id = p\<rparr>) = Some (Some (slice_report m))"
    "on_indication_slice_sm_ric (sid_hdr (slice_report m)) (sid_msg (slice_report m)) None = Some (slice_data m)"
    by (simp_all add: on_indication_slice_sm_ag_def on_indication_slice_sm_ric_def slice_report_def slice_data_def
        slice_enc_ind_hdr_plain_def slice_dec_ind_hdr_plain_def plugin_simps)
qed

interpretation slice_model: service_model "make_slice_sm_agent write_ctrl" make_slice_sm_ric slice_report slice_data "ok_ind_msg" for write_ctrl
proof unfold_locales
  show "ms_of_cmd cmd = Some ms \<Longrightarrow> \<exists>et. on_subscription make_slice_sm_ric cmd = Some (et, None) \<and>
      (\<forall>ad n. \<exists>ans. sma_on_subscription (make_slice_sm_agent write_ctrl) et ad n = Some ans \<and> ans_type ans = PERIODIC_SUBSCRIPTION_FLRC \<and>
        ans_ms ans = int (unat ms))" for cmd ms
    by (simp add: make_slice_sm_ric_def make_slice_sm_agent_def on_subscription_slice_sm_ric_def on_subscription_slice_sm_ag_def
        slice_enc_event_trigger_plain_def slice_dec_event_trigger_plain_def plugin_simps)
qed (simp_all add: make_slice_sm_ric_def make_slice_sm_agent_def valid_ran_func_id_def slice_indication slice_data_def ind_type_xapp_def,
  simp add: slice_report_def)

section \<open>Reports of every model\<close>

datatype ran_report = MAC_REPORT mac_ind_msg | RLC_REPORT rlc_ind_msg | PDCP_REPORT pdcp_ind_msg | GTP_REPORT gtp_ind_msg
  | SLICE_REPORT slice_ind_msg

datatype model = MAC | RLC | PDCP | GTP | SLICE

text \<open>What the radio access network does with a control request of PDCP or SLICE.\<close>
record ran =
  write_pdcp :: "pdcp_ctrl_req_data \<Rightarrow> pdcp_ctrl_out option"
  write_slice :: "slice_ctrl_req_data \<Rightarrow> slice_ctrl_out option"

fun model_of :: "ran_report \<Rightarrow> model" where
  "model_of (MAC_REPORT m) = MAC"
| "model_of (RLC_REPORT m) = RLC"
| "model_of (PDCP_REPORT m) = PDCP"
| "model_of (GTP_REPORT m) = GTP"
| "model_of (SLICE_REPORT m) = SLICE"

fun agent_plugin :: "ran \<Rightarrow> model \<Rightarrow> sm_agent" where
  "agent_plugin r MAC = make_mac_sm_agent"
| "agent_plugin r RLC = make_rlc_sm_agent"
| "agent_plugin r PDCP = make_pdcp_sm_agent (write_pdcp r)"
| "agent_plugin r GTP = make_gtp_sm_agent"
| "agent_plugin r SLICE = make_slice_sm_agent (write_slice r)"

fun ric_plugin :: "model \<Rightarrow> sm_ric" where
  "ric_plugin MAC = make_mac_sm_ric"
| "ric_plugin RLC = make_rlc_sm_ric"
| "ric_plugin PDCP = make_pdcp_sm_ric"
| "ric_plugin GTP = make_gtp_sm_ric"
| "ric_plugin SLICE = make_slice_sm_ric"

text \<open>The arrays have the length that the message says; the bytes of a MAC message can be counted in 32 bits.\<close>
fun ok_report :: "ran_report \<Rightarrow> bool" where
  "ok_report (MAC_REPORT m) \<longleftrightarrow> ok_mac_ind_msg m \<and> fits_mac_ind_msg m"
| "ok_report (RLC_REPORT m) \<longleftrightarrow> ok_rlc_ind_msg m"
| "ok_report (PDCP_REPORT m) \<longleftrightarrow> ok_pdcp_ind_msg m"
| "ok_report (GTP_REPORT m) \<longleftrightarrow> ok_gtp_ind_msg m"
| "ok_report (SLICE_REPORT m) \<longleftrightarrow> ok_ind_msg m"

text \<open>The indication that the plug-in of the agent makes when its timer is over and the network reports the message.\<close>
fun indication_of :: "ran_report \<Rightarrow> sm_ind_data option option" where
  "indication_of (MAC_REPORT m) = on_indication_mac_sm_ag [] (Some \<lparr>mi_hdr = \<lparr>mh_dummy = 0\<rparr>, mi_msg = m, mi_proc_id = None\<rparr>)"
| "indication_of (RLC_REPORT m) = on_indication_rlc_sm_ag [] (Some \<lparr>rli_hdr = \<lparr>rlh_dummy = 0\<rparr>, rli_msg = m, rli_proc_id = None\<rparr>)"
| "indication_of (PDCP_REPORT m) = on_indication_pdcp_sm_ag [] (Some \<lparr>pdi_hdr = \<lparr>pdh_dummy = 0\<rparr>, pdi_msg = m, pdi_proc_id = None\<rparr>)"
| "indication_of (GTP_REPORT m) = on_indication_gtp_sm_ag [] (Some \<lparr>gti_hdr = \<lparr>gth_dummy = 0\<rparr>, gti_msg = m, gti_proc_id = None\<rparr>)"
| "indication_of (SLICE_REPORT m) = on_indication_slice_sm_ag [] (Some \<lparr>li_hdr = \<lparr>sh_dummy = 0\<rparr>, li_msg = m, li_proc_id = None\<rparr>)"

text \<open>What the callback is to get: the message itself, with the labels of slices cut at their length.\<close>
fun delivered :: "ran_report \<Rightarrow> sm_ag_if_rd_ind" where
  "delivered (MAC_REPORT m) = mac_data m"
| "delivered (RLC_REPORT m) = rlc_data m"
| "delivered (PDCP_REPORT m) = pdcp_data m"
| "delivered (GTP_REPORT m) = gtp_data m"
| "delivered (SLICE_REPORT m) = slice_data m"

definition sent :: "ran_report \<Rightarrow> sm_ind_data" where
  "sent r = the (the (indication_of r))"

lemma sent_report:
  assumes "ok_report r"
  shows "indication_of r = Some (Some (sent r))"
  using assms by (cases r) (simp_all add: sent_def mac_indication rlc_indication pdcp_indication gtp_indication slice_indication)

text \<open>Whatever the model: the plug-ins keep the contract for its reports.\<close>
lemma any_model: "service_model (agent_plugin r k) (ric_plugin k) sent delivered (\<lambda>m. model_of m = k \<and> ok_report m)"
proof unfold_locales
  show "ms_of_cmd cmd = Some ms \<Longrightarrow> \<exists>et. on_subscription (ric_plugin k) cmd = Some (et, None) \<and>
      (\<forall>ad n. \<exists>ans. sma_on_subscription (agent_plugin r k) et ad n = Some ans \<and> ans_type ans = PERIODIC_SUBSCRIPTION_FLRC \<and>
        ans_ms ans = int (unat ms))" for cmd ms
    using mac_model.command rlc_model.command pdcp_model.command gtp_model.command slice_model.command by (cases k) simp_all
  show "sm_ran_func_id (ric_plugin k) = sma_id (agent_plugin r k)" "valid_ran_func_id (sma_id (agent_plugin r k))"
    using mac_model.known rlc_model.known pdcp_model.known gtp_model.known slice_model.known by (cases k; simp)+
  fix m assume m: "model_of m = k \<and> ok_report m"
  show "sid_cpid (sent m) = None \<and> on_indication (ric_plugin k) (sid_hdr (sent m)) (sid_msg (sent m)) None = Some (delivered m) \<and>
      ind_type_xapp (rd_type (delivered m))"
    using m mac_model.read rlc_model.read pdcp_model.read gtp_model.read slice_model.read
    by (cases m) (auto simp: sent_def mac_indication rlc_indication pdcp_indication gtp_indication slice_indication)
qed


section \<open>Example\<close>

text \<open>The earlier example with the plug-ins of MAC in all three programs.\<close>
definition sm_tree :: "'v \<Rightarrow> (uint16, 'v) assoc_rb_tree" where
  "sm_tree v = one_node (\<lambda>a b. Some (cmp_ran_func_id a b)) 2 142 v"

lemma sm_tree_rep: "tree_rep (sm_tree v) [(142, v)]"
  unfolding tree_rep_def sm_tree_def by (intro conjI exI[of _ "[(2, 142, v)]"] one_node_rep) simp_all

definition mac_ctrl :: controller where
  "mac_ctrl = ex_ctrl\<lparr>ric := (ric ex_ctrl)\<lparr>sm_ds := sm_tree make_mac_sm_ric, pub_sub := sm_tree three\<rparr>\<rparr>"

definition mac_agent :: e2_agent where
  "mac_agent = ex_agent\<lparr>ag_sm_ds := sm_tree make_mac_sm_agent\<rparr>"

definition mac_asys :: asystem where
  "mac_asys = \<lparr>a_ctl = ex_actrl\<lparr>sms := [(142, make_mac_sm_ric)], subs := [(142, three)]\<rparr>,
     a_agt = ex_aagent\<lparr>plugs := [(142, make_mac_sm_agent)]\<rparr>, a_down = 0, a_up = 0\<rparr>"

definition mac_ax :: axapp where
  "mac_ax = (x_initial [(142, make_mac_sm_agent)] [(142, make_mac_sm_ric)] 3)\<lparr>x_num := 7\<rparr>"

definition mac_caller :: xsession where
  "mac_caller = \<lparr>w_node = ex_gnb 1, w_rf = 142, w_cmd = c_string ''10_ms'', w_cb = 77, w_timers = (9, 11)\<rparr>"

lemma mac_ctrl_rep: "ctrl_rep mac_ctrl (ex_actrl\<lparr>sms := [(142, make_mac_sm_ric)], subs := [(142, three)]\<rparr>)"
  using ex_ctrl_rep by (simp add: ctrl_rep_def mac_ctrl_def sm_tree_rep)

lemma mac_a_inv: "a_inv (ex_actrl\<lparr>sms := [(142, make_mac_sm_ric)], subs := [(142, three)]\<rparr>)"
  using ex_a_inv by (simp add: a_inv_def nodes_inv_def reqs_inv_def pend_inv_def xapps_inv_def sms_inv_def make_mac_sm_ric_def)

lemma mac_ag_abs: "ag_abs mac_agent (ex_aagent\<lparr>plugs := [(142, make_mac_sm_agent)]\<rparr>)"
proof -
  have "ag_rep mac_agent {#} {#} [(142, make_mac_sm_agent)]" using ex_ag_rep by (simp add: ag_rep_def mac_agent_def sm_tree_rep)
  moreover have "ag_inv mac_agent {#} {#}" using ex_ag_inv by (simp add: ag_inv_def mac_agent_def)
  moreover have "has_free_func (ag_sm_ds mac_agent)" by (simp add: mac_agent_def sm_tree_def one_node_def)
  ultimately show ?thesis
    using ex_ag_abs by (simp add: ag_abs_def ag_sane_def mac_agent_def ex_aagent_def make_mac_sm_agent_def)
qed

lemma mac_full: obtains f where "full_rep (ex_addr 100) mac_asys mac_ax f"
proof -
  have p: "plugins_ok [(142, make_mac_sm_agent)] [(142, make_mac_sm_ric)]"
    by (simp add: plugins_ok_def make_mac_sm_agent_def make_mac_sm_ric_def)
  obtain x where x: "xa_abs (UI_IDLE, x) (x_initial [(142, make_mac_sm_agent)] [(142, make_mac_sm_ric)] 3)"
    by (rule xapp_initial[OF sm_tree_rep sm_tree_rep p _ ex_ok_mal, of 3]) simp
  let ?f = "\<lparr>net = \<lparr>ctl = mac_ctrl, agt = mac_agent, got_down = 0, got_up = 0\<rparr>, xap = (UI_IDLE, x\<lparr>xa_id := 7\<rparr>), got_out = 0, got_in = 0\<rparr>"
  have a: "xa_abs (UI_IDLE, x\<lparr>xa_id := 7\<rparr>) mac_ax" using x by (simp add: xa_abs_def mac_ax_def)
  have "sys_rep mac_asys (net ?f)" using mac_ctrl_rep mac_a_inv mac_ag_abs by (simp add: sys_rep_def mac_asys_def)
  then have "full_rep (ex_addr 100) mac_asys mac_ax ?f"
    using a by (simp add: full_rep_def) (simp add: mac_asys_def mac_ax_def x_initial_def ex_actrl_def)
  then show thesis by (rule that)
qed

lemma ten_ms: "ms_of_cmd (c_string ''10_ms'') = Some 10"
  by code_simp


end
