(* ===== verification/Sm_Control.thy ===== *)
theory Sm_Control
  imports Sm_Session
begin

text \<open>
  A control request with the plug-ins of the service models: what the caller asks for is what the plug-in of the agent
  hands to the radio access network.
\<close>

section \<open>From the command to the radio access network\<close>

fun model_of_cmd :: "sm_ctrl_cmd \<Rightarrow> model option" where
  "model_of_cmd (CTRL_MAC q) = Some MAC"
| "model_of_cmd (CTRL_RLC q) = Some RLC"
| "model_of_cmd (CTRL_PDCP q) = Some PDCP"
| "model_of_cmd (CTRL_GTP q) = Some GTP"
| "model_of_cmd (CTRL_SLICE q) = Some SLICE"
| "model_of_cmd (CTRL_BYTES b) = None"

text \<open>The dummies and actions are the ones that the plug-ins assert.  A command of SLICE fits into a message of the caller.  The network answers, with a diagnostic of
  the length that it says.\<close>
fun ok_cmd :: "ran \<Rightarrow> sm_ctrl_cmd \<Rightarrow> bool" where
  "ok_cmd r (CTRL_MAC q) \<longleftrightarrow> mc_dummy (mr_hdr q) = 1 \<and> mc_action (mr_msg q) = 42"
| "ok_cmd r (CTRL_RLC q) \<longleftrightarrow> rlc_dummy (rlr_hdr q) = 0 \<and> rlc_action (rlr_msg q) = 42"
| "ok_cmd r (CTRL_PDCP q) \<longleftrightarrow> pdc_dummy (pdr_hdr q) = 0 \<and> pdc_action (pdr_msg q) = 42 \<and> write_pdcp r q \<noteq> None"
| "ok_cmd r (CTRL_GTP q) \<longleftrightarrow> gtc_dummy (gtr_hdr q) = 0 \<and> gtc_action (gtr_msg q) = 42"
| "ok_cmd r (CTRL_SLICE q) \<longleftrightarrow> ok_ctrl_msg (lr_msg q) \<and> (\<exists>n < 2049. cal_ctrl_msg_payload (lr_msg q) = Some n) \<and>
     (\<exists>out. write_slice r (q\<lparr>lr_msg := norm_ctrl_msg (lr_msg q)\<rparr>) = Some out \<and> unat (len_diag out) \<le> length (diagnostic out))"
| "ok_cmd r (CTRL_BYTES b) \<longleftrightarrow> False"

text \<open>What the plug-in of the agent hands to the radio access network, from the two parts of the message.\<close>
fun handed_over :: "ran \<Rightarrow> model \<Rightarrow> byte_array \<times> byte_array \<Rightarrow> sm_ctrl_cmd option" where
  "handed_over r MAC e = map_option (\<lambda>x. CTRL_MAC (fst x)) (on_control_mac_sm_ag (fst e) (snd e))"
| "handed_over r RLC e = map_option (\<lambda>x. CTRL_RLC (fst x)) (on_control_rlc_sm_ag (fst e) (snd e))"
| "handed_over r PDCP e = map_option (\<lambda>x. CTRL_PDCP (fst x)) (on_control_pdcp_sm_ag (write_pdcp r) (fst e) (snd e))"
| "handed_over r GTP e = map_option (\<lambda>x. CTRL_GTP (fst x)) (on_control_gtp_sm_ag (fst e) (snd e))"
| "handed_over r SLICE e = map_option (\<lambda>x. CTRL_SLICE (fst x)) (on_control_slice_sm_ag (write_slice r) (fst e) (snd e))"

text \<open>The command itself, with the labels of slices cut at their length.\<close>
fun meant :: "sm_ctrl_cmd \<Rightarrow> sm_ctrl_cmd" where
  "meant (CTRL_SLICE q) = CTRL_SLICE (q\<lparr>lr_msg := norm_ctrl_msg (lr_msg q)\<rparr>)"
| "meant c = c"

lemma length_lay32: "length (lay32 x) = 4"
  by simp

lemma slice_command:
  assumes "ok_cmd r (CTRL_SLICE q)"
  obtains h m where "on_control_req_slice_sm_ric (CTRL_SLICE q) = Some (h, m)" "length h < 2049" "length m < 2049"
    "handed_over r SLICE (h, m) = Some (meant (CTRL_SLICE q))" "sma_on_control (agent_plugin r SLICE) h m \<noteq> None"
proof -
  obtain n out where o: "ok_ctrl_msg (lr_msg q)" "n < 2049" "cal_ctrl_msg_payload (lr_msg q) = Some n"
      "write_slice r (q\<lparr>lr_msg := norm_ctrl_msg (lr_msg q)\<rparr>) = Some out" "unat (len_diag out) \<le> length (diagnostic out)"
    using assms by auto
  obtain m where m: "slice_enc_ctrl_msg_plain (lr_msg q) = Some m" "cal_ctrl_msg_payload (lr_msg q) = Some (length m)"
    "slice_dec_ctrl_msg_plain m = Some (norm_ctrl_msg (lr_msg q))"
    using slice_ctrl_msg_roundtrip[OF o(1)] by blast
  have a: "slice_enc_ctrl_out_plain out = Some (lay32 (len_diag out) @ take (unat (len_diag out)) (diagnostic out))"
    using o(5) by (simp add: slice_enc_ctrl_out_plain_def wire_simps)
  have q: "\<lparr>lr_hdr = \<lparr>sh_dummy = sh_dummy (lr_hdr q)\<rparr>, lr_msg = norm_ctrl_msg (lr_msg q)\<rparr> = q\<lparr>lr_msg := norm_ctrl_msg (lr_msg q)\<rparr>"
    by simp
  have c: "on_control_slice_sm_ag (write_slice r) (lay32 (sh_dummy (lr_hdr q))) m =
      Some (q\<lparr>lr_msg := norm_ctrl_msg (lr_msg q)\<rparr>, lay32 (len_diag out) @ take (unat (len_diag out)) (diagnostic out))"
    using m(3) o(4) a by (simp add: on_control_slice_sm_ag_def slice_dec_ctrl_hdr_plain_def get32_lay q)
  show thesis
    by (rule that[of "lay32 (sh_dummy (lr_hdr q))" m])
      (use m o c in \<open>simp_all add: on_control_req_slice_sm_ric_def slice_enc_ctrl_hdr_plain_def le_bytes_lay32 make_slice_sm_agent_def\<close>)
qed

lemmas ctrl_codecs = mac_enc_ctrl_hdr_plain_def mac_enc_ctrl_msg_plain_def mac_dec_ctrl_hdr_plain_def mac_dec_ctrl_msg_plain_def
  rlc_enc_ctrl_hdr_plain_def rlc_enc_ctrl_msg_plain_def rlc_dec_ctrl_hdr_plain_def rlc_dec_ctrl_msg_plain_def
  pdcp_enc_ctrl_hdr_plain_def pdcp_enc_ctrl_msg_plain_def pdcp_enc_ctrl_out_plain_def pdcp_dec_ctrl_hdr_plain_def pdcp_dec_ctrl_msg_plain_def
  gtp_enc_ctrl_hdr_plain_def gtp_enc_ctrl_msg_plain_def gtp_dec_ctrl_hdr_plain_def gtp_dec_ctrl_msg_plain_def

lemma any_command:
  assumes "model_of_cmd c = Some k" "ok_cmd r c"
  obtains e where "on_control_req (ric_plugin k) c = Some e" "length (fst e) < 2049" "length (snd e) < 2049"
    "handed_over r k e = Some (meant c)" "sma_on_control (agent_plugin r k) (fst e) (snd e) \<noteq> None"
proof (cases c)
  case (CTRL_MAC q)
  show thesis
    by (rule that[of "(lay32 1, lay32 42)"]) (use assms CTRL_MAC in \<open>auto simp: make_mac_sm_ric_def make_mac_sm_agent_def
        on_control_req_mac_sm_ric_def on_control_mac_sm_ag_def ctrl_codecs plugin_simps\<close>)
next
  case (CTRL_RLC q)
  show thesis
    by (rule that[of "(lay32 0, lay32 42)"]) (use assms CTRL_RLC in \<open>auto simp: make_rlc_sm_ric_def make_rlc_sm_agent_def
        on_control_req_rlc_sm_ric_def on_control_rlc_sm_ag_def ctrl_codecs plugin_simps\<close>)
next
  case (CTRL_PDCP q)
  have "q = \<lparr>pdr_hdr = \<lparr>pdc_dummy = 0\<rparr>, pdr_msg = \<lparr>pdc_action = 42\<rparr>\<rparr>"
    using assms(2) CTRL_PDCP by (metis (full_types) ok_cmd.simps(3) pdcp_ctrl_req_data.surjective pdcp_ctrl_hdr.surjective pdcp_ctrl_msg.surjective unit.exhaust)
  then show thesis
    by (intro that[of "(lay32 0, lay32 42)"]) (use assms CTRL_PDCP in \<open>auto simp: make_pdcp_sm_ric_def make_pdcp_sm_agent_def
        on_control_req_pdcp_sm_ric_def on_control_pdcp_sm_ag_def ctrl_codecs plugin_simps\<close>)
next
  case (CTRL_GTP q)
  show thesis
    by (rule that[of "(lay32 0, lay32 42)"]) (use assms CTRL_GTP in \<open>auto simp: make_gtp_sm_ric_def make_gtp_sm_agent_def
        on_control_req_gtp_sm_ric_def on_control_gtp_sm_ag_def ctrl_codecs plugin_simps\<close>)
next
  case (CTRL_SLICE q)
  then show thesis using slice_command[of r q] assms that by (fastforce simp: make_slice_sm_ric_def)
next
  case (CTRL_BYTES b)
  then show thesis using assms by simp
qed

section \<open>The three programs\<close>

text \<open>The caller can ask, and the controller and the agent can serve it.\<close>
definition control_ready :: "axapp \<Rightarrow> xcontrol \<Rightarrow> (nat \<Rightarrow> int) \<Rightarrow> sctp_info \<Rightarrow> sctp_info \<Rightarrow> asystem \<Rightarrow> bool" where
  "control_ready a w kfd t sx A \<longleftrightarrow> x_pc a = UI_IDLE \<and> x_next a < 65536 \<and> 0 < c_timer w \<and> c_timer w \<notin> x_polled a \<and>
     none_of_kind E42_RIC_CONTROL_REQUEST_PENDING_EVENT (x_pend a) \<and>
     may_request (a_ctl A) (kfd 0) (c_node w) t \<lparr>x_ric_id = new_id a (c_rf w), xapp_id = x_num a\<rparr> \<and> length (regs (a_ctl A)) < 256 \<and>
     (x_num a, sx) \<in># xapps (a_ctl A) \<and> a_down A = length (msgs_to t (to_nodes (a_ctl A))) \<and> a_up A = length (out (a_agt A))"

definition control_of :: "ran \<Rightarrow> model \<Rightarrow> axapp \<Rightarrow> xcontrol \<Rightarrow> byte_array \<times> byte_array \<Rightarrow> sctp_info \<Rightarrow> control" where
  "control_of r k a w e sx = \<lparr>k_req = xc_req a w e, k_agent_sm = agent_plugin r k, k_xapp = sx\<rparr>"


section \<open>Example\<close>

definition mac_command :: xcontrol where
  "mac_command = \<lparr>c_node = ex_gnb 1, c_rf = 142, c_cmd = CTRL_MAC \<lparr>mr_hdr = \<lparr>mc_dummy = 1\<rparr>, mr_msg = \<lparr>mc_action = 42\<rparr>\<rparr>, c_timer = 9\<rparr>"

definition ex_ran :: ran where
  "ex_ran = \<lparr>write_pdcp = (\<lambda>q. None), write_slice = (\<lambda>q. None)\<rparr>"


end
