(* ===== verification/Turns.thy ===== *)
theory Turns
  imports Prelude
begin

text \<open>
  Threads that take turns: what can be said of a system whose threads run in any order, as long as none is left out for ever.
\<close>

primrec steps :: "('a \<Rightarrow> 's \<Rightarrow> 's option) \<Rightarrow> 'a list \<Rightarrow> 's \<Rightarrow> 's option" where
  "steps step [] s = Some s"
| "steps step (a # as) s = do { s \<leftarrow> step a s; steps step as s }"

lemma steps_append: "steps step (as @ bs) s = do { s \<leftarrow> steps step as s; steps step bs s }"
  by (induction as arbitrary: s) simp_all

text \<open>Every party has a turn, and there is nothing else.\<close>
definition round_of :: "('l \<Rightarrow> 'a \<Rightarrow> bool) \<Rightarrow> 'l set \<Rightarrow> 'a list \<Rightarrow> bool" where
  "round_of turn party as \<longleftrightarrow> (\<forall>l \<in> party. \<exists>a \<in> set as. turn l a) \<and> (\<forall>a \<in> set as. \<exists>l \<in> party. turn l a)"

text \<open>A turn does not fail; it leaves the state as it is or lowers its rank.  As long as the state is not final, there is a party
  whose turn changes it.\<close>
locale turns =
  fixes step :: "'a \<Rightarrow> 's \<Rightarrow> 's option" and turn :: "'l \<Rightarrow> 'a \<Rightarrow> bool" and party :: "'l set"
    and inv :: "'s \<Rightarrow> bool" and final :: "'s \<Rightarrow> bool" and rank :: "'s \<Rightarrow> nat"
  assumes able: "l \<in> party \<Longrightarrow> \<exists>a. turn l a"
    and turn_ok: "inv s \<Longrightarrow> l \<in> party \<Longrightarrow> turn l a \<Longrightarrow>
      \<exists>s'. step a s = Some s' \<and> inv s' \<and> (s' = s \<or> rank s' < rank s) \<and> (final s \<longrightarrow> final s')"
    and progress: "inv s \<Longrightarrow> \<not> final s \<Longrightarrow> \<exists>l \<in> party. \<forall>a. turn l a \<longrightarrow> step a s \<noteq> Some s"
begin

lemma turns_ok:
  assumes "inv s" "\<forall>a \<in> set as. \<exists>l \<in> party. turn l a"
  obtains s' where "steps step as s = Some s'" "inv s'" "s' = s \<or> rank s' < rank s" "final s \<longrightarrow> final s'"
  using assms
proof (induction as arbitrary: s thesis)
  case (Cons a as)
  from Cons.prems(3) obtain l where "l \<in> party" "turn l a" by auto
  with turn_ok[OF Cons.prems(2)] obtain s1 where s1: "step a s = Some s1" "inv s1" "s1 = s \<or> rank s1 < rank s" "final s \<longrightarrow> final s1" by blast
  obtain s2 where s2: "steps step as s1 = Some s2" "inv s2" "s2 = s1 \<or> rank s2 < rank s1" "final s1 \<longrightarrow> final s2"
    using Cons.IH[OF _ s1(2)] Cons.prems(3) by auto
  show ?case by (rule Cons.prems(1)[of s2]) (use s1 s2 in auto)
qed simp

text \<open>A round lowers the rank: the party that can do something has its turn in it, unless another one was faster.\<close>
lemma round_lowers:
  assumes "inv s" "round_of turn party as" "\<not> final s"
  obtains s' where "steps step as s = Some s'" "inv s'" "rank s' < rank s"
proof -
  obtain l where l: "l \<in> party" "\<forall>a. turn l a \<longrightarrow> step a s \<noteq> Some s" using progress[OF assms(1,3)] by blast
  obtain a where a: "a \<in> set as" "turn l a" using l(1) assms(2) by (auto simp: round_of_def)
  obtain xs ys where as: "as = xs @ a # ys" using split_list[OF a(1)] by blast
  have t: "\<forall>a \<in> set as. \<exists>l \<in> party. turn l a" using assms(2) by (simp add: round_of_def)
  obtain s1 where s1: "steps step xs s = Some s1" "inv s1" "s1 = s \<or> rank s1 < rank s"
    by (rule turns_ok[OF assms(1), of xs]) (use t as in auto)
  obtain s2 where s2: "step a s1 = Some s2" "inv s2" "s2 = s1 \<or> rank s2 < rank s1"
    using turn_ok[OF s1(2) l(1) a(2)] by blast
  obtain s3 where s3: "steps step ys s2 = Some s3" "inv s3" "s3 = s2 \<or> rank s3 < rank s2"
    by (rule turns_ok[OF s2(2), of ys]) (use t as in auto)
  have "s1 = s \<Longrightarrow> s2 \<noteq> s" using l(2) a(2) s2(1) by blast
  then have "rank s3 < rank s" using s1(3) s2(3) s3(3) by auto
  then show thesis using that s1 s2 s3 as by (simp add: steps_append)
qed

lemma stays_final:
  assumes "inv s" "final s" "\<forall>as \<in> set rs. round_of turn party as"
  obtains s' where "steps step (concat rs) s = Some s'" "inv s'" "final s'"
  by (rule turns_ok[OF assms(1), of "concat rs"]) (use assms that in \<open>auto simp: round_of_def\<close>)

text \<open>As many rounds as the rank says lead to a final state.\<close>
lemma rounds_end:
  assumes "inv s" "\<forall>as \<in> set rs. round_of turn party as" "rank s \<le> length rs"
  obtains s' where "steps step (concat rs) s = Some s'" "inv s'" "final s'"
  using assms
proof (induction rs arbitrary: s thesis)
  case Nil
  have "final s"
  proof (rule ccontr)
    assume f: "\<not> final s"
    from progress[OF Nil(2) f] obtain l where l: "l \<in> party" "\<forall>a. turn l a \<longrightarrow> step a s \<noteq> Some s" by blast
    obtain a where "turn l a" using able[OF l(1)] by blast
    with turn_ok[OF Nil(2) l(1)] l(2) Nil(4) show False by fastforce
  qed
  then show ?case using Nil by simp
next
  case (Cons as rs)
  show ?case
  proof (cases "final s")
    case True
    show ?thesis by (rule stays_final[OF Cons.prems(2) True Cons.prems(3)]) (rule Cons.prems(1))
  next
    case False
    obtain s1 where s1: "steps step as s = Some s1" "inv s1" "rank s1 < rank s"
      by (rule round_lowers[OF Cons.prems(2) _ False, of as]) (use Cons.prems(3) in auto)
    obtain s2 where s2: "steps step (concat rs) s1 = Some s2" "inv s2" "final s2"
      by (rule Cons.IH[OF _ s1(2)]) (use Cons.prems(3,4) s1(3) in auto)
    show ?thesis by (rule Cons.prems(1)[of s2]) (use s1 s2 in \<open>simp_all add: steps_append\<close>)
  qed
qed

end

end
