(* ===== verification/Task_Manager.thy ===== *)
theory Task_Manager
  imports Tsq Wire Turns
begin

text \<open>
  The pool of threads of src/util/alg_ds/ds/task_man/task_manager.c, to which the controller hands the
  messages that it has received.  Each thread has a queue; a thread whose turn it is first tries to steal from
  the queues of all threads, its own first, and then waits for its own.

  The ring buffer in task_manager.c is the one of Seq_Ring, copied there, with room for 32768 elements at the start.  The functions of the queue hold its mutex
  from their first access to the last, so that each is one step; whether a trylock finds the mutex
  taken is the argument \<open>busy\<close>.
\<close>

section \<open>The queue of a thread\<close>

text \<open>The argument and the function are addresses, and 0 is the null pointer.\<close>
record task =
  t_args :: uint64
  t_func :: uint64

definition img_task :: "task \<Rightarrow> byte list" where
  "img_task t = lay64 (t_args t) @ lay64 (t_func t)"

definition get_task :: "byte list \<Rightarrow> task option" where
  "get_task bs = do {
     (a, bs) \<leftarrow> get64 bs;
     (f, bs) \<leftarrow> get64 bs;
     Some \<lparr>t_args = a, t_func = f\<rparr>
   }"

record not_q =
  nq_r :: seq_ring
  nq_done :: bool

definition init_not_q :: not_q where
  "init_not_q = \<lparr>nq_r = \<lparr>sr_array = mem_calloc 32768 16, sr_elt_size = 16, sr_head = 0, sr_tail = 0, sr_cap = 32768\<rparr>,
     nq_done = False\<rparr>"

definition free_not_q :: "not_q \<Rightarrow> bool \<Rightarrow> byte list list option" where
  "free_not_q q has_clean = do {
     c_assert (nq_done q);
     seq_ring_free (nq_r q) has_clean
   }"

definition try_push_not_q :: "bool \<Rightarrow> not_q \<Rightarrow> task \<Rightarrow> (bool \<times> not_q) option" where
  "try_push_not_q busy q t = do {
     c_assert (t_func t \<noteq> 0);
     c_assert (t_args t \<noteq> 0);
     if busy then Some (False, q)
     else do {
       r \<leftarrow> seq_ring_push_back (nq_r q) (img_task t) 16;
       Some (True, q\<lparr>nq_r := r\<rparr>)
     }
   }"

definition push_not_q :: "not_q \<Rightarrow> task \<Rightarrow> not_q option" where
  "push_not_q q t = do {
     c_assert (t_func t \<noteq> 0);
     r \<leftarrow> seq_ring_push_back (nq_r q) (img_task t) 16;
     Some (q\<lparr>nq_r := r\<rparr>)
   }"

text \<open>The loop that copies \<open>n\<close> elements from the \<open>i\<close>-th on; the waiting pop asserts that it does not reach the end.\<close>
fun copy_tasks :: "seq_ring \<Rightarrow> bool \<Rightarrow> nat \<Rightarrow> nat \<Rightarrow> task list option" where
  "copy_tasks r check i 0 = Some []"
| "copy_tasks r check i (Suc n) = do {
     let it = seq_ring_at r (word_of_nat i);
     c_assert (check \<longrightarrow> it \<noteq> seq_ring_end r);
     bs \<leftarrow> mem_load (sr_array r) it 16;
     t \<leftarrow> get_task bs;
     ts \<leftarrow> copy_tasks r check (Suc i) n;
     Some (t # ts)
   }"

definition try_pop_not_q :: "bool \<Rightarrow> not_q \<Rightarrow> (task list option \<times> not_q) option" where
  "try_pop_not_q busy q =
     (if busy then Some (None, q)
      else do {
        let sz = seq_ring_size (nq_r q);
        if sz = 0 then Some (None, q)
        else do {
          let len = (if sz < 4096 then sz else 4096);
          ts \<leftarrow> copy_tasks (nq_r q) False 0 len;
          r \<leftarrow> seq_ring_erase (nq_r q) (seq_ring_front (nq_r q)) (seq_ring_at (nq_r q) (word_of_nat len));
          c_assert (sz = len + seq_ring_size r);
          Some (Some ts, q\<lparr>nq_r := r\<rparr>)
        }
      })"

definition pop_not_q :: "not_q \<Rightarrow> (task list popped \<times> not_q) option" where
  "pop_not_q q =
     (if seq_ring_size (nq_r q) = 0 \<and> \<not> nq_done q then Some (Blocked, q)
      else if nq_done q then Some (Stopped, q)
      else do {
        let sz = seq_ring_size (nq_r q);
        let len = (if sz < 4096 then sz else 4096);
        ts \<leftarrow> copy_tasks (nq_r q) True 0 len;
        r \<leftarrow> seq_ring_erase (nq_r q) (seq_ring_front (nq_r q)) (seq_ring_at (nq_r q) (word_of_nat len));
        Some (Elm ts, q\<lparr>nq_r := r\<rparr>)
      })"

definition done_not_q :: "not_q \<Rightarrow> not_q" where
  "done_not_q q = q\<lparr>nq_done := True\<rparr>"

section \<open>The threads and their owner\<close>

text \<open>Where a thread is: in the loop that steals, before the waiting pop, executing what it got, or at its end.\<close>
datatype worker = STEAL nat | POP | RUN "task list" | EXITED

text \<open>Where the owner of the pool is: outside of its functions, in the loop of async_task_manager with the number that it
  drew, in one of the three loops of free_task_manager, or behind it; the bool says whether there is a function that cleans.\<close>
datatype owner = READY | PUSHING uint64 nat task | STOPPING bool nat | JOINING bool nat | RELEASING bool nat | OVER bool

text \<open>The last three fields record what was handed over, executed and passed to the function that cleans.\<close>
record task_manager =
  q_arr :: "not_q list"
  t_arr :: "worker list"
  tm_index :: uint64
  own :: owner
  handed :: "task list"
  executed :: "task list"
  cleaned :: "byte list list"

definition len_thr :: "task_manager \<Rightarrow> nat" where
  "len_thr m = length (t_arr m)"

definition init_task_manager :: "nat \<Rightarrow> task_manager option" where
  "init_task_manager num_threads = do {
     c_assert (0 < num_threads \<and> num_threads < 33);
     Some \<lparr>q_arr = replicate num_threads init_not_q, t_arr = map STEAL [0..<num_threads], tm_index = 0, own = READY,
       handed = [], executed = [], cleaned = []\<rparr>
   }"

text \<open>The next step of the thread \<open>idx\<close>.\<close>
definition worker_thread_tm :: "bool \<Rightarrow> nat \<Rightarrow> task_manager \<Rightarrow> task_manager option" where
  "worker_thread_tm busy idx m = do {
     c_assert (idx < len_thr m);
     let len = len_thr m;
     let num_it = 3 * (len + idx);
     case t_arr m ! idx of
       STEAL i \<Rightarrow> do {
         c_assert (i mod len < length (q_arr m));
         (ret, q) \<leftarrow> try_pop_not_q busy (q_arr m ! (i mod len));
         let w = (case ret of Some ts \<Rightarrow> RUN ts | None \<Rightarrow> if i + 1 < num_it then STEAL (i + 1) else POP);
         Some (m\<lparr>q_arr := (q_arr m)[i mod len := q], t_arr := (t_arr m)[idx := w]\<rparr>)
       }
     | POP \<Rightarrow> do {
         c_assert (idx < length (q_arr m));
         (ret, q) \<leftarrow> pop_not_q (q_arr m ! idx);
         let w = (case ret of Elm ts \<Rightarrow> RUN ts | Stopped \<Rightarrow> EXITED | Blocked \<Rightarrow> POP);
         Some (m\<lparr>q_arr := (q_arr m)[idx := q], t_arr := (t_arr m)[idx := w]\<rparr>)
       }
     | RUN [] \<Rightarrow> Some (m\<lparr>t_arr := (t_arr m)[idx := STEAL idx]\<rparr>)
     | RUN (t # ts) \<Rightarrow> Some (m\<lparr>t_arr := (t_arr m)[idx := RUN ts], executed := executed m @ [t]\<rparr>)
     | EXITED \<Rightarrow> Some m
   }"

text \<open>The call of async_task_manager, up to its loop.\<close>
definition async_task_manager :: "task_manager \<Rightarrow> task \<Rightarrow> task_manager option" where
  "async_task_manager m t = do {
     c_assert (0 < len_thr m);
     c_assert (t_func t \<noteq> 0);
     let index = tm_index m;
     Some (m\<lparr>tm_index := tm_index m + 1, own := PUSHING index 0 t, handed := handed m @ [t]\<rparr>)
   }"

text \<open>The next step of the loop, and of the push after it.\<close>
definition async_loop :: "bool \<Rightarrow> task_manager \<Rightarrow> uint64 \<Rightarrow> nat \<Rightarrow> task \<Rightarrow> task_manager option" where
  "async_loop busy m index i t =
     (if i < len_thr m then do {
        let k = unat (word_of_nat i + index) mod len_thr m;
        c_assert (k < length (q_arr m));
        (ok, q) \<leftarrow> try_push_not_q busy (q_arr m ! k) t;
        Some (m\<lparr>q_arr := (q_arr m)[k := q], own := if ok then READY else PUSHING index (i + 1) t\<rparr>)
      }
      else do {
        let k = unat index mod len_thr m;
        c_assert (k < length (q_arr m));
        q \<leftarrow> push_not_q (q_arr m ! k) t;
        Some (m\<lparr>q_arr := (q_arr m)[k := q], own := READY\<rparr>)
      })"

text \<open>The next step of the three loops; pthread_join waits for the thread to end.\<close>
definition free_task_manager :: "task_manager \<Rightarrow> task_manager option" where
  "free_task_manager m = (case own m of
       STOPPING clean i \<Rightarrow>
         (if i < len_thr m then do {
            c_assert (i < length (q_arr m));
            Some (m\<lparr>q_arr := (q_arr m)[i := done_not_q (q_arr m ! i)], own := STOPPING clean (i + 1)\<rparr>)
          }
          else Some (m\<lparr>own := JOINING clean 0\<rparr>))
     | JOINING clean i \<Rightarrow>
         (if i < len_thr m then Some (if t_arr m ! i = EXITED then m\<lparr>own := JOINING clean (i + 1)\<rparr> else m)
          else Some (m\<lparr>own := RELEASING clean 0\<rparr>))
     | RELEASING clean i \<Rightarrow>
         (if i < len_thr m then do {
            c_assert (i < length (q_arr m));
            es \<leftarrow> free_not_q (q_arr m ! i) clean;
            Some (m\<lparr>own := RELEASING clean (i + 1), cleaned := cleaned m @ es\<rparr>)
          }
          else Some (m\<lparr>own := OVER clean\<rparr>))
     | _ \<Rightarrow> Some m)"

text \<open>The owner hands over a task or releases the pool, and it and the threads take turns.  A call while another one runs does not happen.\<close>
datatype tm_action = HAND_OVER task | RELEASE bool | OWNER bool | THREAD nat bool

fun tm_step :: "tm_action \<Rightarrow> task_manager \<Rightarrow> task_manager option" where
  "tm_step (HAND_OVER t) m = (if own m = READY then async_task_manager m t else Some m)"
| "tm_step (RELEASE clean) m = (if own m = READY then Some (m\<lparr>own := STOPPING clean 0\<rparr>) else Some m)"
| "tm_step (OWNER busy) m = (case own m of PUSHING index i t \<Rightarrow> async_loop busy m index i t | _ \<Rightarrow> free_task_manager m)"
| "tm_step (THREAD idx busy) m = worker_thread_tm busy idx m"

definition tm_run :: "tm_action list \<Rightarrow> task_manager \<Rightarrow> task_manager option" where
  "tm_run = steps tm_step"

section \<open>The queues\<close>

lemma img_task_simps [simp]: "length (img_task t) = 16" "get_task (img_task t) = Some t"
  using get_lay(4)[of "t_func t" "[]"] by (simp_all add: img_task_def get_task_def wire_simps)

text \<open>A queue that holds a list of tasks.\<close>
definition q_rep :: "not_q \<Rightarrow> task list \<Rightarrow> bool" where
  "q_rep q ts \<longleftrightarrow> seq_ring_ok (nq_r q) \<and> sr_elt_size (nq_r q) = 16 \<and> seq_ring_elems (nq_r q) = map img_task ts"

lemma q_rep_size: "q_rep q ts \<Longrightarrow> seq_ring_size (nq_r q) = length ts"
  unfolding q_rep_def by (metis length_map length_seq_ring_elems)

lemma q_rep_init: "q_rep init_not_q []"
proof -
  have "\<exists>m. 5 \<le> m \<and> m \<le> 31 \<and> (32768 :: uint32) = 2 ^ m" by (intro exI[of _ 15]) simp
  then show ?thesis
    by (simp add: q_rep_def init_not_q_def seq_ring_ok_def seq_ring_elems_def seq_ring_size_def mem_calloc_def)
qed

lemma q_push:
  assumes "q_rep q ts" "length ts < 2 ^ 31 - 1"
  obtains r where "seq_ring_push_back (nq_r q) (img_task t) 16 = Some r" "q_rep (q\<lparr>nq_r := r\<rparr>) (ts @ [t])"
proof -
  have ok: "seq_ring_ok (nq_r q)" "length (img_task t) = sr_elt_size (nq_r q)" "seq_ring_size (nq_r q) < 2 ^ 31 - 1"
    using assms q_rep_size[OF assms(1)] by (simp_all add: q_rep_def)
  obtain r where r: "seq_ring_push_back (nq_r q) (img_task t) (sr_elt_size (nq_r q)) = Some r" "seq_ring_ok r"
    "seq_ring_elems r = seq_ring_elems (nq_r q) @ [img_task t]" "sr_elt_size r = sr_elt_size (nq_r q)"
    by (rule seq_ring_push_refines[OF ok])
  show thesis by (rule that[of r]) (use r assms(1) in \<open>simp_all add: q_rep_def\<close>)
qed

lemma copy_tasks_rep:
  assumes "q_rep q ts" "i + n \<le> length ts"
  shows "copy_tasks (nq_r q) check i n = Some (take n (drop i ts))"
  using assms(2)
proof (induction n arbitrary: i)
  case (Suc n)
  have ok: "seq_ring_ok (nq_r q)" "sr_elt_size (nq_r q) = 16" "seq_ring_size (nq_r q) = length ts" "i < length ts"
    using assms(1) q_rep_size[OF assms(1)] Suc.prems by (simp_all add: q_rep_def)
  have "mem_load (sr_array (nq_r q)) (seq_ring_at (nq_r q) (word_of_nat i)) 16 = Some (img_task (ts ! i))"
    using seq_ring_load_at[of "nq_r q" i] ok assms(1) by (simp add: q_rep_def)
  moreover have "seq_ring_at (nq_r q) (word_of_nat i) \<noteq> seq_ring_end (nq_r q)"
    using seq_ring_at_end[OF ok(1), of i] ok(3,4) by simp
  moreover have "take (Suc n) (drop i ts) = ts ! i # take n (drop (Suc i) ts)"
    using ok(4) by (simp add: Cons_nth_drop_Suc[symmetric])
  ultimately show ?case using Suc.IH[of "Suc i"] Suc.prems by simp
qed simp

lemma q_take:
  assumes "q_rep q ts" "0 < n" "n \<le> length ts"
  obtains r where "seq_ring_erase (nq_r q) (seq_ring_front (nq_r q)) (seq_ring_at (nq_r q) (word_of_nat n)) = Some r"
    "q_rep (q\<lparr>nq_r := r\<rparr>) (drop n ts)" "seq_ring_size r = length ts - n"
proof -
  have "seq_ring_ok (nq_r q)" "n \<le> seq_ring_size (nq_r q)" using assms q_rep_size[OF assms(1)] by (simp_all add: q_rep_def)
  from seq_ring_erase_refines[OF this(1) assms(2) this(2)] obtain r where r:
    "seq_ring_erase (nq_r q) (seq_ring_front (nq_r q)) (seq_ring_at (nq_r q) (word_of_nat n)) = Some r" "seq_ring_ok r"
    "seq_ring_elems r = drop n (seq_ring_elems (nq_r q))" "sr_elt_size r = sr_elt_size (nq_r q)" .
  then have q: "q_rep (q\<lparr>nq_r := r\<rparr>) (drop n ts)" using assms(1) by (simp add: q_rep_def drop_map)
  show thesis by (rule that[OF r(1) q]) (use q_rep_size[OF q] in simp)
qed

lemma try_push_rep:
  assumes "q_rep q ts" "length ts < 2 ^ 31 - 1" "t_func t \<noteq> 0" "t_args t \<noteq> 0"
  obtains q' where "try_push_not_q busy q t = Some (\<not> busy, q')" "q_rep q' (if busy then ts else ts @ [t])" "nq_done q' = nq_done q"
proof (cases busy)
  case True
  then show thesis using that assms by (simp add: try_push_not_q_def)
next
  case False
  obtain r where r: "seq_ring_push_back (nq_r q) (img_task t) 16 = Some r" "q_rep (q\<lparr>nq_r := r\<rparr>) (ts @ [t])"
    by (rule q_push[OF assms(1,2)])
  show thesis by (rule that[of "q\<lparr>nq_r := r\<rparr>"]) (use r False assms in \<open>simp_all add: try_push_not_q_def\<close>)
qed

lemma push_rep:
  assumes "q_rep q ts" "length ts < 2 ^ 31 - 1" "t_func t \<noteq> 0"
  obtains q' where "push_not_q q t = Some q'" "q_rep q' (ts @ [t])" "nq_done q' = nq_done q"
proof -
  obtain r where r: "seq_ring_push_back (nq_r q) (img_task t) 16 = Some r" "q_rep (q\<lparr>nq_r := r\<rparr>) (ts @ [t])"
    by (rule q_push[OF assms(1,2)])
  show thesis by (rule that[of "q\<lparr>nq_r := r\<rparr>"]) (use r assms in \<open>simp_all add: push_not_q_def\<close>)
qed

lemma try_pop_rep:
  assumes "q_rep q ts"
  shows "busy \<or> ts = [] \<Longrightarrow> try_pop_not_q busy q = Some (None, q)"
    and "\<not> busy \<Longrightarrow> ts \<noteq> [] \<Longrightarrow> \<exists>q'. try_pop_not_q busy q = Some (Some (take 4096 ts), q') \<and> q_rep q' (drop 4096 ts) \<and> nq_done q' = nq_done q"
proof -
  note sz = q_rep_size[OF assms]
  show "busy \<or> ts = [] \<Longrightarrow> try_pop_not_q busy q = Some (None, q)" using sz by (auto simp: try_pop_not_q_def)
  assume b: "\<not> busy" "ts \<noteq> []"
  obtain n where n: "(if length ts < 4096 then length ts else 4096) = n" by blast
  then have l: "0 < n" "n \<le> length ts" "take n ts = take 4096 ts" "drop n ts = drop 4096 ts" "length ts \<noteq> 0" using b(2) by auto
  obtain r where r: "seq_ring_erase (nq_r q) (seq_ring_front (nq_r q)) (seq_ring_at (nq_r q) (word_of_nat n)) = Some r"
    "q_rep (q\<lparr>nq_r := r\<rparr>) (drop n ts)" "seq_ring_size r = length ts - n" by (rule q_take[OF assms l(1,2)])
  have c: "copy_tasks (nq_r q) False 0 n = Some (take n ts)" using copy_tasks_rep[OF assms, of 0 n] l(2) by simp
  show "\<exists>q'. try_pop_not_q busy q = Some (Some (take 4096 ts), q') \<and> q_rep q' (drop 4096 ts) \<and> nq_done q' = nq_done q"
    unfolding try_pop_not_q_def Let_def sz n
    by (rule exI[of _ "q\<lparr>nq_r := r\<rparr>"]) (use b l r c in \<open>simp\<close>)
qed

lemma pop_rep:
  assumes "q_rep q ts"
  shows "nq_done q \<Longrightarrow> pop_not_q q = Some (Stopped, q)"
    and "\<not> nq_done q \<Longrightarrow> ts = [] \<Longrightarrow> pop_not_q q = Some (Blocked, q)"
    and "\<not> nq_done q \<Longrightarrow> ts \<noteq> [] \<Longrightarrow> \<exists>q'. pop_not_q q = Some (Elm (take 4096 ts), q') \<and> q_rep q' (drop 4096 ts) \<and> nq_done q' = nq_done q"
proof -
  note sz = q_rep_size[OF assms]
  show "nq_done q \<Longrightarrow> pop_not_q q = Some (Stopped, q)" "\<not> nq_done q \<Longrightarrow> ts = [] \<Longrightarrow> pop_not_q q = Some (Blocked, q)"
    using sz by (simp_all add: pop_not_q_def)
  assume b: "\<not> nq_done q" "ts \<noteq> []"
  obtain n where n: "(if length ts < 4096 then length ts else 4096) = n" by blast
  then have l: "0 < n" "n \<le> length ts" "take n ts = take 4096 ts" "drop n ts = drop 4096 ts" "length ts \<noteq> 0" using b(2) by auto
  obtain r where r: "seq_ring_erase (nq_r q) (seq_ring_front (nq_r q)) (seq_ring_at (nq_r q) (word_of_nat n)) = Some r"
    "q_rep (q\<lparr>nq_r := r\<rparr>) (drop n ts)" "seq_ring_size r = length ts - n" by (rule q_take[OF assms l(1,2)])
  have c: "copy_tasks (nq_r q) True 0 n = Some (take n ts)" using copy_tasks_rep[OF assms, of 0 n] l(2) by simp
  show "\<exists>q'. pop_not_q q = Some (Elm (take 4096 ts), q') \<and> q_rep q' (drop 4096 ts) \<and> nq_done q' = nq_done q"
    unfolding pop_not_q_def Let_def sz n
    by (rule exI[of _ "q\<lparr>nq_r := r\<rparr>"]) (use b l r c in \<open>simp\<close>)
qed

end
