(* ===== verification/Task_Facts.thy ===== *)
theory Task_Facts
  imports Task_Manager "HOL-Library.Multiset"
begin

text \<open>
  The invariant of the pool of threads and the rank that each of its steps lowers.
\<close>

section \<open>Lists in which one element changes\<close>

lemma mset_concat_update: "k < length xs \<Longrightarrow> mset (concat (xs[k := y])) + mset (xs ! k) = mset (concat xs) + mset y"
proof (induction xs arbitrary: k)
  case (Cons x xs)
  then show ?case by (cases k) (simp_all add: ac_simps)
qed simp

lemma sum_update: "k < length xs \<Longrightarrow> sum_list (map f (xs[k := y])) + f (xs ! k) = sum_list (map f xs) + (f y :: nat)"
proof (induction xs arbitrary: k)
  case (Cons x xs)
  then show ?case by (cases k) simp_all
qed simp

section \<open>Invariant\<close>

text \<open>The tasks that a thread has taken, and the one that the owner is about to push.\<close>
fun hand :: "worker \<Rightarrow> task list" where
  "hand (RUN ts) = ts"
| "hand w = []"

fun offered :: "owner \<Rightarrow> task multiset" where
  "offered (PUSHING index i t) = {#t#}"
| "offered ow = {#}"

text \<open>Whether the owner has marked the queue \<open>k\<close> as done, and what it may assume of the threads.\<close>
fun marked :: "owner \<Rightarrow> nat \<Rightarrow> bool" where
  "marked READY k = False"
| "marked (PUSHING index i t) k = False"
| "marked (STOPPING clean j) k = (k < j)"
| "marked ow k = True"

fun own_ok :: "nat \<Rightarrow> worker list \<Rightarrow> owner \<Rightarrow> bool" where
  "own_ok n ws READY = True"
| "own_ok n ws (PUSHING index i t) = (i \<le> n \<and> t_func t \<noteq> 0 \<and> t_args t \<noteq> 0)"
| "own_ok n ws (STOPPING clean j) = (j \<le> n)"
| "own_ok n ws (JOINING clean j) = (j \<le> n \<and> (\<forall>k < j. ws ! k = EXITED))"
| "own_ok n ws (RELEASING clean j) = (j \<le> n \<and> (\<forall>k < n. ws ! k = EXITED))"
| "own_ok n ws (OVER clean) = (\<forall>k < n. ws ! k = EXITED)"

text \<open>What has been cleaned: the queues that are released.\<close>
fun clean_of :: "nat \<Rightarrow> owner \<Rightarrow> task list list \<Rightarrow> task list" where
  "clean_of n (RELEASING clean j) qs = (if clean then concat (take j qs) else [])"
| "clean_of n (OVER clean) qs = (if clean then concat qs else [])"
| "clean_of n ow qs = []"

definition wk_ok :: "nat \<Rightarrow> bool \<Rightarrow> nat \<Rightarrow> worker \<Rightarrow> bool" where
  "wk_ok n d k w \<longleftrightarrow> (\<forall>i. w = STEAL i \<longrightarrow> i < 3 * (n + k)) \<and> (w = EXITED \<longrightarrow> d)"

definition tm_inv :: "nat \<Rightarrow> task list list \<Rightarrow> task_manager \<Rightarrow> bool" where
  "tm_inv n qs m \<longleftrightarrow> 0 < n \<and> n < 33 \<and> length (t_arr m) = n \<and> length (q_arr m) = n \<and> length qs = n \<and>
     (\<forall>k < n. q_rep (q_arr m ! k) (qs ! k) \<and> nq_done (q_arr m ! k) = marked (own m) k \<and> wk_ok n (marked (own m) k) k (t_arr m ! k)) \<and>
     own_ok n (t_arr m) (own m) \<and> cleaned m = map img_task (clean_of n (own m) qs) \<and>
     mset (handed m) = mset (executed m) + mset (concat (map hand (t_arr m))) + mset (concat qs) + offered (own m) \<and>
     length (handed m) < 2 ^ 31"

lemma tm_invD:
  assumes "tm_inv n qs m"
  shows "0 < n" "n < 33" "length (t_arr m) = n" "length (q_arr m) = n" "length qs = n" "len_thr m = n"
    "k < n \<Longrightarrow> q_rep (q_arr m ! k) (qs ! k)" "k < n \<Longrightarrow> nq_done (q_arr m ! k) = marked (own m) k"
    "k < n \<Longrightarrow> wk_ok n (marked (own m) k) k (t_arr m ! k)" "own_ok n (t_arr m) (own m)"
    "cleaned m = map img_task (clean_of n (own m) qs)"
    "mset (handed m) = mset (executed m) + mset (concat (map hand (t_arr m))) + mset (concat qs) + offered (own m)"
    "length (handed m) < 2 ^ 31"
  using assms by (simp_all add: tm_inv_def len_thr_def)

lemma tm_invI:
  assumes "0 < n" "n < 33" "length (t_arr m) = n" "length (q_arr m) = n" "length qs = n"
    "\<And>k. k < n \<Longrightarrow> q_rep (q_arr m ! k) (qs ! k)" "\<And>k. k < n \<Longrightarrow> nq_done (q_arr m ! k) = marked (own m) k"
    "\<And>k. k < n \<Longrightarrow> wk_ok n (marked (own m) k) k (t_arr m ! k)" "own_ok n (t_arr m) (own m)"
    "cleaned m = map img_task (clean_of n (own m) qs)"
    "mset (handed m) = mset (executed m) + mset (concat (map hand (t_arr m))) + mset (concat qs) + offered (own m)"
    "length (handed m) < 2 ^ 31"
  shows "tm_inv n qs m"
  using assms by (simp add: tm_inv_def)

lemma queue_room:
  assumes "tm_inv n qs m" "k < n" shows "length (qs ! k) < 2 ^ 31"
    and "own m = PUSHING index i t \<Longrightarrow> length (qs ! k) < 2 ^ 31 - 1"
proof -
  have "size (mset (qs ! k)) \<le> size (mset (concat qs))"
    using arg_cong[OF mset_concat_update[of k qs "[]"], of size] assms(2) tm_invD(5)[OF assms(1)] by simp
  then have l: "length (qs ! k) \<le> length (concat qs)" by simp
  have h: "length (handed m) = length (executed m) + length (concat (map hand (t_arr m))) + length (concat qs) + size (offered (own m))"
    using arg_cong[OF tm_invD(12)[OF assms(1)], of size] by simp
  show "length (qs ! k) < 2 ^ 31" using l h tm_invD(13)[OF assms(1)] by linarith
  show "own m = PUSHING index i t \<Longrightarrow> length (qs ! k) < 2 ^ 31 - 1" using l h tm_invD(13)[OF assms(1)] by simp
qed

section \<open>Rank\<close>

fun wk_rank :: "nat \<Rightarrow> worker \<Rightarrow> nat" where
  "wk_rank n (STEAL i) = 2 + 6 * n - i"
| "wk_rank n POP = 1"
| "wk_rank n (RUN ts) = length ts + 3 + 6 * n"
| "wk_rank n EXITED = 0"

fun own_rank :: "nat \<Rightarrow> owner \<Rightarrow> nat" where
  "own_rank n READY = 0"
| "own_rank n (PUSHING index i t) = 6 * n + 6 + (n - i)"
| "own_rank n (STOPPING clean j) = 2 * n + 10 + (n - j)"
| "own_rank n (JOINING clean j) = n + 5 + (n - j)"
| "own_rank n (RELEASING clean j) = 1 + (n - j)"
| "own_rank n (OVER clean) = 0"

definition tm_rank :: "task_manager \<Rightarrow> nat" where
  "tm_rank m = (6 * len_thr m + 5) * sum_list (map (\<lambda>q. seq_ring_size (nq_r q)) (q_arr m)) +
     sum_list (map (wk_rank (len_thr m)) (t_arr m)) + own_rank (len_thr m) (own m)"

text \<open>Nothing to do: the pool is released, or its owner does nothing and there is no task.\<close>
definition tm_final :: "task_manager \<Rightarrow> bool" where
  "tm_final m \<longleftrightarrow> (\<exists>clean. own m = OVER clean) \<or>
     own m = READY \<and> (\<forall>q \<in> set (q_arr m). seq_ring_size (nq_r q) = 0) \<and> (\<forall>w \<in> set (t_arr m). hand w = [])"

lemma tm_final_rep:
  assumes "tm_inv n qs m" "own m = READY"
  shows "tm_final m \<longleftrightarrow> (\<forall>k < n. qs ! k = [] \<and> hand (t_arr m ! k) = [])"
  using assms q_rep_size tm_invD(3,4,7)[OF assms(1)] by (fastforce simp: tm_final_def all_set_conv_all_nth)

section \<open>The threads\<close>

text \<open>A thread goes on without a queue.\<close>
lemma thread_moves:
  assumes I: "tm_inv n qs m" and k: "k < n" "t_arr m ! k \<noteq> EXITED" and w: "wk_ok n (marked (own m) k) k w"
    and h: "hand (t_arr m ! k) = ts @ hand w" and r: "wk_rank n w < wk_rank n (t_arr m ! k)"
  defines "m' \<equiv> m\<lparr>t_arr := (t_arr m)[k := w], executed := executed m @ ts\<rparr>"
  shows "tm_inv n qs m'" "tm_rank m' < tm_rank m" "tm_final m \<Longrightarrow> tm_final m'"
proof -
  note D = tm_invD[OF I]
  have c: "mset (concat (map hand (t_arr m'))) + mset ts = mset (concat (map hand (t_arr m)))"
    using mset_concat_update[of k "map hand (t_arr m)" "hand w"] D(3) k(1) h by (simp add: m'_def map_update ac_simps)
  have o: "own_ok n (t_arr m') (own m)"
    using D(3,10) k by (cases "own m") (auto simp: m'_def nth_list_update)
  have "mset (handed m) = mset (executed m) + mset ts + mset (concat (map hand (t_arr m'))) + mset (concat qs) + offered (own m)"
    unfolding D(12) c[symmetric] by (simp add: ac_simps)
  moreover have "wk_ok n (marked (own m) j) j ((t_arr m)[k := w] ! j)" if "j < n" for j
    using w D(9)[OF that] D(3) k(1) by (cases "j = k") simp_all
  ultimately show "tm_inv n qs m'"
    by (intro tm_invI) (use D o in \<open>simp_all add: m'_def\<close>)
  have "sum_list (map (wk_rank n) (t_arr m')) < sum_list (map (wk_rank n) (t_arr m))"
    using sum_update[of k "t_arr m" "wk_rank n" w] D(3) k(1) r by (simp add: m'_def)
  then show "tm_rank m' < tm_rank m" by (simp add: tm_rank_def m'_def len_thr_def D(3))
  show "tm_final m'" if "tm_final m"
  proof -
    have f: "own m = READY" "\<forall>q \<in> set (q_arr m). seq_ring_size (nq_r q) = 0" "\<forall>w \<in> set (t_arr m). hand w = []"
      using that D(10) k by (auto simp: tm_final_def)
    have "hand w = []" using f(3) h D(3) k(1) by (metis append_is_Nil_conv nth_mem)
    then have "\<forall>w' \<in> set ((t_arr m)[k := w]). hand w' = []" using f(3) set_update_subset_insert[of "t_arr m" k w] by auto
    then show ?thesis using f by (simp add: tm_final_def m'_def)
  qed
qed

lemma taken_lowers:
  assumes "S' + l = (S :: nat)" "1 \<le> l" "W' + 1 \<le> W + l + 3 + 6 * n"
  shows "(6 * n + 5) * S' + W' < (6 * n + 5) * S + W"
proof -
  obtain p q where p: "p = (6 * n + 4) * l" and q: "q = (6 * n + 5) * S'" by blast
  have "(6 * n + 4) * 1 \<le> p" unfolding p by (rule mult_left_mono) (use assms(2) in simp_all)
  moreover have "(6 * n + 5) * S = q + p + l" unfolding assms(1)[symmetric] p q by (simp add: algebra_simps)
  moreover have "q + W' < q + p + l + W" if "(6 * n + 4) * 1 \<le> p" using assms(3) that by presburger
  ultimately show ?thesis by (simp only: q)
qed

text \<open>A thread takes the first tasks of a queue.\<close>
lemma thread_takes:
  assumes I: "tm_inv n qs m" and k: "k < n" "j < n" "t_arr m ! k \<noteq> EXITED" "hand (t_arr m ! k) = []" and ne: "qs ! j \<noteq> []"
    and q: "q_rep q (drop 4096 (qs ! j))" "nq_done q = nq_done (q_arr m ! j)"
  defines "m' \<equiv> m\<lparr>q_arr := (q_arr m)[j := q], t_arr := (t_arr m)[k := RUN (take 4096 (qs ! j))]\<rparr>"
  shows "tm_inv n (qs[j := drop 4096 (qs ! j)]) m'" "tm_rank m' < tm_rank m" "\<not> tm_final m"
proof -
  note D = tm_invD[OF I]
  let ?ts = "take 4096 (qs ! j)" and ?us = "drop 4096 (qs ! j)"
  have w: "mset (concat (map hand (t_arr m'))) = mset (concat (map hand (t_arr m))) + mset ?ts"
    using mset_concat_update[of k "map hand (t_arr m)" ?ts] D(3) k(1,4) by (simp add: m'_def map_update)
  have "mset (qs ! j) = mset ?ts + mset ?us" by (metis append_take_drop_id mset_append)
  then have u: "mset (concat qs) = mset (concat (qs[j := ?us])) + mset ?ts"
    using mset_concat_update[of j qs ?us] D(5) k(2) by (simp add: ac_simps)
  have n: "own_ok n (t_arr m') (own m)" "clean_of n (own m) qs' = []" for qs'
    using D(3,10) k by (cases "own m"; auto simp: m'_def nth_list_update)+
  have c: "mset (handed m) = mset (executed m) + mset (concat (map hand (t_arr m'))) + mset (concat (qs[j := ?us])) + offered (own m)"
    unfolding D(12) w u by (simp add: ac_simps)
  have "wk_ok n (marked (own m) i) i (t_arr m' ! i)" if "i < n" for i
    using D(9)[OF that] D(3) k(1) by (cases "i = k") (simp_all add: m'_def wk_ok_def)
  moreover have "q_rep (q_arr m' ! i) (qs[j := ?us] ! i)" "nq_done (q_arr m' ! i) = marked (own m) i" if "i < n" for i
    using D(7,8)[OF that] D(4,5,8) q k(2) by (cases "i = j"; simp add: m'_def)+
  ultimately show "tm_inv n (qs[j := ?us]) m'"
    by (intro tm_invI) (use D(1-5,11,13) n c in \<open>simp_all add: m'_def\<close>)
  have l: "0 < length ?ts" using ne by simp
  have f: "length (qs ! j) = length ?ts + length ?us" by (metis append_take_drop_id length_append)
  have sz: "seq_ring_size (nq_r q) = length ?us" "seq_ring_size (nq_r (q_arr m ! j)) = length ?ts + length ?us"
    unfolding f[symmetric] by (rule q_rep_size[OF q(1)], rule q_rep_size[OF D(7)[OF k(2)]])
  let ?S = "\<lambda>m. sum_list (map (\<lambda>q. seq_ring_size (nq_r q)) (q_arr m))" and ?W = "\<lambda>m. sum_list (map (wk_rank n) (t_arr m))"
  have S: "?S m' + length ?ts = ?S m"
    using sum_update[of j "q_arr m" "\<lambda>q. seq_ring_size (nq_r q)" q] D(4) k(2) sz by (simp add: m'_def)
  have "1 \<le> wk_rank n (t_arr m ! k)" using D(9)[OF k(1)] k(1,3) by (cases "t_arr m ! k") (auto simp: wk_ok_def)
  then have W: "?W m' + 1 \<le> ?W m + length ?ts + 3 + 6 * n"
    using sum_update[of k "t_arr m" "wk_rank n" "RUN ?ts"] D(3) k(1) by (simp add: m'_def)
  have "(6 * n + 5) * ?S m' + ?W m' < (6 * n + 5) * ?S m + ?W m"
    by (rule taken_lowers[OF S _ W]) (use l in linarith)
  then show "tm_rank m' < tm_rank m" by (simp add: tm_rank_def m'_def len_thr_def D(3))
  have "q_arr m ! j \<in> set (q_arr m)" using D(4) k(2) by simp
  moreover have "seq_ring_size (nq_r (q_arr m ! j)) \<noteq> 0" using sz l by simp
  ultimately show "\<not> tm_final m" using D(10) k(1,3) by (auto simp: tm_final_def)
qed

text \<open>The step of a thread.\<close>
lemma thread_step:
  assumes I: "tm_inv n qs m" and k: "k < n"
  obtains m' qs' where "worker_thread_tm busy k m = Some m'" "tm_inv n qs' m'" "m' = m \<or> tm_rank m' < tm_rank m" "tm_final m \<Longrightarrow> tm_final m'"
    "own m' = own m" "handed m' = handed m"
    "t_arr m ! k \<noteq> EXITED \<Longrightarrow> (t_arr m ! k = POP \<Longrightarrow> marked (own m) k \<or> qs ! k \<noteq> []) \<Longrightarrow> m' \<noteq> m"
proof -
  note D = tm_invD[OF I] and out = that
  have moves: thesis if s: "worker_thread_tm busy k m = Some (m\<lparr>t_arr := (t_arr m)[k := w], executed := executed m @ ts\<rparr>)"
    and w: "t_arr m ! k \<noteq> EXITED" "wk_ok n (marked (own m) k) k w" "hand (t_arr m ! k) = ts @ hand w" "wk_rank n w < wk_rank n (t_arr m ! k)" for w ts
  proof (rule out[OF s])
    note M = thread_moves[OF I k w]
    show "tm_inv n qs (m\<lparr>t_arr := (t_arr m)[k := w], executed := executed m @ ts\<rparr>)" by (rule M(1))
    show "m\<lparr>t_arr := (t_arr m)[k := w], executed := executed m @ ts\<rparr> \<noteq> m" using M(2) by auto
    show "m\<lparr>t_arr := (t_arr m)[k := w], executed := executed m @ ts\<rparr> = m \<or>
      tm_rank (m\<lparr>t_arr := (t_arr m)[k := w], executed := executed m @ ts\<rparr>) < tm_rank m" using M(2) by blast
    show "tm_final m \<Longrightarrow> tm_final (m\<lparr>t_arr := (t_arr m)[k := w], executed := executed m @ ts\<rparr>)" by (rule M(3))
  qed simp_all
  have takes: thesis if s: "worker_thread_tm busy k m = Some (m\<lparr>q_arr := (q_arr m)[j := q], t_arr := (t_arr m)[k := RUN (take 4096 (qs ! j))]\<rparr>)"
    and w: "j < n" "t_arr m ! k \<noteq> EXITED" "hand (t_arr m ! k) = []" "qs ! j \<noteq> []" "q_rep q (drop 4096 (qs ! j))" "nq_done q = nq_done (q_arr m ! j)" for j q
  proof (rule out[OF s])
    note M = thread_takes[OF I k w(1-4) w(5,6)]
    let ?m = "m\<lparr>q_arr := (q_arr m)[j := q], t_arr := (t_arr m)[k := RUN (take 4096 (qs ! j))]\<rparr>"
    show "tm_inv n (qs[j := drop 4096 (qs ! j)]) ?m" by (rule M(1))
    show "?m \<noteq> m" "?m = m \<or> tm_rank ?m < tm_rank m" using M(2) by auto
    show "tm_final m \<Longrightarrow> tm_final ?m" using M(3) by simp
  qed simp_all
  have q: "q_rep (q_arr m ! j) (qs ! j)" if "j < n" for j by (rule D(7)[OF that])
  show thesis
  proof (cases "t_arr m ! k")
    case (STEAL i)
    have j: "i mod n < n" using D(1) by simp
    have i: "i < 3 * (n + k)" using D(9)[OF k] STEAL by (simp add: wk_ok_def)
    let ?w = "if i + 1 < 3 * (n + k) then STEAL (i + 1) else POP"
    show thesis
    proof (cases "busy \<or> qs ! (i mod n) = []")
      case True
      then have p: "try_pop_not_q busy (q_arr m ! (i mod n)) = Some (None, q_arr m ! (i mod n))" by (rule try_pop_rep(1)[OF q[OF j]])
      show thesis
        by (rule moves[where w = ?w and ts = "[]"]) (use STEAL p j k i D(4,6) in \<open>auto simp: worker_thread_tm_def wk_ok_def Let_def\<close>)
    next
      case False
      then obtain q' where q': "try_pop_not_q busy (q_arr m ! (i mod n)) = Some (Some (take 4096 (qs ! (i mod n))), q')"
        "q_rep q' (drop 4096 (qs ! (i mod n)))" "nq_done q' = nq_done (q_arr m ! (i mod n))"
        using try_pop_rep(2)[OF q[OF j]] by blast
      show thesis
        by (rule takes[where j = "i mod n" and q = q']) (use STEAL q' j k False D(4,6) in \<open>simp_all add: worker_thread_tm_def Let_def\<close>)
    qed
  next
    case POP
    show thesis
    proof (cases "nq_done (q_arr m ! k)")
      case True
      show thesis
        by (rule moves[where w = EXITED and ts = "[]"]) (use POP True pop_rep(1)[OF q[OF k] True] k D(4,6,8) in \<open>simp_all add: worker_thread_tm_def wk_ok_def Let_def\<close>)
    next
      case False
      show thesis
      proof (cases "qs ! k = []")
        case True
        have s: "worker_thread_tm busy k m = Some m"
          using POP pop_rep(2)[OF q[OF k] False True] k D(4,6) list_update_id[of "t_arr m" k] by (simp add: worker_thread_tm_def Let_def)
        show thesis by (rule out[OF s I]) (use POP True False D(8)[OF k] in simp_all)
      next
        case ne: False
        obtain q' where q': "pop_not_q (q_arr m ! k) = Some (Elm (take 4096 (qs ! k)), q')"
          "q_rep q' (drop 4096 (qs ! k))" "nq_done q' = nq_done (q_arr m ! k)"
          using pop_rep(3)[OF q[OF k] False ne] by blast
        show thesis
          by (rule takes[where j = k and q = q']) (use POP q' k ne D(4,6) in \<open>simp_all add: worker_thread_tm_def Let_def\<close>)
      qed
    qed
  next
    case (RUN ts)
    show thesis
    proof (cases ts)
      case Nil
      show thesis
        by (rule moves[where w = "STEAL k" and ts = "[]"]) (use RUN Nil k D(1,6) in \<open>auto simp: worker_thread_tm_def wk_ok_def Let_def\<close>)
    next
      case (Cons t us)
      show thesis
        by (rule moves[where w = "RUN us" and ts = "[t]"]) (use RUN Cons k D(6) in \<open>auto simp: worker_thread_tm_def wk_ok_def Let_def\<close>)
    qed
  next
    case EXITED
    have s: "worker_thread_tm busy k m = Some m" using EXITED k D(6) by (simp add: worker_thread_tm_def Let_def)
    show thesis by (rule out[OF s I]) (use EXITED in simp_all)
  qed
qed

section \<open>The owner\<close>

lemma wk_ok_marked: "wk_ok n d k w \<Longrightarrow> (d \<Longrightarrow> d') \<Longrightarrow> wk_ok n d' k w"
  by (auto simp: wk_ok_def)

lemma free_not_q_rep:
  assumes "q_rep q ts" "nq_done q"
  shows "free_not_q q clean = Some (if clean then map img_task ts else [])"
  using assms seq_ring_free_loop_elems[of "nq_r q" 0] by (simp add: free_not_q_def seq_ring_free_def seq_ring_front_at q_rep_def)

lemma swapped:
  assumes "A' + x = A + y" "x + z = y + z'" shows "A' + z' = A + (z :: 'a multiset)"
proof -
  have "A' + z' + y = A' + x + z" using assms(2) by (simp add: ac_simps)
  also have "\<dots> = A + z + y" by (simp add: assms(1) ac_simps)
  finally show ?thesis by simp
qed

text \<open>The owner changes one queue and goes on.\<close>
lemma owner_moves:
  assumes I: "tm_inv n qs m" and k: "k < n" and q: "q_rep q us" "nq_done q = marked ow k"
    and mk: "\<And>j. j < n \<Longrightarrow> j \<noteq> k \<Longrightarrow> marked ow j = marked (own m) j" "marked (own m) k \<Longrightarrow> marked ow k"
    and o: "own_ok n (t_arr m) ow" and c: "cl = map img_task (clean_of n ow (qs[k := us]))"
    and t: "mset (qs ! k) + offered (own m) = mset us + offered ow"
    and r: "own_rank n ow + (6 * n + 5) * (length us - length (qs ! k)) < own_rank n (own m)" "length (qs ! k) \<le> length us"
  defines "m' \<equiv> m\<lparr>q_arr := (q_arr m)[k := q], own := ow, cleaned := cl\<rparr>"
  shows "tm_inv n (qs[k := us]) m'" "tm_rank m' < tm_rank m"
proof -
  note D = tm_invD[OF I]
  have w: "wk_ok n (marked ow j) j (t_arr m ! j)" if "j < n" for j
    using wk_ok_marked[OF D(9)[OF that], of "marked ow j"] mk that by (cases "j = k") auto
  have "q_rep ((q_arr m)[k := q] ! j) (qs[k := us] ! j)" "nq_done ((q_arr m)[k := q] ! j) = marked ow j" if "j < n" for j
    using D(7,8)[OF that] D(4,5) q mk that by (cases "j = k"; simp)+
  moreover have "mset (concat (qs[k := us])) + offered ow = mset (concat qs) + offered (own m)"
    by (rule swapped[OF mset_concat_update[of k qs us] t]) (simp add: D(5) k)
  then have "mset (handed m) = mset (executed m) + mset (concat (map hand (t_arr m))) + mset (concat (qs[k := us])) + offered ow"
    using D(12) by (simp add: add.assoc)
  ultimately show "tm_inv n (qs[k := us]) m'"
    by (intro tm_invI) (use D(1-5,13) w o c in \<open>simp_all add: m'_def\<close>)
  let ?S = "\<lambda>m. sum_list (map (\<lambda>q. seq_ring_size (nq_r q)) (q_arr m))"
  have S: "?S m' + length (qs ! k) = ?S m + length us"
    using sum_update[of k "q_arr m" "\<lambda>q. seq_ring_size (nq_r q)" q] D(4) k q_rep_size[OF q(1)] q_rep_size[OF D(7)[OF k]] by (simp add: m'_def)
  then have "?S m' = ?S m + (length us - length (qs ! k))" using r(2) by linarith
  then have "(6 * n + 5) * ?S m' = (6 * n + 5) * ?S m + (6 * n + 5) * (length us - length (qs ! k))" by (metis distrib_left)
  then have "(6 * n + 5) * ?S m' + own_rank n ow < (6 * n + 5) * ?S m + own_rank n (own m)" using r(1) by presburger
  then show "tm_rank m' < tm_rank m" by (simp add: tm_rank_def m'_def len_thr_def D(3))
qed

text \<open>Waiting for a thread: the owner is at pthread_join and the thread has not ended.\<close>
definition joins :: "task_manager \<Rightarrow> bool" where
  "joins m \<longleftrightarrow> (\<exists>clean j. own m = JOINING clean j \<and> j < len_thr m \<and> t_arr m ! j \<noteq> EXITED)"

text \<open>Whether the pool works, or is being released.\<close>
fun phase :: "owner \<Rightarrow> bool option" where
  "phase READY = None"
| "phase (PUSHING index i t) = None"
| "phase (STOPPING clean i) = Some clean"
| "phase (JOINING clean i) = Some clean"
| "phase (RELEASING clean i) = Some clean"
| "phase (OVER clean) = Some clean"

lemma owner_step:
  assumes I: "tm_inv n qs m"
  obtains m' qs' where "tm_step (OWNER busy) m = Some m'" "tm_inv n qs' m'" "m' = m \<or> tm_rank m' < tm_rank m" "tm_final m \<Longrightarrow> tm_final m'"
    "handed m' = handed m" "own m \<noteq> READY \<Longrightarrow> \<not> tm_final m \<Longrightarrow> \<not> joins m \<Longrightarrow> m' \<noteq> m"
    "phase (own m') = phase (own m)" "t_arr m' = t_arr m" "executed m' = executed m" "\<forall>k. marked (own m) k \<longrightarrow> marked (own m') k"
proof -
  note D = tm_invD[OF I] and out = that
  have z: "0 < n" by (rule D(1))
  have upd: "(q_arr m)[0 := q_arr m ! 0] = q_arr m" "qs[0 := qs ! 0] = qs" by simp_all
  have moves: thesis if s: "tm_step (OWNER busy) m = Some (m\<lparr>q_arr := (q_arr m)[k := q], own := ow, cleaned := cl\<rparr>)"
    and M: "tm_inv n (qs[k := us]) (m\<lparr>q_arr := (q_arr m)[k := q], own := ow, cleaned := cl\<rparr>)"
      "tm_rank (m\<lparr>q_arr := (q_arr m)[k := q], own := ow, cleaned := cl\<rparr>) < tm_rank m"
    and f: "own m \<noteq> READY" "\<forall>c. own m \<noteq> OVER c"
    and w: "phase ow = phase (own m)" "\<forall>k. marked (own m) k \<longrightarrow> marked ow k" for k q ow cl us
  proof (rule out[OF s M(1)])
    let ?m = "m\<lparr>q_arr := (q_arr m)[k := q], own := ow, cleaned := cl\<rparr>"
    show "?m \<noteq> m" "?m = m \<or> tm_rank ?m < tm_rank m" using M(2) by auto
    show "tm_final m \<Longrightarrow> tm_final ?m" using f by (simp add: tm_final_def)
  qed (use w in simp_all)
  show thesis
  proof (cases "own m")
    case READY
    show thesis by (rule out[of m qs]) (use READY I in \<open>simp_all add: free_task_manager_def\<close>)
  next
    case (PUSHING x i t)
    have t: "t_func t \<noteq> 0" "t_args t \<noteq> 0" "i \<le> n" using D(10) PUSHING by simp_all
    have cl: "cleaned m = []" using D(11) PUSHING by simp
    show thesis
    proof (cases "i < n")
      case True
      define k where "k = unat (word_of_nat i + x) mod n"
      have k: "k < n" using z by (simp add: k_def)
      obtain q where q: "try_push_not_q busy (q_arr m ! k) t = Some (\<not> busy, q)" "q_rep q (if busy then qs ! k else qs ! k @ [t])"
        "nq_done q = nq_done (q_arr m ! k)" by (rule try_push_rep[OF D(7)[OF k] queue_room(2)[OF I k PUSHING] t(1,2)])
      let ?ow = "if busy then PUSHING x (i + 1) t else READY"
      have r: "own_rank n ?ow + (6 * n + 5) * (length (if busy then qs ! k else qs ! k @ [t]) - length (qs ! k)) < own_rank n (own m)"
        using True by (cases busy) (auto simp: PUSHING dest: less_imp_Suc_add)
      show thesis
      proof (rule moves[where k = k and q = q and ow = ?ow and cl = "[]"])
        show "tm_step (OWNER busy) m = Some (m\<lparr>q_arr := (q_arr m)[k := q], own := ?ow, cleaned := []\<rparr>)"
          using PUSHING True q(1) k cl D(4,6) by (simp add: async_loop_def k_def Let_def)
        show "tm_inv n (qs[k := if busy then qs ! k else qs ! k @ [t]]) (m\<lparr>q_arr := (q_arr m)[k := q], own := ?ow, cleaned := []\<rparr>)"
          "tm_rank (m\<lparr>q_arr := (q_arr m)[k := q], own := ?ow, cleaned := []\<rparr>) < tm_rank m"
          by (rule owner_moves[OF I k q(2) _ _ _ _ _ _ r]; use PUSHING True q(3) D(8)[OF k] t in simp)+
      qed (use PUSHING in simp_all)
    next
      case False
      define k where "k = unat x mod n"
      have k: "k < n" using z by (simp add: k_def)
      obtain q where q: "push_not_q (q_arr m ! k) t = Some q" "q_rep q (qs ! k @ [t])" "nq_done q = nq_done (q_arr m ! k)"
        by (rule push_rep[OF D(7)[OF k] queue_room(2)[OF I k PUSHING] t(1)])
      show thesis
      proof (rule moves[where k = k and q = q and ow = READY and cl = "[]"])
        show "tm_step (OWNER busy) m = Some (m\<lparr>q_arr := (q_arr m)[k := q], own := READY, cleaned := []\<rparr>)"
          using PUSHING False q(1) k cl D(4,6) by (simp add: async_loop_def k_def Let_def)
        show "tm_inv n (qs[k := qs ! k @ [t]]) (m\<lparr>q_arr := (q_arr m)[k := q], own := READY, cleaned := []\<rparr>)"
          "tm_rank (m\<lparr>q_arr := (q_arr m)[k := q], own := READY, cleaned := []\<rparr>) < tm_rank m"
          by (rule owner_moves[OF I k q(2)]; use PUSHING q(3) D(8)[OF k] in simp)+
      qed (use PUSHING in simp_all)
    qed
  next
    case (STOPPING c i)
    have cl: "cleaned m = []" "i \<le> n" using D(10,11) STOPPING by simp_all
    show thesis
    proof (cases "i < n")
      case True
      let ?q = "done_not_q (q_arr m ! i)"
      have q: "q_rep ?q (qs ! i)" using D(7)[OF True] by (simp add: q_rep_def done_not_q_def)
      have s: "tm_step (OWNER busy) m = Some (m\<lparr>q_arr := (q_arr m)[i := ?q], own := STOPPING c (i + 1), cleaned := []\<rparr>)"
        using STOPPING True cl D(4,6) by (simp add: free_task_manager_def)
      show thesis
        by (rule moves[OF s owner_moves(1)[OF I True q] owner_moves(2)[OF I True q]])
          (use STOPPING True in \<open>auto simp: done_not_q_def\<close>)
    next
      case False
      have s: "tm_step (OWNER busy) m = Some (m\<lparr>q_arr := (q_arr m)[0 := q_arr m ! 0], own := JOINING c 0, cleaned := []\<rparr>)"
        using STOPPING False cl D(6) upd by (simp add: free_task_manager_def)
      show thesis
        by (rule moves[OF s owner_moves(1)[OF I z D(7)[OF z]] owner_moves(2)[OF I z D(7)[OF z]]])
          (use STOPPING False cl D(8)[OF z] z in auto)
    qed
  next
    case (JOINING c i)
    have cl: "cleaned m = []" "i \<le> n" "\<And>k. k < i \<Longrightarrow> t_arr m ! k = EXITED" using D(10,11) JOINING by simp_all
    show thesis
    proof (cases "i < n")
      case True
      show thesis
      proof (cases "t_arr m ! i = EXITED")
        case ex: True
        have s: "tm_step (OWNER busy) m = Some (m\<lparr>q_arr := (q_arr m)[0 := q_arr m ! 0], own := JOINING c (i + 1), cleaned := []\<rparr>)"
          using JOINING True ex cl(1) D(6) upd by (simp add: free_task_manager_def)
        have e: "\<forall>k < i + 1. t_arr m ! k = EXITED" using cl(3) ex by (auto simp: less_Suc_eq)
        show thesis
          by (rule moves[OF s owner_moves(1)[OF I z D(7)[OF z]] owner_moves(2)[OF I z D(7)[OF z]]])
            (use JOINING True cl e D(8)[OF z] z in auto)
      next
        case False
        have s: "tm_step (OWNER busy) m = Some m" using JOINING True False D(6) by (simp add: free_task_manager_def)
        show thesis by (rule out[OF s I]) (use JOINING True False D(6) in \<open>simp_all add: joins_def\<close>)
      qed
    next
      case False
      have s: "tm_step (OWNER busy) m = Some (m\<lparr>q_arr := (q_arr m)[0 := q_arr m ! 0], own := RELEASING c 0, cleaned := []\<rparr>)"
        using JOINING False cl(1) D(6) upd by (simp add: free_task_manager_def)
      show thesis
        by (rule moves[OF s owner_moves(1)[OF I z D(7)[OF z]] owner_moves(2)[OF I z D(7)[OF z]]])
          (use JOINING False cl D(8)[OF z] z in auto)
    qed
  next
    case (RELEASING c i)
    have cl: "cleaned m = map img_task (if c then concat (take i qs) else [])" "i \<le> n" "\<forall>k < n. t_arr m ! k = EXITED"
      using D(10,11) RELEASING by simp_all
    show thesis
    proof (cases "i < n")
      case True
      have f: "free_not_q (q_arr m ! i) c = Some (if c then map img_task (qs ! i) else [])"
        by (rule free_not_q_rep[OF D(7)[OF True]]) (use D(8)[OF True] RELEASING in simp)
      let ?cl = "map img_task (clean_of n (RELEASING c (i + 1)) (qs[0 := qs ! 0]))"
      have e: "cleaned m @ (if c then map img_task (qs ! i) else []) = ?cl"
        using cl(1) True D(5) by (simp add: take_Suc_conv_app_nth)
      have s: "tm_step (OWNER busy) m = Some (m\<lparr>q_arr := (q_arr m)[0 := q_arr m ! 0], own := RELEASING c (i + 1), cleaned := ?cl\<rparr>)"
        unfolding e[symmetric] using RELEASING True f D(4,6) upd by (simp add: free_task_manager_def)
      show thesis
        by (rule moves[OF s owner_moves(1)[OF I z D(7)[OF z]] owner_moves(2)[OF I z D(7)[OF z]]])
          (use RELEASING True cl(3) D(8)[OF z] z in auto)
    next
      case False
      let ?cl = "map img_task (clean_of n (OVER c) (qs[0 := qs ! 0]))"
      have e: "cleaned m = ?cl" using cl(1,2) False D(5) by simp
      have s: "tm_step (OWNER busy) m = Some (m\<lparr>q_arr := (q_arr m)[0 := q_arr m ! 0], own := OVER c, cleaned := ?cl\<rparr>)"
        unfolding e[symmetric] using RELEASING False D(6) upd by (simp add: free_task_manager_def)
      show thesis
        by (rule moves[OF s owner_moves(1)[OF I z D(7)[OF z]] owner_moves(2)[OF I z D(7)[OF z]]])
          (use RELEASING False cl(2,3) D(8)[OF z] z in auto)
    qed
  next
    case (OVER c)
    show thesis by (rule out[of m qs]) (use OVER I in \<open>simp_all add: free_task_manager_def tm_final_def\<close>)
  qed
qed

end
