(* ===== verification/Task_Props.thy ===== *)
theory Task_Props
  imports Task_Facts
begin

text \<open>
  What the pool of threads promises: no task is lost or executed twice, every task is executed as long as the threads have
  their turns, and the release ends.
\<close>

section \<open>Any order of the steps\<close>

definition tm_ok :: "nat \<Rightarrow> task_manager \<Rightarrow> bool" where
  "tm_ok n m \<longleftrightarrow> (\<exists>qs. tm_inv n qs m)"

text \<open>The tasks that wait: in the queues, in the hands of the threads, or with the owner.\<close>
definition waiting :: "task_manager \<Rightarrow> task multiset" where
  "waiting m = mset (concat (map (\<lambda>q. map (the \<circ> get_task) (seq_ring_elems (nq_r q))) (q_arr m))) +
     mset (concat (map hand (t_arr m))) + offered (own m)"

lemma q_rep_tasks: "q_rep q ts \<Longrightarrow> map (the \<circ> get_task) (seq_ring_elems (nq_r q)) = ts"
  by (simp add: q_rep_def comp_def)

lemma inv_queues:
  assumes "tm_inv n qs m" shows "map (\<lambda>q. map (the \<circ> get_task) (seq_ring_elems (nq_r q))) (q_arr m) = qs"
  by (rule nth_equalityI) (use tm_invD(4,5,7)[OF assms] q_rep_tasks in simp_all)

lemma inv_accounts: "tm_inv n qs m \<Longrightarrow> mset (handed m) = mset (executed m) + waiting m"
  using tm_invD(12)[of n qs m] inv_queues[of n qs m] by (simp add: waiting_def ac_simps)

lemma init_inv:
  assumes "0 < n" "n < 33"
  obtains m where "init_task_manager n = Some m" "tm_inv n (replicate n []) m" "own m = READY" "handed m = []" "executed m = []" "cleaned m = []"
    "t_arr m = map STEAL [0..<n]"
proof -
  let ?m = "\<lparr>q_arr = replicate n init_not_q, t_arr = map STEAL [0..<n], tm_index = 0, own = READY, handed = [], executed = [], cleaned = []\<rparr>"
  have "tm_inv n (replicate n []) ?m"
    by (rule tm_invI) (use assms q_rep_init in \<open>simp_all add: init_not_q_def wk_ok_def comp_def\<close>)
  then show thesis using that[of ?m] assms by (simp add: init_task_manager_def)
qed

lemma hand_over_inv:
  assumes I: "tm_inv n qs m" and r: "own m = READY" and t: "t_func t \<noteq> 0" "t_args t \<noteq> 0" "length (handed m) + 1 < 2 ^ 31"
  obtains m' where "tm_step (HAND_OVER t) m = Some m'" "tm_inv n qs m'" "handed m' = handed m @ [t]" "own m' = PUSHING (tm_index m) 0 t"
    "executed m' = executed m" "t_arr m' = t_arr m"
proof (rule that)
  note D = tm_invD[OF I]
  let ?m = "m\<lparr>tm_index := tm_index m + 1, own := PUSHING (tm_index m) 0 t, handed := handed m @ [t]\<rparr>"
  show "tm_step (HAND_OVER t) m = Some ?m" using r t D(1,6) by (simp add: async_task_manager_def Let_def)
  have "wk_ok n False k (t_arr m ! k)" "\<not> nq_done (q_arr m ! k)" if "k < n" for k using D(8,9)[OF that] r by simp_all
  then show "tm_inv n qs ?m" by (intro tm_invI) (use D r t in simp_all)
qed simp_all

lemma release_inv:
  assumes I: "tm_inv n qs m" and r: "own m = READY"
  shows "tm_inv n qs (m\<lparr>own := STOPPING clean 0\<rparr>)"
proof -
  note D = tm_invD[OF I]
  have "wk_ok n False k (t_arr m ! k)" "\<not> nq_done (q_arr m ! k)" if "k < n" for k using D(8,9)[OF that] r by simp_all
  then show ?thesis by (intro tm_invI) (use D r in simp_all)
qed

text \<open>The tasks have a function and an argument, and there are as many threads as there are.\<close>
fun tm_allowed :: "nat \<Rightarrow> tm_action \<Rightarrow> bool" where
  "tm_allowed n (HAND_OVER t) = (t_func t \<noteq> 0 \<and> t_args t \<noteq> 0)"
| "tm_allowed n (THREAD k busy) = (k < n)"
| "tm_allowed n a = True"

definition handings :: "tm_action list \<Rightarrow> nat" where
  "handings as = length (filter (\<lambda>a. \<exists>t. a = HAND_OVER t) as)"

lemma handings_simps [simp]:
  "handings [] = 0" "handings (HAND_OVER t # as) = handings as + 1" "handings (RELEASE c # as) = handings as"
  "handings (OWNER b # as) = handings as" "handings (THREAD k b # as) = handings as"
  by (simp_all add: handings_def)

lemma run_inv:
  assumes "tm_inv n qs m" "\<forall>a \<in> set as. tm_allowed n a" "length (handed m) + handings as < 2 ^ 31"
  obtains m' qs' where "tm_run as m = Some m'" "tm_inv n qs' m'"
  using assms
proof (induction as arbitrary: m qs thesis)
  case (Cons a as)
  have "\<exists>m1 qs1. tm_step a m = Some m1 \<and> tm_inv n qs1 m1 \<and> length (handed m1) + handings as < 2 ^ 31"
  proof (cases a)
    case (HAND_OVER t)
    show ?thesis
    proof (cases "own m = READY")
      case True
      have t: "t_func t \<noteq> 0" "t_args t \<noteq> 0" "length (handed m) + 1 < 2 ^ 31" using Cons.prems(3,4) HAND_OVER by simp_all
      show ?thesis by (rule hand_over_inv[OF Cons.prems(2) True t]) (use Cons.prems(4) HAND_OVER in auto)
    next
      case False
      then show ?thesis using Cons.prems HAND_OVER by auto
    qed
  next
    case (RELEASE c)
    then show ?thesis using release_inv[OF Cons.prems(2)] Cons.prems by (cases "own m = READY") auto
  next
    case (OWNER b)
    from owner_step[OF Cons.prems(2), of b] Cons.prems(4) OWNER show ?thesis by (metis handings_simps(4))
  next
    case (THREAD k b)
    with Cons.prems(3) have "k < n" by simp
    from thread_step[OF Cons.prems(2) this, of b] Cons.prems(4) THREAD show ?thesis by (metis handings_simps(5) tm_step.simps(4))
  qed
  then obtain m1 qs1 where s: "tm_step a m = Some m1" "tm_inv n qs1 m1" "length (handed m1) + handings as < 2 ^ 31" by blast
  show ?case
    by (rule Cons.IH[OF _ s(2) _ s(3)]) (use Cons.prems s(1) in \<open>auto simp: tm_run_def\<close>)
qed (simp add: tm_run_def)

section \<open>Turns\<close>

text \<open>The owner is the party None, the thread \<open>k\<close> the party Some \<open>k\<close>; a trylock may fail in every turn.\<close>
fun tm_turn :: "nat option \<Rightarrow> tm_action \<Rightarrow> bool" where
  "tm_turn None (OWNER busy) = True"
| "tm_turn (Some k) (THREAD j busy) = (j = k)"
| "tm_turn l a = False"

definition tm_party :: "nat \<Rightarrow> nat option set" where
  "tm_party n = insert None (Some ` {..<n})"

lemma thread_changes:
  assumes I: "tm_inv n qs m" and k: "k < n" "t_arr m ! k \<noteq> EXITED" "t_arr m ! k = POP \<Longrightarrow> marked (own m) k \<or> qs ! k \<noteq> []"
  shows "\<exists>l \<in> tm_party n. \<forall>a. tm_turn l a \<longrightarrow> tm_step a m \<noteq> Some m"
proof (rule bexI[of _ "Some k"], intro allI impI)
  fix a assume "tm_turn (Some k) a"
  then obtain b where a: "a = THREAD k b" by (cases a) auto
  show "tm_step a m \<noteq> Some m" unfolding a tm_step.simps
    by (rule thread_step[OF I k(1), of b]) (use k in auto)
qed (use k in \<open>simp add: tm_party_def\<close>)

lemma pool_progress:
  assumes I: "tm_inv n qs m" and f: "\<not> tm_final m"
  shows "\<exists>l \<in> tm_party n. \<forall>a. tm_turn l a \<longrightarrow> tm_step a m \<noteq> Some m"
proof -
  note D = tm_invD[OF I]
  consider (ready) "own m = READY" | (joins) "joins m" | (owner) "own m \<noteq> READY" "\<not> joins m" by blast
  then show ?thesis
  proof cases
    case ready
    then obtain k where k: "k < n" "qs ! k \<noteq> [] \<or> hand (t_arr m ! k) \<noteq> []" using f tm_final_rep[OF I] by blast
    have "t_arr m ! k \<noteq> EXITED" using D(9)[OF k(1)] ready by (auto simp: wk_ok_def)
    moreover have "t_arr m ! k = POP \<Longrightarrow> qs ! k \<noteq> []" using k(2) by auto
    ultimately show ?thesis using thread_changes[OF I k(1)] by blast
  next
    case joins
    then obtain clean j where j: "own m = JOINING clean j" "j < n" "t_arr m ! j \<noteq> EXITED" using D(6) by (auto simp: joins_def)
    show ?thesis by (rule thread_changes[OF I j(2,3)]) (simp add: j)
  next
    case owner
    show ?thesis
    proof (rule bexI[of _ None], intro allI impI)
      fix a assume "tm_turn None a"
      then obtain b where a: "a = OWNER b" by (cases a) auto
      show "tm_step a m \<noteq> Some m" unfolding a
        by (rule owner_step[OF I, of b]) (use owner f in auto)
    qed (simp add: tm_party_def)
  qed
qed

text \<open>The pool with \<open>n\<close> threads, without or after the call of the release, and with given tasks.\<close>
definition pool_at :: "nat \<Rightarrow> bool option \<Rightarrow> task list \<Rightarrow> task_manager \<Rightarrow> bool" where
  "pool_at n p h m \<longleftrightarrow> tm_ok n m \<and> phase (own m) = p \<and> handed m = h"

interpretation pool: turns tm_step tm_turn "tm_party n" "pool_at n p h" tm_final tm_rank for n p h
proof unfold_locales
  fix l assume "l \<in> tm_party n"
  show "\<exists>a. tm_turn l a" using tm_turn.simps(1) tm_turn.simps(2) by (cases l) blast+
next
  fix m l a assume m: "pool_at n p h m" and l: "l \<in> tm_party n" "tm_turn l a"
  then obtain qs where I: "tm_inv n qs m" "phase (own m) = p" "handed m = h" by (auto simp: pool_at_def tm_ok_def)
  show "\<exists>m'. tm_step a m = Some m' \<and> pool_at n p h m' \<and> (m' = m \<or> tm_rank m' < tm_rank m) \<and> (tm_final m \<longrightarrow> tm_final m')"
  proof (cases l)
    case None
    then obtain b where a: "a = OWNER b" using l(2) by (cases a) auto
    show ?thesis unfolding a
      by (rule owner_step[OF I(1), of b]) (use I(2,3) in \<open>auto simp: pool_at_def tm_ok_def\<close>)
  next
    case (Some k)
    then obtain b where a: "a = THREAD k b" using l(2) by (cases a) auto
    have k: "k < n" using l(1) Some by (auto simp: tm_party_def)
    show ?thesis unfolding a tm_step.simps
      by (rule thread_step[OF I(1) k, of b]) (use I(2,3) in \<open>auto simp: pool_at_def tm_ok_def\<close>)
  qed
next
  fix m assume "pool_at n p h m" "\<not> tm_final m"
  then show "\<exists>l \<in> tm_party n. \<forall>a. tm_turn l a \<longrightarrow> tm_step a m \<noteq> Some m"
    using pool_progress by (auto simp: pool_at_def tm_ok_def)
qed

lemma reached:
  assumes "0 < n" "n < 33" "init_task_manager n = Some m0" "\<forall>a \<in> set as. tm_allowed n a" "handings as < 2 ^ 31"
    and "tm_run as m0 = Some m" "phase (own m) = p"
  shows "pool_at n p (handed m) m"
proof -
  have m0: "tm_inv n (replicate n []) m0" "handed m0 = []" by (rule init_inv[OF assms(1,2)]; use assms(3) in simp)+
  have "tm_ok n m" by (rule run_inv[OF m0(1) assms(4)]) (use m0(2) assms(5,6) in \<open>auto simp: tm_ok_def\<close>)
  then show ?thesis using assms(7) by (simp add: pool_at_def)
qed

section \<open>Threads that find nothing to steal\<close>

text \<open>Turns in which every trylock of a thread fails.\<close>
fun busy_turn :: "nat option \<Rightarrow> tm_action \<Rightarrow> bool" where
  "busy_turn None (OWNER busy) = True"
| "busy_turn (Some k) (THREAD j busy) = (j = k \<and> busy)"
| "busy_turn l a = False"

lemma busy_turn_turn: "busy_turn l a \<Longrightarrow> tm_turn l a"
  by (cases "(l, a)" rule: busy_turn.cases) simp_all

lemma busy_thread:
  assumes I: "tm_inv n qs m" and k: "k < n" "hand (t_arr m ! k) = []" "marked (own m) k"
  obtains w where "worker_thread_tm True k m = Some (m\<lparr>t_arr := (t_arr m)[k := w]\<rparr>)" "hand w = []"
proof -
  note D = tm_invD[OF I]
  show thesis
  proof (cases "t_arr m ! k")
    case (STEAL i)
    have j: "i mod n < n" using D(1) by simp
    show thesis
      by (rule that[of "if i + 1 < 3 * (n + k) then STEAL (i + 1) else POP"])
        (use STEAL j k D(4,6) try_pop_rep(1)[OF D(7)[OF j]] in \<open>simp_all add: worker_thread_tm_def Let_def\<close>)
  next
    case POP
    show thesis
      by (rule that[of EXITED]) (use POP k D(4,6,8) pop_rep(1)[OF D(7)[OF k(1)]] in \<open>simp_all add: worker_thread_tm_def Let_def\<close>)
  next
    case (RUN ts)
    show thesis by (rule that[of "STEAL k"]) (use RUN k D(6) in \<open>simp_all add: worker_thread_tm_def Let_def\<close>)
  next
    case EXITED
    show thesis
      by (rule that[of EXITED]) (use EXITED k D(6) list_update_id[of "t_arr m" k] in \<open>simp_all add: worker_thread_tm_def Let_def\<close>)
  qed
qed

text \<open>All queues are marked, and no thread has taken a task or executed one.\<close>
definition left_alone :: "nat \<Rightarrow> bool option \<Rightarrow> task list \<Rightarrow> task_manager \<Rightarrow> bool" where
  "left_alone n p h m \<longleftrightarrow> pool_at n p h m \<and> executed m = [] \<and> (\<forall>w \<in> set (t_arr m). hand w = []) \<and> (\<forall>k. marked (own m) k)"

interpretation idle: turns tm_step busy_turn "tm_party n" "left_alone n p h" tm_final tm_rank for n p h
proof unfold_locales
  fix l assume "l \<in> tm_party n"
  show "\<exists>a. busy_turn l a" using busy_turn.simps(1) busy_turn.simps(2) by (cases l) blast+
next
  fix m l a assume m: "left_alone n p h m" and l: "l \<in> tm_party n" "busy_turn l a"
  then obtain qs where I: "tm_inv n qs m" by (auto simp: left_alone_def pool_at_def tm_ok_def)
  obtain m' where m': "tm_step a m = Some m'" "pool_at n p h m'" "m' = m \<or> tm_rank m' < tm_rank m" "tm_final m \<longrightarrow> tm_final m'"
    using pool.turn_ok[OF _ l(1) busy_turn_turn[OF l(2)], of p h m] m by (auto simp: left_alone_def)
  have "executed m' = [] \<and> (\<forall>w \<in> set (t_arr m'). hand w = []) \<and> (\<forall>k. marked (own m') k)"
  proof (cases l)
    case None
    then obtain b where a: "a = OWNER b" using l(2) by (cases a) auto
    show ?thesis by (rule owner_step[OF I, of b]) (use m m'(1) a in \<open>auto simp: left_alone_def\<close>)
  next
    case (Some k)
    then have a: "a = THREAD k True" using l(2) by (cases a) auto
    have k: "k < n" using l(1) Some by (auto simp: tm_party_def)
    have h: "hand (t_arr m ! k) = []" "marked (own m) k" using m k tm_invD(3)[OF I] by (simp_all add: left_alone_def)
    obtain w where w0: "worker_thread_tm True k m = Some (m\<lparr>t_arr := (t_arr m)[k := w]\<rparr>)" "hand w = []" by (rule busy_thread[OF I k h])
    then have w: "m' = m\<lparr>t_arr := (t_arr m)[k := w]\<rparr>" "hand w = []" using m'(1) a by simp_all
    show ?thesis using m w set_update_subset_insert[of "t_arr m" k w] by (auto simp: left_alone_def)
  qed
  then show "\<exists>m'. tm_step a m = Some m' \<and> left_alone n p h m' \<and> (m' = m \<or> tm_rank m' < tm_rank m) \<and> (tm_final m \<longrightarrow> tm_final m')"
    using m' by (auto simp: left_alone_def)
next
  fix m assume "left_alone n p h m" "\<not> tm_final m"
  then show "\<exists>l \<in> tm_party n. \<forall>a. busy_turn l a \<longrightarrow> tm_step a m \<noteq> Some m"
    using pool.progress[of n p h m] busy_turn_turn by (fastforce simp: left_alone_def)
qed

text \<open>The owner alone gets as far as the wait for the first thread.\<close>
lemma owner_alone:
  assumes "tm_inv n qs m" "phase (own m) = Some c" "\<forall>w \<in> set (t_arr m). w \<noteq> EXITED"
  obtains j m' qs' where "tm_run (replicate j (OWNER b)) m = Some m'" "tm_inv n qs' m'" "joins m'" "phase (own m') = Some c"
    "executed m' = executed m" "t_arr m' = t_arr m" "handed m' = handed m"
  using assms
proof (induction "tm_rank m" arbitrary: m qs thesis rule: less_induct)
  case less
  note I = less.prems(2)
  show ?case
  proof (cases "joins m")
    case True
    show ?thesis by (rule less.prems(1)[of 0 m qs]) (use True less.prems in \<open>simp_all add: tm_run_def\<close>)
  next
    case False
    have "t_arr m ! 0 \<in> set (t_arr m)" using tm_invD(1,3)[OF I] by simp
    then have f: "own m \<noteq> READY" "\<not> tm_final m" using less.prems(3,4) tm_invD(1,10)[OF I] by (auto simp: tm_final_def)
    obtain m1 qs1 where s: "tm_step (OWNER b) m = Some m1" "tm_inv n qs1 m1" "m1 = m \<or> tm_rank m1 < tm_rank m" "handed m1 = handed m" "m1 \<noteq> m"
      "phase (own m1) = phase (own m)" "t_arr m1 = t_arr m" "executed m1 = executed m"
      by (rule owner_step[OF I, of b]) (use False f in auto)
    obtain j m' qs' where j: "tm_run (replicate j (OWNER b)) m1 = Some m'" "tm_inv n qs' m'" "joins m'" "phase (own m') = Some c"
      "executed m' = executed m1" "t_arr m' = t_arr m1" "handed m' = handed m1"
      by (rule less.hyps[OF _ _ s(2)]) (use s less.prems in auto)
    show ?thesis by (rule less.prems(1)[of "Suc j" m' qs']) (use s j in \<open>simp_all add: tm_run_def\<close>)
  qed
qed

lemma pushed_at_once:
  assumes I: "tm_inv n qs m" and o: "own m = PUSHING x 0 t"
  obtains m' qs' where "tm_step (OWNER False) m = Some m'" "tm_inv n qs' m'" "own m' = READY" "handed m' = handed m" "executed m' = executed m" "t_arr m' = t_arr m"
proof -
  note D = tm_invD[OF I]
  obtain m' qs' where s: "tm_step (OWNER False) m = Some m'" "tm_inv n qs' m'" "handed m' = handed m" "executed m' = executed m" "t_arr m' = t_arr m"
    by (rule owner_step[OF I, of False]) (rule that; assumption)
  have t: "t_func t \<noteq> 0" "t_args t \<noteq> 0" using D(10) o by simp_all
  have k: "unat x mod n < n" using D(1) by simp
  obtain q where "try_push_not_q False (q_arr m ! (unat x mod n)) t = Some (True, q)"
    by (rule try_push_rep[OF D(7)[OF k] queue_room(2)[OF I k o] t, of False]) simp
  then have "own m' = READY" using s(1) o k D(1,4,6) by (auto simp: async_loop_def Let_def)
  then show thesis by (rule that[OF s(1,2) _ s(3-5)])
qed

section \<open>Properties\<close>

text \<open>C8: The pool of threads of the controller: whatever the order of the steps of its owner and of its threads, and whichever trylock fails, no assertion fails
  and no access is out of bounds, and each task that was handed over is, as often as it was handed over, executed or still waiting: none is lost and none is
  executed twice.\<close>
theorem pool_safe:
  assumes "0 < n" "n < 33" "\<forall>a \<in> set as. tm_allowed n a" "handings as < 2 ^ 31"
  shows "\<exists>m0 m. init_task_manager n = Some m0 \<and> tm_run as m0 = Some m \<and> mset (handed m) = mset (executed m) + waiting m"
proof -
  obtain m0 where m0: "init_task_manager n = Some m0" "tm_inv n (replicate n []) m0" "handed m0 = []" by (rule init_inv[OF assms(1,2)])
  obtain m qs where m: "tm_run as m0 = Some m" "tm_inv n qs m" by (rule run_inv[OF m0(2) assms(3)]) (use m0(3) assms(4) in simp)
  show ?thesis using m0(1) m(1) inv_accounts[OF m(2)] by blast
qed

text \<open>C7: Every task is executed: from any state that the pool can be in before its release, once each thread and the owner have had as many turns as the rank of the
  state says, in any order and even if every trylock fails, all tasks have been executed.\<close>
theorem pool_executes_all:
  assumes "0 < n" "n < 33" "init_task_manager n = Some m0" "\<forall>a \<in> set as. tm_allowed n a" "handings as < 2 ^ 31"
    and "tm_run as m0 = Some m" "phase (own m) = None" "\<forall>r \<in> set rs. round_of tm_turn (tm_party n) r" "tm_rank m \<le> length rs"
  shows "\<exists>m'. tm_run (concat rs) m = Some m' \<and> own m' = READY \<and> handed m' = handed m \<and> mset (executed m') = mset (handed m)"
proof -
  have p: "pool_at n None (handed m) m" by (rule reached[OF assms(1-7)])
  obtain m' where m': "steps tm_step (concat rs) m = Some m'" "pool_at n None (handed m) m'" "tm_final m'"
    by (rule pool.rounds_end[OF p assms(8,9)])
  then obtain qs where I: "tm_inv n qs m'" "phase (own m') = None" "handed m' = handed m" by (auto simp: pool_at_def tm_ok_def)
  have r: "own m' = READY" using m'(3) I(2) by (auto simp: tm_final_def)
  then have "\<forall>k < n. qs ! k = [] \<and> hand (t_arr m' ! k) = []" using tm_final_rep[OF I(1)] m'(3) by simp
  then have "concat qs = []" "concat (map hand (t_arr m')) = []"
    using tm_invD(3,5)[OF I(1)] by (auto simp: set_conv_nth in_set_conv_nth)
  then have "mset (executed m') = mset (handed m)" using tm_invD(12)[OF I(1)] r I(3) by simp
  then show ?thesis using m'(1) r I(3) by (simp add: tm_run_def)
qed

text \<open>C9: The release of the pool ends: once each thread and the owner have had as many turns as the rank of the state says, all threads have ended, and what was handed over has been executed
  or is left in the queues, where it is passed to the function that cleans, if there is one.\<close>
theorem pool_release_ends:
  assumes "0 < n" "n < 33" "init_task_manager n = Some m0" "\<forall>a \<in> set as. tm_allowed n a" "handings as < 2 ^ 31"
    and "tm_run as m0 = Some m" "phase (own m) = Some clean" "\<forall>r \<in> set rs. round_of tm_turn (tm_party n) r" "tm_rank m \<le> length rs"
  shows "\<exists>m' left. tm_run (concat rs) m = Some m' \<and> own m' = OVER clean \<and> set (t_arr m') = {EXITED} \<and>
    mset (handed m) = mset (executed m') + mset left \<and> cleaned m' = (if clean then map img_task left else [])"
proof -
  have p: "pool_at n (Some clean) (handed m) m" by (rule reached[OF assms(1-7)])
  obtain m' where m': "steps tm_step (concat rs) m = Some m'" "pool_at n (Some clean) (handed m) m'" "tm_final m'"
    by (rule pool.rounds_end[OF p assms(8,9)])
  then obtain qs where I: "tm_inv n qs m'" "phase (own m') = Some clean" "handed m' = handed m" by (auto simp: pool_at_def tm_ok_def)
  note D = tm_invD[OF I(1)]
  have o: "own m' = OVER clean" using m'(3) I(2) by (auto simp: tm_final_def)
  have x: "\<forall>k < n. t_arr m' ! k = EXITED" using D(10) o by simp
  have e: "t_arr m' = replicate n EXITED" by (rule nth_equalityI) (use x D(3) in simp_all)
  then have h: "concat (map hand (t_arr m')) = []" by simp
  show ?thesis
    by (intro exI[of _ m'] exI[of _ "concat qs"]) (use m'(1) o e h D(1,11,12) I(3) in \<open>auto simp: tm_run_def\<close>)
qed

text \<open>C10: The release does not wait for the tasks: a task that was handed over and pushed can be left in its queue when all threads have ended, and without a function that
  cleans, as the controller calls it, what it points to is never released.\<close>
theorem pool_release_drops:
  assumes "0 < n" "n < 33" "t_func t \<noteq> 0" "t_args t \<noteq> 0"
  shows "\<exists>m0 as m. init_task_manager n = Some m0 \<and> tm_run (HAND_OVER t # OWNER False # RELEASE False # as) m0 = Some m \<and>
    own m = OVER False \<and> handed m = [t] \<and> executed m = [] \<and> cleaned m = []"
proof -
  obtain m0 where m0: "init_task_manager n = Some m0" "tm_inv n (replicate n []) m0" "own m0 = READY" "handed m0 = []" "executed m0 = []"
    "t_arr m0 = map STEAL [0..<n]" by (rule init_inv[OF assms(1,2)])
  obtain m1 where m1: "tm_step (HAND_OVER t) m0 = Some m1" "tm_inv n (replicate n []) m1" "handed m1 = [t]" "own m1 = PUSHING (tm_index m0) 0 t"
    "executed m1 = []" "t_arr m1 = map STEAL [0..<n]"
    by (rule hand_over_inv[OF m0(2,3) assms(3,4)]) (use m0(4-6) in simp_all)
  obtain m2 qs where m2: "tm_step (OWNER False) m1 = Some m2" "tm_inv n qs m2" "own m2 = READY" "handed m2 = [t]" "executed m2 = []" "t_arr m2 = map STEAL [0..<n]"
    by (rule pushed_at_once[OF m1(2,4)]) (use m1 in auto)
  let ?m3 = "m2\<lparr>own := STOPPING False 0\<rparr>"
  obtain j m4 qs' where m4: "tm_run (replicate j (OWNER True)) ?m3 = Some m4" "tm_inv n qs' m4" "joins m4" "phase (own m4) = Some False"
    "executed m4 = []" "t_arr m4 = map STEAL [0..<n]" "handed m4 = [t]"
    by (rule owner_alone[OF release_inv[OF m2(2,3), of False]]) (use m2 in auto)
  have l: "left_alone n (Some False) [t] m4"
    using m4 by (auto simp: left_alone_def pool_at_def tm_ok_def joins_def)
  let ?r = "OWNER True # map (\<lambda>k. THREAD k True) [0..<n]"
  have "round_of busy_turn (tm_party n) ?r" by (auto simp: round_of_def tm_party_def)
  then obtain m5 where m5: "steps tm_step (concat (replicate (tm_rank m4) ?r)) m4 = Some m5" "left_alone n (Some False) [t] m5" "tm_final m5"
    using idle.rounds_end[OF l, of "replicate (tm_rank m4) ?r"] by auto
  then obtain qs5 where I: "tm_inv n qs5 m5" "phase (own m5) = Some False" "handed m5 = [t]" "executed m5 = []" by (auto simp: left_alone_def pool_at_def tm_ok_def)
  have o: "own m5 = OVER False" using m5(3) I(2) by (auto simp: tm_final_def)
  have c: "cleaned m5 = []" using tm_invD(11)[OF I(1)] o by simp
  have "tm_run (HAND_OVER t # OWNER False # RELEASE False # replicate j (OWNER True) @ concat (replicate (tm_rank m4) ?r)) m0 = Some m5"
    using m1(1) m2(1,3) m4(1) m5(1) by (simp add: tm_run_def steps_append)
  then show ?thesis using m0(1) o c I(3,4) by blast
qed

section \<open>Examples\<close>

definition ex_task :: task where
  "ex_task = \<lparr>t_args = 1, t_func = 2\<rparr>"

theorem pool_safe_witness:
  "\<exists>m0 m. init_task_manager 2 = Some m0 \<and> tm_run [HAND_OVER ex_task, OWNER True, THREAD 1 False, OWNER False, THREAD 0 False] m0 = Some m \<and>
     mset (handed m) = mset (executed m) + waiting m"
  by (rule pool_safe) (simp_all add: ex_task_def)

definition ex_round :: "tm_action list" where
  "ex_round = [THREAD 1 False, OWNER True, THREAD 0 True]"

lemma ex_round_ok: "round_of tm_turn (tm_party 2) ex_round"
proof -
  have "{..<2 :: nat} = {0, 1}" by auto
  then show ?thesis by (auto simp: round_of_def tm_party_def ex_round_def)
qed

lemma ex_handed:
  obtains m0 m where "init_task_manager 2 = Some m0" "tm_run [HAND_OVER ex_task] m0 = Some m" "own m = PUSHING (tm_index m0) 0 ex_task" "handed m = [ex_task]"
proof -
  obtain m0 where m0: "init_task_manager 2 = Some m0" "tm_inv 2 (replicate 2 []) m0" "own m0 = READY" "handed m0 = []" by (rule init_inv[of 2]) simp_all
  obtain m where m: "tm_step (HAND_OVER ex_task) m0 = Some m" "handed m = [ex_task]" "own m = PUSHING (tm_index m0) 0 ex_task"
    by (rule hand_over_inv[OF m0(2,3), of ex_task]) (use m0(4) in \<open>simp_all add: ex_task_def\<close>)
  show thesis by (rule that[OF m0(1)]) (use m in \<open>simp_all add: tm_run_def\<close>)
qed

theorem pool_executes_all_witness:
  "\<exists>m0 m rs m'. init_task_manager 2 = Some m0 \<and> tm_run [HAND_OVER ex_task] m0 = Some m \<and> tm_run (concat rs) m = Some m' \<and>
     mset (executed m') = {#ex_task#}"
proof -
  obtain m0 m where m: "init_task_manager 2 = Some m0" "tm_run [HAND_OVER ex_task] m0 = Some m" "own m = PUSHING (tm_index m0) 0 ex_task"
    "handed m = [ex_task]" by (rule ex_handed)
  have "\<exists>m'. tm_run (concat (replicate (tm_rank m) ex_round)) m = Some m' \<and> own m' = READY \<and> handed m' = handed m \<and> mset (executed m') = mset (handed m)"
    by (rule pool_executes_all[OF _ _ m(1) _ _ m(2)]) (use m(3) ex_round_ok in \<open>simp_all add: ex_task_def\<close>)
  then show ?thesis using m by auto
qed

theorem pool_release_ends_witness:
  "\<exists>m0 m rs m'. init_task_manager 2 = Some m0 \<and> tm_run [RELEASE True] m0 = Some m \<and> tm_run (concat rs) m = Some m' \<and> own m' = OVER True"
proof -
  obtain m0 where m0: "init_task_manager 2 = Some m0" "own m0 = READY" by (rule init_inv[of 2]) simp_all
  let ?m = "m0\<lparr>own := STOPPING True 0\<rparr>"
  have r: "tm_run [RELEASE True] m0 = Some ?m" using m0(2) by (simp add: tm_run_def)
  have "\<exists>m' left. tm_run (concat (replicate (tm_rank ?m) ex_round)) ?m = Some m' \<and> own m' = OVER True \<and> set (t_arr m') = {EXITED} \<and>
    mset (handed ?m) = mset (executed m') + mset left \<and> cleaned m' = (if True then map img_task left else [])"
    by (rule pool_release_ends[OF _ _ m0(1) _ _ r]) (use ex_round_ok in simp_all)
  then show ?thesis using m0(1) r by blast
qed

theorem pool_release_drops_witness:
  "\<exists>m0 as m. init_task_manager 4 = Some m0 \<and> tm_run (HAND_OVER ex_task # OWNER False # RELEASE False # as) m0 = Some m \<and>
     own m = OVER False \<and> handed m = [ex_task] \<and> executed m = [] \<and> cleaned m = []"
  by (rule pool_release_drops) (simp_all add: ex_task_def)

end
