(* ===== verification/Spec2Isabelle.thy ===== *)
theory Spec2Isabelle
  imports Seq_Arr Tsq Slice_Roundtrip Stats_Roundtrip Controller_Props Registry Sm_Control Task_Props
begin

text \<open>
  A verification development for FlexRIC, the near-real-time RAN intelligent controller in src/.

  \<^bold>\<open>The program.\<close>  Three kinds of programs speak the protocol E2AP over SCTP.  An \<^emph>\<open>agent\<close> (src/agent) runs in
  each E2 node of the radio network and offers RAN functions, one per service model.  The \<^emph>\<open>controller\<close> (src/ric)
  accepts the agents; a second part of it, the \<^emph>\<open>iApp\<close> (src/ric/iApp), accepts the \<^emph>\<open>xApps\<close> (src/xApp).  An
  xApp subscribes to a RAN function of a node or sends it a control request; the iApp gives the request a
  number of its own and passes it on, the agent answers and, for a subscription, sends an indication each time
  a timer of it expires; the controller passes answers and indications back to the xApp that asked.  The service
  models are plug-ins of the agent and of the controller and the xApp, loaded at run time.

  \<^bold>\<open>What is modelled where.\<close>  Theories are listed in the order in which they build on each other; definitions keep
  the names of the C functions.

  \<^item> Prelude: assertions, bounds-checked memory, machine integers.
  \<^item> Containers (src/util/alg_ds): Seq_Arr (seq_arr.c), Seq_Ring (seq_ring.c), Tsq with Fifo_Interface (tsq.c and
    tsn_queue.c), Assoc_Rb_Tree (assoc_rb_tree.c, pointer by pointer) with its proof in Rb_Zipper, Rb_Insert, Rb_Invariant,
    Rb_Map, Rb_Delete, Rb_Extract, Rb_Contract, Rb_Value and Rb_Table, Bimap (bimap.c), Find (find.c), Assoc_Reg
    (assoc_reg.c, lower_bound.c, for_each.c) with Assoc_Reg_Facts and Registry.
  \<^item> The pool of threads of the controller (src/util/alg_ds/ds/task_man): Task_Manager, its invariant and rank in Task_Facts, its
    properties in Task_Props; Turns is about threads that take turns in general.
  \<^item> Identifiers and messages (src/lib/e2ap/v2_03, src/util/compare.h): Identifiers, E2ap_Types, E2ap_Msg, E2ap_Eq.
  \<^item> The service models (src/sm): the plain codec of slices in Wire, Slice_Codec and Slice_Roundtrip; those of MAC, RLC,
    PDCP and GTP, which copy whole structures, in Mac_Codec, Rlc_Codec, Pdcp_Codec and Gtp_Codec, with what they
    share in Struct_Wire and their properties in Stats_Roundtrip; the plug-ins of the five models in Sm_Plugins.
  \<^item> The controller: Reg_E2_Nodes and Reg_Facts (src/lib/msg_hand), Ric_Tables (map_ric_id.c, map_xapps_sockaddr.c,
    map_e2_node_sockaddr.c), Near_Ric (near_ric.c and what it uses), Iapp (src/ric/iApp), Msg_Handler_Ric
    (msg_handler_ric.c, not_handler_ric.c, the event loop).  Its specification is in Controller_Spec, the invariant
    of the specification in Controller_Inv, the refinement in Controller_Parts and Controller_Refine, the start in
    Controller_Start, the properties in Controller_Props.
  \<^item> The agent: Agent (src/agent), Agent_Facts, Agent_Spec (specification and refinement), Agent_Props.
  \<^item> The xApp: Act_Proc (act_proc.c), Xapp (src/xApp), Xapp_Facts, Xapp_Spec, Xapp_Props.
  \<^item> The programs together: System (controller and agent), Full_System and Full_Control (all three),
    Sm_Session and Sm_Control (all three with the plug-ins of the service models).

  \<^bold>\<open>How the code is read.\<close>  A C function is a function to the option type: None is a failed assertion, a null
  pointer that is followed, an access outside an allocation or a released one, or a loop that does not end;
  Some is a normal return.  What is written to through a pointer is returned.  A struct is a record, an enum or
  a tagged union a datatype, a w-bit integer a word of w bits, so that it wraps around as in C; descriptors are
  int.  The red-black tree lives in a heap of nodes with their parent pointers and the shared leaf; the
  array and the ring live in a byte buffer.  Where a container holds another one, as the registry of the nodes holds arrays, the
  inner one is the list that it stands for.

  Every table of the controller and of the xApp is behind a lock that each of its functions holds from start to end, so that a function is one
  step; the queues are proved for every interleaving of such steps (Fifo_Interface).  A handler of a message is
  one step.  The pool of threads that runs the handlers of the controller is a model of its own (Task_Manager), in which the tasks are opaque.  A caller of the xApp and its event loop run at the same time: the call is cut where it
  releases what it holds, so that the steps ask, register, wait and wake up of a caller (Xapp) interleave with the event loop.

  The allocator, the timer descriptors of the kernel, the peers, the loaded plug-ins and the encoding of the messages
  are parameters: addresses and descriptors that must be fresh, records of functions.  The composition is
  proved for any plug-ins first, and then for the ones of the repository, where only the radio stack is a parameter.  What is sent, and which
  callback or listener is called with what, is recorded in the state.

  \<^bold>\<open>What is shown.\<close>  For the containers: the invariants (red-black balance and order, ring and array shape, the
  registry's order), that each operation does to the abstract sequence, multiset or map what it promises, that no
  assertion of the code fails in between, that every loop ends, that releasing visits every element once.
  For the codecs: the computed size is the written size, decoding reads back what was encoded, no truncated message is decoded.  For the
  three programs: a step relation on multisets and lists says what is meant (Controller_Spec, Agent_Spec, Xapp_Spec), and
  the code carries out each step that it allows without a failed assertion, on any fresh memory, with the result
  that it says; the specification keeps its invariant.  For the composition: a subscription session and a
  control request pass through all three programs and leave tables, timers and descriptors as they were; with
  the plug-ins of a service model, what the radio stack reports in the agent is what the callback of the xApp gets, and what
  the xApp commands is what the radio stack is asked.  For the pool of threads: in any order of the steps no task is lost or executed twice, every task is executed as
  long as all threads have turns, and the release ends.
  Where the code does not do what it means to, the theorem says what happens instead (the theorems of the error kind).

  \<^bold>\<open>Interfaces.\<close>  The locales state what one component takes from another: queues (Fifo_Interface), comparison
  functions of trees (Rb_Map) and of the two sides of a bidirectional map (Bimap), the map whose keys only
  grow and that holds the procedures of an xApp (Act_Proc, provided by the registry), a structure that is copied as its bytes (Struct_Wire),
  the plug-ins of one service model in the agent and in the controller (Sm_Session), threads that take turns and whose steps lower a
  rank (Turns); each is interpreted on the definitions of the model.

  \<^bold>\<open>Bounds.\<close>  Request numbers have 16 bits: the specification of the controller allows 65535 requests and that of the
  xApp as many procedures, and theorems say what happens after them.  The listing of the nodes counts in 8 bits: at most 255 nodes.
  Pointer loops are partial functions to the option type (partial_function), so that a loop that did not end would be None; the
  theorems show Some.  No fuel is used.  A queue of the pool holds at most 2147483647 tasks, and the number of turns after which all tasks are executed is the rank of the state.

  \<^bold>\<open>Not modelled.\<close>  The ASN.1 encoding of E2AP and of the service models KPM and RC, which is generated code and
  its glue; the service model TC; FlatBuffers; sqlite3 and the database; sockets, epoll, the loading of plug-ins, the configuration file; the listeners
  of the controller that print or store what they get; releasing messages
  (they are values); versions 1.01 and 3.01 of E2AP, of which one is chosen instead of 2.03 when the program is built.  Of the containers
  the ones that no program uses: the hash table, the list, the locked ring.
\<close>

end
